(* ===== verification/Prelude.thy ===== *)
theory Prelude
  imports Main "HOL-Library.Word"
begin

text \<open>
  Shared vocabulary of the development: the machine integers of the Rust sources, the
  checked and saturating operations of its standard library, results as sums, and the
  generic lemmas on words, lists and maps that the component theories use.

  Integers: \<open>u8\<close>, \<open>u32\<close>, \<open>u64\<close> are words of that width, whose \<open>+\<close> and \<open>-\<close> wrap around as the
  release profile of the workspace does (\<open>src/Cargo.toml\<close> sets no \<open>overflow-checks\<close>). Where an
  overflow must not happen, in the counts of the observability layer, it is \<open>None\<close> instead, and the
  theorems say that the result is not \<open>None\<close>.
  A \<open>usize\<close> that is a length or an index of a vector is a \<open>nat\<close>. A \<open>Result<T, E>\<close> is \<open>'e + 'a\<close>
  with \<open>Inl\<close> for \<open>Err\<close>.
\<close>

section \<open>Collections of facts\<close>

named_theorems wf_intros \<open>introduction rules for the well-formedness predicates\<close>
named_theorems op_defs \<open>definitions of the operations, for unfolding on a concrete input\<close>

section \<open>Machine integers\<close>

type_synonym u8 = "8 word"
type_synonym u32 = "32 word"
type_synonym u64 = "64 word"
type_synonym usize = nat

definition checked_mul_u32 :: "u32 \<Rightarrow> u32 \<Rightarrow> u32 option" where
  "checked_mul_u32 a b = (if unat a * unat b < 2 ^ 32 then Some (a * b) else None)"

definition saturating_add_u64 :: "u64 \<Rightarrow> u64 \<Rightarrow> u64" where
  "saturating_add_u64 a b = (if unat a + unat b < 2 ^ 64 then a + b else - 1)"

definition saturating_sub_u64 :: "u64 \<Rightarrow> u64 \<Rightarrow> u64" where
  "saturating_sub_u64 a b = (if b \<le> a then a - b else 0)"

definition u32_as_u64 :: "u32 \<Rightarrow> u64" where
  "u32_as_u64 a = ucast a"

lemma unat_u32_less [simp]: "unat (a :: u32) < 4294967296"
  using unsigned_less [of a] by simp

lemma unat_u64_less [simp]: "unat (a :: u64) < 18446744073709551616"
  using unsigned_less [of a] by simp

lemma unat_u32_as_u64 [simp]: "unat (u32_as_u64 a) = unat a"
  using order.strict_trans [OF unat_u32_less [of a], of "2 ^ 64"]
  by (simp add: u32_as_u64_def unsigned_ucast_eq take_bit_nat_eq_self)

lemma unat_of_nat_u32 [simp]: "n < 4294967296 \<Longrightarrow> unat (of_nat n :: u32) = n"
  by (simp add: unat_of_nat take_bit_nat_eq_self)

lemma unat_of_nat_u64 [simp]: "n < 18446744073709551616 \<Longrightarrow> unat (of_nat n :: u64) = n"
  by (simp add: unat_of_nat take_bit_nat_eq_self)

lemma unat_u32_minus_one [simp]: "unat (- 1 :: u32) = 4294967295"
  by (simp add: unsigned_minus_1_eq_mask mask_eq_exp_minus_1)

lemma unat_u64_minus_one [simp]: "unat (- 1 :: u64) = 18446744073709551615"
  by (simp add: unsigned_minus_1_eq_mask mask_eq_exp_minus_1)

lemma u32_eq_iff_unat: "(a :: u32) = b \<longleftrightarrow> unat a = unat b"
  by (simp add: word_unat_eq_iff)

lemma u32_ne_max_unat: "(a :: u32) \<noteq> - 1 \<Longrightarrow> unat a < 4294967295"
  using unat_u32_less [of a] by (simp only: u32_eq_iff_unat unat_u32_minus_one)

lemma unat_add_u32:
  "unat a + unat b < 4294967296 \<Longrightarrow> unat (a + b :: u32) = unat a + unat b"
  by (simp add: unat_word_ariths)

lemma unat_add_u64:
  "unat a + unat b < 18446744073709551616 \<Longrightarrow> unat (a + b :: u64) = unat a + unat b"
  by (simp add: unat_word_ariths)

lemma unat_sub_u32: "unat b \<le> unat a \<Longrightarrow> unat (a - b :: u32) = unat a - unat b"
  by (simp add: unat_sub word_le_nat_alt)

lemma unat_sub_u64: "unat b \<le> unat a \<Longrightarrow> unat (a - b :: u64) = unat a - unat b"
  by (simp add: unat_sub word_le_nat_alt)

lemma unat_saturating_add_u64:
  "unat (saturating_add_u64 a b) = min (unat a + unat b) 18446744073709551615"
  by (auto simp: saturating_add_u64_def unat_add_u64)

lemma unat_saturating_sub_u64: "unat (saturating_sub_u64 a b) = unat a - unat b"
  by (auto simp: saturating_sub_u64_def unat_sub_u64 word_le_nat_alt)

lemma checked_mul_u32_Some:
  "checked_mul_u32 a b = Some c \<Longrightarrow> unat c = unat a * unat b"
  by (auto simp: checked_mul_u32_def unat_word_ariths split: if_splits)

section \<open>Lists updated by index\<close>

lemma list_update_split:
  "i < length xs \<Longrightarrow> xs[i := x] ! j = (if j = i then x else xs ! j)"
  by auto


section \<open>Decimal printing\<close>

text \<open>The \<open>Display\<close> of an unsigned integer, which the identifiers use.\<close>

fun decimal :: "nat \<Rightarrow> string" where
  "decimal n =
     (if n < 10 then [char_of (48 + n)]
      else decimal (n div 10) @ [char_of (48 + n mod 10)])"

declare decimal.simps [simp del]


section \<open>Free lists threaded through an array\<close>

text \<open>
  The slab of the resource table and the stacks of the buffer pools keep their free slots in
  a list threaded through the slots: a head index, and in each free slot the index of the
  next, with \<open>u32::MAX\<close> for the end. \<open>chain nxt h is\<close> says that following \<open>nxt\<close> from \<open>h\<close> visits
  exactly the indices \<open>is\<close>; \<open>nxt i\<close> is \<open>None\<close> where slot \<open>i\<close> holds no link.
\<close>

definition link_end :: u32 where
  "link_end = - 1"

fun chain :: "(nat \<Rightarrow> u32 option) \<Rightarrow> u32 \<Rightarrow> nat list \<Rightarrow> bool" where
  "chain nxt h [] \<longleftrightarrow> h = link_end"
| "chain nxt h (i # is) \<longleftrightarrow>
     h \<noteq> link_end \<and> unat h = i \<and> (\<exists>n. nxt i = Some n \<and> chain nxt n is)"

lemma chain_end [simp]: "chain nxt link_end is \<longleftrightarrow> is = []"
  by (cases "is") auto

lemma chain_not_end:
  "h \<noteq> link_end \<Longrightarrow>
   chain nxt h is \<longleftrightarrow> (\<exists>n js. is = unat h # js \<and> nxt (unat h) = Some n \<and> chain nxt n js)"
  by (cases "is") auto

lemma chain_cong:
  "(\<And>i. i \<in> set is \<Longrightarrow> nxt i = nxt' i) \<Longrightarrow> chain nxt h is = chain nxt' h is"
  by (induction "is" arbitrary: h) auto

lemma chain_upd [simp]: "i \<notin> set is \<Longrightarrow> chain (nxt(i := x)) h is = chain nxt h is"
  by (rule chain_cong) auto

lemma chain_unique: "chain nxt h is \<Longrightarrow> chain nxt h js \<Longrightarrow> is = js"
proof (induction "is" arbitrary: h js)
  case (Cons i "is")
  then show ?case by (cases js) auto
qed auto

lemma chain_suffix:
  "chain nxt h (is @ j # js) \<Longrightarrow> \<exists>h'. unat h' = j \<and> h' \<noteq> link_end \<and> chain nxt h' (j # js)"
  by (induction "is" arbitrary: h) auto

lemma chain_distinct: "chain nxt h is \<Longrightarrow> distinct is"
proof (induction "is" arbitrary: h)
  case (Cons i "is")
  then obtain n where n: "nxt i = Some n" "chain nxt n is" "unat h = i" "h \<noteq> link_end" by auto
  have "i \<notin> set is"
  proof
    assume "i \<in> set is"
    then obtain xs ys where split: "is = xs @ i # ys" by (auto simp: in_set_conv_decomp)
    with n(2) obtain h' where "unat h' = i" "h' \<noteq> link_end" "chain nxt h' (i # ys)"
      using chain_suffix by blast
    with n have "chain nxt n ys" by auto
    with n(2) have "is = ys" by (rule chain_unique)
    then have "length is = length ys" by simp
    with split show False by simp
  qed
  with Cons.IH n(2) show ?case by simp
qed simp

lemma chain_linked: "chain nxt h is \<Longrightarrow> i \<in> set is \<Longrightarrow> nxt i \<noteq> None"
  by (induction "is" arbitrary: h) auto

text \<open>Slots \<open>a\<close> to \<open>b - 1\<close>, each linked to the next: what initialisation builds.\<close>

lemma unat_less_max_ne_end: "unat (w :: u32) < 4294967295 \<Longrightarrow> w \<noteq> link_end"
  by (auto simp: link_end_def)

lemma of_nat_ne_end: "n < 4294967295 \<Longrightarrow> (of_nat n :: u32) \<noteq> link_end"
  by (rule unat_less_max_ne_end) simp

lemma chain_run:
  assumes links: "\<And>j. a \<le> j \<Longrightarrow> j < b \<Longrightarrow>
      nxt j = Some (if j + 1 < b then of_nat (j + 1) else link_end)"
    and "b < 4294967296" and "a \<le> i" and "i < b"
  shows "chain nxt (of_nat i) [i..<b]"
  using assms(3,4)
proof (induction "b - i" arbitrary: i)
  case (Suc d)
  have head: "unat (of_nat i :: u32) = i" "(of_nat i :: u32) \<noteq> link_end"
    using assms(2) Suc.prems of_nat_ne_end [of i] by auto
  show ?case
  proof (cases "i + 1 < b")
    case True
    have "d = b - (i + 1)" using Suc.hyps(2) by simp
    from Suc.hyps(1) [OF this] True Suc.prems
    have "chain nxt (of_nat (i + 1)) [i + 1..<b]" by simp
    with True head links [OF Suc.prems] show ?thesis by (simp add: upt_conv_Cons)
  next
    case False
    with Suc.prems have "[i..<b] = [i]" by (simp add: upt_conv_Cons)
    with False head links [OF Suc.prems] show ?thesis by simp
  qed
qed simp

text \<open>The walk along a free list; \<open>fuel\<close> at least the length of the list is enough.\<close>

fun walk_chain :: "(nat \<Rightarrow> u32 option) \<Rightarrow> nat \<Rightarrow> u32 \<Rightarrow> nat list" where
  "walk_chain nxt 0 h = []"
| "walk_chain nxt (Suc fuel) h =
     (if h = link_end then []
      else case nxt (unat h) of
        None \<Rightarrow> []
      | Some n \<Rightarrow> unat h # walk_chain nxt fuel n)"

lemma walk_chain_eq: "chain nxt h is \<Longrightarrow> length is \<le> fuel \<Longrightarrow> walk_chain nxt fuel h = is"
proof (induction "is" arbitrary: h fuel)
  case Nil
  then show ?case by (cases fuel) auto
next
  case (Cons i "is")
  then show ?case by (cases fuel) auto
qed

lemma chain_length:
  assumes ch: "chain nxt h is" and lt: "\<And>i. nxt i \<noteq> None \<Longrightarrow> i < n"
  shows "length is \<le> n"
proof -
  have "set is \<subseteq> {..<n}" using lt chain_linked [OF ch] by auto
  then have "card (set is) \<le> n" using card_mono [of "{..<n}" "set is"] by simp
  with chain_distinct [OF ch] show ?thesis by (simp add: distinct_card)
qed

end
