(* ===== verification/Torvyn_Types.thy ===== *)
theory Torvyn_Types
  imports Prelude
begin

text \<open>
  The leaf crate \<^verbatim>\<open>torvyn-types\<close>: identifiers (\<open>identity.rs\<close>), domain enumerations
  (\<open>enums.rs\<close>), the two lifecycle state machines (\<open>state.rs\<close>) and the error types of
  \<open>error.rs\<close> that the resource manager and the reactor raise.

  Identifiers are newtypes over words. The two state machines are given by the source as a
  table of legal transitions; here the table is a function on pairs of states, and the
  lemmas at the end say what every sequence of legal transitions looks like.
\<close>

section \<open>Identifiers\<close>

datatype component_id = ComponentId (cid_as_u64: u64)
datatype flow_id = FlowId (fid_as_u64: u64)
datatype stream_id = StreamId (sid_as_u64: u64)
datatype resource_id = ResourceId (rid_index: u32) (rid_generation: u32)
datatype buffer_handle = BufferHandle (bh_resource_id: resource_id)

definition rid_next_generation :: "resource_id \<Rightarrow> resource_id" where
  "rid_next_generation r = ResourceId (rid_index r) (rid_generation r + 1)"

text \<open>
  Resource identifiers are ordered lexicographically, so that a finite set of them has a
  canonical enumeration (\<open>sorted_list_of_set\<close>): the order in which a hash set is walked is
  not specified, and this is one order it may take.
\<close>

instantiation resource_id :: linorder
begin

definition less_eq_resource_id :: "resource_id \<Rightarrow> resource_id \<Rightarrow> bool" where
  "less_eq_resource_id a b \<longleftrightarrow>
     rid_index a < rid_index b \<or>
     (rid_index a = rid_index b \<and> rid_generation a \<le> rid_generation b)"

definition less_resource_id :: "resource_id \<Rightarrow> resource_id \<Rightarrow> bool" where
  "less_resource_id a b \<longleftrightarrow>
     rid_index a < rid_index b \<or>
     (rid_index a = rid_index b \<and> rid_generation a < rid_generation b)"

instance
  by standard
    (auto simp: less_eq_resource_id_def less_resource_id_def resource_id.expand)

end

section \<open>Domain enumerations\<close>

datatype component_role = Source | Processor | Sink | Filter | Router

fun role_is_producer :: "component_role \<Rightarrow> bool" where
  "role_is_producer Source = True"
| "role_is_producer Processor = True"
| "role_is_producer Router = True"
| "role_is_producer _ = False"

fun role_is_consumer :: "component_role \<Rightarrow> bool" where
  "role_is_consumer Processor = True"
| "role_is_consumer Sink = True"
| "role_is_consumer Filter = True"
| "role_is_consumer Router = True"
| "role_is_consumer _ = False"

datatype backpressure_signal = Ready | Pause

fun signal_is_paused :: "backpressure_signal \<Rightarrow> bool" where
  "signal_is_paused Pause = True"
| "signal_is_paused Ready = False"

datatype backpressure_policy = BlockProducer | DropOldest | DropNewest | ErrorPolicyBp

fun policy_may_lose_data :: "backpressure_policy \<Rightarrow> bool" where
  "policy_may_lose_data DropOldest = True"
| "policy_may_lose_data DropNewest = True"
| "policy_may_lose_data _ = False"

datatype observability_level = ObsOff | ObsProduction | ObsDiagnostic

fun obs_as_u8 :: "observability_level \<Rightarrow> u8" where
  "obs_as_u8 ObsOff = 0"
| "obs_as_u8 ObsProduction = 1"
| "obs_as_u8 ObsDiagnostic = 2"

definition obs_from_u8 :: "u8 \<Rightarrow> observability_level option" where
  "obs_from_u8 v =
     (if v = 0 then Some ObsOff
      else if v = 1 then Some ObsProduction
      else if v = 2 then Some ObsDiagnostic
      else None)"

fun obs_is_enabled :: "observability_level \<Rightarrow> bool" where
  "obs_is_enabled ObsOff = False"
| "obs_is_enabled _ = True"

fun obs_is_diagnostic :: "observability_level \<Rightarrow> bool" where
  "obs_is_diagnostic ObsDiagnostic = True"
| "obs_is_diagnostic _ = False"

datatype copy_reason = HostToComponent | ComponentToHost | CrossComponent | PoolReturn

section \<open>Errors\<close>

datatype process_error =
    InvalidInput string
  | Unavailable string
  | Internal string
  | DeadlineExceeded
  | Fatal string

fun process_error_is_fatal :: "process_error \<Rightarrow> bool" where
  "process_error_is_fatal (Fatal _) = True"
| "process_error_is_fatal _ = False"

datatype process_error_kind =
  KindInvalidInput | KindUnavailable | KindInternal | KindDeadlineExceeded | KindFatal

fun process_error_kind_of :: "process_error \<Rightarrow> process_error_kind" where
  "process_error_kind_of (InvalidInput _) = KindInvalidInput"
| "process_error_kind_of (Unavailable _) = KindUnavailable"
| "process_error_kind_of (Internal _) = KindInternal"
| "process_error_kind_of DeadlineExceeded = KindDeadlineExceeded"
| "process_error_kind_of (Fatal _) = KindFatal"

text \<open>
  \<open>ResourceError\<close> of \<open>error.rs\<close>, with the owners of \<open>NotOwner\<close> as the strings the code
  formats. The two lease variants exist in the type but nothing raises them.
\<close>

datatype resource_error =
    StaleHandle resource_id
  | NotOwner resource_id string string
  | NotAllocated resource_id
  | BorrowsOutstanding resource_id u32
  | MutableLeaseActive resource_id
  | ReadOnlyLeasesActive resource_id
  | BudgetExceeded component_id u64 u64 u64
  | AllocationFailed u32 string
  | CapacityExceeded resource_id u32 u64
  | OutOfBounds resource_id u64 u64

section \<open>State machines\<close>

record invalid_transition =
  it_machine :: string
  it_from :: string
  it_to :: string

datatype flow_state =
    FlowCreated | FlowValidated | FlowInstantiated | FlowRunning
  | FlowDraining | FlowCompleted | FlowCancelled | FlowFailed

fun flow_can_transition_to :: "flow_state \<Rightarrow> flow_state \<Rightarrow> bool" where
  "flow_can_transition_to FlowCreated FlowValidated = True"
| "flow_can_transition_to FlowCreated FlowFailed = True"
| "flow_can_transition_to FlowValidated FlowInstantiated = True"
| "flow_can_transition_to FlowValidated FlowFailed = True"
| "flow_can_transition_to FlowInstantiated FlowRunning = True"
| "flow_can_transition_to FlowRunning FlowDraining = True"
| "flow_can_transition_to FlowDraining FlowCompleted = True"
| "flow_can_transition_to FlowDraining FlowCancelled = True"
| "flow_can_transition_to FlowDraining FlowFailed = True"
| "flow_can_transition_to _ _ = False"

fun flow_state_name :: "flow_state \<Rightarrow> string" where
  "flow_state_name FlowCreated = ''Created''"
| "flow_state_name FlowValidated = ''Validated''"
| "flow_state_name FlowInstantiated = ''Instantiated''"
| "flow_state_name FlowRunning = ''Running''"
| "flow_state_name FlowDraining = ''Draining''"
| "flow_state_name FlowCompleted = ''Completed''"
| "flow_state_name FlowCancelled = ''Cancelled''"
| "flow_state_name FlowFailed = ''Failed''"

definition flow_transition_to ::
    "flow_state \<Rightarrow> flow_state \<Rightarrow> invalid_transition + flow_state" where
  "flow_transition_to s t =
     (if flow_can_transition_to s t then Inr t
      else Inl \<lparr>it_machine = ''FlowState'', it_from = flow_state_name s,
                it_to = flow_state_name t\<rparr>)"

fun flow_is_terminal :: "flow_state \<Rightarrow> bool" where
  "flow_is_terminal FlowCompleted = True"
| "flow_is_terminal FlowCancelled = True"
| "flow_is_terminal FlowFailed = True"
| "flow_is_terminal _ = False"

fun flow_is_active :: "flow_state \<Rightarrow> bool" where
  "flow_is_active FlowCreated = True"
| "flow_is_active FlowValidated = True"
| "flow_is_active FlowInstantiated = True"
| "flow_is_active FlowRunning = True"
| "flow_is_active FlowDraining = True"
| "flow_is_active _ = False"

datatype resource_state = Pooled | Owned | Borrowed | Leased | InTransit | Freed

fun res_matches :: "resource_state \<Rightarrow> resource_state \<Rightarrow> bool" where
  "res_matches Pooled Owned = True"
| "res_matches Owned Borrowed = True"
| "res_matches Owned Leased = True"
| "res_matches Owned InTransit = True"
| "res_matches Owned Pooled = True"
| "res_matches Owned Freed = True"
| "res_matches Borrowed Owned = True"
| "res_matches Borrowed Borrowed = True"
| "res_matches Leased Owned = True"
| "res_matches InTransit Owned = True"
| "res_matches _ _ = False"

definition res_can_transition_to :: "resource_state \<Rightarrow> resource_state \<Rightarrow> bool" where
  "res_can_transition_to s t = (if t = Freed then True else res_matches s t)"

fun resource_state_name :: "resource_state \<Rightarrow> string" where
  "resource_state_name Pooled = ''Pooled''"
| "resource_state_name Owned = ''Owned''"
| "resource_state_name Borrowed = ''Borrowed''"
| "resource_state_name Leased = ''Leased''"
| "resource_state_name InTransit = ''Transit''"
| "resource_state_name Freed = ''Freed''"

definition res_transition_to ::
    "resource_state \<Rightarrow> resource_state \<Rightarrow> invalid_transition + resource_state" where
  "res_transition_to s t =
     (if res_can_transition_to s t then Inr t
      else Inl \<lparr>it_machine = ''ResourceState'', it_from = resource_state_name s,
                it_to = resource_state_name t\<rparr>)"

fun res_is_terminal :: "resource_state \<Rightarrow> bool" where
  "res_is_terminal Freed = True"
| "res_is_terminal _ = False"

fun res_is_available :: "resource_state \<Rightarrow> bool" where
  "res_is_available Pooled = True"
| "res_is_available _ = False"

fun res_is_active :: "resource_state \<Rightarrow> bool" where
  "res_is_active Owned = True"
| "res_is_active Borrowed = True"
| "res_is_active Leased = True"
| "res_is_active InTransit = True"
| "res_is_active _ = False"


section \<open>The flow lifecycle\<close>

text \<open>
  A run is a sequence of calls of \<open>transition_to\<close> that all return \<open>Ok\<close>. The rank counts
  the transitions a state can still have before it, so it bounds every run.
\<close>

fun flow_run :: "flow_state \<Rightarrow> flow_state list \<Rightarrow> bool" where
  "flow_run s [] \<longleftrightarrow> True"
| "flow_run s (t # ts) \<longleftrightarrow> flow_transition_to s t = Inr t \<and> flow_run t ts"

fun flow_rank :: "flow_state \<Rightarrow> nat" where
  "flow_rank FlowCreated = 0"
| "flow_rank FlowValidated = 1"
| "flow_rank FlowInstantiated = 2"
| "flow_rank FlowRunning = 3"
| "flow_rank FlowDraining = 4"
| "flow_rank _ = 5"

lemma flow_transition_to_Inr [simp]:
  "flow_transition_to s t = Inr u \<longleftrightarrow> u = t \<and> flow_can_transition_to s t"
  by (auto simp: flow_transition_to_def)

lemma flow_can_transition_rank: "flow_can_transition_to s t \<Longrightarrow> flow_rank s < flow_rank t"
  by (cases s; cases t) simp_all

lemma flow_rank_le_5: "flow_rank s \<le> 5"
  by (cases s) simp_all

lemma flow_run_rank: "flow_run s ts \<Longrightarrow> length ts + flow_rank s \<le> 5"
proof (induction ts arbitrary: s)
  case Nil
  show ?case by (simp add: flow_rank_le_5)
next
  case (Cons t ts)
  then have "flow_rank s < flow_rank t" "length ts + flow_rank t \<le> 5"
    by (auto dest: flow_can_transition_rank)
  then show ?case by simp
qed

lemma flow_run_increasing: "flow_run s ts \<Longrightarrow> t \<in> set ts \<Longrightarrow> flow_rank s < flow_rank t"
  by (induction ts arbitrary: s) (auto dest!: flow_can_transition_rank, fastforce)

lemma flow_run_distinct: "flow_run s ts \<Longrightarrow> distinct (s # ts)"
  by (induction ts arbitrary: s)
    (auto dest: flow_can_transition_rank flow_run_increasing order.strict_trans)

lemma flow_can_transition_from:
  "flow_can_transition_to s t \<longleftrightarrow>
     (s = FlowCreated \<and> (t = FlowValidated \<or> t = FlowFailed)) \<or>
     (s = FlowValidated \<and> (t = FlowInstantiated \<or> t = FlowFailed)) \<or>
     (s = FlowInstantiated \<and> t = FlowRunning) \<or>
     (s = FlowRunning \<and> t = FlowDraining) \<or>
     (s = FlowDraining \<and> (t = FlowCompleted \<or> t = FlowCancelled \<or> t = FlowFailed))"
  by (cases s; cases t) simp_all

lemma flow_terminal_run: "flow_is_terminal s \<Longrightarrow> flow_run s ts \<longleftrightarrow> ts = []"
  by (cases ts; cases s) (auto simp: flow_can_transition_from)

lemma flow_is_active_iff: "flow_is_active s \<longleftrightarrow> \<not> flow_is_terminal s"
  by (cases s) simp_all

lemma flow_is_terminal_iff: "flow_is_terminal s \<longleftrightarrow> (\<nexists>t. flow_can_transition_to s t)"
  by (cases s) (auto simp: flow_can_transition_from)

lemma flow_run_Cons:
  "flow_run s (t # ts) \<longleftrightarrow> flow_can_transition_to s t \<and> flow_run t ts"
  by simp

lemma flow_run_completed:
  assumes "flow_run FlowCreated ts" and "FlowCompleted \<in> set ts"
  shows "ts = [FlowValidated, FlowInstantiated, FlowRunning, FlowDraining, FlowCompleted]"
proof -
  have draining: "us = [FlowCompleted]"
    if "flow_run FlowDraining us" "FlowCompleted \<in> set us" for us
    using that by (cases us) (auto simp: flow_can_transition_from flow_terminal_run)
  have running: "us = [FlowDraining, FlowCompleted]"
    if "flow_run FlowRunning us" "FlowCompleted \<in> set us" for us
    using that by (cases us) (auto simp: flow_can_transition_from dest: draining)
  have instantiated: "us = [FlowRunning, FlowDraining, FlowCompleted]"
    if "flow_run FlowInstantiated us" "FlowCompleted \<in> set us" for us
    using that by (cases us) (auto simp: flow_can_transition_from dest: running)
  have validated: "us = [FlowInstantiated, FlowRunning, FlowDraining, FlowCompleted]"
    if "flow_run FlowValidated us" "FlowCompleted \<in> set us" for us
    using that
    by (cases us) (auto simp: flow_can_transition_from flow_terminal_run dest: instantiated)
  show ?thesis
    using assms
    by (cases ts) (auto simp: flow_can_transition_from flow_terminal_run dest: validated)
qed

lemma res_transition_to_Inr [simp]:
  "res_transition_to s t = Inr u \<longleftrightarrow> u = t \<and> res_can_transition_to s t"
  by (auto simp: res_transition_to_def)

lemma obs_roundtrip: "obs_from_u8 (obs_as_u8 l) = Some l"
  by (cases l) (simp_all add: obs_from_u8_def)

lemma obs_from_u8_Some: "obs_from_u8 v = Some l \<Longrightarrow> v = obs_as_u8 l"
  by (auto simp: obs_from_u8_def split: if_splits)

end
