(* ===== verification/Res_Handle.thy ===== *)
theory Res_Handle
  imports Torvyn_Types
begin

text \<open>
  \<open>torvyn-resources/src/handle.rs\<close>: who owns a resource (\<open>OwnerId\<close>), the pool tiers, the
  inline content type, the entry of a live resource and the slot of the resource table.

  A buffer pointer is a \<open>nat\<close> that names an allocation of the heap of \<open>Res_Buffer\<close>. A Rust
  string slice is the list of its UTF-8 bytes; \<open>utf8_valid\<close> is the standard's table of
  well-formed byte sequences, on which the safety of \<open>ContentType::as_str\<close> rests.
\<close>

section \<open>Owners\<close>

datatype owner_id = Host | Component component_id | Transit

fun owner_is_host :: "owner_id \<Rightarrow> bool" where
  "owner_is_host Host = True"
| "owner_is_host _ = False"

fun owner_is_component :: "owner_id \<Rightarrow> bool" where
  "owner_is_component (Component _) = True"
| "owner_is_component _ = False"

fun owner_is_transit :: "owner_id \<Rightarrow> bool" where
  "owner_is_transit Transit = True"
| "owner_is_transit _ = False"

fun owner_component_id :: "owner_id \<Rightarrow> component_id option" where
  "owner_component_id (Component c) = Some c"
| "owner_component_id _ = None"

fun owner_display :: "owner_id \<Rightarrow> string" where
  "owner_display Host = ''host''"
| "owner_display (Component c) = ''component-'' @ decimal (unat (cid_as_u64 c))"
| "owner_display Transit = ''transit''"

section \<open>Pool tiers\<close>

datatype pool_tier = Small | Medium | Large | Huge

fun tier_capacity :: "pool_tier \<Rightarrow> u32" where
  "tier_capacity Small = 256"
| "tier_capacity Medium = 4 * 1024"
| "tier_capacity Large = 64 * 1024"
| "tier_capacity Huge = 1024 * 1024"

definition tier_for_capacity :: "u32 \<Rightarrow> pool_tier" where
  "tier_for_capacity requested =
     (if requested \<le> tier_capacity Small then Small
      else if requested \<le> tier_capacity Medium then Medium
      else if requested \<le> tier_capacity Large then Large
      else Huge)"

definition tier_all :: "pool_tier list" where
  "tier_all = [Small, Medium, Large, Huge]"

lemma tier_capacity_pos [simp]: "0 < unat (tier_capacity t)"
  by (cases t) simp_all

lemma tier_capacity_le [simp]: "unat (tier_capacity t) \<le> 1048576"
  by (cases t) simp_all

lemma tier_for_capacity_le:
  "tier_for_capacity r \<noteq> Huge \<Longrightarrow> r \<le> tier_capacity (tier_for_capacity r)"
  by (auto simp: tier_for_capacity_def)

section \<open>Flags and content types\<close>

record buffer_flags =
  is_fallback :: bool
  read_only :: bool

record content_type =
  ct_data :: "u8 list"
  ct_len :: u8

definition ct_max_len :: usize where
  "ct_max_len = 63"

definition ct_empty :: content_type where
  "ct_empty = \<lparr>ct_data = replicate 63 0, ct_len = 0\<rparr>"

text \<open>
  \<open>str::is_char_boundary\<close>: the ends of the string are boundaries; inside, a position is one
  unless its byte is a continuation byte (\<open>10xxxxxx\<close>).
\<close>

definition is_continuation :: "u8 \<Rightarrow> bool" where
  "is_continuation b \<longleftrightarrow> 128 \<le> b \<and> b < 192"

definition is_char_boundary :: "u8 list \<Rightarrow> usize \<Rightarrow> bool" where
  "is_char_boundary s i =
     (if i = 0 then True
      else if length s \<le> i then i = length s
      else \<not> is_continuation (s ! i))"

text \<open>The loop \<open>while copy_len > 0 && !s.is_char_boundary(copy_len) { copy_len -= 1 }\<close>.\<close>

fun walk_back :: "u8 list \<Rightarrow> usize \<Rightarrow> usize" where
  "walk_back s 0 = 0"
| "walk_back s (Suc n) = (if is_char_boundary s (Suc n) then Suc n else walk_back s n)"

definition ct_from_str :: "u8 list \<Rightarrow> content_type" where
  "ct_from_str s =
     (let copy_len = walk_back s (min (length s) ct_max_len)
      in \<lparr>ct_data = take copy_len s @ replicate (ct_max_len - copy_len) 0,
          ct_len = of_nat copy_len\<rparr>)"

definition ct_as_str :: "content_type \<Rightarrow> u8 list" where
  "ct_as_str c = take (unat (ct_len c)) (ct_data c)"

definition ct_is_empty :: "content_type \<Rightarrow> bool" where
  "ct_is_empty c \<longleftrightarrow> ct_len c = 0"

definition ct_length :: "content_type \<Rightarrow> usize" where
  "ct_length c = unat (ct_len c)"

subsection \<open>Well-formed UTF-8\<close>

definition byte_in :: "nat \<Rightarrow> nat \<Rightarrow> u8 \<Rightarrow> bool" where
  "byte_in lo hi b \<longleftrightarrow> lo \<le> unat b \<and> unat b \<le> hi"

fun utf8_char :: "u8 list \<Rightarrow> bool" where
  "utf8_char [a] \<longleftrightarrow> byte_in 0 127 a"
| "utf8_char [a, b] \<longleftrightarrow> byte_in 194 223 a \<and> byte_in 128 191 b"
| "utf8_char [a, b, c] \<longleftrightarrow>
     byte_in 128 191 c \<and>
     (a = 224 \<and> byte_in 160 191 b \<or>
      byte_in 225 236 a \<and> byte_in 128 191 b \<or>
      a = 237 \<and> byte_in 128 159 b \<or>
      byte_in 238 239 a \<and> byte_in 128 191 b)"
| "utf8_char [a, b, c, d] \<longleftrightarrow>
     byte_in 128 191 c \<and> byte_in 128 191 d \<and>
     (a = 240 \<and> byte_in 144 191 b \<or>
      byte_in 241 243 a \<and> byte_in 128 191 b \<or>
      a = 244 \<and> byte_in 128 143 b)"
| "utf8_char _ \<longleftrightarrow> False"

inductive utf8_valid :: "u8 list \<Rightarrow> bool" where
  utf8_Nil: "utf8_valid []"
| utf8_app: "utf8_char c \<Longrightarrow> utf8_valid r \<Longrightarrow> utf8_valid (c @ r)"

inductive_simps utf8_valid_Nil [simp]: "utf8_valid []"

lemma byte_in_continuation:
  "byte_in lo hi b \<Longrightarrow> 128 \<le> lo \<Longrightarrow> hi \<le> 191 \<Longrightarrow> is_continuation b"
  by (auto simp: byte_in_def is_continuation_def word_le_nat_alt word_less_nat_alt)

lemma utf8_char_Cons: "utf8_char (a # t) \<Longrightarrow> b \<in> set t \<Longrightarrow> is_continuation b"
  by (cases "a # t" rule: utf8_char.cases)
    (auto elim: byte_in_continuation [of 128 191] byte_in_continuation [of 160 191]
      byte_in_continuation [of 128 159] byte_in_continuation [of 144 191]
      byte_in_continuation [of 128 143])

lemma utf8_char_tail:
  assumes "utf8_char c" and "0 < i" and "i < length c"
  shows "is_continuation (c ! i)"
  using assms by (cases c) (auto intro: utf8_char_Cons simp: nth_Cons')

lemma utf8_char_head:
  assumes "utf8_char (a # t)" shows "\<not> is_continuation a"
  using assms
  by (cases "a # t" rule: utf8_char.cases)
    (auto simp: byte_in_def is_continuation_def word_le_nat_alt word_less_nat_alt)

lemma utf8_char_length: "utf8_char c \<Longrightarrow> 1 \<le> length c \<and> length c \<le> 4"
  by (cases c rule: utf8_char.cases) auto

lemma utf8_valid_head:
  assumes "utf8_valid r" and "r = b # bs" shows "\<not> is_continuation b"
  using assms
proof (cases rule: utf8_valid.cases)
  case (utf8_app c r')
  with assms(2) utf8_char_length [of c] show ?thesis
    by (cases c) (auto dest: utf8_char_head)
qed simp

text \<open>Cutting a well-formed string at a character boundary leaves a well-formed string.\<close>

lemma is_char_boundary_app:
  assumes "utf8_char c" and "length c \<le> k"
  shows "is_char_boundary (c @ r) k \<Longrightarrow> is_char_boundary r (k - length c)"
  using assms by (auto simp: is_char_boundary_def nth_append split: if_splits)

lemma utf8_take_boundary:
  "utf8_valid s \<Longrightarrow> is_char_boundary s k \<Longrightarrow> utf8_valid (take k s)"
proof (induction arbitrary: k rule: utf8_valid.induct)
  case utf8_Nil
  show ?case by simp
next
  case (utf8_app c r)
  consider "k = 0" | "0 < k" "k < length c" | "length c \<le> k" by linarith
  then show ?case
  proof cases
    case 1
    then show ?thesis by simp
  next
    case 2
    then have "is_continuation (c ! k)" using utf8_app.hyps utf8_char_tail by blast
    with 2 utf8_app.prems show ?thesis
      by (simp add: is_char_boundary_def nth_append)
  next
    case 3
    with utf8_app have "utf8_valid (take (k - length c) r)"
      by (blast dest: is_char_boundary_app)
    with 3 utf8_app.hyps show ?thesis by (auto intro: utf8_valid.utf8_app)
  qed
qed

lemma walk_back_boundary: "is_char_boundary s (walk_back s n)"
  by (induction n) (auto simp: is_char_boundary_def)

lemma walk_back_le: "walk_back s n \<le> n"
  by (induction n) auto

lemma walk_back_greatest: "is_char_boundary s k \<Longrightarrow> k \<le> n \<Longrightarrow> k \<le> walk_back s n"
  by (induction n) (auto simp: le_Suc_eq)

text \<open>
  The walk stops after at most three steps: four continuation bytes never follow each other
  in a well-formed string.
\<close>

lemma utf8_boundary_near:
  "utf8_valid s \<Longrightarrow> n \<le> length s \<Longrightarrow> \<exists>k \<le> n. n \<le> k + 3 \<and> is_char_boundary s k"
proof (induction arbitrary: n rule: utf8_valid.induct)
  case utf8_Nil
  then show ?case by (auto simp: is_char_boundary_def)
next
  case (utf8_app c r)
  note len = utf8_char_length [OF \<open>utf8_char c\<close>]
  show ?case
  proof (cases "n < length c")
    case True
    with len show ?thesis by (intro exI [of _ 0]) (auto simp: is_char_boundary_def)
  next
    case False
    with utf8_app obtain k where k: "k \<le> n - length c" "n - length c \<le> k + 3"
      "is_char_boundary r k"
      by (metis add_le_imp_le_diff length_append not_le_imp_less
          ordered_cancel_comm_monoid_diff_class.le_diff_conv2 le_diff_conv add.commute)
    show ?thesis
    proof (cases "k = 0")
      case True
      show ?thesis
      proof (cases r)
        case Nil
        with False utf8_app.prems show ?thesis
          by (intro exI [of _ n]) (auto simp: is_char_boundary_def)
      next
        case (Cons b bs)
        have "is_char_boundary (c @ r) (length c)"
          using utf8_valid_head [OF utf8_app.hyps(2)] Cons len
          by (auto simp: is_char_boundary_def nth_append)
        then show ?thesis using False k True by (intro exI [of _ "length c"]) auto
      qed
    next
      case kpos: False
      then have "is_char_boundary (c @ r) (k + length c)"
        using k(3) len by (auto simp: is_char_boundary_def nth_append split: if_splits)
      with False k show ?thesis by (intro exI [of _ "k + length c"]) auto
    qed
  qed
qed

lemma ct_from_str_as_str:
  "ct_as_str (ct_from_str s) = take (walk_back s (min (length s) 63)) s"
proof -
  have "walk_back s (min (length s) 63) \<le> min (length s) 63" by (rule walk_back_le)
  then show ?thesis
    by (auto simp: ct_as_str_def ct_from_str_def ct_max_len_def Let_def unat_of_nat
        take_bit_nat_eq_self)
qed

section \<open>Entries and slots\<close>

type_synonym ptr = nat

record resource_entry =
  e_generation :: u32
  e_state :: resource_state
  e_owner :: owner_id
  e_borrow_count :: u32
  e_buffer_ptr :: ptr
  e_alloc_size :: usize
  e_payload_capacity :: u32
  e_payload_len :: u32
  e_pool_tier :: pool_tier
  e_flags :: buffer_flags
  e_content_type :: content_type
  e_flow_id :: flow_id
  e_created_at_ns :: u64

datatype slot =
    Occupied resource_entry
  | Vacant (vacant_next_free: u32) (vacant_generation: u32)

fun slot_is_occupied :: "slot \<Rightarrow> bool" where
  "slot_is_occupied (Occupied _) = True"
| "slot_is_occupied (Vacant _ _) = False"

fun slot_as_entry :: "slot \<Rightarrow> resource_entry option" where
  "slot_as_entry (Occupied e) = Some e"
| "slot_as_entry (Vacant _ _) = None"

fun slot_generation :: "slot \<Rightarrow> u32" where
  "slot_generation (Occupied e) = e_generation e"
| "slot_generation (Vacant _ g) = g"

record resource_reclaimed =
  rr_resource_id :: resource_id
  rr_previous_state :: resource_state
  rr_previous_owner :: owner_id
  rr_payload_capacity :: u32
  rr_returned_to_pool :: bool

record flow_resource_stats =
  frs_returned_to_pool :: u32
  frs_deallocated :: u32
  frs_total_bytes_released :: u64
  frs_borrows_cleared :: u32

end
