(* ===== verification/Res_Ownership.thy ===== *)
theory Res_Ownership
  imports Res_Handle
begin

text \<open>
  \<open>torvyn-resources/src/ownership.rs\<close> and the error constructors of \<open>error.rs\<close>: the five
  operations that move an entry through its ownership states. Each takes the entry that the
  Rust function borrows mutably and returns it updated.

  The lemmas state the entry invariant that \<open>handle.rs\<close> documents, that every operation
  keeps it and moves only along the table of \<open>state.rs\<close>, and that the operations implement
  an abstract ownership in which the number of borrows is a natural number.
\<close>

section \<open>Error constructors\<close>

definition stale_handle :: "buffer_handle \<Rightarrow> resource_error" where
  "stale_handle h = StaleHandle (bh_resource_id h)"

definition not_owner :: "buffer_handle \<Rightarrow> string \<Rightarrow> string \<Rightarrow> resource_error" where
  "not_owner h expected actual = NotOwner (bh_resource_id h) expected actual"

definition not_allocated :: "buffer_handle \<Rightarrow> resource_error" where
  "not_allocated h = NotAllocated (bh_resource_id h)"

definition borrows_outstanding :: "buffer_handle \<Rightarrow> u32 \<Rightarrow> resource_error" where
  "borrows_outstanding h n = BorrowsOutstanding (bh_resource_id h) n"

definition budget_exceeded :: "component_id \<Rightarrow> u64 \<Rightarrow> u64 \<Rightarrow> u64 \<Rightarrow> resource_error" where
  "budget_exceeded c current requested budget = BudgetExceeded c current requested budget"

definition allocation_failed :: "u32 \<Rightarrow> string \<Rightarrow> resource_error" where
  "allocation_failed capacity reason = AllocationFailed capacity reason"

definition out_of_bounds :: "buffer_handle \<Rightarrow> u64 \<Rightarrow> u64 \<Rightarrow> resource_error" where
  "out_of_bounds h offset sz = OutOfBounds (bh_resource_id h) offset sz"

definition capacity_exceeded :: "buffer_handle \<Rightarrow> u32 \<Rightarrow> u64 \<Rightarrow> resource_error" where
  "capacity_exceeded h capacity attempted =
     CapacityExceeded (bh_resource_id h) capacity attempted"

section \<open>Transitions\<close>

definition own_borrow_start ::
    "buffer_handle \<Rightarrow> resource_entry \<Rightarrow> component_id \<Rightarrow> resource_error + resource_entry" where
  "own_borrow_start h e borrower =
     (case e_state e of
        Owned \<Rightarrow> Inr (e\<lparr>e_borrow_count := e_borrow_count e + 1, e_state := Borrowed\<rparr>)
      | Borrowed \<Rightarrow> Inr (e\<lparr>e_borrow_count := e_borrow_count e + 1, e_state := Borrowed\<rparr>)
      | Pooled \<Rightarrow> Inl (not_allocated h)
      | _ \<Rightarrow> Inl (StaleHandle (bh_resource_id h)))"

definition own_borrow_end ::
    "buffer_handle \<Rightarrow> resource_entry \<Rightarrow> component_id \<Rightarrow> resource_error + resource_entry" where
  "own_borrow_end h e borrower =
     (case e_state e of
        Borrowed \<Rightarrow>
          (if e_borrow_count e = 0 then Inl (StaleHandle (bh_resource_id h))
           else
             let e' = e\<lparr>e_borrow_count := e_borrow_count e - 1\<rparr>
             in Inr (if e_borrow_count e' = 0 then e'\<lparr>e_state := Owned\<rparr> else e'))
      | _ \<Rightarrow> Inl (StaleHandle (bh_resource_id h)))"

text \<open>The checks that \<open>begin_transfer\<close> and \<open>release_to_pool\<close> both make, in their order.\<close>

definition own_exclusive_check ::
    "buffer_handle \<Rightarrow> resource_entry \<Rightarrow> owner_id \<Rightarrow> resource_error option" where
  "own_exclusive_check h e caller =
     (if e_state e \<noteq> Owned then
        (case e_state e of
           Borrowed \<Rightarrow> Some (borrows_outstanding h (e_borrow_count e))
         | Pooled \<Rightarrow> Some (not_allocated h)
         | _ \<Rightarrow> Some (stale_handle h))
      else if e_owner e \<noteq> caller then
        Some (not_owner h (owner_display (e_owner e)) (owner_display caller))
      else if 0 < e_borrow_count e then Some (borrows_outstanding h (e_borrow_count e))
      else None)"

definition own_begin_transfer ::
    "buffer_handle \<Rightarrow> resource_entry \<Rightarrow> owner_id \<Rightarrow> resource_error + resource_entry" where
  "own_begin_transfer h e caller =
     (case own_exclusive_check h e caller of
        Some err \<Rightarrow> Inl err
      | None \<Rightarrow> Inr (e\<lparr>e_state := InTransit, e_owner := Transit\<rparr>))"

definition own_complete_transfer ::
    "buffer_handle \<Rightarrow> resource_entry \<Rightarrow> owner_id \<Rightarrow> resource_error + resource_entry" where
  "own_complete_transfer h e new_owner =
     (if e_state e \<noteq> InTransit then Inl (stale_handle h)
      else Inr (e\<lparr>e_state := Owned, e_owner := new_owner\<rparr>))"

definition own_release_to_pool ::
    "buffer_handle \<Rightarrow> resource_entry \<Rightarrow> owner_id \<Rightarrow> resource_error + resource_entry" where
  "own_release_to_pool h e caller =
     (case own_exclusive_check h e caller of
        Some err \<Rightarrow> Inl err
      | None \<Rightarrow> Inr (e\<lparr>e_state := Pooled\<rparr>))"

section \<open>The entry invariant\<close>

text \<open>
  \<open>handle.rs\<close>: \<open>borrow_count\<close> is zero when the state is not \<open>Borrowed\<close>, and the owner is
  \<open>Transit\<close> only when the state is; \<open>ownership.rs\<close> adds that a borrowed entry has borrows.
\<close>

definition entry_wf :: "resource_entry \<Rightarrow> bool" where
  "entry_wf e \<longleftrightarrow>
     (e_state e = Borrowed \<longleftrightarrow> 0 < e_borrow_count e) \<and>
     (e_owner e = Transit \<longleftrightarrow> e_state e = InTransit)"

lemma word_pos_iff: "0 < (w :: u32) \<longleftrightarrow> w \<noteq> 0"
  by (simp add: word_neq_0_conv)

lemma own_exclusive_check_None:
  "own_exclusive_check h e caller = None \<longleftrightarrow>
     e_state e = Owned \<and> e_owner e = caller \<and> e_borrow_count e = 0"
  by (auto simp: own_exclusive_check_def word_pos_iff split: resource_state.splits)

lemma own_borrow_start_Inr:
  "own_borrow_start h e b = Inr e' \<longleftrightarrow>
     (e_state e = Owned \<or> e_state e = Borrowed) \<and>
     e' = e\<lparr>e_borrow_count := e_borrow_count e + 1, e_state := Borrowed\<rparr>"
  by (auto simp: own_borrow_start_def split: resource_state.splits)

lemma own_borrow_end_Inr:
  "own_borrow_end h e b = Inr e' \<longleftrightarrow>
     e_state e = Borrowed \<and> e_borrow_count e \<noteq> 0 \<and>
     e' = (if e_borrow_count e = 1
           then e\<lparr>e_borrow_count := 0, e_state := Owned\<rparr>
           else e\<lparr>e_borrow_count := e_borrow_count e - 1\<rparr>)"
  by (auto simp: own_borrow_end_def Let_def split: resource_state.splits)

lemma own_begin_transfer_Inr:
  "own_begin_transfer h e c = Inr e' \<longleftrightarrow>
     e_state e = Owned \<and> e_owner e = c \<and> e_borrow_count e = 0 \<and>
     e' = e\<lparr>e_state := InTransit, e_owner := Transit\<rparr>"
  using own_exclusive_check_None [of h e c]
  by (auto simp: own_begin_transfer_def split: option.splits)

lemma own_complete_transfer_Inr:
  "own_complete_transfer h e c = Inr e' \<longleftrightarrow>
     e_state e = InTransit \<and> e' = e\<lparr>e_state := Owned, e_owner := c\<rparr>"
  by (auto simp: own_complete_transfer_def)

lemma own_release_to_pool_Inr:
  "own_release_to_pool h e c = Inr e' \<longleftrightarrow>
     e_state e = Owned \<and> e_owner e = c \<and> e_borrow_count e = 0 \<and> e' = e\<lparr>e_state := Pooled\<rparr>"
  using own_exclusive_check_None [of h e c]
  by (auto simp: own_release_to_pool_def split: option.splits)

lemmas own_op_Inr =
  own_borrow_start_Inr own_borrow_end_Inr own_begin_transfer_Inr own_complete_transfer_Inr
  own_release_to_pool_Inr

text \<open>An operation as a value, so that the whole group can be spoken of at once.\<close>

datatype own_op =
    OpBorrowStart component_id
  | OpBorrowEnd component_id
  | OpBeginTransfer owner_id
  | OpCompleteTransfer owner_id
  | OpReleaseToPool owner_id

fun own_step :: "buffer_handle \<Rightarrow> resource_entry \<Rightarrow> own_op \<Rightarrow> resource_error + resource_entry"
  where
  "own_step h e (OpBorrowStart b) = own_borrow_start h e b"
| "own_step h e (OpBorrowEnd b) = own_borrow_end h e b"
| "own_step h e (OpBeginTransfer c) = own_begin_transfer h e c"
| "own_step h e (OpCompleteTransfer c) = own_complete_transfer h e c"
| "own_step h e (OpReleaseToPool c) = own_release_to_pool h e c"

text \<open>
  Two calls can break the invariant: a borrow when the counter is full (it wraps to zero) and
  a transfer completed in favour of the pseudo-owner \<open>Transit\<close>.
\<close>

fun own_op_ok :: "resource_entry \<Rightarrow> own_op \<Rightarrow> bool" where
  "own_op_ok e (OpBorrowStart b) \<longleftrightarrow> e_borrow_count e \<noteq> - 1"
| "own_op_ok e (OpCompleteTransfer c) \<longleftrightarrow> c \<noteq> Transit"
| "own_op_ok e _ \<longleftrightarrow> True"

lemma u32_plus_1_eq_0: "(w :: u32) + 1 = 0 \<longleftrightarrow> w = - 1"
  by (simp add: eq_neg_iff_add_eq_0)

lemma own_step_wf:
  "own_step h e op = Inr e' \<Longrightarrow> entry_wf e \<Longrightarrow> own_op_ok e op \<Longrightarrow> entry_wf e'"
  by (cases op)
    (auto simp: own_op_Inr entry_wf_def word_pos_iff u32_plus_1_eq_0 split: if_splits)

lemma own_step_legal:
  "own_step h e op = Inr e' \<Longrightarrow> res_can_transition_to (e_state e) (e_state e')"
  by (cases op) (auto simp: own_op_Inr res_can_transition_to_def)

section \<open>Abstract ownership\<close>

text \<open>
  What the reader of the documentation has in mind: a resource is held by an owner, with some
  number of readers; it can be handed over or given back only when there are none.
\<close>

datatype ownership =
    Held owner_id nat
  | Moving
  | InPool
  | Dead

fun own_spec :: "ownership \<Rightarrow> own_op \<Rightarrow> ownership option" where
  "own_spec (Held c n) (OpBorrowStart _) = Some (Held c (Suc n))"
| "own_spec (Held c (Suc n)) (OpBorrowEnd _) = Some (Held c n)"
| "own_spec (Held c 0) (OpBeginTransfer d) = (if c = d then Some Moving else None)"
| "own_spec (Held c 0) (OpReleaseToPool d) = (if c = d then Some InPool else None)"
| "own_spec Moving (OpCompleteTransfer d) = Some (Held d 0)"
| "own_spec _ _ = None"

definition own_abs :: "resource_entry \<Rightarrow> ownership" where
  "own_abs e =
     (case e_state e of
        Owned \<Rightarrow> Held (e_owner e) 0
      | Borrowed \<Rightarrow> Held (e_owner e) (unat (e_borrow_count e))
      | InTransit \<Rightarrow> Moving
      | Pooled \<Rightarrow> InPool
      | _ \<Rightarrow> Dead)"

fun sum_to_option :: "'e + 'a \<Rightarrow> 'a option" where
  "sum_to_option (Inl _) = None"
| "sum_to_option (Inr a) = Some a"

lemma own_abs_Held:
  "own_abs e = Held c n \<longleftrightarrow>
     (e_state e = Owned \<and> n = 0 \<and> c = e_owner e) \<or>
     (e_state e = Borrowed \<and> n = unat (e_borrow_count e) \<and> c = e_owner e)"
  by (auto simp: own_abs_def split: resource_state.splits)

lemma unat_inc_borrow: "(w :: u32) \<noteq> - 1 \<Longrightarrow> unat (w + 1) = Suc (unat w)"
  using u32_ne_max_unat [of w] by (simp add: unat_add_u32)

lemma unat_dec_borrow: "(w :: u32) \<noteq> 0 \<Longrightarrow> unat w = Suc (unat (w - 1))"
  using unat_gt_0 [of w] by (simp add: unat_sub_u32 Suc_leI)


lemma own_step_borrow_start_abs:
  assumes "entry_wf e" and "e_borrow_count e \<noteq> - 1"
  shows "map_option own_abs (sum_to_option (own_borrow_start h e b)) =
           own_spec (own_abs e) (OpBorrowStart b)"
  using assms
  by (cases "e_state e")
    (auto simp: own_borrow_start_def own_abs_def entry_wf_def word_pos_iff unat_inc_borrow)

lemma own_step_borrow_end_abs:
  assumes "entry_wf e"
  shows "map_option own_abs (sum_to_option (own_borrow_end h e b)) =
           own_spec (own_abs e) (OpBorrowEnd b)"
proof (cases "e_state e = Borrowed")
  case True
  with assms have "e_borrow_count e \<noteq> 0" by (auto simp: entry_wf_def)
  with True show ?thesis
    using unat_dec_borrow [of "e_borrow_count e"]
    by (auto simp: own_borrow_end_def own_abs_def Let_def)
next
  case False
  then show ?thesis
    by (cases "e_state e") (auto simp: own_borrow_end_def own_abs_def)
qed

lemma own_exclusive_abs:
  assumes "entry_wf e"
  shows "own_exclusive_check h e c = None \<longleftrightarrow> own_abs e = Held c 0"
  using assms unat_gt_0 [of "e_borrow_count e"]
  by (auto simp: own_exclusive_check_None own_abs_Held entry_wf_def word_pos_iff)

lemma own_spec_exclusive:
  "own_spec a (OpBeginTransfer c) = (if a = Held c 0 then Some Moving else None)"
  "own_spec a (OpReleaseToPool c) = (if a = Held c 0 then Some InPool else None)"
  by (cases "(a, OpBeginTransfer c)" rule: own_spec.cases;
      cases "(a, OpReleaseToPool c)" rule: own_spec.cases; auto)+

lemma own_step_exclusive_abs:
  assumes "entry_wf e"
  shows "map_option own_abs (sum_to_option (own_begin_transfer h e c)) =
           own_spec (own_abs e) (OpBeginTransfer c)"
    and "map_option own_abs (sum_to_option (own_release_to_pool h e c)) =
           own_spec (own_abs e) (OpReleaseToPool c)"
  using own_exclusive_abs [OF assms, of h c]
  by (auto simp: own_begin_transfer_def own_release_to_pool_def own_spec_exclusive own_abs_def
      split: option.splits)

lemma own_step_complete_abs:
  "map_option own_abs (sum_to_option (own_complete_transfer h e c)) =
     own_spec (own_abs e) (OpCompleteTransfer c)"
  by (cases "e_state e") (auto simp: own_complete_transfer_def own_abs_def)

lemma own_step_abs:
  assumes "entry_wf e" and "own_op_ok e op"
  shows "map_option own_abs (sum_to_option (own_step h e op)) = own_spec (own_abs e) op"
  using assms
  by (cases op)
    (simp_all add: own_step_borrow_start_abs own_step_borrow_end_abs own_step_exclusive_abs
      own_step_complete_abs del: own_spec.simps)

end
