(* ===== verification/Res_Table.thy ===== *)
theory Res_Table
  imports Res_Ownership
begin

text \<open>
  \<open>torvyn-resources/src/table.rs\<close>: the generational slab of live resources. A slot is
  occupied or linked into the free list; the generation of a slot grows with every insertion
  into it, so a handle of an earlier occupant no longer matches.

  \<open>table_insert\<close> is \<open>None\<close> where the code would panic (the free head outside the slots).
  \<open>get_mut\<close> is \<open>table_get\<close> followed by \<open>table_set\<close> with the entry the caller has changed.
\<close>

section \<open>The slab\<close>

definition free_list_end :: u32 where
  "free_list_end = - 1"

definition default_initial_capacity :: u32 where
  "default_initial_capacity = 65536"

record resource_table =
  t_entries :: "slot list"
  t_free_head :: u32
  t_len :: u32
  t_capacity :: u32

text \<open>The loop that makes slots \<open>a\<close> to \<open>b - 1\<close>, each linked to the next.\<close>

definition vacant_run :: "nat \<Rightarrow> nat \<Rightarrow> slot list" where
  "vacant_run a b =
     map (\<lambda>i. Vacant (if i + 1 < b then of_nat (i + 1) else free_list_end) 0) [a..<b]"

definition table_new :: "u32 \<Rightarrow> resource_table option" where
  "table_new initial_capacity =
     (if 0 < initial_capacity then
        Some \<lparr>t_entries = vacant_run 0 (unat initial_capacity), t_free_head = 0, t_len = 0,
              t_capacity = initial_capacity\<rparr>
      else None)"

definition table_is_empty :: "resource_table \<Rightarrow> bool" where
  "table_is_empty t \<longleftrightarrow> t_len t = 0"

definition table_grow :: "resource_table \<Rightarrow> resource_error + resource_table" where
  "table_grow t =
     (case checked_mul_u32 (t_capacity t) 2 of
        None \<Rightarrow> Inl (allocation_failed 0 ''resource table capacity overflow (> u32::MAX)'')
      | Some new_cap \<Rightarrow>
          Inr (t\<lparr>t_entries := t_entries t @ vacant_run (unat (t_capacity t)) (unat new_cap),
                 t_free_head := t_capacity t, t_capacity := new_cap\<rparr>))"

definition table_take_slot ::
    "resource_table \<Rightarrow> resource_entry \<Rightarrow> ((resource_error + resource_id) \<times> resource_table) option"
  where
  "table_take_slot t e =
     (let index = t_free_head t
      in if length (t_entries t) \<le> unat index then None
         else case t_entries t ! unat index of
             Vacant next_free generation \<Rightarrow>
               (let new_generation = generation + 1
                in Some (Inr (ResourceId index new_generation),
                         t\<lparr>t_free_head := next_free,
                           t_entries := (t_entries t)[unat index :=
                             Occupied (e\<lparr>e_generation := new_generation\<rparr>)],
                           t_len := t_len t + 1\<rparr>))
           | Occupied _ \<Rightarrow>
               Some (Inl (allocation_failed 0
                 ''internal error: free_head pointed to an occupied slot''), t))"

definition table_insert ::
    "resource_table \<Rightarrow> resource_entry \<Rightarrow> ((resource_error + resource_id) \<times> resource_table) option"
  where
  "table_insert t e =
     (if t_free_head t = free_list_end then
        (case table_grow t of
           Inl err \<Rightarrow> Some (Inl err, t)
         | Inr t' \<Rightarrow> table_take_slot t' e)
      else table_take_slot t e)"

definition table_get :: "resource_table \<Rightarrow> buffer_handle \<Rightarrow> resource_error + resource_entry" where
  "table_get t h =
     (let r = bh_resource_id h; index = unat (rid_index r)
      in if length (t_entries t) \<le> index then Inl (stale_handle h)
         else case t_entries t ! index of
             Occupied e \<Rightarrow>
               (if e_generation e = rid_generation r then Inr e else Inl (stale_handle h))
           | Vacant _ _ \<Rightarrow> Inl (not_allocated h))"

definition table_set :: "resource_table \<Rightarrow> buffer_handle \<Rightarrow> resource_entry \<Rightarrow> resource_table" where
  "table_set t h e =
     t\<lparr>t_entries := (t_entries t)[unat (rid_index (bh_resource_id h)) := Occupied e]\<rparr>"

definition table_remove ::
    "resource_table \<Rightarrow> buffer_handle \<Rightarrow> resource_error + resource_entry \<times> resource_table" where
  "table_remove t h =
     (let r = bh_resource_id h; index = unat (rid_index r)
      in if length (t_entries t) \<le> index then Inl (stale_handle h)
         else case t_entries t ! index of
             Occupied e \<Rightarrow>
               (if e_generation e \<noteq> rid_generation r then Inl (stale_handle h)
                else Inr (e, t\<lparr>t_entries := (t_entries t)[index :=
                                 Vacant (t_free_head t) (e_generation e)],
                               t_free_head := of_nat index,
                               t_len := t_len t - 1\<rparr>))
           | Vacant _ _ \<Rightarrow> Inl (not_allocated h))"

text \<open>\<open>iter\<close>: the occupied slots in index order, with their identifiers.\<close>

definition table_iter :: "resource_table \<Rightarrow> (resource_id \<times> resource_entry) list" where
  "table_iter t =
     List.map_filter
       (\<lambda>(i, s). case s of
           Occupied e \<Rightarrow> Some (ResourceId (of_nat i) (e_generation e), e)
         | Vacant _ _ \<Rightarrow> None)
       (enumerate 0 (t_entries t))"

section \<open>The invariant\<close>

definition slot_link :: "slot list \<Rightarrow> nat \<Rightarrow> u32 option" where
  "slot_link es i =
     (if i < length es then (case es ! i of Vacant n _ \<Rightarrow> Some n | Occupied _ \<Rightarrow> None) else None)"

definition vacant_idx :: "slot list \<Rightarrow> nat set" where
  "vacant_idx es = {i. i < length es \<and> \<not> slot_is_occupied (es ! i)}"

definition occupied_idx :: "slot list \<Rightarrow> nat set" where
  "occupied_idx es = {i. i < length es \<and> slot_is_occupied (es ! i)}"

definition table_inv :: "resource_table \<Rightarrow> bool" where
  "table_inv t \<longleftrightarrow>
     length (t_entries t) = unat (t_capacity t) \<and> 0 < t_capacity t \<and>
     (\<exists>fl. chain (slot_link (t_entries t)) (t_free_head t) fl \<and>
           set fl = vacant_idx (t_entries t)) \<and>
     unat (t_len t) = card (occupied_idx (t_entries t))"

definition table_abs :: "resource_table \<Rightarrow> resource_id \<rightharpoonup> resource_entry" where
  "table_abs t r =
     (if unat (rid_index r) < length (t_entries t) then
        (case t_entries t ! unat (rid_index r) of
           Occupied e \<Rightarrow> if e_generation e = rid_generation r then Some e else None
         | Vacant _ _ \<Rightarrow> None)
      else None)"

lemma free_list_end_link [simp]: "free_list_end = link_end"
  by (simp add: free_list_end_def link_end_def)

lemma length_vacant_run [simp]: "length (vacant_run a b) = b - a"
  by (simp add: vacant_run_def)

lemma nth_vacant_run:
  "i < b - a \<Longrightarrow>
   vacant_run a b ! i = Vacant (if a + i + 1 < b then of_nat (a + i + 1) else link_end) 0"
  by (simp add: vacant_run_def)

lemma vacant_run_chain:
  assumes "length es = a" and "b < 4294967296" and "a \<le> i" and "i < b"
  shows "chain (slot_link (es @ vacant_run a b)) (of_nat i) [i..<b]"
proof (rule chain_run)
  fix j assume "a \<le> j" "j < b"
  then show "slot_link (es @ vacant_run a b) j =
      Some (if j + 1 < b then of_nat (j + 1) else link_end)"
    using assms(1) by (simp add: slot_link_def nth_append nth_vacant_run)
qed (use assms in auto)

lemma vacant_idx_app_run:
  "length es = a \<Longrightarrow> vacant_idx (es @ vacant_run a b) = vacant_idx es \<union> {a..<b}"
  by (auto simp: vacant_idx_def nth_append nth_vacant_run)

lemma occupied_idx_app_run:
  assumes "length es = a" shows "occupied_idx (es @ vacant_run a b) = occupied_idx es"
proof (rule set_eqI)
  fix i
  show "i \<in> occupied_idx (es @ vacant_run a b) \<longleftrightarrow> i \<in> occupied_idx es"
    using assms
    by (cases "i < a") (auto simp: occupied_idx_def nth_append nth_vacant_run diff_less_mono)
qed

lemma finite_occupied_idx [simp]: "finite (occupied_idx es)"
  by (simp add: occupied_idx_def)

lemma idx_partition: "occupied_idx es \<union> vacant_idx es = {..<length es}"
  and idx_disjoint: "occupied_idx es \<inter> vacant_idx es = {}"
  by (auto simp: occupied_idx_def vacant_idx_def)

lemma card_occupied_le: "card (occupied_idx es) \<le> length es"
  using card_mono [of "{..<length es}" "occupied_idx es"] idx_partition [of es] by auto

lemma card_occupied_less: "i \<in> vacant_idx es \<Longrightarrow> card (occupied_idx es) < length es"
  using psubset_card_mono [of "{..<length es}" "occupied_idx es"] idx_partition [of es]
    idx_disjoint [of es] by auto

lemma slot_link_update:
  "i < length es \<Longrightarrow> slot_link (es[i := s]) =
     (slot_link es)(i := (case s of Vacant n _ \<Rightarrow> Some n | Occupied _ \<Rightarrow> None))"
  by (auto simp: slot_link_def fun_eq_iff)

lemma idx_update_occupied:
  "i < length es \<Longrightarrow> occupied_idx (es[i := Occupied e]) = insert i (occupied_idx es)"
  "i < length es \<Longrightarrow> vacant_idx (es[i := Occupied e]) = vacant_idx es - {i}"
  by (auto simp: occupied_idx_def vacant_idx_def nth_list_update split: if_splits)

lemma idx_update_vacant:
  "i < length es \<Longrightarrow> occupied_idx (es[i := Vacant n g]) = occupied_idx es - {i}"
  "i < length es \<Longrightarrow> vacant_idx (es[i := Vacant n g]) = insert i (vacant_idx es)"
  by (auto simp: occupied_idx_def vacant_idx_def nth_list_update split: if_splits)

section \<open>Operations keep the invariant\<close>

lemma table_new_inv:
  assumes "table_new c = Some t"
  shows "table_inv t" and "table_abs t = Map.empty" and "t_capacity t = c" and "t_len t = 0"
proof -
  have c: "0 < c" and t: "t = \<lparr>t_entries = vacant_run 0 (unat c), t_free_head = 0, t_len = 0,
      t_capacity = c\<rparr>"
    using assms by (auto simp: table_new_def split: if_splits)
  have "chain (slot_link ([] @ vacant_run 0 (unat c))) (of_nat 0) [0..<unat c]"
    using c by (intro vacant_run_chain) (simp_all add: unat_gt_0 word_pos_iff)
  moreover have "set [0..<unat c] = vacant_idx (vacant_run 0 (unat c))"
    using vacant_idx_app_run [of "[]" 0 "unat c"] by (simp add: vacant_idx_def)
  moreover have "occupied_idx (vacant_run 0 (unat c)) = {}"
    using occupied_idx_app_run [of "[]" 0 "unat c"] by (simp add: occupied_idx_def)
  ultimately show "table_inv t"
    using c by (auto simp: table_inv_def t intro!: exI [of _ "[0..<unat c]"])
  show "table_abs t = Map.empty"
    by (auto simp: table_abs_def t nth_vacant_run fun_eq_iff)
  show "t_capacity t = c" "t_len t = 0" by (simp_all add: t)
qed

text \<open>
  The slab grows only when every slot is taken; it fails only when the doubled capacity does
  not fit in 32 bits, and then leaves the table as it is.
\<close>

lemma table_grow_inv:
  assumes inv: "table_inv t" and full: "t_free_head t = link_end" and grow: "table_grow t = Inr t'"
  shows "table_inv t'" and "table_abs t' = table_abs t" and "t_free_head t' \<noteq> link_end"
    and "t_len t' = t_len t" and "unat (t_capacity t') = 2 * unat (t_capacity t)"
proof -
  let ?es = "t_entries t" and ?c = "unat (t_capacity t)"
  obtain nc where nc: "unat nc = ?c * 2"
    and t': "t' = t\<lparr>t_entries := ?es @ vacant_run ?c (unat nc), t_free_head := t_capacity t,
               t_capacity := nc\<rparr>"
    using grow by (auto simp: table_grow_def dest: checked_mul_u32_Some split: option.splits)
  have len: "length ?es = ?c" and cpos: "0 < ?c" and vac: "vacant_idx ?es = {}"
    using inv full by (auto simp: table_inv_def unat_gt_0 word_pos_iff)
  have lt: "?c < unat nc" using nc cpos by simp
  have "chain (slot_link (?es @ vacant_run ?c (unat nc))) (of_nat ?c) [?c..<unat nc]"
    using len lt by (intro vacant_run_chain) simp_all
  moreover have "set [?c..<unat nc] = vacant_idx (?es @ vacant_run ?c (unat nc))"
    using len vac by (simp add: vacant_idx_app_run)
  ultimately show "table_inv t'"
    using inv len lt nc cpos
    by (auto simp: table_inv_def t' occupied_idx_app_run word_pos_iff intro!: exI
        [of _ "[?c..<unat nc]"])
  show "table_abs t' = table_abs t"
    using len lt by (auto simp: table_abs_def t' fun_eq_iff nth_append nth_vacant_run)
  have "?c < 4294967295" using lt unat_u32_less [of nc] by linarith
  then show "t_free_head t' \<noteq> link_end" by (simp add: t' unat_less_max_ne_end)
  show "t_len t' = t_len t" "unat (t_capacity t') = 2 * ?c" using nc by (simp_all add: t')
qed

lemma table_take_slot_inv:
  assumes inv: "table_inv t" and head: "t_free_head t \<noteq> link_end"
  shows "\<exists>r e' t'. table_take_slot t e = Some (Inr r, t') \<and> table_inv t' \<and>
           table_abs t r = None \<and> e' = e\<lparr>e_generation := rid_generation r\<rparr> \<and>
           table_abs t' = (table_abs t)(r \<mapsto> e') \<and> unat (t_len t') = Suc (unat (t_len t)) \<and>
           r = ResourceId (t_free_head t)
                 (slot_generation (t_entries t ! unat (t_free_head t)) + 1)"
proof -
  let ?es = "t_entries t" and ?i = "unat (t_free_head t)"
  obtain fl where fl: "chain (slot_link ?es) (t_free_head t) fl" "set fl = vacant_idx ?es"
    using inv by (auto simp: table_inv_def)
  with head obtain n js where link: "slot_link ?es ?i = Some n"
    and ch: "chain (slot_link ?es) n js" and fl_eq: "fl = ?i # js"
    by (auto simp: chain_not_end)
  have js: "set (?i # js) = vacant_idx ?es" "?i \<notin> set js"
    using chain_distinct [OF fl(1)] fl(2) fl_eq by simp_all
  obtain g where slot: "?es ! ?i = Vacant n g" and i: "?i < length ?es"
    using link by (auto simp: slot_link_def split: if_splits slot.splits)
  let ?r = "ResourceId (t_free_head t) (g + 1)" and ?e = "e\<lparr>e_generation := g + 1\<rparr>"
  let ?t = "t\<lparr>t_free_head := n, t_entries := ?es[?i := Occupied ?e], t_len := t_len t + 1\<rparr>"
  have step: "table_take_slot t e = Some (Inr ?r, ?t)"
    using i slot by (simp add: table_take_slot_def Let_def)
  have "chain (slot_link (?es[?i := Occupied ?e])) n js"
    using i ch js(2) by (simp add: slot_link_update)
  moreover have "set js = vacant_idx (?es[?i := Occupied ?e])"
    using i js by (auto simp: idx_update_occupied)
  moreover have card: "card (occupied_idx (?es[?i := Occupied ?e])) = Suc (card (occupied_idx ?es))"
    using i slot by (simp add: idx_update_occupied) (simp add: occupied_idx_def)
  moreover have "card (occupied_idx ?es) < unat (t_capacity t)"
    using card_occupied_less [of ?i ?es] js inv by (auto simp: table_inv_def)
  then have len: "unat (t_len t + 1) = Suc (unat (t_len t))"
    using inv unat_u32_less [of "t_capacity t"]
    by (subst unat_add_u32) (auto simp: table_inv_def simp del: unat_u32_less)
  ultimately have "table_inv ?t"
    using inv by (auto simp: table_inv_def)
  moreover have "table_abs t ?r = None" using slot by (simp add: table_abs_def)
  moreover have "table_abs ?t = (table_abs t)(?r \<mapsto> ?e)"
  proof
    fix x :: resource_id
    show "table_abs ?t x = ((table_abs t)(?r \<mapsto> ?e)) x"
      using i slot
      by (cases x) (auto simp: table_abs_def nth_list_update u32_eq_iff_unat [of "t_free_head t"]
          u32_eq_iff_unat [of _ "t_free_head t"])
  qed
  ultimately show ?thesis using step len slot by auto
qed


lemma table_insert_cases:
  assumes inv: "table_inv t"
  shows "(\<exists>err. table_insert t e = Some (Inl err, t) \<and> vacant_idx (t_entries t) = {} \<and>
             4294967296 \<le> 2 * unat (t_capacity t)) \<or>
         (\<exists>r t'. table_insert t e = Some (Inr r, t') \<and> table_inv t' \<and> table_abs t r = None \<and>
             table_abs t' = (table_abs t)(r \<mapsto> e\<lparr>e_generation := rid_generation r\<rparr>) \<and>
             unat (t_len t') = Suc (unat (t_len t)))"
proof (cases "t_free_head t = link_end")
  case False
  then show ?thesis
    using table_take_slot_inv [OF inv False, of e] by (auto simp: table_insert_def)
next
  case True
  show ?thesis
  proof (cases "table_grow t")
    case (Inl err)
    then have "4294967296 \<le> 2 * unat (t_capacity t)"
      by (auto simp: table_grow_def checked_mul_u32_def split: option.splits if_splits)
    moreover have "vacant_idx (t_entries t) = {}" using inv True by (auto simp: table_inv_def)
    ultimately show ?thesis using True Inl by (simp add: table_insert_def)
  next
    case (Inr t1)
    note g = table_grow_inv [OF inv True Inr]
    show ?thesis
      using table_take_slot_inv [OF g(1,3), of e] True Inr g(2,4)
      by (auto simp: table_insert_def)
  qed
qed

lemma table_insert_total: "table_inv t \<Longrightarrow> \<exists>res t'. table_insert t e = Some (res, t')"
  using table_insert_cases [of t e] by blast

lemma table_insert_ok:
  assumes "table_inv t" and "table_insert t e = Some (Inr r, t')"
  shows "table_inv t'" and "table_abs t r = None"
    and "table_abs t' = (table_abs t)(r \<mapsto> e\<lparr>e_generation := rid_generation r\<rparr>)"
    and "unat (t_len t') = Suc (unat (t_len t))"
  using table_insert_cases [OF assms(1), of e] assms(2) by auto

lemma table_insert_err: "table_inv t \<Longrightarrow> table_insert t e = Some (Inl err, t') \<Longrightarrow> t' = t"
  using table_insert_cases [of t e] by auto

lemma table_get_iff: "table_get t h = Inr e \<longleftrightarrow> table_abs t (bh_resource_id h) = Some e"
  by (auto simp: table_get_def table_abs_def Let_def split: slot.splits if_splits)

lemma table_abs_generation: "table_abs t r = Some e \<Longrightarrow> e_generation e = rid_generation r"
  by (auto simp: table_abs_def split: slot.splits if_splits)

lemma table_abs_slot:
  "table_abs t r = Some e \<longleftrightarrow>
     unat (rid_index r) < length (t_entries t) \<and>
     t_entries t ! unat (rid_index r) = Occupied e \<and> e_generation e = rid_generation r"
  by (auto simp: table_abs_def split: slot.splits if_splits)

lemma table_set_inv:
  assumes inv: "table_inv t" and live: "table_abs t (bh_resource_id h) = Some e0"
    and gen: "e_generation e = e_generation e0"
  shows "table_inv (table_set t h e)"
    and "table_abs (table_set t h e) = (table_abs t)(bh_resource_id h \<mapsto> e)"
proof -
  let ?es = "t_entries t" and ?i = "unat (rid_index (bh_resource_id h))"
  have i: "?i < length ?es" and slot: "?es ! ?i = Occupied e0"
    using live by (simp_all add: table_abs_slot)
  have link: "slot_link (?es[?i := Occupied e]) = slot_link ?es"
    using i slot by (auto simp: slot_link_update) (simp add: slot_link_def fun_eq_iff)
  have occ: "occupied_idx (?es[?i := Occupied e]) = occupied_idx ?es"
    and vac: "vacant_idx (?es[?i := Occupied e]) = vacant_idx ?es"
    using i slot by (auto simp: idx_update_occupied) (auto simp: occupied_idx_def vacant_idx_def)
  show "table_inv (table_set t h e)"
    using inv by (simp add: table_inv_def table_set_def link occ vac)
  show "table_abs (table_set t h e) = (table_abs t)(bh_resource_id h \<mapsto> e)"
  proof
    fix x :: resource_id
    show "table_abs (table_set t h e) x = ((table_abs t)(bh_resource_id h \<mapsto> e)) x"
      using i slot live gen
      by (cases x; cases "bh_resource_id h")
        (auto simp: table_abs_def table_set_def nth_list_update u32_eq_iff_unat
          split: slot.splits if_splits)
  qed
qed

lemma table_remove_iff:
  "table_remove t h = Inr (e, t') \<longleftrightarrow>
     table_abs t (bh_resource_id h) = Some e \<and>
     t' = t\<lparr>t_entries := (t_entries t)[unat (rid_index (bh_resource_id h)) :=
               Vacant (t_free_head t) (rid_generation (bh_resource_id h))],
            t_free_head := rid_index (bh_resource_id h), t_len := t_len t - 1\<rparr>"
  by (auto simp: table_remove_def table_abs_def Let_def split: slot.splits if_splits)

lemma table_remove_inv:
  assumes inv: "table_inv t" and rem: "table_remove t h = Inr (e, t')"
  shows "table_inv t'" and "table_abs t' = (table_abs t)(bh_resource_id h := None)"
    and "Suc (unat (t_len t')) = unat (t_len t)"
proof -
  let ?es = "t_entries t" and ?r = "bh_resource_id h"
  let ?i = "unat (rid_index ?r)"
  let ?es' = "?es[?i := Vacant (t_free_head t) (rid_generation ?r)]"
  have live: "table_abs t ?r = Some e"
    and t': "t' = t\<lparr>t_entries := ?es', t_free_head := rid_index ?r, t_len := t_len t - 1\<rparr>"
    using rem by (simp_all add: table_remove_iff)
  have i: "?i < length ?es" and slot: "?es ! ?i = Occupied e" using live by (simp_all add: table_abs_slot)
  obtain fl where ch: "chain (slot_link ?es) (t_free_head t) fl" and fl: "set fl = vacant_idx ?es"
    using inv by (auto simp: table_inv_def)
  have notin: "?i \<notin> set fl" using fl slot by (simp add: vacant_idx_def)
  have "?i < 4294967295"
    using i inv unat_u32_less [of "t_capacity t"] by (auto simp: table_inv_def simp del: unat_u32_less)
  then have ch': "chain (slot_link ?es') (rid_index ?r) (?i # fl)"
    using i ch notin by (simp add: slot_link_update unat_less_max_ne_end)
  have occ: "card (occupied_idx ?es') = card (occupied_idx ?es) - 1" "?i \<in> occupied_idx ?es"
    using i slot by (simp_all add: idx_update_vacant) (simp_all add: occupied_idx_def)
  then have pos: "0 < card (occupied_idx ?es)" by (auto simp: card_gt_0_iff)
  then have len: "Suc (unat (t_len t - 1)) = unat (t_len t)"
    using inv by (subst unat_sub_u32) (auto simp: table_inv_def)
  show "table_inv t'"
    using inv ch' fl i occ(1) len
    by (auto simp: table_inv_def t' idx_update_vacant intro!: exI [of _ "?i # fl"])
  show "Suc (unat (t_len t')) = unat (t_len t)" using len by (simp add: t')
  show "table_abs t' = (table_abs t)(?r := None)"
  proof
    fix x :: resource_id
    show "table_abs t' x = ((table_abs t)(?r := None)) x"
      using i slot live
      by (cases x; cases ?r)
        (auto simp: table_abs_def t' nth_list_update u32_eq_iff_unat split: slot.splits if_splits)
  qed
qed

section \<open>The interface the manager relies on\<close>

text \<open>
  A store of entries under generational handles: what the resource manager calls, and what it
  relies on. \<open>stamp\<close> is the change an insertion makes to the entry itself.
\<close>

locale handle_store =
  fixes inv :: "'t \<Rightarrow> bool"
    and abs :: "'t \<Rightarrow> resource_id \<rightharpoonup> 'e"
    and ins :: "'t \<Rightarrow> 'e \<Rightarrow> ((resource_error + resource_id) \<times> 't) option"
    and get :: "'t \<Rightarrow> buffer_handle \<Rightarrow> resource_error + 'e"
    and put :: "'t \<Rightarrow> buffer_handle \<Rightarrow> 'e \<Rightarrow> 't"
    and rem :: "'t \<Rightarrow> buffer_handle \<Rightarrow> resource_error + 'e \<times> 't"
    and stamp :: "'e \<Rightarrow> resource_id \<Rightarrow> 'e"
    and same :: "'e \<Rightarrow> 'e \<Rightarrow> bool"
  assumes ins_total: "inv t \<Longrightarrow> \<exists>res t'. ins t e = Some (res, t')"
    and ins_ok: "inv t \<Longrightarrow> ins t e = Some (Inr r, t') \<Longrightarrow>
      inv t' \<and> abs t r = None \<and> abs t' = (abs t)(r \<mapsto> stamp e r)"
    and ins_err: "inv t \<Longrightarrow> ins t e = Some (Inl err, t') \<Longrightarrow> t' = t"
    and get_iff: "get t h = Inr e \<longleftrightarrow> abs t (bh_resource_id h) = Some e"
    and put_ok: "inv t \<Longrightarrow> abs t (bh_resource_id h) = Some e \<Longrightarrow> same e e' \<Longrightarrow>
      inv (put t h e') \<and> abs (put t h e') = (abs t)(bh_resource_id h \<mapsto> e')"
    and rem_iff: "(\<exists>t'. rem t h = Inr (e, t')) \<longleftrightarrow> abs t (bh_resource_id h) = Some e"
    and rem_ok: "inv t \<Longrightarrow> rem t h = Inr (e, t') \<Longrightarrow>
      inv t' \<and> abs t' = (abs t)(bh_resource_id h := None)"
begin

lemma get_after_insert:
  "inv t \<Longrightarrow> ins t e = Some (Inr r, t') \<Longrightarrow> get t' (BufferHandle r) = Inr (stamp e r)"
  using ins_ok [of t e r t'] by (simp add: get_iff)

lemma get_frame_insert:
  "inv t \<Longrightarrow> ins t e = Some (Inr r, t') \<Longrightarrow> get t h = Inr e' \<Longrightarrow> get t' h = Inr e'"
  using ins_ok [of t e r t'] by (auto simp: get_iff)

lemma get_after_remove:
  "inv t \<Longrightarrow> rem t h = Inr (e, t') \<Longrightarrow> get t' h \<noteq> Inr e'"
  using rem_ok [of t h e t'] by (simp add: get_iff)

lemma remove_twice:
  "inv t \<Longrightarrow> rem t h = Inr (e, t') \<Longrightarrow> rem t' h \<noteq> Inr p"
  using rem_ok [of t h e t'] rem_iff [of t' h "fst p"] by (cases p) auto

lemma remove_of_get: "get t h = Inr e \<Longrightarrow> \<exists>t'. rem t h = Inr (e, t')"
  by (simp add: get_iff rem_iff)

lemma remove_insert:
  "inv t \<Longrightarrow> ins t e = Some (Inr r, t') \<Longrightarrow> \<exists>t''. rem t' (BufferHandle r) = Inr (stamp e r, t'') \<and>
     inv t'' \<and> abs t'' = abs t"
proof -
  assume inv: "inv t" and i: "ins t e = Some (Inr r, t')"
  note ok = ins_ok [OF inv i]
  then obtain t'' where r: "rem t' (BufferHandle r) = Inr (stamp e r, t'')"
    using rem_iff [of t' "BufferHandle r" "stamp e r"] by auto
  with ok rem_ok [of t' "BufferHandle r" "stamp e r" t''] show ?thesis
    by (auto simp: fun_upd_idem)
qed

end

definition entry_stamp :: "resource_entry \<Rightarrow> resource_id \<Rightarrow> resource_entry" where
  "entry_stamp e r = e\<lparr>e_generation := rid_generation r\<rparr>"

definition same_generation :: "resource_entry \<Rightarrow> resource_entry \<Rightarrow> bool" where
  "same_generation e e' \<longleftrightarrow> e_generation e' = e_generation e"

interpretation slab: handle_store table_inv table_abs table_insert table_get table_set table_remove
    entry_stamp same_generation
proof unfold_locales
  fix t e assume "table_inv t"
  then show "\<exists>res t'. table_insert t e = Some (res, t')" by (rule table_insert_total)
next
  fix t e r t' assume "table_inv t" "table_insert t e = Some (Inr r, t')"
  then show "table_inv t' \<and> table_abs t r = None \<and>
      table_abs t' = (table_abs t)(r \<mapsto> entry_stamp e r)"
    by (simp add: table_insert_ok entry_stamp_def)
next
  fix t e err t' assume "table_inv t" "table_insert t e = Some (Inl err, t')"
  then show "t' = t" by (rule table_insert_err)
next
  fix t h e
  show "table_get t h = Inr e \<longleftrightarrow> table_abs t (bh_resource_id h) = Some e" by (rule table_get_iff)
next
  fix t h e e'
  assume "table_inv t" "table_abs t (bh_resource_id h) = Some e" "same_generation e e'"
  then show "table_inv (table_set t h e') \<and>
      table_abs (table_set t h e') = (table_abs t)(bh_resource_id h \<mapsto> e')"
    by (simp add: table_set_inv same_generation_def)
next
  fix t h e
  show "(\<exists>t'. table_remove t h = Inr (e, t')) \<longleftrightarrow> table_abs t (bh_resource_id h) = Some e"
    by (simp add: table_remove_iff)
next
  fix t h e t' assume "table_inv t" "table_remove t h = Inr (e, t')"
  then show "table_inv t' \<and> table_abs t' = (table_abs t)(bh_resource_id h := None)"
    by (simp add: table_remove_inv)
qed


section \<open>Stale handles\<close>

text \<open>
  Calls of the table by its client: an insertion, a removal, and a change through \<open>get_mut\<close>
  (which does nothing when the handle is not live; the client never writes the generation).
\<close>

datatype table_op =
    TInsert resource_entry
  | TRemove buffer_handle
  | TUpdate buffer_handle resource_entry

fun table_step :: "resource_table \<Rightarrow> table_op \<Rightarrow> resource_table option" where
  "table_step t (TInsert e) = map_option snd (table_insert t e)"
| "table_step t (TRemove h) =
     (case table_remove t h of Inl _ \<Rightarrow> Some t | Inr (_, t') \<Rightarrow> Some t')"
| "table_step t (TUpdate h e) =
     (case table_get t h of
        Inl _ \<Rightarrow> Some t
      | Inr e0 \<Rightarrow> Some (table_set t h (e\<lparr>e_generation := e_generation e0\<rparr>)))"

fun table_run :: "resource_table \<Rightarrow> table_op list \<Rightarrow> resource_table option" where
  "table_run t [] = Some t"
| "table_run t (op # ops) = Option.bind (table_step t op) (\<lambda>t'. table_run t' ops)"

fun is_insert :: "table_op \<Rightarrow> bool" where
  "is_insert (TInsert _) = True"
| "is_insert _ = False"

lemma table_step_inv:
  assumes "table_inv t" shows "\<exists>t'. table_step t op = Some t' \<and> table_inv t'"
proof (cases op)
  case (TInsert e)
  then show ?thesis using table_insert_cases [OF assms, of e] assms by auto
next
  case (TRemove h)
  then show ?thesis
    using assms table_remove_inv(1) [OF assms, of h] by (auto split: sum.splits)
next
  case (TUpdate h e)
  then show ?thesis
    using assms by (auto simp: table_get_iff intro: table_set_inv(1) split: sum.splits)
qed

lemma table_run_inv: "table_inv t \<Longrightarrow> \<exists>t'. table_run t ops = Some t' \<and> table_inv t'"
proof (induction ops arbitrary: t)
  case (Cons op ops)
  obtain t1 where "table_step t op = Some t1" "table_inv t1"
    using table_step_inv [OF Cons.prems] by blast
  with Cons.IH show ?case by auto
qed simp

text \<open>What one call does to the slot with index \<open>i\<close>.\<close>

definition slot_aged :: "nat \<Rightarrow> u32 \<Rightarrow> nat \<Rightarrow> resource_table \<Rightarrow> bool" where
  "slot_aged i g n t \<longleftrightarrow>
     i < length (t_entries t) \<and>
     (\<exists>k \<le> n. slot_generation (t_entries t ! i) = g + of_nat k \<and>
        (slot_is_occupied (t_entries t ! i) \<longrightarrow> 1 \<le> k))"

lemma slot_aged_take:
  assumes "slot_aged i g n t" and "table_take_slot t e = Some (res, t')"
  shows "slot_aged i g (Suc n) t'"
proof (cases "i = unat (t_free_head t) \<and> (\<exists>nf gen. t_entries t ! i = Vacant nf gen)")
  case False
  with assms show ?thesis
    by (auto simp: slot_aged_def table_take_slot_def Let_def nth_list_update le_Suc_eq
        split: slot.splits if_splits)
next
  case True
  then obtain nf gen where slot: "t_entries t ! i = Vacant nf gen" by blast
  with assms(1) obtain k where "k \<le> n" "gen = g + of_nat k" "i < length (t_entries t)"
    by (auto simp: slot_aged_def)
  with True slot assms(2) show ?thesis
    by (auto simp: slot_aged_def table_take_slot_def Let_def intro!: exI [of _ "Suc k"])
qed

lemma slot_aged_grow:
  "slot_aged i g n t \<Longrightarrow> table_grow t = Inr t' \<Longrightarrow> slot_aged i g n t'"
  by (auto simp: slot_aged_def table_grow_def nth_append split: option.splits)

lemma slot_aged_mono: "slot_aged i g n t \<Longrightarrow> n \<le> m \<Longrightarrow> slot_aged i g m t"
  unfolding slot_aged_def by (meson le_trans)

lemma slot_aged_insert:
  assumes "slot_aged i g n t" and "table_insert t e = Some (res, t')"
  shows "slot_aged i g (Suc n) t'"
  using assms
  by (auto simp: table_insert_def intro: slot_aged_take slot_aged_grow slot_aged_mono
      split: if_splits sum.splits)

lemma slot_aged_remove:
  "slot_aged i g n t \<Longrightarrow> table_remove t h = Inr (e, t') \<Longrightarrow> slot_aged i g n t'"
  by (cases "i = unat (rid_index (bh_resource_id h))")
    (auto simp: slot_aged_def table_remove_iff table_abs_slot nth_list_update)

lemma slot_aged_set:
  "slot_aged i g n t \<Longrightarrow> table_get t h = Inr e0 \<Longrightarrow> e_generation e = e_generation e0 \<Longrightarrow>
   slot_aged i g n (table_set t h e)"
  by (cases "i = unat (rid_index (bh_resource_id h))")
    (auto simp: slot_aged_def table_set_def table_get_iff table_abs_slot nth_list_update)

lemma slot_aged_step:
  assumes "slot_aged i g n t" and "table_step t op = Some t'"
  shows "slot_aged i g (n + (if is_insert op then 1 else 0)) t'"
  using assms
  by (cases op)
    (auto intro: slot_aged_insert slot_aged_remove slot_aged_set split: sum.splits)

lemma slot_aged_run:
  "slot_aged i g n t \<Longrightarrow> table_run t ops = Some t' \<Longrightarrow>
   slot_aged i g (n + length (filter is_insert ops)) t'"
proof (induction ops arbitrary: t n)
  case (Cons op ops)
  then obtain t1 where t1: "table_step t op = Some t1" "table_run t1 ops = Some t'"
    by (auto split: Option.bind_splits)
  from slot_aged_step [OF Cons.prems(1) t1(1)] have "slot_aged i g (n + (if is_insert op then 1 else 0)) t1" .
  from Cons.IH [OF this t1(2)] show ?case by (simp split: if_splits)
qed simp

lemma slot_aged_removed:
  assumes "table_remove t h = Inr (e, t')"
  shows "slot_aged (unat (rid_index (bh_resource_id h))) (rid_generation (bh_resource_id h)) 0 t'"
  using assms by (auto simp: slot_aged_def table_remove_iff table_abs_slot)

lemma of_nat_u32_eq_0: "(of_nat k :: u32) = 0 \<Longrightarrow> k < 4294967296 \<Longrightarrow> k = 0"
  by (metis unat_0 unat_of_nat_u32)

lemma slot_aged_stale:
  assumes "slot_aged (unat (rid_index (bh_resource_id h))) (rid_generation (bh_resource_id h)) n t"
    and "n < 4294967296"
  shows "table_get t h = Inl (stale_handle h) \<or> table_get t h = Inl (not_allocated h)"
proof -
  let ?s = "t_entries t ! unat (rid_index (bh_resource_id h))"
  obtain k where k: "k \<le> n" "slot_generation ?s = rid_generation (bh_resource_id h) + of_nat k"
    "slot_is_occupied ?s \<longrightarrow> 1 \<le> k"
    using assms(1) by (auto simp: slot_aged_def)
  show ?thesis
  proof (cases ?s)
    case (Occupied e)
    with k assms(2) have "(of_nat k :: u32) \<noteq> 0" using of_nat_u32_eq_0 [of k] by auto
    with Occupied k have "e_generation e \<noteq> rid_generation (bh_resource_id h)" by simp
    with Occupied show ?thesis by (simp add: table_get_def Let_def)
  next
    case (Vacant nf g)
    then show ?thesis by (simp add: table_get_def Let_def)
  qed
qed

end
