(* ===== verification/Res_Buffer.thy ===== *)
theory Res_Buffer
  imports Res_Handle
begin

text \<open>
  \<open>torvyn-resources/src/buffer.rs\<close>: one allocation per buffer, a header of 64 bytes and the
  payload. The heap maps the name of an allocation to its bytes. The system allocator is the
  parameter \<open>sys\<close>: asked for a size in a heap it returns a name or fails;
  \<open>allocator_ok\<close> is what \<open>std::alloc::alloc_zeroed\<close> promises, that the block is new.

  The \<open>unsafe\<close> functions return \<open>None\<close> where the call would be undefined behaviour: an
  access outside an allocation, or freeing with the wrong size.
\<close>

type_synonym heap = "ptr \<rightharpoonup> u8 list"
type_synonym sys_alloc = "heap \<Rightarrow> usize \<Rightarrow> ptr option"

definition allocator_ok :: "sys_alloc \<Rightarrow> bool" where
  "allocator_ok sys \<longleftrightarrow> (\<forall>h n p. sys h n = Some p \<longrightarrow> h p = None)"

definition payload_alignment :: usize where
  "payload_alignment = 64"

definition max_buffer_size :: u32 where
  "max_buffer_size = 16 * 1024 * 1024"

definition header_size :: usize where
  "header_size = payload_alignment"

definition buffer_layout :: "u32 \<Rightarrow> usize option" where
  "buffer_layout payload_capacity =
     (let total_size = header_size + unat payload_capacity
      in if total_size < 2 ^ 64 \<and> total_size \<le> 2 ^ 63 - payload_alignment
         then Some total_size else None)"

definition alloc_buffer ::
    "sys_alloc \<Rightarrow> heap \<Rightarrow> u32 \<Rightarrow> (ptr \<times> usize) option \<times> heap" where
  "alloc_buffer sys h payload_capacity =
     (if max_buffer_size < payload_capacity then (None, h)
      else case buffer_layout payload_capacity of
        None \<Rightarrow> (None, h)
      | Some sz \<Rightarrow>
          (case sys h sz of
             None \<Rightarrow> (None, h)
           | Some p \<Rightarrow> (Some (p, sz), h(p \<mapsto> replicate sz 0))))"

definition dealloc_buffer :: "heap \<Rightarrow> ptr \<Rightarrow> usize \<Rightarrow> heap option" where
  "dealloc_buffer h p alloc_size =
     (case h p of
        None \<Rightarrow> None
      | Some bytes \<Rightarrow> if length bytes = alloc_size then Some (h(p := None)) else None)"

definition buf_read_payload :: "heap \<Rightarrow> ptr \<Rightarrow> u32 \<Rightarrow> u32 \<Rightarrow> u8 list option" where
  "buf_read_payload h p offset len =
     (case h p of
        None \<Rightarrow> None
      | Some bytes \<Rightarrow>
          if header_size + unat offset + unat len \<le> length bytes
          then Some (take (unat len) (drop (header_size + unat offset) bytes))
          else None)"

definition splice :: "'a list \<Rightarrow> nat \<Rightarrow> 'a list \<Rightarrow> 'a list" where
  "splice xs i ys = take i xs @ ys @ drop (i + length ys) xs"

definition buf_write_payload :: "heap \<Rightarrow> ptr \<Rightarrow> u32 \<Rightarrow> u8 list \<Rightarrow> heap option" where
  "buf_write_payload h p offset data =
     (case h p of
        None \<Rightarrow> None
      | Some bytes \<Rightarrow>
          if header_size + unat offset + length data \<le> length bytes
          then Some (h(p \<mapsto> splice bytes (header_size + unat offset) data))
          else None)"

definition buf_zero_payload :: "heap \<Rightarrow> ptr \<Rightarrow> u32 \<Rightarrow> heap option" where
  "buf_zero_payload h p capacity =
     (case h p of
        None \<Rightarrow> None
      | Some bytes \<Rightarrow>
          if header_size + unat capacity \<le> length bytes
          then Some (h(p \<mapsto> splice bytes header_size (replicate (unat capacity) 0)))
          else None)"

section \<open>Blocks of the heap\<close>

text \<open>The payload bytes of an allocation, and what a fresh or returned buffer looks like.\<close>

definition payload_bytes :: "heap \<Rightarrow> ptr \<Rightarrow> u8 list" where
  "payload_bytes h p = (case h p of None \<Rightarrow> [] | Some bytes \<Rightarrow> drop header_size bytes)"

definition block_of_size :: "heap \<Rightarrow> ptr \<Rightarrow> usize \<Rightarrow> bool" where
  "block_of_size h p n \<longleftrightarrow> (\<exists>bytes. h p = Some bytes \<and> length bytes = n)"

definition payload_zero :: "heap \<Rightarrow> ptr \<Rightarrow> bool" where
  "payload_zero h p \<longleftrightarrow> (\<forall>b \<in> set (payload_bytes h p). b = 0)"

lemma header_size_64 [simp]: "header_size = 64"
  by (simp add: header_size_def payload_alignment_def)

lemma length_splice [simp]: "i + length ys \<le> length xs \<Longrightarrow> length (splice xs i ys) = length xs"
  by (simp add: splice_def)

lemma nth_splice:
  "i + length ys \<le> length xs \<Longrightarrow> j < length xs \<Longrightarrow>
   splice xs i ys ! j = (if i \<le> j \<and> j < i + length ys then ys ! (j - i) else xs ! j)"
  by (auto simp: splice_def nth_append min_def not_less)

lemma take_drop_splice_same:
  "i + length ys \<le> length xs \<Longrightarrow> take (length ys) (drop i (splice xs i ys)) = ys"
  by (simp add: splice_def)

lemma block_of_size_upd [simp]:
  "block_of_size (h(q := v)) p n \<longleftrightarrow>
     (if p = q then (\<exists>bytes. v = Some bytes \<and> length bytes = n) else block_of_size h p n)"
  by (simp add: block_of_size_def)

lemma payload_zero_upd [simp]:
  "p \<noteq> q \<Longrightarrow> payload_zero (h(q := v)) p \<longleftrightarrow> payload_zero h p"
  by (simp add: payload_zero_def payload_bytes_def)

lemma payload_bytes_upd [simp]: "p \<noteq> q \<Longrightarrow> payload_bytes (h(q := v)) p = payload_bytes h p"
  by (simp add: payload_bytes_def)

lemma buffer_layout_eq [simp]: "buffer_layout c = Some (64 + unat c)"
proof -
  have "unat c < 18446744073709551552" "unat c \<le> 9223372036854775680"
    using unat_u32_less [of c] by linarith+
  then show ?thesis by (simp add: buffer_layout_def payload_alignment_def)
qed

lemma alloc_buffer_Some:
  assumes "alloc_buffer sys h c = (Some (p, n), h')" and "allocator_ok sys"
  shows "h p = None" and "n = 64 + unat c" and "h' = h(p \<mapsto> replicate n 0)"
    and "block_of_size h' p n" and "payload_zero h' p" and "c \<le> max_buffer_size"
proof -
  from assms(1) have sys: "sys h n = Some p" and n: "n = 64 + unat c"
    and h': "h' = h(p \<mapsto> replicate n 0)" and c: "c \<le> max_buffer_size"
    by (auto simp: alloc_buffer_def not_less split: if_splits option.splits)
  show "h p = None" using sys assms(2) by (auto simp: allocator_ok_def)
  show "n = 64 + unat c" "h' = h(p \<mapsto> replicate n 0)" "c \<le> max_buffer_size"
    using n h' c by simp_all
  show "block_of_size h' p n" using h' by (simp add: block_of_size_def)
  show "payload_zero h' p" using h' by (auto simp: payload_zero_def payload_bytes_def)
qed

lemma alloc_buffer_None: "alloc_buffer sys h c = (None, h') \<Longrightarrow> h' = h"
  by (auto simp: alloc_buffer_def split: if_splits option.splits)

lemma dealloc_buffer_ok:
  "block_of_size h p n \<Longrightarrow> dealloc_buffer h p n = Some (h(p := None))"
  by (auto simp: dealloc_buffer_def block_of_size_def)

text \<open>
  Zeroing the whole payload: defined when the block has that capacity, keeps the size of the
  block and leaves nothing of the old content.
\<close>

lemma buf_zero_payload_ok:
  assumes "block_of_size h p (64 + unat c)"
  shows "\<exists>bytes. buf_zero_payload h p c = Some (h(p \<mapsto> bytes)) \<and> length bytes = 64 + unat c
            \<and> payload_zero (h(p \<mapsto> bytes)) p"
proof -
  obtain old where old: "h p = Some old" "length old = 64 + unat c"
    using assms by (auto simp: block_of_size_def)
  let ?new = "splice old 64 (replicate (unat c) 0)"
  have "drop 64 ?new = replicate (unat c) 0"
    using old(2) by (simp add: splice_def)
  then show ?thesis
    using old by (auto simp: buf_zero_payload_def payload_zero_def payload_bytes_def)
qed

lemma buf_write_payload_ok:
  assumes "block_of_size h p n" and "64 + unat off + length data \<le> n"
  shows "\<exists>bytes. buf_write_payload h p off data = Some (h(p \<mapsto> bytes)) \<and> length bytes = n
            \<and> drop 64 bytes = splice (payload_bytes h p) (unat off) data"
proof -
  obtain old where old: "h p = Some old" "length old = n"
    using assms by (auto simp: block_of_size_def)
  let ?new = "splice old (64 + unat off) data"
  have "drop 64 ?new = splice (drop 64 old) (unat off) data"
    using old(2) assms(2) by (simp add: splice_def drop_take ac_simps)
  with old assms(2) show ?thesis
    by (intro exI [of _ ?new]) (simp add: buf_write_payload_def payload_bytes_def)
qed

lemma buf_read_payload_eq:
  assumes "block_of_size h p n" and "64 + unat off + unat len \<le> n"
  shows "buf_read_payload h p off len =
           Some (take (unat len) (drop (unat off) (payload_bytes h p)))"
  using assms
  by (auto simp: buf_read_payload_def block_of_size_def payload_bytes_def add.commute)

end
