(* ===== verification/Res_Pool.thy ===== *)
theory Res_Pool
  imports Res_Buffer
begin

text \<open>
  \<open>torvyn-resources/src/pool.rs\<close>, as one thread sees it: the packed head word of the Treiber
  stack, \<open>pop\<close> and \<open>push\<close> of a tier, and the set of four tiers with its fallback to the
  system allocator. Here an operation runs without interference, so its compare-and-swap
  succeeds on the first attempt; \<open>Res_Treiber\<close> models the interleaved attempts of several
  threads on the same word.

  \<open>None\<close> is a panic or undefined behaviour.
\<close>

unbundle bit_operations_syntax

section \<open>The packed stack head\<close>

definition stack_empty :: u32 where
  "stack_empty = - 1"

definition head_index :: "u64 \<Rightarrow> u32" where
  "head_index head = ucast head"

definition head_tag :: "u64 \<Rightarrow> u32" where
  "head_tag head = ucast (drop_bit 32 head)"

definition make_head :: "u32 \<Rightarrow> u32 \<Rightarrow> u64" where
  "make_head tag index = push_bit 32 (ucast tag) OR ucast index"

lemma stack_empty_link [simp]: "stack_empty = link_end"
  by (simp add: stack_empty_def link_end_def)

lemma head_index_make [simp]: "head_index (make_head tag index) = index"
  by (rule bit_word_eqI)
    (auto simp: head_index_def make_head_def bit_ucast_iff bit_or_iff bit_push_bit_iff)

lemma head_tag_make [simp]: "head_tag (make_head tag index) = tag"
  by (rule bit_word_eqI)
    (auto simp: head_tag_def make_head_def bit_ucast_iff bit_or_iff bit_push_bit_iff
      bit_drop_bit_eq dest: bit_imp_le_length)

lemma make_head_tag_index [simp]: "make_head (head_tag h) (head_index h) = h"
  by (rule bit_word_eqI)
    (auto simp: head_index_def head_tag_def make_head_def bit_ucast_iff bit_or_iff
      bit_push_bit_iff bit_drop_bit_eq)

lemma head_eq_iff: "h = h' \<longleftrightarrow> head_tag h = head_tag h' \<and> head_index h = head_index h'"
  by (metis make_head_tag_index)

section \<open>One tier\<close>

record tier_config =
  tc_tier :: pool_tier
  tc_pool_size :: u32
  tc_preallocate :: bool

definition tier_config_defaults :: "tier_config list" where
  "tier_config_defaults =
     [\<lparr>tc_tier = Small, tc_pool_size = 4096, tc_preallocate = True\<rparr>,
      \<lparr>tc_tier = Medium, tc_pool_size = 1024, tc_preallocate = True\<rparr>,
      \<lparr>tc_tier = Large, tc_pool_size = 256, tc_preallocate = True\<rparr>,
      \<lparr>tc_tier = Huge, tc_pool_size = 32, tc_preallocate = False\<rparr>]"

record pool_buffer =
  pb_ptr :: ptr
  pb_alloc_size :: usize
  pb_next_free :: u32

record tier_pool =
  tp_tier :: pool_tier
  tp_buffers :: "pool_buffer list"
  tp_free_top :: u64
  tp_pool_size :: u32
  tp_available :: u32
  tp_alloc_count :: u32
  tp_return_count :: u32
  tp_fallback_count :: u32
  tp_exhaustion_count :: u32

text \<open>The pre-allocation loop from \<open>i\<close>; \<open>None\<close> is the panic on exhausted memory.\<close>

fun prealloc_from ::
    "sys_alloc \<Rightarrow> u32 \<Rightarrow> nat \<Rightarrow> nat \<Rightarrow> nat \<Rightarrow> heap \<Rightarrow> (pool_buffer list \<times> heap) option" where
  "prealloc_from sys capacity n i 0 h = Some ([], h)"
| "prealloc_from sys capacity n i (Suc k) h =
     (case alloc_buffer sys h capacity of
        (None, _) \<Rightarrow> None
      | (Some (p, alloc_size), h') \<Rightarrow>
          let next = (if i + 1 < n then of_nat (i + 1) else stack_empty)
          in map_option
               (\<lambda>(bs, h''). (\<lparr>pb_ptr = p, pb_alloc_size = alloc_size, pb_next_free = next\<rparr> # bs, h''))
               (prealloc_from sys capacity n (i + 1) k h'))"

definition tier_pool_new :: "sys_alloc \<Rightarrow> heap \<Rightarrow> tier_config \<Rightarrow> (tier_pool \<times> heap) option" where
  "tier_pool_new sys h config =
     (let capacity = tier_capacity (tc_tier config);
          pool_size = tc_pool_size config;
          n = unat pool_size;
          available = (if tc_preallocate config then pool_size else 0);
          initial_top = (if tc_preallocate config \<and> 0 < pool_size then 0 else stack_empty)
      in map_option
           (\<lambda>(buffers, h'). (\<lparr>tp_tier = tc_tier config, tp_buffers = buffers,
              tp_free_top = make_head 0 initial_top, tp_pool_size = pool_size,
              tp_available = available, tp_alloc_count = 0, tp_return_count = 0,
              tp_fallback_count = 0, tp_exhaustion_count = 0\<rparr>, h'))
           (prealloc_from sys capacity n 0 (if tc_preallocate config then n else 0) h))"

definition tier_pop :: "tier_pool \<Rightarrow> ((ptr \<times> usize) option \<times> tier_pool) option" where
  "tier_pop p =
     (let head = tp_free_top p; top = head_index head
      in if top = stack_empty then
           Some (None, p\<lparr>tp_exhaustion_count := tp_exhaustion_count p + 1\<rparr>)
         else if length (tp_buffers p) \<le> unat top then None
         else
           let buffer = tp_buffers p ! unat top;
               next = pb_next_free buffer
           in Some (Some (pb_ptr buffer, pb_alloc_size buffer),
                p\<lparr>tp_free_top := make_head (head_tag head + 1) next,
                  tp_available := tp_available p - 1,
                  tp_alloc_count := tp_alloc_count p + 1\<rparr>))"

fun find_buffer :: "pool_buffer list \<Rightarrow> ptr \<Rightarrow> nat \<Rightarrow> nat option" where
  "find_buffer [] p i = None"
| "find_buffer (b # bs) p i = (if pb_ptr b = p then Some i else find_buffer bs p (i + 1))"

definition tier_push :: "tier_pool \<Rightarrow> ptr \<Rightarrow> bool \<times> tier_pool" where
  "tier_push p ptr =
     (case find_buffer (tp_buffers p) ptr 0 of
        None \<Rightarrow> (False, p)
      | Some i \<Rightarrow>
          let head = tp_free_top p; top = head_index head
          in (True,
              p\<lparr>tp_buffers := (tp_buffers p)[i := (tp_buffers p ! i)\<lparr>pb_next_free := top\<rparr>],
                tp_free_top := make_head (head_tag head + 1) (of_nat i),
                tp_available := tp_available p + 1,
                tp_return_count := tp_return_count p + 1\<rparr>))"

section \<open>The four tiers\<close>

record pool_set =
  ps_small :: tier_pool
  ps_medium :: tier_pool
  ps_large :: tier_pool
  ps_huge :: tier_pool

text \<open>\<open>BufferPoolSet::new\<close> indexes an array of exactly four configurations.\<close>

definition pool_set_new ::
    "sys_alloc \<Rightarrow> heap \<Rightarrow> tier_config \<times> tier_config \<times> tier_config \<times> tier_config \<Rightarrow>
     (pool_set \<times> heap) option" where
  "pool_set_new sys h configs =
     (case configs of (c0, c1, c2, c3) \<Rightarrow>
        Option.bind (tier_pool_new sys h c0) (\<lambda>(small, h).
        Option.bind (tier_pool_new sys h c1) (\<lambda>(medium, h).
        Option.bind (tier_pool_new sys h c2) (\<lambda>(large, h).
        Option.bind (tier_pool_new sys h c3) (\<lambda>(huge, h).
        Some (\<lparr>ps_small = small, ps_medium = medium, ps_large = large, ps_huge = huge\<rparr>, h))))))"

fun tier_pool_of :: "pool_set \<Rightarrow> pool_tier \<Rightarrow> tier_pool" where
  "tier_pool_of s Small = ps_small s"
| "tier_pool_of s Medium = ps_medium s"
| "tier_pool_of s Large = ps_large s"
| "tier_pool_of s Huge = ps_huge s"

fun tier_pool_put :: "pool_set \<Rightarrow> pool_tier \<Rightarrow> tier_pool \<Rightarrow> pool_set" where
  "tier_pool_put s Small p = s\<lparr>ps_small := p\<rparr>"
| "tier_pool_put s Medium p = s\<lparr>ps_medium := p\<rparr>"
| "tier_pool_put s Large p = s\<lparr>ps_large := p\<rparr>"
| "tier_pool_put s Huge p = s\<lparr>ps_huge := p\<rparr>"

definition pool_allocate ::
    "sys_alloc \<Rightarrow> pool_set \<Rightarrow> heap \<Rightarrow> u32 \<Rightarrow>
     ((ptr \<times> usize \<times> pool_tier \<times> bool) option \<times> pool_set \<times> heap) option" where
  "pool_allocate sys s h min_capacity =
     (let tier = tier_for_capacity min_capacity
      in case tier_pop (tier_pool_of s tier) of
           None \<Rightarrow> None
         | Some (Some (ptr, alloc_size), pool) \<Rightarrow>
             Some (Some (ptr, alloc_size, tier, False), tier_pool_put s tier pool, h)
         | Some (None, pool) \<Rightarrow>
             let pool' = pool\<lparr>tp_fallback_count := tp_fallback_count pool + 1\<rparr>;
                 s' = tier_pool_put s tier pool';
                 capacity = max (tier_capacity tier) min_capacity
             in case alloc_buffer sys h capacity of
                  (None, h') \<Rightarrow> Some (None, s', h')
                | (Some (ptr, alloc_size), h') \<Rightarrow> Some (Some (ptr, alloc_size, tier, True), s', h'))"

definition pool_release ::
    "pool_set \<Rightarrow> heap \<Rightarrow> ptr \<Rightarrow> usize \<Rightarrow> pool_tier \<Rightarrow> bool \<Rightarrow> (pool_set \<times> heap) option" where
  "pool_release s h ptr alloc_size tier fallback =
     (if fallback then map_option (\<lambda>h'. (s, h')) (dealloc_buffer h ptr alloc_size)
      else case tier_push (tier_pool_of s tier) ptr of
          (True, pool) \<Rightarrow> Some (tier_pool_put s tier pool, h)
        | (False, pool) \<Rightarrow>
            map_option (\<lambda>h'. (tier_pool_put s tier pool, h')) (dealloc_buffer h ptr alloc_size))"

record tier_metrics =
  tm_tier :: pool_tier
  tm_pool_size :: u32
  tm_available :: u32
  tm_alloc_count :: u32
  tm_return_count :: u32
  tm_fallback_count :: u32
  tm_exhaustion_count :: u32

definition pool_tier_metrics :: "pool_set \<Rightarrow> pool_tier \<Rightarrow> tier_metrics" where
  "pool_tier_metrics s tier =
     (let p = tier_pool_of s tier
      in \<lparr>tm_tier = tier, tm_pool_size = tp_pool_size p, tm_available = tp_available p,
          tm_alloc_count = tp_alloc_count p, tm_return_count = tp_return_count p,
          tm_fallback_count = tp_fallback_count p,
          tm_exhaustion_count = tp_exhaustion_count p\<rparr>)"


section \<open>The invariant of a tier\<close>

definition pb_link :: "pool_buffer list \<Rightarrow> nat \<Rightarrow> u32 option" where
  "pb_link bs i = (if i < length bs then Some (pb_next_free (bs ! i)) else None)"

definition tier_free_idx :: "tier_pool \<Rightarrow> nat list" where
  "tier_free_idx p =
     walk_chain (pb_link (tp_buffers p)) (length (tp_buffers p)) (head_index (tp_free_top p))"

definition tier_free :: "tier_pool \<Rightarrow> ptr set" where
  "tier_free p = (\<lambda>i. pb_ptr (tp_buffers p ! i)) ` set (tier_free_idx p)"

definition tier_owned :: "tier_pool \<Rightarrow> ptr set" where
  "tier_owned p = pb_ptr ` set (tp_buffers p)"

definition tier_wf :: "tier_pool \<Rightarrow> bool" where
  "tier_wf p \<longleftrightarrow>
     length (tp_buffers p) \<le> 4294967295 \<and>
     chain (pb_link (tp_buffers p)) (head_index (tp_free_top p)) (tier_free_idx p) \<and>
     unat (tp_available p) = length (tier_free_idx p) \<and>
     distinct (map pb_ptr (tp_buffers p)) \<and>
     (\<forall>b \<in> set (tp_buffers p). pb_alloc_size b = 64 + unat (tier_capacity (tp_tier p)))"

lemma pb_link_Some: "pb_link bs i = Some n \<longleftrightarrow> i < length bs \<and> n = pb_next_free (bs ! i)"
  by (auto simp: pb_link_def)

lemma tier_free_idx_eq:
  assumes "chain (pb_link (tp_buffers p)) (head_index (tp_free_top p)) fl"
  shows "tier_free_idx p = fl"
proof -
  have "length fl \<le> length (tp_buffers p)"
    using assms by (rule chain_length) (auto simp: pb_link_def split: if_splits)
  with assms show ?thesis by (simp add: tier_free_idx_def walk_chain_eq)
qed

lemma tier_wfI:
  assumes "length (tp_buffers p) \<le> 4294967295"
    and "chain (pb_link (tp_buffers p)) (head_index (tp_free_top p)) fl"
    and "unat (tp_available p) = length fl"
    and "distinct (map pb_ptr (tp_buffers p))"
    and "\<And>b. b \<in> set (tp_buffers p) \<Longrightarrow>
           pb_alloc_size b = 64 + unat (tier_capacity (tp_tier p))"
  shows "tier_wf p" and "tier_free p = (\<lambda>i. pb_ptr (tp_buffers p ! i)) ` set fl"
  using assms tier_free_idx_eq [OF assms(2)] by (simp_all add: tier_wf_def tier_free_def)

lemma tier_wf_idx:
  assumes "tier_wf p" shows "set (tier_free_idx p) \<subseteq> {..<length (tp_buffers p)}"
proof
  fix i assume "i \<in> set (tier_free_idx p)"
  with assms have "pb_link (tp_buffers p) i \<noteq> None" by (auto simp: tier_wf_def dest: chain_linked)
  then show "i \<in> {..<length (tp_buffers p)}" by (auto simp: pb_link_def split: if_splits)
qed

lemma tier_wf_distinct: "tier_wf p \<Longrightarrow> distinct (tier_free_idx p)"
  by (auto simp: tier_wf_def dest: chain_distinct)

lemma tier_free_owned: "tier_wf p \<Longrightarrow> tier_free p \<subseteq> tier_owned p"
  using tier_wf_idx [of p] by (auto simp: tier_free_def tier_owned_def)

lemma pb_ptr_inj:
  assumes "tier_wf p"
  shows "inj_on (\<lambda>i. pb_ptr (tp_buffers p ! i)) {..<length (tp_buffers p)}"
  using assms by (auto simp: tier_wf_def inj_on_def distinct_conv_nth)

lemma tier_wf_counters [simp]:
  "tier_wf (p\<lparr>tp_exhaustion_count := n\<rparr>) = tier_wf p"
  "tier_wf (p\<lparr>tp_fallback_count := n\<rparr>) = tier_wf p"
  "tier_free (p\<lparr>tp_exhaustion_count := n\<rparr>) = tier_free p"
  "tier_free (p\<lparr>tp_fallback_count := n\<rparr>) = tier_free p"
  "tier_owned (p\<lparr>tp_exhaustion_count := n\<rparr>) = tier_owned p"
  "tier_owned (p\<lparr>tp_fallback_count := n\<rparr>) = tier_owned p"
  by (simp_all add: tier_wf_def tier_free_def tier_owned_def tier_free_idx_def)

lemma tier_pop_empty:
  assumes "tier_wf p" and "head_index (tp_free_top p) = link_end"
  shows "tier_pop p = Some (None, p\<lparr>tp_exhaustion_count := tp_exhaustion_count p + 1\<rparr>)"
    and "tier_free p = {}"
  using assms tier_free_idx_eq [of p "[]"] by (simp_all add: tier_pop_def Let_def tier_free_def)

lemma tier_pop_some:
  assumes wf: "tier_wf p" and head: "head_index (tp_free_top p) \<noteq> link_end"
  obtains ptr p' where "tier_pop p = Some (Some (ptr, 64 + unat (tier_capacity (tp_tier p))), p')"
    and "ptr \<in> tier_free p" and "tier_wf p'" and "tier_free p' = tier_free p - {ptr}"
    and "tier_owned p' = tier_owned p" and "tp_tier p' = tp_tier p"
proof -
  let ?bs = "tp_buffers p" and ?top = "head_index (tp_free_top p)"
  let ?b = "?bs ! unat ?top"
  obtain n js where n: "n = pb_next_free ?b" and i: "unat ?top < length ?bs"
    and js: "chain (pb_link ?bs) n js" and fl: "tier_free_idx p = unat ?top # js"
    using wf head by (auto simp: tier_wf_def chain_not_end pb_link_Some)
  let ?p = "p\<lparr>tp_free_top := make_head (head_tag (tp_free_top p) + 1) (pb_next_free ?b),
              tp_available := tp_available p - 1, tp_alloc_count := tp_alloc_count p + 1\<rparr>"
  have size: "pb_alloc_size ?b = 64 + unat (tier_capacity (tp_tier p))"
    using wf i by (simp add: tier_wf_def)
  have pop: "tier_pop p = Some (Some (pb_ptr ?b, 64 + unat (tier_capacity (tp_tier p))), ?p)"
    using i head by (simp add: tier_pop_def Let_def size)
  have avail: "unat (tp_available p - 1) = length js"
    using wf fl by (subst unat_sub_u32) (auto simp: tier_wf_def)
  note wfI = tier_wfI [of ?p js]
  have wf': "tier_wf ?p" using wfI(1) wf js n avail by (simp add: tier_wf_def)
  have free': "tier_free ?p = (\<lambda>i. pb_ptr (?bs ! i)) ` set js"
    using wfI(2) wf js n avail by (simp add: tier_wf_def)
  have dist: "unat ?top \<notin> set js"
    using tier_wf_distinct [OF wf] fl by simp
  have sub: "set js \<subseteq> {..<length ?bs}" using tier_wf_idx [OF wf] fl by auto
  have "tier_free p = insert (pb_ptr ?b) (tier_free ?p)"
    using fl free' by (simp add: tier_free_def)
  moreover have "pb_ptr ?b \<notin> tier_free ?p"
    using dist sub i pb_ptr_inj [OF wf] free' by (auto simp: inj_on_def)
  ultimately have "pb_ptr ?b \<in> tier_free p" "tier_free ?p = tier_free p - {pb_ptr ?b}" by auto
  with pop wf' that show ?thesis by (simp add: tier_owned_def)
qed

lemma find_buffer_Some:
  "find_buffer bs p k = Some i \<Longrightarrow>
   k \<le> i \<and> i - k < length bs \<and> pb_ptr (bs ! (i - k)) = p"
proof (induction bs arbitrary: k)
  case (Cons b bs)
  show ?case
  proof (cases "pb_ptr b = p")
    case True
    with Cons.prems show ?thesis by simp
  next
    case False
    with Cons have "k + 1 \<le> i \<and> i - (k + 1) < length bs \<and> pb_ptr (bs ! (i - (k + 1))) = p"
      by simp
    then show ?thesis by (auto simp: nth_Cons' Suc_diff_Suc)
  qed
qed simp

lemma find_buffer_None: "find_buffer bs p k = None \<longleftrightarrow> p \<notin> pb_ptr ` set bs"
  by (induction bs arbitrary: k) auto

lemma tier_push_foreign: "ptr \<notin> tier_owned p \<Longrightarrow> tier_push p ptr = (False, p)"
  using find_buffer_None [of "tp_buffers p" ptr 0] by (simp add: tier_push_def tier_owned_def)

lemma tier_push_held:
  assumes wf: "tier_wf p" and own: "ptr \<in> tier_owned p" and held: "ptr \<notin> tier_free p"
  obtains p' where "tier_push p ptr = (True, p')" and "tier_wf p'"
    and "tier_free p' = insert ptr (tier_free p)" and "tier_owned p' = tier_owned p"
    and "tp_tier p' = tp_tier p"
proof -
  let ?bs = "tp_buffers p" and ?top = "head_index (tp_free_top p)"
  obtain i where find: "find_buffer ?bs ptr 0 = Some i"
    using own find_buffer_None [of ?bs ptr 0] by (auto simp: tier_owned_def)
  then have i: "i < length ?bs" and ptr: "pb_ptr (?bs ! i) = ptr"
    using find_buffer_Some [of ?bs ptr 0 i] by auto
  let ?bs' = "?bs[i := (?bs ! i)\<lparr>pb_next_free := ?top\<rparr>]"
  let ?p = "p\<lparr>tp_buffers := ?bs', tp_free_top := make_head (head_tag (tp_free_top p) + 1) (of_nat i),
              tp_available := tp_available p + 1, tp_return_count := tp_return_count p + 1\<rparr>"
  let ?fl = "tier_free_idx p"
  have push: "tier_push p ptr = (True, ?p)" using find by (simp add: tier_push_def Let_def)
  have notin: "i \<notin> set ?fl" using held ptr by (auto simp: tier_free_def)
  have link: "pb_link ?bs' = (pb_link ?bs)(i := Some ?top)"
    using i by (auto simp: pb_link_def fun_eq_iff)
  have len: "length ?bs \<le> 4294967295" using wf by (simp add: tier_wf_def)
  have idx: "unat (of_nat i :: u32) = i" "(of_nat i :: u32) \<noteq> link_end"
    using i len by (auto simp: link_end_def u32_eq_iff_unat)
  have ch: "chain (pb_link ?bs') (of_nat i) (i # ?fl)"
    using wf notin idx by (simp add: link tier_wf_def)
  have ptrs: "map pb_ptr ?bs' = map pb_ptr ?bs"
    using i by (simp add: map_update list_update_same_conv)
  have set_ptrs: "pb_ptr ` set ?bs' = pb_ptr ` set ?bs"
    using arg_cong [OF ptrs, of set] by simp
  have "set (i # ?fl) \<subseteq> {..<length ?bs}" using tier_wf_idx [OF wf] i by auto
  then have "card (set (i # ?fl)) \<le> length ?bs"
    using card_mono [of "{..<length ?bs}" "set (i # ?fl)"] by simp
  then have "Suc (length ?fl) \<le> 4294967295"
    using chain_distinct [OF ch] len distinct_card [of "i # ?fl"] by simp
  then have avail: "unat (tp_available p + 1) = length (i # ?fl)"
    using wf by (subst unat_add_u32) (auto simp: tier_wf_def)
  have "map pb_alloc_size ?bs' = map pb_alloc_size ?bs"
    using i by (simp add: map_update list_update_same_conv)
  from arg_cong [OF this, of set] have "pb_alloc_size ` set ?bs' = pb_alloc_size ` set ?bs" by simp
  then have sizes: "pb_alloc_size b = 64 + unat (tier_capacity (tp_tier p))" if "b \<in> set ?bs'" for b
    using that wf by (metis (no_types, lifting) imageE imageI tier_wf_def)
  note wfI = tier_wfI [of ?p "i # ?fl"]
  have "tier_wf ?p" using wfI(1) len ch avail wf ptrs sizes by (simp add: tier_wf_def)
  moreover have "tier_free ?p = insert ptr (tier_free p)"
    using wfI(2) len ch avail wf ptrs sizes i ptr
    by (auto simp: tier_wf_def tier_free_def nth_list_update image_iff split: if_splits)
  ultimately show ?thesis using that push set_ptrs by (simp add: tier_owned_def)
qed


section \<open>The interface of a tier\<close>

text \<open>
  What the tier set relies on: a pool of pointers, of which some are free. \<open>pop\<close> hands out a
  free one if there is any; \<open>push\<close> takes back a pointer of the pool that is not free and
  refuses a foreign one.
\<close>

locale ptr_pool =
  fixes wf :: "'p \<Rightarrow> bool"
    and owned :: "'p \<Rightarrow> ptr set"
    and free :: "'p \<Rightarrow> ptr set"
    and pop :: "'p \<Rightarrow> ((ptr \<times> usize) option \<times> 'p) option"
    and push :: "'p \<Rightarrow> ptr \<Rightarrow> bool \<times> 'p"
    and bsize :: "'p \<Rightarrow> usize"
  assumes free_owned: "wf p \<Longrightarrow> free p \<subseteq> owned p"
    and pop_empty: "wf p \<Longrightarrow> free p = {} \<Longrightarrow>
      \<exists>p'. pop p = Some (None, p') \<and> wf p' \<and> free p' = {} \<and> owned p' = owned p \<and> bsize p' = bsize p"
    and pop_free: "wf p \<Longrightarrow> free p \<noteq> {} \<Longrightarrow>
      \<exists>x p'. pop p = Some (Some (x, bsize p), p') \<and> x \<in> free p \<and> wf p' \<and>
        free p' = free p - {x} \<and> owned p' = owned p \<and> bsize p' = bsize p"
    and push_held: "wf p \<Longrightarrow> x \<in> owned p \<Longrightarrow> x \<notin> free p \<Longrightarrow>
      \<exists>p'. push p x = (True, p') \<and> wf p' \<and> free p' = insert x (free p) \<and>
        owned p' = owned p \<and> bsize p' = bsize p"
    and push_foreign: "x \<notin> owned p \<Longrightarrow> push p x = (False, p)"
begin

lemma pop_cases:
  assumes "wf p"
  obtains (empty) p' where "pop p = Some (None, p')" "wf p'" "free p = {}" "free p' = {}"
      "owned p' = owned p" "bsize p' = bsize p"
    | (some) x p' where "pop p = Some (Some (x, bsize p), p')" "wf p'" "x \<in> free p"
      "free p' = free p - {x}" "owned p' = owned p" "bsize p' = bsize p"
proof (cases "free p = {}")
  case True
  from pop_empty [OF assms True] obtain p' where "pop p = Some (None, p')" "wf p'" "free p' = {}"
    "owned p' = owned p" "bsize p' = bsize p" by blast
  with True empty show thesis by simp
next
  case False
  from pop_free [OF assms False] obtain x p' where "pop p = Some (Some (x, bsize p), p')"
    "x \<in> free p" "wf p'" "free p' = free p - {x}" "owned p' = owned p" "bsize p' = bsize p" by blast
  with some show thesis by blast
qed

lemma pop_then_push:
  assumes "wf p" and "free p \<noteq> {}"
  shows "\<exists>x n p' p''. pop p = Some (Some (x, n), p') \<and> push p' x = (True, p'') \<and>
           wf p'' \<and> free p'' = free p"
proof -
  from pop_free [OF assms] obtain x p' where p': "pop p = Some (Some (x, bsize p), p')"
    "x \<in> free p" "wf p'" "free p' = free p - {x}" "owned p' = owned p" by blast
  with free_owned [OF assms(1)] push_held [of p' x] obtain p''
    where "push p' x = (True, p'')" "wf p''" "free p'' = insert x (free p')" by auto
  with p' show ?thesis by (auto simp: insert_absorb)
qed

lemma two_pops_distinct:
  assumes "wf p" and "pop p = Some (Some (x, n), p')" and "pop p' = Some (Some (y, m), p'')"
  shows "x \<noteq> y"
proof -
  from assms(1,2) pop_empty have "free p \<noteq> {}" by fastforce
  from pop_free [OF assms(1) this] assms(2) have p': "wf p'" "free p' = free p - {x}" by auto
  with pop_empty assms(3) have "free p' \<noteq> {}" by fastforce
  from pop_free [OF p'(1) this] assms(3) have "y \<in> free p'" by auto
  with p' show ?thesis by auto
qed

end

definition tier_block_size :: "tier_pool \<Rightarrow> usize" where
  "tier_block_size p = 64 + unat (tier_capacity (tp_tier p))"

interpretation tier: ptr_pool tier_wf tier_owned tier_free tier_pop tier_push tier_block_size
proof unfold_locales
  fix p x assume wf: "tier_wf p"
  show "tier_free p \<subseteq> tier_owned p" using wf by (rule tier_free_owned)
  have ne: "tier_free p \<noteq> {}" if "head_index (tp_free_top p) \<noteq> link_end"
    using tier_pop_some [OF wf that] by auto
  show "\<exists>p'. tier_pop p = Some (None, p') \<and> tier_wf p' \<and> tier_free p' = {} \<and>
      tier_owned p' = tier_owned p \<and> tier_block_size p' = tier_block_size p" if "tier_free p = {}"
  proof -
    have "head_index (tp_free_top p) = link_end" using ne that by blast
    with tier_pop_empty [OF wf this] wf show ?thesis by (simp add: tier_block_size_def)
  qed
  show "\<exists>x p'. tier_pop p = Some (Some (x, tier_block_size p), p') \<and> x \<in> tier_free p \<and>
      tier_wf p' \<and> tier_free p' = tier_free p - {x} \<and> tier_owned p' = tier_owned p \<and>
      tier_block_size p' = tier_block_size p" if "tier_free p \<noteq> {}"
  proof -
    have "head_index (tp_free_top p) \<noteq> link_end" using tier_pop_empty(2) [OF wf] that by blast
    from tier_pop_some [OF wf this] show ?thesis by (metis tier_block_size_def)
  qed
  show "\<exists>p'. tier_push p x = (True, p') \<and> tier_wf p' \<and> tier_free p' = insert x (tier_free p) \<and>
      tier_owned p' = tier_owned p \<and> tier_block_size p' = tier_block_size p"
    if "x \<in> tier_owned p" "x \<notin> tier_free p"
    using tier_push_held [OF wf that] by (metis tier_block_size_def)
next
  fix x p assume "x \<notin> tier_owned p"
  then show "tier_push p x = (False, p)" by (rule tier_push_foreign)
qed


section \<open>A new tier\<close>

text \<open>What the pre-allocation loop returns, from index \<open>i\<close> on.\<close>

definition fresh_blocks :: "heap \<Rightarrow> heap \<Rightarrow> ptr set \<Rightarrow> usize \<Rightarrow> bool" where
  "fresh_blocks h h' ps n \<longleftrightarrow>
     dom h \<inter> ps = {} \<and> dom h' = dom h \<union> ps \<and> (\<forall>p \<in> dom h. h' p = h p) \<and>
     (\<forall>p \<in> ps. h' p = Some (replicate n 0))"

lemma prealloc_from_ok:
  assumes "allocator_ok sys"
  shows "prealloc_from sys c n i k h = Some (bs, h') \<Longrightarrow>
     length bs = k \<and> distinct (map pb_ptr bs) \<and>
     (\<forall>j < k. pb_next_free (bs ! j) = (if i + j + 1 < n then of_nat (i + j + 1) else link_end)) \<and>
     (\<forall>b \<in> set bs. pb_alloc_size b = 64 + unat c) \<and>
     fresh_blocks h h' (pb_ptr ` set bs) (64 + unat c)"
proof (induction k arbitrary: i h bs)
  case 0
  then show ?case by (auto simp: fresh_blocks_def)
next
  case (Suc k)
  from Suc.prems obtain p m h1 cs where al: "alloc_buffer sys h c = (Some (p, m), h1)"
    and rest: "prealloc_from sys c n (i + 1) k h1 = Some (cs, h')"
    and bs: "bs = \<lparr>pb_ptr = p, pb_alloc_size = m,
               pb_next_free = (if i + 1 < n then of_nat (i + 1) else link_end)\<rparr> # cs"
    by (auto simp: Let_def split: prod.splits option.splits)
  note a = alloc_buffer_Some [OF al assms]
  note IH = Suc.IH [OF rest]
  have blocks: "fresh_blocks (h(p \<mapsto> replicate m 0)) h' (pb_ptr ` set cs) (64 + unat c)"
    using IH unfolding a(3) by blast
  then have "p \<notin> pb_ptr ` set cs" and "h' p = Some (replicate m 0)"
    by (auto simp: fresh_blocks_def)
  with blocks a(1,2) have "fresh_blocks h h' (pb_ptr ` set bs) (64 + unat c)"
    unfolding fresh_blocks_def bs by (auto simp: domIff)
  moreover have "pb_next_free (bs ! j) =
      (if i + j + 1 < n then of_nat (i + j + 1) else link_end)" if "j < Suc k" for j
    using that IH by (cases j) (auto simp: bs add.commute add.left_commute)
  ultimately show ?case
    using IH a(2) \<open>p \<notin> pb_ptr ` set cs\<close> by (simp add: bs)
qed

lemma tier_pool_new_ok:
  assumes sys: "allocator_ok sys" and new: "tier_pool_new sys h cfg = Some (p, h')"
  shows "tier_wf p" and "tp_tier p = tc_tier cfg" and "tier_free p = tier_owned p"
    and "fresh_blocks h h' (tier_owned p) (tier_block_size p)"
    and "tc_preallocate cfg \<or> tier_owned p = {}"
    and "tc_preallocate cfg \<Longrightarrow> card (tier_owned p) = unat (tc_pool_size cfg)"
proof -
  let ?n = "unat (tc_pool_size cfg)" and ?c = "tier_capacity (tc_tier cfg)"
  let ?k = "if tc_preallocate cfg then ?n else 0"
  obtain bs where pre: "prealloc_from sys ?c ?n 0 ?k h = Some (bs, h')"
    and p: "p = \<lparr>tp_tier = tc_tier cfg, tp_buffers = bs,
        tp_free_top = make_head 0 (if tc_preallocate cfg \<and> 0 < tc_pool_size cfg then 0 else link_end),
        tp_pool_size = tc_pool_size cfg,
        tp_available = (if tc_preallocate cfg then tc_pool_size cfg else 0),
        tp_alloc_count = 0, tp_return_count = 0, tp_fallback_count = 0, tp_exhaustion_count = 0\<rparr>"
    using new by (auto simp: tier_pool_new_def Let_def)
  note ok = prealloc_from_ok [OF sys pre]
  have len: "length bs = ?k" using ok by simp
  have ch: "chain (pb_link bs) (head_index (tp_free_top p)) [0..<?k]"
  proof (cases "tc_preallocate cfg \<and> 0 < tc_pool_size cfg")
    case True
    then have pos: "0 < ?n" by (simp add: word_less_nat_alt)
    have "chain (pb_link bs) (of_nat 0) [0..<?n]"
      using ok True pos by (intro chain_run) (auto simp: pb_link_def)
    with True show ?thesis by (simp add: p)
  next
    case False
    then have "?k = 0" by (auto simp: word_less_nat_alt)
    with False show ?thesis by (auto simp: p)
  qed
  have wf: "tier_wf p" "tier_free p = (\<lambda>i. pb_ptr (bs ! i)) ` set [0..<?k]"
    using tier_wfI [of p "[0..<?k]"] ok len ch unat_u32_less [of "tc_pool_size cfg"]
    by (auto simp: p less_Suc_eq_le simp del: unat_u32_less)
  show "tier_wf p" "tp_tier p = tc_tier cfg" using wf by (simp_all add: p)
  show "tier_free p = tier_owned p"
    using wf(2) len by (force simp: tier_owned_def p in_set_conv_nth)
  show "fresh_blocks h h' (tier_owned p) (tier_block_size p)"
    using ok by (simp add: tier_owned_def tier_block_size_def p)
  show "tc_preallocate cfg \<or> tier_owned p = {}"
    using len by (cases "tc_preallocate cfg") (auto simp: tier_owned_def p)
  show "card (tier_owned p) = unat (tc_pool_size cfg)" if "tc_preallocate cfg"
    using ok len that distinct_card [of "map pb_ptr bs"] by (simp add: tier_owned_def p)
qed


section \<open>The four tiers together with the heap\<close>

definition ps_owned :: "pool_set \<Rightarrow> pool_tier \<Rightarrow> ptr set" where
  "ps_owned s t = tier_owned (tier_pool_of s t)"

definition ps_free :: "pool_set \<Rightarrow> pool_tier \<Rightarrow> ptr set" where
  "ps_free s t = tier_free (tier_pool_of s t)"

text \<open>
  The tiers are well-formed and disjoint, their buffers are allocated at the size of the
  tier, and the payload of a buffer on a free list is zero: nothing of its last user is left.
\<close>

definition pool_inv :: "pool_set \<Rightarrow> heap \<Rightarrow> bool" where
  "pool_inv s h \<longleftrightarrow>
     (\<forall>t. tier_wf (tier_pool_of s t) \<and> tp_tier (tier_pool_of s t) = t) \<and>
     (\<forall>t t'. t \<noteq> t' \<longrightarrow> ps_owned s t \<inter> ps_owned s t' = {}) \<and>
     (\<forall>t. \<forall>p \<in> ps_owned s t. block_of_size h p (64 + unat (tier_capacity t))) \<and>
     (\<forall>t. \<forall>p \<in> ps_free s t. payload_zero h p)"

lemma tier_pool_of_put: "tier_pool_of (tier_pool_put s t p) t' = (if t' = t then p else tier_pool_of s t')"
  by (cases t; cases t') simp_all

lemma ps_put:
  "ps_owned (tier_pool_put s t p) t' = (if t' = t then tier_owned p else ps_owned s t')"
  "ps_free (tier_pool_put s t p) t' = (if t' = t then tier_free p else ps_free s t')"
  by (simp_all add: ps_owned_def ps_free_def tier_pool_of_put)

lemma ps_free_owned: "pool_inv s h \<Longrightarrow> ps_free s t \<subseteq> ps_owned s t"
  by (simp add: pool_inv_def ps_owned_def ps_free_def tier.free_owned)

lemma pool_inv_block:
  "pool_inv s h \<Longrightarrow> p \<in> ps_owned s t \<Longrightarrow> block_of_size h p (64 + unat (tier_capacity t))"
  by (simp add: pool_inv_def)

lemma pool_inv_unallocated: "pool_inv s h \<Longrightarrow> h p = None \<Longrightarrow> p \<notin> ps_owned s t"
  using pool_inv_block by (fastforce simp: block_of_size_def)

lemma block_of_size_unique: "block_of_size h p n \<Longrightarrow> block_of_size h p m \<Longrightarrow> n = m"
  by (auto simp: block_of_size_def)

lemma pool_inv_put:
  assumes "pool_inv s h" and "tier_wf p" and "tp_tier p = t" and "tier_owned p = ps_owned s t"
    and "\<And>x. x \<in> tier_free p \<Longrightarrow> payload_zero h x"
  shows "pool_inv (tier_pool_put s t p) h"
  using assms by (auto simp: pool_inv_def tier_pool_of_put ps_put)

text \<open>Changing a block that is not on a free list, or adding or removing one outside the pools.\<close>

lemma pool_inv_heap:
  assumes "pool_inv s h" and "\<And>t. p \<notin> ps_free s t" and "block_of_size h p (length bytes)"
  shows "pool_inv s (h(p \<mapsto> bytes))"
  unfolding pool_inv_def
proof (intro conjI allI ballI)
  fix t q
  show "block_of_size (h(p \<mapsto> bytes)) q (64 + unat (tier_capacity t))" if "q \<in> ps_owned s t"
    using pool_inv_block [OF assms(1) that] assms(3) block_of_size_unique [of h p]
    by (cases "q = p") auto
  show "payload_zero (h(p \<mapsto> bytes)) q" if "q \<in> ps_free s t"
    using that assms(1) assms(2) [of t] by (cases "q = p") (auto simp: pool_inv_def)
qed (use assms(1) in \<open>auto simp: pool_inv_def\<close>)

lemma pool_inv_heap_foreign:
  assumes "pool_inv s h" and "\<And>t. p \<notin> ps_owned s t"
  shows "pool_inv s (h(p := v))"
  unfolding pool_inv_def
proof (intro conjI allI ballI)
  fix t q
  show "block_of_size (h(p := v)) q (64 + unat (tier_capacity t))" if "q \<in> ps_owned s t"
    using that assms by (auto simp: pool_inv_def)
  show "payload_zero (h(p := v)) q" if "q \<in> ps_free s t"
    using that assms ps_free_owned [OF assms(1), of t] by (cases "q = p") (auto simp: pool_inv_def)
qed (use assms(1) in \<open>auto simp: pool_inv_def\<close>)

definition same_pools :: "pool_set \<Rightarrow> pool_set \<Rightarrow> bool" where
  "same_pools s s' \<longleftrightarrow> (\<forall>t. ps_owned s' t = ps_owned s t \<and> ps_free s' t = ps_free s t)"

text \<open>
  Allocation: out of memory, or a pooled buffer of the right tier, or a new block. Whatever
  it returns is zeroed and was not in use.
\<close>

lemma pool_allocate_cases:
  assumes inv: "pool_inv s h" and sys: "allocator_ok sys"
  obtains (oom) s' where "pool_allocate sys s h c = Some (None, s', h)" "pool_inv s' h"
      "same_pools s s'"
  | (pooled) p s' where
      "pool_allocate sys s h c =
         Some (Some (p, 64 + unat (tier_capacity (tier_for_capacity c)), tier_for_capacity c, False), s', h)"
      "pool_inv s' h" "p \<in> ps_free s (tier_for_capacity c)" "\<forall>t. ps_owned s' t = ps_owned s t"
      "\<forall>t. ps_free s' t = ps_free s t - {p}"
  | (fallback) p s' n where
      "pool_allocate sys s h c =
         Some (Some (p, n, tier_for_capacity c, True), s', h(p \<mapsto> replicate n 0))"
      "n = 64 + unat (max (tier_capacity (tier_for_capacity c)) c)" "h p = None"
      "pool_inv s' (h(p \<mapsto> replicate n 0))" "same_pools s s'"
proof -
  let ?t = "tier_for_capacity c"
  let ?p = "tier_pool_of s ?t"
  have wf: "tier_wf ?p" "tp_tier ?p = ?t" using inv by (simp_all add: pool_inv_def)
  show thesis
  proof (cases rule: tier.pop_cases [OF wf(1), case_names empty some])
    case (empty p')
    let ?s = "tier_pool_put s ?t (p'\<lparr>tp_fallback_count := tp_fallback_count p' + 1\<rparr>)"
    have p': "p' = ?p\<lparr>tp_exhaustion_count := tp_exhaustion_count ?p + 1\<rparr>"
      using empty(1) by (auto simp: tier_pop_def Let_def split: if_splits)
    have inv': "pool_inv ?s h"
      using inv empty wf p' by (intro pool_inv_put) (auto simp: ps_owned_def)
    have same: "same_pools s ?s"
      using empty by (auto simp: same_pools_def ps_put) (simp_all add: ps_owned_def ps_free_def)
    obtain r h' where al: "alloc_buffer sys h (max (tier_capacity ?t) c) = (r, h')" by force
    show thesis
    proof (cases r)
      case None
      with al have "h' = h" by (auto dest: alloc_buffer_None)
      with None al empty(1) oom inv' same show thesis
        by (simp add: pool_allocate_def Let_def)
    next
      case (Some pn)
      then obtain q n where r: "r = Some (q, n)" by (cases pn) auto
      note a = alloc_buffer_Some [OF al [unfolded r] sys]
      have q: "q \<notin> ps_owned ?s t" for t
        using inv' a(1) by (rule pool_inv_unallocated)
      show thesis
        using fallback [of q n ?s] al r empty(1) a inv' same pool_inv_heap_foreign [OF inv' q]
        by (simp add: pool_allocate_def Let_def)
    qed
  next
    case (some q p')
    let ?s = "tier_pool_put s ?t p'"
    have tier: "tp_tier p' = ?t"
      using some(1) wf(2) by (auto simp: tier_pop_def Let_def split: if_splits)
    have "pool_inv ?s h"
      using inv some tier by (intro pool_inv_put) (auto simp: ps_owned_def pool_inv_def ps_free_def)
    moreover have "ps_free ?s t = ps_free s t - {q}" for t
    proof (cases "t = ?t")
      case True
      with some show ?thesis by (simp add: ps_put) (simp add: ps_free_def)
    next
      case False
      have "q \<in> ps_owned s ?t" using some(3) ps_free_owned [OF inv, of ?t] by (auto simp: ps_free_def)
      with False inv have "q \<notin> ps_owned s t" by (fastforce simp: pool_inv_def)
      with ps_free_owned [OF inv, of t] False show ?thesis by (auto simp: ps_put)
    qed
    ultimately show thesis
      using pooled [of q ?s] some wf
      by (auto simp: pool_allocate_def Let_def tier_block_size_def ps_put)
        (auto simp: ps_owned_def ps_free_def)
  qed
qed

lemma pool_release_fallback:
  assumes "pool_inv s h" and "\<And>t. p \<notin> ps_owned s t" and "block_of_size h p n"
  shows "pool_release s h p n t True = Some (s, h(p := None))" and "pool_inv s (h(p := None))"
  using assms by (simp_all add: pool_release_def dealloc_buffer_ok pool_inv_heap_foreign)

lemma pool_release_pooled:
  assumes inv: "pool_inv s h" and own: "p \<in> ps_owned s t" and held: "p \<notin> ps_free s t"
    and zero: "payload_zero h p"
  obtains s' where "pool_release s h p n t False = Some (s', h)" "pool_inv s' h"
    "\<forall>u. ps_owned s' u = ps_owned s u"
    "\<forall>u. ps_free s' u = (if u = t then insert p (ps_free s t) else ps_free s u)"
proof -
  let ?p = "tier_pool_of s t"
  have wf: "tier_wf ?p" "tp_tier ?p = t" using inv by (simp_all add: pool_inv_def)
  obtain p' where p': "tier_push ?p p = (True, p')" "tier_wf p'" "tier_free p' = insert p (tier_free ?p)"
    "tier_owned p' = tier_owned ?p" "tp_tier p' = tp_tier ?p"
    using tier_push_held [OF wf(1), of p] own held by (auto simp: ps_owned_def ps_free_def)
  let ?s = "tier_pool_put s t p'"
  have "pool_inv ?s h"
    using inv p' wf zero
    by (intro pool_inv_put) (auto simp: ps_owned_def pool_inv_def ps_free_def)
  then show thesis
    using that [of ?s] p' by (auto simp: pool_release_def ps_put) (auto simp: ps_owned_def ps_free_def)
qed


text \<open>
  A set built from configurations in tier order satisfies the invariant, with every buffer
  free; a tier that is not pre-allocated has no buffers at all.
\<close>

lemma fresh_blocks_block: "fresh_blocks h h' ps n \<Longrightarrow> p \<in> ps \<Longrightarrow> block_of_size h' p n \<and> payload_zero h' p"
  by (auto simp: fresh_blocks_def block_of_size_def payload_zero_def payload_bytes_def)

lemma fresh_blocks_keep: "fresh_blocks h h' ps n \<Longrightarrow> p \<in> dom h \<Longrightarrow> h' p = h p"
  by (auto simp: fresh_blocks_def)

definition configs_in_order :: "tier_config \<times> tier_config \<times> tier_config \<times> tier_config \<Rightarrow> bool" where
  "configs_in_order cfg \<longleftrightarrow>
     (case cfg of (c0, c1, c2, c3) \<Rightarrow>
        tc_tier c0 = Small \<and> tc_tier c1 = Medium \<and> tc_tier c2 = Large \<and> tc_tier c3 = Huge)"

lemma pool_set_new_inv:
  assumes sys: "allocator_ok sys" and cfg: "configs_in_order (c0, c1, c2, c3)"
    and new: "pool_set_new sys Map.empty (c0, c1, c2, c3) = Some (s, h)"
  shows "pool_inv s h" and "\<And>t. ps_free s t = ps_owned s t"
    and "dom h = (\<Union>t. ps_owned s t)" and "tc_preallocate c3 \<or> ps_owned s Huge = {}"
proof -
  obtain p0 h0 p1 h1 p2 h2 p3 where n: "tier_pool_new sys Map.empty c0 = Some (p0, h0)"
    "tier_pool_new sys h0 c1 = Some (p1, h1)" "tier_pool_new sys h1 c2 = Some (p2, h2)"
    "tier_pool_new sys h2 c3 = Some (p3, h)"
    and s: "s = \<lparr>ps_small = p0, ps_medium = p1, ps_large = p2, ps_huge = p3\<rparr>"
    using new by (auto simp: pool_set_new_def split: Option.bind_splits)
  note ok0 = tier_pool_new_ok [OF sys n(1)] and ok1 = tier_pool_new_ok [OF sys n(2)]
    and ok2 = tier_pool_new_ok [OF sys n(3)] and ok3 = tier_pool_new_ok [OF sys n(4)]
  have tiers: "tp_tier p0 = Small" "tp_tier p1 = Medium" "tp_tier p2 = Large" "tp_tier p3 = Huge"
    using ok0(2) ok1(2) ok2(2) ok3(2) cfg by (simp_all add: configs_in_order_def)
  note fb = ok0(4) ok1(4) ok2(4) ok3(4)
  have doms: "dom h0 = tier_owned p0" "dom h1 = dom h0 \<union> tier_owned p1"
    "dom h2 = dom h1 \<union> tier_owned p2" "dom h = dom h2 \<union> tier_owned p3"
    "dom h0 \<inter> tier_owned p1 = {}" "dom h1 \<inter> tier_owned p2 = {}" "dom h2 \<inter> tier_owned p3 = {}"
    using fb by (auto simp: fresh_blocks_def)
  have keep: "h p = h0 p" if "p \<in> dom h0" for p
    using that doms fresh_blocks_keep [OF fb(2)] fresh_blocks_keep [OF fb(3)]
      fresh_blocks_keep [OF fb(4)] by auto
  have keep1: "h p = h1 p" if "p \<in> dom h1" for p
    using that doms fresh_blocks_keep [OF fb(3)] fresh_blocks_keep [OF fb(4)] by auto
  have keep2: "h p = h2 p" if "p \<in> dom h2" for p
    using that fresh_blocks_keep [OF fb(4)] by auto
  have zero: "block_of_size h p (64 + unat (tier_capacity t)) \<and> payload_zero h p"
    if "p \<in> ps_owned s t" for t p
    using that fresh_blocks_block [OF fb(1), of p] fresh_blocks_block [OF fb(2), of p]
      fresh_blocks_block [OF fb(3), of p] fresh_blocks_block [OF fb(4), of p] keep [of p]
      keep1 [of p] keep2 [of p] doms tiers
    by (cases t) (auto simp: s ps_owned_def tier_block_size_def block_of_size_def
        payload_zero_def payload_bytes_def)
  show free: "ps_free s t = ps_owned s t" for t
    using ok0(3) ok1(3) ok2(3) ok3(3) by (cases t) (simp_all add: s ps_owned_def ps_free_def)
  have disj: "ps_owned s t \<inter> ps_owned s u = {}" if "t \<noteq> u" for t u
    using that doms by (cases t; cases u) (auto simp: s ps_owned_def)
  have wf: "tier_wf (tier_pool_of s t) \<and> tp_tier (tier_pool_of s t) = t" for t
    using ok0(1) ok1(1) ok2(1) ok3(1) tiers by (cases t) (simp_all add: s)
  show "pool_inv s h" using zero free disj wf by (simp add: pool_inv_def)
  have "(\<Union>t. ps_owned s t) = ps_owned s Small \<union> ps_owned s Medium \<union> ps_owned s Large \<union> ps_owned s Huge"
    by (auto intro: pool_tier.exhaust) (metis pool_tier.exhaust)
  then show "dom h = (\<Union>t. ps_owned s t)" using doms by (auto simp: s ps_owned_def)
  show "tc_preallocate c3 \<or> ps_owned s Huge = {}" using ok3(5) by (simp add: s ps_owned_def)
qed

end
