(* ===== verification/Res_Budget.thy ===== *)
theory Res_Budget
  imports Res_Ownership
begin

text \<open>
  \<open>torvyn-resources/src/budget.rs\<close>: how many bytes a component owns and may own. A component
  without an entry in the registry is not limited. The compare-and-swap loop of
  \<open>try_reserve\<close> is modelled by its successful iteration.
\<close>

definition default_max_owned_bytes :: u64 where
  "default_max_owned_bytes = 64 * 1024 * 1024"

record component_budget =
  cb_max_owned_bytes :: u64
  cb_current_owned_bytes :: u64

definition budget_new :: "u64 \<Rightarrow> component_budget" where
  "budget_new max_owned_bytes =
     \<lparr>cb_max_owned_bytes = max_owned_bytes, cb_current_owned_bytes = 0\<rparr>"

definition budget_try_reserve ::
    "component_budget \<Rightarrow> u64 \<Rightarrow> component_id \<Rightarrow> resource_error + component_budget" where
  "budget_try_reserve b bytes c =
     (let current = cb_current_owned_bytes b; new_total = current + bytes
      in if cb_max_owned_bytes b < new_total
         then Inl (budget_exceeded c current bytes (cb_max_owned_bytes b))
         else Inr (b\<lparr>cb_current_owned_bytes := new_total\<rparr>))"

definition budget_release :: "component_budget \<Rightarrow> u64 \<Rightarrow> component_budget" where
  "budget_release b bytes = b\<lparr>cb_current_owned_bytes := cb_current_owned_bytes b - bytes\<rparr>"

definition budget_remaining :: "component_budget \<Rightarrow> u64" where
  "budget_remaining b = saturating_sub_u64 (cb_max_owned_bytes b) (cb_current_owned_bytes b)"

record budget_registry =
  br_budgets :: "component_id \<rightharpoonup> component_budget"
  br_default_max :: u64

definition registry_new :: "u64 \<Rightarrow> budget_registry" where
  "registry_new default_max = \<lparr>br_budgets = Map.empty, br_default_max = default_max\<rparr>"

definition registry_register ::
    "budget_registry \<Rightarrow> component_id \<Rightarrow> u64 option \<Rightarrow> budget_registry" where
  "registry_register r c max_owned_bytes =
     (let m = (case max_owned_bytes of Some n \<Rightarrow> n | None \<Rightarrow> br_default_max r)
      in r\<lparr>br_budgets := (br_budgets r)(c \<mapsto> budget_new m)\<rparr>)"

definition registry_unregister :: "budget_registry \<Rightarrow> component_id \<Rightarrow> budget_registry" where
  "registry_unregister r c = r\<lparr>br_budgets := (br_budgets r)(c := None)\<rparr>"

definition registry_try_reserve ::
    "budget_registry \<Rightarrow> component_id \<Rightarrow> u64 \<Rightarrow> resource_error + budget_registry" where
  "registry_try_reserve r c bytes =
     (case br_budgets r c of
        None \<Rightarrow> Inr r
      | Some b \<Rightarrow>
          (case budget_try_reserve b bytes c of
             Inl err \<Rightarrow> Inl err
           | Inr b' \<Rightarrow> Inr (r\<lparr>br_budgets := (br_budgets r)(c \<mapsto> b')\<rparr>)))"

definition registry_release_bytes :: "budget_registry \<Rightarrow> component_id \<Rightarrow> u64 \<Rightarrow> budget_registry" where
  "registry_release_bytes r c bytes =
     (case br_budgets r c of
        None \<Rightarrow> r
      | Some b \<Rightarrow> r\<lparr>br_budgets := (br_budgets r)(c \<mapsto> budget_release b bytes)\<rparr>)"

definition registry_current_usage :: "budget_registry \<Rightarrow> component_id \<Rightarrow> u64" where
  "registry_current_usage r c =
     (case br_budgets r c of None \<Rightarrow> 0 | Some b \<Rightarrow> cb_current_owned_bytes b)"

section \<open>Accounts\<close>

text \<open>
  A registry as a map from components to what they use and may use. It is in order when no
  component is over its limit and no limit is so close to \<open>2 ^ 64\<close> that adding the size of a
  buffer, below \<open>2 ^ 32\<close>, wraps.
\<close>

definition account :: "budget_registry \<Rightarrow> component_id \<rightharpoonup> nat \<times> nat" where
  "account r c =
     map_option (\<lambda>b. (unat (cb_current_owned_bytes b), unat (cb_max_owned_bytes b))) (br_budgets r c)"

definition registry_wf :: "budget_registry \<Rightarrow> bool" where
  "registry_wf r \<longleftrightarrow>
     (\<forall>c b. br_budgets r c = Some b \<longrightarrow>
        unat (cb_current_owned_bytes b) \<le> unat (cb_max_owned_bytes b) \<and>
        unat (cb_max_owned_bytes b) + 4294967296 \<le> 18446744073709551616)"

lemma account_upd [simp]:
  "account (r\<lparr>br_budgets := (br_budgets r)(c \<mapsto> b)\<rparr>) =
     (account r)(c \<mapsto> (unat (cb_current_owned_bytes b), unat (cb_max_owned_bytes b)))"
  by (auto simp: account_def fun_eq_iff)

text \<open>A quota: what the resource manager relies on when it reserves and gives back bytes.\<close>

locale quota =
  fixes wf :: "'r \<Rightarrow> bool"
    and acct :: "'r \<Rightarrow> component_id \<rightharpoonup> nat \<times> nat"
    and reserve :: "'r \<Rightarrow> component_id \<Rightarrow> u64 \<Rightarrow> resource_error + 'r"
    and give_back :: "'r \<Rightarrow> component_id \<Rightarrow> u64 \<Rightarrow> 'r"
  assumes within: "wf r \<Longrightarrow> acct r c = Some (u, l) \<Longrightarrow> u \<le> l"
    and reserve_unlimited: "acct r c = None \<Longrightarrow> reserve r c n = Inr r"
    and reserve_ok: "wf r \<Longrightarrow> acct r c = Some (u, l) \<Longrightarrow> unat n < 4294967296 \<Longrightarrow> u + unat n \<le> l \<Longrightarrow>
      \<exists>r'. reserve r c n = Inr r' \<and> wf r' \<and> acct r' = (acct r)(c \<mapsto> (u + unat n, l))"
    and reserve_over: "wf r \<Longrightarrow> acct r c = Some (u, l) \<Longrightarrow> unat n < 4294967296 \<Longrightarrow> l < u + unat n \<Longrightarrow>
      \<exists>err. reserve r c n = Inl err"
    and give_back_unlimited: "acct r c = None \<Longrightarrow> give_back r c n = r"
    and give_back_ok: "wf r \<Longrightarrow> acct r c = Some (u, l) \<Longrightarrow> unat n \<le> u \<Longrightarrow>
      wf (give_back r c n) \<and> acct (give_back r c n) = (acct r)(c \<mapsto> (u - unat n, l))"
begin

text \<open>Every case of a reservation, as one elimination rule.\<close>

lemma reserve_cases:
  assumes "wf r" and "unat n < 4294967296"
  obtains (refused) err u l where "reserve r c n = Inl err" "acct r c = Some (u, l)" "l < u + unat n"
  | (unlimited) "reserve r c n = Inr r" "acct r c = None"
  | (granted) r' u l where "reserve r c n = Inr r'" "acct r c = Some (u, l)" "wf r'"
      "acct r' = (acct r)(c \<mapsto> (u + unat n, l))" "u + unat n \<le> l"
proof (cases "acct r c")
  case None
  with unlimited reserve_unlimited show thesis by blast
next
  case (Some ul)
  then obtain u l where ul: "acct r c = Some (u, l)" by (cases ul) auto
  show thesis
  proof (cases "u + unat n \<le> l")
    case True
    with reserve_ok [OF assms(1) ul assms(2)] granted ul show thesis by blast
  next
    case False
    with reserve_over [OF assms(1) ul assms(2)] refused ul show thesis by auto
  qed
qed

lemma reserve_give_back:
  assumes "wf r" and "unat n < 4294967296" and "reserve r c n = Inr r'"
  shows "wf (give_back r' c n) \<and> acct (give_back r' c n) = acct r"
proof (cases rule: reserve_cases [OF assms(1,2), of c, case_names refused unlimited granted])
  case refused
  with assms(3) show ?thesis by simp
next
  case unlimited
  with assms give_back_unlimited show ?thesis by simp
next
  case (granted r'' u l)
  with assms give_back_ok [of r' c "u + unat n" l n] show ?thesis
    by (auto simp: fun_upd_idem)
qed

end

interpretation budget: quota registry_wf account registry_try_reserve registry_release_bytes
proof unfold_locales
  fix r c u l
  assume wf: "registry_wf r" and a: "account r c = Some (u, l)"
  then obtain b where b: "br_budgets r c = Some b" "u = unat (cb_current_owned_bytes b)"
    "l = unat (cb_max_owned_bytes b)" "u \<le> l" "l + 4294967296 \<le> 18446744073709551616"
    by (auto simp: account_def registry_wf_def)
  then show "u \<le> l" by simp
  fix n :: u64
  {
    assume n: "unat n < 4294967296"
    have new: "unat (cb_current_owned_bytes b + n) = u + unat n"
      using b n by (subst unat_add_u64) auto
    show "\<exists>r'. registry_try_reserve r c n = Inr r' \<and> registry_wf r' \<and>
        account r' = (account r)(c \<mapsto> (u + unat n, l))" if "u + unat n \<le> l"
      using that wf b new
      by (auto simp: registry_try_reserve_def budget_try_reserve_def Let_def registry_wf_def
          word_less_nat_alt)
    show "\<exists>err. registry_try_reserve r c n = Inl err" if "l < u + unat n"
      using that b new
      by (auto simp: registry_try_reserve_def budget_try_reserve_def Let_def word_less_nat_alt)
  }
  assume n: "unat n \<le> u"
  then have new: "unat (cb_current_owned_bytes b - n) = u - unat n"
    using b by (subst unat_sub_u64) auto
  show "registry_wf (registry_release_bytes r c n) \<and>
      account (registry_release_bytes r c n) = (account r)(c \<mapsto> (u - unat n, l))"
    using wf b new
    by (auto simp: registry_release_bytes_def budget_release_def registry_wf_def
        intro: order.trans [OF diff_le_self])
qed (auto simp: registry_try_reserve_def registry_release_bytes_def account_def)

end
