(* ===== verification/Res_Accounting.thy ===== *)
theory Res_Accounting
  imports Torvyn_Types
begin

text \<open>
  \<open>torvyn-resources/src/accounting.rs\<close>: how many bytes each flow copied, and why. The event
  sink is a trait object; the model keeps the calls it receives, in order.
\<close>

record flow_copy_stats =
  fc_total_payload_bytes :: u64
  fc_total_metadata_bytes :: u64
  fc_total_copy_ops :: u64
  fc_copies_by_reason :: "u64 list"

definition copy_stats_new :: flow_copy_stats where
  "copy_stats_new =
     \<lparr>fc_total_payload_bytes = 0, fc_total_metadata_bytes = 0, fc_total_copy_ops = 0,
      fc_copies_by_reason = [0, 0, 0, 0]\<rparr>"

fun reason_index :: "copy_reason \<Rightarrow> usize" where
  "reason_index HostToComponent = 0"
| "reason_index ComponentToHost = 1"
| "reason_index CrossComponent = 2"
| "reason_index PoolReturn = 3"

definition copy_stats_record :: "flow_copy_stats \<Rightarrow> u64 \<Rightarrow> copy_reason \<Rightarrow> flow_copy_stats" where
  "copy_stats_record s byte_count reason =
     (let idx = reason_index reason
      in s\<lparr>fc_total_payload_bytes := fc_total_payload_bytes s + byte_count,
           fc_total_copy_ops := fc_total_copy_ops s + 1,
           fc_copies_by_reason :=
             (fc_copies_by_reason s)[idx := fc_copies_by_reason s ! idx + 1]\<rparr>)"

definition copy_stats_record_metadata :: "flow_copy_stats \<Rightarrow> u64 \<Rightarrow> flow_copy_stats" where
  "copy_stats_record_metadata s byte_count =
     s\<lparr>fc_total_metadata_bytes := fc_total_metadata_bytes s + byte_count\<rparr>"

record copy_event =
  ce_flow :: flow_id
  ce_resource :: resource_id
  ce_from :: component_id
  ce_to :: component_id
  ce_bytes :: u64
  ce_reason :: copy_reason

type_synonym copy_ledger = "flow_id \<rightharpoonup> flow_copy_stats"

definition ledger_register_flow :: "copy_ledger \<Rightarrow> flow_id \<Rightarrow> copy_ledger" where
  "ledger_register_flow l f =
     (case l f of None \<Rightarrow> l(f \<mapsto> copy_stats_new) | Some _ \<Rightarrow> l)"

text \<open>\<open>record_copy\<close>: the statistics of a registered flow, and an event for every copy.\<close>

definition ledger_record_copy ::
    "copy_ledger \<Rightarrow> copy_event list \<Rightarrow> flow_id \<Rightarrow> resource_id \<Rightarrow> component_id \<Rightarrow> component_id \<Rightarrow>
     u64 \<Rightarrow> copy_reason \<Rightarrow> copy_ledger \<times> copy_event list" where
  "ledger_record_copy l events f r from_c to_c byte_count reason =
     ((case l f of
         None \<Rightarrow> l
       | Some s \<Rightarrow> l(f \<mapsto> copy_stats_record s byte_count reason)),
      events @ [\<lparr>ce_flow = f, ce_resource = r, ce_from = from_c, ce_to = to_c,
                 ce_bytes = byte_count, ce_reason = reason\<rparr>])"

text \<open>A snapshot has the fields of the statistics; a flow without an entry reads as zero.\<close>

definition ledger_flow_stats :: "copy_ledger \<Rightarrow> flow_id \<Rightarrow> flow_copy_stats" where
  "ledger_flow_stats l f = (case l f of None \<Rightarrow> copy_stats_new | Some s \<Rightarrow> s)"

definition ledger_remove_flow :: "copy_ledger \<Rightarrow> flow_id \<Rightarrow> flow_copy_stats \<times> copy_ledger" where
  "ledger_remove_flow l f = (ledger_flow_stats l f, l(f := None))"

section \<open>The ledger agrees with the events\<close>

definition copy_stats_wf :: "flow_copy_stats \<Rightarrow> bool" where
  "copy_stats_wf s \<longleftrightarrow>
     length (fc_copies_by_reason s) = 4 \<and>
     sum_list (fc_copies_by_reason s) = fc_total_copy_ops s"

lemma copy_stats_new_wf: "copy_stats_wf copy_stats_new"
  by (simp add: copy_stats_wf_def copy_stats_new_def)

lemma reason_index_less: "reason_index r < 4"
  by (cases r) simp_all

lemma sum_list_inc:
  "i < length (xs :: u64 list) \<Longrightarrow> sum_list (xs[i := xs ! i + 1]) = sum_list xs + 1"
  by (induction xs arbitrary: i) (auto simp: nth_Cons' less_Suc_eq_0_disj split: nat.splits)

lemma copy_stats_record_wf: "copy_stats_wf s \<Longrightarrow> copy_stats_wf (copy_stats_record s n r)"
  using reason_index_less [of r]
  by (simp add: copy_stats_wf_def copy_stats_record_def Let_def sum_list_inc)

definition flow_events :: "copy_event list \<Rightarrow> flow_id \<Rightarrow> copy_event list" where
  "flow_events es f = filter (\<lambda>e. ce_flow e = f) es"

definition stats_of_events :: "copy_event list \<Rightarrow> flow_copy_stats" where
  "stats_of_events es = fold (\<lambda>e s. copy_stats_record s (ce_bytes e) (ce_reason e)) es copy_stats_new"

text \<open>
  A ledger that started empty: the statistics of a flow are those of the events of the flow
  since it was registered.
\<close>

lemma stats_of_events_snoc:
  "stats_of_events (es @ [e]) = copy_stats_record (stats_of_events es) (ce_bytes e) (ce_reason e)"
  by (simp add: stats_of_events_def)

lemma stats_of_events_wf: "copy_stats_wf (stats_of_events es)"
  by (induction es rule: rev_induct)
    (simp_all add: stats_of_events_snoc copy_stats_record_wf, simp add: stats_of_events_def
      copy_stats_new_wf)

lemma ops_of_record [simp]:
  "fc_total_copy_ops (copy_stats_record s n r) = fc_total_copy_ops s + 1"
  "fc_total_payload_bytes (copy_stats_record s n r) = fc_total_payload_bytes s + n"
  by (simp_all add: copy_stats_record_def Let_def)

lemma stats_of_events_totals:
  "fc_total_copy_ops (stats_of_events es) = of_nat (length es)"
  "fc_total_payload_bytes (stats_of_events es) = sum_list (map ce_bytes es)"
  by (induction es rule: rev_induct)
    (simp_all add: stats_of_events_snoc, simp_all add: stats_of_events_def copy_stats_new_def)

end
