(* ===== verification/Res_Manager.thy ===== *)
theory Res_Manager
  imports Res_Table Res_Pool Res_Budget Res_Accounting
begin

text \<open>
  \<open>torvyn-resources/src/manager.rs\<close>: \<open>DefaultResourceManager\<close>, the one API through which
  buffers are allocated, released, handed over, borrowed, read and written. Each method is a
  function on the manager record; it returns \<open>None\<close> where the code would panic or have
  undefined behaviour, and otherwise the method's \<open>Result\<close> with the new state.

  Parameters: \<open>sys\<close> is the system allocator (see \<open>Res_Buffer\<close>), \<open>now\<close> the clock, and \<open>iter\<close>
  the order in which a hash set is walked. The event sink is the list of copies reported to it.
  The heap, which Rust holds implicitly, is a field of the record.
\<close>

section \<open>State\<close>

record manager_config =
  mc_table_capacity :: u32
  mc_pool_configs :: "tier_config \<times> tier_config \<times> tier_config \<times> tier_config"
  mc_default_budget_bytes :: u64

definition manager_config_default :: manager_config where
  "manager_config_default =
     \<lparr>mc_table_capacity = default_initial_capacity,
      mc_pool_configs = (tier_config_defaults ! 0, tier_config_defaults ! 1,
        tier_config_defaults ! 2, tier_config_defaults ! 3),
      mc_default_budget_bytes = default_max_owned_bytes\<rparr>"

record manager =
  m_table :: resource_table
  m_component_resources :: "component_id \<rightharpoonup> resource_id set"
  m_flow_resources :: "flow_id \<rightharpoonup> resource_id set"
  m_pools :: pool_set
  m_budgets :: budget_registry
  m_ledger :: copy_ledger
  m_events :: "copy_event list"
  m_heap :: heap

type_synonym set_order = "resource_id set \<Rightarrow> resource_id list"

definition manager_new :: "sys_alloc \<Rightarrow> manager_config \<Rightarrow> manager option" where
  "manager_new sys config =
     Option.bind (table_new (mc_table_capacity config)) (\<lambda>table.
     Option.bind (pool_set_new sys Map.empty (mc_pool_configs config)) (\<lambda>(pools, h).
     Some \<lparr>m_table = table, m_component_resources = Map.empty, m_flow_resources = Map.empty,
           m_pools = pools, m_budgets = registry_new (mc_default_budget_bytes config),
           m_ledger = Map.empty, m_events = [], m_heap = h\<rparr>))"

section \<open>Reverse indices\<close>

text \<open>\<open>entry(k).or_default().insert(r)\<close>, and \<open>if let Some(set) = get_mut(&k) { set.remove(&r) }\<close>.\<close>

definition index_insert :: "('k \<rightharpoonup> resource_id set) \<Rightarrow> 'k \<Rightarrow> resource_id \<Rightarrow> ('k \<rightharpoonup> resource_id set)"
  where
  "index_insert ix k r = ix(k \<mapsto> insert r (case ix k of None \<Rightarrow> {} | Some S \<Rightarrow> S))"

definition index_remove :: "('k \<rightharpoonup> resource_id set) \<Rightarrow> 'k \<Rightarrow> resource_id \<Rightarrow> ('k \<rightharpoonup> resource_id set)"
  where
  "index_remove ix k r = (case ix k of None \<Rightarrow> ix | Some S \<Rightarrow> ix(k \<mapsto> S - {r}))"

definition index_set :: "('k \<rightharpoonup> resource_id set) \<Rightarrow> 'k \<Rightarrow> resource_id set" where
  "index_set ix k = (case ix k of None \<Rightarrow> {} | Some S \<Rightarrow> S)"

section \<open>Allocation\<close>

fun reserve_for :: "budget_registry \<Rightarrow> owner_id \<Rightarrow> u64 \<Rightarrow> resource_error + budget_registry" where
  "reserve_for b (Component c) n = registry_try_reserve b c n"
| "reserve_for b _ n = Inr b"

fun release_for :: "budget_registry \<Rightarrow> owner_id \<Rightarrow> u64 \<Rightarrow> budget_registry" where
  "release_for b (Component c) n = registry_release_bytes b c n"
| "release_for b _ n = b"

fun component_index_insert ::
    "(component_id \<rightharpoonup> resource_id set) \<Rightarrow> owner_id \<Rightarrow> resource_id \<Rightarrow> (component_id \<rightharpoonup> resource_id set)"
  where
  "component_index_insert ix (Component c) r = index_insert ix c r"
| "component_index_insert ix _ r = ix"

fun component_index_remove ::
    "(component_id \<rightharpoonup> resource_id set) \<Rightarrow> owner_id \<Rightarrow> resource_id \<Rightarrow> (component_id \<rightharpoonup> resource_id set)"
  where
  "component_index_remove ix (Component c) r = index_remove ix c r"
| "component_index_remove ix _ r = ix"

definition new_entry ::
    "u64 \<Rightarrow> owner_id \<Rightarrow> flow_id \<Rightarrow> ptr \<Rightarrow> usize \<Rightarrow> pool_tier \<Rightarrow> bool \<Rightarrow> u32 \<Rightarrow> resource_entry" where
  "new_entry now owner flow p alloc_size tier fallback capacity =
     \<lparr>e_generation = 0, e_state = Owned, e_owner = owner, e_borrow_count = 0, e_buffer_ptr = p,
      e_alloc_size = alloc_size, e_payload_capacity = capacity, e_payload_len = 0,
      e_pool_tier = tier, e_flags = \<lparr>is_fallback = fallback, read_only = False\<rparr>,
      e_content_type = ct_empty, e_flow_id = flow, e_created_at_ns = now\<rparr>"

definition mgr_allocate ::
    "sys_alloc \<Rightarrow> u64 \<Rightarrow> manager \<Rightarrow> owner_id \<Rightarrow> u32 \<Rightarrow> flow_id \<Rightarrow>
     ((resource_error + buffer_handle) \<times> manager) option" where
  "mgr_allocate sys now m owner min_capacity flow =
     (if max_buffer_size < min_capacity then
        Some (Inl (capacity_exceeded (BufferHandle (ResourceId 0 0)) max_buffer_size
                     (u32_as_u64 min_capacity)), m)
      else
        case reserve_for (m_budgets m) owner
               (u32_as_u64 (max (tier_capacity (tier_for_capacity min_capacity)) min_capacity)) of
          Inl err \<Rightarrow> Some (Inl err, m)
        | Inr budgets \<Rightarrow>
            (case pool_allocate sys (m_pools m) (m_heap m) min_capacity of
               None \<Rightarrow> None
             | Some (None, pools, h) \<Rightarrow>
                 Some (Inl (allocation_failed min_capacity ''system allocator OOM''),
                       m\<lparr>m_budgets := budgets, m_pools := pools, m_heap := h\<rparr>)
             | Some (Some (p, alloc_size, tier, fallback), pools, h) \<Rightarrow>
                 let actual_capacity = max (tier_capacity tier) min_capacity;
                     entry = new_entry now owner flow p alloc_size tier fallback actual_capacity;
                     m1 = m\<lparr>m_budgets := budgets, m_pools := pools, m_heap := h\<rparr>
                 in case table_insert (m_table m1) entry of
                      None \<Rightarrow> None
                    | Some (Inl err, table) \<Rightarrow>
                        map_option
                          (\<lambda>(pools', h').
                             (Inl err, m1\<lparr>m_table := table, m_pools := pools', m_heap := h',
                                m_budgets := release_for (m_budgets m1) owner
                                               (u32_as_u64 actual_capacity)\<rparr>))
                          (pool_release (m_pools m1) (m_heap m1) p alloc_size tier fallback)
                    | Some (Inr r, table) \<Rightarrow>
                        Some (Inr (BufferHandle r),
                              m1\<lparr>m_table := table,
                                m_component_resources :=
                                  component_index_insert (m_component_resources m1) owner r,
                                m_flow_resources := index_insert (m_flow_resources m1) flow r\<rparr>)))"

section \<open>Release\<close>

text \<open>Zero the payload, then give the buffer back to its pool or to the system.\<close>

definition zero_and_release :: "manager \<Rightarrow> resource_entry \<Rightarrow> manager option" where
  "zero_and_release m e =
     Option.bind (buf_zero_payload (m_heap m) (e_buffer_ptr e) (e_payload_capacity e)) (\<lambda>h.
     map_option (\<lambda>(pools, h'). m\<lparr>m_pools := pools, m_heap := h'\<rparr>)
       (pool_release (m_pools m) h (e_buffer_ptr e) (e_alloc_size e) (e_pool_tier e)
          (is_fallback (e_flags e))))"

definition mgr_release ::
    "manager \<Rightarrow> buffer_handle \<Rightarrow> owner_id \<Rightarrow> ((resource_error + unit) \<times> manager) option" where
  "mgr_release m h caller =
     (case table_get (m_table m) h of
        Inl err \<Rightarrow> Some (Inl err, m)
      | Inr e0 \<Rightarrow>
          (case own_release_to_pool h e0 caller of
             Inl err \<Rightarrow> Some (Inl err, m)
           | Inr e \<Rightarrow>
               let m1 = m\<lparr>m_table := table_set (m_table m) h e\<rparr>; r = bh_resource_id h
               in case table_remove (m_table m1) h of
                    Inl err \<Rightarrow> Some (Inl err, m1)
                  | Inr (_, table) \<Rightarrow>
                      let m2 = m1\<lparr>m_table := table,
                            m_component_resources :=
                              component_index_remove (m_component_resources m1) caller r,
                            m_budgets := release_for (m_budgets m1) caller
                                           (u32_as_u64 (e_payload_capacity e)),
                            m_flow_resources := index_remove (m_flow_resources m1) (e_flow_id e) r\<rparr>
                      in map_option (\<lambda>m3. (Inr (), m3)) (zero_and_release m2 e)))"

section \<open>Transfer and borrows\<close>

definition mgr_transfer_ownership ::
    "manager \<Rightarrow> buffer_handle \<Rightarrow> owner_id \<Rightarrow> owner_id \<Rightarrow> (resource_error + unit) \<times> manager" where
  "mgr_transfer_ownership m h from_o to_o =
     (case table_get (m_table m) h of
        Inl err \<Rightarrow> (Inl err, m)
      | Inr e \<Rightarrow>
          (let capacity = u32_as_u64 (e_payload_capacity e)
           in case reserve_for (m_budgets m) to_o capacity of
             Inl err \<Rightarrow> (Inl err, m)
           | Inr budgets \<Rightarrow>
               (let m1 = m\<lparr>m_budgets := budgets\<rparr>; r = bh_resource_id h
                in case own_begin_transfer h e from_o of
                     Inl err \<Rightarrow> (Inl err, m1)
                   | Inr e1 \<Rightarrow>
                       (case own_complete_transfer h e1 to_o of
                          Inl err \<Rightarrow> (Inl err, m1\<lparr>m_table := table_set (m_table m1) h e1\<rparr>)
                        | Inr e2 \<Rightarrow>
                            (Inr (),
                             m1\<lparr>m_table := table_set (m_table m1) h e2,
                               m_component_resources :=
                                 component_index_insert
                                   (component_index_remove (m_component_resources m1) from_o r) to_o r,
                               m_budgets := release_for (m_budgets m1) from_o capacity\<rparr>)))))"

text \<open>The shape of the methods that change the entry of a live handle and nothing else.\<close>

definition with_entry ::
    "manager \<Rightarrow> buffer_handle \<Rightarrow> (resource_entry \<Rightarrow> resource_error + resource_entry) \<Rightarrow>
     (resource_error + unit) \<times> manager" where
  "with_entry m h f =
     (case table_get (m_table m) h of
        Inl err \<Rightarrow> (Inl err, m)
      | Inr e \<Rightarrow>
          (case f e of
             Inl err \<Rightarrow> (Inl err, m)
           | Inr e' \<Rightarrow> (Inr (), m\<lparr>m_table := table_set (m_table m) h e'\<rparr>)))"

definition mgr_borrow_start ::
    "manager \<Rightarrow> buffer_handle \<Rightarrow> component_id \<Rightarrow> (resource_error + unit) \<times> manager" where
  "mgr_borrow_start m h borrower = with_entry m h (\<lambda>e. own_borrow_start h e borrower)"

definition mgr_borrow_end ::
    "manager \<Rightarrow> buffer_handle \<Rightarrow> component_id \<Rightarrow> (resource_error + unit) \<times> manager" where
  "mgr_borrow_end m h borrower = with_entry m h (\<lambda>e. own_borrow_end h e borrower)"

section \<open>Payload access\<close>

definition component_or_zero :: "owner_id \<Rightarrow> component_id" where
  "component_or_zero owner = (case owner_component_id owner of Some c \<Rightarrow> c | None \<Rightarrow> ComponentId 0)"

definition mgr_record_copy ::
    "manager \<Rightarrow> flow_id \<Rightarrow> resource_id \<Rightarrow> component_id \<Rightarrow> component_id \<Rightarrow> u64 \<Rightarrow> copy_reason \<Rightarrow> manager"
  where
  "mgr_record_copy m f r from_c to_c n reason =
     (case ledger_record_copy (m_ledger m) (m_events m) f r from_c to_c n reason of
        (l, es) \<Rightarrow> m\<lparr>m_ledger := l, m_events := es\<rparr>)"

definition mgr_read_payload ::
    "manager \<Rightarrow> buffer_handle \<Rightarrow> owner_id \<Rightarrow> u32 \<Rightarrow> u32 \<Rightarrow> flow_id \<Rightarrow>
     ((resource_error + u8 list) \<times> manager) option" where
  "mgr_read_payload m h caller offset len flow =
     (case table_get (m_table m) h of
        Inl err \<Rightarrow> Some (Inl err, m)
      | Inr e \<Rightarrow>
          (if u32_as_u64 (e_payload_len e) < u32_as_u64 offset + u32_as_u64 len then
             Some (Inl (out_of_bounds h (u32_as_u64 offset) (u32_as_u64 (e_payload_len e))), m)
           else
             map_option
               (\<lambda>data. (Inr data,
                  mgr_record_copy m flow (bh_resource_id h) (component_or_zero (e_owner e))
                    (ComponentId 0) (u32_as_u64 len) HostToComponent))
               (buf_read_payload (m_heap m) (e_buffer_ptr e) offset len)))"

definition mgr_write_payload ::
    "manager \<Rightarrow> buffer_handle \<Rightarrow> owner_id \<Rightarrow> u32 \<Rightarrow> u8 list \<Rightarrow> flow_id \<Rightarrow>
     ((resource_error + unit) \<times> manager) option" where
  "mgr_write_payload m h caller offset data flow =
     (case table_get (m_table m) h of
        Inl err \<Rightarrow> Some (Inl err, m)
      | Inr e \<Rightarrow>
          (if e_owner e \<noteq> caller then
             Some (Inl (not_owner h (owner_display (e_owner e)) (owner_display caller)), m)
           else if e_state e \<noteq> Owned then
             Some (Inl (borrows_outstanding h (e_borrow_count e)), m)
           else
             let end = u32_as_u64 offset + of_nat (length data)
             in if u32_as_u64 (e_payload_capacity e) < end then
                  Some (Inl (capacity_exceeded h (e_payload_capacity e) end), m)
                else
                  let new_end = offset + of_nat (length data);
                      e' = (if e_payload_len e < new_end then e\<lparr>e_payload_len := new_end\<rparr> else e)
                  in map_option
                       (\<lambda>heap. (Inr (),
                          mgr_record_copy
                            (m\<lparr>m_heap := heap, m_table := table_set (m_table m) h e'\<rparr>)
                            flow (bh_resource_id h) (ComponentId 0) (component_or_zero caller)
                            (of_nat (length data)) ComponentToHost))
                       (buf_write_payload (m_heap m) (e_buffer_ptr e) offset data)))"

definition mgr_set_content_type ::
    "manager \<Rightarrow> buffer_handle \<Rightarrow> owner_id \<Rightarrow> u8 list \<Rightarrow> (resource_error + unit) \<times> manager" where
  "mgr_set_content_type m h caller content_type =
     with_entry m h (\<lambda>e.
       if e_owner e \<noteq> caller
       then Inl (not_owner h (owner_display (e_owner e)) (owner_display caller))
       else Inr (e\<lparr>e_content_type := ct_from_str content_type\<rparr>))"

definition mgr_payload_len :: "manager \<Rightarrow> buffer_handle \<Rightarrow> resource_error + u32" where
  "mgr_payload_len m h =
     (case table_get (m_table m) h of Inl err \<Rightarrow> Inl err | Inr e \<Rightarrow> Inr (e_payload_len e))"

definition mgr_content_type :: "manager \<Rightarrow> buffer_handle \<Rightarrow> resource_error + u8 list" where
  "mgr_content_type m h =
     (case table_get (m_table m) h of Inl err \<Rightarrow> Inl err | Inr e \<Rightarrow> Inr (ct_as_str (e_content_type e)))"

section \<open>Diagnostics\<close>

record resource_inspection =
  ri_resource_id :: resource_id
  ri_state :: resource_state
  ri_owner :: owner_id
  ri_borrow_count :: u32
  ri_payload_capacity :: u32
  ri_payload_len :: u32
  ri_pool_tier :: pool_tier
  ri_is_fallback :: bool
  ri_content_type :: "u8 list"
  ri_flow_id :: flow_id

definition mgr_inspect :: "manager \<Rightarrow> buffer_handle \<Rightarrow> resource_error + resource_inspection" where
  "mgr_inspect m h =
     (case table_get (m_table m) h of
        Inl err \<Rightarrow> Inl err
      | Inr e \<Rightarrow> Inr \<lparr>ri_resource_id = bh_resource_id h, ri_state = e_state e, ri_owner = e_owner e,
            ri_borrow_count = e_borrow_count e, ri_payload_capacity = e_payload_capacity e,
            ri_payload_len = e_payload_len e, ri_pool_tier = e_pool_tier e,
            ri_is_fallback = is_fallback (e_flags e),
            ri_content_type = ct_as_str (e_content_type e), ri_flow_id = e_flow_id e\<rparr>)"

definition mgr_resources_held_by :: "set_order \<Rightarrow> manager \<Rightarrow> component_id \<Rightarrow> resource_id list" where
  "mgr_resources_held_by iter m c =
     (case m_component_resources m c of None \<Rightarrow> [] | Some S \<Rightarrow> iter S)"

definition mgr_live_resource_count :: "manager \<Rightarrow> u32" where
  "mgr_live_resource_count m = t_len (m_table m)"

definition mgr_pool_metrics :: "manager \<Rightarrow> pool_tier \<Rightarrow> tier_metrics" where
  "mgr_pool_metrics m tier = pool_tier_metrics (m_pools m) tier"

definition mgr_flow_copy_stats :: "manager \<Rightarrow> flow_id \<Rightarrow> flow_copy_stats" where
  "mgr_flow_copy_stats m f = ledger_flow_stats (m_ledger m) f"

section \<open>Reclaiming\<close>

text \<open>The body of the loop of \<open>force_reclaim\<close>, and the loop.\<close>

definition force_reclaim_one ::
    "manager \<Rightarrow> resource_id \<Rightarrow> (manager \<times> resource_reclaimed list) option" where
  "force_reclaim_one m r =
     (let h = BufferHandle r
      in case table_get (m_table m) h of
           Inl _ \<Rightarrow> Some (m, [])
         | Inr e \<Rightarrow>
             let e' = e\<lparr>e_borrow_count := 0, e_state := Owned, e_owner := Host\<rparr>;
                 m1 = m\<lparr>m_table := table_set (m_table m) h e'\<rparr>
             in case table_remove (m_table m1) h of
                  Inl _ \<Rightarrow> Some (m1, [])
                | Inr (_, table) \<Rightarrow>
                    map_option
                      (\<lambda>m2. (m2, [\<lparr>rr_resource_id = r, rr_previous_state = e_state e,
                               rr_previous_owner = e_owner e,
                               rr_payload_capacity = e_payload_capacity e,
                               rr_returned_to_pool = \<not> is_fallback (e_flags e)\<rparr>]))
                      (zero_and_release
                         (m1\<lparr>m_table := table,
                            m_flow_resources := index_remove (m_flow_resources m1) (e_flow_id e) r\<rparr>)
                         e'))"

fun force_reclaim_loop ::
    "manager \<Rightarrow> resource_id list \<Rightarrow> (manager \<times> resource_reclaimed list) option" where
  "force_reclaim_loop m [] = Some (m, [])"
| "force_reclaim_loop m (r # rs) =
     Option.bind (force_reclaim_one m r) (\<lambda>(m1, out).
     map_option (\<lambda>(m2, out'). (m2, out @ out')) (force_reclaim_loop m1 rs))"

definition mgr_force_reclaim ::
    "set_order \<Rightarrow> manager \<Rightarrow> component_id \<Rightarrow> (resource_reclaimed list \<times> manager) option" where
  "mgr_force_reclaim iter m c =
     (let ids = mgr_resources_held_by iter m c;
          m1 = m\<lparr>m_component_resources := (m_component_resources m)(c := None)\<rparr>
      in map_option
           (\<lambda>(m2, out). (out, m2\<lparr>m_budgets := registry_unregister (m_budgets m2) c\<rparr>))
           (force_reclaim_loop m1 ids))"

definition flow_stats_zero :: flow_resource_stats where
  "flow_stats_zero = \<lparr>frs_returned_to_pool = 0, frs_deallocated = 0, frs_total_bytes_released = 0,
     frs_borrows_cleared = 0\<rparr>"

definition reclaim_flow_one ::
    "manager \<Rightarrow> flow_resource_stats \<Rightarrow> resource_id \<Rightarrow> (manager \<times> flow_resource_stats) option" where
  "reclaim_flow_one m s r =
     (let h = BufferHandle r
      in case table_get (m_table m) h of
           Inl _ \<Rightarrow> Some (m, s)
         | Inr e \<Rightarrow>
             let s1 = (if 0 < e_borrow_count e
                       then s\<lparr>frs_borrows_cleared := frs_borrows_cleared s + e_borrow_count e\<rparr> else s);
                 e' = (if 0 < e_borrow_count e then e\<lparr>e_borrow_count := 0\<rparr> else e);
                 m1 = m\<lparr>m_table := table_set (m_table m) h e',
                   m_component_resources := component_index_remove (m_component_resources m) (e_owner e) r,
                   m_budgets := release_for (m_budgets m) (e_owner e) (u32_as_u64 (e_payload_capacity e))\<rparr>
             in case table_remove (m_table m1) h of
                  Inl _ \<Rightarrow> Some (m1, s1)
                | Inr (_, table) \<Rightarrow>
                    map_option
                      (\<lambda>m2. (m2,
                         let s2 = (if is_fallback (e_flags e)
                                   then s1\<lparr>frs_deallocated := frs_deallocated s1 + 1\<rparr>
                                   else s1\<lparr>frs_returned_to_pool := frs_returned_to_pool s1 + 1\<rparr>)
                         in s2\<lparr>frs_total_bytes_released := frs_total_bytes_released s2
                                 + u32_as_u64 (e_payload_capacity e)\<rparr>))
                      (zero_and_release (m1\<lparr>m_table := table\<rparr>) e'))"

fun reclaim_flow_loop ::
    "manager \<Rightarrow> flow_resource_stats \<Rightarrow> resource_id list \<Rightarrow> (manager \<times> flow_resource_stats) option" where
  "reclaim_flow_loop m s [] = Some (m, s)"
| "reclaim_flow_loop m s (r # rs) =
     Option.bind (reclaim_flow_one m s r) (\<lambda>(m1, s1). reclaim_flow_loop m1 s1 rs)"

definition mgr_reclaim_flow_buffers ::
    "set_order \<Rightarrow> manager \<Rightarrow> flow_id \<Rightarrow> (flow_resource_stats \<times> manager) option" where
  "mgr_reclaim_flow_buffers iter m f =
     (let ids = (case m_flow_resources m f of None \<Rightarrow> [] | Some S \<Rightarrow> iter S);
          m1 = m\<lparr>m_flow_resources := (m_flow_resources m)(f := None)\<rparr>
      in map_option (\<lambda>(m2, s). (s, m2)) (reclaim_flow_loop m1 flow_stats_zero ids))"

definition mgr_release_flow_resources ::
    "set_order \<Rightarrow> manager \<Rightarrow> flow_id \<Rightarrow> ((resource_error + flow_resource_stats) \<times> manager) option" where
  "mgr_release_flow_resources iter m f =
     map_option
       (\<lambda>(s, m1). (Inr s, m1\<lparr>m_ledger := snd (ledger_remove_flow (m_ledger m1) f)\<rparr>))
       (mgr_reclaim_flow_buffers iter m f)"

definition mgr_register_flow :: "manager \<Rightarrow> flow_id \<Rightarrow> manager" where
  "mgr_register_flow m f = m\<lparr>m_ledger := ledger_register_flow (m_ledger m) f\<rparr>"

definition mgr_register_component :: "manager \<Rightarrow> component_id \<Rightarrow> u64 option \<Rightarrow> manager" where
  "mgr_register_component m c max_owned_bytes =
     m\<lparr>m_budgets := registry_register (m_budgets m) c max_owned_bytes\<rparr>"

end
