(* ===== verification/Res_Manager_Inv.thy ===== *)
theory Res_Manager_Inv
  imports Res_Manager
begin

text \<open>
  The invariant of the resource manager and the proof that every method keeps it.

  The live resources are the map \<open>m_abs\<close>. Three groups of facts speak about it: the memory
  behind it (\<open>store_inv\<close>: every entry has its own allocated block of the right size, in the
  pool the entry names or outside the pools, and nothing is lost), the reverse indices
  (\<open>index_inv\<close>) and the budgets (\<open>budget_covers\<close>). The loops that reclaim resources run with the
  index of one component or one flow already dropped; the exempt sets \<open>C\<close> and \<open>F\<close> of
  \<open>mgr_inv_upto\<close> say for which.
\<close>

section \<open>The invariant\<close>

definition m_abs :: "manager \<Rightarrow> resource_id \<rightharpoonup> resource_entry" where
  "m_abs m = table_abs (m_table m)"

text \<open>Bytes never written since the buffer was handed out are zero.\<close>

definition zero_tail :: "heap \<Rightarrow> resource_entry \<Rightarrow> bool" where
  "zero_tail h e \<longleftrightarrow>
     (\<forall>i. unat (e_payload_len e) \<le> i \<longrightarrow> i < length (payload_bytes h (e_buffer_ptr e)) \<longrightarrow>
        payload_bytes h (e_buffer_ptr e) ! i = 0)"

definition entry_place :: "pool_set \<Rightarrow> resource_entry \<Rightarrow> bool" where
  "entry_place s e \<longleftrightarrow>
     (if is_fallback (e_flags e) then \<forall>t. e_buffer_ptr e \<notin> ps_owned s t
      else e_buffer_ptr e \<in> ps_owned s (e_pool_tier e) - ps_free s (e_pool_tier e))"

lemma entry_place_upd [simp]:
  "entry_place s (e\<lparr>e_owner := a\<rparr>) = entry_place s e"
  "entry_place s (e\<lparr>e_state := st\<rparr>) = entry_place s e"
  "entry_place s (e\<lparr>e_payload_len := n\<rparr>) = entry_place s e"
  "entry_place s (e\<lparr>e_generation := n\<rparr>) = entry_place s e"
  by (simp_all add: entry_place_def)

lemma zero_tail_upd [simp]:
  "zero_tail h (e\<lparr>e_owner := a\<rparr>) = zero_tail h e"
  "zero_tail h (e\<lparr>e_state := st\<rparr>) = zero_tail h e"
  "zero_tail h (e\<lparr>e_generation := n\<rparr>) = zero_tail h e"
  by (simp_all add: zero_tail_def)

definition entry_ok :: "pool_set \<Rightarrow> heap \<Rightarrow> resource_entry \<Rightarrow> bool" where
  "entry_ok s h e \<longleftrightarrow>
     entry_wf e \<and> (e_state e = Owned \<or> e_state e = Borrowed) \<and>
     e_payload_len e \<le> e_payload_capacity e \<and>
     e_alloc_size e = 64 + unat (e_payload_capacity e) \<and>
     unat (e_payload_capacity e) \<le> 16777216 \<and>
     block_of_size h (e_buffer_ptr e) (64 + unat (e_payload_capacity e)) \<and>
     zero_tail h e \<and> entry_place s e"

definition store_inv :: "(resource_id \<rightharpoonup> resource_entry) \<Rightarrow> pool_set \<Rightarrow> heap \<Rightarrow> bool" where
  "store_inv ab s h \<longleftrightarrow>
     (\<forall>r e. ab r = Some e \<longrightarrow> entry_ok s h e) \<and>
     (\<forall>r r' e e'. ab r = Some e \<longrightarrow> ab r' = Some e' \<longrightarrow>
        e_buffer_ptr e = e_buffer_ptr e' \<longrightarrow> r = r') \<and>
     (\<forall>t. ps_owned s t - ps_free s t \<subseteq> {e_buffer_ptr e |e r. ab r = Some e}) \<and>
     dom h \<subseteq> (\<Union>t. ps_owned s t) \<union> {e_buffer_ptr e |e r. ab r = Some e}"

definition index_inv ::
    "(resource_id \<rightharpoonup> resource_entry) \<Rightarrow> component_id set \<Rightarrow> flow_id set \<Rightarrow>
     (component_id \<rightharpoonup> resource_id set) \<Rightarrow> (flow_id \<rightharpoonup> resource_id set) \<Rightarrow> bool" where
  "index_inv ab C F ci fi \<longleftrightarrow>
     (\<forall>c r. r \<in> index_set ci c \<longleftrightarrow> c \<notin> C \<and> (\<exists>e. ab r = Some e \<and> e_owner e = Component c)) \<and>
     (\<forall>f r. r \<in> index_set fi f \<longleftrightarrow> f \<notin> F \<and> (\<exists>e. ab r = Some e \<and> e_flow_id e = f))"

definition entry_weight :: "component_id \<Rightarrow> resource_entry option \<Rightarrow> nat" where
  "entry_weight c x =
     (case x of
        None \<Rightarrow> 0
      | Some e \<Rightarrow> if e_owner e = Component c then unat (e_payload_capacity e) else 0)"

definition owned_bytes :: "(resource_id \<rightharpoonup> resource_entry) \<Rightarrow> component_id \<Rightarrow> nat" where
  "owned_bytes ab c = (\<Sum>r \<in> dom ab. entry_weight c (ab r))"

text \<open>The bytes booked on an account cover what its component is known to need.\<close>

definition budget_covers :: "(component_id \<Rightarrow> nat) \<Rightarrow> budget_registry \<Rightarrow> bool" where
  "budget_covers need b \<longleftrightarrow>
     registry_wf b \<and> (\<forall>c u l. account b c = Some (u, l) \<longrightarrow> need c \<le> u)"

definition mgr_inv_upto :: "component_id set \<Rightarrow> flow_id set \<Rightarrow> manager \<Rightarrow> bool" where
  "mgr_inv_upto C F m \<longleftrightarrow>
     table_inv (m_table m) \<and> pool_inv (m_pools m) (m_heap m) \<and>
     ps_owned (m_pools m) Huge = {} \<and>
     store_inv (m_abs m) (m_pools m) (m_heap m) \<and>
     index_inv (m_abs m) C F (m_component_resources m) (m_flow_resources m) \<and>
     budget_covers (owned_bytes (m_abs m)) (m_budgets m)"

abbreviation mgr_inv :: "manager \<Rightarrow> bool" where
  "mgr_inv \<equiv> mgr_inv_upto {} {}"

section \<open>Weights\<close>

lemma finite_dom_table_abs: "finite (dom (table_abs t))"
proof -
  have "dom (table_abs t) \<subseteq>
      (\<lambda>i. ResourceId (of_nat i) (slot_generation (t_entries t ! i))) ` {..<length (t_entries t)}"
  proof
    fix r assume "r \<in> dom (table_abs t)"
    then obtain e where "table_abs t r = Some e" by auto
    then have "unat (rid_index r) < length (t_entries t)"
      "slot_generation (t_entries t ! unat (rid_index r)) = rid_generation r"
      by (auto simp: table_abs_slot)
    then show "r \<in> (\<lambda>i. ResourceId (of_nat i) (slot_generation (t_entries t ! i))) `
        {..<length (t_entries t)}"
      by (intro image_eqI [of _ _ "unat (rid_index r)"]) auto
  qed
  then show ?thesis by (rule finite_subset) simp
qed

lemma finite_dom_m_abs [simp]: "finite (dom (m_abs m))"
  by (simp add: m_abs_def finite_dom_table_abs)

lemma owned_bytes_remove:
  assumes "finite (dom ab)"
  shows "owned_bytes (ab(r := None)) c + entry_weight c (ab r) = owned_bytes ab c"
proof (cases "r \<in> dom ab")
  case True
  have "owned_bytes (ab(r := None)) c = (\<Sum>x \<in> dom ab - {r}. entry_weight c (ab x))"
    unfolding owned_bytes_def by (rule sum.cong) auto
  then show ?thesis
    using sum.remove [OF assms True, of "\<lambda>x. entry_weight c (ab x)"] by (simp add: owned_bytes_def)
next
  case False
  then have "ab(r := None) = ab" by (auto simp: fun_eq_iff domIff)
  with False show ?thesis by (simp add: entry_weight_def domIff)
qed

lemma owned_bytes_update:
  assumes "finite (dom ab)"
  shows "owned_bytes (ab(r \<mapsto> e)) c = owned_bytes (ab(r := None)) c + entry_weight c (Some e)"
  using owned_bytes_remove [of "ab(r \<mapsto> e)" r c] assms by simp

lemma owned_bytes_same:
  assumes "finite (dom ab)" and "ab r = Some e" and "e_owner e' = e_owner e"
    and "e_payload_capacity e' = e_payload_capacity e"
  shows "owned_bytes (ab(r \<mapsto> e')) = owned_bytes ab"
proof
  fix c
  have "entry_weight c (Some e') = entry_weight c (Some e)" using assms by (simp add: entry_weight_def)
  then show "owned_bytes (ab(r \<mapsto> e')) c = owned_bytes ab c"
    using owned_bytes_update [OF assms(1), of r e' c] owned_bytes_remove [OF assms(1), of r c] assms(2)
    by simp
qed

lemma owned_bytes_empty [simp]: "owned_bytes Map.empty c = 0"
  by (simp add: owned_bytes_def)

lemma owned_bytes_no_owner:
  "(\<And>r e. ab r = Some e \<Longrightarrow> e_owner e \<noteq> Component c) \<Longrightarrow> owned_bytes ab c = 0"
  unfolding owned_bytes_def entry_weight_def by (auto intro!: sum.neutral)

lemma entry_weight_simps:
  "entry_weight c None = 0"
  "e_owner e = Component c \<Longrightarrow> entry_weight c (Some e) = unat (e_payload_capacity e)"
  "e_owner e \<noteq> Component c \<Longrightarrow> entry_weight c (Some e) = 0"
  by (simp_all add: entry_weight_def)

section \<open>The memory behind the entries\<close>

lemma store_inv_entry: "store_inv ab s h \<Longrightarrow> ab r = Some e \<Longrightarrow> entry_ok s h e"
  by (auto simp: store_inv_def)

lemma store_inv_ptr:
  "store_inv ab s h \<Longrightarrow> ab r = Some e \<Longrightarrow> ab r' = Some e' \<Longrightarrow>
   e_buffer_ptr e = e_buffer_ptr e' \<Longrightarrow> r = r'"
  unfolding store_inv_def by blast

lemma store_inv_heap: "store_inv ab s h \<Longrightarrow> dom h \<subseteq> (\<Union>t. ps_owned s t) \<union> {e_buffer_ptr e |e r. ab r = Some e}"
  unfolding store_inv_def by (elim conjE)

lemma store_inv_used:
  "store_inv ab s h \<Longrightarrow> ps_owned s t - ps_free s t \<subseteq> {e_buffer_ptr e |e r. ab r = Some e}"
  unfolding store_inv_def by (elim conjE allE)

lemma entry_ok_block: "entry_ok s h e \<Longrightarrow> block_of_size h (e_buffer_ptr e) (64 + unat (e_payload_capacity e))"
  by (simp add: entry_ok_def)

lemma entry_ok_not_free:
  assumes "entry_ok s h e" and "pool_inv s h" shows "e_buffer_ptr e \<notin> ps_free s t"
proof
  assume free: "e_buffer_ptr e \<in> ps_free s t"
  then have own: "e_buffer_ptr e \<in> ps_owned s t" using ps_free_owned [OF assms(2)] by blast
  with assms(1) have "e_buffer_ptr e \<in> ps_owned s (e_pool_tier e) - ps_free s (e_pool_tier e)"
    by (auto simp: entry_ok_def entry_place_def split: if_splits)
  with own free assms(2) show False by (cases "t = e_pool_tier e") (auto simp: pool_inv_def)
qed

text \<open>An entry depends on the pools and the heap only through its own pointer.\<close>

lemma entry_ok_cong:
  assumes "entry_ok s h e" and "h' (e_buffer_ptr e) = h (e_buffer_ptr e)"
    and "\<And>t. e_buffer_ptr e \<in> ps_owned s' t \<longleftrightarrow> e_buffer_ptr e \<in> ps_owned s t"
    and "\<And>t. e_buffer_ptr e \<in> ps_free s' t \<longleftrightarrow> e_buffer_ptr e \<in> ps_free s t"
  shows "entry_ok s' h' e"
  using assms
  by (auto simp: entry_ok_def entry_place_def block_of_size_def zero_tail_def payload_bytes_def)

lemma entry_ptrs_update:
  assumes "ab r = Some e" and "e_buffer_ptr e' = e_buffer_ptr e"
  shows "{e_buffer_ptr x |x q. (ab(r \<mapsto> e')) q = Some x} = {e_buffer_ptr x |x q. ab q = Some x}"
    (is "?L = ?R")
proof (intro subset_antisym subsetI)
  fix p assume "p \<in> ?L"
  then obtain x q where "(ab(r \<mapsto> e')) q = Some x" "p = e_buffer_ptr x" by auto
  with assms show "p \<in> ?R" by (cases "q = r") auto
next
  fix p assume "p \<in> ?R"
  then obtain x q where x: "ab q = Some x" "p = e_buffer_ptr x" by auto
  have "\<exists>y z. (ab(r \<mapsto> e')) z = Some y \<and> p = e_buffer_ptr y"
  proof (cases "q = r")
    case True with assms x show ?thesis by (intro exI [of _ e'] exI [of _ r]) simp
  next
    case False with x show ?thesis by (intro exI [of _ x] exI [of _ q]) simp
  qed
  then show "p \<in> ?L" by blast
qed

lemma entry_ptrs_insert:
  assumes "ab r = None"
  shows "{e_buffer_ptr x |x q. (ab(r \<mapsto> e)) q = Some x} =
    insert (e_buffer_ptr e) {e_buffer_ptr x |x q. ab q = Some x}" (is "?L = ?R")
proof (intro subset_antisym subsetI)
  fix p assume "p \<in> ?L"
  then show "p \<in> ?R" by (auto split: if_splits)
next
  fix p assume "p \<in> ?R"
  then consider "p = e_buffer_ptr e" | x q where "ab q = Some x" "p = e_buffer_ptr x" by auto
  then have "\<exists>y z. (ab(r \<mapsto> e)) z = Some y \<and> p = e_buffer_ptr y"
  proof cases
    case 1 then show ?thesis by (intro exI [of _ e] exI [of _ r]) simp
  next
    case (2 x q)
    with assms have "q \<noteq> r" by auto
    with 2 show ?thesis by (intro exI [of _ x] exI [of _ q]) simp
  qed
  then show "p \<in> ?L" by blast
qed

text \<open>A method that rewrites one entry in place, and possibly the bytes of its block.\<close>

lemma store_inv_update:
  assumes inv: "store_inv ab s h" and live: "ab r = Some e" and ok: "entry_ok s h' e'"
    and ptr: "e_buffer_ptr e' = e_buffer_ptr e"
    and frame: "\<And>p. p \<noteq> e_buffer_ptr e \<Longrightarrow> h' p = h p"
  shows "store_inv (ab(r \<mapsto> e')) s h'"
  unfolding store_inv_def
proof (intro conjI allI impI)
  have others: "e_buffer_ptr x \<noteq> e_buffer_ptr e" if "ab q = Some x" "q \<noteq> r" for q x
    using that live store_inv_ptr [OF inv, of q x r e] by auto
  show "entry_ok s h' x" if "(ab(r \<mapsto> e')) q = Some x" for q x
  proof (cases "q = r")
    case True with that ok show ?thesis by simp
  next
    case False
    with that others frame store_inv_entry [OF inv, of q x] show ?thesis
      by (auto intro: entry_ok_cong)
  qed
  show "q = q'" if "(ab(r \<mapsto> e')) q = Some x" "(ab(r \<mapsto> e')) q' = Some x'"
    "e_buffer_ptr x = e_buffer_ptr x'" for q q' x x'
    using that others ptr store_inv_ptr [OF inv, of q x q' x'] by (auto split: if_splits)
  have ptrs: "{e_buffer_ptr x |x q. (ab(r \<mapsto> e')) q = Some x} = {e_buffer_ptr x |x q. ab q = Some x}"
    by (rule entry_ptrs_update) (use live ptr in auto)
  show "ps_owned s t - ps_free s t \<subseteq> {e_buffer_ptr x |x q. (ab(r \<mapsto> e')) q = Some x}" for t
    using inv unfolding ptrs by (simp add: store_inv_def)
  from entry_ok_block [OF store_inv_entry [OF inv live]] have at: "h (e_buffer_ptr e) \<noteq> None" by (auto simp: block_of_size_def)
  have "dom h' \<subseteq> dom h"
  proof
    fix p assume "p \<in> dom h'"
    then show "p \<in> dom h" using at frame [of p] by (cases "p = e_buffer_ptr e") (simp_all add: domIff)
  qed
  then show "dom h' \<subseteq> (\<Union>t. ps_owned s t) \<union> {e_buffer_ptr x |x q. (ab(r \<mapsto> e')) q = Some x}"
    using store_inv_heap [OF inv] unfolding ptrs by (rule subset_trans)
qed

text \<open>A new entry on a block that was free or did not exist.\<close>

lemma store_inv_insert:
  assumes inv: "store_inv ab s h" and new: "ab r = None" and ok: "entry_ok s' h' e"
    and fresh: "\<And>q x. ab q = Some x \<Longrightarrow> e_buffer_ptr x \<noteq> e_buffer_ptr e"
    and frame: "\<And>p. p \<noteq> e_buffer_ptr e \<Longrightarrow> h' p = h p"
    and owned: "\<And>t. ps_owned s' t = ps_owned s t"
    and free: "\<And>t. ps_free s' t \<subseteq> ps_free s t" "\<And>t. ps_free s t - {e_buffer_ptr e} \<subseteq> ps_free s' t"
  shows "store_inv (ab(r \<mapsto> e)) s' h'"
  unfolding store_inv_def
proof (intro conjI allI impI)
  show "entry_ok s' h' x" if "(ab(r \<mapsto> e)) q = Some x" for q x
  proof (cases "q = r")
    case True with that ok show ?thesis by simp
  next
    case False
    with that have q: "ab q = Some x" by simp
    have "e_buffer_ptr x \<in> ps_free s' t \<longleftrightarrow> e_buffer_ptr x \<in> ps_free s t" for t
      using fresh [OF q] free [of t] by blast
    then show ?thesis
      by (intro entry_ok_cong [OF store_inv_entry [OF inv q]]) (simp_all add: frame fresh [OF q] owned)
  qed
  show "q = q'" if "(ab(r \<mapsto> e)) q = Some x" "(ab(r \<mapsto> e)) q' = Some x'"
    "e_buffer_ptr x = e_buffer_ptr x'" for q q' x x'
    using that fresh store_inv_ptr [OF inv, of q x q' x'] by (auto split: if_splits)
  have ptrs: "{e_buffer_ptr x |x q. (ab(r \<mapsto> e)) q = Some x} =
      insert (e_buffer_ptr e) {e_buffer_ptr x |x q. ab q = Some x}"
    by (rule entry_ptrs_insert) (rule new)
  show "ps_owned s' t - ps_free s' t \<subseteq> {e_buffer_ptr x |x q. (ab(r \<mapsto> e)) q = Some x}" for t
    using inv owned [of t] free(2) [of t] unfolding ptrs store_inv_def by blast
  have "dom h' \<subseteq> insert (e_buffer_ptr e) (dom h)"
  proof
    fix p assume "p \<in> dom h'"
    then show "p \<in> insert (e_buffer_ptr e) (dom h)"
      using frame [of p] by (cases "p = e_buffer_ptr e") (simp_all add: domIff)
  qed
  then show "dom h' \<subseteq> (\<Union>t. ps_owned s' t) \<union> {e_buffer_ptr x |x q. (ab(r \<mapsto> e)) q = Some x}"
    using store_inv_heap [OF inv] unfolding ptrs owned by blast
qed

text \<open>A block that is returned together with its entry.\<close>

lemma store_inv_remove:
  assumes inv: "store_inv ab s h" and live: "ab r = Some e"
    and frame: "\<And>p. p \<noteq> e_buffer_ptr e \<Longrightarrow> h' p = h p"
    and owned: "\<And>t. ps_owned s' t = ps_owned s t"
    and free: "\<And>t p. p \<noteq> e_buffer_ptr e \<Longrightarrow> p \<in> ps_free s' t \<longleftrightarrow> p \<in> ps_free s t"
    and returned: "\<And>t. e_buffer_ptr e \<in> ps_owned s t \<Longrightarrow> e_buffer_ptr e \<in> ps_free s' t"
    and gone: "(\<And>t. e_buffer_ptr e \<notin> ps_owned s t) \<Longrightarrow> h' (e_buffer_ptr e) = None"
  shows "store_inv (ab(r := None)) s' h'"
  unfolding store_inv_def
proof (intro conjI allI impI)
  have others: "e_buffer_ptr x \<noteq> e_buffer_ptr e" if "(ab(r := None)) q = Some x" for q x
    using that live store_inv_ptr [OF inv, of q x r e] by (auto split: if_splits)
  show "entry_ok s' h' x" if q: "(ab(r := None)) q = Some x" for q x
  proof -
    from q have "ab q = Some x" by (auto split: if_splits)
    from entry_ok_cong [OF store_inv_entry [OF inv this]] show ?thesis
      using others [OF q] frame owned free by blast
  qed
  show "q = q'" if "(ab(r := None)) q = Some x" "(ab(r := None)) q' = Some x'"
    "e_buffer_ptr x = e_buffer_ptr x'" for q q' x x'
    using that store_inv_ptr [OF inv, of q x q' x'] by (auto split: if_splits)
  have ptrs: "{e_buffer_ptr x |x q. (ab(r := None)) q = Some x} =
      {e_buffer_ptr x |x q. ab q = Some x} - {e_buffer_ptr e}" (is "?L = ?R")
  proof (intro subset_antisym subsetI)
    fix p assume "p \<in> ?L"
    then obtain x q where "(ab(r := None)) q = Some x" "p = e_buffer_ptr x" by auto
    with others [of q x] show "p \<in> ?R" by (auto split: if_splits)
  next
    fix p assume "p \<in> ?R"
    then obtain x q where "ab q = Some x" "p = e_buffer_ptr x" "p \<noteq> e_buffer_ptr e" by auto
    moreover from this live have "q \<noteq> r" by auto
    ultimately show "p \<in> ?L" by (auto intro!: exI [of _ x] exI [of _ q])
  qed
  show "ps_owned s' t - ps_free s' t \<subseteq> {e_buffer_ptr x |x q. (ab(r := None)) q = Some x}" for t
  proof
    fix p assume p: "p \<in> ps_owned s' t - ps_free s' t"
    then have other: "p \<noteq> e_buffer_ptr e" using owned returned [of t] by auto
    with p owned free have "p \<in> ps_owned s t - ps_free s t" by auto
    then have "p \<in> {e_buffer_ptr x |x q. ab q = Some x}" using inv unfolding store_inv_def by blast
    with other show "p \<in> {e_buffer_ptr x |x q. (ab(r := None)) q = Some x}" unfolding ptrs by simp
  qed
  show "dom h' \<subseteq> (\<Union>t. ps_owned s' t) \<union> {e_buffer_ptr x |x q. (ab(r := None)) q = Some x}"
  proof
    fix p assume p: "p \<in> dom h'"
    show "p \<in> (\<Union>t. ps_owned s' t) \<union> {e_buffer_ptr x |x q. (ab(r := None)) q = Some x}"
    proof (cases "p = e_buffer_ptr e")
      case True
      with p have "h' (e_buffer_ptr e) \<noteq> None" by auto
      with gone True have "\<exists>t. p \<in> ps_owned s t" by blast
      with owned show ?thesis by auto
    next
      case False
      with p frame have "p \<in> dom h" by auto
      then have "p \<in> (\<Union>t. ps_owned s t) \<union> {e_buffer_ptr x |x q. ab q = Some x}"
        using inv by (auto simp: store_inv_def)
      with False owned show ?thesis unfolding ptrs by auto
    qed
  qed
qed

section \<open>Giving a block back\<close>

definition block_returned :: "pool_set \<Rightarrow> heap \<Rightarrow> ptr \<Rightarrow> pool_set \<Rightarrow> heap \<Rightarrow> bool" where
  "block_returned s h p s' h' \<longleftrightarrow>
     pool_inv s' h' \<and> (\<forall>q. q \<noteq> p \<longrightarrow> h' q = h q) \<and> (\<forall>t. ps_owned s' t = ps_owned s t) \<and>
     (\<forall>t q. q \<noteq> p \<longrightarrow> (q \<in> ps_free s' t \<longleftrightarrow> q \<in> ps_free s t)) \<and>
     (\<forall>t. p \<in> ps_owned s t \<longrightarrow> p \<in> ps_free s' t) \<and>
     ((\<forall>t. p \<notin> ps_owned s t) \<longrightarrow> h' p = None)"

definition same_block :: "resource_entry \<Rightarrow> resource_entry \<Rightarrow> bool" where
  "same_block e e' \<longleftrightarrow>
     e_buffer_ptr e' = e_buffer_ptr e \<and> e_alloc_size e' = e_alloc_size e \<and>
     e_payload_capacity e' = e_payload_capacity e \<and> e_pool_tier e' = e_pool_tier e \<and>
     e_flags e' = e_flags e"

lemma store_inv_returned:
  assumes "store_inv ab s h" and "ab r = Some e" and "block_returned s h (e_buffer_ptr e) s' h'"
  shows "store_inv (ab(r := None)) s' h'"
  using assms(3) by (intro store_inv_remove [OF assms(1,2)]) (auto simp: block_returned_def)

lemma ps_owned_unique:
  assumes "pool_inv s h" and "p \<in> ps_owned s t" and "p \<in> ps_owned s u" shows "t = u"
proof (rule ccontr)
  assume "t \<noteq> u"
  then have "ps_owned s t \<inter> ps_owned s u = {}" using assms(1) by (simp add: pool_inv_def)
  with assms(2,3) show False by blast
qed

lemma zero_and_release_ok:
  assumes inv: "pool_inv (m_pools m) (m_heap m)" and ok: "entry_ok (m_pools m) (m_heap m) e"
    and same: "same_block e e'"
  obtains s' h' where "zero_and_release m e' = Some (m\<lparr>m_pools := s', m_heap := h'\<rparr>)"
    "block_returned (m_pools m) (m_heap m) (e_buffer_ptr e) s' h'"
proof -
  let ?s = "m_pools m" and ?h = "m_heap m" and ?p = "e_buffer_ptr e"
  have block: "block_of_size ?h ?p (64 + unat (e_payload_capacity e))"
    and asize: "e_alloc_size e = 64 + unat (e_payload_capacity e)" and place: "entry_place ?s e"
    using entry_ok_block [OF ok] ok by (simp_all add: entry_ok_def)
  from buf_zero_payload_ok [OF block] obtain bytes
    where zero: "buf_zero_payload ?h ?p (e_payload_capacity e) = Some (?h(?p \<mapsto> bytes))"
      and len: "length bytes = 64 + unat (e_payload_capacity e)"
      and clean: "payload_zero (?h(?p \<mapsto> bytes)) ?p" by (elim exE conjE)
  let ?h1 = "?h(?p \<mapsto> bytes)"
  note same' = same [unfolded same_block_def]
  show thesis
  proof (cases "is_fallback (e_flags e)")
    case True
    then have out: "?p \<notin> ps_owned ?s t" for t using place by (simp add: entry_place_def)
    note inv1 = pool_inv_heap_foreign [OF inv out, of "Some bytes"]
    have "block_of_size ?h1 ?p (e_alloc_size e)" using len asize by simp
    note rel = pool_release_fallback [OF inv1 out this]
    show thesis
    proof (rule that [where s' = ?s and h' = "?h1(?p := None)"])
      show "zero_and_release m e' = Some (m\<lparr>m_pools := ?s, m_heap := ?h1(?p := None)\<rparr>)"
        using same' zero rel(1) True by (simp add: zero_and_release_def)
      show "block_returned ?s ?h ?p ?s (?h1(?p := None))"
        using rel(2) out by (simp add: block_returned_def)
    qed
  next
    case False
    let ?t = "e_pool_tier e"
    have own: "?p \<in> ps_owned ?s ?t" using place False by (simp add: entry_place_def)
    have held: "?p \<notin> ps_free ?s t" for t by (rule entry_ok_not_free [OF ok inv])
    have inv1: "pool_inv ?s ?h1" using pool_inv_heap [OF inv held, of bytes] block len by simp
    obtain s'
      where rel: "pool_release ?s ?h1 ?p (e_alloc_size e) ?t False = Some (s', ?h1)"
        and inv': "pool_inv s' ?h1" and own': "\<forall>u. ps_owned s' u = ps_owned ?s u"
        and free': "\<forall>u. ps_free s' u = (if u = ?t then insert ?p (ps_free ?s ?t) else ps_free ?s u)"
      by (rule pool_release_pooled [OF inv1 own held clean, of "e_alloc_size e"])
    have only: "u = ?t" if "?p \<in> ps_owned ?s u" for u
      by (rule ps_owned_unique [OF inv that own])
    show thesis
    proof (rule that [where s' = s' and h' = ?h1])
      show "zero_and_release m e' = Some (m\<lparr>m_pools := s', m_heap := ?h1\<rparr>)"
        using same' zero rel False by (simp add: zero_and_release_def)
      show "block_returned ?s ?h ?p s' ?h1"
        unfolding block_returned_def
      proof (intro conjI allI impI)
        show "pool_inv s' ?h1" by (rule inv')
        show "?p \<in> ps_free s' t" if "?p \<in> ps_owned ?s t" for t
          using free' only [OF that] by simp
        show "?h1 ?p = None" if "\<forall>t. ?p \<notin> ps_owned ?s t" using that own by simp
        show "ps_owned s' t = ps_owned ?s t" for t using own' by simp
        show "q \<in> ps_free s' t \<longleftrightarrow> q \<in> ps_free ?s t" if "q \<noteq> ?p" for t q
          using free' that by simp
        show "?h1 q = ?h q" if "q \<noteq> ?p" for q using that by simp
      qed
    qed
  qed
qed

section \<open>Reverse indices\<close>

lemma index_set_insert:
  "index_set (index_insert ix k r) k' = (if k' = k then insert r (index_set ix k') else index_set ix k')"
  by (auto simp: index_set_def index_insert_def split: option.splits)

lemma index_set_remove:
  "index_set (index_remove ix k r) k' = (if k' = k then index_set ix k' - {r} else index_set ix k')"
  by (auto simp: index_set_def index_remove_def split: option.splits)

lemma component_index_insert_set:
  "index_set (component_index_insert ix owner r) c =
     (if owner = Component c then insert r (index_set ix c) else index_set ix c)"
  by (cases owner) (auto simp: index_set_insert)

lemma component_index_remove_set:
  "index_set (component_index_remove ix owner r) c =
     (if owner = Component c then index_set ix c - {r} else index_set ix c)"
  by (cases owner) (auto simp: index_set_remove)

lemmas index_sets =
  index_set_insert index_set_remove component_index_insert_set component_index_remove_set

lemma index_inv_insert:
  assumes "index_inv ab {} {} ci fi" and "ab r = None"
  shows "index_inv (ab(r \<mapsto> e)) {} {} (component_index_insert ci (e_owner e) r)
           (index_insert fi (e_flow_id e) r)"
  using assms by (auto simp: index_inv_def index_sets)

lemma index_inv_remove:
  assumes "index_inv ab C F ci fi" and "ab r = Some e"
  shows "index_inv (ab(r := None)) C F (component_index_remove ci (e_owner e) r)
           (index_remove fi (e_flow_id e) r)"
  using assms by (auto simp: index_inv_def index_sets)

lemma index_inv_remove_component:
  assumes "index_inv ab C F ci fi" and "ab r = Some e" and "e_owner e = Component c" and "c \<in> C"
  shows "index_inv (ab(r := None)) C F ci (index_remove fi (e_flow_id e) r)"
  using assms by (auto simp: index_inv_def index_sets)

lemma index_inv_remove_flow:
  assumes "index_inv ab C F ci fi" and "ab r = Some e" and "e_flow_id e \<in> F"
  shows "index_inv (ab(r := None)) C F (component_index_remove ci (e_owner e) r) fi"
  using assms by (auto simp: index_inv_def index_sets)

lemma index_inv_same:
  assumes "index_inv ab C F ci fi" and "ab r = Some e" and "e_owner e' = e_owner e"
    and "e_flow_id e' = e_flow_id e"
  shows "index_inv (ab(r \<mapsto> e')) C F ci fi"
  using assms by (auto simp: index_inv_def)

lemma index_inv_move:
  assumes "index_inv ab {} F ci fi" and "ab r = Some e" and "e_flow_id e' = e_flow_id e"
  shows "index_inv (ab(r \<mapsto> e')) {} F
           (component_index_insert (component_index_remove ci (e_owner e) r) (e_owner e') r) fi"
  using assms by (auto simp: index_inv_def index_sets)

section \<open>Budgets\<close>

lemma budget_covers_mono:
  "budget_covers need b \<Longrightarrow> (\<And>c. need' c \<le> need c) \<Longrightarrow> budget_covers need' b"
  unfolding budget_covers_def by (meson order_trans)

lemma reserve_for_covers:
  assumes "budget_covers need b" and "reserve_for b owner n = Inr b'" and "unat n < 4294967296"
  shows "budget_covers (\<lambda>c. need c + (if owner = Component c then unat n else 0)) b'"
proof (cases owner)
  case (Component c)
  with assms(2) have res: "registry_try_reserve b c n = Inr b'" by simp
  have wf: "registry_wf b" using assms(1) by (simp add: budget_covers_def)
  show ?thesis
  proof (cases rule: budget.reserve_cases [OF wf assms(3), of c, case_names refused unlimited granted])
    case refused
    with res show ?thesis by simp
  next
    case unlimited
    with res assms(1) Component show ?thesis by (auto simp: budget_covers_def)
  next
    case (granted r' u l)
    with res assms(1) Component show ?thesis by (auto simp: budget_covers_def)
  qed
qed (use assms in auto)

lemma release_for_covers:
  assumes "budget_covers need b" and "\<And>c. owner = Component c \<Longrightarrow> unat n \<le> need c"
  shows "budget_covers (\<lambda>c. need c - (if owner = Component c then unat n else 0)) (release_for b owner n)"
proof (cases owner)
  case (Component c)
  have wf: "registry_wf b" using assms(1) by (simp add: budget_covers_def)
  show ?thesis
  proof (cases "account b c")
    case None
    with budget.give_back_unlimited [OF None, of n] assms(1) Component show ?thesis
      by (auto simp: budget_covers_def)
  next
    case (Some ul)
    then obtain u l where ul: "account b c = Some (u, l)" by (cases ul) auto
    have "need c \<le> u" using assms(1) ul by (auto simp: budget_covers_def)
    with assms(2) [OF Component] have "unat n \<le> u" by simp
    from budget.give_back_ok [OF wf ul this] assms(1) Component \<open>need c \<le> u\<close> show ?thesis
      by (auto simp: budget_covers_def)
  qed
qed (use assms in auto)

end
