(* ===== verification/Res_Manager_Ops.thy ===== *)
theory Res_Manager_Ops
  imports Res_Manager_Inv
begin

text \<open>
  Every method of the manager is defined where the invariant holds, keeps the invariant and
  has the effect that the documentation of \<open>manager.rs\<close> promises on the abstract view of the
  resources: an owner, a number of borrows and the bytes written so far, per handle.
\<close>

section \<open>The abstract view\<close>

record resource_view =
  v_owner :: owner_id
  v_borrows :: nat
  v_data :: "u8 list"
  v_capacity :: nat
  v_flow :: flow_id
  v_content_type :: content_type

definition entry_view :: "heap \<Rightarrow> resource_entry \<Rightarrow> resource_view" where
  "entry_view h e =
     \<lparr>v_owner = e_owner e, v_borrows = unat (e_borrow_count e),
      v_data = take (unat (e_payload_len e)) (payload_bytes h (e_buffer_ptr e)),
      v_capacity = unat (e_payload_capacity e), v_flow = e_flow_id e,
      v_content_type = e_content_type e\<rparr>"

definition m_view :: "manager \<Rightarrow> resource_id \<rightharpoonup> resource_view" where
  "m_view m r = map_option (entry_view (m_heap m)) (m_abs m r)"

lemma m_view_None [simp]: "m_view m r = None \<longleftrightarrow> m_abs m r = None"
  by (simp add: m_view_def)

lemma dom_m_view [simp]: "dom (m_view m) = dom (m_abs m)"
  by (auto simp: m_view_def dom_def)

text \<open>The view of a resource depends on its own block only.\<close>

lemma m_view_frame:
  assumes "\<And>q e. m_abs m q = Some e \<Longrightarrow> q \<noteq> r \<Longrightarrow> m_heap m' (e_buffer_ptr e) = m_heap m (e_buffer_ptr e)"
    and "\<And>q. q \<noteq> r \<Longrightarrow> m_abs m' q = m_abs m q"
  shows "m_view m' = (m_view m)(r := m_view m' r)"
proof
  fix q
  show "m_view m' q = ((m_view m)(r := m_view m' r)) q"
    using assms
    by (cases "m_abs m q") (auto simp: m_view_def entry_view_def payload_bytes_def)
qed

section \<open>Invariant and lookup\<close>

lemma mgr_invD:
  assumes "mgr_inv_upto C F m"
  shows "table_inv (m_table m)" and "pool_inv (m_pools m) (m_heap m)"
    and "ps_owned (m_pools m) Huge = {}" and "store_inv (m_abs m) (m_pools m) (m_heap m)"
    and "index_inv (m_abs m) C F (m_component_resources m) (m_flow_resources m)"
    and "budget_covers (owned_bytes (m_abs m)) (m_budgets m)"
  using assms by (simp_all add: mgr_inv_upto_def)

lemma mgr_get_iff:
  "table_get (m_table m) h = Inr e \<longleftrightarrow> m_abs m (bh_resource_id h) = Some e"
  by (simp add: slab.get_iff m_abs_def)

lemma mgr_get_live: "m_abs m (bh_resource_id h) = Some e \<Longrightarrow> table_get (m_table m) h = Inr e"
  by (simp add: mgr_get_iff)

lemma mgr_get_cases:
  obtains (dead) err where "table_get (m_table m) h = Inl err" "m_abs m (bh_resource_id h) = None"
  | (live) e where "table_get (m_table m) h = Inr e" "m_abs m (bh_resource_id h) = Some e"
proof (cases "table_get (m_table m) h")
  case (Inl err)
  then have "m_abs m (bh_resource_id h) = None"
    using mgr_get_iff [of m h] by (cases "m_abs m (bh_resource_id h)") auto
  with Inl dead show thesis by blast
next
  case (Inr e)
  with mgr_get_iff live show thesis by blast
qed

lemma mgr_entry_ok:
  "mgr_inv_upto C F m \<Longrightarrow> m_abs m r = Some e \<Longrightarrow> entry_ok (m_pools m) (m_heap m) e"
  by (rule store_inv_entry [OF mgr_invD(4)])

lemma mgr_other_ptr:
  assumes "mgr_inv_upto C F m" and "m_abs m r = Some e" and "m_abs m q = Some x" and "q \<noteq> r"
  shows "e_buffer_ptr x \<noteq> e_buffer_ptr e"
  using store_inv_ptr [OF mgr_invD(4) [OF assms(1)] assms(3,2)] assms(4) by blast

section \<open>Rewriting an entry in place\<close>

lemma mgr_inv_update:
  assumes inv: "mgr_inv_upto C F m" and live: "m_abs m (bh_resource_id h) = Some e"
    and gen: "e_generation e' = e_generation e" and ptr: "e_buffer_ptr e' = e_buffer_ptr e"
    and ok: "entry_ok (m_pools m) (m_heap m') e'"
    and frame: "\<And>p. p \<noteq> e_buffer_ptr e \<Longrightarrow> m_heap m' p = m_heap m p"
    and table: "m_table m' = table_set (m_table m) h e'" and pools: "m_pools m' = m_pools m"
    and heap: "pool_inv (m_pools m) (m_heap m')"
    and index: "index_inv ((m_abs m)(bh_resource_id h \<mapsto> e')) C F
                  (m_component_resources m') (m_flow_resources m')"
    and budget: "budget_covers (owned_bytes ((m_abs m)(bh_resource_id h \<mapsto> e'))) (m_budgets m')"
  shows "mgr_inv_upto C F m'" and "m_abs m' = (m_abs m)(bh_resource_id h \<mapsto> e')"
    and "m_view m' = (m_view m)(bh_resource_id h \<mapsto> entry_view (m_heap m') e')"
proof -
  note put = slab.put_ok [OF mgr_invD(1) [OF inv], of h e e']
  have t: "table_inv (m_table m')" and a: "m_abs m' = (m_abs m)(bh_resource_id h \<mapsto> e')"
    using put live gen by (simp_all add: m_abs_def table same_generation_def)
  show "m_abs m' = (m_abs m)(bh_resource_id h \<mapsto> e')" by (rule a)
  show "mgr_inv_upto C F m'"
    using t mgr_invD(3) [OF inv] store_inv_update [OF mgr_invD(4) [OF inv] live ok ptr frame]
      index budget heap by (simp add: mgr_inv_upto_def a pools)
  have "m_view m' = (m_view m)(bh_resource_id h := m_view m' (bh_resource_id h))"
    by (rule m_view_frame) (use mgr_other_ptr [OF inv live] frame a in auto)
  then show "m_view m' = (m_view m)(bh_resource_id h \<mapsto> entry_view (m_heap m') e')"
    by (simp add: m_view_def a)
qed

text \<open>The methods that change an entry and nothing else, as long as its block stays the same.\<close>

lemma with_entry_cases:
  assumes "mgr_inv_upto C F m"
  obtains (dead) err where "with_entry m h f = (Inl err, m)" "m_abs m (bh_resource_id h) = None"
  | (refused) e err where "with_entry m h f = (Inl err, m)" "m_abs m (bh_resource_id h) = Some e"
      "f e = Inl err"
  | (changed) e e' where "with_entry m h f = (Inr (), m\<lparr>m_table := table_set (m_table m) h e'\<rparr>)"
      "m_abs m (bh_resource_id h) = Some e" "f e = Inr e'"
proof (cases rule: mgr_get_cases [of m h, case_names dead live])
  case (dead err)
  then show thesis using that(1) by (simp add: with_entry_def)
next
  case (live e)
  then show thesis using that(2,3) by (cases "f e") (simp_all add: with_entry_def)
qed

lemma mgr_inv_entry_update:
  assumes inv: "mgr_inv_upto C F m" and live: "m_abs m (bh_resource_id h) = Some e"
    and same: "same_block e e'" "e_generation e' = e_generation e" "e_owner e' = e_owner e"
      "e_flow_id e' = e_flow_id e" "e_payload_len e' = e_payload_len e"
    and wf: "entry_wf e'" "e_state e' = Owned \<or> e_state e' = Borrowed"
  defines "m' \<equiv> m\<lparr>m_table := table_set (m_table m) h e'\<rparr>"
  shows "mgr_inv_upto C F m'" and "m_abs m' = (m_abs m)(bh_resource_id h \<mapsto> e')"
    and "m_view m' = (m_view m)(bh_resource_id h \<mapsto> entry_view (m_heap m) e')"
proof -
  note same' = same [unfolded same_block_def]
  have "zero_tail (m_heap m) e' = zero_tail (m_heap m) e"
    "entry_place (m_pools m) e' = entry_place (m_pools m) e"
    using same' by (simp_all add: zero_tail_def entry_place_def)
  then have ok: "entry_ok (m_pools m) (m_heap m') e'"
    using mgr_entry_ok [OF inv live] same' wf by (simp add: m'_def entry_ok_def)
  have owned: "owned_bytes ((m_abs m)(bh_resource_id h \<mapsto> e')) = owned_bytes (m_abs m)"
    using same' live by (intro owned_bytes_same [of _ _ e]) simp_all
  note upd = mgr_inv_update [OF inv live same(2) _ ok]
  show "mgr_inv_upto C F m'"
    using upd(1) same' mgr_invD [OF inv] index_inv_same [OF mgr_invD(5) [OF inv] live same(3,4)]
    by (simp add: m'_def owned)
  show "m_abs m' = (m_abs m)(bh_resource_id h \<mapsto> e')"
    using upd(2) same' mgr_invD [OF inv] index_inv_same [OF mgr_invD(5) [OF inv] live same(3,4)]
    by (simp add: m'_def owned)
  show "m_view m' = (m_view m)(bh_resource_id h \<mapsto> entry_view (m_heap m) e')"
    using upd(3) same' mgr_invD [OF inv] index_inv_same [OF mgr_invD(5) [OF inv] live same(3,4)]
    by (simp add: m'_def owned)
qed

section \<open>Borrowing and the content type\<close>

lemma mgr_borrow_start_ok:
  assumes inv: "mgr_inv m" and live: "m_abs m (bh_resource_id h) = Some e"
    and count: "e_borrow_count e \<noteq> - 1"
  shows "\<exists>m'. mgr_borrow_start m h b = (Inr (), m') \<and> mgr_inv m' \<and>
           m_view m' = (m_view m)(bh_resource_id h \<mapsto>
             (entry_view (m_heap m) e)\<lparr>v_borrows := Suc (unat (e_borrow_count e))\<rparr>)"
proof -
  note ok = mgr_entry_ok [OF inv live]
  let ?e = "e\<lparr>e_borrow_count := e_borrow_count e + 1, e_state := Borrowed\<rparr>"
  have step: "own_borrow_start h e b = Inr ?e" using ok by (auto simp: own_borrow_start_Inr entry_ok_def)
  then have "own_step h e (OpBorrowStart b) = Inr ?e" by simp
  from own_step_wf [OF this] ok count have wf: "entry_wf ?e" by (simp add: entry_ok_def)
  note upd = mgr_inv_entry_update [OF inv live _ _ _ _ _ wf]
  have "mgr_borrow_start m h b = (Inr (), m\<lparr>m_table := table_set (m_table m) h ?e\<rparr>)"
    using step by (simp add: mgr_borrow_start_def with_entry_def mgr_get_live [OF live])
  then show ?thesis
    using upd count by (simp add: same_block_def entry_view_def unat_inc_borrow)
qed

lemma mgr_borrow_end_ok:
  assumes inv: "mgr_inv m" and live: "m_abs m (bh_resource_id h) = Some e"
    and count: "e_state e = Borrowed"
  shows "\<exists>m'. mgr_borrow_end m h b = (Inr (), m') \<and> mgr_inv m' \<and>
           m_view m' = (m_view m)(bh_resource_id h \<mapsto>
             (entry_view (m_heap m) e)\<lparr>v_borrows := unat (e_borrow_count e) - 1\<rparr>)"
proof -
  note ok = mgr_entry_ok [OF inv live]
  have pos: "e_borrow_count e \<noteq> 0" using ok count by (auto simp: entry_ok_def entry_wf_def)
  then obtain e' where step: "own_borrow_end h e b = Inr e'"
    and e': "e' = (if e_borrow_count e = 1 then e\<lparr>e_borrow_count := 0, e_state := Owned\<rparr>
        else e\<lparr>e_borrow_count := e_borrow_count e - 1\<rparr>)"
    using count by (auto simp: own_borrow_end_Inr)
  then have "own_step h e (OpBorrowEnd b) = Inr e'" by simp
  from own_step_wf [OF this] ok have wf: "entry_wf e'" by (simp add: entry_ok_def)
  note upd = mgr_inv_entry_update [OF inv live _ _ _ _ _ wf]
  have "mgr_borrow_end m h b = (Inr (), m\<lparr>m_table := table_set (m_table m) h e'\<rparr>)"
    using step by (simp add: mgr_borrow_end_def with_entry_def mgr_get_live [OF live])
  moreover have "same_block e e'" "e_generation e' = e_generation e" "e_owner e' = e_owner e"
      "e_flow_id e' = e_flow_id e" "e_payload_len e' = e_payload_len e"
      "e_state e' = Owned \<or> e_state e' = Borrowed"
      "entry_view (m_heap m) e' = (entry_view (m_heap m) e)\<lparr>v_borrows := unat (e_borrow_count e) - 1\<rparr>"
    using count unat_dec_borrow [OF pos] by (simp_all add: e' same_block_def entry_view_def)
  ultimately show ?thesis using upd by simp
qed

lemma mgr_borrow_end_refused:
  assumes "mgr_inv m" and "m_abs m (bh_resource_id h) = Some e" and "e_state e \<noteq> Borrowed"
  shows "mgr_borrow_end m h b = (Inl (StaleHandle (bh_resource_id h)), m)"
  using assms mgr_get_live [OF assms(2)] mgr_entry_ok [OF assms(1,2)]
  by (auto simp: mgr_borrow_end_def with_entry_def own_borrow_end_def entry_ok_def)

lemma mgr_set_content_type_ok:
  assumes inv: "mgr_inv m" and live: "m_abs m (bh_resource_id h) = Some e"
  shows "\<exists>m'. mgr_set_content_type m h (e_owner e) ct = (Inr (), m') \<and> mgr_inv m' \<and>
           m_view m' = (m_view m)(bh_resource_id h \<mapsto>
             (entry_view (m_heap m) e)\<lparr>v_content_type := ct_from_str ct\<rparr>)"
proof -
  note ok = mgr_entry_ok [OF inv live]
  let ?e = "e\<lparr>e_content_type := ct_from_str ct\<rparr>"
  have wf: "entry_wf ?e" using ok by (simp add: entry_ok_def entry_wf_def)
  note upd = mgr_inv_entry_update [OF inv live _ _ _ _ _ wf]
  have "mgr_set_content_type m h (e_owner e) ct = (Inr (), m\<lparr>m_table := table_set (m_table m) h ?e\<rparr>)"
    by (simp add: mgr_set_content_type_def with_entry_def mgr_get_live [OF live])
  then show ?thesis
    using upd ok by (simp add: same_block_def entry_view_def entry_ok_def)
qed

section \<open>Removing an entry\<close>

lemma set_then_remove:
  assumes inv: "table_inv t" and live: "table_abs t (bh_resource_id h) = Some e"
    and gen: "e_generation e' = e_generation e"
  obtains t' where "table_remove (table_set t h e') h = Inr (e', t')" "table_inv t'"
    "table_abs t' = (table_abs t)(bh_resource_id h := None)"
proof -
  have put: "table_inv (table_set t h e')"
    "table_abs (table_set t h e') = (table_abs t)(bh_resource_id h \<mapsto> e')"
    using slab.put_ok [OF inv live, of e'] gen by (simp_all add: same_generation_def)
  then obtain t' where rem: "table_remove (table_set t h e') h = Inr (e', t')"
    using slab.rem_iff [of "table_set t h e'" h e'] by auto
  note ok = slab.rem_ok [OF put(1) rem]
  show thesis
  proof (rule that [OF rem])
    show "table_inv t'" using ok by (rule conjunct1)
    show "table_abs t' = (table_abs t)(bh_resource_id h := None)" using ok put(2) by simp
  qed
qed

text \<open>What all the paths that give a resource back have in common.\<close>

lemma mgr_inv_removed:
  assumes inv: "mgr_inv_upto C F m" and live: "m_abs m r = Some e" and same: "same_block e e'"
    and table: "table_inv (m_table m1)" "table_abs (m_table m1) = (m_abs m)(r := None)"
    and keep: "m_pools m1 = m_pools m" "m_heap m1 = m_heap m"
    and index: "index_inv ((m_abs m)(r := None)) C F (m_component_resources m1) (m_flow_resources m1)"
    and budget: "budget_covers (owned_bytes ((m_abs m)(r := None))) (m_budgets m1)"
  obtains s' h' where "zero_and_release m1 e' = Some (m1\<lparr>m_pools := s', m_heap := h'\<rparr>)"
    "mgr_inv_upto C F (m1\<lparr>m_pools := s', m_heap := h'\<rparr>)"
    "m_abs (m1\<lparr>m_pools := s', m_heap := h'\<rparr>) = (m_abs m)(r := None)"
    "m_view (m1\<lparr>m_pools := s', m_heap := h'\<rparr>) = (m_view m)(r := None)"
proof -
  note I = mgr_invD [OF inv]
  obtain s' h' where zr: "zero_and_release m1 e' = Some (m1\<lparr>m_pools := s', m_heap := h'\<rparr>)"
    and ret: "block_returned (m_pools m) (m_heap m) (e_buffer_ptr e) s' h'"
    using zero_and_release_ok [of m1 e e'] I(2) mgr_entry_ok [OF inv live] same keep
    by (metis (no_types))
  let ?m = "m1\<lparr>m_pools := s', m_heap := h'\<rparr>"
  have abs: "m_abs ?m = (m_abs m)(r := None)" using table(2) by (simp add: m_abs_def)
  have "ps_owned s' Huge = {}" using ret I(3) by (simp add: block_returned_def)
  moreover have "pool_inv s' h'" using ret by (simp add: block_returned_def)
  ultimately have inv': "mgr_inv_upto C F ?m"
    using table(1) index budget store_inv_returned [OF I(4) live ret]
    by (simp add: mgr_inv_upto_def abs)
  have "m_view ?m = (m_view m)(r := m_view ?m r)"
    by (rule m_view_frame)
      (use ret mgr_other_ptr [OF inv live] abs in \<open>auto simp: block_returned_def\<close>)
  with abs have "m_view ?m = (m_view m)(r := None)" by (simp add: m_view_def)
  with zr inv' abs that show thesis by blast
qed

lemma owned_bytes_removed:
  assumes "m_abs m r = Some e"
  shows "owned_bytes ((m_abs m)(r := None)) =
           (\<lambda>c. owned_bytes (m_abs m) c -
                (if e_owner e = Component c then unat (e_payload_capacity e) else 0))"
    and "e_owner e = Component c \<Longrightarrow> unat (e_payload_capacity e) \<le> owned_bytes (m_abs m) c"
proof -
  have eq: "owned_bytes ((m_abs m)(r := None)) c + entry_weight c (Some e) = owned_bytes (m_abs m) c"
    for c using owned_bytes_remove [of "m_abs m" r c] assms by simp
  show "owned_bytes ((m_abs m)(r := None)) =
      (\<lambda>c. owned_bytes (m_abs m) c -
           (if e_owner e = Component c then unat (e_payload_capacity e) else 0))"
  proof
    fix c
    show "owned_bytes ((m_abs m)(r := None)) c = owned_bytes (m_abs m) c -
        (if e_owner e = Component c then unat (e_payload_capacity e) else 0)"
      using eq [of c] by (simp add: entry_weight_def split: if_splits)
  qed
  show "unat (e_payload_capacity e) \<le> owned_bytes (m_abs m) c" if "e_owner e = Component c"
    using eq [of c] that by (simp add: entry_weight_def)
qed

lemma release_for_removed:
  assumes "mgr_inv_upto C F m" and live: "m_abs m r = Some e"
  shows "budget_covers (owned_bytes ((m_abs m)(r := None)))
           (release_for (m_budgets m) (e_owner e) (u32_as_u64 (e_payload_capacity e)))"
  using release_for_covers [OF mgr_invD(6) [OF assms(1)], of "e_owner e" "u32_as_u64 (e_payload_capacity e)"]
    owned_bytes_removed(2) [OF live]
  unfolding owned_bytes_removed(1) [OF live] unat_u32_as_u64 by blast

section \<open>Release\<close>

lemma mgr_release_ok:
  assumes inv: "mgr_inv m" and live: "m_abs m (bh_resource_id h) = Some e" and idle: "e_state e = Owned"
  shows "\<exists>m'. mgr_release m h (e_owner e) = Some (Inr (), m') \<and> mgr_inv m' \<and>
           m_view m' = (m_view m)(bh_resource_id h := None)"
proof -
  let ?r = "bh_resource_id h" and ?e = "e\<lparr>e_state := Pooled\<rparr>"
  have "e_borrow_count e = 0"
    using mgr_entry_ok [OF inv live] idle by (auto simp: entry_ok_def entry_wf_def word_pos_iff)
  then have step: "own_release_to_pool h e (e_owner e) = Inr ?e"
    using idle by (simp add: own_release_to_pool_Inr)
  obtain t' where t': "table_remove (table_set (m_table m) h ?e) h = Inr (?e, t')" "table_inv t'"
    "table_abs t' = (m_abs m)(?r := None)"
    by (rule set_then_remove [OF mgr_invD(1) [OF inv], of h e ?e])
      (use live in \<open>simp_all add: m_abs_def\<close>)
  let ?m1 = "m\<lparr>m_table := t',
      m_component_resources := component_index_remove (m_component_resources m) (e_owner e) ?r,
      m_budgets := release_for (m_budgets m) (e_owner e) (u32_as_u64 (e_payload_capacity e)),
      m_flow_resources := index_remove (m_flow_resources m) (e_flow_id e) ?r\<rparr>"
  obtain s' h' where "zero_and_release ?m1 ?e = Some (?m1\<lparr>m_pools := s', m_heap := h'\<rparr>)"
    "mgr_inv (?m1\<lparr>m_pools := s', m_heap := h'\<rparr>)"
    "m_view (?m1\<lparr>m_pools := s', m_heap := h'\<rparr>) = (m_view m)(?r := None)"
    by (rule mgr_inv_removed [OF inv live, of ?e ?m1])
      (use t' index_inv_remove [OF mgr_invD(5) [OF inv] live] release_for_removed [OF inv live]
        in \<open>simp_all add: same_block_def\<close>)
  moreover from this(1) have "mgr_release m h (e_owner e) =
      Some (Inr (), ?m1\<lparr>m_pools := s', m_heap := h'\<rparr>)"
    using t'(1) by (simp add: mgr_release_def mgr_get_live [OF live] step Let_def)
  ultimately show ?thesis by blast
qed

lemma mgr_release_refused:
  assumes inv: "mgr_inv m"
    and no: "\<And>e. m_abs m (bh_resource_id h) = Some e \<Longrightarrow> e_state e \<noteq> Owned \<or> e_owner e \<noteq> caller"
  shows "\<exists>err. mgr_release m h caller = Some (Inl err, m)"
proof (cases rule: mgr_get_cases [of m h, case_names dead live])
  case (dead err)
  then show ?thesis by (simp add: mgr_release_def)
next
  case (live e)
  with no own_release_to_pool_Inr [of h e caller] show ?thesis
    by (cases "own_release_to_pool h e caller") (auto simp: mgr_release_def)
qed

section \<open>Transfer\<close>

lemma mgr_inv_budgets:
  assumes "mgr_inv_upto C F m" and "budget_covers (owned_bytes (m_abs m)) b"
  shows "mgr_inv_upto C F (m\<lparr>m_budgets := b\<rparr>)"
  using assms by (simp add: mgr_inv_upto_def m_abs_def)

lemma m_view_budgets [simp]: "m_view (m\<lparr>m_budgets := b\<rparr>) = m_view m"
  by (simp add: m_view_def m_abs_def fun_eq_iff)

lemma reserve_for_removed:
  assumes inv: "mgr_inv m" and live: "m_abs m r = Some e"
    and res: "reserve_for (m_budgets m) to_o (u32_as_u64 (e_payload_capacity e)) = Inr b"
    and same: "e_owner e' = to_o" "e_payload_capacity e' = e_payload_capacity e"
  shows "budget_covers (owned_bytes (m_abs m)) b"
    and "budget_covers (owned_bytes ((m_abs m)(r \<mapsto> e')))
           (release_for b (e_owner e) (u32_as_u64 (e_payload_capacity e)))"
proof -
  let ?n = "u32_as_u64 (e_payload_capacity e)" and ?k = "unat (e_payload_capacity e)"
  have c1: "budget_covers (\<lambda>c. owned_bytes (m_abs m) c + (if to_o = Component c then ?k else 0)) b"
    using reserve_for_covers [OF mgr_invD(6) [OF inv] res] by (simp cong: if_cong)
  from c1 show "budget_covers (owned_bytes (m_abs m)) b" by (rule budget_covers_mono) simp
  have c2: "budget_covers (\<lambda>c. owned_bytes (m_abs m) c + (if to_o = Component c then ?k else 0) -
      (if e_owner e = Component c then ?k else 0)) (release_for b (e_owner e) ?n)"
    using release_for_covers [OF c1, of "e_owner e" ?n] owned_bytes_removed(2) [OF live]
    by (simp add: trans_le_add1 cong: if_cong)
  show "budget_covers (owned_bytes ((m_abs m)(r \<mapsto> e'))) (release_for b (e_owner e) ?n)"
  proof (rule budget_covers_mono [OF c2])
    fix c
    show "owned_bytes ((m_abs m)(r \<mapsto> e')) c \<le> owned_bytes (m_abs m) c +
        (if to_o = Component c then ?k else 0) - (if e_owner e = Component c then ?k else 0)"
      using owned_bytes_update [of "m_abs m" r e' c] owned_bytes_remove [of "m_abs m" r c] live same
      by (simp add: entry_weight_def split: if_splits)
  qed
qed

lemma mgr_transfer_ok:
  assumes inv: "mgr_inv m" and live: "m_abs m (bh_resource_id h) = Some e"
    and idle: "e_state e = Owned" and to_o: "to_o \<noteq> Transit"
    and res: "reserve_for (m_budgets m) to_o (u32_as_u64 (e_payload_capacity e)) = Inr b"
  shows "\<exists>m'. mgr_transfer_ownership m h (e_owner e) to_o = (Inr (), m') \<and> mgr_inv m' \<and>
           m_view m' = (m_view m)(bh_resource_id h \<mapsto>
             (entry_view (m_heap m) e)\<lparr>v_owner := to_o\<rparr>)"
proof -
  let ?r = "bh_resource_id h"
  let ?e1 = "e\<lparr>e_state := InTransit, e_owner := Transit\<rparr>" and ?e2 = "e\<lparr>e_owner := to_o\<rparr>"
  note ok = mgr_entry_ok [OF inv live]
  have count: "e_borrow_count e = 0"
    using ok idle by (auto simp: entry_ok_def entry_wf_def word_pos_iff)
  have step1: "own_begin_transfer h e (e_owner e) = Inr ?e1"
    using idle count by (simp add: own_begin_transfer_Inr)
  have step2: "own_complete_transfer h ?e1 to_o = Inr ?e2"
    using idle by (simp add: own_complete_transfer_Inr)
  let ?m' = "m\<lparr>m_budgets := release_for b (e_owner e) (u32_as_u64 (e_payload_capacity e)),
      m_table := table_set (m_table m) h ?e2,
      m_component_resources := component_index_insert
        (component_index_remove (m_component_resources m) (e_owner e) ?r) to_o ?r\<rparr>"
  have run: "mgr_transfer_ownership m h (e_owner e) to_o = (Inr (), ?m')"
    by (simp add: mgr_transfer_ownership_def mgr_get_live [OF live] res step1 step2 Let_def)
  have ok': "entry_ok (m_pools m) (m_heap ?m') ?e2"
    using ok to_o idle count
    by (simp add: entry_ok_def entry_wf_def)
  note upd = mgr_inv_update [OF inv live _ _ ok' _ _ _ _ _ _]
  have idx: "index_inv ((m_abs m)(?r \<mapsto> ?e2)) {} {} (m_component_resources ?m') (m_flow_resources ?m')"
    using index_inv_move [OF mgr_invD(5) [OF inv] live, of ?e2] by simp
  have bud: "budget_covers (owned_bytes ((m_abs m)(?r \<mapsto> ?e2))) (m_budgets ?m')"
    using reserve_for_removed(2) [OF inv live res, of ?e2] by simp
  have "mgr_inv ?m'" by (rule upd(1) [OF _ _ _ _ _ _ idx bud]) (use mgr_invD [OF inv] in simp_all)
  moreover have "m_view ?m' = (m_view m)(?r \<mapsto> entry_view (m_heap ?m') ?e2)"
    by (rule upd(3) [OF _ _ _ _ _ _ idx bud]) (use mgr_invD [OF inv] in simp_all)
  ultimately show ?thesis using run by (simp add: entry_view_def)
qed

lemma mgr_transfer_refused:
  assumes inv: "mgr_inv m"
    and no: "\<And>e. m_abs m (bh_resource_id h) = Some e \<Longrightarrow> e_state e \<noteq> Owned \<or> e_owner e \<noteq> from_o \<or>
      (\<exists>err. reserve_for (m_budgets m) to_o (u32_as_u64 (e_payload_capacity e)) = Inl err)"
  shows "\<exists>err m'. mgr_transfer_ownership m h from_o to_o = (Inl err, m') \<and> mgr_inv m' \<and>
           m_view m' = m_view m"
proof (cases rule: mgr_get_cases [of m h, case_names dead live])
  case (dead err)
  then show ?thesis using inv by (simp add: mgr_transfer_ownership_def)
next
  case (live e)
  let ?n = "u32_as_u64 (e_payload_capacity e)"
  show ?thesis
  proof (cases "reserve_for (m_budgets m) to_o ?n")
    case (Inl err)
    with live inv show ?thesis by (simp add: mgr_transfer_ownership_def Let_def)
  next
    case (Inr b)
    with no [OF live(2)] own_begin_transfer_Inr [of h e from_o] obtain err
      where "own_begin_transfer h e from_o = Inl err"
      by (cases "own_begin_transfer h e from_o") auto
    with live(1) Inr have "mgr_transfer_ownership m h from_o to_o = (Inl err, m\<lparr>m_budgets := b\<rparr>)"
      by (simp add: mgr_transfer_ownership_def Let_def)
    moreover have "mgr_inv (m\<lparr>m_budgets := b\<rparr>)"
      using reserve_for_removed(1) [OF inv live(2) Inr, of "e\<lparr>e_owner := to_o\<rparr>"]
      by (intro mgr_inv_budgets [OF inv]) simp
    ultimately show ?thesis by simp
  qed
qed

section \<open>Reading and writing\<close>

lemma mgr_record_copy_keeps [simp]:
  "m_table (mgr_record_copy m f r c d n x) = m_table m"
  "m_pools (mgr_record_copy m f r c d n x) = m_pools m"
  "m_heap (mgr_record_copy m f r c d n x) = m_heap m"
  "m_budgets (mgr_record_copy m f r c d n x) = m_budgets m"
  "m_component_resources (mgr_record_copy m f r c d n x) = m_component_resources m"
  "m_flow_resources (mgr_record_copy m f r c d n x) = m_flow_resources m"
  by (simp_all add: mgr_record_copy_def split: prod.split)

lemma mgr_inv_record_copy [simp]:
  "m_abs (mgr_record_copy m f r c d n x) = m_abs m"
  "m_view (mgr_record_copy m f r c d n x) = m_view m"
  "mgr_inv_upto C F (mgr_record_copy m f r c d n x) \<longleftrightarrow> mgr_inv_upto C F m"
  by (simp_all add: m_abs_def m_view_def fun_eq_iff mgr_inv_upto_def)

lemma mgr_payload_length:
  assumes "mgr_inv_upto C F m" and "m_abs m r = Some e"
  shows "length (payload_bytes (m_heap m) (e_buffer_ptr e)) = unat (e_payload_capacity e)"
    and "unat (e_payload_len e) \<le> unat (e_payload_capacity e)"
    and "length (v_data (entry_view (m_heap m) e)) = unat (e_payload_len e)"
proof -
  note ok = mgr_entry_ok [OF assms]
  show "length (payload_bytes (m_heap m) (e_buffer_ptr e)) = unat (e_payload_capacity e)"
    using entry_ok_block [OF ok] by (auto simp: block_of_size_def payload_bytes_def)
  moreover show "unat (e_payload_len e) \<le> unat (e_payload_capacity e)"
    using ok by (simp add: entry_ok_def word_le_nat_alt)
  ultimately show "length (v_data (entry_view (m_heap m) e)) = unat (e_payload_len e)"
    by (simp add: entry_view_def)
qed

lemma u64_add_u32s:
  "u32_as_u64 c < u32_as_u64 a + u32_as_u64 b \<longleftrightarrow> unat c < unat a + unat b"
proof -
  have "unat (u32_as_u64 a + u32_as_u64 b) = unat a + unat b"
    using unat_u32_less [of a] unat_u32_less [of b] by (subst unat_add_u64) (simp_all del: unat_u32_less)
  then show ?thesis by (simp add: word_less_nat_alt)
qed

lemma mgr_read_ok:
  assumes inv: "mgr_inv m" and live: "m_abs m (bh_resource_id h) = Some e"
  shows "unat off + unat len \<le> length (v_data (entry_view (m_heap m) e)) \<Longrightarrow>
      \<exists>m'. mgr_read_payload m h caller off len f =
             Some (Inr (take (unat len) (drop (unat off) (v_data (entry_view (m_heap m) e)))), m') \<and>
           mgr_inv m' \<and> m_view m' = m_view m"
    and "length (v_data (entry_view (m_heap m) e)) < unat off + unat len \<Longrightarrow>
      \<exists>err. mgr_read_payload m h caller off len f = Some (Inl err, m)"
proof -
  note len = mgr_payload_length [OF inv live]
  show "\<exists>m'. mgr_read_payload m h caller off len f =
             Some (Inr (take (unat len) (drop (unat off) (v_data (entry_view (m_heap m) e)))), m') \<and>
           mgr_inv m' \<and> m_view m' = m_view m"
    if fits: "unat off + unat len \<le> length (v_data (entry_view (m_heap m) e))"
  proof -
    have "64 + unat off + unat len \<le> 64 + unat (e_payload_capacity e)" using fits len by simp
    note rd = buf_read_payload_eq [OF entry_ok_block [OF mgr_entry_ok [OF inv live]] this]
    have "take (unat len) (drop (unat off) (v_data (entry_view (m_heap m) e))) =
        take (unat len) (drop (unat off) (payload_bytes (m_heap m) (e_buffer_ptr e)))"
      using fits len by (simp add: entry_view_def drop_take min_def)
    with rd fits len inv show ?thesis
      by (simp add: mgr_read_payload_def mgr_get_live [OF live] u64_add_u32s)
  qed
  show "\<exists>err. mgr_read_payload m h caller off len f = Some (Inl err, m)"
    if "length (v_data (entry_view (m_heap m) e)) < unat off + unat len"
    using that len by (simp add: mgr_read_payload_def mgr_get_live [OF live] u64_add_u32s)
qed

text \<open>The effect of a write on the bytes of a resource; a gap before the offset reads as zero.\<close>

definition overwrite :: "u8 list \<Rightarrow> nat \<Rightarrow> u8 list \<Rightarrow> u8 list" where
  "overwrite xs off ys =
     take off (xs @ replicate (off - length xs) 0) @ ys @ drop (off + length ys) xs"

lemma length_overwrite: "length (overwrite xs off ys) = max (length xs) (off + length ys)"
  by (simp add: overwrite_def max_def min_def)

lemma overwrite_splice:
  assumes fits: "off + length ys \<le> length bs" and n: "n \<le> length bs"
    and zero: "\<And>i. n \<le> i \<Longrightarrow> i < length bs \<Longrightarrow> bs ! i = 0"
  shows "take (max n (off + length ys)) (splice bs off ys) = overwrite (take n bs) off ys"
proof (rule nth_equalityI)
  show "length (take (max n (off + length ys)) (splice bs off ys)) =
      length (overwrite (take n bs) off ys)"
    using fits n by (simp add: length_overwrite)
  fix i assume "i < length (take (max n (off + length ys)) (splice bs off ys))"
  then have i: "i < max n (off + length ys)" "i < length bs" using fits by auto
  show "take (max n (off + length ys)) (splice bs off ys) ! i = overwrite (take n bs) off ys ! i"
    using i fits n zero [of i]
    by (cases "i < off"; cases "i < off + length ys"; cases "i < n"; cases "off \<le> n")
      (auto simp: nth_splice overwrite_def nth_append min_def)
qed

lemma overwrite_tail:
  assumes fits: "off + length ys \<le> length bs"
    and zero: "\<And>i. n \<le> i \<Longrightarrow> i < length bs \<Longrightarrow> bs ! i = 0"
    and i: "max n (off + length ys) \<le> i" "i < length bs"
  shows "splice bs off ys ! i = 0"
  using assms by (simp add: nth_splice)

text \<open>Rust slices are shorter than \<open>2 ^ 63\<close> bytes, so the bounds check of a write cannot wrap.\<close>

lemma write_end:
  assumes "length data < 9223372036854775808"
  shows "u32_as_u64 cap < u32_as_u64 off + of_nat (length (data :: u8 list)) \<longleftrightarrow>
           unat cap < unat off + length data"
proof -
  have "unat (u32_as_u64 off + of_nat (length data)) = unat off + length data"
    using assms unat_u32_less [of off] by (subst unat_add_u64) (simp_all del: unat_u32_less)
  then show ?thesis by (simp add: word_less_nat_alt)
qed

lemma mgr_write_ok:
  assumes inv: "mgr_inv m" and live: "m_abs m (bh_resource_id h) = Some e"
    and idle: "e_state e = Owned" and len: "length data < 9223372036854775808"
    and fits: "unat off + length data \<le> unat (e_payload_capacity e)"
  shows "\<exists>m'. mgr_write_payload m h (e_owner e) off data f = Some (Inr (), m') \<and> mgr_inv m' \<and>
           m_view m' = (m_view m)(bh_resource_id h \<mapsto> (entry_view (m_heap m) e)
             \<lparr>v_data := overwrite (v_data (entry_view (m_heap m) e)) (unat off) data\<rparr>)"
proof -
  let ?r = "bh_resource_id h" and ?p = "e_buffer_ptr e"
  let ?pb = "payload_bytes (m_heap m) ?p"
  define new_end :: u32 where "new_end = off + of_nat (length data)"
  define e' where "e' = (if e_payload_len e < new_end then e\<lparr>e_payload_len := new_end\<rparr> else e)"
  note ok = mgr_entry_ok [OF inv live] and plen = mgr_payload_length [OF inv live]
  have zero: "?pb ! i = 0" if "unat (e_payload_len e) \<le> i" "i < length ?pb" for i
    using ok that by (simp add: entry_ok_def zero_tail_def)
  have ne: "unat new_end = unat off + length data"
    using fits unat_u32_less [of "e_payload_capacity e"]
    unfolding new_end_def by (subst unat_add_u32) (simp_all del: unat_u32_less)
  have elen: "unat (e_payload_len e') = max (unat (e_payload_len e)) (unat off + length data)"
    using ne by (auto simp: e'_def word_less_nat_alt max_def)
  have e'_eq: "e_generation e' = e_generation e" "e_buffer_ptr e' = ?p" "e_owner e' = e_owner e"
    "e_flow_id e' = e_flow_id e" "e_payload_capacity e' = e_payload_capacity e"
    "e_borrow_count e' = e_borrow_count e" "e_content_type e' = e_content_type e"
    "e_state e' = e_state e" "e_alloc_size e' = e_alloc_size e"
    "entry_place (m_pools m) e' = entry_place (m_pools m) e" "entry_wf e' = entry_wf e"
    by (simp_all add: e'_def entry_wf_def)
  obtain bytes where w: "buf_write_payload (m_heap m) ?p off data = Some ((m_heap m)(?p \<mapsto> bytes))"
    and blen: "length bytes = 64 + unat (e_payload_capacity e)"
    and new: "drop 64 bytes = splice ?pb (unat off) data"
    using buf_write_payload_ok [OF entry_ok_block [OF ok], of off data] fits by auto
  let ?h = "(m_heap m)(?p \<mapsto> bytes)"
  define m' where "m' = mgr_record_copy (m\<lparr>m_heap := ?h, m_table := table_set (m_table m) h e'\<rparr>)
      f ?r (ComponentId 0) (component_or_zero (e_owner e)) (of_nat (length data)) ComponentToHost"
  have run: "mgr_write_payload m h (e_owner e) off data f = Some (Inr (), m')"
    using idle w fits write_end [OF len, of "e_payload_capacity e" off]
    by (simp add: mgr_write_payload_def mgr_get_live [OF live] Let_def m'_def e'_def new_end_def)
  have pb: "payload_bytes ?h ?p = splice ?pb (unat off) data"
    by (simp add: payload_bytes_def new)
  have tail: "zero_tail ?h e'"
    using overwrite_tail [of "unat off" data ?pb "unat (e_payload_len e)"] zero fits plen(1)
    by (auto simp: zero_tail_def e'_eq pb elen)
  have "e_payload_len e' \<le> e_payload_capacity e"
    using elen fits plen(2) by (simp add: word_le_nat_alt)
  then have ok': "entry_ok (m_pools m) (m_heap m') e'"
    using ok tail blen by (simp add: entry_ok_def e'_eq m'_def)
  have pinv: "pool_inv (m_pools m) ?h"
    using pool_inv_heap [OF mgr_invD(2) [OF inv] entry_ok_not_free [OF ok mgr_invD(2) [OF inv]], of bytes]
      entry_ok_block [OF ok] blen by simp
  have idx: "index_inv ((m_abs m)(?r \<mapsto> e')) {} {} (m_component_resources m') (m_flow_resources m')"
    using index_inv_same [OF mgr_invD(5) [OF inv] live e'_eq(3,4)] by (simp add: m'_def)
  have "owned_bytes ((m_abs m)(?r \<mapsto> e')) = owned_bytes (m_abs m)"
    by (rule owned_bytes_same [of _ _ e]) (use live e'_eq in simp_all)
  then have bud: "budget_covers (owned_bytes ((m_abs m)(?r \<mapsto> e'))) (m_budgets m')"
    using mgr_invD(6) [OF inv] by (simp add: m'_def)
  note upd = mgr_inv_update [OF inv live e'_eq(1,2) ok' _ _ _ _ idx bud]
  have "mgr_inv m'" by (rule upd(1)) (simp_all add: m'_def pinv)
  moreover have "m_view m' = (m_view m)(?r \<mapsto> entry_view (m_heap m') e')"
    by (rule upd(3)) (simp_all add: m'_def pinv)
  moreover have "take (unat (e_payload_len e')) (splice ?pb (unat off) data) =
      overwrite (take (unat (e_payload_len e)) ?pb) (unat off) data"
    unfolding elen using fits plen zero by (intro overwrite_splice) simp_all
  then have "entry_view (m_heap m') e' = (entry_view (m_heap m) e)
      \<lparr>v_data := overwrite (v_data (entry_view (m_heap m) e)) (unat off) data\<rparr>"
    by (simp add: entry_view_def e'_eq m'_def pb)
  ultimately show ?thesis using run by auto
qed

lemma mgr_write_refused:
  assumes inv: "mgr_inv m" and len: "length data < 9223372036854775808"
    and no: "\<And>e. m_abs m (bh_resource_id h) = Some e \<Longrightarrow> e_state e \<noteq> Owned \<or> e_owner e \<noteq> caller \<or>
      unat (e_payload_capacity e) < unat off + length data"
  shows "\<exists>err. mgr_write_payload m h caller off data f = Some (Inl err, m)"
proof (cases rule: mgr_get_cases [of m h, case_names dead live])
  case (dead err)
  then show ?thesis by (simp add: mgr_write_payload_def)
next
  case (live e)
  with no [OF live(2)] write_end [OF len, of "e_payload_capacity e" off] show ?thesis
    by (auto simp: mgr_write_payload_def)
qed

section \<open>Allocation\<close>

lemma store_inv_same_pools:
  assumes "store_inv ab s h" and "same_pools s s'" shows "store_inv ab s' h"
proof -
  have "ps_owned s' = ps_owned s" "ps_free s' = ps_free s"
    using assms(2) by (auto simp: same_pools_def fun_eq_iff)
  moreover from this have "entry_ok s' = entry_ok s"
    by (simp add: fun_eq_iff entry_ok_def entry_place_def)
  ultimately show ?thesis using assms(1) by (simp add: store_inv_def)
qed

lemma mgr_inv_pools:
  assumes "mgr_inv_upto C F m" and "same_pools (m_pools m) s" and "pool_inv s (m_heap m)"
    and "budget_covers (owned_bytes (m_abs m)) b"
  shows "mgr_inv_upto C F (m\<lparr>m_budgets := b, m_pools := s\<rparr>)"
    and "m_view (m\<lparr>m_budgets := b, m_pools := s\<rparr>) = m_view m"
proof -
  have abs: "m_abs (m\<lparr>m_budgets := b, m_pools := s\<rparr>) = m_abs m" by (simp add: m_abs_def)
  have "ps_owned s Huge = {}" using assms(1,2) by (simp add: same_pools_def mgr_inv_upto_def)
  then show "mgr_inv_upto C F (m\<lparr>m_budgets := b, m_pools := s\<rparr>)"
    using assms abs store_inv_same_pools [OF mgr_invD(4) [OF assms(1)] assms(2)]
    by (simp add: mgr_inv_upto_def)
  show "m_view (m\<lparr>m_budgets := b, m_pools := s\<rparr>) = m_view m"
    by (simp add: m_view_def abs fun_eq_iff)
qed

lemma tier_capacity_fits:
  assumes "c \<le> max_buffer_size"
  shows "unat (max (tier_capacity (tier_for_capacity c)) c) \<le> 16777216"
    and "tier_for_capacity c \<noteq> Huge \<Longrightarrow> max (tier_capacity (tier_for_capacity c)) c =
           tier_capacity (tier_for_capacity c)"
proof -
  have "unat c \<le> 16777216" using assms by (simp add: max_buffer_size_def word_le_nat_alt)
  then show "unat (max (tier_capacity (tier_for_capacity c)) c) \<le> 16777216"
    using order_trans [OF tier_capacity_le [of "tier_for_capacity c"], of 16777216]
    by (simp add: max_def)
  show "max (tier_capacity (tier_for_capacity c)) c = tier_capacity (tier_for_capacity c)"
    if "tier_for_capacity c \<noteq> Huge"
    using tier_for_capacity_le [OF that] by (rule max_absorb1)
qed

text \<open>The buffer an allocation gets: nobody uses it, and a new entry on it is in order.\<close>

lemma pool_allocate_entry:
  assumes inv: "mgr_inv m" and sys: "allocator_ok sys" and cap: "c \<le> max_buffer_size"
    and owner: "owner \<noteq> Transit"
  obtains (oom) s' where "pool_allocate sys (m_pools m) (m_heap m) c = Some (None, s', m_heap m)"
      "pool_inv s' (m_heap m)" "same_pools (m_pools m) s'"
  | (got) p n fb s' h' where
      "pool_allocate sys (m_pools m) (m_heap m) c = Some (Some (p, n, tier_for_capacity c, fb), s', h')"
      "pool_inv s' h'" "\<And>t. ps_owned s' t = ps_owned (m_pools m) t"
      "\<And>t. ps_free s' t = ps_free (m_pools m) t - {p}"
      "\<And>q. q \<noteq> p \<Longrightarrow> h' q = m_heap m q"
      "\<And>r x. m_abs m r = Some x \<Longrightarrow> e_buffer_ptr x \<noteq> p"
      "\<And>r. entry_ok s' h' (entry_stamp (new_entry now owner flow p n (tier_for_capacity c) fb
          (max (tier_capacity (tier_for_capacity c)) c)) r)"
      "\<exists>s''. pool_release s' h' p n (tier_for_capacity c) fb = Some (s'', m_heap m) \<and>
          pool_inv s'' (m_heap m) \<and> same_pools (m_pools m) s''"
proof -
  let ?s = "m_pools m" and ?h = "m_heap m" and ?t = "tier_for_capacity c"
  let ?c = "max (tier_capacity ?t) c"
  note I = mgr_invD [OF inv]
  note bound = tier_capacity_fits [OF cap]
  show thesis
  proof (cases rule: pool_allocate_cases [OF I(2) sys, of c, case_names oom pooled fallback])
    case (oom s')
    then show thesis by (rule that(1))
  next
    case (pooled p s')
    let ?n = "64 + unat (tier_capacity ?t)"
    have own: "p \<in> ps_owned ?s ?t" using pooled(3) ps_free_owned [OF I(2)] by blast
    with I(3) have "?t \<noteq> Huge" by auto
    with bound(2) have c: "?c = tier_capacity ?t" by simp
    have fresh: "e_buffer_ptr x \<noteq> p" if "m_abs m r = Some x" for r x
      using entry_ok_not_free [OF mgr_entry_ok [OF inv that] I(2), of ?t] pooled(3) by auto
    have zero: "payload_zero ?h p" using I(2) pooled(3) by (simp add: pool_inv_def)
    have ok: "entry_ok s' ?h (entry_stamp (new_entry now owner flow p ?n ?t False ?c) r)" for r
      using owner zero own pooled(4,5) bound(1) pool_inv_block [OF I(2) own]
      unfolding c by (simp add: entry_ok_def entry_stamp_def new_entry_def entry_wf_def zero_tail_def
          entry_place_def payload_zero_def)
    have held: "p \<in> ps_owned s' ?t" "p \<notin> ps_free s' ?t" using own pooled(4,5) by simp_all
    obtain s'' where rel: "pool_release s' ?h p ?n ?t False = Some (s'', ?h)" "pool_inv s'' ?h"
      "\<forall>u. ps_owned s'' u = ps_owned s' u"
      "\<forall>u. ps_free s'' u = (if u = ?t then insert p (ps_free s' ?t) else ps_free s' u)"
      by (rule pool_release_pooled [OF pooled(2) held zero, of ?n])
    have "p \<notin> ps_free ?s u" if "u \<noteq> ?t" for u
      using ps_owned_unique [OF I(2) own, of u] ps_free_owned [OF I(2), of u] that by blast
    then have "same_pools ?s s''"
      using rel(3,4) pooled(3,4,5) by (auto simp: same_pools_def)
    then show thesis
      using that(2) [OF pooled(1,2)] pooled(4,5) fresh ok rel(1,2) by (simp add: entry_stamp_def)
  next
    case (fallback p s' n)
    let ?h' = "?h(p \<mapsto> replicate n 0)"
    have same: "ps_owned s' t = ps_owned ?s t" "ps_free s' t = ps_free ?s t" for t
      using fallback(5) by (simp_all add: same_pools_def)
    have out: "p \<notin> ps_owned ?s t" for t using I(2) fallback(3) by (rule pool_inv_unallocated)
    then have nofree: "p \<notin> ps_free ?s t" for t using ps_free_owned [OF I(2), of t] by blast
    have fresh: "e_buffer_ptr x \<noteq> p" if "m_abs m r = Some x" for r x
      using entry_ok_block [OF mgr_entry_ok [OF inv that]] fallback(3) by (auto simp: block_of_size_def)
    have ok: "entry_ok s' ?h' (entry_stamp (new_entry now owner flow p n ?t True ?c) r)" for r
      using owner bound(1) out same fallback(2)
      by (auto simp: entry_ok_def entry_stamp_def new_entry_def entry_wf_def zero_tail_def
          entry_place_def payload_bytes_def block_of_size_def)
    have rel: "pool_release s' ?h' p n ?t True = Some (s', ?h'(p := None))"
      "pool_inv s' (?h'(p := None))"
      using pool_release_fallback [OF fallback(4), of p n] out same by (simp_all add: block_of_size_def)
    have "?h'(p := None) = ?h" using fallback(3) by (auto simp: fun_eq_iff)
    with rel fallback(5) show thesis
      using that(2) [OF fallback(1,4)] same nofree fresh ok by simp
  qed
qed

lemma mgr_inv_added:
  assumes inv: "mgr_inv m" and new: "m_abs m r = None"
    and ok: "entry_ok (m_pools m') (m_heap m') e" and pool: "pool_inv (m_pools m') (m_heap m')"
    and fresh: "\<And>q x. m_abs m q = Some x \<Longrightarrow> e_buffer_ptr x \<noteq> e_buffer_ptr e"
    and frame: "\<And>p. p \<noteq> e_buffer_ptr e \<Longrightarrow> m_heap m' p = m_heap m p"
    and owned: "\<And>t. ps_owned (m_pools m') t = ps_owned (m_pools m) t"
    and free: "\<And>t. ps_free (m_pools m') t = ps_free (m_pools m) t - {e_buffer_ptr e}"
    and table: "table_inv (m_table m')" "m_abs m' = (m_abs m)(r \<mapsto> e)"
    and index: "m_component_resources m' = component_index_insert (m_component_resources m) (e_owner e) r"
      "m_flow_resources m' = index_insert (m_flow_resources m) (e_flow_id e) r"
    and res: "reserve_for (m_budgets m) (e_owner e) (u32_as_u64 (e_payload_capacity e)) = Inr (m_budgets m')"
  shows "mgr_inv m'" and "m_view m' = (m_view m)(r \<mapsto> entry_view (m_heap m') e)"
proof -
  note I = mgr_invD [OF inv]
  have grow: "owned_bytes ((m_abs m)(r \<mapsto> e)) c = owned_bytes (m_abs m) c +
      (if e_owner e = Component c then unat (e_payload_capacity e) else 0)" for c
    using owned_bytes_update [of "m_abs m" r e c] owned_bytes_remove [of "m_abs m" r c] new
    by (simp add: entry_weight_def)
  have bud: "budget_covers (owned_bytes ((m_abs m)(r \<mapsto> e))) (m_budgets m')"
    by (rule budget_covers_mono [OF reserve_for_covers [OF I(6) res]]) (simp_all add: grow)
  have st: "store_inv ((m_abs m)(r \<mapsto> e)) (m_pools m') (m_heap m')"
    by (rule store_inv_insert [OF I(4) new ok fresh frame owned]) (auto simp: free)
  show "mgr_inv m'"
    using I(3) table(1) pool st bud index_inv_insert [OF I(5) new, of e]
    by (simp add: mgr_inv_upto_def table(2) owned index)
  have "m_view m' = (m_view m)(r := m_view m' r)"
    by (rule m_view_frame) (use fresh frame table(2) in auto)
  then show "m_view m' = (m_view m)(r \<mapsto> entry_view (m_heap m') e)"
    by (simp add: m_view_def table(2))
qed

definition fresh_view :: "owner_id \<Rightarrow> flow_id \<Rightarrow> u32 \<Rightarrow> resource_view" where
  "fresh_view owner flow c =
     \<lparr>v_owner = owner, v_borrows = 0, v_data = [],
      v_capacity = unat (max (tier_capacity (tier_for_capacity c)) c), v_flow = flow,
      v_content_type = ct_empty\<rparr>"

lemma mgr_allocate_cases:
  assumes inv: "mgr_inv m" and sys: "allocator_ok sys" and owner: "owner \<noteq> Transit"
  obtains (failed) err m' where "mgr_allocate sys now m owner c flow = Some (Inl err, m')" "mgr_inv m'"
      "m_view m' = m_view m"
  | (allocated) r m' where "mgr_allocate sys now m owner c flow = Some (Inr (BufferHandle r), m')"
      "mgr_inv m'" "m_view m r = None" "m_view m' = (m_view m)(r \<mapsto> fresh_view owner flow c)"
proof (cases "max_buffer_size < c")
  case True
  then show thesis using inv by (intro that(1)) (simp_all add: mgr_allocate_def)
next
  case small: False
  then have cap: "c \<le> max_buffer_size" by simp
  let ?t = "tier_for_capacity c" let ?c = "max (tier_capacity ?t) c"
  note I = mgr_invD [OF inv]
  show thesis
  proof (cases "reserve_for (m_budgets m) owner (u32_as_u64 ?c)")
    case (Inl err)
    then show thesis using small inv by (intro that(1)) (simp_all add: mgr_allocate_def)
  next
    case (Inr b)
    note res = Inr
    have cov: "budget_covers (owned_bytes (m_abs m)) b"
      by (rule budget_covers_mono [OF reserve_for_covers [OF I(6) res]]) simp_all
    show thesis
    proof (cases rule: pool_allocate_entry [OF inv sys cap owner, where now = now and flow = flow,
          case_names oom got])
      case (oom s')
      have "mgr_allocate sys now m owner c flow =
          Some (Inl (allocation_failed c ''system allocator OOM''), m\<lparr>m_budgets := b, m_pools := s'\<rparr>)"
        using small res oom(1) by (simp add: mgr_allocate_def)
      with mgr_inv_pools [OF inv oom(3,2) cov] show thesis by (intro that(1))
    next
      case (got p n fb s' h')
      let ?e = "new_entry now owner flow p n ?t fb ?c"
      let ?m1 = "m\<lparr>m_budgets := b, m_pools := s', m_heap := h'\<rparr>"
      obtain ires t' where ins: "table_insert (m_table m) ?e = Some (ires, t')"
        using slab.ins_total [OF I(1), of ?e] by blast
      show thesis
      proof (cases ires)
        case (Inl err)
        with ins slab.ins_err [OF I(1)] have t': "t' = m_table m" by blast
        obtain s'' where rel: "pool_release s' h' p n ?t fb = Some (s'', m_heap m)"
          "pool_inv s'' (m_heap m)" "same_pools (m_pools m) s''" using got(8) by blast
        let ?b = "release_for b owner (u32_as_u64 ?c)"
        have cov': "budget_covers (owned_bytes (m_abs m)) ?b"
          using release_for_covers [OF reserve_for_covers [OF I(6) res], of owner "u32_as_u64 ?c"]
          by (rule budget_covers_mono) simp_all
        have "mgr_allocate sys now m owner c flow =
            Some (Inl err, m\<lparr>m_budgets := ?b, m_pools := s''\<rparr>)"
          using small res got(1) ins Inl rel(1) t' by (simp add: mgr_allocate_def Let_def)
        with mgr_inv_pools [OF inv rel(3,2) cov'] show thesis by (intro that(1))
      next
        case (Inr r)
        note iok = slab.ins_ok [OF I(1) ins [unfolded Inr]]
        let ?m' = "?m1\<lparr>m_table := t',
            m_component_resources := component_index_insert (m_component_resources m) owner r,
            m_flow_resources := index_insert (m_flow_resources m) flow r\<rparr>"
        have run: "mgr_allocate sys now m owner c flow = Some (Inr (BufferHandle r), ?m')"
          using small res got(1) ins Inr by (simp add: mgr_allocate_def Let_def)
        have f: "e_buffer_ptr (entry_stamp ?e r) = p" "e_owner (entry_stamp ?e r) = owner"
          "e_flow_id (entry_stamp ?e r) = flow" "e_payload_capacity (entry_stamp ?e r) = ?c"
          by (simp_all add: entry_stamp_def new_entry_def)
        note added = mgr_inv_added [of m r ?m' "entry_stamp ?e r"]
        have "mgr_inv ?m'"
          by (rule added(1)) (use inv iok got(2-7) res in \<open>simp_all add: f m_abs_def\<close>)
        moreover have "m_view ?m' = (m_view m)(r \<mapsto> entry_view (m_heap ?m') (entry_stamp ?e r))"
          by (rule added(2)) (use inv iok got(2-7) res in \<open>simp_all add: f m_abs_def\<close>)
        moreover have "entry_view (m_heap ?m') (entry_stamp ?e r) = fresh_view owner flow c"
          by (simp add: entry_view_def entry_stamp_def new_entry_def fresh_view_def)
        moreover have "m_view m r = None" using iok by (simp add: m_abs_def)
        ultimately show thesis using run by (intro that(2)) simp_all
      qed
    qed
  qed
qed

end
