(* ===== verification/Res_Manager_Reclaim.thy ===== *)
theory Res_Manager_Reclaim
  imports Res_Manager_Ops
begin

text \<open>
  \<open>force_reclaim\<close> and \<open>reclaim_flow_buffers\<close>: the two methods that walk a reverse index and
  take resources back without their owner. Both drop the index first and then loop; the loop
  keeps the invariant with that component or flow exempt, and afterwards nothing of it is left.
\<close>

section \<open>Walking an index\<close>

text \<open>The order in which a hash set is iterated: arbitrary, but every element exactly once.\<close>

definition order_ok :: "set_order \<Rightarrow> bool" where
  "order_ok iter \<longleftrightarrow> (\<forall>S. finite S \<longrightarrow> set (iter S) = S \<and> distinct (iter S))"

definition keep_views :: "(resource_view \<Rightarrow> bool) \<Rightarrow> (resource_id \<rightharpoonup> resource_view) \<Rightarrow>
    (resource_id \<rightharpoonup> resource_view)" where
  "keep_views P vs r = (case vs r of None \<Rightarrow> None | Some v \<Rightarrow> if P v then Some v else None)"

lemma view_owner: "m_abs m r = Some e \<Longrightarrow> m_view m r = Some v \<Longrightarrow> v_owner v = e_owner e \<and> v_flow v = e_flow_id e"
  by (auto simp: m_view_def entry_view_def)

lemma restrict_keep_views:
  assumes "\<And>r e. m_abs m r = Some e \<Longrightarrow> r \<in> S \<longleftrightarrow> \<not> P (entry_view (m_heap m) e)"
  shows "m_view m |` (- S) = keep_views P (m_view m)"
  using assms by (auto simp: keep_views_def restrict_map_def m_view_def fun_eq_iff split: option.split)

lemma index_inv_drop_component:
  "index_inv ab {} F ci fi \<Longrightarrow> index_inv ab {c} F (ci(c := None)) fi"
  by (auto simp: index_inv_def index_set_def)

lemma index_inv_drop_flow:
  "index_inv ab C {} ci fi \<Longrightarrow> index_inv ab C {f} ci (fi(f := None))"
  by (auto simp: index_inv_def index_set_def)

lemma mgr_inv_close:
  assumes "mgr_inv_upto C F m"
    and "\<And>r e. m_abs m r = Some e \<Longrightarrow> e_flow_id e \<notin> F \<and> (\<forall>c \<in> C. e_owner e \<noteq> Component c)"
  shows "mgr_inv m"
  using assms unfolding mgr_inv_upto_def index_inv_def by (auto 0 3)

lemma component_ids:
  assumes "mgr_inv m" and "order_ok iter"
  shows "set (mgr_resources_held_by iter m c) = {r. \<exists>e. m_abs m r = Some e \<and> e_owner e = Component c}"
    and "distinct (mgr_resources_held_by iter m c)"
proof -
  let ?S = "index_set (m_component_resources m) c"
  have S: "?S = {r. \<exists>e. m_abs m r = Some e \<and> e_owner e = Component c}"
    using mgr_invD(5) [OF assms(1)] by (auto simp: index_inv_def)
  have "finite ?S" unfolding S by (rule finite_subset [OF _ finite_dom_m_abs [of m]]) auto
  with assms(2) show "set (mgr_resources_held_by iter m c) =
      {r. \<exists>e. m_abs m r = Some e \<and> e_owner e = Component c}"
    and "distinct (mgr_resources_held_by iter m c)"
    unfolding S [symmetric]
    by (auto simp: order_ok_def mgr_resources_held_by_def index_set_def split: option.splits)
qed

section \<open>Force reclaim\<close>

definition reclaimed_of :: "resource_id \<Rightarrow> resource_entry \<Rightarrow> resource_reclaimed" where
  "reclaimed_of r e =
     \<lparr>rr_resource_id = r, rr_previous_state = e_state e, rr_previous_owner = e_owner e,
      rr_payload_capacity = e_payload_capacity e, rr_returned_to_pool = (\<not> is_fallback (e_flags e))\<rparr>"

lemma force_reclaim_one_ok:
  assumes inv: "mgr_inv_upto C F m" and live: "m_abs m r = Some e"
    and owner: "e_owner e = Component c" "c \<in> C"
  obtains m' where "force_reclaim_one m r = Some (m', [reclaimed_of r e])" "mgr_inv_upto C F m'"
    "m_abs m' = (m_abs m)(r := None)" "m_view m' = (m_view m)(r := None)"
proof -
  let ?h = "BufferHandle r" and ?e = "e\<lparr>e_borrow_count := 0, e_state := Owned, e_owner := Host\<rparr>"
  have get: "table_get (m_table m) ?h = Inr e" by (rule mgr_get_live) (simp add: live)
  obtain t' where t': "table_remove (table_set (m_table m) ?h ?e) ?h = Inr (?e, t')" "table_inv t'"
    "table_abs t' = (m_abs m)(r := None)"
    by (rule set_then_remove [OF mgr_invD(1) [OF inv], of ?h e ?e])
      (use live in \<open>simp_all add: m_abs_def\<close>)
  let ?m1 = "m\<lparr>m_table := t', m_flow_resources := index_remove (m_flow_resources m) (e_flow_id e) r\<rparr>"
  have bud: "budget_covers (owned_bytes ((m_abs m)(r := None))) (m_budgets m)"
    by (rule budget_covers_mono [OF mgr_invD(6) [OF inv]]) (simp add: owned_bytes_removed(1) [OF live])
  obtain s' h' where "zero_and_release ?m1 ?e = Some (?m1\<lparr>m_pools := s', m_heap := h'\<rparr>)"
    "mgr_inv_upto C F (?m1\<lparr>m_pools := s', m_heap := h'\<rparr>)"
    "m_abs (?m1\<lparr>m_pools := s', m_heap := h'\<rparr>) = (m_abs m)(r := None)"
    "m_view (?m1\<lparr>m_pools := s', m_heap := h'\<rparr>) = (m_view m)(r := None)"
    by (rule mgr_inv_removed [OF inv live, of ?e ?m1])
      (use t' bud index_inv_remove_component [OF mgr_invD(5) [OF inv] live owner]
        in \<open>simp_all add: same_block_def\<close>)
  moreover from this(1) have "force_reclaim_one m r =
      Some (?m1\<lparr>m_pools := s', m_heap := h'\<rparr>, [reclaimed_of r e])"
    using t'(1) get by (simp add: force_reclaim_one_def Let_def reclaimed_of_def)
  ultimately show thesis by (intro that)
qed

lemma force_reclaim_loop_ok:
  assumes "mgr_inv_upto C F m" and "distinct rs" and "c \<in> C"
    and "\<And>r. r \<in> set rs \<Longrightarrow> \<exists>e. m_abs m r = Some e \<and> e_owner e = Component c"
  shows "\<exists>m'. force_reclaim_loop m rs = Some (m', map (\<lambda>r. reclaimed_of r (the (m_abs m r))) rs) \<and>
           mgr_inv_upto C F m' \<and> m_abs m' = m_abs m |` (- set rs) \<and>
           m_view m' = m_view m |` (- set rs)"
  using assms
proof (induction rs arbitrary: m)
  case Nil
  then show ?case by simp
next
  case (Cons r rs)
  from Cons.prems(4) [of r] obtain e where e: "m_abs m r = Some e" "e_owner e = Component c" by auto
  obtain m1 where one: "force_reclaim_one m r = Some (m1, [reclaimed_of r e])" "mgr_inv_upto C F m1"
    "m_abs m1 = (m_abs m)(r := None)" "m_view m1 = (m_view m)(r := None)"
    by (rule force_reclaim_one_ok [OF Cons.prems(1) e Cons.prems(3)])
  have live: "\<exists>e. m_abs m1 q = Some e \<and> e_owner e = Component c" if "q \<in> set rs" for q
    using that Cons.prems(2,4) one(3) by auto
  obtain m' where rest: "force_reclaim_loop m1 rs = Some (m', map (\<lambda>r. reclaimed_of r (the (m_abs m1 r))) rs)"
    "mgr_inv_upto C F m'" "m_abs m' = m_abs m1 |` (- set rs)" "m_view m' = m_view m1 |` (- set rs)"
    using Cons.IH [OF one(2) _ Cons.prems(3) live] Cons.prems(2) by auto
  have "map (\<lambda>r. reclaimed_of r (the (m_abs m1 r))) rs = map (\<lambda>r. reclaimed_of r (the (m_abs m r))) rs"
    using Cons.prems(2) one(3) by auto
  moreover have "m_abs m' = m_abs m |` (- set (r # rs))" "m_view m' = m_view m |` (- set (r # rs))"
    using rest(3,4) one(3,4) by (auto simp: restrict_map_def fun_eq_iff)
  ultimately show ?case using one(1) rest(1,2) e by simp
qed

lemma unregister_covers:
  "budget_covers need b \<Longrightarrow> budget_covers need (registry_unregister b c)"
  by (auto simp: budget_covers_def registry_wf_def account_def registry_unregister_def)

lemma mgr_force_reclaim_ok:
  assumes inv: "mgr_inv m" and iter: "order_ok iter"
  shows "\<exists>m'. mgr_force_reclaim iter m c =
             Some (map (\<lambda>r. reclaimed_of r (the (m_abs m r))) (mgr_resources_held_by iter m c), m') \<and>
           mgr_inv m' \<and> m_view m' = keep_views (\<lambda>v. v_owner v \<noteq> Component c) (m_view m) \<and>
           account (m_budgets m') c = None"
proof -
  let ?ids = "mgr_resources_held_by iter m c"
  let ?m1 = "m\<lparr>m_component_resources := (m_component_resources m)(c := None)\<rparr>"
  note ids = component_ids [OF inv iter, of c]
  have abs1: "m_abs ?m1 = m_abs m" and view1: "m_view ?m1 = m_view m"
    by (simp_all add: m_abs_def m_view_def fun_eq_iff)
  have "mgr_inv_upto {c} {} ?m1"
    using mgr_invD [OF inv] index_inv_drop_component [OF mgr_invD(5) [OF inv], of c]
    by (simp add: mgr_inv_upto_def abs1)
  then obtain m2 where m2: "force_reclaim_loop ?m1 ?ids =
      Some (m2, map (\<lambda>r. reclaimed_of r (the (m_abs m r))) ?ids)"
    "mgr_inv_upto {c} {} m2" "m_abs m2 = m_abs m |` (- set ?ids)" "m_view m2 = m_view m |` (- set ?ids)"
    using force_reclaim_loop_ok [of "{c}" "{}" ?m1 ?ids c] ids unfolding abs1 view1 by auto
  have "e_owner e \<noteq> Component c" if "m_abs m2 r = Some e" for r e
    using that ids(1) unfolding m2(3) by (auto simp: restrict_map_def split: if_splits)
  then have inv2: "mgr_inv m2" by (intro mgr_inv_close [OF m2(2)]) auto
  let ?m' = "m2\<lparr>m_budgets := registry_unregister (m_budgets m2) c\<rparr>"
  have "mgr_inv ?m'" by (intro mgr_inv_budgets inv2 unregister_covers mgr_invD(6) [OF inv2])
  moreover have "m_view ?m' = keep_views (\<lambda>v. v_owner v \<noteq> Component c) (m_view m)"
    unfolding m_view_budgets m2(4)
    by (rule restrict_keep_views) (use ids(1) in \<open>auto simp: entry_view_def\<close>)
  moreover have "account (m_budgets ?m') c = None"
    by (simp add: account_def registry_unregister_def)
  moreover have "mgr_force_reclaim iter m c =
      Some (map (\<lambda>r. reclaimed_of r (the (m_abs m r))) ?ids, ?m')"
    using m2(1) by (simp add: mgr_force_reclaim_def Let_def)
  ultimately show ?thesis by blast
qed

section \<open>Reclaiming the buffers of a flow\<close>

definition flow_ids :: "set_order \<Rightarrow> manager \<Rightarrow> flow_id \<Rightarrow> resource_id list" where
  "flow_ids iter m f = (case m_flow_resources m f of None \<Rightarrow> [] | Some S \<Rightarrow> iter S)"

lemma flow_ids_ok:
  assumes "mgr_inv m" and "order_ok iter"
  shows "set (flow_ids iter m f) = {r. \<exists>e. m_abs m r = Some e \<and> e_flow_id e = f}"
    and "distinct (flow_ids iter m f)"
proof -
  let ?S = "index_set (m_flow_resources m) f"
  have S: "?S = {r. \<exists>e. m_abs m r = Some e \<and> e_flow_id e = f}"
    using mgr_invD(5) [OF assms(1)] by (auto simp: index_inv_def)
  have "finite ?S" unfolding S by (rule finite_subset [OF _ finite_dom_m_abs [of m]]) auto
  with assms(2) show "set (flow_ids iter m f) = {r. \<exists>e. m_abs m r = Some e \<and> e_flow_id e = f}"
    and "distinct (flow_ids iter m f)"
    unfolding S [symmetric] by (auto simp: order_ok_def flow_ids_def index_set_def split: option.splits)
qed

lemma reclaim_flow_one_ok:
  assumes inv: "mgr_inv_upto C F m" and live: "m_abs m r = Some e" and flow: "e_flow_id e \<in> F"
  obtains m' s' where "reclaim_flow_one m s r = Some (m', s')" "mgr_inv_upto C F m'"
    "m_abs m' = (m_abs m)(r := None)" "m_view m' = (m_view m)(r := None)"
    "frs_returned_to_pool s' + frs_deallocated s' = frs_returned_to_pool s + frs_deallocated s + 1"
proof -
  let ?h = "BufferHandle r"
  let ?e = "if 0 < e_borrow_count e then e\<lparr>e_borrow_count := 0\<rparr> else e"
  have get: "table_get (m_table m) ?h = Inr e" by (rule mgr_get_live) (simp add: live)
  obtain t' where t': "table_remove (table_set (m_table m) ?h ?e) ?h = Inr (?e, t')" "table_inv t'"
    "table_abs t' = (m_abs m)(r := None)"
    by (rule set_then_remove [OF mgr_invD(1) [OF inv], of ?h e ?e])
      (use live in \<open>simp_all add: m_abs_def\<close>)
  let ?m1 = "m\<lparr>m_component_resources := component_index_remove (m_component_resources m) (e_owner e) r,
      m_budgets := release_for (m_budgets m) (e_owner e) (u32_as_u64 (e_payload_capacity e)),
      m_table := t'\<rparr>"
  obtain s1 h1 where zr: "zero_and_release ?m1 ?e = Some (?m1\<lparr>m_pools := s1, m_heap := h1\<rparr>)"
    and post: "mgr_inv_upto C F (?m1\<lparr>m_pools := s1, m_heap := h1\<rparr>)"
      "m_abs (?m1\<lparr>m_pools := s1, m_heap := h1\<rparr>) = (m_abs m)(r := None)"
      "m_view (?m1\<lparr>m_pools := s1, m_heap := h1\<rparr>) = (m_view m)(r := None)"
    by (rule mgr_inv_removed [OF inv live, of ?e ?m1])
      (use t' release_for_removed [OF inv live] index_inv_remove_flow [OF mgr_invD(5) [OF inv] live flow]
        in \<open>simp_all add: same_block_def\<close>)
  let ?m' = "?m1\<lparr>m_pools := s1, m_heap := h1\<rparr>"
  have "\<exists>s'. reclaim_flow_one m s r = Some (?m', s') \<and>
      frs_returned_to_pool s' + frs_deallocated s' = frs_returned_to_pool s + frs_deallocated s + 1"
    using t'(1) get zr by (simp add: reclaim_flow_one_def Let_def algebra_simps)
  with post that show thesis by blast
qed

lemma reclaim_flow_loop_ok:
  assumes "mgr_inv_upto C F m" and "distinct rs"
    and "\<And>r. r \<in> set rs \<Longrightarrow> \<exists>e. m_abs m r = Some e \<and> e_flow_id e \<in> F"
  shows "\<exists>m' s'. reclaim_flow_loop m s rs = Some (m', s') \<and>
           mgr_inv_upto C F m' \<and> m_abs m' = m_abs m |` (- set rs) \<and>
           m_view m' = m_view m |` (- set rs) \<and>
           frs_returned_to_pool s' + frs_deallocated s' =
             frs_returned_to_pool s + frs_deallocated s + of_nat (length rs)"
  using assms
proof (induction rs arbitrary: m s)
  case Nil
  then show ?case by simp
next
  case (Cons r rs)
  from Cons.prems(3) [of r] obtain e where e: "m_abs m r = Some e" "e_flow_id e \<in> F" by auto
  obtain m1 s1 where one: "reclaim_flow_one m s r = Some (m1, s1)" "mgr_inv_upto C F m1"
    "m_abs m1 = (m_abs m)(r := None)" "m_view m1 = (m_view m)(r := None)"
    "frs_returned_to_pool s1 + frs_deallocated s1 = frs_returned_to_pool s + frs_deallocated s + 1"
    by (rule reclaim_flow_one_ok [OF Cons.prems(1) e])
  have live: "\<exists>e. m_abs m1 q = Some e \<and> e_flow_id e \<in> F" if "q \<in> set rs" for q
    using that Cons.prems(2,3) one(3) by auto
  obtain m' s' where rest: "reclaim_flow_loop m1 s1 rs = Some (m', s')"
    "mgr_inv_upto C F m'" "m_abs m' = m_abs m1 |` (- set rs)" "m_view m' = m_view m1 |` (- set rs)"
    "frs_returned_to_pool s' + frs_deallocated s' =
       frs_returned_to_pool s1 + frs_deallocated s1 + of_nat (length rs)"
    using Cons.IH [OF one(2) _ live, of s1] Cons.prems(2) by auto
  have "m_abs m' = m_abs m |` (- set (r # rs))" "m_view m' = m_view m |` (- set (r # rs))"
    using rest(3,4) one(3,4) by (auto simp: restrict_map_def fun_eq_iff)
  moreover have "frs_returned_to_pool s' + frs_deallocated s' =
      frs_returned_to_pool s + frs_deallocated s + of_nat (length (r # rs))"
    using rest(5) one(5) by (simp add: algebra_simps)
  ultimately show ?case using one(1) rest(1,2) by simp
qed

lemma mgr_reclaim_flow_ok:
  assumes inv: "mgr_inv m" and iter: "order_ok iter"
  shows "\<exists>s m'. mgr_reclaim_flow_buffers iter m f = Some (s, m') \<and> mgr_inv m' \<and>
           m_view m' = keep_views (\<lambda>v. v_flow v \<noteq> f) (m_view m) \<and>
           frs_returned_to_pool s + frs_deallocated s =
             of_nat (card {r. \<exists>v. m_view m r = Some v \<and> v_flow v = f})"
proof -
  let ?ids = "flow_ids iter m f"
  let ?m1 = "m\<lparr>m_flow_resources := (m_flow_resources m)(f := None)\<rparr>"
  note ids = flow_ids_ok [OF inv iter, of f]
  have abs1: "m_abs ?m1 = m_abs m" and view1: "m_view ?m1 = m_view m"
    by (simp_all add: m_abs_def m_view_def fun_eq_iff)
  have "mgr_inv_upto {} {f} ?m1"
    using mgr_invD [OF inv] index_inv_drop_flow [OF mgr_invD(5) [OF inv], of f]
    by (simp add: mgr_inv_upto_def abs1)
  from reclaim_flow_loop_ok [OF this ids(2), of flow_stats_zero]
  obtain m2 s2 where m2: "reclaim_flow_loop ?m1 flow_stats_zero ?ids = Some (m2, s2)"
    "mgr_inv_upto {} {f} m2" "m_abs m2 = m_abs m |` (- set ?ids)" "m_view m2 = m_view m |` (- set ?ids)"
    "frs_returned_to_pool s2 + frs_deallocated s2 = of_nat (length ?ids)"
    using ids(1) unfolding abs1 view1 by (auto simp: flow_stats_zero_def)
  have "e_flow_id e \<noteq> f" if "m_abs m2 r = Some e" for r e
    using that ids(1) unfolding m2(3) by (auto simp: restrict_map_def split: if_splits)
  then have "mgr_inv m2" by (intro mgr_inv_close [OF m2(2)]) auto
  moreover have "m_view m2 = keep_views (\<lambda>v. v_flow v \<noteq> f) (m_view m)"
    unfolding m2(4) by (rule restrict_keep_views) (use ids(1) in \<open>auto simp: entry_view_def\<close>)
  moreover have "{r. \<exists>v. m_view m r = Some v \<and> v_flow v = f} = set ?ids"
    unfolding ids(1) by (auto simp: m_view_def entry_view_def)
  then have "length ?ids = card {r. \<exists>v. m_view m r = Some v \<and> v_flow v = f}"
    using distinct_card [OF ids(2)] by simp
  moreover have "mgr_reclaim_flow_buffers iter m f = Some (s2, m2)"
    using m2(1) by (simp add: mgr_reclaim_flow_buffers_def Let_def flow_ids_def)
  ultimately show ?thesis using m2(5) by auto
qed

lemma mgr_ledger_irrelevant:
  "m_abs (m\<lparr>m_ledger := l\<rparr>) = m_abs m" "m_view (m\<lparr>m_ledger := l\<rparr>) = m_view m"
  "mgr_inv_upto C F (m\<lparr>m_ledger := l\<rparr>) \<longleftrightarrow> mgr_inv_upto C F m"
  by (simp_all add: m_abs_def m_view_def fun_eq_iff mgr_inv_upto_def)

end
