(* ===== verification/Res_Manager_Spec.thy ===== *)
theory Res_Manager_Spec
  imports Res_Manager_Reclaim
begin

text \<open>
  The contract of the resource manager, and the proof that the methods of \<open>manager.rs\<close>
  implement it. The specification speaks of a map from handles to abstract resources and of
  nothing else: no table, free lists, pools, heap or indices. \<open>mgr_call\<close> is one call of the
  public interface; \<open>spec_call\<close> says what a call may return and do.
\<close>

section \<open>Calls\<close>

datatype mgr_op =
    Allocate owner_id u32 flow_id u64
  | Release buffer_handle owner_id
  | TransferOwnership buffer_handle owner_id owner_id
  | BorrowStart buffer_handle component_id
  | BorrowEnd buffer_handle component_id
  | ReadPayload buffer_handle owner_id u32 u32 flow_id
  | WritePayload buffer_handle owner_id u32 "u8 list" flow_id
  | SetContentType buffer_handle owner_id "u8 list"
  | ForceReclaim component_id
  | ReleaseFlow flow_id
  | RegisterFlow flow_id
  | RegisterComponent component_id "u64 option"

datatype mgr_result =
    RError resource_error
  | RUnit
  | RHandle buffer_handle
  | RBytes "u8 list"
  | RReclaimed "resource_reclaimed list"
  | RStats flow_resource_stats

fun res_unit :: "resource_error + unit \<Rightarrow> mgr_result" where
  "res_unit (Inl err) = RError err"
| "res_unit (Inr _) = RUnit"

definition mgr_call ::
    "sys_alloc \<Rightarrow> set_order \<Rightarrow> manager \<Rightarrow> mgr_op \<Rightarrow> (mgr_result \<times> manager) option" where
  "mgr_call sys iter m op =
     (case op of
        Allocate owner c f now \<Rightarrow>
          map_option (map_prod (case_sum RError RHandle) id) (mgr_allocate sys now m owner c f)
      | Release h caller \<Rightarrow> map_option (map_prod res_unit id) (mgr_release m h caller)
      | TransferOwnership h a b \<Rightarrow> Some (map_prod res_unit id (mgr_transfer_ownership m h a b))
      | BorrowStart h c \<Rightarrow> Some (map_prod res_unit id (mgr_borrow_start m h c))
      | BorrowEnd h c \<Rightarrow> Some (map_prod res_unit id (mgr_borrow_end m h c))
      | ReadPayload h caller off len f \<Rightarrow>
          map_option (map_prod (case_sum RError RBytes) id) (mgr_read_payload m h caller off len f)
      | WritePayload h caller off data f \<Rightarrow>
          map_option (map_prod res_unit id) (mgr_write_payload m h caller off data f)
      | SetContentType h caller ct \<Rightarrow> Some (map_prod res_unit id (mgr_set_content_type m h caller ct))
      | ForceReclaim c \<Rightarrow> map_option (map_prod RReclaimed id) (mgr_force_reclaim iter m c)
      | ReleaseFlow f \<Rightarrow>
          map_option (map_prod (case_sum RError RStats) id) (mgr_release_flow_resources iter m f)
      | RegisterFlow f \<Rightarrow> Some (RUnit, mgr_register_flow m f)
      | RegisterComponent c limit \<Rightarrow> Some (RUnit, mgr_register_component m c limit))"

text \<open>
  What the caller has to see to. The pseudo-owner \<open>Transit\<close> is internal; a resource has fewer
  than \<open>2 ^ 32 - 1\<close> readers; a Rust slice has fewer than \<open>2 ^ 63\<close> bytes; a component is
  registered while it owns nothing, with a limit that leaves room for one more buffer below \<open>2 ^ 64\<close>.
\<close>

fun op_ok :: "manager \<Rightarrow> mgr_op \<Rightarrow> bool" where
  "op_ok m (Allocate owner c f now) \<longleftrightarrow> owner \<noteq> Transit"
| "op_ok m (TransferOwnership h a b) \<longleftrightarrow> b \<noteq> Transit"
| "op_ok m (BorrowStart h c) \<longleftrightarrow>
     (case m_view m (bh_resource_id h) of None \<Rightarrow> True | Some v \<Rightarrow> v_borrows v < 4294967295)"
| "op_ok m (WritePayload h caller off data f) \<longleftrightarrow> length data < 9223372036854775808"
| "op_ok m (RegisterComponent c limit) \<longleftrightarrow>
     index_set (m_component_resources m) c = {} \<and>
     unat (case limit of Some n \<Rightarrow> n | None \<Rightarrow> br_default_max (m_budgets m)) + 4294967296
       \<le> 18446744073709551616"
| "op_ok m _ \<longleftrightarrow> True"

section \<open>The specification\<close>

type_synonym views = "resource_id \<rightharpoonup> resource_view"

definition idle_with :: "owner_id \<Rightarrow> resource_view option \<Rightarrow> bool" where
  "idle_with c x \<longleftrightarrow> (\<exists>v. x = Some v \<and> v_owner v = c \<and> v_borrows v = 0)"

inductive spec_call :: "views \<Rightarrow> mgr_op \<Rightarrow> mgr_result \<Rightarrow> views \<Rightarrow> bool" where
  allocated: "vs r = None \<Longrightarrow>
    spec_call vs (Allocate c n f now) (RHandle (BufferHandle r)) (vs(r \<mapsto> fresh_view c f n))"
| no_memory: "spec_call vs (Allocate c n f now) (RError err) vs"
| released: "idle_with c (vs (bh_resource_id h)) \<Longrightarrow>
    spec_call vs (Release h c) RUnit (vs(bh_resource_id h := None))"
| not_released: "\<not> idle_with c (vs (bh_resource_id h)) \<Longrightarrow> spec_call vs (Release h c) (RError err) vs"
| transferred: "idle_with a (vs (bh_resource_id h)) \<Longrightarrow> vs (bh_resource_id h) = Some v \<Longrightarrow>
    spec_call vs (TransferOwnership h a b) RUnit (vs(bh_resource_id h \<mapsto> v\<lparr>v_owner := b\<rparr>))"
| not_transferred: "spec_call vs (TransferOwnership h a b) (RError err) vs"
| borrowed: "vs (bh_resource_id h) = Some v \<Longrightarrow>
    spec_call vs (BorrowStart h c) RUnit (vs(bh_resource_id h \<mapsto> v\<lparr>v_borrows := Suc (v_borrows v)\<rparr>))"
| not_borrowed: "vs (bh_resource_id h) = None \<Longrightarrow> spec_call vs (BorrowStart h c) (RError err) vs"
| given_back: "vs (bh_resource_id h) = Some v \<Longrightarrow> 0 < v_borrows v \<Longrightarrow>
    spec_call vs (BorrowEnd h c) RUnit (vs(bh_resource_id h \<mapsto> v\<lparr>v_borrows := v_borrows v - 1\<rparr>))"
| not_given_back: "\<forall>v. vs (bh_resource_id h) = Some v \<longrightarrow> v_borrows v = 0 \<Longrightarrow>
    spec_call vs (BorrowEnd h c) (RError err) vs"
| read_data: "vs (bh_resource_id h) = Some v \<Longrightarrow> unat off + unat len \<le> length (v_data v) \<Longrightarrow>
    spec_call vs (ReadPayload h c off len f) (RBytes (take (unat len) (drop (unat off) (v_data v)))) vs"
| not_read: "\<forall>v. vs (bh_resource_id h) = Some v \<longrightarrow> length (v_data v) < unat off + unat len \<Longrightarrow>
    spec_call vs (ReadPayload h c off len f) (RError err) vs"
| written: "idle_with c (vs (bh_resource_id h)) \<Longrightarrow> vs (bh_resource_id h) = Some v \<Longrightarrow>
    unat off + length data \<le> v_capacity v \<Longrightarrow>
    spec_call vs (WritePayload h c off data f) RUnit
      (vs(bh_resource_id h \<mapsto> v\<lparr>v_data := overwrite (v_data v) (unat off) data\<rparr>))"
| not_written: "\<forall>v. vs (bh_resource_id h) = Some v \<longrightarrow> idle_with c (Some v) \<longrightarrow>
      v_capacity v < unat off + length data \<Longrightarrow>
    spec_call vs (WritePayload h c off data f) (RError err) vs"
| tagged: "vs (bh_resource_id h) = Some v \<Longrightarrow> v_owner v = c \<Longrightarrow>
    spec_call vs (SetContentType h c ct) RUnit
      (vs(bh_resource_id h \<mapsto> v\<lparr>v_content_type := ct_from_str ct\<rparr>))"
| not_tagged: "\<forall>v. vs (bh_resource_id h) = Some v \<longrightarrow> v_owner v \<noteq> c \<Longrightarrow>
    spec_call vs (SetContentType h c ct) (RError err) vs"
| forced: "set (map rr_resource_id out) = {r. \<exists>v. vs r = Some v \<and> v_owner v = Component c} \<Longrightarrow>
    distinct (map rr_resource_id out) \<Longrightarrow>
    spec_call vs (ForceReclaim c) (RReclaimed out) (keep_views (\<lambda>v. v_owner v \<noteq> Component c) vs)"
| flow_released: "frs_returned_to_pool s + frs_deallocated s =
      of_nat (card {r. \<exists>v. vs r = Some v \<and> v_flow v = f}) \<Longrightarrow>
    spec_call vs (ReleaseFlow f) (RStats s) (keep_views (\<lambda>v. v_flow v \<noteq> f) vs)"
| flow_registered: "spec_call vs (RegisterFlow f) RUnit vs"
| component_registered: "spec_call vs (RegisterComponent c limit) RUnit vs"

inductive_cases spec_callE: "spec_call vs op res vs'"

section \<open>The methods implement it\<close>

lemma idle_with_entry:
  assumes "mgr_inv m"
  shows "idle_with c (m_view m r) \<longleftrightarrow>
    (\<exists>e. m_abs m r = Some e \<and> e_owner e = c \<and> e_state e = Owned)"
proof (cases "m_abs m r")
  case None
  then show ?thesis by (simp add: idle_with_def m_view_def)
next
  case (Some e)
  with mgr_entry_ok [OF assms Some] unat_gt_0 [of "e_borrow_count e"] show ?thesis
    by (auto simp: idle_with_def m_view_def entry_view_def entry_ok_def entry_wf_def word_pos_iff)
qed

lemma view_entry:
  "m_abs m r = Some e \<Longrightarrow> m_view m r = Some (entry_view (m_heap m) e)"
  by (simp add: m_view_def)

lemma refine_allocate:
  assumes "mgr_inv m" and "allocator_ok sys" and "owner \<noteq> Transit"
  shows "\<exists>res m'. mgr_call sys iter m (Allocate owner c f now) = Some (res, m') \<and> mgr_inv m' \<and>
           spec_call (m_view m) (Allocate owner c f now) res (m_view m')"
proof (cases rule: mgr_allocate_cases [OF assms, where c = c and flow = f and now = now,
      case_names failed allocated])
  case (failed err m')
  then show ?thesis by (auto simp: mgr_call_def intro: spec_call.no_memory)
next
  case (allocated r m')
  then show ?thesis by (auto simp: mgr_call_def intro!: spec_call.allocated)
qed

lemma refine_release:
  assumes inv: "mgr_inv m"
  shows "\<exists>res m'. mgr_call sys iter m (Release h c) = Some (res, m') \<and> mgr_inv m' \<and>
           spec_call (m_view m) (Release h c) res (m_view m')"
proof (cases "idle_with c (m_view m (bh_resource_id h))")
  case True
  then obtain e where e: "m_abs m (bh_resource_id h) = Some e" "e_state e = Owned" "e_owner e = c"
    using idle_with_entry [OF inv] by auto
  from mgr_release_ok [OF inv e(1,2)] e(3) spec_call.released [of c "m_view m" h] True
  show ?thesis by (auto simp: mgr_call_def)
next
  case False
  then obtain err where "mgr_release m h c = Some (Inl err, m)"
    using mgr_release_refused [OF inv, of h c] idle_with_entry [OF inv] by blast
  with spec_call.not_released [of c "m_view m" h] False inv show ?thesis
    by (auto simp: mgr_call_def)
qed

lemma refine_transfer:
  assumes inv: "mgr_inv m" and b: "b \<noteq> Transit"
  shows "\<exists>res m'. mgr_call sys iter m (TransferOwnership h a b) = Some (res, m') \<and> mgr_inv m' \<and>
           spec_call (m_view m) (TransferOwnership h a b) res (m_view m')"
proof (cases "\<exists>e. m_abs m (bh_resource_id h) = Some e \<and> e_state e = Owned \<and> e_owner e = a \<and>
    (\<exists>r. reserve_for (m_budgets m) b (u32_as_u64 (e_payload_capacity e)) = Inr r)")
  case True
  then obtain e r where e: "m_abs m (bh_resource_id h) = Some e" "e_state e = Owned" "e_owner e = a"
    and r: "reserve_for (m_budgets m) b (u32_as_u64 (e_payload_capacity e)) = Inr r" by blast
  have "idle_with a (m_view m (bh_resource_id h))" using e idle_with_entry [OF inv] by blast
  from spec_call.transferred [of a "m_view m" h "entry_view (m_heap m) e" b, OF this view_entry [OF e(1)]]
    mgr_transfer_ok [OF inv e(1,2) b r] e(3)
  show ?thesis by (auto simp: mgr_call_def)
next
  case False
  have "e_state e \<noteq> Owned \<or> e_owner e \<noteq> a \<or>
      (\<exists>err. reserve_for (m_budgets m) b (u32_as_u64 (e_payload_capacity e)) = Inl err)"
    if "m_abs m (bh_resource_id h) = Some e" for e
    using False that by (cases "reserve_for (m_budgets m) b (u32_as_u64 (e_payload_capacity e))") auto
  from mgr_transfer_refused [OF inv this] obtain err m'
    where "mgr_transfer_ownership m h a b = (Inl err, m')" "mgr_inv m'" "m_view m' = m_view m"
    by blast
  then show ?thesis by (auto simp: mgr_call_def intro: spec_call.not_transferred)
qed

lemma refine_borrow_start:
  assumes inv: "mgr_inv m" and ok: "op_ok m (BorrowStart h c)"
  shows "\<exists>res m'. mgr_call sys iter m (BorrowStart h c) = Some (res, m') \<and> mgr_inv m' \<and>
           spec_call (m_view m) (BorrowStart h c) res (m_view m')"
proof (cases "m_abs m (bh_resource_id h)")
  case None
  then obtain err where "mgr_borrow_start m h c = (Inl err, m)"
    using mgr_get_iff [of m h]
    by (cases "table_get (m_table m) h") (auto simp: mgr_borrow_start_def with_entry_def)
  with None inv spec_call.not_borrowed [of "m_view m" h c] show ?thesis by (auto simp: mgr_call_def)
next
  case (Some e)
  from ok view_entry [OF Some] have "e_borrow_count e \<noteq> - 1" by (auto simp: entry_view_def)
  from mgr_borrow_start_ok [OF inv Some this, of c]
    spec_call.borrowed [of "m_view m" h "entry_view (m_heap m) e" c, OF view_entry [OF Some]]
  show ?thesis by (auto simp: mgr_call_def entry_view_def)
qed

lemma refine_borrow_end:
  assumes inv: "mgr_inv m"
  shows "\<exists>res m'. mgr_call sys iter m (BorrowEnd h c) = Some (res, m') \<and> mgr_inv m' \<and>
           spec_call (m_view m) (BorrowEnd h c) res (m_view m')"
proof (cases "m_abs m (bh_resource_id h)")
  case None
  then obtain err where "mgr_borrow_end m h c = (Inl err, m)"
    using mgr_get_iff [of m h]
    by (cases "table_get (m_table m) h") (auto simp: mgr_borrow_end_def with_entry_def)
  with None inv spec_call.not_given_back [of "m_view m" h c] show ?thesis
    by (auto simp: mgr_call_def m_view_def)
next
  case (Some e)
  note view = view_entry [OF Some]
  have pos: "e_state e = Borrowed \<longleftrightarrow> 0 < unat (e_borrow_count e)"
    using mgr_entry_ok [OF inv Some] unat_gt_0 [of "e_borrow_count e"]
    by (auto simp: entry_ok_def entry_wf_def word_pos_iff)
  show ?thesis
  proof (cases "e_state e = Borrowed")
    case True
    with pos have "0 < v_borrows (entry_view (m_heap m) e)" by (simp add: entry_view_def)
    from mgr_borrow_end_ok [OF inv Some True, of c]
      spec_call.given_back [of "m_view m" h "entry_view (m_heap m) e" c, OF view this]
    show ?thesis by (auto simp: mgr_call_def entry_view_def)
  next
    case False
    with pos view have "\<forall>v. m_view m (bh_resource_id h) = Some v \<longrightarrow> v_borrows v = 0"
      by (simp add: entry_view_def)
    from mgr_borrow_end_refused [OF inv Some False, of c]
      spec_call.not_given_back [of "m_view m" h c, OF this] inv
    show ?thesis by (auto simp: mgr_call_def)
  qed
qed

lemma refine_read:
  assumes inv: "mgr_inv m"
  shows "\<exists>res m'. mgr_call sys iter m (ReadPayload h c off len f) = Some (res, m') \<and> mgr_inv m' \<and>
           spec_call (m_view m) (ReadPayload h c off len f) res (m_view m')"
proof (cases "m_abs m (bh_resource_id h)")
  case None
  then obtain err where "mgr_read_payload m h c off len f = Some (Inl err, m)"
    using mgr_get_iff [of m h] by (cases "table_get (m_table m) h") (auto simp: mgr_read_payload_def)
  with None inv spec_call.not_read [of "m_view m" h off len c f] show ?thesis
    by (auto simp: mgr_call_def m_view_def)
next
  case (Some e)
  note view = view_entry [OF Some] and rd = mgr_read_ok [OF inv Some, of off len c f]
  show ?thesis
  proof (cases "unat off + unat len \<le> length (v_data (entry_view (m_heap m) e))")
    case True
    from rd(1) [OF True]
      spec_call.read_data [of "m_view m" h "entry_view (m_heap m) e" off len c f, OF view True]
    show ?thesis by (auto simp: mgr_call_def)
  next
    case False
    from rd(2) spec_call.not_read [of "m_view m" h off len c f] False view inv
    show ?thesis by (auto simp: mgr_call_def not_le)
  qed
qed

lemma refine_write:
  assumes inv: "mgr_inv m" and len: "length data < 9223372036854775808"
  shows "\<exists>res m'. mgr_call sys iter m (WritePayload h c off data f) = Some (res, m') \<and> mgr_inv m' \<and>
           spec_call (m_view m) (WritePayload h c off data f) res (m_view m')"
proof (cases "\<exists>e. m_abs m (bh_resource_id h) = Some e \<and> e_state e = Owned \<and> e_owner e = c \<and>
    unat off + length data \<le> unat (e_payload_capacity e)")
  case True
  then obtain e where e: "m_abs m (bh_resource_id h) = Some e" "e_state e = Owned" "e_owner e = c"
    and fits: "unat off + length data \<le> unat (e_payload_capacity e)" by blast
  have "idle_with c (m_view m (bh_resource_id h))" using e idle_with_entry [OF inv] by blast
  moreover have "unat off + length data \<le> v_capacity (entry_view (m_heap m) e)"
    using fits by (simp add: entry_view_def)
  ultimately show ?thesis
    using spec_call.written [of c "m_view m" h "entry_view (m_heap m) e" off data f]
      view_entry [OF e(1)] mgr_write_ok [OF inv e(1,2) len fits, of f] e(3)
    by (auto simp: mgr_call_def)
next
  case False
  then obtain err where "mgr_write_payload m h c off data f = Some (Inl err, m)"
    using mgr_write_refused [OF inv len, of h c off f] by (metis not_less)
  moreover have "\<forall>v. m_view m (bh_resource_id h) = Some v \<longrightarrow> idle_with c (Some v) \<longrightarrow>
      v_capacity v < unat off + length data"
  proof (intro allI impI)
    fix v assume v: "m_view m (bh_resource_id h) = Some v" "idle_with c (Some v)"
    then obtain e where "m_abs m (bh_resource_id h) = Some e" "e_owner e = c" "e_state e = Owned"
      using idle_with_entry [OF inv, of c "bh_resource_id h"] by auto
    with False v view_entry show "v_capacity v < unat off + length data"
      by (force simp: entry_view_def)
  qed
  ultimately show ?thesis
    using spec_call.not_written [of "m_view m" h c off data f] inv by (auto simp: mgr_call_def)
qed

lemma refine_set_content_type:
  assumes inv: "mgr_inv m"
  shows "\<exists>res m'. mgr_call sys iter m (SetContentType h c ct) = Some (res, m') \<and> mgr_inv m' \<and>
           spec_call (m_view m) (SetContentType h c ct) res (m_view m')"
proof (cases "\<exists>e. m_abs m (bh_resource_id h) = Some e \<and> e_owner e = c")
  case True
  then obtain e where e: "m_abs m (bh_resource_id h) = Some e" "e_owner e = c" by blast
  from mgr_set_content_type_ok [OF inv e(1), of ct] e(2)
    spec_call.tagged [of "m_view m" h "entry_view (m_heap m) e" c ct, OF view_entry [OF e(1)]]
  show ?thesis by (auto simp: mgr_call_def entry_view_def)
next
  case False
  have "\<exists>err. mgr_set_content_type m h c ct = (Inl err, m)"
    by (cases rule: mgr_get_cases [of m h])
      (use False in \<open>auto simp: mgr_set_content_type_def with_entry_def\<close>)
  moreover have "\<forall>v. m_view m (bh_resource_id h) = Some v \<longrightarrow> v_owner v \<noteq> c"
    using False by (auto simp: m_view_def entry_view_def)
  ultimately show ?thesis
    using spec_call.not_tagged [of "m_view m" h c ct] inv by (auto simp: mgr_call_def)
qed

lemma refine_force_reclaim:
  assumes inv: "mgr_inv m" and iter: "order_ok iter"
  shows "\<exists>res m'. mgr_call sys iter m (ForceReclaim c) = Some (res, m') \<and> mgr_inv m' \<and>
           spec_call (m_view m) (ForceReclaim c) res (m_view m')"
proof -
  let ?ids = "mgr_resources_held_by iter m c"
  let ?out = "map (\<lambda>r. reclaimed_of r (the (m_abs m r))) ?ids"
  note ids = component_ids [OF inv iter, of c]
  have map_ids: "map rr_resource_id ?out = ?ids" by (simp add: reclaimed_of_def comp_def)
  have "set (map rr_resource_id ?out) = {r. \<exists>v. m_view m r = Some v \<and> v_owner v = Component c}"
    unfolding map_ids ids(1) by (auto simp: m_view_def entry_view_def)
  moreover have "distinct (map rr_resource_id ?out)" unfolding map_ids by (rule ids(2))
  ultimately show ?thesis
    using mgr_force_reclaim_ok [OF inv iter, of c] spec_call.forced [of ?out "m_view m" c]
    by (auto simp: mgr_call_def)
qed

lemma refine_release_flow:
  assumes inv: "mgr_inv m" and iter: "order_ok iter"
  shows "\<exists>res m'. mgr_call sys iter m (ReleaseFlow f) = Some (res, m') \<and> mgr_inv m' \<and>
           spec_call (m_view m) (ReleaseFlow f) res (m_view m')"
proof -
  obtain s m' where r: "mgr_reclaim_flow_buffers iter m f = Some (s, m')" "mgr_inv m'"
    "m_view m' = keep_views (\<lambda>v. v_flow v \<noteq> f) (m_view m)"
    "frs_returned_to_pool s + frs_deallocated s =
       of_nat (card {r. \<exists>v. m_view m r = Some v \<and> v_flow v = f})"
    using mgr_reclaim_flow_ok [OF inv iter, of f] by blast
  from spec_call.flow_released [OF r(4)] r show ?thesis
    by (simp add: mgr_call_def mgr_release_flow_resources_def mgr_ledger_irrelevant)
qed

lemma register_covers:
  assumes "budget_covers need b" and "need c = 0"
    and "unat (case limit of Some n \<Rightarrow> n | None \<Rightarrow> br_default_max b) + 4294967296 \<le> 18446744073709551616"
  shows "budget_covers need (registry_register b c limit)"
  using assms
  by (auto simp: budget_covers_def registry_wf_def registry_register_def Let_def account_def budget_new_def
      split: option.splits)

lemma refine_register:
  assumes inv: "mgr_inv m" and ok: "op_ok m (RegisterComponent c limit)"
  shows "\<exists>res m'. mgr_call sys iter m (RegisterComponent c limit) = Some (res, m') \<and> mgr_inv m' \<and>
           spec_call (m_view m) (RegisterComponent c limit) res (m_view m')"
proof -
  have "e_owner e \<noteq> Component c" if "m_abs m r = Some e" for r e
    using ok that mgr_invD(5) [OF inv] by (auto simp: index_inv_def)
  then have "owned_bytes (m_abs m) c = 0" by (rule owned_bytes_no_owner)
  with ok have "budget_covers (owned_bytes (m_abs m)) (registry_register (m_budgets m) c limit)"
    by (intro register_covers mgr_invD(6) [OF inv]) auto
  then show ?thesis
    using mgr_inv_budgets [OF inv] spec_call.component_registered
    by (simp add: mgr_call_def mgr_register_component_def)
qed

text \<open>One call: it is defined, keeps the invariant, and does what the specification says.\<close>

lemma mgr_call_refines:
  assumes inv: "mgr_inv m" and ok: "op_ok m op" and sys: "allocator_ok sys" and iter: "order_ok iter"
  shows "\<exists>res m'. mgr_call sys iter m op = Some (res, m') \<and> mgr_inv m' \<and>
           spec_call (m_view m) op res (m_view m')"
proof (cases op)
  case (RegisterFlow f)
  then show ?thesis
    using inv spec_call.flow_registered
    by (simp add: mgr_call_def mgr_register_flow_def mgr_ledger_irrelevant)
qed (use ok in \<open>simp_all add: refine_allocate [OF inv sys] refine_release [OF inv]
  refine_transfer [OF inv] refine_borrow_start [OF inv] refine_borrow_end [OF inv]
  refine_read [OF inv] refine_write [OF inv] refine_set_content_type [OF inv]
  refine_force_reclaim [OF inv iter] refine_release_flow [OF inv iter] refine_register [OF inv]
  del: op_ok.simps(3,5)\<close>)

section \<open>Reachable managers\<close>

lemma manager_new_inv:
  assumes sys: "allocator_ok sys" and cfg: "mc_pool_configs config = (c0, c1, c2, c3)"
    and order: "configs_in_order (c0, c1, c2, c3)" and huge: "\<not> tc_preallocate c3"
    and new: "manager_new sys config = Some m"
  shows "mgr_inv m" and "m_view m = Map.empty"
proof -
  obtain t p h where t: "table_new (mc_table_capacity config) = Some t"
    and p: "pool_set_new sys Map.empty (c0, c1, c2, c3) = Some (p, h)"
    and m: "m = \<lparr>m_table = t, m_component_resources = Map.empty, m_flow_resources = Map.empty,
           m_pools = p, m_budgets = registry_new (mc_default_budget_bytes config),
           m_ledger = Map.empty, m_events = [], m_heap = h\<rparr>"
    using new cfg by (auto simp: manager_new_def split: Option.bind_splits)
  note pn = pool_set_new_inv [OF sys order p]
  have abs: "m_abs m = Map.empty" using table_new_inv(2) [OF t] by (simp add: m_abs_def m)
  show "m_view m = Map.empty" by (simp add: m_view_def abs fun_eq_iff)
  have "store_inv Map.empty p h" using pn(2,3) by (simp add: store_inv_def)
  moreover have "index_inv Map.empty {} {} Map.empty Map.empty"
    by (simp add: index_inv_def index_set_def)
  moreover have "budget_covers (owned_bytes Map.empty) (registry_new (mc_default_budget_bytes config))"
    by (simp add: budget_covers_def registry_wf_def registry_new_def account_def)
  ultimately show "mgr_inv m"
    using table_new_inv(1) [OF t] pn(1,4) huge by (simp add: mgr_inv_upto_def abs) (simp add: m)
qed

inductive mgr_reach :: "sys_alloc \<Rightarrow> set_order \<Rightarrow> manager \<Rightarrow> manager \<Rightarrow> bool" for sys iter m0 where
  start: "mgr_reach sys iter m0 m0"
| call: "mgr_reach sys iter m0 m \<Longrightarrow> op_ok m op \<Longrightarrow> mgr_call sys iter m op = Some (res, m') \<Longrightarrow>
    mgr_reach sys iter m0 m'"

lemma mgr_reach_inv:
  assumes "mgr_reach sys iter m0 m" and "mgr_inv m0" and "allocator_ok sys" and "order_ok iter"
  shows "mgr_inv m"
  using assms(1)
proof (induction rule: mgr_reach.induct)
  case start
  show ?case by (rule assms(2))
next
  case (call m op res m')
  from mgr_call_refines [OF call.IH call.hyps(2) assms(3,4)] call.hyps(3) show ?case by auto
qed

end
