(* ===== verification/Res_Manager_Props.thy ===== *)
theory Res_Manager_Props
  imports Res_Manager_Spec
begin

text \<open>
  What the resource manager guarantees in every state that a program can bring it into, with a
  small concrete run at which each guarantee is instantiated.
\<close>

section \<open>The states of a program\<close>

definition config_ok :: "manager_config \<Rightarrow> bool" where
  "config_ok config \<longleftrightarrow>
     configs_in_order (mc_pool_configs config) \<and>
     (case mc_pool_configs config of (c0, c1, c2, c3) \<Rightarrow> \<not> tc_preallocate c3)"

text \<open>A manager built by \<open>new\<close> and used through the interface only.\<close>

definition mgr_state :: "sys_alloc \<Rightarrow> set_order \<Rightarrow> manager \<Rightarrow> bool" where
  "mgr_state sys iter m \<longleftrightarrow>
     allocator_ok sys \<and> order_ok iter \<and>
     (\<exists>config m0. config_ok config \<and> manager_new sys config = Some m0 \<and> mgr_reach sys iter m0 m)"

lemma mgr_state_inv:
  assumes "mgr_state sys iter m" shows "mgr_inv m"
proof -
  obtain config m0 where ok: "allocator_ok sys" "order_ok iter"
    and config: "config_ok config" "manager_new sys config = Some m0" "mgr_reach sys iter m0 m"
    using assms by (auto simp: mgr_state_def)
  obtain c0 c1 c2 c3 where c: "mc_pool_configs config = (c0, c1, c2, c3)"
    by (cases "mc_pool_configs config") auto
  from manager_new_inv(1) [OF ok(1) c _ _ config(2)] config(1) c have "mgr_inv m0"
    by (simp add: config_ok_def)
  from mgr_reach_inv [OF config(3) this ok] show ?thesis .
qed

lemma mgr_state_call:
  "mgr_state sys iter m \<Longrightarrow> op_ok m op \<Longrightarrow> mgr_call sys iter m op = Some (res, m') \<Longrightarrow>
   mgr_state sys iter m'"
  unfolding mgr_state_def by (blast intro: mgr_reach.call)

lemma mgr_state_spec:
  assumes "mgr_state sys iter m" and "op_ok m op" and "mgr_call sys iter m op = Some (res, m')"
  shows "spec_call (m_view m) op res (m_view m')"
  using mgr_call_refines [OF mgr_state_inv [OF assms(1)] assms(2), of sys iter] assms
  by (auto simp: mgr_state_def)

section \<open>A concrete manager\<close>

text \<open>
  An allocator with two blocks, hash sets walked in the order of the identifiers, and a manager
  whose pools are empty, so that every buffer comes from the allocator.
\<close>

definition demo_sys :: sys_alloc where
  "demo_sys h n = (if h 0 = None then Some 0 else if h 1 = None then Some 1 else None)"

definition demo_iter :: set_order where
  "demo_iter S = sorted_list_of_set S"

definition demo_config :: manager_config where
  "demo_config =
     \<lparr>mc_table_capacity = 2,
      mc_pool_configs =
        (\<lparr>tc_tier = Small, tc_pool_size = 0, tc_preallocate = False\<rparr>,
         \<lparr>tc_tier = Medium, tc_pool_size = 0, tc_preallocate = False\<rparr>,
         \<lparr>tc_tier = Large, tc_pool_size = 0, tc_preallocate = False\<rparr>,
         \<lparr>tc_tier = Huge, tc_pool_size = 0, tc_preallocate = False\<rparr>),
      mc_default_budget_bytes = 1000\<rparr>"

definition demo_start :: manager where
  "demo_start = the (manager_new demo_sys demo_config)"

fun demo_run :: "manager \<Rightarrow> mgr_op list \<Rightarrow> manager option" where
  "demo_run m [] = Some m"
| "demo_run m (op # ops) =
     (if op_ok m op then
        (case mgr_call demo_sys demo_iter m op of None \<Rightarrow> None | Some (_, m') \<Rightarrow> demo_run m' ops)
      else None)"

abbreviation demo_ops :: "mgr_op list" where
  "demo_ops \<equiv>
     [RegisterComponent (ComponentId 7) None,
      Allocate (Component (ComponentId 7)) 10 (FlowId 1) 0,
      Allocate Host 20 (FlowId 2) 0,
      WritePayload (BufferHandle (ResourceId 0 1)) (Component (ComponentId 7)) 2 [5, 6] (FlowId 1)]"

definition demo_manager :: manager where
  "demo_manager = the (demo_run demo_start demo_ops)"

lemma demo_sys_ok: "allocator_ok demo_sys"
  by (auto simp: allocator_ok_def demo_sys_def split: if_splits)

lemma demo_iter_ok: "order_ok demo_iter"
  by (simp add: order_ok_def demo_iter_def)

lemma demo_start_new: "manager_new demo_sys demo_config = Some demo_start"
  by (simp add: demo_start_def manager_new_def demo_config_def table_new_def pool_set_new_def
      tier_pool_new_def Let_def)

lemma demo_start_eq: "demo_start =
 \<lparr>m_table =
       \<lparr>t_entries = [Vacant 1 0, Vacant link_end 0], t_free_head = 0,
          t_len = 0, t_capacity = 2\<rparr>,
       m_component_resources = \<lambda>x. None, m_flow_resources = \<lambda>x. None,
       m_pools =
         \<lparr>ps_small =
            \<lparr>tp_tier = Small, tp_buffers = [],
               tp_free_top = make_head 0 link_end, tp_pool_size = 0,
               tp_available = 0, tp_alloc_count = 0, tp_return_count = 0,
               tp_fallback_count = 0, tp_exhaustion_count = 0\<rparr>,
            ps_medium =
              \<lparr>tp_tier = Medium, tp_buffers = [],
                 tp_free_top = make_head 0 link_end, tp_pool_size = 0,
                 tp_available = 0, tp_alloc_count = 0, tp_return_count = 0,
                 tp_fallback_count = 0, tp_exhaustion_count = 0\<rparr>,
            ps_large =
              \<lparr>tp_tier = Large, tp_buffers = [],
                 tp_free_top = make_head 0 link_end, tp_pool_size = 0,
                 tp_available = 0, tp_alloc_count = 0, tp_return_count = 0,
                 tp_fallback_count = 0, tp_exhaustion_count = 0\<rparr>,
            ps_huge =
              \<lparr>tp_tier = Huge, tp_buffers = [],
                 tp_free_top = make_head 0 link_end, tp_pool_size = 0,
                 tp_available = 0, tp_alloc_count = 0, tp_return_count = 0,
                 tp_fallback_count = 0, tp_exhaustion_count = 0\<rparr>\<rparr>,
       m_budgets = registry_new 1000, m_ledger = \<lambda>x. None, m_events = [],
       m_heap = \<lambda>x. None\<rparr>"
  by (simp add: demo_start_def manager_new_def demo_config_def table_new_def pool_set_new_def
      tier_pool_new_def Let_def vacant_run_def upt_rec)

lemma demo_run_reach:
  "mgr_reach demo_sys demo_iter m0 m \<Longrightarrow> demo_run m ops = Some m' \<Longrightarrow>
   mgr_reach demo_sys demo_iter m0 m'"
proof (induction ops arbitrary: m)
  case Nil
  then show ?case by simp
next
  case (Cons op ops)
  then obtain res m1 where "op_ok m op" "mgr_call demo_sys demo_iter m op = Some (res, m1)"
    "demo_run m1 ops = Some m'" by (auto split: if_splits option.splits)
  with Cons show ?case by (blast intro: mgr_reach.call)
qed

lemmas demo_eval =
  demo_start_eq mgr_call_def mgr_allocate_def max_buffer_size_def tier_for_capacity_def
  pool_allocate_def Let_def registry_try_reserve_def registry_new_def budget_try_reserve_def
  tier_pop_def alloc_buffer_def demo_sys_def table_insert_def table_take_slot_def new_entry_def
  index_insert_def registry_register_def mgr_register_component_def budget_new_def index_set_def
  mgr_write_payload_def table_get_def buf_write_payload_def table_set_def u32_as_u64_def
  link_end_def mgr_record_copy_def ledger_record_copy_def max_def splice_def

lemma demo_run_eq: "demo_run demo_start demo_ops = Some demo_manager"
proof -
  have "demo_run demo_start demo_ops \<noteq> None" by (simp add: demo_eval)
  then show ?thesis by (auto simp: demo_manager_def)
qed

lemma demo_views:
  "m_view demo_manager (ResourceId 0 1) =
     Some \<lparr>v_owner = Component (ComponentId 7), v_borrows = 0, v_data = [0, 0, 5, 6],
           v_capacity = 256, v_flow = FlowId 1, v_content_type = ct_empty\<rparr>"
  "m_view demo_manager (ResourceId 1 1) =
     Some \<lparr>v_owner = Host, v_borrows = 0, v_data = [], v_capacity = 256, v_flow = FlowId 2,
           v_content_type = ct_empty\<rparr>"
  by (simp_all add: demo_manager_def demo_eval m_view_def m_abs_def table_abs_def entry_view_def
      payload_bytes_def) (simp add: numeral_2_eq_2)

lemma demo_reach: "mgr_reach demo_sys demo_iter demo_start demo_manager"
  by (rule demo_run_reach [OF mgr_reach.start demo_run_eq])

lemma demo_state: "mgr_state demo_sys demo_iter demo_manager"
  using demo_sys_ok demo_iter_ok demo_start_new demo_reach
  by (auto simp: mgr_state_def config_ok_def configs_in_order_def demo_config_def
      intro!: exI [of _ demo_config])

lemma demo_live:
  "\<exists>e. m_abs demo_manager (ResourceId 0 1) = Some e \<and> e_owner e = Component (ComponentId 7) \<and>
       e_flow_id e = FlowId 1"
  "\<exists>e. m_abs demo_manager (ResourceId 1 1) = Some e \<and> e_owner e = Host \<and> e_flow_id e = FlowId 2"
  using demo_views by (auto simp: m_view_def entry_view_def)

fun op_target :: "mgr_op \<Rightarrow> buffer_handle option" where
  "op_target (Release h c) = Some h"
| "op_target (TransferOwnership h a b) = Some h"
| "op_target (BorrowStart h c) = Some h"
| "op_target (BorrowEnd h c) = Some h"
| "op_target (ReadPayload h c off len f) = Some h"
| "op_target (WritePayload h c off data f) = Some h"
| "op_target (SetContentType h c ct) = Some h"
| "op_target _ = None"

text \<open>The calls that need exclusive ownership, with the owner they are made for.\<close>

fun op_exclusive :: "mgr_op \<Rightarrow> (buffer_handle \<times> owner_id) option" where
  "op_exclusive (Release h c) = Some (h, c)"
| "op_exclusive (TransferOwnership h a b) = Some (h, a)"
| "op_exclusive (WritePayload h c off data f) = Some (h, c)"
| "op_exclusive _ = None"

lemma spec_call_frame:
  "spec_call vs op res vs' \<Longrightarrow> op_target op = Some h \<Longrightarrow> r \<noteq> bh_resource_id h \<Longrightarrow> vs' r = vs r"
  by (induction rule: spec_call.induct) auto

lemma spec_call_exclusive:
  "spec_call vs op res vs' \<Longrightarrow> op_exclusive op = Some (h, c) \<Longrightarrow> res = RUnit \<Longrightarrow>
   idle_with c (vs (bh_resource_id h))"
  by (induction rule: spec_call.induct) auto

lemma demo_start_state: "mgr_state demo_sys demo_iter demo_start"
  using demo_sys_ok demo_iter_ok demo_start_new mgr_reach.start
  by (auto simp: mgr_state_def config_ok_def configs_in_order_def demo_config_def
      intro!: exI [of _ demo_config])

section \<open>Properties\<close>

text \<open>
  C1. Every call of the manager, in every state a program can reach, is free of undefined
  behaviour and of panics and returns a result and a state that the abstract contract
  \<open>spec_call\<close> allows: the pools, the heap, the slab and the indices implement a map from
  handles to owned byte buffers.
\<close>

theorem manager_implements_contract:
  assumes "mgr_state sys iter m" and "op_ok m op"
  shows "\<exists>res m'. mgr_call sys iter m op = Some (res, m') \<and> mgr_state sys iter m' \<and>
           spec_call (m_view m) op res (m_view m')"
  using mgr_call_refines [OF mgr_state_inv [OF assms(1)] assms(2), of sys iter] assms
    mgr_state_call [OF assms] by (auto simp: mgr_state_def)

theorem manager_implements_contract_witness:
  "\<exists>res m'. mgr_call demo_sys demo_iter demo_manager (ForceReclaim (ComponentId 7)) = Some (res, m') \<and>
     mgr_state demo_sys demo_iter m' \<and>
     spec_call (m_view demo_manager) (ForceReclaim (ComponentId 7)) res (m_view m')"
  by (rule manager_implements_contract [OF demo_state]) simp

text \<open>
  C2. No two live resources share memory, and the buffer of a live resource is always an
  allocated block with room for its header and its full capacity.
\<close>

theorem live_buffers_disjoint:
  assumes "mgr_state sys iter m" and "m_abs m r = Some e" and "m_abs m r' = Some e'" and "r \<noteq> r'"
  shows "e_buffer_ptr e \<noteq> e_buffer_ptr e' \<and>
         block_of_size (m_heap m) (e_buffer_ptr e) (64 + unat (e_payload_capacity e)) \<and>
         block_of_size (m_heap m) (e_buffer_ptr e') (64 + unat (e_payload_capacity e'))"
proof -
  note inv = mgr_state_inv [OF assms(1)]
  from mgr_other_ptr [OF inv assms(3,2,4)]
    entry_ok_block [OF mgr_entry_ok [OF inv assms(2)]] entry_ok_block [OF mgr_entry_ok [OF inv assms(3)]]
  show ?thesis by simp
qed

theorem live_buffers_disjoint_witness:
  "\<exists>e e'. m_abs demo_manager (ResourceId 0 1) = Some e \<and> m_abs demo_manager (ResourceId 1 1) = Some e' \<and>
     e_buffer_ptr e \<noteq> e_buffer_ptr e'"
  using live_buffers_disjoint [OF demo_state, of "ResourceId 0 1" _ "ResourceId 1 1"] demo_live by auto



text \<open>
  C4. A registered component never holds more buffer capacity than its limit: the capacities
  of the live resources it owns add up to at most the bytes booked on its account, and those
  are within the limit.
\<close>

theorem component_within_budget:
  assumes "mgr_state sys iter m" and "account (m_budgets m) c = Some (used, limit)"
  shows "(\<Sum>r \<in> {r. \<exists>v. m_view m r = Some v \<and> v_owner v = Component c}.
            v_capacity (the (m_view m r))) \<le> used \<and> used \<le> limit"
proof -
  note cov = mgr_invD(6) [OF mgr_state_inv [OF assms(1)]]
  let ?S = "{r. \<exists>v. m_view m r = Some v \<and> v_owner v = Component c}"
  have "(\<Sum>r \<in> ?S. v_capacity (the (m_view m r))) = (\<Sum>r \<in> ?S. entry_weight c (m_abs m r))"
    by (rule sum.cong) (auto simp: m_view_def entry_view_def entry_weight_def)
  also have "\<dots> = owned_bytes (m_abs m) c"
    unfolding owned_bytes_def
    by (rule sum.mono_neutral_left)
      (auto simp: m_view_def entry_view_def entry_weight_def split: option.split)
  finally show ?thesis
    using cov assms(2) budget.within [of "m_budgets m" c used limit] by (auto simp: budget_covers_def)
qed

theorem component_within_budget_witness:
  "account (m_budgets demo_manager) (ComponentId 7) = Some (256, 1000) \<and>
   (\<Sum>r \<in> {r. \<exists>v. m_view demo_manager r = Some v \<and> v_owner v = Component (ComponentId 7)}.
      v_capacity (the (m_view demo_manager r))) \<le> 256"
proof -
  have acc: "account (m_budgets demo_manager) (ComponentId 7) = Some (256, 1000)"
    by (simp add: demo_manager_def demo_eval account_def)
  from component_within_budget [OF demo_state acc] acc show ?thesis by simp
qed

text \<open>
  C5. Isolation: a call that names a handle leaves the owner, the readers, the bytes, the flow
  and the content type of every other resource as they were, whatever it returns.
\<close>

theorem call_touches_only_its_handle:
  assumes "mgr_state sys iter m" and "op_ok m op" and "mgr_call sys iter m op = Some (res, m')"
    and "op_target op = Some h" and "r \<noteq> bh_resource_id h"
  shows "m_view m' r = m_view m r"
  by (rule spec_call_frame [OF mgr_state_spec [OF assms(1-3)] assms(4,5)])

theorem call_touches_only_its_handle_witness:
  "\<exists>res m'. mgr_call demo_sys demo_iter demo_manager (Release (BufferHandle (ResourceId 1 1)) Host) =
      Some (res, m') \<and> m_view m' (ResourceId 0 1) = m_view demo_manager (ResourceId 0 1)"
proof -
  let ?op = "Release (BufferHandle (ResourceId 1 1)) Host"
  obtain res m' where c: "mgr_call demo_sys demo_iter demo_manager ?op = Some (res, m')"
    using mgr_call_refines [OF mgr_state_inv [OF demo_state] _ demo_sys_ok demo_iter_ok, of ?op] by auto
  from call_touches_only_its_handle [OF demo_state _ c, of _ "ResourceId 0 1"] c show ?thesis by simp
qed

text \<open>
  C6. Exclusive access: a release, a transfer or a write succeeds only for the current owner
  of the resource and only while nobody borrows it.
\<close>

theorem exclusive_calls_need_idle_owner:
  assumes "mgr_state sys iter m" and "op_ok m op" and "mgr_call sys iter m op = Some (RUnit, m')"
    and "op_exclusive op = Some (h, c)"
  shows "\<exists>v. m_view m (bh_resource_id h) = Some v \<and> v_owner v = c \<and> v_borrows v = 0"
  using spec_call_exclusive [OF mgr_state_spec [OF assms(1-3)] assms(4) refl]
  by (simp add: idle_with_def)

theorem exclusive_calls_need_idle_owner_witness:
  "\<exists>m'. mgr_call demo_sys demo_iter demo_manager (Release (BufferHandle (ResourceId 1 1)) Host) =
      Some (RUnit, m') \<and>
   (\<exists>v. m_view demo_manager (ResourceId 1 1) = Some v \<and> v_owner v = Host \<and> v_borrows v = 0)"
proof -
  let ?op = "Release (BufferHandle (ResourceId 1 1)) Host"
  obtain res m' where c: "mgr_call demo_sys demo_iter demo_manager ?op = Some (res, m')"
    using mgr_call_refines [OF mgr_state_inv [OF demo_state] _ demo_sys_ok demo_iter_ok, of ?op] by auto
  from mgr_state_spec [OF demo_state _ c] demo_views(2) have "res = RUnit"
    by (auto elim!: spec_callE simp: idle_with_def)
  with exclusive_calls_need_idle_owner [OF demo_state _ c [unfolded this]] c show ?thesis by auto
qed

text \<open>
  Read your writes: after a successful write, reading the same range returns the bytes
  written, to whoever reads, and changes nothing.
\<close>

theorem read_after_write:
  assumes st: "mgr_state sys iter m" and len: "length data < 9223372036854775808"
    and w: "mgr_call sys iter m (WritePayload h c off data f) = Some (RUnit, m1)"
  shows "\<exists>m2. mgr_call sys iter m1 (ReadPayload h c' off (of_nat (length data)) f') =
           Some (RBytes data, m2) \<and> m_view m2 = m_view m1"
proof -
  let ?r = "bh_resource_id h" and ?n = "of_nat (length data) :: u32"
  have ok: "op_ok m (WritePayload h c off data f)" using len by simp
  note st1 = mgr_state_call [OF st ok w]
  obtain v where v: "m_view m ?r = Some v" "unat off + length data \<le> v_capacity v"
    "m_view m1 ?r = Some (v\<lparr>v_data := overwrite (v_data v) (unat off) data\<rparr>)"
    using mgr_state_spec [OF st ok w] by (auto elim!: spec_callE)
  obtain e where "m_abs m ?r = Some e" "v_capacity v = unat (e_payload_capacity e)"
    using v(1) by (auto simp: m_view_def entry_view_def)
  then have "v_capacity v \<le> 16777216"
    using mgr_entry_ok [OF mgr_state_inv [OF st]] by (simp add: entry_ok_def)
  with v(2) have n: "unat ?n = length data" by simp
  have read: "take (length data) (drop (unat off) (overwrite (v_data v) (unat off) data)) = data"
    by (simp add: overwrite_def)
  obtain res m2 where r: "mgr_call sys iter m1 (ReadPayload h c' off ?n f') = Some (res, m2)"
    "spec_call (m_view m1) (ReadPayload h c' off ?n f') res (m_view m2)"
    using mgr_call_refines [OF mgr_state_inv [OF st1], of "ReadPayload h c' off ?n f'" sys iter] st
    by (auto simp: mgr_state_def)
  from r(2) have "res = RBytes data \<and> m_view m2 = m_view m1"
    by (rule spec_callE) (use v(3) n read in \<open>auto simp: length_overwrite\<close>)
  with r(1) show ?thesis by simp
qed

theorem read_after_write_witness:
  "\<exists>m1 m2. mgr_call demo_sys demo_iter demo_manager
        (WritePayload (BufferHandle (ResourceId 1 1)) Host 1 [9, 8] (FlowId 2)) = Some (RUnit, m1) \<and>
      mgr_call demo_sys demo_iter m1 (ReadPayload (BufferHandle (ResourceId 1 1)) Host 1 2 (FlowId 2)) =
        Some (RBytes [9, 8], m2)"
proof -
  let ?op = "WritePayload (BufferHandle (ResourceId 1 1)) Host 1 [9, 8] (FlowId 2)"
  obtain res m1 where c: "mgr_call demo_sys demo_iter demo_manager ?op = Some (res, m1)"
    using mgr_call_refines [OF mgr_state_inv [OF demo_state] _ demo_sys_ok demo_iter_ok, of ?op] by auto
  from mgr_state_spec [OF demo_state _ c] demo_views(2) have "res = RUnit"
    by (auto elim!: spec_callE simp: idle_with_def)
  from read_after_write [OF demo_state _ c [unfolded this], of Host "FlowId 2"] c this
  show ?thesis by auto
qed

text \<open>
  C7. A buffer that has just been allocated holds nothing of its earlier use: its whole
  payload, at least as large as asked for, reads as zero.
\<close>

theorem allocated_buffer_is_zero:
  assumes st: "mgr_state sys iter m" and owner: "owner \<noteq> Transit"
    and a: "mgr_call sys iter m (Allocate owner c f now) = Some (RHandle h, m')"
  shows "\<exists>e. m_abs m' (bh_resource_id h) = Some e \<and> e_owner e = owner \<and>
           unat c \<le> unat (e_payload_capacity e) \<and>
           payload_bytes (m_heap m') (e_buffer_ptr e) = replicate (unat (e_payload_capacity e)) 0"
proof -
  let ?r = "bh_resource_id h"
  have ok: "op_ok m (Allocate owner c f now)" using owner by simp
  note inv' = mgr_state_inv [OF mgr_state_call [OF st ok a]]
  have v: "m_view m' ?r = Some (fresh_view owner f c)"
    using mgr_state_spec [OF st ok a] by (auto elim!: spec_callE)
  then obtain e where e: "m_abs m' ?r = Some e" "entry_view (m_heap m') e = fresh_view owner f c"
    by (auto simp: m_view_def)
  note len = mgr_payload_length [OF inv' e(1)]
  have "e_owner e = owner" "unat c \<le> unat (e_payload_capacity e)" "unat (e_payload_len e) = 0"
    using e(2) len(3) by (auto simp: entry_view_def fresh_view_def max_def word_le_nat_alt)
  moreover from this(3) mgr_entry_ok [OF inv' e(1)]
  have "payload_bytes (m_heap m') (e_buffer_ptr e) = replicate (unat (e_payload_capacity e)) 0"
    by (intro nth_equalityI) (auto simp: len(1) entry_ok_def zero_tail_def)
  ultimately show ?thesis using e(1) by blast
qed

theorem allocated_buffer_is_zero_witness:
  "\<exists>m' e. mgr_call demo_sys demo_iter demo_start (Allocate Host 10 (FlowId 1) 0) =
      Some (RHandle (BufferHandle (ResourceId 0 1)), m') \<and> m_abs m' (ResourceId 0 1) = Some e \<and>
      payload_bytes (m_heap m') (e_buffer_ptr e) = replicate (unat (e_payload_capacity e)) 0"
proof -
  have "\<exists>m'. mgr_call demo_sys demo_iter demo_start (Allocate Host 10 (FlowId 1) 0) =
      Some (RHandle (BufferHandle (ResourceId 0 1)), m')"
    by (simp add: demo_eval)
  then obtain m' where c: "mgr_call demo_sys demo_iter demo_start (Allocate Host 10 (FlowId 1) 0) =
      Some (RHandle (BufferHandle (ResourceId 0 1)), m')" by blast
  from allocated_buffer_is_zero [OF demo_start_state _ c] c show ?thesis by auto
qed

text \<open>
  The reverse index is exact: \<open>resources_held_by\<close> lists the live resources a component
  owns, each of them once and nothing else.
\<close>

theorem held_by_is_exact:
  assumes "mgr_state sys iter m"
  shows "set (mgr_resources_held_by iter m c) =
           {r. \<exists>v. m_view m r = Some v \<and> v_owner v = Component c} \<and>
         distinct (mgr_resources_held_by iter m c)"
  using component_ids [OF mgr_state_inv [OF assms], of iter c] assms
  by (auto simp: mgr_state_def m_view_def entry_view_def)

theorem held_by_is_exact_witness:
  "ResourceId 0 1 \<in> set (mgr_resources_held_by demo_iter demo_manager (ComponentId 7)) \<and>
   ResourceId 1 1 \<notin> set (mgr_resources_held_by demo_iter demo_manager (ComponentId 7))"
  using held_by_is_exact [OF demo_state, of "ComponentId 7"] demo_views by simp

text \<open>
  \<open>force_reclaim\<close> takes back exactly the resources of the component, even borrowed ones:
  it reports each of them once, none of them is live afterwards, every other resource is
  unchanged, and the component has no account any more.
\<close>

theorem force_reclaim_exact:
  assumes "mgr_state sys iter m"
  shows "\<exists>out m'. mgr_force_reclaim iter m c = Some (out, m') \<and>
           set (map rr_resource_id out) = {r. \<exists>v. m_view m r = Some v \<and> v_owner v = Component c} \<and>
           distinct (map rr_resource_id out) \<and>
           (\<forall>r. m_view m' r =
              (case m_view m r of
                 None \<Rightarrow> None | Some v \<Rightarrow> if v_owner v = Component c then None else Some v)) \<and>
           account (m_budgets m') c = None"
proof -
  note inv = mgr_state_inv [OF assms]
  have iter: "order_ok iter" using assms by (simp add: mgr_state_def)
  let ?ids = "mgr_resources_held_by iter m c"
  let ?out = "map (\<lambda>r. reclaimed_of r (the (m_abs m r))) ?ids"
  have map_ids: "map rr_resource_id ?out = ?ids" by (simp add: reclaimed_of_def comp_def)
  note ids = component_ids [OF inv iter, of c]
  have set_ids: "set ?ids = {r. \<exists>v. m_view m r = Some v \<and> v_owner v = Component c}"
    unfolding ids(1) by (auto simp: m_view_def entry_view_def)
  obtain m' where m': "mgr_force_reclaim iter m c = Some (?out, m')"
    "m_view m' = keep_views (\<lambda>v. v_owner v \<noteq> Component c) (m_view m)" "account (m_budgets m') c = None"
    using mgr_force_reclaim_ok [OF inv iter, of c] by blast
  show ?thesis
    by (intro exI [of _ ?out] exI [of _ m'] conjI)
      (use m' set_ids ids(2) map_ids in \<open>auto simp: keep_views_def simp del: m_view_None split: option.split\<close>)
qed

theorem force_reclaim_exact_witness:
  "\<exists>out m'. mgr_force_reclaim demo_iter demo_manager (ComponentId 7) = Some (out, m') \<and>
     ResourceId 0 1 \<in> set (map rr_resource_id out) \<and> m_view m' (ResourceId 0 1) = None \<and>
     m_view m' (ResourceId 1 1) = m_view demo_manager (ResourceId 1 1)"
proof -
  from force_reclaim_exact [OF demo_state, of "ComponentId 7"] obtain out m'
    where "mgr_force_reclaim demo_iter demo_manager (ComponentId 7) = Some (out, m')"
      "set (map rr_resource_id out) = {r. \<exists>v. m_view demo_manager r = Some v \<and> v_owner v = Component (ComponentId 7)}"
      "\<forall>r. m_view m' r = (case m_view demo_manager r of None \<Rightarrow> None
         | Some v \<Rightarrow> if v_owner v = Component (ComponentId 7) then None else Some v)" by blast
  then show ?thesis using demo_views by (simp del: m_view_None set_map)
qed

text \<open>
  Tearing a flow down releases all its buffers and only those, and accounts for each as
  returned to a pool or deallocated.
\<close>

theorem release_flow_exact:
  assumes "mgr_state sys iter m"
  shows "\<exists>s m'. mgr_release_flow_resources iter m f = Some (Inr s, m') \<and>
           (\<forall>r. m_view m' r =
              (case m_view m r of None \<Rightarrow> None | Some v \<Rightarrow> if v_flow v = f then None else Some v)) \<and>
           frs_returned_to_pool s + frs_deallocated s =
             of_nat (card {r. \<exists>v. m_view m r = Some v \<and> v_flow v = f}) \<and>
           m_ledger m' f = None"
proof -
  obtain s m' where r: "mgr_reclaim_flow_buffers iter m f = Some (s, m')"
    "m_view m' = keep_views (\<lambda>v. v_flow v \<noteq> f) (m_view m)"
    "frs_returned_to_pool s + frs_deallocated s =
       of_nat (card {r. \<exists>v. m_view m r = Some v \<and> v_flow v = f})"
    using mgr_reclaim_flow_ok [OF mgr_state_inv [OF assms], of iter f] assms
    by (auto simp: mgr_state_def)
  let ?m = "m'\<lparr>m_ledger := snd (ledger_remove_flow (m_ledger m') f)\<rparr>"
  have "mgr_release_flow_resources iter m f = Some (Inr s, ?m)"
    using r(1) by (simp add: mgr_release_flow_resources_def)
  moreover have "m_ledger ?m f = None" by (simp add: ledger_remove_flow_def)
  ultimately show ?thesis
    using r(2,3) by (auto simp: mgr_ledger_irrelevant keep_views_def split: option.split simp del: m_view_None)
qed

theorem release_flow_exact_witness:
  "\<exists>s m'. mgr_release_flow_resources demo_iter demo_manager (FlowId 2) = Some (Inr s, m') \<and>
     m_view m' (ResourceId 1 1) = None \<and>
     m_view m' (ResourceId 0 1) = m_view demo_manager (ResourceId 0 1)"
proof -
  from release_flow_exact [OF demo_state, of "FlowId 2"] obtain s m'
    where "mgr_release_flow_resources demo_iter demo_manager (FlowId 2) = Some (Inr s, m')"
      "\<forall>r. m_view m' r = (case m_view demo_manager r of None \<Rightarrow> None
         | Some v \<Rightarrow> if v_flow v = FlowId 2 then None else Some v)" by blast
  then show ?thesis using demo_views by (simp del: m_view_None)
qed

text \<open>
  A transfer that fails because the caller does not own the resource still books its
  capacity on the account of the intended recipient: \<open>transfer_ownership\<close> reserves the
  recipient's budget first and has no way back.
\<close>

theorem failed_transfer_books_recipient:
  "\<exists>err m'. mgr_transfer_ownership demo_manager (BufferHandle (ResourceId 1 1))
        (Component (ComponentId 9)) (Component (ComponentId 7)) = (Inl err, m') \<and>
     account (m_budgets demo_manager) (ComponentId 7) = Some (256, 1000) \<and>
     account (m_budgets m') (ComponentId 7) = Some (512, 1000) \<and>
     m_view m' = m_view demo_manager"
proof -
  let ?h = "BufferHandle (ResourceId 1 1)"
  let ?from = "Component (ComponentId 9)" and ?to = "Component (ComponentId 7)"
  have no: "e_state e \<noteq> Owned \<or> e_owner e \<noteq> ?from \<or>
      (\<exists>err. reserve_for (m_budgets demo_manager) ?to (u32_as_u64 (e_payload_capacity e)) = Inl err)"
    if "m_abs demo_manager (bh_resource_id ?h) = Some e" for e
    using that demo_live(2) by auto
  obtain err m' where t: "mgr_transfer_ownership demo_manager ?h ?from ?to = (Inl err, m')"
    "m_view m' = m_view demo_manager"
    using mgr_transfer_refused [OF mgr_state_inv [OF demo_state] no] by blast
  have "account (m_budgets demo_manager) (ComponentId 7) = Some (256, 1000)"
    by (simp add: demo_manager_def demo_eval account_def)
  moreover have "account (m_budgets (snd (mgr_transfer_ownership demo_manager
      (BufferHandle (ResourceId 1 1)) (Component (ComponentId 9)) (Component (ComponentId 7)))))
      (ComponentId 7) = Some (512, 1000)"
    by (simp add: demo_manager_def demo_eval account_def mgr_transfer_ownership_def
        own_begin_transfer_def own_exclusive_check_def)
  ultimately show ?thesis using t by simp
qed

end
