(* ===== verification/Res_Props.thy ===== *)
theory Res_Props
  imports Res_Manager_Props
begin

text \<open>
  What the parts of \<open>torvyn-resources\<close> and \<open>torvyn-types\<close> guarantee on their own: the slab, the
  ownership transitions, the tiers, the content type, the copy accounting, and the flow
  lifecycle.
\<close>

section \<open>The slab\<close>

text \<open>
  C8. Stale handles are caught: once a resource is removed, its handle is refused by every
  later lookup, whatever is inserted, removed or changed in between, as long as fewer than
  \<open>2 ^ 32\<close> insertions follow (the generation counter has 32 bits).
\<close>

theorem stale_handle_refused:
  assumes "table_remove t h = Inr (e, t1)" and "table_run t1 ops = Some t2"
    and "length (filter is_insert ops) < 4294967296"
  shows "table_get t2 h = Inl (stale_handle h) \<or> table_get t2 h = Inl (not_allocated h)"
  using slab.rem_iff slot_aged_stale [OF slot_aged_run [OF slot_aged_removed [OF assms(1)] assms(2)]]
    assms(3) by simp

definition demo_entry :: resource_entry where
  "demo_entry = new_entry 0 Host (FlowId 0) 0 320 Small True 256"

definition demo_table :: resource_table where
  "demo_table = \<lparr>t_entries = [Occupied (demo_entry\<lparr>e_generation := 1\<rparr>)], t_free_head = link_end,
     t_len = 1, t_capacity = 1\<rparr>"

theorem stale_handle_refused_witness:
  "\<exists>e t1 t2. table_remove demo_table (BufferHandle (ResourceId 0 1)) = Inr (e, t1) \<and>
     table_run t1 [TInsert demo_entry] = Some t2 \<and>
     (table_get t2 (BufferHandle (ResourceId 0 1)) = Inl (stale_handle (BufferHandle (ResourceId 0 1))) \<or>
      table_get t2 (BufferHandle (ResourceId 0 1)) = Inl (not_allocated (BufferHandle (ResourceId 0 1))))"
proof -
  let ?h = "BufferHandle (ResourceId 0 1)"
  have "\<exists>e t1 t2. table_remove demo_table ?h = Inr (e, t1) \<and> table_run t1 [TInsert demo_entry] = Some t2"
    by (simp add: demo_table_def demo_entry_def table_remove_def table_insert_def table_take_slot_def
        link_end_def Let_def)
  then obtain e t1 t2 where r: "table_remove demo_table ?h = Inr (e, t1)"
    "table_run t1 [TInsert demo_entry] = Some t2" by blast
  from stale_handle_refused [OF r] r show ?thesis by auto
qed

text \<open>
  An insertion into a well-formed slab never hits an occupied slot and always returns: it
  gives an unused handle, adds exactly that entry and keeps every other one; it fails only when
  all slots are taken and the doubled capacity would not fit in 32 bits, and then changes nothing.
\<close>

theorem table_insert_contract:
  assumes "table_inv t"
  shows "(\<exists>err. table_insert t e = Some (Inl err, t) \<and> vacant_idx (t_entries t) = {} \<and>
             4294967296 \<le> 2 * unat (t_capacity t)) \<or>
         (\<exists>r t'. table_insert t e = Some (Inr r, t') \<and> table_inv t' \<and> table_abs t r = None \<and>
             table_abs t' = (table_abs t)(r \<mapsto> e\<lparr>e_generation := rid_generation r\<rparr>) \<and>
             unat (t_len t') = Suc (unat (t_len t)))"
  by (rule table_insert_cases [OF assms])

lemma demo_table_inv: "table_inv demo_table"
proof -
  have "occupied_idx (t_entries demo_table) = {0}" "vacant_idx (t_entries demo_table) = {}"
    by (auto simp: demo_table_def occupied_idx_def vacant_idx_def intro: gr0I)
  then show ?thesis
    by (auto simp: table_inv_def demo_table_def word_less_nat_alt intro!: exI [of _ "[]"])
qed

theorem table_insert_contract_witness:
  "\<exists>r t'. table_insert demo_table demo_entry = Some (Inr r, t') \<and> table_inv t' \<and>
     table_abs t' = (table_abs demo_table)(r \<mapsto> demo_entry\<lparr>e_generation := rid_generation r\<rparr>)"
  using table_insert_contract [OF demo_table_inv, of demo_entry] by (auto simp: demo_table_def)

section \<open>Ownership\<close>

text \<open>
  C9. The ownership operations implement exclusive ownership with counted readers: on an
  entry in order, each succeeds exactly when \<open>own_spec\<close> allows it and has the effect \<open>own_spec\<close>
  describes.
\<close>

theorem ownership_refines:
  assumes "entry_wf e" and "own_op_ok e op"
  shows "map_option own_abs (sum_to_option (own_step h e op)) = own_spec (own_abs e) op"
  by (rule own_step_abs [OF assms])

theorem ownership_refines_witness:
  "map_option own_abs (sum_to_option (own_step (BufferHandle (ResourceId 0 1)) demo_entry
     (OpBorrowStart (ComponentId 3)))) = own_spec (own_abs demo_entry) (OpBorrowStart (ComponentId 3))"
  by (rule ownership_refines) (simp_all add: demo_entry_def new_entry_def entry_wf_def)

text \<open>
  Every ownership operation that succeeds keeps the entry invariant of \<open>handle.rs\<close> (borrows
  exactly while \<open>Borrowed\<close>, owner \<open>Transit\<close> exactly while in transit) and moves the entry along the
  transition table of \<open>state.rs\<close>.
\<close>

theorem ownership_step_safe:
  assumes "own_step h e op = Inr e'" and "entry_wf e" and "own_op_ok e op"
  shows "entry_wf e' \<and> res_transition_to (e_state e) (e_state e') = Inr (e_state e')"
  using own_step_wf [OF assms] own_step_legal [OF assms(1)] by simp

theorem ownership_step_safe_witness:
  "\<exists>e'. own_step (BufferHandle (ResourceId 0 1)) demo_entry (OpBeginTransfer Host) = Inr e' \<and>
     entry_wf e' \<and> e_state e' = InTransit"
  using ownership_step_safe [of "BufferHandle (ResourceId 0 1)" demo_entry "OpBeginTransfer Host"]
  by (simp add: demo_entry_def new_entry_def entry_wf_def own_begin_transfer_Inr)

section \<open>Tiers and content types\<close>

text \<open>
  \<open>for_capacity\<close> picks the smallest tier whose buffers are large enough, and \<open>Huge\<close> when
  none is.
\<close>

theorem tier_for_capacity_least:
  "(tier_for_capacity c = Huge \<or> c \<le> tier_capacity (tier_for_capacity c)) \<and>
   (\<forall>t. tier_capacity t < tier_capacity (tier_for_capacity c) \<longrightarrow> tier_capacity t < c)"
proof (intro conjI allI impI)
  show "tier_for_capacity c = Huge \<or> c \<le> tier_capacity (tier_for_capacity c)"
    using tier_for_capacity_le by blast
  fix t assume "tier_capacity t < tier_capacity (tier_for_capacity c)"
  then show "tier_capacity t < c"
    by (cases t) (auto simp: tier_for_capacity_def not_le split: if_splits)
qed

theorem tier_for_capacity_least_witness:
  "tier_capacity Small < tier_capacity (tier_for_capacity 300) \<and> tier_capacity Small < (300 :: u32)"
  using tier_for_capacity_least [of 300] by (simp add: tier_for_capacity_def)

text \<open>
  A content type stored from a well-formed string reads back as a well-formed prefix of it,
  of at most 63 bytes, the longest that ends on a character boundary: a string that fits is kept
  whole, and at most three bytes below the limit are given up.
\<close>

theorem content_type_roundtrip:
  assumes "utf8_valid s"
  shows "utf8_valid (ct_as_str (ct_from_str s)) \<and>
         (\<exists>k. ct_as_str (ct_from_str s) = take k s \<and> k \<le> 63 \<and> k \<le> length s \<and>
              min (length s) 63 \<le> k + 3 \<and>
              (\<forall>j \<le> min (length s) 63. is_char_boundary s j \<longrightarrow> j \<le> k)) \<and>
         (length s \<le> 63 \<longrightarrow> ct_as_str (ct_from_str s) = s)"
proof -
  let ?n = "min (length s) 63" let ?k = "walk_back s ?n"
  note eq = ct_from_str_as_str [of s]
  obtain j where "j \<le> ?n" "?n \<le> j + 3" "is_char_boundary s j"
    using utf8_boundary_near [OF assms, of ?n] by auto
  then have "?n \<le> ?k + 3" using walk_back_greatest [of s j ?n] by simp
  moreover have "?k \<le> ?n" by (rule walk_back_le)
  moreover have "utf8_valid (take ?k s)"
    by (rule utf8_take_boundary [OF assms walk_back_boundary])
  moreover have "length s \<le> 63 \<longrightarrow> take ?k s = s"
    using walk_back_greatest [of s "length s" ?n] by (auto simp: is_char_boundary_def)
  ultimately show ?thesis
    unfolding eq by (auto intro!: exI [of _ ?k] walk_back_greatest)
qed

theorem content_type_roundtrip_witness:
  "utf8_valid (ct_as_str (ct_from_str (replicate 62 97 @ [195, 169]))) \<and>
   utf8_valid (replicate 62 97 @ [195, 169])"
proof -
  have tail: "utf8_valid ([195, 169] @ [])" by (rule utf8_app) (simp_all add: byte_in_def)
  have step: "utf8_valid (replicate n 97 @ [195, 169])" for n
  proof (induction n)
    case 0
    from tail show ?case by simp
  next
    case (Suc n)
    have "utf8_char [97]" by (simp add: byte_in_def)
    from utf8_app [OF this Suc] show ?case by simp
  qed
  from content_type_roundtrip [OF step [of 62]] step [of 62] show ?thesis by blast
qed

section \<open>The flow lifecycle\<close>

text \<open>
  A flow makes at most five transitions and never returns to a state; it ends exactly in the
  terminal states, and the only way to complete passes through validation, instantiation,
  running and draining.
\<close>

theorem flow_lifecycle:
  assumes "flow_run FlowCreated ts"
  shows "length ts \<le> 5 \<and> distinct (FlowCreated # ts) \<and>
         (FlowCompleted \<in> set ts \<longrightarrow>
            ts = [FlowValidated, FlowInstantiated, FlowRunning, FlowDraining, FlowCompleted]) \<and>
         (\<forall>s. flow_is_terminal s \<longleftrightarrow> (\<forall>t. \<exists>err. flow_transition_to s t = Inl err))"
proof -
  have "flow_is_terminal s \<longleftrightarrow> (\<forall>t. \<exists>err. flow_transition_to s t = Inl err)" for s
    unfolding flow_is_terminal_iff by (auto simp: flow_transition_to_def)
  then show ?thesis
    using flow_run_rank [OF assms] flow_run_distinct [OF assms] flow_run_completed [OF assms] by auto
qed

theorem flow_lifecycle_witness:
  "length [FlowValidated, FlowInstantiated, FlowRunning] \<le> 5 \<and>
   flow_run FlowCreated [FlowValidated, FlowInstantiated, FlowRunning] \<and>
   distinct [FlowCreated, FlowValidated, FlowInstantiated, FlowRunning]"
  using flow_lifecycle [of "[FlowValidated, FlowInstantiated, FlowRunning]"] by simp

end
