(* ===== verification/Rea_Control.thy ===== *)
theory Rea_Control
  imports Torvyn_Types
begin

text \<open>
  The parts of \<open>torvyn-reactor\<close> that control a flow: its errors (\<open>error.rs\<close>), the cancellation
  token (\<open>cancellation.rs\<close>), priorities, yielding and the fairness counters (\<open>fairness.rs\<close>), and
  the timeout and yield configuration (\<open>config.rs\<close>). Instants and durations are nanoseconds;
  the instant at which a method reads the clock is its argument \<open>now\<close>.
\<close>

type_synonym instant = nat
type_synonym duration = nat

section \<open>Errors\<close>

datatype flow_creation_error =
    InvalidTopology string
  | ComponentNotFound component_id
  | ContractMismatch component_id component_id string
  | CapabilityDenied component_id string
  | ReactorShuttingDown
  | CreationInternal string

datatype flow_error =
    ComponentError component_id process_error
  | FlowDeadlineExceeded duration duration
  | ComponentTimeout component_id duration
  | ResourceExhausted string
  | DrainTimeout duration
  | FlowInternal string

fun flow_error_component :: "flow_error \<Rightarrow> component_id option" where
  "flow_error_component (ComponentError c _) = Some c"
| "flow_error_component (ComponentTimeout c _) = Some c"
| "flow_error_component _ = None"

fun flow_error_kind :: "flow_error \<Rightarrow> process_error_kind" where
  "flow_error_kind (ComponentError _ e) = process_error_kind_of e"
| "flow_error_kind (ComponentTimeout _ _) = KindDeadlineExceeded"
| "flow_error_kind (FlowDeadlineExceeded _ _) = KindDeadlineExceeded"
| "flow_error_kind (ResourceExhausted _) = KindInternal"
| "flow_error_kind (DrainTimeout _) = KindInternal"
| "flow_error_kind (FlowInternal _) = KindInternal"

datatype error_policy = FailFast | Retry u32 duration | SkipElement | LogAndContinue

definition error_policy_default :: error_policy where
  "error_policy_default = FailFast"

section \<open>Cancellation\<close>

datatype cancellation_reason =
    OperatorRequest
  | FlowTimeout duration
  | DownstreamError component_id process_error
  | ResourceExhaustion string
  | SourceComplete

text \<open>
  The token: a flag and a reason that can be set once. Waking the waiters has no effect on the
  state of the token.
\<close>

record flow_cancellation =
  fc_cancelled :: bool
  fc_reason :: "cancellation_reason option"

definition cancellation_new :: flow_cancellation where
  "cancellation_new = \<lparr>fc_cancelled = False, fc_reason = None\<rparr>"

definition cancel :: "flow_cancellation \<Rightarrow> cancellation_reason \<Rightarrow> flow_cancellation" where
  "cancel c reason =
     \<lparr>fc_cancelled = True,
      fc_reason = (case fc_reason c of None \<Rightarrow> Some reason | Some r \<Rightarrow> Some r)\<rparr>"

definition is_cancelled :: "flow_cancellation \<Rightarrow> bool" where
  "is_cancelled c \<longleftrightarrow> fc_cancelled c"

definition cancellation_reason_of :: "flow_cancellation \<Rightarrow> cancellation_reason option" where
  "cancellation_reason_of c = fc_reason c"

text \<open>The flag and the reason go together, and the first reason is never replaced.\<close>

definition cancellation_wf :: "flow_cancellation \<Rightarrow> bool" where
  "cancellation_wf c \<longleftrightarrow> (fc_cancelled c \<longleftrightarrow> fc_reason c \<noteq> None)"

lemma cancellation_new_wf [simp]: "cancellation_wf cancellation_new"
  by (simp add: cancellation_wf_def cancellation_new_def)

lemma cancel_wf [simp]: "cancellation_wf (cancel c r)"
  by (auto simp: cancellation_wf_def cancel_def split: option.split)

lemma cancel_cancelled [simp]: "fc_cancelled (cancel c r)" "is_cancelled (cancel c r)"
  by (simp_all add: cancel_def is_cancelled_def)

lemma cancel_keeps_reason: "fc_reason c = Some r \<Longrightarrow> fc_reason (cancel c r') = Some r"
  by (simp add: cancel_def)

lemma cancel_fold_first:
  "cancellation_wf c \<Longrightarrow>
   fc_reason (fold (\<lambda>r c. cancel c r) rs c) =
     (case fc_reason c of Some r \<Rightarrow> Some r | None \<Rightarrow> (case rs of [] \<Rightarrow> None | r # _ \<Rightarrow> Some r))"
proof (induction rs arbitrary: c)
  case Nil
  then show ?case by (simp split: option.split)
next
  case (Cons r rs)
  from Cons.IH [OF cancel_wf [of c r]] show ?case by (simp add: cancel_def split: option.splits)
qed

section \<open>Priorities and yielding\<close>

datatype flow_priority = Background | Low | Normal | High | Critical

definition max_consecutive_elements_before_yield :: u64 where
  "max_consecutive_elements_before_yield = 256"

definition default_elements_per_yield :: u64 where
  "default_elements_per_yield = 32"

fun priority_elements_per_yield :: "flow_priority \<Rightarrow> u64" where
  "priority_elements_per_yield Critical = 128"
| "priority_elements_per_yield High = 64"
| "priority_elements_per_yield Normal = 32"
| "priority_elements_per_yield Low = 16"
| "priority_elements_per_yield Background = 8"

record yield_controller =
  yc_elements_since_yield :: u64
  yc_last_yield_at :: instant
  yc_elements_per_yield :: u64
  yc_time_quantum :: duration

definition yield_new :: "instant \<Rightarrow> u64 \<Rightarrow> duration \<Rightarrow> yield_controller" where
  "yield_new now elements_per_yield time_quantum =
     \<lparr>yc_elements_since_yield = 0, yc_last_yield_at = now,
      yc_elements_per_yield = min elements_per_yield max_consecutive_elements_before_yield,
      yc_time_quantum = time_quantum\<rparr>"

definition yield_record_element :: "yield_controller \<Rightarrow> yield_controller" where
  "yield_record_element y = y\<lparr>yc_elements_since_yield := yc_elements_since_yield y + 1\<rparr>"

definition should_yield :: "yield_controller \<Rightarrow> instant \<Rightarrow> bool" where
  "should_yield y now \<longleftrightarrow>
     yc_elements_per_yield y \<le> yc_elements_since_yield y \<or>
     yc_time_quantum y \<le> now - yc_last_yield_at y"

definition yield_reset :: "yield_controller \<Rightarrow> instant \<Rightarrow> yield_controller" where
  "yield_reset y now = y\<lparr>yc_elements_since_yield := 0, yc_last_yield_at := now\<rparr>"

text \<open>Between two yields there are always fewer elements than the controller allows.\<close>

definition yield_wf :: "yield_controller \<Rightarrow> bool" where
  "yield_wf y \<longleftrightarrow>
     0 < yc_elements_per_yield y \<and>
     yc_elements_per_yield y \<le> max_consecutive_elements_before_yield \<and>
     yc_elements_since_yield y < yc_elements_per_yield y"

lemma yield_new_wf: "0 < n \<Longrightarrow> yield_wf (yield_new now n q)"
  by (simp add: yield_wf_def yield_new_def max_consecutive_elements_before_yield_def)

lemma priority_pos: "0 < priority_elements_per_yield p"
  by (cases p) simp_all

text \<open>One round of the driver: count the element and yield when it is time to.\<close>

definition yield_round :: "yield_controller \<Rightarrow> instant \<Rightarrow> bool \<times> yield_controller" where
  "yield_round y now =
     (let y1 = yield_record_element y
      in if should_yield y1 now then (True, yield_reset y1 now) else (False, y1))"

lemma yield_round_wf: "yield_wf y \<Longrightarrow> yield_wf (snd (yield_round y now))"
  by (auto simp: yield_round_def yield_wf_def yield_record_element_def yield_reset_def
      should_yield_def Let_def not_le)

section \<open>Fairness counters\<close>

record fairness_monitor =
  fm_total_cpu_time :: duration
  fm_total_elements :: u64
  fm_total_yields :: u64
  fm_total_fuel_consumed :: u64
  fm_elements_per_yield :: u64

definition fairness_new :: "flow_priority \<Rightarrow> fairness_monitor" where
  "fairness_new priority =
     \<lparr>fm_total_cpu_time = 0, fm_total_elements = 0, fm_total_yields = 0,
      fm_total_fuel_consumed = 0, fm_elements_per_yield = priority_elements_per_yield priority\<rparr>"

definition fairness_record_processing :: "fairness_monitor \<Rightarrow> duration \<Rightarrow> fairness_monitor" where
  "fairness_record_processing f d =
     f\<lparr>fm_total_cpu_time := fm_total_cpu_time f + d, fm_total_elements := fm_total_elements f + 1\<rparr>"

definition fairness_record_fuel_consumed :: "fairness_monitor \<Rightarrow> u64 \<Rightarrow> fairness_monitor" where
  "fairness_record_fuel_consumed f fuel =
     f\<lparr>fm_total_fuel_consumed := fm_total_fuel_consumed f + fuel\<rparr>"

definition fairness_record_yield :: "fairness_monitor \<Rightarrow> fairness_monitor" where
  "fairness_record_yield f = f\<lparr>fm_total_yields := fm_total_yields f + 1\<rparr>"

text \<open>
  The divisor is cast to 32 bits first, so after \<open>2 ^ 32\<close> elements the method divides by zero
  and panics: the outer \<open>None\<close>.
\<close>

definition fairness_avg_processing_time :: "fairness_monitor \<Rightarrow> duration option option" where
  "fairness_avg_processing_time f =
     (if fm_total_elements f = 0 then Some None
      else let n = unat (ucast (fm_total_elements f) :: u32)
           in if n = 0 then None else Some (Some (fm_total_cpu_time f div n)))"

section \<open>Configuration\<close>

record timeout_config =
  to_flow_deadline :: "duration option"
  to_component_invocation_timeout :: duration
  to_drain_timeout :: duration
  to_cooperative_cancel_timeout :: duration

definition from_millis :: "nat \<Rightarrow> duration" where
  "from_millis ms = ms * 1000000"

definition timeout_config_default :: timeout_config where
  "timeout_config_default =
     \<lparr>to_flow_deadline = None, to_component_invocation_timeout = from_millis 5000,
      to_drain_timeout = from_millis 5000, to_cooperative_cancel_timeout = from_millis 1000\<rparr>"

record yield_config =
  ycfg_elements_per_yield :: u64
  ycfg_time_quantum :: duration

definition yield_config_default :: yield_config where
  "yield_config_default =
     \<lparr>ycfg_elements_per_yield = default_elements_per_yield, ycfg_time_quantum = 100 * 1000\<rparr>"

definition yield_config_validate :: "yield_config \<Rightarrow> string + unit" where
  "yield_config_validate y =
     (if ycfg_elements_per_yield y = 0 then Inl ''elements_per_yield must be > 0''
      else if max_consecutive_elements_before_yield < ycfg_elements_per_yield y then
        Inl (''elements_per_yield ('' @ decimal (unat (ycfg_elements_per_yield y)) @
             '') exceeds hard ceiling ('' @
             decimal (unat max_consecutive_elements_before_yield) @ '')'')
      else if ycfg_time_quantum y = 0 then Inl ''time_quantum must be > 0''
      else Inr ())"

end
