(* ===== verification/Rea_Topology.thy ===== *)
theory Rea_Topology
  imports Rea_Control
begin

text \<open>
  \<open>torvyn-reactor/src/topology.rs\<close>: the graph of a flow, its validation and the topological
  order in which the scheduler walks it. Indexing a vector out of range and decrementing a zero
  in-degree are panics, the value \<open>None\<close>; the lemmas show that a graph whose connections are in
  range never panics. Kahn's algorithm and the breadth-first search are loops over a worklist;
  their measures are the in-degrees left and the unvisited nodes.
\<close>

section \<open>Definitions\<close>

text \<open>The floating-point ratio of a stream is kept as its 64-bit pattern; nothing here reads it.\<close>

record stream_config =
  sc_capacity :: "usize option"
  sc_backpressure_policy :: "backpressure_policy option"
  sc_low_watermark_ratio :: "u64 option"

record stage_definition =
  sd_component_id :: component_id
  sd_role :: component_role
  sd_fuel_budget :: "u64 option"
  sd_config :: string

record stream_connection =
  sn_from_stage :: usize
  sn_to_stage :: usize
  sn_config :: stream_config

record flow_topology =
  ft_stages :: "stage_definition list"
  ft_connections :: "stream_connection list"

definition topology_empty :: flow_topology where
  "topology_empty = \<lparr>ft_stages = [], ft_connections = []\<rparr>"

definition edges :: "flow_topology \<Rightarrow> (nat \<times> nat) list" where
  "edges t = map (\<lambda>c. (sn_from_stage c, sn_to_stage c)) (ft_connections t)"

text \<open>The adjacency lists and in-degrees that the loop over the connections builds.\<close>

fun build_edges ::
    "nat list list \<Rightarrow> nat list \<Rightarrow> (nat \<times> nat) list \<Rightarrow> (nat list list \<times> nat list) option" where
  "build_edges out deg [] = Some (out, deg)"
| "build_edges out deg ((u, v) # es) =
     (if u < length out \<and> v < length deg
      then build_edges (out[u := out ! u @ [v]]) (deg[v := deg ! v + 1]) es
      else None)"

text \<open>The inner loop of Kahn's algorithm over the neighbours of a node.\<close>

fun relax :: "nat list \<Rightarrow> nat list \<Rightarrow> nat list \<Rightarrow> (nat list \<times> nat list) option" where
  "relax deg q [] = Some (deg, q)"
| "relax deg q (v # vs) =
     (if v < length deg \<and> 0 < deg ! v
      then relax (deg[v := deg ! v - 1]) (if deg ! v - 1 = 0 then q @ [v] else q) vs
      else None)"

lemma sum_list_decrement:
  "i < length xs \<Longrightarrow> 0 < xs ! i \<Longrightarrow> sum_list (xs[i := xs ! i - (1 :: nat)]) + 1 = sum_list xs"
  by (induction xs arbitrary: i) (auto simp: nth_Cons' split: nat.splits)

lemma relax_measure:
  "relax deg q vs = Some (deg', q') \<Longrightarrow> length q' + sum_list deg' \<le> length q + sum_list deg"
proof (induction deg q vs rule: relax.induct)
  case (2 deg q v vs)
  then have v: "v < length deg" "0 < deg ! v"
    and rest: "relax (deg[v := deg ! v - 1]) (if deg ! v - 1 = 0 then q @ [v] else q) vs = Some (deg', q')"
    by (auto split: if_splits)
  have "sum_list (deg[v := deg ! v - 1]) + 1 = sum_list deg"
    using v by (rule sum_list_decrement)
  with "2.IH" [OF _ rest] v show ?case by (auto split: if_splits)
qed simp

function kahn :: "nat list list \<Rightarrow> nat list \<Rightarrow> nat list \<Rightarrow> nat list \<Rightarrow> nat list option" where
  "kahn out deg [] order = Some order"
| "kahn out deg (u # q) order =
     (if u < length out then
        (case relax deg q (out ! u) of
           None \<Rightarrow> None
         | Some (deg', q') \<Rightarrow> kahn out deg' q' (order @ [u]))
      else None)"
  by pat_completeness auto

termination kahn
  by (relation "measure (\<lambda>(out, deg, q, order). length q + sum_list deg)")
    (auto dest: relax_measure)

definition initial_queue :: "nat list \<Rightarrow> nat list" where
  "initial_queue deg = filter (\<lambda>i. deg ! i = 0) [0..<length deg]"

definition topological_order :: "flow_topology \<Rightarrow> nat list option" where
  "topological_order t =
     (let n = length (ft_stages t)
      in Option.bind (build_edges (replicate n []) (replicate n 0) (edges t)) (\<lambda>(out, deg).
         kahn out deg (initial_queue deg) []))"

text \<open>The breadth-first search: mark and enqueue the neighbours not seen before.\<close>

fun mark_new :: "bool list \<Rightarrow> nat list \<Rightarrow> nat list \<Rightarrow> (bool list \<times> nat list) option" where
  "mark_new seen q [] = Some (seen, q)"
| "mark_new seen q (v # vs) =
     (if length seen \<le> v then None
      else if seen ! v then mark_new seen q vs
      else mark_new (seen[v := True]) (q @ [v]) vs)"

definition unseen :: "bool list \<Rightarrow> nat" where
  "unseen seen = length (filter Not seen)"

lemma unseen_mark: "v < length seen \<Longrightarrow> \<not> seen ! v \<Longrightarrow> Suc (unseen (seen[v := True])) = unseen seen"
  unfolding unseen_def by (induction seen arbitrary: v) (auto simp: nth_Cons' split: nat.splits)

lemma mark_new_measure:
  "mark_new seen q vs = Some (seen', q') \<Longrightarrow> length q' + unseen seen' = length q + unseen seen"
proof (induction seen q vs rule: mark_new.induct)
  case (2 seen q v vs)
  then show ?case using unseen_mark [of v seen] by (auto split: if_splits)
qed simp

function bfs :: "nat list list \<Rightarrow> bool list \<Rightarrow> nat list \<Rightarrow> bool list option" where
  "bfs out seen [] = Some seen"
| "bfs out seen (u # q) =
     (if u < length out then
        (case mark_new seen q (out ! u) of
           None \<Rightarrow> None
         | Some (seen', q') \<Rightarrow> bfs out seen' q')
      else None)"
  by pat_completeness auto

termination bfs
  by (relation "measure (\<lambda>(out, seen, q). length q + unseen seen)")
    (auto dest!: mark_new_measure)

section \<open>Validation\<close>

definition show_component :: "component_id \<Rightarrow> string" where
  "show_component c = ''component-'' @ decimal (unat (cid_as_u64 c))"

text \<open>The checks on the connections, in their order; the index counts from \<open>i\<close>.\<close>

fun check_connections :: "nat \<Rightarrow> nat \<Rightarrow> (nat \<times> nat) list \<Rightarrow> string option" where
  "check_connections n i [] = None"
| "check_connections n i ((u, v) # es) =
     (if n \<le> u \<or> n \<le> v then
        Some (''connection '' @ decimal i @ '' references out-of-bounds stage index (from='' @
              decimal u @ '', to='' @ decimal v @ '', stages='' @ decimal n @ '')'')
      else if u = v then
        Some (''connection '' @ decimal i @ '' is a self-loop on stage '' @ decimal u)
      else check_connections n (i + 1) es)"

text \<open>\<open>has_in\<close> and \<open>has_out\<close> say which stages have incoming and outgoing connections.\<close>

fun check_roles ::
    "(nat \<Rightarrow> bool) \<Rightarrow> (nat \<Rightarrow> bool) \<Rightarrow> nat \<Rightarrow> stage_definition list \<Rightarrow> string option" where
  "check_roles has_in has_out i [] = None"
| "check_roles has_in has_out i (s # ss) =
     (if sd_role s = Source \<and> has_in i then
        Some (''Source stage '' @ decimal i @ '' (component '' @ show_component (sd_component_id s) @
              '') has incoming connections'')
      else if sd_role s = Sink \<and> has_out i then
        Some (''Sink stage '' @ decimal i @ '' (component '' @ show_component (sd_component_id s) @
              '') has outgoing connections'')
      else check_roles has_in has_out (i + 1) ss)"

fun check_reachable :: "nat \<Rightarrow> bool list \<Rightarrow> stage_definition list \<Rightarrow> string option" where
  "check_reachable i (r # rs) (s # ss) =
     (if r then check_reachable (i + 1) rs ss
      else Some (''stage '' @ decimal i @ '' (component '' @ show_component (sd_component_id s) @
                 '') is not reachable from any source''))"
| "check_reachable i _ _ = None"

definition source_stages :: "flow_topology \<Rightarrow> nat list" where
  "source_stages t =
     filter (\<lambda>i. sd_role (ft_stages t ! i) = Source) [0..<length (ft_stages t)]"

definition topology_validate :: "flow_topology \<Rightarrow> (flow_creation_error + unit) option" where
  "topology_validate t =
     (let n = length (ft_stages t); err = (\<lambda>msg. Some (Inl (InvalidTopology msg)))
      in if n = 0 then err ''topology has no stages''
         else if \<not> (\<exists>s \<in> set (ft_stages t). sd_role s = Source) then
           err ''topology has no Source stage''
         else if \<not> (\<exists>s \<in> set (ft_stages t). sd_role s = Sink) then
           err ''topology has no Sink stage''
         else case check_connections n 0 (edges t) of
             Some msg \<Rightarrow> err msg
           | None \<Rightarrow>
               Option.bind (build_edges (replicate n []) (replicate n 0) (edges t)) (\<lambda>(out, deg).
               case check_roles (\<lambda>i. deg ! i \<noteq> 0) (\<lambda>i. out ! i \<noteq> []) 0 (ft_stages t) of
                 Some msg \<Rightarrow> err msg
               | None \<Rightarrow>
                   Option.bind (kahn out deg (initial_queue deg) []) (\<lambda>order.
                   if length order \<noteq> n then err ''topology contains a cycle''
                   else
                     Option.bind
                       (bfs out (map (\<lambda>s. sd_role s = Source) (ft_stages t)) (source_stages t))
                       (\<lambda>seen.
                          case check_reachable 0 seen (ft_stages t) of
                            Some msg \<Rightarrow> err msg
                          | None \<Rightarrow> Some (Inr ())))))"

section \<open>The loops in closed form\<close>

definition in_range :: "nat \<Rightarrow> (nat \<times> nat) list \<Rightarrow> bool" where
  "in_range n es \<longleftrightarrow> (\<forall>(u, v) \<in> set es. u < n \<and> v < n)"

definition succs :: "(nat \<times> nat) list \<Rightarrow> nat \<Rightarrow> nat list" where
  "succs es u = map snd (filter (\<lambda>e. fst e = u) es)"

definition preds :: "(nat \<times> nat) list \<Rightarrow> nat \<Rightarrow> nat list" where
  "preds es v = map fst (filter (\<lambda>e. snd e = v) es)"

definition out_of :: "nat \<Rightarrow> (nat \<times> nat) list \<Rightarrow> nat list list" where
  "out_of n es = map (succs es) [0..<n]"

definition deg_of :: "nat \<Rightarrow> (nat \<times> nat) list \<Rightarrow> nat list" where
  "deg_of n es = map (\<lambda>v. length (preds es v)) [0..<n]"

lemma set_succs [simp]: "v \<in> set (succs es u) \<longleftrightarrow> (u, v) \<in> set es"
  by (force simp: succs_def)

lemma set_preds [simp]: "u \<in> set (preds es v) \<longleftrightarrow> (u, v) \<in> set es"
  by (force simp: preds_def)

lemma preds_Nil [simp]: "preds es v = [] \<longleftrightarrow> (\<forall>u. (u, v) \<notin> set es)"
  using set_preds [of _ es v] by (metis empty_set list.set_intros(1) neq_Nil_conv emptyE)

lemma succs_Nil [simp]: "succs es u = [] \<longleftrightarrow> (\<forall>v. (u, v) \<notin> set es)"
  using set_succs [of _ es u] by (metis empty_set list.set_intros(1) neq_Nil_conv emptyE)

lemma count_succs: "count_list (succs es u) v = count_list es (u, v)"
  by (induction es) (auto simp: succs_def)

lemma in_range_simps [simp]:
  "in_range n []" "in_range n ((u, v) # es) \<longleftrightarrow> u < n \<and> v < n \<and> in_range n es"
  by (auto simp: in_range_def)

lemma in_rangeD: "in_range n es \<Longrightarrow> (u, v) \<in> set es \<Longrightarrow> u < n \<and> v < n"
  by (auto simp: in_range_def)

lemma build_edges_acc:
  "in_range n es \<Longrightarrow> length out = n \<Longrightarrow> length deg = n \<Longrightarrow>
   build_edges out deg es =
     Some (map (\<lambda>u. out ! u @ succs es u) [0..<n], map (\<lambda>v. deg ! v + length (preds es v)) [0..<n])"
proof (induction out deg es rule: build_edges.induct)
  case (1 out deg)
  then show ?case by (auto simp: succs_def preds_def intro!: nth_equalityI)
next
  case (2 out deg u v es)
  have r: "u < n" "v < n" "in_range n es" using "2.prems"(1) by simp_all
  have "build_edges (out[u := out ! u @ [v]]) (deg[v := deg ! v + 1]) es =
      Some (map (\<lambda>w. out[u := out ! u @ [v]] ! w @ succs es w) [0..<n],
            map (\<lambda>w. deg[v := deg ! v + 1] ! w + length (preds es w)) [0..<n])"
    using "2.IH" r "2.prems"(2,3) by simp
  moreover have "out[u := out ! u @ [v]] ! w @ succs es w = out ! w @ succs ((u, v) # es) w" for w
    using r "2.prems"(2) by (simp add: succs_def nth_list_update)
  moreover have "deg[v := deg ! v + 1] ! w + length (preds es w) = deg ! w + length (preds ((u, v) # es) w)"
    for w using r "2.prems"(3) by (simp add: preds_def nth_list_update)
  ultimately show ?case using r "2.prems"(2,3) by simp
qed

lemma build_edges_eq:
  assumes "in_range n es"
  shows "build_edges (replicate n []) (replicate n 0) es = Some (out_of n es, deg_of n es)"
proof -
  have "build_edges (replicate n []) (replicate n 0) es =
      Some (map (\<lambda>u. replicate n [] ! u @ succs es u) [0..<n],
            map (\<lambda>v. replicate n 0 ! v + length (preds es v)) [0..<n])"
    by (rule build_edges_acc) (use assms in simp_all)
  then show ?thesis by (simp add: out_of_def deg_of_def cong: map_cong)
qed

lemma relax_ok:
  assumes "\<And>v. v \<in> set vs \<Longrightarrow> v < length deg" and "\<And>v. v \<in> set vs \<Longrightarrow> count_list vs v \<le> deg ! v"
  shows "\<exists>deg' new. relax deg q vs = Some (deg', q @ new) \<and> length deg' = length deg \<and> distinct new \<and>
    (\<forall>v < length deg. deg' ! v = deg ! v - count_list vs v) \<and>
    set new = {v \<in> set vs. count_list vs v = deg ! v}"
  using assms
proof (induction deg q vs rule: relax.induct)
  case (2 deg q v vs)
  have c1: "count_list vs v + 1 \<le> deg ! v" using "2.prems"(2) [of v] by simp
  have v: "v < length deg" "0 < deg ! v" using "2.prems"(1) [of v] c1 by simp_all
  let ?deg = "deg[v := deg ! v - 1]" and ?q = "if deg ! v - 1 = 0 then q @ [v] else q"
  have cnt: "count_list vs w \<le> ?deg ! w" if "w \<in> set vs" for w
  proof (cases "w = v")
    case True
    with c1 v show ?thesis by simp
  next
    case False
    with "2.prems"(2) [of w] that show ?thesis by simp
  qed
  have ok: "v < length deg \<and> 0 < deg ! v" using v by simp
  have "\<exists>deg' new. relax ?deg ?q vs = Some (deg', ?q @ new) \<and> length deg' = length ?deg \<and> distinct new \<and>
      (\<forall>w < length ?deg. deg' ! w = ?deg ! w - count_list vs w) \<and>
      set new = {w \<in> set vs. count_list vs w = ?deg ! w}"
  proof (rule "2.IH" [OF ok])
    show "w < length ?deg" if "w \<in> set vs" for w using "2.prems"(1) [of w] that by simp
  qed (rule cnt)
  then obtain deg' new where IH:
    "relax ?deg ?q vs = Some (deg', ?q @ new)" "length deg' = length deg" "distinct new"
    "\<And>w. w < length deg \<Longrightarrow> deg' ! w = ?deg ! w - count_list vs w"
    "set new = {w \<in> set vs. count_list vs w = ?deg ! w}" by (elim exE conjE) (simp only: length_list_update)
  have deg': "deg' ! w = deg ! w - count_list (v # vs) w" if "w < length deg" for w
    using IH(4) [OF that] v(1) by (cases "w = v") simp_all
  have step: "relax deg q (v # vs) = Some (deg', ?q @ new)" using ok IH(1) by simp
  show ?case
  proof (cases "deg ! v = 1")
    case True
    have nv: "v \<notin> set vs" using c1 True by (simp add: count_list_0_iff)
    have mem: "w \<in> set new \<longleftrightarrow> w \<noteq> v \<and> w \<in> set vs \<and> count_list vs w = deg ! w" for w
      using IH(5) nv by (cases "w = v") simp_all
    have "set (v # new) = {w \<in> set (v # vs). count_list (v # vs) w = deg ! w}"
    proof (rule set_eqI)
      fix w
      show "w \<in> set (v # new) \<longleftrightarrow> w \<in> {w \<in> set (v # vs). count_list (v # vs) w = deg ! w}"
        using mem [of w] True nv by (cases "w = v") (simp_all add: count_notin)
    qed
    then show ?thesis
      using step IH(2,3) deg' True mem by (intro exI [of _ deg'] exI [of _ "v # new"]) simp
  next
    case False
    have mem: "w \<in> set new \<longleftrightarrow> w \<in> set (v # vs) \<and> count_list (v # vs) w = deg ! w" for w
    proof (cases "w = v")
      case True
      have "v \<in> set vs" if "count_list vs v + 1 = deg ! v"
        using that False by (metis count_notin add_0)
      with True v c1 IH(5) show ?thesis by simp linarith
    next
      case False
      with IH(5) show ?thesis by simp
    qed
    then have "set new = {w \<in> set (v # vs). count_list (v # vs) w = deg ! w}" by blast
    then show ?thesis
      using step IH(2,3) deg' False v by (intro exI [of _ deg'] exI [of _ new]) simp
  qed
qed simp

section \<open>Kahn's algorithm\<close>

text \<open>Every node of the list comes after all its predecessors.\<close>

definition forward :: "(nat \<times> nat) list \<Rightarrow> nat list \<Rightarrow> bool" where
  "forward es xs \<longleftrightarrow> (\<forall>i < length xs. \<forall>u. (u, xs ! i) \<in> set es \<longrightarrow> u \<in> set (take i xs))"

lemma forward_Nil [simp]: "forward es []"
  by (simp add: forward_def)

lemma forward_snoc:
  "forward es (xs @ [v]) \<longleftrightarrow> forward es xs \<and> (\<forall>u. (u, v) \<in> set es \<longrightarrow> u \<in> set xs)"
  unfolding forward_def by (auto simp: nth_append less_Suc_eq)

lemma forward_closed:
  assumes "forward es xs" and "v \<in> set xs" and "(u, v) \<in> set es"
  shows "u \<in> set xs"
proof -
  obtain i where "i < length xs" "xs ! i = v" using assms(2) by (auto simp: in_set_conv_nth)
  with assms(1,3) have "u \<in> set (take i xs)" by (auto simp: forward_def)
  then show ?thesis by (rule in_set_takeD)
qed

definition kahn_inv ::
    "nat \<Rightarrow> (nat \<times> nat) list \<Rightarrow> nat list \<Rightarrow> nat list \<Rightarrow> nat list \<Rightarrow> bool" where
  "kahn_inv n es deg q order \<longleftrightarrow>
     length deg = n \<and> distinct (order @ q) \<and> set (order @ q) \<subseteq> {..<n} \<and>
     (\<forall>v < n. deg ! v = length (filter (\<lambda>u. u \<notin> set order) (preds es v))) \<and>
     (\<forall>v < n. v \<in> set (order @ q) \<longleftrightarrow> deg ! v = 0) \<and> forward es order"

lemma kahn_inv_init:
  "in_range n es \<Longrightarrow> kahn_inv n es (deg_of n es) (initial_queue (deg_of n es)) []"
  by (auto simp: kahn_inv_def deg_of_def initial_queue_def)

lemma count_preds: "count_list (preds es v) u = count_list es (u, v)"
  by (induction es) (auto simp: preds_def)

lemma length_filter_remove:
  "P u \<Longrightarrow>
   length (filter (\<lambda>x. x \<noteq> u \<and> P x) xs) + count_list xs u = length (filter P xs)"
  by (induction xs) auto

lemma kahn_inv_step:
  assumes inv: "kahn_inv n es deg (u # q) order" and range: "in_range n es"
  shows "\<exists>deg' q'. u < n \<and> relax deg q (succs es u) = Some (deg', q') \<and>
           kahn_inv n es deg' q' (order @ [u])"
proof -
  have u: "u < n" "u \<notin> set order" "deg ! u = 0" and len: "length deg = n"
    and dist: "distinct (order @ u # q)" and sub: "set (order @ u # q) \<subseteq> {..<n}"
    and fwd: "forward es order"
    using inv by (auto simp: kahn_inv_def)
  have deg: "deg ! v = length (filter (\<lambda>x. x \<notin> set order) (preds es v))" if "v < n" for v
    using inv that by (simp add: kahn_inv_def)
  have ready: "v \<in> set (order @ u # q) \<longleftrightarrow> deg ! v = 0" if "v < n" for v
    using inv that by (simp add: kahn_inv_def)
  have split: "length (filter (\<lambda>x. x \<notin> set (order @ [u])) (preds es v)) + count_list (succs es u) v =
      deg ! v" if "v < n" for v
    using length_filter_remove [of "\<lambda>x. x \<notin> set order" u "preds es v"] u(2) deg [OF that]
    by (simp add: count_preds count_succs)
  have lt: "v < n" if "v \<in> set (succs es u)" for v using range that in_rangeD by fastforce
  have "\<exists>deg' new. relax deg q (succs es u) = Some (deg', q @ new) \<and> length deg' = length deg \<and> distinct new \<and>
    (\<forall>v < length deg. deg' ! v = deg ! v - count_list (succs es u) v) \<and>
    set new = {v \<in> set (succs es u). count_list (succs es u) v = deg ! v}"
    by (rule relax_ok) (use lt len split in fastforce)+
  then obtain deg' new where r: "relax deg q (succs es u) = Some (deg', q @ new)" "length deg' = n"
    "distinct new" and d': "\<And>v. v < n \<Longrightarrow> deg' ! v = deg ! v - count_list (succs es u) v"
    and new: "set new = {v \<in> set (succs es u). count_list (succs es u) v = deg ! v}"
    unfolding len by blast
  have deg': "deg' ! v = length (filter (\<lambda>x. x \<notin> set (order @ [u])) (preds es v))" if "v < n" for v
    using d' [OF that] split [OF that] by simp
  have fresh: "v < n" "deg ! v \<noteq> 0" if "v \<in> set new" for v
  proof -
    have "v \<in> set (succs es u)" "count_list (succs es u) v = deg ! v"
      using that new by (simp_all del: set_succs)
    then show "v < n" "deg ! v \<noteq> 0" using lt by (metis, metis count_list_0_iff)
  qed
  have new_iff: "v \<in> set new \<longleftrightarrow> count_list (succs es u) v = deg ! v \<and> deg ! v \<noteq> 0" for v
    unfolding new mem_Collect_eq by (metis count_list_0_iff)
  have "v \<in> set (order @ [u] @ q @ new) \<longleftrightarrow> deg' ! v = 0" if v: "v < n" for v
  proof -
    have "v \<in> set (order @ [u] @ q @ new) \<longleftrightarrow> v \<in> set (order @ u # q) \<or> v \<in> set new" by simp
    also have "\<dots> \<longleftrightarrow> deg ! v - count_list (succs es u) v = 0"
      unfolding ready [OF v] new_iff using split [OF v] by linarith
    finally show ?thesis using d' [OF v] by simp
  qed
  moreover have "distinct (order @ [u] @ q @ new)"
  proof -
    have "set new \<inter> set (order @ u # q) = {}" using fresh ready by blast
    with dist r(3) show ?thesis by auto
  qed
  moreover have "forward es (order @ [u])"
    using fwd u deg [of u] by (simp add: forward_snoc filter_empty_conv)
  ultimately have "kahn_inv n es deg' (q @ new) (order @ [u])"
    using r(2) deg' sub fresh by (auto simp: kahn_inv_def)
  with r(1) u(1) show ?thesis by blast
qed

lemma kahn_ok:
  assumes "kahn_inv n es deg q order" and "in_range n es"
  shows "\<exists>order' deg'. kahn (out_of n es) deg q order = Some order' \<and> kahn_inv n es deg' [] order'"
  using assms
proof (induction "out_of n es" deg q order rule: kahn.induct)
  case (2 deg u q order)
  obtain deg' q' where s: "u < n" "relax deg q (succs es u) = Some (deg', q')"
    "kahn_inv n es deg' q' (order @ [u])" using kahn_inv_step [OF "2.prems"] by blast
  have o: "out_of n es ! u = succs es u" "u < length (out_of n es)" using s(1) by (simp_all add: out_of_def)
  with "2.hyps" [of "(deg', q')" deg' q'] s "2.prems"(2) show ?case by simp
qed auto

text \<open>The nodes that never become ready form a set in which everyone has a predecessor.\<close>

lemma kahn_done_complete:
  assumes inv: "kahn_inv n es deg [] order" and range: "in_range n es" and acyc: "acyclic (set es)"
  shows "set order = {..<n}"
proof (rule ccontr)
  assume "set order \<noteq> {..<n}"
  with inv obtain v where v: "v \<in> {..<n} - set order" by (auto simp: kahn_inv_def)
  have "wf (set es)" using acyc by (simp add: finite_acyclic_wf)
  from wfE_min [OF this v] obtain z where z: "z \<in> {..<n} - set order"
    and min: "\<And>u. (u, z) \<in> set es \<Longrightarrow> u \<notin> {..<n} - set order" by metis
  have "deg ! z \<noteq> 0" using inv z by (auto simp: kahn_inv_def)
  moreover have "deg ! z = length (filter (\<lambda>u. u \<notin> set order) (preds es z))"
    using inv z by (auto simp: kahn_inv_def)
  ultimately have "filter (\<lambda>u. u \<notin> set order) (preds es z) \<noteq> []" by auto
  then obtain u where "u \<in> set (preds es z)" "u \<notin> set order"
    unfolding filter_empty_conv by blast
  with min [of u] in_rangeD [OF range, of u z] show False by simp
qed

lemma forward_acyclic:
  assumes fwd: "forward es order" and dist: "distinct order"
    and all: "\<And>u v. (u, v) \<in> set es \<Longrightarrow> v \<in> set order"
  shows "acyclic (set es)"
proof -
  have pos: "\<exists>i j. i < j \<and> j < length order \<and> order ! i = u \<and> order ! j = v" if "(u, v) \<in> set es" for u v
  proof -
    have "v \<in> set order" using that by (rule all)
    then obtain j where j: "j < length order" "order ! j = v" by (auto simp: in_set_conv_nth)
    with fwd that have "u \<in> set (take j order)" by (auto simp: forward_def)
    then obtain i where "i < length (take j order)" "take j order ! i = u" by (metis in_set_conv_nth)
    with j show ?thesis by (intro exI [of _ i] exI [of _ j]) auto
  qed
  have step: "\<exists>i j. i < j \<and> j < length order \<and> order ! i = u \<and> order ! j = v" if "(u, v) \<in> (set es)\<^sup>+" for u v
    using that
  proof (induction rule: trancl_induct)
    case (step v w)
    then obtain i j j' k where "i < j" "j < length order" "order ! i = u" "order ! j = v"
      "j' < k" "k < length order" "order ! j' = v" "order ! k = w" using pos [OF step.hyps(2)] by blast
    moreover from this dist have "j = j'"
      by (metis nth_eq_iff_index_eq order.strict_trans)
    ultimately show ?case by (metis order.strict_trans)
  qed (rule pos)
  show ?thesis
    unfolding acyclic_def using step dist by (metis nth_eq_iff_index_eq order.strict_trans nat_neq_iff)
qed

lemma topological_order_ok:
  assumes "in_range (length (ft_stages t)) (edges t)"
  obtains deg order where "topological_order t = Some order"
    "kahn_inv (length (ft_stages t)) (edges t) deg [] order"
  using kahn_ok [OF kahn_inv_init [OF assms] assms] assms
  by (auto simp: topological_order_def Let_def build_edges_eq)

section \<open>Breadth-first search\<close>

lemma mark_new_ok:
  "(\<And>v. v \<in> set vs \<Longrightarrow> v < length seen) \<Longrightarrow>
   \<exists>seen' new. mark_new seen q vs = Some (seen', q @ new) \<and> length seen' = length seen \<and>
     (\<forall>v < length seen. seen' ! v \<longleftrightarrow> seen ! v \<or> v \<in> set vs) \<and>
     (\<forall>v < length seen. v \<in> set new \<longleftrightarrow> \<not> seen ! v \<and> v \<in> set vs) \<and> set new \<subseteq> set vs"
proof (induction seen q vs rule: mark_new.induct)
  case (2 seen q v vs)
  have v: "v < length seen" "\<not> length seen \<le> v" using "2.prems" [of v] by simp_all
  show ?case
  proof (cases "seen ! v")
    case True
    with "2.IH"(1) [OF v(2) True] "2.prems" v obtain seen' new where
      "mark_new seen q vs = Some (seen', q @ new)" "length seen' = length seen"
      "\<forall>w < length seen. seen' ! w \<longleftrightarrow> seen ! w \<or> w \<in> set vs"
      "\<forall>w < length seen. w \<in> set new \<longleftrightarrow> \<not> seen ! w \<and> w \<in> set vs" "set new \<subseteq> set vs" by auto
    with v True show ?thesis by (intro exI [of _ seen'] exI [of _ new]) auto
  next
    case False
    with "2.IH"(2) [OF v(2) False] "2.prems" v obtain seen' new where
      "mark_new (seen[v := True]) (q @ [v]) vs = Some (seen', (q @ [v]) @ new)" "length seen' = length seen"
      "\<forall>w < length seen. seen' ! w \<longleftrightarrow> seen[v := True] ! w \<or> w \<in> set vs"
      "\<forall>w < length seen. w \<in> set new \<longleftrightarrow> \<not> seen[v := True] ! w \<and> w \<in> set vs" "set new \<subseteq> set vs" by auto
    with v False show ?thesis
      by (intro exI [of _ seen'] exI [of _ "v # new"]) (auto simp: nth_list_update)
  qed
qed simp

definition bfs_inv ::
    "nat \<Rightarrow> (nat \<times> nat) list \<Rightarrow> nat set \<Rightarrow> bool list \<Rightarrow> nat list \<Rightarrow> bool" where
  "bfs_inv n es start seen q \<longleftrightarrow>
     length seen = n \<and> set q \<subseteq> {..<n} \<and> (\<forall>v \<in> set q. seen ! v) \<and> (\<forall>v \<in> start. v < n \<and> seen ! v) \<and>
     (\<forall>v < n. seen ! v \<longrightarrow> v \<in> (set es)\<^sup>* `` start) \<and>
     (\<forall>u < n. seen ! u \<longrightarrow> u \<notin> set q \<longrightarrow> (\<forall>v. (u, v) \<in> set es \<longrightarrow> seen ! v))"

lemma bfs_inv_step:
  assumes inv: "bfs_inv n es start seen (u # q)" and range: "in_range n es"
  shows "\<exists>seen' q'. u < n \<and> mark_new seen q (succs es u) = Some (seen', q') \<and> bfs_inv n es start seen' q'"
proof -
  have u: "u < n" "seen ! u" "length seen = n" "u \<in> (set es)\<^sup>* `` start"
    using inv by (auto simp: bfs_inv_def)
  have "v < length seen" if "v \<in> set (succs es u)" for v
    using that in_rangeD [OF range, of u v] u(3) by simp
  from mark_new_ok [OF this, of "succs es u" q]
  obtain seen' new where m: "mark_new seen q (succs es u) = Some (seen', q @ new)" "length seen' = n"
    "\<And>v. v < n \<Longrightarrow> seen' ! v \<longleftrightarrow> seen ! v \<or> (u, v) \<in> set es"
    "\<And>v. v < n \<Longrightarrow> v \<in> set new \<longleftrightarrow> \<not> seen ! v \<and> (u, v) \<in> set es" "set new \<subseteq> set (succs es u)"
    using u(3) by auto
  have new: "(u, v) \<in> set es" if "v \<in> set new" for v using m(5) that by (metis set_succs subsetD)
  have reach: "v \<in> (set es)\<^sup>* `` start" if "(u, v) \<in> set es" for v
    using u(4) that by (auto intro: rtrancl_into_rtrancl)
  have "bfs_inv n es start seen' (q @ new)"
    unfolding bfs_inv_def
  proof (intro conjI)
    show "set (q @ new) \<subseteq> {..<n}" using inv new in_rangeD [OF range] by (force simp: bfs_inv_def)
    show "\<forall>v \<in> set (q @ new). seen' ! v"
    proof
      fix v assume "v \<in> set (q @ new)"
      then consider "v \<in> set q" | "v \<in> set new" by auto
      then show "seen' ! v"
      proof cases
        case 1
        with inv have "v < n" "seen ! v" by (auto simp: bfs_inv_def)
        with m(3) show ?thesis by simp
      next
        case 2
        from new [OF this] in_rangeD [OF range] m(3) show ?thesis by blast
      qed
    qed
    show "\<forall>v \<in> start. v < n \<and> seen' ! v" using inv m(3) by (simp add: bfs_inv_def)
    show "\<forall>v < n. seen' ! v \<longrightarrow> v \<in> (set es)\<^sup>* `` start" using inv m(3) reach by (simp add: bfs_inv_def)
    show "\<forall>w < n. seen' ! w \<longrightarrow> w \<notin> set (q @ new) \<longrightarrow> (\<forall>v. (w, v) \<in> set es \<longrightarrow> seen' ! v)"
    proof (intro allI impI)
      fix w v assume w: "w < n" "seen' ! w" "w \<notin> set (q @ new)" "(w, v) \<in> set es"
      have v: "v < n" using in_rangeD [OF range w(4)] by simp
      have old: "seen ! w" using w m(3,4) by auto
      show "seen' ! v"
      proof (cases "w = u")
        case True
        with w(4) m(3) [OF v] show ?thesis by simp
      next
        case False
        with old w inv have "seen ! v" by (simp add: bfs_inv_def)
        with m(3) [OF v] show ?thesis by simp
      qed
    qed
  qed (rule m(2))
  with m(1) u(1) show ?thesis by blast
qed

lemma bfs_ok:
  assumes "bfs_inv n es start seen q" and "in_range n es"
  shows "\<exists>seen'. bfs (out_of n es) seen q = Some seen' \<and> bfs_inv n es start seen' []"
  using assms
proof (induction "out_of n es" seen q rule: bfs.induct)
  case (2 seen u q)
  obtain seen' q' where s: "u < n" "mark_new seen q (succs es u) = Some (seen', q')"
    "bfs_inv n es start seen' q'" using bfs_inv_step [OF "2.prems"] by blast
  have o: "out_of n es ! u = succs es u" "u < length (out_of n es)" using s(1) by (simp_all add: out_of_def)
  with "2.hyps" [of "(seen', q')" seen' q'] s "2.prems"(2) show ?case by simp
qed auto

lemma bfs_done:
  assumes inv: "bfs_inv n es start seen []" and range: "in_range n es" and "v < n"
  shows "seen ! v \<longleftrightarrow> v \<in> (set es)\<^sup>* `` start"
proof
  assume "v \<in> (set es)\<^sup>* `` start"
  then obtain s where "s \<in> start" "(s, v) \<in> (set es)\<^sup>*" by blast
  from this(2) have "v < n \<and> seen ! v"
  proof (induction rule: rtrancl_induct)
    case base
    then show ?case using inv \<open>s \<in> start\<close> by (simp add: bfs_inv_def)
  next
    case (step x y)
    with inv in_rangeD [OF range step.hyps(2)] show ?case unfolding bfs_inv_def by auto
  qed
  then show "seen ! v" by simp
qed (use assms in \<open>simp add: bfs_inv_def\<close>)

section \<open>What validation accepts\<close>

definition sources :: "flow_topology \<Rightarrow> nat set" where
  "sources t = set (source_stages t)"

definition valid_topology :: "flow_topology \<Rightarrow> bool" where
  "valid_topology t \<longleftrightarrow>
     (let n = length (ft_stages t); E = set (edges t)
      in sources t \<noteq> {} \<and> (\<exists>s \<in> set (ft_stages t). sd_role s = Sink) \<and>
         in_range n (edges t) \<and>
         (\<forall>(u, v) \<in> E. sd_role (ft_stages t ! v) \<noteq> Source \<and> sd_role (ft_stages t ! u) \<noteq> Sink) \<and>
         acyclic E \<and> (\<forall>v < n. v \<in> E\<^sup>* `` sources t))"

lemma sources_eq: "sources t = {i. i < length (ft_stages t) \<and> sd_role (ft_stages t ! i) = Source}"
  by (auto simp: sources_def source_stages_def)

lemma check_connections_None:
  "check_connections n i es = None \<longleftrightarrow> in_range n es \<and> (\<forall>(u, v) \<in> set es. u \<noteq> v)"
  by (induction n i es rule: check_connections.induct) (auto simp: in_range_def)

lemma check_roles_None:
  "check_roles has_in has_out i ss = None \<longleftrightarrow>
     (\<forall>j < length ss. (sd_role (ss ! j) = Source \<longrightarrow> \<not> has_in (i + j)) \<and>
                    (sd_role (ss ! j) = Sink \<longrightarrow> \<not> has_out (i + j)))"
  by (induction has_in has_out i ss rule: check_roles.induct) (auto simp: All_less_Suc2)

lemma check_reachable_None:
  "length seen = length ss \<Longrightarrow> check_reachable i seen ss = None \<longleftrightarrow> (\<forall>j < length ss. seen ! j)"
  by (induction i seen ss rule: check_reachable.induct) (auto simp: All_less_Suc2)

text \<open>The checks in the order of the code, each in closed form.\<close>

lemma topology_validate_in_range:
  assumes n: "n = length (ft_stages t)" and range: "in_range n (edges t)"
    and src: "sources t \<noteq> {}" and snk: "\<exists>s \<in> set (ft_stages t). sd_role s = Sink"
    and loops: "\<forall>(u, v) \<in> set (edges t). u \<noteq> v"
  shows "\<exists>r. topology_validate t = Some r \<and> (r = Inr () \<longleftrightarrow>
    (\<forall>(u, v) \<in> set (edges t). sd_role (ft_stages t ! v) \<noteq> Source \<and> sd_role (ft_stages t ! u) \<noteq> Sink) \<and>
    acyclic (set (edges t)) \<and> (\<forall>v < n. v \<in> (set (edges t))\<^sup>* `` sources t))"
    (is "\<exists>r. _ \<and> (r = Inr () \<longleftrightarrow> ?roles \<and> ?acyc \<and> ?reach)")
proof -
  let ?es = "edges t" and ?ss = "ft_stages t"
  obtain s where "s < n" "sd_role (?ss ! s) = Source" using src n by (auto simp: sources_eq)
  then have nz: "n \<noteq> 0" and has_src: "\<exists>s \<in> set ?ss. sd_role s = Source" using n by auto
  have conn: "check_connections n 0 ?es = None" using range loops by (simp add: check_connections_None)
  have roles: "check_roles (\<lambda>i. deg_of n ?es ! i \<noteq> 0) (\<lambda>i. out_of n ?es ! i \<noteq> []) 0 ?ss = None \<longleftrightarrow> ?roles"
    using range n by (auto simp: check_roles_None deg_of_def out_of_def in_range_def; fastforce)
  obtain order deg where k: "kahn (out_of n ?es) (deg_of n ?es) (initial_queue (deg_of n ?es)) [] = Some order"
    "kahn_inv n ?es deg [] order" using kahn_ok [OF kahn_inv_init [OF range] range] by blast
  have dist: "distinct order" "set order \<subseteq> {..<n}" "forward ?es order" using k(2) by (auto simp: kahn_inv_def)
  have acyc: "length order = n \<longleftrightarrow> ?acyc"
  proof
    assume "length order = n"
    with dist(1,2) have "set order = {..<n}"
      by (metis card_lessThan card_subset_eq distinct_card finite_lessThan)
    then show ?acyc using forward_acyclic [OF dist(3,1)] in_rangeD [OF range] by blast
  next
    assume ?acyc
    with kahn_done_complete [OF k(2) range] dist(1) show "length order = n"
      by (metis card_lessThan distinct_card)
  qed
  have start: "bfs_inv n ?es (sources t) (map (\<lambda>s. sd_role s = Source) ?ss) (source_stages t)"
    using n by (auto simp: bfs_inv_def sources_eq source_stages_def)
  from bfs_ok [OF start range] obtain seen where b: "bfs (out_of n ?es)
      (map (\<lambda>s. sd_role s = Source) ?ss) (source_stages t) = Some seen" "bfs_inv n ?es (sources t) seen []"
    by blast
  have reach: "check_reachable 0 seen ?ss = None \<longleftrightarrow> ?reach"
    using b(2) bfs_done [OF b(2) range] n by (simp add: check_reachable_None bfs_inv_def)
  show ?thesis
    using nz has_src snk conn roles acyc reach k(1) b(1) build_edges_eq [OF range] n
    by (auto simp: topology_validate_def Let_def split: option.split)
qed

text \<open>Validation always answers, and accepts exactly the valid topologies.\<close>

lemma topology_validate_iff:
  "\<exists>r. topology_validate t = Some r \<and> (r = Inr () \<longleftrightarrow> valid_topology t)"
proof (cases "sources t = {} \<or> \<not> (\<exists>s \<in> set (ft_stages t). sd_role s = Sink)")
  case True
  then have "\<exists>msg. topology_validate t = Some (Inl (InvalidTopology msg))"
    unfolding topology_validate_def Let_def sources_def source_stages_def
    by (cases "ft_stages t = []") (simp, force simp: in_set_conv_nth)
  with True show ?thesis by (auto simp: valid_topology_def Let_def)
next
  case False
  show ?thesis
  proof (cases "check_connections (length (ft_stages t)) 0 (edges t)")
    case None
    then have pre: "in_range (length (ft_stages t)) (edges t)" "\<forall>(u, v) \<in> set (edges t). u \<noteq> v"
      by (simp_all add: check_connections_None)
    show ?thesis
      using topology_validate_in_range [OF refl pre(1) _ _ pre(2)] False pre(1)
      by (auto simp: valid_topology_def Let_def)
  next
    case (Some msg)
    moreover from False have "\<exists>s \<in> set (ft_stages t). sd_role s = Source" "ft_stages t \<noteq> []"
      by (auto simp: sources_eq)
    ultimately have "topology_validate t = Some (Inl (InvalidTopology msg))"
      using False by (simp add: topology_validate_def)
    moreover have "\<not> (in_range (length (ft_stages t)) (edges t) \<and> (\<forall>(u, v) \<in> set (edges t). u \<noteq> v))"
      using Some check_connections_None [of "length (ft_stages t)" 0 "edges t"] by simp
    then have "\<not> valid_topology t" by (auto simp: valid_topology_def Let_def acyclic_def)
    ultimately show ?thesis by simp
  qed
qed

lemma topology_validate_cases:
  obtains "topology_validate t = Some (Inr ())" and "valid_topology t"
  | msg where "topology_validate t = Some (Inl msg)" and "\<not> valid_topology t"
proof -
  from topology_validate_iff [of t] obtain r where "topology_validate t = Some r" "r = Inr () \<longleftrightarrow> valid_topology t"
    by blast
  with that show thesis by (cases r) auto
qed

end
