(* ===== verification/Rea_Queue.thy ===== *)
theory Rea_Queue
  imports Torvyn_Types
begin

text \<open>
  \<open>torvyn-reactor/src/queue.rs\<close>: the ring buffer between two stages. The operations return
  \<open>None\<close> where the code would panic (an index out of range, a modulo by zero, a failed
  \<open>expect\<close>). The lemmas show that a well-formed queue never panics and implements a bounded
  list: \<open>queue_items\<close> is the abstraction, and the locale \<open>bounded_fifo\<close> states what the streams
  and the flow driver rely on. The ratio \<open>fill_ratio\<close> is a floating-point number and is left out.
\<close>

section \<open>The ring buffer\<close>

record 'a bounded_queue =
  q_buf :: "'a option list"
  q_head :: usize
  q_len :: usize
  q_capacity :: usize

datatype 'a push_result =
    PushOk
  | PushFull 'a
  | DroppedOldest 'a
  | DroppedNewest 'a

definition queue_new :: "usize \<Rightarrow> 'a bounded_queue option" where
  "queue_new capacity =
     (if 0 < capacity
      then Some \<lparr>q_buf = replicate capacity None, q_head = 0, q_len = 0, q_capacity = capacity\<rparr>
      else None)"

definition queue_is_empty :: "'a bounded_queue \<Rightarrow> bool" where
  "queue_is_empty q \<longleftrightarrow> q_len q = 0"

definition queue_is_full :: "'a bounded_queue \<Rightarrow> bool" where
  "queue_is_full q \<longleftrightarrow> q_len q = q_capacity q"

definition queue_tail :: "'a bounded_queue \<Rightarrow> usize" where
  "queue_tail q = (q_head q + q_len q) mod q_capacity q"

text \<open>\<open>self.buf[i] = x\<close>: panics when \<open>i\<close> is out of range.\<close>

definition buf_set :: "'a option list \<Rightarrow> usize \<Rightarrow> 'a option \<Rightarrow> 'a option list option" where
  "buf_set buf i x = (if i < length buf then Some (buf[i := x]) else None)"

text \<open>\<open>self.buf[i].take().expect(..)\<close>: the element, and the buffer without it.\<close>

definition buf_take :: "'a option list \<Rightarrow> usize \<Rightarrow> ('a \<times> 'a option list) option" where
  "buf_take buf i =
     (if i < length buf then map_option (\<lambda>x. (x, buf[i := None])) (buf ! i) else None)"

definition queue_insert :: "'a bounded_queue \<Rightarrow> 'a \<Rightarrow> 'a bounded_queue option" where
  "queue_insert q x =
     (if q_capacity q = 0 then None
      else map_option (\<lambda>buf. q\<lparr>q_buf := buf, q_len := q_len q + 1\<rparr>)
             (buf_set (q_buf q) (queue_tail q) (Some x)))"

definition queue_push :: "'a bounded_queue \<Rightarrow> 'a \<Rightarrow> ('a push_result \<times> 'a bounded_queue) option"
  where
  "queue_push q x =
     (if q_len q = q_capacity q then Some (PushFull x, q)
      else map_option (\<lambda>q'. (PushOk, q')) (queue_insert q x))"

definition queue_push_with_policy ::
    "'a bounded_queue \<Rightarrow> 'a \<Rightarrow> backpressure_policy \<Rightarrow> ('a push_result \<times> 'a bounded_queue) option"
  where
  "queue_push_with_policy q x policy =
     (if q_len q < q_capacity q then map_option (\<lambda>q'. (PushOk, q')) (queue_insert q x)
      else
        case policy of
          DropOldest \<Rightarrow>
            Option.bind (buf_take (q_buf q) (q_head q)) (\<lambda>(dropped, buf).
            Option.bind (buf_set buf (q_head q) (Some x)) (\<lambda>buf'.
            if q_capacity q = 0 then None
            else Some (DroppedOldest dropped,
                       q\<lparr>q_buf := buf', q_head := (q_head q + 1) mod q_capacity q\<rparr>)))
        | DropNewest \<Rightarrow> Some (DroppedNewest x, q)
        | _ \<Rightarrow> Some (PushFull x, q))"

definition queue_pop :: "'a bounded_queue \<Rightarrow> ('a option \<times> 'a bounded_queue) option" where
  "queue_pop q =
     (if q_len q = 0 then Some (None, q)
      else
        Option.bind (buf_take (q_buf q) (q_head q)) (\<lambda>(x, buf).
        if q_capacity q = 0 then None
        else Some (Some x, q\<lparr>q_buf := buf, q_head := (q_head q + 1) mod q_capacity q,
                             q_len := q_len q - 1\<rparr>)))"

definition queue_peek_front :: "'a bounded_queue \<Rightarrow> 'a option option" where
  "queue_peek_front q =
     (if q_len q = 0 then Some None
      else if q_head q < length (q_buf q) then Some (q_buf q ! q_head q) else None)"

text \<open>The loop \<open>while let Some(e) = self.pop()\<close>; each round makes the queue shorter.\<close>

function queue_drain_all :: "'a bounded_queue \<Rightarrow> ('a list \<times> 'a bounded_queue) option" where
  "queue_drain_all q =
     (case queue_pop q of
        None \<Rightarrow> None
      | Some (None, q') \<Rightarrow> Some ([], q')
      | Some (Some x, q') \<Rightarrow> map_option (\<lambda>(xs, q''). (x # xs, q'')) (queue_drain_all q'))"
  by pat_completeness auto

lemma queue_pop_shorter: "queue_pop q = Some (Some x, q') \<Longrightarrow> q_len q' < q_len q"
  by (auto simp: queue_pop_def split: if_splits Option.bind_splits)

termination queue_drain_all
  by (relation "measure q_len") (auto simp: queue_pop_shorter)

declare queue_drain_all.simps [simp del]

section \<open>Well-formed queues\<close>

definition queue_slot :: "'a bounded_queue \<Rightarrow> nat \<Rightarrow> nat" where
  "queue_slot q i = (q_head q + i) mod q_capacity q"

definition queue_inv :: "'a bounded_queue \<Rightarrow> bool" where
  "queue_inv q \<longleftrightarrow>
     0 < q_capacity q \<and> length (q_buf q) = q_capacity q \<and> q_head q < q_capacity q \<and>
     q_len q \<le> q_capacity q \<and>
     (\<forall>i < q_capacity q. q_buf q ! queue_slot q i \<noteq> None \<longleftrightarrow> i < q_len q)"

definition queue_items :: "'a bounded_queue \<Rightarrow> 'a list" where
  "queue_items q = map (\<lambda>i. the (q_buf q ! queue_slot q i)) [0..<q_len q]"

lemma queue_items_length [simp]: "length (queue_items q) = q_len q"
  by (simp add: queue_items_def)

text \<open>The logical index \<open>i\<close> is at \<open>head + i\<close>, wrapped around at most once.\<close>

lemma queue_slot_eq:
  "q_head q < q_capacity q \<Longrightarrow> i \<le> q_capacity q \<Longrightarrow>
   queue_slot q i = (if q_head q + i < q_capacity q then q_head q + i else q_head q + i - q_capacity q)"
  by (simp add: queue_slot_def mod_if)

lemma queue_slot_less: "0 < q_capacity q \<Longrightarrow> queue_slot q i < q_capacity q"
  by (simp add: queue_slot_def)

lemma queue_slot_inj:
  "q_head q < q_capacity q \<Longrightarrow> i < q_capacity q \<Longrightarrow> j < q_capacity q \<Longrightarrow>
   queue_slot q i = queue_slot q j \<longleftrightarrow> i = j"
  by (auto simp: queue_slot_eq split: if_splits)

lemma queue_slot_upd [simp]:
  "queue_slot (q\<lparr>q_buf := b, q_len := n\<rparr>) i = queue_slot q i"
  "queue_slot (q\<lparr>q_buf := b\<rparr>) i = queue_slot q i"
  by (simp_all add: queue_slot_def)

lemma queue_tail_slot: "queue_tail q = queue_slot q (q_len q)"
  by (simp add: queue_tail_def queue_slot_def)

lemma queue_new_inv:
  assumes "queue_new c = Some q"
  shows "queue_inv q" and "queue_items q = []" and "q_capacity q = c"
  using assms
  by (auto simp: queue_new_def queue_inv_def queue_items_def queue_slot_def split: if_splits)

lemma queue_insert_ok:
  assumes inv: "queue_inv q" and room: "q_len q < q_capacity q"
  obtains q' where "queue_insert q x = Some q'" "queue_inv q'" "queue_items q' = queue_items q @ [x]"
    "q_capacity q' = q_capacity q"
proof -
  let ?t = "queue_slot q (q_len q)"
  let ?q = "q\<lparr>q_buf := (q_buf q)[?t := Some x], q_len := q_len q + 1\<rparr>"
  have c: "0 < q_capacity q" "length (q_buf q) = q_capacity q" "q_head q < q_capacity q"
    "?t < q_capacity q"
    using inv by (simp_all add: queue_inv_def queue_slot_less)
  have "queue_insert q x = Some ?q"
    using c by (simp add: queue_insert_def buf_set_def queue_tail_slot)
  moreover have "queue_inv ?q"
    using inv room c by (auto simp: queue_inv_def nth_list_update queue_slot_inj less_Suc_eq)
  moreover have "queue_items ?q = queue_items q @ [x]"
    using room c by (auto simp: queue_items_def nth_list_update queue_slot_inj)
  ultimately show thesis by (intro that [of ?q]) simp_all
qed

lemma queue_head_slot: "queue_inv q \<Longrightarrow> q_head q = queue_slot q 0"
  by (simp add: queue_slot_def queue_inv_def)

lemma queue_head_some:
  assumes "queue_inv q" and "0 < q_len q"
  shows "buf_take (q_buf q) (q_head q) = Some (hd (queue_items q), (q_buf q)[q_head q := None])"
proof -
  have "q_buf q ! queue_slot q 0 \<noteq> None" using assms by (auto simp: queue_inv_def)
  then obtain x where "q_buf q ! queue_slot q 0 = Some x" by blast
  moreover have "hd (queue_items q) = the (q_buf q ! queue_slot q 0)"
    using assms(2) by (simp add: queue_items_def hd_map upt_conv_Cons)
  ultimately show ?thesis
    using assms by (simp add: buf_take_def queue_head_slot [symmetric] queue_inv_def)
qed

text \<open>Advancing the head renumbers the slots.\<close>

lemma queue_slot_advance:
  "queue_slot (q\<lparr>q_buf := b, q_head := (q_head q + 1) mod q_capacity q, q_len := n\<rparr>) i =
     queue_slot q (Suc i)"
  "queue_slot (q\<lparr>q_buf := b, q_head := (q_head q + 1) mod q_capacity q\<rparr>) i = queue_slot q (Suc i)"
  "queue_slot (q\<lparr>q_buf := b, q_head := Suc (q_head q) mod q_capacity q, q_len := n\<rparr>) i =
     queue_slot q (Suc i)"
  by (simp_all add: queue_slot_def mod_simps)

lemma queue_slot_capacity: "queue_inv q \<Longrightarrow> queue_slot q (q_capacity q) = q_head q"
  by (simp add: queue_slot_def queue_inv_def)

lemma queue_pop_empty: "q_len q = 0 \<Longrightarrow> queue_pop q = Some (None, q)"
  by (simp add: queue_pop_def)

lemma queue_pop_ok:
  assumes inv: "queue_inv q" and some: "0 < q_len q"
  obtains q' where "queue_pop q = Some (Some (hd (queue_items q)), q')" "queue_inv q'"
    "queue_items q' = tl (queue_items q)" "q_capacity q' = q_capacity q"
proof -
  let ?q = "q\<lparr>q_buf := (q_buf q)[q_head q := None],
      q_head := (q_head q + 1) mod q_capacity q, q_len := q_len q - 1\<rparr>"
  have c: "0 < q_capacity q" "length (q_buf q) = q_capacity q" "q_head q < q_capacity q"
    "q_len q \<le> q_capacity q"
    using inv by (simp_all add: queue_inv_def)
  have h: "q_head q = queue_slot q 0" by (rule queue_head_slot [OF inv])
  have "queue_pop q = Some (Some (hd (queue_items q)), ?q)"
    using some c by (simp add: queue_pop_def queue_head_some [OF inv some])
  moreover have "queue_inv ?q"
    unfolding queue_inv_def
  proof (intro conjI allI impI)
    fix i assume "i < q_capacity ?q"
    then have i: "i < q_capacity q" by simp
    show "q_buf ?q ! queue_slot ?q i \<noteq> None \<longleftrightarrow> i < q_len ?q"
    proof (cases "Suc i = q_capacity q")
      case True
      then have "queue_slot q (Suc i) = q_head q" using queue_slot_capacity [OF inv] by simp
      with True some c show ?thesis by (simp add: queue_slot_advance)
    next
      case False
      with i have "Suc i < q_capacity q" by simp
      then have "queue_slot q (Suc i) \<noteq> q_head q"
        using queue_slot_inj [of q "Suc i" 0] c h by simp
      with \<open>Suc i < q_capacity q\<close> inv some show ?thesis
        by (simp add: queue_slot_advance queue_inv_def) linarith
    qed
  qed (use c in simp_all)
  moreover have "queue_items ?q = tl (queue_items q)"
  proof -
    have "q_buf ?q ! queue_slot ?q i = q_buf q ! queue_slot q (Suc i)" if i: "i < q_len q - 1" for i
    proof -
      have "queue_slot q (Suc i) \<noteq> queue_slot q 0" using i c by (subst queue_slot_inj) auto
      then have "queue_slot q (Suc i) \<noteq> q_head q" using h by simp
      then show ?thesis by (simp add: queue_slot_advance)
    qed
    then have "queue_items ?q = map (\<lambda>i. the (q_buf q ! queue_slot q (Suc i))) [0..<q_len q - 1]"
      by (simp add: queue_items_def del: One_nat_def)
    also have "\<dots> = tl (queue_items q)"
      by (rule nth_equalityI) (simp_all add: nth_tl queue_items_def less_diff_conv)
    finally show ?thesis .
  qed
  ultimately show thesis by (intro that [of ?q]) simp_all
qed

lemma queue_items_Nil: "queue_items q = [] \<longleftrightarrow> q_len q = 0"
  by (metis length_0_conv queue_items_length)

lemma queue_full_cases:
  assumes "queue_inv q" and "\<not> q_len q < q_capacity q"
  shows "q_len q = q_capacity q" and "0 < q_len q"
  using assms by (auto simp: queue_inv_def)

lemma queue_push_ok:
  assumes inv: "queue_inv q"
  shows "\<exists>q'. queue_push q x =
             Some (if length (queue_items q) < q_capacity q then PushOk else PushFull x, q') \<and>
           queue_inv q' \<and> q_capacity q' = q_capacity q \<and>
           queue_items q' = (if length (queue_items q) < q_capacity q then queue_items q @ [x] else queue_items q)"
proof (cases "q_len q < q_capacity q")
  case True
  obtain q' where "queue_insert q x = Some q'" "queue_inv q'" "queue_items q' = queue_items q @ [x]"
    "q_capacity q' = q_capacity q" by (rule queue_insert_ok [OF inv True])
  with True show ?thesis by (simp add: queue_push_def)
next
  case False
  with queue_full_cases(1) [OF inv False] inv show ?thesis by (simp add: queue_push_def)
qed

text \<open>What a push under a policy does to a bounded list.\<close>

fun push_spec :: "nat \<Rightarrow> 'a list \<Rightarrow> 'a \<Rightarrow> backpressure_policy \<Rightarrow> 'a push_result \<times> 'a list" where
  "push_spec c xs x policy =
     (if length xs < c then (PushOk, xs @ [x])
      else case policy of
          DropOldest \<Rightarrow> (DroppedOldest (hd xs), tl xs @ [x])
        | DropNewest \<Rightarrow> (DroppedNewest x, xs)
        | _ \<Rightarrow> (PushFull x, xs))"

text \<open>Dropping the oldest element of a full queue and reusing its slot is a pop and an insertion.\<close>

lemma queue_drop_oldest:
  assumes inv: "queue_inv q" and full: "q_len q = q_capacity q"
  obtains q' where "queue_push_with_policy q x DropOldest = Some (DroppedOldest (hd (queue_items q)), q')"
    "queue_inv q'" "queue_items q' = tl (queue_items q) @ [x]" "q_capacity q' = q_capacity q"
proof -
  have some: "0 < q_len q" using inv full by (auto simp: queue_inv_def)
  obtain p where p: "queue_pop q = Some (Some (hd (queue_items q)), p)" "queue_inv p"
    "queue_items p = tl (queue_items q)" "q_capacity p = q_capacity q"
    by (rule queue_pop_ok [OF inv some])
  have p_eq: "p = q\<lparr>q_buf := (q_buf q)[q_head q := None],
      q_head := (q_head q + 1) mod q_capacity q, q_len := q_len q - 1\<rparr>"
    using p(1) some inv
    by (auto simp: queue_pop_def queue_head_some [OF inv some] queue_inv_def)
  have plen: "q_len p < q_capacity p" using some full by (simp add: p_eq)
  obtain q' where q': "queue_insert p x = Some q'" "queue_inv q'" "queue_items q' = queue_items p @ [x]"
    "q_capacity q' = q_capacity p" by (rule queue_insert_ok [OF p(2) plen])
  have "queue_slot p (q_len p) = queue_slot q (q_capacity q)"
    using some full by (simp add: p_eq queue_slot_advance)
  then have "queue_tail p = q_head q" by (simp add: queue_tail_slot queue_slot_capacity [OF inv])
  then have "q' = q\<lparr>q_buf := (q_buf q)[q_head q := Some x],
      q_head := (q_head q + 1) mod q_capacity q\<rparr>"
    using q'(1) some by (auto simp: queue_insert_def buf_set_def p_eq split: if_splits)
  then have "queue_push_with_policy q x DropOldest = Some (DroppedOldest (hd (queue_items q)), q')"
    using full inv by (simp add: queue_push_with_policy_def queue_head_some [OF inv some] buf_set_def
        queue_inv_def)
  with q' p(3,4) show thesis by (intro that [of q']) simp_all
qed

lemma queue_push_with_policy_ok:
  assumes inv: "queue_inv q"
  shows "\<exists>r q'. queue_push_with_policy q x policy = Some (r, q') \<and> queue_inv q' \<and>
           q_capacity q' = q_capacity q \<and>
           push_spec (q_capacity q) (queue_items q) x policy = (r, queue_items q')"
proof (cases "q_len q < q_capacity q")
  case True
  obtain q' where "queue_insert q x = Some q'" "queue_inv q'" "queue_items q' = queue_items q @ [x]"
    "q_capacity q' = q_capacity q" by (rule queue_insert_ok [OF inv True])
  with True show ?thesis by (simp add: queue_push_with_policy_def)
next
  case False
  note full = queue_full_cases [OF inv False]
  show ?thesis
  proof (cases "policy = DropOldest")
    case True
    obtain q' where "queue_push_with_policy q x DropOldest = Some (DroppedOldest (hd (queue_items q)), q')"
      "queue_inv q'" "queue_items q' = tl (queue_items q) @ [x]" "q_capacity q' = q_capacity q"
      by (rule queue_drop_oldest [OF inv full(1)])
    with True False show ?thesis by simp
  next
    case other: False
    with False inv show ?thesis by (cases policy) (simp_all add: queue_push_with_policy_def)
  qed
qed

lemma queue_peek_front_ok:
  assumes "queue_inv q"
  shows "queue_peek_front q = Some (case queue_items q of [] \<Rightarrow> None | x # _ \<Rightarrow> Some x)"
proof (cases "q_len q = 0")
  case True
  then have "queue_items q = []" by (simp add: queue_items_Nil)
  with True show ?thesis by (simp add: queue_peek_front_def)
next
  case False
  with queue_head_some [OF assms] have "q_buf q ! q_head q = Some (hd (queue_items q))"
    "q_head q < length (q_buf q)"
    by (auto simp: buf_take_def split: if_splits)
  moreover have "queue_items q \<noteq> []" using False by (simp add: queue_items_Nil)
  ultimately show ?thesis using False by (auto simp: queue_peek_front_def neq_Nil_conv)
qed

section \<open>The interface of the streams\<close>

text \<open>
  A bounded first-in first-out buffer: what the streams and the driver rely on. Every operation
  is defined on a well-formed buffer and acts on the list of its items.
\<close>

locale bounded_fifo =
  fixes inv :: "'q \<Rightarrow> bool"
    and items :: "'q \<Rightarrow> 'a list"
    and cap :: "'q \<Rightarrow> nat"
    and push :: "'q \<Rightarrow> 'a \<Rightarrow> backpressure_policy \<Rightarrow> ('a push_result \<times> 'q) option"
    and pop :: "'q \<Rightarrow> ('a option \<times> 'q) option"
  assumes cap_pos: "inv q \<Longrightarrow> 0 < cap q"
    and bounded: "inv q \<Longrightarrow> length (items q) \<le> cap q"
    and push_ok: "inv q \<Longrightarrow> \<exists>r q'. push q x policy = Some (r, q') \<and> inv q' \<and> cap q' = cap q \<and>
      push_spec (cap q) (items q) x policy = (r, items q')"
    and pop_ok: "inv q \<Longrightarrow> \<exists>q'. pop q = Some (case items q of [] \<Rightarrow> None | x # _ \<Rightarrow> Some x, q') \<and>
      inv q' \<and> cap q' = cap q \<and> items q' = tl (items q)"
begin

fun pop_n :: "nat \<Rightarrow> 'q \<Rightarrow> ('a list \<times> 'q) option" where
  "pop_n 0 q = Some ([], q)"
| "pop_n (Suc n) q =
     (case pop q of
        Some (Some x, q') \<Rightarrow> map_option (\<lambda>(xs, q''). (x # xs, q'')) (pop_n n q')
      | _ \<Rightarrow> None)"

lemma pop_n_ok:
  "inv q \<Longrightarrow> n \<le> length (items q) \<Longrightarrow>
   \<exists>q'. pop_n n q = Some (take n (items q), q') \<and> inv q' \<and> items q' = drop n (items q)"
proof (induction n arbitrary: q)
  case (Suc n)
  then obtain x xs where xs: "items q = x # xs" by (cases "items q") auto
  with pop_ok [OF Suc.prems(1)] obtain q1 where "pop q = Some (Some x, q1)" "inv q1" "items q1 = xs"
    by auto
  with Suc.IH [of q1] Suc.prems(2) xs show ?case by auto
qed simp

text \<open>An element that fits comes out after exactly the elements in front of it.\<close>

lemma push_then_pop_n:
  assumes "inv q" and "length (items q) < cap q"
  shows "\<exists>q1 q2. push q x policy = Some (PushOk, q1) \<and>
           pop_n (Suc (length (items q))) q1 = Some (items q @ [x], q2) \<and> items q2 = []"
proof -
  obtain q1 where q1: "push q x policy = Some (PushOk, q1)" "inv q1" "items q1 = items q @ [x]"
    using push_ok [OF assms(1), of x policy] assms(2) by auto
  from pop_n_ok [OF q1(2), of "Suc (length (items q))"] q1 show ?thesis by auto
qed

text \<open>No policy ever makes the buffer longer than its capacity or reorders what it keeps.\<close>

lemma push_keeps_order:
  assumes "inv q" and "push q x policy = Some (r, q')"
  shows "\<exists>n m. items q' = drop n (items q) @ take m [x]"
proof -
  have "push_spec (cap q) (items q) x policy = (r, items q')"
    using push_ok [OF assms(1), of x policy] assms(2) by auto
  then consider "items q' = items q @ [x]" | "items q' = tl (items q) @ [x]" | "items q' = items q"
    by (auto split: if_splits backpressure_policy.splits)
  then show ?thesis
  proof cases
    case 1 then show ?thesis by (intro exI [of _ 0] exI [of _ 1]) simp
  next
    case 2 then show ?thesis by (intro exI [of _ 1] exI [of _ 1]) (simp add: drop_Suc)
  next
    case 3 then show ?thesis by (intro exI [of _ 0]) simp
  qed
qed

end

interpretation ring: bounded_fifo queue_inv queue_items q_capacity queue_push_with_policy queue_pop
proof unfold_locales
  fix q :: "'a bounded_queue" and x :: 'a and policy
  assume inv: "queue_inv q"
  show "0 < q_capacity q" "length (queue_items q) \<le> q_capacity q"
    using inv by (simp_all add: queue_inv_def)
  show "\<exists>r q'. queue_push_with_policy q x policy = Some (r, q') \<and> queue_inv q' \<and>
      q_capacity q' = q_capacity q \<and> push_spec (q_capacity q) (queue_items q) x policy = (r, queue_items q')"
    by (rule queue_push_with_policy_ok [OF inv])
  show "\<exists>q'. queue_pop q = Some (case queue_items q of [] \<Rightarrow> None | x # _ \<Rightarrow> Some x, q') \<and>
      queue_inv q' \<and> q_capacity q' = q_capacity q \<and> queue_items q' = tl (queue_items q)"
  proof (cases "q_len q = 0")
    case True
    then have "queue_items q = []" by (simp add: queue_items_Nil)
    with True inv show ?thesis by (simp add: queue_pop_empty)
  next
    case False
    then obtain q' where "queue_pop q = Some (Some (hd (queue_items q)), q')" "queue_inv q'"
      "queue_items q' = tl (queue_items q)" "q_capacity q' = q_capacity q"
      by (auto intro: queue_pop_ok [OF inv])
    moreover have "queue_items q \<noteq> []" using False by (simp add: queue_items_Nil)
    ultimately show ?thesis by (auto simp: neq_Nil_conv)
  qed
qed

lemma queue_drain_all_ok:
  "queue_inv q \<Longrightarrow> \<exists>q'. queue_drain_all q = Some (queue_items q, q') \<and> queue_inv q' \<and>
     queue_items q' = [] \<and> q_capacity q' = q_capacity q"
proof (induction "queue_items q" arbitrary: q)
  case Nil
  with ring.pop_ok [OF Nil.prems] show ?case by (subst queue_drain_all.simps) auto
next
  case (Cons x xs)
  from ring.pop_ok [OF Cons.prems] Cons.hyps(2) [symmetric] obtain q1
    where q1: "queue_pop q = Some (Some x, q1)" "queue_inv q1" "q_capacity q1 = q_capacity q"
      "queue_items q1 = xs" by auto
  from Cons.hyps(1) [OF q1(4) [symmetric] q1(2)] q1 Cons.hyps(2) show ?case
    by (subst queue_drain_all.simps) auto
qed

end
