(* ===== verification/Rea_Stream.thy ===== *)
theory Rea_Stream
  imports Rea_Queue Rea_Control
begin

text \<open>
  A stream between two stages: the backpressure machine (\<open>backpressure.rs\<close>), the demand credits
  (\<open>demand.rs\<close>), the metrics (\<open>metrics.rs\<close>) and the stream state itself (\<open>stream.rs\<close>).

  The low watermark is \<open>(capacity as f64 * ratio) as usize\<close> of two fields that never change; the
  model keeps that number, fixed when the stream is built, instead of the ratio.
\<close>

section \<open>Backpressure\<close>

datatype backpressure_state = BpNormal | BpActive instant

fun bp_is_active :: "backpressure_state \<Rightarrow> bool" where
  "bp_is_active (BpActive _) = True"
| "bp_is_active BpNormal = False"

fun bp_try_activate :: "backpressure_state \<Rightarrow> instant \<Rightarrow> bool \<times> backpressure_state" where
  "bp_try_activate BpNormal now = (True, BpActive now)"
| "bp_try_activate (BpActive since) now = (False, BpActive since)"

fun bp_try_deactivate :: "backpressure_state \<Rightarrow> instant \<Rightarrow> duration option \<times> backpressure_state" where
  "bp_try_deactivate (BpActive since) now = (Some (now - since), BpNormal)"
| "bp_try_deactivate BpNormal now = (None, BpNormal)"

definition check_backpressure_transition ::
    "usize \<Rightarrow> usize \<Rightarrow> usize \<Rightarrow> bool \<Rightarrow> bool option" where
  "check_backpressure_transition queue_len queue_capacity low_watermark_depth currently_active =
     (if \<not> currently_active \<and> queue_capacity \<le> queue_len then Some True
      else if currently_active \<and> queue_len \<le> low_watermark_depth then Some False
      else None)"

section \<open>Metrics\<close>

record stream_metrics =
  sm_elements_total :: u64
  sm_backpressure_events :: u64
  sm_backpressure_duration :: duration
  sm_peak_queue_depth :: u32
  sm_last_activity :: "instant option"

definition stream_metrics_new :: stream_metrics where
  "stream_metrics_new =
     \<lparr>sm_elements_total = 0, sm_backpressure_events = 0, sm_backpressure_duration = 0,
      sm_peak_queue_depth = 0, sm_last_activity = None\<rparr>"

definition sm_record_enqueue :: "stream_metrics \<Rightarrow> u32 \<Rightarrow> instant \<Rightarrow> stream_metrics" where
  "sm_record_enqueue m queue_depth now =
     m\<lparr>sm_elements_total := sm_elements_total m + 1,
       sm_peak_queue_depth :=
         (if sm_peak_queue_depth m < queue_depth then queue_depth else sm_peak_queue_depth m),
       sm_last_activity := Some now\<rparr>"

definition sm_record_backpressure_event :: "stream_metrics \<Rightarrow> stream_metrics" where
  "sm_record_backpressure_event m = m\<lparr>sm_backpressure_events := sm_backpressure_events m + 1\<rparr>"

definition sm_add_backpressure_duration :: "stream_metrics \<Rightarrow> duration \<Rightarrow> stream_metrics" where
  "sm_add_backpressure_duration m d =
     m\<lparr>sm_backpressure_duration := sm_backpressure_duration m + d\<rparr>"

record component_metrics =
  cm_invocations :: u64
  cm_errors :: u64
  cm_total_invocation_time :: duration

definition component_metrics_new :: component_metrics where
  "component_metrics_new = \<lparr>cm_invocations = 0, cm_errors = 0, cm_total_invocation_time = 0\<rparr>"

definition cm_record_invocation ::
    "component_metrics \<Rightarrow> duration \<Rightarrow> bool \<Rightarrow> component_metrics" where
  "cm_record_invocation m d is_error =
     m\<lparr>cm_invocations := cm_invocations m + 1,
       cm_total_invocation_time := cm_total_invocation_time m + d,
       cm_errors := (if is_error then cm_errors m + 1 else cm_errors m)\<rparr>"

record flow_completion_stats =
  fs_total_duration :: duration
  fs_total_elements :: u64
  fs_total_backpressure_events :: u64
  fs_total_backpressure_duration :: duration
  fs_stream_stats :: "stream_id \<rightharpoonup> stream_metrics"
  fs_component_stats :: "component_id \<rightharpoonup> component_metrics"

definition completion_stats_new :: "duration \<Rightarrow> flow_completion_stats" where
  "completion_stats_new d =
     \<lparr>fs_total_duration = d, fs_total_elements = 0, fs_total_backpressure_events = 0,
      fs_total_backpressure_duration = 0, fs_stream_stats = Map.empty,
      fs_component_stats = Map.empty\<rparr>"

fun aggregate_from_streams ::
    "flow_completion_stats \<Rightarrow> (stream_id \<times> stream_metrics) list \<Rightarrow> flow_completion_stats" where
  "aggregate_from_streams s [] = s"
| "aggregate_from_streams s ((i, m) # rest) =
     aggregate_from_streams
       (s\<lparr>fs_total_elements := fs_total_elements s + sm_elements_total m,
          fs_total_backpressure_events := fs_total_backpressure_events s + sm_backpressure_events m,
          fs_total_backpressure_duration :=
            fs_total_backpressure_duration s + sm_backpressure_duration m,
          fs_stream_stats := (fs_stream_stats s)(i \<mapsto> m)\<rparr>) rest"

record reactor_metrics =
  rm_active_flows :: u64
  rm_total_flows_created :: u64
  rm_total_flows_completed :: u64
  rm_total_elements_processed :: u64
  rm_scheduling_overhead :: duration
  rm_total_yields :: u64
  rm_total_backpressure_events :: u64
  rm_total_backpressure_duration :: duration

definition reactor_metrics_new :: reactor_metrics where
  "reactor_metrics_new =
     \<lparr>rm_active_flows = 0, rm_total_flows_created = 0, rm_total_flows_completed = 0,
      rm_total_elements_processed = 0, rm_scheduling_overhead = 0, rm_total_yields = 0,
      rm_total_backpressure_events = 0, rm_total_backpressure_duration = 0\<rparr>"

definition rm_record_flow_created :: "reactor_metrics \<Rightarrow> reactor_metrics" where
  "rm_record_flow_created m =
     m\<lparr>rm_total_flows_created := rm_total_flows_created m + 1,
       rm_active_flows := rm_active_flows m + 1\<rparr>"

definition rm_record_flow_completed ::
    "reactor_metrics \<Rightarrow> flow_completion_stats \<Rightarrow> reactor_metrics" where
  "rm_record_flow_completed m s =
     m\<lparr>rm_active_flows := saturating_sub_u64 (rm_active_flows m) 1,
       rm_total_flows_completed := rm_total_flows_completed m + 1,
       rm_total_elements_processed := rm_total_elements_processed m + fs_total_elements s,
       rm_total_backpressure_events :=
         rm_total_backpressure_events m + fs_total_backpressure_events s,
       rm_total_backpressure_duration :=
         rm_total_backpressure_duration m + fs_total_backpressure_duration s\<rparr>"

definition rm_record_scheduling_overhead :: "reactor_metrics \<Rightarrow> duration \<Rightarrow> reactor_metrics" where
  "rm_record_scheduling_overhead m d = m\<lparr>rm_scheduling_overhead := rm_scheduling_overhead m + d\<rparr>"

definition rm_record_yield :: "reactor_metrics \<Rightarrow> reactor_metrics" where
  "rm_record_yield m = m\<lparr>rm_total_yields := rm_total_yields m + 1\<rparr>"

section \<open>Streams\<close>

record element_meta =
  em_sequence :: u64
  em_timestamp_ns :: u64
  em_content_type :: string

record stream_element_ref =
  se_sequence :: u64
  se_origin_sequence :: u64
  se_buffer_handle :: buffer_handle
  se_meta :: element_meta
  se_enqueued_at :: instant

record stream_state =
  ss_id :: stream_id
  ss_flow_id :: flow_id
  ss_producer :: component_id
  ss_consumer :: component_id
  ss_queue :: "stream_element_ref bounded_queue"
  ss_backpressure_policy :: backpressure_policy
  ss_backpressure :: backpressure_state
  ss_low_watermark_depth :: usize
  ss_demand :: u64
  ss_producer_complete :: bool
  ss_consumer_notified_complete :: bool
  ss_next_sequence :: u64
  ss_metrics :: stream_metrics

definition stream_new ::
    "stream_id \<Rightarrow> flow_id \<Rightarrow> component_id \<Rightarrow> component_id \<Rightarrow> usize \<Rightarrow> backpressure_policy \<Rightarrow> usize \<Rightarrow>
     stream_state option" where
  "stream_new i f producer consumer capacity policy low =
     map_option
       (\<lambda>q. \<lparr>ss_id = i, ss_flow_id = f, ss_producer = producer, ss_consumer = consumer,
             ss_queue = q, ss_backpressure_policy = policy, ss_backpressure = BpNormal,
             ss_low_watermark_depth = low, ss_demand = of_nat capacity,
             ss_producer_complete = False, ss_consumer_notified_complete = False,
             ss_next_sequence = 0, ss_metrics = stream_metrics_new\<rparr>)
       (queue_new capacity)"

definition producer_can_produce :: "stream_state \<Rightarrow> bool" where
  "producer_can_produce s \<longleftrightarrow>
     \<not> ss_producer_complete s \<and> 0 < ss_demand s \<and> \<not> queue_is_full (ss_queue s) \<and>
     \<not> bp_is_active (ss_backpressure s)"

definition consumer_has_input :: "stream_state \<Rightarrow> bool" where
  "consumer_has_input s \<longleftrightarrow> \<not> queue_is_empty (ss_queue s)"

definition stream_is_complete :: "stream_state \<Rightarrow> bool" where
  "stream_is_complete s \<longleftrightarrow> ss_producer_complete s \<and> queue_is_empty (ss_queue s)"

section \<open>Demand\<close>

definition replenish_demand :: "stream_state \<Rightarrow> stream_state" where
  "replenish_demand s = s\<lparr>ss_demand := saturating_add_u64 (ss_demand s) 1\<rparr>"

definition consume_demand :: "stream_state \<Rightarrow> stream_state" where
  "consume_demand s = s\<lparr>ss_demand := saturating_sub_u64 (ss_demand s) 1\<rparr>"

text \<open>
  What a stage does to its streams. Taking an element gives a credit back; emitting one uses a
  credit and pushes, and a push onto a full queue is lost.
\<close>

definition stream_take :: "stream_state \<Rightarrow> (stream_element_ref \<times> stream_state) option" where
  "stream_take s =
     (case queue_pop (ss_queue s) of
        Some (Some x, q) \<Rightarrow> Some (x, replenish_demand (s\<lparr>ss_queue := q\<rparr>))
      | _ \<Rightarrow> None)"

definition stream_emit ::
    "stream_state \<Rightarrow> stream_element_ref \<Rightarrow> (stream_element_ref push_result \<times> stream_state) option" where
  "stream_emit s x =
     (let s1 = consume_demand s
      in map_option (\<lambda>(r, q). (r, s1\<lparr>ss_queue := q\<rparr>)) (queue_push (ss_queue s1) x))"

section \<open>The stream invariant\<close>

text \<open>
  Credits and queued elements always add up to the capacity: the consumer has granted exactly
  the room that is left.
\<close>

definition stream_inv :: "stream_state \<Rightarrow> bool" where
  "stream_inv s \<longleftrightarrow>
     queue_inv (ss_queue s) \<and> q_capacity (ss_queue s) < 9223372036854775808 \<and>
     unat (ss_demand s) + q_len (ss_queue s) = q_capacity (ss_queue s)"

definition stream_items :: "stream_state \<Rightarrow> stream_element_ref list" where
  "stream_items s = queue_items (ss_queue s)"

lemma stream_items_length: "length (stream_items s) = q_len (ss_queue s)"
  by (simp add: stream_items_def)

lemma stream_new_inv:
  assumes "stream_new i f p c capacity policy low = Some s" and "capacity < 9223372036854775808"
  shows "stream_inv s" and "stream_items s = []" and "ss_id s = i"
proof -
  obtain q where q: "queue_new capacity = Some q"
    and s: "s = \<lparr>ss_id = i, ss_flow_id = f, ss_producer = p, ss_consumer = c,
             ss_queue = q, ss_backpressure_policy = policy, ss_backpressure = BpNormal,
             ss_low_watermark_depth = low, ss_demand = of_nat capacity,
             ss_producer_complete = False, ss_consumer_notified_complete = False,
             ss_next_sequence = 0, ss_metrics = stream_metrics_new\<rparr>"
    using assms(1) by (auto simp: stream_new_def)
  note n = queue_new_inv [OF q]
  have "q_len q = 0" using n(2) by (simp add: queue_items_Nil)
  then show "stream_inv s" using n assms(2) by (simp add: stream_inv_def s)
  show "stream_items s = []" "ss_id s = i" using n(2) by (simp_all add: stream_items_def s)
qed

lemma stream_take_ok:
  assumes inv: "stream_inv s" and input: "consumer_has_input s"
  obtains s' where "stream_take s = Some (hd (stream_items s), s')" "stream_inv s'"
    "stream_items s' = tl (stream_items s)" "s' = s\<lparr>ss_queue := ss_queue s', ss_demand := ss_demand s'\<rparr>"
    "q_capacity (ss_queue s') = q_capacity (ss_queue s)"
proof -
  have q: "queue_inv (ss_queue s)" "0 < q_len (ss_queue s)"
    using inv input by (simp_all add: stream_inv_def consumer_has_input_def queue_is_empty_def)
  obtain q' where q': "queue_pop (ss_queue s) = Some (Some (hd (queue_items (ss_queue s))), q')"
    "queue_inv q'" "queue_items q' = tl (queue_items (ss_queue s))"
    "q_capacity q' = q_capacity (ss_queue s)" by (rule queue_pop_ok [OF q])
  have len: "q_len q' = q_len (ss_queue s) - 1"
    using q'(3) queue_items_length [of q'] by simp
  have d: "unat (saturating_add_u64 (ss_demand s) 1) = unat (ss_demand s) + 1"
    using inv q(2) by (subst unat_saturating_add_u64) (auto simp: stream_inv_def)
  let ?s = "replenish_demand (s\<lparr>ss_queue := q'\<rparr>)"
  have "stream_inv ?s"
    using inv q'(2,4) len d q(2) by (simp add: stream_inv_def replenish_demand_def)
  then show thesis
    using q' by (intro that [of ?s]) (simp_all add: stream_take_def stream_items_def replenish_demand_def)
qed

lemma stream_emit_ok:
  assumes inv: "stream_inv s"
  obtains s' where
    "stream_emit s x = Some (if 0 < ss_demand s then PushOk else PushFull x, s')" "stream_inv s'"
    "stream_items s' = (if 0 < ss_demand s then stream_items s @ [x] else stream_items s)"
    "s' = s\<lparr>ss_queue := ss_queue s', ss_demand := ss_demand s'\<rparr>"
    "q_capacity (ss_queue s') = q_capacity (ss_queue s)"
proof -
  have q: "queue_inv (ss_queue s)" using inv by (simp add: stream_inv_def)
  have pos: "0 < ss_demand s \<longleftrightarrow> 0 < unat (ss_demand s)" by (simp add: word_less_nat_alt)
  have room: "0 < ss_demand s \<longleftrightarrow> q_len (ss_queue s) < q_capacity (ss_queue s)"
    using inv unfolding pos by (auto simp: stream_inv_def)
  obtain q' where q': "queue_push (ss_queue s) x =
      Some (if 0 < ss_demand s then PushOk else PushFull x, q')" "queue_inv q'"
    "q_capacity q' = q_capacity (ss_queue s)"
    "queue_items q' = (if 0 < ss_demand s then queue_items (ss_queue s) @ [x] else queue_items (ss_queue s))"
    using queue_push_ok [OF q, of x] unfolding queue_items_length room by blast
  have len: "q_len q' = (if 0 < ss_demand s then q_len (ss_queue s) + 1 else q_len (ss_queue s))"
    using q'(4) queue_items_length [of q'] by (simp split: if_splits)
  have d: "unat (saturating_sub_u64 (ss_demand s) 1) = unat (ss_demand s) - 1"
    by (simp add: unat_saturating_sub_u64)
  let ?s = "(consume_demand s)\<lparr>ss_queue := q'\<rparr>"
  have "stream_inv ?s"
    using inv q'(2,3) len d unfolding pos by (auto simp: stream_inv_def consume_demand_def)
  then show thesis
    using q' by (intro that [of ?s]) (simp_all add: stream_emit_def stream_items_def consume_demand_def)
qed

text \<open>A stream that says its producer can produce takes the element.\<close>

lemma producer_can_produce_demand: "producer_can_produce s \<Longrightarrow> 0 < ss_demand s"
  by (simp add: producer_can_produce_def)

lemma producer_can_produce_room:
  "stream_inv s \<Longrightarrow> 0 < ss_demand s \<longleftrightarrow> \<not> queue_is_full (ss_queue s)"
  by (auto simp: stream_inv_def queue_is_full_def queue_inv_def word_less_nat_alt)

end
