(* ===== verification/Rea_Scheduling.thy ===== *)
theory Rea_Scheduling
  imports Rea_Topology Rea_Stream
begin

text \<open>
  \<open>torvyn-reactor/src/scheduling.rs\<close>: the index from stages to streams and the demand-driven
  policy, which walks the stages from the sinks towards the sources and runs the first one that
  is ready. As before \<open>None\<close> is a panic; the lemmas show that with a validated topology and an
  index built from it no lookup is out of range, and say which stage is chosen.
\<close>

section \<open>Definitions\<close>

datatype stage_action =
    PullFromSource
  | ProcessElement stream_id
  | PushToSink stream_id

record stage_execution =
  sx_component_id :: component_id
  sx_stage_index :: usize
  sx_action :: stage_action

record stream_index =
  si_inputs :: "nat list list"
  si_outputs :: "nat list list"
  si_producers :: "nat list"

text \<open>\<open>v[i]\<close>: a lookup that panics out of range.\<close>

definition index_vec :: "'a list \<Rightarrow> nat \<Rightarrow> 'a option" where
  "index_vec xs i = (if i < length xs then Some (xs ! i) else None)"

text \<open>The loop of \<open>StreamIndex::build\<close>; the connections are numbered from \<open>k\<close>.\<close>

fun index_connections :: "nat \<Rightarrow> stream_index \<Rightarrow> (nat \<times> nat) list \<Rightarrow> stream_index option" where
  "index_connections k x [] = Some x"
| "index_connections k x ((u, v) # es) =
     (if u < length (si_outputs x) \<and> v < length (si_inputs x) \<and> k < length (si_producers x)
      then index_connections (k + 1)
             (x\<lparr>si_outputs := (si_outputs x)[u := si_outputs x ! u @ [k]],
                si_inputs := (si_inputs x)[v := si_inputs x ! v @ [k]],
                si_producers := (si_producers x)[k := u]\<rparr>) es
      else None)"

definition stream_index_build :: "flow_topology \<Rightarrow> stream_index option" where
  "stream_index_build t =
     (let n = length (ft_stages t)
      in index_connections 0
           \<lparr>si_inputs = replicate n [], si_outputs = replicate n [],
            si_producers = replicate (length (ft_connections t)) 0\<rparr> (edges t))"

text \<open>\<open>any\<close> and \<open>all\<close> over stream indices, stopping at the first stream that decides.\<close>

fun any_stream :: "(stream_state \<Rightarrow> bool) \<Rightarrow> stream_state list \<Rightarrow> nat list \<Rightarrow> bool option" where
  "any_stream P streams [] = Some False"
| "any_stream P streams (i # is) =
     Option.bind (index_vec streams i) (\<lambda>s. if P s then Some True else any_stream P streams is)"

fun all_streams :: "(stream_state \<Rightarrow> bool) \<Rightarrow> stream_state list \<Rightarrow> nat list \<Rightarrow> bool option" where
  "all_streams P streams [] = Some True"
| "all_streams P streams (i # is) =
     Option.bind (index_vec streams i) (\<lambda>s. if P s then all_streams P streams is else Some False)"

text \<open>The loop that looks for the first input stream with an element.\<close>

fun first_input :: "stream_state list \<Rightarrow> nat list \<Rightarrow> stream_id option option" where
  "first_input streams [] = Some None"
| "first_input streams (i # is) =
     Option.bind (index_vec streams i) (\<lambda>s.
       if consumer_has_input s then Some (Some (ss_id s)) else first_input streams is)"

text \<open>The body of the walk: what to do with the stage, if it is ready.\<close>

definition stage_ready ::
    "flow_topology \<Rightarrow> stream_state list \<Rightarrow> stream_index \<Rightarrow> nat \<Rightarrow> stage_execution option option" where
  "stage_ready t streams x i =
     Option.bind (index_vec (ft_stages t) i) (\<lambda>stage.
     let exec = (\<lambda>act. \<lparr>sx_component_id = sd_component_id stage, sx_stage_index = i, sx_action = act\<rparr>);
         process = (\<lambda>has_input has_capacity.
           if has_input \<and> has_capacity then
             Option.bind (index_vec (si_inputs x) i) (\<lambda>ins.
               map_option (map_option (\<lambda>s. exec (ProcessElement s))) (first_input streams ins))
           else Some None)
     in case sd_role stage of
          Sink \<Rightarrow>
            Option.bind (index_vec (si_inputs x) i) (\<lambda>ins.
              map_option (map_option (\<lambda>s. exec (PushToSink s))) (first_input streams ins))
        | Source \<Rightarrow>
            Option.bind (index_vec (si_outputs x) i) (\<lambda>outs.
              map_option (\<lambda>b. if b then Some (exec PullFromSource) else None)
                (any_stream producer_can_produce streams outs))
        | Router \<Rightarrow>
            Option.bind (index_vec (si_inputs x) i) (\<lambda>ins.
            Option.bind (any_stream consumer_has_input streams ins) (\<lambda>has_input.
            Option.bind (index_vec (si_outputs x) i) (\<lambda>outs.
            Option.bind (any_stream producer_can_produce streams outs) (\<lambda>has_capacity.
              process has_input has_capacity))))
        | role \<Rightarrow>
            Option.bind (index_vec (si_inputs x) i) (\<lambda>ins.
            Option.bind (any_stream consumer_has_input streams ins) (\<lambda>has_input.
            Option.bind (index_vec (si_outputs x) i) (\<lambda>outs.
            Option.bind (all_streams producer_can_produce streams outs) (\<lambda>has_capacity.
              process has_input (has_capacity \<or> role = Filter))))))"

text \<open>The first stage of the list that is ready.\<close>

fun first_ready ::
    "flow_topology \<Rightarrow> stream_state list \<Rightarrow> stream_index \<Rightarrow> nat list \<Rightarrow> stage_execution option option"
  where
  "first_ready t streams x [] = Some None"
| "first_ready t streams x (i # is) =
     (case stage_ready t streams x i of
        None \<Rightarrow> None
      | Some (Some e) \<Rightarrow> Some (Some e)
      | Some None \<Rightarrow> first_ready t streams x is)"

definition next_ready_stage ::
    "flow_topology \<Rightarrow> stream_state list \<Rightarrow> stream_index \<Rightarrow> stage_execution option option" where
  "next_ready_stage t streams x =
     Option.bind (topological_order t) (\<lambda>order. first_ready t streams x (rev order))"

section \<open>The index in closed form\<close>

definition ins_of :: "flow_topology \<Rightarrow> nat \<Rightarrow> nat list" where
  "ins_of t v = filter (\<lambda>k. snd (edges t ! k) = v) [0..<length (edges t)]"

definition outs_of :: "flow_topology \<Rightarrow> nat \<Rightarrow> nat list" where
  "outs_of t u = filter (\<lambda>k. fst (edges t ! k) = u) [0..<length (edges t)]"

definition index_of :: "flow_topology \<Rightarrow> stream_index" where
  "index_of t =
     \<lparr>si_inputs = map (ins_of t) [0..<length (ft_stages t)],
      si_outputs = map (outs_of t) [0..<length (ft_stages t)],
      si_producers = map fst (edges t)\<rparr>"

lemma length_edges [simp]: "length (edges t) = length (ft_connections t)"
  by (simp add: edges_def)

lemma index_connections_ok:
  assumes "in_range n es" and "es = drop k all" and "k \<le> length all"
    and "x = \<lparr>si_inputs = map (\<lambda>v. filter (\<lambda>j. snd (all ! j) = v) [0..<k]) [0..<n],
              si_outputs = map (\<lambda>u. filter (\<lambda>j. fst (all ! j) = u) [0..<k]) [0..<n],
              si_producers = map fst (take k all) @ replicate (length all - k) 0\<rparr>"
  shows "index_connections k x es =
    Some \<lparr>si_inputs = map (\<lambda>v. filter (\<lambda>j. snd (all ! j) = v) [0..<length all]) [0..<n],
          si_outputs = map (\<lambda>u. filter (\<lambda>j. fst (all ! j) = u) [0..<length all]) [0..<n],
          si_producers = map fst all\<rparr>"
  using assms
proof (induction k x es rule: index_connections.induct)
  case (1 k x)
  then have "k = length all" by simp
  with 1 show ?case by simp
next
  case (2 k x u v es)
  have k: "k < length all" and nth: "all ! k = (u, v)" and rest: "es = drop (Suc k) all"
    using "2.prems"(2,3)
    by (metis drop_all list.distinct(1) not_le, metis nth_via_drop, metis drop_Suc tl_drop list.sel(3))
  have r: "u < n" "v < n" "in_range n es" using "2.prems"(1) by simp_all
  have len: "u < length (si_outputs x) \<and> v < length (si_inputs x) \<and> k < length (si_producers x)"
    using r k by (simp add: "2.prems"(4))
  let ?x = "x\<lparr>si_outputs := (si_outputs x)[u := si_outputs x ! u @ [k]],
                si_inputs := (si_inputs x)[v := si_inputs x ! v @ [k]],
                si_producers := (si_producers x)[k := u]\<rparr>"
  have out: "(map (\<lambda>u. filter (\<lambda>j. fst (all ! j) = u) [0..<k]) [0..<n])[u :=
      filter (\<lambda>j. fst (all ! j) = u) [0..<k] @ [k]] = map (\<lambda>u. filter (\<lambda>j. fst (all ! j) = u) [0..<Suc k]) [0..<n]"
    using nth r by (intro nth_equalityI) (auto simp: nth_list_update)
  have inp: "(map (\<lambda>u. filter (\<lambda>j. snd (all ! j) = u) [0..<k]) [0..<n])[v :=
      filter (\<lambda>j. snd (all ! j) = v) [0..<k] @ [k]] = map (\<lambda>u. filter (\<lambda>j. snd (all ! j) = u) [0..<Suc k]) [0..<n]"
    using nth r by (intro nth_equalityI) (auto simp: nth_list_update)
  have prod: "(map fst (take k all) @ replicate (length all - k) 0)[k := u] =
      map fst (take (Suc k) all) @ replicate (length all - Suc k) 0"
    using k nth by (auto simp: list_update_append take_Suc_conv_app_nth Suc_diff_Suc [symmetric])
  have "?x = \<lparr>si_inputs = map (\<lambda>v. filter (\<lambda>j. snd (all ! j) = v) [0..<k + 1]) [0..<n],
              si_outputs = map (\<lambda>u. filter (\<lambda>j. fst (all ! j) = u) [0..<k + 1]) [0..<n],
              si_producers = map fst (take (k + 1) all) @ replicate (length all - (k + 1)) 0\<rparr>"
    using out inp prod r by (simp add: "2.prems"(4))
  from "2.IH" [OF len r(3) _ _ this] rest k len show ?case by simp
qed

lemma stream_index_build_eq:
  assumes "in_range (length (ft_stages t)) (edges t)"
  shows "stream_index_build t = Some (index_of t)"
proof -
  have "index_connections 0 \<lparr>si_inputs = replicate (length (ft_stages t)) [],
      si_outputs = replicate (length (ft_stages t)) [], si_producers = replicate (length (edges t)) 0\<rparr>
      (edges t) = Some (index_of t)"
    unfolding index_of_def ins_of_def outs_of_def
    by (rule index_connections_ok) (use assms in \<open>auto simp: map_replicate_const\<close>)
  then show ?thesis by (simp add: stream_index_build_def Let_def)
qed

section \<open>The choice of the policy\<close>

text \<open>A stage of each role is ready when its inputs and outputs allow one call of it.\<close>

definition has_input_at :: "flow_topology \<Rightarrow> stream_state list \<Rightarrow> nat \<Rightarrow> bool" where
  "has_input_at t streams i \<longleftrightarrow> (\<exists>k \<in> set (ins_of t i). consumer_has_input (streams ! k))"

definition stage_is_ready :: "flow_topology \<Rightarrow> stream_state list \<Rightarrow> nat \<Rightarrow> bool" where
  "stage_is_ready t streams i \<longleftrightarrow>
     (case sd_role (ft_stages t ! i) of
        Sink \<Rightarrow> has_input_at t streams i
      | Filter \<Rightarrow> has_input_at t streams i
      | Source \<Rightarrow> (\<exists>k \<in> set (outs_of t i). producer_can_produce (streams ! k))
      | Router \<Rightarrow> has_input_at t streams i \<and>
                  (\<exists>k \<in> set (outs_of t i). producer_can_produce (streams ! k))
      | Processor \<Rightarrow> has_input_at t streams i \<and>
                  (\<forall>k \<in> set (outs_of t i). producer_can_produce (streams ! k)))"

text \<open>The input it reads is the first, in the order of the connections, that holds an element.\<close>

definition chosen_input :: "flow_topology \<Rightarrow> stream_state list \<Rightarrow> nat \<Rightarrow> nat" where
  "chosen_input t streams i = hd (filter (\<lambda>k. consumer_has_input (streams ! k)) (ins_of t i))"

definition stage_exec :: "flow_topology \<Rightarrow> stream_state list \<Rightarrow> nat \<Rightarrow> stage_execution" where
  "stage_exec t streams i =
     \<lparr>sx_component_id = sd_component_id (ft_stages t ! i), sx_stage_index = i,
      sx_action =
        (case sd_role (ft_stages t ! i) of
           Source \<Rightarrow> PullFromSource
         | Sink \<Rightarrow> PushToSink (ss_id (streams ! chosen_input t streams i))
         | _ \<Rightarrow> ProcessElement (ss_id (streams ! chosen_input t streams i)))\<rparr>"

lemma any_stream_eq:
  "\<forall>k \<in> set is. k < length streams \<Longrightarrow> any_stream P streams is = Some (\<exists>k \<in> set is. P (streams ! k))"
  by (induction "is") (auto simp: index_vec_def)

lemma all_streams_eq:
  "\<forall>k \<in> set is. k < length streams \<Longrightarrow> all_streams P streams is = Some (\<forall>k \<in> set is. P (streams ! k))"
  by (induction "is") (auto simp: index_vec_def)

lemma first_input_eq:
  "\<forall>k \<in> set is. k < length streams \<Longrightarrow>
   first_input streams is =
     Some (case filter (\<lambda>k. consumer_has_input (streams ! k)) is of
             [] \<Rightarrow> None | k # _ \<Rightarrow> Some (ss_id (streams ! k)))"
  by (induction "is") (auto simp: index_vec_def)

lemma ins_of_less: "k \<in> set (ins_of t i) \<Longrightarrow> k < length (ft_connections t)"
  by (simp add: ins_of_def)

lemma outs_of_less: "k \<in> set (outs_of t i) \<Longrightarrow> k < length (ft_connections t)"
  by (simp add: outs_of_def)

lemma first_input_chosen:
  assumes "length streams = length (ft_connections t)"
  shows "first_input streams (ins_of t i) =
    Some (if has_input_at t streams i then Some (ss_id (streams ! chosen_input t streams i)) else None)"
proof -
  have "\<forall>k \<in> set (ins_of t i). k < length streams" using assms ins_of_less by metis
  note eq = first_input_eq [OF this]
  show ?thesis
  proof (cases "filter (\<lambda>k. consumer_has_input (streams ! k)) (ins_of t i)")
    case Nil
    then have "\<not> has_input_at t streams i" by (auto simp: has_input_at_def filter_empty_conv)
    with Nil eq show ?thesis by simp
  next
    case (Cons k ks)
    then have "k \<in> set (filter (\<lambda>k. consumer_has_input (streams ! k)) (ins_of t i))" by simp
    then have "has_input_at t streams i" by (auto simp: has_input_at_def)
    with Cons eq show ?thesis by (simp add: chosen_input_def)
  qed
qed

lemma stage_ready_eq:
  assumes len: "length streams = length (ft_connections t)" and i: "i < length (ft_stages t)"
  shows "stage_ready t streams (index_of t) i =
    Some (if stage_is_ready t streams i then Some (stage_exec t streams i) else None)"
proof -
  have "\<forall>k \<in> set (ins_of t i). k < length streams" "\<forall>k \<in> set (outs_of t i). k < length streams"
    using len ins_of_less outs_of_less by metis+
  note eqs = any_stream_eq [OF this(1)] any_stream_eq [OF this(2)] all_streams_eq [OF this(2)]
  have ix: "index_vec (si_inputs (index_of t)) i = Some (ins_of t i)"
    "index_vec (si_outputs (index_of t)) i = Some (outs_of t i)"
    "index_vec (ft_stages t) i = Some (ft_stages t ! i)"
    using i by (simp_all add: index_vec_def index_of_def)
  note fi = first_input_chosen [OF len]
  have hi: "(\<exists>k \<in> set (ins_of t i). consumer_has_input (streams ! k)) = has_input_at t streams i"
    by (simp add: has_input_at_def)
  show ?thesis
    unfolding stage_ready_def ix bind.simps Let_def eqs fi hi
    by (cases "sd_role (ft_stages t ! i)") (simp_all add: stage_is_ready_def stage_exec_def)
qed

lemma first_ready_eq:
  assumes "length streams = length (ft_connections t)" and "\<forall>i \<in> set is. i < length (ft_stages t)"
  shows "first_ready t streams (index_of t) is =
    Some (map_option (stage_exec t streams) (find (stage_is_ready t streams) is))"
  using assms(2) by (induction "is") (auto simp: stage_ready_eq [OF assms(1)])

lemma next_ready_stage_eq:
  assumes "length streams = length (ft_connections t)"
    and "topological_order t = Some order" and "set order \<subseteq> {..<length (ft_stages t)}"
  shows "next_ready_stage t streams (index_of t) =
    Some (map_option (stage_exec t streams) (find (stage_is_ready t streams) (rev order)))"
proof -
  have "\<forall>i \<in> set (rev order). i < length (ft_stages t)" using assms(3) by auto
  from first_ready_eq [OF assms(1) this] assms(2) show ?thesis by (simp add: next_ready_stage_def)
qed

lemma valid_topology_order:
  assumes "valid_topology t"
  obtains order where "topological_order t = Some order" "distinct order"
    "set order = {..<length (ft_stages t)}" "forward (edges t) order"
proof -
  have range: "in_range (length (ft_stages t)) (edges t)" and acyc: "acyclic (set (edges t))"
    using assms by (simp_all add: valid_topology_def Let_def)
  obtain deg order where o: "topological_order t = Some order"
    "kahn_inv (length (ft_stages t)) (edges t) deg [] order" by (rule topological_order_ok [OF range])
  from kahn_done_complete [OF o(2) range acyc] o that show thesis by (auto simp: kahn_inv_def)
qed

text \<open>What the driver relies on: the chosen stage exists and is ready, and \<open>None\<close> means that no stage is.\<close>

lemma next_ready_stage_cases:
  assumes valid: "valid_topology t" and len: "length streams = length (ft_connections t)"
  obtains (idle) "next_ready_stage t streams (index_of t) = Some None"
      "\<forall>i < length (ft_stages t). \<not> stage_is_ready t streams i"
  | (run) i where "next_ready_stage t streams (index_of t) = Some (Some (stage_exec t streams i))"
      "i < length (ft_stages t)" "stage_is_ready t streams i"
proof -
  obtain order where o: "topological_order t = Some order" "set order = {..<length (ft_stages t)}"
    by (rule valid_topology_order [OF valid])
  have eq: "next_ready_stage t streams (index_of t) =
    Some (map_option (stage_exec t streams) (find (stage_is_ready t streams) (rev order)))"
    using o by (intro next_ready_stage_eq [OF len]) simp_all
  show thesis
  proof (cases "find (stage_is_ready t streams) (rev order)")
    case None
    then have "\<forall>i < length (ft_stages t). \<not> stage_is_ready t streams i"
      using o(2) by (auto simp: find_None_iff)
    with None eq show thesis by (intro idle) simp_all
  next
    case (Some i)
    then have "i \<in> set (rev order)" "stage_is_ready t streams i"
      by (auto simp: find_Some_iff simp del: set_rev)
    with Some eq o(2) show thesis by (intro run [of i]) auto
  qed
qed

end
