(* ===== verification/Rea_Driver.thy ===== *)
theory Rea_Driver
  imports Rea_Scheduling
begin

text \<open>
  \<open>torvyn-reactor/src/flow_driver.rs\<close>: the task that runs one flow.

  The driver is a state machine over its record; what the outside does to it is given turn by
  turn in a record \<open>turn\<close>: the answers of the components it calls (\<open>ComponentInvoker\<close>, where a
  call may also run into the invocation timeout), the cancellations requested through the shared
  token, the clock readings, and the event that ends an idle wait. All readings of the clock in
  one phase of a turn (before, during and after the call, and after the stage) are one instant.
  Calls, records sent to the event sink, reactor events and notifications are appended to
  \<open>fd_log\<close> in the order in which the code makes them; \<open>try_send\<close> may drop an event when the
  channel is full, so the log holds what was sent, not what was received. \<open>None\<close> is a panic.

  The component instances live in the engine; the driver only indexes their vector, so the
  model keeps its length.
\<close>

section \<open>Errors as text, and as cancellation reasons\<close>

definition em_dash :: string where
  "em_dash = [CHR 0xE2, CHR 0x80, CHR 0x94]"

definition quoted :: "string \<Rightarrow> string" where
  "quoted s = [CHR 0x27] @ s @ [CHR 0x27]"

fun process_error_display :: "process_error \<Rightarrow> string" where
  "process_error_display (InvalidInput msg) =
     ''process error: invalid input '' @ em_dash @ '' '' @ msg @
     ''. Check that upstream components produce elements matching this component's expected schema.''"
| "process_error_display (Unavailable msg) =
     ''process error: resource unavailable '' @ em_dash @ '' '' @ msg @
     ''. Verify that required capabilities are granted and downstream services are reachable.''"
| "process_error_display (Internal msg) =
     ''process error: internal error '' @ em_dash @ '' '' @ msg @
     ''. This indicates a bug in the component. Check component logs and consider filing a bug report.''"
| "process_error_display DeadlineExceeded =
     ''process error: deadline exceeded. The component did not complete within its allotted time. '' @
     ''Consider increasing the timeout or optimizing the component's processing logic.''"
| "process_error_display (Fatal msg) =
     ''process error: FATAL '' @ em_dash @ '' '' @ msg @
     ''. The component has entered a terminal failure state and cannot process further elements. '' @
     ''The flow will be terminated.''"

text \<open>\<open>show_duration\<close> is the \<open>Debug\<close> form of a duration in the standard library.\<close>

fun flow_error_display :: "(duration \<Rightarrow> string) \<Rightarrow> flow_error \<Rightarrow> string" where
  "flow_error_display show_duration (ComponentError c e) =
     ''[E0420] Component '' @ quoted (show_component c) @ '' error: '' @ process_error_display e"
| "flow_error_display show_duration (FlowDeadlineExceeded deadline elapsed) =
     ''[E0421] Flow deadline exceeded: allowed '' @ show_duration deadline @ '', elapsed '' @
     show_duration elapsed @ ''. Increase the flow deadline or optimize component processing.''"
| "flow_error_display show_duration (ComponentTimeout c timeout) =
     ''[E0422] Component '' @ quoted (show_component c) @ '' invocation timed out after '' @
     show_duration timeout @
     ''. Increase the per-component timeout or investigate the component's processing time.''"
| "flow_error_display show_duration (ResourceExhausted detail) =
     ''[E0423] Resource exhaustion: '' @ detail @
     ''. Release unused buffers or increase memory budgets.''"
| "flow_error_display show_duration (DrainTimeout timeout) =
     ''[E0424] Drain phase timed out after '' @ show_duration timeout @
     ''. Remaining elements were discarded. Increase drain timeout '' @
     ''or investigate slow consumer components.''"
| "flow_error_display show_duration (FlowInternal msg) =
     ''[E0429] Internal reactor error: '' @ msg @ ''. This is a bug.''"

fun cancellation_reason_for :: "(duration \<Rightarrow> string) \<Rightarrow> flow_error \<Rightarrow> component_id \<Rightarrow> cancellation_reason" where
  "cancellation_reason_for show_duration (ComponentError c e) executing = DownstreamError c e"
| "cancellation_reason_for show_duration (ComponentTimeout c t) executing = DownstreamError c DeadlineExceeded"
| "cancellation_reason_for show_duration (FlowDeadlineExceeded d elapsed) executing = FlowTimeout elapsed"
| "cancellation_reason_for show_duration (ResourceExhausted detail) executing = ResourceExhaustion detail"
| "cancellation_reason_for show_duration e executing =
     DownstreamError executing (Internal (flow_error_display show_duration e))"

section \<open>The driver's state\<close>

datatype invocation_status = StatusOk | StatusError process_error_kind | StatusTimeout | StatusCancelled

text \<open>What a component returns for an element; of its metadata only the content type is read.\<close>

record output_element =
  oe_meta :: element_meta
  oe_payload :: buffer_handle

datatype process_result = Output output_element | Filtered | Multiple "output_element list"

datatype 'a reply = ReplyTimeout | ReplyErr process_error | ReplyOk 'a

datatype idle_event = IdleCancelled cancellation_reason | IdleDeadline instant | IdleTick

record turn =
  tn_cancels :: "cancellation_reason list"
  tn_start :: instant
  tn_now :: instant
  tn_end :: instant
  tn_after :: instant
  tn_wall :: u64
  tn_pull :: "output_element option reply"
  tn_process :: "process_result reply"
  tn_push :: "backpressure_signal reply"
  tn_idle :: idle_event

datatype driver_event =
    CalledPull component_id
  | CalledProcess component_id element_meta buffer_handle
  | CalledPush component_id element_meta buffer_handle
  | CalledNotify component_id backpressure_signal
  | RecordedInvocation component_id u64 u64 invocation_status
  | RecordedSpan component_id u64 u64 u64 invocation_status
  | RecordedTransfer stream_id u64 u32
  | RecordedLatency u64
  | RecordedBackpressure stream_id bool u32 u64
  | FlowStateChanged flow_state flow_state
  | FlowYielded u64
  | FlowCompletedEvent flow_completion_stats

record flow_driver =
  fd_flow_id :: flow_id
  fd_topology :: flow_topology
  fd_streams :: "stream_state list"
  fd_stream_index :: stream_index
  fd_instances :: usize
  fd_component_metrics :: "component_metrics list"
  fd_cancellation :: flow_cancellation
  fd_timeouts :: timeout_config
  fd_error_policy :: error_policy
  fd_yield_ctrl :: yield_controller
  fd_state :: flow_state
  fd_started_at :: "instant option"
  fd_next_global_sequence :: u64
  fd_epoch_anchor :: "(instant \<times> u64) option"
  fd_current_element_sequence :: "u64 option"
  fd_log :: "driver_event list"

record flow_config =
  cfg_topology :: flow_topology
  cfg_priority :: flow_priority
  cfg_timeouts :: timeout_config
  cfg_default_backpressure_policy :: backpressure_policy
  cfg_default_queue_capacity :: usize
  cfg_default_low_watermark_ratio :: u64
  cfg_yield_config :: yield_config
  cfg_error_policy :: error_policy

definition driver_new ::
    "flow_id \<Rightarrow> flow_config \<Rightarrow> usize \<Rightarrow> stream_state list \<Rightarrow> flow_cancellation \<Rightarrow> instant \<Rightarrow>
     flow_driver option" where
  "driver_new f cfg instances streams cancellation now =
     map_option (\<lambda>x.
       \<lparr>fd_flow_id = f, fd_topology = cfg_topology cfg, fd_streams = streams, fd_stream_index = x,
        fd_instances = instances,
        fd_component_metrics = replicate (length (ft_stages (cfg_topology cfg))) component_metrics_new,
        fd_cancellation = cancellation, fd_timeouts = cfg_timeouts cfg,
        fd_error_policy = cfg_error_policy cfg,
        fd_yield_ctrl = yield_new now (priority_elements_per_yield (cfg_priority cfg))
          (ycfg_time_quantum (cfg_yield_config cfg)),
        fd_state = FlowInstantiated, fd_started_at = None, fd_next_global_sequence = 0,
        fd_epoch_anchor = None, fd_current_element_sequence = None, fd_log = []\<rparr>)
       (stream_index_build (cfg_topology cfg))"

definition log_event :: "driver_event \<Rightarrow> flow_driver \<Rightarrow> flow_driver" where
  "log_event e d = d\<lparr>fd_log := fd_log d @ [e]\<rparr>"

definition log_events :: "driver_event list \<Rightarrow> flow_driver \<Rightarrow> flow_driver" where
  "log_events es d = d\<lparr>fd_log := fd_log d @ es\<rparr>"

text \<open>A monotonic instant as nanoseconds since the epoch; \<open>wall\<close> is the wall clock.\<close>

definition epoch_ns :: "flow_driver \<Rightarrow> u64 \<Rightarrow> instant \<Rightarrow> u64" where
  "epoch_ns d wall at =
     (case fd_epoch_anchor d of
        Some (anchor, anchor_ns) \<Rightarrow> saturating_add_u64 anchor_ns (of_nat (at - anchor))
      | None \<Rightarrow> wall)"

definition set_stream :: "nat \<Rightarrow> stream_state \<Rightarrow> flow_driver \<Rightarrow> flow_driver" where
  "set_stream k s d = d\<lparr>fd_streams := (fd_streams d)[k := s]\<rparr>"

text \<open>\<open>producer_complete = true\<close> on the streams of a list of indices.\<close>

fun mark_complete :: "nat list \<Rightarrow> flow_driver \<Rightarrow> flow_driver option" where
  "mark_complete [] d = Some d"
| "mark_complete (k # ks) d =
     Option.bind (index_vec (fd_streams d) k) (\<lambda>s.
       mark_complete ks (set_stream k (s\<lparr>ss_producer_complete := True\<rparr>) d))"

section \<open>Executing a stage\<close>

type_synonym exec_result = "((flow_error + unit) \<times> flow_driver) option"

text \<open>The two errors of a call: the invocation timed out, or the component returned an error.\<close>

fun reply_result :: "flow_driver \<Rightarrow> component_id \<Rightarrow> 'a reply \<Rightarrow> flow_error + 'a" where
  "reply_result d c ReplyTimeout =
     Inl (ComponentTimeout c (to_component_invocation_timeout (fd_timeouts d)))"
| "reply_result d c (ReplyErr e) = Inl (ComponentError c e)"
| "reply_result d c (ReplyOk x) = Inr x"

definition take_sequence :: "flow_driver \<Rightarrow> u64 \<times> flow_driver" where
  "take_sequence d =
     (fd_next_global_sequence d, d\<lparr>fd_next_global_sequence := fd_next_global_sequence d + 1\<rparr>)"

definition record_stream_enqueue :: "instant \<Rightarrow> stream_state \<Rightarrow> stream_state" where
  "record_stream_enqueue now s =
     s\<lparr>ss_metrics := sm_record_enqueue (ss_metrics s) (of_nat (q_len (ss_queue s))) now\<rparr>"

definition execute_pull :: "turn \<Rightarrow> nat \<Rightarrow> component_id \<Rightarrow> flow_driver \<Rightarrow> exec_result" where
  "execute_pull t i c d =
     (if \<not> i < fd_instances d then None
      else
        let d = log_event (CalledPull c) d
        in case reply_result d c (tn_pull t) of
             Inl e \<Rightarrow> Some (Inl e, d)
           | Inr (Some out) \<Rightarrow>
               Option.bind (index_vec (si_outputs (fd_stream_index d)) i) (\<lambda>outs.
               case outs of
                 [] \<Rightarrow> Some (Inr (), d)
               | k # _ \<Rightarrow>
                   let (seq, d) = take_sequence d;
                       d = d\<lparr>fd_current_element_sequence := Some seq\<rparr>;
                       x = \<lparr>se_sequence = seq, se_origin_sequence = seq, se_buffer_handle = oe_payload out,
                            se_meta = \<lparr>em_sequence = seq, em_timestamp_ns = tn_wall t,
                                       em_content_type = em_content_type (oe_meta out)\<rparr>,
                            se_enqueued_at = tn_now t\<rparr>
                   in Option.bind (index_vec (fd_streams d) k) (\<lambda>s.
                      Option.bind (stream_emit s x) (\<lambda>(r, s).
                      case r of
                        PushOk \<Rightarrow>
                          Some (Inr (), log_event (RecordedTransfer (ss_id s) seq (of_nat (q_len (ss_queue s))))
                                          (set_stream k (record_stream_enqueue (tn_now t) s) d))
                      | _ \<Rightarrow> Some (Inr (), set_stream k s d))))
           | Inr None \<Rightarrow>
               Option.bind (index_vec (si_outputs (fd_stream_index d)) i) (\<lambda>outs.
               map_option (\<lambda>d. (Inr (), d)) (mark_complete outs d)))"

text \<open>The first stream with an identifier, as \<open>position\<close> and \<open>expect\<close> find it.\<close>

fun stream_position :: "stream_id \<Rightarrow> nat \<Rightarrow> stream_state list \<Rightarrow> nat option" where
  "stream_position x k [] = None"
| "stream_position x k (s # ss) = (if ss_id s = x then Some k else stream_position x (k + 1) ss)"

text \<open>Popping the input of a processor or a sink, with its credit given back.\<close>

definition take_input ::
    "stream_id \<Rightarrow> flow_driver \<Rightarrow> (stream_element_ref \<times> flow_driver) option" where
  "take_input x d =
     Option.bind (stream_position x 0 (fd_streams d)) (\<lambda>k.
     Option.bind (index_vec (fd_streams d) k) (\<lambda>s.
     map_option (\<lambda>(elem, s). (elem, set_stream k s d)) (stream_take s)))"

text \<open>One output of a processor: the result of the push is ignored.\<close>

definition enqueue_output ::
    "turn \<Rightarrow> u64 \<Rightarrow> u64 \<Rightarrow> nat \<Rightarrow> output_element \<Rightarrow> flow_driver \<Rightarrow> flow_driver option" where
  "enqueue_output t origin origin_ts k out d =
     (let (seq, d) = take_sequence d;
          x = \<lparr>se_sequence = seq, se_origin_sequence = origin, se_buffer_handle = oe_payload out,
               se_meta = \<lparr>em_sequence = seq, em_timestamp_ns = origin_ts,
                          em_content_type = em_content_type (oe_meta out)\<rparr>,
               se_enqueued_at = tn_now t\<rparr>
      in Option.bind (index_vec (fd_streams d) k) (\<lambda>s.
         map_option (\<lambda>(_, s). set_stream k (record_stream_enqueue (tn_now t) s) d) (stream_emit s x)))"

text \<open>The outputs of a fan-out go to the output streams in order; those without a stream are lost.\<close>

fun enqueue_outputs ::
    "turn \<Rightarrow> u64 \<Rightarrow> u64 \<Rightarrow> nat list \<Rightarrow> output_element list \<Rightarrow> flow_driver \<Rightarrow> flow_driver option" where
  "enqueue_outputs t origin origin_ts (k # ks) (out # outs) d =
     Option.bind (enqueue_output t origin origin_ts k out d) (enqueue_outputs t origin origin_ts ks outs)"
| "enqueue_outputs t origin origin_ts _ _ d = Some d"

definition execute_process ::
    "turn \<Rightarrow> nat \<Rightarrow> component_id \<Rightarrow> stream_id \<Rightarrow> flow_driver \<Rightarrow> exec_result" where
  "execute_process t i c input d =
     (if \<not> i < fd_instances d then None
      else
        Option.bind (take_input input d) (\<lambda>(elem, d).
        let origin = se_origin_sequence elem; origin_ts = em_timestamp_ns (se_meta elem);
            d = d\<lparr>fd_current_element_sequence := Some origin\<rparr>;
            d = log_event (CalledProcess c (se_meta elem) (se_buffer_handle elem)) d
        in case reply_result d c (tn_process t) of
             Inl e \<Rightarrow> Some (Inl e, d)
           | Inr Filtered \<Rightarrow> Some (Inr (), d)
           | Inr (Output out) \<Rightarrow>
               Option.bind (index_vec (si_outputs (fd_stream_index d)) i) (\<lambda>ks.
               case ks of
                 [] \<Rightarrow> Some (Inr (), d)
               | k # _ \<Rightarrow> map_option (\<lambda>d. (Inr (), d)) (enqueue_output t origin origin_ts k out d))
           | Inr (Multiple outs) \<Rightarrow>
               Option.bind (index_vec (si_outputs (fd_stream_index d)) i) (\<lambda>ks.
               map_option (\<lambda>d. (Inr (), d)) (enqueue_outputs t origin origin_ts ks outs d))))"

definition execute_push ::
    "turn \<Rightarrow> nat \<Rightarrow> component_id \<Rightarrow> stream_id \<Rightarrow> flow_driver \<Rightarrow> exec_result" where
  "execute_push t i c input d =
     (if \<not> i < fd_instances d then None
      else
        Option.bind (take_input input d) (\<lambda>(elem, d).
        let d = d\<lparr>fd_current_element_sequence := Some (se_origin_sequence elem)\<rparr>;
            d = log_event (CalledPush c (se_meta elem) (se_buffer_handle elem)) d
        in case reply_result d c (tn_push t) of
             Inl e \<Rightarrow> Some (Inl e, d)
           | Inr _ \<Rightarrow>
               Some (Inr (), log_event (RecordedLatency
                 (saturating_sub_u64 (tn_wall t) (em_timestamp_ns (se_meta elem)))) d)))"

definition run_action :: "turn \<Rightarrow> stage_execution \<Rightarrow> flow_driver \<Rightarrow> exec_result" where
  "run_action t ex d =
     (case sx_action ex of
        PullFromSource \<Rightarrow> execute_pull t (sx_stage_index ex) (sx_component_id ex) d
      | ProcessElement s \<Rightarrow> execute_process t (sx_stage_index ex) (sx_component_id ex) s d
      | PushToSink s \<Rightarrow> execute_push t (sx_stage_index ex) (sx_component_id ex) s d)"

definition execute_stage :: "turn \<Rightarrow> stage_execution \<Rightarrow> flow_driver \<Rightarrow> exec_result" where
  "execute_stage t ex d =
     (let i = sx_stage_index ex; c = sx_component_id ex
      in Option.bind (run_action t ex (d\<lparr>fd_current_element_sequence := None\<rparr>)) (\<lambda>(r, d).
         Option.bind (index_vec (fd_component_metrics d) i) (\<lambda>m.
         let status = (case r of Inr _ \<Rightarrow> StatusOk | Inl e \<Rightarrow> StatusError (flow_error_kind e));
             start_ns = epoch_ns d (tn_wall t) (tn_start t);
             end_ns = epoch_ns d (tn_wall t) (tn_end t);
             d = d\<lparr>fd_component_metrics := (fd_component_metrics d)
                     [i := cm_record_invocation m (tn_end t - tn_start t) (isl r)]\<rparr>;
             d = log_event (RecordedInvocation c start_ns end_ns status) d
         in Some (r, case fd_current_element_sequence d of
                       None \<Rightarrow> d
                     | Some seq \<Rightarrow> log_event (RecordedSpan c seq start_ns end_ns status) d))))"

section \<open>After a stage: backpressure\<close>

text \<open>
  One stream of the loop of \<open>check_backpressure_all\<close>: its new state, the signal for its producer
  and the record for the event sink, when the state changed.
\<close>

definition check_backpressure ::
    "turn \<Rightarrow> stream_state \<Rightarrow> stream_state \<times> (backpressure_signal \<times> driver_event) option" where
  "check_backpressure t s =
     (let n = q_len (ss_queue s)
      in case check_backpressure_transition n (q_capacity (ss_queue s)) (ss_low_watermark_depth s)
                (bp_is_active (ss_backpressure s)) of
           None \<Rightarrow> (s, None)
         | Some True \<Rightarrow>
             (case bp_try_activate (ss_backpressure s) (tn_after t) of
                (True, b) \<Rightarrow>
                  (s\<lparr>ss_backpressure := b, ss_metrics := sm_record_backpressure_event (ss_metrics s)\<rparr>,
                   Some (Pause, RecordedBackpressure (ss_id s) True (of_nat n) (tn_wall t)))
              | (False, b) \<Rightarrow> (s\<lparr>ss_backpressure := b\<rparr>, None))
         | Some False \<Rightarrow>
             (case bp_try_deactivate (ss_backpressure s) (tn_after t) of
                (Some d, b) \<Rightarrow>
                  (s\<lparr>ss_backpressure := b, ss_metrics := sm_add_backpressure_duration (ss_metrics s) d\<rparr>,
                   Some (Ready, RecordedBackpressure (ss_id s) False (of_nat n) (tn_wall t)))
              | (None, b) \<Rightarrow> (s\<lparr>ss_backpressure := b\<rparr>, None)))"

fun check_backpressure_streams ::
    "turn \<Rightarrow> nat \<Rightarrow> stream_state list \<Rightarrow>
     stream_state list \<times> (nat \<times> backpressure_signal) list \<times> driver_event list" where
  "check_backpressure_streams t k [] = ([], [], [])"
| "check_backpressure_streams t k (s # ss) =
     (let (s', change) = check_backpressure t s;
          (ss', trs, evs) = check_backpressure_streams t (k + 1) ss
      in case change of
           None \<Rightarrow> (s' # ss', trs, evs)
         | Some (sig, ev) \<Rightarrow> (s' # ss', (k, sig) # trs, ev # evs))"

definition check_backpressure_all ::
    "turn \<Rightarrow> flow_driver \<Rightarrow> (nat \<times> backpressure_signal) list \<times> flow_driver" where
  "check_backpressure_all t d =
     (let (ss, trs, evs) = check_backpressure_streams t 0 (fd_streams d)
      in (trs, log_events evs (d\<lparr>fd_streams := ss\<rparr>)))"

text \<open>The lookups here are \<open>get\<close>s: a missing stage or instance is skipped.\<close>

definition notify_producer :: "flow_driver \<Rightarrow> nat \<times> backpressure_signal \<Rightarrow> driver_event list" where
  "notify_producer d tr =
     (case index_vec (si_producers (fd_stream_index d)) (fst tr) of
        None \<Rightarrow> []
      | Some i \<Rightarrow>
          (case index_vec (ft_stages (fd_topology d)) i of
             None \<Rightarrow> []
           | Some stage \<Rightarrow>
               if sd_role stage \<noteq> Source then []
               else if i < fd_instances d then [CalledNotify (sd_component_id stage) (snd tr)]
               else []))"

definition notify_producers :: "(nat \<times> backpressure_signal) list \<Rightarrow> flow_driver \<Rightarrow> flow_driver" where
  "notify_producers trs d = log_events (concat (map (notify_producer d) trs)) d"

section \<open>Completion\<close>

definition all_streams_complete :: "flow_driver \<Rightarrow> bool" where
  "all_streams_complete d \<longleftrightarrow> list_all stream_is_complete (fd_streams d)"

text \<open>One pass over the stages from \<open>i\<close>, in the order of their indices.\<close>

fun propagate_from :: "nat list \<Rightarrow> flow_driver \<Rightarrow> flow_driver option" where
  "propagate_from [] d = Some d"
| "propagate_from (i # is) d =
     Option.bind (index_vec (si_inputs (fd_stream_index d)) i) (\<lambda>ins.
     if ins = [] then propagate_from is d
     else
       Option.bind (all_streams stream_is_complete (fd_streams d) ins) (\<lambda>complete.
       if complete then
         Option.bind (index_vec (si_outputs (fd_stream_index d)) i) (\<lambda>outs.
         Option.bind (mark_complete outs d) (propagate_from is))
       else propagate_from is d))"

definition propagate_producer_complete :: "flow_driver \<Rightarrow> flow_driver option" where
  "propagate_producer_complete d = propagate_from [0..<length (ft_stages (fd_topology d))] d"

definition cancel_flow :: "cancellation_reason \<Rightarrow> flow_driver \<Rightarrow> flow_driver" where
  "cancel_flow r d = d\<lparr>fd_cancellation := cancel (fd_cancellation d) r\<rparr>"

section \<open>The main loop\<close>

text \<open>
  One turn. The flag says that the loop ends. The deadline event only occurs in a flow with a
  deadline; without one the sleep never fires and the wait ends by the tick.
\<close>

definition yield_check :: "turn \<Rightarrow> flow_driver \<Rightarrow> flow_driver" where
  "yield_check t d =
     (let y = yield_record_element (fd_yield_ctrl d)
      in if should_yield y (tn_after t)
         then log_event (FlowYielded (yc_elements_since_yield y))
                (d\<lparr>fd_yield_ctrl := yield_reset y (tn_after t)\<rparr>)
         else d\<lparr>fd_yield_ctrl := y\<rparr>)"

definition stage_turn ::
    "(duration \<Rightarrow> string) \<Rightarrow> turn \<Rightarrow> stage_execution \<Rightarrow> flow_driver \<Rightarrow> (flow_driver \<times> bool) option" where
  "stage_turn show_duration t ex d =
     Option.bind (execute_stage t ex d) (\<lambda>(r, d).
     let continue = (let (trs, d) = check_backpressure_all t d;
                         d = (if trs \<noteq> [] then notify_producers trs d else d)
                     in Some (yield_check t d, False))
     in case r of
          Inl e \<Rightarrow>
            (case fd_error_policy d of
               FailFast \<Rightarrow>
                 Some (cancel_flow (cancellation_reason_for show_duration e (sx_component_id ex)) d, True)
             | _ \<Rightarrow> continue)
        | Inr _ \<Rightarrow> continue)"

definition idle_turn :: "turn \<Rightarrow> flow_driver \<Rightarrow> (flow_driver \<times> bool) option" where
  "idle_turn t d =
     Option.bind (propagate_producer_complete d) (\<lambda>d.
     if all_streams_complete d then Some (cancel_flow SourceComplete d, True)
     else case tn_idle t of
            IdleCancelled r \<Rightarrow> Some (cancel_flow r d, True)
          | IdleDeadline at \<Rightarrow>
              if to_flow_deadline (fd_timeouts d) = None then Some (d, False)
              else map_option (\<lambda>started. (cancel_flow (FlowTimeout (at - started)) d, True))
                     (fd_started_at d)
          | IdleTick \<Rightarrow> Some (d, False))"

definition driver_turn ::
    "(duration \<Rightarrow> string) \<Rightarrow> turn \<Rightarrow> flow_driver \<Rightarrow> (flow_driver \<times> bool) option" where
  "driver_turn show_duration t d =
     (let d = fold cancel_flow (tn_cancels t) d
      in if is_cancelled (fd_cancellation d) then Some (d, True)
         else
           Option.bind (next_ready_stage (fd_topology d) (fd_streams d) (fd_stream_index d)) (\<lambda>next.
           case next of
             Some ex \<Rightarrow> stage_turn show_duration t ex d
           | None \<Rightarrow> idle_turn t d))"

text \<open>The turns of a run until the loop ends; the flag is false when the run needs more turns.\<close>

fun driver_loop ::
    "(duration \<Rightarrow> string) \<Rightarrow> turn list \<Rightarrow> flow_driver \<Rightarrow> (flow_driver \<times> bool) option" where
  "driver_loop show_duration [] d = Some (d, False)"
| "driver_loop show_duration (t # ts) d =
     Option.bind (driver_turn show_duration t d) (\<lambda>(d, stop).
     if stop then Some (d, True) else driver_loop show_duration ts d)"

definition emit_state_change :: "flow_state \<Rightarrow> flow_state \<Rightarrow> flow_driver \<Rightarrow> flow_driver" where
  "emit_state_change old new d = log_event (FlowStateChanged old new) d"

definition driver_start :: "instant \<Rightarrow> u64 \<Rightarrow> flow_driver \<Rightarrow> flow_driver" where
  "driver_start now wall d =
     emit_state_change FlowInstantiated FlowRunning
       (d\<lparr>fd_state := FlowRunning, fd_started_at := Some now, fd_epoch_anchor := Some (now, wall)\<rparr>)"

section \<open>Draining and the end of a run\<close>

text \<open>
  The loop of \<open>drain_queues\<close>: one turn per round that starts before the deadline. When the list
  of turns is exhausted the clock has reached the deadline.
\<close>

fun drain_loop :: "instant \<Rightarrow> turn list \<Rightarrow> flow_driver \<Rightarrow> flow_driver option" where
  "drain_loop deadline [] d = Some d"
| "drain_loop deadline (t # ts) d =
     (if tn_start t < deadline then
        Option.bind (next_ready_stage (fd_topology d) (fd_streams d) (fd_stream_index d)) (\<lambda>next.
        case next of
          None \<Rightarrow> Some d
        | Some ex \<Rightarrow> Option.bind (execute_stage t ex d) (\<lambda>(_, d). drain_loop deadline ts d))
      else Some d)"

fun discard_all :: "stream_state list \<Rightarrow> stream_state list option" where
  "discard_all [] = Some []"
| "discard_all (s # ss) =
     Option.bind (queue_drain_all (ss_queue s)) (\<lambda>(_, q).
     map_option (\<lambda>ss'. s\<lparr>ss_queue := q\<rparr> # ss') (discard_all ss))"

definition drain_queues :: "instant \<Rightarrow> turn list \<Rightarrow> flow_driver \<Rightarrow> flow_driver option" where
  "drain_queues now ts d =
     Option.bind (drain_loop (now + to_drain_timeout (fd_timeouts d)) ts d) (\<lambda>d.
     map_option (\<lambda>ss. d\<lparr>fd_streams := ss\<rparr>) (discard_all (fd_streams d)))"

text \<open>The stages without inputs stop producing.\<close>

fun close_sources :: "nat list \<Rightarrow> flow_driver \<Rightarrow> flow_driver option" where
  "close_sources [] d = Some d"
| "close_sources (i # is) d =
     Option.bind (index_vec (si_inputs (fd_stream_index d)) i) (\<lambda>ins.
     if ins = [] then
       Option.bind (index_vec (si_outputs (fd_stream_index d)) i) (\<lambda>outs.
       Option.bind (mark_complete outs d) (close_sources is))
     else close_sources is d)"

fun component_stats ::
    "flow_driver \<Rightarrow> nat \<Rightarrow> component_metrics list \<Rightarrow> flow_completion_stats \<Rightarrow> flow_completion_stats option"
  where
  "component_stats d i [] st = Some st"
| "component_stats d i (m # ms) st =
     Option.bind (index_vec (ft_stages (fd_topology d)) i) (\<lambda>stage.
       component_stats d (i + 1) ms
         (st\<lparr>fs_component_stats := (fs_component_stats st)(sd_component_id stage \<mapsto> m)\<rparr>))"

fun terminal_state :: "cancellation_reason option \<Rightarrow> flow_state" where
  "terminal_state (Some SourceComplete) = FlowCompleted"
| "terminal_state (Some OperatorRequest) = FlowCancelled"
| "terminal_state (Some _) = FlowFailed"
| "terminal_state None = FlowCompleted"

text \<open>
  What follows the main loop; \<open>now\<close> is read when the drain starts and \<open>fin\<close> at the end. The
  reason is read before the drain, so a cancellation during the drain does not count.
\<close>

definition driver_finish ::
    "instant \<Rightarrow> turn list \<Rightarrow> instant \<Rightarrow> flow_driver \<Rightarrow>
     (flow_id \<times> flow_state \<times> flow_completion_stats \<times> flow_driver) option" where
  "driver_finish now ts fin d =
     (let reason = cancellation_reason_of (fd_cancellation d);
          d = (emit_state_change FlowRunning FlowDraining d)\<lparr>fd_state := FlowDraining\<rparr>
      in Option.bind (close_sources [0..<length (ft_stages (fd_topology d))] d) (\<lambda>d.
         Option.bind (drain_queues now ts d) (\<lambda>d.
         Option.bind (fd_started_at d) (\<lambda>started.
         Option.bind (component_stats d 0 (fd_component_metrics d)
             (aggregate_from_streams (completion_stats_new (fin - started))
               (map (\<lambda>s. (ss_id s, ss_metrics s)) (fd_streams d)))) (\<lambda>stats.
         let final = terminal_state reason;
             d = (emit_state_change FlowDraining final d)\<lparr>fd_state := final\<rparr>;
             d = log_event (FlowCompletedEvent stats) d
         in Some (fd_flow_id d, final, stats, d))))))"

text \<open>A whole run; the inner \<open>None\<close> says that the turns given did not reach the end of the loop.\<close>

definition driver_run ::
    "(duration \<Rightarrow> string) \<Rightarrow> instant \<Rightarrow> u64 \<Rightarrow> turn list \<Rightarrow> instant \<Rightarrow> turn list \<Rightarrow> instant \<Rightarrow> flow_driver \<Rightarrow>
     (flow_id \<times> flow_state \<times> flow_completion_stats \<times> flow_driver) option option" where
  "driver_run show_duration start wall ts drain_start ds fin d =
     Option.bind (driver_loop show_duration ts (driver_start start wall d)) (\<lambda>(d, stop).
     if stop then map_option Some (driver_finish drain_start ds fin d) else Some None)"

section \<open>Outcomes\<close>

record flow_outcome =
  fo_state :: flow_state
  fo_reason :: "cancellation_reason option"

definition outcome_failed :: "flow_outcome \<Rightarrow> bool" where
  "outcome_failed out \<longleftrightarrow> fo_state out = FlowFailed"

definition failing_component :: "flow_outcome \<Rightarrow> component_id option" where
  "failing_component out = (case fo_reason out of Some (DownstreamError c _) \<Rightarrow> Some c | _ \<Rightarrow> None)"

definition outcome_component_error :: "flow_outcome \<Rightarrow> process_error option" where
  "outcome_component_error out = (case fo_reason out of Some (DownstreamError _ e) \<Rightarrow> Some e | _ \<Rightarrow> None)"

end
