(* ===== verification/Rea_Driver_Inv.thy ===== *)
theory Rea_Driver_Inv
  imports Rea_Driver
begin

text \<open>
  The invariant of a running driver and its abstraction: a network of bounded first-in first-out
  channels, one per connection, that a stage reads from and writes to. The lemmas show that no
  operation of the driver panics in a well-formed state, and what each does to the network.
\<close>

section \<open>Well-formed drivers\<close>

definition streams_ok :: "stream_state list \<Rightarrow> bool" where
  "streams_ok ss \<longleftrightarrow>
     length ss < 2 ^ 64 \<and>
     (\<forall>k < length ss. stream_inv (ss ! k) \<and> ss_id (ss ! k) = StreamId (of_nat k))"

definition driver_inv :: "flow_driver \<Rightarrow> bool" where
  "driver_inv d \<longleftrightarrow>
     valid_topology (fd_topology d) \<and> fd_stream_index d = index_of (fd_topology d) \<and>
     length (fd_streams d) = length (ft_connections (fd_topology d)) \<and>
     fd_instances d = length (ft_stages (fd_topology d)) \<and>
     length (fd_component_metrics d) = length (ft_stages (fd_topology d)) \<and>
     streams_ok (fd_streams d)"

text \<open>What executing a stage leaves alone.\<close>

definition exec_frame :: "flow_driver \<Rightarrow> flow_driver \<Rightarrow> bool" where
  "exec_frame d d' \<longleftrightarrow>
     d' = d\<lparr>fd_streams := fd_streams d', fd_component_metrics := fd_component_metrics d',
            fd_next_global_sequence := fd_next_global_sequence d',
            fd_current_element_sequence := fd_current_element_sequence d', fd_log := fd_log d'\<rparr>"

lemma exec_frame_refl [simp]: "exec_frame d d"
  by (simp add: exec_frame_def)

lemma exec_frame_trans: "exec_frame a b \<Longrightarrow> exec_frame b c \<Longrightarrow> exec_frame a c"
  unfolding exec_frame_def by (cases a; cases b; cases c) simp

lemma exec_frame_same:
  assumes "exec_frame d d'"
  shows "fd_topology d' = fd_topology d" "fd_stream_index d' = fd_stream_index d"
    "fd_instances d' = fd_instances d" "fd_timeouts d' = fd_timeouts d"
    "fd_error_policy d' = fd_error_policy d" "fd_cancellation d' = fd_cancellation d"
    "fd_started_at d' = fd_started_at d" "fd_state d' = fd_state d" "fd_flow_id d' = fd_flow_id d"
    "fd_yield_ctrl d' = fd_yield_ctrl d" "fd_epoch_anchor d' = fd_epoch_anchor d"
  using assms unfolding exec_frame_def by (cases d; cases d'; simp)+

text \<open>What every operation keeps of a stream: its capacity, its watermark and its backpressure state.\<close>

definition same_shape :: "stream_state list \<Rightarrow> stream_state list \<Rightarrow> bool" where
  "same_shape ss ss' \<longleftrightarrow>
     map (\<lambda>s. (q_capacity (ss_queue s), ss_low_watermark_depth s, ss_backpressure s)) ss' =
     map (\<lambda>s. (q_capacity (ss_queue s), ss_low_watermark_depth s, ss_backpressure s)) ss"

lemma same_shape_refl [simp]: "same_shape ss ss"
  by (simp add: same_shape_def)

lemma same_shape_trans: "same_shape a b \<Longrightarrow> same_shape b c \<Longrightarrow> same_shape a c"
  by (simp add: same_shape_def)

lemma same_shape_length: "same_shape a b \<Longrightarrow> length b = length a"
  unfolding same_shape_def using map_eq_imp_length_eq by blast

lemma same_shape_nth:
  assumes "same_shape a b" and "k < length a"
  shows "q_capacity (ss_queue (b ! k)) = q_capacity (ss_queue (a ! k))"
    "ss_low_watermark_depth (b ! k) = ss_low_watermark_depth (a ! k)"
    "ss_backpressure (b ! k) = ss_backpressure (a ! k)"
proof -
  have l: "length b = length a" by (rule same_shape_length [OF assms(1)])
  have "map (\<lambda>s. (q_capacity (ss_queue s), ss_low_watermark_depth s, ss_backpressure s)) b ! k =
        map (\<lambda>s. (q_capacity (ss_queue s), ss_low_watermark_depth s, ss_backpressure s)) a ! k"
    using assms(1) by (simp add: same_shape_def)
  then show "q_capacity (ss_queue (b ! k)) = q_capacity (ss_queue (a ! k))"
    "ss_low_watermark_depth (b ! k) = ss_low_watermark_depth (a ! k)"
    "ss_backpressure (b ! k) = ss_backpressure (a ! k)"
    using assms(2) l by simp_all
qed

lemma same_shape_upd:
  "q_capacity (ss_queue s) = q_capacity (ss_queue (ss ! k)) \<Longrightarrow>
   ss_low_watermark_depth s = ss_low_watermark_depth (ss ! k) \<Longrightarrow>
   ss_backpressure s = ss_backpressure (ss ! k) \<Longrightarrow> same_shape ss (ss[k := s])"
  unfolding same_shape_def
  by (cases "k < length ss") (simp_all add: map_update list_update_same_conv list_update_beyond)

section \<open>The abstract network\<close>

record net =
  nt_queues :: "stream_element_ref list list"
  nt_closed :: "bool list"

definition abs_net :: "stream_state list \<Rightarrow> net" where
  "abs_net ss = \<lparr>nt_queues = map stream_items ss, nt_closed = map ss_producer_complete ss\<rparr>"

definition caps :: "stream_state list \<Rightarrow> nat list" where
  "caps ss = map (\<lambda>s. q_capacity (ss_queue s)) ss"

lemma caps_shape: "same_shape a b \<Longrightarrow> caps b = caps a"
  by (intro nth_equalityI) (auto simp: caps_def same_shape_length same_shape_nth)

text \<open>A channel takes an element when it has room; otherwise the element is lost.\<close>

definition net_offer :: "nat list \<Rightarrow> nat \<Rightarrow> stream_element_ref \<Rightarrow> net \<Rightarrow> net" where
  "net_offer cs k x n =
     (if length (nt_queues n ! k) < cs ! k then n\<lparr>nt_queues := (nt_queues n)[k := nt_queues n ! k @ [x]]\<rparr>
      else n)"

definition net_take :: "nat \<Rightarrow> net \<Rightarrow> net" where
  "net_take k n = n\<lparr>nt_queues := (nt_queues n)[k := tl (nt_queues n ! k)]\<rparr>"

fun net_close :: "nat list \<Rightarrow> net \<Rightarrow> net" where
  "net_close [] n = n"
| "net_close (k # ks) n = net_close ks (n\<lparr>nt_closed := (nt_closed n)[k := True]\<rparr>)"

text \<open>The element made of an output: its own sequence number, the origin's identity and timestamp.\<close>

definition mk_elem :: "turn \<Rightarrow> u64 \<Rightarrow> u64 \<Rightarrow> u64 \<Rightarrow> output_element \<Rightarrow> stream_element_ref" where
  "mk_elem t seq origin ts out =
     \<lparr>se_sequence = seq, se_origin_sequence = origin, se_buffer_handle = oe_payload out,
      se_meta = \<lparr>em_sequence = seq, em_timestamp_ns = ts, em_content_type = em_content_type (oe_meta out)\<rparr>,
      se_enqueued_at = tn_now t\<rparr>"

fun net_offers ::
    "nat list \<Rightarrow> turn \<Rightarrow> u64 \<Rightarrow> u64 \<Rightarrow> u64 \<Rightarrow> nat list \<Rightarrow> output_element list \<Rightarrow> net \<Rightarrow> net" where
  "net_offers cs t seq origin ts (k # ks) (out # outs) n =
     net_offers cs t (seq + 1) origin ts ks outs (net_offer cs k (mk_elem t seq origin ts out) n)"
| "net_offers cs t seq origin ts _ _ n = n"

definition net_pull :: "nat list \<Rightarrow> turn \<Rightarrow> u64 \<Rightarrow> nat list \<Rightarrow> net \<Rightarrow> net" where
  "net_pull cs t seq outs n =
     (case tn_pull t of
        ReplyOk (Some out) \<Rightarrow> net_offers cs t seq seq (tn_wall t) (take 1 outs) [out] n
      | ReplyOk None \<Rightarrow> net_close outs n
      | _ \<Rightarrow> n)"

fun replied_outputs :: "process_result reply \<Rightarrow> nat list \<Rightarrow> nat list \<times> output_element list" where
  "replied_outputs (ReplyOk (Output out)) ks = (take 1 ks, [out])"
| "replied_outputs (ReplyOk (Multiple outs)) ks = (ks, outs)"
| "replied_outputs _ ks = ([], [])"

definition net_process :: "nat list \<Rightarrow> turn \<Rightarrow> u64 \<Rightarrow> nat \<Rightarrow> nat list \<Rightarrow> net \<Rightarrow> net" where
  "net_process cs t seq j outs n =
     (let x = hd (nt_queues n ! j); (ks, os) = replied_outputs (tn_process t) outs
      in net_offers cs t seq (se_origin_sequence x) (em_timestamp_ns (se_meta x)) ks os (net_take j n))"

text \<open>One execution of the stage \<open>i\<close>, reading from channel \<open>j\<close>.\<close>

definition net_exec :: "flow_topology \<Rightarrow> nat list \<Rightarrow> turn \<Rightarrow> u64 \<Rightarrow> nat \<Rightarrow> nat \<Rightarrow> net \<Rightarrow> net" where
  "net_exec T cs t seq i j n =
     (case sd_role (ft_stages T ! i) of
        Source \<Rightarrow> net_pull cs t seq (outs_of T i) n
      | Sink \<Rightarrow> net_take j n
      | _ \<Rightarrow> net_process cs t seq j (outs_of T i) n)"

section \<open>The operations\<close>

lemma streams_ok_nth:
  "streams_ok ss \<Longrightarrow> k < length ss \<Longrightarrow> stream_inv (ss ! k) \<and> ss_id (ss ! k) = StreamId (of_nat k)"
  by (simp add: streams_ok_def)

lemma streams_ok_upd:
  "streams_ok ss \<Longrightarrow> k < length ss \<Longrightarrow> stream_inv s \<Longrightarrow> ss_id s = ss_id (ss ! k) \<Longrightarrow>
   streams_ok (ss[k := s])"
  by (auto simp: streams_ok_def nth_list_update)

lemma driver_inv_streams:
  assumes "driver_inv d" and "exec_frame d d'" and "streams_ok (fd_streams d')"
    and "length (fd_streams d') = length (fd_streams d)"
    and "length (fd_component_metrics d') = length (fd_component_metrics d)"
  shows "driver_inv d'"
  using assms(1,3,4,5) exec_frame_same [OF assms(2)] by (simp add: driver_inv_def)

text \<open>The result of an operation on the streams, as one predicate for all of them.\<close>

definition op_result :: "flow_driver \<Rightarrow> flow_driver \<Rightarrow> net \<Rightarrow> bool" where
  "op_result d d' n \<longleftrightarrow>
     driver_inv d' \<and> exec_frame d d' \<and> same_shape (fd_streams d) (fd_streams d') \<and>
     abs_net (fd_streams d') = n"

lemma op_result_trans:
  "op_result a b n \<Longrightarrow> op_result b c m \<Longrightarrow> op_result a c m"
  unfolding op_result_def by (metis exec_frame_trans same_shape_trans)

lemma op_result_log [simp]:
  "op_result d (d'\<lparr>fd_log := l\<rparr>) n \<longleftrightarrow> op_result d d' n"
  "op_result d (d'\<lparr>fd_current_element_sequence := c\<rparr>) n \<longleftrightarrow> op_result d d' n"
  "op_result d (d'\<lparr>fd_next_global_sequence := q\<rparr>) n \<longleftrightarrow> op_result d d' n"
  "op_result d (log_event e d') n \<longleftrightarrow> op_result d d' n"
  "op_result (d\<lparr>fd_log := l\<rparr>) d' n \<longleftrightarrow> op_result d d' n"
  "op_result (d\<lparr>fd_current_element_sequence := c\<rparr>) d' n \<longleftrightarrow> op_result d d' n"
  "op_result (d\<lparr>fd_next_global_sequence := q\<rparr>) d' n \<longleftrightarrow> op_result d d' n"
  "op_result (log_event e d) d' n \<longleftrightarrow> op_result d d' n"
  unfolding op_result_def driver_inv_def exec_frame_def log_event_def
  by (cases d; cases d'; auto)+

lemma op_result_refl: "driver_inv d \<Longrightarrow> op_result d d (abs_net (fd_streams d))"
  by (simp add: op_result_def)

lemma op_result_set_stream:
  assumes inv: "driver_inv d" and k: "k < length (fd_streams d)" and s: "stream_inv s"
    and same: "ss_id s = ss_id (fd_streams d ! k)"
      "q_capacity (ss_queue s) = q_capacity (ss_queue (fd_streams d ! k))"
      "ss_low_watermark_depth s = ss_low_watermark_depth (fd_streams d ! k)"
      "ss_backpressure s = ss_backpressure (fd_streams d ! k)"
  shows "op_result d (set_stream k s d) (abs_net ((fd_streams d)[k := s]))"
proof -
  have f: "exec_frame d (set_stream k s d)" by (simp add: exec_frame_def set_stream_def)
  have "streams_ok ((fd_streams d)[k := s])"
    using inv k s same(1) by (intro streams_ok_upd) (simp_all add: driver_inv_def)
  then have "driver_inv (set_stream k s d)"
    by (intro driver_inv_streams [OF inv f]) (simp_all add: set_stream_def)
  with f same show ?thesis by (simp add: op_result_def set_stream_def same_shape_upd)
qed

text \<open>The abstract effect of changing one stream.\<close>

lemma abs_net_upd:
  "k < length ss \<Longrightarrow>
   abs_net (ss[k := s]) =
     \<lparr>nt_queues = (map stream_items ss)[k := stream_items s],
      nt_closed = (map ss_producer_complete ss)[k := ss_producer_complete s]\<rparr>"
  by (simp add: abs_net_def map_update)

lemma abs_net_queue [simp]: "k < length ss \<Longrightarrow> nt_queues (abs_net ss) ! k = stream_items (ss ! k)"
  by (simp add: abs_net_def)

lemma caps_nth [simp]: "k < length ss \<Longrightarrow> caps ss ! k = q_capacity (ss_queue (ss ! k))"
  by (simp add: caps_def)

lemma abs_net_offer:
  assumes k: "k < length ss"
    and items: "stream_items s = (if length (stream_items (ss ! k)) < q_capacity (ss_queue (ss ! k))
      then stream_items (ss ! k) @ [x] else stream_items (ss ! k))"
    and closed: "ss_producer_complete s = ss_producer_complete (ss ! k)"
  shows "abs_net (ss[k := s]) = net_offer (caps ss) k x (abs_net ss)"
  using k items closed by (simp add: abs_net_upd net_offer_def) (simp add: abs_net_def list_update_same_conv)

lemma stream_room: "stream_inv s \<Longrightarrow> 0 < ss_demand s \<longleftrightarrow> length (stream_items s) < q_capacity (ss_queue s)"
  by (auto simp: stream_inv_def stream_items_length word_less_nat_alt)

lemma stream_emit_cases:
  assumes inv: "stream_inv s"
  obtains r s' where "stream_emit s x = Some (r, s')" "stream_inv s'"
    "r = (if length (stream_items s) < q_capacity (ss_queue s) then PushOk else PushFull x)"
    "stream_items s' = (if length (stream_items s) < q_capacity (ss_queue s) then stream_items s @ [x]
       else stream_items s)"
    "s' = s\<lparr>ss_queue := ss_queue s', ss_demand := ss_demand s'\<rparr>"
    "q_capacity (ss_queue s') = q_capacity (ss_queue s)"
  using stream_emit_ok [OF inv, of x] unfolding stream_room [OF inv] by blast

lemma stream_metrics_upd [simp]:
  "stream_inv (record_stream_enqueue now s) = stream_inv s"
  "stream_items (record_stream_enqueue now s) = stream_items s"
  "ss_id (record_stream_enqueue now s) = ss_id s"
  "ss_queue (record_stream_enqueue now s) = ss_queue s"
  "ss_low_watermark_depth (record_stream_enqueue now s) = ss_low_watermark_depth s"
  "ss_backpressure (record_stream_enqueue now s) = ss_backpressure s"
  "ss_producer_complete (record_stream_enqueue now s) = ss_producer_complete s"
  by (simp_all add: record_stream_enqueue_def stream_inv_def stream_items_def)

lemma stream_frame:
  assumes "s' = s\<lparr>ss_queue := q, ss_demand := c\<rparr>"
  shows "ss_id s' = ss_id s" "ss_low_watermark_depth s' = ss_low_watermark_depth s"
    "ss_backpressure s' = ss_backpressure s" "ss_producer_complete s' = ss_producer_complete s"
  using assms by simp_all

lemma driver_inv_stream:
  assumes "driver_inv d" and "k < length (fd_streams d)"
  shows "stream_inv (fd_streams d ! k)" "ss_id (fd_streams d ! k) = StreamId (of_nat k)"
  using assms by (simp_all add: driver_inv_def streams_ok_def)

lemma enqueue_output_ok:
  assumes inv: "driver_inv d" and k: "k < length (fd_streams d)"
  obtains d' where "enqueue_output t origin ts k out d = Some d'"
    "op_result d d' (net_offer (caps (fd_streams d)) k
       (mk_elem t (fd_next_global_sequence d) origin ts out) (abs_net (fd_streams d)))"
    "fd_next_global_sequence d' = fd_next_global_sequence d + 1"
proof -
  let ?x = "mk_elem t (fd_next_global_sequence d) origin ts out"
  let ?d = "d\<lparr>fd_next_global_sequence := fd_next_global_sequence d + 1\<rparr>"
  obtain r s' where s': "stream_emit (fd_streams d ! k) ?x = Some (r, s')" "stream_inv s'"
    and items: "stream_items s' = (if length (stream_items (fd_streams d ! k)) < q_capacity (ss_queue (fd_streams d ! k))
       then stream_items (fd_streams d ! k) @ [?x] else stream_items (fd_streams d ! k))"
    and fr: "s' = (fd_streams d ! k)\<lparr>ss_queue := ss_queue s', ss_demand := ss_demand s'\<rparr>"
    and cap: "q_capacity (ss_queue s') = q_capacity (ss_queue (fd_streams d ! k))"
    by (rule stream_emit_cases [OF driver_inv_stream(1) [OF inv k], of ?x])
  let ?s = "record_stream_enqueue (tn_now t) s'"
  note same = stream_frame [OF fr]
  have "enqueue_output t origin ts k out d = Some (set_stream k ?s ?d)"
    using k s'(1) by (simp add: enqueue_output_def take_sequence_def index_vec_def mk_elem_def)
  moreover have "op_result d (set_stream k ?s d) (abs_net ((fd_streams d)[k := ?s]))"
    using s'(2) same cap by (intro op_result_set_stream [OF inv k]) simp_all
  moreover have "abs_net ((fd_streams d)[k := ?s]) = net_offer (caps (fd_streams d)) k ?x (abs_net (fd_streams d))"
    using items same by (intro abs_net_offer [OF k]) simp_all
  moreover have "set_stream k ?s ?d = (set_stream k ?s d)\<lparr>fd_next_global_sequence := fd_next_global_sequence d + 1\<rparr>"
    by (simp add: set_stream_def)
  ultimately show thesis
    by (intro that [of "set_stream k ?s ?d"]) (simp_all only: op_result_log, simp add: set_stream_def)
qed

lemma enqueue_outputs_ok:
  assumes "driver_inv d" and "\<forall>k \<in> set ks. k < length (fd_streams d)"
  shows "\<exists>d'. enqueue_outputs t origin ts ks outs d = Some d' \<and>
    op_result d d' (net_offers (caps (fd_streams d)) t (fd_next_global_sequence d) origin ts ks outs
      (abs_net (fd_streams d)))"
  using assms
proof (induction ks outs arbitrary: d rule: list_induct2')
  case (4 k ks out outs)
  have k: "k < length (fd_streams d)" using "4.prems"(2) by simp
  obtain d1 where d1: "enqueue_output t origin ts k out d = Some d1"
    "op_result d d1 (net_offer (caps (fd_streams d)) k
       (mk_elem t (fd_next_global_sequence d) origin ts out) (abs_net (fd_streams d)))"
    "fd_next_global_sequence d1 = fd_next_global_sequence d + 1"
    by (rule enqueue_output_ok [OF "4.prems"(1) k])
  have shape: "same_shape (fd_streams d) (fd_streams d1)" and inv1: "driver_inv d1"
    and abs1: "abs_net (fd_streams d1) = net_offer (caps (fd_streams d)) k
       (mk_elem t (fd_next_global_sequence d) origin ts out) (abs_net (fd_streams d))"
    using d1(2) by (simp_all add: op_result_def)
  have "\<forall>k \<in> set ks. k < length (fd_streams d1)" using "4.prems"(2) same_shape_length [OF shape] by simp
  from "4.IH" [OF inv1 this] obtain d' where "enqueue_outputs t origin ts ks outs d1 = Some d'"
    "op_result d1 d' (net_offers (caps (fd_streams d)) t (fd_next_global_sequence d + 1) origin ts ks outs
      (net_offer (caps (fd_streams d)) k (mk_elem t (fd_next_global_sequence d) origin ts out)
         (abs_net (fd_streams d))))"
    unfolding caps_shape [OF shape] abs1 d1(3) by blast
  with d1(1) op_result_trans [OF d1(2)] show ?case by (intro exI [of _ d']) simp
qed (simp_all add: op_result_refl)

lemma mark_complete_ok:
  assumes "driver_inv d" and "\<forall>k \<in> set ks. k < length (fd_streams d)"
  shows "\<exists>d'. mark_complete ks d = Some d' \<and> op_result d d' (net_close ks (abs_net (fd_streams d)))"
  using assms
proof (induction ks arbitrary: d)
  case (Cons k ks)
  have k: "k < length (fd_streams d)" using Cons.prems(2) by simp
  let ?s = "(fd_streams d ! k)\<lparr>ss_producer_complete := True\<rparr>" and ?d = "set_stream k ((fd_streams d ! k)\<lparr>ss_producer_complete := True\<rparr>) d"
  have s: "stream_inv ?s" "stream_items ?s = stream_items (fd_streams d ! k)"
    using driver_inv_stream(1) [OF Cons.prems(1) k] by (simp_all add: stream_inv_def stream_items_def)
  have r: "op_result d ?d (abs_net ((fd_streams d)[k := ?s]))"
    using s(1) by (intro op_result_set_stream [OF Cons.prems(1) k]) simp_all
  have "abs_net ((fd_streams d)[k := ?s]) =
      (abs_net (fd_streams d))\<lparr>nt_closed := (nt_closed (abs_net (fd_streams d)))[k := True]\<rparr>"
    unfolding abs_net_upd [OF k] s(2) using k by (simp add: abs_net_def list_update_same_conv)
  with r have r: "op_result d ?d ((abs_net (fd_streams d))\<lparr>nt_closed := (nt_closed (abs_net (fd_streams d)))[k := True]\<rparr>)"
    by simp
  then have inv: "driver_inv ?d" "same_shape (fd_streams d) (fd_streams ?d)"
    and abs: "abs_net (fd_streams ?d) = (abs_net (fd_streams d))\<lparr>nt_closed := (nt_closed (abs_net (fd_streams d)))[k := True]\<rparr>"
    by (simp_all add: op_result_def)
  have "\<forall>k \<in> set ks. k < length (fd_streams ?d)" using Cons.prems(2) by (simp add: set_stream_def)
  from Cons.IH [OF inv(1) this] obtain d' where "mark_complete ks ?d = Some d'"
    "op_result ?d d' (net_close ks (abs_net (fd_streams ?d)))" by blast
  with k op_result_trans [OF r] show ?case unfolding abs by (intro exI [of _ d']) (simp add: index_vec_def)
qed (simp add: op_result_refl)

lemma stream_position_gen:
  assumes "\<And>j. j < length ss \<Longrightarrow> ss_id (ss ! j) = StreamId (of_nat (i + j))"
    and "i + length ss < 2 ^ 64" and "k < length ss"
  shows "stream_position (StreamId (of_nat (i + k))) i ss = Some (i + k)"
  using assms
proof (induction ss arbitrary: i k)
  case (Cons s ss)
  have id: "ss_id s = StreamId (of_nat i)" using Cons.prems(1) [of 0] by simp
  show ?case
  proof (cases k)
    case 0
    with id show ?thesis by simp
  next
    case (Suc j)
    have "(of_nat i :: u64) \<noteq> of_nat (i + k)"
    proof
      assume "(of_nat i :: u64) = of_nat (i + k)"
      then have "unat (of_nat i :: u64) = unat (of_nat (i + k) :: u64)" by (rule arg_cong)
      with Suc Cons.prems(2,3) show False by (subst (asm) (1 2) unat_of_nat_u64) simp_all
    qed
    moreover have "stream_position (StreamId (of_nat (Suc i + j))) (Suc i) ss = Some (Suc i + j)"
      using Cons.prems Suc by (intro Cons.IH) (use Cons.prems(1) [of "Suc _"] in simp_all)
    ultimately show ?thesis using id Suc by simp
  qed
qed simp

lemma stream_position_ok:
  assumes "streams_ok ss" and "k < length ss"
  shows "stream_position (ss_id (ss ! k)) 0 ss = Some k"
  using stream_position_gen [of ss 0 k] assms by (simp add: streams_ok_def)

lemma take_input_ok:
  assumes inv: "driver_inv d" and k: "k < length (fd_streams d)"
    and input: "consumer_has_input (fd_streams d ! k)"
  obtains d' where "take_input (ss_id (fd_streams d ! k)) d = Some (hd (stream_items (fd_streams d ! k)), d')"
    "op_result d d' (net_take k (abs_net (fd_streams d)))"
    "d' = d\<lparr>fd_streams := fd_streams d'\<rparr>"
proof -
  obtain s' where s': "stream_take (fd_streams d ! k) = Some (hd (stream_items (fd_streams d ! k)), s')"
    "stream_inv s'" "stream_items s' = tl (stream_items (fd_streams d ! k))"
    and fr: "s' = (fd_streams d ! k)\<lparr>ss_queue := ss_queue s', ss_demand := ss_demand s'\<rparr>"
    and cap: "q_capacity (ss_queue s') = q_capacity (ss_queue (fd_streams d ! k))"
    by (rule stream_take_ok [OF driver_inv_stream(1) [OF inv k] input])
  note same = stream_frame [OF fr]
  have pos: "stream_position (ss_id (fd_streams d ! k)) 0 (fd_streams d) = Some k"
    using inv k by (intro stream_position_ok) (simp_all add: driver_inv_def)
  have "op_result d (set_stream k s' d) (abs_net ((fd_streams d)[k := s']))"
    using s'(2) same cap by (intro op_result_set_stream [OF inv k]) simp_all
  moreover have "abs_net ((fd_streams d)[k := s']) = net_take k (abs_net (fd_streams d))"
    unfolding abs_net_upd [OF k] s'(3) same(4) net_take_def
    using k by (simp add: abs_net_def list_update_same_conv)
  ultimately show thesis
    using k s'(1) pos
    by (intro that [of "set_stream k s' d"]) (simp_all add: take_input_def index_vec_def set_stream_def)
qed

section \<open>Executing a ready stage\<close>

lemma reply_result_cong: "fd_timeouts d = fd_timeouts d' \<Longrightarrow> reply_result d c r = reply_result d' c r"
  by (cases r) simp_all

lemma reply_result_seq: "reply_result (d\<lparr>fd_current_element_sequence := q\<rparr>) c r = reply_result d c r"
  by (rule reply_result_cong) simp

lemma set_stream_log [simp]: "fd_log (set_stream k s d) = fd_log d"
  by (simp add: set_stream_def)

lemma log_event_log [simp]: "fd_log (log_event e d) = fd_log d @ [e]" "fd_streams (log_event e d) = fd_streams d"
  "fd_instances (log_event e d) = fd_instances d" "fd_stream_index (log_event e d) = fd_stream_index d"
  "fd_next_global_sequence (log_event e d) = fd_next_global_sequence d"
  "fd_component_metrics (log_event e d) = fd_component_metrics d"
  "fd_topology (log_event e d) = fd_topology d" "fd_timeouts (log_event e d) = fd_timeouts d"
  by (simp_all add: log_event_def)

lemma enqueue_output_log: "enqueue_output t origin ts k out d = Some d' \<Longrightarrow> fd_log d' = fd_log d"
  by (auto simp: enqueue_output_def take_sequence_def index_vec_def split: if_splits Option.bind_splits)

lemma enqueue_outputs_log: "enqueue_outputs t origin ts ks outs d = Some d' \<Longrightarrow> fd_log d' = fd_log d"
  by (induction ks outs arbitrary: d rule: list_induct2')
    (auto dest: enqueue_output_log split: Option.bind_splits)

lemma mark_complete_log: "mark_complete ks d = Some d' \<Longrightarrow> fd_log d' = fd_log d"
  by (induction ks arbitrary: d) (fastforce split: Option.bind_splits)+

lemma enqueue_output_take1:
  "enqueue_outputs t origin ts (take 1 ks) [out] d =
     (case ks of [] \<Rightarrow> Some d | k # _ \<Rightarrow> enqueue_output t origin ts k out d)"
  by (cases ks) (auto split: Option.bind_splits)

lemma driver_inv_log [simp]:
  "driver_inv (log_event e d) \<longleftrightarrow> driver_inv d"
  "driver_inv (d\<lparr>fd_current_element_sequence := c\<rparr>) \<longleftrightarrow> driver_inv d"
  "driver_inv (d\<lparr>fd_next_global_sequence := q\<rparr>) \<longleftrightarrow> driver_inv d"
  by (simp_all add: driver_inv_def log_event_def)

lemma driver_outs:
  assumes "driver_inv d" and "i < length (ft_stages (fd_topology d))"
  shows "index_vec (si_outputs (fd_stream_index d)) i = Some (outs_of (fd_topology d) i)"
    "index_vec (si_inputs (fd_stream_index d)) i = Some (ins_of (fd_topology d) i)"
    "\<forall>k \<in> set (outs_of (fd_topology d) i). k < length (fd_streams d)"
    "\<forall>k \<in> set (ins_of (fd_topology d) i). k < length (fd_streams d)"
  using assms by (auto simp: driver_inv_def index_vec_def index_of_def dest: outs_of_less ins_of_less)

text \<open>The call that a stage makes, as it appears in the log.\<close>

definition stage_call :: "flow_topology \<Rightarrow> nat \<Rightarrow> nat \<Rightarrow> net \<Rightarrow> driver_event" where
  "stage_call T i j n =
     (let c = sd_component_id (ft_stages T ! i); x = hd (nt_queues n ! j)
      in case sd_role (ft_stages T ! i) of
           Source \<Rightarrow> CalledPull c
         | Sink \<Rightarrow> CalledPush c (se_meta x) (se_buffer_handle x)
         | _ \<Rightarrow> CalledProcess c (se_meta x) (se_buffer_handle x))"

fun is_call :: "driver_event \<Rightarrow> bool" where
  "is_call (CalledPull _) = True"
| "is_call (CalledProcess _ _ _) = True"
| "is_call (CalledPush _ _ _) = True"
| "is_call _ = False"

definition calls :: "driver_event list \<Rightarrow> driver_event list" where
  "calls = filter is_call"

lemma calls_simps [simp]:
  "calls [] = []" "calls (e # es) = (if is_call e then e # calls es else calls es)"
  "calls (es @ fs) = calls es @ calls fs"
  by (simp_all add: calls_def)

lemma execute_pull_ok:
  assumes inv: "driver_inv d" and i: "i < length (ft_stages (fd_topology d))"
  obtains d' where
    "execute_pull t i c d = Some (case reply_result d c (tn_pull t) of Inl e \<Rightarrow> Inl e | Inr _ \<Rightarrow> Inr (), d')"
    "op_result d d' (net_pull (caps (fd_streams d)) t (fd_next_global_sequence d)
       (outs_of (fd_topology d) i) (abs_net (fd_streams d)))"
    "calls (fd_log d') = calls (fd_log d) @ [CalledPull c]"
proof -
  let ?outs = "outs_of (fd_topology d) i" and ?d = "log_event (CalledPull c) d"
  have inst: "i < fd_instances d" using inv i by (simp add: driver_inv_def)
  note ix = driver_outs [OF inv i]
  have refl: "op_result d ?d (abs_net (fd_streams d))" using op_result_refl [OF inv] by simp
  show thesis
  proof (cases "tn_pull t")
    case (ReplyOk res)
    show thesis
    proof (cases res)
      case None
      obtain d' where d': "mark_complete ?outs ?d = Some d'" "op_result ?d d' (net_close ?outs (abs_net (fd_streams ?d)))"
        using mark_complete_ok [of ?d ?outs] inv ix(3) by auto
      show thesis
        using inst ix ReplyOk None d' mark_complete_log [OF d'(1)]
        by (intro that [of d']) (simp_all add: execute_pull_def net_pull_def)
    next
      case (Some out)
      show thesis
      proof (cases ?outs)
        case Nil
        then show thesis using inst ix ReplyOk Some refl
          by (intro that [of ?d]) (simp_all add: execute_pull_def net_pull_def)
      next
        case (Cons k ks)
        let ?seq = "fd_next_global_sequence d"
        let ?x = "mk_elem t ?seq ?seq (tn_wall t) out"
        let ?d1 = "?d\<lparr>fd_next_global_sequence := ?seq + 1, fd_current_element_sequence := Some ?seq\<rparr>"
        have k: "k < length (fd_streams d)" using ix(3) Cons by simp
        obtain r s' where s': "stream_emit (fd_streams d ! k) ?x = Some (r, s')" "stream_inv s'"
          and r: "r = (if length (stream_items (fd_streams d ! k)) < q_capacity (ss_queue (fd_streams d ! k)) then PushOk else PushFull ?x)"
          and items: "stream_items s' = (if length (stream_items (fd_streams d ! k)) < q_capacity (ss_queue (fd_streams d ! k))
             then stream_items (fd_streams d ! k) @ [?x] else stream_items (fd_streams d ! k))"
          and fr: "s' = (fd_streams d ! k)\<lparr>ss_queue := ss_queue s', ss_demand := ss_demand s'\<rparr>"
          and cap: "q_capacity (ss_queue s') = q_capacity (ss_queue (fd_streams d ! k))"
          by (rule stream_emit_cases [OF driver_inv_stream(1) [OF inv k], of ?x])
        note same = stream_frame [OF fr]
        have vec: "index_vec (fd_streams d) k = Some (fd_streams d ! k)" using k by (simp add: index_vec_def)
        let ?s = "if r = PushOk then record_stream_enqueue (tn_now t) s' else s'"
        let ?evs = "if r = PushOk then [RecordedTransfer (ss_id s') ?seq (of_nat (q_len (ss_queue s')))] else []"
        let ?d' = "log_events ?evs (set_stream k ?s ?d1)"
        have "execute_pull t i c d = Some (Inr (), ?d')"
          using inst ix(1) ReplyOk Some Cons vec s'(1) r
          by (simp add: execute_pull_def take_sequence_def Let_def mk_elem_def [symmetric] log_events_def
              log_event_def set_stream_def)
        moreover have "op_result d (set_stream k ?s d) (abs_net ((fd_streams d)[k := ?s]))"
          using s'(2) same cap by (intro op_result_set_stream [OF inv k]) simp_all
        moreover have "abs_net ((fd_streams d)[k := ?s]) = net_offer (caps (fd_streams d)) k ?x (abs_net (fd_streams d))"
          using items same by (intro abs_net_offer [OF k]) simp_all
        moreover have "?d' = (set_stream k ?s d)\<lparr>fd_next_global_sequence := ?seq + 1,
            fd_current_element_sequence := Some ?seq, fd_log := fd_log ?d'\<rparr>"
          by (simp add: set_stream_def log_events_def log_event_def)
        ultimately have e: "execute_pull t i c d = Some (Inr (), ?d')"
          "op_result d ?d' (net_offer (caps (fd_streams d)) k ?x (abs_net (fd_streams d)))"
          by (metis op_result_log(1-3))+
        show thesis
          using e ReplyOk Some Cons by (intro that [of ?d']) (simp_all add: net_pull_def log_events_def)
      qed
    qed
  next
    case ReplyTimeout
    then show thesis using inst refl
      by (intro that [of ?d]) (simp_all add: execute_pull_def net_pull_def log_event_def)
  next
    case (ReplyErr e)
    then show thesis using inst refl
      by (intro that [of ?d]) (simp_all add: execute_pull_def net_pull_def log_event_def)
  qed
qed

lemma execute_process_ok:
  assumes inv: "driver_inv d" and i: "i < length (ft_stages (fd_topology d))"
    and j: "j < length (fd_streams d)" and input: "consumer_has_input (fd_streams d ! j)"
  defines "x \<equiv> hd (nt_queues (abs_net (fd_streams d)) ! j)"
  obtains d' where
    "execute_process t i c (ss_id (fd_streams d ! j)) d =
       Some (case reply_result d c (tn_process t) of Inl e \<Rightarrow> Inl e | Inr _ \<Rightarrow> Inr (), d')"
    "op_result d d' (net_process (caps (fd_streams d)) t (fd_next_global_sequence d) j
       (outs_of (fd_topology d) i) (abs_net (fd_streams d)))"
    "calls (fd_log d') = calls (fd_log d) @ [CalledProcess c (se_meta x) (se_buffer_handle x)]"
proof -
  obtain d1 where d1: "take_input (ss_id (fd_streams d ! j)) d = Some (x, d1)"
    and res1: "op_result d d1 (net_take j (abs_net (fd_streams d)))"
    and fr: "d1 = d\<lparr>fd_streams := fd_streams d1\<rparr>"
    unfolding x_def using take_input_ok [OF inv j input] j by auto
  let ?d2 = "log_event (CalledProcess c (se_meta x) (se_buffer_handle x))
    (d1\<lparr>fd_current_element_sequence := Some (se_origin_sequence x)\<rparr>)"
  have same: "fd_instances d1 = fd_instances d" "fd_stream_index d1 = fd_stream_index d"
    "fd_next_global_sequence d1 = fd_next_global_sequence d" "fd_timeouts d1 = fd_timeouts d"
    "fd_log d1 = fd_log d" "fd_topology d1 = fd_topology d"
    using fr by (metis flow_driver.select_convs flow_driver.surjective flow_driver.update_convs(3))+
  have inv2: "driver_inv ?d2" and res2: "op_result d ?d2 (net_take j (abs_net (fd_streams d)))"
    and shape: "same_shape (fd_streams d) (fd_streams ?d2)"
    and abs2: "abs_net (fd_streams ?d2) = net_take j (abs_net (fd_streams d))"
    using res1 by (simp_all add: op_result_def [of d d1])
  have inst: "i < fd_instances d" using inv i by (simp add: driver_inv_def)
  have outs1: "index_vec (si_outputs (fd_stream_index d1)) i = Some (outs_of (fd_topology d) i)"
    using driver_outs(1) [OF inv i] same by simp
  have reply: "reply_result ?d2 c r = reply_result d c r" for r :: "process_result reply"
    using same by (intro reply_result_cong) simp
  show thesis
  proof (cases "\<exists>ks outs. replied_outputs (tn_process t) (outs_of (fd_topology d) i) = (ks, outs) \<and> tn_process t \<noteq> ReplyTimeout \<and>
      (\<forall>e. tn_process t \<noteq> ReplyErr e) \<and> tn_process t \<noteq> ReplyOk Filtered")
    case True
    then obtain ks outs where ko: "replied_outputs (tn_process t) (outs_of (fd_topology d) i) = (ks, outs)"
      "tn_process t \<noteq> ReplyTimeout" "\<forall>e. tn_process t \<noteq> ReplyErr e" "tn_process t \<noteq> ReplyOk Filtered" by blast
    have sub: "set ks \<subseteq> set (outs_of (fd_topology d) i)"
      using ko(1) by (cases "(tn_process t, outs_of (fd_topology d) i)" rule: replied_outputs.cases)
        (auto dest: in_set_takeD)
    have "\<forall>k \<in> set ks. k < length (fd_streams ?d2)"
      using driver_outs(3) [OF inv i] sub same_shape_length [OF shape] by auto
    from enqueue_outputs_ok [OF inv2 this, of t "se_origin_sequence x" "em_timestamp_ns (se_meta x)" outs]
    obtain d' where d': "enqueue_outputs t (se_origin_sequence x) (em_timestamp_ns (se_meta x)) ks outs ?d2 = Some d'"
      "op_result ?d2 d' (net_offers (caps (fd_streams d)) t (fd_next_global_sequence d) (se_origin_sequence x)
         (em_timestamp_ns (se_meta x)) ks outs (net_take j (abs_net (fd_streams d))))"
      unfolding caps_shape [OF shape] abs2 using same by auto
    have "execute_process t i c (ss_id (fd_streams d ! j)) d = Some (Inr (), d')"
    proof (cases "tn_process t")
      case (ReplyOk r)
      show ?thesis
      proof (cases r)
        case (Output out)
        with ReplyOk ko(1) have "ks = take 1 (outs_of (fd_topology d) i)" "outs = [out]" by auto
        note d'(1) [unfolded this enqueue_output_take1]
        then show ?thesis using ReplyOk Output inst d1 outs1
          by (cases "outs_of (fd_topology d) i") (simp_all add: execute_process_def Let_def)
      next
        case (Multiple os)
        with ReplyOk ko(1) d'(1) show ?thesis using inst d1 outs1 by (simp add: execute_process_def Let_def)
      qed (use ko ReplyOk in simp)
    qed (use ko in auto)
    moreover have "op_result d d' (net_process (caps (fd_streams d)) t (fd_next_global_sequence d) j
       (outs_of (fd_topology d) i) (abs_net (fd_streams d)))"
      using op_result_trans [OF res2 d'(2)] ko(1) by (simp add: net_process_def x_def Let_def)
    moreover have "(case reply_result d c (tn_process t) of Inl e \<Rightarrow> Inl e | Inr _ \<Rightarrow> Inr ()) = Inr ()"
      using ko by (cases "tn_process t") auto
    ultimately show thesis
      using enqueue_outputs_log [OF d'(1)] same by (intro that [of d']) simp_all
  next
    case False
    then have none: "replied_outputs (tn_process t) (outs_of (fd_topology d) i) = ([], [])"
      by (cases "(tn_process t, outs_of (fd_topology d) i)" rule: replied_outputs.cases) auto
    have "execute_process t i c (ss_id (fd_streams d ! j)) d =
       Some (case reply_result d c (tn_process t) of Inl e \<Rightarrow> Inl e | Inr _ \<Rightarrow> Inr (), ?d2)"
      using False inst d1 reply
      by (cases "(tn_process t, outs_of (fd_topology d) i)" rule: replied_outputs.cases)
        (auto simp: execute_process_def Let_def same)
    with none res2 same show thesis
      by (intro that [of ?d2]) (simp_all add: net_process_def x_def Let_def)
  qed
qed

lemma execute_push_ok:
  assumes inv: "driver_inv d" and i: "i < length (ft_stages (fd_topology d))"
    and j: "j < length (fd_streams d)" and input: "consumer_has_input (fd_streams d ! j)"
  defines "x \<equiv> hd (nt_queues (abs_net (fd_streams d)) ! j)"
  obtains d' where
    "execute_push t i c (ss_id (fd_streams d ! j)) d =
       Some (case reply_result d c (tn_push t) of Inl e \<Rightarrow> Inl e | Inr _ \<Rightarrow> Inr (), d')"
    "op_result d d' (net_take j (abs_net (fd_streams d)))"
    "calls (fd_log d') = calls (fd_log d) @ [CalledPush c (se_meta x) (se_buffer_handle x)]"
proof -
  obtain d1 where d1: "take_input (ss_id (fd_streams d ! j)) d = Some (x, d1)"
    and res1: "op_result d d1 (net_take j (abs_net (fd_streams d)))"
    and fr: "d1 = d\<lparr>fd_streams := fd_streams d1\<rparr>"
    unfolding x_def using take_input_ok [OF inv j input] j by auto
  let ?d2 = "log_event (CalledPush c (se_meta x) (se_buffer_handle x))
    (d1\<lparr>fd_current_element_sequence := Some (se_origin_sequence x)\<rparr>)"
  let ?d3 = "log_event (RecordedLatency (saturating_sub_u64 (tn_wall t) (em_timestamp_ns (se_meta x)))) ?d2"
  have same: "fd_timeouts d1 = fd_timeouts d" "fd_log d1 = fd_log d"
    using fr by (metis flow_driver.select_convs flow_driver.surjective flow_driver.update_convs(3))+
  have inst: "i < fd_instances d" using inv i by (simp add: driver_inv_def)
  have reply: "reply_result ?d2 c r = reply_result d c r" for r :: "backpressure_signal reply"
    using same by (intro reply_result_cong) simp
  have exec: "execute_push t i c (ss_id (fd_streams d ! j)) d =
      (case reply_result d c (tn_push t) of Inl e \<Rightarrow> Some (Inl e, ?d2) | Inr _ \<Rightarrow> Some (Inr (), ?d3))"
    using inst d1 by (simp add: execute_push_def Let_def reply)
  show thesis
  proof (cases "reply_result d c (tn_push t)")
    case (Inl e)
    with exec res1 same show thesis by (intro that [of ?d2]) simp_all
  next
    case (Inr b)
    with exec res1 same show thesis by (intro that [of ?d3]) simp_all
  qed
qed

text \<open>The error of a turn, if the component did not return.\<close>

definition stage_reply :: "flow_topology \<Rightarrow> turn \<Rightarrow> flow_driver \<Rightarrow> nat \<Rightarrow> flow_error + unit" where
  "stage_reply T t d i =
     (let c = sd_component_id (ft_stages T ! i)
      in case sd_role (ft_stages T ! i) of
           Source \<Rightarrow> (case reply_result d c (tn_pull t) of Inl e \<Rightarrow> Inl e | Inr _ \<Rightarrow> Inr ())
         | Sink \<Rightarrow> (case reply_result d c (tn_push t) of Inl e \<Rightarrow> Inl e | Inr _ \<Rightarrow> Inr ())
         | _ \<Rightarrow> (case reply_result d c (tn_process t) of Inl e \<Rightarrow> Inl e | Inr _ \<Rightarrow> Inr ()))"

lemma chosen_input_ok:
  assumes "has_input_at T streams i"
  shows "chosen_input T streams i \<in> set (ins_of T i)"
    "consumer_has_input (streams ! chosen_input T streams i)"
proof -
  have "filter (\<lambda>k. consumer_has_input (streams ! k)) (ins_of T i) \<noteq> []"
    using assms by (auto simp: has_input_at_def filter_empty_conv)
  then have "chosen_input T streams i \<in> set (filter (\<lambda>k. consumer_has_input (streams ! k)) (ins_of T i))"
    unfolding chosen_input_def by (rule hd_in_set)
  then show "chosen_input T streams i \<in> set (ins_of T i)"
    "consumer_has_input (streams ! chosen_input T streams i)" by simp_all
qed

lemma run_action_ok:
  assumes inv: "driver_inv d" and i: "i < length (ft_stages (fd_topology d))"
    and ready: "stage_is_ready (fd_topology d) (fd_streams d) i"
  defines "T \<equiv> fd_topology d" and "j \<equiv> chosen_input (fd_topology d) (fd_streams d) i"
  obtains d' where "run_action t (stage_exec T (fd_streams d) i) d = Some (stage_reply T t d i, d')"
    "op_result d d' (net_exec T (caps (fd_streams d)) t (fd_next_global_sequence d) i j (abs_net (fd_streams d)))"
    "calls (fd_log d') = calls (fd_log d) @ [stage_call T i j (abs_net (fd_streams d))]"
proof -
  let ?c = "sd_component_id (ft_stages T ! i)"
  have hi: "j < length (fd_streams d)" "consumer_has_input (fd_streams d ! j)"
    if "sd_role (ft_stages T ! i) \<noteq> Source"
  proof -
    have h: "has_input_at T (fd_streams d) i"
      using ready that unfolding T_def by (auto simp: stage_is_ready_def split: component_role.splits)
    show "j < length (fd_streams d)" "consumer_has_input (fd_streams d ! j)"
      using chosen_input_ok [OF h] driver_outs(4) [OF inv i] by (simp_all add: j_def T_def)
  qed
  consider (src) "sd_role (ft_stages T ! i) = Source" | (snk) "sd_role (ft_stages T ! i) = Sink"
    | (proc) "sd_role (ft_stages T ! i) \<in> {Processor, Filter, Router}"
    by (cases "sd_role (ft_stages T ! i)") auto
  then show thesis
  proof cases
    case src
    obtain d' where "execute_pull t i ?c d =
        Some (case reply_result d ?c (tn_pull t) of Inl e \<Rightarrow> Inl e | Inr _ \<Rightarrow> Inr (), d')"
      "op_result d d' (net_pull (caps (fd_streams d)) t (fd_next_global_sequence d)
         (outs_of (fd_topology d) i) (abs_net (fd_streams d)))"
      "calls (fd_log d') = calls (fd_log d) @ [CalledPull ?c]" by (rule execute_pull_ok [OF inv i])
    with src show thesis
      by (intro that [of d']) (simp_all add: run_action_def stage_exec_def stage_reply_def net_exec_def
          stage_call_def Let_def T_def)
  next
    case snk
    then have "sd_role (ft_stages T ! i) \<noteq> Source" by simp
    note h = hi [OF this]
    obtain d' where "execute_push t i ?c (ss_id (fd_streams d ! j)) d =
        Some (case reply_result d ?c (tn_push t) of Inl e \<Rightarrow> Inl e | Inr _ \<Rightarrow> Inr (), d')"
      "op_result d d' (net_take j (abs_net (fd_streams d)))"
      "calls (fd_log d') = calls (fd_log d) @ [CalledPush ?c (se_meta (hd (nt_queues (abs_net (fd_streams d)) ! j)))
         (se_buffer_handle (hd (nt_queues (abs_net (fd_streams d)) ! j)))]"
      by (rule execute_push_ok [OF inv i h])
    with snk show thesis
      by (intro that [of d']) (simp_all add: run_action_def stage_exec_def stage_reply_def net_exec_def
          stage_call_def Let_def T_def j_def)
  next
    case proc
    then have "sd_role (ft_stages T ! i) \<noteq> Source" by auto
    note h = hi [OF this]
    obtain d' where "execute_process t i ?c (ss_id (fd_streams d ! j)) d =
        Some (case reply_result d ?c (tn_process t) of Inl e \<Rightarrow> Inl e | Inr _ \<Rightarrow> Inr (), d')"
      "op_result d d' (net_process (caps (fd_streams d)) t (fd_next_global_sequence d) j
         (outs_of (fd_topology d) i) (abs_net (fd_streams d)))"
      "calls (fd_log d') = calls (fd_log d) @ [CalledProcess ?c (se_meta (hd (nt_queues (abs_net (fd_streams d)) ! j)))
         (se_buffer_handle (hd (nt_queues (abs_net (fd_streams d)) ! j)))]"
      by (rule execute_process_ok [OF inv i h])
    with proc show thesis
      by (intro that [of d'])
        (auto simp: run_action_def stage_exec_def stage_reply_def net_exec_def stage_call_def Let_def T_def j_def)
  qed
qed

text \<open>A stage that the scheduler chose runs without a panic and acts on the network as \<open>net_exec\<close>.\<close>

lemma execute_stage_ok:
  assumes inv: "driver_inv d" and i: "i < length (ft_stages (fd_topology d))"
    and ready: "stage_is_ready (fd_topology d) (fd_streams d) i"
  defines "T \<equiv> fd_topology d" and "j \<equiv> chosen_input (fd_topology d) (fd_streams d) i"
  obtains d' where "execute_stage t (stage_exec T (fd_streams d) i) d = Some (stage_reply T t d i, d')"
    "op_result d d' (net_exec T (caps (fd_streams d)) t (fd_next_global_sequence d) i j (abs_net (fd_streams d)))"
    "calls (fd_log d') = calls (fd_log d) @ [stage_call T i j (abs_net (fd_streams d))]"
proof -
  let ?d0 = "d\<lparr>fd_current_element_sequence := None\<rparr>"
  have pre: "driver_inv ?d0" "i < length (ft_stages (fd_topology ?d0))"
    "stage_is_ready (fd_topology ?d0) (fd_streams ?d0) i" using inv i ready by simp_all
  obtain d1 where d1: "run_action t (stage_exec T (fd_streams d) i) ?d0 = Some (stage_reply T t ?d0 i, d1)"
    "op_result ?d0 d1 (net_exec T (caps (fd_streams d)) t (fd_next_global_sequence d) i j (abs_net (fd_streams d)))"
    "calls (fd_log d1) = calls (fd_log d) @ [stage_call T i j (abs_net (fd_streams d))]"
    using run_action_ok [OF pre, of t] by (auto simp: T_def j_def)
  have reply: "stage_reply T t ?d0 i = stage_reply T t d i"
    by (cases "sd_role (ft_stages T ! i)") (simp_all add: stage_reply_def Let_def reply_result_seq)
  have idx: "sx_stage_index (stage_exec T (fd_streams d) i) = i"
    "sx_component_id (stage_exec T (fd_streams d) i) = sd_component_id (ft_stages T ! i)"
    by (simp_all add: stage_exec_def)
  have fr: "exec_frame ?d0 d1" and inv1: "driver_inv d1" using d1(2) by (simp_all add: op_result_def)
  have len: "i < length (fd_component_metrics d1)"
    using inv1 i exec_frame_same(1) [OF fr] by (simp add: driver_inv_def)
  obtain d' evs where d': "execute_stage t (stage_exec T (fd_streams d) i) d = Some (stage_reply T t d i, d')"
    and eq: "d' = d1\<lparr>fd_component_metrics := fd_component_metrics d', fd_log := fd_log d1 @ evs\<rparr>"
      "length (fd_component_metrics d') = length (fd_component_metrics d1)" "calls evs = []"
    using d1(1) len
    by (cases "fd_current_element_sequence d1")
      (force simp: execute_stage_def idx reply index_vec_def Let_def log_event_def)+
  have res: "op_result d d1 (net_exec T (caps (fd_streams d)) t (fd_next_global_sequence d) i j (abs_net (fd_streams d)))"
    using d1(2) by simp
  have "op_result d d' (net_exec T (caps (fd_streams d)) t (fd_next_global_sequence d) i j (abs_net (fd_streams d)))"
  proof -
    have s: "fd_streams d' = fd_streams d1" "fd_topology d' = fd_topology d1" "fd_instances d' = fd_instances d1"
      "fd_stream_index d' = fd_stream_index d1" by (subst eq(1), simp)+
    have "driver_inv d'" using inv1 eq(2) by (simp add: driver_inv_def s)
    moreover have "exec_frame d d'"
    proof -
      have "exec_frame d1 (d1\<lparr>fd_component_metrics := m, fd_log := l\<rparr>)" for m l
        by (simp add: exec_frame_def)
      then have "exec_frame d1 d'" using eq(1) by metis
      with res show ?thesis unfolding op_result_def by (metis exec_frame_trans)
    qed
    ultimately show ?thesis using res by (simp add: op_result_def s)
  qed
  moreover have "fd_log d' = fd_log d1 @ evs" by (subst eq(1)) simp
  ultimately show thesis using d' d1(3) eq(3) by (intro that [of d']) simp_all
qed

end
