(* ===== verification/Rea_Driver_Turn.thy ===== *)
theory Rea_Driver_Turn
  imports Rea_Driver_Inv
begin

text \<open>
  The turns of the driver's loop: backpressure, completion and the loop invariant. A turn never
  panics; it stops the loop, executes one ready stage, or passes completion on and waits.
\<close>

section \<open>Backpressure\<close>

text \<open>
  What the check establishes for a stream: congestion is on only while the queue is above the
  low watermark or full, and off only while the queue has room (unless the watermark is not
  below the capacity, when the state alternates).
\<close>

definition bp_ok :: "stream_state \<Rightarrow> bool" where
  "bp_ok s \<longleftrightarrow>
     (if bp_is_active (ss_backpressure s)
      then ss_low_watermark_depth s < q_len (ss_queue s) \<or> q_len (ss_queue s) = q_capacity (ss_queue s)
      else q_len (ss_queue s) < q_capacity (ss_queue s) \<or> q_capacity (ss_queue s) \<le> ss_low_watermark_depth s)"

lemma bp_ok_empty: "stream_inv s \<Longrightarrow> bp_ok s \<Longrightarrow> q_len (ss_queue s) = 0 \<Longrightarrow> \<not> bp_is_active (ss_backpressure s)"
  by (auto simp: bp_ok_def stream_inv_def queue_inv_def split: if_splits)

lemma check_backpressure_cases:
  obtains (on) "ss_backpressure s = BpNormal" "q_capacity (ss_queue s) \<le> q_len (ss_queue s)"
      "check_backpressure t s =
        (s\<lparr>ss_backpressure := BpActive (tn_after t), ss_metrics := sm_record_backpressure_event (ss_metrics s)\<rparr>,
         Some (Pause, RecordedBackpressure (ss_id s) True (of_nat (q_len (ss_queue s))) (tn_wall t)))"
  | (off) since where "ss_backpressure s = BpActive since" "q_len (ss_queue s) \<le> ss_low_watermark_depth s"
      "check_backpressure t s =
        (s\<lparr>ss_backpressure := BpNormal,
           ss_metrics := sm_add_backpressure_duration (ss_metrics s) (tn_after t - since)\<rparr>,
         Some (Ready, RecordedBackpressure (ss_id s) False (of_nat (q_len (ss_queue s))) (tn_wall t)))"
  | (same) "check_backpressure t s = (s, None)"
      "ss_backpressure s = BpNormal \<Longrightarrow> q_len (ss_queue s) < q_capacity (ss_queue s)"
      "ss_backpressure s \<noteq> BpNormal \<Longrightarrow> ss_low_watermark_depth s < q_len (ss_queue s)"
proof (cases "ss_backpressure s")
  case BpNormal
  show thesis
  proof (cases "q_capacity (ss_queue s) \<le> q_len (ss_queue s)")
    case True
    with BpNormal show thesis
      by (intro on) (simp_all add: check_backpressure_def check_backpressure_transition_def Let_def)
  next
    case False
    with BpNormal show thesis
      by (intro same) (simp_all add: check_backpressure_def check_backpressure_transition_def Let_def)
  qed
next
  case (BpActive since)
  show thesis
  proof (cases "q_len (ss_queue s) \<le> ss_low_watermark_depth s")
    case True
    with BpActive show thesis
      by (intro off) (simp_all add: check_backpressure_def check_backpressure_transition_def Let_def)
  next
    case False
    with BpActive show thesis
      by (intro same) (simp_all add: check_backpressure_def check_backpressure_transition_def Let_def)
  qed
qed

lemma check_backpressure_ok:
  fixes t :: turn
  assumes "stream_inv s"
  defines "s' \<equiv> fst (check_backpressure t s)"
  shows "bp_ok s'" "stream_inv s'" "stream_items s' = stream_items s" "ss_id s' = ss_id s"
    "ss_queue s' = ss_queue s" "ss_producer_complete s' = ss_producer_complete s"
    "ss_low_watermark_depth s' = ss_low_watermark_depth s" "ss_demand s' = ss_demand s"
proof -
  have len: "q_len (ss_queue s) \<le> q_capacity (ss_queue s)"
    using assms(1) by (auto simp: stream_inv_def queue_inv_def)
  have "bp_ok s' \<and> stream_inv s' \<and> stream_items s' = stream_items s \<and> ss_id s' = ss_id s \<and>
    ss_queue s' = ss_queue s \<and> ss_producer_complete s' = ss_producer_complete s \<and>
    ss_low_watermark_depth s' = ss_low_watermark_depth s \<and> ss_demand s' = ss_demand s"
    using assms(1) len
    by (cases s t rule: check_backpressure_cases; cases "ss_backpressure s")
      (auto simp: s'_def bp_ok_def stream_inv_def stream_items_def)
  then show "bp_ok s'" "stream_inv s'" "stream_items s' = stream_items s" "ss_id s' = ss_id s"
    "ss_queue s' = ss_queue s" "ss_producer_complete s' = ss_producer_complete s"
    "ss_low_watermark_depth s' = ss_low_watermark_depth s" "ss_demand s' = ss_demand s" by blast+
qed

lemma check_backpressure_streams_fst:
  "fst (check_backpressure_streams t k ss) = map (\<lambda>s. fst (check_backpressure t s)) ss"
  by (induction ss arbitrary: k) (auto simp: split_beta Let_def split: option.split)

lemma check_backpressure_streams_calls:
  "calls (snd (snd (check_backpressure_streams t k ss))) = []"
proof (induction ss arbitrary: k)
  case (Cons s ss)
  from Cons [of "Suc k"] show ?case
    by (cases s t rule: check_backpressure_cases) (auto simp: split_beta Let_def)
qed simp

lemma check_backpressure_all_streams:
  "fd_streams (snd (check_backpressure_all t d)) = map (\<lambda>s. fst (check_backpressure t s)) (fd_streams d)"
  using check_backpressure_streams_fst [of t 0 "fd_streams d"]
  by (simp add: check_backpressure_all_def split_beta log_events_def)

text \<open>What the end of a turn changes.\<close>

definition after_frame :: "flow_driver \<Rightarrow> flow_driver \<Rightarrow> bool" where
  "after_frame d d' \<longleftrightarrow>
     (\<exists>ys y. d' = d\<lparr>fd_streams := map ys (fd_streams d), fd_yield_ctrl := y, fd_log := fd_log d'\<rparr> \<and>
        (\<forall>s. \<exists>t. ys s = fst (check_backpressure t s))) \<and> calls (fd_log d') = calls (fd_log d)"

lemma notify_producer_calls: "calls (notify_producer d tr) = []"
  by (auto simp: notify_producer_def split: option.split)

lemma calls_concat: "(\<And>x. x \<in> set xs \<Longrightarrow> calls (f x) = []) \<Longrightarrow> calls (concat (map f xs)) = []"
  by (induction xs) auto

lemma end_of_turn_frame:
  assumes "(trs, d1) = check_backpressure_all t d" and "d2 = (if trs \<noteq> [] then notify_producers trs d1 else d1)"
  shows "after_frame d (yield_check t d2)"
proof -
  have s1: "fd_streams d1 = map (\<lambda>s. fst (check_backpressure t s)) (fd_streams d)"
    using check_backpressure_all_streams [of t d] assms(1) by (metis snd_conv)
  have d1: "d1 = d\<lparr>fd_streams := fd_streams d1, fd_log := fd_log d1\<rparr>" "calls (fd_log d1) = calls (fd_log d)"
    using assms(1) check_backpressure_streams_calls [of t 0 "fd_streams d"]
    by (auto simp: check_backpressure_all_def split_beta log_events_def)
  have d2: "d2 = d\<lparr>fd_streams := fd_streams d1, fd_log := fd_log d2\<rparr>" "calls (fd_log d2) = calls (fd_log d)"
  proof -
    have n: "d2 = d1\<lparr>fd_log := fd_log d2\<rparr>" "calls (fd_log d2) = calls (fd_log d1)"
      using assms(2) calls_concat [of trs "notify_producer d1"] notify_producer_calls
      by (simp_all add: notify_producers_def log_events_def)
    show "calls (fd_log d2) = calls (fd_log d)" using n(2) d1(2) by simp
    show "d2 = d\<lparr>fd_streams := fd_streams d1, fd_log := fd_log d2\<rparr>" by (subst n(1), subst d1(1)) simp
  qed
  obtain y where y: "yield_check t d2 = d2\<lparr>fd_yield_ctrl := y, fd_log := fd_log (yield_check t d2)\<rparr>"
    "calls (fd_log (yield_check t d2)) = calls (fd_log d2)"
    by (cases "should_yield (yield_record_element (fd_yield_ctrl d2)) (tn_after t)")
      (auto simp: yield_check_def Let_def log_event_def)
  have "yield_check t d2 = d\<lparr>fd_streams := map (\<lambda>s. fst (check_backpressure t s)) (fd_streams d),
      fd_yield_ctrl := y, fd_log := fd_log (yield_check t d2)\<rparr>"
    by (subst y(1), subst d2(1)) (simp add: s1)
  then show ?thesis using y(2) d2(2) by (auto simp: after_frame_def)
qed

lemma after_frame_ok:
  assumes fr: "after_frame d d'" and inv: "driver_inv d"
  shows "driver_inv d'" "abs_net (fd_streams d') = abs_net (fd_streams d)" "caps (fd_streams d') = caps (fd_streams d)"
    "\<forall>s \<in> set (fd_streams d'). bp_ok s" "fd_topology d' = fd_topology d" "fd_error_policy d' = fd_error_policy d"
    "fd_cancellation d' = fd_cancellation d" "fd_started_at d' = fd_started_at d" "fd_timeouts d' = fd_timeouts d"
    "calls (fd_log d') = calls (fd_log d)" "fd_next_global_sequence d' = fd_next_global_sequence d"
    "fd_state d' = fd_state d" "fd_flow_id d' = fd_flow_id d"
proof -
  obtain ys y where d': "d' = d\<lparr>fd_streams := map ys (fd_streams d), fd_yield_ctrl := y, fd_log := fd_log d'\<rparr>"
    and ys: "\<And>s. \<exists>t. ys s = fst (check_backpressure t s)" and c: "calls (fd_log d') = calls (fd_log d)"
    using fr by (auto simp: after_frame_def)
  have eqs: "fd_streams d' = map ys (fd_streams d)" "fd_topology d' = fd_topology d"
    "fd_stream_index d' = fd_stream_index d" "fd_instances d' = fd_instances d"
    "fd_component_metrics d' = fd_component_metrics d" "fd_error_policy d' = fd_error_policy d"
    "fd_cancellation d' = fd_cancellation d" "fd_started_at d' = fd_started_at d" "fd_timeouts d' = fd_timeouts d"
    "fd_next_global_sequence d' = fd_next_global_sequence d" "fd_state d' = fd_state d" "fd_flow_id d' = fd_flow_id d"
    by (subst d', simp)+
  have y_ok: "bp_ok (ys s) \<and> stream_inv (ys s) \<and> stream_items (ys s) = stream_items s \<and> ss_id (ys s) = ss_id s \<and>
      ss_queue (ys s) = ss_queue s \<and> ss_producer_complete (ys s) = ss_producer_complete s" if "stream_inv s" for s
    using ys [of s] check_backpressure_ok [OF that] by metis
  have sinv: "stream_inv s" if "s \<in> set (fd_streams d)" for s
    using inv that by (auto simp: driver_inv_def streams_ok_def in_set_conv_nth)
  show "driver_inv d'" using inv y_ok sinv by (simp add: driver_inv_def streams_ok_def eqs)
  show "abs_net (fd_streams d') = abs_net (fd_streams d)" "caps (fd_streams d') = caps (fd_streams d)"
    using y_ok sinv by (simp_all add: abs_net_def caps_def eqs)
  show "\<forall>s \<in> set (fd_streams d'). bp_ok s" using y_ok sinv by (auto simp: eqs)
  show "calls (fd_log d') = calls (fd_log d)" by (rule c)
  show "fd_topology d' = fd_topology d" "fd_error_policy d' = fd_error_policy d"
    "fd_cancellation d' = fd_cancellation d" "fd_started_at d' = fd_started_at d" "fd_timeouts d' = fd_timeouts d"
    "fd_next_global_sequence d' = fd_next_global_sequence d" "fd_state d' = fd_state d" "fd_flow_id d' = fd_flow_id d"
    by (rule eqs)+
qed

section \<open>Completion in the network\<close>

text \<open>
  A producer closes all its channels together, and a stage with inputs only after all of them
  are closed and empty.
\<close>

definition completion_ok :: "flow_topology \<Rightarrow> net \<Rightarrow> bool" where
  "completion_ok T n \<longleftrightarrow>
     length (nt_queues n) = length (ft_connections T) \<and> length (nt_closed n) = length (ft_connections T) \<and>
     (\<forall>i. \<forall>k \<in> set (outs_of T i). nt_closed n ! k \<longrightarrow>
        (\<forall>k' \<in> set (outs_of T i). nt_closed n ! k') \<and>
        (\<forall>j \<in> set (ins_of T i). nt_closed n ! j \<and> nt_queues n ! j = []))"

lemma completion_okD:
  assumes "completion_ok T n" and "k \<in> set (outs_of T i)" and "nt_closed n ! k"
  shows "k' \<in> set (outs_of T i) \<Longrightarrow> nt_closed n ! k'"
    "j \<in> set (ins_of T i) \<Longrightarrow> nt_closed n ! j" "j \<in> set (ins_of T i) \<Longrightarrow> nt_queues n ! j = []"
  using assms unfolding completion_ok_def by metis+

text \<open>Channels that the network does not hold are never touched.\<close>

lemma net_offer_closed [simp]: "nt_closed (net_offer cs k x n) = nt_closed n"
  by (simp add: net_offer_def)

lemma net_offer_queue:
  "nt_queues (net_offer cs k x n) ! j =
     (if j = k \<and> k < length (nt_queues n) \<and> length (nt_queues n ! k) < cs ! k then nt_queues n ! k @ [x]
      else nt_queues n ! j)"
  by (cases "j = k") (simp_all add: net_offer_def list_update_beyond)

lemma net_offer_length [simp]: "length (nt_queues (net_offer cs k x n)) = length (nt_queues n)"
  by (simp add: net_offer_def)

lemma net_offers_closed [simp]: "nt_closed (net_offers cs t q origin ts ks outs n) = nt_closed n"
  by (induction cs t q origin ts ks outs n rule: net_offers.induct) simp_all

lemma net_offers_length [simp]: "length (nt_queues (net_offers cs t q origin ts ks outs n)) = length (nt_queues n)"
  by (induction cs t q origin ts ks outs n rule: net_offers.induct) simp_all

lemma net_offers_queue: "j \<notin> set ks \<Longrightarrow> nt_queues (net_offers cs t q origin ts ks outs n) ! j = nt_queues n ! j"
  by (induction cs t q origin ts ks outs n rule: net_offers.induct) (simp_all add: net_offer_queue)

lemma net_take_simps [simp]:
  "nt_closed (net_take j n) = nt_closed n" "length (nt_queues (net_take j n)) = length (nt_queues n)"
  by (simp_all add: net_take_def)

lemma net_take_queue:
  "nt_queues (net_take j n) ! k = (if k = j \<and> j < length (nt_queues n) then tl (nt_queues n ! j) else nt_queues n ! k)"
  by (cases "k = j") (simp_all add: net_take_def list_update_beyond)

lemma net_close_queues [simp]: "nt_queues (net_close ks n) = nt_queues n"
  by (induction ks n rule: net_close.induct) simp_all

lemma net_close_length [simp]: "length (nt_closed (net_close ks n)) = length (nt_closed n)"
  by (induction ks n rule: net_close.induct) simp_all

lemma net_close_closed:
  "k < length (nt_closed n) \<Longrightarrow> nt_closed (net_close ks n) ! k \<longleftrightarrow> k \<in> set ks \<or> nt_closed n ! k"
proof (induction ks n rule: net_close.induct)
  case (2 k' ks n)
  then show ?case by (cases "k = k'") simp_all
qed simp

text \<open>Adding elements to open channels, taking elements, and closing a finished stage.\<close>

lemma completion_ok_queues:
  assumes "completion_ok T n" and "nt_closed m = nt_closed n" and "length (nt_queues m) = length (nt_queues n)"
    and "\<And>k. k < length (nt_closed n) \<Longrightarrow> nt_closed n ! k \<Longrightarrow> nt_queues n ! k = [] \<Longrightarrow> nt_queues m ! k = []"
  shows "completion_ok T m"
proof -
  have "nt_queues m ! j = []" if "nt_closed n ! j" "nt_queues n ! j = []" "j \<in> set (ins_of T i)" for i j
    using assms(1) assms(4) [OF _ that(1,2)] ins_of_less [OF that(3)] by (simp add: completion_ok_def)
  with assms(1-3) show ?thesis unfolding completion_ok_def by metis
qed

lemma completion_ok_close:
  assumes ok: "completion_ok T n"
    and ins: "\<And>j. j \<in> set (ins_of T i) \<Longrightarrow> nt_closed n ! j \<and> nt_queues n ! j = []"
  shows "completion_ok T (net_close (outs_of T i) n)"
proof -
  have len: "length (nt_closed n) = length (ft_connections T)" using ok by (simp add: completion_ok_def)
  have cl: "nt_closed (net_close (outs_of T i) n) ! k \<longleftrightarrow> k \<in> set (outs_of T i) \<or> nt_closed n ! k"
    if "k < length (ft_connections T)" for k using net_close_closed that len by simp
  have own: "i' = i" if "k \<in> set (outs_of T i)" "k \<in> set (outs_of T i')" for k i' using that by (simp add: outs_of_def)
  show ?thesis
    unfolding completion_ok_def
  proof (intro conjI allI ballI impI)
    fix i' k k' assume k: "k \<in> set (outs_of T i')" "nt_closed (net_close (outs_of T i) n) ! k"
      "k' \<in> set (outs_of T i')"
    show "nt_closed (net_close (outs_of T i) n) ! k'"
      using k completion_okD(1) [OF ok k(1) _ k(3)] own outs_of_less cl by metis
  next
    fix i' k j assume k: "k \<in> set (outs_of T i')" "nt_closed (net_close (outs_of T i) n) ! k"
      "j \<in> set (ins_of T i')"
    have "nt_closed n ! j \<and> nt_queues n ! j = []"
      using k ins own completion_okD(2,3) [OF ok k(1) _ k(3)] outs_of_less cl by metis
    then show "nt_closed (net_close (outs_of T i) n) ! j" "nt_queues (net_close (outs_of T i) n) ! j = []"
      using cl ins_of_less [OF k(3)] by simp_all
  qed (use ok in \<open>simp_all add: completion_ok_def\<close>)
qed

text \<open>A stage may run when it is an open source or has an element to read.\<close>

definition exec_pre :: "flow_topology \<Rightarrow> net \<Rightarrow> nat \<Rightarrow> nat \<Rightarrow> bool" where
  "exec_pre T n i j \<longleftrightarrow>
     (if sd_role (ft_stages T ! i) = Source
      then ins_of T i = [] \<and> (\<exists>k \<in> set (outs_of T i). \<not> nt_closed n ! k)
      else j \<in> set (ins_of T i) \<and> nt_queues n ! j \<noteq> [])"

lemma replied_outputs_sub: "replied_outputs r ks = (ks', outs) \<Longrightarrow> set ks' \<subseteq> set ks"
  by (cases "(r, ks)" rule: replied_outputs.cases) (auto dest: in_set_takeD)

lemma net_exec_completion:
  assumes ok: "completion_ok T n" and pre: "exec_pre T n i j"
  shows "completion_ok T (net_exec T cs t q i j n)"
proof -
  have offers: "completion_ok T (net_offers cs t q' origin ts ks outs m)"
    if "completion_ok T m" "set ks \<subseteq> set (outs_of T i)" "\<forall>k \<in> set (outs_of T i). \<not> nt_closed m ! k"
    for q' origin ts ks outs m
  proof (rule completion_ok_queues [OF that(1)])
    fix k assume k: "k < length (nt_closed m)" "nt_closed m ! k" "nt_queues m ! k = []"
    with that(2,3) have "k \<notin> set ks" by blast
    with k show "nt_queues (net_offers cs t q' origin ts ks outs m) ! k = []" by (simp add: net_offers_queue)
  qed simp_all
  have take_ok: "completion_ok T (net_take j n)"
    using ok by (intro completion_ok_queues [OF ok]) (auto simp: net_take_queue)
  show ?thesis
  proof (cases "sd_role (ft_stages T ! i) = Source")
    case True
    with pre have src: "ins_of T i = []" "\<exists>k \<in> set (outs_of T i). \<not> nt_closed n ! k" by (simp_all add: exec_pre_def)
    have open_: "\<forall>k \<in> set (outs_of T i). \<not> nt_closed n ! k" using src(2) completion_okD(1) [OF ok] by blast
    have "completion_ok T (net_pull cs t q (outs_of T i) n)"
      using ok offers [OF ok _ open_] completion_ok_close [OF ok, of i] src(1)
      by (auto simp: net_pull_def set_take_subset split: reply.split option.split)
    with True show ?thesis by (simp add: net_exec_def)
  next
    case False
    with pre have j: "j \<in> set (ins_of T i)" "nt_queues n ! j \<noteq> []" by (simp_all add: exec_pre_def)
    have open_: "\<forall>k \<in> set (outs_of T i). \<not> nt_closed n ! k" using completion_okD(3) [OF ok _ _ j(1)] j(2) by blast
    obtain ks outs where ko: "replied_outputs (tn_process t) (outs_of T i) = (ks, outs)" by (cases "replied_outputs (tn_process t) (outs_of T i)")
    have "completion_ok T (net_process cs t q j (outs_of T i) n)"
      using offers [OF take_ok replied_outputs_sub [OF ko]] open_ ko by (simp add: net_process_def Let_def)
    with take_ok False show ?thesis by (cases "sd_role (ft_stages T ! i)") (simp_all add: net_exec_def)
  qed
qed

section \<open>The loop invariant\<close>

definition loop_inv :: "flow_driver \<Rightarrow> bool" where
  "loop_inv d \<longleftrightarrow>
     driver_inv d \<and> (\<forall>s \<in> set (fd_streams d). bp_ok s) \<and>
     completion_ok (fd_topology d) (abs_net (fd_streams d)) \<and> fd_started_at d \<noteq> None"

lemma valid_edges:
  assumes "valid_topology T" and "k < length (ft_connections T)"
  shows "fst (edges T ! k) < length (ft_stages T)" "snd (edges T ! k) < length (ft_stages T)"
    "sd_role (ft_stages T ! snd (edges T ! k)) \<noteq> Source" "sd_role (ft_stages T ! fst (edges T ! k)) \<noteq> Sink"
proof -
  have e: "edges T ! k \<in> set (edges T)" using assms(2) by (intro nth_mem) simp
  obtain u v where uv: "edges T ! k = (u, v)" by (cases "edges T ! k")
  have "in_range (length (ft_stages T)) (edges T)" using assms(1) by (simp add: valid_topology_def Let_def)
  from in_rangeD [OF this] e uv
  show "fst (edges T ! k) < length (ft_stages T)" "snd (edges T ! k) < length (ft_stages T)" by simp_all
  show "sd_role (ft_stages T ! snd (edges T ! k)) \<noteq> Source" "sd_role (ft_stages T ! fst (edges T ! k)) \<noteq> Sink"
    using assms(1) e uv by (auto simp: valid_topology_def Let_def)
qed

lemma ins_of_edge: "k \<in> set (ins_of T i) \<longleftrightarrow> k < length (ft_connections T) \<and> snd (edges T ! k) = i"
  by (auto simp: ins_of_def)

lemma outs_of_edge: "k \<in> set (outs_of T i) \<longleftrightarrow> k < length (ft_connections T) \<and> fst (edges T ! k) = i"
  by (auto simp: outs_of_def)

lemma valid_source_ins:
  assumes "valid_topology T" and "sd_role (ft_stages T ! i) = Source"
  shows "ins_of T i = []"
proof (rule ccontr)
  assume "ins_of T i \<noteq> []"
  then obtain k where "k \<in> set (ins_of T i)" by fastforce
  with valid_edges(3) [OF assms(1)] assms(2) show False by (auto simp: ins_of_edge)
qed

text \<open>A stage without inputs is a source, since it is reachable from one.\<close>

lemma valid_no_ins:
  assumes valid: "valid_topology T" and i: "i < length (ft_stages T)" "ins_of T i = []"
  shows "sd_role (ft_stages T ! i) = Source"
proof -
  have "i \<in> (set (edges T))\<^sup>* `` sources T" using valid i(1) by (simp add: valid_topology_def Let_def)
  then obtain s where s: "s \<in> sources T" "(s, i) \<in> (set (edges T))\<^sup>*" by blast
  from s(2) show ?thesis
  proof (cases rule: rtranclE)
    case base
    with s(1) show ?thesis by (simp add: sources_eq)
  next
    case (step u)
    then obtain k where "k < length (edges T)" "edges T ! k = (u, i)" by (auto simp: in_set_conv_nth)
    then have "k \<in> set (ins_of T i)" by (simp add: ins_of_edge)
    with i(2) show ?thesis by simp
  qed
qed

lemma abs_net_closed [simp]: "k < length ss \<Longrightarrow> nt_closed (abs_net ss) ! k = ss_producer_complete (ss ! k)"
  by (simp add: abs_net_def)

lemma has_input_queue: "stream_inv s \<Longrightarrow> consumer_has_input s \<longleftrightarrow> stream_items s \<noteq> []"
  by (simp add: consumer_has_input_def queue_is_empty_def stream_items_def queue_items_Nil)

lemma ready_exec_pre:
  assumes inv: "driver_inv d" and i: "i < length (ft_stages (fd_topology d))"
    and ready: "stage_is_ready (fd_topology d) (fd_streams d) i"
  shows "exec_pre (fd_topology d) (abs_net (fd_streams d)) i (chosen_input (fd_topology d) (fd_streams d) i)"
proof (cases "sd_role (ft_stages (fd_topology d) ! i) = Source")
  case True
  with ready obtain k where k: "k \<in> set (outs_of (fd_topology d) i)" "producer_can_produce (fd_streams d ! k)"
    by (auto simp: stage_is_ready_def)
  with driver_outs(3) [OF inv i] have "\<not> nt_closed (abs_net (fd_streams d)) ! k"
    by (auto simp: producer_can_produce_def)
  with True k(1) valid_source_ins [of "fd_topology d" i] inv show ?thesis by (auto simp: exec_pre_def driver_inv_def)
next
  case False
  with ready have h: "has_input_at (fd_topology d) (fd_streams d) i"
    by (auto simp: stage_is_ready_def split: component_role.splits)
  note c = chosen_input_ok [OF h]
  have j: "chosen_input (fd_topology d) (fd_streams d) i < length (fd_streams d)"
    using c(1) driver_outs(4) [OF inv i] by blast
  from False c j has_input_queue [OF driver_inv_stream(1) [OF inv j]] show ?thesis by (simp add: exec_pre_def)
qed

section \<open>Nothing is ready only when nothing is left\<close>

text \<open>
  A router without outputs is accepted by the validation but never ready: its input would stay
  in the queue. The statement is about the topologies without such a stage.
\<close>

definition routers_have_outputs :: "flow_topology \<Rightarrow> bool" where
  "routers_have_outputs T \<longleftrightarrow>
     (\<forall>i < length (ft_stages T). sd_role (ft_stages T ! i) = Router \<longrightarrow> outs_of T i \<noteq> [])"

lemma empty_stream_can_produce:
  assumes "stream_inv s" and "bp_ok s" and "q_len (ss_queue s) = 0" and "\<not> ss_producer_complete s"
  shows "producer_can_produce s"
proof -
  have "0 < ss_demand s" "\<not> queue_is_full (ss_queue s)"
    using assms(1,3) by (auto simp: stream_inv_def queue_inv_def word_less_nat_alt queue_is_full_def)
  with assms bp_ok_empty show ?thesis by (simp add: producer_can_produce_def)
qed

lemma idle_empty:
  assumes loop: "loop_inv d" and routers: "routers_have_outputs (fd_topology d)"
    and idle: "\<forall>i < length (ft_stages (fd_topology d)). \<not> stage_is_ready (fd_topology d) (fd_streams d) i"
  shows "\<forall>k < length (fd_streams d). stream_items (fd_streams d ! k) = []"
proof (rule ccontr)
  let ?T = "fd_topology d" and ?ss = "fd_streams d"
  define E where "E = set (edges ?T)"
  define S where "S = {v. \<exists>k \<in> set (ins_of ?T v). stream_items (?ss ! k) \<noteq> []}"
  assume "\<not> (\<forall>k < length ?ss. stream_items (?ss ! k) = [])"
  then obtain k where k: "k < length ?ss" "stream_items (?ss ! k) \<noteq> []" by blast
  have inv: "driver_inv d" and bp: "\<And>s. s \<in> set ?ss \<Longrightarrow> bp_ok s" and comp: "completion_ok ?T (abs_net ?ss)"
    using loop by (simp_all add: loop_inv_def)
  have valid: "valid_topology ?T" and len: "length ?ss = length (ft_connections ?T)"
    using inv by (simp_all add: driver_inv_def)
  have "snd (edges ?T ! k) \<in> S" unfolding S_def using k len by (auto simp: ins_of_edge)
  moreover have "wf (E\<inverse>)"
    using valid by (simp add: valid_topology_def Let_def E_def finite_acyclic_wf_converse)
  ultimately obtain v where v: "v \<in> S" and last: "\<And>w. (v, w) \<in> E \<Longrightarrow> w \<notin> S"
    by (metis converseI wfE_min)
  then obtain j where j: "j \<in> set (ins_of ?T v)" "stream_items (?ss ! j) \<noteq> []" by (auto simp: S_def)
  have jlen: "j < length ?ss" and vlen: "v < length (ft_stages ?T)" and role: "sd_role (ft_stages ?T ! v) \<noteq> Source"
    using j(1) len valid_edges [OF valid] by (auto simp: ins_of_edge)
  have input: "has_input_at ?T ?ss v"
    using j has_input_queue [OF driver_inv_stream(1) [OF inv jlen]] by (auto simp: has_input_at_def)
  have outs: "producer_can_produce (?ss ! k')" if k': "k' \<in> set (outs_of ?T v)" for k'
  proof -
    have kl: "k' < length ?ss" using k' len outs_of_less by metis
    have "(v, snd (edges ?T ! k')) \<in> E"
      using k' unfolding E_def outs_of_edge by (metis length_edges nth_mem prod.collapse)
    from last [OF this] have "stream_items (?ss ! k') = []" using k' by (auto simp: S_def ins_of_edge outs_of_edge)
    then have "q_len (ss_queue (?ss ! k')) = 0" by (simp add: stream_items_def queue_items_Nil)
    moreover have "\<not> ss_producer_complete (?ss ! k')"
      using completion_okD(3) [OF comp k' _ j(1)] j(2) kl jlen by auto
    ultimately show ?thesis
      using empty_stream_can_produce [OF driver_inv_stream(1) [OF inv kl]] bp kl by simp
  qed
  have "stage_is_ready ?T ?ss v"
  proof (cases "sd_role (ft_stages ?T ! v)")
    case Router
    with routers vlen have "outs_of ?T v \<noteq> []" by (simp add: routers_have_outputs_def)
    then obtain k' where "k' \<in> set (outs_of ?T v)" by fastforce
    with Router input outs show ?thesis by (auto simp: stage_is_ready_def)
  qed (use role input outs in \<open>simp_all add: stage_is_ready_def\<close>)
  with idle vlen show False by blast
qed

lemma idle_sources_closed:
  assumes loop: "loop_inv d" and empty: "\<forall>k < length (fd_streams d). stream_items (fd_streams d ! k) = []"
    and idle: "\<forall>i < length (ft_stages (fd_topology d)). \<not> stage_is_ready (fd_topology d) (fd_streams d) i"
    and src: "sd_role (ft_stages (fd_topology d) ! i) = Source" and k: "k \<in> set (outs_of (fd_topology d) i)"
  shows "ss_producer_complete (fd_streams d ! k)"
proof (rule ccontr)
  assume open_: "\<not> ss_producer_complete (fd_streams d ! k)"
  have inv: "driver_inv d" and bp: "\<And>s. s \<in> set (fd_streams d) \<Longrightarrow> bp_ok s"
    using loop by (simp_all add: loop_inv_def)
  have kl: "k < length (fd_streams d)" and i: "i < length (ft_stages (fd_topology d))"
    using k inv valid_edges [of "fd_topology d" k] by (auto simp: driver_inv_def outs_of_edge)
  have "q_len (ss_queue (fd_streams d ! k)) = 0"
    using empty kl by (simp add: stream_items_def queue_items_Nil)
  then have "producer_can_produce (fd_streams d ! k)"
    using empty_stream_can_produce [OF driver_inv_stream(1) [OF inv kl] bp _ open_] kl by simp
  with src k have "stage_is_ready (fd_topology d) (fd_streams d) i" by (auto simp: stage_is_ready_def)
  with idle i show False by blast
qed

end
