(* ===== verification/Rea_Driver_Loop.thy ===== *)
theory Rea_Driver_Loop
  imports Rea_Driver_Turn
begin

text \<open>
  Whole turns and runs of the driver: every turn preserves the loop invariant and never panics,
  a run without an end keeps pulling its sources, and the drain ends by itself.
\<close>

section \<open>Passing completion on\<close>

lemma net_close_mono: "nt_closed n ! k \<Longrightarrow> nt_closed (net_close ks n) ! k"
proof (induction ks n rule: net_close.induct)
  case (2 k' ks n)
  have "(nt_closed n)[k' := True] ! k"
    using "2.prems" by (cases "k' = k"; cases "k < length (nt_closed n)") (simp_all add: list_update_beyond)
  with "2.IH" show ?case by simp
qed simp

text \<open>The facts about a part of a turn that only closes channels.\<close>

definition closing :: "flow_driver \<Rightarrow> flow_driver \<Rightarrow> bool" where
  "closing d d' \<longleftrightarrow>
     op_result d d' (abs_net (fd_streams d')) \<and> fd_log d' = fd_log d \<and>
     completion_ok (fd_topology d) (abs_net (fd_streams d')) \<and>
     nt_queues (abs_net (fd_streams d')) = nt_queues (abs_net (fd_streams d)) \<and>
     (\<forall>k. nt_closed (abs_net (fd_streams d)) ! k \<longrightarrow> nt_closed (abs_net (fd_streams d')) ! k)"

lemma closing_refl:
  "driver_inv d \<Longrightarrow> completion_ok (fd_topology d) (abs_net (fd_streams d)) \<Longrightarrow> closing d d"
  by (simp add: closing_def op_result_refl)

lemma closing_trans: "closing a b \<Longrightarrow> closing b c \<Longrightarrow> closing a c"
  unfolding closing_def using op_result_trans exec_frame_same(1) op_result_def by metis

lemma closing_inv:
  assumes "closing d d'"
  shows "driver_inv d'" "completion_ok (fd_topology d') (abs_net (fd_streams d'))"
    "fd_topology d' = fd_topology d" "length (fd_streams d') = length (fd_streams d)"
    "same_shape (fd_streams d) (fd_streams d')" "exec_frame d d'"
  using assms exec_frame_same(1) [of d d'] same_shape_length [of "fd_streams d" "fd_streams d'"]
  by (auto simp: closing_def op_result_def)

lemma close_stage_ok:
  assumes inv: "driver_inv d" and comp: "completion_ok (fd_topology d) (abs_net (fd_streams d))"
    and i: "i < length (ft_stages (fd_topology d))"
    and ins: "\<forall>j \<in> set (ins_of (fd_topology d) i). stream_is_complete (fd_streams d ! j)"
  obtains d' where "mark_complete (outs_of (fd_topology d) i) d = Some d'" "closing d d'"
    "\<forall>k \<in> set (outs_of (fd_topology d) i). nt_closed (abs_net (fd_streams d')) ! k"
proof -
  let ?n = "abs_net (fd_streams d)" and ?outs = "outs_of (fd_topology d) i"
  obtain d' where d': "mark_complete ?outs d = Some d'" "op_result d d' (net_close ?outs ?n)"
    using mark_complete_ok [OF inv driver_outs(3) [OF inv i]] by blast
  have abs': "abs_net (fd_streams d') = net_close ?outs ?n" using d'(2) by (simp add: op_result_def)
  have "nt_closed ?n ! j \<and> nt_queues ?n ! j = []" if j: "j \<in> set (ins_of (fd_topology d) i)" for j
  proof -
    have "j < length (fd_streams d)" using j driver_outs(4) [OF inv i] by blast
    with ins j show ?thesis
      by (auto simp: stream_is_complete_def queue_is_empty_def stream_items_def queue_items_Nil)
  qed
  then have c': "completion_ok (fd_topology d) (net_close ?outs ?n)" by (rule completion_ok_close [OF comp])
  have "closing d d'"
    using d' c' mark_complete_log [OF d'(1)] net_close_mono [of ?n _ ?outs] by (simp add: closing_def abs')
  moreover have "\<forall>k \<in> set ?outs. nt_closed (abs_net (fd_streams d')) ! k"
    unfolding abs' using driver_outs(3) [OF inv i] net_close_closed [of _ ?n ?outs]
    by (auto simp: abs_net_def)
  ultimately show thesis by (rule that [OF d'(1)])
qed

lemma is_complete_abs:
  assumes "closing d d'" and "j < length (fd_streams d)" and "stream_is_complete (fd_streams d ! j)"
  shows "stream_is_complete (fd_streams d' ! j)"
proof -
  have len: "j < length (fd_streams d')" using assms(2) closing_inv(4) [OF assms(1)] by simp
  have "nt_queues (abs_net (fd_streams d')) ! j = nt_queues (abs_net (fd_streams d)) ! j"
    using assms(1) by (simp add: closing_def)
  then have q: "q_len (ss_queue (fd_streams d' ! j)) = 0 \<longleftrightarrow> q_len (ss_queue (fd_streams d ! j)) = 0"
    unfolding abs_net_queue [OF len] abs_net_queue [OF assms(2)]
    by (simp add: stream_items_def flip: queue_items_Nil)
  have "nt_closed (abs_net (fd_streams d)) ! j \<Longrightarrow> nt_closed (abs_net (fd_streams d')) ! j"
    using assms(1) by (simp add: closing_def)
  then have "ss_producer_complete (fd_streams d ! j) \<Longrightarrow> ss_producer_complete (fd_streams d' ! j)"
    unfolding abs_net_closed [OF len] abs_net_closed [OF assms(2)] .
  with assms(3) q show ?thesis by (simp add: stream_is_complete_def queue_is_empty_def)
qed

lemma propagate_from_ok:
  assumes "driver_inv d" and "completion_ok (fd_topology d) (abs_net (fd_streams d))"
    and "\<forall>i \<in> set is. i < length (ft_stages (fd_topology d))"
  shows "\<exists>d'. propagate_from is d = Some d' \<and> closing d d' \<and>
    (\<forall>i \<in> set is. ins_of (fd_topology d) i \<noteq> [] \<longrightarrow>
       (\<forall>j \<in> set (ins_of (fd_topology d) i). stream_is_complete (fd_streams d ! j)) \<longrightarrow>
       (\<forall>k \<in> set (outs_of (fd_topology d) i). nt_closed (abs_net (fd_streams d')) ! k))"
  using assms
proof (induction "is" arbitrary: d)
  case Nil
  then show ?case by (simp add: closing_refl)
next
  case (Cons i "is")
  let ?T = "fd_topology d"
  have i: "i < length (ft_stages ?T)" using Cons.prems(3) by simp
  note ix = driver_outs [OF Cons.prems(1) i]
  have all: "all_streams stream_is_complete (fd_streams d) (ins_of ?T i) =
      Some (\<forall>j \<in> set (ins_of ?T i). stream_is_complete (fd_streams d ! j))" by (rule all_streams_eq [OF ix(4)])
  obtain d1 where d1: "closing d d1"
    "propagate_from (i # is) d = propagate_from is d1"
    "ins_of ?T i \<noteq> [] \<longrightarrow> (\<forall>j \<in> set (ins_of ?T i). stream_is_complete (fd_streams d ! j)) \<longrightarrow>
       (\<forall>k \<in> set (outs_of ?T i). nt_closed (abs_net (fd_streams d1)) ! k)"
  proof (cases "ins_of ?T i \<noteq> [] \<and> (\<forall>j \<in> set (ins_of ?T i). stream_is_complete (fd_streams d ! j))")
    case True
    then obtain d1 where "mark_complete (outs_of ?T i) d = Some d1" "closing d d1"
      "\<forall>k \<in> set (outs_of ?T i). nt_closed (abs_net (fd_streams d1)) ! k"
      using close_stage_ok [OF Cons.prems(1,2) i] by blast
    with True ix all show thesis by (intro that [of d1]) simp_all
  next
    case False
    with ix all closing_refl [OF Cons.prems(1,2)] show thesis by (intro that [of d]) auto
  qed
  note c1 = closing_inv [OF d1(1)]
  have "\<forall>i \<in> set is. i < length (ft_stages (fd_topology d1))" using Cons.prems(3) c1(3) by simp
  from Cons.IH [OF c1(1,2) this] obtain d' where d': "propagate_from is d1 = Some d'" "closing d1 d'"
    "\<forall>i \<in> set is. ins_of ?T i \<noteq> [] \<longrightarrow> (\<forall>j \<in> set (ins_of ?T i). stream_is_complete (fd_streams d1 ! j)) \<longrightarrow>
       (\<forall>k \<in> set (outs_of ?T i). nt_closed (abs_net (fd_streams d')) ! k)"
    unfolding c1(3) by blast
  have mono: "nt_closed (abs_net (fd_streams d1)) ! k \<Longrightarrow> nt_closed (abs_net (fd_streams d')) ! k" for k
    using d'(2) by (simp add: closing_def)
  show ?case
  proof (intro exI conjI ballI impI)
    show "propagate_from (i # is) d = Some d'" using d1(2) d'(1) by simp
    show "closing d d'" by (rule closing_trans [OF d1(1) d'(2)])
  next
    fix i' k assume i': "i' \<in> set (i # is)" "ins_of ?T i' \<noteq> []"
      "\<forall>j \<in> set (ins_of ?T i'). stream_is_complete (fd_streams d ! j)" "k \<in> set (outs_of ?T i')"
    show "nt_closed (abs_net (fd_streams d')) ! k"
    proof (cases "i' = i")
      case True
      with i' d1(3) mono show ?thesis by blast
    next
      case False
      with i'(1) Cons.prems(3) have m: "i' \<in> set is" "i' < length (ft_stages ?T)" by auto
      have "\<forall>j \<in> set (ins_of ?T i'). stream_is_complete (fd_streams d1 ! j)"
        using i'(3) is_complete_abs [OF d1(1)] driver_outs(4) [OF Cons.prems(1) m(2)] by blast
      with d'(3) m(1) i'(2,4) show ?thesis by blast
    qed
  qed
qed

lemma propagate_ok:
  assumes "driver_inv d" and "completion_ok (fd_topology d) (abs_net (fd_streams d))"
  obtains d' where "propagate_producer_complete d = Some d'" "closing d d'"
    "\<And>i k. i < length (ft_stages (fd_topology d)) \<Longrightarrow> ins_of (fd_topology d) i \<noteq> [] \<Longrightarrow>
       (\<forall>j \<in> set (ins_of (fd_topology d) i). stream_is_complete (fd_streams d ! j)) \<Longrightarrow>
       k \<in> set (outs_of (fd_topology d) i) \<Longrightarrow> nt_closed (abs_net (fd_streams d')) ! k"
  using propagate_from_ok [OF assms, of "[0..<length (ft_stages (fd_topology d))]"]
  unfolding propagate_producer_complete_def by auto

section \<open>One turn\<close>

lemma fold_cancel_flow:
  "fold cancel_flow rs d = d\<lparr>fd_cancellation := fold (\<lambda>r c. cancel c r) rs (fd_cancellation d)\<rparr>"
  by (induction rs arbitrary: d) (simp_all add: cancel_flow_def)

lemma fold_cancel_cancelled: "is_cancelled (fold (\<lambda>r c. cancel c r) rs c) \<longleftrightarrow> rs \<noteq> [] \<or> is_cancelled c"
  by (induction rs arbitrary: c) simp_all

lemma driver_inv_cancel [simp]:
  "driver_inv (d\<lparr>fd_cancellation := c\<rparr>) \<longleftrightarrow> driver_inv d"
  by (simp add: driver_inv_def)

lemma stage_turn_eq:
  assumes exec: "execute_stage t ex d = Some (r, d1)"
  obtains (failed) e where "r = Inl e" "fd_error_policy d1 = FailFast"
      "stage_turn show_duration t ex d =
         Some (cancel_flow (cancellation_reason_for show_duration e (sx_component_id ex)) d1, True)"
  | (continued) d' where "stage_turn show_duration t ex d = Some (d', False)" "after_frame d1 d'"
      "(\<exists>e. r = Inl e) \<Longrightarrow> fd_error_policy d1 \<noteq> FailFast"
proof -
  obtain trs d2 where bp: "check_backpressure_all t d1 = (trs, d2)" by (cases "check_backpressure_all t d1")
  let ?d3 = "if trs \<noteq> [] then notify_producers trs d2 else d2"
  have fr: "after_frame d1 (yield_check t ?d3)" by (rule end_of_turn_frame [OF bp [symmetric] refl])
  show thesis
  proof (cases "\<exists>e. r = Inl e \<and> fd_error_policy d1 = FailFast")
    case True
    then obtain e where "r = Inl e" "fd_error_policy d1 = FailFast" by blast
    with exec show thesis by (intro failed [of e]) (simp_all add: stage_turn_def)
  next
    case False
    have "stage_turn show_duration t ex d = Some (yield_check t ?d3, False)"
      using exec bp False by (cases r; cases "fd_error_policy d1") (auto simp: stage_turn_def Let_def)
    with fr False show thesis by (intro continued [of "yield_check t ?d3"]) auto
  qed
qed

text \<open>The three kinds of turn.\<close>

lemma driver_turn_cases:
  assumes inv: "driver_inv d" and comp: "completion_ok (fd_topology d) (abs_net (fd_streams d))"
    and started: "fd_started_at d \<noteq> None"
  obtains (cancelled) c where "driver_turn show_duration t d = Some (d\<lparr>fd_cancellation := c\<rparr>, True)"
      "c = fold (\<lambda>r c. cancel c r) (tn_cancels t) (fd_cancellation d)" "is_cancelled c"
  | (ran) i d1 d' stop where
      "driver_turn show_duration t d = Some (d', stop)" "tn_cancels t = []" "\<not> is_cancelled (fd_cancellation d)"
      "i < length (ft_stages (fd_topology d))" "stage_is_ready (fd_topology d) (fd_streams d) i"
      "op_result d d1 (net_exec (fd_topology d) (caps (fd_streams d)) t (fd_next_global_sequence d) i
         (chosen_input (fd_topology d) (fd_streams d) i) (abs_net (fd_streams d)))"
      "calls (fd_log d1) = calls (fd_log d) @
         [stage_call (fd_topology d) i (chosen_input (fd_topology d) (fd_streams d) i) (abs_net (fd_streams d))]"
      "(stop \<and> fd_error_policy d = FailFast \<and>
          (\<exists>e. stage_reply (fd_topology d) t d i = Inl e \<and>
               d' = cancel_flow (cancellation_reason_for show_duration e (sd_component_id (ft_stages (fd_topology d) ! i))) d1))
       \<or> (\<not> stop \<and> after_frame d1 d')"
  | (idle) d1 d' stop where
      "driver_turn show_duration t d = Some (d', stop)" "tn_cancels t = []" "\<not> is_cancelled (fd_cancellation d)"
      "\<forall>i < length (ft_stages (fd_topology d)). \<not> stage_is_ready (fd_topology d) (fd_streams d) i"
      "propagate_producer_complete d = Some d1" "closing d d1"
      "(if all_streams_complete d1 then stop \<and> d' = cancel_flow SourceComplete d1
        else if stop then (\<exists>r. d' = cancel_flow r d1 \<and> (tn_idle t = IdleCancelled r \<or> (\<exists>e. r = FlowTimeout e)))
        else d' = d1)"
proof -
  let ?c = "fold (\<lambda>r c. cancel c r) (tn_cancels t) (fd_cancellation d)" and ?T = "fd_topology d"
  have valid: "valid_topology ?T" and len: "length (fd_streams d) = length (ft_connections ?T)"
    and ix: "fd_stream_index d = index_of ?T" using inv by (simp_all add: driver_inv_def)
  show thesis
  proof (cases "is_cancelled ?c")
    case True
    then show thesis by (intro cancelled [of ?c]) (simp_all add: driver_turn_def fold_cancel_flow)
  next
    case False
    then have nc: "tn_cancels t = []" "\<not> is_cancelled (fd_cancellation d)" by (simp_all add: fold_cancel_cancelled)
    have turn: "driver_turn show_duration t d =
        Option.bind (next_ready_stage ?T (fd_streams d) (index_of ?T)) (\<lambda>next.
           case next of Some ex \<Rightarrow> stage_turn show_duration t ex d | None \<Rightarrow> idle_turn t d)"
      using nc by (simp add: driver_turn_def ix)
    show thesis
    proof (cases rule: next_ready_stage_cases [OF valid len])
      case 1
      obtain d1 where d1: "propagate_producer_complete d = Some d1" "closing d d1"
        using propagate_ok [OF inv comp] by blast
      have st: "fd_started_at d1 \<noteq> None" "fd_timeouts d1 = fd_timeouts d"
        using started exec_frame_same [OF closing_inv(6) [OF d1(2)]] by simp_all
      obtain d' stop where ds: "idle_turn t d = Some (d', stop)"
        "(if all_streams_complete d1 then stop \<and> d' = cancel_flow SourceComplete d1
          else if stop then (\<exists>r. d' = cancel_flow r d1 \<and> (tn_idle t = IdleCancelled r \<or> (\<exists>e. r = FlowTimeout e)))
          else d' = d1)"
      proof (cases "all_streams_complete d1")
        case True
        with d1(1) show thesis by (intro that [of "cancel_flow SourceComplete d1" True]) (simp_all add: idle_turn_def)
      next
        case nc: False
        show thesis
        proof (cases "tn_idle t")
          case (IdleCancelled r)
          with nc d1(1) show thesis by (intro that [of "cancel_flow r d1" True]) (auto simp: idle_turn_def)
        next
          case (IdleDeadline at)
          show thesis
          proof (cases "to_flow_deadline (fd_timeouts d1) = None")
            case True
            with nc d1(1) IdleDeadline show thesis by (intro that [of d1 False]) (simp_all add: idle_turn_def)
          next
            case False
            with nc d1(1) IdleDeadline st(1) show thesis
              by (intro that [of "cancel_flow (FlowTimeout (at - the (fd_started_at d1))) d1" True])
                (auto simp: idle_turn_def)
          qed
        next
          case IdleTick
          with nc d1(1) show thesis by (intro that [of d1 False]) (simp_all add: idle_turn_def)
        qed
      qed
      show thesis by (rule idle [OF _ nc 1(2) d1 ds(2)]) (simp add: turn 1(1) ds(1))
    next
      case (2 i)
      obtain d1 where d1: "execute_stage t (stage_exec ?T (fd_streams d) i) d = Some (stage_reply ?T t d i, d1)"
        "op_result d d1 (net_exec ?T (caps (fd_streams d)) t (fd_next_global_sequence d) i
           (chosen_input ?T (fd_streams d) i) (abs_net (fd_streams d)))"
        "calls (fd_log d1) = calls (fd_log d) @ [stage_call ?T i (chosen_input ?T (fd_streams d) i) (abs_net (fd_streams d))]"
        by (rule execute_stage_ok [OF inv 2(2,3)])
      have pol: "fd_error_policy d1 = fd_error_policy d" using d1(2) exec_frame_same(5) by (simp add: op_result_def)
      have cid: "sx_component_id (stage_exec ?T (fd_streams d) i) = sd_component_id (ft_stages ?T ! i)"
        by (simp add: stage_exec_def)
      show thesis
      proof (cases rule: stage_turn_eq [OF d1(1), of show_duration])
        case (1 e)
        with pol cid show thesis
          by (intro ran [OF _ nc 2(2,3) d1(2,3), of
                "cancel_flow (cancellation_reason_for show_duration e (sd_component_id (ft_stages ?T ! i))) d1" True])
            (auto simp: turn 2(1))
      next
        case (2 d')
        then show thesis
          by (intro ran [OF _ nc \<open>i < length (ft_stages ?T)\<close> \<open>stage_is_ready ?T (fd_streams d) i\<close> d1(2,3), of d' False])
            (auto simp: turn \<open>next_ready_stage ?T (fd_streams d) (index_of ?T) = _\<close>)
      qed
    qed
  qed
qed

text \<open>Every turn keeps the invariant; when it stops the loop the token is cancelled.\<close>

definition stopped_inv :: "flow_driver \<Rightarrow> bool" where
  "stopped_inv d \<longleftrightarrow>
     driver_inv d \<and> completion_ok (fd_topology d) (abs_net (fd_streams d)) \<and> fd_started_at d \<noteq> None \<and>
     is_cancelled (fd_cancellation d)"

lemma closing_bp_ok:
  assumes cl: "closing d d'" and bp: "\<forall>s \<in> set (fd_streams d). bp_ok s"
  shows "\<forall>s \<in> set (fd_streams d'). bp_ok s"
proof
  fix s assume "s \<in> set (fd_streams d')"
  then obtain k where k: "k < length (fd_streams d')" "s = fd_streams d' ! k" by (auto simp: in_set_conv_nth)
  note c = closing_inv [OF cl]
  have kl: "k < length (fd_streams d)" using k(1) c(4) by simp
  have "nt_queues (abs_net (fd_streams d')) ! k = nt_queues (abs_net (fd_streams d)) ! k"
    using cl by (simp add: closing_def)
  then have "length (stream_items (fd_streams d' ! k)) = length (stream_items (fd_streams d ! k))"
    using k(1) kl by simp
  then have "q_len (ss_queue s) = q_len (ss_queue (fd_streams d ! k))" by (simp add: k(2) stream_items_length)
  with same_shape_nth [OF c(5) kl] bp kl show "bp_ok s" by (simp add: bp_ok_def k(2))
qed

lemma op_result_exec_inv:
  assumes loop: "loop_inv d" and i: "i < length (ft_stages (fd_topology d))"
    and ready: "stage_is_ready (fd_topology d) (fd_streams d) i"
    and res: "op_result d d1 (net_exec (fd_topology d) cs t q i
       (chosen_input (fd_topology d) (fd_streams d) i) (abs_net (fd_streams d)))"
  shows "driver_inv d1" "completion_ok (fd_topology d1) (abs_net (fd_streams d1))"
    "fd_topology d1 = fd_topology d" "fd_started_at d1 \<noteq> None" "exec_frame d d1"
proof -
  have fr: "exec_frame d d1" and inv: "driver_inv d" using res loop by (simp_all add: op_result_def loop_inv_def)
  show "driver_inv d1" "exec_frame d d1" using res by (simp_all add: op_result_def)
  show "fd_topology d1 = fd_topology d" by (rule exec_frame_same(1) [OF fr])
  show "fd_started_at d1 \<noteq> None" using loop exec_frame_same(7) [OF fr] by (simp add: loop_inv_def)
  show "completion_ok (fd_topology d1) (abs_net (fd_streams d1))"
    using net_exec_completion [OF _ ready_exec_pre [OF inv i ready]] loop res exec_frame_same(1) [OF fr]
    by (simp add: op_result_def loop_inv_def)
qed

lemma driver_turn_inv:
  assumes loop: "loop_inv d"
  obtains d' stop where "driver_turn show_duration t d = Some (d', stop)"
    "if stop then stopped_inv d' else loop_inv d'" "fd_topology d' = fd_topology d"
    "stop \<or> fd_cancellation d' = fd_cancellation d" "fd_flow_id d' = fd_flow_id d" "fd_state d' = fd_state d"
proof -
  have pre: "driver_inv d" "completion_ok (fd_topology d) (abs_net (fd_streams d))" "fd_started_at d \<noteq> None"
    and bp: "\<forall>s \<in> set (fd_streams d). bp_ok s" using loop by (simp_all add: loop_inv_def)
  show thesis
  proof (cases rule: driver_turn_cases [OF pre, of show_duration t])
    case (1 c)
    with pre show thesis
      by (intro that [of "d\<lparr>fd_cancellation := c\<rparr>" True]) (simp_all add: stopped_inv_def)
  next
    case (2 i d1 d' stop)
    note r = op_result_exec_inv [OF loop 2(4,5,6)] and fr = exec_frame_same [OF op_result_exec_inv(5) [OF loop 2(4,5,6)]]
    show thesis
    proof (cases stop)
      case True
      then obtain reason where d': "d' = cancel_flow reason d1" using 2(8) by blast
      have "stopped_inv d'" using r by (simp add: stopped_inv_def d' cancel_flow_def)
      with 2(1) True r(3) fr show thesis by (intro that [of d' True]) (simp_all add: d' cancel_flow_def)
    next
      case False
      with 2(8) have af: "after_frame d1 d'" by blast
      note a = after_frame_ok [OF af r(1)]
      have "loop_inv d'" using a r by (simp add: loop_inv_def)
      with 2(1) False a r fr show thesis by (intro that [of d' False]) simp_all
    qed
  next
    case (3 d1 d' stop)
    note c = closing_inv [OF 3(6)] and fr = exec_frame_same [OF closing_inv(6) [OF 3(6)]]
    show thesis
    proof (cases stop)
      case True
      then obtain r where d': "d' = cancel_flow r d1" using 3(7) by (auto split: if_splits)
      have "stopped_inv d'" using c fr pre(3) by (simp add: stopped_inv_def d' cancel_flow_def)
      with 3(1) True c fr show thesis by (intro that [of d' True]) (simp_all add: d' cancel_flow_def)
    next
      case False
      then have d': "d' = d1" using 3(7) by (auto split: if_splits)
      have "loop_inv d1" using c fr pre(3) closing_bp_ok [OF 3(6) bp] by (simp add: loop_inv_def)
      with 3(1) False c fr show thesis by (intro that [of d1 False]) (simp_all add: d')
    qed
  qed
qed

end
