(* ===== verification/Rea_Driver_Live.thy ===== *)
theory Rea_Driver_Live
  imports Rea_Driver_Loop
begin

text \<open>
  Progress. Every queued element stands for a bounded amount of work: the stages between it and
  the sinks. A turn that does not pull a source lowers the work, or, when nothing is queued,
  closes a further channel; so a loop that does not end pulls its sources again and again, and
  the drain, in which no source is pulled, ends by itself.
\<close>

section \<open>Work\<close>

text \<open>The number of stages from a stage to the end of the topological order.\<close>

definition stage_height :: "flow_topology \<Rightarrow> nat \<Rightarrow> nat" where
  "stage_height T v = length (dropWhile (\<lambda>u. u \<noteq> v) (the (topological_order T)))"

definition chan_weight :: "flow_topology \<Rightarrow> nat \<Rightarrow> nat" where
  "chan_weight T k = (length (ft_connections T) + 1) ^ stage_height T (snd (edges T ! k))"

definition work :: "flow_topology \<Rightarrow> net \<Rightarrow> nat" where
  "work T n = (\<Sum>k < length (ft_connections T). length (nt_queues n ! k) * chan_weight T k)"

definition open_channels :: "flow_topology \<Rightarrow> net \<Rightarrow> nat" where
  "open_channels T n = card {k. k < length (ft_connections T) \<and> \<not> nt_closed n ! k}"

text \<open>The bound on the work of one element pulled from a source.\<close>

definition pull_weight :: "flow_topology \<Rightarrow> nat" where
  "pull_weight T = (length (ft_connections T) + 1) ^ length (ft_stages T)"

lemma length_dropWhile_before:
  assumes "distinct xs" and "i < j" and "j < length xs"
  shows "length (dropWhile (\<lambda>u. u \<noteq> xs ! j) xs) < length (dropWhile (\<lambda>u. u \<noteq> xs ! i) xs)"
proof -
  have idx: "length (dropWhile (\<lambda>u. u \<noteq> xs ! m) xs) = length xs - m" if "m < length xs" for m
    using assms(1) that
  proof (induction xs arbitrary: m)
    case (Cons x xs)
    then show ?case by (cases m) auto
  qed simp
  from idx [of i] idx [of j] assms(2,3) show ?thesis by simp
qed

lemma stage_height_edge:
  assumes valid: "valid_topology T" and e: "(u, v) \<in> set (edges T)"
  shows "stage_height T v < stage_height T u" "stage_height T u \<le> length (ft_stages T)"
proof -
  obtain order where o: "topological_order T = Some order" "distinct order"
    "set order = {..<length (ft_stages T)}" "forward (edges T) order" by (rule valid_topology_order [OF valid])
  have "v < length (ft_stages T)"
    using valid in_rangeD [OF _ e] by (simp add: valid_topology_def Let_def)
  then have "v \<in> set order" using o(3) by simp
  then obtain j where j: "j < length order" "order ! j = v" by (auto simp: in_set_conv_nth)
  with o(4) e have "u \<in> set (take j order)" by (auto simp: forward_def)
  then obtain i where i: "i < j" "order ! i = u" using j(1) by (auto simp: in_set_conv_nth)
  show "stage_height T v < stage_height T u"
    using length_dropWhile_before [OF o(2) i(1) j(1)] by (simp add: stage_height_def o(1) i(2) j(2))
  have "length order = length (ft_stages T)" using o(2,3) by (metis card_lessThan distinct_card)
  then show "stage_height T u \<le> length (ft_stages T)"
    unfolding stage_height_def o(1) option.sel by (metis length_dropWhile_le)
qed

lemma chan_edge:
  "k < length (ft_connections T) \<Longrightarrow> (fst (edges T ! k), snd (edges T ! k)) \<in> set (edges T)"
  by (metis length_edges nth_mem prod.collapse)

lemma chan_weight_pos: "0 < chan_weight T k"
  by (simp add: chan_weight_def)

text \<open>All outputs of one call of a stage weigh less than its input.\<close>

lemma outs_weight:
  assumes valid: "valid_topology T" and ks: "set ks \<subseteq> set (outs_of T i)" "distinct ks"
    and h: "0 < stage_height T i"
  shows "sum_list (map (chan_weight T) ks) < (length (ft_connections T) + 1) ^ stage_height T i"
proof -
  let ?c = "length (ft_connections T)"
  have each: "chan_weight T k \<le> (?c + 1) ^ (stage_height T i - 1)" if "k \<in> set ks" for k
  proof -
    have k: "k < ?c" "fst (edges T ! k) = i" using that ks(1) by (auto simp: outs_of_edge)
    from stage_height_edge(1) [OF valid chan_edge [OF k(1)]] k(2)
    have "stage_height T (snd (edges T ! k)) \<le> stage_height T i - 1" by simp
    then show ?thesis unfolding chan_weight_def by (rule power_increasing) simp
  qed
  have "set ks \<subseteq> {..<?c}" using ks(1) by (auto simp: outs_of_edge)
  then have len: "length ks \<le> ?c" using ks(2) by (metis card_lessThan card_mono distinct_card finite_lessThan)
  have "sum_list (map (chan_weight T) ks) \<le> sum_list (map (\<lambda>_. (?c + 1) ^ (stage_height T i - 1)) ks)"
    using each by (intro sum_list_mono) simp
  also have "\<dots> = length ks * (?c + 1) ^ (stage_height T i - 1)" by (simp add: sum_list_triv)
  also have "\<dots> \<le> ?c * (?c + 1) ^ (stage_height T i - 1)" using len by simp
  also have "\<dots> < (?c + 1) * (?c + 1) ^ (stage_height T i - 1)" by simp
  also have "\<dots> = (?c + 1) ^ stage_height T i" using h by (metis power_minus_mult mult.commute)
  finally show ?thesis .
qed

lemma work_upd:
  assumes "k < length (ft_connections T)" and "length (nt_queues n) = length (ft_connections T)"
  shows "work T (n\<lparr>nt_queues := (nt_queues n)[k := q]\<rparr>) + length (nt_queues n ! k) * chan_weight T k =
    work T n + length q * chan_weight T k"
proof -
  have "(\<Sum>j \<in> {..<length (ft_connections T)} - {k}. length ((nt_queues n)[k := q] ! j) * chan_weight T j) =
      (\<Sum>j \<in> {..<length (ft_connections T)} - {k}. length (nt_queues n ! j) * chan_weight T j)"
    by (rule sum.cong) auto
  with assms show ?thesis
    unfolding work_def by (simp add: sum.remove [of "{..<length (ft_connections T)}" k])
qed

lemma work_offer:
  assumes "k < length (ft_connections T)" and "length (nt_queues n) = length (ft_connections T)"
  shows "work T (net_offer cs k x n) \<le> work T n + chan_weight T k"
  using work_upd [OF assms, of "nt_queues n ! k @ [x]"] by (simp add: net_offer_def)

lemma work_offers:
  "\<forall>k \<in> set ks. k < length (ft_connections T) \<Longrightarrow> length (nt_queues n) = length (ft_connections T) \<Longrightarrow>
   work T (net_offers cs t q origin ts ks outs n) \<le> work T n + sum_list (map (chan_weight T) ks)"
proof (induction cs t q origin ts ks outs n rule: net_offers.induct)
  case (1 cs t q origin ts k ks out outs n)
  let ?x = "mk_elem t q origin ts out"
  have "work T (net_offers cs t (q + 1) origin ts ks outs (net_offer cs k ?x n)) \<le>
      work T (net_offer cs k ?x n) + sum_list (map (chan_weight T) ks)"
    using "1.prems" by (intro "1.IH") simp_all
  moreover have "work T (net_offer cs k ?x n) \<le> work T n + chan_weight T k"
    using "1.prems" by (intro work_offer) simp_all
  ultimately show ?case by simp
qed simp_all

lemma work_take:
  assumes "j < length (ft_connections T)" and "length (nt_queues n) = length (ft_connections T)"
    and "nt_queues n ! j \<noteq> []"
  shows "work T (net_take j n) + chan_weight T j = work T n"
proof -
  obtain m where m: "length (nt_queues n ! j) = Suc m" using assms(3) by (cases "nt_queues n ! j") auto
  have "work T (net_take j n) + length (nt_queues n ! j) * chan_weight T j =
      work T n + length (tl (nt_queues n ! j)) * chan_weight T j"
    using work_upd [OF assms(1,2), of "tl (nt_queues n ! j)"] by (simp add: net_take_def)
  then show ?thesis by (simp add: m)
qed

lemma distinct_outs_of: "distinct (outs_of T i)"
  by (simp add: outs_of_def)

lemma replied_outputs_distinct: "replied_outputs r ks = (ks', outs) \<Longrightarrow> distinct ks \<Longrightarrow> distinct ks'"
  by (cases "(r, ks)" rule: replied_outputs.cases) auto

text \<open>A call of a stage with inputs lowers the work; a pull raises it by a bounded amount.\<close>

lemma net_exec_work:
  assumes valid: "valid_topology T" and ok: "completion_ok T n" and pre: "exec_pre T n i j"
  shows "sd_role (ft_stages T ! i) \<noteq> Source \<Longrightarrow> work T (net_exec T cs t q i j n) < work T n"
    and "sd_role (ft_stages T ! i) = Source \<Longrightarrow>
      work T (net_exec T cs t q i j n) \<le> work T n + pull_weight T"
proof -
  have lenq: "length (nt_queues n) = length (ft_connections T)" using ok by (simp add: completion_ok_def)
  {
    assume role: "sd_role (ft_stages T ! i) \<noteq> Source"
    then have j: "j \<in> set (ins_of T i)" "nt_queues n ! j \<noteq> []" using pre by (simp_all add: exec_pre_def)
    then have jl: "j < length (ft_connections T)" and jc: "snd (edges T ! j) = i" by (simp_all add: ins_of_edge)
    have h: "0 < stage_height T i"
    proof -
      have "stage_height T i < stage_height T (fst (edges T ! j))"
        using stage_height_edge(1) [OF valid chan_edge [OF jl]] jc by simp
      obtain order where o: "topological_order T = Some order" "set order = {..<length (ft_stages T)}"
        by (rule valid_topology_order [OF valid])
      have "i \<in> set order" using o(2) valid_edges(2) [OF valid jl] jc by simp
      then show ?thesis by (auto simp: stage_height_def o(1) dropWhile_eq_Nil_conv)
    qed
    have tk: "work T (net_take j n) + (length (ft_connections T) + 1) ^ stage_height T i = work T n"
      using work_take [OF jl lenq j(2)] by (simp add: chan_weight_def jc)
    obtain ks outs where ko: "replied_outputs (tn_process t) (outs_of T i) = (ks, outs)"
      by (cases "replied_outputs (tn_process t) (outs_of T i)")
    have ks: "set ks \<subseteq> set (outs_of T i)" "distinct ks"
      using replied_outputs_sub [OF ko] replied_outputs_distinct [OF ko distinct_outs_of] by simp_all
    have "work T (net_process cs t q j (outs_of T i) n) \<le> work T (net_take j n) + sum_list (map (chan_weight T) ks)"
      unfolding net_process_def ko Let_def prod.case
      using ks(1) lenq by (intro work_offers) (auto simp: outs_of_edge)
    with outs_weight [OF valid ks h] tk have "work T (net_process cs t q j (outs_of T i) n) < work T n" by linarith
    moreover have "work T (net_take j n) < work T n" using tk by (metis add_lessD1 less_add_same_cancel1 zero_less_power zero_less_Suc Suc_eq_plus1)
    ultimately show "work T (net_exec T cs t q i j n) < work T n"
      using role by (cases "sd_role (ft_stages T ! i)") (simp_all add: net_exec_def)
  }
  assume role: "sd_role (ft_stages T ! i) = Source"
  have wt: "sum_list (map (chan_weight T) (take 1 (outs_of T i))) \<le> pull_weight T"
  proof (cases "outs_of T i")
    case (Cons k ks)
    then have k: "k < length (ft_connections T)" using outs_of_less [of k T i] by simp
    have "stage_height T (snd (edges T ! k)) \<le> length (ft_stages T)"
      using stage_height_edge [OF valid chan_edge [OF k]] by linarith
    then have "chan_weight T k \<le> pull_weight T"
      unfolding chan_weight_def pull_weight_def by (rule power_increasing) simp
    with Cons show ?thesis by simp
  qed simp
  have "\<forall>k \<in> set (take 1 (outs_of T i)). k < length (ft_connections T)"
    by (auto simp: outs_of_edge dest: in_set_takeD)
  then have off: "work T (net_offers cs t q q (tn_wall t) (take 1 (outs_of T i)) [out] n) \<le> work T n + pull_weight T" for out
    using work_offers [of "take 1 (outs_of T i)" T n cs t q q "tn_wall t" "[out]"] lenq wt by linarith
  have cl: "work T (net_close ks n) = work T n" for ks by (simp add: work_def)
  show "work T (net_exec T cs t q i j n) \<le> work T n + pull_weight T"
    using role off cl by (auto simp: net_exec_def net_pull_def split: reply.split option.split simp del: One_nat_def)
qed

section \<open>Progress of the main loop\<close>

fun is_pull :: "driver_event \<Rightarrow> bool" where
  "is_pull (CalledPull _) = True"
| "is_pull _ = False"

definition pull_count :: "driver_event list \<Rightarrow> nat" where
  "pull_count log = length (filter is_pull log)"

lemma pull_count_calls: "pull_count (calls log) = pull_count log"
proof -
  have "filter is_pull (filter is_call log) = filter is_pull log"
    by (induction log) (auto elim: is_pull.elims)
  then show ?thesis by (simp add: pull_count_def calls_def)
qed

definition potential :: "flow_driver \<Rightarrow> nat" where
  "potential d = work (fd_topology d) (abs_net (fd_streams d)) + open_channels (fd_topology d) (abs_net (fd_streams d))"

lemma open_channels_mono:
  assumes "\<And>k. k < length (ft_connections T) \<Longrightarrow> nt_closed n ! k \<Longrightarrow> nt_closed m ! k"
  shows "open_channels T m \<le> open_channels T n"
  unfolding open_channels_def using assms by (intro card_mono) auto

lemma open_channels_less:
  assumes "\<And>k. k < length (ft_connections T) \<Longrightarrow> nt_closed n ! k \<Longrightarrow> nt_closed m ! k"
    and "k < length (ft_connections T)" "\<not> nt_closed n ! k" "nt_closed m ! k"
  shows "open_channels T m < open_channels T n"
  unfolding open_channels_def using assms by (intro psubset_card_mono) auto

lemma net_exec_closed_mono: "nt_closed n ! k \<Longrightarrow> nt_closed (net_exec T cs t q i j n) ! k"
  by (cases "sd_role (ft_stages T ! i)")
    (auto simp: net_exec_def net_pull_def net_process_def Let_def net_close_mono split_beta
      split: reply.split option.split)

text \<open>An idle turn that does not end the loop closes a channel.\<close>

lemma idle_closes:
  assumes loop: "loop_inv d" and routers: "routers_have_outputs (fd_topology d)"
    and idle: "\<forall>i < length (ft_stages (fd_topology d)). \<not> stage_is_ready (fd_topology d) (fd_streams d) i"
    and pass: "propagate_producer_complete d = Some d1" "closing d d1" and open1: "\<not> all_streams_complete d1"
  shows "open_channels (fd_topology d) (abs_net (fd_streams d1)) < open_channels (fd_topology d) (abs_net (fd_streams d))"
proof -
  let ?T = "fd_topology d" and ?n = "abs_net (fd_streams d)" and ?n1 = "abs_net (fd_streams d1)"
  define S where "S = {i. \<exists>k \<in> set (outs_of ?T i). \<not> nt_closed ?n ! k}"
  have inv: "driver_inv d" and comp: "completion_ok ?T ?n" using loop by (simp_all add: loop_inv_def)
  have valid: "valid_topology ?T" and len: "length (fd_streams d) = length (ft_connections ?T)"
    using inv by (simp_all add: driver_inv_def)
  have empty: "\<forall>k < length (fd_streams d). stream_items (fd_streams d ! k) = []"
    by (rule idle_empty [OF loop routers idle])
  have mono: "nt_closed ?n ! k \<Longrightarrow> nt_closed ?n1 ! k" for k using pass(2) by (simp add: closing_def)
  have q1: "nt_queues ?n1 = nt_queues ?n" using pass(2) by (simp add: closing_def)
  note c1 = closing_inv [OF pass(2)]
  obtain s where "s \<in> set (fd_streams d1)" "\<not> stream_is_complete s"
    using open1 by (auto simp: all_streams_complete_def list_all_iff)
  then obtain k where k: "k < length (fd_streams d1)" "\<not> stream_is_complete (fd_streams d1 ! k)"
    by (auto simp: in_set_conv_nth)
  have kl: "k < length (fd_streams d)" using k(1) c1(4) by simp
  have "stream_items (fd_streams d1 ! k) = nt_queues ?n1 ! k" using k(1) by simp
  also have "\<dots> = []" unfolding q1 using empty kl by simp
  finally have "queue_is_empty (ss_queue (fd_streams d1 ! k))"
    by (simp add: queue_is_empty_def stream_items_def queue_items_Nil)
  with k have "\<not> nt_closed ?n1 ! k" by (simp add: stream_is_complete_def)
  then have "\<not> nt_closed ?n ! k" using mono by blast
  then have "fst (edges ?T ! k) \<in> S" unfolding S_def using kl len by (auto simp: outs_of_edge)
  moreover have "wf (set (edges ?T))" using valid by (simp add: valid_topology_def Let_def finite_acyclic_wf)
  ultimately obtain i where i: "i \<in> S" and first: "\<And>u. (u, i) \<in> set (edges ?T) \<Longrightarrow> u \<notin> S" by (metis wfE_min)
  obtain k' where k': "k' \<in> set (outs_of ?T i)" "\<not> nt_closed ?n ! k'" using i by (auto simp: S_def)
  have kc: "k' < length (ft_connections ?T)" "fst (edges ?T ! k') = i" using k'(1) by (simp_all add: outs_of_edge)
  have il: "i < length (ft_stages ?T)" using valid_edges(1) [OF valid kc(1)] kc(2) by simp
  have "sd_role (ft_stages ?T ! i) \<noteq> Source"
    using idle_sources_closed [OF loop empty idle _ k'(1)] k'(2) kc(1) len by auto
  then have ins: "ins_of ?T i \<noteq> []" using valid_no_ins [OF valid il] by blast
  have "stream_is_complete (fd_streams d ! j)" if j: "j \<in> set (ins_of ?T i)" for j
  proof -
    have jl: "j < length (fd_streams d)" and je: "snd (edges ?T ! j) = i" "j < length (ft_connections ?T)"
      using j len by (simp_all add: ins_of_edge)
    have "fst (edges ?T ! j) \<notin> S" using first chan_edge [OF je(2)] je(1) by simp
    moreover have "j \<in> set (outs_of ?T (fst (edges ?T ! j)))" using je(2) by (simp add: outs_of_edge)
    ultimately have "nt_closed ?n ! j" unfolding S_def by blast
    with jl empty show ?thesis
      by (simp add: stream_is_complete_def queue_is_empty_def stream_items_def queue_items_Nil)
  qed
  then have "nt_closed ?n1 ! k'"
    using propagate_ok [OF inv comp] pass(1) il ins k'(1) by (metis option.inject)
  with open_channels_less [OF mono kc(1) k'(2)] show ?thesis by blast
qed

lemma driver_turn_progress:
  assumes loop: "loop_inv d" and routers: "routers_have_outputs (fd_topology d)"
    and turn: "driver_turn show_duration t d = Some (d', False)"
  shows "potential d' + pull_count (fd_log d) * (pull_weight (fd_topology d) + 1) <
    potential d + pull_count (fd_log d') * (pull_weight (fd_topology d) + 1)"
proof -
  let ?T = "fd_topology d" and ?n = "abs_net (fd_streams d)"
  have pre: "driver_inv d" "completion_ok ?T ?n" "fd_started_at d \<noteq> None"
    using loop by (simp_all add: loop_inv_def)
  have valid: "valid_topology ?T" using pre(1) by (simp add: driver_inv_def)
  show ?thesis
  proof (cases rule: driver_turn_cases [OF pre, of show_duration t])
    case (1 c)
    with turn show ?thesis by simp
  next
    case (2 i d1 d2 stop)
    let ?j = "chosen_input ?T (fd_streams d) i"
    have af: "after_frame d1 d'" using 2(1,8) turn by auto
    note r = op_result_exec_inv [OF loop 2(4,5,6)] and a = after_frame_ok [OF af r(1)]
    have abs1: "abs_net (fd_streams d') = net_exec ?T (caps (fd_streams d)) t (fd_next_global_sequence d) i ?j ?n"
      using 2(6) by (simp add: a op_result_def)
    have T': "fd_topology d' = ?T" using a(5) r(3) by simp
    have op: "open_channels ?T (abs_net (fd_streams d')) \<le> open_channels ?T ?n"
      unfolding abs1 by (rule open_channels_mono) (rule net_exec_closed_mono)
    have pc: "pull_count (fd_log d') = pull_count (fd_log d) + pull_count [stage_call ?T i ?j ?n]"
      using 2(7) a(10) pull_count_calls [of "fd_log d'"] pull_count_calls [of "fd_log d"]
      by (simp add: pull_count_def)
    note w = net_exec_work [OF valid pre(2) ready_exec_pre [OF pre(1) 2(4,5)], of "caps (fd_streams d)" t
        "fd_next_global_sequence d"]
    show ?thesis
    proof (cases "sd_role (ft_stages ?T ! i) = Source")
      case True
      then have "pull_count [stage_call ?T i ?j ?n] = 1" by (simp add: stage_call_def Let_def pull_count_def)
      with w(2) [OF True] op pc show ?thesis by (simp add: potential_def T' abs1)
    next
      case False
      then have "pull_count [stage_call ?T i ?j ?n] = 0"
        by (cases "sd_role (ft_stages ?T ! i)") (simp_all add: stage_call_def Let_def pull_count_def)
      with w(1) [OF False] op pc show ?thesis by (simp add: potential_def T' abs1)
    qed
  next
    case (3 d1 d2 stop)
    have d': "d' = d1" "\<not> all_streams_complete d1" using 3(1,7) turn by (auto split: if_splits)
    note less = idle_closes [OF loop routers 3(4,5,6) d'(2)]
    have q: "nt_queues (abs_net (fd_streams d1)) = nt_queues ?n" and l: "fd_log d1 = fd_log d"
      using 3(6) by (simp_all add: closing_def)
    have "work ?T (abs_net (fd_streams d1)) = work ?T ?n" by (simp add: work_def q)
    with less l closing_inv(3) [OF 3(6)] show ?thesis by (simp add: potential_def d')
  qed
qed

lemma driver_loop_inv:
  assumes "loop_inv d"
  obtains d' stop where "driver_loop show_duration ts d = Some (d', stop)"
    "if stop then stopped_inv d' else loop_inv d'" "fd_topology d' = fd_topology d"
    "stop \<or> fd_cancellation d' = fd_cancellation d" "fd_flow_id d' = fd_flow_id d" "fd_state d' = fd_state d"
  using assms
proof (induction ts arbitrary: d thesis)
  case Nil
  then show ?case by (intro Nil.prems(1) [of d False]) simp_all
next
  case (Cons t ts)
  obtain d1 stop where d1: "driver_turn show_duration t d = Some (d1, stop)"
    "if stop then stopped_inv d1 else loop_inv d1" "fd_topology d1 = fd_topology d"
    "stop \<or> fd_cancellation d1 = fd_cancellation d" "fd_flow_id d1 = fd_flow_id d" "fd_state d1 = fd_state d"
    by (rule driver_turn_inv [OF Cons.prems(2)])
  show ?case
  proof (cases stop)
    case True
    with d1 show ?thesis by (intro Cons.prems(1) [of d1 True]) simp_all
  next
    case False
    with d1(2) have "loop_inv d1" by simp
    from Cons.IH [OF _ this] obtain d' stop' where "driver_loop show_duration ts d1 = Some (d', stop')"
      "if stop' then stopped_inv d' else loop_inv d'" "fd_topology d' = fd_topology d1"
      "stop' \<or> fd_cancellation d' = fd_cancellation d1" "fd_flow_id d' = fd_flow_id d1" "fd_state d' = fd_state d1"
      by blast
    with d1 False show ?thesis by (intro Cons.prems(1) [of d' stop']) auto
  qed
qed

text \<open>The bound on a run that has not ended: its length is paid for by the pulls in its log.\<close>

lemma driver_loop_progress:
  assumes "loop_inv d" and "routers_have_outputs (fd_topology d)"
    and "driver_loop show_duration ts d = Some (d', False)"
  shows "length ts + potential d' + pull_count (fd_log d) * (pull_weight (fd_topology d) + 1) \<le>
    potential d + pull_count (fd_log d') * (pull_weight (fd_topology d) + 1)"
  using assms
proof (induction ts arbitrary: d)
  case (Cons t ts)
  obtain d1 stop where d1: "driver_turn show_duration t d = Some (d1, stop)"
    "if stop then stopped_inv d1 else loop_inv d1" "fd_topology d1 = fd_topology d"
    by (rule driver_turn_inv [OF Cons.prems(1)])
  with Cons.prems(3) have stop: "\<not> stop" "driver_loop show_duration ts d1 = Some (d', False)" by (auto split: if_splits)
  with d1(2) have inv1: "loop_inv d1" by simp
  have "routers_have_outputs (fd_topology d1)" using Cons.prems(2) d1(3) by simp
  from Cons.IH [OF inv1 this stop(2)] d1(1) stop(1) driver_turn_progress [OF Cons.prems(1,2)] d1(3)
  show ?case by fastforce
qed simp

end
