(* ===== verification/Rea_Driver_Run.thy ===== *)
theory Rea_Driver_Run
  imports Rea_Driver_Live
begin

text \<open>
  The end of a run: closing the sources, draining, and the terminal state; the sequence of state
  changes that a whole run reports; and the order of the elements in the channels.
\<close>

section \<open>State changes in the log\<close>

fun state_change :: "driver_event \<Rightarrow> (flow_state \<times> flow_state) option" where
  "state_change (FlowStateChanged a b) = Some (a, b)"
| "state_change _ = None"

definition state_changes :: "driver_event list \<Rightarrow> (flow_state \<times> flow_state) list" where
  "state_changes log = List.map_filter state_change log"

lemma state_changes_simps [simp]:
  "state_changes [] = []"
  "state_changes (e # es) = (case state_change e of None \<Rightarrow> state_changes es | Some c \<Rightarrow> c # state_changes es)"
  "state_changes (es @ fs) = state_changes es @ state_changes fs"
  by (auto simp: state_changes_def map_filter_simps map_filter_def split: option.split)

text \<open>The log grows, and only \<open>emit_state_change\<close> adds a state change.\<close>

definition quiet :: "flow_driver \<Rightarrow> flow_driver \<Rightarrow> bool" where
  "quiet d d' \<longleftrightarrow> (\<exists>evs. fd_log d' = fd_log d @ evs \<and> state_changes evs = [])"

lemma quiet_changes: "quiet d d' \<Longrightarrow> state_changes (fd_log d') = state_changes (fd_log d)"
  by (auto simp: quiet_def)

lemma quiet_refl [simp]: "quiet d d"
  by (simp add: quiet_def)

lemma quiet_trans: "quiet a b \<Longrightarrow> quiet b c \<Longrightarrow> quiet a c"
  by (auto simp: quiet_def)

lemma quiet_log: "fd_log d' = fd_log d \<Longrightarrow> quiet d d'"
  by (simp add: quiet_def)

lemma quiet_event: "state_change e = None \<Longrightarrow> quiet d (log_event e d)"
  by (simp add: quiet_def log_event_def)

lemma take_input_log: "take_input x d = Some (e, d') \<Longrightarrow> fd_log d' = fd_log d"
  by (auto simp: take_input_def split: Option.bind_splits)

lemma execute_pull_quiet: "execute_pull t i c d = Some (r, d') \<Longrightarrow> quiet d d'"
  by (auto simp: execute_pull_def Let_def take_sequence_def quiet_def log_event_def
      split: if_splits sum.splits option.splits Option.bind_splits list.splits push_result.splits
      dest: mark_complete_log)

lemma execute_process_quiet: "execute_process t i c s d = Some (r, d') \<Longrightarrow> quiet d d'"
  by (auto simp: execute_process_def Let_def quiet_def log_event_def
      split: if_splits sum.splits process_result.splits Option.bind_splits list.splits
      dest!: take_input_log enqueue_output_log enqueue_outputs_log)

lemma execute_push_quiet: "execute_push t i c s d = Some (r, d') \<Longrightarrow> quiet d d'"
  by (auto simp: execute_push_def Let_def quiet_def log_event_def
      split: if_splits sum.splits Option.bind_splits dest!: take_input_log)

lemma execute_stage_quiet:
  assumes "execute_stage t ex d = Some (r, d')"
  shows "quiet d d'"
proof -
  obtain r1 d1 where d1: "run_action t ex (d\<lparr>fd_current_element_sequence := None\<rparr>) = Some (r1, d1)"
    using assms by (cases "run_action t ex (d\<lparr>fd_current_element_sequence := None\<rparr>)") (auto simp: execute_stage_def Let_def)
  have "quiet (d\<lparr>fd_current_element_sequence := None\<rparr>) d1"
    using d1 execute_pull_quiet execute_process_quiet execute_push_quiet
    by (cases "sx_action ex") (simp_all add: run_action_def)
  then have "quiet d d1" by (simp add: quiet_def)
  moreover have "quiet d1 d'"
    using assms d1 by (auto simp: execute_stage_def Let_def quiet_def log_event_def split: Option.bind_splits option.splits)
  ultimately show ?thesis by (rule quiet_trans)
qed

lemma check_backpressure_streams_quiet:
  "state_changes (snd (snd (check_backpressure_streams t k ss))) = []"
proof (induction ss arbitrary: k)
  case (Cons s ss)
  from Cons [of "Suc k"] show ?case
    by (cases s t rule: check_backpressure_cases) (auto simp: split_beta Let_def)
qed simp

lemma notify_producers_quiet: "quiet d (notify_producers trs d)"
proof -
  have "state_changes (notify_producer d tr) = []" for tr
    by (auto simp: notify_producer_def split: option.split)
  then have "state_changes (concat (map (notify_producer d) trs)) = []" by (induction trs) auto
  then show ?thesis by (simp add: quiet_def notify_producers_def log_events_def)
qed

lemma end_of_turn_quiet:
  assumes "(trs, d1) = check_backpressure_all t d"
  shows "quiet d (yield_check t (if trs \<noteq> [] then notify_producers trs d1 else d1))"
proof -
  have "quiet d d1"
    using assms check_backpressure_streams_quiet [of t 0 "fd_streams d"]
    by (auto simp: check_backpressure_all_def split_beta log_events_def quiet_def)
  then have "quiet d (if trs \<noteq> [] then notify_producers trs d1 else d1)"
    using notify_producers_quiet quiet_trans by simp
  moreover have "quiet d2 (yield_check t d2)" for d2
    by (simp add: yield_check_def Let_def quiet_def log_event_def)
  ultimately show ?thesis by (rule quiet_trans)
qed

lemma stage_turn_quiet:
  assumes "stage_turn show_duration t ex d = Some (d', stop)"
  shows "quiet d d'"
proof -
  obtain r d1 where d1: "execute_stage t ex d = Some (r, d1)"
    using assms by (cases "execute_stage t ex d") (auto simp: stage_turn_def)
  obtain trs d2 where bp: "check_backpressure_all t d1 = (trs, d2)" by (cases "check_backpressure_all t d1")
  have "quiet d1 d'"
    using assms d1 bp end_of_turn_quiet [OF bp [symmetric]]
    by (cases r; cases "fd_error_policy d1") (auto simp: stage_turn_def Let_def cancel_flow_def intro: quiet_log)
  with execute_stage_quiet [OF d1] show ?thesis by (rule quiet_trans)
qed

lemma propagate_from_quiet: "propagate_from is d = Some d' \<Longrightarrow> fd_log d' = fd_log d"
  by (induction "is" arbitrary: d) (fastforce split: Option.bind_splits if_splits dest: mark_complete_log)+

lemma driver_turn_quiet:
  assumes "driver_turn show_duration t d = Some (d', stop)"
  shows "quiet d d'"
proof -
  let ?d = "fold cancel_flow (tn_cancels t) d"
  have "quiet d ?d" by (simp add: fold_cancel_flow quiet_def)
  moreover have "quiet ?d d'"
  proof (cases "is_cancelled (fd_cancellation ?d)")
    case True
    with assms show ?thesis by (simp add: driver_turn_def)
  next
    case False
    then obtain nxt where n: "next_ready_stage (fd_topology ?d) (fd_streams ?d) (fd_stream_index ?d) = Some nxt"
      "(case nxt of Some ex \<Rightarrow> stage_turn show_duration t ex ?d | None \<Rightarrow> idle_turn t ?d) = Some (d', stop)"
      using assms by (auto simp: driver_turn_def Let_def split: Option.bind_splits)
    show ?thesis
    proof (cases nxt)
      case None
      with n(2) have "idle_turn t ?d = Some (d', stop)" by simp
      then have "fd_log d' = fd_log ?d"
        by (auto simp: idle_turn_def propagate_producer_complete_def cancel_flow_def
            split: Option.bind_splits if_splits idle_event.splits dest: propagate_from_quiet)
      then show ?thesis by (rule quiet_log)
    next
      case (Some ex)
      with n(2) show ?thesis by (auto intro: stage_turn_quiet)
    qed
  qed
  ultimately show ?thesis by (rule quiet_trans)
qed

lemma driver_loop_quiet: "driver_loop show_duration ts d = Some (d', stop) \<Longrightarrow> quiet d d'"
proof (induction ts arbitrary: d)
  case (Cons t ts)
  then show ?case by (auto split: Option.bind_splits if_splits dest!: driver_turn_quiet intro: quiet_trans)
qed simp

section \<open>Closing the sources and draining\<close>

lemma close_sources_ok:
  assumes "driver_inv d" and "completion_ok (fd_topology d) (abs_net (fd_streams d))"
    and "\<forall>i \<in> set is. i < length (ft_stages (fd_topology d))"
  shows "\<exists>d'. close_sources is d = Some d' \<and> closing d d' \<and>
    (\<forall>i \<in> set is. ins_of (fd_topology d) i = [] \<longrightarrow>
       (\<forall>k \<in> set (outs_of (fd_topology d) i). nt_closed (abs_net (fd_streams d')) ! k))"
  using assms
proof (induction "is" arbitrary: d)
  case Nil
  then show ?case by (simp add: closing_refl)
next
  case (Cons i "is")
  let ?T = "fd_topology d"
  have i: "i < length (ft_stages ?T)" using Cons.prems(3) by simp
  note ix = driver_outs [OF Cons.prems(1) i]
  obtain d1 where d1: "closing d d1" "close_sources (i # is) d = close_sources is d1"
    "ins_of ?T i = [] \<longrightarrow> (\<forall>k \<in> set (outs_of ?T i). nt_closed (abs_net (fd_streams d1)) ! k)"
  proof (cases "ins_of ?T i = []")
    case True
    then have "\<forall>j \<in> set (ins_of ?T i). stream_is_complete (fd_streams d ! j)" by simp
    then obtain d1 where "mark_complete (outs_of ?T i) d = Some d1" "closing d d1"
      "\<forall>k \<in> set (outs_of ?T i). nt_closed (abs_net (fd_streams d1)) ! k"
      using close_stage_ok [OF Cons.prems(1,2) i] by blast
    with True ix show thesis by (intro that [of d1]) simp_all
  next
    case False
    with ix closing_refl [OF Cons.prems(1,2)] show thesis by (intro that [of d]) auto
  qed
  note c1 = closing_inv [OF d1(1)]
  have "\<forall>i \<in> set is. i < length (ft_stages (fd_topology d1))" using Cons.prems(3) c1(3) by simp
  from Cons.IH [OF c1(1,2) this] obtain d' where d': "close_sources is d1 = Some d'" "closing d1 d'"
    "\<forall>i \<in> set is. ins_of ?T i = [] \<longrightarrow> (\<forall>k \<in> set (outs_of ?T i). nt_closed (abs_net (fd_streams d')) ! k)"
    unfolding c1(3) by blast
  have mono: "nt_closed (abs_net (fd_streams d1)) ! k \<Longrightarrow> nt_closed (abs_net (fd_streams d')) ! k" for k
    using d'(2) by (simp add: closing_def)
  show ?case
    using d1(2,3) d'(1,3) closing_trans [OF d1(1) d'(2)] mono by (intro exI [of _ d']) auto
qed

definition sources_closed :: "flow_driver \<Rightarrow> bool" where
  "sources_closed d \<longleftrightarrow>
     (\<forall>i < length (ft_stages (fd_topology d)). sd_role (ft_stages (fd_topology d) ! i) = Source \<longrightarrow>
        (\<forall>k \<in> set (outs_of (fd_topology d) i). nt_closed (abs_net (fd_streams d)) ! k))"

text \<open>Draining runs ready stages only; with the sources closed each of them lowers the work.\<close>

lemma drain_step:
  fixes t :: turn
  assumes inv: "driver_inv d" and comp: "completion_ok (fd_topology d) (abs_net (fd_streams d))"
    and closed: "sources_closed d"
  obtains (over) "next_ready_stage (fd_topology d) (fd_streams d) (fd_stream_index d) = Some None"
      "\<forall>i < length (ft_stages (fd_topology d)). \<not> stage_is_ready (fd_topology d) (fd_streams d) i"
  | (step) ex r d' where "next_ready_stage (fd_topology d) (fd_streams d) (fd_stream_index d) = Some (Some ex)"
      "execute_stage t ex d = Some (r, d')" "driver_inv d'" "completion_ok (fd_topology d') (abs_net (fd_streams d'))"
      "sources_closed d'" "fd_topology d' = fd_topology d" "exec_frame d d'"
      "work (fd_topology d) (abs_net (fd_streams d')) < work (fd_topology d) (abs_net (fd_streams d))"
      "\<exists>e. calls (fd_log d') = calls (fd_log d) @ [e] \<and> \<not> is_pull e"
proof -
  let ?T = "fd_topology d"
  have valid: "valid_topology ?T" and len: "length (fd_streams d) = length (ft_connections ?T)"
    and ix: "fd_stream_index d = index_of ?T" using inv by (simp_all add: driver_inv_def)
  show thesis
  proof (cases rule: next_ready_stage_cases [OF valid len])
    case 1
    then show thesis by (intro over) (simp_all add: ix)
  next
    case (2 i)
    have pre: "exec_pre ?T (abs_net (fd_streams d)) i (chosen_input ?T (fd_streams d) i)"
      by (rule ready_exec_pre [OF inv 2(2,3)])
    obtain d' where d': "execute_stage t (stage_exec ?T (fd_streams d) i) d = Some (stage_reply ?T t d i, d')"
      "op_result d d' (net_exec ?T (caps (fd_streams d)) t (fd_next_global_sequence d) i
         (chosen_input ?T (fd_streams d) i) (abs_net (fd_streams d)))"
      "calls (fd_log d') = calls (fd_log d) @ [stage_call ?T i (chosen_input ?T (fd_streams d) i) (abs_net (fd_streams d))]"
      by (rule execute_stage_ok [OF inv 2(2,3)])
    have fr: "exec_frame d d'" and inv': "driver_inv d'" and abs': "abs_net (fd_streams d') =
        net_exec ?T (caps (fd_streams d)) t (fd_next_global_sequence d) i (chosen_input ?T (fd_streams d) i) (abs_net (fd_streams d))"
      using d'(2) by (simp_all add: op_result_def)
    have T': "fd_topology d' = ?T" by (rule exec_frame_same(1) [OF fr])
    have role: "sd_role (ft_stages ?T ! i) \<noteq> Source"
      using pre closed 2(2) by (auto simp: exec_pre_def sources_closed_def)
    have "\<not> is_pull (stage_call ?T i (chosen_input ?T (fd_streams d) i) (abs_net (fd_streams d)))"
      using role by (cases "sd_role (ft_stages ?T ! i)") (simp_all add: stage_call_def Let_def)
    moreover have "sources_closed d'"
      using closed net_exec_closed_mono unfolding sources_closed_def abs' T' by blast
    ultimately show thesis
      using net_exec_completion [OF comp pre] net_exec_work(1) [OF valid comp pre role] inv' T' fr 2(1) d'(1,3)
      by (intro step [of "stage_exec ?T (fd_streams d) i" "stage_reply ?T t d i" d']) (auto simp: abs' ix)
  qed
qed

lemma drain_loop_ok:
  assumes "driver_inv d" and "completion_ok (fd_topology d) (abs_net (fd_streams d))" and "sources_closed d"
  obtains d' where "drain_loop deadline ts d = Some d'" "driver_inv d'" "fd_topology d' = fd_topology d"
    "exec_frame d d'" "quiet d d'" "pull_count (fd_log d') = pull_count (fd_log d)"
    "work (fd_topology d) (abs_net (fd_streams d)) < length ts \<longrightarrow> (\<forall>t \<in> set ts. tn_start t < deadline) \<longrightarrow>
       (\<forall>i < length (ft_stages (fd_topology d)). \<not> stage_is_ready (fd_topology d) (fd_streams d') i)"
  using assms
proof (induction ts arbitrary: d thesis)
  case Nil
  then show ?case by (intro Nil.prems(1) [of d]) simp_all
next
  case (Cons t ts)
  show ?case
  proof (cases "tn_start t < deadline")
    case False
    with Cons.prems(2) show ?thesis by (intro Cons.prems(1) [of d]) auto
  next
    case True
    show ?thesis
    proof (cases rule: drain_step [OF Cons.prems(2-4), where t = t])
      case 1
      with True Cons.prems(2) show ?thesis by (intro Cons.prems(1) [of d]) simp_all
    next
      case (2 ex r d1)
      obtain d' where d': "drain_loop deadline ts d1 = Some d'" "driver_inv d'" "fd_topology d' = fd_topology d1"
        "exec_frame d1 d'" "quiet d1 d'" "pull_count (fd_log d') = pull_count (fd_log d1)"
        "work (fd_topology d1) (abs_net (fd_streams d1)) < length ts \<longrightarrow> (\<forall>t \<in> set ts. tn_start t < deadline) \<longrightarrow>
          (\<forall>i < length (ft_stages (fd_topology d1)). \<not> stage_is_ready (fd_topology d1) (fd_streams d') i)"
        using Cons.IH [OF _ 2(3-5)] by blast
      have pc: "pull_count (fd_log d1) = pull_count (fd_log d)"
        using 2(9) pull_count_calls [of "fd_log d1"] pull_count_calls [of "fd_log d"] by (auto simp: pull_count_def)
      show ?thesis
        using True 2 d' exec_frame_trans [OF 2(7) d'(4)] quiet_trans [OF execute_stage_quiet [OF 2(2)] d'(5)] pc
        by (intro Cons.prems(1) [of d']) auto
    qed
  qed
qed

lemma discard_all_ok:
  "\<forall>s \<in> set ss. stream_inv s \<Longrightarrow>
   \<exists>ss'. discard_all ss = Some ss' \<and> (\<forall>s \<in> set ss'. stream_items s = []) \<and>
     map ss_id ss' = map ss_id ss \<and> map ss_metrics ss' = map ss_metrics ss"
proof (induction ss)
  case (Cons s ss)
  have "queue_inv (ss_queue s)" using Cons.prems by (simp add: stream_inv_def)
  from queue_drain_all_ok [OF this] obtain q where "queue_drain_all (ss_queue s) = Some (queue_items (ss_queue s), q)"
    "queue_items q = []" by blast
  with Cons show ?case by (auto simp: stream_items_def)
qed simp

lemma component_stats_ok:
  "i + length ms \<le> length (ft_stages (fd_topology d)) \<Longrightarrow> \<exists>st'. component_stats d i ms st = Some st' \<and>
     fs_total_elements st' = fs_total_elements st"
proof (induction ms arbitrary: i st)
  case (Cons m ms)
  then have "Suc i + length ms \<le> length (ft_stages (fd_topology d))" by simp
  from Cons.IH [OF this] Cons.prems show ?case by (fastforce simp: index_vec_def)
qed simp

lemma driver_finish_ok:
  assumes stopped: "stopped_inv d"
  obtains stats d' where
    "driver_finish now ts fin d =
       Some (fd_flow_id d, terminal_state (fc_reason (fd_cancellation d)), stats, d')"
    "fd_state d' = terminal_state (fc_reason (fd_cancellation d))"
    "\<forall>s \<in> set (fd_streams d'). stream_items s = []"
    "state_changes (fd_log d') = state_changes (fd_log d) @
       [(FlowRunning, FlowDraining), (FlowDraining, terminal_state (fc_reason (fd_cancellation d)))]"
    "pull_count (fd_log d') = pull_count (fd_log d)"
proof -
  let ?T = "fd_topology d" and ?final = "terminal_state (fc_reason (fd_cancellation d))"
  let ?d0 = "(emit_state_change FlowRunning FlowDraining d)\<lparr>fd_state := FlowDraining\<rparr>"
  have s0: "fd_streams ?d0 = fd_streams d" "fd_topology ?d0 = ?T" "fd_started_at ?d0 = fd_started_at d"
    "fd_flow_id ?d0 = fd_flow_id d" "fd_log ?d0 = fd_log d @ [FlowStateChanged FlowRunning FlowDraining]"
    "fd_timeouts ?d0 = fd_timeouts d"
    by (simp_all add: emit_state_change_def log_event_def)
  have inv0: "driver_inv ?d0" and comp0: "completion_ok (fd_topology ?d0) (abs_net (fd_streams ?d0))"
    and st: "fd_started_at d \<noteq> None"
    using stopped by (simp_all add: stopped_inv_def driver_inv_def emit_state_change_def log_event_def)
  obtain d1 where d1: "close_sources [0..<length (ft_stages ?T)] ?d0 = Some d1" "closing ?d0 d1"
    "\<forall>i < length (ft_stages ?T). ins_of ?T i = [] \<longrightarrow> (\<forall>k \<in> set (outs_of ?T i). nt_closed (abs_net (fd_streams d1)) ! k)"
    using close_sources_ok [OF inv0 comp0, of "[0..<length (ft_stages ?T)]"] s0(2) by auto
  note c1 = closing_inv [OF d1(2)]
  have valid: "valid_topology ?T" using inv0 s0(2) by (simp add: driver_inv_def)
  have closed1: "sources_closed d1"
    using d1(3) valid_source_ins [OF valid] unfolding sources_closed_def c1(3) s0(2) by blast
  obtain d2 where d2: "drain_loop (now + to_drain_timeout (fd_timeouts d1)) ts d1 = Some d2" "driver_inv d2"
    "fd_topology d2 = fd_topology d1" "exec_frame d1 d2" "quiet d1 d2" "pull_count (fd_log d2) = pull_count (fd_log d1)"
    by (rule drain_loop_ok [OF c1(1,2) closed1])
  have "\<forall>s \<in> set (fd_streams d2). stream_inv s"
    using d2(2) by (auto simp: driver_inv_def streams_ok_def in_set_conv_nth)
  then obtain ss where ss: "discard_all (fd_streams d2) = Some ss" "\<forall>s \<in> set ss. stream_items s = []"
    using discard_all_ok by blast
  let ?d3 = "d2\<lparr>fd_streams := ss\<rparr>"
  have frame: "fd_started_at d2 = fd_started_at d" "fd_flow_id d2 = fd_flow_id d" "fd_topology d2 = ?T"
    using exec_frame_same [OF d2(4)] exec_frame_same [OF c1(6)] s0 by simp_all
  obtain started where started: "fd_started_at d = Some started" using st by blast
  have "0 + length (fd_component_metrics d2) \<le> length (ft_stages (fd_topology ?d3))"
    using d2(2) by (simp add: driver_inv_def)
  from component_stats_ok [OF this] obtain stats where stats:
    "component_stats ?d3 0 (fd_component_metrics d2) (aggregate_from_streams (completion_stats_new (fin - started))
       (map (\<lambda>s. (ss_id s, ss_metrics s)) ss)) = Some stats" by blast
  let ?d' = "log_event (FlowCompletedEvent stats) ((emit_state_change FlowDraining ?final ?d3)\<lparr>fd_state := ?final\<rparr>)"
  have "driver_finish now ts fin d = Some (fd_flow_id d, ?final, stats, ?d')"
    using d1(1) d2(1) ss(1) stats started frame s0
    by (simp add: driver_finish_def drain_queues_def cancellation_reason_of_def Let_def emit_state_change_def log_event_def)
  moreover have "state_changes (fd_log d2) = state_changes (fd_log d) @ [(FlowRunning, FlowDraining)]"
    using quiet_changes [OF d2(5)] d1(2) s0(5) by (simp add: closing_def)
  moreover have "pull_count (fd_log d2) = pull_count (fd_log d)"
    using d2(6) d1(2) s0(5) by (simp add: closing_def pull_count_def)
  ultimately show thesis
    using ss(2) by (intro that [of stats ?d']) (simp_all add: emit_state_change_def log_event_def pull_count_def)
qed

end
