(* ===== verification/Rea_Coordinator.thy ===== *)
theory Rea_Coordinator
  imports Rea_Driver_Run Res_Manager_Props "HOL-Library.AList"
begin

text \<open>
  \<open>torvyn-reactor/src/coordinator.rs\<close>: the task that creates, cancels, watches and reaps flows.

  A flow's task runs concurrently. Here it is a value in the flow's entry that advances by steps
  of its own, interleaved with the coordinator's in any order: \<open>TaskRunning\<close> in the main loop,
  \<open>TaskStopped\<close> after it, \<open>TaskDone\<close> with its result, and \<open>TaskPanicked\<close>. The cancellation
  token is shared between the entry's handle and the task: it is kept in the entry, and a step
  of the task reads and writes it there. The first poll of a task is part of the spawn.

  The resource manager is the one of \<open>Res_Manager\<close>; \<open>iter\<close> is again the order in which a hash
  set is walked, and \<open>low_mark\<close> the floating-point product that gives a stream its low watermark.
  The map of flows is a list in the order in which it is walked; the retained outcomes are a
  sorted list, as in the \<open>BTreeMap\<close>. \<open>None\<close> is a panic of the coordinator's task.
\<close>

section \<open>State\<close>

datatype task =
    TaskRunning flow_driver
  | TaskStopped flow_driver
  | TaskDone flow_state flow_completion_stats
  | TaskPanicked string

record flow_entry =
  fe_state :: flow_state
  fe_cancellation :: flow_cancellation
  fe_task :: task
  fe_component_ids :: "component_id list"

record coordinator =
  co_flows :: "(flow_id \<times> flow_entry) list"
  co_next_flow_id :: u64
  co_resources :: manager
  co_outcomes :: "(flow_id \<times> flow_outcome) list"
  co_shutting_down :: bool

definition max_retained_outcomes :: nat where
  "max_retained_outcomes = 64"

definition coordinator_new :: "manager \<Rightarrow> coordinator" where
  "coordinator_new m =
     \<lparr>co_flows = [], co_next_flow_id = 1, co_resources = m, co_outcomes = [], co_shutting_down = False\<rparr>"

section \<open>Streams of a new flow\<close>

type_synonym low_mark = "usize \<Rightarrow> u64 \<Rightarrow> usize"

definition opt_or :: "'a option \<Rightarrow> 'a \<Rightarrow> 'a" where
  "opt_or x y = (case x of None \<Rightarrow> y | Some z \<Rightarrow> z)"

definition stream_of :: "low_mark \<Rightarrow> flow_id \<Rightarrow> flow_config \<Rightarrow> nat \<Rightarrow> stream_connection \<Rightarrow> stream_state option" where
  "stream_of low_mark f cfg k conn =
     (let capacity = opt_or (sc_capacity (sn_config conn)) (cfg_default_queue_capacity cfg);
          policy = opt_or (sc_backpressure_policy (sn_config conn)) (cfg_default_backpressure_policy cfg);
          ratio = opt_or (sc_low_watermark_ratio (sn_config conn)) (cfg_default_low_watermark_ratio cfg)
      in Option.bind (index_vec (ft_stages (cfg_topology cfg)) (sn_from_stage conn)) (\<lambda>p.
         Option.bind (index_vec (ft_stages (cfg_topology cfg)) (sn_to_stage conn)) (\<lambda>c.
         stream_new (StreamId (of_nat k)) f (sd_component_id p) (sd_component_id c) capacity policy
           (low_mark capacity ratio))))"

fun build_streams ::
    "low_mark \<Rightarrow> flow_id \<Rightarrow> flow_config \<Rightarrow> nat \<Rightarrow> stream_connection list \<Rightarrow> stream_state list option" where
  "build_streams low_mark f cfg k [] = Some []"
| "build_streams low_mark f cfg k (conn # conns) =
     Option.bind (stream_of low_mark f cfg k conn) (\<lambda>s.
     map_option ((#) s) (build_streams low_mark f cfg (k + 1) conns))"

section \<open>Creating flows\<close>

definition insert_flow :: "flow_id \<Rightarrow> flow_entry \<Rightarrow> coordinator \<Rightarrow> coordinator" where
  "insert_flow f e co = co\<lparr>co_flows := AList.update f e (co_flows co)\<rparr>"

definition take_flow_id :: "coordinator \<Rightarrow> flow_id \<times> coordinator" where
  "take_flow_id co = (FlowId (co_next_flow_id co), co\<lparr>co_next_flow_id := co_next_flow_id co + 1\<rparr>)"

text \<open>\<open>now\<close> and \<open>wall\<close> are read when the task is first polled.\<close>

definition start_task ::
    "flow_id \<Rightarrow> flow_config \<Rightarrow> usize \<Rightarrow> stream_state list \<Rightarrow> instant \<Rightarrow> u64 \<Rightarrow> task" where
  "start_task f cfg instances streams now wall =
     (case driver_new f cfg instances streams cancellation_new now of
        None \<Rightarrow> TaskPanicked ''''
      | Some d \<Rightarrow> TaskRunning (driver_start now wall d))"

definition spawn_flow_with_instances ::
    "low_mark \<Rightarrow> instant \<Rightarrow> u64 \<Rightarrow> flow_config \<Rightarrow> usize \<Rightarrow> coordinator \<Rightarrow>
     ((flow_creation_error + flow_id) \<times> coordinator) option" where
  "spawn_flow_with_instances low_mark now wall cfg instances co =
     Option.bind (topology_validate (cfg_topology cfg)) (\<lambda>valid.
     case valid of
       Inl err \<Rightarrow> Some (Inl err, co)
     | Inr _ \<Rightarrow>
         let stage_count = length (ft_stages (cfg_topology cfg))
         in if instances \<noteq> stage_count then
              Some (Inl (InvalidTopology (''instance count ('' @ decimal instances @
                '') does not match topology stage count ('' @ decimal stage_count @ '')'')), co)
            else
              let (f, co) = take_flow_id co;
                  co = co\<lparr>co_resources := mgr_register_flow (co_resources co) f\<rparr>
              in map_option
                   (\<lambda>streams.
                      (Inr f, insert_flow f
                         \<lparr>fe_state = FlowInstantiated, fe_cancellation = cancellation_new,
                          fe_task = start_task f cfg instances streams now wall,
                          fe_component_ids = map sd_component_id (ft_stages (cfg_topology cfg))\<rparr> co))
                   (build_streams low_mark f cfg 0 (ft_connections (cfg_topology cfg))))"

text \<open>\<open>create_flow\<close> is a placeholder: its task ends at once, as completed.\<close>

definition create_flow ::
    "low_mark \<Rightarrow> flow_config \<Rightarrow> coordinator \<Rightarrow> ((flow_creation_error + flow_id) \<times> coordinator) option" where
  "create_flow low_mark cfg co =
     Option.bind (topology_validate (cfg_topology cfg)) (\<lambda>valid.
     case valid of
       Inl err \<Rightarrow> Some (Inl err, co)
     | Inr _ \<Rightarrow>
         let (f, co) = take_flow_id co
         in map_option
              (\<lambda>_. (Inr f, insert_flow f
                 \<lparr>fe_state = FlowInstantiated, fe_cancellation = cancellation_new,
                  fe_task = TaskDone FlowCompleted (completion_stats_new 0),
                  fe_component_ids = map sd_component_id (ft_stages (cfg_topology cfg))\<rparr> co))
              (build_streams low_mark f cfg 0 (ft_connections (cfg_topology cfg))))"

section \<open>Cancelling and querying\<close>

definition show_flow :: "flow_id \<Rightarrow> string" where
  "show_flow f = ''flow-'' @ decimal (unat (fid_as_u64 f))"

definition flow_not_found :: "flow_id \<Rightarrow> flow_error" where
  "flow_not_found f = FlowInternal (''flow '' @ show_flow f @ '' not found'')"

definition cancel_entry :: "cancellation_reason \<Rightarrow> flow_entry \<Rightarrow> flow_entry" where
  "cancel_entry r e = e\<lparr>fe_cancellation := cancel (fe_cancellation e) r\<rparr>"

definition co_cancel_flow ::
    "flow_id \<Rightarrow> cancellation_reason \<Rightarrow> coordinator \<Rightarrow> (flow_error + unit) \<times> coordinator" where
  "co_cancel_flow f r co =
     (case map_of (co_flows co) f of
        Some e \<Rightarrow> (Inr (), insert_flow f (cancel_entry r e) co)
      | None \<Rightarrow> (Inl (flow_not_found f), co))"

definition query_flow_state :: "flow_id \<Rightarrow> coordinator \<Rightarrow> flow_error + flow_state" where
  "query_flow_state f co =
     (case map_of (co_flows co) f of Some e \<Rightarrow> Inr (fe_state e) | None \<Rightarrow> Inl (flow_not_found f))"

definition query_flow_outcome :: "flow_id \<Rightarrow> coordinator \<Rightarrow> flow_outcome option" where
  "query_flow_outcome f co =
     (case map_of (co_flows co) f of
        Some e \<Rightarrow> Some \<lparr>fo_state = fe_state e, fo_reason = fc_reason (fe_cancellation e)\<rparr>
      | None \<Rightarrow> map_of (co_outcomes co) f)"

definition list_flows :: "coordinator \<Rightarrow> (flow_id \<times> flow_state) list" where
  "list_flows co = map (\<lambda>(f, e). (f, fe_state e)) (co_flows co)"

section \<open>Reaping\<close>

fun task_finished :: "task \<Rightarrow> bool" where
  "task_finished (TaskDone _ _) = True"
| "task_finished (TaskPanicked _) = True"
| "task_finished _ = False"

text \<open>Insertion into the sorted map; an existing key keeps its place.\<close>

fun outcome_insert :: "flow_id \<Rightarrow> 'a \<Rightarrow> (flow_id \<times> 'a) list \<Rightarrow> (flow_id \<times> 'a) list" where
  "outcome_insert f v [] = [(f, v)]"
| "outcome_insert f v ((g, w) # xs) =
     (if f = g then (f, v) # xs
      else if fid_as_u64 f < fid_as_u64 g then (f, v) # (g, w) # xs
      else (g, w) # outcome_insert f v xs)"

text \<open>The eviction loop removes the lowest key while there are too many.\<close>

fun evict_outcomes :: "(flow_id \<times> 'a) list \<Rightarrow> (flow_id \<times> 'a) list" where
  "evict_outcomes xs =
     (if max_retained_outcomes < length xs
      then (case xs of [] \<Rightarrow> [] | _ # ys \<Rightarrow> evict_outcomes ys) else xs)"

declare evict_outcomes.simps [simp del]

definition retain_outcome :: "flow_id \<Rightarrow> flow_outcome \<Rightarrow> coordinator \<Rightarrow> coordinator" where
  "retain_outcome f out co =
     co\<lparr>co_outcomes := evict_outcomes (outcome_insert f out (co_outcomes co))\<rparr>"

fun reclaim_components :: "set_order \<Rightarrow> component_id list \<Rightarrow> manager \<Rightarrow> manager option" where
  "reclaim_components iter [] m = Some m"
| "reclaim_components iter (c # cs) m =
     Option.bind (mgr_force_reclaim iter m c) (\<lambda>(_, m). reclaim_components iter cs m)"

definition reclaim_flow_resources ::
    "set_order \<Rightarrow> flow_id \<Rightarrow> component_id list \<Rightarrow> manager \<Rightarrow> manager option" where
  "reclaim_flow_resources iter f cs m =
     Option.bind (reclaim_components iter cs m) (\<lambda>m.
     map_option snd (mgr_reclaim_flow_buffers iter m f))"

text \<open>How a finished task is remembered.\<close>

fun task_outcome :: "cancellation_reason option \<Rightarrow> task \<Rightarrow> flow_outcome" where
  "task_outcome reason (TaskDone st _) = \<lparr>fo_state = st, fo_reason = reason\<rparr>"
| "task_outcome reason (TaskPanicked e) =
     \<lparr>fo_state = FlowFailed, fo_reason = Some (DownstreamError (ComponentId 0)
        (Internal (''the flow driver task panicked: '' @ e)))\<rparr>"
| "task_outcome reason _ = \<lparr>fo_state = FlowRunning, fo_reason = reason\<rparr>"

fun reap_ids :: "set_order \<Rightarrow> flow_id list \<Rightarrow> coordinator \<Rightarrow> coordinator option" where
  "reap_ids iter [] co = Some co"
| "reap_ids iter (f # fs) co =
     (case map_of (co_flows co) f of
        None \<Rightarrow> reap_ids iter fs co
      | Some e \<Rightarrow>
          let co = co\<lparr>co_flows := AList.delete f (co_flows co)\<rparr>;
              co = retain_outcome f (task_outcome (fc_reason (fe_cancellation e)) (fe_task e)) co
          in Option.bind (reclaim_flow_resources iter f (fe_component_ids e) (co_resources co)) (\<lambda>m.
             reap_ids iter fs (co\<lparr>co_resources := m\<rparr>)))"

definition reap_completed_flows :: "set_order \<Rightarrow> coordinator \<Rightarrow> coordinator option" where
  "reap_completed_flows iter co =
     reap_ids iter (map fst (filter (\<lambda>(_, e). task_finished (fe_task e)) (co_flows co))) co"

section \<open>Steps of the tasks\<close>

text \<open>
  A turn of the main loop, or the end of the run after it. The driver reads the token of the
  entry and leaves its own there; \<open>None\<close> in the driver is a panic of the task only.
\<close>

datatype task_step =
    TurnStep flow_id turn
  | FinishStep flow_id instant "turn list" instant

definition with_token :: "flow_cancellation \<Rightarrow> flow_driver \<Rightarrow> flow_driver" where
  "with_token c d = d\<lparr>fd_cancellation := c\<rparr>"

fun advance_task ::
    "(duration \<Rightarrow> string) \<Rightarrow> string \<Rightarrow> task_step \<Rightarrow> flow_entry \<Rightarrow> flow_entry" where
  "advance_task show_duration panic (TurnStep f t) e =
     (case fe_task e of
        TaskRunning d \<Rightarrow>
          (case driver_turn show_duration t (with_token (fe_cancellation e) d) of
             None \<Rightarrow> e\<lparr>fe_task := TaskPanicked panic\<rparr>
           | Some (d', stop) \<Rightarrow>
               e\<lparr>fe_task := (if stop then TaskStopped d' else TaskRunning d'),
                 fe_cancellation := fd_cancellation d'\<rparr>)
      | _ \<Rightarrow> e)"
| "advance_task show_duration panic (FinishStep f now ts fin) e =
     (case fe_task e of
        TaskStopped d \<Rightarrow>
          (case driver_finish now ts fin (with_token (fe_cancellation e) d) of
             None \<Rightarrow> e\<lparr>fe_task := TaskPanicked panic\<rparr>
           | Some (_, st, stats, _) \<Rightarrow> e\<lparr>fe_task := TaskDone st stats\<rparr>)
      | _ \<Rightarrow> e)"

fun step_flow :: "task_step \<Rightarrow> flow_id" where
  "step_flow (TurnStep f _) = f"
| "step_flow (FinishStep f _ _ _) = f"

definition task_step_co ::
    "(duration \<Rightarrow> string) \<Rightarrow> string \<Rightarrow> task_step \<Rightarrow> coordinator \<Rightarrow> coordinator" where
  "task_step_co show_duration panic s co =
     (case map_of (co_flows co) (step_flow s) of
        None \<Rightarrow> co
      | Some e \<Rightarrow> insert_flow (step_flow s) (advance_task show_duration panic s e) co)"

section \<open>Shutdown\<close>

record shutdown_result =
  sr_completed :: usize
  sr_cancelled :: usize
  sr_timed_out :: usize

text \<open>
  The waiting loop: one round per wake-up before the deadline, each with the steps that the
  tasks make while the coordinator sleeps. When the rounds are used up the deadline has passed.
\<close>

fun shutdown_rounds ::
    "(duration \<Rightarrow> string) \<Rightarrow> string \<Rightarrow> set_order \<Rightarrow> task_step list list \<Rightarrow> coordinator \<Rightarrow> coordinator option"
  where
  "shutdown_rounds show_duration panic iter [] co = Some co"
| "shutdown_rounds show_duration panic iter (steps # rounds) co =
     (if co_flows co = [] then Some co
      else
        Option.bind (reap_completed_flows iter co) (\<lambda>co.
        shutdown_rounds show_duration panic iter rounds
          (fold (task_step_co show_duration panic) steps co)))"

definition co_shutdown ::
    "(duration \<Rightarrow> string) \<Rightarrow> string \<Rightarrow> set_order \<Rightarrow> task_step list list \<Rightarrow> coordinator \<Rightarrow>
     (shutdown_result \<times> coordinator) option" where
  "co_shutdown show_duration panic iter rounds co =
     (let co = co\<lparr>co_shutting_down := True,
                co_flows := map (\<lambda>(f, e). (f, cancel_entry OperatorRequest e)) (co_flows co)\<rparr>
      in map_option
           (\<lambda>co. (\<lparr>sr_completed = 0, sr_cancelled = 0, sr_timed_out = length (co_flows co)\<rparr>, co))
           (shutdown_rounds show_duration panic iter rounds co))"

section \<open>Commands\<close>

datatype reactor_command =
    CreateFlow flow_config
  | CancelFlow flow_id cancellation_reason
  | QueryFlowState flow_id
  | QueryFlowOutcome flow_id
  | ListFlows
  | UpdatePriority flow_id flow_priority
  | Shutdown "task_step list list"
  | SpawnFlow flow_config usize instant u64

datatype reply_msg =
    ReplyCreated "flow_creation_error + flow_id"
  | ReplyUnit "flow_error + unit"
  | ReplyState "flow_error + flow_state"
  | ReplyOutcome "flow_outcome option"
  | ReplyFlows "(flow_id \<times> flow_state) list"
  | ReplyShutdown shutdown_result

fun handle_command ::
    "low_mark \<Rightarrow> (duration \<Rightarrow> string) \<Rightarrow> string \<Rightarrow> set_order \<Rightarrow> reactor_command \<Rightarrow> coordinator \<Rightarrow>
     (reply_msg \<times> coordinator) option" where
  "handle_command low_mark show_duration panic iter (CreateFlow cfg) co =
     (if co_shutting_down co then Some (ReplyCreated (Inl ReactorShuttingDown), co)
      else map_option (\<lambda>(r, co). (ReplyCreated r, co)) (create_flow low_mark cfg co))"
| "handle_command low_mark show_duration panic iter (CancelFlow f r) co =
     (case co_cancel_flow f r co of (res, co') \<Rightarrow> Some (ReplyUnit res, co'))"
| "handle_command low_mark show_duration panic iter (QueryFlowState f) co =
     Some (ReplyState (query_flow_state f co), co)"
| "handle_command low_mark show_duration panic iter (QueryFlowOutcome f) co =
     Some (ReplyOutcome (query_flow_outcome f co), co)"
| "handle_command low_mark show_duration panic iter ListFlows co = Some (ReplyFlows (list_flows co), co)"
| "handle_command low_mark show_duration panic iter (UpdatePriority f p) co =
     Some (ReplyUnit (Inl (FlowInternal ''dynamic priority update not yet implemented'')), co)"
| "handle_command low_mark show_duration panic iter (Shutdown rounds) co =
     map_option (\<lambda>(r, co). (ReplyShutdown r, co)) (co_shutdown show_duration panic iter rounds co)"
| "handle_command low_mark show_duration panic iter (SpawnFlow cfg instances now wall) co =
     (if co_shutting_down co then Some (ReplyCreated (Inl ReactorShuttingDown), co)
      else map_option (\<lambda>(r, co). (ReplyCreated r, co))
             (spawn_flow_with_instances low_mark now wall cfg instances co))"

text \<open>The event loop handles one command and then reaps.\<close>

definition coordinator_round ::
    "low_mark \<Rightarrow> (duration \<Rightarrow> string) \<Rightarrow> string \<Rightarrow> set_order \<Rightarrow> reactor_command \<Rightarrow> coordinator \<Rightarrow>
     (reply_msg \<times> coordinator) option" where
  "coordinator_round low_mark show_duration panic iter cmd co =
     Option.bind (handle_command low_mark show_duration panic iter cmd co) (\<lambda>(r, co).
     map_option (\<lambda>co. (r, co)) (reap_completed_flows iter co))"

end
