(* ===== verification/Rea_Coord_Inv.thy ===== *)
theory Rea_Coord_Inv
  imports Rea_Coordinator
begin

text \<open>
  The invariant of the coordinator: its resource manager is consistent, every task is a driver in
  its loop invariant (so none ever panics), the flows have distinct identifiers and the retained
  outcomes are sorted and bounded.
\<close>

section \<open>A new flow\<close>

definition config_capacity :: "flow_config \<Rightarrow> stream_connection \<Rightarrow> usize" where
  "config_capacity cfg conn = opt_or (sc_capacity (sn_config conn)) (cfg_default_queue_capacity cfg)"

text \<open>
  Every queue has a capacity that is positive and fits a vector, and the connections are fewer
  than the identifiers: what a configuration must satisfy, since nothing checks it.
\<close>

definition capacities_ok :: "flow_config \<Rightarrow> bool" where
  "capacities_ok cfg \<longleftrightarrow>
     length (ft_connections (cfg_topology cfg)) < 2 ^ 64 \<and>
     (\<forall>conn \<in> set (ft_connections (cfg_topology cfg)).
        0 < config_capacity cfg conn \<and> config_capacity cfg conn < 9223372036854775808)"

definition fresh_stream :: "nat \<Rightarrow> stream_state \<Rightarrow> bool" where
  "fresh_stream k s \<longleftrightarrow>
     stream_inv s \<and> stream_items s = [] \<and> ss_id s = StreamId (of_nat k) \<and>
     ss_backpressure s = BpNormal \<and> \<not> ss_producer_complete s"

lemma stream_of_ok:
  assumes "sn_from_stage conn < length (ft_stages (cfg_topology cfg))"
    and "sn_to_stage conn < length (ft_stages (cfg_topology cfg))"
    and "0 < config_capacity cfg conn" and "config_capacity cfg conn < 9223372036854775808"
  shows "\<exists>s. stream_of low_mark f cfg k conn = Some s \<and> fresh_stream k s"
proof -
  obtain s where s: "stream_of low_mark f cfg k conn = Some s"
    "stream_new (StreamId (of_nat k)) f (sd_component_id (ft_stages (cfg_topology cfg) ! sn_from_stage conn))
       (sd_component_id (ft_stages (cfg_topology cfg) ! sn_to_stage conn)) (config_capacity cfg conn)
       (opt_or (sc_backpressure_policy (sn_config conn)) (cfg_default_backpressure_policy cfg))
       (low_mark (config_capacity cfg conn)
          (opt_or (sc_low_watermark_ratio (sn_config conn)) (cfg_default_low_watermark_ratio cfg))) = Some s"
    using assms by (auto simp: stream_of_def Let_def index_vec_def config_capacity_def stream_new_def queue_new_def)
  note n = stream_new_inv [OF s(2) assms(4)]
  have "ss_backpressure s = BpNormal" "\<not> ss_producer_complete s"
    using s(2) by (auto simp: stream_new_def)
  with n s(1) show ?thesis by (auto simp: fresh_stream_def)
qed

lemma build_streams_ok:
  assumes "\<forall>conn \<in> set conns. sn_from_stage conn < length (ft_stages (cfg_topology cfg)) \<and>
      sn_to_stage conn < length (ft_stages (cfg_topology cfg)) \<and>
      0 < config_capacity cfg conn \<and> config_capacity cfg conn < 9223372036854775808"
  shows "\<exists>ss. build_streams low_mark f cfg k conns = Some ss \<and> length ss = length conns \<and>
    (\<forall>j < length ss. fresh_stream (k + j) (ss ! j))"
  using assms
proof (induction conns arbitrary: k)
  case (Cons conn conns)
  obtain s where s: "stream_of low_mark f cfg k conn = Some s" "fresh_stream k s"
    using stream_of_ok [of conn cfg low_mark f k] Cons.prems by auto
  obtain ss where ss: "build_streams low_mark f cfg (k + 1) conns = Some ss" "length ss = length conns"
    "\<forall>j < length ss. fresh_stream (k + 1 + j) (ss ! j)" using Cons.IH [of "k + 1"] Cons.prems by auto
  have "fresh_stream (k + j) ((s # ss) ! j)" if "j < length (s # ss)" for j
    using that s(2) ss(3) by (cases j) auto
  with s(1) ss(1,2) show ?case by auto
qed simp

lemma config_streams:
  assumes valid: "valid_topology (cfg_topology cfg)" and cap: "capacities_ok cfg"
  obtains ss where "build_streams low_mark f cfg 0 (ft_connections (cfg_topology cfg)) = Some ss"
    "length ss = length (ft_connections (cfg_topology cfg))" "\<forall>j < length ss. fresh_stream j (ss ! j)"
proof -
  have "sn_from_stage conn < length (ft_stages (cfg_topology cfg)) \<and>
      sn_to_stage conn < length (ft_stages (cfg_topology cfg))"
    if "conn \<in> set (ft_connections (cfg_topology cfg))" for conn
    using valid that by (force simp: valid_topology_def Let_def in_range_def edges_def)
  with cap show thesis
    using build_streams_ok [of "ft_connections (cfg_topology cfg)" cfg low_mark f 0] that
    by (auto simp: capacities_ok_def)
qed

lemma fresh_completion_ok:
  assumes "length ss = length (ft_connections T)" and "\<forall>j < length ss. fresh_stream j (ss ! j)"
  shows "completion_ok T (abs_net ss)"
  using assms outs_of_less [of _ T] by (auto simp: completion_ok_def abs_net_def fresh_stream_def)

lemma start_task_ok:
  assumes valid: "valid_topology (cfg_topology cfg)" and cap: "capacities_ok cfg"
    and inst: "instances = length (ft_stages (cfg_topology cfg))"
    and len: "length ss = length (ft_connections (cfg_topology cfg))" and fresh: "\<forall>j < length ss. fresh_stream j (ss ! j)"
  obtains d where "start_task f cfg instances ss now wall = TaskRunning d" "loop_inv d"
    "fd_cancellation d = cancellation_new" "fd_flow_id d = f" "fd_topology d = cfg_topology cfg"
    "state_changes (fd_log d) = [(FlowInstantiated, FlowRunning)]" "fd_streams d = ss"
    "pull_count (fd_log d) = 0" "fd_state d = FlowRunning"
proof -
  have range: "in_range (length (ft_stages (cfg_topology cfg))) (edges (cfg_topology cfg))"
    using valid by (simp add: valid_topology_def Let_def)
  obtain d0 where d0: "driver_new f cfg instances ss cancellation_new now = Some d0"
    and eq: "fd_topology d0 = cfg_topology cfg" "fd_stream_index d0 = index_of (cfg_topology cfg)" "fd_streams d0 = ss"
      "fd_instances d0 = instances" "length (fd_component_metrics d0) = length (ft_stages (cfg_topology cfg))"
      "fd_cancellation d0 = cancellation_new" "fd_flow_id d0 = f" "fd_log d0 = []"
    by (simp add: driver_new_def stream_index_build_eq [OF range])
  have ok: "streams_ok ss" using cap fresh len by (simp add: streams_ok_def fresh_stream_def capacities_ok_def)
  have bp: "\<forall>s \<in> set ss. bp_ok s"
    using fresh by (auto simp: in_set_conv_nth fresh_stream_def bp_ok_def stream_inv_def queue_inv_def stream_items_def queue_items_Nil)
  have "loop_inv (driver_start now wall d0)"
    using valid ok bp inst len eq fresh_completion_ok [OF len fresh]
    by (simp add: loop_inv_def driver_inv_def driver_start_def emit_state_change_def log_event_def)
  with d0 eq show thesis
    by (intro that [of "driver_start now wall d0"])
      (simp_all add: start_task_def driver_start_def emit_state_change_def log_event_def pull_count_def)
qed

section \<open>The invariant\<close>

fun task_ok :: "flow_id \<Rightarrow> flow_cancellation \<Rightarrow> task \<Rightarrow> bool" where
  "task_ok f c (TaskRunning d) \<longleftrightarrow> loop_inv (with_token c d) \<and> fd_flow_id d = f"
| "task_ok f c (TaskStopped d) \<longleftrightarrow> stopped_inv (with_token c d) \<and> fd_flow_id d = f"
| "task_ok f c (TaskDone st _) \<longleftrightarrow>
     st = FlowCompleted \<or> (\<exists>r. fc_reason c = Some r \<and> st = terminal_state (Some r))"
| "task_ok f c (TaskPanicked _) \<longleftrightarrow> False"

definition entry_inv :: "flow_id \<Rightarrow> flow_entry \<Rightarrow> bool" where
  "entry_inv f e \<longleftrightarrow>
     cancellation_wf (fe_cancellation e) \<and> fe_state e = FlowInstantiated \<and>
     task_ok f (fe_cancellation e) (fe_task e)"

definition outcome_ok :: "flow_outcome \<Rightarrow> bool" where
  "outcome_ok out \<longleftrightarrow>
     fo_state out = FlowCompleted \<or> (\<exists>r. fo_reason out = Some r \<and> fo_state out = terminal_state (Some r))"

definition co_inv :: "coordinator \<Rightarrow> bool" where
  "co_inv co \<longleftrightarrow>
     mgr_inv (co_resources co) \<and> distinct (map fst (co_flows co)) \<and>
     (\<forall>(f, e) \<in> set (co_flows co). entry_inv f e) \<and>
     sorted_wrt (<) (map (fid_as_u64 \<circ> fst) (co_outcomes co)) \<and>
     length (co_outcomes co) \<le> max_retained_outcomes \<and>
     (\<forall>(f, out) \<in> set (co_outcomes co). outcome_ok out)"

lemma with_token_simps [simp]:
  "fd_cancellation (with_token c d) = c" "fd_flow_id (with_token c d) = fd_flow_id d"
  "with_token c (with_token c' d) = with_token c d" "with_token (fd_cancellation d) d = d"
  "driver_inv (with_token c d) = driver_inv d" "fd_topology (with_token c d) = fd_topology d"
  "fd_streams (with_token c d) = fd_streams d" "fd_started_at (with_token c d) = fd_started_at d"
  "loop_inv (with_token c d) = loop_inv d"
  by (simp_all add: with_token_def driver_inv_def loop_inv_def)

lemma stopped_inv_token:
  "stopped_inv (with_token c d) \<longleftrightarrow>
     driver_inv d \<and> completion_ok (fd_topology d) (abs_net (fd_streams d)) \<and> fd_started_at d \<noteq> None \<and> is_cancelled c"
  by (simp add: stopped_inv_def)

lemma cancel_entry_inv: "entry_inv f e \<Longrightarrow> entry_inv f (cancel_entry r e)"
  by (cases "fe_task e") (auto simp: entry_inv_def cancel_entry_def stopped_inv_token cancel_keeps_reason)

text \<open>Every turn leaves a token that is well-formed, and the end of a run agrees with its reason.\<close>

lemma fold_cancel_wf: "cancellation_wf c \<Longrightarrow> cancellation_wf (fold (\<lambda>r c. cancel c r) rs c)"
  by (induction rs arbitrary: c) simp_all

lemma driver_turn_wf:
  assumes loop: "loop_inv d" and wf: "cancellation_wf (fd_cancellation d)"
    and turn: "driver_turn show_duration t d = Some (d', stop)"
  shows "cancellation_wf (fd_cancellation d')"
proof -
  have pre: "driver_inv d" "completion_ok (fd_topology d) (abs_net (fd_streams d))" "fd_started_at d \<noteq> None"
    using loop by (simp_all add: loop_inv_def)
  show ?thesis
  proof (cases rule: driver_turn_cases [OF pre, of show_duration t])
    case (1 c)
    with turn wf show ?thesis by (auto simp: fold_cancel_wf)
  next
    case (2 i d1 d2 stop2)
    note fr = op_result_exec_inv(1,5) [OF loop 2(4,5,6)]
    from 2(8) consider r where "d2 = cancel_flow r d1" | "after_frame d1 d2" by blast
    then have "cancellation_wf (fd_cancellation d2)"
    proof cases
      case 1
      then show ?thesis by (simp add: cancel_flow_def)
    next
      case 2
      with wf exec_frame_same(6) [OF fr(2)] after_frame_ok(7) [OF 2 fr(1)] show ?thesis by simp
    qed
    with turn 2(1) show ?thesis by simp
  next
    case (3 d1 d2 stop2)
    have "fd_cancellation d1 = fd_cancellation d" by (rule exec_frame_same(6) [OF closing_inv(6) [OF 3(6)]])
    with 3(1,7) wf turn show ?thesis by (auto simp: cancel_flow_def split: if_splits)
  qed
qed

lemma driver_loop_wf:
  assumes "loop_inv d" and "cancellation_wf (fd_cancellation d)"
    and "driver_loop show_duration ts d = Some (d', stop)"
  shows "cancellation_wf (fd_cancellation d')"
  using assms
proof (induction ts arbitrary: d)
  case (Cons t ts)
  obtain d1 s1 where d1: "driver_turn show_duration t d = Some (d1, s1)"
    "if s1 then stopped_inv d1 else loop_inv d1" by (rule driver_turn_inv [OF Cons.prems(1)])
  note wf = driver_turn_wf [OF Cons.prems(1,2) d1(1)]
  from Cons.IH [OF _ wf] Cons.prems(3) d1 wf show ?case by (auto split: if_splits)
qed simp

lemma advance_task_inv:
  assumes inv: "entry_inv (step_flow s) e"
  shows "entry_inv (step_flow s) (advance_task show_duration panic s e)"
proof (cases s)
  case (TurnStep f t)
  show ?thesis
  proof (cases "fe_task e")
    case (TaskRunning d)
    let ?d = "with_token (fe_cancellation e) d"
    have loop: "loop_inv ?d" and wf: "cancellation_wf (fd_cancellation ?d)" and id: "fd_flow_id d = f"
      using inv TaskRunning TurnStep by (simp_all add: entry_inv_def)
    obtain d' stop where d': "driver_turn show_duration t ?d = Some (d', stop)"
      "if stop then stopped_inv d' else loop_inv d'" "fd_flow_id d' = fd_flow_id ?d"
      by (rule driver_turn_inv [OF loop])
    from driver_turn_wf [OF loop wf d'(1)] d' id inv TaskRunning TurnStep show ?thesis
      by (auto simp: entry_inv_def)
  qed (use inv TurnStep in simp_all)
next
  case (FinishStep f now ts fin)
  show ?thesis
  proof (cases "fe_task e")
    case (TaskStopped d)
    let ?d = "with_token (fe_cancellation e) d"
    have st: "stopped_inv ?d" and wf: "cancellation_wf (fe_cancellation e)"
      using inv TaskStopped FinishStep by (simp_all add: entry_inv_def)
    then obtain r where r: "fc_reason (fe_cancellation e) = Some r"
      by (auto simp: stopped_inv_token cancellation_wf_def is_cancelled_def)
    obtain stats d' where "driver_finish now ts fin ?d =
        Some (fd_flow_id ?d, terminal_state (fc_reason (fd_cancellation ?d)), stats, d')"
      by (rule driver_finish_ok [OF st])
    with inv TaskStopped FinishStep r show ?thesis by (auto simp: entry_inv_def)
  qed (use inv FinishStep in simp_all)
qed

lemma set_update_distinct:
  assumes "distinct (map fst xs)"
  shows "set (AList.update k v xs) \<subseteq> insert (k, v) (set xs)"
proof clarify
  fix k' w assume mem: "(k', w) \<in> set (AList.update k v xs)" "(k', w) \<notin> set xs"
  have "map_of (AList.update k v xs) k' = Some w"
    using mem(1) AList.distinct_update [OF assms] by (simp add: map_of_is_SomeI)
  then have "((map_of xs)(k \<mapsto> v)) k' = Some w" by (simp add: AList.update_conv')
  with mem(2) show "k' = k \<and> w = v" by (auto split: if_splits dest: map_of_SomeD)
qed

lemma insert_flow_inv:
  assumes "co_inv co" and "entry_inv f e"
  shows "co_inv (insert_flow f e co)"
proof -
  have "(\<forall>(g, e') \<in> set (AList.update f e (co_flows co)). entry_inv g e')"
    using set_update_distinct [of "co_flows co" f e] assms by (auto simp: co_inv_def)
  with assms(1) show ?thesis by (simp add: co_inv_def insert_flow_def AList.distinct_update)
qed

lemma task_step_inv:
  assumes "co_inv co"
  shows "co_inv (task_step_co show_duration panic s co)"
proof (cases "map_of (co_flows co) (step_flow s)")
  case None
  with assms show ?thesis by (simp add: task_step_co_def)
next
  case (Some e)
  then have "entry_inv (step_flow s) e" using assms by (auto simp: co_inv_def dest: map_of_SomeD)
  from insert_flow_inv [OF assms advance_task_inv [OF this]] Some show ?thesis by (simp add: task_step_co_def)
qed

section \<open>Outcomes\<close>

definition outcomes_ok :: "(flow_id \<times> flow_outcome) list \<Rightarrow> bool" where
  "outcomes_ok xs \<longleftrightarrow> sorted_wrt (<) (map (fid_as_u64 \<circ> fst) xs) \<and> (\<forall>(f, out) \<in> set xs. outcome_ok out)"

lemma outcome_insert_set: "set (outcome_insert f v xs) \<subseteq> insert (f, v) (set xs)"
  by (induction f v xs rule: outcome_insert.induct) auto

lemma flow_id_eq: "fid_as_u64 f = fid_as_u64 g \<longleftrightarrow> f = g"
  by (metis flow_id.expand)

lemma outcome_insert_sorted:
  "sorted_wrt (<) (map (fid_as_u64 \<circ> fst) xs) \<Longrightarrow>
   sorted_wrt (<) (map (fid_as_u64 \<circ> fst) (outcome_insert f v xs))"
proof (induction f v xs rule: outcome_insert.induct)
  case (2 f v g w xs)
  show ?case
  proof (cases "f \<noteq> g \<and> \<not> fid_as_u64 f < fid_as_u64 g")
    case True
    then have gf: "fid_as_u64 g < fid_as_u64 f" using flow_id_eq [of f g] by (simp add: not_less order.order_iff_strict)
    have "sorted_wrt (<) (map (fid_as_u64 \<circ> fst) (outcome_insert f v xs))"
      using "2.IH" True "2.prems" by (simp add: comp_def)
    with True gf "2.prems" outcome_insert_set [of f v xs] show ?thesis by (auto simp: comp_def)
  next
    case False
    with "2.prems" show ?thesis by (auto intro: order.strict_trans)
  qed
qed simp

lemma outcome_insert_length: "length (outcome_insert f v xs) \<le> length xs + 1"
  by (induction f v xs rule: outcome_insert.induct) auto

lemma outcome_insert_lookup:
  "sorted_wrt (<) (map (fid_as_u64 \<circ> fst) xs) \<Longrightarrow>
   map_of (outcome_insert f v xs) = (map_of xs)(f \<mapsto> v)"
  by (induction f v xs rule: outcome_insert.induct) (auto simp: fun_eq_iff)

lemma evict_outcomes_eq: "evict_outcomes xs = drop (length xs - max_retained_outcomes) xs"
proof (induction xs)
  case Nil
  then show ?case by (simp add: evict_outcomes.simps)
next
  case (Cons x xs)
  then show ?case by (subst evict_outcomes.simps) (simp add: Suc_diff_le)
qed

lemma evict_outcomes_ok: "outcomes_ok xs \<Longrightarrow> outcomes_ok (evict_outcomes xs)"
  unfolding outcomes_ok_def evict_outcomes_eq
  by (auto simp: drop_map [symmetric] sorted_wrt_drop dest: in_set_dropD)

lemma evict_outcomes_length: "length (evict_outcomes xs) \<le> max_retained_outcomes"
  by (simp add: evict_outcomes_eq)

lemma co_inv_outcomes:
  "co_inv co \<longleftrightarrow> mgr_inv (co_resources co) \<and> distinct (map fst (co_flows co)) \<and>
     (\<forall>(f, e) \<in> set (co_flows co). entry_inv f e) \<and> outcomes_ok (co_outcomes co) \<and>
     length (co_outcomes co) \<le> max_retained_outcomes"
  by (auto simp: co_inv_def outcomes_ok_def)

lemma task_outcome_ok: "entry_inv f e \<Longrightarrow> task_finished (fe_task e) \<Longrightarrow>
   outcome_ok (task_outcome (fc_reason (fe_cancellation e)) (fe_task e))"
  by (cases "fe_task e") (auto simp: entry_inv_def outcome_ok_def)

section \<open>Reaping\<close>

lemma reclaim_components_ok:
  assumes "mgr_inv m" and iter: "order_ok iter"
  shows "\<exists>m'. reclaim_components iter cs m = Some m' \<and> mgr_inv m' \<and>
    m_view m' = keep_views (\<lambda>v. \<forall>c \<in> set cs. v_owner v \<noteq> Component c) (m_view m)"
  using assms(1)
proof (induction cs arbitrary: m)
  case Nil
  then show ?case by (auto simp: keep_views_def fun_eq_iff simp del: m_view_None split: option.split)
next
  case (Cons c cs)
  obtain out m1 where m1: "mgr_force_reclaim iter m c = Some (out, m1)" "mgr_inv m1"
    "m_view m1 = keep_views (\<lambda>v. v_owner v \<noteq> Component c) (m_view m)"
    using mgr_force_reclaim_ok [OF Cons.prems iter, of c] by blast
  obtain m' where "reclaim_components iter cs m1 = Some m'" "mgr_inv m'"
    "m_view m' = keep_views (\<lambda>v. \<forall>c \<in> set cs. v_owner v \<noteq> Component c) (m_view m1)"
    using Cons.IH [OF m1(2)] by blast
  with m1 show ?case by (auto simp: keep_views_def fun_eq_iff simp del: m_view_None split: option.split)
qed

lemma reclaim_flow_resources_ok:
  assumes inv: "mgr_inv m" and iter: "order_ok iter"
  obtains m' where "reclaim_flow_resources iter f cs m = Some m'" "mgr_inv m'"
    "m_view m' = keep_views (\<lambda>v. (\<forall>c \<in> set cs. v_owner v \<noteq> Component c) \<and> v_flow v \<noteq> f) (m_view m)"
proof -
  obtain m1 where m1: "reclaim_components iter cs m = Some m1" "mgr_inv m1"
    "m_view m1 = keep_views (\<lambda>v. \<forall>c \<in> set cs. v_owner v \<noteq> Component c) (m_view m)"
    using reclaim_components_ok [OF inv iter] by blast
  obtain s m' where m': "mgr_reclaim_flow_buffers iter m1 f = Some (s, m')" "mgr_inv m'"
    "m_view m' = keep_views (\<lambda>v. v_flow v \<noteq> f) (m_view m1)"
    using mgr_reclaim_flow_ok [OF m1(2) iter, of f] by blast
  show thesis
    using m1 m' by (intro that [of m'])
      (auto simp: reclaim_flow_resources_def keep_views_def fun_eq_iff simp del: m_view_None split: option.split)
qed

lemma delete_flow_inv:
  assumes inv: "co_inv co" and m: "mgr_inv m" and out: "outcome_ok out"
  shows "co_inv ((retain_outcome f out (co\<lparr>co_flows := AList.delete f (co_flows co)\<rparr>))\<lparr>co_resources := m\<rparr>)"
proof -
  have "set (AList.delete f (co_flows co)) \<subseteq> set (co_flows co)" by (auto simp: AList.delete_eq)
  moreover have "distinct (map fst (AList.delete f (co_flows co)))"
    using inv by (simp add: co_inv_def AList.distinct_delete)
  moreover have "outcomes_ok (outcome_insert f out (co_outcomes co))"
    using inv out outcome_insert_set [of f out "co_outcomes co"]
    by (auto simp: co_inv_outcomes outcomes_ok_def outcome_insert_sorted)
  ultimately show ?thesis
    using inv m evict_outcomes_ok evict_outcomes_length
    by (auto simp: co_inv_outcomes retain_outcome_def)
qed

text \<open>What remains are the flows that were not reaped, as they were.\<close>

lemma reap_ids_ok:
  assumes "co_inv co" and iter: "order_ok iter"
    and "\<forall>f \<in> set fs. \<forall>e. map_of (co_flows co) f = Some e \<longrightarrow> task_finished (fe_task e)" and "distinct fs"
  shows "\<exists>co'. reap_ids iter fs co = Some co' \<and> co_inv co' \<and>
    co_flows co' = filter (\<lambda>(f, _). f \<notin> set fs) (co_flows co) \<and>
    co_shutting_down co' = co_shutting_down co \<and> co_next_flow_id co' = co_next_flow_id co"
  using assms(1,3,4)
proof (induction fs arbitrary: co)
  case Nil
  then show ?case by simp
next
  case (Cons f fs)
  show ?case
  proof (cases "map_of (co_flows co) f")
    case None
    then have "(case x of (g, _) \<Rightarrow> g \<notin> set fs) = (case x of (g, _) \<Rightarrow> g \<notin> set (f # fs))" if "x \<in> set (co_flows co)" for x
      using that by (auto simp: map_of_eq_None_iff image_iff)
    then have "filter (\<lambda>(g, _). g \<notin> set fs) (co_flows co) = filter (\<lambda>(g, _). g \<notin> set (f # fs)) (co_flows co)"
      by (intro filter_cong) auto
    with Cons.IH [OF Cons.prems(1)] Cons.prems None show ?thesis by auto
  next
    case (Some e)
    have e: "entry_inv f e" "task_finished (fe_task e)"
      using Cons.prems(1,2) Some by (auto simp: co_inv_def dest: map_of_SomeD)
    obtain m where m: "reclaim_flow_resources iter f (fe_component_ids e) (co_resources co) = Some m" "mgr_inv m"
      by (rule reclaim_flow_resources_ok [OF _ iter, of "co_resources co" f "fe_component_ids e"])
        (use Cons.prems(1) in \<open>simp_all add: co_inv_def\<close>)
    let ?out = "task_outcome (fc_reason (fe_cancellation e)) (fe_task e)"
    let ?co = "(retain_outcome f ?out (co\<lparr>co_flows := AList.delete f (co_flows co)\<rparr>))\<lparr>co_resources := m\<rparr>"
    have inv: "co_inv ?co" by (rule delete_flow_inv [OF Cons.prems(1) m(2) task_outcome_ok [OF e]])
    have fl: "co_flows ?co = filter (\<lambda>(g, _). g \<noteq> f) (co_flows co)"
      by (simp add: retain_outcome_def AList.delete_eq) (intro filter_cong, auto)
    have "map_of (co_flows ?co) g = map_of (co_flows co) g" if "g \<in> set fs" for g
    proof -
      from that Cons.prems(3) have "g \<noteq> f" by auto
      then show ?thesis by (simp add: retain_outcome_def AList.delete_conv)
    qed
    then have nf: "\<forall>g \<in> set fs. \<forall>e. map_of (co_flows ?co) g = Some e \<longrightarrow> task_finished (fe_task e)"
      using Cons.prems(2,3) by auto
    have "distinct fs" using Cons.prems(3) by simp
    from Cons.IH [OF inv nf this] obtain co' where "reap_ids iter fs ?co = Some co'" "co_inv co'"
      "co_flows co' = filter (\<lambda>(f, _). f \<notin> set fs) (co_flows ?co)"
      "co_shutting_down co' = co_shutting_down co" "co_next_flow_id co' = co_next_flow_id co"
      by (auto simp: retain_outcome_def)
    with Some m(1) fl show ?thesis
      by (auto simp: Let_def retain_outcome_def intro!: filter_cong)
  qed
qed

end
