(* ===== verification/Rea_Coord_Run.thy ===== *)
theory Rea_Coord_Run
  imports Rea_Coord_Inv
begin

text \<open>
  Whole runs of the reactor: every command and every step of a task keeps the coordinator's
  invariant, and what reaping frees and remembers.
\<close>

section \<open>New flows\<close>

lemma mgr_register_flow_inv: "mgr_inv m \<Longrightarrow> mgr_inv (mgr_register_flow m f)"
  by (simp add: mgr_register_flow_def mgr_ledger_irrelevant)

lemma spawn_flow_cases:
  assumes cap: "valid_topology (cfg_topology cfg) \<longrightarrow> capacities_ok cfg"
  obtains err where "spawn_flow_with_instances low_mark now wall cfg instances co = Some (Inl err, co)"
      "\<not> valid_topology (cfg_topology cfg) \<or> instances \<noteq> length (ft_stages (cfg_topology cfg))"
  | d where "valid_topology (cfg_topology cfg)" "instances = length (ft_stages (cfg_topology cfg))"
      "spawn_flow_with_instances low_mark now wall cfg instances co =
       Some (Inr (FlowId (co_next_flow_id co)), insert_flow (FlowId (co_next_flow_id co))
         \<lparr>fe_state = FlowInstantiated, fe_cancellation = cancellation_new, fe_task = TaskRunning d,
          fe_component_ids = map sd_component_id (ft_stages (cfg_topology cfg))\<rparr>
         (co\<lparr>co_next_flow_id := co_next_flow_id co + 1,
             co_resources := mgr_register_flow (co_resources co) (FlowId (co_next_flow_id co))\<rparr>))"
      "loop_inv d" "fd_cancellation d = cancellation_new" "fd_flow_id d = FlowId (co_next_flow_id co)"
      "fd_topology d = cfg_topology cfg" "state_changes (fd_log d) = [(FlowInstantiated, FlowRunning)]"
      "pull_count (fd_log d) = 0" "\<forall>s \<in> set (fd_streams d). stream_items s = []"
proof (cases rule: topology_validate_cases [of "cfg_topology cfg"])
  case (2 msg)
  then show thesis by (intro that(1) [of msg]) (simp_all add: spawn_flow_with_instances_def)
next
  case 1
  show thesis
  proof (cases "instances = length (ft_stages (cfg_topology cfg))")
    case False
    with 1 show thesis by (intro that(1)) (simp_all add: spawn_flow_with_instances_def)
  next
    case True
    let ?f = "FlowId (co_next_flow_id co)"
    obtain ss where ss: "build_streams low_mark ?f cfg 0 (ft_connections (cfg_topology cfg)) = Some ss"
      "length ss = length (ft_connections (cfg_topology cfg))" "\<forall>j < length ss. fresh_stream j (ss ! j)"
      by (rule config_streams [OF 1(2) cap [THEN mp, OF 1(2)]])
    obtain d where d: "start_task ?f cfg instances ss now wall = TaskRunning d" "loop_inv d"
      "fd_cancellation d = cancellation_new" "fd_flow_id d = ?f" "fd_topology d = cfg_topology cfg"
      "state_changes (fd_log d) = [(FlowInstantiated, FlowRunning)]" "fd_streams d = ss"
      "pull_count (fd_log d) = 0"
      by (rule start_task_ok [OF 1(2) cap [THEN mp, OF 1(2)] True ss(2,3)])
    have "\<forall>s \<in> set (fd_streams d). stream_items s = []"
      using ss(3) d(7) by (auto simp: fresh_stream_def in_set_conv_nth)
    with 1 True ss(1) d show thesis
      by (intro that(2) [of d]) (simp_all add: spawn_flow_with_instances_def take_flow_id_def Let_def)
  qed
qed

lemma create_flow_cases:
  assumes cap: "valid_topology (cfg_topology cfg) \<longrightarrow> capacities_ok cfg"
  obtains err where "create_flow low_mark cfg co = Some (Inl err, co)" "\<not> valid_topology (cfg_topology cfg)"
  | "valid_topology (cfg_topology cfg)"
      "create_flow low_mark cfg co =
       Some (Inr (FlowId (co_next_flow_id co)), insert_flow (FlowId (co_next_flow_id co))
         \<lparr>fe_state = FlowInstantiated, fe_cancellation = cancellation_new,
          fe_task = TaskDone FlowCompleted (completion_stats_new 0),
          fe_component_ids = map sd_component_id (ft_stages (cfg_topology cfg))\<rparr>
         (co\<lparr>co_next_flow_id := co_next_flow_id co + 1\<rparr>))"
proof (cases rule: topology_validate_cases [of "cfg_topology cfg"])
  case (2 msg)
  then show thesis by (intro that(1) [of msg]) (simp_all add: create_flow_def)
next
  case 1
  obtain ss where "build_streams low_mark (FlowId (co_next_flow_id co)) cfg 0 (ft_connections (cfg_topology cfg)) = Some ss"
    by (rule config_streams [OF 1(2) cap [THEN mp, OF 1(2)]])
  with 1 show thesis by (intro that(2)) (simp_all add: create_flow_def take_flow_id_def Let_def)
qed

lemma co_inv_frame:
  "co_inv (co\<lparr>co_next_flow_id := n, co_resources := m\<rparr>) \<longleftrightarrow> co_inv (co\<lparr>co_resources := m\<rparr>)"
  "co_inv (co\<lparr>co_next_flow_id := n\<rparr>) \<longleftrightarrow> co_inv co"
  "co_inv (co\<lparr>co_shutting_down := b\<rparr>) \<longleftrightarrow> co_inv co"
  by (simp_all add: co_inv_def)

lemma new_entry_inv:
  "loop_inv d \<Longrightarrow> fd_cancellation d = cancellation_new \<Longrightarrow> fd_flow_id d = f \<Longrightarrow>
   entry_inv f \<lparr>fe_state = FlowInstantiated, fe_cancellation = cancellation_new, fe_task = TaskRunning d,
     fe_component_ids = cs\<rparr>"
  "entry_inv f \<lparr>fe_state = FlowInstantiated, fe_cancellation = cancellation_new,
     fe_task = TaskDone FlowCompleted stats, fe_component_ids = cs\<rparr>"
  by (simp_all add: entry_inv_def cancellation_wf_def cancellation_new_def)

section \<open>Commands\<close>

text \<open>A command is acceptable when the configuration it carries gives every queue a usable capacity.\<close>

fun command_ok :: "reactor_command \<Rightarrow> bool" where
  "command_ok (CreateFlow cfg) \<longleftrightarrow> (valid_topology (cfg_topology cfg) \<longrightarrow> capacities_ok cfg)"
| "command_ok (SpawnFlow cfg _ _ _) \<longleftrightarrow> (valid_topology (cfg_topology cfg) \<longrightarrow> capacities_ok cfg)"
| "command_ok _ \<longleftrightarrow> True"

lemma spawn_flow_inv:
  assumes inv: "co_inv co" and cap: "valid_topology (cfg_topology cfg) \<longrightarrow> capacities_ok cfg"
  shows "\<exists>r co'. spawn_flow_with_instances low_mark now wall cfg instances co = Some (r, co') \<and> co_inv co'"
proof (cases rule: spawn_flow_cases [OF cap, of low_mark now wall instances co])
  case (1 err)
  with inv show ?thesis by simp
next
  case (2 d)
  have "co_inv (co\<lparr>co_next_flow_id := co_next_flow_id co + 1,
      co_resources := mgr_register_flow (co_resources co) (FlowId (co_next_flow_id co))\<rparr>)"
    using inv by (simp add: co_inv_def mgr_register_flow_inv)
  from insert_flow_inv [OF this new_entry_inv(1) [OF 2(4-6)]] 2(3) show ?thesis by simp
qed

lemma create_flow_inv:
  assumes inv: "co_inv co" and cap: "valid_topology (cfg_topology cfg) \<longrightarrow> capacities_ok cfg"
  shows "\<exists>r co'. create_flow low_mark cfg co = Some (r, co') \<and> co_inv co'"
proof (cases rule: create_flow_cases [OF cap, of low_mark co])
  case (1 err)
  with inv show ?thesis by simp
next
  case 2
  have "co_inv (co\<lparr>co_next_flow_id := co_next_flow_id co + 1\<rparr>)" using inv by (simp add: co_inv_frame)
  from insert_flow_inv [OF this new_entry_inv(2)] 2(2) show ?thesis by simp
qed

lemma co_cancel_flow_inv:
  assumes inv: "co_inv co"
  shows "co_inv (snd (co_cancel_flow f r co))"
proof (cases "map_of (co_flows co) f")
  case (Some e)
  then have "entry_inv f e" using inv by (auto simp: co_inv_def dest: map_of_SomeD)
  from insert_flow_inv [OF inv cancel_entry_inv [OF this]] Some show ?thesis by (simp add: co_cancel_flow_def)
qed (use inv in \<open>simp add: co_cancel_flow_def\<close>)

lemma reap_completed_ok:
  assumes inv: "co_inv co" and iter: "order_ok iter"
  obtains co' where "reap_completed_flows iter co = Some co'" "co_inv co'"
    "co_flows co' = filter (\<lambda>(_, e). \<not> task_finished (fe_task e)) (co_flows co)"
    "co_shutting_down co' = co_shutting_down co" "co_next_flow_id co' = co_next_flow_id co"
proof -
  let ?fs = "map fst (filter (\<lambda>(_, e). task_finished (fe_task e)) (co_flows co))"
  have dist: "distinct (map fst (co_flows co))" using inv by (simp add: co_inv_def)
  then have "distinct ?fs" by (simp add: distinct_map_filter)
  moreover have fin: "task_finished (fe_task e) \<longleftrightarrow> f \<in> set ?fs" if mem: "(f, e) \<in> set (co_flows co)" for f e
  proof
    show "f \<in> set ?fs" if "task_finished (fe_task e)" using mem that by force
    assume "f \<in> set ?fs"
    then obtain e' where e': "(f, e') \<in> set (co_flows co)" "task_finished (fe_task e')" by auto
    from eq_key_imp_eq_value [OF dist mem e'(1)] e'(2) show "task_finished (fe_task e)" by simp
  qed
  have "\<forall>f \<in> set ?fs. \<forall>e. map_of (co_flows co) f = Some e \<longrightarrow> task_finished (fe_task e)"
    using fin map_of_SomeD by metis
  ultimately obtain co' where co': "reap_ids iter ?fs co = Some co'" "co_inv co'"
    "co_flows co' = filter (\<lambda>(f, _). f \<notin> set ?fs) (co_flows co)"
    "co_shutting_down co' = co_shutting_down co" "co_next_flow_id co' = co_next_flow_id co"
    using reap_ids_ok [OF inv iter, of ?fs] by blast
  have "filter (\<lambda>(f, _). f \<notin> set ?fs) (co_flows co) = filter (\<lambda>(_, e). \<not> task_finished (fe_task e)) (co_flows co)"
    by (rule filter_cong [OF refl]) (use fin in force)
  with co' show thesis by (intro that [of co']) (simp_all add: reap_completed_flows_def)
qed

lemma fold_task_step_inv: "co_inv co \<Longrightarrow> co_inv (fold (task_step_co show_duration panic) steps co)"
  by (induction steps arbitrary: co) (simp_all add: task_step_inv)

lemma shutdown_rounds_inv:
  assumes "co_inv co" and iter: "order_ok iter"
  shows "\<exists>co'. shutdown_rounds show_duration panic iter rounds co = Some co' \<and> co_inv co'"
  using assms(1)
proof (induction rounds arbitrary: co)
  case (Cons steps rounds)
  obtain co1 where "reap_completed_flows iter co = Some co1" "co_inv co1"
    by (rule reap_completed_ok [OF Cons.prems iter])
  with Cons.IH [OF fold_task_step_inv] Cons.prems show ?case by simp
qed simp

lemma co_shutdown_inv:
  assumes "co_inv co" and iter: "order_ok iter"
  shows "\<exists>r co'. co_shutdown show_duration panic iter rounds co = Some (r, co') \<and> co_inv co'"
proof -
  let ?co = "co\<lparr>co_shutting_down := True,
    co_flows := map (\<lambda>(f, e). (f, cancel_entry OperatorRequest e)) (co_flows co)\<rparr>"
  have "co_inv ?co"
    using assms(1) by (auto simp: co_inv_def comp_def case_prod_unfold cancel_entry_inv)
  from shutdown_rounds_inv [OF this iter] show ?thesis by (auto simp: co_shutdown_def)
qed

lemma handle_command_inv:
  assumes inv: "co_inv co" and iter: "order_ok iter" and ok: "command_ok cmd"
  shows "\<exists>r co'. handle_command low_mark show_duration panic iter cmd co = Some (r, co') \<and> co_inv co'"
proof (cases cmd)
  case (CreateFlow cfg)
  with create_flow_inv [OF inv, of cfg low_mark] inv ok show ?thesis by auto
next
  case (CancelFlow f r)
  with co_cancel_flow_inv [OF inv, of f r] show ?thesis by (cases "co_cancel_flow f r co") simp
next
  case (Shutdown rounds)
  with co_shutdown_inv [OF inv iter, of show_duration panic rounds] show ?thesis by auto
next
  case (SpawnFlow cfg instances now wall)
  with spawn_flow_inv [OF inv, of cfg low_mark now wall instances] inv ok show ?thesis by auto
qed (use inv in simp_all)

lemma coordinator_round_inv:
  assumes inv: "co_inv co" and iter: "order_ok iter" and ok: "command_ok cmd"
  obtains r co' where "coordinator_round low_mark show_duration panic iter cmd co = Some (r, co')" "co_inv co'"
    "\<forall>(f, e) \<in> set (co_flows co'). \<not> task_finished (fe_task e)"
proof -
  obtain r co1 where h: "handle_command low_mark show_duration panic iter cmd co = Some (r, co1)" "co_inv co1"
    using handle_command_inv [OF assms] by blast
  obtain co' where "reap_completed_flows iter co1 = Some co'" "co_inv co'"
    "co_flows co' = filter (\<lambda>(_, e). \<not> task_finished (fe_task e)) (co_flows co1)"
    by (rule reap_completed_ok [OF h(2) iter])
  with h(1) show thesis by (intro that [of r co']) (auto simp: coordinator_round_def)
qed

section \<open>What reaping does\<close>

text \<open>The buffers that reaping a set of flows must free.\<close>

definition reaped_view :: "(flow_id \<times> flow_entry) list \<Rightarrow> flow_id list \<Rightarrow> resource_view \<Rightarrow> bool" where
  "reaped_view flows fs v \<longleftrightarrow>
     (\<exists>f \<in> set fs. \<exists>e. map_of flows f = Some e \<and>
        (v_flow v = f \<or> (\<exists>c \<in> set (fe_component_ids e). v_owner v = Component c)))"

lemma keep_views_twice: "keep_views P (keep_views Q v) = keep_views (\<lambda>x. Q x \<and> P x) v"
  by (auto simp: keep_views_def fun_eq_iff split: option.split)

lemma reap_ids_effect:
  assumes "co_inv co" and iter: "order_ok iter"
    and "\<forall>f \<in> set fs. \<forall>e. map_of (co_flows co) f = Some e \<longrightarrow> task_finished (fe_task e)" and "distinct fs"
    and "reap_ids iter fs co = Some co'"
  shows "m_view (co_resources co') = keep_views (\<lambda>v. \<not> reaped_view (co_flows co) fs v) (m_view (co_resources co))
    \<and> (length (co_outcomes co) + length fs \<le> max_retained_outcomes \<longrightarrow>
       (\<forall>g. map_of (co_outcomes co') g =
          (if g \<in> set fs then
             (case map_of (co_flows co) g of
                None \<Rightarrow> map_of (co_outcomes co) g
              | Some e \<Rightarrow> Some (task_outcome (fc_reason (fe_cancellation e)) (fe_task e)))
           else map_of (co_outcomes co) g)))"
  using assms(1,3,4,5)
proof (induction fs arbitrary: co)
  case Nil
  then show ?case by (auto simp: keep_views_def reaped_view_def fun_eq_iff simp del: m_view_None split: option.split)
next
  case (Cons f fs)
  show ?case
  proof (cases "map_of (co_flows co) f")
    case None
    then have "reaped_view (co_flows co) (f # fs) = reaped_view (co_flows co) fs"
      by (auto simp: reaped_view_def fun_eq_iff)
    with Cons.IH [OF Cons.prems(1)] Cons.prems None show ?thesis by auto
  next
    case (Some e)
    have e: "entry_inv f e" "task_finished (fe_task e)"
      using Cons.prems(1,2) Some by (auto simp: co_inv_def dest: map_of_SomeD)
    obtain m where m: "reclaim_flow_resources iter f (fe_component_ids e) (co_resources co) = Some m" "mgr_inv m"
      "m_view m = keep_views (\<lambda>v. (\<forall>c \<in> set (fe_component_ids e). v_owner v \<noteq> Component c) \<and> v_flow v \<noteq> f)
         (m_view (co_resources co))"
      by (rule reclaim_flow_resources_ok [OF _ iter, of "co_resources co" f "fe_component_ids e"])
        (use Cons.prems(1) in \<open>simp_all add: co_inv_def\<close>)
    let ?out = "task_outcome (fc_reason (fe_cancellation e)) (fe_task e)"
    let ?co = "(retain_outcome f ?out (co\<lparr>co_flows := AList.delete f (co_flows co)\<rparr>))\<lparr>co_resources := m\<rparr>"
    have inv: "co_inv ?co" by (rule delete_flow_inv [OF Cons.prems(1) m(2) task_outcome_ok [OF e]])
    have fl: "map_of (co_flows ?co) g = map_of (co_flows co) g" if "g \<in> set fs" for g
    proof -
      from that Cons.prems(3) have "g \<noteq> f" by auto
      then show ?thesis by (simp add: retain_outcome_def AList.delete_conv)
    qed
    then have nf: "\<forall>g \<in> set fs. \<forall>e. map_of (co_flows ?co) g = Some e \<longrightarrow> task_finished (fe_task e)"
      using Cons.prems(2) by auto
    have run: "reap_ids iter fs ?co = Some co'" and dist: "distinct fs"
      using Cons.prems(3,4) Some m(1) by (simp_all add: Let_def retain_outcome_def)
    have view: "reaped_view (co_flows ?co) fs = reaped_view (co_flows co) fs"
      using fl by (auto simp: reaped_view_def fun_eq_iff)
    note ih = Cons.IH [OF inv nf dist run, unfolded view]
    have "m_view (co_resources co') = keep_views (\<lambda>v. \<not> reaped_view (co_flows co) (f # fs) v) (m_view (co_resources co))"
      unfolding ih [THEN conjunct1] using Some m(3)
      by (simp add: keep_views_twice) (auto simp: keep_views_def reaped_view_def fun_eq_iff simp del: m_view_None split: option.split)
    moreover have "map_of (co_outcomes co') g =
        (if g \<in> set (f # fs) then
           (case map_of (co_flows co) g of
              None \<Rightarrow> map_of (co_outcomes co) g
            | Some e \<Rightarrow> Some (task_outcome (fc_reason (fe_cancellation e)) (fe_task e)))
         else map_of (co_outcomes co) g)"
      if bound: "length (co_outcomes co) + length (f # fs) \<le> max_retained_outcomes" for g
    proof -
      have len: "length (outcome_insert f ?out (co_outcomes co)) \<le> length (co_outcomes co) + 1"
        by (rule outcome_insert_length)
      then have oc: "co_outcomes ?co = outcome_insert f ?out (co_outcomes co)"
        using bound by (simp add: retain_outcome_def evict_outcomes_eq)
      then have ins: "map_of (co_outcomes ?co) = (map_of (co_outcomes co))(f \<mapsto> ?out)"
        using Cons.prems(1) by (simp add: outcome_insert_lookup co_inv_def)
      have "length (co_outcomes ?co) + length fs \<le> max_retained_outcomes"
        using oc len bound by simp
      note rec = ih [THEN conjunct2, THEN mp, OF this, rule_format, of g, unfolded ins]
      have "f \<notin> set fs" using Cons.prems(3) by simp
      with rec fl [of g] Some show ?thesis
        by (cases "g \<in> set fs") (auto split: option.splits)
    qed
    ultimately show ?thesis by blast
  qed
qed

section \<open>Histories\<close>

text \<open>A history of the reactor: acceptable commands and steps of the tasks, in any order.\<close>

inductive reactor_reach ::
    "low_mark \<Rightarrow> (duration \<Rightarrow> string) \<Rightarrow> string \<Rightarrow> set_order \<Rightarrow> coordinator \<Rightarrow> coordinator \<Rightarrow> bool"
  for low_mark show_duration panic iter co0 where
  start: "reactor_reach low_mark show_duration panic iter co0 co0"
| command: "reactor_reach low_mark show_duration panic iter co0 co \<Longrightarrow> command_ok cmd \<Longrightarrow>
    coordinator_round low_mark show_duration panic iter cmd co = Some (r, co') \<Longrightarrow>
    reactor_reach low_mark show_duration panic iter co0 co'"
| task: "reactor_reach low_mark show_duration panic iter co0 co \<Longrightarrow>
    reactor_reach low_mark show_duration panic iter co0 (task_step_co show_duration panic s co)"

lemma coordinator_new_inv: "mgr_inv m \<Longrightarrow> co_inv (coordinator_new m)"
  by (simp add: co_inv_def coordinator_new_def)

lemma reactor_reach_inv:
  assumes "reactor_reach low_mark show_duration panic iter co0 co" and "co_inv co0" and iter: "order_ok iter"
  shows "co_inv co"
  using assms(1)
proof induction
  case (command co cmd r co')
  obtain r1 co1 where "coordinator_round low_mark show_duration panic iter cmd co = Some (r1, co1)" "co_inv co1"
    by (rule coordinator_round_inv [OF command.IH iter command.hyps(2), of low_mark show_duration panic])
  with command.hyps(3) show ?case by simp
qed (simp_all add: assms(2) task_step_inv)

end
