(* ===== verification/Rea_Props.thy ===== *)
theory Rea_Props
  imports Rea_Driver_Turn
begin

text \<open>
  What the parts of the reactor guarantee on their own: topology validation and order, the ring
  buffer, the credits of a stream, the scheduler, backpressure and yielding.
\<close>

section \<open>Topologies\<close>

text \<open>
  C10. Validation is exact: it always answers, and it accepts a topology precisely when it has a
  source and a sink, every connection is in range, no source is fed and no sink feeds, the graph is
  acyclic and every stage is reachable from a source.
\<close>

theorem validation_exact:
  "\<exists>r. topology_validate t = Some r \<and> (r = Inr () \<longleftrightarrow>
     (let n = length (ft_stages t); E = set (edges t); sources = {i. i < n \<and> sd_role (ft_stages t ! i) = Source}
      in sources \<noteq> {} \<and> (\<exists>i < n. sd_role (ft_stages t ! i) = Sink) \<and> E \<subseteq> {..<n} \<times> {..<n} \<and>
         (\<nexists>u v. (u, v) \<in> E \<and> (sd_role (ft_stages t ! v) = Source \<or> sd_role (ft_stages t ! u) = Sink)) \<and>
         (\<nexists>v. (v, v) \<in> E\<^sup>+) \<and> (\<forall>v < n. \<exists>s \<in> sources. (s, v) \<in> E\<^sup>*)))"
proof -
  have snk: "(\<exists>s \<in> set (ft_stages t). sd_role s = Sink) \<longleftrightarrow>
      (\<exists>i < length (ft_stages t). sd_role (ft_stages t ! i) = Sink)"
    by (metis in_set_conv_nth)
  have "valid_topology t \<longleftrightarrow>
     (let n = length (ft_stages t); E = set (edges t); sources = {i. i < n \<and> sd_role (ft_stages t ! i) = Source}
      in sources \<noteq> {} \<and> (\<exists>i < n. sd_role (ft_stages t ! i) = Sink) \<and> E \<subseteq> {..<n} \<times> {..<n} \<and>
         (\<nexists>u v. (u, v) \<in> E \<and> (sd_role (ft_stages t ! v) = Source \<or> sd_role (ft_stages t ! u) = Sink)) \<and>
         (\<nexists>v. (v, v) \<in> E\<^sup>+) \<and> (\<forall>v < n. \<exists>s \<in> sources. (s, v) \<in> E\<^sup>*))"
    unfolding valid_topology_def Let_def sources_eq acyclic_def in_range_def snk
    by (intro conj_cong refl) auto
  with topology_validate_iff [of t] show ?thesis by simp
qed

definition demo_stage :: "nat \<Rightarrow> component_role \<Rightarrow> stage_definition" where
  "demo_stage i role =
     \<lparr>sd_component_id = ComponentId (of_nat i), sd_role = role, sd_fuel_budget = None, sd_config = ''''\<rparr>"

definition demo_connection :: "nat \<Rightarrow> nat \<Rightarrow> stream_connection" where
  "demo_connection u v =
     \<lparr>sn_from_stage = u, sn_to_stage = v,
      sn_config = \<lparr>sc_capacity = Some 2, sc_backpressure_policy = None, sc_low_watermark_ratio = None\<rparr>\<rparr>"

text \<open>A sink, the processor that feeds it, and the source, in this order.\<close>

definition demo_topology :: flow_topology where
  "demo_topology =
     \<lparr>ft_stages = [demo_stage 0 Sink, demo_stage 1 Processor, demo_stage 2 Source],
      ft_connections = [demo_connection 2 1, demo_connection 1 0]\<rparr>"

lemma demo_topology_valid: "valid_topology demo_topology"
proof -
  have "topology_validate demo_topology = Some (Inr ())" by code_simp
  with topology_validate_iff [of demo_topology] show ?thesis by simp
qed

theorem validation_exact_witness:
  "topology_validate demo_topology = Some (Inr ()) \<and> (\<nexists>v. (v, v) \<in> (set (edges demo_topology))\<^sup>+)"
proof -
  have "topology_validate demo_topology = Some (Inr ())" by code_simp
  with validation_exact [of demo_topology] show ?thesis by (simp add: Let_def)
qed

text \<open>
  The topological order of a valid topology lists every stage exactly once, and every
  connection leads forward in it.
\<close>

theorem topological_order_correct:
  assumes "valid_topology t"
  shows "\<exists>order. topological_order t = Some order \<and> distinct order \<and> set order = {..<length (ft_stages t)} \<and>
    (\<forall>i j. i < length order \<longrightarrow> j < length order \<longrightarrow> (order ! i, order ! j) \<in> set (edges t) \<longrightarrow> i < j)"
proof -
  obtain order where o: "topological_order t = Some order" "distinct order"
    "set order = {..<length (ft_stages t)}" "forward (edges t) order" by (rule valid_topology_order [OF assms])
  have "i < j" if ij: "i < length order" "j < length order" and e: "(order ! i, order ! j) \<in> set (edges t)" for i j
  proof -
    from o(4) ij(2) e have "order ! i \<in> set (take j order)" by (auto simp: forward_def)
    then obtain m where "m < j" "order ! m = order ! i" using ij(2) by (auto simp: in_set_conv_nth)
    with o(2) ij show ?thesis by (metis nth_eq_iff_index_eq order.strict_trans)
  qed
  with o show ?thesis by blast
qed

theorem topological_order_correct_witness:
  "topological_order demo_topology = Some [2, 1, 0] \<and> set [2, 1, 0] = {..<length (ft_stages demo_topology)}"
proof -
  have "topological_order demo_topology = Some [2, 1, 0]" by code_simp
  with topological_order_correct [OF demo_topology_valid] show ?thesis by auto
qed

section \<open>Queues and streams\<close>

text \<open>
  C11. The ring buffer is a bounded list: on a well-formed queue no operation panics, a push under
  each policy does what the policy says of the list of items, oldest first, a pop returns the
  oldest item, and the order of the items never changes.
\<close>

theorem ring_buffer_refines_list:
  assumes "queue_inv q"
  shows "(\<exists>r q'. queue_push_with_policy q x policy = Some (r, q') \<and> queue_inv q' \<and> q_capacity q' = q_capacity q \<and>
      (if length (queue_items q) < q_capacity q then r = PushOk \<and> queue_items q' = queue_items q @ [x]
       else if policy = DropOldest then r = DroppedOldest (hd (queue_items q)) \<and> queue_items q' = tl (queue_items q) @ [x]
       else r = (if policy = DropNewest then DroppedNewest x else PushFull x) \<and> queue_items q' = queue_items q)) \<and>
    (\<exists>q'. queue_pop q = Some (case queue_items q of [] \<Rightarrow> None | x # _ \<Rightarrow> Some x, q') \<and> queue_inv q' \<and>
      q_capacity q' = q_capacity q \<and> queue_items q' = tl (queue_items q)) \<and>
    queue_peek_front q = Some (case queue_items q of [] \<Rightarrow> None | x # _ \<Rightarrow> Some x) \<and>
    (\<exists>q'. queue_drain_all q = Some (queue_items q, q') \<and> queue_items q' = [])"
proof -
  obtain r q' where push: "queue_push_with_policy q x policy = Some (r, q')" "queue_inv q'"
    "q_capacity q' = q_capacity q" "push_spec (q_capacity q) (queue_items q) x policy = (r, queue_items q')"
    using ring.push_ok [OF assms, of x policy] by blast
  then have "if length (queue_items q) < q_capacity q then r = PushOk \<and> queue_items q' = queue_items q @ [x]
       else if policy = DropOldest then r = DroppedOldest (hd (queue_items q)) \<and> queue_items q' = tl (queue_items q) @ [x]
       else r = (if policy = DropNewest then DroppedNewest x else PushFull x) \<and> queue_items q' = queue_items q"
    by (cases policy) (auto split: if_splits)
  with push ring.pop_ok [OF assms] queue_peek_front_ok [OF assms] queue_drain_all_ok [OF assms] show ?thesis
    by blast
qed

definition demo_ring :: "nat bounded_queue" where
  "demo_ring = \<lparr>q_buf = [Some 2, Some 1], q_head = 1, q_len = 2, q_capacity = 2\<rparr>"

lemma demo_ring_inv: "queue_inv demo_ring" "queue_items demo_ring = [1, 2]" "q_capacity demo_ring = 2"
  by (auto simp: demo_ring_def queue_inv_def queue_slot_def queue_items_def less_Suc_eq numeral_2_eq_2)

theorem ring_buffer_refines_list_witness:
  "\<exists>q'. queue_push_with_policy demo_ring 3 DropOldest = Some (DroppedOldest 1, q') \<and> queue_items q' = [2, 3]"
  using ring_buffer_refines_list [OF demo_ring_inv(1), of 3 DropOldest] by (auto simp: demo_ring_inv)

text \<open>What the two ends of a stream do to it.\<close>

datatype stream_op = OpEmit stream_element_ref | OpTake

fun stream_run :: "stream_op list \<Rightarrow> stream_state \<Rightarrow> stream_state option" where
  "stream_run [] s = Some s"
| "stream_run (OpEmit x # ops) s = Option.bind (stream_emit s x) (\<lambda>(_, s). stream_run ops s)"
| "stream_run (OpTake # ops) s =
     (if consumer_has_input s then Option.bind (stream_take s) (\<lambda>(_, s). stream_run ops s)
      else stream_run ops s)"

lemma stream_run_inv:
  "stream_inv s \<Longrightarrow>
   \<exists>s'. stream_run ops s = Some s' \<and> stream_inv s' \<and> q_capacity (ss_queue s') = q_capacity (ss_queue s)"
proof (induction ops s rule: stream_run.induct)
  case (2 x ops s)
  obtain s1 where s1: "stream_emit s x = Some (if 0 < ss_demand s then PushOk else PushFull x, s1)" "stream_inv s1"
    "q_capacity (ss_queue s1) = q_capacity (ss_queue s)" by (rule stream_emit_ok [OF "2.prems"])
  with "2.IH" show ?case by fastforce
next
  case (3 ops s)
  show ?case
  proof (cases "consumer_has_input s")
    case True
    obtain s1 where s1: "stream_take s = Some (hd (stream_items s), s1)" "stream_inv s1"
      "q_capacity (ss_queue s1) = q_capacity (ss_queue s)" by (rule stream_take_ok [OF "3.prems" True])
    with "3.IH"(1) [OF True] True show ?thesis by fastforce
  next
    case False
    with "3.IH"(2) [OF False "3.prems"] show ?thesis by simp
  qed
qed simp

text \<open>
  C12. Credits are conserved: whatever is emitted to and taken from a new stream, in any order, the
  credits its producer holds and the elements it stores add up to its capacity; so the producer
  holds a credit exactly when there is room, and neither counter ever wraps.
\<close>

theorem credits_conserved:
  assumes "stream_new i f p c capacity policy low = Some s" and "capacity < 2 ^ 63"
  shows "\<exists>s'. stream_run ops s = Some s' \<and> unat (ss_demand s') + length (stream_items s') = capacity \<and>
    (0 < ss_demand s' \<longleftrightarrow> \<not> queue_is_full (ss_queue s'))"
proof -
  have "capacity < 9223372036854775808" using assms(2) by simp
  note new = stream_new_inv [OF assms(1) this]
  have "q_capacity (ss_queue s) = capacity"
    using assms(1) by (auto simp: stream_new_def queue_new_inv)
  with stream_run_inv [OF new(1), of ops] obtain s' where
    "stream_run ops s = Some s'" "stream_inv s'" "q_capacity (ss_queue s') = capacity" by auto
  then show ?thesis
    using producer_can_produce_room [of s'] by (auto simp: stream_inv_def stream_items_length)
qed

definition demo_element :: stream_element_ref where
  "demo_element =
     \<lparr>se_sequence = 0, se_origin_sequence = 0, se_buffer_handle = BufferHandle (ResourceId 0 1),
      se_meta = \<lparr>em_sequence = 0, em_timestamp_ns = 0, em_content_type = ''''\<rparr>, se_enqueued_at = 0\<rparr>"

theorem credits_conserved_witness:
  "\<exists>s s'. stream_new (StreamId 0) (FlowId 1) (ComponentId 1) (ComponentId 2) 2 DropNewest 1 = Some s \<and>
     stream_run [OpEmit demo_element, OpEmit demo_element, OpEmit demo_element, OpTake] s = Some s' \<and>
     unat (ss_demand s') + length (stream_items s') = 2"
proof -
  obtain s where s: "stream_new (StreamId 0) (FlowId 1) (ComponentId 1) (ComponentId 2) 2 DropNewest 1 = Some s"
    by (simp add: stream_new_def queue_new_def)
  from credits_conserved [OF s, of "[OpEmit demo_element, OpEmit demo_element, OpEmit demo_element, OpTake]"] s
  show ?thesis by auto
qed

text \<open>
  C13. Backpressure has hysteresis: a stream starts to hold its producer back only when it is full
  and lets go only when it has fallen to its low watermark; in between it stays as it was. The
  producer is told exactly when the state changes, and no element is touched.
\<close>

theorem backpressure_hysteresis:
  assumes "stream_inv s"
  shows "case check_backpressure t s of (s', signal) \<Rightarrow>
    bp_is_active (ss_backpressure s') =
      (if bp_is_active (ss_backpressure s) then ss_low_watermark_depth s < length (stream_items s)
       else length (stream_items s) = q_capacity (ss_queue s)) \<and>
    map_option fst signal =
      (if bp_is_active (ss_backpressure s') = bp_is_active (ss_backpressure s) then None
       else Some (if bp_is_active (ss_backpressure s') then Pause else Ready)) \<and>
    stream_items s' = stream_items s \<and> stream_inv s'"
proof -
  have len: "q_len (ss_queue s) \<le> q_capacity (ss_queue s)" using assms by (simp add: stream_inv_def queue_inv_def)
  show ?thesis
  proof (cases rule: check_backpressure_cases [of s t])
    case on
    with assms len show ?thesis by (simp add: stream_items_length) (simp add: stream_inv_def stream_items_def)
  next
    case (off since)
    with assms show ?thesis by (simp add: stream_items_length) (simp add: stream_inv_def stream_items_def)
  next
    case same
    with assms len show ?thesis by (cases "ss_backpressure s") (auto simp: stream_items_length)
  qed
qed

definition demo_output :: output_element where
  "demo_output = \<lparr>oe_meta = \<lparr>em_sequence = 0, em_timestamp_ns = 0, em_content_type = ''''\<rparr>,
      oe_payload = BufferHandle (ResourceId 0 1)\<rparr>"

definition demo_turn :: turn where
  "demo_turn =
     \<lparr>tn_cancels = [], tn_start = 1, tn_now = 2, tn_end = 3, tn_after = 4, tn_wall = 5,
      tn_pull = ReplyOk (Some demo_output), tn_process = ReplyOk (Output demo_output),
      tn_push = ReplyOk Ready, tn_idle = IdleTick\<rparr>"

theorem backpressure_hysteresis_witness:
  "\<exists>s s1 s2 ev. stream_new (StreamId 0) (FlowId 1) (ComponentId 1) (ComponentId 2) 2 DropNewest 1 = Some s \<and>
     stream_run [OpEmit demo_element, OpEmit demo_element] s = Some s1 \<and>
     check_backpressure demo_turn s1 = (s2, Some (Pause, ev)) \<and> length (stream_items s2) = 2"
proof -
  obtain s where s: "stream_new (StreamId 0) (FlowId 1) (ComponentId 1) (ComponentId 2) 2 DropNewest 1 = Some s"
    by (simp add: stream_new_def queue_new_def)
  let ?ops = "[OpEmit demo_element, OpEmit demo_element]"
  obtain s1 where s1: "stream_run ?ops s = Some s1" "stream_inv s1"
    using stream_run_inv [OF stream_new_inv(1) [OF s], of ?ops] by auto
  have full: "length (stream_items s1) = 2" "q_capacity (ss_queue s1) = 2" "\<not> bp_is_active (ss_backpressure s1)"
    using s s1(1)
    by (auto simp: stream_new_def queue_new_def stream_emit_def consume_demand_def queue_push_def queue_insert_def
        queue_tail_def buf_set_def stream_items_length numeral_2_eq_2)
  obtain s2 sig where c: "check_backpressure demo_turn s1 = (s2, sig)" by fastforce
  from backpressure_hysteresis [OF s1(2), of demo_turn] c full
  have "bp_is_active (ss_backpressure s2)" "map_option fst sig = Some Pause" "stream_items s2 = stream_items s1"
    by simp_all
  with s s1(1) c full(1) show ?thesis by fastforce
qed

section \<open>Scheduling\<close>

lemma downstream_later:
  assumes fwd: "forward (edges t) order" and dist: "distinct order" and split: "order = as @ i # bs"
    and range: "\<forall>(u, v) \<in> set (edges t). v \<in> set order" and path: "(i, v) \<in> (set (edges t))\<^sup>+"
  shows "v \<in> set bs"
proof -
  have step: "w \<in> set bs" if e: "(u, w) \<in> set (edges t)" and u: "u = i \<or> u \<in> set bs" for u w
  proof -
    from range e have "w \<in> set order" by blast
    then obtain m where m: "m < length order" "order ! m = w" by (auto simp: in_set_conv_nth)
    from fwd m e have before: "u \<in> set (take m order)" by (auto simp: forward_def)
    show ?thesis
    proof (rule ccontr)
      assume "w \<notin> set bs"
      then have "m \<le> length as" using m split by (auto simp: nth_append nth_Cons' split: if_splits)
      then have "u \<in> set as" using before split by (auto dest: in_set_takeD)
      with u dist split show False by auto
    qed
  qed
  from path show ?thesis by (induction rule: trancl_induct) (use step in blast)+
qed

text \<open>
  The scheduler prefers consumers: it picks a stage that can run now, and none downstream of it
  can; it reports that there is nothing to do only when no stage can run. It never panics on a valid
  topology.
\<close>

theorem scheduler_consumer_first:
  assumes valid: "valid_topology t" and len: "length streams = length (ft_connections t)"
  shows "\<exists>ix r. stream_index_build t = Some ix \<and> next_ready_stage t streams ix = Some r \<and>
    (case r of
       None \<Rightarrow> \<forall>i < length (ft_stages t). \<not> stage_is_ready t streams i
     | Some ex \<Rightarrow> \<exists>i < length (ft_stages t). ex = stage_exec t streams i \<and> stage_is_ready t streams i \<and>
         (\<forall>v. (i, v) \<in> (set (edges t))\<^sup>+ \<longrightarrow> \<not> stage_is_ready t streams v))"
proof -
  obtain order where o: "topological_order t = Some order" "distinct order"
    "set order = {..<length (ft_stages t)}" "forward (edges t) order" by (rule valid_topology_order [OF valid])
  have range: "in_range (length (ft_stages t)) (edges t)" using valid by (simp add: valid_topology_def Let_def)
  have eq: "next_ready_stage t streams (index_of t) =
    Some (map_option (stage_exec t streams) (find (stage_is_ready t streams) (rev order)))"
    using o by (intro next_ready_stage_eq [OF len]) simp_all
  show ?thesis
  proof (cases "find (stage_is_ready t streams) (rev order)")
    case None
    then have "\<forall>i < length (ft_stages t). \<not> stage_is_ready t streams i" using o(3) by (auto simp: find_None_iff)
    with None eq stream_index_build_eq [OF range] show ?thesis by simp
  next
    case (Some i)
    then obtain m where m: "m < length order" "stage_is_ready t streams (rev order ! m)" "i = rev order ! m"
      "\<forall>j < m. \<not> stage_is_ready t streams (rev order ! j)" by (auto simp: find_Some_iff)
    let ?bs = "rev (take m (rev order))" and ?as = "rev (drop (Suc m) (rev order))"
    have "rev order = take m (rev order) @ i # drop (Suc m) (rev order)"
      using m(1,3) by (simp add: id_take_nth_drop)
    then have split: "order = ?as @ i # ?bs" by (metis append.assoc append_Cons append_Nil rev.simps(2) rev_append rev_rev_ident)
    have "\<forall>(u, v) \<in> set (edges t). v \<in> set order" using range o(3) by (auto simp: in_range_def)
    from downstream_later [OF o(4,2) split this] have "v \<in> set (take m (rev order))" if "(i, v) \<in> (set (edges t))\<^sup>+" for v
      using that by simp
    then have "\<forall>v. (i, v) \<in> (set (edges t))\<^sup>+ \<longrightarrow> \<not> stage_is_ready t streams v"
      using m(1,4) by (fastforce simp: in_set_conv_nth)
    moreover have "i < length (ft_stages t)" using split o(3) by (metis in_set_conv_decomp lessThan_iff)
    ultimately show ?thesis using Some eq m(2,3) stream_index_build_eq [OF range] by auto
  qed
qed

definition demo_stream :: "nat \<Rightarrow> stream_state" where
  "demo_stream k =
     the (stream_new (StreamId (of_nat k)) (FlowId 1) (ComponentId 1) (ComponentId 2) 2 DropNewest 1)"

theorem scheduler_consumer_first_witness:
  "\<exists>ix. stream_index_build demo_topology = Some ix \<and>
     next_ready_stage demo_topology [demo_stream 0, demo_stream 1] ix =
       Some (Some \<lparr>sx_component_id = ComponentId 2, sx_stage_index = 2, sx_action = PullFromSource\<rparr>)"
proof -
  let ?ss = "[demo_stream 0, demo_stream 1]"
  have "length ?ss = length (ft_connections demo_topology)" by (simp add: demo_topology_def)
  from scheduler_consumer_first [OF demo_topology_valid this] obtain ix r where
    r: "stream_index_build demo_topology = Some ix" "next_ready_stage demo_topology ?ss ix = Some r" by blast
  moreover have "Option.bind (stream_index_build demo_topology) (next_ready_stage demo_topology ?ss) =
      Some (Some \<lparr>sx_component_id = ComponentId 2, sx_stage_index = 2, sx_action = PullFromSource\<rparr>)"
    by code_simp
  ultimately show ?thesis by simp
qed

section \<open>Yielding\<close>

text \<open>Whether the driver yields after each of a sequence of stage executions.\<close>

fun yield_flags :: "turn list \<Rightarrow> flow_driver \<Rightarrow> bool list" where
  "yield_flags [] d = []"
| "yield_flags (t # ts) d = (length (fd_log d) < length (fd_log (yield_check t d))) # yield_flags ts (yield_check t d)"

lemma yield_check_round:
  "fd_yield_ctrl (yield_check t d) = snd (yield_round (fd_yield_ctrl d) (tn_after t))"
  "length (fd_log d) < length (fd_log (yield_check t d)) \<longleftrightarrow> fst (yield_round (fd_yield_ctrl d) (tn_after t))"
  by (simp_all add: yield_check_def yield_round_def log_event_def Let_def)

lemma yield_flags_bound:
  "yield_wf (fd_yield_ctrl d) \<Longrightarrow>
   length (takeWhile Not (yield_flags ts d)) <
     unat (yc_elements_per_yield (fd_yield_ctrl d)) - unat (yc_elements_since_yield (fd_yield_ctrl d))"
proof (induction ts arbitrary: d)
  case Nil
  then show ?case by (simp add: yield_wf_def word_less_nat_alt)
next
  case (Cons t ts)
  let ?y = "fd_yield_ctrl d"
  show ?case
  proof (cases "fst (yield_round ?y (tn_after t))")
    case True
    with Cons.prems show ?thesis by (simp add: yield_check_round yield_wf_def word_less_nat_alt)
  next
    case False
    have wf: "yield_wf (fd_yield_ctrl (yield_check t d))"
      using yield_round_wf [OF Cons.prems] by (simp add: yield_check_round)
    have y: "fd_yield_ctrl (yield_check t d) = yield_record_element ?y"
      using False by (auto simp: yield_check_round yield_round_def Let_def split: if_splits)
    have lt: "yc_elements_since_yield ?y < yc_elements_per_yield ?y" using Cons.prems by (simp add: yield_wf_def)
    have "unat (yc_elements_since_yield ?y + 1) = unat (yc_elements_since_yield ?y) + 1"
    proof -
      have "unat (yc_elements_per_yield ?y) < 18446744073709551616"
        using unsigned_less [of "yc_elements_per_yield ?y", where 'a = nat] by simp
      then have "unat (yc_elements_since_yield ?y) + 1 < 18446744073709551616"
        using lt unfolding word_less_nat_alt by linarith
      then show ?thesis by (simp add: unat_word_ariths)
    qed
    with Cons.IH [OF wf] False lt show ?thesis
      unfolding y by (simp add: yield_check_round yield_record_element_def word_less_nat_alt)
  qed
qed

lemma yield_flags_wf: "yield_wf (fd_yield_ctrl d) \<Longrightarrow> \<exists>d'. drop k (yield_flags ts d) = yield_flags (drop k ts) d' \<and>
   yield_wf (fd_yield_ctrl d') \<and> yc_elements_per_yield (fd_yield_ctrl d') = yc_elements_per_yield (fd_yield_ctrl d)"
proof (induction ts arbitrary: d k)
  case (Cons t ts)
  show ?case
  proof (cases k)
    case (Suc k')
    have "yield_wf (fd_yield_ctrl (yield_check t d))"
      using yield_round_wf [OF Cons.prems] by (simp add: yield_check_round)
    from Cons.IH [OF this, of k'] Suc show ?thesis
      by (auto simp: yield_check_def yield_reset_def yield_record_element_def log_event_def Let_def split: if_splits)
  qed (use Cons.prems in auto)
qed auto

text \<open>
  No flow hogs its worker: among any consecutive stage executions of a flow without a yield
  there are fewer than the number its priority allows, and never 256.
\<close>

theorem yields_regularly:
  assumes "driver_new f cfg instances streams c now = Some d"
  shows "length (takeWhile Not (drop k (yield_flags ts d))) < unat (priority_elements_per_yield (cfg_priority cfg)) \<and>
    unat (priority_elements_per_yield (cfg_priority cfg)) < 256"
proof -
  have y: "fd_yield_ctrl d = yield_new now (priority_elements_per_yield (cfg_priority cfg))
      (ycfg_time_quantum (cfg_yield_config cfg))"
    using assms by (auto simp: driver_new_def)
  then have "yield_wf (fd_yield_ctrl d)" by (simp add: yield_new_wf priority_pos)
  from yield_flags_wf [OF this] obtain d' where d': "drop k (yield_flags ts d) = yield_flags (drop k ts) d'"
    "yield_wf (fd_yield_ctrl d')" "yc_elements_per_yield (fd_yield_ctrl d') = yc_elements_per_yield (fd_yield_ctrl d)"
    by blast
  have "yc_elements_per_yield (fd_yield_ctrl d) = priority_elements_per_yield (cfg_priority cfg)"
    by (cases "cfg_priority cfg") (simp_all add: y yield_new_def max_consecutive_elements_before_yield_def)
  with yield_flags_bound [OF d'(2), of "drop k ts"] d' show ?thesis
    by (cases "cfg_priority cfg") simp_all
qed

definition demo_flow_config :: flow_config where
  "demo_flow_config =
     \<lparr>cfg_topology = demo_topology, cfg_priority = Background, cfg_timeouts = timeout_config_default,
      cfg_default_backpressure_policy = DropNewest, cfg_default_queue_capacity = 2,
      cfg_default_low_watermark_ratio = 0, cfg_yield_config = yield_config_default,
      cfg_error_policy = error_policy_default\<rparr>"

theorem yields_regularly_witness:
  "\<exists>d. driver_new (FlowId 1) demo_flow_config 3 [demo_stream 0, demo_stream 1] cancellation_new 0 = Some d \<and>
     length (takeWhile Not (drop 3 (yield_flags (replicate 20 demo_turn) d))) < 8"
proof -
  have "in_range (length (ft_stages demo_topology)) (edges demo_topology)"
    using demo_topology_valid by (simp add: valid_topology_def Let_def)
  then obtain d where d: "driver_new (FlowId 1) demo_flow_config 3 [demo_stream 0, demo_stream 1] cancellation_new 0 = Some d"
    by (simp add: driver_new_def demo_flow_config_def stream_index_build_eq)
  from yields_regularly [OF d, of 3 "replicate 20 demo_turn"] d show ?thesis by (auto simp: demo_flow_config_def)
qed

end
