(* ===== verification/Rea_Run_Props.thy ===== *)
theory Rea_Run_Props
  imports Rea_Coord_Run Rea_Props
begin

text \<open>
  What the driver of a flow and the coordinator guarantee: executions act on the network of
  channels as specified, no turn panics, an idle flow is empty, runs make progress, end in an
  agreed state and drain, and the reactor as a whole stays consistent and gives everything back.
\<close>

section \<open>A running flow\<close>

definition demo_driver :: flow_driver where
  "demo_driver = driver_start 0 0
     (the (driver_new (FlowId 1) demo_flow_config 3 [demo_stream 0, demo_stream 1] cancellation_new 0))"

lemma demo_capacities: "capacities_ok demo_flow_config"
  by (auto simp: capacities_ok_def demo_flow_config_def demo_topology_def demo_connection_def config_capacity_def opt_or_def)

lemma demo_fresh: "fresh_stream k (demo_stream k)"
proof -
  obtain s where s: "stream_new (StreamId (of_nat k)) (FlowId 1) (ComponentId 1) (ComponentId 2) 2 DropNewest 1 = Some s"
    by (simp add: stream_new_def queue_new_def)
  have eq: "demo_stream k = s" using s by (simp add: demo_stream_def)
  have "ss_backpressure s = BpNormal" "\<not> ss_producer_complete s" using s by (auto simp: stream_new_def)
  with stream_new_inv [OF s] show ?thesis by (simp add: fresh_stream_def eq)
qed

lemma demo_driver_loop:
  "loop_inv demo_driver" "fd_topology demo_driver = demo_topology" "fd_state demo_driver = FlowRunning"
  "fd_streams demo_driver = [demo_stream 0, demo_stream 1]" "fd_cancellation demo_driver = cancellation_new"
  "pull_count (fd_log demo_driver) = 0"
proof -
  let ?ss = "[demo_stream 0, demo_stream 1]"
  have fresh: "\<forall>j < length ?ss. fresh_stream j (?ss ! j)"
    using demo_fresh [of 0] demo_fresh [of 1] by (simp add: less_Suc_eq numeral_2_eq_2)
  have len: "length ?ss = length (ft_connections (cfg_topology demo_flow_config))"
    by (simp add: demo_flow_config_def demo_topology_def)
  have valid: "valid_topology (cfg_topology demo_flow_config)" using demo_topology_valid by (simp add: demo_flow_config_def)
  obtain d where d: "start_task (FlowId 1) demo_flow_config 3 ?ss 0 0 = TaskRunning d" "loop_inv d"
    "fd_cancellation d = cancellation_new" "fd_topology d = cfg_topology demo_flow_config" "fd_streams d = ?ss"
    "pull_count (fd_log d) = 0" "fd_state d = FlowRunning"
    by (rule start_task_ok [OF valid demo_capacities _ len fresh, where instances = 3])
      (simp_all add: demo_flow_config_def demo_topology_def)
  then have "d = demo_driver" by (auto simp: start_task_def demo_driver_def split: option.splits)
  with d show "loop_inv demo_driver" "fd_topology demo_driver = demo_topology" "fd_state demo_driver = FlowRunning"
    "fd_streams demo_driver = ?ss" "fd_cancellation demo_driver = cancellation_new" "pull_count (fd_log demo_driver) = 0"
    by (simp_all add: demo_flow_config_def)
qed

text \<open>
  C14. Executing a stage refines the network of channels: a stage that the scheduler chose runs
  without a panic, makes exactly one call, for the element at the head of its input, and changes the
  contents of the channels as the specification \<open>net_exec\<close> says, and nothing else of them.
\<close>

theorem stage_execution_refines_network:
  assumes "driver_inv d" and "i < length (ft_stages (fd_topology d))"
    and "stage_is_ready (fd_topology d) (fd_streams d) i"
  shows "\<exists>reply d'. execute_stage t (stage_exec (fd_topology d) (fd_streams d) i) d = Some (reply, d') \<and>
    driver_inv d' \<and>
    abs_net (fd_streams d') = net_exec (fd_topology d) (caps (fd_streams d)) t (fd_next_global_sequence d) i
      (chosen_input (fd_topology d) (fd_streams d) i) (abs_net (fd_streams d)) \<and>
    calls (fd_log d') = calls (fd_log d) @
      [stage_call (fd_topology d) i (chosen_input (fd_topology d) (fd_streams d) i) (abs_net (fd_streams d))]"
proof -
  obtain d' where "execute_stage t (stage_exec (fd_topology d) (fd_streams d) i) d = Some (stage_reply (fd_topology d) t d i, d')"
    "op_result d d' (net_exec (fd_topology d) (caps (fd_streams d)) t (fd_next_global_sequence d) i
      (chosen_input (fd_topology d) (fd_streams d) i) (abs_net (fd_streams d)))"
    "calls (fd_log d') = calls (fd_log d) @
      [stage_call (fd_topology d) i (chosen_input (fd_topology d) (fd_streams d) i) (abs_net (fd_streams d))]"
    by (rule execute_stage_ok [OF assms])
  then show ?thesis by (auto simp: op_result_def)
qed

lemma demo_driver_ready:
  "driver_inv demo_driver" "2 < length (ft_stages (fd_topology demo_driver))"
  "stage_is_ready (fd_topology demo_driver) (fd_streams demo_driver) 2"
proof -
  show "driver_inv demo_driver" using demo_driver_loop(1) by (simp add: loop_inv_def)
  show "2 < length (ft_stages (fd_topology demo_driver))" by (simp add: demo_driver_loop demo_topology_def)
  have "stage_is_ready demo_topology [demo_stream 0, demo_stream 1] 2" by code_simp
  then show "stage_is_ready (fd_topology demo_driver) (fd_streams demo_driver) 2" by (simp add: demo_driver_loop)
qed

theorem stage_execution_refines_network_witness:
  "\<exists>reply d'. execute_stage demo_turn (stage_exec demo_topology (fd_streams demo_driver) 2) demo_driver = Some (reply, d') \<and>
     driver_inv d' \<and> last (calls (fd_log d')) = CalledPull (ComponentId 2)"
  using stage_execution_refines_network [OF demo_driver_ready, of demo_turn]
  by (auto simp: demo_driver_loop stage_call_def demo_topology_def demo_stage_def)

lemma channel_ends_differ:
  assumes "valid_topology T" and "j \<in> set (ins_of T i)" and "k \<in> set (outs_of T i)"
  shows "j \<noteq> k"
proof
  assume "j = k"
  with assms(2,3) have "(i, i) \<in> set (edges T)"
    using chan_edge [of k T] by (auto simp: ins_of_edge outs_of_edge)
  with assms(1) show False by (auto simp: valid_topology_def Let_def acyclic_def)
qed

text \<open>
  C15. A processor neither loses, duplicates nor reorders: when it runs and returns an output, the
  oldest element of its input leaves the input, and its first output stream gains one element behind
  those it holds, with the payload returned, the next sequence number of the flow and the origin
  and the timestamp of the element it came from.
\<close>

theorem processor_lossless:
  assumes inv: "driver_inv d" and i: "i < length (ft_stages (fd_topology d))"
    and role: "sd_role (ft_stages (fd_topology d) ! i) = Processor"
    and ready: "stage_is_ready (fd_topology d) (fd_streams d) i"
    and reply: "tn_process t = ReplyOk (Output out)" and outs: "outs_of (fd_topology d) i = k # ks"
  defines "j \<equiv> chosen_input (fd_topology d) (fd_streams d) i"
  shows "\<exists>d' x y. execute_stage t (stage_exec (fd_topology d) (fd_streams d) i) d = Some (Inr (), d') \<and>
    stream_items (fd_streams d ! j) = x # stream_items (fd_streams d' ! j) \<and>
    stream_items (fd_streams d' ! k) = stream_items (fd_streams d ! k) @ [y] \<and>
    se_buffer_handle y = oe_payload out \<and> se_sequence y = fd_next_global_sequence d \<and>
    se_origin_sequence y = se_origin_sequence x \<and> em_timestamp_ns (se_meta y) = em_timestamp_ns (se_meta x)"
proof -
  let ?T = "fd_topology d" and ?n = "abs_net (fd_streams d)"
  obtain d' where d': "execute_stage t (stage_exec ?T (fd_streams d) i) d = Some (stage_reply ?T t d i, d')"
    "op_result d d' (net_exec ?T (caps (fd_streams d)) t (fd_next_global_sequence d) i j ?n)"
    unfolding j_def by (rule execute_stage_ok [OF inv i ready])
  have valid: "valid_topology ?T" and len: "length (fd_streams d) = length (ft_connections ?T)"
    and ok: "streams_ok (fd_streams d)" using inv by (simp_all add: driver_inv_def)
  have input: "has_input_at ?T (fd_streams d) i" and room: "\<forall>k \<in> set (outs_of ?T i). producer_can_produce (fd_streams d ! k)"
    using ready role by (simp_all add: stage_is_ready_def)
  note j = chosen_input_ok [OF input, folded j_def]
  have jk: "j < length (fd_streams d)" "k < length (fd_streams d)" "j \<noteq> k"
    using j(1) outs len ins_of_less [of j ?T i] outs_of_less [of k ?T i] channel_ends_differ [OF valid j(1), of k]
    by auto
  have inv_k: "stream_inv (fd_streams d ! k)" using streams_ok_nth [OF ok jk(2)] by simp
  have "producer_can_produce (fd_streams d ! k)" using room outs by simp
  then have cap: "length (stream_items (fd_streams d ! k)) < q_capacity (ss_queue (fd_streams d ! k))"
    using stream_room [OF inv_k] producer_can_produce_demand by blast
  have ne: "stream_items (fd_streams d ! j) \<noteq> []"
    using j(2) by (simp add: consumer_has_input_def queue_is_empty_def stream_items_def queue_items_Nil)
  let ?x = "hd (stream_items (fd_streams d ! j))"
  let ?y = "mk_elem t (fd_next_global_sequence d) (se_origin_sequence ?x) (em_timestamp_ns (se_meta ?x)) out"
  have len': "length (fd_streams d') = length (fd_streams d)"
    using d'(2) same_shape_length by (auto simp: op_result_def)
  have "nt_queues (abs_net (fd_streams d')) =
      (map stream_items (fd_streams d))[j := tl (stream_items (fd_streams d ! j)), k := stream_items (fd_streams d ! k) @ [?y]]"
    using d'(2) role reply outs jk cap
    by (simp add: op_result_def net_exec_def net_process_def net_offer_def net_take_def Let_def)
      (simp add: abs_net_def)
  then have q: "map stream_items (fd_streams d') =
      (map stream_items (fd_streams d))[j := tl (stream_items (fd_streams d ! j)), k := stream_items (fd_streams d ! k) @ [?y]]"
    by (simp add: abs_net_def)
  have "map stream_items (fd_streams d') ! j = tl (stream_items (fd_streams d ! j))"
    "map stream_items (fd_streams d') ! k = stream_items (fd_streams d ! k) @ [?y]"
    using jk unfolding q by simp_all
  moreover have "stage_reply ?T t d i = Inr ()" using role reply by (simp add: stage_reply_def)
  ultimately show ?thesis
    using d'(1) jk len' ne by (intro exI [of _ d'] exI [of _ ?x] exI [of _ ?y]) (simp add: mk_elem_def)
qed

definition demo_loaded :: flow_driver where
  "demo_loaded = demo_driver\<lparr>fd_streams := [snd (the (stream_emit (demo_stream 0) demo_element)), demo_stream 1]\<rparr>"

lemma demo_loaded_ready:
  "driver_inv demo_loaded" "1 < length (ft_stages (fd_topology demo_loaded))"
  "sd_role (ft_stages (fd_topology demo_loaded) ! 1) = Processor" "outs_of (fd_topology demo_loaded) 1 = [1]"
  "stage_is_ready (fd_topology demo_loaded) (fd_streams demo_loaded) 1"
proof -
  note f0 = demo_fresh [of 0] note f1 = demo_fresh [of 1]
  obtain r s where s: "stream_emit (demo_stream 0) demo_element = Some (r, s)" "stream_inv s"
    "s = (demo_stream 0)\<lparr>ss_queue := ss_queue s, ss_demand := ss_demand s\<rparr>"
    using stream_emit_ok [of "demo_stream 0" demo_element] f0 by (metis fresh_stream_def)
  have id: "ss_id s = StreamId 0" using f0 by (subst s(3)) (simp add: fresh_stream_def)
  have "streams_ok [s, demo_stream 1]"
    using s(2) id f1 by (auto simp: streams_ok_def fresh_stream_def less_Suc_eq)
  with demo_driver_ready(1) show "driver_inv demo_loaded"
    by (simp add: driver_inv_def demo_loaded_def s(1) demo_driver_loop)
  show "1 < length (ft_stages (fd_topology demo_loaded))" "sd_role (ft_stages (fd_topology demo_loaded) ! 1) = Processor"
    by (simp_all add: demo_loaded_def demo_driver_loop demo_topology_def demo_stage_def)
  have "outs_of demo_topology 1 = [1]" by code_simp
  then show "outs_of (fd_topology demo_loaded) 1 = [1]" by (simp add: demo_loaded_def demo_driver_loop)
  have "stage_is_ready demo_topology [snd (the (stream_emit (demo_stream 0) demo_element)), demo_stream 1] 1" by code_simp
  then show "stage_is_ready (fd_topology demo_loaded) (fd_streams demo_loaded) 1"
    by (simp add: demo_loaded_def demo_driver_loop)
qed

theorem processor_lossless_witness:
  "\<exists>d' y. execute_stage demo_turn (stage_exec demo_topology (fd_streams demo_loaded) 1) demo_loaded = Some (Inr (), d') \<and>
     stream_items (fd_streams d' ! 1) = stream_items (fd_streams demo_loaded ! 1) @ [y]"
  using processor_lossless [OF demo_loaded_ready(1,2,3,5) _ demo_loaded_ready(4), of demo_turn demo_output]
  by (auto simp: demo_turn_def demo_loaded_def demo_driver_loop)

text \<open>
  C16. No turn of a driver panics: whatever its components answer, whatever the clocks read and
  whoever cancels it, a driver in its invariant completes the turn, and is then either still in its
  invariant or stopped by a cancellation.
\<close>

theorem driver_turn_total:
  assumes "loop_inv d"
  shows "\<exists>d' stop. driver_turn show_duration t d = Some (d', stop) \<and> fd_topology d' = fd_topology d \<and>
    (if stop then is_cancelled (fd_cancellation d') \<and> driver_inv d' else loop_inv d')"
proof -
  obtain d' stop where d': "driver_turn show_duration t d = Some (d', stop)"
    "if stop then stopped_inv d' else loop_inv d'" "fd_topology d' = fd_topology d"
    by (rule driver_turn_inv [OF assms])
  from d'(2) have "if stop then is_cancelled (fd_cancellation d') \<and> driver_inv d' else loop_inv d'"
    by (cases stop) (simp_all add: stopped_inv_def)
  with d'(1,3) show ?thesis by blast
qed

theorem driver_turn_total_witness:
  "\<exists>d' stop. driver_turn (\<lambda>_. []) demo_turn demo_driver = Some (d', stop) \<and> fd_topology d' = demo_topology"
  using driver_turn_total [OF demo_driver_loop(1), of "\<lambda>_. []" demo_turn] by (auto simp: demo_driver_loop)

text \<open>
  C17. There is no deadlock: when no stage of a running flow can run, although backpressure may be
  holding producers back, every queue of the flow is empty. Only routers must have an output.
\<close>

theorem no_deadlock:
  assumes "loop_inv d" and "\<forall>i < length (ft_stages (fd_topology d)).
      sd_role (ft_stages (fd_topology d) ! i) = Router \<longrightarrow> outs_of (fd_topology d) i \<noteq> []"
    and "next_ready_stage (fd_topology d) (fd_streams d) (fd_stream_index d) = Some None"
  shows "\<forall>s \<in> set (fd_streams d). stream_items s = []"
proof -
  have inv: "valid_topology (fd_topology d)" "length (fd_streams d) = length (ft_connections (fd_topology d))"
    "fd_stream_index d = index_of (fd_topology d)" using assms(1) by (simp_all add: loop_inv_def driver_inv_def)
  have "\<forall>i < length (ft_stages (fd_topology d)). \<not> stage_is_ready (fd_topology d) (fd_streams d) i"
    by (cases rule: next_ready_stage_cases [OF inv(1,2)]) (use assms(3) inv(3) in auto)
  from idle_empty [OF assms(1) _ this] assms(2) show ?thesis
    by (auto simp: routers_have_outputs_def in_set_conv_nth)
qed

definition demo_idle :: flow_driver where
  "demo_idle = demo_driver\<lparr>fd_streams :=
     map (\<lambda>s. s\<lparr>ss_producer_complete := True\<rparr>) [demo_stream 0, demo_stream 1]\<rparr>"

lemma demo_idle_loop: "loop_inv demo_idle" "fd_topology demo_idle = demo_topology"
  "next_ready_stage (fd_topology demo_idle) (fd_streams demo_idle) (fd_stream_index demo_idle) = Some None"
proof -
  let ?ss = "map (\<lambda>s. s\<lparr>ss_producer_complete := True\<rparr>) [demo_stream 0, demo_stream 1]"
  show T: "fd_topology demo_idle = demo_topology" by (simp add: demo_idle_def demo_driver_loop)
  have d: "driver_inv demo_driver" "\<forall>s \<in> set [demo_stream 0, demo_stream 1]. bp_ok s"
    "fd_started_at demo_driver \<noteq> None" using demo_driver_loop(1,4) by (simp_all add: loop_inv_def)
  have "streams_ok ?ss"
    using demo_fresh [of 0] demo_fresh [of 1]
    by (auto simp: streams_ok_def fresh_stream_def stream_inv_def less_Suc_eq)
  moreover have "completion_ok demo_topology (abs_net ?ss)"
  proof -
    have n: "nt_closed (abs_net ?ss) = [True, True]" "nt_queues (abs_net ?ss) = [[], []]"
      using demo_fresh [of 0] demo_fresh [of 1] by (simp_all add: abs_net_def fresh_stream_def stream_items_def)
    have c: "length (ft_connections demo_topology) = 2" by (simp add: demo_topology_def)
    have "k = 0 \<or> k = 1" if "k \<in> set (outs_of demo_topology i) \<or> k \<in> set (ins_of demo_topology i)" for k i
      using that ins_of_less [of k demo_topology i] outs_of_less [of k demo_topology i] c by auto
    then have "[True, True] ! k \<and> [[], []] ! k = []"
      if "k \<in> set (outs_of demo_topology i) \<or> k \<in> set (ins_of demo_topology i)" for k i using that by fastforce
    then show ?thesis unfolding completion_ok_def n c by auto
  qed
  ultimately show "loop_inv demo_idle"
    using d demo_driver_loop(2) by (auto simp: loop_inv_def driver_inv_def demo_idle_def bp_ok_def demo_topology_def)
  have "Option.bind (stream_index_build demo_topology) (next_ready_stage demo_topology ?ss) = Some None" by code_simp
  moreover have "stream_index_build demo_topology = Some (fd_stream_index demo_driver)"
    using d(1) demo_topology_valid demo_driver_loop(2)
    by (simp add: driver_inv_def stream_index_build_eq valid_topology_def Let_def)
  ultimately show "next_ready_stage (fd_topology demo_idle) (fd_streams demo_idle) (fd_stream_index demo_idle) = Some None"
    by (simp add: demo_idle_def demo_driver_loop(2))
qed

theorem no_deadlock_witness:
  "length (fd_streams demo_idle) = 2 \<and> map stream_items (fd_streams demo_idle) = [[], []]"
proof -
  have two: "\<exists>a b. fd_streams demo_idle = [a, b]" by (simp add: demo_idle_def)
  have "\<forall>i < length (ft_stages (fd_topology demo_idle)). sd_role (ft_stages (fd_topology demo_idle) ! i) \<noteq> Router"
    by (auto simp: demo_idle_loop demo_topology_def demo_stage_def less_Suc_eq numeral_2_eq_2)
  with no_deadlock [OF demo_idle_loop(1) _ demo_idle_loop(3)] two show ?thesis by auto
qed

text \<open>
  C18. A flow cannot run forever on bounded input: the number of turns of a loop that has not ended
  is bounded by the work that was queued when it started plus a fixed amount for every element that
  was pulled from a source since then. So once the sources are no longer pulled, the loop ends.
\<close>

theorem loop_turns_bounded:
  assumes "loop_inv d" and "\<forall>i < length (ft_stages (fd_topology d)).
      sd_role (ft_stages (fd_topology d) ! i) = Router \<longrightarrow> outs_of (fd_topology d) i \<noteq> []"
    and "driver_loop show_duration ts d = Some (d', False)"
  shows "length ts \<le> potential d +
    (pull_count (fd_log d') - pull_count (fd_log d)) * (pull_weight (fd_topology d) + 1)"
proof -
  have "length ts + potential d' + pull_count (fd_log d) * (pull_weight (fd_topology d) + 1) \<le>
    potential d + pull_count (fd_log d') * (pull_weight (fd_topology d) + 1)"
    using driver_loop_progress [OF assms(1) _ assms(3)] assms(2) by (simp add: routers_have_outputs_def)
  then show ?thesis by (simp add: diff_mult_distrib)
qed

theorem loop_turns_bounded_witness:
  "\<exists>d'. driver_loop (\<lambda>_. []) [demo_turn] demo_driver = Some (d', False) \<and>
     1 \<le> potential demo_driver + pull_count (fd_log d') * (pull_weight demo_topology + 1)"
proof -
  have nr: "\<forall>i < length (ft_stages (fd_topology demo_driver)). sd_role (ft_stages (fd_topology demo_driver) ! i) \<noteq> Router"
    by (auto simp: demo_driver_loop demo_topology_def demo_stage_def less_Suc_eq numeral_2_eq_2)
  have pre: "driver_inv demo_driver" "completion_ok (fd_topology demo_driver) (abs_net (fd_streams demo_driver))"
    "fd_started_at demo_driver \<noteq> None" using demo_driver_loop(1) by (simp_all add: loop_inv_def)
  have "\<exists>d'. driver_turn (\<lambda>_. []) demo_turn demo_driver = Some (d', False)"
  proof (cases rule: driver_turn_cases [OF pre, of "\<lambda>_. []" demo_turn])
    case (1 c)
    then show ?thesis by (simp add: demo_turn_def demo_driver_loop cancellation_new_def is_cancelled_def)
  next
    case (2 i d1 d' stop)
    have "stage_reply (fd_topology demo_driver) demo_turn demo_driver i = Inr ()"
      by (auto simp: stage_reply_def demo_turn_def Let_def split: component_role.split)
    with 2(1,8) show ?thesis by auto
  next
    case (3 d1 d' stop)
    with demo_driver_ready(2,3) show ?thesis by blast
  qed
  then obtain d' where d': "driver_loop (\<lambda>_. []) [demo_turn] demo_driver = Some (d', False)" by auto
  from loop_turns_bounded [OF demo_driver_loop(1) _ d'] nr d' show ?thesis
    by (auto simp: demo_driver_loop)
qed

section \<open>The end of a run\<close>

text \<open>
  C19. The drain ends by itself: after the loop has stopped, closing the sources and draining never
  panics, pulls no source, and leaves no stage able to run, unless the drain's deadline passes first;
  the number of executions it needs is at most the work that was queued.
\<close>

theorem drain_ends:
  assumes "driver_inv d" and "completion_ok (fd_topology d) (abs_net (fd_streams d))"
  shows "\<exists>d1 d2. close_sources [0..<length (ft_stages (fd_topology d))] d = Some d1 \<and>
    nt_queues (abs_net (fd_streams d1)) = nt_queues (abs_net (fd_streams d)) \<and>
    drain_loop deadline ts d1 = Some d2 \<and> pull_count (fd_log d2) = pull_count (fd_log d) \<and>
    (work (fd_topology d) (abs_net (fd_streams d)) < length ts \<longrightarrow> (\<forall>t \<in> set ts. tn_start t < deadline) \<longrightarrow>
       (\<forall>i < length (ft_stages (fd_topology d)). \<not> stage_is_ready (fd_topology d) (fd_streams d2) i))"
proof -
  let ?T = "fd_topology d"
  obtain d1 where d1: "close_sources [0..<length (ft_stages ?T)] d = Some d1" "closing d d1"
    "\<forall>i < length (ft_stages ?T). ins_of ?T i = [] \<longrightarrow> (\<forall>k \<in> set (outs_of ?T i). nt_closed (abs_net (fd_streams d1)) ! k)"
    using close_sources_ok [OF assms, of "[0..<length (ft_stages ?T)]"] by auto
  note c1 = closing_inv [OF d1(2)]
  have valid: "valid_topology ?T" using assms(1) by (simp add: driver_inv_def)
  have "sources_closed d1"
    using d1(3) valid_source_ins [OF valid] unfolding sources_closed_def c1(3) by blast
  from drain_loop_ok [OF c1(1,2) this] obtain d2 where d2: "drain_loop deadline ts d1 = Some d2"
    "pull_count (fd_log d2) = pull_count (fd_log d1)"
    "work (fd_topology d1) (abs_net (fd_streams d1)) < length ts \<longrightarrow> (\<forall>t \<in> set ts. tn_start t < deadline) \<longrightarrow>
       (\<forall>i < length (ft_stages (fd_topology d1)). \<not> stage_is_ready (fd_topology d1) (fd_streams d2) i)" .
  have q: "nt_queues (abs_net (fd_streams d1)) = nt_queues (abs_net (fd_streams d))"
    and log: "pull_count (fd_log d1) = pull_count (fd_log d)"
    using d1(2) by (simp_all add: closing_def)
  then have "work ?T (abs_net (fd_streams d1)) = work ?T (abs_net (fd_streams d))" by (simp add: work_def)
  with d1(1) q d2 log c1(3) show ?thesis by auto
qed

theorem drain_ends_witness:
  "\<exists>d1 d2. close_sources [0, 1, 2] demo_loaded = Some d1 \<and> drain_loop 100 [demo_turn] d1 = Some d2 \<and>
     pull_count (fd_log d2) = 0"
proof -
  have "completion_ok (fd_topology demo_loaded) (abs_net (fd_streams demo_loaded))"
  proof -
    obtain r s where s: "stream_emit (demo_stream 0) demo_element = Some (r, s)"
      "s = (demo_stream 0)\<lparr>ss_queue := ss_queue s, ss_demand := ss_demand s\<rparr>"
      using stream_emit_ok [of "demo_stream 0" demo_element] demo_fresh [of 0] by (metis fresh_stream_def)
    have "\<not> ss_producer_complete s" using demo_fresh [of 0] by (subst s(2)) (simp add: fresh_stream_def)
    with s(1) demo_fresh [of 1] have n: "nt_closed (abs_net (fd_streams demo_loaded)) = [False, False]"
      by (simp add: demo_loaded_def abs_net_def fresh_stream_def)
    have "\<not> [False, False] ! k" if "k \<in> set (outs_of demo_topology i)" for k i
      using outs_of_less [OF that] by (auto simp: demo_topology_def less_Suc_eq)
    with n show ?thesis
      by (auto simp: completion_ok_def demo_loaded_def demo_driver_loop)
        (simp_all add: abs_net_def demo_topology_def)
  qed
  note ends = drain_ends [OF demo_loaded_ready(1) this, of 100 "[demo_turn]"]
  have "[0..<length (ft_stages (fd_topology demo_loaded))] = [0, 1, 2]" "pull_count (fd_log demo_loaded) = 0"
    using demo_driver_loop(6) by (simp_all add: demo_loaded_def demo_driver_loop demo_topology_def upt_conv_Cons)
  with ends show ?thesis by metis
qed

text \<open>
  C20. A whole run of a validated flow: started from its configuration, it never panics, and when its
  loop ends the run reports the state that belongs to the first reason for which it was cancelled,
  goes through the states running, draining and that state, each a legal transition, and leaves every
  queue empty.
\<close>

theorem run_ends_in_agreed_state:
  assumes "valid_topology (cfg_topology cfg)" and "capacities_ok cfg"
    and "build_streams low_mark f cfg 0 (ft_connections (cfg_topology cfg)) = Some ss"
    and "driver_new f cfg (length (ft_stages (cfg_topology cfg))) ss cancellation_new start = Some d"
    and "driver_run show_duration start wall ts drain_start ds fin d = r"
  shows "r = Some None \<or> (\<exists>d1 reason stats d'.
    driver_loop show_duration ts (driver_start start wall d) = Some (d1, True) \<and>
    fc_reason (fd_cancellation d1) = Some reason \<and>
    r = Some (Some (f, fd_state d', stats, d')) \<and>
    fd_state d' = (case reason of SourceComplete \<Rightarrow> FlowCompleted | OperatorRequest \<Rightarrow> FlowCancelled | _ \<Rightarrow> FlowFailed) \<and>
    flow_run FlowInstantiated (map snd (state_changes (fd_log d'))) \<and>
    map snd (state_changes (fd_log d')) = [FlowRunning, FlowDraining, fd_state d'] \<and>
    (\<forall>s \<in> set (fd_streams d'). stream_items s = []))"
proof -
  obtain ss' where ss': "build_streams low_mark f cfg 0 (ft_connections (cfg_topology cfg)) = Some ss'"
    "length ss' = length (ft_connections (cfg_topology cfg))" "\<forall>j < length ss'. fresh_stream j (ss' ! j)"
    by (rule config_streams [OF assms(1,2)])
  with assms(3) have ss: "length ss = length (ft_connections (cfg_topology cfg))"
    "\<forall>j < length ss. fresh_stream j (ss ! j)" by simp_all
  let ?d = "driver_start start wall d"
  obtain d0 where "start_task f cfg (length (ft_stages (cfg_topology cfg))) ss start wall = TaskRunning d0" "loop_inv d0"
    "fd_cancellation d0 = cancellation_new" "fd_flow_id d0 = f"
    "state_changes (fd_log d0) = [(FlowInstantiated, FlowRunning)]" "fd_state d0 = FlowRunning"
    by (rule start_task_ok [OF assms(1,2) refl ss])
  with assms(4) have d0: "loop_inv ?d" "fd_cancellation ?d = cancellation_new" "fd_flow_id ?d = f"
    "state_changes (fd_log ?d) = [(FlowInstantiated, FlowRunning)]" by (auto simp: start_task_def)
  obtain d1 stop where d1: "driver_loop show_duration ts ?d = Some (d1, stop)"
    "if stop then stopped_inv d1 else loop_inv d1" "fd_flow_id d1 = fd_flow_id ?d"
    by (rule driver_loop_inv [OF d0(1)])
  show ?thesis
  proof (cases stop)
    case False
    with d1(1) assms(5) show ?thesis by (auto simp: driver_run_def)
  next
    case True
    with d1(2) have st: "stopped_inv d1" by simp
    have wf: "cancellation_wf (fd_cancellation d1)"
      by (rule driver_loop_wf [OF d0(1) _ d1(1)]) (simp add: d0(2))
    then obtain reason where reason: "fc_reason (fd_cancellation d1) = Some reason"
      using st by (auto simp: stopped_inv_def cancellation_wf_def is_cancelled_def)
    have sc: "state_changes (fd_log d1) = [(FlowInstantiated, FlowRunning)]"
      using driver_loop_quiet [OF d1(1)] d0(4) by (auto simp: quiet_def)
    let ?final = "terminal_state (Some reason)"
    obtain stats d' where d': "driver_finish drain_start ds fin d1 = Some (fd_flow_id d1, ?final, stats, d')"
      "fd_state d' = ?final" "\<forall>s \<in> set (fd_streams d'). stream_items s = []"
      "state_changes (fd_log d') = state_changes (fd_log d1) @ [(FlowRunning, FlowDraining), (FlowDraining, ?final)]"
      by (rule driver_finish_ok [OF st, of drain_start ds fin]) (simp add: reason)
    have states: "map snd (state_changes (fd_log d')) = [FlowRunning, FlowDraining, ?final]" using d'(4) sc by simp
    have legal: "flow_run FlowInstantiated [FlowRunning, FlowDraining, ?final]" by (cases reason) simp_all
    have cases: "?final = (case reason of SourceComplete \<Rightarrow> FlowCompleted | OperatorRequest \<Rightarrow> FlowCancelled | _ \<Rightarrow> FlowFailed)"
      by (cases reason) simp_all
    have "r = Some (Some (f, ?final, stats, d'))"
      using d1(1,3) d0(3) True d'(1) assms(5) by (simp add: driver_run_def)
    then show ?thesis
      using d1(1) True reason d'(2,3) states legal cases
      by (intro disjI2 exI [of _ d1] exI [of _ reason] exI [of _ stats] exI [of _ d'] conjI) simp_all
  qed
qed

theorem run_ends_in_agreed_state_witness:
  "\<exists>ss d d1 stats d'.
     build_streams (\<lambda>c r. c div 2) (FlowId 1) demo_flow_config 0 (ft_connections demo_topology) = Some ss \<and>
     driver_new (FlowId 1) demo_flow_config 3 ss cancellation_new 0 = Some d \<and>
     driver_loop (\<lambda>_. []) [demo_turn\<lparr>tn_cancels := [OperatorRequest]\<rparr>] (driver_start 0 0 d) = Some (d1, True) \<and>
     driver_run (\<lambda>_. []) 0 0 [demo_turn\<lparr>tn_cancels := [OperatorRequest]\<rparr>] 10 [] 20 d =
       Some (Some (FlowId 1, FlowCancelled, stats, d'))"
proof -
  let ?t = "demo_turn\<lparr>tn_cancels := [OperatorRequest]\<rparr>"
  have cfg: "cfg_topology demo_flow_config = demo_topology" by (simp add: demo_flow_config_def)
  have valid: "valid_topology (cfg_topology demo_flow_config)" using demo_topology_valid cfg by simp
  obtain ss where ss: "build_streams (\<lambda>c r. c div 2) (FlowId 1) demo_flow_config 0 (ft_connections (cfg_topology demo_flow_config)) = Some ss"
    by (rule config_streams [OF valid demo_capacities])
  have n: "length (ft_stages demo_topology) = 3" by (simp add: demo_topology_def)
  have "in_range (length (ft_stages demo_topology)) (edges demo_topology)"
    using demo_topology_valid by (simp add: valid_topology_def Let_def)
  then obtain d where d: "driver_new (FlowId 1) demo_flow_config (length (ft_stages (cfg_topology demo_flow_config))) ss cancellation_new 0 = Some d"
    "fd_cancellation d = cancellation_new"
    by (simp add: driver_new_def cfg stream_index_build_eq)
  have c: "fd_cancellation (driver_start 0 0 d) = cancellation_new"
    using d(2) by (simp add: driver_start_def emit_state_change_def log_event_def)
  have loop: "driver_loop (\<lambda>_. []) [?t] (driver_start 0 0 d) = Some (cancel_flow OperatorRequest (driver_start 0 0 d), True)"
    by (simp add: driver_turn_def demo_turn_def Let_def cancel_flow_def)
  have reason: "fc_reason (fd_cancellation (cancel_flow OperatorRequest (driver_start 0 0 d))) = Some OperatorRequest"
    by (simp add: cancel_flow_def c cancel_def cancellation_new_def)
  from run_ends_in_agreed_state [OF valid demo_capacities ss d(1), of "\<lambda>_. []" 0 "[?t]" 10 "[]" 20]
  consider (unfinished) "driver_run (\<lambda>_. []) 0 0 [?t] 10 [] 20 d = Some None"
    | (ended) stats d' where "driver_run (\<lambda>_. []) 0 0 [?t] 10 [] 20 d = Some (Some (FlowId 1, FlowCancelled, stats, d'))"
    using loop reason by fastforce
  then show ?thesis
  proof cases
    case unfinished
    then show ?thesis by (simp add: driver_run_def loop del: driver_loop.simps)
  next
    case ended
    with ss d(1) loop show ?thesis unfolding cfg n by blast
  qed
qed

section \<open>The reactor\<close>

text \<open>
  C21. The reactor never fails: starting from a consistent resource manager, after any history of
  acceptable commands and of steps of the flows' tasks, in any order, the next acceptable command is
  handled without a panic; no task has panicked, no finished flow is left, at most 64 outcomes are
  remembered and the resource manager is consistent.
\<close>

theorem reactor_never_fails:
  assumes "mgr_inv m" and "order_ok iter"
    and "reactor_reach low_mark show_duration panic iter (coordinator_new m) co" and "command_ok cmd"
  shows "\<exists>r co'. coordinator_round low_mark show_duration panic iter cmd co = Some (r, co') \<and>
    (\<forall>(f, e) \<in> set (co_flows co'). \<not> task_finished (fe_task e) \<and> (\<forall>msg. fe_task e \<noteq> TaskPanicked msg)) \<and>
    length (co_outcomes co') \<le> 64 \<and> mgr_inv (co_resources co')"
proof -
  have "co_inv co" by (rule reactor_reach_inv [OF assms(3) coordinator_new_inv [OF assms(1)] assms(2)])
  from coordinator_round_inv [OF this assms(2,4)] obtain r co' where
    "coordinator_round low_mark show_duration panic iter cmd co = Some (r, co')" "co_inv co'"
    "\<forall>(f, e) \<in> set (co_flows co'). \<not> task_finished (fe_task e)" by blast
  then show ?thesis by (fastforce simp: co_inv_def max_retained_outcomes_def)
qed

lemma demo_manager_inv: "mgr_inv demo_manager"
  using mgr_state_inv [OF demo_state] .

theorem reactor_never_fails_witness:
  "\<exists>r co'. coordinator_round (\<lambda>c r. c div 2) (\<lambda>_. []) [] demo_iter (SpawnFlow demo_flow_config 3 0 0)
     (coordinator_new demo_manager) = Some (r, co') \<and> mgr_inv (co_resources co')"
proof -
  have "command_ok (SpawnFlow demo_flow_config 3 0 0)" by (simp add: demo_capacities)
  from reactor_never_fails [OF demo_manager_inv demo_iter_ok start this] show ?thesis by blast
qed

text \<open>
  C22. Reaping gives everything back: every flow whose task has finished is removed and no other; the
  buffers of those flows, and those that their components own, are freed and no other buffer changes;
  and as long as the memory of outcomes has room, a query for a reaped flow answers how it ended.
\<close>

theorem reaping_frees_and_remembers:
  assumes inv: "co_inv co" and iter: "order_ok iter"
  defines "fs \<equiv> map fst (filter (\<lambda>(_, e). task_finished (fe_task e)) (co_flows co))"
  shows "\<exists>co'. reap_completed_flows iter co = Some co' \<and>
    co_flows co' = filter (\<lambda>(_, e). \<not> task_finished (fe_task e)) (co_flows co) \<and>
    m_view (co_resources co') = keep_views (\<lambda>v. \<not> reaped_view (co_flows co) fs v) (m_view (co_resources co)) \<and>
    (length (co_outcomes co) + length fs \<le> 64 \<longrightarrow>
       (\<forall>(f, e) \<in> set (co_flows co). task_finished (fe_task e) \<longrightarrow>
          query_flow_outcome f co' = Some (task_outcome (fc_reason (fe_cancellation e)) (fe_task e))))"
proof -
  obtain co' where co': "reap_completed_flows iter co = Some co'"
    "co_flows co' = filter (\<lambda>(_, e). \<not> task_finished (fe_task e)) (co_flows co)"
    by (rule reap_completed_ok [OF inv iter])
  have dist: "distinct (map fst (co_flows co))" using inv by (simp add: co_inv_def)
  then have dfs: "distinct fs" unfolding fs_def by (simp add: distinct_map_filter)
  have mem: "f \<in> set fs" if "(f, e) \<in> set (co_flows co)" "task_finished (fe_task e)" for f e
    using that unfolding fs_def by force
  have fin: "task_finished (fe_task e)" if "f \<in> set fs" "map_of (co_flows co) f = Some e" for f e
  proof -
    from that(1) obtain e' where "(f, e') \<in> set (co_flows co)" "task_finished (fe_task e')"
      unfolding fs_def by auto
    with dist that(2) show ?thesis using map_of_is_SomeI by fastforce
  qed
  have run: "reap_ids iter fs co = Some co'" using co'(1) by (simp add: reap_completed_flows_def fs_def)
  have "\<forall>f \<in> set fs. \<forall>e. map_of (co_flows co) f = Some e \<longrightarrow> task_finished (fe_task e)" using fin by blast
  note eff = reap_ids_effect [OF inv iter this dfs run]
  have "query_flow_outcome f co' = Some (task_outcome (fc_reason (fe_cancellation e)) (fe_task e))"
    if room: "length (co_outcomes co) + length fs \<le> 64" and fe: "(f, e) \<in> set (co_flows co)" "task_finished (fe_task e)"
    for f e
  proof -
    have e: "map_of (co_flows co) f = Some e" using fe(1) dist by simp
    have "map_of (co_flows co') f = None"
    proof (rule ccontr)
      assume "map_of (co_flows co') f \<noteq> None"
      then obtain e' where "(f, e') \<in> set (co_flows co')" by (auto dest: map_of_SomeD)
      with co'(2) have "(f, e') \<in> set (co_flows co)" "\<not> task_finished (fe_task e')" by auto
      with e fe(2) dist show False by simp
    qed
    moreover have "map_of (co_outcomes co') f = Some (task_outcome (fc_reason (fe_cancellation e)) (fe_task e))"
      using eff [THEN conjunct2] room mem [OF fe] e by (simp add: max_retained_outcomes_def)
    ultimately show ?thesis by (simp add: query_flow_outcome_def)
  qed
  with co' eff [THEN conjunct1] show ?thesis by blast
qed

text \<open>A coordinator whose only flow was created by \<open>create_flow\<close>, and so has finished.\<close>

definition demo_coordinator :: coordinator where
  "demo_coordinator = (coordinator_new demo_manager)\<lparr>co_flows :=
     [(FlowId 2, \<lparr>fe_state = FlowInstantiated, fe_cancellation = cancellation_new,
        fe_task = TaskDone FlowCompleted (completion_stats_new 0), fe_component_ids = []\<rparr>)]\<rparr>"

theorem reaping_frees_and_remembers_witness:
  "\<exists>co'. reap_completed_flows demo_iter demo_coordinator = Some co' \<and> co_flows co' = [] \<and>
     m_view (co_resources co') (ResourceId 1 1) = None \<and>
     m_view (co_resources co') (ResourceId 0 1) = m_view demo_manager (ResourceId 0 1) \<and>
     query_flow_outcome (FlowId 2) co' = Some \<lparr>fo_state = FlowCompleted, fo_reason = None\<rparr>"
proof -
  have "co_inv (coordinator_new demo_manager)" by (rule coordinator_new_inv [OF demo_manager_inv])
  then have "co_inv demo_coordinator"
    by (simp add: demo_coordinator_def co_inv_def new_entry_inv(2))
  from reaping_frees_and_remembers [OF this demo_iter_ok] obtain co' where
    co': "reap_completed_flows demo_iter demo_coordinator = Some co'" "co_flows co' = []"
    "m_view (co_resources co') = keep_views (\<lambda>v. \<not> reaped_view (co_flows demo_coordinator) [FlowId 2] v) (m_view demo_manager)"
    "query_flow_outcome (FlowId 2) co' = Some \<lparr>fo_state = FlowCompleted, fo_reason = None\<rparr>"
    by (auto simp: demo_coordinator_def coordinator_new_def cancellation_new_def)
  have rv: "reaped_view (co_flows demo_coordinator) [FlowId 2] v \<longleftrightarrow> v_flow v = FlowId 2" for v
    by (simp add: reaped_view_def demo_coordinator_def)
  show ?thesis
    using co' demo_views unfolding rv by (intro exI [of _ co']) (simp add: keep_views_def del: m_view_None)
qed

end
