(* ===== verification/Sec_Text.thy ===== *)
theory Sec_Text
  imports Prelude
begin

text \<open>
  The operations of the standard library on strings that the parsers of \<open>torvyn-security\<close> use:
  splitting, searching, prefixes and suffixes, joining and reading a 16-bit integer. Strings are
  lists of bytes; all the separators are ASCII characters.
\<close>

type_synonym u16 = "16 word"

section \<open>Splitting and joining\<close>

text \<open>\<open>s.split(c)\<close>\<close>

fun split_char :: "char \<Rightarrow> string \<Rightarrow> string list" where
  "split_char c [] = [[]]"
| "split_char c (x # xs) =
     (if x = c then [] # split_char c xs
      else case split_char c xs of [] \<Rightarrow> [[x]] | w # ws \<Rightarrow> (x # w) # ws)"

text \<open>\<open>s.split_once(c)\<close> and \<open>s.splitn(n, c)\<close>\<close>

fun split_once :: "char \<Rightarrow> string \<Rightarrow> (string \<times> string) option" where
  "split_once c [] = None"
| "split_once c (x # xs) =
     (if x = c then Some ([], xs) else map_option (\<lambda>(a, b). (x # a, b)) (split_once c xs))"

fun splitn :: "nat \<Rightarrow> char \<Rightarrow> string \<Rightarrow> string list" where
  "splitn 0 c s = []"
| "splitn (Suc 0) c s = [s]"
| "splitn (Suc (Suc n)) c s =
     (case split_once c s of None \<Rightarrow> [s] | Some (a, b) \<Rightarrow> a # splitn (Suc n) c b)"

text \<open>\<open>s.rfind(c)\<close>: the index of the last occurrence.\<close>

definition rfind :: "char \<Rightarrow> string \<Rightarrow> nat option" where
  "rfind c s =
     (let n = length (takeWhile (\<lambda>x. x \<noteq> c) (rev s)) in if n = length s then None else Some (length s - n - 1))"

definition starts_with :: "string \<Rightarrow> string \<Rightarrow> bool" where
  "starts_with s p \<longleftrightarrow> take (length p) s = p"

definition ends_with :: "string \<Rightarrow> string \<Rightarrow> bool" where
  "ends_with s t \<longleftrightarrow> length t \<le> length s \<and> drop (length s - length t) s = t"

definition strip_prefix :: "string \<Rightarrow> string \<Rightarrow> string option" where
  "strip_prefix p s = (if starts_with s p then Some (drop (length p) s) else None)"

fun join :: "string \<Rightarrow> string list \<Rightarrow> string" where
  "join sep [] = []"
| "join sep [w] = w"
| "join sep (w # v # ws) = w @ sep @ join sep (v # ws)"

lemma split_char_ne [simp]: "split_char c s \<noteq> []"
  by (cases s) (auto split: list.split)

lemma split_char_single: "c \<notin> set w \<Longrightarrow> split_char c w = [w]"
  by (induction w) auto

lemma split_char_append: "c \<notin> set w \<Longrightarrow> split_char c (w @ c # s) = w # split_char c s"
  by (induction w) auto

lemma split_join:
  "ws \<noteq> [] \<Longrightarrow> \<forall>w \<in> set ws. c \<notin> set w \<Longrightarrow> split_char c (join [c] ws) = ws"
  by (induction "[c]" ws rule: join.induct) (simp_all add: split_char_single split_char_append)

lemma split_once_append: "c \<notin> set a \<Longrightarrow> split_once c (a @ c # b) = Some (a, b)"
  by (induction a) auto

lemma split_once_None: "c \<notin> set a \<Longrightarrow> split_once c a = None"
  by (induction a) auto

lemma rfind_append: "c \<notin> set b \<Longrightarrow> rfind c (a @ c # b) = Some (length a)"
proof -
  assume b: "c \<notin> set b"
  have "takeWhile (\<lambda>x. x \<noteq> c) (rev (a @ c # b)) = rev b"
    using b by (auto simp: takeWhile_append)
  then show ?thesis by (simp add: rfind_def)
qed

lemma set_join: "set (join sep ws) \<subseteq> set sep \<union> \<Union> (set ` set ws)"
  by (induction sep ws rule: join.induct) auto

lemma starts_with_iff: "starts_with s p \<longleftrightarrow> (\<exists>r. s = p @ r)"
  unfolding starts_with_def by (metis append_eq_conv_conj)

lemma ends_with_iff: "ends_with s t \<longleftrightarrow> (\<exists>r. s = r @ t)"
proof
  assume "ends_with s t"
  then have "s = take (length s - length t) s @ t" unfolding ends_with_def by (metis append_take_drop_id)
  then show "\<exists>r. s = r @ t" by blast
qed (auto simp: ends_with_def)

lemma ends_with_trans: "ends_with s t \<Longrightarrow> ends_with t u \<Longrightarrow> ends_with s u"
  by (auto simp: ends_with_iff)

section \<open>Integers\<close>

definition is_digit :: "char \<Rightarrow> bool" where
  "is_digit c \<longleftrightarrow> 48 \<le> (of_char c :: nat) \<and> (of_char c :: nat) \<le> 57"

definition digits_value :: "string \<Rightarrow> nat" where
  "digits_value ds = foldl (\<lambda>n c. 10 * n + (of_char c - 48)) 0 ds"

text \<open>\<open>s.parse::<u16>()\<close>: a leading plus is accepted, nothing else but digits.\<close>

definition parse_u16 :: "string \<Rightarrow> u16 option" where
  "parse_u16 s =
     (let ds = (case s of [] \<Rightarrow> [] | c # r \<Rightarrow> if c = CHR ''+'' then r else s)
      in if ds = [] \<or> \<not> list_all is_digit ds \<or> 65536 \<le> digits_value ds then None
         else Some (of_nat (digits_value ds)))"

lemma of_char_digit: "n < 10 \<Longrightarrow> (of_char (char_of (48 + n :: nat)) :: nat) = 48 + n"
  by simp

lemma decimal_digits: "list_all is_digit (decimal n) \<and> decimal n \<noteq> []"
proof (induction n rule: decimal.induct)
  case (1 n)
  have "is_digit (char_of (48 + n mod 10))" by (simp add: is_digit_def)
  moreover have "n < 10 \<Longrightarrow> is_digit (char_of (48 + n))" by (simp add: is_digit_def)
  ultimately show ?case using 1 by (subst (1 2) decimal.simps) simp
qed

lemma digits_value_snoc: "digits_value (ds @ [c]) = 10 * digits_value ds + (of_char c - 48)"
  by (simp add: digits_value_def)

lemma digits_value_decimal: "digits_value (decimal n) = n"
proof (induction n rule: decimal.induct)
  case (1 n)
  show ?case
  proof (cases "n < 10")
    case True
    then show ?thesis by (subst decimal.simps) (simp add: digits_value_def)
  next
    case False
    with 1 show ?thesis by (subst decimal.simps) (simp add: digits_value_snoc)
  qed
qed

lemma not_digit [simp]: "\<not> is_digit CHR ''+''" "\<not> is_digit CHR ''-''" "\<not> is_digit CHR '',''" "\<not> is_digit CHR '':''"
  by (simp_all add: is_digit_def)

lemma unat_u16_less [simp]: "unat (a :: u16) < 65536"
  using unsigned_less [of a, where 'a = nat] by simp

lemma parse_u16_decimal: "parse_u16 (decimal (unat (p :: u16))) = Some p"
proof -
  have d: "list_all is_digit (decimal (unat p))" "decimal (unat p) \<noteq> []" using decimal_digits by blast+
  obtain c r where cr: "decimal (unat p) = c # r" using d(2) by (cases "decimal (unat p)") auto
  with d(1) have "c \<noteq> CHR ''+''" by auto
  with cr have strip: "(case decimal (unat p) of [] \<Rightarrow> [] | c # r \<Rightarrow> if c = CHR ''+'' then r else decimal (unat p)) =
      decimal (unat p)" by simp
  have "digits_value (decimal (unat p)) = unat p" by (rule digits_value_decimal)
  then show ?thesis
    unfolding parse_u16_def Let_def strip using d unat_u16_less [of p] by (simp add: not_le)
qed

end
