(* ===== verification/Sec_Capability.thy ===== *)
theory Sec_Capability
  imports Sec_Text
begin

text \<open>
  \<open>torvyn-security/src/capability.rs\<close>: the taxonomy of capabilities, their scopes, when a grant
  covers a request, and their text form. \<open>lower\<close> and \<open>trim\<close> are \<open>str::to_lowercase\<close> and
  \<open>str::trim\<close>, which depend on tables of Unicode: they are arguments.
\<close>

section \<open>Scopes\<close>

text \<open>A directory subtree. The loop of the constructor removes trailing slashes.\<close>

datatype path_scope = PathScope (path_root: string)

fun strip_slashes :: "string \<Rightarrow> string" where
  "strip_slashes s =
     (if 1 < length s \<and> last s = CHR ''/'' then strip_slashes (butlast s) else s)"

declare strip_slashes.simps [simp del]

definition path_new :: "string \<Rightarrow> path_scope" where
  "path_new root = PathScope (strip_slashes root)"

definition contains_path :: "path_scope \<Rightarrow> string \<Rightarrow> bool" where
  "contains_path p path \<longleftrightarrow>
     path = path_root p \<or> path_root p = ''/'' \<or>
     starts_with path (path_root p) \<and> length (path_root p) < length path \<and>
     path ! length (path_root p) = CHR ''/''"

definition path_contains_scope :: "path_scope \<Rightarrow> path_scope \<Rightarrow> bool" where
  "path_contains_scope p q \<longleftrightarrow> contains_path p (path_root q)"

definition path_intersect :: "path_scope \<Rightarrow> path_scope \<Rightarrow> path_scope option" where
  "path_intersect p q =
     (if path_contains_scope p q then Some q else if path_contains_scope q p then Some p else None)"

text \<open>Ports. A range is built by \<open>new\<close>, which refuses an empty one, or \<open>single\<close>.\<close>

record port_range =
  pr_start :: u16
  pr_end :: u16

definition port_range_new :: "u16 \<Rightarrow> u16 \<Rightarrow> string + port_range" where
  "port_range_new s e =
     (if e < s then Inl (''invalid port range: start ('' @ decimal (unat s) @ '') > end ('' @ decimal (unat e) @ '')'')
      else Inr \<lparr>pr_start = s, pr_end = e\<rparr>)"

definition port_range_single :: "u16 \<Rightarrow> port_range" where
  "port_range_single p = \<lparr>pr_start = p, pr_end = p\<rparr>"

definition port_contains :: "port_range \<Rightarrow> u16 \<Rightarrow> bool" where
  "port_contains r p \<longleftrightarrow> pr_start r \<le> p \<and> p \<le> pr_end r"

definition port_contains_range :: "port_range \<Rightarrow> port_range \<Rightarrow> bool" where
  "port_contains_range r q \<longleftrightarrow> pr_start r \<le> pr_start q \<and> pr_end q \<le> pr_end r"

definition port_range_display :: "port_range \<Rightarrow> string" where
  "port_range_display r =
     (if pr_start r = pr_end r then decimal (unat (pr_start r))
      else decimal (unat (pr_start r)) @ ''-'' @ decimal (unat (pr_end r)))"

text \<open>Network endpoints. No hosts means all hosts, no ports all ports.\<close>

record net_scope =
  ns_hosts :: "string list"
  ns_ports :: "port_range list"

definition net_new :: "(string \<Rightarrow> string) \<Rightarrow> string list \<Rightarrow> port_range list \<Rightarrow> net_scope" where
  "net_new lower hosts ports = \<lparr>ns_hosts = map lower hosts, ns_ports = ports\<rparr>"

definition net_unrestricted :: net_scope where
  "net_unrestricted = \<lparr>ns_hosts = [], ns_ports = []\<rparr>"

definition net_is_unrestricted :: "net_scope \<Rightarrow> bool" where
  "net_is_unrestricted s \<longleftrightarrow> ns_hosts s = [] \<and> ns_ports s = []"

definition host_covers :: "string \<Rightarrow> string \<Rightarrow> bool" where
  "host_covers suffix h \<longleftrightarrow> h = suffix \<or> ends_with h (''.'' @ suffix)"

definition matches_host :: "(string \<Rightarrow> string) \<Rightarrow> net_scope \<Rightarrow> string \<Rightarrow> bool" where
  "matches_host lower s hostname \<longleftrightarrow>
     ns_hosts s = [] \<or>
     list_ex (\<lambda>pattern. case strip_prefix ''*.'' pattern of
                Some suffix \<Rightarrow> host_covers suffix (lower hostname)
              | None \<Rightarrow> lower hostname = pattern) (ns_hosts s)"

definition matches_port :: "net_scope \<Rightarrow> u16 \<Rightarrow> bool" where
  "matches_port s p \<longleftrightarrow> ns_ports s = [] \<or> list_ex (\<lambda>r. port_contains r p) (ns_ports s)"

definition host_pattern_covers :: "string \<Rightarrow> string \<Rightarrow> bool" where
  "host_pattern_covers sh oh \<longleftrightarrow>
     sh = oh \<or>
     (case strip_prefix ''*.'' sh of
        None \<Rightarrow> False
      | Some suffix \<Rightarrow>
          (case strip_prefix ''*.'' oh of
             Some other_suffix \<Rightarrow> host_covers suffix other_suffix
           | None \<Rightarrow> host_covers suffix oh))"

definition net_contains_scope :: "net_scope \<Rightarrow> net_scope \<Rightarrow> bool" where
  "net_contains_scope s t \<longleftrightarrow>
     (if net_is_unrestricted s then True
      else if net_is_unrestricted t then False
      else
        list_all (\<lambda>oh. list_ex (\<lambda>sh. host_pattern_covers sh oh) (ns_hosts s)) (ns_hosts t) \<and>
        (if ns_ports s = [] then True
         else if ns_ports t = [] then False
         else list_all (\<lambda>q. list_ex (\<lambda>p. port_contains_range p q) (ns_ports s)) (ns_ports t)))"

definition net_intersect :: "net_scope \<Rightarrow> net_scope \<Rightarrow> net_scope option" where
  "net_intersect s t =
     (if net_contains_scope s t then Some t else if net_contains_scope t s then Some s else None)"

definition net_display :: "net_scope \<Rightarrow> string" where
  "net_display s =
     (if net_is_unrestricted s then ''*:*''
      else (if ns_hosts s = [] then ''*'' else join '','' (ns_hosts s)) @ '':'' @
           (if ns_ports s = [] then ''*'' else join '','' (map port_range_display (ns_ports s))))"

datatype pool_scope = PoolScope (pool_name: string)

section \<open>Capabilities\<close>

datatype capability =
    FilesystemRead path_scope
  | FilesystemWrite path_scope
  | TcpConnect net_scope
  | TcpListen net_scope
  | UdpAccess net_scope
  | HttpOutgoing net_scope
  | WallClock
  | MonotonicClock
  | CryptoRandom
  | InsecureRandom
  | Environment
  | Stdout
  | Stderr
  | ResourceAllocate "pool_scope option"
  | PoolAccess pool_scope
  | EmitBackpressure
  | InspectFlowMeta
  | RuntimeInspect
  | CustomMetrics

fun cap_domain :: "capability \<Rightarrow> string" where
  "cap_domain (FilesystemRead _) = ''filesystem''"
| "cap_domain (FilesystemWrite _) = ''filesystem''"
| "cap_domain (TcpConnect _) = ''network''"
| "cap_domain (TcpListen _) = ''network''"
| "cap_domain (UdpAccess _) = ''network''"
| "cap_domain (HttpOutgoing _) = ''network''"
| "cap_domain WallClock = ''clock''"
| "cap_domain MonotonicClock = ''clock''"
| "cap_domain CryptoRandom = ''random''"
| "cap_domain InsecureRandom = ''random''"
| "cap_domain Environment = ''environment''"
| "cap_domain Stdout = ''stdio''"
| "cap_domain Stderr = ''stdio''"
| "cap_domain (ResourceAllocate _) = ''torvyn:resources''"
| "cap_domain (PoolAccess _) = ''torvyn:resources''"
| "cap_domain EmitBackpressure = ''torvyn:stream''"
| "cap_domain InspectFlowMeta = ''torvyn:stream''"
| "cap_domain RuntimeInspect = ''torvyn:runtime''"
| "cap_domain CustomMetrics = ''torvyn:runtime''"

fun cap_is_wasi :: "capability \<Rightarrow> bool" where
  "cap_is_wasi (ResourceAllocate _) = False"
| "cap_is_wasi (PoolAccess _) = False"
| "cap_is_wasi EmitBackpressure = False"
| "cap_is_wasi InspectFlowMeta = False"
| "cap_is_wasi RuntimeInspect = False"
| "cap_is_wasi CustomMetrics = False"
| "cap_is_wasi _ = True"

fun cap_is_hot_path :: "capability \<Rightarrow> bool" where
  "cap_is_hot_path (ResourceAllocate _) = True"
| "cap_is_hot_path EmitBackpressure = True"
| "cap_is_hot_path CustomMetrics = True"
| "cap_is_hot_path InspectFlowMeta = True"
| "cap_is_hot_path _ = False"

fun satisfies :: "capability \<Rightarrow> capability \<Rightarrow> bool" where
  "satisfies (FilesystemRead g) req = (case req of FilesystemRead r \<Rightarrow> path_contains_scope g r | _ \<Rightarrow> False)"
| "satisfies (FilesystemWrite g) req = (case req of FilesystemWrite r \<Rightarrow> path_contains_scope g r | _ \<Rightarrow> False)"
| "satisfies (TcpConnect g) req = (case req of TcpConnect r \<Rightarrow> net_contains_scope g r | _ \<Rightarrow> False)"
| "satisfies (TcpListen g) req = (case req of TcpListen r \<Rightarrow> net_contains_scope g r | _ \<Rightarrow> False)"
| "satisfies (UdpAccess g) req = (case req of UdpAccess r \<Rightarrow> net_contains_scope g r | _ \<Rightarrow> False)"
| "satisfies (HttpOutgoing g) req = (case req of HttpOutgoing r \<Rightarrow> net_contains_scope g r | _ \<Rightarrow> False)"
| "satisfies WallClock req = (case req of WallClock \<Rightarrow> True | _ \<Rightarrow> False)"
| "satisfies MonotonicClock req = (case req of MonotonicClock \<Rightarrow> True | _ \<Rightarrow> False)"
| "satisfies CryptoRandom req = (case req of CryptoRandom \<Rightarrow> True | _ \<Rightarrow> False)"
| "satisfies InsecureRandom req = (case req of InsecureRandom \<Rightarrow> True | _ \<Rightarrow> False)"
| "satisfies Environment req = (case req of Environment \<Rightarrow> True | _ \<Rightarrow> False)"
| "satisfies Stdout req = (case req of Stdout \<Rightarrow> True | _ \<Rightarrow> False)"
| "satisfies Stderr req = (case req of Stderr \<Rightarrow> True | _ \<Rightarrow> False)"
| "satisfies (ResourceAllocate g) req =
     (case req of
        ResourceAllocate r \<Rightarrow>
          (case g of
             None \<Rightarrow> True
           | Some g \<Rightarrow> (case r of None \<Rightarrow> False | Some r \<Rightarrow> pool_name g = pool_name r))
      | _ \<Rightarrow> False)"
| "satisfies (PoolAccess g) req = (case req of PoolAccess r \<Rightarrow> pool_name g = pool_name r | _ \<Rightarrow> False)"
| "satisfies EmitBackpressure req = (case req of EmitBackpressure \<Rightarrow> True | _ \<Rightarrow> False)"
| "satisfies InspectFlowMeta req = (case req of InspectFlowMeta \<Rightarrow> True | _ \<Rightarrow> False)"
| "satisfies RuntimeInspect req = (case req of RuntimeInspect \<Rightarrow> True | _ \<Rightarrow> False)"
| "satisfies CustomMetrics req = (case req of CustomMetrics \<Rightarrow> True | _ \<Rightarrow> False)"

fun cap_intersect :: "capability \<Rightarrow> capability \<Rightarrow> capability option" where
  "cap_intersect (FilesystemRead g) req =
     (case req of FilesystemRead r \<Rightarrow> if path_contains_scope g r then Some (FilesystemRead r) else None | _ \<Rightarrow> None)"
| "cap_intersect (FilesystemWrite g) req =
     (case req of FilesystemWrite r \<Rightarrow> if path_contains_scope g r then Some (FilesystemWrite r) else None | _ \<Rightarrow> None)"
| "cap_intersect (TcpConnect g) req =
     (case req of TcpConnect r \<Rightarrow> if net_contains_scope g r then Some (TcpConnect r) else None | _ \<Rightarrow> None)"
| "cap_intersect (TcpListen g) req =
     (case req of TcpListen r \<Rightarrow> if net_contains_scope g r then Some (TcpListen r) else None | _ \<Rightarrow> None)"
| "cap_intersect (UdpAccess g) req =
     (case req of UdpAccess r \<Rightarrow> if net_contains_scope g r then Some (UdpAccess r) else None | _ \<Rightarrow> None)"
| "cap_intersect (HttpOutgoing g) req =
     (case req of HttpOutgoing r \<Rightarrow> if net_contains_scope g r then Some (HttpOutgoing r) else None | _ \<Rightarrow> None)"
| "cap_intersect g req = (if satisfies g req then Some req else None)"

text \<open>The discriminant of a capability.\<close>

fun cap_kind :: "capability \<Rightarrow> nat" where
  "cap_kind (FilesystemRead _) = 0"
| "cap_kind (FilesystemWrite _) = 1"
| "cap_kind (TcpConnect _) = 2"
| "cap_kind (TcpListen _) = 3"
| "cap_kind (UdpAccess _) = 4"
| "cap_kind (HttpOutgoing _) = 5"
| "cap_kind WallClock = 6"
| "cap_kind MonotonicClock = 7"
| "cap_kind CryptoRandom = 8"
| "cap_kind InsecureRandom = 9"
| "cap_kind Environment = 10"
| "cap_kind Stdout = 11"
| "cap_kind Stderr = 12"
| "cap_kind (ResourceAllocate _) = 13"
| "cap_kind (PoolAccess _) = 14"
| "cap_kind EmitBackpressure = 15"
| "cap_kind InspectFlowMeta = 16"
| "cap_kind RuntimeInspect = 17"
| "cap_kind CustomMetrics = 18"

definition same_kind :: "capability \<Rightarrow> capability \<Rightarrow> bool" where
  "same_kind a b \<longleftrightarrow> cap_kind a = cap_kind b"

section \<open>The text form\<close>

fun cap_display :: "capability \<Rightarrow> string" where
  "cap_display (FilesystemRead p) = ''filesystem:read:'' @ path_root p"
| "cap_display (FilesystemWrite p) = ''filesystem:write:'' @ path_root p"
| "cap_display (TcpConnect s) = ''network:tcp-connect:'' @ net_display s"
| "cap_display (TcpListen s) = ''network:tcp-listen:'' @ net_display s"
| "cap_display (UdpAccess s) = ''network:udp:'' @ net_display s"
| "cap_display (HttpOutgoing s) = ''network:http-outgoing:'' @ net_display s"
| "cap_display WallClock = ''clock:wall''"
| "cap_display MonotonicClock = ''clock:monotonic''"
| "cap_display CryptoRandom = ''random:crypto''"
| "cap_display InsecureRandom = ''random:insecure''"
| "cap_display Environment = ''environment:read''"
| "cap_display Stdout = ''stdio:stdout''"
| "cap_display Stderr = ''stdio:stderr''"
| "cap_display (ResourceAllocate (Some p)) = ''torvyn:resource-allocate:'' @ pool_name p"
| "cap_display (ResourceAllocate None) = ''torvyn:resource-allocate''"
| "cap_display (PoolAccess p) = ''torvyn:pool-access:'' @ pool_name p"
| "cap_display EmitBackpressure = ''torvyn:emit-backpressure''"
| "cap_display InspectFlowMeta = ''torvyn:inspect-flow-meta''"
| "cap_display RuntimeInspect = ''torvyn:runtime-inspect''"
| "cap_display CustomMetrics = ''torvyn:custom-metrics''"

datatype capability_parse_error =
    InvalidFormat string string
  | MissingScope string string
  | UnknownCapability string

fun capability_parse_error_display :: "capability_parse_error \<Rightarrow> string" where
  "capability_parse_error_display (InvalidFormat input reason) =
     ''[E0510] Invalid capability format '' @ [CHR 0x27] @ input @ [CHR 0x27] @ '': '' @ reason @
     ''. Expected format: '' @ [CHR 0x27] @ ''<domain>:<action>[:<scope>]'' @ [CHR 0x27] @ ''.''"
| "capability_parse_error_display (MissingScope input expected) =
     ''[E0511] Capability '' @ [CHR 0x27] @ input @ [CHR 0x27] @ '' requires a '' @ expected @
     '' scope. Example: '' @ [CHR 0x27] @ ''filesystem:read:/data/input'' @ [CHR 0x27] @ ''.''"
| "capability_parse_error_display (UnknownCapability input) =
     ''[E0512] Unknown capability '' @ [CHR 0x27] @ input @ [CHR 0x27] @ ''. Run '' @ [CHR 0x60] @
     ''torvyn inspect --capabilities'' @ [CHR 0x60] @ '' to see available capabilities.''"

text \<open>One segment of a port list; a segment that cannot be read is dropped.\<close>

definition parse_port_segment :: "(string \<Rightarrow> string) \<Rightarrow> string \<Rightarrow> port_range option" where
  "parse_port_segment trim seg =
     (let seg = trim seg
      in if seg = [] then None
         else case split_once CHR ''-'' seg of
             Some (s, e) \<Rightarrow>
               Option.bind (parse_u16 s) (\<lambda>start. Option.bind (parse_u16 e) (\<lambda>end.
                 case port_range_new start end of Inr r \<Rightarrow> Some r | Inl _ \<Rightarrow> None))
           | None \<Rightarrow> map_option port_range_single (parse_u16 seg))"

definition is_port_char :: "char \<Rightarrow> bool" where
  "is_port_char c \<longleftrightarrow> is_digit c \<or> c = CHR ''-'' \<or> c = CHR '',''"

text \<open>The part after the last colon is a port list when it consists of digits, dashes and commas.\<close>

definition split_host_port :: "string \<Rightarrow> string \<times> string option" where
  "split_host_port s =
     (case rfind CHR '':'' s of
        Some i \<Rightarrow>
          (let after = drop (i + 1) s
           in if after \<noteq> [] \<and> list_all is_port_char after then (take i s, Some after) else (s, None))
      | None \<Rightarrow> (s, None))"

definition parse_net_scope_str ::
    "(string \<Rightarrow> string) \<Rightarrow> (string \<Rightarrow> string) \<Rightarrow> string option \<Rightarrow> net_scope" where
  "parse_net_scope_str lower trim scope =
     (case scope of
        None \<Rightarrow> net_unrestricted
      | Some s \<Rightarrow>
          if s = ''*'' \<or> s = ''*:*'' \<or> s = [] then net_unrestricted
          else
            let (host_part, port_part) = split_host_port s;
                hosts = (if host_part = ''*'' \<or> host_part = [] then []
                         else filter (\<lambda>h. h \<noteq> []) (map (\<lambda>h. lower (trim h)) (split_char CHR '','' host_part)));
                ports = (case port_part of
                           None \<Rightarrow> []
                         | Some p \<Rightarrow> List.map_filter (parse_port_segment trim) (split_char CHR '','' p))
            in net_new lower hosts ports)"

definition cap_from_str ::
    "(string \<Rightarrow> string) \<Rightarrow> (string \<Rightarrow> string) \<Rightarrow> string \<Rightarrow> capability_parse_error + capability" where
  "cap_from_str lower trim s =
     (let parts = splitn 3 CHR '':'' s
      in case parts of
           domain # action # rest \<Rightarrow>
             let scope = (case rest of [] \<Rightarrow> None | x # _ \<Rightarrow> Some x);
                 key = (domain, action);
                 need = (\<lambda>what f. case scope of None \<Rightarrow> Inl (MissingScope s what) | Some x \<Rightarrow> Inr (f x));
                 net = parse_net_scope_str lower trim scope
             in if key = (''filesystem'', ''read'') then need ''path'' (\<lambda>x. FilesystemRead (path_new x))
                else if key = (''filesystem'', ''write'') then need ''path'' (\<lambda>x. FilesystemWrite (path_new x))
                else if key = (''network'', ''tcp-connect'') then Inr (TcpConnect net)
                else if key = (''network'', ''tcp-listen'') then Inr (TcpListen net)
                else if key = (''network'', ''udp'') then Inr (UdpAccess net)
                else if key = (''network'', ''http-outgoing'') then Inr (HttpOutgoing net)
                else if key = (''clock'', ''wall'') then Inr WallClock
                else if key = (''clock'', ''monotonic'') then Inr MonotonicClock
                else if key = (''random'', ''crypto'') then Inr CryptoRandom
                else if key = (''random'', ''insecure'') then Inr InsecureRandom
                else if key = (''environment'', ''read'') then Inr Environment
                else if key = (''stdio'', ''stdout'') then Inr Stdout
                else if key = (''stdio'', ''stderr'') then Inr Stderr
                else if key = (''torvyn'', ''resource-allocate'') then
                  Inr (ResourceAllocate (map_option PoolScope scope))
                else if key = (''torvyn'', ''pool-access'') then
                  need ''pool name'' (\<lambda>x. PoolAccess (PoolScope x))
                else if key = (''torvyn'', ''emit-backpressure'') then Inr EmitBackpressure
                else if key = (''torvyn'', ''inspect-flow-meta'') then Inr InspectFlowMeta
                else if key = (''torvyn'', ''runtime-inspect'') then Inr RuntimeInspect
                else if key = (''torvyn'', ''custom-metrics'') then Inr CustomMetrics
                else Inl (UnknownCapability s)
         | _ \<Rightarrow>
             Inl (InvalidFormat s (''expected format '' @ [CHR 0x27] @ ''<domain>:<action>[:<scope>]'' @ [CHR 0x27])))"

end
