(* ===== verification/Sec_Scope.thy ===== *)
theory Sec_Scope
  imports Sec_Capability
begin

text \<open>
  What a capability allows, when a grant covers a request, and the round trip between capabilities
  and their text.
\<close>

section \<open>Access\<close>

text \<open>A single access that a component may attempt.\<close>

datatype access =
    ReadPath string
  | WritePath string
  | ConnectTcp string u16
  | ListenTcp string u16
  | SendUdp string u16
  | SendHttp string u16
  | AllocateFrom pool_scope
  | UsePool pool_scope
  | UseOther nat

definition net_allows :: "(string \<Rightarrow> string) \<Rightarrow> net_scope \<Rightarrow> string \<Rightarrow> u16 \<Rightarrow> bool" where
  "net_allows lower s host port \<longleftrightarrow> matches_host lower s host \<and> matches_port s port"

fun allows :: "(string \<Rightarrow> string) \<Rightarrow> capability \<Rightarrow> access \<Rightarrow> bool" where
  "allows lower (FilesystemRead p) acc = (case acc of ReadPath x \<Rightarrow> contains_path p x | _ \<Rightarrow> False)"
| "allows lower (FilesystemWrite p) acc = (case acc of WritePath x \<Rightarrow> contains_path p x | _ \<Rightarrow> False)"
| "allows lower (TcpConnect s) acc = (case acc of ConnectTcp h p \<Rightarrow> net_allows lower s h p | _ \<Rightarrow> False)"
| "allows lower (TcpListen s) acc = (case acc of ListenTcp h p \<Rightarrow> net_allows lower s h p | _ \<Rightarrow> False)"
| "allows lower (UdpAccess s) acc = (case acc of SendUdp h p \<Rightarrow> net_allows lower s h p | _ \<Rightarrow> False)"
| "allows lower (HttpOutgoing s) acc = (case acc of SendHttp h p \<Rightarrow> net_allows lower s h p | _ \<Rightarrow> False)"
| "allows lower (ResourceAllocate q) acc =
     (case acc of AllocateFrom p \<Rightarrow> (case q of None \<Rightarrow> True | Some q \<Rightarrow> pool_name q = pool_name p) | _ \<Rightarrow> False)"
| "allows lower (PoolAccess q) acc = (case acc of UsePool p \<Rightarrow> pool_name q = pool_name p | _ \<Rightarrow> False)"
| "allows lower c acc = (acc = UseOther (cap_kind c))"

text \<open>The scope of a capability over the network, and the path of one over the file system.\<close>

fun net_scope_of :: "capability \<Rightarrow> net_scope option" where
  "net_scope_of (TcpConnect s) = Some s"
| "net_scope_of (TcpListen s) = Some s"
| "net_scope_of (UdpAccess s) = Some s"
| "net_scope_of (HttpOutgoing s) = Some s"
| "net_scope_of _ = None"

fun path_of :: "capability \<Rightarrow> string option" where
  "path_of (FilesystemRead p) = Some (path_root p)"
| "path_of (FilesystemWrite p) = Some (path_root p)"
| "path_of _ = None"

text \<open>The request lists hosts, or the grant does not: the requests whose coverage is sound.\<close>

definition names_hosts :: "capability \<Rightarrow> capability \<Rightarrow> bool" where
  "names_hosts g r \<longleftrightarrow>
     (case (net_scope_of g, net_scope_of r) of
        (Some s, Some t) \<Rightarrow> ns_hosts t \<noteq> [] \<or> ns_hosts s = []
      | _ \<Rightarrow> True)"

lemma names_hosts_iff:
  "names_hosts g r \<longleftrightarrow>
     \<not> (\<exists>s t. net_scope_of g = Some s \<and> net_scope_of r = Some t \<and> ns_hosts s \<noteq> [] \<and> ns_hosts t = [])"
  by (auto simp: names_hosts_def split: option.splits)

definition rooted :: "capability \<Rightarrow> bool" where
  "rooted c \<longleftrightarrow> path_of c \<noteq> Some []"

lemma contains_path_iff:
  "contains_path p x \<longleftrightarrow> x = path_root p \<or> path_root p = ''/'' \<or> (\<exists>r. x = path_root p @ CHR ''/'' # r)"
proof -
  have "starts_with x (path_root p) \<and> length (path_root p) < length x \<and> x ! length (path_root p) = CHR ''/'' \<longleftrightarrow>
      (\<exists>r. x = path_root p @ CHR ''/'' # r)"
  proof
    assume a: "starts_with x (path_root p) \<and> length (path_root p) < length x \<and> x ! length (path_root p) = CHR ''/''"
    then obtain y where y: "x = path_root p @ y" by (auto simp: starts_with_iff)
    with a obtain c r where "y = c # r" by (cases y) auto
    with a y show "\<exists>r. x = path_root p @ CHR ''/'' # r" by auto
  qed (auto simp: starts_with_iff)
  then show ?thesis by (auto simp: contains_path_def)
qed

lemma path_contains_sound:
  assumes "path_contains_scope p q" and "path_root p \<noteq> []" and "contains_path q x"
  shows "contains_path p x"
  using assms unfolding path_contains_scope_def contains_path_iff by (auto simp: append_eq_Cons_conv Cons_eq_append_conv)

lemma host_covers_trans: "host_covers a b \<Longrightarrow> host_covers b c \<Longrightarrow> host_covers a c"
  unfolding host_covers_def by (auto simp: ends_with_iff)

lemma net_contains_sound:
  assumes cont: "net_contains_scope s t" and hosts: "ns_hosts t \<noteq> [] \<or> ns_hosts s = []"
    and allowed: "net_allows lower t h p"
  shows "net_allows lower s h p"
proof (cases "net_is_unrestricted s")
  case True
  then show ?thesis by (simp add: net_allows_def net_is_unrestricted_def matches_host_def matches_port_def)
next
  case False
  with cont have t: "\<not> net_is_unrestricted t"
    and hc: "\<And>oh. oh \<in> set (ns_hosts t) \<Longrightarrow> \<exists>sh \<in> set (ns_hosts s). host_pattern_covers sh oh"
    and pc: "ns_ports s = [] \<or> ns_ports t \<noteq> [] \<and>
      (\<forall>q \<in> set (ns_ports t). \<exists>r \<in> set (ns_ports s). port_contains_range r q)"
    by (auto simp: net_contains_scope_def list_all_iff list_ex_iff split: if_splits)
  have "matches_port s p"
    using pc allowed
    by (auto simp: net_allows_def matches_port_def list_ex_iff port_contains_def port_contains_range_def)
      (meson order.trans)
  moreover have "matches_host lower s h"
  proof (cases "ns_hosts s = []")
    case ns: False
    with hosts allowed obtain oh where oh: "oh \<in> set (ns_hosts t)"
      "case strip_prefix ''*.'' oh of Some suffix \<Rightarrow> host_covers suffix (lower h) | None \<Rightarrow> lower h = oh"
      by (auto simp: net_allows_def matches_host_def list_ex_iff)
    obtain sh where sh: "sh \<in> set (ns_hosts s)" "host_pattern_covers sh oh" using hc [OF oh(1)] by blast
    have "case strip_prefix ''*.'' sh of Some suffix \<Rightarrow> host_covers suffix (lower h) | None \<Rightarrow> lower h = sh"
    proof (cases "sh = oh")
      case True
      show ?thesis using oh(2) unfolding True .
    next
      case False
      with sh(2) obtain suffix where sp: "strip_prefix ''*.'' sh = Some suffix"
        "case strip_prefix ''*.'' oh of Some os \<Rightarrow> host_covers suffix os | None \<Rightarrow> host_covers suffix oh"
        by (auto simp: host_pattern_covers_def split: option.splits)
      with oh(2) show ?thesis by (auto split: option.splits dest: host_covers_trans)
    qed
    with sh(1) show ?thesis by (auto simp: matches_host_def list_ex_iff)
  qed (simp add: matches_host_def)
  ultimately show ?thesis by (simp add: net_allows_def)
qed

lemma satisfies_kind: "satisfies g r \<Longrightarrow> same_kind g r"
  by (cases g; cases r) (simp_all add: same_kind_def)

lemma net_contains_refl: "net_contains_scope s s"
  by (auto simp: net_contains_scope_def list_all_iff list_ex_iff host_pattern_covers_def port_contains_range_def)

lemma satisfies_refl: "satisfies c c"
  by (cases c)
    (auto simp: path_contains_scope_def contains_path_def net_contains_refl split: option.split)

lemma cap_intersect_eq: "cap_intersect g r = (if satisfies g r then Some r else None)"
  by (cases g; cases r) simp_all

lemma satisfies_allows:
  assumes "satisfies g r" and "names_hosts g r" and "rooted g" and "allows lower r acc"
  shows "allows lower g acc"
  using assms
  by (cases g; cases r)
    (auto simp: names_hosts_def rooted_def intro: path_contains_sound net_contains_sound split: access.splits option.splits)

section \<open>Text\<close>

text \<open>\<open>trim\<close> leaves a text without white space alone; digits, dashes and commas are such.\<close>

definition trim_ok :: "(string \<Rightarrow> string) \<Rightarrow> bool" where
  "trim_ok trim \<longleftrightarrow> (\<forall>s. list_all is_port_char s \<longrightarrow> trim s = s)"

text \<open>
  Parts as the constructors leave them: normalised paths, port ranges in order, and host names in lower case,
  without commas or white space around them, which a colon and a star after them do not change.
\<close>

definition host_text :: "(string \<Rightarrow> string) \<Rightarrow> (string \<Rightarrow> string) \<Rightarrow> string \<Rightarrow> bool" where
  "host_text lower trim h \<longleftrightarrow>
     h \<noteq> [] \<and> CHR '','' \<notin> set h \<and> (\<forall>w \<in> {h, h @ '':*''}. lower w = w \<and> trim w = w)"

definition well_formed_scope :: "(string \<Rightarrow> string) \<Rightarrow> (string \<Rightarrow> string) \<Rightarrow> net_scope \<Rightarrow> bool" where
  "well_formed_scope lower trim s \<longleftrightarrow>
     (\<forall>r \<in> set (ns_ports s). pr_start r \<le> pr_end r) \<and> (\<forall>h \<in> set (ns_hosts s). host_text lower trim h)"

definition well_formed :: "(string \<Rightarrow> string) \<Rightarrow> (string \<Rightarrow> string) \<Rightarrow> capability \<Rightarrow> bool" where
  "well_formed lower trim c \<longleftrightarrow>
     (case net_scope_of c of None \<Rightarrow> True | Some s \<Rightarrow> well_formed_scope lower trim s) \<and>
     (case path_of c of None \<Rightarrow> True | Some p \<Rightarrow> strip_slashes p = p)"

text \<open>The network scopes whose text reads back: hosts need ports beside them.\<close>

definition printable_scope :: "(string \<Rightarrow> string) \<Rightarrow> (string \<Rightarrow> string) \<Rightarrow> net_scope \<Rightarrow> bool" where
  "printable_scope lower trim s \<longleftrightarrow>
     net_is_unrestricted s \<or>
     ns_ports s \<noteq> [] \<and> (\<forall>r \<in> set (ns_ports s). pr_start r \<le> pr_end r) \<and> ns_hosts s \<noteq> [''*''] \<and>
     (\<forall>h \<in> set (ns_hosts s). h \<noteq> [] \<and> CHR '','' \<notin> set h \<and> lower h = h \<and> trim h = h)"

lemma port_range_chars: "list_all (\<lambda>c. is_digit c \<or> c = CHR ''-'') (port_range_display r)"
proof -
  have "list_all (\<lambda>c. is_digit c \<or> c = CHR ''-'') (decimal n)" for n
    using decimal_digits [of n] by (auto simp: list_all_iff)
  then show ?thesis by (auto simp: port_range_display_def)
qed

lemma port_range_display_ne: "port_range_display r \<noteq> []"
  using decimal_digits by (auto simp: port_range_display_def)

lemma decimal_no_dash: "CHR ''-'' \<notin> set (decimal n)"
  using decimal_digits [of n] by (auto simp: list_all_iff)

lemma parse_port_display:
  assumes "trim_ok trim" and "pr_start r \<le> pr_end r"
  shows "parse_port_segment trim (port_range_display r) = Some r"
proof -
  have "list_all is_port_char (port_range_display r)"
    using port_range_chars [of r] by (auto simp: list_all_iff is_port_char_def)
  with assms(1) have t: "trim (port_range_display r) = port_range_display r" by (simp add: trim_ok_def)
  show ?thesis
  proof (cases "pr_start r = pr_end r")
    case True
    then have d: "port_range_display r = decimal (unat (pr_start r))" by (simp add: port_range_display_def)
    show ?thesis
      unfolding parse_port_segment_def t unfolding d
      using True decimal_digits [of "unat (pr_start r)"]
      by (simp add: split_once_None [OF decimal_no_dash] parse_u16_decimal port_range_single_def Let_def)
  next
    case False
    then have d: "port_range_display r = decimal (unat (pr_start r)) @ CHR ''-'' # decimal (unat (pr_end r))"
      by (simp add: port_range_display_def)
    show ?thesis
      unfolding parse_port_segment_def t unfolding d
      using assms(2)
      by (simp add: split_once_append [OF decimal_no_dash] parse_u16_decimal port_range_new_def Let_def not_less)
  qed
qed

lemma map_filter_all: "\<forall>x \<in> set xs. f (g x) = Some x \<Longrightarrow> List.map_filter f (map g xs) = xs"
  by (induction xs) (simp_all add: List.map_filter_simps)

lemma join_ne: "ws \<noteq> [] \<Longrightarrow> \<forall>w \<in> set ws. w \<noteq> [] \<Longrightarrow> join sep ws \<noteq> []"
  by (induction sep ws rule: join.induct) auto

lemma join_single:
  assumes "\<forall>w \<in> set ws. w \<noteq> [] \<and> CHR '','' \<notin> set w" and "join '','' ws = ''*''"
  shows "ws = [''*'']"
proof -
  have ne: "ws \<noteq> []" using assms(2) by auto
  with split_join [OF this, of "CHR '',''"] assms show ?thesis by simp
qed

lemma parse_net_display:
  assumes trim: "trim_ok trim" and ok: "printable_scope lower trim s"
  shows "parse_net_scope_str lower trim (Some (net_display s)) = s"
proof (cases "net_is_unrestricted s")
  case True
  then show ?thesis
    by (simp add: parse_net_scope_str_def net_display_def) (simp add: net_unrestricted_def net_is_unrestricted_def)
next
  case False
  let ?H = "if ns_hosts s = [] then ''*'' else join '','' (ns_hosts s)"
  let ?P = "join '','' (map port_range_display (ns_ports s))"
  have ports: "ns_ports s \<noteq> []" "\<forall>r \<in> set (ns_ports s). pr_start r \<le> pr_end r"
    and star: "ns_hosts s \<noteq> [''*'']"
    and hosts: "\<forall>h \<in> set (ns_hosts s). h \<noteq> [] \<and> CHR '','' \<notin> set h \<and> lower h = h \<and> trim h = h"
    using ok False by (simp_all add: printable_scope_def)
  have d: "net_display s = ?H @ CHR '':'' # ?P" using False ports(1) by (simp add: net_display_def)
  have pne: "?P \<noteq> []" using ports(1) port_range_display_ne by (intro join_ne) auto
  have "set ?P \<subseteq> set '','' \<union> \<Union> (set ` set (map port_range_display (ns_ports s)))" by (rule set_join)
  then have "list_all is_port_char ?P"
    using port_range_chars by (fastforce simp: list_all_iff is_port_char_def)
  then have pc: "list_all is_port_char ?P" "CHR '':'' \<notin> set ?P" "CHR ''*'' \<notin> set ?P"
    by (auto simp: list_all_iff is_port_char_def is_digit_def)
  have sp: "split_host_port (net_display s) = (?H, Some ?P)"
    using pne pc unfolding split_host_port_def d rfind_append [OF pc(2)] by (simp add: Let_def)
  have last: "last (net_display s) \<in> set ?P" using pne unfolding d by simp
  have "net_display s \<noteq> []" unfolding d by simp
  moreover have "net_display s \<noteq> ''*''" "net_display s \<noteq> ''*:*''" using last pc(3) by auto
  ultimately have special: "net_display s \<noteq> []" "net_display s \<noteq> ''*''" "net_display s \<noteq> ''*:*''" by simp_all
  have segs: "split_char CHR '','' ?P = map port_range_display (ns_ports s)"
    using ports(1) port_range_chars by (intro split_join) (fastforce simp: list_all_iff)+
  have pp: "List.map_filter (parse_port_segment trim) (map port_range_display (ns_ports s)) = ns_ports s"
    using ports(2) parse_port_display [OF trim] by (intro map_filter_all) simp
  have hh: "(if ?H = ''*'' \<or> ?H = [] then []
      else filter (\<lambda>h. h \<noteq> []) (map (\<lambda>h. lower (trim h)) (split_char CHR '','' ?H))) = ns_hosts s"
  proof (cases "ns_hosts s = []")
    case ne: False
    have "join '','' (ns_hosts s) \<noteq> ''*''" using join_single hosts star by blast
    moreover have "join '','' (ns_hosts s) \<noteq> []" using ne hosts by (intro join_ne) auto
    moreover have "split_char CHR '','' (join '','' (ns_hosts s)) = ns_hosts s" using ne hosts by (intro split_join) auto
    moreover have "filter (\<lambda>h. h \<noteq> []) (map (\<lambda>h. lower (trim h)) (ns_hosts s)) = ns_hosts s"
      using hosts by (induction "ns_hosts s") (auto simp: map_idI filter_id_conv)
    ultimately show ?thesis using ne by simp
  qed simp
  have "map lower (ns_hosts s) = ns_hosts s" using hosts by (simp add: map_idI)
  then show ?thesis
    using special by (simp add: parse_net_scope_str_def sp segs pp hh Let_def net_new_def del: join.simps)
qed

text \<open>
  What the text of a scope reads back as: a lone star is every host, and without ports the star printed for
  them goes to the last host.
\<close>

definition reread :: "net_scope \<Rightarrow> net_scope" where
  "reread s =
     (if ns_hosts s = [''*''] then s\<lparr>ns_hosts := []\<rparr>
      else if ns_hosts s \<noteq> [] \<and> ns_ports s = [] then
        s\<lparr>ns_hosts := butlast (ns_hosts s) @ [last (ns_hosts s) @ '':*'']\<rparr>
      else s)"

lemma reread_id:
  "reread s = s \<longleftrightarrow> net_is_unrestricted s \<or> ns_ports s \<noteq> [] \<and> ns_hosts s \<noteq> [''*'']"
proof -
  have "butlast hs @ [last hs @ '':*''] \<noteq> hs" if "hs \<noteq> []" for hs :: "string list"
  proof
    assume "butlast hs @ [last hs @ '':*''] = hs"
    then have "last (butlast hs @ [last hs @ '':*'']) = last hs" by simp
    then show False by simp
  qed
  then show ?thesis by (cases s) (auto simp: reread_def net_is_unrestricted_def)
qed

lemma join_snoc_append: "ws \<noteq> [] \<Longrightarrow> join sep ws @ w = join sep (butlast ws @ [last ws @ w])"
proof (induction sep ws rule: join.induct)
  case (3 sep v u us)
  then show ?case by (cases us) simp_all
qed simp_all

lemma parse_hosts_display:
  assumes hosts: "\<forall>h \<in> set hs. host_text lower trim h" and ne: "hs \<noteq> []" and star: "hs \<noteq> [''*'']"
  shows "parse_net_scope_str lower trim (Some (net_display \<lparr>ns_hosts = hs, ns_ports = []\<rparr>)) =
    \<lparr>ns_hosts = butlast hs @ [last hs @ '':*''], ns_ports = []\<rparr>"
proof -
  let ?hs = "butlast hs @ [last hs @ '':*'']" and ?J = "join '','' hs"
  have d: "net_display \<lparr>ns_hosts = hs, ns_ports = []\<rparr> = ?J @ '':*''"
    using ne by (simp add: net_display_def net_is_unrestricted_def)
  have J: "?J \<noteq> ''*''" using join_single [of hs] hosts star by (auto simp: host_text_def)
  have ok: "\<forall>h \<in> set ?hs. h \<noteq> [] \<and> CHR '','' \<notin> set h \<and> lower h = h \<and> trim h = h"
    using hosts ne by (auto simp: host_text_def dest: in_set_butlastD)
  have segs: "split_char CHR '','' (?J @ '':*'') = ?hs"
    unfolding join_snoc_append [OF ne] using ok by (intro split_join) auto
  have "rfind CHR '':'' (?J @ CHR '':'' # ''*'') = Some (length ?J)" by (rule rfind_append) simp
  then have sp: "split_host_port (?J @ '':*'') = (?J @ '':*'', None)"
    by (simp add: split_host_port_def is_port_char_def is_digit_def)
  have fl: "filter (\<lambda>h. h \<noteq> []) (map (\<lambda>h. lower (trim h)) ?hs) = ?hs" "map lower ?hs = ?hs"
    using ok by (simp_all only: map_idI filter_id_conv) (auto intro!: map_idI)
  have "?J @ '':*'' \<noteq> ''*:*''" using J by (cases ?J) (auto simp: append_eq_Cons_conv)
  moreover have "?J @ '':*'' \<noteq> ''*''" "?J @ '':*'' \<noteq> []" by (cases ?J; simp)+
  ultimately show ?thesis
    unfolding d by (simp add: parse_net_scope_str_def sp segs fl net_new_def Let_def del: map_append filter_append)
qed

lemma parse_net_reread:
  assumes trim: "trim_ok trim" and ok: "well_formed_scope lower trim s"
  shows "parse_net_scope_str lower trim (Some (net_display s)) = reread s"
proof -
  have printed: "parse_net_scope_str lower trim (Some (net_display t)) = t"
    if "ns_ports t \<noteq> []" "ns_hosts t \<noteq> [''*'']" "well_formed_scope lower trim t" for t
    using that by (intro parse_net_display [OF trim]) (auto simp: printable_scope_def well_formed_scope_def host_text_def)
  obtain hs ps where s: "s = \<lparr>ns_hosts = hs, ns_ports = ps\<rparr>" by (cases s)
  consider "hs = [''*'']" "ps = []" | "hs = [''*'']" "ps \<noteq> []" | "hs \<noteq> [''*'']" "ps \<noteq> []" | "hs = []" "ps = []"
    | "hs \<noteq> [''*'']" "hs \<noteq> []" "ps = []" by blast
  then show ?thesis
  proof cases
    case 1
    then show ?thesis
      by (simp add: s reread_def net_display_def net_is_unrestricted_def parse_net_scope_str_def net_unrestricted_def)
  next
    case 2
    let ?t = "\<lparr>ns_hosts = [], ns_ports = ps\<rparr>"
    have "net_display s = net_display ?t" using 2 by (simp add: s net_display_def net_is_unrestricted_def)
    with printed [of ?t] 2 ok show ?thesis by (simp add: s reread_def well_formed_scope_def)
  next
    case 3
    with printed [of s] ok show ?thesis by (simp add: s reread_def)
  next
    case 4
    then show ?thesis
      by (simp add: s reread_def net_display_def net_is_unrestricted_def parse_net_scope_str_def net_unrestricted_def)
  next
    case 5
    with parse_hosts_display [of hs lower trim] ok show ?thesis by (simp add: s reread_def well_formed_scope_def)
  qed
qed

text \<open>A capability over another network scope.\<close>

fun with_scope :: "(net_scope \<Rightarrow> net_scope) \<Rightarrow> capability \<Rightarrow> capability" where
  "with_scope f (TcpConnect s) = TcpConnect (f s)"
| "with_scope f (TcpListen s) = TcpListen (f s)"
| "with_scope f (UdpAccess s) = UdpAccess (f s)"
| "with_scope f (HttpOutgoing s) = HttpOutgoing (f s)"
| "with_scope f c = c"

lemma with_scope_props:
  "net_scope_of (with_scope f c) = map_option f (net_scope_of c)"
  "with_scope f c = c \<longleftrightarrow> (\<forall>s. net_scope_of c = Some s \<longrightarrow> f s = s)"
  "same_kind (with_scope f c) c"
  by (cases c; simp add: same_kind_def)+

lemma parse_display:
  assumes "trim_ok trim" and "well_formed lower trim c"
  shows "cap_from_str lower trim (cap_display c) = Inr (with_scope reread c)"
proof -
  have p: "path_new (path_root q) = q" if "strip_slashes (path_root q) = path_root q" for q
    using that by (cases q) (simp add: path_new_def)
  note n = parse_net_reread [OF assms(1)]
  show ?thesis
  proof (cases c)
    case (ResourceAllocate q)
    then show ?thesis by (cases q) (simp_all add: cap_from_str_def numeral_3_eq_3 Let_def)
  qed (use assms(2) in \<open>simp_all add: cap_from_str_def well_formed_def numeral_3_eq_3 Let_def p n\<close>)
qed

section \<open>The boundary of coverage\<close>

text \<open>A host name that a list of patterns does not match: longer than all of them, and without a dot.\<close>

definition stray_host :: "string list \<Rightarrow> string" where
  "stray_host hs = replicate (Suc (sum_list (map length hs))) CHR ''x''"

lemma stray_host_unmatched:
  assumes lower: "\<And>n. lower (replicate n CHR ''x'') = replicate n CHR ''x''" and "ns_hosts s \<noteq> []"
  shows "\<not> matches_host lower s (stray_host (ns_hosts s))"
proof
  let ?x = "stray_host (ns_hosts s)"
  assume m: "matches_host lower s ?x"
  have low: "lower ?x = ?x" by (simp only: stray_host_def lower)
  from m assms(2) obtain h where h: "h \<in> set (ns_hosts s)"
    "case strip_prefix ''*.'' h of Some suffix \<Rightarrow> host_covers suffix ?x | None \<Rightarrow> ?x = h"
    unfolding matches_host_def low list_ex_iff by blast
  have shorter: "length h < length ?x"
    using member_le_sum_list [of "length h" "map length (ns_hosts s)"] h(1) by (simp add: stray_host_def)
  have "CHR ''.'' \<notin> set ?x" by (auto simp: stray_host_def)
  then have "\<not> ends_with ?x (''.'' @ w)" for w by (auto simp: ends_with_iff)
  moreover have "w \<noteq> ?x" if "strip_prefix ''*.'' h = Some w" for w
    using that shorter by (auto simp: strip_prefix_def split: if_splits dest: arg_cong [where f = length])
  ultimately show False using h(2) shorter by (auto simp: host_covers_def split: option.splits)
qed

text \<open>An access over a network scope of the kind of the capability.\<close>

fun net_access :: "capability \<Rightarrow> string \<Rightarrow> u16 \<Rightarrow> access" where
  "net_access (TcpListen _) h p = ListenTcp h p"
| "net_access (UdpAccess _) h p = SendUdp h p"
| "net_access (HttpOutgoing _) h p = SendHttp h p"
| "net_access _ h p = ConnectTcp h p"

lemma uncovered_access:
  assumes "satisfies g r" and "\<not> names_hosts g r"
    and ports: "\<forall>s. net_scope_of r = Some s \<longrightarrow> (\<forall>q \<in> set (ns_ports s). pr_start q \<le> pr_end q)"
    and lower: "\<And>n. lower (replicate n CHR ''x'') = replicate n CHR ''x''"
  shows "\<exists>acc. allows lower r acc \<and> \<not> allows lower g acc"
proof -
  obtain s t where st: "net_scope_of g = Some s" "net_scope_of r = Some t" and hosts: "ns_hosts t = []" "ns_hosts s \<noteq> []"
    using assms(2) by (auto simp: names_hosts_def split: option.splits)
  have kind: "allows lower g (net_access r h p) \<longleftrightarrow> net_allows lower s h p"
    "allows lower r (net_access r h p) \<longleftrightarrow> net_allows lower t h p" "net_contains_scope s t" for h p
    using st assms(1) by (cases g; cases r; simp)+
  have "ns_ports t \<noteq> []" using kind(3) hosts by (auto simp: net_contains_scope_def net_is_unrestricted_def)
  then obtain q where q: "q \<in> set (ns_ports t)" by (cases "ns_ports t") auto
  then have "matches_port t (pr_start q)"
    using ports st(2) by (auto simp: matches_port_def list_ex_iff port_contains_def)
  then have "net_allows lower t h (pr_start q)" for h using hosts(1) by (simp add: net_allows_def matches_host_def)
  moreover have "\<not> net_allows lower s (stray_host (ns_hosts s)) (pr_start q)"
    using stray_host_unmatched [OF lower hosts(2)] by (simp add: net_allows_def)
  ultimately show ?thesis using kind by blast
qed

end
