(* ===== verification/Sec_Resolver.thy ===== *)
theory Sec_Resolver
  imports Sec_Capability Torvyn_Types
begin

text \<open>
  From declarations to a sandbox: \<open>manifest.rs\<close> (what a component declares and an operator grants),
  \<open>resolver.rs\<close> (the resolution), \<open>guard.rs\<close> (the checks at run time), \<open>audit.rs\<close> (the events),
  \<open>error.rs\<close>, \<open>tenant.rs\<close> and \<open>sandbox.rs\<close> of \<open>torvyn-security\<close>.

  The process-wide sequence counter of the audit events and the events that a sink has received are
  a state of their own; \<open>clock\<close> gives the wall clock at the moment the event with a sequence number
  is made. A sink stands for the list of the events it was given.
\<close>

section \<open>Declarations and grants\<close>

record component_capabilities =
  cc_required :: "capability list"
  cc_optional :: "capability list"

definition cc_empty :: component_capabilities where
  "cc_empty = \<lparr>cc_required = [], cc_optional = []\<rparr>"

definition cc_all :: "component_capabilities \<Rightarrow> capability list" where
  "cc_all cc = cc_required cc @ cc_optional cc"

type_synonym text_ops = "(string \<Rightarrow> string) \<times> (string \<Rightarrow> string)"

definition parse_capability :: "text_ops \<Rightarrow> string \<Rightarrow> capability_parse_error + capability" where
  "parse_capability ops s = cap_from_str (fst ops) (snd ops) s"

text \<open>The loop of \<open>from_strings\<close>: a leading question mark makes a capability optional.\<close>

fun cc_parse ::
    "text_ops \<Rightarrow> string list \<Rightarrow> component_capabilities \<Rightarrow> capability_parse_error list \<Rightarrow>
     component_capabilities \<times> capability_parse_error list" where
  "cc_parse ops [] cc errs = (cc, errs)"
| "cc_parse ops (s # ss) cc errs =
     (let (optional, cap_str) = (case strip_prefix ''?'' s of Some rest \<Rightarrow> (True, rest) | None \<Rightarrow> (False, s))
      in case parse_capability ops cap_str of
           Inr cap \<Rightarrow>
             cc_parse ops ss
               (if optional then cc\<lparr>cc_optional := cc_optional cc @ [cap]\<rparr>
                else cc\<lparr>cc_required := cc_required cc @ [cap]\<rparr>) errs
         | Inl e \<Rightarrow> cc_parse ops ss cc (errs @ [e]))"

definition cc_from_strings :: "text_ops \<Rightarrow> string list \<Rightarrow> capability_parse_error list + component_capabilities" where
  "cc_from_strings ops ss =
     (case cc_parse ops ss cc_empty [] of (cc, errs) \<Rightarrow> if errs = [] then Inr cc else Inl errs)"

record operator_grants =
  og_grants :: "capability list"

definition og_deny_all :: operator_grants where
  "og_deny_all = \<lparr>og_grants = []\<rparr>"

fun og_parse ::
    "text_ops \<Rightarrow> string list \<Rightarrow> capability list \<Rightarrow> capability_parse_error list \<Rightarrow>
     capability list \<times> capability_parse_error list" where
  "og_parse ops [] gs errs = (gs, errs)"
| "og_parse ops (s # ss) gs errs =
     (case parse_capability ops s of
        Inr cap \<Rightarrow> og_parse ops ss (gs @ [cap]) errs
      | Inl e \<Rightarrow> og_parse ops ss gs (errs @ [e]))"

definition og_from_strings :: "text_ops \<Rightarrow> string list \<Rightarrow> capability_parse_error list + operator_grants" where
  "og_from_strings ops ss =
     (case og_parse ops ss [] [] of (gs, errs) \<Rightarrow> if errs = [] then Inr \<lparr>og_grants = gs\<rparr> else Inl errs)"

section \<open>Errors and warnings\<close>

datatype capability_resolution_error =
    MissingRequired string
  | IncompatibleScope string string

definition tick_quoted :: "string \<Rightarrow> string" where
  "tick_quoted s = [CHR 0x27] @ s @ [CHR 0x27]"

fun resolution_error_display :: "capability_resolution_error \<Rightarrow> string" where
  "resolution_error_display (MissingRequired cap) =
     ''[E0520] Required capability '' @ tick_quoted cap @
     '' is not granted. Add it to the component's grant list in the pipeline configuration.''"
| "resolution_error_display (IncompatibleScope cap detail) =
     ''[E0521] Capability '' @ tick_quoted cap @ '' scope is incompatible: '' @ detail @
     ''. Verify that the operator grant scope covers the component's request.''"

datatype resolution_warning =
    OptionalNotGranted string
  | UnusedGrant string

fun resolution_warning_display :: "resolution_warning \<Rightarrow> string" where
  "resolution_warning_display (OptionalNotGranted cap) =
     ''Optional capability '' @ tick_quoted cap @
     '' was not granted. The component will function without it but may have reduced functionality.''"
| "resolution_warning_display (UnusedGrant cap) =
     ''Grant for '' @ tick_quoted cap @
     '' was not requested by any component. This may indicate a configuration error.''"

datatype sandbox_error =
    CapabilityResolutionFailed component_id "capability_resolution_error list"
  | WasiConfigFailed component_id string

section \<open>Hot-path flags\<close>

record hot_path_capabilities =
  hp_resource_allocate :: bool
  hp_emit_backpressure :: bool
  hp_custom_metrics :: bool
  hp_inspect_flow_meta :: bool

definition hp_deny_all :: hot_path_capabilities where
  "hp_deny_all =
     \<lparr>hp_resource_allocate = False, hp_emit_backpressure = False, hp_custom_metrics = False,
      hp_inspect_flow_meta = False\<rparr>"

fun hp_add :: "capability \<Rightarrow> hot_path_capabilities \<Rightarrow> hot_path_capabilities" where
  "hp_add (ResourceAllocate _) hp = hp\<lparr>hp_resource_allocate := True\<rparr>"
| "hp_add EmitBackpressure hp = hp\<lparr>hp_emit_backpressure := True\<rparr>"
| "hp_add CustomMetrics hp = hp\<lparr>hp_custom_metrics := True\<rparr>"
| "hp_add InspectFlowMeta hp = hp\<lparr>hp_inspect_flow_meta := True\<rparr>"
| "hp_add _ hp = hp"

definition hp_from_capabilities :: "capability list \<Rightarrow> hot_path_capabilities" where
  "hp_from_capabilities caps = fold hp_add caps hp_deny_all"

section \<open>Resolution\<close>

record resolved_set =
  rs_capabilities :: "capability list"
  rs_hot_path :: hot_path_capabilities

definition rs_new :: "capability list \<Rightarrow> resolved_set" where
  "rs_new caps = \<lparr>rs_capabilities = caps, rs_hot_path = hp_from_capabilities caps\<rparr>"

definition rs_empty :: resolved_set where
  "rs_empty = \<lparr>rs_capabilities = [], rs_hot_path = hp_deny_all\<rparr>"

definition permits :: "resolved_set \<Rightarrow> capability \<Rightarrow> bool" where
  "permits rs requested \<longleftrightarrow> list_ex (\<lambda>granted. satisfies granted requested) (rs_capabilities rs)"

definition has_capability_by_name :: "text_ops \<Rightarrow> resolved_set \<Rightarrow> string \<Rightarrow> bool" where
  "has_capability_by_name ops rs name =
     (case parse_capability ops name of Inr requested \<Rightarrow> permits rs requested | Inl _ \<Rightarrow> False)"

fun find_grant_from :: "nat \<Rightarrow> capability \<Rightarrow> capability list \<Rightarrow> (nat \<times> capability) option" where
  "find_grant_from i request [] = None"
| "find_grant_from i request (g # gs) =
     (case cap_intersect g request of
        Some effective \<Rightarrow> Some (i, effective)
      | None \<Rightarrow> find_grant_from (i + 1) request gs)"

definition find_matching_grant :: "capability \<Rightarrow> operator_grants \<Rightarrow> (nat \<times> capability) option" where
  "find_matching_grant request grants = find_grant_from 0 request (og_grants grants)"

record resolution_state =
  rv_errors :: "capability_resolution_error list"
  rv_warnings :: "resolution_warning list"
  rv_resolved :: "capability list"
  rv_matched :: "nat list"

definition resolve_required :: "operator_grants \<Rightarrow> capability \<Rightarrow> resolution_state \<Rightarrow> resolution_state" where
  "resolve_required grants required st =
     (case find_matching_grant required grants of
        Some (i, effective) \<Rightarrow>
          st\<lparr>rv_matched := i # rv_matched st, rv_resolved := rv_resolved st @ [effective]\<rparr>
      | None \<Rightarrow>
          if list_ex (\<lambda>g. same_kind g required) (og_grants grants) then
            st\<lparr>rv_errors := rv_errors st @ [IncompatibleScope (cap_display required)
                 (''a grant of the same kind exists but its scope does not cover the requested scope '' @
                  tick_quoted (cap_display required))]\<rparr>
          else st\<lparr>rv_errors := rv_errors st @ [MissingRequired (cap_display required)]\<rparr>)"

definition resolve_optional :: "operator_grants \<Rightarrow> capability \<Rightarrow> resolution_state \<Rightarrow> resolution_state" where
  "resolve_optional grants optional st =
     (case find_matching_grant optional grants of
        Some (i, effective) \<Rightarrow>
          st\<lparr>rv_matched := i # rv_matched st, rv_resolved := rv_resolved st @ [effective]\<rparr>
      | None \<Rightarrow> st\<lparr>rv_warnings := rv_warnings st @ [OptionalNotGranted (cap_display optional)]\<rparr>)"

definition unused_grant :: "nat list \<Rightarrow> nat \<times> capability \<Rightarrow> resolution_warning list" where
  "unused_grant matched ig = (if fst ig \<in> set matched then [] else [UnusedGrant (cap_display (snd ig))])"

record resolution_result =
  rr_resolved :: resolved_set
  rr_warnings :: "resolution_warning list"

definition resolve ::
    "component_capabilities \<Rightarrow> operator_grants \<Rightarrow> capability_resolution_error list + resolution_result" where
  "resolve cc grants =
     (let st = \<lparr>rv_errors = [], rv_warnings = [], rv_resolved = [], rv_matched = []\<rparr>;
          st = fold (resolve_required grants) (cc_required cc) st;
          st = fold (resolve_optional grants) (cc_optional cc) st;
          warnings = rv_warnings st @
            concat (map (unused_grant (rv_matched st)) (enumerate 0 (og_grants grants)))
      in if rv_errors st \<noteq> [] then Inl (rv_errors st)
         else Inr \<lparr>rr_resolved = rs_new (rv_resolved st), rr_warnings = warnings\<rparr>)"

section \<open>Audit\<close>

datatype tenant_id = TenantId (tenant_as_str: string)

definition default_tenant :: tenant_id where
  "default_tenant = TenantId ''default''"

definition tenant_is_default :: "tenant_id \<Rightarrow> bool" where
  "tenant_is_default t \<longleftrightarrow> tenant_as_str t = ''default''"

datatype audit_severity = Info | Warning | Critical

fun audit_severity_display :: "audit_severity \<Rightarrow> string" where
  "audit_severity_display Info = ''INFO''"
| "audit_severity_display Warning = ''WARN''"
| "audit_severity_display Critical = ''CRIT''"

datatype audit_event_kind =
    ComponentInstantiated "string list"
  | ComponentTerminated string
  | FlowStarted "u64 list"
  | FlowTerminated string u64
  | CapabilityGrantResolved string string string
  | CapabilityDeniedAtLink string string
  | CapabilityExercised string "string option"
  | CapabilityExercisedAggregate string u64 u64
  | CapabilityDeniedAtRuntime string string
  | CapabilityResolutionWarning string
  | SandboxViolation string string

fun audit_event_kind_display :: "audit_event_kind \<Rightarrow> string" where
  "audit_event_kind_display (ComponentInstantiated caps) =
     ''component_instantiated: caps=['' @ join '', '' caps @ '']''"
| "audit_event_kind_display (ComponentTerminated reason) = ''component_terminated: '' @ reason"
| "audit_event_kind_display (FlowStarted ids) =
     ''flow_started: components=['' @ join '', '' (map (\<lambda>i. decimal (unat i)) ids) @ '']''"
| "audit_event_kind_display (FlowTerminated reason n) =
     ''flow_terminated: '' @ reason @ '' ('' @ decimal (unat n) @ '' elements)''"
| "audit_event_kind_display (CapabilityGrantResolved req grant eff) =
     ''cap_resolved: req='' @ req @ '', grant='' @ grant @ '', eff='' @ eff"
| "audit_event_kind_display (CapabilityDeniedAtLink cap reason) = ''cap_denied_link: '' @ cap @ '': '' @ reason"
| "audit_event_kind_display (CapabilityExercised cap detail) =
     ''cap_exercised: '' @ cap @ (case detail of None \<Rightarrow> [] | Some d \<Rightarrow> '' ('' @ d @ '')'')"
| "audit_event_kind_display (CapabilityExercisedAggregate cap n ms) =
     ''cap_exercised_agg: '' @ cap @ '' x'' @ decimal (unat n) @ '' in '' @ decimal (unat ms) @ ''ms''"
| "audit_event_kind_display (CapabilityDeniedAtRuntime cap detail) =
     ''cap_denied_runtime: '' @ cap @ '': '' @ detail"
| "audit_event_kind_display (CapabilityResolutionWarning detail) = ''cap_resolution_warn: '' @ detail"
| "audit_event_kind_display (SandboxViolation v detail) = ''sandbox_violation: '' @ v @ '': '' @ detail"

record audit_event =
  ae_sequence :: u64
  ae_timestamp_ns :: u64
  ae_severity :: audit_severity
  ae_tenant_id :: "tenant_id option"
  ae_component_id :: "component_id option"
  ae_flow_id :: "flow_id option"
  ae_event :: audit_event_kind

record audit_log =
  al_sequence :: u64
  al_events :: "audit_event list"

definition audit_event_new ::
    "(u64 \<Rightarrow> u64) \<Rightarrow> audit_severity \<Rightarrow> component_id option \<Rightarrow> flow_id option \<Rightarrow> tenant_id option \<Rightarrow>
     audit_event_kind \<Rightarrow> audit_log \<Rightarrow> audit_event \<times> audit_log" where
  "audit_event_new clock severity c f t kind log =
     (\<lparr>ae_sequence = al_sequence log, ae_timestamp_ns = clock (al_sequence log), ae_severity = severity,
       ae_tenant_id = t, ae_component_id = c, ae_flow_id = f, ae_event = kind\<rparr>,
      log\<lparr>al_sequence := al_sequence log + 1\<rparr>)"

definition record_sync :: "audit_event \<times> audit_log \<Rightarrow> audit_log" where
  "record_sync el = (case el of (e, log) \<Rightarrow> log\<lparr>al_events := al_events log @ [e]\<rparr>)"

section \<open>The guard\<close>

record capability_guard =
  cg_component_id :: component_id
  cg_resolved :: resolved_set

record capability_denied =
  cd_component_id :: component_id
  cd_capability :: capability

definition guard_check ::
    "(u64 \<Rightarrow> u64) \<Rightarrow> capability_guard \<Rightarrow> capability \<Rightarrow> audit_log \<Rightarrow> (capability_denied + unit) \<times> audit_log" where
  "guard_check clock g cap log =
     (let authorized = permits (cg_resolved g) cap;
          log = record_sync (audit_event_new clock (if authorized then Info else Critical)
                  (Some (cg_component_id g)) None None
                  (if authorized then CapabilityExercised (cap_display cap) None
                   else CapabilityDeniedAtRuntime (cap_display cap) ''capability not in resolved set'') log)
      in (if authorized then Inr () else Inl \<lparr>cd_component_id = cg_component_id g, cd_capability = cap\<rparr>, log))"

section \<open>The sandbox\<close>

record cpu_budget =
  cb_fuel_per_invocation :: u64
  cb_timeout :: nat
  cb_auto_refuel :: bool

definition cpu_budget_default :: cpu_budget where
  "cpu_budget_default = \<lparr>cb_fuel_per_invocation = 10000000, cb_timeout = 5 * 1000000000, cb_auto_refuel = True\<rparr>"

record resource_budget =
  rb_max_buffer_bytes :: u64
  rb_max_handles :: u32
  rb_max_allocations_per_second :: "u32 option"

definition resource_budget_default :: resource_budget where
  "resource_budget_default =
     \<lparr>rb_max_buffer_bytes = 64 * 1024 * 1024, rb_max_handles = 1024, rb_max_allocations_per_second = None\<rparr>"

record preopened_dir =
  pd_host_path :: string
  pd_guest_path :: string
  pd_read :: bool
  pd_write :: bool

record wasi_configuration =
  wc_preopened_dirs :: "preopened_dir list"
  wc_wall_clock :: bool
  wc_monotonic_clock :: bool
  wc_crypto_random :: bool
  wc_insecure_random :: bool
  wc_environment :: bool
  wc_stdout :: bool
  wc_stderr :: bool
  wc_tcp_connect :: bool
  wc_tcp_listen :: bool
  wc_udp :: bool
  wc_http_outgoing :: bool

definition wasi_deny_all :: wasi_configuration where
  "wasi_deny_all =
     \<lparr>wc_preopened_dirs = [], wc_wall_clock = False, wc_monotonic_clock = False, wc_crypto_random = False,
      wc_insecure_random = False, wc_environment = False, wc_stdout = False, wc_stderr = False,
      wc_tcp_connect = False, wc_tcp_listen = False, wc_udp = False, wc_http_outgoing = False\<rparr>"

text \<open>The first preopen of a path becomes writable; \<open>None\<close> when there is none.\<close>

fun make_writable :: "string \<Rightarrow> preopened_dir list \<Rightarrow> preopened_dir list option" where
  "make_writable root [] = None"
| "make_writable root (d # ds) =
     (if pd_host_path d = root then Some (d\<lparr>pd_write := True\<rparr> # ds)
      else map_option ((#) d) (make_writable root ds))"

definition add_read_dir :: "path_scope \<Rightarrow> preopened_dir list \<Rightarrow> preopened_dir list" where
  "add_read_dir p ds =
     ds @ [\<lparr>pd_host_path = path_root p, pd_guest_path = path_root p, pd_read = True, pd_write = False\<rparr>]"

definition add_write_dir :: "path_scope \<Rightarrow> preopened_dir list \<Rightarrow> preopened_dir list" where
  "add_write_dir p ds =
     (case make_writable (path_root p) ds of
        Some ds' \<Rightarrow> ds'
      | None \<Rightarrow>
          ds @ [\<lparr>pd_host_path = path_root p, pd_guest_path = path_root p, pd_read = False, pd_write = True\<rparr>])"

fun wasi_add :: "capability \<Rightarrow> wasi_configuration \<Rightarrow> wasi_configuration" where
  "wasi_add (FilesystemRead p) wc = wc\<lparr>wc_preopened_dirs := add_read_dir p (wc_preopened_dirs wc)\<rparr>"
| "wasi_add (FilesystemWrite p) wc = wc\<lparr>wc_preopened_dirs := add_write_dir p (wc_preopened_dirs wc)\<rparr>"
| "wasi_add (TcpConnect _) wc = wc\<lparr>wc_tcp_connect := True\<rparr>"
| "wasi_add (TcpListen _) wc = wc\<lparr>wc_tcp_listen := True\<rparr>"
| "wasi_add (UdpAccess _) wc = wc\<lparr>wc_udp := True\<rparr>"
| "wasi_add (HttpOutgoing _) wc = wc\<lparr>wc_http_outgoing := True\<rparr>"
| "wasi_add WallClock wc = wc\<lparr>wc_wall_clock := True\<rparr>"
| "wasi_add MonotonicClock wc = wc\<lparr>wc_monotonic_clock := True\<rparr>"
| "wasi_add CryptoRandom wc = wc\<lparr>wc_crypto_random := True\<rparr>"
| "wasi_add InsecureRandom wc = wc\<lparr>wc_insecure_random := True\<rparr>"
| "wasi_add Environment wc = wc\<lparr>wc_environment := True\<rparr>"
| "wasi_add Stdout wc = wc\<lparr>wc_stdout := True\<rparr>"
| "wasi_add Stderr wc = wc\<lparr>wc_stderr := True\<rparr>"
| "wasi_add _ wc = wc"

definition wasi_from_resolved :: "resolved_set \<Rightarrow> wasi_configuration" where
  "wasi_from_resolved rs = fold wasi_add (rs_capabilities rs) wasi_deny_all"

fun parse_all :: "text_ops \<Rightarrow> string list \<Rightarrow> capability_parse_error + capability list" where
  "parse_all ops [] = Inr []"
| "parse_all ops (s # ss) =
     (case parse_capability ops s of
        Inl e \<Rightarrow> Inl e
      | Inr c \<Rightarrow> (case parse_all ops ss of Inl e \<Rightarrow> Inl e | Inr cs \<Rightarrow> Inr (c # cs)))"

definition wasi_from_grant_strings :: "text_ops \<Rightarrow> string list \<Rightarrow> capability_parse_error + wasi_configuration" where
  "wasi_from_grant_strings ops ss =
     (case parse_all ops ss of Inl e \<Rightarrow> Inl e | Inr caps \<Rightarrow> Inr (wasi_from_resolved (rs_new caps)))"

record sandbox_config =
  sx_component :: component_id
  sx_tenant :: tenant_id
  sx_resolved :: resolved_set
  sx_wasi :: wasi_configuration
  sx_cpu_budget :: cpu_budget
  sx_resource_budget :: resource_budget

definition sandbox_configure ::
    "(u64 \<Rightarrow> u64) \<Rightarrow> component_id \<Rightarrow> tenant_id \<Rightarrow> component_capabilities \<Rightarrow> operator_grants \<Rightarrow>
     resource_budget \<Rightarrow> cpu_budget \<Rightarrow> audit_log \<Rightarrow> (sandbox_error + sandbox_config) \<times> audit_log" where
  "sandbox_configure clock c t cc grants rb cb log =
     (case resolve cc grants of
        Inl errors \<Rightarrow> (Inl (CapabilityResolutionFailed c errors), log)
      | Inr result \<Rightarrow>
          let log = fold (\<lambda>w log. record_sync (audit_event_new clock Warning (Some c) None (Some t)
                      (CapabilityResolutionWarning (resolution_warning_display w)) log)) (rr_warnings result) log;
              wasi = wasi_from_resolved (rr_resolved result);
              log = record_sync (audit_event_new clock Info (Some c) None (Some t)
                      (ComponentInstantiated (map cap_display (rs_capabilities (rr_resolved result)))) log)
          in (Inr \<lparr>sx_component = c, sx_tenant = t, sx_resolved = rr_resolved result, sx_wasi = wasi,
                   sx_cpu_budget = cb, sx_resource_budget = rb\<rparr>, log))"

end
