(* ===== verification/Sec_Props.thy ===== *)
theory Sec_Props
  imports Sec_Scope Sec_Resolver
begin

text \<open>
  What the security layer guarantees: which capabilities read back from their text, when a grant that
  satisfies a request covers every access of it, resolution is exact, and a sandbox enables nothing that
  was not both requested and granted.
\<close>

section \<open>Text operations on ASCII\<close>

text \<open>Instances of \<open>to_lowercase\<close> and \<open>trim\<close> on ASCII text, for concrete inputs.\<close>

definition ascii_lower :: "string \<Rightarrow> string" where
  "ascii_lower s = map (\<lambda>c. if (65 :: nat) \<le> of_char c \<and> (of_char c :: nat) \<le> 90 then char_of (of_char c + 32 :: nat) else c) s"

definition ascii_space :: "char \<Rightarrow> bool" where
  "ascii_space c \<longleftrightarrow> (of_char c :: nat) \<in> {9, 10, 11, 12, 13, 32}"

definition ascii_trim :: "string \<Rightarrow> string" where
  "ascii_trim s = rev (dropWhile ascii_space (rev (dropWhile ascii_space s)))"

lemma ascii_trim_none: "\<forall>c \<in> set s. \<not> ascii_space c \<Longrightarrow> ascii_trim s = s"
proof -
  assume s: "\<forall>c \<in> set s. \<not> ascii_space c"
  have "dropWhile ascii_space w = w" if "\<forall>c \<in> set w. \<not> ascii_space c" for w
    using that by (cases w) simp_all
  from this [of s] this [of "rev s"] s show ?thesis by (simp add: ascii_trim_def)
qed

lemma ascii_trim_ok: "trim_ok ascii_trim"
proof -
  have "\<not> ascii_space c" if "is_port_char c" for c
    using that by (auto simp: is_port_char_def is_digit_def ascii_space_def)
  then show ?thesis by (auto simp: trim_ok_def list_all_iff intro: ascii_trim_none)
qed

section \<open>Capabilities and their text\<close>

text \<open>
  C23. The text of every capability parses again, to a capability of the same kind, when its parts are as
  the constructors leave them: normalised paths, ordered port ranges, host names in lower case without
  commas. It reads back as itself exactly if its network scope, when it has one, is unrestricted or lists
  ports and is not the lone host \<open>*\<close>. A scope that names hosts and no ports does not read back: the star
  printed for the ports becomes part of the name of the last host.
\<close>

theorem capability_text_roundtrip:
  assumes "trim_ok trim" and "well_formed lower trim c"
  shows "\<exists>c'. cap_from_str lower trim (cap_display c) = Inr c' \<and> same_kind c' c \<and>
    (c' = c \<longleftrightarrow>
      (\<forall>s. net_scope_of c = Some s \<longrightarrow> net_is_unrestricted s \<or> ns_ports s \<noteq> [] \<and> ns_hosts s \<noteq> [''*''])) \<and>
    (\<forall>s. net_scope_of c = Some s \<and> ns_ports s = [] \<and> ns_hosts s \<noteq> [] \<and> ns_hosts s \<noteq> [''*''] \<longrightarrow>
      net_scope_of c' =
        Some \<lparr>ns_hosts = butlast (ns_hosts s) @ [last (ns_hosts s) @ '':*''], ns_ports = []\<rparr>)"
  using parse_display [OF assms] reread_id with_scope_props [of reread c] by (auto simp: reread_def)

definition demo_net :: net_scope where
  "demo_net = \<lparr>ns_hosts = [''a.io'', ''*.lan''],
     ns_ports = [\<lparr>pr_start = 443, pr_end = 443\<rparr>, \<lparr>pr_start = 80, pr_end = 81\<rparr>]\<rparr>"

theorem capability_text_roundtrip_witness:
  "cap_display (TcpConnect demo_net) = ''network:tcp-connect:a.io,*.lan:443,80-81'' \<and>
   cap_from_str ascii_lower ascii_trim (cap_display (TcpConnect demo_net)) = Inr (TcpConnect demo_net) \<and>
   cap_from_str ascii_lower ascii_trim (cap_display (TcpConnect (demo_net\<lparr>ns_ports := []\<rparr>))) =
     Inr (TcpConnect \<lparr>ns_hosts = [''a.io'', ''*.lan:*''], ns_ports = []\<rparr>)"
proof -
  have h: "host_text ascii_lower ascii_trim ''a.io''" "host_text ascii_lower ascii_trim ''*.lan''"
    by (auto simp: host_text_def ascii_lower_def ascii_trim_def ascii_space_def)
  have "well_formed ascii_lower ascii_trim (TcpConnect demo_net)"
    using h by (simp add: well_formed_def well_formed_scope_def demo_net_def)
  from capability_text_roundtrip [OF ascii_trim_ok this]
  have "cap_from_str ascii_lower ascii_trim (cap_display (TcpConnect demo_net)) = Inr (TcpConnect demo_net)"
    by (auto simp: demo_net_def)
  moreover have "well_formed ascii_lower ascii_trim (TcpConnect (demo_net\<lparr>ns_ports := []\<rparr>))"
    using h by (simp add: well_formed_def well_formed_scope_def demo_net_def)
  from capability_text_roundtrip [OF ascii_trim_ok this]
  have "cap_from_str ascii_lower ascii_trim (cap_display (TcpConnect (demo_net\<lparr>ns_ports := []\<rparr>))) =
     Inr (TcpConnect \<lparr>ns_hosts = [''a.io'', ''*.lan:*''], ns_ports = []\<rparr>)"
    by (auto simp: demo_net_def same_kind_def elim!: net_scope_of.elims)
  moreover have "cap_display (TcpConnect demo_net) = ''network:tcp-connect:a.io,*.lan:443,80-81''"
    by (simp add: demo_net_def net_display_def net_is_unrestricted_def port_range_display_def decimal.simps char_of_def bit_0)
  ultimately show ?thesis by simp
qed

section \<open>Coverage\<close>

text \<open>
  C24. When a grant satisfies a request, every access that the request allows is allowed by the grant,
  in all cases but one, and in that one never: a network request that lists no hosts, and so means all of
  them, passes for a grant that lists some, and then allows an access that the grant does not. (A
  granted directory is not the empty path, port ranges are ordered, lower case keeps lower-case ASCII
  letters.)
\<close>

theorem grant_covers_every_access:
  assumes "satisfies g r" and "path_of g \<noteq> Some []"
    and "\<forall>s. net_scope_of r = Some s \<longrightarrow> (\<forall>q \<in> set (ns_ports s). pr_start q \<le> pr_end q)"
    and "\<And>n. lower (replicate n CHR ''x'') = replicate n CHR ''x''"
  shows "(\<forall>acc. allows lower r acc \<longrightarrow> allows lower g acc) \<longleftrightarrow>
    \<not> (\<exists>s t. net_scope_of g = Some s \<and> net_scope_of r = Some t \<and> ns_hosts s \<noteq> [] \<and> ns_hosts t = [])"
  using satisfies_allows [OF assms(1), of lower] uncovered_access [OF assms(1) _ assms(3,4)] assms(2)
  unfolding names_hosts_iff [symmetric] rooted_def by blast

text \<open>
  The parsed request \<open>network:tcp-connect:*:443\<close> asks for one port of every host, and a grant of one host at
  this port satisfies it.
\<close>

theorem grant_covers_every_access_witness:
  "(let r = TcpConnect \<lparr>ns_hosts = [''db.lan''], ns_ports = [\<lparr>pr_start = 81, pr_end = 81\<rparr>]\<rparr>
    in satisfies (TcpConnect demo_net) r \<and>
       (\<forall>acc. allows ascii_lower r acc \<longrightarrow> allows ascii_lower (TcpConnect demo_net) acc)) \<and>
   (let r = TcpConnect \<lparr>ns_hosts = [], ns_ports = [\<lparr>pr_start = 81, pr_end = 81\<rparr>]\<rparr>
    in satisfies (TcpConnect demo_net) r \<and>
       \<not> (\<forall>acc. allows ascii_lower r acc \<longrightarrow> allows ascii_lower (TcpConnect demo_net) acc))"
proof -
  let ?r = "\<lambda>hs. TcpConnect \<lparr>ns_hosts = hs, ns_ports = [\<lparr>pr_start = 81, pr_end = 81\<rparr>]\<rparr>"
  have h: "host_pattern_covers ''*.lan'' ''db.lan''"
    by (simp add: host_pattern_covers_def strip_prefix_def starts_with_def host_covers_def ends_with_def)
  have s: "satisfies (TcpConnect demo_net) (?r [''db.lan''])" "satisfies (TcpConnect demo_net) (?r [])"
    using h by (simp_all add: demo_net_def net_contains_scope_def net_is_unrestricted_def port_contains_range_def)
  have l: "ascii_lower (replicate n CHR ''x'') = replicate n CHR ''x''" for n by (simp add: ascii_lower_def)
  from grant_covers_every_access [OF s(1), of ascii_lower] grant_covers_every_access [OF s(2), of ascii_lower] l s
  show ?thesis by (simp add: demo_net_def Let_def)
qed

text \<open>The hole at a concrete access: a grant of one host satisfies a request that reaches another.\<close>

lemma all_hosts_hole:
  "satisfies (TcpConnect \<lparr>ns_hosts = [''a.com''], ns_ports = [\<lparr>pr_start = 443, pr_end = 443\<rparr>]\<rparr>)
     (TcpConnect \<lparr>ns_hosts = [], ns_ports = [\<lparr>pr_start = 443, pr_end = 443\<rparr>]\<rparr>) \<and>
   allows ascii_lower (TcpConnect \<lparr>ns_hosts = [], ns_ports = [\<lparr>pr_start = 443, pr_end = 443\<rparr>]\<rparr>) (ConnectTcp ''evil.com'' 443) \<and>
   \<not> allows ascii_lower (TcpConnect \<lparr>ns_hosts = [''a.com''], ns_ports = [\<lparr>pr_start = 443, pr_end = 443\<rparr>]\<rparr>) (ConnectTcp ''evil.com'' 443)"
  by (simp add: net_contains_scope_def net_is_unrestricted_def port_contains_range_def net_allows_def
      matches_host_def matches_port_def port_contains_def strip_prefix_def starts_with_def ascii_lower_def)

text \<open>Scopes are compared as text: a path that climbs out of the granted directory counts as inside it.\<close>

lemma dot_dot_inside: "contains_path (path_new ''/data'') ''/data/../etc/passwd''"
  unfolding path_new_def by (subst strip_slashes.simps) (simp add: contains_path_iff)

section \<open>Resolution\<close>

definition covered :: "operator_grants \<Rightarrow> capability \<Rightarrow> bool" where
  "covered grants c \<longleftrightarrow> (\<exists>g \<in> set (og_grants grants). satisfies g c)"

lemma find_grant_from_None: "find_grant_from i r gs = None \<longleftrightarrow> \<not> list_ex (\<lambda>g. satisfies g r) gs"
  by (induction i r gs rule: find_grant_from.induct) (simp_all add: cap_intersect_eq)

lemma find_grant_from_Some: "find_grant_from i r gs = Some (k, e) \<Longrightarrow> e = r"
  by (induction i r gs rule: find_grant_from.induct) (simp_all add: cap_intersect_eq split: if_splits)

lemma find_matching_grant_cases:
  obtains "find_matching_grant r grants = None" "\<not> covered grants r"
  | k where "find_matching_grant r grants = Some (k, r)" "covered grants r"
proof (cases "find_matching_grant r grants")
  case None
  then have "\<not> covered grants r" by (simp add: find_matching_grant_def find_grant_from_None covered_def list_ex_iff)
  with None show ?thesis by (rule that(1))
next
  case (Some ke)
  obtain k e where ke: "ke = (k, e)" by (cases ke)
  from Some have "find_grant_from 0 r (og_grants grants) \<noteq> None" by (simp add: find_matching_grant_def)
  then have "covered grants r" by (simp add: find_grant_from_None covered_def list_ex_iff)
  moreover have "e = r" using Some ke find_grant_from_Some by (simp add: find_matching_grant_def)
  ultimately show ?thesis using Some ke by (intro that(2)) simp_all
qed

definition required_error :: "operator_grants \<Rightarrow> capability \<Rightarrow> capability_resolution_error" where
  "required_error grants r =
     (if \<exists>g \<in> set (og_grants grants). same_kind g r then
        IncompatibleScope (cap_display r)
          (''a grant of the same kind exists but its scope does not cover the requested scope '' @ tick_quoted (cap_display r))
      else MissingRequired (cap_display r))"

lemma resolve_required_fold:
  "\<exists>ms. fold (resolve_required grants) rs st =
     st\<lparr>rv_errors := rv_errors st @ map (required_error grants) (filter (\<lambda>r. \<not> covered grants r) rs),
        rv_resolved := rv_resolved st @ filter (covered grants) rs, rv_matched := ms\<rparr>"
proof (induction rs arbitrary: st)
  case (Cons r rs)
  show ?case
  proof (cases rule: find_matching_grant_cases [of r grants])
    case 1
    then have "resolve_required grants r st = st\<lparr>rv_errors := rv_errors st @ [required_error grants r]\<rparr>"
      by (simp add: resolve_required_def required_error_def list_ex_iff)
    with Cons.IH [of "resolve_required grants r st"] 1(2) show ?thesis by auto
  next
    case (2 k)
    then have "resolve_required grants r st = st\<lparr>rv_matched := k # rv_matched st, rv_resolved := rv_resolved st @ [r]\<rparr>"
      by (simp add: resolve_required_def)
    with Cons.IH [of "resolve_required grants r st"] 2(2) show ?thesis by auto
  qed
next
  case Nil
  show ?case by (rule exI [of _ "rv_matched st"]) simp
qed

lemma resolve_optional_fold:
  "\<exists>ms. fold (resolve_optional grants) rs st =
     st\<lparr>rv_warnings := rv_warnings st @ map (\<lambda>r. OptionalNotGranted (cap_display r)) (filter (\<lambda>r. \<not> covered grants r) rs),
        rv_resolved := rv_resolved st @ filter (covered grants) rs, rv_matched := ms\<rparr>"
proof (induction rs arbitrary: st)
  case (Cons r rs)
  show ?case
  proof (cases rule: find_matching_grant_cases [of r grants])
    case 1
    then have "resolve_optional grants r st = st\<lparr>rv_warnings := rv_warnings st @ [OptionalNotGranted (cap_display r)]\<rparr>"
      by (simp add: resolve_optional_def)
    with Cons.IH [of "resolve_optional grants r st"] 1(2) show ?thesis by auto
  next
    case (2 k)
    then have "resolve_optional grants r st = st\<lparr>rv_matched := k # rv_matched st, rv_resolved := rv_resolved st @ [r]\<rparr>"
      by (simp add: resolve_optional_def)
    with Cons.IH [of "resolve_optional grants r st"] 2(2) show ?thesis by auto
  qed
next
  case Nil
  show ?case by (rule exI [of _ "rv_matched st"]) simp
qed

lemma resolve_cases:
  obtains (refused) "resolve cc grants = Inl (map (required_error grants) (filter (\<lambda>r. \<not> covered grants r) (cc_required cc)))"
      "\<not> list_all (covered grants) (cc_required cc)"
  | (granted) r where "resolve cc grants = Inr r" "list_all (covered grants) (cc_required cc)"
      "rr_resolved r = rs_new (cc_required cc @ filter (covered grants) (cc_optional cc))"
proof -
  let ?st = "\<lparr>rv_errors = [], rv_warnings = [], rv_resolved = [], rv_matched = []\<rparr>"
  obtain ms where a: "fold (resolve_required grants) (cc_required cc) ?st =
      ?st\<lparr>rv_errors := map (required_error grants) (filter (\<lambda>r. \<not> covered grants r) (cc_required cc)),
          rv_resolved := filter (covered grants) (cc_required cc), rv_matched := ms\<rparr>" (is "_ = ?st1")
    using resolve_required_fold [of grants "cc_required cc" ?st] by auto
  obtain ms' where b: "fold (resolve_optional grants) (cc_optional cc) ?st1 =
      ?st1\<lparr>rv_warnings := map (\<lambda>r. OptionalNotGranted (cap_display r)) (filter (\<lambda>r. \<not> covered grants r) (cc_optional cc)),
           rv_resolved := filter (covered grants) (cc_required cc) @ filter (covered grants) (cc_optional cc), rv_matched := ms'\<rparr>"
    using resolve_optional_fold [of grants "cc_optional cc" ?st1] by auto
  show thesis
  proof (cases "list_all (covered grants) (cc_required cc)")
    case True
    then have "filter (covered grants) (cc_required cc) = cc_required cc" "filter (\<lambda>r. \<not> covered grants r) (cc_required cc) = []"
      by (simp_all add: list_all_iff filter_id_conv filter_empty_conv)
    with a b True show thesis
      by (intro granted [of "\<lparr>rr_resolved = rs_new (cc_required cc @ filter (covered grants) (cc_optional cc)),
            rr_warnings = _\<rparr>"]) (simp_all add: resolve_def Let_def)
  next
    case False
    then have "filter (\<lambda>r. \<not> covered grants r) (cc_required cc) \<noteq> []" by (auto simp: list_all_iff filter_empty_conv)
    with a b False show thesis by (intro refused) (simp_all add: resolve_def Let_def)
  qed
qed

text \<open>
  C25. Resolution is exact: it succeeds precisely when every required capability is covered by a grant,
  and then the component holds exactly its required capabilities and the optional ones that are covered,
  each of which it is permitted; otherwise it reports one error for each required capability that is
  not covered, in order.
\<close>

theorem resolution_exact:
  "case resolve cc grants of
     Inr r \<Rightarrow>
       (\<nexists>c. c \<in> set (cc_required cc) \<and> \<not> (\<exists>g \<in> set (og_grants grants). satisfies g c)) \<and>
       rs_capabilities (rr_resolved r) =
         cc_required cc @ filter (\<lambda>c. \<exists>g \<in> set (og_grants grants). satisfies g c) (cc_optional cc) \<and>
       list_all (permits (rr_resolved r)) (rs_capabilities (rr_resolved r))
   | Inl errs \<Rightarrow>
       errs \<noteq> [] \<and>
       map (\<lambda>e. case e of MissingRequired c \<Rightarrow> c | IncompatibleScope c _ \<Rightarrow> c) errs =
         map cap_display (filter (\<lambda>c. \<not> (\<exists>g \<in> set (og_grants grants). satisfies g c)) (cc_required cc))"
proof (cases rule: resolve_cases [of cc grants])
  case refused
  then have "filter (\<lambda>r. \<not> covered grants r) (cc_required cc) \<noteq> []" by (auto simp: list_all_iff filter_empty_conv)
  with refused(1) show ?thesis by (simp add: covered_def required_error_def comp_def)
next
  case (granted r)
  have "list_all (permits (rs_new caps)) caps" for caps
    using satisfies_refl by (auto simp: list_all_iff permits_def rs_new_def list_ex_iff)
  moreover have "covered grants = (\<lambda>c. \<exists>g \<in> set (og_grants grants). satisfies g c)"
    by (simp add: fun_eq_iff covered_def)
  ultimately show ?thesis using granted by (auto simp: list_all_iff rs_new_def)
qed

theorem resolution_exact_witness:
  "\<exists>r. resolve \<lparr>cc_required = [WallClock], cc_optional = [Stderr, Stdout]\<rparr> \<lparr>og_grants = [Stdout, WallClock]\<rparr> = Inr r \<and>
     rs_capabilities (rr_resolved r) = [WallClock, Stdout]"
proof -
  let ?cc = "\<lparr>cc_required = [WallClock], cc_optional = [Stderr, Stdout]\<rparr>" and ?g = "\<lparr>og_grants = [Stdout, WallClock]\<rparr>"
  have "list_all (covered ?g) (cc_required ?cc)" by (simp add: covered_def)
  then obtain r where r: "resolve ?cc ?g = Inr r" by (cases rule: resolve_cases [of ?cc ?g]) auto
  with resolution_exact [where cc = ?cc and grants = ?g] show ?thesis by simp
qed

section \<open>The sandbox\<close>

text \<open>
  The entries of a WASI configuration that let a component do something, named by the discriminant
  of the capability behind it.
\<close>

definition wasi_enabled :: "wasi_configuration \<Rightarrow> nat list" where
  "wasi_enabled wc =
     map snd (filter fst
       [(wc_tcp_connect wc, cap_kind (TcpConnect net_unrestricted)), (wc_tcp_listen wc, cap_kind (TcpListen net_unrestricted)),
        (wc_udp wc, cap_kind (UdpAccess net_unrestricted)), (wc_http_outgoing wc, cap_kind (HttpOutgoing net_unrestricted)),
        (wc_wall_clock wc, cap_kind WallClock), (wc_monotonic_clock wc, cap_kind MonotonicClock),
        (wc_crypto_random wc, cap_kind CryptoRandom), (wc_insecure_random wc, cap_kind InsecureRandom),
        (wc_environment wc, cap_kind Environment), (wc_stdout wc, cap_kind Stdout), (wc_stderr wc, cap_kind Stderr)])"

definition wasi_readable :: "wasi_configuration \<Rightarrow> string list" where
  "wasi_readable wc = map pd_host_path (filter pd_read (wc_preopened_dirs wc))"

definition wasi_writable :: "wasi_configuration \<Rightarrow> string list" where
  "wasi_writable wc = map pd_host_path (filter pd_write (wc_preopened_dirs wc))"

lemma make_writable_paths:
  "case make_writable r ds of
     None \<Rightarrow> True
   | Some ds' \<Rightarrow>
       set (map pd_host_path (filter pd_read ds')) = set (map pd_host_path (filter pd_read ds)) \<and>
       set (map pd_host_path (filter pd_write ds')) = insert r (set (map pd_host_path (filter pd_write ds)))"
  by (induction ds) (auto split: option.splits)

lemma add_write_dir_paths:
  "set (map pd_host_path (filter pd_read (add_write_dir p ds))) = set (map pd_host_path (filter pd_read ds))"
  "set (map pd_host_path (filter pd_write (add_write_dir p ds))) = insert (path_root p) (set (map pd_host_path (filter pd_write ds)))"
  using make_writable_paths [of ds "path_root p"]
  by (cases "make_writable (path_root p) ds"; simp add: add_write_dir_def)+

lemma add_read_dir_paths:
  "set (map pd_host_path (filter pd_read (add_read_dir p ds))) = insert (path_root p) (set (map pd_host_path (filter pd_read ds)))"
  "set (map pd_host_path (filter pd_write (add_read_dir p ds))) = set (map pd_host_path (filter pd_write ds))"
  unfolding add_read_dir_def filter_append map_append set_append by simp_all

lemma wasi_add_paths:
  "set (wasi_readable (wasi_add c wc)) =
     set (wasi_readable wc) \<union> (case c of FilesystemRead p \<Rightarrow> {path_root p} | _ \<Rightarrow> {})"
  "set (wasi_writable (wasi_add c wc)) =
     set (wasi_writable wc) \<union> (case c of FilesystemWrite p \<Rightarrow> {path_root p} | _ \<Rightarrow> {})"
  unfolding wasi_readable_def wasi_writable_def
  by (cases c; simp add: add_write_dir_paths add_read_dir_paths del: set_map set_filter)+

lemma enabled_list: "set (map snd (filter fst xs)) = {k. (True, k) \<in> set xs}"
  by force

lemma wasi_enabled_set:
  "set (wasi_enabled wc) = {k. wc_tcp_connect wc \<and> k = 2 \<or> wc_tcp_listen wc \<and> k = 3 \<or> wc_udp wc \<and> k = 4 \<or>
     wc_http_outgoing wc \<and> k = 5 \<or> wc_wall_clock wc \<and> k = 6 \<or> wc_monotonic_clock wc \<and> k = 7 \<or>
     wc_crypto_random wc \<and> k = 8 \<or> wc_insecure_random wc \<and> k = 9 \<or> wc_environment wc \<and> k = 10 \<or>
     wc_stdout wc \<and> k = 11 \<or> wc_stderr wc \<and> k = 12}"
  unfolding wasi_enabled_def enabled_list by simp

lemma wasi_add_enabled:
  "set (wasi_enabled (wasi_add c wc)) =
     set (wasi_enabled wc) \<union> (if cap_is_wasi c \<and> path_of c = None then {cap_kind c} else {})"
  unfolding wasi_enabled_set by (cases c) auto

lemma wasi_fold_enabled:
  "set (wasi_enabled (fold wasi_add cs wc)) =
     set (wasi_enabled wc) \<union> {cap_kind c | c. c \<in> set cs \<and> cap_is_wasi c \<and> path_of c = None}"
proof (induction cs arbitrary: wc)
  case (Cons c cs)
  show ?case unfolding fold_Cons comp_apply Cons wasi_add_enabled by (cases "cap_is_wasi c \<and> path_of c = None") auto
qed simp

lemma wasi_fold_paths:
  "set (wasi_readable (fold wasi_add cs wc)) = set (wasi_readable wc) \<union> {path_root p | p. FilesystemRead p \<in> set cs}"
  "set (wasi_writable (fold wasi_add cs wc)) = set (wasi_writable wc) \<union> {path_root p | p. FilesystemWrite p \<in> set cs}"
proof (induction cs arbitrary: wc)
  case (Cons c cs)
  { case 1 show ?case unfolding fold_Cons comp_apply Cons wasi_add_paths by (cases c) auto }
  { case 2 show ?case unfolding fold_Cons comp_apply Cons wasi_add_paths by (cases c) auto }
qed simp_all

lemmas wasi_fold = wasi_fold_enabled wasi_fold_paths

lemma warnings_recorded:
  "\<exists>evs. al_events (fold (\<lambda>w log. record_sync (audit_event_new clock sev c f t (k w) log)) ws log) = al_events log @ evs \<and>
     map ae_sequence evs = map (\<lambda>i. al_sequence log + of_nat i) [0..<length ws] \<and>
     al_sequence (fold (\<lambda>w log. record_sync (audit_event_new clock sev c f t (k w) log)) ws log) =
       al_sequence log + of_nat (length ws)"
proof (induction ws arbitrary: log)
  case (Cons w ws)
  let ?log = "record_sync (audit_event_new clock sev c f t (k w) log)"
  have step: "al_sequence ?log = al_sequence log + 1"
    "\<exists>e. al_events ?log = al_events log @ [e] \<and> ae_sequence e = al_sequence log"
    by (auto simp: record_sync_def audit_event_new_def)
  then obtain e where e: "al_events ?log = al_events log @ [e]" "ae_sequence e = al_sequence log" by blast
  from Cons.IH [of ?log] obtain evs where evs:
    "al_events (fold (\<lambda>w log. record_sync (audit_event_new clock sev c f t (k w) log)) ws ?log) = al_events ?log @ evs"
    "map ae_sequence evs = map (\<lambda>i. al_sequence ?log + of_nat i) [0..<length ws]"
    "al_sequence (fold (\<lambda>w log. record_sync (audit_event_new clock sev c f t (k w) log)) ws ?log) =
       al_sequence ?log + of_nat (length ws)" by blast
  have "[0..<length (w # ws)] = 0 # map Suc [0..<length ws]" using upt_conv_Cons [of 0 "Suc (length ws)"] by (simp add: map_Suc_upt)
  with e evs step(1) show ?case by (intro exI [of _ "e # evs"]) (simp add: comp_def add.assoc)
qed simp

text \<open>
  C26. A sandbox enables exactly what was both declared by the component and covered by a grant: its
  flags, its readable and its writable directories are those of the covered declarations, its events
  are numbered consecutively and end with its instantiation, and a failed configuration records nothing.
\<close>

theorem sandbox_least_privilege:
  "case sandbox_configure clock c t cc grants rb cb log of
     (Inl e, log') \<Rightarrow>
       log' = log \<and> (\<exists>errs. e = CapabilityResolutionFailed c errs \<and> resolve cc grants = Inl errs)
   | (Inr sx, log') \<Rightarrow>
       (let held = {r. (r \<in> set (cc_required cc) \<or> r \<in> set (cc_optional cc)) \<and> (\<exists>g \<in> set (og_grants grants). satisfies g r)}
        in set (wasi_enabled (sx_wasi sx)) = {cap_kind r | r. r \<in> held \<and> cap_is_wasi r \<and> path_of r = None} \<and>
           set (wasi_readable (sx_wasi sx)) = {path_root p | p. FilesystemRead p \<in> held} \<and>
           set (wasi_writable (sx_wasi sx)) = {path_root p | p. FilesystemWrite p \<in> held}) \<and>
       (\<exists>evs. al_events log' = al_events log @ evs \<and> evs \<noteq> [] \<and>
         map ae_sequence evs = map (\<lambda>i. al_sequence log + of_nat i) [0..<length evs] \<and>
         ae_event (last evs) = ComponentInstantiated (map cap_display (rs_capabilities (sx_resolved sx))))"
proof (cases rule: resolve_cases [of cc grants])
  case refused
  then show ?thesis by (auto simp: sandbox_configure_def)
next
  case (granted r)
  let ?f = "\<lambda>w log. record_sync (audit_event_new clock Warning (Some c) None (Some t)
    (CapabilityResolutionWarning (resolution_warning_display w)) log)"
  from warnings_recorded [of clock Warning "Some c" None "Some t" "\<lambda>w. CapabilityResolutionWarning (resolution_warning_display w)" "rr_warnings r" log]
  obtain evs where evs: "al_events (fold ?f (rr_warnings r) log) = al_events log @ evs"
    "map ae_sequence evs = map (\<lambda>i. al_sequence log + of_nat i) [0..<length (rr_warnings r)]"
    "al_sequence (fold ?f (rr_warnings r) log) = al_sequence log + of_nat (length (rr_warnings r))" by blast
  have len: "length evs = length (rr_warnings r)" using arg_cong [OF evs(2), of length] by simp
  have deny: "wasi_enabled wasi_deny_all = []" "wasi_readable wasi_deny_all = []" "wasi_writable wasi_deny_all = []"
    by (simp_all add: wasi_enabled_def wasi_readable_def wasi_writable_def wasi_deny_all_def)
  let ?held = "{x. (x \<in> set (cc_required cc) \<or> x \<in> set (cc_optional cc)) \<and> (\<exists>g \<in> set (og_grants grants). satisfies g x)}"
  have held: "set (rs_capabilities (rr_resolved r)) = ?held"
    using granted(2,3) by (auto simp: rs_new_def list_all_iff covered_def)
  have wasi: "set (wasi_enabled (wasi_from_resolved (rr_resolved r))) = {cap_kind x | x. x \<in> ?held \<and> cap_is_wasi x \<and> path_of x = None}"
    "set (wasi_readable (wasi_from_resolved (rr_resolved r))) = {path_root p | p. FilesystemRead p \<in> ?held}"
    "set (wasi_writable (wasi_from_resolved (rr_resolved r))) = {path_root p | p. FilesystemWrite p \<in> ?held}"
    unfolding held [symmetric] by (simp_all add: wasi_from_resolved_def wasi_fold deny)
  let ?e = "fst (audit_event_new clock Info (Some c) None (Some t)
     (ComponentInstantiated (map cap_display (rs_capabilities (rr_resolved r)))) (fold ?f (rr_warnings r) log))"
  obtain sx log' where run: "sandbox_configure clock c t cc grants rb cb log = (Inr sx, log')"
    and sx: "sx_wasi sx = wasi_from_resolved (rr_resolved r)" "sx_resolved sx = rr_resolved r"
    and log': "al_events log' = al_events log @ evs @ [?e]"
    using granted(1) evs(1) by (simp add: sandbox_configure_def record_sync_def audit_event_new_def Let_def)
  have "map ae_sequence (evs @ [?e]) = map (\<lambda>i. al_sequence log + of_nat i) [0..<length (evs @ [?e])]"
    using evs(2,3) len by (simp add: audit_event_new_def)
  moreover have "ae_event ?e = ComponentInstantiated (map cap_display (rs_capabilities (rr_resolved r)))"
    by (simp add: audit_event_new_def)
  ultimately show ?thesis
    unfolding run sx prod.case sum.case Let_def wasi using log' by (intro conjI refl exI [of _ "evs @ [?e]"]) auto
qed

theorem sandbox_least_privilege_witness:
  "\<exists>sx log'. sandbox_configure (\<lambda>n. n) (ComponentId 1) default_tenant
       \<lparr>cc_required = [FilesystemWrite (PathScope ''/out''), WallClock], cc_optional = [Stderr]\<rparr>
       \<lparr>og_grants = [WallClock, FilesystemWrite (PathScope ''/'')]\<rparr>
       resource_budget_default cpu_budget_default \<lparr>al_sequence = 7, al_events = []\<rparr> = (Inr sx, log') \<and>
     set (wasi_writable (sx_wasi sx)) = {''/out''} \<and> set (wasi_enabled (sx_wasi sx)) = {6}"
proof -
  let ?cc = "\<lparr>cc_required = [FilesystemWrite (PathScope ''/out''), WallClock], cc_optional = [Stderr]\<rparr>"
    and ?g = "\<lparr>og_grants = [WallClock, FilesystemWrite (PathScope ''/'')]\<rparr>"
    and ?log = "\<lparr>al_sequence = 7, al_events = []\<rparr>"
  let ?run = "sandbox_configure (\<lambda>n. n) (ComponentId 1) default_tenant ?cc ?g resource_budget_default cpu_budget_default ?log"
  have w: "satisfies (FilesystemWrite (PathScope ''/'')) (FilesystemWrite (PathScope ''/out''))"
    by (simp add: path_contains_scope_def contains_path_def)
  have "list_all (covered ?g) (cc_required ?cc)" using w by (simp add: covered_def del: satisfies.simps(2))
  then obtain r where "resolve ?cc ?g = Inr r" by (cases rule: resolve_cases [of ?cc ?g]) auto
  then obtain sx log' where run: "?run = (Inr sx, log')" by (simp add: sandbox_configure_def Let_def)
  have "{path_root p | p. (FilesystemWrite p \<in> set (cc_required ?cc) \<or> FilesystemWrite p \<in> set (cc_optional ?cc)) \<and>
      (\<exists>g \<in> set (og_grants ?g). satisfies g (FilesystemWrite p))} = {''/out''}"
    using w by (auto simp del: satisfies.simps(2))
  moreover have "{cap_kind x | x. ((x \<in> set (cc_required ?cc) \<or> x \<in> set (cc_optional ?cc)) \<and>
      (\<exists>g \<in> set (og_grants ?g). satisfies g x)) \<and> cap_is_wasi x \<and> path_of x = None} = {6}"
    by (auto intro: exI [of _ WallClock])
  ultimately show ?thesis
    using sandbox_least_privilege [where clock = "\<lambda>n. n" and c = "ComponentId 1" and t = default_tenant and cc = ?cc
      and grants = ?g and rb = resource_budget_default and cb = cpu_budget_default and log = ?log]
    unfolding run prod.case sum.case Let_def mem_Collect_eq by (intro exI conjI) (rule refl, simp_all only:)
qed

end
