(* ===== verification/Pip_Error.thy ===== *)
theory Pip_Error
  imports Sec_Resolver Rea_Coordinator
begin

text \<open>
  \<open>torvyn-pipeline/src/error.rs\<close>: the errors of construction, validation, instantiation and shutdown with
  their texts, and the report that collects them. \<open>show_duration\<close> is the debug format of a duration.
\<close>

datatype pipeline_error =
    EmptyTopology string
  | DuplicateNode string string
  | EdgeReferencesUnknownNode string nat string string
  | SelfLoop string string
  | CycleDetected string "string list"
  | DisconnectedNode string string
  | SourceHasIncoming string string
  | SinkHasOutgoing string string
  | ProcessorMissingEdges string string string bool bool
  | FanLimitExceeded string string string nat nat string
  | NoSourceNodes string
  | NoSinkNodes string
  | CompilationFailed string string string
  | InstantiationFailed string string string
  | InitializationFailed string string string
  | FlowRegistrationFailed string string
  | SandboxConfigFailed string string string
  | ShutdownTimeout flow_id nat nat
  | TeardownFailed flow_id component_id string
  | ResourceCleanupFailed flow_id string
  | Subsystem string string

text \<open>An arrow between spaces, as UTF-8.\<close>

definition arrow :: string where
  "arrow = [CHR '' '', CHR 0xE2, CHR 0x86, CHR 0x92, CHR '' '']"

definition missing_edges :: "bool \<Rightarrow> bool \<Rightarrow> string option" where
  "missing_edges has_incoming has_outgoing =
     (case (has_incoming, has_outgoing) of
        (False, False) \<Rightarrow> Some ''incoming and outgoing edges''
      | (False, True) \<Rightarrow> Some ''incoming edges''
      | (True, False) \<Rightarrow> Some ''outgoing edges''
      | (True, True) \<Rightarrow> None)"

text \<open>The text of an error; \<open>None\<close> is the \<open>unreachable!()\<close> of a node that misses no edge.\<close>

primrec pipeline_error_display :: "(nat \<Rightarrow> string) \<Rightarrow> pipeline_error \<Rightarrow> string option" where
  "pipeline_error_display show_duration (EmptyTopology flow) = Some
     (''[E0900] Pipeline '' @ tick_quoted flow @
      '' has no nodes. Add at least a source and a sink node to the flow definition.'')"
| "pipeline_error_display show_duration (DuplicateNode flow node) = Some
     (''[E0901] Duplicate node name '' @ tick_quoted node @ '' in pipeline '' @ tick_quoted flow @
      ''. Each node name must be unique within a flow.'')"
| "pipeline_error_display show_duration (EdgeReferencesUnknownNode flow index node endpoint) = Some
     (''[E0902] Edge '' @ decimal index @ '' in pipeline '' @ tick_quoted flow @ '' references unknown '' @ endpoint @
      '' node '' @ tick_quoted node @ ''. Check that all edge endpoints reference nodes defined in the flow.'')"
| "pipeline_error_display show_duration (SelfLoop flow node) = Some
     (''[E0903] Self-loop detected on node '' @ tick_quoted node @ '' in pipeline '' @ tick_quoted flow @
      ''. A node cannot connect to itself.'')"
| "pipeline_error_display show_duration (CycleDetected flow cycle) = Some
     (''[E0920] Cycle detected in pipeline '' @ tick_quoted flow @ '': '' @ join arrow cycle @
      ''. Torvyn v1 requires pipeline topologies to be directed acyclic graphs (DAGs). '' @
      ''Remove the cycle or implement the feedback loop inside a single component.'')"
| "pipeline_error_display show_duration (DisconnectedNode flow node) = Some
     (''[E0921] Node '' @ tick_quoted node @ '' in pipeline '' @ tick_quoted flow @
      '' is not reachable from any source. Connect it to the pipeline graph or remove it.'')"
| "pipeline_error_display show_duration (SourceHasIncoming flow node) = Some
     (''[E0922] Source node '' @ tick_quoted node @ '' in pipeline '' @ tick_quoted flow @
      '' has incoming edges. Source nodes must not have incoming edges. '' @
      ''Change the node'' @ [CHR 0x27] @ ''s role or remove the incoming edges.'')"
| "pipeline_error_display show_duration (SinkHasOutgoing flow node) = Some
     (''[E0923] Sink node '' @ tick_quoted node @ '' in pipeline '' @ tick_quoted flow @
      '' has outgoing edges. Sink nodes must not have outgoing edges. '' @
      ''Change the node'' @ [CHR 0x27] @ ''s role or remove the outgoing edges.'')"
| "pipeline_error_display show_duration (ProcessorMissingEdges flow node role has_incoming has_outgoing) =
     map_option (\<lambda>missing. ''[E0924] '' @ role @ '' node '' @ tick_quoted node @ '' in pipeline '' @ tick_quoted flow @
        '' is missing '' @ missing @ ''. '' @ role @ '' nodes must have both incoming and outgoing edges.'')
       (missing_edges has_incoming has_outgoing)"
| "pipeline_error_display show_duration (FanLimitExceeded flow node port count limit direction) = Some
     (''[E0925] '' @ direction @ '' limit exceeded for node '' @ tick_quoted node @ '' port '' @ tick_quoted port @
      '' in pipeline '' @ tick_quoted flow @ '': '' @ decimal count @ '' connections, limit is '' @ decimal limit @
      ''. Reduce the number of connections or increase the fan limit in configuration.'')"
| "pipeline_error_display show_duration (NoSourceNodes flow) = Some
     (''[E0926] Pipeline '' @ tick_quoted flow @
      '' has no source nodes. Every pipeline must have at least one source node.'')"
| "pipeline_error_display show_duration (NoSinkNodes flow) = Some
     (''[E0927] Pipeline '' @ tick_quoted flow @
      '' has no sink nodes. Every pipeline must have at least one sink node.'')"
| "pipeline_error_display show_duration (CompilationFailed flow node reason) = Some
     (''[E0940] Component compilation failed for node '' @ tick_quoted node @ '' in pipeline '' @ tick_quoted flow @
      '': '' @ reason @ ''. Verify the component binary is a valid WebAssembly Component.'')"
| "pipeline_error_display show_duration (InstantiationFailed flow node reason) = Some
     (''[E0941] Component instantiation failed for node '' @ tick_quoted node @ '' in pipeline '' @ tick_quoted flow @
      '': '' @ reason @ ''.'')"
| "pipeline_error_display show_duration (InitializationFailed flow node reason) = Some
     (''[E0942] Component initialization (lifecycle.init) failed for node '' @ tick_quoted node @ '' in pipeline '' @
      tick_quoted flow @ '': '' @ reason @ ''. Check the component'' @ [CHR 0x27] @
      ''s init function and its configuration.'')"
| "pipeline_error_display show_duration (FlowRegistrationFailed flow reason) = Some
     (''[E0943] Failed to register flow for pipeline '' @ tick_quoted flow @ '' with the reactor: '' @ reason @ ''.'')"
| "pipeline_error_display show_duration (SandboxConfigFailed flow node reason) = Some
     (''[E0944] Security sandbox configuration failed for node '' @ tick_quoted node @ '' in pipeline '' @
      tick_quoted flow @ '': '' @ reason @ ''. Check the component'' @ [CHR 0x27] @
      ''s capability grants in the pipeline configuration.'')"
| "pipeline_error_display show_duration (ShutdownTimeout flow timeout remaining) = Some
     (''[E0970] Graceful shutdown of '' @ show_flow flow @ '' timed out after '' @ show_duration timeout @ ''. '' @
      decimal remaining @ '' component(s) did not complete draining. They will be forcefully terminated.'')"
| "pipeline_error_display show_duration (TeardownFailed flow cid reason) = Some
     (''[E0971] Teardown of '' @ show_component cid @ '' in '' @ show_flow flow @ '' failed: '' @ reason @
      ''. Resources will be forcefully reclaimed.'')"
| "pipeline_error_display show_duration (ResourceCleanupFailed flow reason) = Some
     (''[E0972] Resource cleanup for '' @ show_flow flow @ '' failed: '' @ reason @
      ''. Some resources may have leaked. Check the resource manager diagnostics.'')"
| "pipeline_error_display show_duration (Subsystem sub reason) = Some
     (''[E0990] Pipeline error from subsystem '' @ tick_quoted sub @ '': '' @ reason @ ''.'')"

text \<open>The report is the list of the errors pushed so far.\<close>

record validation_report =
  vr_flow_name :: string
  vr_errors :: "pipeline_error list"

definition report_new :: "string \<Rightarrow> validation_report" where
  "report_new flow = \<lparr>vr_flow_name = flow, vr_errors = []\<rparr>"

definition report_push :: "pipeline_error \<Rightarrow> validation_report \<Rightarrow> validation_report" where
  "report_push e r = r\<lparr>vr_errors := vr_errors r @ [e]\<rparr>"

definition report_is_ok :: "validation_report \<Rightarrow> bool" where
  "report_is_ok r \<longleftrightarrow> vr_errors r = []"

definition report_into_result :: "validation_report \<Rightarrow> pipeline_error list + unit" where
  "report_into_result r = (if vr_errors r = [] then Inr () else Inl (vr_errors r))"

end
