(* ===== verification/Graph_Search.thy ===== *)
theory Graph_Search
  imports Main
begin

text \<open>
  What the validators of the pipeline and the linker share: counting with a hash map, closed walks,
  and the invariant of a depth-first search that finds no back edge.
\<close>

section \<open>Counting\<close>

text \<open>\<open>*map.entry(k).or_insert(0) += 1\<close>, for the keys in order; an entry keeps its place.\<close>

fun bump :: "'k \<Rightarrow> ('k \<times> nat) list \<Rightarrow> ('k \<times> nat) list" where
  "bump k [] = [(k, 1)]"
| "bump k ((j, n) # m) = (if j = k then (j, n + 1) # m else (j, n) # bump k m)"

definition tally :: "'k list \<Rightarrow> ('k \<times> nat) list" where
  "tally ks = fold bump ks []"

lemma map_of_bump: "map_of (bump k m) j = (if j = k then Some (case map_of m k of None \<Rightarrow> 1 | Some n \<Rightarrow> n + 1) else map_of m j)"
  by (induction k m rule: bump.induct) auto

lemma keys_bump: "set (map fst (bump k m)) = insert k (set (map fst m))"
  by (induction k m rule: bump.induct) auto

lemma distinct_bump: "distinct (map fst m) \<Longrightarrow> distinct (map fst (bump k m))"
proof (induction k m rule: bump.induct)
  case (2 k j n m)
  then show ?case using keys_bump [of k m] by auto
qed simp

lemma fold_bump:
  assumes "distinct (map fst m)"
  shows "distinct (map fst (fold bump ks m)) \<and>
    map_of (fold bump ks m) k =
      (if k \<in> set ks \<or> k \<in> set (map fst m) then Some ((case map_of m k of None \<Rightarrow> 0 | Some n \<Rightarrow> n) + count_list ks k) else None)"
  using assms
proof (induction ks arbitrary: m)
  case Nil
  then show ?case by (auto simp: map_of_eq_None_iff split: option.splits)
next
  case (Cons j ks)
  from Cons.IH [OF distinct_bump [OF Cons.prems]] show ?case
    by (auto simp: map_of_bump keys_bump simp del: set_map split: option.splits)
qed

lemma set_tally: "set (tally ks) = {(k, count_list ks k) | k. k \<in> set ks}"
proof -
  have d: "distinct (map fst (tally ks))" using fold_bump [of "[]" ks] by (simp add: tally_def)
  have "map_of (tally ks) k = (if k \<in> set ks then Some (count_list ks k) else None)" for k
    using fold_bump [of "[]" ks k] by (simp add: tally_def)
  then have mem: "(k, n) \<in> set (tally ks) \<longleftrightarrow> k \<in> set ks \<and> n = count_list ks k" for k n
    unfolding map_of_eq_Some_iff [OF d, symmetric] by simp metis
  show ?thesis
  proof (rule set_eqI)
    fix p :: "'a \<times> nat"
    show "p \<in> set (tally ks) \<longleftrightarrow> p \<in> {(k, count_list ks k) | k. k \<in> set ks}"
      using mem [of "fst p" "snd p"] by (cases p) (simp add: conj_commute)
  qed
qed

lemma set_tally_map: "set (tally (map f xs)) = (\<lambda>x. (f x, count_list (map f xs) (f x))) ` set xs"
  unfolding set_tally by force

section \<open>Closed walks\<close>

fun walk_in :: "('a \<times> 'a) set \<Rightarrow> 'a list \<Rightarrow> bool" where
  "walk_in E (x # y # xs) \<longleftrightarrow> (x, y) \<in> E \<and> walk_in E (y # xs)"
| "walk_in E _ \<longleftrightarrow> True"

definition closed_walk :: "('a \<times> 'a) set \<Rightarrow> 'a list \<Rightarrow> bool" where
  "closed_walk E xs \<longleftrightarrow> 2 \<le> length xs \<and> hd xs = last xs \<and> walk_in E xs"

lemma walk_in_append:
  "xs \<noteq> [] \<Longrightarrow> ys \<noteq> [] \<Longrightarrow> walk_in E (xs @ ys) \<longleftrightarrow> walk_in E xs \<and> (last xs, hd ys) \<in> E \<and> walk_in E ys"
  by (induction E xs rule: walk_in.induct) (auto simp: neq_Nil_conv)

lemma walk_in_reach: "walk_in E xs \<Longrightarrow> xs \<noteq> [] \<Longrightarrow> (hd xs, last xs) \<in> E\<^sup>*"
  by (induction E xs rule: walk_in.induct) (auto intro: converse_rtrancl_into_rtrancl)

lemma closed_walk_cyclic:
  assumes "closed_walk E xs"
  shows "\<not> acyclic E"
proof -
  obtain x y zs where xs: "xs = x # y # zs"
    using assms by (cases xs; cases "tl xs") (auto simp: closed_walk_def)
  then have "(x, y) \<in> E" "(y, x) \<in> E\<^sup>*" using assms walk_in_reach [of E "y # zs"] by (auto simp: closed_walk_def)
  then have "(x, x) \<in> E\<^sup>+" by (rule rtrancl_into_trancl2)
  then show ?thesis by (auto simp: acyclic_def)
qed

section \<open>Finished nodes\<close>

text \<open>
  The nodes that a depth-first search has finished: closed under successors, and without a cycle.
\<close>

definition finished :: "('a \<times> 'a) set \<Rightarrow> 'a set \<Rightarrow> bool" where
  "finished E F \<longleftrightarrow> (\<forall>(a, b) \<in> E. a \<in> F \<longrightarrow> b \<in> F) \<and> acyclic (E \<inter> F \<times> F)"

lemma finished_empty [simp]: "finished E {}"
  by (simp add: finished_def acyclic_def)

lemma finished_insert:
  assumes "finished E F" and succ: "E `` {n} \<subseteq> F" and n: "n \<notin> F"
  shows "finished E (insert n F)"
proof -
  have cl: "\<And>a b. (a, b) \<in> E \<Longrightarrow> a \<in> F \<Longrightarrow> b \<in> F" and ac: "acyclic (E \<inter> F \<times> F)"
    using assms(1) by (auto simp: finished_def)
  let ?R = "E \<inter> insert n F \<times> insert n F"
  have stay: "(a, b) \<in> ?R\<^sup>+ \<Longrightarrow> a \<in> insert n F \<Longrightarrow> b \<in> F \<and> (a \<in> F \<longrightarrow> (a, b) \<in> (E \<inter> F \<times> F)\<^sup>+)" for a b
  proof (induction rule: trancl_induct)
    case (base y)
    then show ?case using cl succ by auto
  next
    case (step y z)
    then have y: "y \<in> F" by blast
    with step.hyps(2) cl have z: "z \<in> F" "(y, z) \<in> E \<inter> F \<times> F" by auto
    with step show ?case by (auto intro: trancl_into_trancl)
  qed
  have "acyclic ?R"
    unfolding acyclic_def
  proof (intro allI notI)
    fix x assume x: "(x, x) \<in> ?R\<^sup>+"
    then have "x \<in> insert n F" by (auto dest: tranclD)
    with stay [OF x] have "(x, x) \<in> (E \<inter> F \<times> F)\<^sup>+" by blast
    with ac show False by (auto simp: acyclic_def)
  qed
  then show ?thesis using cl succ by (auto simp: finished_def)
qed

lemma finished_all: "finished E F \<Longrightarrow> E \<subseteq> F \<times> F \<Longrightarrow> acyclic E"
  by (simp add: finished_def inf_absorb1)

text \<open>A finite set in which everyone has a predecessor is not part of an acyclic graph.\<close>

lemma no_first_cyclic:
  assumes "finite E" and "S \<noteq> {}" and pred: "\<And>v. v \<in> S \<Longrightarrow> \<exists>u \<in> S. (u, v) \<in> E"
  shows "\<not> acyclic (E \<inter> S \<times> S)"
proof
  assume "acyclic (E \<inter> S \<times> S)"
  then have "wf (E \<inter> S \<times> S)" using assms(1) by (simp add: finite_acyclic_wf)
  moreover obtain v where "v \<in> S" using assms(2) by blast
  ultimately obtain z where "z \<in> S" and min: "\<And>u. (u, z) \<in> E \<inter> S \<times> S \<Longrightarrow> u \<notin> S" by (metis wfE_min)
  with pred [of z] show False by blast
qed

end
