(* ===== verification/Pip_Topology.thy ===== *)
theory Pip_Topology
  imports Pip_Error Graph_Search
begin

text \<open>
  \<open>torvyn-pipeline/src/topology.rs\<close>, \<open>builder.rs\<close> and \<open>validate.rs\<close>: pipelines as graphs of named nodes, the
  builder that collects them and the validation that orders them. Indexing out of range is a panic,
  the value \<open>None\<close>; \<open>walk\<close> is the order in which the hash map of port counts is visited.
\<close>

section \<open>The data\<close>

datatype pipeline_error_policy = PFailFast | PSkipAndContinue | PRetry u32

record node_config =
  nc_fuel_budget :: "u64 option"
  nc_memory_limit :: "usize option"
  nc_timeout :: "nat option"
  nc_priority :: "u8 option"
  nc_error_policy :: "pipeline_error_policy option"
  nc_init_config :: "string option"
  nc_wasi :: wasi_configuration

definition node_config_default :: node_config where
  "node_config_default =
     \<lparr>nc_fuel_budget = None, nc_memory_limit = None, nc_timeout = None, nc_priority = None,
      nc_error_policy = None, nc_init_config = None, nc_wasi = wasi_deny_all\<rparr>"

record edge_config =
  ec_queue_depth :: "usize option"
  ec_backpressure_policy :: "backpressure_policy option"

definition edge_config_default :: edge_config where
  "edge_config_default = \<lparr>ec_queue_depth = None, ec_backpressure_policy = None\<rparr>"

record pipeline_node =
  pn_name :: string
  pn_component_ref :: string
  pn_interface :: string
  pn_role :: component_role
  pn_config :: node_config

record pipeline_edge =
  pe_from_node :: usize
  pe_from_port :: string
  pe_to_node :: usize
  pe_to_port :: string
  pe_config :: edge_config

record pipeline =
  pl_name :: string
  pl_description :: string
  pl_nodes :: "pipeline_node list"
  pl_node_index :: "string \<Rightarrow> usize option"
  pl_edges :: "pipeline_edge list"
  pl_execution_order :: "usize list"

definition pipeline_new_unchecked ::
    "string \<Rightarrow> string \<Rightarrow> pipeline_node list \<Rightarrow> (string \<Rightarrow> usize option) \<Rightarrow> pipeline_edge list \<Rightarrow> usize list \<Rightarrow>
     pipeline" where
  "pipeline_new_unchecked name description nodes index es order =
     \<lparr>pl_name = name, pl_description = description, pl_nodes = nodes, pl_node_index = index, pl_edges = es,
      pl_execution_order = order\<rparr>"

definition source_nodes :: "pipeline \<Rightarrow> (nat \<times> pipeline_node) list" where
  "source_nodes p = filter (\<lambda>(_, n). pn_role n = Source) (enumerate 0 (pl_nodes p))"

definition sink_nodes :: "pipeline \<Rightarrow> (nat \<times> pipeline_node) list" where
  "sink_nodes p = filter (\<lambda>(_, n). pn_role n = Sink) (enumerate 0 (pl_nodes p))"

definition outgoing_edges :: "pipeline \<Rightarrow> nat \<Rightarrow> (nat \<times> pipeline_edge) list" where
  "outgoing_edges p i = filter (\<lambda>(_, e). pe_from_node e = i) (enumerate 0 (pl_edges p))"

definition incoming_edges :: "pipeline \<Rightarrow> nat \<Rightarrow> (nat \<times> pipeline_edge) list" where
  "incoming_edges p i = filter (\<lambda>(_, e). pe_to_node e = i) (enumerate 0 (pl_edges p))"

section \<open>Validation\<close>

definition default_max_fan_out :: nat where
  "default_max_fan_out = 16"

definition default_max_fan_in :: nat where
  "default_max_fan_in = 16"

definition pairs :: "pipeline_edge list \<Rightarrow> (nat \<times> nat) list" where
  "pairs es = map (\<lambda>e. (pe_from_node e, pe_to_node e)) es"

definition check_source_and_sink :: "string \<Rightarrow> pipeline_node list \<Rightarrow> validation_report \<Rightarrow> validation_report" where
  "check_source_and_sink flow nodes report =
     (let has_source = list_ex (\<lambda>n. pn_role n = Source) nodes;
          has_sink = list_ex (\<lambda>n. pn_role n = Sink) nodes;
          report = (if has_source then report else report_push (NoSourceNodes flow) report)
      in if has_sink then report else report_push (NoSinkNodes flow) report)"

definition role_name :: "component_role \<Rightarrow> string" where
  "role_name r =
     (case r of Source \<Rightarrow> ''Source'' | Processor \<Rightarrow> ''Processor'' | Sink \<Rightarrow> ''Sink'' | Filter \<Rightarrow> ''Filter''
      | Router \<Rightarrow> ''Router'')"

fun check_role_consistency ::
    "string \<Rightarrow> pipeline_edge list \<Rightarrow> nat \<Rightarrow> pipeline_node list \<Rightarrow> validation_report \<Rightarrow> validation_report" where
  "check_role_consistency flow es i [] report = report"
| "check_role_consistency flow es i (n # ns) report =
     (let has_incoming = list_ex (\<lambda>e. pe_to_node e = i) es;
          has_outgoing = list_ex (\<lambda>e. pe_from_node e = i) es;
          report = (case pn_role n of
              Source \<Rightarrow> if has_incoming then report_push (SourceHasIncoming flow (pn_name n)) report else report
            | Sink \<Rightarrow> if has_outgoing then report_push (SinkHasOutgoing flow (pn_name n)) report else report
            | _ \<Rightarrow>
                if \<not> has_incoming \<or> \<not> has_outgoing then
                  report_push (ProcessorMissingEdges flow (pn_name n) (role_name (pn_role n)) has_incoming has_outgoing) report
                else report)
      in check_role_consistency flow es (i + 1) ns report)"

type_synonym port_walk = "((nat \<times> string) \<times> nat) list \<Rightarrow> ((nat \<times> string) \<times> nat) list"

fun check_ports ::
    "string \<Rightarrow> string \<Rightarrow> nat \<Rightarrow> pipeline_node list \<Rightarrow> ((nat \<times> string) \<times> nat) list \<Rightarrow> validation_report \<Rightarrow>
     validation_report option" where
  "check_ports flow direction limit nodes [] report = Some report"
| "check_ports flow direction limit nodes (((i, port), count) # cs) report =
     (if limit < count then
        Option.bind (index_vec nodes i) (\<lambda>n.
          check_ports flow direction limit nodes cs
            (report_push (FanLimitExceeded flow (pn_name n) port count limit direction) report))
      else check_ports flow direction limit nodes cs report)"

definition check_fan_limits ::
    "port_walk \<Rightarrow> string \<Rightarrow> pipeline_node list \<Rightarrow> pipeline_edge list \<Rightarrow> validation_report \<Rightarrow> validation_report option" where
  "check_fan_limits walk flow nodes es report =
     Option.bind
       (check_ports flow ''fan-out'' default_max_fan_out nodes
          (walk (tally (map (\<lambda>e. (pe_from_node e, pe_from_port e)) es))) report)
       (check_ports flow ''fan-in'' default_max_fan_in nodes
          (walk (tally (map (\<lambda>e. (pe_to_node e, pe_to_port e)) es))))"

text \<open>Kahn's algorithm, which also hands out the in-degrees that are left.\<close>

function sort_loop :: "nat list list \<Rightarrow> nat list \<Rightarrow> nat list \<Rightarrow> nat list \<Rightarrow> (nat list \<times> nat list) option" where
  "sort_loop adj deg [] order = Some (order, deg)"
| "sort_loop adj deg (u # q) order =
     (if u < length adj then
        (case relax deg q (adj ! u) of
           None \<Rightarrow> None
         | Some (deg', q') \<Rightarrow> sort_loop adj deg' q' (order @ [u]))
      else None)"
  by pat_completeness auto

termination sort_loop
  by (relation "measure (\<lambda>(adj, deg, q, order). length q + sum_list deg)") (auto dest: relax_measure)

section \<open>The cycle for the report\<close>

text \<open>
  A depth-first search with an explicit stack: 0, 1 and 2 are the colours of an unvisited node, one on
  the stack and a finished one; the second component of a stack entry counts its visited neighbours.
  The result is the edge that closes a cycle, with the parents found so far.
\<close>

definition unvisited :: "nat list \<Rightarrow> nat" where
  "unvisited color = length (filter (\<lambda>c. c = 0) color)"

definition stack_work :: "nat list list \<Rightarrow> (nat \<times> nat) list \<Rightarrow> nat" where
  "stack_work adj st = sum_list (map (\<lambda>(u, k). length (adj ! u) - k + 1) st)"

lemma unvisited_update:
  "v < length color \<Longrightarrow> c \<noteq> 0 \<Longrightarrow> unvisited (color[v := c]) + (if color ! v = 0 then 1 else 0) = unvisited color"
proof (induction color arbitrary: v)
  case (Cons a color)
  show ?case
  proof (cases v)
    case (Suc w)
    with Cons.IH [of w] Cons.prems show ?thesis by (simp add: unvisited_def)
  qed (use Cons.prems in \<open>simp add: unvisited_def\<close>)
qed simp

function cycle_dfs ::
    "nat list list \<Rightarrow> nat list \<Rightarrow> nat option list \<Rightarrow> (nat \<times> nat) list \<Rightarrow>
     ((nat \<times> nat) option \<times> nat list \<times> nat option list) option" where
  "cycle_dfs adj color parent [] = Some (None, color, parent)"
| "cycle_dfs adj color parent ((u, k) # st) =
     (if \<not> u < length adj \<or> \<not> u < length color then None
      else if length (adj ! u) \<le> k then cycle_dfs adj (color[u := 2]) parent st
      else let v = adj ! u ! k
           in if \<not> v < length color then None
              else if color ! v = 1 then Some (Some (u, v), color, parent)
              else if color ! v = 0 then
                if v < length parent then
                  cycle_dfs adj (color[v := 1]) (parent[v := Some u]) ((v, 0) # (u, k + 1) # st)
                else None
              else cycle_dfs adj color parent ((u, k + 1) # st))"
  by pat_completeness auto

termination cycle_dfs
proof (relation "measures [\<lambda>(adj, color, parent, st). unvisited color, \<lambda>(adj, color, parent, st). stack_work adj st]")
  show "((adj, color[u := 2], parent, st), adj, color, parent, (u, k) # st)
      \<in> measures [\<lambda>(adj, color, parent, st). unvisited color, \<lambda>(adj, color, parent, st). stack_work adj st]"
    if "\<not> (\<not> u < length adj \<or> \<not> u < length color)" for adj color parent u k st
    using that unvisited_update [of u color 2] by (auto simp: stack_work_def)
  show "((adj, color[x := 1], parent[x := Some u], (x, 0) # (u, k + 1) # st), adj, color, parent, (u, k) # st)
      \<in> measures [\<lambda>(adj, color, parent, st). unvisited color, \<lambda>(adj, color, parent, st). stack_work adj st]"
    if "\<not> \<not> x < length color" "color ! x = 0" for adj color x parent u k st
    using that unvisited_update [of x color 1] by simp
  show "((adj, color, parent, (u, k + 1) # st), adj, color, parent, (u, k) # st)
      \<in> measures [\<lambda>(adj, color, parent, st). unvisited color, \<lambda>(adj, color, parent, st). stack_work adj st]"
    if "\<not> length (adj ! u) \<le> k" for adj color parent u k st
    using that by (simp add: stack_work_def)
qed simp

text \<open>Every node not in the order, as the root of a search.\<close>

fun cycle_search ::
    "nat list list \<Rightarrow> nat list \<Rightarrow> nat list \<Rightarrow> nat option list \<Rightarrow> nat list \<Rightarrow>
     ((nat \<times> nat) option \<times> nat option list) option" where
  "cycle_search adj deg color parent [] = Some (None, parent)"
| "cycle_search adj deg color parent (s # ss) =
     (if \<not> s < length deg \<or> \<not> s < length color then None
      else if deg ! s = 0 \<or> color ! s \<noteq> 0 then cycle_search adj deg color parent ss
      else case cycle_dfs adj (color[s := 1]) parent [(s, 0)] of
          None \<Rightarrow> None
        | Some (Some uv, color, parent) \<Rightarrow> Some (Some uv, parent)
        | Some (None, color, parent) \<Rightarrow> cycle_search adj deg color parent ss)"

text \<open>
  The walk up the parents; the fuel is the number of nodes, and running out of it is \<open>None\<close>, as is an
  index out of range.
\<close>

fun walk_parents :: "nat \<Rightarrow> nat option list \<Rightarrow> nat \<Rightarrow> nat \<Rightarrow> nat list option" where
  "walk_parents fuel parent next cur =
     (if cur = next then Some []
      else case fuel of
          0 \<Rightarrow> None
        | Suc fuel \<Rightarrow>
            (case index_vec parent cur of
               None \<Rightarrow> None
             | Some None \<Rightarrow> Some [cur]
             | Some (Some p) \<Rightarrow> map_option ((#) cur) (walk_parents fuel parent next p)))"

declare walk_parents.simps [simp del]

definition sorted_neighbours :: "nat list list \<Rightarrow> nat list list" where
  "sorted_neighbours adj = map (\<lambda>l. remdups_adj (sort l)) adj"

definition find_cycle_indices :: "nat \<Rightarrow> (nat \<times> nat) list \<Rightarrow> nat list \<Rightarrow> nat list option" where
  "find_cycle_indices n es deg =
     Option.bind (build_edges (replicate n []) (replicate n 0) es) (\<lambda>(adj, _).
     Option.bind (cycle_search (sorted_neighbours adj) deg (replicate n 0) (replicate n None) [0..<n]) (\<lambda>(found, parent).
     case found of
       None \<Rightarrow> Some []
     | Some (u, v) \<Rightarrow> map_option (\<lambda>ups. rev ([v] @ ups @ [v])) (walk_parents n parent v u)))"

fun names_of :: "pipeline_node list \<Rightarrow> nat list \<Rightarrow> string list option" where
  "names_of nodes [] = Some []"
| "names_of nodes (i # is) =
     Option.bind (index_vec nodes i) (\<lambda>n. map_option ((#) (pn_name n)) (names_of nodes is))"

definition find_cycle :: "pipeline_node list \<Rightarrow> pipeline_edge list \<Rightarrow> nat list \<Rightarrow> string list option" where
  "find_cycle nodes es deg = Option.bind (find_cycle_indices (length nodes) (pairs es) deg) (names_of nodes)"

definition topological_sort ::
    "string \<Rightarrow> pipeline_node list \<Rightarrow> pipeline_edge list \<Rightarrow> validation_report \<Rightarrow> (nat list \<times> validation_report) option" where
  "topological_sort flow nodes es report =
     (let n = length nodes
      in Option.bind (build_edges (replicate n []) (replicate n 0) (pairs es)) (\<lambda>(adj, deg).
         Option.bind (sort_loop adj deg (initial_queue deg) []) (\<lambda>(order, deg).
         if length order \<noteq> n then
           Option.bind (names_of nodes (filter (\<lambda>i. 0 < deg ! i) [0..<length deg])) (\<lambda>cycle_nodes.
           map_option (\<lambda>cycle. ([], report_push (CycleDetected flow (if cycle = [] then cycle_nodes else cycle)) report))
             (find_cycle nodes es deg))
         else Some (order, report))))"

fun report_unvisited :: "string \<Rightarrow> bool list \<Rightarrow> pipeline_node list \<Rightarrow> validation_report \<Rightarrow> validation_report option" where
  "report_unvisited flow seen [] report = Some report"
| "report_unvisited flow seen (n # ns) report =
     (case seen of
        [] \<Rightarrow> None
      | b # seen \<Rightarrow>
          report_unvisited flow seen ns
            (if b then report else report_push (DisconnectedNode flow (pn_name n)) report))"

definition check_connectedness ::
    "string \<Rightarrow> pipeline_node list \<Rightarrow> pipeline_edge list \<Rightarrow> validation_report \<Rightarrow> validation_report option" where
  "check_connectedness flow nodes es report =
     (let n = length nodes
      in Option.bind (build_edges (replicate n []) (replicate n 0) (pairs es)) (\<lambda>(adj, _).
         Option.bind (bfs adj (map (\<lambda>m. pn_role m = Source) nodes) (filter (\<lambda>i. pn_role (nodes ! i) = Source) [0..<n])) (\<lambda>seen.
         report_unvisited flow seen nodes report)))"

definition validate_topology ::
    "port_walk \<Rightarrow> string \<Rightarrow> pipeline_node list \<Rightarrow> pipeline_edge list \<Rightarrow> validation_report \<Rightarrow>
     (nat list \<times> validation_report) option" where
  "validate_topology walk flow nodes es report =
     (if nodes = [] then Some ([], report_push (EmptyTopology flow) report)
      else
        let report = check_source_and_sink flow nodes report;
            report = check_role_consistency flow es 0 nodes report
        in Option.bind (check_fan_limits walk flow nodes es report) (\<lambda>report.
           Option.bind (topological_sort flow nodes es report) (\<lambda>(order, report).
           if order = [] then Some (order, report)
           else map_option (Pair order) (check_connectedness flow nodes es report))))"

section \<open>The builder\<close>

record pending_edge =
  pd_from_node :: string
  pd_from_port :: string
  pd_to_node :: string
  pd_to_port :: string
  pd_config :: edge_config

record builder =
  bl_name :: string
  bl_description :: string
  bl_nodes :: "pipeline_node list"
  bl_node_index :: "string \<Rightarrow> usize option"
  bl_edges :: "pending_edge list"

definition builder_new :: "string \<Rightarrow> builder" where
  "builder_new name =
     \<lparr>bl_name = name, bl_description = [], bl_nodes = [], bl_node_index = (\<lambda>_. None), bl_edges = []\<rparr>"

definition builder_description :: "string \<Rightarrow> builder \<Rightarrow> builder" where
  "builder_description d b = b\<lparr>bl_description := d\<rparr>"

definition role_to_interface :: "component_role \<Rightarrow> string" where
  "role_to_interface r =
     (case r of
        Source \<Rightarrow> ''torvyn:streaming/source'' | Processor \<Rightarrow> ''torvyn:streaming/processor''
      | Sink \<Rightarrow> ''torvyn:streaming/sink'' | Filter \<Rightarrow> ''torvyn:streaming/filter''
      | Router \<Rightarrow> ''torvyn:streaming/router'')"

definition add_node_with_interface ::
    "string \<Rightarrow> component_role \<Rightarrow> string \<Rightarrow> string \<Rightarrow> node_config \<Rightarrow> builder \<Rightarrow> builder" where
  "add_node_with_interface name role ref interface config b =
     (let index = length (bl_nodes b)
      in b\<lparr>bl_nodes := bl_nodes b @ [\<lparr>pn_name = name, pn_component_ref = ref, pn_interface = interface,
             pn_role = role, pn_config = config\<rparr>],
           bl_node_index := (bl_node_index b)(name \<mapsto> index)\<rparr>)"

definition add_node :: "string \<Rightarrow> component_role \<Rightarrow> string \<Rightarrow> node_config \<Rightarrow> builder \<Rightarrow> builder" where
  "add_node name role ref config b = add_node_with_interface name role ref (role_to_interface role) config b"

definition add_edge_with_config ::
    "string \<Rightarrow> string \<Rightarrow> string \<Rightarrow> string \<Rightarrow> edge_config \<Rightarrow> builder \<Rightarrow> builder" where
  "add_edge_with_config from_node from_port to_node to_port config b =
     b\<lparr>bl_edges := bl_edges b @ [\<lparr>pd_from_node = from_node, pd_from_port = from_port, pd_to_node = to_node,
         pd_to_port = to_port, pd_config = config\<rparr>]\<rparr>"

definition add_edge :: "string \<Rightarrow> string \<Rightarrow> string \<Rightarrow> string \<Rightarrow> builder \<Rightarrow> builder" where
  "add_edge from_node from_port to_node to_port b =
     add_edge_with_config from_node from_port to_node to_port edge_config_default b"

fun report_duplicates :: "string \<Rightarrow> string set \<Rightarrow> pipeline_node list \<Rightarrow> validation_report \<Rightarrow> validation_report" where
  "report_duplicates flow seen [] report = report"
| "report_duplicates flow seen (n # ns) report =
     report_duplicates flow (insert (pn_name n) seen) ns
       (if pn_name n \<in> seen then report_push (DuplicateNode flow (pn_name n)) report else report)"

fun resolve_edges ::
    "string \<Rightarrow> (string \<Rightarrow> usize option) \<Rightarrow> nat \<Rightarrow> pending_edge list \<Rightarrow> pipeline_edge list \<Rightarrow> validation_report \<Rightarrow>
     pipeline_edge list \<times> validation_report" where
  "resolve_edges flow index i [] acc report = (acc, report)"
| "resolve_edges flow index i (p # ps) acc report =
     (case index (pd_from_node p) of
        None \<Rightarrow>
          resolve_edges flow index (i + 1) ps acc
            (report_push (EdgeReferencesUnknownNode flow i (pd_from_node p) ''from'') report)
      | Some u \<Rightarrow>
          (case index (pd_to_node p) of
             None \<Rightarrow>
               resolve_edges flow index (i + 1) ps acc
                 (report_push (EdgeReferencesUnknownNode flow i (pd_to_node p) ''to'') report)
           | Some v \<Rightarrow>
               if u = v then resolve_edges flow index (i + 1) ps acc (report_push (SelfLoop flow (pd_from_node p)) report)
               else
                 resolve_edges flow index (i + 1) ps
                   (acc @ [\<lparr>pe_from_node = u, pe_from_port = pd_from_port p, pe_to_node = v, pe_to_port = pd_to_port p,
                      pe_config = pd_config p\<rparr>]) report))"

text \<open>\<open>build\<close>: \<open>None\<close> would be a panic.\<close>

definition build :: "port_walk \<Rightarrow> builder \<Rightarrow> (pipeline_error list + pipeline) option" where
  "build walk b =
     (let report = report_duplicates (bl_name b) {} (bl_nodes b) (report_new (bl_name b));
          (resolved, report) = resolve_edges (bl_name b) (bl_node_index b) 0 (bl_edges b) [] report
      in if \<not> report_is_ok report then Some (Inl (vr_errors report))
         else map_option (\<lambda>(order, report).
                if \<not> report_is_ok report then Inl (vr_errors report)
                else Inr (pipeline_new_unchecked (bl_name b) (bl_description b) (bl_nodes b) (bl_node_index b) resolved order))
              (validate_topology walk (bl_name b) (bl_nodes b) resolved report))"

end
