(* ===== verification/Pip_Cycle.thy ===== *)
theory Pip_Cycle
  imports Pip_Topology
begin

text \<open>
  The sort of \<open>validate.rs\<close> against the reactor's, and its search for a cycle: when the sort is stuck, the
  search always finds an edge back into its stack, and the names it reports are those of a closed walk.
\<close>

section \<open>The sort\<close>

lemma sort_loop_ok:
  assumes "kahn_inv n es deg q order" and "in_range n es"
  shows "\<exists>order' deg'. sort_loop (out_of n es) deg q order = Some (order', deg') \<and> kahn_inv n es deg' [] order'"
  using assms
proof (induction "out_of n es" deg q order rule: sort_loop.induct)
  case (2 deg u q order)
  obtain deg' q' where s: "u < n" "relax deg q (succs es u) = Some (deg', q')"
    "kahn_inv n es deg' q' (order @ [u])" using kahn_inv_step [OF "2.prems"] by blast
  have o: "out_of n es ! u = succs es u" "u < length (out_of n es)" using s(1) by (simp_all add: out_of_def)
  with "2.hyps" [of "(deg', q')" deg' q'] s "2.prems"(2) show ?case by simp
qed auto

section \<open>The search\<close>

lemma walk_in_converse: "walk_in (E\<inverse>) (rev xs) \<longleftrightarrow> walk_in E xs"
proof (induction E xs rule: walk_in.induct)
  case (1 E x y xs)
  have "walk_in (E\<inverse>) (rev (x # y # xs)) \<longleftrightarrow> walk_in (E\<inverse>) (rev (y # xs)) \<and> (last (rev (y # xs)), x) \<in> E\<inverse>"
    using walk_in_append [of "rev (y # xs)" "[x]" "E\<inverse>"] by simp
  with 1 show ?case by auto
qed simp_all

lemma walk_in_prefix: "walk_in E (xs @ ys) \<Longrightarrow> walk_in E xs"
  by (induction E xs rule: walk_in.induct) auto

text \<open>\<open>color\<close> and \<open>parent\<close> describe the stack; \<open>nxt\<close> is the node pushed on top of the given part of it.\<close>

definition black :: "nat list \<Rightarrow> nat set" where
  "black color = {v. v < length color \<and> color ! v \<noteq> 0 \<and> color ! v \<noteq> 1}"

fun chain_ok :: "nat list list \<Rightarrow> nat set \<Rightarrow> nat option list \<Rightarrow> nat option \<Rightarrow> (nat \<times> nat) list \<Rightarrow> bool" where
  "chain_ok adj F parent nxt [] \<longleftrightarrow> True"
| "chain_ok adj F parent nxt ((u, k) # st) \<longleftrightarrow>
     k \<le> length (adj ! u) \<and>
     (case nxt of
        None \<Rightarrow> \<forall>i < k. adj ! u ! i \<in> F
      | Some w \<Rightarrow> 0 < k \<and> adj ! u ! (k - 1) = w \<and> parent ! w = Some u \<and> (\<forall>i < k - 1. adj ! u ! i \<in> F)) \<and>
     chain_ok adj F parent (Some u) st"

lemma chain_ok_mono: "chain_ok adj F parent nxt st \<Longrightarrow> F \<subseteq> F' \<Longrightarrow> chain_ok adj F' parent nxt st"
  by (induction adj F parent nxt st rule: chain_ok.induct) (auto split: option.splits)

lemma chain_ok_parent:
  "v \<notin> fst ` set st \<Longrightarrow> nxt \<noteq> Some v \<Longrightarrow> chain_ok adj F (parent[v := p]) nxt st \<longleftrightarrow> chain_ok adj F parent nxt st"
  by (induction adj F parent nxt st rule: chain_ok.induct) (auto split: option.splits)

lemma chain_ok_pop: "chain_ok adj F parent (Some u) st \<Longrightarrow> u \<in> F \<Longrightarrow> chain_ok adj F parent None st"
proof (cases st)
  case (Cons wk st')
  obtain w k where wk: "wk = (w, k)" by (cases wk)
  assume "chain_ok adj F parent (Some u) st" "u \<in> F"
  with Cons wk have k: "0 < k" "adj ! w ! (k - 1) \<in> F" "\<forall>i < k - 1. adj ! w ! i \<in> F"
    and rest: "k \<le> length (adj ! w)" "chain_ok adj F parent (Some w) st'" by auto
  have "adj ! w ! i \<in> F" if "i < k" for i
    using that k by (cases "i = k - 1") auto
  with Cons wk rest show ?thesis by simp
qed simp

definition search_inv :: "nat \<Rightarrow> (nat \<times> nat) set \<Rightarrow> nat list list \<Rightarrow> nat list \<Rightarrow> nat option list \<Rightarrow> (nat \<times> nat) list \<Rightarrow> bool" where
  "search_inv n E adj color parent st \<longleftrightarrow>
     length color = n \<and> length parent = n \<and> distinct (map fst st) \<and> fst ` set st \<subseteq> {..<n} \<and>
     (\<forall>v < n. color ! v = 1 \<longleftrightarrow> v \<in> fst ` set st) \<and> finished E (black color) \<and>
     chain_ok adj (black color) parent None st"

definition adj_of :: "nat \<Rightarrow> (nat \<times> nat) set \<Rightarrow> nat list list \<Rightarrow> bool" where
  "adj_of n E adj \<longleftrightarrow> length adj = n \<and> E \<subseteq> {..<n} \<times> {..<n} \<and> (\<forall>u < n. set (adj ! u) = E `` {u})"

text \<open>What the search answers: nothing is left on the stack, or an edge leads back into it.\<close>

definition search_done ::
    "nat \<Rightarrow> (nat \<times> nat) set \<Rightarrow> nat list list \<Rightarrow> nat list \<Rightarrow>
     ((nat \<times> nat) option \<times> nat list \<times> nat option list) option \<Rightarrow> bool" where
  "search_done n E adj color r \<longleftrightarrow>
     (\<exists>color' parent'. r = Some (None, color', parent') \<and> search_inv n E adj color' parent' [] \<and>
        (\<forall>v < n. color ! v \<noteq> 0 \<longrightarrow> color' ! v \<noteq> 0)) \<or>
     (\<exists>u v color' parent' st k. r = Some (Some (u, v), color', parent') \<and> search_inv n E adj color' parent' ((u, k) # st) \<and>
        (u, v) \<in> E \<and> v \<in> fst ` set ((u, k) # st))"

lemma search_done_mono:
  "search_done n E adj color' r \<Longrightarrow> (\<And>v. v < n \<Longrightarrow> color ! v \<noteq> 0 \<Longrightarrow> color' ! v \<noteq> 0) \<Longrightarrow> search_done n E adj color r"
  unfolding search_done_def by metis

lemma search_pop:
  assumes inv: "search_inv n E adj color parent ((u, k) # st)" and adj: "adj_of n E adj" and k: "length (adj ! u) \<le> k"
  shows "search_inv n E adj (color[u := 2]) parent st"
proof -
  have u: "u < n" "length color = n" "color ! u = 1" "u \<notin> fst ` set st" using inv by (auto simp: search_inv_def)
  have b: "black (color[u := 2]) = insert u (black color)" using u by (auto simp: black_def nth_list_update)
  have "E `` {u} \<subseteq> black color"
  proof
    fix v assume "v \<in> E `` {u}"
    then have "v \<in> set (adj ! u)" using adj u by (simp add: adj_of_def)
    then obtain i where "i < length (adj ! u)" "adj ! u ! i = v" by (auto simp: in_set_conv_nth)
    with inv k show "v \<in> black color" by (auto simp: search_inv_def)
  qed
  moreover have "u \<notin> black color" using u by (simp add: black_def)
  ultimately have f: "finished E (insert u (black color))" using inv by (auto simp: search_inv_def intro: finished_insert)
  have "chain_ok adj (black color) parent (Some u) st" using inv by (simp add: search_inv_def)
  then have "chain_ok adj (insert u (black color)) parent None st"
    by (intro chain_ok_pop [where u = u]) (auto intro: chain_ok_mono)
  with inv u f show ?thesis unfolding search_inv_def b by (auto simp: nth_list_update)
qed

lemma search_push:
  assumes inv: "search_inv n E adj color parent ((u, k) # st)" and v: "v < n" "color ! v = 0"
    and k: "k < length (adj ! u)" "adj ! u ! k = v"
  shows "search_inv n E adj (color[v := 1]) (parent[v := Some u]) ((v, 0) # (u, k + 1) # st)"
proof -
  have len: "length color = n" "length parent = n" and d: "distinct (map fst ((u, k) # st))"
    and sub: "fst ` set ((u, k) # st) \<subseteq> {..<n}" and fin: "finished E (black color)"
    and gray: "\<And>w. w < n \<Longrightarrow> color ! w = 1 \<longleftrightarrow> w \<in> fst ` set ((u, k) # st)"
    and chain: "chain_ok adj (black color) parent None ((u, k) # st)"
    using inv unfolding search_inv_def by blast+
  have nv: "v \<notin> fst ` set ((u, k) # st)" using gray [OF v(1)] v(2) by simp
  have b: "black (color[v := 1]) = black color" using v len by (auto simp: black_def nth_list_update)
  have "chain_ok adj (black color) (parent[v := Some u]) (Some u) st"
    using chain nv by (subst chain_ok_parent) auto
  then have "chain_ok adj (black color) (parent[v := Some u]) None ((v, 0) # (u, k + 1) # st)"
    using chain v k len by simp
  moreover have "color[v := 1] ! w = 1 \<longleftrightarrow> w \<in> fst ` set ((v, 0) # (u, k + 1) # st)" if "w < n" for w
    using gray [OF that] v len by (cases "w = v") simp_all
  moreover have "distinct (map fst ((v, 0) # (u, k + 1) # st))" "fst ` set ((v, 0) # (u, k + 1) # st) \<subseteq> {..<n}"
    using d nv sub v by simp_all
  ultimately show ?thesis unfolding search_inv_def b using len fin by simp
qed

lemma search_skip:
  assumes inv: "search_inv n E adj color parent ((u, k) # st)" and v: "v < n" "color ! v \<noteq> 0" "color ! v \<noteq> 1"
    and k: "k < length (adj ! u)" "adj ! u ! k = v"
  shows "search_inv n E adj color parent ((u, k + 1) # st)"
proof -
  have "v \<in> black color" using inv v by (simp add: search_inv_def black_def)
  with inv k show ?thesis by (auto simp: search_inv_def less_Suc_eq)
qed

lemma cycle_dfs_ok:
  assumes "search_inv n E adj color parent st" and "adj_of n E adj"
  shows "search_done n E adj color (cycle_dfs adj color parent st)"
  using assms
proof (induction adj color parent st rule: cycle_dfs.induct [case_names Nil Cons])
  case (Nil adj color parent)
  then show ?case by (simp add: search_done_def)
next
  case (Cons adj color parent u k st)
  note inv = Cons.prems(1) and adj = Cons.prems(2)
  have u: "u < length adj" "u < length color" "color ! u = 1" "length color = n" "length parent = n"
    using inv adj by (auto simp: search_inv_def adj_of_def)
  then have ok: "\<not> (\<not> u < length adj \<or> \<not> u < length color)" by simp
  show ?case
  proof (cases "length (adj ! u) \<le> k")
    case True
    then have step: "cycle_dfs adj color parent ((u, k) # st) = cycle_dfs adj (color[u := 2]) parent st" using u by simp
    show ?thesis unfolding step
      by (rule search_done_mono [OF Cons.IH(1) [OF ok True search_pop [OF inv adj True] adj]])
        (use u in \<open>auto simp: nth_list_update\<close>)
  next
    case False
    define v where "v = adj ! u ! k"
    have k: "k < length (adj ! u)" "adj ! u ! k = v" using False by (simp_all add: v_def)
    then have "v \<in> set (adj ! u)" by (metis nth_mem)
    then have e: "(u, v) \<in> E" "v < n" using adj u by (auto simp: adj_of_def)
    then have okv: "\<not> \<not> v < length color" using u by simp
    consider "color ! v = 1" | "color ! v = 0" | "color ! v \<noteq> 1" "color ! v \<noteq> 0" by blast
    then show ?thesis
    proof cases
      case 1
      then have "cycle_dfs adj color parent ((u, k) # st) = Some (Some (u, v), color, parent)"
        using u k e by (simp add: Let_def)
      moreover have "v \<in> fst ` set ((u, k) # st)" using inv 1 e by (simp add: search_inv_def)
      ultimately show ?thesis using inv e unfolding search_done_def by blast
    next
      case 2
      then have step: "cycle_dfs adj color parent ((u, k) # st) =
          cycle_dfs adj (color[v := 1]) (parent[v := Some u]) ((v, 0) # (u, k + 1) # st)"
        using u k e by (simp add: Let_def)
      have "search_done n E adj (color[v := 1]) (cycle_dfs adj (color[v := 1]) (parent[v := Some u]) ((v, 0) # (u, k + 1) # st))"
        by (rule Cons.IH(2) [OF ok False v_def okv _ _ _ search_push [OF inv e(2) 2 k] adj]) (use 2 e u in simp_all)
      then show ?thesis unfolding step by (rule search_done_mono) (use u e(2) in \<open>auto simp: nth_list_update\<close>)
    next
      case 3
      then have step: "cycle_dfs adj color parent ((u, k) # st) = cycle_dfs adj color parent ((u, k + 1) # st)"
        using u k e by (simp add: Let_def)
      show ?thesis unfolding step
        by (rule Cons.IH(3) [OF ok False v_def okv 3(1,2) search_skip [OF inv e(2) 3(2,1) k] adj])
    qed
  qed
qed

text \<open>The same for the loop over the roots; \<open>P\<close> are the nodes that a complete search has visited.\<close>

definition roots_done ::
    "nat \<Rightarrow> (nat \<times> nat) set \<Rightarrow> nat list list \<Rightarrow> (nat \<Rightarrow> bool) \<Rightarrow> ((nat \<times> nat) option \<times> nat option list) option \<Rightarrow> bool" where
  "roots_done n E adj P r \<longleftrightarrow>
     (\<exists>color' parent'. r = Some (None, parent') \<and> search_inv n E adj color' parent' [] \<and> (\<forall>v < n. P v \<longrightarrow> color' ! v \<noteq> 0)) \<or>
     (\<exists>u v color' parent' st k. r = Some (Some (u, v), parent') \<and> search_inv n E adj color' parent' ((u, k) # st) \<and>
        (u, v) \<in> E \<and> v \<in> fst ` set ((u, k) # st))"

lemma roots_done_mono:
  "roots_done n E adj P r \<Longrightarrow> (\<And>v. v < n \<Longrightarrow> Q v \<Longrightarrow> P v) \<Longrightarrow> roots_done n E adj Q r"
  unfolding roots_done_def by metis

lemma search_root:
  assumes inv: "search_inv n E adj color parent []" and s: "s < n" "color ! s = 0"
  shows "search_inv n E adj (color[s := 1]) parent [(s, 0)]"
proof -
  have "length color = n" using inv by (simp add: search_inv_def)
  with s have "black (color[s := 1]) = black color" by (auto simp: black_def nth_list_update)
  with inv s show ?thesis by (auto simp: search_inv_def nth_list_update)
qed

lemma cycle_search_ok:
  assumes "search_inv n E adj color parent []" and "adj_of n E adj" and "length deg = n" and "set ss \<subseteq> {..<n}"
  shows "roots_done n E adj (\<lambda>v. color ! v \<noteq> 0 \<or> (v \<in> set ss \<and> deg ! v \<noteq> 0)) (cycle_search adj deg color parent ss)"
  using assms
proof (induction adj deg color parent ss rule: cycle_search.induct [case_names Nil Cons])
  case (Nil adj deg color parent)
  then show ?case by (auto simp: roots_done_def)
next
  case (Cons adj deg color parent s ss)
  note inv = Cons.prems(1) and adj = Cons.prems(2)
  have s: "s < n" "length color = n" "length deg = n" "set ss \<subseteq> {..<n}" using Cons.prems by (auto simp: search_inv_def)
  then have ok: "\<not> (\<not> s < length deg \<or> \<not> s < length color)" by simp
  show ?case
  proof (cases "deg ! s = 0 \<or> color ! s \<noteq> 0")
    case True
    have step: "cycle_search adj deg color parent (s # ss) = cycle_search adj deg color parent ss" using True s by simp
    show ?thesis unfolding step
      by (rule roots_done_mono [OF Cons.IH(1) [OF ok True inv adj s(3,4)]]) (use True in auto)
  next
    case False
    have s0: "color ! s = 0" using False by simp
    from cycle_dfs_ok [OF search_root [OF inv s(1) s0] adj, unfolded search_done_def]
    consider (none) color' parent' where "cycle_dfs adj (color[s := 1]) parent [(s, 0)] = Some (None, color', parent')"
        "search_inv n E adj color' parent' []" "\<forall>v < n. color[s := 1] ! v \<noteq> 0 \<longrightarrow> color' ! v \<noteq> 0"
      | (edge) u v color' parent' st k where
        "cycle_dfs adj (color[s := 1]) parent [(s, 0)] = Some (Some (u, v), color', parent')"
        "search_inv n E adj color' parent' ((u, k) # st)" "(u, v) \<in> E" "v \<in> fst ` set ((u, k) # st)" by blast
    then show ?thesis
    proof cases
      case edge
      then have "cycle_search adj deg color parent (s # ss) = Some (Some (u, v), parent')" using ok False by simp
      with edge show ?thesis unfolding roots_done_def by blast
    next
      case none
      then have step: "cycle_search adj deg color parent (s # ss) = cycle_search adj deg color' parent' ss" using ok False by simp
      have vis: "color' ! v \<noteq> 0" if "v < n" "color ! v \<noteq> 0 \<or> v = s" for v
        using none(3) that s(1,2) by (cases "v = s") (auto simp: nth_list_update)
      show ?thesis unfolding step
      proof (rule roots_done_mono [OF Cons.IH(2) [OF ok False none(1) refl refl refl none(2) adj s(3,4)]])
        show "color' ! v \<noteq> 0 \<or> (v \<in> set ss \<and> deg ! v \<noteq> 0)"
          if "v < n" "color ! v \<noteq> 0 \<or> (v \<in> set (s # ss) \<and> deg ! v \<noteq> 0)" for v
          using vis [of v] that by (cases "v = s") auto
      qed
    qed
  qed
qed

section \<open>The reported walk\<close>

lemma chain_ok_walk:
  "chain_ok adj F parent nxt st \<Longrightarrow> adj_of n E adj \<Longrightarrow> fst ` set st \<subseteq> {..<n} \<Longrightarrow>
   walk_in (E\<inverse>) (case nxt of None \<Rightarrow> map fst st | Some w \<Rightarrow> w # map fst st)"
proof (induction adj F parent nxt st rule: chain_ok.induct [case_names Nil Cons])
  case (Cons adj F parent nxt u k st)
  have IH: "walk_in (E\<inverse>) (u # map fst st)" using Cons by simp
  show ?case
  proof (cases nxt)
    case (Some w)
    with Cons.prems(1) have "0 < k" "k \<le> length (adj ! u)" "adj ! u ! (k - 1) = w" by simp_all
    then have "w \<in> set (adj ! u)" by (metis diff_less nth_mem less_le_trans zero_less_one)
    with Cons.prems(2,3) have "(u, w) \<in> E" by (auto simp: adj_of_def)
    with IH Some show ?thesis by simp
  qed (use IH in simp)
qed (simp split: option.splits)

lemma walk_parents_ok:
  "chain_ok adj F parent nxt ((u, k) # st) \<Longrightarrow> v \<in> fst ` set ((u, k) # st) \<Longrightarrow> fst ` set ((u, k) # st) \<subseteq> {..<n} \<Longrightarrow>
   length parent = n \<Longrightarrow> length st < fuel \<Longrightarrow>
   walk_parents fuel parent v u = Some (takeWhile (\<lambda>w. w \<noteq> v) (map fst ((u, k) # st)))"
proof (induction st arbitrary: fuel nxt u k)
  case Nil
  then show ?case by (simp add: walk_parents.simps)
next
  case (Cons wk st)
  obtain w l where wk: "wk = (w, l)" by (cases wk)
  show ?case
  proof (cases "u = v")
    case False
    have c: "chain_ok adj F parent (Some u) ((w, l) # st)" using Cons.prems(1) wk by (simp split: option.splits)
    then have p: "parent ! u = Some w" by simp
    obtain f where f: "fuel = Suc f" using Cons.prems(5) by (cases fuel) auto
    have "walk_parents f parent v w = Some (takeWhile (\<lambda>x. x \<noteq> v) (map fst ((w, l) # st)))"
      by (rule Cons.IH [OF c]) (use Cons.prems wk f False in auto)
    moreover have "index_vec parent u = Some (Some w)" using p Cons.prems(3,4) by (simp add: index_vec_def)
    ultimately show ?thesis using False f wk by (subst walk_parents.simps) simp
  qed (simp add: walk_parents.simps)
qed

lemma takeWhile_split: "v \<in> set xs \<Longrightarrow> \<exists>rest. xs = takeWhile (\<lambda>w. w \<noteq> v) xs @ v # rest"
  by (induction xs) auto

lemma reported_walk:
  assumes inv: "search_inv n E adj color parent ((u, k) # st)" and adj: "adj_of n E adj"
    and e: "(u, v) \<in> E" and v: "v \<in> fst ` set ((u, k) # st)"
  obtains ups where "walk_parents n parent v u = Some ups" and "closed_walk E (rev ([v] @ ups @ [v]))"
    and "set ups \<subseteq> {..<n}"
proof -
  let ?nodes = "map fst ((u, k) # st)" and ?ups = "takeWhile (\<lambda>w. w \<noteq> v) (map fst ((u, k) # st))"
  have d: "distinct ?nodes" "set ?nodes \<subseteq> {..<n}" using inv by (auto simp: search_inv_def)
  then have "length ?nodes \<le> card {..<n}" by (metis card_mono distinct_card finite_lessThan)
  then have "length st < n" by simp
  then have w: "walk_parents n parent v u = Some ?ups"
    using inv v by (intro walk_parents_ok [where n = n and nxt = None and adj = adj and F = "black color"]) (auto simp: search_inv_def)
  have down: "walk_in (E\<inverse>) ?nodes"
    using chain_ok_walk [of adj "black color" parent None "(u, k) # st" n E] inv adj by (auto simp: search_inv_def)
  have "v \<in> set ?nodes" using v by auto
  then obtain rest where "?nodes = (?ups @ [v]) @ rest" using takeWhile_split [of v ?nodes] by auto
  with down have "walk_in (E\<inverse>) (?ups @ [v])" by (metis walk_in_prefix)
  moreover have "hd (?ups @ [v]) = u" by auto
  ultimately have "walk_in (E\<inverse>) ([v] @ ?ups @ [v])"
    using e by (subst walk_in_append) auto
  then have "walk_in E (rev ([v] @ ?ups @ [v]))" using walk_in_converse [of "E\<inverse>" "[v] @ ?ups @ [v]"]
    by (metis converse_converse walk_in_converse rev_rev_ident)
  then have "closed_walk E (rev ([v] @ ?ups @ [v]))" by (simp add: closed_walk_def)
  moreover have "set ?ups \<subseteq> {..<n}" using d(2) set_takeWhileD by fastforce
  ultimately show thesis using w that by blast
qed

lemma black_empty: "black (replicate n 0) = {}"
  by (auto simp: black_def)

lemma find_cycle_indices_ok:
  assumes range: "in_range n es" and inv: "kahn_inv n es deg [] order" and stuck: "length order \<noteq> n"
  obtains cyc where "find_cycle_indices n es deg = Some cyc" and "closed_walk (set es) cyc" and "set cyc \<subseteq> {..<n}"
proof -
  let ?adj = "sorted_neighbours (out_of n es)" and ?E = "set es"
  have adj: "adj_of n ?E ?adj"
    using range by (auto simp: adj_of_def sorted_neighbours_def out_of_def in_range_def)
  have start: "search_inv n ?E ?adj (replicate n 0) (replicate n None) []"
    unfolding search_inv_def by (auto simp: black_empty)
  have len: "length deg = n" using inv by (simp add: kahn_inv_def)
  have "roots_done n ?E ?adj (\<lambda>v. deg ! v \<noteq> 0) (cycle_search ?adj deg (replicate n 0) (replicate n None) [0..<n])"
    by (rule roots_done_mono [OF cycle_search_ok [OF start adj len]]) auto
  then consider (none) color parent where
      "cycle_search ?adj deg (replicate n 0) (replicate n None) [0..<n] = Some (None, parent)"
      "search_inv n ?E ?adj color parent []" "\<forall>v < n. deg ! v \<noteq> 0 \<longrightarrow> color ! v \<noteq> 0"
    | (edge) u v color parent st k where
      "cycle_search ?adj deg (replicate n 0) (replicate n None) [0..<n] = Some (Some (u, v), parent)"
      "search_inv n ?E ?adj color parent ((u, k) # st)" "(u, v) \<in> ?E" "v \<in> fst ` set ((u, k) # st)"
    unfolding roots_done_def by blast
  then show thesis
  proof cases
    case edge
    from reported_walk [OF edge(2) adj edge(3,4)] obtain ups where b:
      "walk_parents n parent v u = Some ups" "closed_walk ?E (rev ([v] @ ups @ [v]))" "set ups \<subseteq> {..<n}" by blast
    have "v < n" using edge(3) in_rangeD [OF range] by blast
    with b edge(1) show thesis
      by (intro that [of "rev ([v] @ ups @ [v])"]) (auto simp: find_cycle_indices_def build_edges_eq [OF range])
  next
    case none
    let ?S = "{v. v < n \<and> deg ! v \<noteq> 0}"
    have order: "set order = {v. v < n \<and> deg ! v = 0}" "distinct order" using inv by (auto simp: kahn_inv_def)
    have "?S \<noteq> {}"
    proof
      assume "?S = {}"
      then have "set order = {..<n}" using order(1) by auto
      with order(2) stuck show False by (metis card_lessThan distinct_card)
    qed
    moreover have "\<exists>u \<in> ?S. (u, v) \<in> ?E" if v: "v \<in> ?S" for v
    proof -
      have "deg ! v = length (filter (\<lambda>u. u \<notin> set order) (preds es v))" using inv v by (simp add: kahn_inv_def)
      with v have "filter (\<lambda>u. u \<notin> set order) (preds es v) \<noteq> []" by auto
      then obtain u where u: "(u, v) \<in> ?E" "u \<notin> set order" by (auto simp: filter_empty_conv)
      with order(1) in_rangeD [OF range u(1)] show ?thesis by auto
    qed
    ultimately have "\<not> acyclic (?E \<inter> ?S \<times> ?S)" by (intro no_first_cyclic) auto
    moreover have "?S \<subseteq> black color" using none(2,3) by (auto simp: search_inv_def black_def)
    then have "acyclic (?E \<inter> ?S \<times> ?S)"
      using none(2) by (auto simp: search_inv_def finished_def elim!: acyclic_subset)
    ultimately show thesis by simp
  qed
qed

end
