(* ===== verification/Pip_Build.thy ===== *)
theory Pip_Build
  imports Pip_Cycle
begin

text \<open>
  What the validation of a pipeline accepts, what its report says when it does not, and the same for the
  builder on top of it.
\<close>

section \<open>Reports\<close>

text \<open>A check adds errors exactly when its condition fails; only the sort reports a cycle.\<close>

definition adds_unless :: "validation_report \<Rightarrow> validation_report \<Rightarrow> bool \<Rightarrow> bool" where
  "adds_unless r r' C \<longleftrightarrow>
     (\<exists>new. vr_errors r' = vr_errors r @ new \<and> (new = [] \<longleftrightarrow> C) \<and> (\<forall>flow c. CycleDetected flow c \<notin> set new))"

lemma adds_unless_refl: "C \<Longrightarrow> adds_unless r r C"
  by (auto simp: adds_unless_def)

lemma adds_unless_push: "\<not> C \<Longrightarrow> (\<And>flow c. e \<noteq> CycleDetected flow c) \<Longrightarrow> adds_unless r (report_push e r) C"
  unfolding adds_unless_def report_push_def by (intro exI [of _ "[e]"]) (simp, metis)

lemma adds_unless_trans: "adds_unless r r' C \<Longrightarrow> adds_unless r' r'' D \<Longrightarrow> adds_unless r r'' (C \<and> D)"
proof -
  assume "adds_unless r r' C" "adds_unless r' r'' D"
  then obtain new new' where "vr_errors r' = vr_errors r @ new" "new = [] \<longleftrightarrow> C" "\<And>flow c. CycleDetected flow c \<notin> set new"
    "vr_errors r'' = vr_errors r' @ new'" "new' = [] \<longleftrightarrow> D" "\<And>flow c. CycleDetected flow c \<notin> set new'"
    unfolding adds_unless_def by blast
  then show ?thesis unfolding adds_unless_def by (intro exI [of _ "new @ new'"]) simp
qed

lemma adds_unless_cong: "adds_unless r r' C \<Longrightarrow> C = D \<Longrightarrow> adds_unless r r' D"
  by simp

lemma adds_unless_if:
  "adds_unless r (if C then r else report_push e r) C" if "\<And>flow c. e \<noteq> CycleDetected flow c"
  using that by (auto intro: adds_unless_refl adds_unless_push)

lemma adds_unless_iff:
  "adds_unless r (if B then report_push e r else r) (\<not> B)" if "\<And>flow c. e \<noteq> CycleDetected flow c"
  using that by (auto intro: adds_unless_refl adds_unless_push)

section \<open>The checks\<close>

lemma check_source_and_sink_adds:
  "adds_unless report (check_source_and_sink flow nodes report)
     ((\<exists>n \<in> set nodes. pn_role n = Source) \<and> (\<exists>n \<in> set nodes. pn_role n = Sink))"
  unfolding check_source_and_sink_def Let_def list_ex_iff
  by (rule adds_unless_trans; rule adds_unless_if) simp_all

definition role_ok :: "pipeline_edge list \<Rightarrow> nat \<Rightarrow> component_role \<Rightarrow> bool" where
  "role_ok es i r \<longleftrightarrow>
     (let has_in = (\<exists>u. (u, i) \<in> set (pairs es)); has_out = (\<exists>v. (i, v) \<in> set (pairs es))
      in case r of Source \<Rightarrow> \<not> has_in | Sink \<Rightarrow> \<not> has_out | _ \<Rightarrow> has_in \<and> has_out)"

lemma pairs_iff: "(u, v) \<in> set (pairs es) \<longleftrightarrow> (\<exists>e \<in> set es. pe_from_node e = u \<and> pe_to_node e = v)"
  by (auto simp: pairs_def)

lemma check_role_consistency_adds:
  "adds_unless report (check_role_consistency flow es i nodes report) (\<forall>j < length nodes. role_ok es (i + j) (pn_role (nodes ! j)))"
proof (induction flow es i nodes report rule: check_role_consistency.induct)
  case (1 flow es i report)
  then show ?case by (simp add: adds_unless_refl)
next
  case (2 flow es i n ns report)
  let ?in = "list_ex (\<lambda>e. pe_to_node e = i) es" and ?out = "list_ex (\<lambda>e. pe_from_node e = i) es"
  let ?report = "case pn_role n of
      Source \<Rightarrow> if ?in then report_push (SourceHasIncoming flow (pn_name n)) report else report
    | Sink \<Rightarrow> if ?out then report_push (SinkHasOutgoing flow (pn_name n)) report else report
    | _ \<Rightarrow> if \<not> ?in \<or> \<not> ?out then
          report_push (ProcessorMissingEdges flow (pn_name n) (role_name (pn_role n)) ?in ?out) report
        else report"
  have io: "?in \<longleftrightarrow> (\<exists>u. (u, i) \<in> set (pairs es))" "?out \<longleftrightarrow> (\<exists>v. (i, v) \<in> set (pairs es))"
    by (auto simp: list_ex_iff pairs_iff)
  have "adds_unless report ?report (role_ok es i (pn_role n))"
    unfolding role_ok_def Let_def io [symmetric]
    by (cases "pn_role n"; simp only: component_role.case; rule adds_unless_cong, rule adds_unless_iff) simp_all
  moreover have "adds_unless ?report (check_role_consistency flow es (i + 1) ns ?report)
      (\<forall>j < length ns. role_ok es (i + 1 + j) (pn_role (ns ! j)))" by (rule "2.IH") simp_all
  ultimately have "adds_unless report (check_role_consistency flow es (i + 1) ns ?report)
      (role_ok es i (pn_role n) \<and> (\<forall>j < length ns. role_ok es (i + 1 + j) (pn_role (ns ! j))))"
    by (rule adds_unless_trans)
  moreover have "check_role_consistency flow es i (n # ns) report = check_role_consistency flow es (i + 1) ns ?report"
    by (simp only: check_role_consistency.simps Let_def)
  moreover have "role_ok es i (pn_role n) \<and> (\<forall>j < length ns. role_ok es (i + 1 + j) (pn_role (ns ! j))) \<longleftrightarrow>
      (\<forall>j < length (n # ns). role_ok es (i + j) (pn_role ((n # ns) ! j)))" by (simp add: All_less_Suc2)
  ultimately show ?case by simp
qed

lemma check_ports_adds:
  "\<forall>((i, port), count) \<in> set cs. i < length nodes \<Longrightarrow>
   \<exists>report'. check_ports flow direction limit nodes cs report = Some report' \<and>
     adds_unless report report' (\<forall>(p, count) \<in> set cs. count \<le> limit)"
proof (induction flow direction limit nodes cs report rule: check_ports.induct)
  case (1 flow direction limit nodes report)
  then show ?case by (simp add: adds_unless_refl)
next
  case (2 flow direction limit nodes i port count cs report)
  show ?case
  proof (cases "limit < count")
    case True
    let ?r = "report_push (FanLimitExceeded flow (pn_name (nodes ! i)) port count limit direction) report"
    have i: "index_vec nodes i = Some (nodes ! i)" using "2.prems" by (simp add: index_vec_def)
    with "2.IH"(1) [OF True, of "nodes ! i"] "2.prems" obtain report' where r:
      "check_ports flow direction limit nodes cs ?r = Some report'"
      "adds_unless ?r report' (\<forall>(p, count) \<in> set cs. count \<le> limit)" by auto
    have "adds_unless report ?r False" by (rule adds_unless_push) simp_all
    from adds_unless_trans [OF this r(2)] r(1) i True show ?thesis by simp
  next
    case False
    with "2.IH"(2) [OF False] "2.prems" show ?thesis by simp
  qed
qed

text \<open>A hash map hands out its entries in some order.\<close>

definition walk_ok :: "('a list \<Rightarrow> 'a list) \<Rightarrow> bool" where
  "walk_ok walk \<longleftrightarrow> (\<forall>xs. set (walk xs) = set xs)"

definition fan_ok :: "pipeline_edge list \<Rightarrow> bool" where
  "fan_ok es \<longleftrightarrow>
     (\<forall>e \<in> set es. count_list (map (\<lambda>e. (pe_from_node e, pe_from_port e)) es) (pe_from_node e, pe_from_port e) \<le> default_max_fan_out) \<and>
     (\<forall>e \<in> set es. count_list (map (\<lambda>e. (pe_to_node e, pe_to_port e)) es) (pe_to_node e, pe_to_port e) \<le> default_max_fan_in)"

lemma in_range_pairs:
  "in_range n (pairs es) \<longleftrightarrow> (\<forall>e \<in> set es. pe_from_node e < n \<and> pe_to_node e < n)"
  by (auto simp: in_range_def pairs_def)

lemma check_fan_limits_adds:
  assumes w: "walk_ok walk" and range: "in_range (length nodes) (pairs es)"
  shows "\<exists>report'. check_fan_limits walk flow nodes es report = Some report' \<and> adds_unless report report' (fan_ok es)"
proof -
  let ?out = "walk (tally (map (\<lambda>e. (pe_from_node e, pe_from_port e)) es))"
    and ?in = "walk (tally (map (\<lambda>e. (pe_to_node e, pe_to_port e)) es))"
  have out: "set ?out = (\<lambda>e. ((pe_from_node e, pe_from_port e), count_list (map (\<lambda>e. (pe_from_node e, pe_from_port e)) es)
      (pe_from_node e, pe_from_port e))) ` set es"
    and inn: "set ?in = (\<lambda>e. ((pe_to_node e, pe_to_port e), count_list (map (\<lambda>e. (pe_to_node e, pe_to_port e)) es)
      (pe_to_node e, pe_to_port e))) ` set es"
    by (simp_all only: w [unfolded walk_ok_def, rule_format] set_tally_map)
  have "\<forall>((i, port), count) \<in> set ?out. i < length nodes" "\<forall>((i, port), count) \<in> set ?in. i < length nodes"
    using range by (auto simp: out inn in_range_pairs)
  from check_ports_adds [OF this(1), of flow "''fan-out''" default_max_fan_out report]
    check_ports_adds [OF this(2), of flow "''fan-in''" default_max_fan_in]
  obtain r1 r2 where r: "check_ports flow ''fan-out'' default_max_fan_out nodes ?out report = Some r1"
    "adds_unless report r1 (\<forall>(p, count) \<in> set ?out. count \<le> default_max_fan_out)"
    "check_ports flow ''fan-in'' default_max_fan_in nodes ?in r1 = Some r2"
    "adds_unless r1 r2 (\<forall>(p, count) \<in> set ?in. count \<le> default_max_fan_in)" by blast
  have "(\<forall>(p, count) \<in> set ?out. count \<le> default_max_fan_out) \<and> (\<forall>(p, count) \<in> set ?in. count \<le> default_max_fan_in) \<longleftrightarrow> fan_ok es"
    unfolding out inn fan_ok_def by simp
  with adds_unless_trans [OF r(2,4)] r(1,3) show ?thesis by (simp add: check_fan_limits_def)
qed

lemma names_of_ok: "set is \<subseteq> {..<length nodes} \<Longrightarrow> names_of nodes is = Some (map (\<lambda>i. pn_name (nodes ! i)) is)"
  by (induction nodes "is" rule: names_of.induct) (auto simp: index_vec_def)

definition topological :: "nat \<Rightarrow> (nat \<times> nat) list \<Rightarrow> nat list \<Rightarrow> bool" where
  "topological n es order \<longleftrightarrow> distinct order \<and> set order = {..<n} \<and> forward es order"

text \<open>A reported cycle names the nodes of a closed walk.\<close>

definition names_cycle :: "pipeline_node list \<Rightarrow> pipeline_edge list \<Rightarrow> string list \<Rightarrow> bool" where
  "names_cycle nodes es names \<longleftrightarrow>
     (\<exists>cyc. closed_walk (set (pairs es)) cyc \<and> set cyc \<subseteq> {..<length nodes} \<and> names = map (\<lambda>i. pn_name (nodes ! i)) cyc)"

lemma topological_sort_cases:
  assumes range: "in_range (length nodes) (pairs es)"
  obtains (sorted) order where "topological_sort flow nodes es report = Some (order, report)"
      "topological (length nodes) (pairs es) order" "acyclic (set (pairs es))"
  | (cyclic) names where "topological_sort flow nodes es report = Some ([], report_push (CycleDetected flow names) report)"
      "names_cycle nodes es names" "\<not> acyclic (set (pairs es))"
proof -
  let ?n = "length nodes" and ?es = "pairs es"
  obtain order deg where s: "sort_loop (out_of ?n ?es) (deg_of ?n ?es) (initial_queue (deg_of ?n ?es)) [] = Some (order, deg)"
    "kahn_inv ?n ?es deg [] order" using sort_loop_ok [OF kahn_inv_init [OF range] range] by blast
  have order: "distinct order" "set order \<subseteq> {..<?n}" "forward ?es order" "length deg = ?n" using s(2) by (auto simp: kahn_inv_def)
  show thesis
  proof (cases "length order = ?n")
    case True
    with order have all: "set order = {..<?n}" by (metis card_lessThan card_subset_eq distinct_card finite_lessThan)
    moreover have "acyclic (set ?es)"
      by (rule forward_acyclic [OF order(3,1)]) (use in_rangeD [OF range] all in auto)
    ultimately show thesis
      using s(1) order True by (intro sorted) (simp_all add: topological_sort_def build_edges_eq [OF range] topological_def)
  next
    case False
    obtain cyc where cyc: "find_cycle_indices ?n ?es deg = Some cyc" "closed_walk (set ?es) cyc" "set cyc \<subseteq> {..<?n}"
      using find_cycle_indices_ok [OF range s(2) False] by blast
    then have "find_cycle nodes es deg = Some (map (\<lambda>i. pn_name (nodes ! i)) cyc)" "cyc \<noteq> []"
      by (auto simp: find_cycle_def names_of_ok closed_walk_def)
    moreover have "names_of nodes (filter (\<lambda>i. 0 < deg ! i) [0..<length deg]) =
        Some (map (\<lambda>i. pn_name (nodes ! i)) (filter (\<lambda>i. 0 < deg ! i) [0..<length deg]))"
      by (rule names_of_ok) (use order(4) in auto)
    ultimately show thesis
      using s(1) False cyc(2,3) closed_walk_cyclic [OF cyc(2)]
      by (intro cyclic [of "map (\<lambda>i. pn_name (nodes ! i)) cyc"])
        (auto simp: topological_sort_def build_edges_eq [OF range] names_cycle_def)
  qed
qed

lemma report_unvisited_adds:
  "length seen = length nodes \<Longrightarrow> \<exists>report'. report_unvisited flow seen nodes report = Some report' \<and>
     adds_unless report report' (\<forall>j < length nodes. seen ! j)"
proof (induction flow seen nodes report rule: report_unvisited.induct)
  case (1 flow seen report)
  then show ?case by (simp add: adds_unless_refl)
next
  case (2 flow seen n ns report)
  then obtain b bs where seen: "seen = b # bs" "length bs = length ns" by (cases seen) auto
  let ?r = "if b then report else report_push (DisconnectedNode flow (pn_name n)) report"
  obtain report' where r: "report_unvisited flow bs ns ?r = Some report'"
    "adds_unless ?r report' (\<forall>j < length ns. bs ! j)" using "2.IH" seen by blast
  have "adds_unless report ?r b" by (rule adds_unless_if) simp
  from adds_unless_trans [OF this r(2)] r(1) seen show ?case by (simp add: All_less_Suc2)
qed

definition source_set :: "pipeline_node list \<Rightarrow> nat set" where
  "source_set nodes = {i. i < length nodes \<and> pn_role (nodes ! i) = Source}"

lemma check_connectedness_adds:
  assumes range: "in_range (length nodes) (pairs es)"
  shows "\<exists>report'. check_connectedness flow nodes es report = Some report' \<and>
    adds_unless report report' (\<forall>v < length nodes. v \<in> (set (pairs es))\<^sup>* `` source_set nodes)"
proof -
  let ?n = "length nodes" and ?es = "pairs es"
  have "bfs_inv ?n ?es (source_set nodes) (map (\<lambda>m. pn_role m = Source) nodes)
      (filter (\<lambda>i. pn_role (nodes ! i) = Source) [0..<?n])"
    by (auto simp: bfs_inv_def source_set_def)
  from bfs_ok [OF this range] obtain seen where b:
    "bfs (out_of ?n ?es) (map (\<lambda>m. pn_role m = Source) nodes) (filter (\<lambda>i. pn_role (nodes ! i) = Source) [0..<?n]) = Some seen"
    "bfs_inv ?n ?es (source_set nodes) seen []" by blast
  then have len: "length seen = ?n" by (simp add: bfs_inv_def)
  from report_unvisited_adds [OF this, of flow report] obtain report' where r:
    "report_unvisited flow seen nodes report = Some report'" "adds_unless report report' (\<forall>j < ?n. seen ! j)" by blast
  have "(\<forall>j < ?n. seen ! j) \<longleftrightarrow> (\<forall>v < ?n. v \<in> (set ?es)\<^sup>* `` source_set nodes)"
    using bfs_done [OF b(2) range] by blast
  with r b(1) show ?thesis by (simp add: check_connectedness_def build_edges_eq [OF range])
qed

section \<open>Validation\<close>

definition pipeline_ok :: "pipeline_node list \<Rightarrow> pipeline_edge list \<Rightarrow> bool" where
  "pipeline_ok nodes es \<longleftrightarrow>
     (\<exists>n \<in> set nodes. pn_role n = Source) \<and> (\<exists>n \<in> set nodes. pn_role n = Sink) \<and>
     (\<forall>i < length nodes. role_ok es i (pn_role (nodes ! i))) \<and> fan_ok es \<and> acyclic (set (pairs es)) \<and>
     (\<forall>v < length nodes. v \<in> (set (pairs es))\<^sup>* `` source_set nodes)"

lemma validate_topology_ok:
  assumes w: "walk_ok walk" and range: "in_range (length nodes) (pairs es)"
  shows "\<exists>order report' new. validate_topology walk flow nodes es report = Some (order, report') \<and>
    vr_errors report' = vr_errors report @ new \<and> (new = [] \<longleftrightarrow> pipeline_ok nodes es) \<and>
    (new = [] \<longrightarrow> topological (length nodes) (pairs es) order) \<and>
    (\<forall>g names. CycleDetected g names \<in> set new \<longrightarrow> g = flow \<and> names_cycle nodes es names)"
proof (cases "nodes = []")
  case True
  then show ?thesis
    by (intro exI [of _ "[]"] exI [of _ "report_push (EmptyTopology flow) report"] exI [of _ "[EmptyTopology flow]"])
      (simp add: validate_topology_def report_push_def pipeline_ok_def)
next
  case False
  let ?r1 = "check_source_and_sink flow nodes report"
  let ?r2 = "check_role_consistency flow es 0 nodes ?r1"
  obtain r3 where f: "check_fan_limits walk flow nodes es ?r2 = Some r3" "adds_unless ?r2 r3 (fan_ok es)"
    using check_fan_limits_adds [OF w range] by blast
  have "adds_unless report r3 ((((\<exists>n \<in> set nodes. pn_role n = Source) \<and> (\<exists>n \<in> set nodes. pn_role n = Sink)) \<and>
      (\<forall>j < length nodes. role_ok es (0 + j) (pn_role (nodes ! j)))) \<and> fan_ok es)"
    by (rule adds_unless_trans [OF adds_unless_trans [OF check_source_and_sink_adds check_role_consistency_adds] f(2)])
  then obtain new where new: "vr_errors r3 = vr_errors report @ new" "\<And>g c. CycleDetected g c \<notin> set new"
    "new = [] \<longleftrightarrow> (\<exists>n \<in> set nodes. pn_role n = Source) \<and> (\<exists>n \<in> set nodes. pn_role n = Sink) \<and>
      (\<forall>j < length nodes. role_ok es j (pn_role (nodes ! j))) \<and> fan_ok es"
    unfolding adds_unless_def by auto
  show ?thesis
  proof (cases rule: topological_sort_cases [OF range, of flow r3])
    case (2 names)
    then have "validate_topology walk flow nodes es report = Some ([], report_push (CycleDetected flow names) r3)"
      using False f(1) by (simp add: validate_topology_def)
    moreover have "vr_errors (report_push (CycleDetected flow names) r3) = vr_errors report @ new @ [CycleDetected flow names]"
      using new(1) by (simp add: report_push_def)
    moreover have "\<not> pipeline_ok nodes es" using 2(3) by (simp add: pipeline_ok_def)
    moreover have "\<forall>g ns. CycleDetected g ns \<in> set (new @ [CycleDetected flow names]) \<longrightarrow> g = flow \<and> names_cycle nodes es ns"
      using new(2) 2(2) by simp
    moreover have "new @ [CycleDetected flow names] \<noteq> []" by simp
    ultimately show ?thesis by blast
next
    case (1 order)
    have "set order = {..<length nodes}" using 1(2) by (simp add: topological_def)
    then have ne: "order \<noteq> []" using False by (metis empty_set lessThan_empty_iff length_0_conv bot_nat_def)
    obtain r4 where c: "check_connectedness flow nodes es r3 = Some r4"
      "adds_unless r3 r4 (\<forall>v < length nodes. v \<in> (set (pairs es))\<^sup>* `` source_set nodes)"
      using check_connectedness_adds [OF range] by blast
    then obtain new' where new': "vr_errors r4 = vr_errors r3 @ new'" "\<And>g c. CycleDetected g c \<notin> set new'"
      "new' = [] \<longleftrightarrow> (\<forall>v < length nodes. v \<in> (set (pairs es))\<^sup>* `` source_set nodes)" unfolding adds_unless_def by auto
    have "validate_topology walk flow nodes es report = Some (order, r4)"
      using 1 False f(1) c(1) ne by (simp add: validate_topology_def)
    moreover have "vr_errors r4 = vr_errors report @ new @ new'" using new(1) new'(1) by simp
    moreover have "new @ new' = [] \<longleftrightarrow> pipeline_ok nodes es"
      using new(3) new'(3) 1(3) unfolding pipeline_ok_def append_is_Nil_conv by blast
    moreover have "\<And>g ns. CycleDetected g ns \<notin> set (new @ new')" using new(2) new'(2) by simp
    ultimately show ?thesis
      using 1(2) by (intro exI [of _ order] exI [of _ r4] exI [of _ "new @ new'"] conjI allI impI) blast+
  qed
qed

section \<open>The builder\<close>

text \<open>The builders that its operations make.\<close>

inductive built :: "builder \<Rightarrow> bool" where
  "built (builder_new name)"
| "built b \<Longrightarrow> built (builder_description d b)"
| "built b \<Longrightarrow> built (add_node_with_interface name role ref interface config b)"
| "built b \<Longrightarrow> built (add_edge_with_config from_node from_port to_node to_port config b)"

definition index_ok :: "builder \<Rightarrow> bool" where
  "index_ok b \<longleftrightarrow>
     (\<forall>name i. bl_node_index b name = Some i \<longrightarrow> i < length (bl_nodes b) \<and> pn_name (bl_nodes b ! i) = name) \<and>
     (\<forall>n \<in> set (bl_nodes b). bl_node_index b (pn_name n) \<noteq> None)"

lemma built_index: "built b \<Longrightarrow> index_ok b"
proof (induction rule: built.induct)
  case (3 b name role ref interface config)
  then show ?case
    by (auto simp: index_ok_def add_node_with_interface_def Let_def nth_append less_Suc_eq)
qed (auto simp: index_ok_def builder_new_def builder_description_def add_edge_with_config_def)

lemma index_in: "index_ok b \<Longrightarrow> bl_node_index b name \<noteq> None \<longleftrightarrow> name \<in> pn_name ` set (bl_nodes b)"
  unfolding index_ok_def by (metis (no_types, lifting) image_iff nth_mem option.exhaust)

lemma index_eq: "index_ok b \<Longrightarrow> bl_node_index b x = Some i \<Longrightarrow> bl_node_index b y = Some i \<Longrightarrow> x = y"
  unfolding index_ok_def by metis

lemma report_duplicates_adds:
  "adds_unless report (report_duplicates flow seen nodes report)
     (distinct (map pn_name nodes) \<and> pn_name ` set nodes \<inter> seen = {})"
proof (induction flow seen nodes report rule: report_duplicates.induct)
  case (1 flow seen report)
  then show ?case by (simp add: adds_unless_refl)
next
  case (2 flow seen n ns report)
  let ?r = "if pn_name n \<in> seen then report_push (DuplicateNode flow (pn_name n)) report else report"
  have "adds_unless report ?r (pn_name n \<notin> seen)" by (rule adds_unless_iff) simp
  from adds_unless_trans [OF this 2] show ?case by (auto elim!: adds_unless_cong)
qed

definition endpoints_ok :: "(string \<Rightarrow> usize option) \<Rightarrow> pending_edge \<Rightarrow> bool" where
  "endpoints_ok index p \<longleftrightarrow>
     index (pd_from_node p) \<noteq> None \<and> index (pd_to_node p) \<noteq> None \<and> index (pd_from_node p) \<noteq> index (pd_to_node p)"

definition resolved_edge :: "(string \<Rightarrow> usize option) \<Rightarrow> pending_edge \<Rightarrow> pipeline_edge" where
  "resolved_edge index p =
     \<lparr>pe_from_node = the (index (pd_from_node p)), pe_from_port = pd_from_port p,
      pe_to_node = the (index (pd_to_node p)), pe_to_port = pd_to_port p, pe_config = pd_config p\<rparr>"

definition resolved_edges :: "builder \<Rightarrow> pipeline_edge list" where
  "resolved_edges b = map (resolved_edge (bl_node_index b)) (bl_edges b)"

lemma resolve_edges_adds:
  "case resolve_edges flow index i ps acc report of (acc', report') \<Rightarrow>
     adds_unless report report' (\<forall>p \<in> set ps. endpoints_ok index p) \<and>
     ((\<forall>p \<in> set ps. endpoints_ok index p) \<longrightarrow> acc' = acc @ map (resolved_edge index) ps)"
proof (induction flow index i ps acc report rule: resolve_edges.induct)
  case (1 flow index i acc report)
  then show ?case by (simp add: adds_unless_refl)
next
  case (2 flow index i p ps acc report)
  have bad: ?case
    if "resolve_edges flow index i (p # ps) acc report = resolve_edges flow index (i + 1) ps acc (report_push e report)"
      and "\<not> endpoints_ok index p" and "\<And>flow c. e \<noteq> CycleDetected flow c"
      and "case resolve_edges flow index (i + 1) ps acc (report_push e report) of (acc', report') \<Rightarrow>
        adds_unless (report_push e report) report' (\<forall>p \<in> set ps. endpoints_ok index p) \<and>
        ((\<forall>p \<in> set ps. endpoints_ok index p) \<longrightarrow> acc' = acc @ map (resolved_edge index) ps)" for e
    using adds_unless_trans [OF adds_unless_push [of False e report]] that by (auto split: prod.splits)
  show ?case
  proof (cases "index (pd_from_node p)")
    case None
    show ?thesis by (rule bad [OF _ _ _ "2.IH"(1) [OF None]]) (simp_all add: None endpoints_ok_def)
  next
    case (Some u)
    note fr = Some
    show ?thesis
    proof (cases "index (pd_to_node p)")
      case None
      show ?thesis by (rule bad [OF _ _ _ "2.IH"(2) [OF fr None]]) (simp_all add: None fr endpoints_ok_def)
    next
      case (Some v)
      show ?thesis
      proof (cases "u = v")
        case True
        show ?thesis
          by (rule bad [OF _ _ _ "2.IH"(3) [OF fr Some True]]) (simp_all add: Some fr True endpoints_ok_def)
      next
        case False
        with "2.IH"(4) [OF fr Some False] fr Some show ?thesis
          by (simp add: endpoints_ok_def resolved_edge_def)
      qed
    qed
  qed
qed

text \<open>What a builder must describe, apart from the shape of the graph.\<close>

definition builder_ok :: "builder \<Rightarrow> bool" where
  "builder_ok b \<longleftrightarrow>
     distinct (map pn_name (bl_nodes b)) \<and>
     (\<forall>p \<in> set (bl_edges b). pd_from_node p \<in> pn_name ` set (bl_nodes b) \<and> pd_to_node p \<in> pn_name ` set (bl_nodes b) \<and>
        pd_from_node p \<noteq> pd_to_node p)"

lemma endpoints_ok_iff:
  assumes "index_ok b"
  shows "endpoints_ok (bl_node_index b) p \<longleftrightarrow>
    pd_from_node p \<in> pn_name ` set (bl_nodes b) \<and> pd_to_node p \<in> pn_name ` set (bl_nodes b) \<and> pd_from_node p \<noteq> pd_to_node p"
  using index_in [OF assms, of "pd_from_node p"] index_in [OF assms, of "pd_to_node p"]
    index_eq [OF assms, of "pd_from_node p" _ "pd_to_node p"]
  unfolding endpoints_ok_def by (metis option.exhaust)

lemma resolved_range:
  assumes "index_ok b" and "builder_ok b"
  shows "in_range (length (bl_nodes b)) (pairs (resolved_edges b))"
proof -
  have "the (bl_node_index b name) < length (bl_nodes b)" if "name \<in> pn_name ` set (bl_nodes b)" for name
    using that index_in [OF assms(1), of name] assms(1) unfolding index_ok_def by (metis option.exhaust option.sel)
  with assms(2) show ?thesis by (auto simp: in_range_pairs resolved_edges_def resolved_edge_def builder_ok_def)
qed

lemma build_cases:
  assumes w: "walk_ok walk" and b: "built b"
  obtains (accepted) order where
      "build walk b = Some (Inr (pipeline_new_unchecked (bl_name b) (bl_description b) (bl_nodes b) (bl_node_index b)
         (resolved_edges b) order))"
      "builder_ok b" "pipeline_ok (bl_nodes b) (resolved_edges b)"
      "topological (length (bl_nodes b)) (pairs (resolved_edges b)) order"
  | (refused) errs where "build walk b = Some (Inl errs)" "errs \<noteq> []"
      "\<not> (builder_ok b \<and> pipeline_ok (bl_nodes b) (resolved_edges b))"
      "\<And>g names. CycleDetected g names \<in> set errs \<Longrightarrow>
         builder_ok b \<and> g = bl_name b \<and> names_cycle (bl_nodes b) (resolved_edges b) names"
proof -
  note idx = built_index [OF b]
  let ?flow = "bl_name b" and ?index = "bl_node_index b"
  let ?r1 = "report_duplicates ?flow {} (bl_nodes b) (report_new ?flow)"
  obtain es r2 where res: "resolve_edges ?flow ?index 0 (bl_edges b) [] ?r1 = (es, r2)" by fastforce
  have r2: "adds_unless ?r1 r2 (\<forall>p \<in> set (bl_edges b). endpoints_ok ?index p)"
    and es: "(\<forall>p \<in> set (bl_edges b). endpoints_ok ?index p) \<longrightarrow> es = resolved_edges b"
    using resolve_edges_adds [where flow = ?flow and index = ?index and i = 0 and ps = "bl_edges b" and acc = "[]" and report = ?r1] unfolding res by (simp_all add: resolved_edges_def)
  have "adds_unless (report_new ?flow) r2 (builder_ok b)"
    using adds_unless_trans [OF report_duplicates_adds r2]
    by (rule adds_unless_cong) (use endpoints_ok_iff [OF idx] in \<open>auto simp: builder_ok_def\<close>)
  then have r2: "vr_errors r2 = [] \<longleftrightarrow> builder_ok b" "\<And>g c. CycleDetected g c \<notin> set (vr_errors r2)"
    by (auto simp: adds_unless_def report_new_def)
  show thesis
  proof (cases "builder_ok b")
    case False
    with r2 res show thesis by (intro refused [of "vr_errors r2"]) (auto simp: build_def report_is_ok_def)
  next
    case True
    then have es: "es = resolved_edges b" using es endpoints_ok_iff [OF idx] by (auto simp: builder_ok_def)
    obtain order r3 new where v: "validate_topology walk ?flow (bl_nodes b) es r2 = Some (order, r3)"
      "vr_errors r3 = new" "new = [] \<longleftrightarrow> pipeline_ok (bl_nodes b) es"
      "new = [] \<longrightarrow> topological (length (bl_nodes b)) (pairs es) order"
      "\<And>g names. CycleDetected g names \<in> set new \<Longrightarrow> g = ?flow \<and> names_cycle (bl_nodes b) es names"
      using validate_topology_ok [OF w resolved_range [OF idx True], of ?flow r2] True r2(1) unfolding es by auto
    show thesis
    proof (cases "new = []")
      case True
      with v res r2(1) \<open>builder_ok b\<close> es show thesis by (intro accepted [of order]) (simp_all add: build_def report_is_ok_def)
    next
      case False
      with v res r2(1) \<open>builder_ok b\<close> es show thesis by (intro refused [of new]) (auto simp: build_def report_is_ok_def)
    qed
  qed
qed

end
