(* ===== verification/Pip_Instantiate.thy ===== *)
theory Pip_Instantiate
  imports Pip_Build
begin

text \<open>
  \<open>torvyn-pipeline/src/instantiate.rs\<close>, \<open>shutdown.rs\<close>, \<open>handle.rs\<close> and the reactor's handle they use: a
  validated pipeline becomes live instances and a flow of the reactor. The engine and the invoker are
  traits, so they are a record of operations on a state of their own; every call to them is logged, and
  \<open>mock_engine\<close> is the implementation of \<open>torvyn-engine/src/mock.rs\<close>. \<open>None\<close> is a panic.
\<close>

section \<open>The engine\<close>

record component_limits =
  cl_fuel_budget :: "u64 option"
  cl_max_memory_bytes :: "usize option"

definition fuel_or :: "component_limits \<Rightarrow> u64 \<Rightarrow> u64" where
  "fuel_or limits engine_default =
     (case cl_fuel_budget limits of
        None \<Rightarrow> engine_default
      | Some n \<Rightarrow> if n = 0 then - 1 else n)"

record 'i component_instance =
  ci_component_id :: component_id
  ci_inner :: 'i
  ci_has_lifecycle :: bool
  ci_has_processor :: bool
  ci_has_source :: bool
  ci_has_sink :: bool

text \<open>Errors of the engine, the invoker and the file system are their texts; bytes are characters.\<close>

record ('e, 'c, 'i) engine_ops =
  eng_read_file :: "string \<Rightarrow> 'e \<Rightarrow> (string + string) \<times> 'e"
  eng_compile :: "string \<Rightarrow> 'e \<Rightarrow> (string + 'c) \<times> 'e"
  eng_instantiate ::
    "'c \<Rightarrow> component_id \<Rightarrow> wasi_configuration \<Rightarrow> component_limits \<Rightarrow> 'e \<Rightarrow> (string + 'i component_instance) \<times> 'e"
  eng_init :: "'i component_instance \<Rightarrow> component_id \<Rightarrow> string \<Rightarrow> 'e \<Rightarrow> (string + 'i component_instance) \<times> 'e"
  eng_teardown :: "'i component_instance \<Rightarrow> component_id \<Rightarrow> 'e \<Rightarrow> 'e"

datatype engine_call =
    ReadFile string
  | CompileComponent string
  | InstantiateComponent component_id wasi_configuration component_limits
  | InvokeInit component_id string
  | InvokeTeardown component_id

record 'e world =
  w_engine :: 'e
  w_calls :: "engine_call list"

definition engine_call :: "engine_call \<Rightarrow> ('e \<Rightarrow> 'r \<times> 'e) \<Rightarrow> 'e world \<Rightarrow> 'r \<times> 'e world" where
  "engine_call c op w =
     (case op (w_engine w) of (r, e) \<Rightarrow> (r, \<lparr>w_engine = e, w_calls = w_calls w @ [c]\<rparr>))"

section \<open>Instantiation\<close>

definition load_component_bytes :: "('e, 'c, 'i) engine_ops \<Rightarrow> string \<Rightarrow> 'e world \<Rightarrow> (string + string) \<times> 'e world" where
  "load_component_bytes eng ref w =
     (case strip_prefix ''file://'' ref of
        Some path \<Rightarrow> engine_call (ReadFile path) (eng_read_file eng path) w
      | None \<Rightarrow>
          if starts_with ref ''mock://'' then (Inr [], w)
          else (Inl (''Unsupported component reference scheme in '' @ tick_quoted ref @ ''. Phase 0 supports '' @
                  tick_quoted ''file://<path>'' @ '' and '' @ tick_quoted ''mock://<name>'' @ ''.''), w))"

definition stage_component_id :: "nat \<Rightarrow> component_id" where
  "stage_component_id idx = ComponentId (if idx < 2 ^ 64 - 1 then of_nat (idx + 1) else - 1)"

definition instantiate_one_node ::
    "('e, 'c, 'i) engine_ops \<Rightarrow> pipeline \<Rightarrow> nat \<Rightarrow> 'e world \<Rightarrow>
     ((pipeline_error + 'i component_instance) \<times> 'e world) option" where
  "instantiate_one_node eng p idx w =
     Option.bind (index_vec (pl_nodes p) idx) (\<lambda>node.
     let flow = pl_name p;
         cid = stage_component_id idx;
         (loaded, w) = load_component_bytes eng (pn_component_ref node) w
     in Some (case loaded of
         Inl e \<Rightarrow>
           (Inl (Subsystem ''io'' (''Cannot load component '' @ tick_quoted (pn_name node) @ '' from '' @
              tick_quoted (pn_component_ref node) @ '': '' @ e)), w)
       | Inr bytes \<Rightarrow>
           (case engine_call (CompileComponent bytes) (eng_compile eng bytes) w of
              (Inl e, w) \<Rightarrow> (Inl (CompilationFailed flow (pn_name node) e), w)
            | (Inr compiled, w) \<Rightarrow>
                let wasi = nc_wasi (pn_config node);
                    limits = \<lparr>cl_fuel_budget = nc_fuel_budget (pn_config node),
                              cl_max_memory_bytes = nc_memory_limit (pn_config node)\<rparr>
                in (case engine_call (InstantiateComponent cid wasi limits)
                           (eng_instantiate eng compiled cid wasi limits) w of
                      (Inl e, w) \<Rightarrow> (Inl (InstantiationFailed flow (pn_name node) e), w)
                    | (Inr inst, w) \<Rightarrow>
                        let init = opt_or (nc_init_config (pn_config node)) ''{}''
                        in (case engine_call (InvokeInit cid init) (eng_init eng inst cid init) w of
                              (Inl e, w) \<Rightarrow> (Inl (InitializationFailed flow (pn_name node) e), w)
                            | (Inr inst, w) \<Rightarrow> (Inr inst, w))))))"

text \<open>The slots are visited from the last index to the first.\<close>

fun teardown_slots :: "('e, 'c, 'i) engine_ops \<Rightarrow> 'i component_instance option list \<Rightarrow> 'e world \<Rightarrow> 'e world" where
  "teardown_slots eng [] w = w"
| "teardown_slots eng (None # slots) w = teardown_slots eng slots w"
| "teardown_slots eng (Some inst # slots) w =
     (let cid = ci_component_id inst;
          (_, w) = engine_call (InvokeTeardown cid) (\<lambda>e. ((), eng_teardown eng inst cid e)) w
      in teardown_slots eng slots w)"

definition cleanup_partial :: "('e, 'c, 'i) engine_ops \<Rightarrow> 'i component_instance option list \<Rightarrow> 'e world \<Rightarrow> 'e world" where
  "cleanup_partial eng slots w = teardown_slots eng (rev slots) w"

fun instantiate_nodes ::
    "('e, 'c, 'i) engine_ops \<Rightarrow> pipeline \<Rightarrow> nat list \<Rightarrow> 'i component_instance option list \<Rightarrow> 'e world \<Rightarrow>
     ((pipeline_error + 'i component_instance option list) \<times> 'e world) option" where
  "instantiate_nodes eng p [] slots w = Some (Inr slots, w)"
| "instantiate_nodes eng p (idx # order) slots w =
     Option.bind (instantiate_one_node eng p idx w) (\<lambda>(r, w).
     case r of
       Inr inst \<Rightarrow> if idx < length slots then instantiate_nodes eng p order (slots[idx := Some inst]) w else None
     | Inl err \<Rightarrow> Some (Inl err, cleanup_partial eng slots w))"

section \<open>The flow of the reactor\<close>

definition stream_config_from_edge :: "edge_config \<Rightarrow> stream_config" where
  "stream_config_from_edge ec =
     \<lparr>sc_capacity = ec_queue_depth ec, sc_backpressure_policy = ec_backpressure_policy ec,
      sc_low_watermark_ratio = None\<rparr>"

definition stage_of_node :: "nat \<Rightarrow> pipeline_node \<Rightarrow> stage_definition" where
  "stage_of_node idx node =
     \<lparr>sd_component_id = stage_component_id idx, sd_role = pn_role node,
      sd_fuel_budget = nc_fuel_budget (pn_config node), sd_config = opt_or (nc_init_config (pn_config node)) []\<rparr>"

definition flow_topology_of :: "pipeline \<Rightarrow> flow_topology" where
  "flow_topology_of p =
     \<lparr>ft_stages = map (\<lambda>(idx, node). stage_of_node idx node) (enumerate 0 (pl_nodes p)),
      ft_connections = map (\<lambda>e. \<lparr>sn_from_stage = pe_from_node e, sn_to_stage = pe_to_node e,
         sn_config = stream_config_from_edge (pe_config e)\<rparr>) (pl_edges p)\<rparr>"

definition default_queue_depth :: usize where
  "default_queue_depth = 64"

text \<open>The bits of the floating-point number 0.5.\<close>

definition default_low_watermark_ratio :: u64 where
  "default_low_watermark_ratio = 0x3FE0000000000000"

definition default_with_topology :: "flow_topology \<Rightarrow> flow_config" where
  "default_with_topology t =
     \<lparr>cfg_topology = t, cfg_priority = Normal, cfg_timeouts = timeout_config_default,
      cfg_default_backpressure_policy = BlockProducer, cfg_default_queue_capacity = default_queue_depth,
      cfg_default_low_watermark_ratio = default_low_watermark_ratio, cfg_yield_config = yield_config_default,
      cfg_error_policy = error_policy_default\<rparr>"

primrec flow_creation_error_display :: "flow_creation_error \<Rightarrow> string" where
  "flow_creation_error_display (InvalidTopology reason) =
     ''[E0410] Invalid flow topology: '' @ reason @
     ''. Ensure the pipeline is a directed acyclic graph with valid connections.''"
| "flow_creation_error_display (ComponentNotFound c) =
     ''[E0411] Component '' @ tick_quoted (show_component c) @
     '' not found. Verify the component is compiled and available to the host runtime.''"
| "flow_creation_error_display (ContractMismatch c d detail) =
     ''[E0412] Contract mismatch between '' @ tick_quoted (show_component c) @ '' and '' @
     tick_quoted (show_component d) @ '': '' @ detail @
     ''. Run `torvyn link` to diagnose interface incompatibilities.''"
| "flow_creation_error_display (CapabilityDenied c capability) =
     ''[E0413] Capability '' @ tick_quoted capability @ '' denied for '' @ tick_quoted (show_component c) @
     ''. Grant the capability in the pipeline configuration.''"
| "flow_creation_error_display ReactorShuttingDown =
     ''[E0414] Reactor is shutting down; cannot create new flows. '' @
     ''Wait for shutdown to complete before restarting.''"
| "flow_creation_error_display (CreationInternal msg) =
     ''[E0419] Internal reactor error during flow creation: '' @ msg"


section \<open>The handle of the reactor\<close>

text \<open>
  A handle talks to an event loop that may be gone: \<open>None\<close> is a closed command channel. A command whose
  handler panics drops the reply and ends the loop; one whose handler answers is followed by the reaping
  of the finished flows.
\<close>

record reactor_env =
  re_low_mark :: low_mark
  re_show_duration :: "duration \<Rightarrow> string"
  re_panic :: string
  re_iter :: set_order

datatype 'r channel_reply = ChannelClosed | ReplyDropped | Replied 'r

definition send_command ::
    "reactor_env \<Rightarrow> reactor_command \<Rightarrow> coordinator option \<Rightarrow> reply_msg channel_reply \<times> coordinator option" where
  "send_command env cmd rc =
     (case rc of
        None \<Rightarrow> (ChannelClosed, None)
      | Some co \<Rightarrow>
          (case handle_command (re_low_mark env) (re_show_duration env) (re_panic env) (re_iter env) cmd co of
             None \<Rightarrow> (ReplyDropped, None)
           | Some (r, co) \<Rightarrow> (Replied r, reap_completed_flows (re_iter env) co)))"

definition handle_spawn_flow ::
    "reactor_env \<Rightarrow> flow_config \<Rightarrow> usize \<Rightarrow> instant \<Rightarrow> u64 \<Rightarrow> coordinator option \<Rightarrow>
     (flow_creation_error + flow_id) \<times> coordinator option" where
  "handle_spawn_flow env cfg instances now wall rc =
     (case send_command env (SpawnFlow cfg instances now wall) rc of
        (Replied (ReplyCreated r), rc) \<Rightarrow> (r, rc)
      | (ChannelClosed, rc) \<Rightarrow> (Inl ReactorShuttingDown, rc)
      | (_, rc) \<Rightarrow> (Inl (CreationInternal ''coordinator dropped''), rc))"

definition handle_cancel_flow ::
    "reactor_env \<Rightarrow> flow_id \<Rightarrow> cancellation_reason \<Rightarrow> coordinator option \<Rightarrow> (flow_error + unit) \<times> coordinator option" where
  "handle_cancel_flow env f reason rc =
     (case send_command env (CancelFlow f reason) rc of
        (Replied (ReplyUnit r), rc) \<Rightarrow> (r, rc)
      | (ChannelClosed, rc) \<Rightarrow> (Inl (FlowInternal ''reactor shut down''), rc)
      | (_, rc) \<Rightarrow> (Inl (FlowInternal ''coordinator dropped''), rc))"

definition handle_flow_state ::
    "reactor_env \<Rightarrow> flow_id \<Rightarrow> coordinator option \<Rightarrow> (flow_error + flow_state) \<times> coordinator option" where
  "handle_flow_state env f rc =
     (case send_command env (QueryFlowState f) rc of
        (Replied (ReplyState r), rc) \<Rightarrow> (r, rc)
      | (ChannelClosed, rc) \<Rightarrow> (Inl (FlowInternal ''reactor shut down''), rc)
      | (_, rc) \<Rightarrow> (Inl (FlowInternal ''coordinator dropped''), rc))"

section \<open>The pipeline as a whole\<close>

record pipeline_handle =
  ph_flow_id :: flow_id
  ph_name :: string
  ph_topology :: pipeline

text \<open>Every slot must be filled, or the code is in its \<open>unreachable!()\<close>.\<close>

fun filled :: "'a option list \<Rightarrow> 'a list option" where
  "filled [] = Some []"
| "filled (x # xs) = (case x of None \<Rightarrow> None | Some y \<Rightarrow> map_option ((#) y) (filled xs))"

definition instantiate_pipeline ::
    "reactor_env \<Rightarrow> ('e, 'c, 'i) engine_ops \<Rightarrow> instant \<Rightarrow> u64 \<Rightarrow> pipeline \<Rightarrow> 'e world \<Rightarrow> coordinator option \<Rightarrow>
     ((pipeline_error + pipeline_handle) \<times> 'e world \<times> coordinator option) option" where
  "instantiate_pipeline env eng now wall p w rc =
     Option.bind (instantiate_nodes eng p (pl_execution_order p) (replicate (length (pl_nodes p)) None) w) (\<lambda>(r, w).
     case r of
       Inl err \<Rightarrow> Some (Inl err, w, rc)
     | Inr slots \<Rightarrow>
         map_option
           (\<lambda>instances.
              case handle_spawn_flow env (default_with_topology (flow_topology_of p)) (length instances) now wall rc of
                (Inl e, rc) \<Rightarrow> (Inl (FlowRegistrationFailed (pl_name p) (flow_creation_error_display e)), w, rc)
              | (Inr f, rc) \<Rightarrow> (Inr \<lparr>ph_flow_id = f, ph_name = pl_name p, ph_topology = p\<rparr>, w, rc))
           (filled slots))"

text \<open>
  The polls of a shutdown. Between two of them the reactor runs, here an arbitrary change of its state;
  each poll comes with the time elapsed when it ends. \<open>None\<close> is a shutdown still polling.
\<close>

fun poll_shutdown ::
    "reactor_env \<Rightarrow> pipeline_handle \<Rightarrow> duration \<Rightarrow> ((coordinator option \<Rightarrow> coordinator option) \<times> duration) list \<Rightarrow>
     coordinator option \<Rightarrow> ((pipeline_error list + unit) \<times> coordinator option) option" where
  "poll_shutdown env h timeout [] rc = None"
| "poll_shutdown env h timeout ((run, elapsed) # polls) rc =
     (case handle_flow_state env (ph_flow_id h) (run rc) of
        (Inl _, rc) \<Rightarrow> Some (Inr (), rc)
      | (Inr state, rc) \<Rightarrow>
          if flow_is_terminal state then Some (Inr (), rc)
          else if timeout \<le> elapsed then
            Some (Inl [ShutdownTimeout (ph_flow_id h) timeout (length (pl_nodes (ph_topology h)))], rc)
          else poll_shutdown env h timeout polls rc)"

definition shutdown_pipeline ::
    "reactor_env \<Rightarrow> pipeline_handle \<Rightarrow> duration \<Rightarrow> ((coordinator option \<Rightarrow> coordinator option) \<times> duration) list \<Rightarrow>
     coordinator option \<Rightarrow> ((pipeline_error list + unit) \<times> coordinator option) option" where
  "shutdown_pipeline env h timeout polls rc =
     (case handle_cancel_flow env (ph_flow_id h) OperatorRequest rc of
        (_, rc) \<Rightarrow> poll_shutdown env h timeout polls rc)"

section \<open>The mock engine\<close>

record mock_state =
  mk_component_counter :: u64
  mk_invocation_count :: u64

record mock_instance =
  mi_component_id :: component_id
  mi_fuel :: u64
  mi_memory_bytes :: usize
  mi_call_count :: u64
  mi_should_trap :: bool

definition mock_new :: mock_state where
  "mock_new = \<lparr>mk_component_counter = 0, mk_invocation_count = 0\<rparr>"

definition mock_compile :: "string \<Rightarrow> mock_state \<Rightarrow> (string + u64) \<times> mock_state" where
  "mock_compile bytes m =
     (Inr (mk_component_counter m), m\<lparr>mk_component_counter := mk_component_counter m + 1\<rparr>)"

definition mock_instantiate ::
    "u64 \<Rightarrow> component_id \<Rightarrow> wasi_configuration \<Rightarrow> component_limits \<Rightarrow> mock_state \<Rightarrow>
     (string + mock_instance component_instance) \<times> mock_state" where
  "mock_instantiate compiled cid wasi limits m =
     (Inr \<lparr>ci_component_id = cid,
           ci_inner = \<lparr>mi_component_id = cid, mi_fuel = fuel_or limits 1000000, mi_memory_bytes = 0,
             mi_call_count = 0, mi_should_trap = False\<rparr>,
           ci_has_lifecycle = True, ci_has_processor = True, ci_has_source = True, ci_has_sink = True\<rparr>, m)"

definition mock_called :: "mock_instance component_instance \<Rightarrow> mock_instance component_instance" where
  "mock_called inst = inst\<lparr>ci_inner := (ci_inner inst)\<lparr>mi_call_count := mi_call_count (ci_inner inst) + 1\<rparr>\<rparr>"

definition mock_init ::
    "mock_instance component_instance \<Rightarrow> component_id \<Rightarrow> string \<Rightarrow> mock_state \<Rightarrow>
     (string + mock_instance component_instance) \<times> mock_state" where
  "mock_init inst cid config m =
     (if mi_should_trap (ci_inner inst) then Inl (process_error_display (Fatal ''mock init trap'')) else Inr (mock_called inst),
      m\<lparr>mk_invocation_count := mk_invocation_count m + 1\<rparr>)"

definition mock_teardown :: "mock_instance component_instance \<Rightarrow> component_id \<Rightarrow> mock_state \<Rightarrow> mock_state" where
  "mock_teardown inst cid m = m\<lparr>mk_invocation_count := mk_invocation_count m + 1\<rparr>"

definition mock_engine ::
    "(string \<Rightarrow> mock_state \<Rightarrow> (string + string) \<times> mock_state) \<Rightarrow> (mock_state, u64, mock_instance) engine_ops" where
  "mock_engine read_file =
     \<lparr>eng_read_file = read_file, eng_compile = mock_compile, eng_instantiate = mock_instantiate,
      eng_init = mock_init, eng_teardown = mock_teardown\<rparr>"

end
