(* ===== verification/Pip_Run.thy ===== *)
theory Pip_Run
  imports Pip_Instantiate Rea_Coord_Run
begin

text \<open>
  From an accepted pipeline to a running flow: its topology is one the reactor accepts, and an
  instantiation that fails tears down what it had initialised.
\<close>

section \<open>The reactor's topology\<close>

lemma nodes_of_topology:
  "length (ft_stages (flow_topology_of p)) = length (pl_nodes p)"
  "i < length (pl_nodes p) \<Longrightarrow> ft_stages (flow_topology_of p) ! i = stage_of_node i (pl_nodes p ! i)"
  by (simp_all add: flow_topology_of_def nth_enumerate_eq)

lemma edges_of_topology: "edges (flow_topology_of p) = pairs (pl_edges p)"
  by (simp add: flow_topology_of_def edges_def pairs_def)

lemma sources_of_topology: "sources (flow_topology_of p) = source_set (pl_nodes p)"
  by (auto simp: sources_eq source_set_def nodes_of_topology stage_of_node_def)

lemma role_of_stage:
  "i < length (pl_nodes p) \<Longrightarrow> sd_role (ft_stages (flow_topology_of p) ! i) = pn_role (pl_nodes p ! i)"
  by (simp add: nodes_of_topology stage_of_node_def)

lemma ids_of_topology:
  "map sd_component_id (ft_stages (flow_topology_of p)) = map stage_component_id [0..<length (pl_nodes p)]"
  by (rule nth_equalityI) (simp_all add: nodes_of_topology stage_of_node_def)

text \<open>What the builder accepts, the reactor accepts.\<close>

lemma pipeline_ok_valid:
  assumes ok: "pipeline_ok (pl_nodes p) (pl_edges p)" and range: "in_range (length (pl_nodes p)) (pairs (pl_edges p))"
  shows "valid_topology (flow_topology_of p)"
proof -
  have roles: "pn_role (pl_nodes p ! v) \<noteq> Source \<and> pn_role (pl_nodes p ! u) \<noteq> Sink" if "(u, v) \<in> set (pairs (pl_edges p))" for u v
  proof -
    have uv: "u < length (pl_nodes p)" "v < length (pl_nodes p)" using range that by (auto dest: in_rangeD)
    with ok have "role_ok (pl_edges p) u (pn_role (pl_nodes p ! u))" "role_ok (pl_edges p) v (pn_role (pl_nodes p ! v))"
      by (simp_all add: pipeline_ok_def)
    with that show ?thesis by (auto simp: role_ok_def Let_def)
  qed
  have "source_set (pl_nodes p) \<noteq> {}"
    using ok by (auto simp: pipeline_ok_def source_set_def in_set_conv_nth)
  moreover obtain i where i: "i < length (pl_nodes p)" "pn_role (pl_nodes p ! i) = Sink"
    using ok by (auto simp: pipeline_ok_def in_set_conv_nth)
  then have "\<exists>s \<in> set (ft_stages (flow_topology_of p)). sd_role s = Sink"
    by (metis nodes_of_topology(1) nth_mem role_of_stage)
  moreover have "\<forall>(u, v) \<in> set (pairs (pl_edges p)). sd_role (ft_stages (flow_topology_of p) ! v) \<noteq> Source \<and>
      sd_role (ft_stages (flow_topology_of p) ! u) \<noteq> Sink"
  proof (rule ballI, rule case_prodI2, rule conjI)
    fix e u v assume e: "e \<in> set (pairs (pl_edges p))" "e = (u, v)"
    then have "u < length (pl_nodes p)" "v < length (pl_nodes p)" using range by (auto dest: in_rangeD)
    with roles [of u v] e show "sd_role (ft_stages (flow_topology_of p) ! v) \<noteq> Source"
      "sd_role (ft_stages (flow_topology_of p) ! u) \<noteq> Sink" by (simp_all add: role_of_stage)
  qed
  ultimately show ?thesis
    using ok range unfolding valid_topology_def Let_def edges_of_topology sources_of_topology nodes_of_topology(1)
    by (simp add: pipeline_ok_def)
qed

text \<open>Nothing in the builder refuses a queue of depth 0, on which the reactor panics.\<close>

definition depths_ok :: "pipeline \<Rightarrow> bool" where
  "depths_ok p \<longleftrightarrow>
     length (pl_edges p) < 2 ^ 64 \<and>
     (\<forall>e \<in> set (pl_edges p). 0 < opt_or (ec_queue_depth (pe_config e)) default_queue_depth \<and>
        opt_or (ec_queue_depth (pe_config e)) default_queue_depth < 9223372036854775808)"

lemma depths_capacities: "depths_ok p \<longleftrightarrow> capacities_ok (default_with_topology (flow_topology_of p))"
  by (simp add: depths_ok_def capacities_ok_def default_with_topology_def flow_topology_of_def config_capacity_def
      stream_config_from_edge_def)

section \<open>The calls to the engine\<close>

fun call_inits :: "engine_call list \<Rightarrow> component_id list" where
  "call_inits [] = []"
| "call_inits (InvokeInit c _ # cs) = c # call_inits cs"
| "call_inits (_ # cs) = call_inits cs"

fun call_teardowns :: "engine_call list \<Rightarrow> component_id list" where
  "call_teardowns [] = []"
| "call_teardowns (InvokeTeardown c # cs) = c # call_teardowns cs"
| "call_teardowns (_ # cs) = call_teardowns cs"

fun call_sandboxes :: "engine_call list \<Rightarrow> (component_id \<times> wasi_configuration \<times> component_limits) list" where
  "call_sandboxes [] = []"
| "call_sandboxes (InstantiateComponent c wasi limits # cs) = (c, wasi, limits) # call_sandboxes cs"
| "call_sandboxes (_ # cs) = call_sandboxes cs"

lemma call_inits_append [simp]: "call_inits (cs @ ds) = call_inits cs @ call_inits ds"
  by (induction cs rule: call_inits.induct) simp_all

lemma call_teardowns_append [simp]: "call_teardowns (cs @ ds) = call_teardowns cs @ call_teardowns ds"
  by (induction cs rule: call_teardowns.induct) simp_all

lemma call_sandboxes_append [simp]: "call_sandboxes (cs @ ds) = call_sandboxes cs @ call_sandboxes ds"
  by (induction cs rule: call_sandboxes.induct) simp_all

lemma call_teardowns_only [simp]:
  "call_teardowns (map InvokeTeardown cs) = cs" "call_inits (map InvokeTeardown cs) = []"
  "call_sandboxes (map InvokeTeardown cs) = []"
  by (induction cs) simp_all

lemma engine_call_simps [simp]:
  "w_calls (snd (engine_call c op w)) = w_calls w @ [c]"
  "fst (engine_call c op w) = fst (op (w_engine w))"
  by (simp_all add: engine_call_def split: prod.split)

lemma engine_call_eq: "engine_call c op w = (r, w') \<Longrightarrow> w_calls w' = w_calls w @ [c] \<and> r = fst (op (w_engine w))"
  using engine_call_simps [of c op w] by simp

text \<open>An engine gives the instance the identifier it is asked for, and the invoker keeps it.\<close>

definition engine_ok :: "('e, 'c, 'i) engine_ops \<Rightarrow> bool" where
  "engine_ok eng \<longleftrightarrow>
     (\<forall>compiled cid wasi limits e inst e'. eng_instantiate eng compiled cid wasi limits e = (Inr inst, e') \<longrightarrow>
        ci_component_id inst = cid) \<and>
     (\<forall>inst cid config e inst' e'. eng_init eng inst cid config e = (Inr inst', e') \<longrightarrow>
        ci_component_id inst' = ci_component_id inst)"

lemma mock_engine_ok: "engine_ok (mock_engine read_file)"
  by (auto simp: engine_ok_def mock_engine_def mock_instantiate_def mock_init_def mock_called_def split: if_splits)

definition node_sandbox :: "pipeline \<Rightarrow> nat \<Rightarrow> component_id \<times> wasi_configuration \<times> component_limits" where
  "node_sandbox p idx =
     (let config = pn_config (pl_nodes p ! idx)
      in (stage_component_id idx, nc_wasi config,
          \<lparr>cl_fuel_budget = nc_fuel_budget config, cl_max_memory_bytes = nc_memory_limit config\<rparr>))"

text \<open>The failures of a node: before its instance exists, before it is initialised, or in its initialisation.\<close>

inductive node_failure :: "string \<Rightarrow> string \<Rightarrow> pipeline_error \<Rightarrow> bool" for flow node where
  "node_failure flow node (Subsystem ''io'' reason)"
| "node_failure flow node (CompilationFailed flow node reason)"
| "node_failure flow node (InstantiationFailed flow node reason)"
| "node_failure flow node (InitializationFailed flow node reason)"

fun in_init :: "pipeline_error \<Rightarrow> bool" where
  "in_init (InitializationFailed _ _ _) = True"
| "in_init _ = False"

lemma load_calls:
  "load_component_bytes eng ref w = (r, w') \<Longrightarrow>
   \<exists>new. w_calls w' = w_calls w @ new \<and> call_inits new = [] \<and> call_teardowns new = [] \<and> call_sandboxes new = []"
  by (auto simp: load_component_bytes_def dest!: engine_call_eq split: option.splits if_splits)

lemma instantiate_one_node_cases:
  assumes eng: "engine_ok eng" and idx: "idx < length (pl_nodes p)"
  obtains (live) inst w' new where
      "instantiate_one_node eng p idx w = Some (Inr inst, w')" "ci_component_id inst = stage_component_id idx"
      "w_calls w' = w_calls w @ new" "call_inits new = [stage_component_id idx]" "call_teardowns new = []"
      "call_sandboxes new = [node_sandbox p idx]"
  | (failed) err w' new where
      "instantiate_one_node eng p idx w = Some (Inl err, w')" "node_failure (pl_name p) (pn_name (pl_nodes p ! idx)) err"
      "w_calls w' = w_calls w @ new" "call_inits new = (if in_init err then [stage_component_id idx] else [])"
      "call_teardowns new = []" "\<forall>s \<in> set (call_sandboxes new). s = node_sandbox p idx"
proof -
  let ?node = "pl_nodes p ! idx" and ?cid = "stage_component_id idx"
  let ?wasi = "nc_wasi (pn_config ?node)" and ?init = "opt_or (nc_init_config (pn_config ?node)) ''{}''"
  let ?limits = "\<lparr>cl_fuel_budget = nc_fuel_budget (pn_config ?node), cl_max_memory_bytes = nc_memory_limit (pn_config ?node)\<rparr>"
  have node: "index_vec (pl_nodes p) idx = Some ?node" using idx by (simp add: index_vec_def)
  have box: "node_sandbox p idx = (?cid, ?wasi, ?limits)" by (simp add: node_sandbox_def Let_def)
  obtain loaded w1 where l: "load_component_bytes eng (pn_component_ref ?node) w = (loaded, w1)" by fastforce
  from load_calls [OF this] obtain new where new: "w_calls w1 = w_calls w @ new" "call_inits new = []"
    "call_teardowns new = []" "call_sandboxes new = []" by blast
  note run = instantiate_one_node_def node l Let_def
  show thesis
  proof (cases loaded)
    case (Inl e)
    have "\<exists>msg. instantiate_one_node eng p idx w = Some (Inl (Subsystem ''io'' msg), w1)" using Inl by (simp add: run)
    then obtain msg where "instantiate_one_node eng p idx w = Some (Inl (Subsystem ''io'' msg), w1)" ..
    with new show thesis by (intro failed [of "Subsystem ''io'' msg" w1 new]) (simp_all add: node_failure.intros(1))
  next
    case (Inr bytes)
    note bytes = Inr
    obtain c w2 where c: "engine_call (CompileComponent bytes) (eng_compile eng bytes) w1 = (c, w2)" by fastforce
    note c' = engine_call_eq [OF this, THEN conjunct1]
    show thesis
    proof (cases c)
      case (Inl e)
      with new bytes c c' show thesis
        by (intro failed [of "CompilationFailed (pl_name p) (pn_name ?node) e" w2 "new @ [CompileComponent bytes]"])
          (simp_all add: run node_failure.intros(2))
    next
      case (Inr compiled)
      note compiled = Inr
      obtain i w3 where i: "engine_call (InstantiateComponent ?cid ?wasi ?limits)
        (eng_instantiate eng compiled ?cid ?wasi ?limits) w2 = (i, w3)" by fastforce
      note i' = engine_call_eq [OF this, THEN conjunct1]
      let ?new = "new @ [CompileComponent bytes, InstantiateComponent ?cid ?wasi ?limits]"
      show thesis
      proof (cases i)
        case (Inl e)
        with new bytes c c' compiled i i' box show thesis
          by (intro failed [of "InstantiationFailed (pl_name p) (pn_name ?node) e" w3 ?new])
            (simp_all add: run node_failure.intros(3))
      next
        case (Inr inst)
        note inst = Inr
        obtain n w4 where n: "engine_call (InvokeInit ?cid ?init) (eng_init eng inst ?cid ?init) w3 = (n, w4)" by fastforce
        note n' = engine_call_eq [OF this, THEN conjunct1]
        have id: "ci_component_id inst = ?cid"
          using eng inst engine_call_eq [OF i, THEN conjunct2] unfolding engine_ok_def by (metis prod.collapse)
        show thesis
        proof (cases n)
          case (Inl e)
          with new bytes c c' compiled i i' inst n n' box show thesis
            by (intro failed [of "InitializationFailed (pl_name p) (pn_name ?node) e" w4 "?new @ [InvokeInit ?cid ?init]"])
              (simp_all add: run node_failure.intros(4))
        next
          case (Inr inst')
          have "ci_component_id inst' = ?cid"
            using eng Inr engine_call_eq [OF n, THEN conjunct2] id unfolding engine_ok_def by (metis prod.collapse)
          with Inr new bytes c c' compiled i i' inst n n' box show thesis
            by (intro live [of inst' w4 "?new @ [InvokeInit ?cid ?init]"]) (simp_all add: run)
        qed
      qed
    qed
  qed
qed

section \<open>Instantiating the nodes\<close>

definition slot_ids :: "'i component_instance option list \<Rightarrow> component_id list" where
  "slot_ids slots = map (\<lambda>s. ci_component_id (the s)) (filter (\<lambda>s. s \<noteq> None) slots)"

lemma slot_ids_rev: "slot_ids (rev slots) = rev (slot_ids slots)"
  by (simp add: slot_ids_def rev_map rev_filter)

lemma teardown_slots_calls:
  "w_calls (teardown_slots eng slots w) = w_calls w @ map InvokeTeardown (slot_ids slots)"
proof (induction eng slots w rule: teardown_slots.induct)
  case (3 eng inst slots w)
  let ?cid = "ci_component_id inst"
  obtain w' where c: "engine_call (InvokeTeardown ?cid) (\<lambda>e. ((), eng_teardown eng inst ?cid e)) w = ((), w')"
    by (cases "engine_call (InvokeTeardown ?cid) (\<lambda>e. ((), eng_teardown eng inst ?cid e)) w") simp
  have "w_calls (teardown_slots eng slots w') = w_calls w' @ map InvokeTeardown (slot_ids slots)"
    by (rule "3" [OF refl]) (use c in simp_all)
  with engine_call_eq [OF c] c show ?case by (simp add: slot_ids_def)
qed (simp_all add: slot_ids_def)

text \<open>The slots filled for a set of nodes, each with its instance.\<close>

definition slots_for :: "nat \<Rightarrow> nat set \<Rightarrow> 'i component_instance option list \<Rightarrow> bool" where
  "slots_for n live slots \<longleftrightarrow>
     length slots = n \<and> (\<forall>i < n. (slots ! i \<noteq> None \<longleftrightarrow> i \<in> live)) \<and>
     (\<forall>i < n. \<forall>inst. slots ! i = Some inst \<longrightarrow> ci_component_id inst = stage_component_id i)"

lemma slots_for_ids:
  assumes "slots_for n live slots"
  shows "slot_ids slots = map stage_component_id (filter (\<lambda>i. i \<in> live) [0..<n])"
proof -
  have len: "length slots = n" using assms by (simp add: slots_for_def)
  then have "slots = map (nth slots) [0..<n]" using map_nth [of slots] by simp
  then have "filter (\<lambda>s. s \<noteq> None) slots = map (nth slots) (filter (\<lambda>i. slots ! i \<noteq> None) [0..<n])"
    by (metis (no_types, lifting) filter_cong filter_map o_apply)
  moreover have "filter (\<lambda>i. slots ! i \<noteq> None) [0..<n] = filter (\<lambda>i. i \<in> live) [0..<n]"
    by (rule filter_cong [OF refl]) (use assms in \<open>auto simp: slots_for_def\<close>)
  moreover have "ci_component_id (the (slots ! i)) = stage_component_id i" if "i \<in> live" "i < n" for i
    using assms that by (auto simp: slots_for_def)
  ultimately show ?thesis by (simp add: slot_ids_def)
qed

lemma slots_for_insert:
  "slots_for n live slots \<Longrightarrow> i < n \<Longrightarrow> ci_component_id inst = stage_component_id i \<Longrightarrow>
   slots_for n (insert i live) (slots[i := Some inst])"
  by (auto simp: slots_for_def nth_list_update)

text \<open>
  What is observable of an instantiation: every node in the order, or the first \<open>k\<close> of them and a failure
  at the next one.
\<close>

definition all_live :: "pipeline \<Rightarrow> nat list \<Rightarrow> engine_call list \<Rightarrow> bool" where
  "all_live p order new \<longleftrightarrow>
     call_inits new = map stage_component_id order \<and> call_teardowns new = [] \<and>
     call_sandboxes new = map (node_sandbox p) order"

definition stopped_at :: "pipeline \<Rightarrow> nat list \<Rightarrow> nat \<Rightarrow> pipeline_error \<Rightarrow> engine_call list \<Rightarrow> bool" where
  "stopped_at p order k err new \<longleftrightarrow>
     k < length order \<and> node_failure (pl_name p) (pn_name (pl_nodes p ! (order ! k))) err \<and>
     call_inits new = map stage_component_id (take (if in_init err then k + 1 else k) order) \<and>
     call_teardowns new = map stage_component_id (rev (sort (take k order))) \<and>
     set (call_sandboxes new) \<subseteq> set (map (node_sandbox p) (take (k + 1) order))"

lemma filter_upt_sort:
  assumes "distinct xs" and "set xs \<subseteq> {..<n}"
  shows "filter (\<lambda>i. i \<in> set xs) [0..<n] = sort xs"
  by (rule sorted_distinct_set_unique) (use assms in \<open>auto simp: sorted_wrt_filter\<close>)

lemma instantiate_nodes_cases:
  assumes eng: "engine_ok eng" and n: "n = length (pl_nodes p)"
    and order: "distinct (visited @ order)" "set (visited @ order) \<subseteq> {..<n}" and slots: "slots_for n (set visited) slots"
  obtains (live) slots' w' new where
      "instantiate_nodes eng p order slots w = Some (Inr slots', w')" "slots_for n (set (visited @ order)) slots'"
      "w_calls w' = w_calls w @ new" "all_live p order new"
  | (failed) err w' new k where
      "instantiate_nodes eng p order slots w = Some (Inl err, w')" "w_calls w' = w_calls w @ new" "k < length order"
      "node_failure (pl_name p) (pn_name (pl_nodes p ! (order ! k))) err"
      "call_inits new = map stage_component_id (take (if in_init err then k + 1 else k) order)"
      "call_teardowns new = map stage_component_id (rev (sort (visited @ take k order)))"
      "set (call_sandboxes new) \<subseteq> set (map (node_sandbox p) (take (k + 1) order))"
proof -
  have "(\<exists>slots' w' new. instantiate_nodes eng p order slots w = Some (Inr slots', w') \<and>
          slots_for n (set (visited @ order)) slots' \<and> w_calls w' = w_calls w @ new \<and> all_live p order new) \<or>
        (\<exists>err w' new k. instantiate_nodes eng p order slots w = Some (Inl err, w') \<and> w_calls w' = w_calls w @ new \<and>
          k < length order \<and> node_failure (pl_name p) (pn_name (pl_nodes p ! (order ! k))) err \<and>
          call_inits new = map stage_component_id (take (if in_init err then k + 1 else k) order) \<and>
          call_teardowns new = map stage_component_id (rev (sort (visited @ take k order))) \<and>
          set (call_sandboxes new) \<subseteq> set (map (node_sandbox p) (take (k + 1) order)))"
    (is "?L order slots w visited \<or> ?F order slots w visited")
    using order slots
  proof (induction order arbitrary: visited slots w)
    case Nil
    then have "?L [] slots w visited" by (intro exI [of _ slots] exI [of _ w] exI [of _ "[]"]) (simp add: all_live_def)
    then show ?case ..
  next
    case (Cons idx order)
    have idx: "idx < length (pl_nodes p)" "idx < n" using Cons.prems(2) n by simp_all
    show ?case
    proof (cases rule: instantiate_one_node_cases [OF eng idx(1), of w])
      case (1 inst w1 new)
      let ?slots = "slots[idx := Some inst]" and ?visited = "visited @ [idx]"
      have len: "idx < length slots" using Cons.prems(3) idx(2) by (simp add: slots_for_def)
      have run: "instantiate_nodes eng p (idx # order) slots w = instantiate_nodes eng p order ?slots w1"
        using 1(1) len by simp
      have "slots_for n (set ?visited) ?slots" using slots_for_insert [OF Cons.prems(3) idx(2) 1(2)] by simp
      with Cons.IH [of ?visited ?slots w1] Cons.prems
      have "?L order ?slots w1 ?visited \<or> ?F order ?slots w1 ?visited" by simp
      then show ?thesis
      proof
        assume "?L order ?slots w1 ?visited"
        then obtain slots' w' new' where "instantiate_nodes eng p order ?slots w1 = Some (Inr slots', w')"
          "slots_for n (set (?visited @ order)) slots'" "w_calls w' = w_calls w1 @ new'" "all_live p order new'" by blast
        with 1(3-6) run have "?L (idx # order) slots w visited"
          by (intro exI [of _ slots'] exI [of _ w'] exI [of _ "new @ new'"]) (simp add: all_live_def)
        then show ?thesis ..
      next
        assume "?F order ?slots w1 ?visited"
        then obtain err w' new' k where f: "instantiate_nodes eng p order ?slots w1 = Some (Inl err, w')"
          "w_calls w' = w_calls w1 @ new'" "k < length order"
          "node_failure (pl_name p) (pn_name (pl_nodes p ! (order ! k))) err"
          "call_inits new' = map stage_component_id (take (if in_init err then k + 1 else k) order)"
          "call_teardowns new' = map stage_component_id (rev (sort (?visited @ take k order)))"
          "set (call_sandboxes new') \<subseteq> set (map (node_sandbox p) (take (k + 1) order))" by blast
        with 1(3-6) run have "?F (idx # order) slots w visited"
          by (intro exI [of _ err] exI [of _ w'] exI [of _ "new @ new'"] exI [of _ "Suc k"]) auto
        then show ?thesis ..
      qed
    next
      case (2 err w1 new)
      have run: "instantiate_nodes eng p (idx # order) slots w = Some (Inl err, cleanup_partial eng slots w1)"
        using 2(1) by simp
      have "filter (\<lambda>i. i \<in> set visited) [0..<n] = sort visited"
        by (rule filter_upt_sort) (use Cons.prems in auto)
      then have "slot_ids slots = map stage_component_id (sort visited)" using slots_for_ids [OF Cons.prems(3)] by simp
      then have ids: "slot_ids (rev slots) = map stage_component_id (rev (sort visited))"
        by (simp add: slot_ids_rev rev_map)
      have "w_calls (cleanup_partial eng slots w1) =
          w_calls w @ new @ map InvokeTeardown (map stage_component_id (rev (sort visited)))"
        by (simp add: cleanup_partial_def teardown_slots_calls 2(3) ids del: map_map)
      with 2(2-6) run have "?F (idx # order) slots w visited"
        by (intro exI [of _ err] exI [of _ "cleanup_partial eng slots w1"]
          exI [of _ "new @ map InvokeTeardown (map stage_component_id (rev (sort visited)))"] exI [of _ 0])
          (auto simp del: map_map)
      then show ?thesis ..
    qed
  qed
  with live failed show thesis by blast
qed

lemma filled_slots:
  assumes "slots_for n {..<n} slots"
  obtains insts where "filled slots = Some insts" "length insts = n"
proof -
  have "\<forall>s \<in> set slots. s \<noteq> None" "length slots = n"
    using assms by (auto simp: slots_for_def in_set_conv_nth)
  then have "\<exists>insts. filled slots = Some insts \<and> length insts = n"
    by (induction slots arbitrary: n) auto
  with that show thesis by blast
qed

section \<open>The pipeline\<close>

definition running_flow :: "flow_config \<Rightarrow> coordinator \<Rightarrow> flow_driver \<Rightarrow> coordinator" where
  "running_flow cfg co d =
     insert_flow (FlowId (co_next_flow_id co))
       \<lparr>fe_state = FlowInstantiated, fe_cancellation = cancellation_new, fe_task = TaskRunning d,
        fe_component_ids = map sd_component_id (ft_stages (cfg_topology cfg))\<rparr>
       (co\<lparr>co_next_flow_id := co_next_flow_id co + 1,
           co_resources := mgr_register_flow (co_resources co) (FlowId (co_next_flow_id co))\<rparr>)"

definition started :: "pipeline \<Rightarrow> coordinator \<Rightarrow> flow_driver \<Rightarrow> bool" where
  "started p co d \<longleftrightarrow>
     loop_inv d \<and> fd_flow_id d = FlowId (co_next_flow_id co) \<and> fd_topology d = flow_topology_of p \<and>
     fd_cancellation d = cancellation_new \<and> pull_count (fd_log d) = 0 \<and> (\<forall>s \<in> set (fd_streams d). stream_items s = [])"

lemma spawn_pipeline:
  assumes ok: "valid_topology (flow_topology_of p)" and depths: "depths_ok p"
    and co: "\<not> co_shutting_down co" "co_inv co" and iter: "order_ok (re_iter env)"
  obtains d co' where
    "handle_spawn_flow env (default_with_topology (flow_topology_of p)) (length (pl_nodes p)) now wall (Some co) =
       (Inr (FlowId (co_next_flow_id co)), Some co')"
    "started p co d" "co_inv co'"
    "reap_completed_flows (re_iter env) (running_flow (default_with_topology (flow_topology_of p)) co d) = Some co'"
proof -
  let ?cfg = "default_with_topology (flow_topology_of p)"
  have t: "cfg_topology ?cfg = flow_topology_of p" by (simp add: default_with_topology_def)
  have cap: "valid_topology (cfg_topology ?cfg) \<longrightarrow> capacities_ok ?cfg" using depths depths_capacities by blast
  show thesis
  proof (cases rule: spawn_flow_cases [OF cap, of "re_low_mark env" now wall "length (pl_nodes p)" co])
    case (1 err)
    then show thesis using ok by (simp add: t nodes_of_topology)
  next
    case (2 d)
    have sp: "spawn_flow_with_instances (re_low_mark env) now wall ?cfg (length (pl_nodes p)) co =
        Some (Inr (FlowId (co_next_flow_id co)), running_flow ?cfg co d)"
      using 2(3) unfolding running_flow_def by simp
    obtain r co1 where inv: "spawn_flow_with_instances (re_low_mark env) now wall ?cfg (length (pl_nodes p)) co = Some (r, co1)"
      "co_inv co1" using spawn_flow_inv [OF co(2) cap] by blast
    then have "co_inv (running_flow ?cfg co d)" using sp by simp
    from reap_completed_ok [OF this iter] obtain co' where
      r: "reap_completed_flows (re_iter env) (running_flow ?cfg co d) = Some co'" "co_inv co'" by blast
    have "started p co d" using 2 by (simp add: started_def t)
    moreover have "handle_spawn_flow env ?cfg (length (pl_nodes p)) now wall (Some co) =
        (Inr (FlowId (co_next_flow_id co)), Some co')"
      using sp co(1) r(1) by (simp add: handle_spawn_flow_def send_command_def)
    ultimately show thesis using r by (intro that)
  qed
qed

lemma instantiate_pipeline_cases:
  assumes eng: "engine_ok eng" and order: "distinct (pl_execution_order p)" "set (pl_execution_order p) = {..<length (pl_nodes p)}"
  obtains (failed) err w' new k where
      "instantiate_pipeline env eng now wall p w rc = Some (Inl err, w', rc)" "w_calls w' = w_calls w @ new"
      "stopped_at p (pl_execution_order p) k err new"
  | (live) w' new where "w_calls w' = w_calls w @ new" "all_live p (pl_execution_order p) new"
      "instantiate_pipeline env eng now wall p w rc =
         (case handle_spawn_flow env (default_with_topology (flow_topology_of p)) (length (pl_nodes p)) now wall rc of
            (Inl e, rc) \<Rightarrow> Some (Inl (FlowRegistrationFailed (pl_name p) (flow_creation_error_display e)), w', rc)
          | (Inr f, rc) \<Rightarrow> Some (Inr \<lparr>ph_flow_id = f, ph_name = pl_name p, ph_topology = p\<rparr>, w', rc))"
proof -
  let ?n = "length (pl_nodes p)" and ?order = "pl_execution_order p"
  have init: "slots_for ?n (set []) (replicate ?n None)" by (simp add: slots_for_def)
  have o: "distinct ([] @ ?order)" "set ([] @ ?order) \<subseteq> {..<?n}" using order by simp_all
  show thesis
  proof (cases rule: instantiate_nodes_cases [OF eng refl o init, of w])
    case (1 slots w' new)
    then have "slots_for ?n {..<?n} slots" using order(2) by simp
    then obtain insts where "filled slots = Some insts" "length insts = ?n" by (rule filled_slots)
    with 1 show thesis
      by (intro live [of w' new]) (simp_all add: instantiate_pipeline_def split: prod.split sum.split)
  next
    case (2 err w' new k)
    then show thesis
      by (intro failed [of err w' new k]) (simp_all add: instantiate_pipeline_def stopped_at_def)
  qed
qed

section \<open>Shutdown\<close>

text \<open>A shutdown answers as soon as a poll comes after the timeout.\<close>

lemma poll_shutdown_returns:
  "\<exists>(run, elapsed) \<in> set polls. timeout \<le> elapsed \<Longrightarrow> \<exists>r rc'. poll_shutdown env h timeout polls rc = Some (r, rc')"
  by (induction env h timeout polls rc rule: poll_shutdown.induct) (fastforce split: prod.split sum.split)+

lemma poll_shutdown_cases:
  "poll_shutdown env h timeout polls rc = Some (r, rc') \<Longrightarrow>
   (r = Inr () \<and> (\<exists>rc0 st. handle_flow_state env (ph_flow_id h) rc0 = (st, rc') \<and> (\<forall>s. st = Inr s \<longrightarrow> flow_is_terminal s))) \<or>
   (r = Inl [ShutdownTimeout (ph_flow_id h) timeout (length (pl_nodes (ph_topology h)))] \<and>
    (\<exists>(run, elapsed) \<in> set polls. timeout \<le> elapsed) \<and>
    (\<exists>rc0 s. handle_flow_state env (ph_flow_id h) rc0 = (Inr s, rc') \<and> \<not> flow_is_terminal s))"
  by (induction env h timeout polls rc rule: poll_shutdown.induct)
    (auto split: prod.splits sum.splits if_splits)

text \<open>The flow is over: it is terminal, unknown, or the reactor is gone.\<close>

definition flow_over :: "flow_id \<Rightarrow> coordinator option \<Rightarrow> bool" where
  "flow_over f rc \<longleftrightarrow>
     (case rc of
        None \<Rightarrow> True
      | Some co \<Rightarrow> (case map_of (co_flows co) f of None \<Rightarrow> True | Some e \<Rightarrow> flow_is_terminal (fe_state e)))"

lemma flow_over_iff:
  "handle_flow_state env f rc = (st, rc') \<Longrightarrow> flow_over f rc \<longleftrightarrow> (\<forall>s. st = Inr s \<longrightarrow> flow_is_terminal s)"
  by (auto simp: handle_flow_state_def send_command_def flow_over_def query_flow_state_def split: option.splits)
end
