(* ===== verification/Pip_Props.thy ===== *)
theory Pip_Props
  imports Pip_Run Rea_Run_Props
begin

text \<open>
  What the pipeline layer guarantees: the builder accepts exactly the well-formed descriptions, an
  accepted pipeline becomes a running flow or is torn down, and a shutdown answers.
\<close>

section \<open>Construction\<close>

text \<open>
  C27. Building a pipeline is exact. For every builder that its operations can make, \<open>build\<close> answers
  without a panic. It hands out a pipeline exactly when the names are distinct, the edges join two
  different known nodes, there are sources and sinks, every role has the edges it needs and no others, no
  port has more than 16 edges, the graph is acyclic and every node is reachable from a source; the
  pipeline then lists every node once, producers before consumers. Otherwise it reports errors, and every
  cycle it reports is a closed walk of the graph described.
\<close>

theorem build_exact:
  assumes "walk_ok walk" and "built b"
  shows "\<exists>r. build walk b = Some r \<and>
    ((\<exists>p. r = Inr p) \<longleftrightarrow> builder_ok b \<and> pipeline_ok (bl_nodes b) (resolved_edges b)) \<and>
    (case r of
       Inr p \<Rightarrow>
         pl_name p = bl_name b \<and> pl_nodes p = bl_nodes b \<and> pl_edges p = resolved_edges b \<and>
         distinct (pl_execution_order p) \<and> set (pl_execution_order p) = {..<length (pl_nodes p)} \<and>
         forward (pairs (pl_edges p)) (pl_execution_order p)
     | Inl errs \<Rightarrow>
         errs \<noteq> [] \<and>
         (\<forall>flow names. CycleDetected flow names \<in> set errs \<longrightarrow>
            flow = bl_name b \<and> names_cycle (bl_nodes b) (resolved_edges b) names))"
proof (cases rule: build_cases [OF assms])
  case (1 order)
  then show ?thesis by (simp add: pipeline_new_unchecked_def topological_def)
next
  case (2 errs)
  from 2(4) 2(1-3) show ?thesis by auto
qed

definition demo_node :: "component_role \<Rightarrow> string \<Rightarrow> builder \<Rightarrow> builder" where
  "demo_node role name = add_node name role (''mock://'' @ name) node_config_default"

definition demo_builder :: builder where
  "demo_builder = add_edge ''s'' ''out'' ''k'' ''in'' (demo_node Sink ''k'' (demo_node Source ''s'' (builder_new ''f'')))"

lemma demo_built: "built demo_builder"
  unfolding demo_builder_def add_edge_def demo_node_def add_node_def by (intro built.intros)

lemma demo_walk: "walk_ok (\<lambda>xs. xs)"
  by (simp add: walk_ok_def)

theorem build_exact_witness:
  "\<exists>r. build (\<lambda>xs. xs) demo_builder = Some r \<and>
     ((\<exists>p. r = Inr p) \<longleftrightarrow> builder_ok demo_builder \<and> pipeline_ok (bl_nodes demo_builder) (resolved_edges demo_builder))"
  using build_exact [OF demo_walk demo_built] by blast

section \<open>Instantiation\<close>

definition demo_pipeline :: pipeline where
  "demo_pipeline =
     pipeline_new_unchecked ''f'' [] (bl_nodes demo_builder) (bl_node_index demo_builder) (resolved_edges demo_builder) [0, 1]"

lemma demo_names: "bl_name demo_builder = ''f''" "bl_description demo_builder = []"
  by code_simp+

lemma demo_validated:
  "report_duplicates ''f'' {} (bl_nodes demo_builder) (report_new ''f'') = report_new ''f''"
  "resolve_edges ''f'' (bl_node_index demo_builder) 0 (bl_edges demo_builder) [] (report_new ''f'') =
     (resolved_edges demo_builder, report_new ''f'')"
  "validate_topology (\<lambda>xs. xs) ''f'' (bl_nodes demo_builder) (resolved_edges demo_builder) (report_new ''f'') =
     Some ([0, 1], report_new ''f'')"
  by code_simp+

lemma demo_build: "build (\<lambda>xs. xs) demo_builder = Some (Inr demo_pipeline)"
  unfolding build_def demo_names demo_validated Let_def prod.case
  by (simp add: report_is_ok_def report_new_def demo_pipeline_def)

text \<open>
  C28. Instantiating a built pipeline ends in one of three ways, and never panics, for an engine that gives
  every instance the identifier asked for and a pipeline whose edges all have a queue depth above zero and
  below \<open>2 ^ 63\<close>. Some node fails: then the nodes before it in topological order are the ones that were
  initialised, and exactly these are torn down, in descending order of their indices (the node that fails is
  not, also when it is its own initialisation that fails), and the reactor is not touched. Or all nodes are
  initialised in topological order, each one in a sandbox with exactly the grants and limits of its
  configuration, and the pipeline is handed to the reactor, which starts its flow without a panic. Or the
  reactor is shutting down: then it refuses the flow, the error says so, and the initialised instances are
  left as they are, none of them torn down.
\<close>

theorem instantiation_all_or_nothing:
  assumes "walk_ok walk" and "built b" and "build walk b = Some (Inr p)" and "depths_ok p" and "engine_ok eng"
    and "co_inv co" and "order_ok (re_iter env)"
  shows "\<exists>r w' rc' new. instantiate_pipeline env eng now wall p w (Some co) = Some (r, w', rc') \<and> w_calls w' = w_calls w @ new \<and>
    ((\<exists>err k. r = Inl err \<and> rc' = Some co \<and> stopped_at p (pl_execution_order p) k err new) \<or>
     (co_shutting_down co \<and> all_live p (pl_execution_order p) new \<and>
      r = Inl (FlowRegistrationFailed (pl_name p) (flow_creation_error_display ReactorShuttingDown)) \<and>
      rc' = reap_completed_flows (re_iter env) co) \<or>
     (\<not> co_shutting_down co \<and> all_live p (pl_execution_order p) new \<and>
      (\<exists>d co'. r = Inr \<lparr>ph_flow_id = FlowId (co_next_flow_id co), ph_name = pl_name p, ph_topology = p\<rparr> \<and>
         rc' = Some co' \<and> started p co d \<and> co_inv co' \<and>
         reap_completed_flows (re_iter env) (running_flow (default_with_topology (flow_topology_of p)) co d) = Some co')))"
proof (cases rule: build_cases [OF assms(1,2)])
  case (2 errs)
  with assms(3) show ?thesis by simp
next
  case (1 order)
  with assms(3) have p: "p = pipeline_new_unchecked (bl_name b) (bl_description b) (bl_nodes b) (bl_node_index b)
    (resolved_edges b) order" by simp
  have sort: "distinct (pl_execution_order p)" "set (pl_execution_order p) = {..<length (pl_nodes p)}"
    using 1(4) by (simp_all add: p pipeline_new_unchecked_def topological_def)
  have valid: "valid_topology (flow_topology_of p)"
    by (rule pipeline_ok_valid)
      (use 1(3) resolved_range [OF built_index [OF assms(2)] 1(2)] in \<open>simp_all add: p pipeline_new_unchecked_def\<close>)
  show ?thesis
  proof (cases rule: instantiate_pipeline_cases [OF assms(5) sort, of env now wall w "Some co"])
    case (1 err w' new k)
    then show ?thesis by blast
  next
    case (2 w' new)
    show ?thesis
    proof (cases "co_shutting_down co")
      case True
      then have "handle_spawn_flow env (default_with_topology (flow_topology_of p)) (length (pl_nodes p)) now wall (Some co) =
          (Inl ReactorShuttingDown, reap_completed_flows (re_iter env) co)"
        by (simp add: handle_spawn_flow_def send_command_def)
      with 2 True show ?thesis by simp
    next
      case False
      obtain d co' where s: "handle_spawn_flow env (default_with_topology (flow_topology_of p)) (length (pl_nodes p)) now wall (Some co) =
          (Inr (FlowId (co_next_flow_id co)), Some co')" "started p co d" "co_inv co'"
        "reap_completed_flows (re_iter env) (running_flow (default_with_topology (flow_topology_of p)) co d) = Some co'"
        by (rule spawn_pipeline [OF valid assms(4) False assms(6,7)])
      from 2(3) s(1) have "instantiate_pipeline env eng now wall p w (Some co) = Some (Inr \<lparr>ph_flow_id = FlowId (co_next_flow_id co), ph_name = pl_name p, ph_topology = p\<rparr>, w', Some co')"
        by simp
      with 2(1,2) False s(2-4) show ?thesis by auto
    qed
  qed
qed

definition demo_env :: reactor_env where
  "demo_env = \<lparr>re_low_mark = (\<lambda>c r. c div 2), re_show_duration = (\<lambda>_. []), re_panic = [], re_iter = demo_iter\<rparr>"

definition demo_files :: "string \<Rightarrow> mock_state \<Rightarrow> (string + string) \<times> mock_state" where
  "demo_files path m = (Inl ''not found'', m)"

lemma demo_edges: "map (\<lambda>e. ec_queue_depth (pe_config e)) (pl_edges demo_pipeline) = [None]"
  by code_simp

lemma demo_depths: "depths_ok demo_pipeline"
  using demo_edges by (auto simp: depths_ok_def opt_or_def default_queue_depth_def map_eq_Cons_conv)

theorem instantiation_all_or_nothing_witness:
  "\<exists>r w' rc'. instantiate_pipeline demo_env (mock_engine demo_files) 0 0 demo_pipeline \<lparr>w_engine = mock_new, w_calls = []\<rparr>
      (Some (coordinator_new demo_manager)) = Some (r, w', rc') \<and>
     ((\<exists>err k. r = Inl err \<and> stopped_at demo_pipeline [0, 1] k err (w_calls w')) \<or>
      (\<exists>h. r = Inr h \<and> all_live demo_pipeline [0, 1] (w_calls w')))"
proof -
  have order01: "pl_execution_order demo_pipeline = [0, 1]" by (simp add: demo_pipeline_def pipeline_new_unchecked_def)
  have nsd: "co_shutting_down (coordinator_new demo_manager) = False" by (simp add: coordinator_new_def)
  have inv: "co_inv (coordinator_new demo_manager)" by (rule coordinator_new_inv [OF demo_manager_inv])
  have iter: "order_ok (re_iter demo_env)" by (simp add: demo_env_def demo_iter_ok)
  note run = instantiation_all_or_nothing [OF demo_walk demo_built demo_build demo_depths mock_engine_ok [of demo_files] inv iter,
      where now = 0 and wall = 0 and w = "\<lparr>w_engine = mock_new, w_calls = []\<rparr>", unfolded order01 nsd world.simps append_Nil]
  show ?thesis
    apply (insert run)
    apply (elim exE conjE disjE)
    subgoal for r w' rc' new err k
      by (hypsubst, rule exI, rule exI, rule exI, rule conjI, assumption, rule disjI1, rule exI, rule exI, rule conjI, rule refl, assumption)
    subgoal by simp
    subgoal for r w' rc' new d co'
      by (hypsubst, rule exI, rule exI, rule exI, rule conjI, assumption, rule disjI2, rule exI, rule conjI, rule refl, assumption)
    done
qed

section \<open>Shutdown\<close>

text \<open>
  A shutdown answers truthfully and in time. Whatever the reactor does between the polls, a shutdown
  that polls until its timeout has passed returns; it succeeds only if at its last poll the flow is
  terminal, unknown to the reactor, or the reactor itself is gone, and otherwise reports a timeout that
  names the flow and counts the nodes of its pipeline, at a poll after the timeout with the flow still
  going.
\<close>

theorem shutdown_answers:
  assumes "\<exists>(run, elapsed) \<in> set polls. timeout \<le> elapsed"
  shows "\<exists>r rc0 rc'. shutdown_pipeline env h timeout polls rc = Some (r, rc') \<and>
    rc' = snd (handle_flow_state env (ph_flow_id h) rc0) \<and>
    (if flow_over (ph_flow_id h) rc0 then r = Inr ()
     else r = Inl [ShutdownTimeout (ph_flow_id h) timeout (length (pl_nodes (ph_topology h)))])"
proof -
  obtain c rc1 where c: "handle_cancel_flow env (ph_flow_id h) OperatorRequest rc = (c, rc1)" by fastforce
  obtain r rc' where p: "poll_shutdown env h timeout polls rc1 = Some (r, rc')"
    using poll_shutdown_returns [OF assms] by blast
  have run: "shutdown_pipeline env h timeout polls rc = Some (r, rc')" using c p by (simp add: shutdown_pipeline_def)
  from poll_shutdown_cases [OF p] show ?thesis
  proof (elim disjE conjE exE)
    fix rc0 st assume st: "handle_flow_state env (ph_flow_id h) rc0 = (st, rc')"
      "\<forall>s. st = Inr s \<longrightarrow> flow_is_terminal s" "r = Inr ()"
    then have "flow_over (ph_flow_id h) rc0" by (simp add: flow_over_iff [OF st(1)])
    with run st show ?thesis by (intro exI [of _ r] exI [of _ rc0] exI [of _ rc']) simp
  next
    fix rc0 s assume s: "handle_flow_state env (ph_flow_id h) rc0 = (Inr s, rc')" "\<not> flow_is_terminal s"
      "r = Inl [ShutdownTimeout (ph_flow_id h) timeout (length (pl_nodes (ph_topology h)))]"
    then have "\<not> flow_over (ph_flow_id h) rc0" by (simp add: flow_over_iff [OF s(1)])
    with run s show ?thesis by (intro exI [of _ r] exI [of _ rc0] exI [of _ rc']) simp
  qed
qed

theorem shutdown_answers_witness:
  "\<exists>r rc0 rc'. shutdown_pipeline demo_env \<lparr>ph_flow_id = FlowId 1, ph_name = ''f'', ph_topology = demo_pipeline\<rparr> 10
     [(\<lambda>rc. rc, 12)] (Some (coordinator_new demo_manager)) = Some (r, rc') \<and>
     rc' = snd (handle_flow_state demo_env (FlowId 1) rc0)"
proof -
  let ?h = "\<lparr>ph_flow_id = FlowId 1, ph_name = ''f'', ph_topology = demo_pipeline\<rparr>"
  have "\<exists>(run, elapsed) \<in> set [(\<lambda>rc :: coordinator option. rc, 12 :: duration)]. 10 \<le> elapsed" by simp
  from shutdown_answers [OF this, of demo_env ?h "Some (coordinator_new demo_manager)"] show ?thesis
    unfolding pipeline_handle.simps by blast
qed

end
