(* ===== verification/Lnk_Topology.thy ===== *)
theory Lnk_Topology
  imports Pip_Error Graph_Search
begin

text \<open>
  \<open>torvyn-linker/src/error.rs\<close>, with \<open>LinkError\<close> of \<open>torvyn-types/src/error.rs\<close>, and \<open>topology.rs\<close>: the
  diagnostics of the linker, and graphs of components keyed by name with their validation. A hash map is
  an association list; the orders in which the maps are walked are arguments. \<open>None\<close> is a panic.
\<close>

section \<open>Diagnostics\<close>

datatype link_error =
    LeUnresolvedImport string string
  | LeInterfaceMismatch string string string string
  | LeCapabilityDenied string string
  | LeCyclicDependency "string list"
  | LeCompilationFailed string string

primrec link_error_display :: "link_error \<Rightarrow> string" where
  "link_error_display (LeUnresolvedImport component import_name) =
     ''[E0200] Unresolved import: component '' @ tick_quoted component @ '' requires '' @ tick_quoted import_name @
     '' but no connected component exports it. '' @
     ''Check the pipeline topology and ensure all imports are satisfied.''"
| "link_error_display (LeInterfaceMismatch from_component to_component interface detail) =
     ''[E0201] Interface mismatch between '' @ tick_quoted from_component @ '' and '' @ tick_quoted to_component @
     '' on interface '' @ tick_quoted interface @ '': '' @ detail @
     ''. Ensure both components target the same contract version.''"
| "link_error_display (LeCapabilityDenied component capability) =
     ''[E0202] Capability denied: component '' @ tick_quoted component @ '' requires '' @ tick_quoted capability @
     '' but it was not granted in the pipeline configuration. '' @
     ''Add the capability to the component'' @ [CHR 0x27] @ ''s grant list in Torvyn.toml.''"
| "link_error_display (LeCyclicDependency cycle) =
     ''[E0203] Cyclic dependency detected in pipeline topology: '' @ join arrow cycle @
     ''. Torvyn pipelines must be directed acyclic graphs (DAGs). '' @
     ''Remove the cycle by restructuring the pipeline.''"
| "link_error_display (LeCompilationFailed component reason) =
     ''[E0204] Component '' @ tick_quoted component @ '' failed to compile: '' @ reason @
     ''. Verify the .wasm file is a valid WebAssembly Component.''"

datatype link_category =
    UnresolvedImport | InterfaceMismatch | LinkCapabilityDenied | CyclicDependency | LinkCompilationFailed
  | TopologyError | AmbiguousProvider | RoleViolation | VersionIncompatible

definition error_code :: "link_category \<Rightarrow> string" where
  "error_code c =
     (case c of UnresolvedImport \<Rightarrow> ''E0200'' | InterfaceMismatch \<Rightarrow> ''E0201'' | LinkCapabilityDenied \<Rightarrow> ''E0202''
      | CyclicDependency \<Rightarrow> ''E0203'' | LinkCompilationFailed \<Rightarrow> ''E0204'' | TopologyError \<Rightarrow> ''E0205''
      | AmbiguousProvider \<Rightarrow> ''E0206'' | RoleViolation \<Rightarrow> ''E0207'' | VersionIncompatible \<Rightarrow> ''E0208'')"

record link_diagnostic =
  ld_category :: link_category
  ld_message :: string
  ld_component :: "string option"
  ld_related_component :: "string option"
  ld_interface_name :: "string option"

definition into_link_error :: "link_diagnostic \<Rightarrow> link_error" where
  "into_link_error d =
     (let component = opt_or (ld_component d) []; related = opt_or (ld_related_component d) [];
          interface = opt_or (ld_interface_name d) []
      in case ld_category d of
           UnresolvedImport \<Rightarrow> LeUnresolvedImport component interface
         | LinkCapabilityDenied \<Rightarrow> LeCapabilityDenied component interface
         | CyclicDependency \<Rightarrow> LeCyclicDependency [ld_message d]
         | LinkCompilationFailed \<Rightarrow> LeCompilationFailed component (ld_message d)
         | _ \<Rightarrow> LeInterfaceMismatch component related interface (ld_message d))"

definition diagnostic_display :: "link_diagnostic \<Rightarrow> string" where
  "diagnostic_display d =
     ''['' @ error_code (ld_category d) @ ''] '' @ ld_message d @
     (case ld_component d of None \<Rightarrow> [] | Some c \<Rightarrow> '' (component: '' @ tick_quoted c @ '')'') @
     (case ld_related_component d of None \<Rightarrow> [] | Some c \<Rightarrow> '' (related: '' @ tick_quoted c @ '')'') @
     (case ld_interface_name d of None \<Rightarrow> [] | Some c \<Rightarrow> '' (interface: '' @ tick_quoted c @ '')'')"

record link_report =
  lr_errors :: "link_diagnostic list"
  lr_warnings :: "link_diagnostic list"

definition link_report_new :: link_report where
  "link_report_new = \<lparr>lr_errors = [], lr_warnings = []\<rparr>"

definition link_report_is_ok :: "link_report \<Rightarrow> bool" where
  "link_report_is_ok r \<longleftrightarrow> lr_errors r = []"

definition push_error :: "link_diagnostic \<Rightarrow> link_report \<Rightarrow> link_report" where
  "push_error d r = r\<lparr>lr_errors := lr_errors r @ [d]\<rparr>"

definition push_warning :: "link_diagnostic \<Rightarrow> link_report \<Rightarrow> link_report" where
  "push_warning d r = r\<lparr>lr_warnings := lr_warnings r @ [d]\<rparr>"

definition merge_reports :: "link_report \<Rightarrow> link_report \<Rightarrow> link_report" where
  "merge_reports r other =
     r\<lparr>lr_errors := lr_errors r @ lr_errors other, lr_warnings := lr_warnings r @ lr_warnings other\<rparr>"

definition into_link_errors :: "link_report \<Rightarrow> link_error list" where
  "into_link_errors r = map into_link_error (lr_errors r)"

fun format_numbered :: "nat \<Rightarrow> link_diagnostic list \<Rightarrow> string" where
  "format_numbered i [] = []"
| "format_numbered i (d # ds) =
     ''  '' @ decimal (i + 1) @ ''. '' @ diagnostic_display d @ [CHR 0x0A] @ format_numbered (i + 1) ds"

definition format_all :: "link_report \<Rightarrow> string" where
  "format_all r =
     (if lr_errors r = [] then []
      else ''Linking failed with '' @ decimal (length (lr_errors r)) @ '' error(s):'' @ [CHR 0x0A] @
        format_numbered 0 (lr_errors r)) @
     (if lr_warnings r = [] then []
      else decimal (length (lr_warnings r)) @ '' warning(s):'' @ [CHR 0x0A] @ format_numbered 0 (lr_warnings r)) @
     (if link_report_is_ok r \<and> lr_warnings r = [] then ''Linking succeeded with no issues.'' @ [CHR 0x0A] else [])"

datatype linker_error =
    InvalidConfig string
  | LinkFailed link_report
  | ComponentLoadFailed string string string
  | EngineError string

definition linker_error_display :: "linker_error \<Rightarrow> string" where
  "linker_error_display e =
     (case e of
        InvalidConfig msg \<Rightarrow> ''Invalid pipeline configuration: '' @ msg
      | LinkFailed r \<Rightarrow> ''Linking failed with '' @ decimal (length (lr_errors r)) @ '' error(s)''
      | ComponentLoadFailed component path reason \<Rightarrow>
          ''Failed to load component '' @ tick_quoted component @ '' from '' @ tick_quoted path @ '': '' @ reason
      | EngineError msg \<Rightarrow> ''Engine error: '' @ msg)"

section \<open>Topologies\<close>

record capability_grant_entry =
  cg_name :: string
  cg_detail :: string

record topology_node =
  tn_name :: string
  tn_role :: component_role
  tn_artifact_path :: string
  tn_config :: "string option"
  tn_capability_grants :: "capability_grant_entry list"

record topology_edge =
  te_from_node :: string
  te_from_port :: string
  te_to_node :: string
  te_to_port :: string
  te_queue_depth :: u32
  te_backpressure_policy :: backpressure_policy

record topology =
  tp_name :: string
  tp_nodes :: "(string \<times> topology_node) list"
  tp_edges :: "topology_edge list"
  tp_max_fan_out :: usize
  tp_max_fan_in :: usize

definition topology_new :: "string \<Rightarrow> topology" where
  "topology_new name = \<lparr>tp_name = name, tp_nodes = [], tp_edges = [], tp_max_fan_out = 16, tp_max_fan_in = 16\<rparr>"

definition topology_add_node :: "topology_node \<Rightarrow> topology \<Rightarrow> topology" where
  "topology_add_node n t = t\<lparr>tp_nodes := AList.update (tn_name n) n (tp_nodes t)\<rparr>"

definition topology_add_edge :: "topology_edge \<Rightarrow> topology \<Rightarrow> topology" where
  "topology_add_edge e t = t\<lparr>tp_edges := tp_edges t @ [e]\<rparr>"

text \<open>The orders in which the hash maps of nodes, of in-degrees and of ports are walked.\<close>

record hash_orders =
  ho_nodes :: "(string \<times> topology_node) list \<Rightarrow> (string \<times> topology_node) list"
  ho_degrees :: "(string \<times> nat) list \<Rightarrow> (string \<times> nat) list"
  ho_ports :: "((string \<times> string) \<times> nat) list \<Rightarrow> ((string \<times> string) \<times> nat) list"

definition has_node :: "topology \<Rightarrow> string \<Rightarrow> bool" where
  "has_node t name \<longleftrightarrow> map_of (tp_nodes t) name \<noteq> None"

definition name_pairs :: "topology \<Rightarrow> (string \<times> string) list" where
  "name_pairs t = map (\<lambda>e. (te_from_node e, te_to_node e)) (tp_edges t)"

text \<open>\<open>adj.entry(u).or_default().push(v)\<close>\<close>

fun push_entry :: "string \<Rightarrow> string \<Rightarrow> (string \<times> string list) list \<Rightarrow> (string \<times> string list) list" where
  "push_entry u v [] = [(u, [v])]"
| "push_entry u v ((w, vs) # adj) = (if w = u then (w, vs @ [v]) # adj else (w, vs) # push_entry u v adj)"

definition adjacency_list :: "topology \<Rightarrow> (string \<times> string list) list" where
  "adjacency_list t = fold (\<lambda>(u, v). push_entry u v) (name_pairs t) []"

definition compute_incoming_counts :: "topology \<Rightarrow> (string \<times> nat) list" where
  "compute_incoming_counts t = tally (map te_to_node (tp_edges t))"

definition compute_outgoing_counts :: "topology \<Rightarrow> (string \<times> nat) list" where
  "compute_outgoing_counts t = tally (map te_from_node (tp_edges t))"


section \<open>The search for a cycle\<close>

definition neighbours :: "(string \<times> string list) list \<Rightarrow> string \<Rightarrow> string list" where
  "neighbours adj u = opt_or (map_of adj u) []"

text \<open>The part of the path from the first occurrence of a name, closed by the name.\<close>

definition cycle_from :: "string list \<Rightarrow> string \<Rightarrow> string list" where
  "cycle_from path v = (if v \<in> set path then dropWhile (\<lambda>n. n \<noteq> v) path else path) @ [v]"

text \<open>
  The loop of \<open>dfs_cycle\<close> over the neighbours of the last node of the path, with the call for a neighbour
  unfolded; the state is the visited names, the names on the stack and the path.
\<close>

function (domintros) dfs_neighbors ::
    "(string \<times> string list) list \<Rightarrow> string list \<Rightarrow> string set \<Rightarrow> string set \<Rightarrow> string list \<Rightarrow>
     string list option \<times> string set \<times> string set \<times> string list" where
  "dfs_neighbors adj [] vis stk path = (None, vis, stk, path)"
| "dfs_neighbors adj (v # vs) vis stk path =
     (if v \<notin> vis then
        (case dfs_neighbors adj (neighbours adj v) (insert v vis) (insert v stk) (path @ [v]) of
           (Some c, st) \<Rightarrow> (Some c, st)
         | (None, vis', stk', path') \<Rightarrow> dfs_neighbors adj vs vis' (stk' - {v}) (butlast path'))
      else if v \<in> stk then (Some (cycle_from path v), vis, stk, path)
      else dfs_neighbors adj vs vis stk path)"
  by pat_completeness auto

lemma dfs_neighbors_grows:
  "dfs_neighbors_dom (adj, ns, vis, stk, path) \<Longrightarrow> vis \<subseteq> fst (snd (dfs_neighbors adj ns vis stk path))"
proof (induction rule: dfs_neighbors.pinduct)
  case (2 adj v vs vis stk path)
  show ?case
  proof (cases "v \<in> vis")
    case True
    with 2 show ?thesis by (simp add: dfs_neighbors.psimps)
  next
    case False
    obtain r vis' stk' path' where r: "dfs_neighbors adj (neighbours adj v) (insert v vis) (insert v stk) (path @ [v]) =
        (r, vis', stk', path')" by (metis prod.exhaust)
    with "2.IH"(1) [OF False] have grow: "vis \<subseteq> vis'" by simp
    show ?thesis
    proof (cases r)
      case None
      with "2.IH"(2) [OF False r [symmetric] None refl refl] grow "2.hyps" False r show ?thesis
        by (simp add: dfs_neighbors.psimps)
    next
      case (Some c)
      with grow "2.hyps" False r show ?thesis by (simp add: dfs_neighbors.psimps)
    qed
  qed
qed (simp add: dfs_neighbors.psimps)

definition all_neighbours :: "(string \<times> string list) list \<Rightarrow> string set" where
  "all_neighbours adj = (\<Union>p \<in> set adj. set (snd p))"

lemma neighbours_all: "set (neighbours adj u) \<subseteq> all_neighbours adj"
proof (cases "map_of adj u")
  case (Some vs)
  then show ?thesis using map_of_SomeD [OF Some] by (auto simp: neighbours_def all_neighbours_def opt_or_def intro: bexI [of _ "(u, vs)"])
qed (simp add: neighbours_def opt_or_def)

lemma neighbours_less:
  assumes "v \<notin> vis"
  shows "card ((all_neighbours adj \<union> set (neighbours adj v)) - insert v vis) < card ((all_neighbours adj \<union> set (v # vs)) - vis)"
proof (rule psubset_card_mono)
  show "(all_neighbours adj \<union> set (neighbours adj v)) - insert v vis \<subset> (all_neighbours adj \<union> set (v # vs)) - vis"
    using assms neighbours_all [of adj v] by auto
qed (simp add: all_neighbours_def)

lemma neighbours_le:
  "vis \<subseteq> vis' \<Longrightarrow> card ((all_neighbours adj \<union> set vs) - vis') \<le> card ((all_neighbours adj \<union> set (v # vs)) - vis)"
  by (rule card_mono) (auto simp: all_neighbours_def)

termination dfs_neighbors
proof (relation "measures [\<lambda>(adj, ns, vis, stk, path). card ((all_neighbours adj \<union> set ns) - vis),
    \<lambda>(adj, ns, vis, stk, path). length ns]", goal_cases)
  case (2 adj v vs vis stk path)
  then show ?case using neighbours_less by simp
next
  case (3 adj v vs vis stk path r st vis' q stk' path')
  then have "dfs_neighbors adj (neighbours adj v) (insert v vis) (insert v stk) (path @ [v]) = (r, vis', stk', path')" by simp
  with dfs_neighbors_grows [OF 3(6)] have "vis \<subseteq> vis'" by simp
  from neighbours_le [OF this, of adj vs v] show ?case by (auto simp: le_less)
next
  case (4 adj v vs vis stk path)
  from neighbours_le [of vis vis adj vs v] show ?case by (auto simp: le_less)
qed simp

definition dfs_cycle ::
    "(string \<times> string list) list \<Rightarrow> string \<Rightarrow> string set \<Rightarrow> string set \<Rightarrow> string list \<Rightarrow>
     string list option \<times> string set \<times> string set \<times> string list" where
  "dfs_cycle adj node vis stk path =
     (case dfs_neighbors adj (neighbours adj node) (insert node vis) (insert node stk) (path @ [node]) of
        (Some c, st) \<Rightarrow> (Some c, st)
      | (None, vis, stk, path) \<Rightarrow> (None, vis, stk - {node}, butlast path))"

fun detect_from ::
    "(string \<times> string list) list \<Rightarrow> string list \<Rightarrow> string set \<Rightarrow> string set \<Rightarrow> string list \<Rightarrow> string list option" where
  "detect_from adj [] vis stk path = None"
| "detect_from adj (n # ns) vis stk path =
     (if n \<notin> vis then
        (case dfs_cycle adj n vis stk path of
           (Some c, _) \<Rightarrow> Some c
         | (None, vis, stk, path) \<Rightarrow> detect_from adj ns vis stk path)
      else detect_from adj ns vis stk path)"

definition detect_cycle :: "hash_orders \<Rightarrow> topology \<Rightarrow> string list option" where
  "detect_cycle ho t = detect_from (adjacency_list t) (map fst (ho_nodes ho (tp_nodes t))) {} {} []"


section \<open>Validation\<close>

definition topology_error :: "string \<Rightarrow> string option \<Rightarrow> string option \<Rightarrow> string option \<Rightarrow> link_diagnostic" where
  "topology_error msg component related interface =
     \<lparr>ld_category = TopologyError, ld_message = msg, ld_component = component, ld_related_component = related,
      ld_interface_name = interface\<rparr>"

fun check_endpoints :: "topology \<Rightarrow> topology_edge list \<Rightarrow> link_report \<Rightarrow> link_report" where
  "check_endpoints t [] r = r"
| "check_endpoints t (e # es) r =
     (let u = te_from_node e; v = te_to_node e;
          r = (if has_node t u then r
               else push_error (topology_error (''Edge references unknown source node '' @ tick_quoted u @
                 ''. Check that all edge '' @ tick_quoted ''from'' @ '' values match a defined component name.'')
                 (Some u) (Some v) None) r);
          r = (if has_node t v then r
               else push_error (topology_error (''Edge references unknown destination node '' @ tick_quoted v @
                 ''. Check that all edge '' @ tick_quoted ''to'' @ '' values match a defined component name.'')
                 (Some v) (Some u) None) r)
      in check_endpoints t es r)"

fun check_connected :: "string set \<Rightarrow> (string \<times> topology_node) list \<Rightarrow> link_report \<Rightarrow> link_report" where
  "check_connected connected [] r = r"
| "check_connected connected ((name, node) # ns) r =
     check_connected connected ns
       (if name \<in> connected then r
        else push_error (topology_error (''Component '' @ tick_quoted name @
          '' is disconnected (no edges). Connect it to the pipeline or remove it.'') (Some name) None None) r)"

definition role_violation :: "string \<Rightarrow> string \<Rightarrow> link_diagnostic" where
  "role_violation msg component =
     \<lparr>ld_category = RoleViolation, ld_message = msg, ld_component = Some component, ld_related_component = None,
      ld_interface_name = None\<rparr>"

fun check_role_edges ::
    "(string \<times> nat) list \<Rightarrow> (string \<times> nat) list \<Rightarrow> (string \<times> topology_node) list \<Rightarrow> link_report \<Rightarrow> link_report" where
  "check_role_edges incoming outgoing [] r = r"
| "check_role_edges incoming outgoing ((name, node) # ns) r =
     (let in_count = opt_or (map_of incoming name) 0; out_count = opt_or (map_of outgoing name) 0;
          r = (if tn_role node = Source \<and> 0 < in_count then
                 push_error (role_violation (''Source component '' @ tick_quoted name @ '' has '' @ decimal in_count @
                   '' incoming edge(s). Sources produce data and must not have incoming connections.'') name) r
               else r);
          r = (if tn_role node = Sink \<and> 0 < out_count then
                 push_error (role_violation (''Sink component '' @ tick_quoted name @ '' has '' @ decimal out_count @
                   '' outgoing edge(s). Sinks consume data and must not have outgoing connections.'') name) r
               else r)
      in check_role_edges incoming outgoing ns r)"

text \<open>The limits of one direction; the texts name the port, its direction and the neighbours.\<close>

fun check_port_limits ::
    "string \<Rightarrow> string \<Rightarrow> string \<Rightarrow> string \<Rightarrow> usize \<Rightarrow> ((string \<times> string) \<times> nat) list \<Rightarrow> link_report \<Rightarrow> link_report" where
  "check_port_limits port_kind fan neighbour option_name limit [] r = r"
| "check_port_limits port_kind fan neighbour option_name limit (((node, port), count) # cs) r =
     check_port_limits port_kind fan neighbour option_name limit cs
       (if limit < count then
          push_error (topology_error (port_kind @ '' port '' @ tick_quoted port @ '' of component '' @ tick_quoted node @
            '' has '' @ fan @ '' of '' @ decimal count @ '', which exceeds the limit of '' @ decimal limit @
            ''. Reduce the number of '' @ neighbour @ '' connections or increase '' @ option_name @ ''.'')
            (Some node) None (Some port)) r
        else r)"

definition link_check_fan_limits :: "hash_orders \<Rightarrow> topology \<Rightarrow> link_report \<Rightarrow> link_report" where
  "link_check_fan_limits ho t r =
     (let outs = ho_ports ho (tally (map (\<lambda>e. (te_from_node e, te_from_port e)) (tp_edges t)));
          ins = ho_ports ho (tally (map (\<lambda>e. (te_to_node e, te_to_port e)) (tp_edges t)))
      in check_port_limits ''Input'' ''fan-in'' ''upstream'' ''max_fan_in'' (tp_max_fan_in t) ins
           (check_port_limits ''Output'' ''fan-out'' ''downstream'' ''max_fan_out'' (tp_max_fan_out t) outs r))"

definition cycle_diagnostic :: "string list \<Rightarrow> link_diagnostic" where
  "cycle_diagnostic cycle =
     \<lparr>ld_category = CyclicDependency,
      ld_message = ''Pipeline topology contains a cycle: '' @ join arrow cycle @
        ''. Torvyn pipelines must be directed acyclic graphs (DAGs). '' @
        ''Remove the cycle by restructuring the pipeline.'',
      ld_component = (case cycle of [] \<Rightarrow> None | c # _ \<Rightarrow> Some c), ld_related_component = None, ld_interface_name = None\<rparr>"

definition link_validate :: "hash_orders \<Rightarrow> topology \<Rightarrow> link_report" where
  "link_validate ho t =
     (let r = link_report_new;
          r = (if tp_name t = [] then push_error (topology_error ''Pipeline name must be non-empty.'' None None None) r else r)
      in if tp_nodes t = [] then
           push_error (topology_error ''Pipeline must contain at least one component node.'' None None None) r
         else
           let r = check_endpoints t (tp_edges t) r;
               connected = set (concat (map (\<lambda>e. [te_from_node e, te_to_node e]) (tp_edges t)));
               r = check_connected connected (ho_nodes ho (tp_nodes t)) r;
               r = check_role_edges (compute_incoming_counts t) (compute_outgoing_counts t) (ho_nodes ho (tp_nodes t)) r;
               r = (case detect_cycle ho t of Some cycle \<Rightarrow> push_error (cycle_diagnostic cycle) r | None \<Rightarrow> r)
           in link_check_fan_limits ho t r)"

section \<open>The topological order\<close>

text \<open>\<open>*count += 1\<close> for the edges into known nodes\<close>

fun count_edges :: "(string \<times> string) list \<Rightarrow> (string \<times> nat) list \<Rightarrow> (string \<times> nat) list" where
  "count_edges [] deg = deg"
| "count_edges ((u, v) # es) deg =
     count_edges es (case map_of deg v of None \<Rightarrow> deg | Some c \<Rightarrow> AList.update v (c + 1) deg)"

text \<open>The inner loop over the edges that leave \<open>u\<close>; decrementing zero would panic.\<close>

fun relax_names ::
    "string \<Rightarrow> (string \<times> string) list \<Rightarrow> (string \<times> nat) list \<Rightarrow> string list \<Rightarrow> ((string \<times> nat) list \<times> string list) option" where
  "relax_names u [] deg q = Some (deg, q)"
| "relax_names u ((a, v) # es) deg q =
     (if a = u then
        (case map_of deg v of
           None \<Rightarrow> relax_names u es deg q
         | Some c \<Rightarrow>
             if c = 0 then None
             else relax_names u es (AList.update v (c - 1) deg) (if c - 1 = 0 then q @ [v] else q))
      else relax_names u es deg q)"

definition degree_sum :: "(string \<times> nat) list \<Rightarrow> nat" where
  "degree_sum deg = sum_list (map snd deg)"

lemma degree_sum_update: "map_of deg v = Some c \<Longrightarrow> degree_sum (AList.update v d deg) + c = degree_sum deg + d"
  unfolding degree_sum_def by (induction deg) (auto split: if_splits)

lemma relax_names_measure:
  "relax_names u es deg q = Some (deg', q') \<Longrightarrow> length q' + degree_sum deg' \<le> length q + degree_sum deg"
proof (induction u es deg q rule: relax_names.induct)
  case (2 u a v es deg q)
  show ?case
  proof (cases "a = u \<and> map_of deg v \<noteq> None")
    case True
    then obtain c where c: "map_of deg v = Some c" by blast
    with True "2.prems" have pos: "c \<noteq> 0" by (auto split: if_splits)
    with degree_sum_update [OF c, of "c - 1"] "2.IH"(2) [of c] "2.prems" True c show ?thesis by (auto split: if_splits)
  next
    case False
    with 2 show ?thesis by (auto split: option.splits)
  qed
qed simp

function sort_names ::
    "(string \<times> string) list \<Rightarrow> (string \<times> nat) list \<Rightarrow> string list \<Rightarrow> string list \<Rightarrow> string list option" where
  "sort_names es deg [] order = Some order"
| "sort_names es deg (u # q) order =
     (case relax_names u es deg q of
        None \<Rightarrow> None
      | Some (deg', q') \<Rightarrow> sort_names es deg' q' (order @ [u]))"
  by pat_completeness auto

termination sort_names
  by (relation "measure (\<lambda>(es, deg, q, order). length q + degree_sum deg)") (auto dest: relax_names_measure)

text \<open>\<open>None\<close> is a panic, \<open>Some None\<close> a graph with a cycle.\<close>

definition link_topological_order :: "hash_orders \<Rightarrow> topology \<Rightarrow> string list option option" where
  "link_topological_order ho t =
     (let zero = map (\<lambda>(name, _). (name, 0)) (tp_nodes t);
          deg = count_edges (name_pairs t) zero;
          queue = map fst (filter (\<lambda>(_, c). c = 0) (ho_degrees ho deg))
      in map_option (\<lambda>order. if length order = length (tp_nodes t) then Some order else None)
           (sort_names (name_pairs t) deg queue []))"

end
