(* ===== verification/Lnk_Linker.thy ===== *)
theory Lnk_Linker
  imports Lnk_Topology
begin

text \<open>
  \<open>torvyn-linker/src/resolver.rs\<close>, \<open>linked_pipeline.rs\<close> and \<open>linker.rs\<close>: the imports of every component
  are resolved against the host and its upstream neighbours, the capability grants are checked, and the
  pipeline is assembled in topological order.
\<close>

section \<open>Host interfaces\<close>

definition host_provided_wasi :: "string list" where
  "host_provided_wasi =
     [''wasi:io/streams'', ''wasi:io/poll'', ''wasi:clocks/monotonic-clock'', ''wasi:clocks/wall-clock'',
      ''wasi:random/random'', ''wasi:random/insecure'', ''wasi:random/insecure-seed'', ''wasi:filesystem/types'',
      ''wasi:filesystem/preopens'', ''wasi:sockets/tcp'', ''wasi:sockets/udp'', ''wasi:sockets/ip-name-lookup'',
      ''wasi:cli/stdin'', ''wasi:cli/stdout'', ''wasi:cli/stderr'', ''wasi:cli/environment'']"

definition host_provided_torvyn :: "string list" where
  "host_provided_torvyn =
     [''torvyn:resources/buffer-ops'', ''torvyn:runtime/flow-context'', ''torvyn:runtime/backpressure'',
      ''torvyn:capabilities/capability-query'']"

definition capability_gated_wasi :: "string list" where
  "capability_gated_wasi =
     [''wasi:filesystem/types'', ''wasi:filesystem/preopens'', ''wasi:sockets/tcp'', ''wasi:sockets/udp'',
      ''wasi:sockets/ip-name-lookup'', ''wasi:random/random'', ''wasi:random/insecure'', ''wasi:random/insecure-seed'']"

definition wasi_to_capability :: "(string \<times> string) list" where
  "wasi_to_capability =
     [(''wasi:filesystem/preopens'', ''wasi-filesystem-read''), (''wasi:filesystem/types'', ''wasi-filesystem-read''),
      (''wasi:sockets/tcp'', ''wasi-network-egress''), (''wasi:sockets/udp'', ''wasi-network-egress''),
      (''wasi:sockets/ip-name-lookup'', ''wasi-network-egress''), (''wasi:clocks/wall-clock'', ''wasi-clocks''),
      (''wasi:clocks/monotonic-clock'', ''wasi-clocks''), (''wasi:random/random'', ''wasi-random''),
      (''wasi:random/insecure'', ''wasi-random''), (''wasi:random/insecure-seed'', ''wasi-random'')]"

text \<open>\<open>s.contains(t)\<close>\<close>

fun str_contains :: "string \<Rightarrow> string \<Rightarrow> bool" where
  "str_contains [] t \<longleftrightarrow> t = []"
| "str_contains (c # s) t \<longleftrightarrow> starts_with (c # s) t \<or> str_contains s t"

section \<open>Resolution\<close>

datatype import_resolution =
    StreamConnection string string
  | HostWasi string bool
  | HostTorvyn string

record component_resolution =
  cr_component_name :: string
  cr_resolved_imports :: "string \<Rightarrow> import_resolution option"
  cr_unresolved :: "string list"

type_synonym interfaces = "string \<Rightarrow> string list option"

definition upstreams :: "topology \<Rightarrow> string \<Rightarrow> string list" where
  "upstreams t node =
     neighbours (fold (\<lambda>(u, v). push_entry v u) (name_pairs t) []) node"

definition exports_import :: "interfaces \<Rightarrow> string \<Rightarrow> string \<Rightarrow> bool" where
  "exports_import exports import_name u = (case exports u of None \<Rightarrow> False | Some es \<Rightarrow> import_name \<in> set es)"

definition resolve_single_import ::
    "topology \<Rightarrow> interfaces \<Rightarrow> string \<Rightarrow> string \<Rightarrow> link_report \<Rightarrow> import_resolution option \<times> link_report" where
  "resolve_single_import t exports node import_name r =
     (if list_ex (\<lambda>w. str_contains import_name w \<or> import_name = w) host_provided_wasi then
        (Some (HostWasi import_name
           (list_ex (\<lambda>w. str_contains import_name w \<or> import_name = w) capability_gated_wasi)), r)
      else if list_ex (\<lambda>w. str_contains import_name w \<or> import_name = w) host_provided_torvyn then
        (Some (HostTorvyn import_name), r)
      else case filter (exports_import exports import_name) (upstreams t node) of
          [] \<Rightarrow> (None, r)
        | [p] \<Rightarrow> (Some (StreamConnection p import_name), r)
        | p # ps \<Rightarrow>
            (Some (StreamConnection p import_name),
             push_error \<lparr>ld_category = AmbiguousProvider,
               ld_message = ''Component '' @ tick_quoted node @ '' imports '' @ tick_quoted import_name @
                 '' but multiple upstream components export it: ['' @ join '', '' (p # ps) @
                 '']. Disambiguate by specifying the provider in the pipeline configuration.'',
               ld_component = Some node, ld_related_component = None, ld_interface_name = Some import_name\<rparr> r))"

definition unresolved_diagnostic :: "string \<Rightarrow> string \<Rightarrow> link_diagnostic" where
  "unresolved_diagnostic node import_name =
     \<lparr>ld_category = UnresolvedImport,
      ld_message = ''Component '' @ tick_quoted node @ '' requires import '' @ tick_quoted import_name @
        '' but no provider was found. Ensure a connected upstream component exports this interface, '' @
        ''or verify it is a known WASI/Torvyn host interface.'',
      ld_component = Some node, ld_related_component = None, ld_interface_name = Some import_name\<rparr>"

fun resolve_component ::
    "topology \<Rightarrow> interfaces \<Rightarrow> string \<Rightarrow> string list \<Rightarrow> (string \<Rightarrow> import_resolution option) \<Rightarrow> string list \<Rightarrow> link_report \<Rightarrow>
     component_resolution \<times> link_report" where
  "resolve_component t exports node [] resolved unresolved r =
     (\<lparr>cr_component_name = node, cr_resolved_imports = resolved, cr_unresolved = unresolved\<rparr>, r)"
| "resolve_component t exports node (i # is) resolved unresolved r =
     (case resolve_single_import t exports node i r of
        (Some res, r) \<Rightarrow> resolve_component t exports node is (resolved(i \<mapsto> res)) unresolved r
      | (None, r) \<Rightarrow>
          resolve_component t exports node is resolved (unresolved @ [i])
            (push_error (unresolved_diagnostic node i) r))"

fun resolve_imports ::
    "topology \<Rightarrow> interfaces \<Rightarrow> interfaces \<Rightarrow> string list \<Rightarrow> link_report \<Rightarrow> component_resolution list \<times> link_report" where
  "resolve_imports t imports exports [] r = ([], r)"
| "resolve_imports t imports exports (node # order) r =
     (let (c, r) = (case imports node of
            None \<Rightarrow> (\<lparr>cr_component_name = node, cr_resolved_imports = (\<lambda>_. None), cr_unresolved = []\<rparr>, r)
          | Some is \<Rightarrow> resolve_component t exports node is (\<lambda>_. None) [] r);
          (cs, r) = resolve_imports t imports exports order r
      in (c # cs, r))"

definition capability_denied_diagnostic :: "string \<Rightarrow> string \<Rightarrow> string \<Rightarrow> link_diagnostic" where
  "capability_denied_diagnostic node import_name capability =
     \<lparr>ld_category = LinkCapabilityDenied,
      ld_message = ''Component '' @ tick_quoted node @ '' imports '' @ tick_quoted import_name @
        '' which requires capability '' @ tick_quoted capability @ '', but this capability is not granted. Add '' @
        tick_quoted capability @ '' to the component'' @ [CHR 0x27] @ ''s capability grants in Torvyn.toml.'',
      ld_component = Some node, ld_related_component = None, ld_interface_name = Some capability\<rparr>"

fun check_import_grants ::
    "string \<Rightarrow> string set \<Rightarrow> string \<Rightarrow> (string \<times> string) list \<Rightarrow> link_report \<Rightarrow> link_report" where
  "check_import_grants node grants i [] r = r"
| "check_import_grants node grants i ((w, capability) # ws) r =
     check_import_grants node grants i ws
       (if str_contains i w \<and> capability \<notin> grants then push_error (capability_denied_diagnostic node i capability) r else r)"

fun check_node_grants ::
    "interfaces \<Rightarrow> (string \<times> topology_node) list \<Rightarrow> link_report \<Rightarrow> link_report" where
  "check_node_grants imports [] r = r"
| "check_node_grants imports ((name, node) # ns) r =
     (let grants = set (map cg_name (tn_capability_grants node))
      in case imports name of
           None \<Rightarrow> check_node_grants imports ns r
         | Some is \<Rightarrow>
             check_node_grants imports ns (fold (\<lambda>i. check_import_grants name grants i wasi_to_capability) is r))"

definition check_capability_grants :: "hash_orders \<Rightarrow> topology \<Rightarrow> interfaces \<Rightarrow> link_report \<Rightarrow> link_report" where
  "check_capability_grants ho t imports r = check_node_grants imports (ho_nodes ho (tp_nodes t)) r"

section \<open>Linked pipelines\<close>

record linked_component =
  lc_name :: string
  lc_role :: component_role
  lc_artifact_path :: string
  lc_resolved_imports :: "string \<Rightarrow> import_resolution option"
  lc_capability_grants :: "capability_grant_entry list"
  lc_config :: "string option"

record linked_connection =
  ln_stream_id :: stream_id
  ln_from_component :: string
  ln_from_port :: string
  ln_to_component :: string
  ln_to_port :: string
  ln_queue_depth :: u32
  ln_backpressure_policy :: backpressure_policy

record linked_pipeline =
  lp_name :: string
  lp_components :: "linked_component list"
  lp_connections :: "linked_connection list"
  lp_topological_order :: "string list"

definition get_component :: "linked_pipeline \<Rightarrow> string \<Rightarrow> linked_component option" where
  "get_component p name = List.find (\<lambda>c. lc_name c = name) (lp_components p)"

definition outgoing_connections :: "linked_pipeline \<Rightarrow> string \<Rightarrow> linked_connection list" where
  "outgoing_connections p name = filter (\<lambda>c. ln_from_component c = name) (lp_connections p)"

definition incoming_connections :: "linked_pipeline \<Rightarrow> string \<Rightarrow> linked_connection list" where
  "incoming_connections p name = filter (\<lambda>c. ln_to_component c = name) (lp_connections p)"

text \<open>The state of the linker is its next stream identifier. Indexing the map of nodes may panic.\<close>

fun linked_components ::
    "topology \<Rightarrow> component_resolution list \<Rightarrow> string list \<Rightarrow> linked_component list option" where
  "linked_components t resolution [] = Some []"
| "linked_components t resolution (name # order) =
     (case map_of (tp_nodes t) name of
        None \<Rightarrow> None
      | Some node \<Rightarrow>
          let c = \<lparr>lc_name = name, lc_role = tn_role node, lc_artifact_path = tn_artifact_path node,
              lc_resolved_imports =
                (case List.find (\<lambda>c. cr_component_name c = name) resolution of
                   None \<Rightarrow> (\<lambda>_. None) | Some c \<Rightarrow> cr_resolved_imports c),
              lc_capability_grants = tn_capability_grants node, lc_config = tn_config node\<rparr>
          in map_option ((#) c) (linked_components t resolution order))"

fun linked_connections :: "u64 \<Rightarrow> topology_edge list \<Rightarrow> linked_connection list \<times> u64" where
  "linked_connections next [] = ([], next)"
| "linked_connections next (e # es) =
     (let (cs, next') = linked_connections (next + 1) es
      in (\<lparr>ln_stream_id = StreamId next, ln_from_component = te_from_node e, ln_from_port = te_from_port e,
           ln_to_component = te_to_node e, ln_to_port = te_to_port e, ln_queue_depth = te_queue_depth e,
           ln_backpressure_policy = te_backpressure_policy e\<rparr> # cs, next'))"

definition build_linked_pipeline ::
    "topology \<Rightarrow> string list \<Rightarrow> component_resolution list \<Rightarrow> u64 \<Rightarrow> (linked_pipeline \<times> u64) option" where
  "build_linked_pipeline t order resolution next =
     map_option (\<lambda>components.
        case linked_connections next (tp_edges t) of
          (connections, next) \<Rightarrow>
            (\<lparr>lp_name = tp_name t, lp_components = components, lp_connections = connections,
              lp_topological_order = order\<rparr>, next))
       (linked_components t resolution order)"

definition order_failure :: "string \<Rightarrow> link_report" where
  "order_failure msg =
     push_error \<lparr>ld_category = CyclicDependency, ld_message = msg, ld_component = None, ld_related_component = None,
       ld_interface_name = None\<rparr> link_report_new"

definition link_pipeline ::
    "hash_orders \<Rightarrow> topology \<Rightarrow> interfaces \<Rightarrow> interfaces \<Rightarrow> u64 \<Rightarrow> ((linker_error + linked_pipeline) \<times> u64) option" where
  "link_pipeline ho t imports exports next =
     (let report = link_validate ho t
      in if \<not> link_report_is_ok report then Some (Inl (LinkFailed report), next)
         else Option.bind (link_topological_order ho t) (\<lambda>order.
         case order of
           None \<Rightarrow> Some (Inl (LinkFailed (order_failure ''Failed to compute topological order (cycle exists).'')), next)
         | Some order \<Rightarrow>
             let (resolution, report) = resolve_imports t imports exports order link_report_new;
                 report = check_capability_grants ho t imports report
             in if \<not> link_report_is_ok report then Some (Inl (LinkFailed report), next)
                else map_option (\<lambda>(p, next). (Inr p, next)) (build_linked_pipeline t order resolution next)))"

definition link_topology_only ::
    "hash_orders \<Rightarrow> topology \<Rightarrow> u64 \<Rightarrow> ((linker_error + linked_pipeline) \<times> u64) option" where
  "link_topology_only ho t next =
     (let report = link_validate ho t
      in if \<not> link_report_is_ok report then Some (Inl (LinkFailed report), next)
         else Option.bind (link_topological_order ho t) (\<lambda>order.
         case order of
           None \<Rightarrow> Some (Inl (LinkFailed (order_failure ''Failed to compute topological order.'')), next)
         | Some order \<Rightarrow>
             let (resolution, report) = resolve_imports t (\<lambda>_. None) (\<lambda>_. None) order link_report_new
             in map_option (\<lambda>(p, next). (Inr p, next)) (build_linked_pipeline t order resolution next)))"

end
