(* ===== verification/Lnk_Graph.thy ===== *)
theory Lnk_Graph
  imports Lnk_Linker "HOL-Library.Multiset"
begin

text \<open>
  The graph algorithms of the linker over names: the recursive search finds a cycle exactly when there
  is one, and the sort orders exactly the acyclic graphs.
\<close>

section \<open>Neighbours\<close>

lemma neighbours_Nil [simp]: "neighbours [] u = []"
  by (simp add: neighbours_def opt_or_def)

lemma neighbours_push_entry: "neighbours (push_entry u v adj) w = neighbours adj w @ (if w = u then [v] else [])"
  by (induction u v adj rule: push_entry.induct) (auto simp: neighbours_def opt_or_def)

lemma neighbours_fold:
  "neighbours (fold (\<lambda>(u, v). push_entry u v) es adj) w = neighbours adj w @ map snd (filter (\<lambda>e. fst e = w) es)"
  by (induction es arbitrary: adj) (auto simp: neighbours_push_entry)

lemma neighbours_adjacency: "neighbours (adjacency_list t) u = map snd (filter (\<lambda>e. fst e = u) (name_pairs t))"
  by (simp add: adjacency_list_def neighbours_fold)

lemma neighbours_fold_back:
  "neighbours (fold (\<lambda>(u, v). push_entry v u) es adj) w = neighbours adj w @ map fst (filter (\<lambda>e. snd e = w) es)"
  by (induction es arbitrary: adj) (auto simp: neighbours_push_entry)

lemma upstreams_eq: "upstreams t v = map fst (filter (\<lambda>e. snd e = v) (name_pairs t))"
  by (simp add: upstreams_def neighbours_fold_back)

section \<open>The search\<close>

definition edge_rel :: "(string \<times> string list) list \<Rightarrow> (string \<times> string) set" where
  "edge_rel adj = {(u, v). v \<in> set (neighbours adj u)}"

lemma edge_rel_adjacency: "edge_rel (adjacency_list t) = set (name_pairs t)"
  by (force simp: edge_rel_def neighbours_adjacency)

lemma cycle_from_closed:
  assumes "walk_in E path" and "v \<in> set path" and "(last path, v) \<in> E"
  shows "closed_walk E (cycle_from path v)"
proof -
  obtain xs ys where path: "path = xs @ v # ys" "v \<notin> set xs" by (meson assms(2) split_list_first)
  then have c: "cycle_from path v = (v # ys) @ [v]" by (simp add: cycle_from_def dropWhile_append)
  have "walk_in E (v # ys)"
    using assms(1) path(1) walk_in_append [of xs "v # ys" E] by (cases "xs = []") auto
  then have "walk_in E ((v # ys) @ [v])" using walk_in_append [of "v # ys" "[v]" E] assms(3) path(1) by simp
  then show ?thesis unfolding c by (simp add: closed_walk_def)
qed

text \<open>What holds at the start of the loop over the neighbours \<open>ns\<close> of the last node of the path.\<close>

definition search_inv :: "('a \<times> 'a) set \<Rightarrow> 'a list \<Rightarrow> 'a set \<Rightarrow> 'a set \<Rightarrow> 'a list \<Rightarrow> bool" where
  "search_inv E ns vis stk path \<longleftrightarrow>
     path \<noteq> [] \<and> stk = set path \<and> stk \<subseteq> vis \<and> walk_in E path \<and> (\<forall>v \<in> set ns. (last path, v) \<in> E) \<and> finished E (vis - stk)"

lemma dfs_neighbors_ok:
  assumes "search_inv (edge_rel adj) ns vis stk path"
  shows "case dfs_neighbors adj ns vis stk path of
      (Some c, _) \<Rightarrow> closed_walk (edge_rel adj) c
    | (None, vis', stk', path') \<Rightarrow>
        vis \<subseteq> vis' \<and> stk' = stk \<and> path' = path \<and> set ns \<subseteq> vis' - stk \<and> finished (edge_rel adj) (vis' - stk)"
  using assms
proof (induction adj ns vis stk path rule: dfs_neighbors.induct)
  case (1 adj vis stk path)
  then show ?case unfolding search_inv_def by auto
next
  case (2 adj v vs vis stk path)
  let ?E = "edge_rel adj"
  have inv: "path \<noteq> []" "stk = set path" "stk \<subseteq> vis" "walk_in ?E path" "(last path, v) \<in> ?E"
    "\<forall>v \<in> set vs. (last path, v) \<in> ?E" "finished ?E (vis - stk)" using "2.prems" by (auto simp: search_inv_def)
  show ?case
  proof (cases "v \<in> vis")
    case False
    have sub: "search_inv ?E (neighbours adj v) (insert v vis) (insert v stk) (path @ [v])"
    proof -
      have "insert v vis - insert v stk = vis - stk" using False by auto
      moreover have "walk_in ?E (path @ [v])" using inv walk_in_append [of path "[v]" ?E] by simp
      ultimately show ?thesis using inv by (auto simp: search_inv_def edge_rel_def)
    qed
    obtain r vis' stk' path' where run:
      "dfs_neighbors adj (neighbours adj v) (insert v vis) (insert v stk) (path @ [v]) = (r, vis', stk', path')"
      by (metis prod.exhaust)
    note ih = "2.IH"(1) [OF False sub, unfolded run]
    show ?thesis
    proof (cases r)
      case (Some c)
      with ih run False show ?thesis by simp
    next
      case None
      with ih have r: "insert v vis \<subseteq> vis'" "stk' = insert v stk" "path' = path @ [v]"
        "set (neighbours adj v) \<subseteq> vis' - insert v stk" "finished ?E (vis' - insert v stk)" by simp_all
      have "v \<notin> stk" using False inv(3) by blast
      then have F: "vis' - stk = insert v (vis' - insert v stk)" using r(1) by auto
      have fin: "finished ?E (vis' - stk)"
        unfolding F by (rule finished_insert [OF r(5)]) (use r(4) in \<open>auto simp: edge_rel_def\<close>)
      have stk: "stk' - {v} = stk" "butlast path' = path" using r(2,3) \<open>v \<notin> stk\<close> by auto
      have "search_inv ?E vs vis' stk path" using inv r(1) fin by (auto simp: search_inv_def)
      from "2.IH"(2) [OF False run [symmetric] None refl refl, unfolded stk, OF this]
      show ?thesis using run None False stk r(1) F by (auto split: prod.splits option.splits)
    qed
  next
    case True
    show ?thesis
    proof (cases "v \<in> stk")
      case on_stack: True
      with cycle_from_closed [OF inv(4) _ inv(5)] inv(2) True show ?thesis by simp
    next
      case False
      have "search_inv ?E vs vis stk path" using inv by (simp add: search_inv_def)
      from "2.IH"(3) [OF _ False this] True False show ?thesis by (auto split: prod.splits option.splits)
    qed
  qed
qed

lemma dfs_cycle_ok:
  assumes fin: "finished (edge_rel adj) vis" and node: "node \<notin> vis"
  shows "case dfs_cycle adj node vis {} [] of
      (Some c, _) \<Rightarrow> closed_walk (edge_rel adj) c
    | (None, vis', stk', path') \<Rightarrow> insert node vis \<subseteq> vis' \<and> stk' = {} \<and> path' = [] \<and> finished (edge_rel adj) vis'"
proof -
  let ?E = "edge_rel adj"
  have start: "search_inv ?E (neighbours adj node) (insert node vis) {node} [node]"
    using fin node by (simp add: search_inv_def edge_rel_def insert_Diff_if)
  obtain r vis' stk' path' where run: "dfs_neighbors adj (neighbours adj node) (insert node vis) {node} [node] =
      (r, vis', stk', path')" by (metis prod.exhaust)
  note ok = dfs_neighbors_ok [OF start, unfolded run]
  show ?thesis
  proof (cases r)
    case None
    with ok have r: "insert node vis \<subseteq> vis'" "stk' = {node}" "path' = [node]"
      "set (neighbours adj node) \<subseteq> vis' - {node}" "finished ?E (vis' - {node})" by simp_all
    have "finished ?E (insert node (vis' - {node}))"
      by (rule finished_insert [OF r(5)]) (use r(4) in \<open>auto simp: edge_rel_def\<close>)
    moreover have "insert node (vis' - {node}) = vis'" using r(1) by auto
    ultimately show ?thesis using r run None by (simp add: dfs_cycle_def)
  qed (use ok run in \<open>simp add: dfs_cycle_def\<close>)
qed

lemma detect_from_ok:
  assumes "finished (edge_rel adj) vis"
  shows "case detect_from adj ns vis {} [] of
      Some c \<Rightarrow> closed_walk (edge_rel adj) c
    | None \<Rightarrow> \<exists>vis'. set ns \<union> vis \<subseteq> vis' \<and> finished (edge_rel adj) vis'"
  using assms
proof (induction ns arbitrary: vis)
  case Nil
  then show ?case by auto
next
  case (Cons n ns)
  show ?case
  proof (cases "n \<in> vis")
    case True
    with Cons.IH [OF Cons.prems] show ?thesis by (auto split: option.splits)
  next
    case False
    obtain r vis' stk' path' where run: "dfs_cycle adj n vis {} [] = (r, vis', stk', path')" by (metis prod.exhaust)
    note ok = dfs_cycle_ok [OF Cons.prems False, unfolded run]
    show ?thesis
    proof (cases r)
      case None
      with ok have "insert n vis \<subseteq> vis'" "stk' = {}" "path' = []" "finished (edge_rel adj) vis'" by simp_all
      with Cons.IH [of vis'] None run False show ?thesis by (auto split: option.splits)
    qed (use ok run False in simp)
  qed
qed

section \<open>Orders\<close>

definition orders_ok :: "hash_orders \<Rightarrow> bool" where
  "orders_ok ho \<longleftrightarrow>
     (\<forall>xs. mset (ho_nodes ho xs) = mset xs) \<and> (\<forall>xs. mset (ho_degrees ho xs) = mset xs) \<and>
     (\<forall>xs. mset (ho_ports ho xs) = mset xs)"

lemma orders_ok_set:
  assumes "orders_ok ho"
  shows "set (ho_nodes ho ns) = set ns" "set (ho_degrees ho ds) = set ds" "set (ho_ports ho ps) = set ps"
  using assms unfolding orders_ok_def by (metis mset_eq_setD)+

definition endpoints_known :: "topology \<Rightarrow> bool" where
  "endpoints_known t \<longleftrightarrow> (\<forall>(u, v) \<in> set (name_pairs t). has_node t u \<and> has_node t v)"

lemma has_node_iff: "has_node t n \<longleftrightarrow> n \<in> fst ` set (tp_nodes t)"
  by (simp add: has_node_def map_of_eq_None_iff)

lemma detect_cycle_iff:
  assumes "orders_ok ho" and "endpoints_known t"
  shows "case detect_cycle ho t of
      Some c \<Rightarrow> closed_walk (set (name_pairs t)) c | None \<Rightarrow> acyclic (set (name_pairs t))"
proof (cases "detect_cycle ho t")
  case (Some c)
  with detect_from_ok [OF finished_empty, of "map fst (ho_nodes ho (tp_nodes t))" "adjacency_list t"] show ?thesis
    by (simp add: detect_cycle_def edge_rel_adjacency)
next
  case None
  with detect_from_ok [OF finished_empty, of "map fst (ho_nodes ho (tp_nodes t))" "adjacency_list t"] obtain vis where
    vis: "fst ` set (tp_nodes t) \<subseteq> vis" "finished (set (name_pairs t)) vis"
    by (auto simp: detect_cycle_def edge_rel_adjacency orders_ok_set [OF assms(1)])
  have "set (name_pairs t) \<subseteq> vis \<times> vis" using assms(2) vis(1) by (fastforce simp: endpoints_known_def has_node_iff)
  from finished_all [OF vis(2) this] None show ?thesis by simp
qed


section \<open>The topological order\<close>

definition forward_names :: "('a \<times> 'a) set \<Rightarrow> 'a list \<Rightarrow> bool" where
  "forward_names E order \<longleftrightarrow> (\<forall>i < length order. \<forall>u. (u, order ! i) \<in> E \<longrightarrow> u \<in> set (take i order))"

lemma forward_names_snoc:
  "forward_names E (order @ [v]) \<longleftrightarrow> forward_names E order \<and> (\<forall>u. (u, v) \<in> E \<longrightarrow> u \<in> set order)"
  unfolding forward_names_def by (auto simp: nth_append less_Suc_eq)

text \<open>The edges into a node that do not come from \<open>D\<close>.\<close>

definition pending :: "('a \<times> 'a) list \<Rightarrow> 'a set \<Rightarrow> 'a \<Rightarrow> nat" where
  "pending es D v = length (filter (\<lambda>(a, b). b = v \<and> a \<notin> D) es)"

lemma pending_insert: "u \<notin> D \<Longrightarrow> pending es D v = pending es (insert u D) v + count_list es (u, v)"
  unfolding pending_def by (induction es) auto

lemma pending_zero: "pending es D v = 0 \<longleftrightarrow> (\<forall>a. (a, v) \<in> set es \<longrightarrow> a \<in> D)"
  unfolding pending_def by (auto simp: filter_empty_conv)

lemma update_keys: "map_of al k \<noteq> None \<Longrightarrow> map fst (AList.update k v al) = map fst al"
  by (induction al) (auto split: if_splits)

lemma count_edges_ok:
  "map fst (count_edges es deg) = map fst deg \<and>
   map_of (count_edges es deg) v = map_option (\<lambda>c. c + pending es {} v) (map_of deg v)"
proof (induction es deg rule: count_edges.induct)
  case (1 deg)
  then show ?case by (simp add: pending_def option.map_ident)
next
  case (2 u w es deg)
  then show ?case
    by (cases "map_of deg w") (auto simp: update_keys update_conv' pending_def split: option.splits)
qed

lemma relax_names_ok:
  assumes "\<And>v c. map_of deg v = Some c \<Longrightarrow> count_list es (u, v) \<le> c"
  shows "\<exists>deg' new. relax_names u es deg q = Some (deg', q @ new) \<and> map fst deg' = map fst deg \<and>
    (\<forall>v. map_of deg' v = map_option (\<lambda>c. c - count_list es (u, v)) (map_of deg v)) \<and> distinct new \<and>
    set new = {v. \<exists>c. map_of deg v = Some c \<and> c = count_list es (u, v) \<and> 0 < c}"
  using assms
proof (induction u es deg q rule: relax_names.induct)
  case (1 u deg q)
  then show ?case by (simp add: option.map_ident)
next
  case (2 u a v es deg q)
  show ?case
  proof (cases "a = u \<and> map_of deg v \<noteq> None")
    case False
    have "relax_names u ((a, v) # es) deg q = relax_names u es deg q" using False by (auto split: option.splits)
    moreover have cnt: "count_list ((a, v) # es) (u, w) = count_list es (u, w)" if "map_of deg w = Some c" for w c
      using False that by auto
    then have le: "count_list es (u, w) \<le> c" if "map_of deg w = Some c" for w c
      using "2.prems" [OF that] that by simp
    have "\<exists>deg' new. relax_names u es deg q = Some (deg', q @ new) \<and> map fst deg' = map fst deg \<and>
        (\<forall>v. map_of deg' v = map_option (\<lambda>c. c - count_list es (u, v)) (map_of deg v)) \<and> distinct new \<and>
        set new = {v. \<exists>c. map_of deg v = Some c \<and> c = count_list es (u, v) \<and> 0 < c}"
    proof (cases "a = u")
      case True
      with False have "map_of deg v = None" by blast
      from "2.IH"(1) [OF True this le] show ?thesis .
    next
      case neq: False
      from "2.IH"(3) [OF neq le] show ?thesis .
    qed
    then obtain deg' new where ih: "relax_names u es deg q = Some (deg', q @ new)" "map fst deg' = map fst deg"
      "\<And>v. map_of deg' v = map_option (\<lambda>c. c - count_list es (u, v)) (map_of deg v)" "distinct new"
      "set new = {v. \<exists>c. map_of deg v = Some c \<and> c = count_list es (u, v) \<and> 0 < c}" by blast
    have "map_of deg' w = map_option (\<lambda>c. c - count_list ((a, v) # es) (u, w)) (map_of deg w)" for w
      using cnt [of w] ih(3) [of w] by (cases "map_of deg w") simp_all
    moreover have "set new = {w. \<exists>c. map_of deg w = Some c \<and> c = count_list ((a, v) # es) (u, w) \<and> 0 < c}"
      unfolding ih(5) by (intro Collect_cong ex_cong1 conj_cong refl) (simp only: cnt)
    ultimately show ?thesis using ih(1,2,4) by (intro exI [of _ deg'] exI [of _ new]) (simp only: simp_thms)
  next
    case True
    then obtain c where a: "a = u" and c: "map_of deg v = Some c" by blast
    with "2.prems" [of v c] have pos: "c \<noteq> 0" "count_list es (u, v) + 1 \<le> c" by simp_all
    let ?deg = "AList.update v (c - 1) deg" and ?q = "if c - 1 = 0 then q @ [v] else q"
    have lookup: "map_of ?deg w = (if w = v then Some (c - 1) else map_of deg w)" for w by (simp add: update_conv')
    have "count_list es (u, w) \<le> d" if "map_of ?deg w = Some d" for w d
      using that "2.prems" [of w d] pos a unfolding lookup by (auto split: if_splits)
    from "2.IH"(2) [OF a c pos(1) this] obtain deg' new where ih:
      "relax_names u es ?deg ?q = Some (deg', ?q @ new)" "map fst deg' = map fst ?deg"
      "\<And>w. map_of deg' w = map_option (\<lambda>c. c - count_list es (u, w)) (map_of ?deg w)" "distinct new"
      "set new = {w. \<exists>c. map_of ?deg w = Some c \<and> c = count_list es (u, w) \<and> 0 < c}" by blast
    let ?new = "(if c - 1 = 0 then [v] else []) @ new"
    have "set ?new = {w. \<exists>c. map_of deg w = Some c \<and> c = count_list ((a, v) # es) (u, w) \<and> 0 < c}"
      using pos a c unfolding set_append ih(5) lookup by (auto split: if_splits)
    moreover have "distinct ?new" using ih(4) pos unfolding distinct_append ih(5) lookup by auto
    moreover have "map_of deg' w = map_option (\<lambda>c. c - count_list ((a, v) # es) (u, w)) (map_of deg w)" for w
      using c a unfolding ih(3) lookup by simp
    moreover have "relax_names u ((a, v) # es) deg q = Some (deg', q @ ?new)" using a c pos ih(1) by simp
    moreover have "map fst deg' = map fst deg" using ih(2) update_keys [of deg v "c - 1"] c by simp
    ultimately show ?thesis by blast
  qed
qed

definition sort_inv ::
    "string list \<Rightarrow> (string \<times> string) list \<Rightarrow> (string \<times> nat) list \<Rightarrow> string list \<Rightarrow> string list \<Rightarrow> bool" where
  "sort_inv keys es deg q order \<longleftrightarrow>
     map fst deg = keys \<and> distinct (order @ q) \<and> set (order @ q) \<subseteq> set keys \<and> forward_names (set es) order \<and>
     (\<forall>v \<in> set keys. map_of deg v = Some (pending es (set order) v)) \<and>
     (\<forall>v \<in> set keys. v \<in> set (order @ q) \<longleftrightarrow> pending es (set order) v = 0)"

lemma sort_inv_step:
  assumes inv: "sort_inv keys es deg (u # q) order"
  obtains deg' q' where "relax_names u es deg q = Some (deg', q')" "sort_inv keys es deg' q' (order @ [u])"
proof -
  have i: "map fst deg = keys" "distinct (order @ u # q)" "set (order @ u # q) \<subseteq> set keys" "forward_names (set es) order"
    "\<And>v. v \<in> set keys \<Longrightarrow> map_of deg v = Some (pending es (set order) v)"
    "\<And>v. v \<in> set keys \<Longrightarrow> v \<in> set (order @ u # q) \<longleftrightarrow> pending es (set order) v = 0"
    using inv by (auto simp: sort_inv_def)
  have u: "u \<notin> set order" "u \<in> set keys" using i(2,3) by auto
  have pend: "pending es (set order) v = pending es (insert u (set order)) v + count_list es (u, v)" for v
    by (rule pending_insert [OF u(1)])
  have key: "v \<in> set keys" if "map_of deg v = Some c" for v c using map_of_SomeD [OF that] i(1) by force
  have "count_list es (u, v) \<le> c" if "map_of deg v = Some c" for v c
    using i(5) [OF key [OF that]] that pend [of v] by simp
  from relax_names_ok [of deg es u q, OF this] obtain deg' new where r:
    "relax_names u es deg q = Some (deg', q @ new)" "map fst deg' = keys"
    "\<And>v. map_of deg' v = map_option (\<lambda>c. c - count_list es (u, v)) (map_of deg v)" "distinct new"
    "set new = {v. \<exists>c. map_of deg v = Some c \<and> c = count_list es (u, v) \<and> 0 < c}" using i(1) by blast
  have new: "v \<in> set new \<longleftrightarrow> v \<in> set keys \<and> pending es (set order) v = count_list es (u, v) \<and> 0 < pending es (set order) v" for v
    unfolding r(5) using i(5) [of v] key [of v] by auto
  have disj: "set new \<inter> set (order @ u # q) = {}"
  proof (rule ccontr)
    assume "set new \<inter> set (order @ u # q) \<noteq> {}"
    then obtain v where "v \<in> set new" "v \<in> set (order @ u # q)" by blast
    with new [of v] i(6) [of v] show False by simp
  qed
  have "sort_inv keys es deg' (q @ new) (order @ [u])"
    unfolding sort_inv_def
  proof (intro conjI ballI)
    show "distinct ((order @ [u]) @ q @ new)" using i(2) r(4) disj by auto
    show "set ((order @ [u]) @ q @ new) \<subseteq> set keys" using i(3) new by auto
    show "forward_names (set es) (order @ [u])"
      using i(4) i(6) [OF u(2)] pending_zero [of es "set order" u] by (simp add: forward_names_snoc)
  next
    fix v assume v: "v \<in> set keys"
    show "map_of deg' v = Some (pending es (set (order @ [u])) v)" using i(5) [OF v] pend [of v] by (simp add: r(3))
    show "v \<in> set ((order @ [u]) @ q @ new) \<longleftrightarrow> pending es (set (order @ [u])) v = 0"
      using i(6) [OF v] new [of v] pend [of v] v by auto
  qed (rule r(2))
  with r(1) that show thesis by blast
qed

lemma sort_names_ok:
  "sort_inv keys es deg q order \<Longrightarrow>
   \<exists>order' deg'. sort_names es deg q order = Some order' \<and> sort_inv keys es deg' [] order'"
proof (induction es deg q order rule: sort_names.induct)
  case (2 es deg u q order)
  from sort_inv_step [OF "2.prems"] obtain deg' q' where
    "relax_names u es deg q = Some (deg', q')" "sort_inv keys es deg' q' (order @ [u])" .
  with "2.IH" [of "(deg', q')" deg' q'] show ?case by simp
qed auto

lemma zero_degrees: "v \<in> fst ` set ns \<Longrightarrow> map_of (map (\<lambda>(name, _). (name, 0 :: nat)) ns) v = Some 0"
  by (induction ns) auto

lemma link_topological_order_ok:
  assumes ho: "orders_ok ho" and dist: "distinct (map fst (tp_nodes t))" and known: "endpoints_known t"
    and acyc: "acyclic (set (name_pairs t))"
  obtains order where "link_topological_order ho t = Some (Some order)" "distinct order"
    "set order = fst ` set (tp_nodes t)" "forward_names (set (name_pairs t)) order"
proof -
  let ?es = "name_pairs t" and ?keys = "map fst (tp_nodes t)"
  let ?zero = "map (\<lambda>(name, _). (name, 0 :: nat)) (tp_nodes t)"
  let ?deg = "count_edges ?es ?zero"
  let ?q = "map fst (filter (\<lambda>(_, c). c = 0) (ho_degrees ho ?deg))"
  have zero: "map fst ?zero = ?keys" by (simp add: case_prod_unfold o_def)
  have deg: "map fst ?deg = ?keys" "\<And>v. map_of ?deg v = map_option (\<lambda>c. c + pending ?es {} v) (map_of ?zero v)"
    using count_edges_ok [of ?es ?zero] zero by auto
  have z: "map_of ?zero v = Some 0" if "v \<in> set ?keys" for v using that zero_degrees [of v "tp_nodes t"] by simp
  then have degs: "map_of ?deg v = Some (pending ?es {} v)" if "v \<in> set ?keys" for v using that by (simp add: deg(2))
  have mem: "(v, c) \<in> set ?deg \<longleftrightarrow> v \<in> set ?keys \<and> c = pending ?es {} v" for v c
  proof -
    have "(v, c) \<in> set ?deg \<longleftrightarrow> map_of ?deg v = Some c" using dist deg(1) by (simp add: map_of_eq_Some_iff)
    moreover have "v \<in> set ?keys" if "map_of ?deg v = Some c" using imageI [OF map_of_SomeD [OF that], of fst] unfolding deg(1) [symmetric] set_map fst_conv .
    ultimately show ?thesis using degs [of v] by auto
  qed
  have perm: "mset (map fst (ho_degrees ho ?deg)) = mset ?keys" using ho deg(1) by (metis orders_ok_def mset_map)
  then have "distinct (map fst (ho_degrees ho ?deg))" using dist by (metis mset_eq_imp_distinct_iff)
  then have dq: "distinct ?q" by (simp add: distinct_map_filter)
  have sq: "v \<in> set ?q \<longleftrightarrow> v \<in> set ?keys \<and> pending ?es {} v = 0" for v
  proof -
    have zero: "v \<in> set (map fst (filter (\<lambda>(_, c). c = (0 :: nat)) xs)) \<longleftrightarrow> (v, 0) \<in> set xs" for xs by (induction xs) auto
    show ?thesis unfolding zero orders_ok_set(2) [OF ho] mem by (simp only: eq_commute [of 0])
  qed
  have "sort_inv ?keys ?es ?deg ?q []"
    unfolding sort_inv_def
  proof (intro conjI ballI)
    show "distinct ([] @ ?q)" using dq by simp
    show "set ([] @ ?q) \<subseteq> set ?keys" using sq by auto
    show "v \<in> set ([] @ ?q) \<longleftrightarrow> pending ?es (set []) v = 0" if "v \<in> set ?keys" for v using sq [of v] that by simp
  qed (use deg(1) degs in \<open>simp_all add: forward_names_def\<close>)
  from sort_names_ok [OF this] obtain order deg' where
    run: "sort_names ?es ?deg ?q [] = Some order" and inv: "sort_inv ?keys ?es deg' [] order" by blast
  have o: "distinct order" "set order \<subseteq> set ?keys" "forward_names (set ?es) order"
    "\<And>v. v \<in> set ?keys \<Longrightarrow> v \<in> set order \<longleftrightarrow> pending ?es (set order) v = 0" using inv by (auto simp: sort_inv_def)
  have all: "set order = set ?keys"
  proof (rule ccontr)
    assume "set order \<noteq> set ?keys"
    then have ne: "set ?keys - set order \<noteq> {}" using o(2) by blast
    have "\<exists>u \<in> set ?keys - set order. (u, v) \<in> set ?es" if "v \<in> set ?keys - set order" for v
    proof -
      from that o(4) [of v] have "pending ?es (set order) v \<noteq> 0" by blast
      then obtain u where u: "(u, v) \<in> set ?es" "u \<notin> set order" unfolding pending_zero by blast
      then have "has_node t u" using known by (auto simp: endpoints_known_def)
      with u show ?thesis by (auto simp: has_node_iff)
    qed
    from no_first_cyclic [OF _ ne this] have "\<not> acyclic (set ?es \<inter> (set ?keys - set order) \<times> (set ?keys - set order))" by simp
    with acyc show False by (meson acyclic_subset inf_le1)
  qed
  then have "length order = length (tp_nodes t)" using o(1) dist by (metis distinct_card length_map)
  with run all o that show thesis by (simp add: link_topological_order_def Let_def)
qed

end
