(* ===== verification/Lnk_Link.thy ===== *)
theory Lnk_Link
  imports Lnk_Graph
begin

text \<open>
  What the linker accepts: the conditions of the validation, of the imports and of the grants, and that
  each check adds an error exactly when its condition fails.
\<close>

section \<open>Reports\<close>

definition adds_errors :: "link_report \<Rightarrow> link_report \<Rightarrow> bool \<Rightarrow> bool" where
  "adds_errors r r' C \<longleftrightarrow> (\<exists>new. lr_errors r' = lr_errors r @ new \<and> (new = [] \<longleftrightarrow> C))"

lemma adds_errors_refl: "C \<Longrightarrow> adds_errors r r C"
  by (simp add: adds_errors_def)

lemma adds_errors_trans: "adds_errors r r' C \<Longrightarrow> adds_errors r' r'' D \<Longrightarrow> adds_errors r r'' (C \<and> D)"
  by (auto simp: adds_errors_def)

lemma adds_errors_cong: "adds_errors r r' C \<Longrightarrow> C = D \<Longrightarrow> adds_errors r r' D"
  by simp

lemma adds_errors_if: "adds_errors r (if C then r else push_error d r) C" "adds_errors r (if B then push_error d r else r) (\<not> B)"
  by (auto simp: adds_errors_def push_error_def)

lemma adds_errors_ok: "adds_errors r r' C \<Longrightarrow> lr_errors r' = [] \<longleftrightarrow> lr_errors r = [] \<and> C"
  by (auto simp: adds_errors_def)

section \<open>Validation\<close>

lemma check_endpoints_adds:
  "adds_errors r (check_endpoints t es r) (\<forall>e \<in> set es. has_node t (te_from_node e) \<and> has_node t (te_to_node e))"
proof (induction t es r rule: check_endpoints.induct)
  case (1 t r)
  then show ?case by (simp add: adds_errors_refl)
next
  case (2 t e es r)
  show ?case unfolding check_endpoints.simps Let_def
    by (rule adds_errors_cong [OF adds_errors_trans [OF adds_errors_trans [OF adds_errors_if(1) adds_errors_if(1)]
            "2.IH" [OF refl refl refl refl]]]) auto
qed

lemma check_connected_adds:
  "adds_errors r (check_connected connected ns r) (\<forall>(n, _) \<in> set ns. n \<in> connected)"
proof (induction connected ns r rule: check_connected.induct)
  case (1 connected r)
  then show ?case by (simp add: adds_errors_refl)
next
  case (2 connected name node ns r)
  show ?case unfolding check_connected.simps
    by (rule adds_errors_cong [OF adds_errors_trans [OF adds_errors_if(1) "2.IH"]]) auto
qed

lemma check_role_edges_adds:
  "adds_errors r (check_role_edges incoming outgoing ns r)
     (\<forall>(n, node) \<in> set ns. \<not> (tn_role node = Source \<and> 0 < opt_or (map_of incoming n) 0) \<and>
        \<not> (tn_role node = Sink \<and> 0 < opt_or (map_of outgoing n) 0))"
proof (induction incoming outgoing ns r rule: check_role_edges.induct)
  case (1 incoming outgoing r)
  then show ?case by (simp add: adds_errors_refl)
next
  case (2 incoming outgoing name node ns r)
  show ?case unfolding check_role_edges.simps Let_def
    by (rule adds_errors_cong [OF adds_errors_trans [OF adds_errors_trans [OF adds_errors_if(2) adds_errors_if(2)]
            "2.IH" [OF refl refl refl refl]]]) auto
qed

lemma check_port_limits_adds:
  "adds_errors r (check_port_limits kind fan neighbour option_name limit cs r) (\<forall>(p, count) \<in> set cs. count \<le> limit)"
proof (induction kind fan neighbour option_name limit cs r rule: check_port_limits.induct)
  case (1 kind fan neighbour option_name limit r)
  then show ?case by (simp add: adds_errors_refl)
next
  case (2 kind fan neighbour option_name limit node port count cs r)
  show ?case unfolding check_port_limits.simps
    by (rule adds_errors_cong [OF adds_errors_trans [OF adds_errors_if(2) "2.IH"]]) auto
qed

definition ports_ok :: "nat \<Rightarrow> (string \<times> string) list \<Rightarrow> bool" where
  "ports_ok limit ps \<longleftrightarrow> (\<forall>p \<in> set ps. count_list ps p \<le> limit)"

lemma tally_ports_ok: "(\<forall>(p, count) \<in> set (tally ps). count \<le> limit) \<longleftrightarrow> ports_ok limit ps"
  by (auto simp: set_tally ports_ok_def)

definition link_ok :: "topology \<Rightarrow> bool" where
  "link_ok t \<longleftrightarrow>
     tp_name t \<noteq> [] \<and> tp_nodes t \<noteq> [] \<and> endpoints_known t \<and>
     (\<forall>(n, node) \<in> set (tp_nodes t). (\<exists>m. (n, m) \<in> set (name_pairs t) \<or> (m, n) \<in> set (name_pairs t)) \<and>
        (tn_role node = Source \<longrightarrow> (\<forall>m. (m, n) \<notin> set (name_pairs t))) \<and>
        (tn_role node = Sink \<longrightarrow> (\<forall>m. (n, m) \<notin> set (name_pairs t)))) \<and>
     acyclic (set (name_pairs t)) \<and>
     ports_ok (tp_max_fan_out t) (map (\<lambda>e. (te_from_node e, te_from_port e)) (tp_edges t)) \<and>
     ports_ok (tp_max_fan_in t) (map (\<lambda>e. (te_to_node e, te_to_port e)) (tp_edges t))"

lemma tally_zero: "0 < opt_or (map_of (tally ks) k) 0 \<longleftrightarrow> k \<in> set ks"
  using fold_bump [of "[]" ks k] by (auto simp: tally_def opt_or_def count_list_0_iff neq0_conv [symmetric] simp del: neq0_conv)

lemma edge_ends:
  "n \<in> set (map te_to_node (tp_edges t)) \<longleftrightarrow> (\<exists>m. (m, n) \<in> set (name_pairs t))"
  "n \<in> set (map te_from_node (tp_edges t)) \<longleftrightarrow> (\<exists>m. (n, m) \<in> set (name_pairs t))"
  by (auto simp: name_pairs_def)

lemma endpoints_known_eq:
  "endpoints_known t \<longleftrightarrow> (\<forall>e \<in> set (tp_edges t). has_node t (te_from_node e) \<and> has_node t (te_to_node e))"
  by (auto simp: endpoints_known_def name_pairs_def)

lemma link_validate_ok:
  assumes ho: "orders_ok ho"
  shows "link_report_is_ok (link_validate ho t) \<longleftrightarrow> link_ok t"
proof (cases "tp_nodes t = []")
  case True
  then show ?thesis by (simp add: link_validate_def link_ok_def link_report_is_ok_def push_error_def)
next
  case False
  let ?r0 = "if tp_name t = [] then push_error (topology_error ''Pipeline name must be non-empty.'' None None None) link_report_new
    else link_report_new"
  let ?r1 = "check_endpoints t (tp_edges t) ?r0"
  let ?conn = "set (concat (map (\<lambda>e. [te_from_node e, te_to_node e]) (tp_edges t)))"
  let ?ns = "ho_nodes ho (tp_nodes t)"
  let ?r2 = "check_connected ?conn ?ns ?r1"
  let ?r3 = "check_role_edges (compute_incoming_counts t) (compute_outgoing_counts t) ?ns ?r2"
  let ?r4 = "case detect_cycle ho t of Some cycle \<Rightarrow> push_error (cycle_diagnostic cycle) ?r3 | None \<Rightarrow> ?r3"
  let ?outs = "ho_ports ho (tally (map (\<lambda>e. (te_from_node e, te_from_port e)) (tp_edges t)))"
  let ?r5 = "check_port_limits ''Output'' ''fan-out'' ''downstream'' ''max_fan_out'' (tp_max_fan_out t) ?outs ?r4"
  have conn: "n \<in> ?conn \<longleftrightarrow> (\<exists>m. (n, m) \<in> set (name_pairs t) \<or> (m, n) \<in> set (name_pairs t))" for n
    by (auto simp: name_pairs_def)
  have r0: "lr_errors ?r0 = [] \<longleftrightarrow> tp_name t \<noteq> []" by (simp add: link_report_new_def push_error_def)
  note r1 = adds_errors_ok [OF check_endpoints_adds, of t "tp_edges t" ?r0, unfolded r0, folded endpoints_known_eq]
  note r2 = adds_errors_ok [OF check_connected_adds, of ?conn ?ns ?r1, unfolded r1 conn orders_ok_set [OF ho]]
  note r3 = adds_errors_ok [OF check_role_edges_adds, of "compute_incoming_counts t" "compute_outgoing_counts t" ?ns ?r2,
      unfolded r2 orders_ok_set [OF ho] compute_incoming_counts_def compute_outgoing_counts_def tally_zero edge_ends,
      folded compute_incoming_counts_def compute_outgoing_counts_def]
  have r4: "lr_errors ?r4 = [] \<longleftrightarrow> lr_errors ?r3 = [] \<and> detect_cycle ho t = None"
    by (auto simp: push_error_def split: option.split)
  note r5 = adds_errors_ok [OF check_port_limits_adds, of "''Output''" "''fan-out''" "''downstream''" "''max_fan_out''"
      "tp_max_fan_out t" ?outs ?r4, unfolded orders_ok_set [OF ho] tally_ports_ok r4]
  note r6 = adds_errors_ok [OF check_port_limits_adds, of "''Input''" "''fan-in''" "''upstream''" "''max_fan_in''"
      "tp_max_fan_in t" "ho_ports ho (tally (map (\<lambda>e. (te_to_node e, te_to_port e)) (tp_edges t)))" ?r5,
      unfolded orders_ok_set [OF ho] tally_ports_ok r5]
  have run: "link_report_is_ok (link_validate ho t) \<longleftrightarrow>
      lr_errors (check_port_limits ''Input'' ''fan-in'' ''upstream'' ''max_fan_in'' (tp_max_fan_in t)
        (ho_ports ho (tally (map (\<lambda>e. (te_to_node e, te_to_port e)) (tp_edges t)))) ?r5) = []"
    unfolding link_validate_def Let_def link_check_fan_limits_def link_report_is_ok_def using False by (simp only: if_False)
  have acyc: "detect_cycle ho t = None \<longleftrightarrow> acyclic (set (name_pairs t))" if "endpoints_known t"
    using detect_cycle_iff [OF ho that] closed_walk_cyclic by (auto split: option.splits)
  show ?thesis
  proof (cases "endpoints_known t")
    case True
    show ?thesis unfolding run r6 r3 link_ok_def acyc [OF True] using False True by auto
  next
    case no: False
    then show ?thesis unfolding run r6 r3 link_ok_def by simp
  qed
qed


section \<open>Imports\<close>

definition host_interface :: "string \<Rightarrow> bool" where
  "host_interface i \<longleftrightarrow> list_ex (\<lambda>w. str_contains i w \<or> i = w) (host_provided_wasi @ host_provided_torvyn)"

definition providers :: "topology \<Rightarrow> interfaces \<Rightarrow> string \<Rightarrow> string \<Rightarrow> string list" where
  "providers t exports node i = filter (exports_import exports i) (upstreams t node)"

definition import_ok :: "topology \<Rightarrow> interfaces \<Rightarrow> string \<Rightarrow> string \<Rightarrow> bool" where
  "import_ok t exports node i \<longleftrightarrow> host_interface i \<or> length (providers t exports node i) = 1"

text \<open>An acceptable resolution: of a host interface by the host, of another one by its only provider.\<close>

definition resolves_to :: "topology \<Rightarrow> interfaces \<Rightarrow> string \<Rightarrow> string \<Rightarrow> import_resolution \<Rightarrow> bool" where
  "resolves_to t exports node i res \<longleftrightarrow>
     (case res of
        HostWasi j _ \<Rightarrow> j = i \<and> host_interface i
      | HostTorvyn j \<Rightarrow> j = i \<and> host_interface i
      | StreamConnection p j \<Rightarrow> j = i \<and> \<not> host_interface i \<and> providers t exports node i = [p])"

lemma resolve_single_import_cases:
  obtains (resolved) res where "resolve_single_import t exports node i r = (Some res, r)" "import_ok t exports node i"
      "resolves_to t exports node i res"
  | (ambiguous) res r' where "resolve_single_import t exports node i r = (Some res, r')" "\<not> import_ok t exports node i"
      "adds_errors r r' False"
  | (missing) "resolve_single_import t exports node i r = (None, r)" "\<not> import_ok t exports node i"
proof -
  let ?wasi = "list_ex (\<lambda>w. str_contains i w \<or> i = w) host_provided_wasi"
  let ?torvyn = "list_ex (\<lambda>w. str_contains i w \<or> i = w) host_provided_torvyn"
  have host: "host_interface i \<longleftrightarrow> ?wasi \<or> ?torvyn" by (auto simp: host_interface_def)
  note run = resolve_single_import_def [of t exports node i r, folded providers_def]
  consider (wasi) ?wasi | (torvyn) "\<not> ?wasi" ?torvyn | (none) "\<not> ?wasi" "\<not> ?torvyn" by blast
  then show thesis
  proof cases
    case wasi
    then show thesis by (intro resolved [OF run [unfolded if_P [OF wasi]]]) (simp_all add: import_ok_def host resolves_to_def)
  next
    case torvyn
    then show thesis
      by (intro resolved [OF run [unfolded if_not_P [OF torvyn(1)] if_P [OF torvyn(2)]]])
        (simp_all add: import_ok_def host resolves_to_def)
  next
    case none
    note run = run [unfolded if_not_P [OF none(1)] if_not_P [OF none(2)]]
    show thesis
    proof (cases "providers t exports node i")
      case Nil
      with run none show thesis by (intro missing) (simp_all add: import_ok_def host)
    next
      case (Cons p ps)
      show thesis
      proof (cases ps)
        case Nil
        have nohost: "\<not> host_interface i" using none by (simp add: host)
        from run Nil none Cons show thesis
          by (intro resolved [of "StreamConnection p i"]) (simp_all add: import_ok_def resolves_to_def nohost)
      next
        case two: (Cons q qs)
        with run none Cons show thesis
          by (intro ambiguous) (auto simp: import_ok_def host adds_errors_def push_error_def)
      qed
    qed
  qed
qed

lemma resolve_component_ok:
  "case resolve_component t exports node ims resolved unresolved r of (c, r') \<Rightarrow>
     cr_component_name c = node \<and> adds_errors r r' (\<forall>i \<in> set ims. import_ok t exports node i) \<and>
     ((\<forall>i \<in> set ims. import_ok t exports node i) \<longrightarrow>
        cr_unresolved c = unresolved \<and>
        (\<forall>i. if i \<in> set ims then \<exists>res. cr_resolved_imports c i = Some res \<and> resolves_to t exports node i res
             else cr_resolved_imports c i = resolved i))"
proof (induction ims arbitrary: resolved unresolved r)
  case Nil
  then show ?case by (simp add: adds_errors_refl)
next
  case (Cons i ims)
  show ?case
  proof (cases rule: resolve_single_import_cases [of t exports node i r])
    case (resolved res)
    obtain c r' where run: "resolve_component t exports node ims (resolved(i \<mapsto> res)) unresolved r = (c, r')" by fastforce
    from Cons.IH [where resolved = "resolved(i \<mapsto> res)" and unresolved = unresolved and r = r, unfolded run] resolved run show ?thesis by (auto split: if_splits)
  next
    case (ambiguous res r1)
    obtain c r' where run: "resolve_component t exports node ims (resolved(i \<mapsto> res)) unresolved r1 = (c, r')" by fastforce
    from Cons.IH [where resolved = "resolved(i \<mapsto> res)" and unresolved = unresolved and r = r1, unfolded run] ambiguous run adds_errors_trans [OF ambiguous(3)] show ?thesis by fastforce
  next
    case missing
    let ?r1 = "push_error (unresolved_diagnostic node i) r"
    obtain c r' where run: "resolve_component t exports node ims resolved (unresolved @ [i]) ?r1 = (c, r')" by fastforce
    have full: "resolve_component t exports node (i # ims) resolved unresolved r = (c, r')" using missing(1) run by simp
    have add: "adds_errors r ?r1 False" by (simp add: adds_errors_def push_error_def)
    from Cons.IH [where resolved = resolved and unresolved = "unresolved @ [i]" and r = ?r1, unfolded run] adds_errors_trans [OF add] missing(2) show ?thesis
      unfolding full by fastforce
  qed
qed

definition node_imports_ok :: "topology \<Rightarrow> interfaces \<Rightarrow> interfaces \<Rightarrow> string \<Rightarrow> bool" where
  "node_imports_ok t imports exports node \<longleftrightarrow>
     (\<forall>is. imports node = Some is \<longrightarrow> (\<forall>i \<in> set is. import_ok t exports node i))"

text \<open>All imports of a component, and nothing else, are resolved.\<close>

definition resolved_all ::
    "topology \<Rightarrow> interfaces \<Rightarrow> interfaces \<Rightarrow> string \<Rightarrow> (string \<Rightarrow> import_resolution option) \<Rightarrow> bool" where
  "resolved_all t imports exports node f \<longleftrightarrow>
     (\<forall>i. if i \<in> set (opt_or (imports node) []) then \<exists>res. f i = Some res \<and> resolves_to t exports node i res else f i = None)"

lemma resolve_imports_ok:
  "case resolve_imports t imports exports order r of (cs, r') \<Rightarrow>
     map cr_component_name cs = order \<and> adds_errors r r' (\<forall>n \<in> set order. node_imports_ok t imports exports n) \<and>
     ((\<forall>n \<in> set order. node_imports_ok t imports exports n) \<longrightarrow>
        (\<forall>c \<in> set cs. resolved_all t imports exports (cr_component_name c) (cr_resolved_imports c)))"
proof (induction order arbitrary: r)
  case Nil
  then show ?case by (simp add: adds_errors_refl)
next
  case (Cons n order)
  obtain c r1 where one: "(case imports n of
        None \<Rightarrow> (\<lparr>cr_component_name = n, cr_resolved_imports = (\<lambda>_. None), cr_unresolved = []\<rparr>, r)
      | Some is \<Rightarrow> resolve_component t exports n is (\<lambda>_. None) [] r) = (c, r1)" by fastforce
  obtain cs r' where rest: "resolve_imports t imports exports order r1 = (cs, r')" by fastforce
  have c: "cr_component_name c = n" "adds_errors r r1 (node_imports_ok t imports exports n)"
    "node_imports_ok t imports exports n \<Longrightarrow> resolved_all t imports exports n (cr_resolved_imports c)"
  proof (atomize (full), cases "imports n")
    case None
    with one show "cr_component_name c = n \<and> adds_errors r r1 (node_imports_ok t imports exports n) \<and>
        (node_imports_ok t imports exports n \<longrightarrow> resolved_all t imports exports n (cr_resolved_imports c))"
      by (auto simp: node_imports_ok_def resolved_all_def opt_or_def adds_errors_refl)
  next
    case (Some "is")
    with one resolve_component_ok [where t = t and exports = exports and node = n and ims = "is" and resolved = "\<lambda>_. None" and unresolved = "[]" and r = r]
    show "cr_component_name c = n \<and> adds_errors r r1 (node_imports_ok t imports exports n) \<and>
        (node_imports_ok t imports exports n \<longrightarrow> resolved_all t imports exports n (cr_resolved_imports c))"
      by (auto simp: node_imports_ok_def resolved_all_def opt_or_def)
  qed
  have run: "resolve_imports t imports exports (n # order) r = (c # cs, r')"
    by (simp only: resolve_imports.simps Let_def one rest prod.case)
  from Cons.IH [of r1, unfolded rest] c adds_errors_trans [OF c(2)] show ?case unfolding run by auto
qed

section \<open>Grants\<close>

definition node_grants_ok :: "interfaces \<Rightarrow> string \<Rightarrow> topology_node \<Rightarrow> bool" where
  "node_grants_ok imports n node \<longleftrightarrow>
     (\<forall>is. imports n = Some is \<longrightarrow> (\<forall>i \<in> set is. \<forall>(w, capability) \<in> set wasi_to_capability.
        str_contains i w \<longrightarrow> capability \<in> cg_name ` set (tn_capability_grants node)))"

lemma check_import_grants_adds:
  "adds_errors r (check_import_grants n grants i ws r) (\<forall>(w, capability) \<in> set ws. str_contains i w \<longrightarrow> capability \<in> grants)"
proof (induction n grants i ws r rule: check_import_grants.induct)
  case (1 n grants i r)
  then show ?case by (simp add: adds_errors_refl)
next
  case (2 n grants i w capability ws r)
  show ?case unfolding check_import_grants.simps
    by (rule adds_errors_cong [OF adds_errors_trans [OF adds_errors_if(2) "2.IH"]]) auto
qed

lemma fold_import_grants_adds:
  "adds_errors r (fold (\<lambda>i. check_import_grants n grants i ws) is r)
     (\<forall>i \<in> set is. \<forall>(w, capability) \<in> set ws. str_contains i w \<longrightarrow> capability \<in> grants)"
proof (induction "is" arbitrary: r)
  case (Cons i "is")
  show ?case unfolding fold_simps
    by (rule adds_errors_cong [OF adds_errors_trans [OF check_import_grants_adds Cons.IH]]) auto
qed (simp add: adds_errors_refl)

lemma check_node_grants_adds:
  "adds_errors r (check_node_grants imports ns r) (\<forall>(n, node) \<in> set ns. node_grants_ok imports n node)"
proof (induction ns arbitrary: r)
  case (Cons p ns)
  obtain n node where p: "p = (n, node)" by fastforce
  let ?grants = "set (map cg_name (tn_capability_grants node))"
  show ?case
  proof (cases "imports n")
    case None
    with Cons.IH [of r] show ?thesis by (simp add: node_grants_ok_def p)
  next
    case (Some "is")
    have "adds_errors r (check_node_grants imports ns (fold (\<lambda>i. check_import_grants n ?grants i wasi_to_capability) is r))
        ((\<forall>i \<in> set is. \<forall>(w, capability) \<in> set wasi_to_capability. str_contains i w \<longrightarrow> capability \<in> ?grants) \<and>
         (\<forall>(n, node) \<in> set ns. node_grants_ok imports n node))"
      by (rule adds_errors_trans [OF fold_import_grants_adds Cons.IH])
    with Some show ?thesis by (simp add: node_grants_ok_def p case_prod_unfold)
  qed
qed (simp add: adds_errors_refl)

end
