(* ===== verification/Lnk_Props.thy ===== *)
theory Lnk_Props
  imports Lnk_Link
begin

text \<open>What linking guarantees: it succeeds on exactly the pipelines that satisfy the three groups of conditions.\<close>

section \<open>Assembly\<close>

lemma linked_connections_ok:
  "case linked_connections first es of (cs, next') \<Rightarrow>
     length cs = length es \<and> next' = first + of_nat (length es) \<and>
     (\<forall>k < length es. ln_stream_id (cs ! k) = StreamId (first + of_nat k) \<and>
        ln_from_component (cs ! k) = te_from_node (es ! k) \<and> ln_from_port (cs ! k) = te_from_port (es ! k) \<and>
        ln_to_component (cs ! k) = te_to_node (es ! k) \<and> ln_to_port (cs ! k) = te_to_port (es ! k) \<and>
        ln_queue_depth (cs ! k) = te_queue_depth (es ! k) \<and>
        ln_backpressure_policy (cs ! k) = te_backpressure_policy (es ! k))"
proof (induction es arbitrary: first)
  case (Cons e es)
  obtain cs next' where r: "linked_connections (first + 1) es = (cs, next')" by fastforce
  note ih = Cons.IH [of "first + 1", unfolded r]
  show ?case unfolding linked_connections.simps Let_def r prod.case
  proof (intro conjI allI impI)
    fix k assume k: "k < length (e # es)"
    note ihk = ih [unfolded prod.case, THEN conjunct2, THEN conjunct2, rule_format]
    show "ln_stream_id ((\<lparr>ln_stream_id = StreamId first, ln_from_component = te_from_node e, ln_from_port = te_from_port e,
        ln_to_component = te_to_node e, ln_to_port = te_to_port e, ln_queue_depth = te_queue_depth e,
        ln_backpressure_policy = te_backpressure_policy e\<rparr> # cs) ! k) = StreamId (first + of_nat k)"
      using k ihk [of "k - 1"] by (cases k) (simp_all add: algebra_simps)
  qed (use ih in \<open>auto simp: nth_Cons' algebra_simps\<close>)
qed simp

text \<open>A linked component carries what the topology says of its node, and the imports that \<open>f\<close> gives it.\<close>

definition component_of ::
    "topology \<Rightarrow> (string \<Rightarrow> (string \<Rightarrow> import_resolution option) \<Rightarrow> bool) \<Rightarrow> linked_component \<Rightarrow> bool" where
  "component_of t f c \<longleftrightarrow>
     (\<exists>node. map_of (tp_nodes t) (lc_name c) = Some node \<and> lc_role c = tn_role node \<and>
        lc_artifact_path c = tn_artifact_path node \<and> lc_capability_grants c = tn_capability_grants node \<and>
        lc_config c = tn_config node \<and> f (lc_name c) (lc_resolved_imports c))"

lemma linked_components_ok:
  assumes "set order \<subseteq> fst ` set (tp_nodes t)" and "set order \<subseteq> cr_component_name ` set resolution"
    and f: "\<And>c. c \<in> set resolution \<Longrightarrow> f (cr_component_name c) (cr_resolved_imports c)"
  shows "\<exists>cs. linked_components t resolution order = Some cs \<and> map lc_name cs = order \<and> (\<forall>c \<in> set cs. component_of t f c)"
  using assms(1,2)
proof (induction order)
  case (Cons n order)
  then obtain cs where cs: "linked_components t resolution order = Some cs" "map lc_name cs = order"
    "\<forall>c \<in> set cs. component_of t f c" by auto
  from Cons.prems(1) obtain node where node: "map_of (tp_nodes t) n = Some node"
    by (metis insert_subset list.simps(15) map_of_eq_None_iff option.exhaust)
  from Cons.prems(2) have "List.find (\<lambda>c. cr_component_name c = n) resolution \<noteq> None"
    unfolding find_None_iff by auto
  then obtain c where c: "List.find (\<lambda>c. cr_component_name c = n) resolution = Some c" by blast
  then have "c \<in> set resolution" "cr_component_name c = n" by (auto simp: find_Some_iff)
  with f [of c] c node cs show ?case by (auto simp: component_of_def Let_def)
qed simp

definition pipeline_linked ::
    "topology \<Rightarrow> u64 \<Rightarrow> (string \<Rightarrow> (string \<Rightarrow> import_resolution option) \<Rightarrow> bool) \<Rightarrow> linked_pipeline \<Rightarrow> bool" where
  "pipeline_linked t first f p \<longleftrightarrow>
     lp_name p = tp_name t \<and> distinct (lp_topological_order p) \<and>
     set (lp_topological_order p) = fst ` set (tp_nodes t) \<and>
     forward_names (set (name_pairs t)) (lp_topological_order p) \<and>
     map lc_name (lp_components p) = lp_topological_order p \<and> (\<forall>c \<in> set (lp_components p). component_of t f c) \<and>
     length (lp_connections p) = length (tp_edges t) \<and>
     (\<forall>k < length (tp_edges t).
        ln_stream_id (lp_connections p ! k) = StreamId (first + of_nat k) \<and>
        ln_from_component (lp_connections p ! k) = te_from_node (tp_edges t ! k) \<and>
        ln_to_component (lp_connections p ! k) = te_to_node (tp_edges t ! k))"

lemma build_linked_ok:
  assumes "distinct order" and "set order = fst ` set (tp_nodes t)" and "forward_names (set (name_pairs t)) order"
    and "map cr_component_name resolution = order"
    and "\<And>c. c \<in> set resolution \<Longrightarrow> f (cr_component_name c) (cr_resolved_imports c)"
  shows "\<exists>p. build_linked_pipeline t order resolution first = Some (p, first + of_nat (length (tp_edges t))) \<and>
    pipeline_linked t first f p"
proof -
  have "set order \<subseteq> cr_component_name ` set resolution" using assms(4) by auto
  then obtain cs where cs: "linked_components t resolution order = Some cs" "map lc_name cs = order"
    "\<forall>c \<in> set cs. component_of t f c" using linked_components_ok [of order t resolution f] assms(2,5) by auto
  obtain ls next' where ls: "linked_connections first (tp_edges t) = (ls, next')" by fastforce
  from linked_connections_ok [of "tp_edges t" first, unfolded ls] cs ls assms(1-3) show ?thesis
    by (simp add: build_linked_pipeline_def pipeline_linked_def)
qed

section \<open>Linking\<close>

definition imports_ok :: "topology \<Rightarrow> interfaces \<Rightarrow> interfaces \<Rightarrow> bool" where
  "imports_ok t imports exports \<longleftrightarrow> (\<forall>n \<in> fst ` set (tp_nodes t). node_imports_ok t imports exports n)"

definition grants_ok :: "topology \<Rightarrow> interfaces \<Rightarrow> bool" where
  "grants_ok t imports \<longleftrightarrow> (\<forall>(n, node) \<in> set (tp_nodes t). node_grants_ok imports n node)"

text \<open>
  C29. Linking is exact. For every topology, whose nodes have distinct names, and in whatever order the
  hash maps are walked, linking answers without a panic. It succeeds exactly when the topology is a
  connected acyclic graph of known nodes that respects roles and port limits, every import is an interface
  of the host or exported along exactly one incoming edge, and every gated import is granted. The linked
  pipeline then has every component once, producers before consumers, with the role, configuration and
  grants of its node and exactly its imports resolved, and one connection per edge with consecutive stream
  identifiers. A failure carries at least one error and uses up no identifier.
\<close>

theorem link_exact:
  assumes "orders_ok ho" and "distinct (map fst (tp_nodes t))"
  shows "\<exists>r next'. link_pipeline ho t imports exports first = Some (r, next') \<and>
    ((\<exists>p. r = Inr p) \<longleftrightarrow> link_ok t \<and> imports_ok t imports exports \<and> grants_ok t imports) \<and>
    (case r of
       Inr p \<Rightarrow> pipeline_linked t first (resolved_all t imports exports) p \<and> next' = first + of_nat (length (tp_edges t))
     | Inl e \<Rightarrow> next' = first \<and> (\<exists>report. e = LinkFailed report \<and> lr_errors report \<noteq> []))"
proof (cases "link_report_is_ok (link_validate ho t)")
  case False
  then show ?thesis
    using link_validate_ok [OF assms(1), of t] by (simp add: link_pipeline_def link_report_is_ok_def)
next
  case True
  then have ok: "link_ok t" using link_validate_ok [OF assms(1)] by simp
  then obtain order where order: "link_topological_order ho t = Some (Some order)" "distinct order"
    "set order = fst ` set (tp_nodes t)" "forward_names (set (name_pairs t)) order"
    using link_topological_order_ok [OF assms] by (auto simp: link_ok_def)
  obtain cs r1 where res: "resolve_imports t imports exports order link_report_new = (cs, r1)" by fastforce
  from resolve_imports_ok [of order link_report_new t "imports" exports, unfolded res]
  have cs: "map cr_component_name cs = order"
    "adds_errors link_report_new r1 (\<forall>n \<in> set order. node_imports_ok t imports exports n)"
    "(\<forall>n \<in> set order. node_imports_ok t imports exports n) \<Longrightarrow>
       (\<forall>c \<in> set cs. resolved_all t imports exports (cr_component_name c) (cr_resolved_imports c))" by simp_all
  let ?r2 = "check_capability_grants ho t imports r1"
  have "adds_errors r1 ?r2 (grants_ok t imports)"
    using check_node_grants_adds [of r1 "imports" "ho_nodes ho (tp_nodes t)"]
    by (simp add: check_capability_grants_def grants_ok_def orders_ok_set [OF assms(1)])
  from adds_errors_ok [OF adds_errors_trans [OF cs(2) this]]
  have r2: "link_report_is_ok ?r2 \<longleftrightarrow> imports_ok t imports exports \<and> grants_ok t imports"
    by (simp add: link_report_is_ok_def link_report_new_def imports_ok_def order(3))
  show ?thesis
  proof (cases "link_report_is_ok ?r2")
    case False
    with True order(1) res r2 show ?thesis by (simp add: link_pipeline_def link_report_is_ok_def)
  next
    case good: True
    then have "\<forall>c \<in> set cs. resolved_all t imports exports (cr_component_name c) (cr_resolved_imports c)"
      using r2 cs(3) by (simp add: imports_ok_def order(3))
    then obtain p where "build_linked_pipeline t order cs first = Some (p, first + of_nat (length (tp_edges t)))"
      "pipeline_linked t first (resolved_all t imports exports) p"
      using build_linked_ok [OF order(2-4) cs(1), of "resolved_all t imports exports" "first"] by blast
    with True order(1) res r2 good ok show ?thesis by (simp add: link_pipeline_def)
  qed
qed

definition demo_orders :: hash_orders where
  "demo_orders = \<lparr>ho_nodes = rev, ho_degrees = rev, ho_ports = (\<lambda>xs. xs)\<rparr>"

definition demo_link_node :: "string \<Rightarrow> component_role \<Rightarrow> topology_node" where
  "demo_link_node name role =
     \<lparr>tn_name = name, tn_role = role, tn_artifact_path = name, tn_config = None, tn_capability_grants = []\<rparr>"

definition demo_link_topology :: topology where
  "demo_link_topology =
     topology_add_edge \<lparr>te_from_node = ''s'', te_from_port = ''out'', te_to_node = ''k'', te_to_port = ''in'',
        te_queue_depth = 64, te_backpressure_policy = BlockProducer\<rparr>
       (topology_add_node (demo_link_node ''k'' Sink) (topology_add_node (demo_link_node ''s'' Source) (topology_new ''f'')))"

theorem link_exact_witness:
  "\<exists>r next'. link_pipeline demo_orders demo_link_topology (\<lambda>_. None) (\<lambda>_. None) 0 = Some (r, next') \<and>
     ((\<exists>p. r = Inr p) \<longleftrightarrow> link_ok demo_link_topology \<and> imports_ok demo_link_topology (\<lambda>_. None) (\<lambda>_. None) \<and>
        grants_ok demo_link_topology (\<lambda>_. None))"
proof -
  have "orders_ok demo_orders" by (simp add: orders_ok_def demo_orders_def)
  moreover have "distinct (map fst (tp_nodes demo_link_topology))" by code_simp
  ultimately show ?thesis using link_exact [where first = 0] by blast
qed


text \<open>Two edges from the only exporter, to different ports, make the import ambiguous.\<close>

lemma parallel_edges_ambiguous:
  assumes "\<not> host_interface i" and "exports_import exports i u" and "2 \<le> count_list (name_pairs t) (u, n)"
  shows "\<not> import_ok t exports n i"
proof -
  have "count_list xs (u, n) \<le> length (filter (exports_import exports i) (map fst (filter (\<lambda>e. snd e = n) xs)))" for xs
    using assms(2) by (induction xs) auto
  from order_trans [OF assms(3) this] show ?thesis
    using assms(1) by (simp add: import_ok_def providers_def upstreams_eq)
qed

end
