(* ===== verification/Obs_Metrics.thy ===== *)
theory Obs_Metrics
  imports Torvyn_Types
begin

text \<open>
  The metric primitives of \<open>torvyn-observability\<close>: \<open>metrics/counter.rs\<close>, \<open>metrics/gauge.rs\<close>
  and the fixed-bucket histogram of \<open>metrics/histogram.rs\<close>. An atomic read-modify-write is one
  step of the model, so a compare-and-exchange loop is its effect; \<open>fetch_add\<close> wraps at 64
  bits, as the words do. An index out of range and an overflowing plain addition or subtraction
  are the result \<open>None\<close>. The floating point arithmetic of percentiles and means is the record
  \<open>float_ops\<close>, an argument of the definitions that use it.

  The last section relates a histogram to the list of the samples recorded in it.
\<close>

section \<open>Counters and gauges\<close>

datatype counter = Counter (counter_read: u64)

definition counter_new :: counter where
  "counter_new = Counter 0"

definition counter_increment :: "u64 \<Rightarrow> counter \<Rightarrow> counter" where
  "counter_increment delta c = Counter (counter_read c + delta)"

definition counter_reset :: "counter \<Rightarrow> u64 \<times> counter" where
  "counter_reset c = (counter_read c, Counter 0)"

datatype gauge = Gauge (gauge_read: u64)

definition gauge_new :: gauge where
  "gauge_new = Gauge 0"

definition gauge_set :: "u64 \<Rightarrow> gauge \<Rightarrow> gauge" where
  "gauge_set v g = Gauge v"

definition gauge_increment :: "u64 \<Rightarrow> gauge \<Rightarrow> gauge" where
  "gauge_increment delta g = Gauge (gauge_read g + delta)"

definition gauge_decrement :: "u64 \<Rightarrow> gauge \<Rightarrow> gauge" where
  "gauge_decrement delta g = Gauge (saturating_sub_u64 (gauge_read g) delta)"

definition gauge_update_max :: "u64 \<Rightarrow> gauge \<Rightarrow> gauge" where
  "gauge_update_max v g = (if v > gauge_read g then Gauge v else g)"

datatype signed_gauge = SignedGauge (sgauge_bits: u64)

definition sgauge_new :: signed_gauge where
  "sgauge_new = SignedGauge 0"

definition sgauge_set :: "u64 \<Rightarrow> signed_gauge \<Rightarrow> signed_gauge" where
  "sgauge_set v g = SignedGauge v"

definition sgauge_add :: "u64 \<Rightarrow> signed_gauge \<Rightarrow> signed_gauge" where
  "sgauge_add delta g = SignedGauge (sgauge_bits g + delta)"

definition sgauge_read :: "signed_gauge \<Rightarrow> int" where
  "sgauge_read g = sint (sgauge_bits g)"

lemma gauge_update_max_is_max [simp]:
  "gauge_read (gauge_update_max v g) = max (gauge_read g) v"
  by (auto simp: gauge_update_max_def max_def)

lemma gauge_decrement_unat [simp]:
  "unat (gauge_read (gauge_decrement d g)) = unat (gauge_read g) - unat d"
  by (simp add: gauge_decrement_def unat_saturating_sub_u64)

section \<open>The histogram\<close>

definition latency_buckets_ns :: "u64 list" where
  "latency_buckets_ns =
     [100, 250, 500, 1000, 2500, 5000, 10000, 25000, 50000, 100000, 250000, 500000, 1000000,
      2500000, 5000000, 10000000, 25000000, 50000000, 100000000, 250000000, 500000000,
      1000000000, 2500000000, 5000000000, 10000000000]"

definition size_buckets_bytes :: "u64 list" where
  "size_buckets_bytes =
     [64, 256, 1024, 4096, 16384, 65536, 262144, 1048576, 4194304, 16777216]"

record histogram =
  hi_buckets :: "u64 list"
  hi_sum :: u64
  hi_count :: u64
  hi_min :: u64
  hi_max :: u64
  hi_boundaries :: "u64 list"

definition histogram_new :: "u64 list \<Rightarrow> histogram" where
  "histogram_new bs =
     \<lparr>hi_buckets = replicate (length bs + 1) 0, hi_sum = 0, hi_count = 0, hi_min = - 1,
      hi_max = 0, hi_boundaries = bs\<rparr>"

text \<open>
  The search of the standard library on a slice: halving while more than one element is left,
  then one comparison. \<open>Inr i\<close> is \<open>Ok(i)\<close>, \<open>Inl i\<close> is \<open>Err(i)\<close>.
\<close>

function search_base :: "u64 list \<Rightarrow> u64 \<Rightarrow> nat \<Rightarrow> nat \<Rightarrow> nat" where
  "search_base xs v sz base =
     (if sz \<le> 1 then base
      else let half = sz div 2; mid = base + half in
        search_base xs v (sz - half) (if xs ! mid > v then base else mid))"
  by pat_completeness auto
termination by (relation "measure (\<lambda>(xs, v, sz, base). sz)") auto

declare search_base.simps [simp del]

definition binary_search :: "u64 list \<Rightarrow> u64 \<Rightarrow> nat + nat" where
  "binary_search xs v =
     (if xs = [] then Inl 0
      else let base = search_base xs v (length xs) 0 in
        if xs ! base = v then Inr base
        else if xs ! base < v then Inl (base + 1) else Inl base)"

definition bucket_index :: "u64 list \<Rightarrow> u64 \<Rightarrow> nat" where
  "bucket_index bs v = (case binary_search bs v of Inr i \<Rightarrow> i | Inl i \<Rightarrow> i)"

definition histogram_record :: "u64 \<Rightarrow> histogram \<Rightarrow> histogram option" where
  "histogram_record v h =
     (let i = bucket_index (hi_boundaries h) v in
      if i < length (hi_buckets h) then
        Some (h\<lparr>hi_buckets := (hi_buckets h)[i := hi_buckets h ! i + 1],
                hi_sum := hi_sum h + v,
                hi_count := hi_count h + 1,
                hi_min := (if v < hi_min h then v else hi_min h),
                hi_max := (if v > hi_max h then v else hi_max h)\<rparr>)
      else None)"

definition histogram_reset :: "histogram \<Rightarrow> histogram" where
  "histogram_reset h =
     h\<lparr>hi_buckets := map (\<lambda>_. 0) (hi_buckets h), hi_sum := 0, hi_count := 0, hi_min := - 1,
       hi_max := 0\<rparr>"

record histogram_snapshot =
  hs_boundaries :: "u64 list"
  hs_counts :: "u64 list"
  hs_total_count :: u64
  hs_sum :: u64
  hs_min :: u64
  hs_max :: u64

definition histogram_take_snapshot :: "histogram \<Rightarrow> histogram_snapshot" where
  "histogram_take_snapshot h =
     \<lparr>hs_boundaries = hi_boundaries h, hs_counts = hi_buckets h, hs_total_count = hi_count h,
      hs_sum = hi_sum h, hs_min = hi_min h, hs_max = hi_max h\<rparr>"

text \<open>
  The floating point parts: \<open>fl_rank p n\<close> is \<open>(p / 100 * n as f64).ceil() as u64\<close>, with the
  percentile in tenths of a percent; \<open>fl_interpolate within count lower width\<close> is the linear
  interpolation inside a bucket, converted back; \<open>fl_div\<close> is the quotient of two converted
  integers and \<open>fl_zero\<close> is \<open>0.0\<close>.
\<close>

record 'f float_ops =
  fl_rank :: "nat \<Rightarrow> u64 \<Rightarrow> u64"
  fl_interpolate :: "u64 \<Rightarrow> u64 \<Rightarrow> u64 \<Rightarrow> u64 \<Rightarrow> u64"
  fl_div :: "u64 \<Rightarrow> u64 \<Rightarrow> 'f"
  fl_zero :: 'f

definition histogram_mean :: "'f float_ops \<Rightarrow> histogram \<Rightarrow> 'f" where
  "histogram_mean fl h = (if hi_count h = 0 then fl_zero fl else fl_div fl (hi_sum h) (hi_count h))"

definition snapshot_mean :: "'f float_ops \<Rightarrow> histogram_snapshot \<Rightarrow> 'f" where
  "snapshot_mean fl s =
     (if hs_total_count s = 0 then fl_zero fl else fl_div fl (hs_sum s) (hs_total_count s))"

definition bucket_lower :: "histogram_snapshot \<Rightarrow> nat \<Rightarrow> u64" where
  "bucket_lower s i = (if i = 0 then 0 else hs_boundaries s ! (i - 1))"

definition bucket_upper :: "histogram_snapshot \<Rightarrow> nat \<Rightarrow> u64" where
  "bucket_upper s i = (if i < length (hs_boundaries s) then hs_boundaries s ! i else hs_max s)"

fun percentile_from ::
  "'f float_ops \<Rightarrow> histogram_snapshot \<Rightarrow> u64 \<Rightarrow> nat \<Rightarrow> u64 \<Rightarrow> u64 list \<Rightarrow> u64 option" where
  "percentile_from fl s target i cumulative [] = Some (hs_max s)"
| "percentile_from fl s target i cumulative (count # counts) =
     (if unat cumulative + unat count \<ge> 2 ^ 64 then None
      else let cumulative = cumulative + count in
        if cumulative \<ge> target then
          if count = 0 then Some (bucket_upper s i)
          else if bucket_upper s i < bucket_lower s i then None
          else Some (fl_interpolate fl (cumulative - target) count (bucket_lower s i)
                       (bucket_upper s i - bucket_lower s i))
        else percentile_from fl s target (i + 1) cumulative counts)"

definition percentile :: "'f float_ops \<Rightarrow> nat \<Rightarrow> histogram_snapshot \<Rightarrow> u64 option" where
  "percentile fl p s =
     (if hs_total_count s = 0 then Some 0
      else percentile_from fl s (max (fl_rank fl p (hs_total_count s)) 1) 0 0 (hs_counts s))"

section \<open>The search finds the first boundary that is not below the value\<close>

definition first_at_least :: "u64 list \<Rightarrow> u64 \<Rightarrow> nat" where
  "first_at_least bs v = length (takeWhile (\<lambda>b. b < v) bs)"

lemma first_at_least_le [simp]: "first_at_least bs v \<le> length bs"
  by (simp add: first_at_least_def length_takeWhile_le)

lemma first_at_least_eqI:
  assumes "k \<le> length bs" "\<And>j. j < k \<Longrightarrow> bs ! j < v" "k < length bs \<Longrightarrow> v \<le> bs ! k"
  shows "first_at_least bs v = k"
proof -
  have "takeWhile (\<lambda>b. b < v) bs = take k bs"
    using assms by (intro takeWhile_eq_take_P_nth) (auto simp: not_less)
  with assms(1) show ?thesis by (simp add: first_at_least_def)
qed

lemma search_base_bounds:
  assumes "sorted_wrt (<) xs" "1 \<le> sz" "base + sz \<le> length xs"
    and "base = 0 \<or> xs ! base \<le> v" "\<And>j. base + sz \<le> j \<Longrightarrow> j < length xs \<Longrightarrow> v < xs ! j"
  shows "search_base xs v sz base < length xs
    \<and> (search_base xs v sz base = 0 \<or> xs ! search_base xs v sz base \<le> v)
    \<and> (\<forall>j. search_base xs v sz base < j \<longrightarrow> j < length xs \<longrightarrow> v < xs ! j)"
  using assms
proof (induction xs v sz base rule: search_base.induct)
  case (1 xs v sz base)
  show ?case
  proof (cases "sz \<le> 1")
    case True
    then have "search_base xs v sz base = base" by (subst search_base.simps) simp
    with True 1(3-) show ?thesis by auto
  next
    case False
    define mid where "mid = base + sz div 2"
    define base' where "base' = (if xs ! mid > v then base else mid)"
    have mid: "base < mid" "mid < base + sz" using False by (auto simp: mid_def)
    have upper: "v < xs ! j" if "xs ! mid > v" "mid \<le> j" "j < length xs" for j
      using that sorted_wrt_nth_less [OF 1(2), of mid j] by (cases "mid = j") auto
    have step: "search_base xs v sz base = search_base xs v (sz - sz div 2) base'"
      using False by (subst search_base.simps) (simp add: mid_def base'_def Let_def)
    have half: "mid + (sz - sz div 2) = base + sz" by (simp add: mid_def)
    have B: "1 \<le> sz - sz div 2" using False by linarith
    have C: "base' + (sz - sz div 2) \<le> length xs"
      using 1(4) half mid by (auto simp: base'_def)
    have D: "base' = 0 \<or> xs ! base' \<le> v" using 1(5) by (auto simp: base'_def)
    have E: "v < xs ! j" if j: "base' + (sz - sz div 2) \<le> j" "j < length xs" for j
    proof (cases "xs ! mid > v")
      case True
      then show ?thesis using j upper [of j] by (auto simp: base'_def mid_def)
    next
      case False
      then show ?thesis using j half 1(6) [of j] by (simp add: base'_def)
    qed
    show ?thesis
      unfolding step
      by (rule 1(1) [OF False refl mid_def, folded base'_def, OF 1(2) B C D E])
  qed
qed

theorem bucket_index_first:
  assumes "sorted_wrt (<) bs"
  shows "bucket_index bs v = first_at_least bs v"
proof (cases "bs = []")
  case True
  then show ?thesis by (simp add: bucket_index_def binary_search_def first_at_least_def)
next
  case False
  define k where "k = search_base bs v (length bs) 0"
  have k: "k < length bs" "k = 0 \<or> bs ! k \<le> v"
    "\<And>j. k < j \<Longrightarrow> j < length bs \<Longrightarrow> v < bs ! j"
    using search_base_bounds [OF assms, of "length bs" 0 v] False
    by (auto simp: k_def Suc_le_eq)
  have below: "bs ! j < bs ! k" if "j < k" for j
    using sorted_wrt_nth_less [OF assms that k(1)] .
  consider "bs ! k = v" | "bs ! k < v" | "v < bs ! k" by fastforce
  then show ?thesis
  proof cases
    case 1
    then have "first_at_least bs v = k"
      using k(1) below by (intro first_at_least_eqI) auto
    with 1 False show ?thesis
      by (simp add: bucket_index_def binary_search_def flip: k_def)
  next
    case 2
    then have "first_at_least bs v = k + 1"
      using k below by (intro first_at_least_eqI)
        (auto simp: less_Suc_eq order.strict_implies_order intro: order.strict_trans)
    with 2 False show ?thesis
      by (simp add: bucket_index_def binary_search_def flip: k_def)
  next
    case 3
    then have k0: "k = 0" using k(2) by auto
    then have "first_at_least bs v = 0"
      using 3 by (intro first_at_least_eqI) auto
    with 3 k0 False show ?thesis
      by (auto simp: bucket_index_def binary_search_def simp flip: k_def)
  qed
qed

text \<open>The bounds of the bucket a value falls into: above the one before, not above its own.\<close>

lemma first_at_least_bounds:
  assumes "first_at_least bs v = i"
  shows "i = 0 \<or> bs ! (i - 1) < v" "i < length bs \<Longrightarrow> v \<le> bs ! i"
proof -
  have "bs ! j < v" if "j < i" for j
    using nth_mem [of j "takeWhile (\<lambda>b. b < v) bs"] that assms
      takeWhile_nth [of j "\<lambda>b. b < v" bs]
    by (auto simp: first_at_least_def dest: set_takeWhileD)
  then show "i = 0 \<or> bs ! (i - 1) < v" by (cases i) auto
  show "v \<le> bs ! i" if "i < length bs"
    using nth_length_takeWhile [of "\<lambda>b. b < v" bs] that assms
    by (simp add: first_at_least_def)
qed

text \<open>On ordered boundaries the search is a count, and its buckets are the intervals between boundaries.\<close>

lemma first_at_least_count:
  assumes "sorted_wrt (<) bs"
  shows "first_at_least bs v = length (filter (\<lambda>b. b < v) bs)"
  using assms by (induction bs) (auto simp: first_at_least_def filter_empty_conv dest: order.strict_trans)

lemma first_at_least_interval:
  assumes "sorted_wrt (<) bs" and "i \<le> length bs"
  shows "first_at_least bs u \<le> i \<longleftrightarrow> (i < length bs \<longrightarrow> u \<le> bs ! i)"
    and "i \<le> first_at_least bs u \<longleftrightarrow> (i = 0 \<or> bs ! (i - 1) < u)"
proof -
  let ?f = "first_at_least bs u"
  have small: "bs ! k < u" if "k < ?f" for k
  proof (cases "k = ?f - 1")
    case False
    then have "k < ?f - 1" "?f - 1 < length bs" using that first_at_least_le [of bs u] by linarith+
    then have "bs ! k < bs ! (?f - 1)" by (rule sorted_wrt_nth_less [OF assms(1)])
    with that first_at_least_bounds(1) [OF refl, of bs u] show ?thesis by auto
  qed (use that first_at_least_bounds(1) [OF refl, of bs u] in auto)
  have large: "u \<le> bs ! k" if "?f \<le> k" "k < length bs" for k
    using that first_at_least_bounds(2) [OF refl, of bs u] sorted_wrt_nth_less [OF assms(1), of "?f" k]
    by (cases "k = ?f") auto
  show "?f \<le> i \<longleftrightarrow> (i < length bs \<longrightarrow> u \<le> bs ! i)"
    using small [of i] large [of i] first_at_least_le [of bs u] assms(2)
    by (cases "i < ?f") (auto simp: not_less intro: order.strict_trans2)
  show "i \<le> ?f \<longleftrightarrow> (i = 0 \<or> bs ! (i - 1) < u)"
    using small [of "i - 1"] large [of "i - 1"] assms(2)
    by (cases "i \<le> ?f"; cases i) (auto simp: not_le not_less Suc_le_eq less_Suc_eq_le)
qed

section \<open>A histogram and its samples\<close>

definition bucket_samples :: "u64 list \<Rightarrow> nat \<Rightarrow> u64 list \<Rightarrow> u64 list" where
  "bucket_samples bs i vs = filter (\<lambda>v. first_at_least bs v = i) vs"

definition histogram_holds :: "u64 list \<Rightarrow> histogram \<Rightarrow> bool" where
  "histogram_holds vs h \<longleftrightarrow>
     hi_buckets h = map (\<lambda>i. of_nat (length (bucket_samples (hi_boundaries h) i vs)))
                      [0 ..< length (hi_boundaries h) + 1] \<and>
     hi_sum h = sum_list vs \<and> hi_count h = of_nat (length vs) \<and>
     hi_min h = fold min vs (- 1) \<and> hi_max h = fold max vs 0"

fun record_all :: "u64 list \<Rightarrow> histogram \<Rightarrow> histogram option" where
  "record_all [] h = Some h"
| "record_all (v # vs) h = Option.bind (histogram_record v h) (record_all vs)"

lemma histogram_holds_new [simp]: "histogram_holds [] (histogram_new bs)"
  by (simp add: histogram_holds_def histogram_new_def bucket_samples_def map_replicate_const)

lemma hi_boundaries_new [simp]: "hi_boundaries (histogram_new bs) = bs"
  by (simp add: histogram_new_def)

lemma histogram_record_boundaries:
  "histogram_record v h = Some h' \<Longrightarrow> hi_boundaries h' = hi_boundaries h"
  by (auto simp: histogram_record_def Let_def split: if_splits)

lemma histogram_record_holds:
  assumes holds: "histogram_holds vs h" and "sorted_wrt (<) (hi_boundaries h)"
  obtains h' where "histogram_record v h = Some h'" "histogram_holds (vs @ [v]) h'"
    "hi_boundaries h' = hi_boundaries h"
proof -
  define bs where "bs = hi_boundaries h"
  define i where "i = first_at_least bs v"
  have idx: "bucket_index (hi_boundaries h) v = i"
    using bucket_index_first [OF assms(2)] by (simp add: i_def bs_def)
  have i: "i < length bs + 1" using first_at_least_le [of bs v] by (simp add: i_def del: first_at_least_le)
  define h' where "h' = h\<lparr>hi_buckets := (hi_buckets h)[i := hi_buckets h ! i + 1],
                hi_sum := hi_sum h + v,
                hi_count := hi_count h + 1,
                hi_min := (if v < hi_min h then v else hi_min h),
                hi_max := (if v > hi_max h then v else hi_max h)\<rparr>"
  have buckets: "hi_buckets h = map (\<lambda>i. of_nat (length (bucket_samples bs i vs))) [0 ..< length bs + 1]"
    using holds by (simp add: histogram_holds_def bs_def)
  then have len: "length (hi_buckets h) = length bs + 1" by simp
  have rec: "histogram_record v h = Some h'"
    using i len by (simp add: histogram_record_def idx h'_def Let_def)
  have "(hi_buckets h)[i := hi_buckets h ! i + 1] =
      map (\<lambda>i. of_nat (length (bucket_samples bs i (vs @ [v])))) [0 ..< length bs + 1]"
    using i unfolding buckets
    by (intro nth_equalityI)
      (auto simp: nth_list_update bucket_samples_def i_def [symmetric] simp del: upt_Suc)
  then have "histogram_holds (vs @ [v]) h'"
    using holds by (auto simp: histogram_holds_def h'_def bs_def min_def max_def)
  with rec show ?thesis
    by (rule that) (simp add: h'_def)
qed

lemma record_all_holds:
  assumes "histogram_holds us h" "sorted_wrt (<) (hi_boundaries h)"
  shows "\<exists>h'. record_all vs h = Some h' \<and> histogram_holds (us @ vs) h' \<and>
              hi_boundaries h' = hi_boundaries h"
  using assms
proof (induction vs arbitrary: us h)
  case (Cons v vs)
  obtain h1 where h1: "histogram_record v h = Some h1" "histogram_holds (us @ [v]) h1"
    "hi_boundaries h1 = hi_boundaries h"
    by (rule histogram_record_holds [OF Cons.prems])
  show ?case using Cons.IH [OF h1(2)] h1 Cons.prems by auto
qed simp

section \<open>Percentiles\<close>

lemma length_bucket_samples_split:
  "length vs = (\<Sum>i < Suc (length bs). length (bucket_samples bs i vs))"
proof (induction vs)
  case (Cons v vs)
  have "(\<Sum>i < Suc (length bs). length (bucket_samples bs i (v # vs)))
      = (\<Sum>i < Suc (length bs). length (bucket_samples bs i vs) + (if first_at_least bs v = i then 1 else 0))"
    by (intro sum.cong) (auto simp: bucket_samples_def)
  also have "\<dots> = length vs + 1"
    using Cons first_at_least_le [of bs v]
    by (simp only: sum.distrib sum.delta' finite_lessThan)
       (simp add: less_Suc_eq_le)
  finally show ?case by simp
qed (simp add: bucket_samples_def)

text \<open>The samples below bucket \<open>i\<close>, in number: what the walk has added up when it reaches \<open>i\<close>.\<close>

definition samples_below :: "u64 list \<Rightarrow> nat \<Rightarrow> u64 list \<Rightarrow> nat" where
  "samples_below bs i vs = length (filter (\<lambda>v. first_at_least bs v < i) vs)"

lemma samples_below_0 [simp]: "samples_below bs 0 vs = 0"
  by (simp add: samples_below_def)

lemma samples_below_Suc:
  "samples_below bs (Suc i) vs = samples_below bs i vs + length (bucket_samples bs i vs)"
  by (induction vs) (auto simp: samples_below_def bucket_samples_def)

lemma samples_below_le: "samples_below bs i vs \<le> length vs"
  by (simp add: samples_below_def)

lemma samples_below_all: "length bs < i \<Longrightarrow> samples_below bs i vs = length vs"
  unfolding samples_below_def
  by (subst filter_True) (auto intro: order.strict_trans1 [OF first_at_least_le])

lemma fold_max_ge: "v \<in> set vs \<or> v \<le> a \<Longrightarrow> v \<le> fold max vs (a :: u64)"
proof (induction vs arbitrary: a)
  case (Cons x vs)
  show ?case using Cons.prems Cons.IH [of "max x a"] by (auto simp: le_max_iff_disj)
qed simp

lemma first_at_least_mono: "u \<le> v \<Longrightarrow> first_at_least bs u \<le> first_at_least bs v"
  by (induction bs) (auto simp: first_at_least_def intro: order.strict_trans2)

lemma filter_sorted_prefix:
  assumes "sorted ys" "\<And>u v. u \<le> v \<Longrightarrow> P v \<Longrightarrow> P u"
  shows "filter P ys = takeWhile P ys"
  using assms(1)
proof (induction ys)
  case (Cons y ys)
  show ?case
  proof (cases "P y")
    case False
    then have "\<not> P x" if "x \<in> set ys" for x
      using that Cons.prems assms(2) [of y x] by auto
    with False show ?thesis by (auto simp: filter_empty_conv)
  qed (use Cons in simp)
qed simp

text \<open>The sample of rank \<open>t\<close> lies in the bucket at which the counts reach \<open>t\<close>.\<close>

lemma ranked_sample_bucket:
  assumes "samples_below bs j vs \<le> k" "k < samples_below bs (Suc j) vs"
  shows "first_at_least bs (sort vs ! k) = j"
proof -
  have iff: "first_at_least bs (sort vs ! k) < i \<longleftrightarrow> k < samples_below bs i vs" if "k < length vs" for i
  proof -
    let ?P = "\<lambda>v. first_at_least bs v < i"
    have "samples_below bs i vs = length (filter ?P (sort vs))"
      by (simp add: samples_below_def filter_sort)
    also have "filter ?P (sort vs) = takeWhile ?P (sort vs)"
      using first_at_least_mono [of _ _ bs]
      by (intro filter_sorted_prefix) (auto intro: order.strict_trans1)
    finally have len: "samples_below bs i vs = length (takeWhile ?P (sort vs))" .
    show ?thesis
    proof
      assume k: "k < samples_below bs i vs"
      then show "first_at_least bs (sort vs ! k) < i"
        using set_takeWhileD [OF nth_mem, of k ?P "sort vs"] by (simp add: len takeWhile_nth)
    next
      assume P: "first_at_least bs (sort vs ! k) < i"
      show "k < samples_below bs i vs"
      proof (rule ccontr)
        let ?m = "length (takeWhile ?P (sort vs))"
        assume "\<not> k < samples_below bs i vs"
        then have m: "?m \<le> k" by (simp add: len)
        then have "\<not> ?P (sort vs ! ?m)"
          using nth_length_takeWhile [of ?P "sort vs"] that by simp
        moreover have "sort vs ! ?m \<le> sort vs ! k"
          using m that by (intro sorted_nth_mono) auto
        ultimately show False using P first_at_least_mono by (meson not_le order.strict_trans1)
      qed
    qed
  qed
  have "k < length vs" using assms(2) samples_below_le order.strict_trans2 by blast
  from iff [OF this, of j] iff [OF this, of "Suc j"] assms show ?thesis by simp
qed

lemma percentile_from_reaches:
  assumes n: "length vs < 2 ^ 64" and t: "samples_below bs i vs < unat t"
    and s: "i \<le> Suc (length bs)"
  shows "percentile_from fl s t i (of_nat (samples_below bs i vs))
           (map (\<lambda>j. of_nat (length (bucket_samples bs j vs))) [i ..< Suc (length bs)]) =
         (if length vs < unat t then Some (hs_max s)
          else let j = (LEAST j. unat t \<le> samples_below bs (Suc j) vs) in
            if bucket_upper s j < bucket_lower s j then None
            else Some (fl_interpolate fl (of_nat (samples_below bs (Suc j) vs) - t)
                         (of_nat (length (bucket_samples bs j vs))) (bucket_lower s j)
                         (bucket_upper s j - bucket_lower s j)))"
  using t s
proof (induction "Suc (length bs) - i" arbitrary: i)
  case 0
  then have "samples_below bs i vs = length vs" by (intro samples_below_all) simp
  with 0 show ?case by simp
next
  case (Suc d)
  let ?c = "length (bucket_samples bs i vs)" and ?f = "\<lambda>i. samples_below bs i vs"
  have i: "i < Suc (length bs)" using Suc.hyps(2) by simp
  have f: "?f (Suc i) = ?f i + ?c" by (rule samples_below_Suc)
  have le: "?f (Suc i) \<le> length vs" by (rule samples_below_le)
  have big: "?f (Suc i) < 18446744073709551616" using le n by simp
  have un: "unat (of_nat (?f i) :: u64) = ?f i" "unat (of_nat ?c :: u64) = ?c"
    "unat (of_nat (?f (Suc i)) :: u64) = ?f (Suc i)"
    using big f by (simp_all del: of_nat_add)
  have sum: "(of_nat (?f i) :: u64) + of_nat ?c = of_nat (?f (Suc i))" by (simp add: f)
  have list: "[i ..< Suc (length bs)] = i # [Suc i ..< Suc (length bs)]"
    using i by (rule upt_conv_Cons)
  have cond: "\<not> 2 ^ 64 \<le> unat (of_nat (?f i) :: u64) + unat (of_nat ?c :: u64)"
    using big unfolding un f by simp
  have reach: "t \<le> of_nat (?f (Suc i)) \<longleftrightarrow> unat t \<le> ?f (Suc i)"
    by (simp only: word_le_nat_alt un)
  show ?case
  proof (cases "unat t \<le> ?f (Suc i)")
    case True
    have least: "(LEAST j. unat t \<le> ?f (Suc j)) = i"
    proof (rule Least_equality)
      show "unat t \<le> ?f (Suc i)" by (rule True)
      fix j assume j: "unat t \<le> ?f (Suc j)"
      show "i \<le> j"
      proof (rule ccontr)
        assume "\<not> i \<le> j"
        then have "?f (Suc j) \<le> ?f i"
          by (auto simp: samples_below_def length_filter_conv_card
              intro!: card_mono finite_subset [of _ "{..<length vs}"])
        with j Suc.prems(1) show False by simp
      qed
    qed
    have pos: "of_nat ?c \<noteq> (0 :: u64)"
      using True Suc.prems(1) f un(2) by (metis add.right_neutral not_le unat_0)
    show ?thesis
      unfolding list list.map percentile_from.simps sum least Let_def
      using True cond reach pos le by (simp del: of_nat_add)
  next
    case False
    have rec: "percentile_from fl s t i (of_nat (?f i))
           (map (\<lambda>j. of_nat (length (bucket_samples bs j vs))) [i ..< Suc (length bs)])
         = percentile_from fl s t (Suc i) (of_nat (?f (Suc i)))
           (map (\<lambda>j. of_nat (length (bucket_samples bs j vs))) [Suc i ..< Suc (length bs)])"
      unfolding list list.map percentile_from.simps sum Let_def
      using False cond reach by (simp del: of_nat_add)
    show ?thesis
      unfolding rec using False Suc.hyps(2) i by (intro Suc.hyps(1)) auto
  qed
qed

text \<open>
  The percentile of a histogram that holds \<open>vs\<close>: the interpolation takes place in the bucket of
  the sample of the wanted rank, and neither of its plain additions and subtractions overflows.
\<close>

theorem percentile_of_samples:
  fixes fl :: "'f float_ops"
  assumes holds: "histogram_holds vs h" and n: "length vs < 2 ^ 64" "vs \<noteq> []"
    and bs: "sorted_wrt (<) (hi_boundaries h)"
    and rank: "t = max (fl_rank fl p (of_nat (length vs))) 1" "unat t \<le> length vs"
    and v: "v = sort vs ! (unat t - 1)" "j = first_at_least (hi_boundaries h) v"
  shows "percentile fl p (histogram_take_snapshot h) =
      Some (fl_interpolate fl (of_nat (samples_below (hi_boundaries h) (Suc j) vs - unat t))
        (of_nat (length (bucket_samples (hi_boundaries h) j vs)))
        (bucket_lower (histogram_take_snapshot h) j)
        (bucket_upper (histogram_take_snapshot h) j - bucket_lower (histogram_take_snapshot h) j)) \<and>
    bucket_lower (histogram_take_snapshot h) j \<le> v \<and> v \<le> bucket_upper (histogram_take_snapshot h) j \<and>
    unat t \<le> samples_below (hi_boundaries h) (Suc j) vs \<and>
    samples_below (hi_boundaries h) (Suc j) vs - unat t < length (bucket_samples (hi_boundaries h) j vs)"
proof -
  let ?bs = "hi_boundaries h" and ?s = "histogram_take_snapshot h"
  let ?f = "\<lambda>i. samples_below ?bs i vs"
  define k where "k = (LEAST j. unat t \<le> ?f (Suc j))"
  let ?c = "length (bucket_samples ?bs j vs)" and ?v = "sort vs ! (unat t - 1)"
  have t1: "0 < unat t" using rank(1) by (auto simp: unat_gt_0 max_def)
  have ex: "unat t \<le> ?f (Suc (length ?bs))"
    using rank(2) by (simp add: samples_below_all)
  have k: "unat t \<le> ?f (Suc k)" unfolding k_def by (rule LeastI, rule ex)
  have k_below: "?f k < unat t"
  proof (cases k)
    case (Suc k')
    then show ?thesis using not_less_Least [of k' "\<lambda>j. unat t \<le> ?f (Suc j)"] by (simp add: k_def)
  qed (simp add: t1)
  have "first_at_least ?bs ?v = k"
    using k k_below t1 by (intro ranked_sample_bucket) auto
  then have jk: "k = j" using v by simp
  note j = k [unfolded jk] and below = k_below [unfolded jk]
  have bucket: "first_at_least ?bs ?v = j" using v by simp
  have v_in: "?v \<in> set vs"
    using rank(2) t1 nth_mem [of "unat t - 1" "sort vs"] by (simp add: less_diff_conv2 Suc_le_eq)
  have lower: "bucket_lower ?s j \<le> ?v"
    using first_at_least_bounds(1) [OF bucket]
    by (auto simp: bucket_lower_def histogram_take_snapshot_def)
  have upper: "?v \<le> bucket_upper ?s j"
    using first_at_least_bounds(2) [OF bucket] fold_max_ge [of ?v vs 0] v_in holds
    by (auto simp: bucket_upper_def histogram_take_snapshot_def histogram_holds_def)
  have f: "?f (Suc j) = ?f j + ?c" by (rule samples_below_Suc)
  have big: "?f (Suc j) < 18446744073709551616"
    using samples_below_le [of ?bs "Suc j" vs] n(1) by simp
  have un: "unat (of_nat ?c :: u64) = ?c" "unat (of_nat (?f (Suc j)) - t :: u64) = ?f (Suc j) - unat t"
    using big f j by (simp_all add: unat_sub_u64 del: of_nat_add)
  have "unat (of_nat (length vs) :: u64) \<noteq> 0"
    using n by (subst unat_of_nat_u64) auto
  then have cnt: "hi_count h = of_nat (length vs)" "of_nat (length vs) \<noteq> (0 :: u64)"
    using holds by (metis histogram_holds_def, metis unat_0)
  have f0: "?f 0 < unat t" using t1 by simp
  have counts: "hs_counts ?s =
      map (\<lambda>j. of_nat (length (bucket_samples ?bs j vs))) [0 ..< Suc (length ?bs)]"
    using holds by (simp add: histogram_take_snapshot_def histogram_holds_def del: upt_Suc)
  have "percentile fl p ?s = percentile_from fl ?s t 0 (of_nat (?f 0)) (hs_counts ?s)"
    using cnt by (simp add: percentile_def histogram_take_snapshot_def rank(1))
  also have "\<dots> = Some (fl_interpolate fl (of_nat (?f (Suc j)) - t) (of_nat ?c)
      (bucket_lower ?s j) (bucket_upper ?s j - bucket_lower ?s j))"
    unfolding counts
    using percentile_from_reaches [OF n(1) f0, of fl ?s] t1 rank(2)
      order.trans [OF lower upper] jk
    by (simp add: not_less Let_def del: upt_Suc samples_below_0 flip: k_def)
  also have "(of_nat (?f (Suc j)) - t :: u64) = of_nat (?f (Suc j) - unat t)"
    using big by (intro word_unat_eq_iff [THEN iffD2]) (simp only: un(2), simp)
  finally show ?thesis using lower upper v(1) f j below by simp
qed

end
