(* ===== verification/Obs_Flow.thy ===== *)
theory Obs_Flow
  imports Obs_Metrics
begin

text \<open>
  The metrics of flows and pools (\<open>metrics/flow_metrics.rs\<close>, \<open>metrics/pool_metrics.rs\<close>), their
  snapshots (\<open>metrics/snapshot.rs\<close>) and the registry that holds them (\<open>metrics/registry.rs\<close>).
  The registry's hash maps are partial functions; what their iteration order decides is not
  modelled. A handle shared between the registry and its callers (\<open>Arc\<close>) is the entry of the
  map, and the locks are never poisoned since nothing panics while holding one.
\<close>

section \<open>The metrics of a flow\<close>

record obs_component =
  oc_component_id :: component_id
  oc_invocations :: counter
  oc_errors :: counter
  oc_processing_time :: histogram
  oc_fuel_consumed :: counter
  oc_memory_current :: gauge
  oc_memory_peak :: gauge

definition obs_component_new :: "component_id \<Rightarrow> obs_component" where
  "obs_component_new cid =
     \<lparr>oc_component_id = cid, oc_invocations = counter_new, oc_errors = counter_new,
      oc_processing_time = histogram_new latency_buckets_ns, oc_fuel_consumed = counter_new,
      oc_memory_current = gauge_new, oc_memory_peak = gauge_new\<rparr>"

record obs_stream =
  os_stream_id :: stream_id
  os_elements :: counter
  os_queue_depth :: gauge
  os_queue_depth_peak :: gauge
  os_backpressure_events :: counter
  os_backpressure_duration_ns :: counter
  os_queue_wait_time :: histogram

definition obs_stream_new :: "stream_id \<Rightarrow> obs_stream" where
  "obs_stream_new sid =
     \<lparr>os_stream_id = sid, os_elements = counter_new, os_queue_depth = gauge_new,
      os_queue_depth_peak = gauge_new, os_backpressure_events = counter_new,
      os_backpressure_duration_ns = counter_new,
      os_queue_wait_time = histogram_new latency_buckets_ns\<rparr>"

record obs_flow =
  of_flow_id :: flow_id
  of_elements_total :: counter
  of_errors_total :: counter
  of_copies_total :: counter
  of_copy_bytes_total :: counter
  of_end_to_end_latency :: histogram
  of_components :: "obs_component list"
  of_streams :: "obs_stream list"
  of_start_time_ns :: u64

definition obs_flow_new ::
  "flow_id \<Rightarrow> component_id list \<Rightarrow> stream_id list \<Rightarrow> u64 \<Rightarrow> obs_flow" where
  "obs_flow_new fid cids sids start =
     \<lparr>of_flow_id = fid, of_elements_total = counter_new, of_errors_total = counter_new,
      of_copies_total = counter_new, of_copy_bytes_total = counter_new,
      of_end_to_end_latency = histogram_new latency_buckets_ns,
      of_components = map obs_component_new cids, of_streams = map obs_stream_new sids,
      of_start_time_ns = start\<rparr>"

text \<open>
  The look-ups return a reference to the first entry with the identifier. What is done through
  the reference is the update of that entry.
\<close>

definition flow_component :: "obs_flow \<Rightarrow> component_id \<Rightarrow> obs_component option" where
  "flow_component m cid = find (\<lambda>c. oc_component_id c = cid) (of_components m)"

definition flow_stream :: "obs_flow \<Rightarrow> stream_id \<Rightarrow> obs_stream option" where
  "flow_stream m sid = find (\<lambda>s. os_stream_id s = sid) (of_streams m)"

fun update_first :: "('a \<Rightarrow> bool) \<Rightarrow> ('a \<Rightarrow> 'a) \<Rightarrow> 'a list \<Rightarrow> 'a list" where
  "update_first P f [] = []"
| "update_first P f (x # xs) = (if P x then f x # xs else x # update_first P f xs)"

definition set_flow_component :: "obs_component \<Rightarrow> obs_flow \<Rightarrow> obs_flow" where
  "set_flow_component c m =
     m\<lparr>of_components :=
         update_first (\<lambda>c'. oc_component_id c' = oc_component_id c) (\<lambda>_. c) (of_components m)\<rparr>"

definition set_flow_stream :: "obs_stream \<Rightarrow> obs_flow \<Rightarrow> obs_flow" where
  "set_flow_stream s m =
     m\<lparr>of_streams :=
         update_first (\<lambda>s'. os_stream_id s' = os_stream_id s) (\<lambda>_. s) (of_streams m)\<rparr>"

section \<open>Pools\<close>

datatype pool_id = PoolId (pool_id_raw: u32)

definition pool_id_display :: "pool_id \<Rightarrow> string" where
  "pool_id_display p = ''pool-'' @ decimal (unat (pool_id_raw p))"

record obs_pool =
  op_pool_id :: pool_id
  op_allocations :: counter
  op_deallocations :: counter
  op_reuses :: counter
  op_exhaustion_events :: counter
  op_utilization_permille :: gauge
  op_active_buffers :: gauge
  op_allocation_size :: histogram

definition obs_pool_new :: "pool_id \<Rightarrow> obs_pool" where
  "obs_pool_new pid =
     \<lparr>op_pool_id = pid, op_allocations = counter_new, op_deallocations = counter_new,
      op_reuses = counter_new, op_exhaustion_events = counter_new,
      op_utilization_permille = gauge_new, op_active_buffers = gauge_new,
      op_allocation_size = histogram_new size_buckets_bytes\<rparr>"

definition pool_utilization :: "'f float_ops \<Rightarrow> obs_pool \<Rightarrow> 'f" where
  "pool_utilization fl p = fl_div fl (gauge_read (op_utilization_permille p)) 1000"

section \<open>Snapshots\<close>

record 'f component_snapshot =
  cn_component_id :: component_id
  cn_invocations :: u64
  cn_errors :: u64
  cn_processing_time_p50_ns :: u64
  cn_processing_time_p95_ns :: u64
  cn_processing_time_p99_ns :: u64
  cn_processing_time_mean_ns :: 'f
  cn_fuel_consumed :: u64
  cn_memory_current :: u64
  cn_memory_peak :: u64

record stream_snapshot =
  sn_stream_id :: stream_id
  sn_elements :: u64
  sn_queue_depth :: u64
  sn_queue_depth_peak :: u64
  sn_backpressure_events :: u64
  sn_backpressure_duration_ns :: u64

record 'f flow_snapshot =
  fn_flow_id :: flow_id
  fn_elements_total :: u64
  fn_errors_total :: u64
  fn_copies_total :: u64
  fn_copy_bytes_total :: u64
  fn_latency_p50_ns :: u64
  fn_latency_p90_ns :: u64
  fn_latency_p95_ns :: u64
  fn_latency_p99_ns :: u64
  fn_latency_p999_ns :: u64
  fn_latency_min_ns :: u64
  fn_latency_max_ns :: u64
  fn_latency_mean_ns :: 'f
  fn_components :: "'f component_snapshot list"
  fn_streams :: "stream_snapshot list"

definition snapshot_component ::
  "'f float_ops \<Rightarrow> obs_component \<Rightarrow> 'f component_snapshot option" where
  "snapshot_component fl c =
     (let s = histogram_take_snapshot (oc_processing_time c) in
      Option.bind (percentile fl 500 s) (\<lambda>p50.
      Option.bind (percentile fl 950 s) (\<lambda>p95.
      Option.bind (percentile fl 990 s) (\<lambda>p99.
        Some \<lparr>cn_component_id = oc_component_id c,
              cn_invocations = counter_read (oc_invocations c),
              cn_errors = counter_read (oc_errors c),
              cn_processing_time_p50_ns = p50, cn_processing_time_p95_ns = p95,
              cn_processing_time_p99_ns = p99, cn_processing_time_mean_ns = snapshot_mean fl s,
              cn_fuel_consumed = counter_read (oc_fuel_consumed c),
              cn_memory_current = gauge_read (oc_memory_current c),
              cn_memory_peak = gauge_read (oc_memory_peak c)\<rparr>))))"

definition snapshot_stream :: "obs_stream \<Rightarrow> stream_snapshot" where
  "snapshot_stream s =
     \<lparr>sn_stream_id = os_stream_id s, sn_elements = counter_read (os_elements s),
      sn_queue_depth = gauge_read (os_queue_depth s),
      sn_queue_depth_peak = gauge_read (os_queue_depth_peak s),
      sn_backpressure_events = counter_read (os_backpressure_events s),
      sn_backpressure_duration_ns = counter_read (os_backpressure_duration_ns s)\<rparr>"

fun option_all :: "'a option list \<Rightarrow> 'a list option" where
  "option_all [] = Some []"
| "option_all (x # xs) = Option.bind x (\<lambda>x. map_option ((#) x) (option_all xs))"

definition snapshot_flow :: "'f float_ops \<Rightarrow> obs_flow \<Rightarrow> 'f flow_snapshot option" where
  "snapshot_flow fl m =
     (let s = histogram_take_snapshot (of_end_to_end_latency m) in
      Option.bind (option_all (map (snapshot_component fl) (of_components m))) (\<lambda>components.
      Option.bind (percentile fl 500 s) (\<lambda>p50.
      Option.bind (percentile fl 900 s) (\<lambda>p90.
      Option.bind (percentile fl 950 s) (\<lambda>p95.
      Option.bind (percentile fl 990 s) (\<lambda>p99.
      Option.bind (percentile fl 999 s) (\<lambda>p999.
        Some \<lparr>fn_flow_id = of_flow_id m,
              fn_elements_total = counter_read (of_elements_total m),
              fn_errors_total = counter_read (of_errors_total m),
              fn_copies_total = counter_read (of_copies_total m),
              fn_copy_bytes_total = counter_read (of_copy_bytes_total m),
              fn_latency_p50_ns = p50, fn_latency_p90_ns = p90, fn_latency_p95_ns = p95,
              fn_latency_p99_ns = p99, fn_latency_p999_ns = p999,
              fn_latency_min_ns = hs_min s, fn_latency_max_ns = hs_max s,
              fn_latency_mean_ns = snapshot_mean fl s, fn_components = components,
              fn_streams = map snapshot_stream (of_streams m)\<rparr>)))))))"

definition snapshot_delta :: "'f flow_snapshot \<Rightarrow> 'f flow_snapshot \<Rightarrow> 'f flow_snapshot" where
  "snapshot_delta start fin =
     \<lparr>fn_flow_id = fn_flow_id fin,
      fn_elements_total = saturating_sub_u64 (fn_elements_total fin) (fn_elements_total start),
      fn_errors_total = saturating_sub_u64 (fn_errors_total fin) (fn_errors_total start),
      fn_copies_total = saturating_sub_u64 (fn_copies_total fin) (fn_copies_total start),
      fn_copy_bytes_total =
        saturating_sub_u64 (fn_copy_bytes_total fin) (fn_copy_bytes_total start),
      fn_latency_p50_ns = fn_latency_p50_ns fin, fn_latency_p90_ns = fn_latency_p90_ns fin,
      fn_latency_p95_ns = fn_latency_p95_ns fin, fn_latency_p99_ns = fn_latency_p99_ns fin,
      fn_latency_p999_ns = fn_latency_p999_ns fin, fn_latency_min_ns = fn_latency_min_ns fin,
      fn_latency_max_ns = fn_latency_max_ns fin, fn_latency_mean_ns = fn_latency_mean_ns fin,
      fn_components = fn_components fin, fn_streams = fn_streams fin\<rparr>"

section \<open>The registry\<close>

record system_metrics =
  sy_active_flows :: gauge
  sy_active_components :: gauge
  sy_scheduler_wakeups :: counter
  sy_scheduler_idle_ns :: counter
  sy_spans_dropped :: counter
  sy_events_dropped :: counter

definition system_metrics_new :: system_metrics where
  "system_metrics_new =
     \<lparr>sy_active_flows = gauge_new, sy_active_components = gauge_new,
      sy_scheduler_wakeups = counter_new, sy_scheduler_idle_ns = counter_new,
      sy_spans_dropped = counter_new, sy_events_dropped = counter_new\<rparr>"

record metrics_registry =
  mr_flows :: "flow_id \<rightharpoonup> obs_flow"
  mr_system :: system_metrics
  mr_pools :: "pool_id \<rightharpoonup> obs_pool"

datatype registry_error =
    FlowAlreadyRegistered flow_id
  | FlowNotFound flow_id
  | LockPoisoned

fun registry_error_display :: "registry_error \<Rightarrow> string" where
  "registry_error_display (FlowAlreadyRegistered fid) =
     ''flow flow-'' @ decimal (unat (fid_as_u64 fid)) @
     '' is already registered in the metrics registry''"
| "registry_error_display (FlowNotFound fid) =
     ''flow flow-'' @ decimal (unat (fid_as_u64 fid)) @ '' not found in the metrics registry''"
| "registry_error_display LockPoisoned = ''metrics registry lock poisoned''"

definition metrics_registry_new :: metrics_registry where
  "metrics_registry_new =
     \<lparr>mr_flows = (\<lambda>_. None), mr_system = system_metrics_new, mr_pools = (\<lambda>_. None)\<rparr>"

definition registry_register_flow ::
  "flow_id \<Rightarrow> component_id list \<Rightarrow> stream_id list \<Rightarrow> u64 \<Rightarrow> metrics_registry \<Rightarrow>
   registry_error + obs_flow \<times> metrics_registry" where
  "registry_register_flow fid cids sids start reg =
     (let metrics = obs_flow_new fid cids sids start in
      if mr_flows reg fid \<noteq> None then Inl (FlowAlreadyRegistered fid)
      else let sys = mr_system reg in
        Inr (metrics,
          reg\<lparr>mr_flows := (mr_flows reg)(fid \<mapsto> metrics),
              mr_system := sys\<lparr>sy_active_flows := gauge_increment 1 (sy_active_flows sys),
                sy_active_components :=
                  gauge_increment (of_nat (length cids)) (sy_active_components sys)\<rparr>\<rparr>))"

definition registry_deregister_flow ::
  "flow_id \<Rightarrow> metrics_registry \<Rightarrow> registry_error + obs_flow \<times> metrics_registry" where
  "registry_deregister_flow fid reg =
     (case mr_flows reg fid of
        None \<Rightarrow> Inl (FlowNotFound fid)
      | Some metrics \<Rightarrow>
          let sys = mr_system reg in
          Inr (metrics,
            reg\<lparr>mr_flows := (mr_flows reg)(fid := None),
                mr_system := sys\<lparr>sy_active_flows := gauge_decrement 1 (sy_active_flows sys),
                  sy_active_components :=
                    gauge_decrement (of_nat (length (of_components metrics)))
                      (sy_active_components sys)\<rparr>\<rparr>))"

definition registry_get_flow :: "metrics_registry \<Rightarrow> flow_id \<Rightarrow> obs_flow option" where
  "registry_get_flow reg fid = mr_flows reg fid"

definition active_flow_ids :: "metrics_registry \<Rightarrow> flow_id set" where
  "active_flow_ids reg = dom (mr_flows reg)"

definition registry_register_pool :: "pool_id \<Rightarrow> metrics_registry \<Rightarrow> obs_pool \<times> metrics_registry" where
  "registry_register_pool pid reg =
     (let metrics = obs_pool_new pid in
      (metrics, reg\<lparr>mr_pools := (mr_pools reg)(pid \<mapsto> metrics)\<rparr>))"

definition registry_get_pool :: "metrics_registry \<Rightarrow> pool_id \<Rightarrow> obs_pool option" where
  "registry_get_pool reg pid = mr_pools reg pid"

end
