(* ===== verification/Obs_Tracer.thy ===== *)
theory Obs_Tracer
  imports Torvyn_Types
begin

text \<open>
  The tracing half of \<open>torvyn-observability\<close>: trace and span identifiers
  (\<open>torvyn-types/src/identity.rs\<close>, \<open>records.rs\<close>), trace flags and the flow's trace context
  (\<open>tracer/context.rs\<close>), head sampling and promotion (\<open>tracer/sampling.rs\<close>), the ring buffer of
  compact span records (\<open>tracer/ring_buffer.rs\<close>), and the derivation of span identifiers and
  the registry of trace states (\<open>tracer/registry.rs\<close>).

  The lemmas: a buffer is the tail of the history pushed since it was last drained; the key of
  a span identifier is the only information it loses.
\<close>

unbundle bit_operations_syntax

section \<open>Identifiers as bytes\<close>

definition to_le_bytes :: "u64 \<Rightarrow> u8 list" where
  "to_le_bytes x = map (\<lambda>i. ucast (drop_bit (8 * i) x)) [0 ..< 8]"

fun from_le_bytes :: "u8 list \<Rightarrow> u64" where
  "from_le_bytes [] = 0"
| "from_le_bytes (b # bs) = ucast b + 256 * from_le_bytes bs"

datatype trace_id = TraceId (trace_id_bytes: "u8 list")
datatype span_id = SpanId (span_id_bytes: "u8 list")

definition trace_id_is_valid :: "trace_id \<Rightarrow> bool" where
  "trace_id_is_valid t \<longleftrightarrow> trace_id_bytes t \<noteq> replicate 16 0"

definition trace_id_invalid :: trace_id where
  "trace_id_invalid = TraceId (replicate 16 0)"

definition span_id_is_valid :: "span_id \<Rightarrow> bool" where
  "span_id_is_valid s \<longleftrightarrow> span_id_bytes s \<noteq> replicate 8 0"

definition span_id_invalid :: span_id where
  "span_id_invalid = SpanId (replicate 8 0)"

definition hex_digit :: "nat \<Rightarrow> char" where
  "hex_digit n = (if n < 10 then char_of (48 + n) else char_of (87 + n))"

definition hex_byte :: "u8 \<Rightarrow> string" where
  "hex_byte b = [hex_digit (unat b div 16), hex_digit (unat b mod 16)]"

definition trace_id_display :: "trace_id \<Rightarrow> string" where
  "trace_id_display t = concat (map hex_byte (trace_id_bytes t))"

definition span_id_display :: "span_id \<Rightarrow> string" where
  "span_id_display s = concat (map hex_byte (span_id_bytes s))"

record trace_context =
  tc_trace_id :: trace_id
  tc_span_id :: span_id

definition trace_context_is_valid :: "trace_context \<Rightarrow> bool" where
  "trace_context_is_valid c \<longleftrightarrow>
     trace_id_is_valid (tc_trace_id c) \<and> span_id_is_valid (tc_span_id c)"

definition trace_context_disabled :: trace_context where
  "trace_context_disabled = \<lparr>tc_trace_id = trace_id_invalid, tc_span_id = span_id_invalid\<rparr>"

definition trace_context_display :: "trace_context \<Rightarrow> string" where
  "trace_context_display c =
     ''trace['' @ trace_id_display (tc_trace_id c) @ '':'' @ span_id_display (tc_span_id c) @ '']''"

section \<open>Flags and the flow's context\<close>

datatype trace_flags = TraceFlags (flag_bits: u8)

definition flags_none :: trace_flags where
  "flags_none = TraceFlags 0"

definition flags_sampled :: trace_flags where
  "flags_sampled = TraceFlags 1"

definition flags_diagnostic :: trace_flags where
  "flags_diagnostic = TraceFlags 2"

definition is_sampled :: "trace_flags \<Rightarrow> bool" where
  "is_sampled f \<longleftrightarrow> flag_bits f AND flag_bits flags_sampled \<noteq> 0"

definition is_diagnostic :: "trace_flags \<Rightarrow> bool" where
  "is_diagnostic f \<longleftrightarrow> flag_bits f AND flag_bits flags_diagnostic \<noteq> 0"

definition with_sampled :: "trace_flags \<Rightarrow> trace_flags" where
  "with_sampled f = TraceFlags (flag_bits f OR flag_bits flags_sampled)"

definition with_diagnostic :: "trace_flags \<Rightarrow> trace_flags" where
  "with_diagnostic f = TraceFlags (flag_bits f OR flag_bits flags_diagnostic)"

record flow_trace_context =
  ft_trace_ctx :: trace_context
  ft_parent_span_id :: span_id
  ft_flow_id :: flow_id
  ft_flags :: trace_flags

definition flow_trace_context_new :: "trace_id \<Rightarrow> span_id \<Rightarrow> flow_id \<Rightarrow> flow_trace_context" where
  "flow_trace_context_new tid root fid =
     \<lparr>ft_trace_ctx = \<lparr>tc_trace_id = tid, tc_span_id = root\<rparr>, ft_parent_span_id = span_id_invalid,
      ft_flow_id = fid, ft_flags = flags_none\<rparr>"

definition flow_trace_child :: "span_id \<Rightarrow> flow_trace_context \<Rightarrow> flow_trace_context" where
  "flow_trace_child sid c =
     \<lparr>ft_trace_ctx = \<lparr>tc_trace_id = tc_trace_id (ft_trace_ctx c), tc_span_id = sid\<rparr>,
      ft_parent_span_id = tc_span_id (ft_trace_ctx c), ft_flow_id = ft_flow_id c,
      ft_flags = ft_flags c\<rparr>"

definition set_sampled :: "flow_trace_context \<Rightarrow> flow_trace_context" where
  "set_sampled c = c\<lparr>ft_flags := with_sampled (ft_flags c)\<rparr>"

definition set_diagnostic :: "flow_trace_context \<Rightarrow> flow_trace_context" where
  "set_diagnostic c = c\<lparr>ft_flags := with_diagnostic (ft_flags c)\<rparr>"

text \<open>
  The generators take the clock, in nanoseconds since the epoch and cut to 64 bits; a clock
  before the epoch reads \<open>0\<close>.
\<close>

definition xorshift :: "u64 \<Rightarrow> u64" where
  "xorshift x =
     (let x = x XOR push_bit 13 x; x = x XOR drop_bit 7 x in x XOR push_bit 17 x)"

definition generate_trace_id :: "u64 \<Rightarrow> trace_id" where
  "generate_trace_id seed =
     (let a = xorshift seed; b = xorshift a in TraceId (to_le_bytes a @ to_le_bytes b))"

definition generate_span_id :: "u64 \<Rightarrow> span_id" where
  "generate_span_id seed = SpanId (to_le_bytes (xorshift seed))"

section \<open>Sampling\<close>

datatype sampling_decision = Drop | Sample

text \<open>
  The rate is a floating point number. What the sampler asks of it is whether it is at least
  one, whether it is at most zero, and the threshold \<open>(rate * u64::MAX as f64) as u64\<close>.
\<close>

record sample_rate =
  sr_at_least_one :: bool
  sr_at_most_zero :: bool
  sr_threshold :: u64

record sampler =
  sa_sample_rate :: sample_rate
  sa_error_promote :: bool
  sa_latency_promote_threshold_ns :: u64

definition sampler_new :: "sample_rate \<Rightarrow> bool \<Rightarrow> u64 \<Rightarrow> sampler option" where
  "sampler_new rate error_promote threshold_ms =
     (if unat threshold_ms * 1000000 \<ge> 2 ^ 64 then None
      else Some \<lparr>sa_sample_rate = rate, sa_error_promote = error_promote,
                 sa_latency_promote_threshold_ns = threshold_ms * 1000000\<rparr>)"

definition should_sample_head :: "sampler \<Rightarrow> u8 list \<Rightarrow> sampling_decision" where
  "should_sample_head s bytes =
     (if sr_at_least_one (sa_sample_rate s) then Sample
      else if sr_at_most_zero (sa_sample_rate s) then Drop
      else if from_le_bytes (take 8 (drop 8 bytes)) \<le> sr_threshold (sa_sample_rate s) then Sample
      else Drop)"

definition should_promote_error :: "sampler \<Rightarrow> bool" where
  "should_promote_error s = sa_error_promote s"

definition should_promote_latency :: "sampler \<Rightarrow> u64 \<Rightarrow> bool" where
  "should_promote_latency s latency_ns \<longleftrightarrow>
     sa_latency_promote_threshold_ns s > 0 \<and> latency_ns > sa_latency_promote_threshold_ns s"

section \<open>The ring buffer of spans\<close>

record compact_span_record =
  sp_span_id :: span_id
  sp_parent_span_id :: span_id
  sp_component_id :: component_id
  sp_start_ns :: u64
  sp_end_ns :: u64
  sp_status_code :: u8
  sp_element_sequence :: u64

definition span_zeroed :: compact_span_record where
  "span_zeroed =
     \<lparr>sp_span_id = span_id_invalid, sp_parent_span_id = span_id_invalid,
      sp_component_id = ComponentId 0, sp_start_ns = 0, sp_end_ns = 0, sp_status_code = 0,
      sp_element_sequence = 0\<rparr>"

definition span_duration_ns :: "compact_span_record \<Rightarrow> u64" where
  "span_duration_ns r = saturating_sub_u64 (sp_end_ns r) (sp_start_ns r)"

definition span_is_error :: "compact_span_record \<Rightarrow> bool" where
  "span_is_error r \<longleftrightarrow> sp_status_code r = 1"

record span_ring_buffer =
  sb_slots :: "compact_span_record list"
  sb_write_pos :: u64
  sb_mask :: u64
  sb_capacity :: usize

definition span_buffer_new :: "usize \<Rightarrow> span_ring_buffer" where
  "span_buffer_new cap =
     \<lparr>sb_slots = replicate cap span_zeroed, sb_write_pos = 0, sb_mask = of_nat cap - 1,
      sb_capacity = cap\<rparr>"

definition span_buffer_push ::
  "compact_span_record \<Rightarrow> span_ring_buffer \<Rightarrow> span_ring_buffer option" where
  "span_buffer_push r b =
     (let idx = unat (sb_write_pos b AND sb_mask b) in
      if idx < length (sb_slots b) then
        Some (b\<lparr>sb_slots := (sb_slots b)[idx := r], sb_write_pos := sb_write_pos b + 1\<rparr>)
      else None)"

definition span_buffer_len :: "span_ring_buffer \<Rightarrow> usize" where
  "span_buffer_len b = unat (min (sb_write_pos b) (of_nat (sb_capacity b)))"

definition span_buffer_is_empty :: "span_ring_buffer \<Rightarrow> bool" where
  "span_buffer_is_empty b \<longleftrightarrow> sb_write_pos b = 0"

definition span_buffer_has_wrapped :: "span_ring_buffer \<Rightarrow> bool" where
  "span_buffer_has_wrapped b \<longleftrightarrow> sb_write_pos b \<ge> of_nat (sb_capacity b)"

text \<open>Reading the slots at a list of indices; one out of range is \<open>None\<close>.\<close>

fun read_slots :: "compact_span_record list \<Rightarrow> nat list \<Rightarrow> compact_span_record list option" where
  "read_slots slots [] = Some []"
| "read_slots slots (i # is) =
     (if i < length slots then map_option ((#) (slots ! i)) (read_slots slots is) else None)"

definition span_buffer_drain ::
  "span_ring_buffer \<Rightarrow> (compact_span_record list \<times> span_ring_buffer) option" where
  "span_buffer_drain b =
     (let total = span_buffer_len b;
          start = unat (sb_write_pos b AND sb_mask b);
          indices =
            (if sb_write_pos b \<le> of_nat (sb_capacity b) then [0 ..< total]
             else map (\<lambda>i. (start + i) mod sb_capacity b) [0 ..< sb_capacity b])
      in map_option (\<lambda>rs. (rs, b\<lparr>sb_write_pos := 0\<rparr>)) (read_slots (sb_slots b) indices))"

fun any_error_at :: "compact_span_record list \<Rightarrow> nat list \<Rightarrow> bool option" where
  "any_error_at slots [] = Some False"
| "any_error_at slots (i # is) =
     (if i < length slots then
        if span_is_error (slots ! i) then Some True else any_error_at slots is
      else None)"

definition span_buffer_contains_error :: "span_ring_buffer \<Rightarrow> bool option" where
  "span_buffer_contains_error b =
     any_error_at (sb_slots b)
       (map (\<lambda>i. if span_buffer_has_wrapped b
                 then (unat (sb_write_pos b AND sb_mask b) + i) mod sb_capacity b else i)
          [0 ..< span_buffer_len b])"

section \<open>Deriving span identifiers\<close>

definition splitmix64 :: "u64 \<Rightarrow> u64" where
  "splitmix64 x =
     (let x = x + 0x9E3779B97F4A7C15;
          x = (x XOR drop_bit 30 x) * 0xBF58476D1CE4E5B9;
          x = (x XOR drop_bit 27 x) * 0x94D049BB133111EB
      in x XOR drop_bit 31 x)"

definition span_key :: "flow_id \<Rightarrow> component_id \<Rightarrow> u64 \<Rightarrow> u64" where
  "span_key fid cid sequence =
     (sequence XOR word_rotl 21 (cid_as_u64 cid)) XOR word_rotl 43 (fid_as_u64 fid)"

definition derive_span_id :: "flow_id \<Rightarrow> component_id \<Rightarrow> u64 \<Rightarrow> span_id" where
  "derive_span_id fid cid sequence = SpanId (to_le_bytes (splitmix64 (span_key fid cid sequence)))"

section \<open>Trace states and their registry\<close>

record flow_trace_state =
  fs_context :: flow_trace_context
  fs_spans :: span_ring_buffer

definition flow_trace_state_new :: "flow_trace_context \<Rightarrow> usize \<Rightarrow> flow_trace_state" where
  "flow_trace_state_new ctx cap = \<lparr>fs_context = ctx, fs_spans = span_buffer_new cap\<rparr>"

definition trace_state_is_sampled :: "flow_trace_state \<Rightarrow> bool" where
  "trace_state_is_sampled s \<longleftrightarrow> is_sampled (ft_flags (fs_context s))"

definition push_span :: "compact_span_record \<Rightarrow> flow_trace_state \<Rightarrow> flow_trace_state option" where
  "push_span r s = map_option (\<lambda>b. s\<lparr>fs_spans := b\<rparr>) (span_buffer_push r (fs_spans s))"

definition drain_spans ::
  "flow_trace_state \<Rightarrow> (compact_span_record list \<times> flow_trace_state) option" where
  "drain_spans s = map_option (\<lambda>(rs, b). (rs, s\<lparr>fs_spans := b\<rparr>)) (span_buffer_drain (fs_spans s))"

definition span_count :: "flow_trace_state \<Rightarrow> usize" where
  "span_count s = span_buffer_len (fs_spans s)"

definition trace_state_has_wrapped :: "flow_trace_state \<Rightarrow> bool" where
  "trace_state_has_wrapped s \<longleftrightarrow> span_buffer_has_wrapped (fs_spans s)"

type_synonym trace_registry = "flow_id \<rightharpoonup> flow_trace_state"

definition trace_registry_new :: trace_registry where
  "trace_registry_new = (\<lambda>_. None)"

definition trace_register :: "flow_id \<Rightarrow> flow_trace_state \<Rightarrow> trace_registry \<Rightarrow> trace_registry" where
  "trace_register fid s reg = reg(fid \<mapsto> s)"

definition trace_get :: "flow_id \<Rightarrow> trace_registry \<Rightarrow> flow_trace_state option" where
  "trace_get fid reg = reg fid"

definition trace_deregister ::
  "flow_id \<Rightarrow> trace_registry \<Rightarrow> flow_trace_state option \<times> trace_registry" where
  "trace_deregister fid reg = (reg fid, reg(fid := None))"

definition trace_registry_len :: "trace_registry \<Rightarrow> nat" where
  "trace_registry_len reg = card (dom reg)"

section \<open>The buffer holds the tail of its history\<close>

text \<open>
  \<open>holds_history b rs\<close>: since it was created or last drained, \<open>rs\<close> were pushed, and the slots
  keep those of the last \<open>capacity\<close> pushes, each at its position modulo the capacity.
\<close>

definition holds_history :: "span_ring_buffer \<Rightarrow> compact_span_record list \<Rightarrow> bool" where
  "holds_history b rs \<longleftrightarrow>
     (\<exists>k. k < 64 \<and> sb_capacity b = 2 ^ k) \<and>
     sb_mask b = of_nat (sb_capacity b) - 1 \<and>
     length (sb_slots b) = sb_capacity b \<and>
     unat (sb_write_pos b) = length rs \<and>
     (\<forall>i < length rs. length rs \<le> i + sb_capacity b \<longrightarrow>
        sb_slots b ! (i mod sb_capacity b) = rs ! i)"

definition last_n :: "nat \<Rightarrow> 'a list \<Rightarrow> 'a list" where
  "last_n n xs = drop (length xs - n) xs"

lemma length_last_n [simp]: "length (last_n n xs) = min n (length xs)"
  by (simp add: last_n_def min_def)

lemma last_n_all: "length xs \<le> n \<Longrightarrow> last_n n xs = xs"
  by (simp add: last_n_def)

lemma nth_last_n: "i < min n (length xs) \<Longrightarrow> last_n n xs ! i = xs ! (length xs - n + i)"
  by (simp add: last_n_def)

lemma unat_and_mask_u64:
  "k < 64 \<Longrightarrow> unat ((w :: u64) AND (of_nat (2 ^ k) - 1)) = unat w mod 2 ^ k"
proof -
  assume "k < 64"
  have "w AND (of_nat (2 ^ k) - 1) = take_bit k w"
    by (simp add: take_bit_eq_mask mask_eq_exp_minus_1)
  then have "unat (w AND (of_nat (2 ^ k) - 1)) = take_bit k (unat w)"
    by (simp only: unsigned_take_bit_eq)
  then show ?thesis by (simp only: take_bit_eq_mod)
qed

lemma capacity_bounds:
  assumes "holds_history b rs"
  shows "0 < sb_capacity b" "sb_capacity b < 18446744073709551616"
    "unat (of_nat (sb_capacity b) :: u64) = sb_capacity b"
    "unat (w AND sb_mask b) = unat w mod sb_capacity b"
proof -
  obtain k where k: "k < 64" "sb_capacity b = 2 ^ k"
    using assms by (auto simp: holds_history_def)
  have "(2 :: nat) ^ k < 2 ^ 64" using k(1) by (intro power_strict_increasing) auto
  then show *: "sb_capacity b < 18446744073709551616" using k(2) by simp
  show "0 < sb_capacity b" using k(2) by simp
  show "unat (of_nat (sb_capacity b) :: u64) = sb_capacity b" using * by simp
  show "unat (w AND sb_mask b) = unat w mod sb_capacity b"
    using assms k unat_and_mask_u64 [OF k(1), of w] by (simp add: holds_history_def)
qed

lemma holds_history_new:
  "k < 64 \<Longrightarrow> holds_history (span_buffer_new (2 ^ k)) []"
  by (auto simp: holds_history_def span_buffer_new_def)

lemma span_buffer_len_history:
  assumes "holds_history b rs"
  shows "span_buffer_len b = min (length rs) (sb_capacity b)"
  using assms capacity_bounds(3) [OF assms]
  by (auto simp: span_buffer_len_def holds_history_def min_def word_le_nat_alt)

lemma span_buffer_has_wrapped_history:
  assumes "holds_history b rs"
  shows "span_buffer_has_wrapped b \<longleftrightarrow> sb_capacity b \<le> length rs"
  using assms capacity_bounds(3) [OF assms]
  by (auto simp: span_buffer_has_wrapped_def holds_history_def word_le_nat_alt)

lemma span_buffer_push_history:
  assumes h: "holds_history b rs" and n: "length rs + 1 < 2 ^ 64"
  obtains b' where "span_buffer_push r b = Some b'" "holds_history b' (rs @ [r])"
    "sb_capacity b' = sb_capacity b"
proof -
  let ?c = "sb_capacity b"
  have idx: "unat (sb_write_pos b AND sb_mask b) = length rs mod ?c"
    using capacity_bounds(4) [OF h] h by (simp add: holds_history_def)
  have c: "0 < ?c" by (rule capacity_bounds(1) [OF h])
  define b' where "b' = b\<lparr>sb_slots := (sb_slots b)[length rs mod ?c := r],
                          sb_write_pos := sb_write_pos b + 1\<rparr>"
  have len: "length (sb_slots b) = ?c" using h by (simp add: holds_history_def)
  have push: "span_buffer_push r b = Some b'"
    using c by (simp add: span_buffer_push_def idx len b'_def Let_def)
  have pos: "unat (sb_write_pos b + 1) = length rs + 1"
    using h n by (subst unat_add_u64) (auto simp: holds_history_def)
  have slots: "(sb_slots b)[length rs mod ?c := r] ! (i mod ?c) = (rs @ [r]) ! i"
    if i: "i < length rs + 1" "length rs + 1 \<le> i + ?c" for i
  proof (cases "i = length rs")
    case True
    then show ?thesis using c h by (simp add: holds_history_def)
  next
    case False
    then have "i < length rs" "length rs \<le> i + ?c" using i by auto
    moreover have "i mod ?c \<noteq> length rs mod ?c"
    proof
      assume "i mod ?c = length rs mod ?c"
      then have "?c dvd length rs - i"
        using \<open>i < length rs\<close> by (metis mod_eq_dvd_iff_nat nat_less_le)
      then show False using i False \<open>i < length rs\<close> by (auto dest: dvd_imp_le)
    qed
    ultimately show ?thesis using h by (simp add: holds_history_def nth_append)
  qed
  have "holds_history b' (rs @ [r])"
    using h pos slots by (auto simp: holds_history_def b'_def)
  with push show ?thesis by (rule that) (simp add: b'_def)
qed

text \<open>Where the retained records are, in order: the index of the \<open>i\<close>-th.\<close>

lemma retained_slot:
  assumes h: "holds_history b rs" and i: "i < min (length rs) (sb_capacity b)"
  shows "sb_slots b ! ((length rs - sb_capacity b + i) mod sb_capacity b) =
         last_n (sb_capacity b) rs ! i"
  using h i by (auto simp: holds_history_def nth_last_n)

lemma start_slot:
  assumes "sb_capacity b \<le> length rs" "0 < sb_capacity b"
  shows "(length rs mod sb_capacity b + i) mod sb_capacity b =
         (length rs - sb_capacity b + i) mod sb_capacity b"
  using assms by (metis le_mod_geq mod_add_left_eq)

lemma read_slots_map:
  "(\<And>i. i \<in> set is \<Longrightarrow> i < length slots) \<Longrightarrow> read_slots slots is = Some (map ((!) slots) is)"
  by (induction "is") auto

lemma any_error_at_map:
  "(\<And>i. i \<in> set is \<Longrightarrow> i < length slots) \<Longrightarrow>
   any_error_at slots is = Some (list_ex span_is_error (map ((!) slots) is))"
  by (induction "is") auto

lemma retained_indices:
  assumes h: "holds_history b rs" and w: "sb_capacity b \<le> length rs"
  shows "map ((!) (sb_slots b))
           (map (\<lambda>i. (length rs mod sb_capacity b + i) mod sb_capacity b) [0 ..< sb_capacity b]) =
         last_n (sb_capacity b) rs"
  using capacity_bounds(1) [OF h] w retained_slot [OF h]
  by (intro nth_equalityI) (simp_all add: start_slot)

lemma retained_prefix:
  assumes h: "holds_history b rs" and w: "length rs \<le> sb_capacity b"
  shows "map ((!) (sb_slots b)) [0 ..< length rs] = last_n (sb_capacity b) rs"
  using w retained_slot [OF h] by (intro nth_equalityI) (simp_all add: last_n_all)

lemma span_buffer_drain_history:
  assumes h: "holds_history b rs"
  shows "\<exists>b'. span_buffer_drain b = Some (last_n (sb_capacity b) rs, b') \<and>
              holds_history b' [] \<and> sb_capacity b' = sb_capacity b"
proof -
  let ?c = "sb_capacity b" and ?b' = "b\<lparr>sb_write_pos := 0\<rparr>"
  have start: "unat (sb_write_pos b AND sb_mask b) = length rs mod ?c"
    using capacity_bounds(4) [OF h] h by (simp add: holds_history_def)
  have cond: "sb_write_pos b \<le> of_nat ?c \<longleftrightarrow> length rs \<le> ?c"
    using capacity_bounds(3) [OF h] h by (simp add: holds_history_def word_le_nat_alt)
  have len: "length (sb_slots b) = ?c" using h by (simp add: holds_history_def)
  have c: "0 < ?c" by (rule capacity_bounds(1) [OF h])
  have "span_buffer_drain b = Some (last_n ?c rs, ?b')"
  proof (cases "length rs \<le> ?c")
    case True
    then have "read_slots (sb_slots b) [0 ..< length rs] = Some (last_n ?c rs)"
      using len retained_prefix [OF h] by (subst read_slots_map) auto
    with True show ?thesis
      by (simp add: span_buffer_drain_def span_buffer_len_history [OF h] cond start Let_def min_def)
  next
    case False
    then have "read_slots (sb_slots b) (map (\<lambda>i. (length rs mod ?c + i) mod ?c) [0 ..< ?c]) =
        Some (last_n ?c rs)"
      using c len retained_indices [OF h] by (subst read_slots_map) auto
    with False show ?thesis
      by (simp add: span_buffer_drain_def cond start Let_def)
  qed
  moreover have "holds_history ?b' []"
    using h by (simp add: holds_history_def)
  ultimately show ?thesis by auto
qed

lemma span_buffer_contains_error_history:
  assumes h: "holds_history b rs"
  shows "span_buffer_contains_error b = Some (list_ex span_is_error (last_n (sb_capacity b) rs))"
proof -
  let ?c = "sb_capacity b"
  have start: "unat (sb_write_pos b AND sb_mask b) = length rs mod ?c"
    using capacity_bounds(4) [OF h] h by (simp add: holds_history_def)
  have len: "length (sb_slots b) = ?c" using h by (simp add: holds_history_def)
  have c: "0 < ?c" by (rule capacity_bounds(1) [OF h])
  show ?thesis
  proof (cases "?c \<le> length rs")
    case True
    then have "span_buffer_contains_error b =
        any_error_at (sb_slots b) (map (\<lambda>i. (length rs mod ?c + i) mod ?c) [0 ..< ?c])"
      by (simp add: span_buffer_contains_error_def span_buffer_len_history [OF h]
          span_buffer_has_wrapped_history [OF h] start min_def)
    also have "\<dots> = Some (list_ex span_is_error (last_n ?c rs))"
      using c len retained_indices [OF h True] by (subst any_error_at_map) auto
    finally show ?thesis .
  next
    case False
    then have "span_buffer_contains_error b = any_error_at (sb_slots b) [0 ..< length rs]"
      by (simp add: span_buffer_contains_error_def span_buffer_len_history [OF h]
          span_buffer_has_wrapped_history [OF h] min_def)
    also have "\<dots> = Some (list_ex span_is_error (last_n ?c rs))"
      using False len retained_prefix [OF h] by (subst any_error_at_map) auto
    finally show ?thesis .
  qed
qed

section \<open>What a span identifier determines\<close>

lemma xor_drop_bit_inj:
  fixes x y :: u64
  assumes "x XOR drop_bit n x = y XOR drop_bit n y" "0 < n"
  shows "x = y"
proof -
  let ?z = "x XOR y"
  have step: "bit ?z i \<longleftrightarrow> bit ?z (i + n)" for i
  proof -
    have "bit (x XOR drop_bit n x) i = bit (y XOR drop_bit n y) i" using assms(1) by simp
    then show ?thesis by (auto simp: bit_xor_iff bit_drop_bit_eq add.commute)
  qed
  have far: "bit ?z i \<longleftrightarrow> bit ?z (i + m * n)" for i m
  proof (induction m)
    case (Suc m)
    then show ?case using step [of "i + m * n"] by (simp add: algebra_simps)
  qed simp
  have "\<not> bit ?z i" for i
  proof
    assume "bit ?z i"
    then have "bit ?z (i + 64 * n)" using far [of i 64] by simp
    then have "i + 64 * n < 64" using bit_imp_le_length [of ?z] by simp
    with assms(2) show False by simp
  qed
  then show ?thesis by (intro bit_word_eqI) (simp add: bit_xor_iff)
qed

lemma mult_inverse_inj:
  fixes x y :: u64
  assumes "x * k = y * k" "k * l = 1"
  shows "x = y"
proof -
  have "x = (x * k) * l" using assms(2) by (simp add: mult.assoc)
  also have "\<dots> = y" using assms by (simp add: mult.assoc)
  finally show ?thesis .
qed

definition mix_step :: "nat \<Rightarrow> u64 \<Rightarrow> u64 \<Rightarrow> u64" where
  "mix_step n k x = (x XOR drop_bit n x) * k"

lemma splitmix64_steps:
  "splitmix64 x =
     (let z = mix_step 27 0x94D049BB133111EB
                (mix_step 30 0xBF58476D1CE4E5B9 (x + 0x9E3779B97F4A7C15))
      in z XOR drop_bit 31 z)"
  unfolding splitmix64_def mix_step_def Let_def ..

lemma mix_step_inj:
  "mix_step n k x = mix_step n k y \<Longrightarrow> k * l = 1 \<Longrightarrow> 0 < n \<Longrightarrow> x = y"
  unfolding mix_step_def by (rule xor_drop_bit_inj [OF mult_inverse_inj])

lemma splitmix64_inj: "splitmix64 x = splitmix64 y \<longleftrightarrow> x = y"
proof
  assume "splitmix64 x = splitmix64 y"
  then have "mix_step 27 0x94D049BB133111EB (mix_step 30 0xBF58476D1CE4E5B9 (x + 0x9E3779B97F4A7C15)) =
      mix_step 27 0x94D049BB133111EB (mix_step 30 0xBF58476D1CE4E5B9 (y + 0x9E3779B97F4A7C15))"
    unfolding splitmix64_steps Let_def by (rule xor_drop_bit_inj) simp
  then have "mix_step 30 0xBF58476D1CE4E5B9 (x + 0x9E3779B97F4A7C15) =
      mix_step 30 0xBF58476D1CE4E5B9 (y + 0x9E3779B97F4A7C15)"
    by (rule mix_step_inj [where l = "0x319642b2d24d8ec3"]) simp_all
  then have "x + 0x9E3779B97F4A7C15 = y + 0x9E3779B97F4A7C15"
    by (rule mix_step_inj [where l = "0x96de1b173f119089"]) simp_all
  then show "x = y" by (rule add_right_imp_eq)
qed simp

lemma bit_from_bytes:
  assumes "n < 64"
  shows "bit x n \<longleftrightarrow> bit (to_le_bytes x ! (n div 8)) (n mod 8)"
  using assms
  by (simp add: to_le_bytes_def bit_ucast_iff bit_drop_bit_eq nth_map less_mult_imp_div_less)

lemma to_le_bytes_inj: "to_le_bytes x = to_le_bytes y \<longleftrightarrow> x = y"
proof
  assume "to_le_bytes x = to_le_bytes y"
  then show "x = y" by (intro bit_word_eqI) (simp add: bit_from_bytes)
qed simp

lemma length_to_le_bytes [simp]: "length (to_le_bytes x) = 8"
  by (simp add: to_le_bytes_def)

lemma derive_span_id_eq_iff:
  "derive_span_id f c s = derive_span_id f' c' s' \<longleftrightarrow> span_key f c s = span_key f' c' s'"
  by (simp add: derive_span_id_def to_le_bytes_inj splitmix64_inj)

lemma xor_right_cancel: "(a :: u64) XOR b = c XOR b \<longleftrightarrow> a = c"
proof
  assume "a XOR b = c XOR b"
  then have "bit (a XOR b) n = bit (c XOR b) n" for n by simp
  then show "a = c" by (intro bit_word_eqI) (auto simp: bit_xor_iff)
qed simp

lemma span_key_eq_iff:
  "span_key f c s = span_key f c' s' \<longleftrightarrow>
   s XOR word_rotl 21 (cid_as_u64 c) = s' XOR word_rotl 21 (cid_as_u64 c')"
  unfolding span_key_def by (rule xor_right_cancel)

text \<open>
  Component identifiers below \<open>2 ^ 43\<close> keep clear of the sequence numbers below \<open>2 ^ 21\<close>, so
  the two are read back from the key.
\<close>

lemma key_separates:
  fixes s c s' c' :: u64
  assumes "s XOR word_rotl 21 c = s' XOR word_rotl 21 c'"
    and "unat s < 2 ^ 21" "unat s' < 2 ^ 21" "unat c < 2 ^ 43" "unat c' < 2 ^ 43"
  shows "s = s'" "c = c'"
proof -
  have small: "\<not> bit w n" if "unat w < 2 ^ k" "k \<le> n" for w :: u64 and k n
  proof -
    have "(2 :: nat) ^ k \<le> 2 ^ n" using that(2) by (intro power_increasing) auto
    with that(1) have "unat w < 2 ^ n" by (rule order.strict_trans2)
    then have "\<not> bit (unat w) n" by (simp add: bit_iff_odd)
    then show ?thesis by (simp add: bit_unsigned_iff bit_imp_le_length)
  qed
  have bits: "bit (s XOR word_rotl 21 c) n = bit (s' XOR word_rotl 21 c') n" for n
    using assms(1) by simp
  show "s = s'"
  proof (rule bit_word_eqI)
    fix n assume n: "n < LENGTH(64)"
    show "bit s n = bit s' n"
    proof (cases "n < 21")
      case True
      have "\<not> bit c (n + 43)" "\<not> bit c' (n + 43)"
        by (rule small [OF assms(4)], simp, rule small [OF assms(5)], simp)
      then show ?thesis using bits [of n] True n
        by (simp add: bit_xor_iff bit_word_rotl_iff)
    qed (simp add: small [OF assms(2)] small [OF assms(3)])
  qed
  then have rot: "word_rotl 21 c = word_rotl 21 c'"
    using assms(1) xor_right_cancel [of "word_rotl 21 c" s "word_rotl 21 c'"]
    by (simp add: ac_simps)
  show "c = c'"
    using rot by (metis word_rot_lr)
qed

end
