(* ===== verification/Obs_Events.thy ===== *)
theory Obs_Events
  imports Obs_Metrics Obs_Tracer
begin

text \<open>
  Diagnostic events (\<open>events/types.rs\<close>), the bounded channel that carries them and the buffer
  that keeps the most recent ones (\<open>events/recorder.rs\<close>), and the configuration of
  \<open>torvyn-observability\<close> with its validation (\<open>config.rs\<close>).
\<close>

section \<open>Events\<close>

datatype severity = SevTrace | SevDebug | SevInfo | SevWarn | SevError

datatype event_category =
    CatLifecycle | CatPerformance | CatError | CatSecurity | CatResource

fun event_category_display :: "event_category \<Rightarrow> string" where
  "event_category_display CatLifecycle = ''lifecycle''"
| "event_category_display CatPerformance = ''performance''"
| "event_category_display CatError = ''error''"
| "event_category_display CatSecurity = ''security''"
| "event_category_display CatResource = ''resource''"

datatype event_payload =
    EvFlowCreated "component_id list" u64
  | EvFlowStarted u32
  | EvFlowDraining string
  | EvFlowCompleted u64 u64
  | EvFlowCancelled string u64
  | EvFlowFailed string "component_id option"
  | EvComponentInstantiated string u64
  | EvComponentLinked u32 u32
  | EvComponentTerminated string u64
  | EvBackpressureActivated stream_id component_id component_id u32
  | EvBackpressureDeactivated stream_id u64
  | EvComponentSlow u64 u64
  | EvSchedulerStarvation component_id u64
  | EvFlowLatencySpike u64 u64 u64
  | EvComponentError string string
  | EvComponentTrap string string
  | EvComponentTimeout u64 u64
  | EvComponentFuelExhausted u64
  | EvFlowErrorBudgetExceeded u64 u64
  | EvCapabilityDenied string string
  | EvCapabilityExercised string
  | EvSignatureVerified string string
  | EvSignatureFailed string
  | EvResourceAllocated u64 u32 u64
  | EvResourceCopied u64 component_id component_id u64 string
  | EvResourceTransferred u64 string string string
  | EvResourceFreed u64 u32
  | EvPoolExhausted u32 u64 u32
  | EvResourceLeakSuspected u64 string u64

fun payload_name :: "event_payload \<Rightarrow> string" where
  "payload_name (EvFlowCreated _ _) = ''flow.created''"
| "payload_name (EvFlowStarted _) = ''flow.started''"
| "payload_name (EvFlowDraining _) = ''flow.draining''"
| "payload_name (EvFlowCompleted _ _) = ''flow.completed''"
| "payload_name (EvFlowCancelled _ _) = ''flow.cancelled''"
| "payload_name (EvFlowFailed _ _) = ''flow.failed''"
| "payload_name (EvComponentInstantiated _ _) = ''component.instantiated''"
| "payload_name (EvComponentLinked _ _) = ''component.linked''"
| "payload_name (EvComponentTerminated _ _) = ''component.terminated''"
| "payload_name (EvBackpressureActivated _ _ _ _) = ''backpressure.activated''"
| "payload_name (EvBackpressureDeactivated _ _) = ''backpressure.deactivated''"
| "payload_name (EvComponentSlow _ _) = ''component.slow''"
| "payload_name (EvSchedulerStarvation _ _) = ''scheduler.starvation''"
| "payload_name (EvFlowLatencySpike _ _ _) = ''flow.latency_spike''"
| "payload_name (EvComponentError _ _) = ''component.error''"
| "payload_name (EvComponentTrap _ _) = ''component.trap''"
| "payload_name (EvComponentTimeout _ _) = ''component.timeout''"
| "payload_name (EvComponentFuelExhausted _) = ''component.fuel_exhausted''"
| "payload_name (EvFlowErrorBudgetExceeded _ _) = ''flow.error_budget_exceeded''"
| "payload_name (EvCapabilityDenied _ _) = ''capability.denied''"
| "payload_name (EvCapabilityExercised _) = ''capability.exercised''"
| "payload_name (EvSignatureVerified _ _) = ''component.signature_verified''"
| "payload_name (EvSignatureFailed _) = ''component.signature_failed''"
| "payload_name (EvResourceAllocated _ _ _) = ''resource.allocated''"
| "payload_name (EvResourceCopied _ _ _ _ _) = ''resource.copied''"
| "payload_name (EvResourceTransferred _ _ _ _) = ''resource.transferred''"
| "payload_name (EvResourceFreed _ _) = ''resource.freed''"
| "payload_name (EvPoolExhausted _ _ _) = ''pool.exhausted''"
| "payload_name (EvResourceLeakSuspected _ _ _) = ''resource.leak_suspected''"

record diagnostic_event =
  de_timestamp_ns :: u64
  de_severity :: severity
  de_category :: event_category
  de_flow_id :: "flow_id option"
  de_component_id :: "component_id option"
  de_trace_context :: "trace_context option"
  de_payload :: event_payload
  de_is_critical :: bool

definition diagnostic_event_new ::
  "u64 \<Rightarrow> severity \<Rightarrow> event_category \<Rightarrow> event_payload \<Rightarrow> diagnostic_event" where
  "diagnostic_event_new now sev cat payload =
     \<lparr>de_timestamp_ns = now, de_severity = sev, de_category = cat, de_flow_id = None,
      de_component_id = None, de_trace_context = None, de_payload = payload,
      de_is_critical = False\<rparr>"

definition event_with_flow :: "flow_id \<Rightarrow> diagnostic_event \<Rightarrow> diagnostic_event" where
  "event_with_flow fid e = e\<lparr>de_flow_id := Some fid\<rparr>"

definition event_with_component :: "component_id \<Rightarrow> diagnostic_event \<Rightarrow> diagnostic_event" where
  "event_with_component cid e = e\<lparr>de_component_id := Some cid\<rparr>"

definition event_with_trace :: "trace_context \<Rightarrow> diagnostic_event \<Rightarrow> diagnostic_event" where
  "event_with_trace ctx e = e\<lparr>de_trace_context := Some ctx\<rparr>"

definition event_critical :: "diagnostic_event \<Rightarrow> diagnostic_event" where
  "event_critical e = e\<lparr>de_is_critical := True\<rparr>"

definition event_name :: "diagnostic_event \<Rightarrow> string" where
  "event_name e = payload_name (de_payload e)"

section \<open>The channel and the buffer\<close>

text \<open>
  The channel of the runtime library, as far as the code uses it: a queue of bounded length with
  an open or closed receiver. \<open>try_send\<close> fails when the queue is full or the
  receiver is gone, and a channel of no capacity cannot be created: the call panics.
\<close>

record event_channel =
  ch_queue :: "diagnostic_event list"
  ch_capacity :: usize
  ch_open :: bool

definition event_channel_new :: "usize \<Rightarrow> event_channel option" where
  "event_channel_new cap =
     (if cap = 0 then None
      else Some \<lparr>ch_queue = [], ch_capacity = cap, ch_open = True\<rparr>)"

definition try_send :: "diagnostic_event \<Rightarrow> event_channel \<Rightarrow> event_channel option" where
  "try_send e ch =
     (if ch_open ch \<and> length (ch_queue ch) < ch_capacity ch
      then Some (ch\<lparr>ch_queue := ch_queue ch @ [e]\<rparr>) else None)"

record event_buffer =
  eb_events :: "diagnostic_event list"
  eb_capacity :: usize

definition event_buffer_new :: "usize \<Rightarrow> event_buffer" where
  "event_buffer_new cap = \<lparr>eb_events = [], eb_capacity = cap\<rparr>"

definition event_buffer_push :: "diagnostic_event \<Rightarrow> event_buffer \<Rightarrow> event_buffer" where
  "event_buffer_push e b =
     (let events = (if length (eb_events b) \<ge> eb_capacity b then tl (eb_events b) else eb_events b)
      in b\<lparr>eb_events := events @ [e]\<rparr>)"

definition event_buffer_recent :: "nat \<Rightarrow> event_buffer \<Rightarrow> diagnostic_event list" where
  "event_buffer_recent count b = take count (rev (eb_events b))"

definition event_buffer_for_flow :: "flow_id \<Rightarrow> event_buffer \<Rightarrow> diagnostic_event list" where
  "event_buffer_for_flow fid b = filter (\<lambda>e. de_flow_id e = Some fid) (eb_events b)"

definition event_buffer_len :: "event_buffer \<Rightarrow> nat" where
  "event_buffer_len b = length (eb_events b)"

definition event_buffer_is_empty :: "event_buffer \<Rightarrow> bool" where
  "event_buffer_is_empty b \<longleftrightarrow> event_buffer_len b = 0"

text \<open>One round of the recorder: an event leaves the channel and enters the buffer.\<close>

definition recorder_step ::
  "event_channel \<Rightarrow> event_buffer \<Rightarrow> (event_channel \<times> event_buffer) option" where
  "recorder_step ch b =
     (case ch_queue ch of
        [] \<Rightarrow> None
      | e # es \<Rightarrow> Some (ch\<lparr>ch_queue := es\<rparr>, event_buffer_push e b))"

lemma event_buffer_push_capacity [simp]: "eb_capacity (event_buffer_push e b) = eb_capacity b"
  by (simp add: event_buffer_push_def Let_def)

lemma event_buffer_push_last:
  assumes "eb_events b = last_n (eb_capacity b) es" "0 < eb_capacity b"
  shows "eb_events (event_buffer_push e b) = last_n (eb_capacity b) (es @ [e])"
proof (cases "length es < eb_capacity b")
  case True
  then show ?thesis using assms by (simp add: event_buffer_push_def Let_def last_n_def)
next
  case False
  then have "length es + 1 - eb_capacity b = Suc (length es - eb_capacity b)" by simp
  with False assms show ?thesis
    by (simp add: event_buffer_push_def Let_def last_n_def drop_Suc flip: tl_drop)
qed

section \<open>Configuration\<close>

datatype export_target = ExportNone | ExportStdout | ExportFile string | ExportOtlpHttp | ExportChannel

record tracing_config =
  tg_sample_rate :: sample_rate
  tg_sample_rate_in_range :: bool
  tg_error_promote :: bool
  tg_latency_promote_threshold_ms :: u64
  tg_ring_buffer_capacity :: usize

record metrics_config =
  mc_enabled :: bool
  mc_prometheus_enabled :: bool
  mc_histogram_buckets :: "u64 list"

record export_config =
  xc_target :: export_target
  xc_endpoint :: "string option"
  xc_batch_size :: usize
  xc_interval_ns :: nat

datatype inspection_bind = BindUnix string | BindTcp nat

record inspection_config =
  ic_enabled :: bool
  ic_bind :: inspection_bind
  ic_auth_token :: "string option"

record observability_config =
  ob_level :: observability_level
  ob_tracing :: tracing_config
  ob_metrics :: metrics_config
  ob_export :: export_config
  ob_inspection :: inspection_config
  ob_event_channel_capacity :: usize

definition metrics_config_default :: metrics_config where
  "metrics_config_default =
     \<lparr>mc_enabled = True, mc_prometheus_enabled = True, mc_histogram_buckets = []\<rparr>"

definition export_config_default :: export_config where
  "export_config_default =
     \<lparr>xc_target = ExportNone, xc_endpoint = None, xc_batch_size = 512, xc_interval_ns = 5000000000\<rparr>"

definition inspection_config_default :: inspection_config where
  "inspection_config_default =
     \<lparr>ic_enabled = True, ic_bind = BindTcp 9091, ic_auth_token = None\<rparr>"

text \<open>The default rate \<open>0.01\<close> is a floating point number, here the argument \<open>rate\<close>.\<close>

definition tracing_config_default :: "sample_rate \<Rightarrow> tracing_config" where
  "tracing_config_default rate =
     \<lparr>tg_sample_rate = rate, tg_sample_rate_in_range = True, tg_error_promote = True,
      tg_latency_promote_threshold_ms = 10, tg_ring_buffer_capacity = 64\<rparr>"

definition observability_config_default :: "sample_rate \<Rightarrow> observability_config" where
  "observability_config_default rate =
     \<lparr>ob_level = ObsProduction, ob_tracing = tracing_config_default rate,
      ob_metrics = metrics_config_default, ob_export = export_config_default,
      ob_inspection = inspection_config_default, ob_event_channel_capacity = 8192\<rparr>"

datatype config_validation_error =
    InvalidSampleRate sample_rate
  | InvalidRingBufferCapacity usize
  | InvalidHistogramBuckets
  | ZeroBatchSize
  | ZeroExportInterval
  | MissingOtlpEndpoint

definition is_power_of_two :: "nat \<Rightarrow> bool" where
  "is_power_of_two n \<longleftrightarrow> n \<noteq> 0 \<and> (\<exists>k < 64. n = 2 ^ k)"

definition windows_ascending :: "u64 list \<Rightarrow> bool" where
  "windows_ascending xs \<longleftrightarrow> list_all (\<lambda>(a, b). a < b) (zip xs (tl xs))"

definition obs_config_validate ::
  "observability_config \<Rightarrow> config_validation_error list + unit" where
  "obs_config_validate c =
     (let cap = tg_ring_buffer_capacity (ob_tracing c);
          buckets = mc_histogram_buckets (ob_metrics c);
          errors =
            (if \<not> tg_sample_rate_in_range (ob_tracing c)
             then [InvalidSampleRate (tg_sample_rate (ob_tracing c))] else []) @
            (if cap < 8 \<or> \<not> is_power_of_two cap then [InvalidRingBufferCapacity cap] else []) @
            (if buckets \<noteq> [] \<and> \<not> windows_ascending buckets then [InvalidHistogramBuckets] else []) @
            (if xc_batch_size (ob_export c) = 0 then [ZeroBatchSize] else []) @
            (if xc_interval_ns (ob_export c) = 0 then [ZeroExportInterval] else []) @
            (if xc_target (ob_export c) = ExportOtlpHttp \<and> xc_endpoint (ob_export c) = None
             then [MissingOtlpEndpoint] else [])
      in if errors = [] then Inr () else Inl errors)"

lemma windows_ascending_sorted: "windows_ascending xs \<longleftrightarrow> sorted_wrt (<) xs"
proof (induction xs)
  case (Cons x xs)
  then show ?case
    by (cases xs) (auto simp: windows_ascending_def intro: order.strict_trans)
qed (simp add: windows_ascending_def)

lemma obs_config_validate_ok:
  "obs_config_validate c = Inr () \<Longrightarrow>
   8 \<le> tg_ring_buffer_capacity (ob_tracing c) \<and>
   (\<exists>k < 64. tg_ring_buffer_capacity (ob_tracing c) = 2 ^ k)"
  by (auto simp: obs_config_validate_def Let_def is_power_of_two_def split: if_splits)

end
