(* ===== verification/Obs_Collector.thy ===== *)
theory Obs_Collector
  imports Obs_Flow Obs_Events Rea_Driver
begin

text \<open>
  The collector of \<open>torvyn-observability\<close> (\<open>collector.rs\<close>): registration of flows, the methods of
  the \<open>EventSink\<close> that the runtime calls, the event channel, and the observer handed to a flow.
  The clock readings of a method are its arguments. The background tasks are the recorder step
  of \<open>Obs_Events\<close> and the metrics exporter, which only writes.
\<close>

record collector =
  co_level :: u8
  co_metrics :: metrics_registry
  co_event_tx :: event_channel
  co_event_buffer :: event_buffer
  co_sampler :: sampler
  co_traces :: trace_registry
  co_config :: observability_config

text \<open>
  \<open>None\<close> is a panic: of the multiplication in \<open>Sampler::new\<close>, or of the channel with no capacity.
\<close>

definition collector_new ::
  "observability_config \<Rightarrow> (config_validation_error list + collector) option" where
  "collector_new cfg =
     (case obs_config_validate cfg of
        Inl errs \<Rightarrow> Some (Inl errs)
      | Inr _ \<Rightarrow>
          Option.bind (event_channel_new (ob_event_channel_capacity cfg)) (\<lambda>tx.
          Option.bind (sampler_new (tg_sample_rate (ob_tracing cfg))
                         (tg_error_promote (ob_tracing cfg))
                         (tg_latency_promote_threshold_ms (ob_tracing cfg))) (\<lambda>sampler.
            Some (Inr \<lparr>co_level = obs_as_u8 (ob_level cfg), co_metrics = metrics_registry_new,
                       co_event_tx = tx,
                       co_event_buffer = event_buffer_new (ob_event_channel_capacity cfg),
                       co_sampler = sampler, co_traces = trace_registry_new,
                       co_config = cfg\<rparr>))))"

definition current_level :: "collector \<Rightarrow> observability_level" where
  "current_level co = (case obs_from_u8 (co_level co) of Some l \<Rightarrow> l | None \<Rightarrow> ObsOff)"

definition set_level :: "observability_level \<Rightarrow> collector \<Rightarrow> collector" where
  "set_level l co = co\<lparr>co_level := obs_as_u8 l\<rparr>"

section \<open>Registration\<close>

record clocks =
  ck_start :: u64
  ck_trace :: u64
  ck_root :: u64

definition new_trace_context :: "clocks \<Rightarrow> flow_id \<Rightarrow> collector \<Rightarrow> flow_trace_context" where
  "new_trace_context ck fid co =
     (let tid = generate_trace_id (ck_trace ck);
          ctx = flow_trace_context_new tid (generate_span_id (ck_root ck)) fid;
          ctx = (if should_sample_head (co_sampler co) (trace_id_bytes tid) = Sample
                 then set_sampled ctx else ctx)
      in if current_level co = ObsDiagnostic then set_diagnostic ctx else ctx)"

definition register_flow_state ::
  "clocks \<Rightarrow> flow_id \<Rightarrow> component_id list \<Rightarrow> stream_id list \<Rightarrow> collector \<Rightarrow>
   registry_error + obs_flow \<times> collector" where
  "register_flow_state ck fid cids sids co =
     (case registry_register_flow fid cids sids (ck_start ck) (co_metrics co) of
        Inl err \<Rightarrow> Inl err
      | Inr (metrics, reg) \<Rightarrow>
          let co = co\<lparr>co_metrics := reg\<rparr>;
              state = flow_trace_state_new (new_trace_context ck fid co)
                        (tg_ring_buffer_capacity (ob_tracing (co_config co)))
          in Inr (metrics, co\<lparr>co_traces := trace_register fid state (co_traces co)\<rparr>))"

record flow_observer =
  fo_flow_id :: flow_id
  fo_trace_ctx :: flow_trace_context
  fo_ring_buffer :: span_ring_buffer
  fo_error_promote :: bool

definition register_flow ::
  "clocks \<Rightarrow> clocks \<Rightarrow> flow_id \<Rightarrow> component_id list \<Rightarrow> stream_id list \<Rightarrow> collector \<Rightarrow>
   registry_error + flow_observer \<times> collector" where
  "register_flow ck ck' fid cids sids co =
     (case register_flow_state ck fid cids sids co of
        Inl err \<Rightarrow> Inl err
      | Inr (_, co) \<Rightarrow>
          let ctx = (case trace_get fid (co_traces co) of
                       None \<Rightarrow> new_trace_context ck' fid co
                     | Some state \<Rightarrow> fs_context state)
          in Inr (\<lparr>fo_flow_id = fid, fo_trace_ctx = ctx,
                   fo_ring_buffer =
                     span_buffer_new (tg_ring_buffer_capacity (ob_tracing (co_config co))),
                   fo_error_promote = should_promote_error (co_sampler co)\<rparr>, co))"

definition on_flow_start ::
  "clocks \<Rightarrow> flow_id \<Rightarrow> component_id list \<Rightarrow> stream_id list \<Rightarrow> collector \<Rightarrow> collector" where
  "on_flow_start ck fid cids sids co =
     (case register_flow_state ck fid cids sids co of Inl _ \<Rightarrow> co | Inr (_, co) \<Rightarrow> co)"

definition deregister_flow ::
  "'f float_ops \<Rightarrow> flow_id \<Rightarrow> collector \<Rightarrow>
   (registry_error + 'f flow_snapshot \<times> collector) option" where
  "deregister_flow fl fid co =
     (case registry_deregister_flow fid (co_metrics co) of
        Inl err \<Rightarrow> Some (Inl err)
      | Inr (metrics, reg) \<Rightarrow>
          let co = co\<lparr>co_metrics := reg, co_traces := snd (trace_deregister fid (co_traces co))\<rparr>
          in map_option (\<lambda>s. Inr (s, co)) (snapshot_flow fl metrics))"

definition flow_snapshot_of ::
  "'f float_ops \<Rightarrow> flow_id \<Rightarrow> collector \<Rightarrow> 'f flow_snapshot option option" where
  "flow_snapshot_of fl fid co =
     (case registry_get_flow (co_metrics co) fid of
        None \<Rightarrow> Some None
      | Some m \<Rightarrow> map_option Some (snapshot_flow fl m))"

section \<open>Recording\<close>

text \<open>
  The recorders look the flow up and change its metrics in place; an unregistered flow is
  skipped. \<open>None\<close> is a panic of the histogram.
\<close>

definition with_flow_metrics ::
  "flow_id \<Rightarrow> (obs_flow \<Rightarrow> obs_flow option) \<Rightarrow> collector \<Rightarrow> collector option" where
  "with_flow_metrics fid f co =
     (if \<not> obs_is_enabled (current_level co) then Some co
      else case registry_get_flow (co_metrics co) fid of
        None \<Rightarrow> Some co
      | Some m \<Rightarrow>
          map_option (\<lambda>m'. co\<lparr>co_metrics := (co_metrics co)
            \<lparr>mr_flows := (mr_flows (co_metrics co))(fid \<mapsto> m')\<rparr>\<rparr>) (f m))"

definition count_invocation ::
  "component_id \<Rightarrow> u64 \<Rightarrow> u64 \<Rightarrow> invocation_status \<Rightarrow> obs_flow \<Rightarrow> obs_flow option" where
  "count_invocation cid start_ns end_ns status m =
     (let duration_ns = saturating_sub_u64 end_ns start_ns;
          m = m\<lparr>of_elements_total := counter_increment 1 (of_elements_total m)\<rparr>
      in case flow_component m cid of
        None \<Rightarrow> Some m
      | Some c \<Rightarrow>
          let c = c\<lparr>oc_invocations := counter_increment 1 (oc_invocations c)\<rparr> in
          Option.bind (histogram_record duration_ns (oc_processing_time c)) (\<lambda>h.
            let c = c\<lparr>oc_processing_time := h\<rparr> in
            Some (if status \<noteq> StatusOk then
                    (set_flow_component (c\<lparr>oc_errors := counter_increment 1 (oc_errors c)\<rparr>) m)
                      \<lparr>of_errors_total := counter_increment 1 (of_errors_total m)\<rparr>
                  else set_flow_component c m)))"

definition record_invocation ::
  "flow_id \<Rightarrow> component_id \<Rightarrow> u64 \<Rightarrow> u64 \<Rightarrow> invocation_status \<Rightarrow> collector \<Rightarrow> collector option" where
  "record_invocation fid cid start_ns end_ns status =
     with_flow_metrics fid (count_invocation cid start_ns end_ns status)"

definition count_transfer :: "stream_id \<Rightarrow> u32 \<Rightarrow> obs_flow \<Rightarrow> obs_flow option" where
  "count_transfer sid depth m =
     (case flow_stream m sid of
        None \<Rightarrow> Some m
      | Some s \<Rightarrow>
          Some (set_flow_stream
            (s\<lparr>os_elements := counter_increment 1 (os_elements s),
               os_queue_depth := gauge_set (u32_as_u64 depth) (os_queue_depth s),
               os_queue_depth_peak :=
                 gauge_update_max (u32_as_u64 depth) (os_queue_depth_peak s)\<rparr>) m))"

definition record_element_transfer ::
  "flow_id \<Rightarrow> stream_id \<Rightarrow> u64 \<Rightarrow> u32 \<Rightarrow> collector \<Rightarrow> collector option" where
  "record_element_transfer fid sid sequence depth = with_flow_metrics fid (count_transfer sid depth)"

definition count_backpressure :: "stream_id \<Rightarrow> bool \<Rightarrow> obs_flow \<Rightarrow> obs_flow option" where
  "count_backpressure sid activated m =
     (case flow_stream m sid of
        None \<Rightarrow> Some m
      | Some s \<Rightarrow>
          Some (if activated then
                  set_flow_stream (s\<lparr>os_backpressure_events :=
                    counter_increment 1 (os_backpressure_events s)\<rparr>) m
                else m))"

definition record_backpressure ::
  "flow_id \<Rightarrow> stream_id \<Rightarrow> bool \<Rightarrow> u32 \<Rightarrow> u64 \<Rightarrow> collector \<Rightarrow> collector option" where
  "record_backpressure fid sid activated depth timestamp_ns =
     with_flow_metrics fid (count_backpressure sid activated)"

definition record_copy ::
  "flow_id \<Rightarrow> resource_id \<Rightarrow> component_id \<Rightarrow> component_id \<Rightarrow> u64 \<Rightarrow> copy_reason \<Rightarrow>
   collector \<Rightarrow> collector option" where
  "record_copy fid rid src dst copy_bytes reason =
     with_flow_metrics fid (\<lambda>m.
       Some (m\<lparr>of_copies_total := counter_increment 1 (of_copies_total m),
               of_copy_bytes_total := counter_increment copy_bytes (of_copy_bytes_total m)\<rparr>))"

definition record_flow_latency :: "flow_id \<Rightarrow> u64 \<Rightarrow> collector \<Rightarrow> collector option" where
  "record_flow_latency fid latency_ns =
     with_flow_metrics fid (\<lambda>m.
       map_option (\<lambda>h. m\<lparr>of_end_to_end_latency := h\<rparr>)
         (histogram_record latency_ns (of_end_to_end_latency m)))"

fun status_code :: "invocation_status \<Rightarrow> u8" where
  "status_code StatusOk = 0"
| "status_code (StatusError _) = 1"
| "status_code StatusTimeout = 2"
| "status_code StatusCancelled = 3"

definition count_dropped_span :: "collector \<Rightarrow> collector" where
  "count_dropped_span co =
     co\<lparr>co_metrics := (co_metrics co)\<lparr>mr_system := (mr_system (co_metrics co))
       \<lparr>sy_spans_dropped := counter_increment 1 (sy_spans_dropped (mr_system (co_metrics co)))\<rparr>\<rparr>\<rparr>"

definition record_element_span ::
  "flow_id \<Rightarrow> component_id \<Rightarrow> u64 \<Rightarrow> u64 \<Rightarrow> u64 \<Rightarrow> invocation_status \<Rightarrow> collector \<Rightarrow>
   collector option" where
  "record_element_span fid cid sequence start_ns end_ns status co =
     (if current_level co \<noteq> ObsDiagnostic then Some co
      else case trace_get fid (co_traces co) of
        None \<Rightarrow> Some (count_dropped_span co)
      | Some state \<Rightarrow>
          if \<not> trace_state_is_sampled state then Some co
          else
            let record =
                  \<lparr>sp_span_id = derive_span_id fid cid sequence,
                   sp_parent_span_id = tc_span_id (ft_trace_ctx (fs_context state)),
                   sp_component_id = cid, sp_start_ns = start_ns, sp_end_ns = end_ns,
                   sp_status_code = status_code status, sp_element_sequence = sequence\<rparr>
            in map_option (\<lambda>state'. co\<lparr>co_traces := (co_traces co)(fid \<mapsto> state')\<rparr>)
                 (push_span record state))"

definition flow_trace_context_of :: "flow_id \<Rightarrow> collector \<Rightarrow> trace_context option" where
  "flow_trace_context_of fid co =
     Option.bind (trace_get fid (co_traces co)) (\<lambda>state.
       if trace_state_is_sampled state then Some (ft_trace_ctx (fs_context state)) else None)"

definition drain_flow_spans ::
  "flow_id \<Rightarrow> collector \<Rightarrow> (compact_span_record list \<times> collector) option" where
  "drain_flow_spans fid co =
     (case trace_get fid (co_traces co) of
        None \<Rightarrow> Some ([], co)
      | Some state \<Rightarrow>
          map_option (\<lambda>(rs, state'). (rs, co\<lparr>co_traces := (co_traces co)(fid \<mapsto> state')\<rparr>))
            (drain_spans state))"

definition flow_spans_wrapped :: "flow_id \<Rightarrow> collector \<Rightarrow> bool" where
  "flow_spans_wrapped fid co =
     (case trace_get fid (co_traces co) of
        None \<Rightarrow> False
      | Some state \<Rightarrow> trace_state_has_wrapped state)"

definition flow_span_count :: "flow_id \<Rightarrow> collector \<Rightarrow> usize" where
  "flow_span_count fid co =
     (case trace_get fid (co_traces co) of None \<Rightarrow> 0 | Some state \<Rightarrow> span_count state)"

definition span_buffer_capacity :: "collector \<Rightarrow> usize" where
  "span_buffer_capacity co = tg_ring_buffer_capacity (ob_tracing (co_config co))"

definition emit_event :: "diagnostic_event \<Rightarrow> collector \<Rightarrow> collector" where
  "emit_event e co =
     (case try_send e (co_event_tx co) of
        Some tx \<Rightarrow> co\<lparr>co_event_tx := tx\<rparr>
      | None \<Rightarrow> co\<lparr>co_metrics := (co_metrics co)\<lparr>mr_system := (mr_system (co_metrics co))
          \<lparr>sy_events_dropped :=
             counter_increment 1 (sy_events_dropped (mr_system (co_metrics co)))\<rparr>\<rparr>\<rparr>)"

definition run_recorder :: "collector \<Rightarrow> collector" where
  "run_recorder co =
     (case recorder_step (co_event_tx co) (co_event_buffer co) of
        None \<Rightarrow> co
      | Some (tx, b) \<Rightarrow> co\<lparr>co_event_tx := tx, co_event_buffer := b\<rparr>)"

section \<open>The observer\<close>

definition observer_record_span ::
  "u64 \<Rightarrow> component_id \<Rightarrow> u64 \<Rightarrow> u64 \<Rightarrow> u8 \<Rightarrow> u64 \<Rightarrow> flow_observer \<Rightarrow> flow_observer option" where
  "observer_record_span now cid start_ns end_ns code sequence o' =
     map_option (\<lambda>b. o'\<lparr>fo_ring_buffer := b\<rparr>)
       (span_buffer_push
          \<lparr>sp_span_id = generate_span_id now,
           sp_parent_span_id = tc_span_id (ft_trace_ctx (fo_trace_ctx o')),
           sp_component_id = cid, sp_start_ns = start_ns, sp_end_ns = end_ns,
           sp_status_code = code, sp_element_sequence = sequence\<rparr>
          (fo_ring_buffer o'))"

definition observer_promote :: "flow_observer \<Rightarrow> flow_observer" where
  "observer_promote o' = o'\<lparr>fo_trace_ctx := set_sampled (fo_trace_ctx o')\<rparr>"

definition observer_is_sampled :: "flow_observer \<Rightarrow> bool" where
  "observer_is_sampled o' \<longleftrightarrow> is_sampled (ft_flags (fo_trace_ctx o'))"

section \<open>The sink of the driver\<close>

text \<open>
  The calls a driver makes on its event sink, in the order in which it makes them, are the
  \<open>Recorded\<close> entries of its log. Delivering the log to a collector makes these calls.
\<close>

fun deliver :: "flow_id \<Rightarrow> driver_event \<Rightarrow> collector \<Rightarrow> collector option" where
  "deliver fid (RecordedInvocation cid start_ns end_ns status) =
     record_invocation fid cid start_ns end_ns status"
| "deliver fid (RecordedSpan cid sequence start_ns end_ns status) =
     record_element_span fid cid sequence start_ns end_ns status"
| "deliver fid (RecordedTransfer sid sequence depth) = record_element_transfer fid sid sequence depth"
| "deliver fid (RecordedLatency ns) = record_flow_latency fid ns"
| "deliver fid (RecordedBackpressure sid activated depth ns) =
     record_backpressure fid sid activated depth ns"
| "deliver fid _ = Some"

fun deliver_all :: "flow_id \<Rightarrow> driver_event list \<Rightarrow> collector \<Rightarrow> collector option" where
  "deliver_all fid [] co = Some co"
| "deliver_all fid (e # es) co = Option.bind (deliver fid e co) (deliver_all fid es)"

end
