(* ===== verification/Obs_Deliver.thy ===== *)
theory Obs_Deliver
  imports Obs_Collector
begin

text \<open>
  What a collector holds after a driver's calls have been delivered to it, stated over the list
  of the calls: \<open>metrics_match\<close> for the flow's metrics, \<open>holds_history\<close> for its spans. Each
  recorder extends the match by its call, so the delivery of a whole log is an induction.
\<close>

section \<open>What a log says\<close>

fun invocation_of :: "driver_event \<Rightarrow> (component_id \<times> u64 \<times> invocation_status) option" where
  "invocation_of (RecordedInvocation cid start_ns end_ns status) =
     Some (cid, saturating_sub_u64 end_ns start_ns, status)"
| "invocation_of _ = None"

fun transfer_of :: "driver_event \<Rightarrow> (stream_id \<times> u64) option" where
  "transfer_of (RecordedTransfer sid sequence depth) = Some (sid, u32_as_u64 depth)"
| "transfer_of _ = None"

fun activation_of :: "driver_event \<Rightarrow> stream_id option" where
  "activation_of (RecordedBackpressure sid activated depth ns) = (if activated then Some sid else None)"
| "activation_of _ = None"

fun latency_of :: "driver_event \<Rightarrow> u64 option" where
  "latency_of (RecordedLatency ns) = Some ns"
| "latency_of _ = None"

fun span_of :: "flow_id \<Rightarrow> span_id \<Rightarrow> driver_event \<Rightarrow> compact_span_record option" where
  "span_of fid parent (RecordedSpan cid sequence start_ns end_ns status) =
     Some \<lparr>sp_span_id = derive_span_id fid cid sequence, sp_parent_span_id = parent,
           sp_component_id = cid, sp_start_ns = start_ns, sp_end_ns = end_ns,
           sp_status_code = status_code status, sp_element_sequence = sequence\<rparr>"
| "span_of fid parent _ = None"

definition invocations :: "driver_event list \<Rightarrow> (component_id \<times> u64 \<times> invocation_status) list" where
  "invocations es = List.map_filter invocation_of es"

definition invocations_at ::
  "component_id \<Rightarrow> driver_event list \<Rightarrow> (component_id \<times> u64 \<times> invocation_status) list" where
  "invocations_at cid es = filter (\<lambda>(c, _). c = cid) (invocations es)"

definition failed :: "component_id \<times> u64 \<times> invocation_status \<Rightarrow> bool" where
  "failed i \<longleftrightarrow> snd (snd i) \<noteq> StatusOk"

definition depths_at :: "stream_id \<Rightarrow> driver_event list \<Rightarrow> u64 list" where
  "depths_at sid es = map snd (filter (\<lambda>(s, _). s = sid) (List.map_filter transfer_of es))"

definition activations_at :: "stream_id \<Rightarrow> driver_event list \<Rightarrow> stream_id list" where
  "activations_at sid es = filter (\<lambda>s. s = sid) (List.map_filter activation_of es)"

definition latencies :: "driver_event list \<Rightarrow> u64 list" where
  "latencies es = List.map_filter latency_of es"

definition spans :: "flow_id \<Rightarrow> span_id \<Rightarrow> driver_event list \<Rightarrow> compact_span_record list" where
  "spans fid parent es = List.map_filter (span_of fid parent) es"

lemma map_filter_snoc:
  "List.map_filter f (xs @ [x]) =
   List.map_filter f xs @ (case f x of None \<Rightarrow> [] | Some y \<Rightarrow> [y])"
  by (simp add: List.map_filter_def split: option.split)

lemmas log_defs = invocations_def invocations_at_def depths_at_def activations_at_def
  latencies_def spans_def map_filter_snoc

section \<open>The match of metrics and log\<close>

definition component_matches :: "driver_event list \<Rightarrow> obs_component \<Rightarrow> bool" where
  "component_matches es c \<longleftrightarrow>
     (let is = invocations_at (oc_component_id c) es in
      counter_read (oc_invocations c) = of_nat (length is) \<and>
      counter_read (oc_errors c) = of_nat (length (filter failed is)) \<and>
      hi_boundaries (oc_processing_time c) = latency_buckets_ns \<and>
      histogram_holds (map (\<lambda>(_, ns, _). ns) is) (oc_processing_time c))"

definition stream_matches :: "driver_event list \<Rightarrow> obs_stream \<Rightarrow> bool" where
  "stream_matches es s \<longleftrightarrow>
     (let ds = depths_at (os_stream_id s) es in
      counter_read (os_elements s) = of_nat (length ds) \<and>
      gauge_read (os_queue_depth s) = (if ds = [] then 0 else last ds) \<and>
      gauge_read (os_queue_depth_peak s) = fold max ds 0 \<and>
      counter_read (os_backpressure_events s) =
        of_nat (length (activations_at (os_stream_id s) es)))"

definition metrics_match ::
  "component_id list \<Rightarrow> stream_id list \<Rightarrow> driver_event list \<Rightarrow> obs_flow \<Rightarrow> bool" where
  "metrics_match cids sids es m \<longleftrightarrow>
     counter_read (of_elements_total m) = of_nat (length (invocations es)) \<and>
     counter_read (of_errors_total m) =
       of_nat (length (filter (\<lambda>i. fst i \<in> set cids \<and> failed i) (invocations es))) \<and>
     hi_boundaries (of_end_to_end_latency m) = latency_buckets_ns \<and>
     histogram_holds (latencies es) (of_end_to_end_latency m) \<and>
     map oc_component_id (of_components m) = cids \<and> map os_stream_id (of_streams m) = sids \<and>
     (\<forall>cid c. flow_component m cid = Some c \<longrightarrow> component_matches es c) \<and>
     (\<forall>sid s. flow_stream m sid = Some s \<longrightarrow> stream_matches es s)"

lemma latency_buckets_sorted: "sorted_wrt (<) latency_buckets_ns"
  by (simp add: latency_buckets_ns_def)

section \<open>Updating an entry\<close>

lemma find_some_id: "find (\<lambda>x. key x = k) xs = Some x \<Longrightarrow> key x = k"
  by (induction xs) (auto split: if_splits)

lemma find_none_id: "find (\<lambda>x. key x = k) xs = None \<longleftrightarrow> k \<notin> set (map key xs)"
  by (induction xs) auto

lemma find_update_key:
  "find (\<lambda>x. key x = k) (update_first (\<lambda>x. key x = key y) (\<lambda>_. y) xs) =
   (if k = key y \<and> k \<in> set (map key xs) then Some y else find (\<lambda>x. key x = k) xs)"
  by (induction xs) auto

lemma map_update_key: "map key (update_first (\<lambda>x. key x = key y) (\<lambda>_. y) xs) = map key xs"
  by (induction xs) auto

lemma flow_component_set:
  "flow_component (set_flow_component c m) cid =
   (if cid = oc_component_id c \<and> cid \<in> set (map oc_component_id (of_components m)) then Some c
    else flow_component m cid)"
  by (auto simp: flow_component_def set_flow_component_def find_update_key)

lemma flow_stream_set:
  "flow_stream (set_flow_stream s m) sid =
   (if sid = os_stream_id s \<and> sid \<in> set (map os_stream_id (of_streams m)) then Some s
    else flow_stream m sid)"
  by (auto simp: flow_stream_def set_flow_stream_def find_update_key)

lemma set_flow_component_frame [simp]:
  "map oc_component_id (of_components (set_flow_component c m)) = map oc_component_id (of_components m)"
  "of_streams (set_flow_component c m) = of_streams m"
  "of_elements_total (set_flow_component c m) = of_elements_total m"
  "of_errors_total (set_flow_component c m) = of_errors_total m"
  "of_end_to_end_latency (set_flow_component c m) = of_end_to_end_latency m"
  "flow_stream (set_flow_component c m) = flow_stream m"
  by (simp_all add: set_flow_component_def map_update_key flow_stream_def fun_eq_iff)

lemma set_flow_stream_frame [simp]:
  "map os_stream_id (of_streams (set_flow_stream s m)) = map os_stream_id (of_streams m)"
  "of_components (set_flow_stream s m) = of_components m"
  "of_elements_total (set_flow_stream s m) = of_elements_total m"
  "of_errors_total (set_flow_stream s m) = of_errors_total m"
  "of_end_to_end_latency (set_flow_stream s m) = of_end_to_end_latency m"
  "flow_component (set_flow_stream s m) = flow_component m"
  by (simp_all add: set_flow_stream_def map_update_key flow_component_def fun_eq_iff)

lemma flow_component_frame [simp]:
  "flow_component (m\<lparr>of_elements_total := a\<rparr>) = flow_component m"
  "flow_component (m\<lparr>of_errors_total := a\<rparr>) = flow_component m"
  "flow_component (m\<lparr>of_end_to_end_latency := h\<rparr>) = flow_component m"
  "flow_stream (m\<lparr>of_elements_total := a\<rparr>) = flow_stream m"
  "flow_stream (m\<lparr>of_errors_total := a\<rparr>) = flow_stream m"
  "flow_stream (m\<lparr>of_end_to_end_latency := h\<rparr>) = flow_stream m"
  by (simp_all add: flow_component_def flow_stream_def fun_eq_iff)

lemma metrics_match_new: "metrics_match cids sids [] (obs_flow_new fid cids sids t)"
proof -
  have c: "oc_component_id \<circ> obs_component_new = id" "os_stream_id \<circ> obs_stream_new = id"
    by (auto simp: obs_component_new_def obs_stream_new_def)
  have fc: "\<exists>cid. c = obs_component_new cid" if "find P (map obs_component_new cids) = Some c" for P c
    using that by (induction cids) (auto split: if_splits)
  have fs: "\<exists>sid. s = obs_stream_new sid" if "find P (map obs_stream_new sids) = Some s" for P s
    using that by (induction sids) (auto split: if_splits)
  show ?thesis
    by (auto simp: metrics_match_def obs_flow_new_def log_defs c flow_component_def flow_stream_def
        counter_new_def List.map_filter_def
        dest!: fc fs)
      (simp_all add: component_matches_def stream_matches_def obs_component_new_def
        obs_stream_new_def log_defs List.map_filter_def counter_new_def gauge_new_def)
qed

section \<open>The recorders extend the match\<close>

lemma flow_component_id: "flow_component m cid = Some c \<Longrightarrow> oc_component_id c = cid"
  unfolding flow_component_def by (rule find_some_id)

lemma flow_stream_id: "flow_stream m sid = Some s \<Longrightarrow> os_stream_id s = sid"
  unfolding flow_stream_def by (rule find_some_id)

lemma flow_component_None:
  "flow_component m cid = None \<longleftrightarrow> cid \<notin> set (map oc_component_id (of_components m))"
  unfolding flow_component_def by (rule find_none_id)

lemma flow_stream_None:
  "flow_stream m sid = None \<longleftrightarrow> sid \<notin> set (map os_stream_id (of_streams m))"
  unfolding flow_stream_def by (rule find_none_id)

lemma stream_matches_other:
  "transfer_of e = None \<Longrightarrow> activation_of e = None \<Longrightarrow>
   stream_matches (es @ [e]) s \<longleftrightarrow> stream_matches es s"
  by (simp add: stream_matches_def log_defs)

lemma component_matches_other:
  "invocation_of e = None \<Longrightarrow> component_matches (es @ [e]) c \<longleftrightarrow> component_matches es c"
  by (simp add: component_matches_def log_defs)

lemma component_matches_elsewhere:
  "oc_component_id c \<noteq> cid \<Longrightarrow> invocation_of e = Some (cid, ns, status) \<Longrightarrow>
   component_matches (es @ [e]) c \<longleftrightarrow> component_matches es c"
  by (simp add: component_matches_def log_defs)

lemma stream_matches_elsewhere:
  "os_stream_id s \<noteq> sid \<Longrightarrow> transfer_of e = Some (sid, d) \<Longrightarrow> activation_of e = None \<Longrightarrow>
   stream_matches (es @ [e]) s \<longleftrightarrow> stream_matches es s"
  "os_stream_id s \<noteq> sid \<Longrightarrow> transfer_of e = None \<Longrightarrow> activation_of e = Some sid \<Longrightarrow>
   stream_matches (es @ [e]) s \<longleftrightarrow> stream_matches es s"
  by (simp_all add: stream_matches_def log_defs)

lemma metrics_match_other:
  assumes "metrics_match cids sids es m" "invocation_of e = None" "transfer_of e = None"
    "activation_of e = None" "latency_of e = None"
  shows "metrics_match cids sids (es @ [e]) m"
  using assms
  by (simp add: metrics_match_def stream_matches_other component_matches_other)
    (simp add: log_defs)

lemma component_matches_step:
  assumes "component_matches es c"
    and "oc_component_id c = cid"
  obtains h where "histogram_record (saturating_sub_u64 end_ns start_ns) (oc_processing_time c) = Some h"
    "component_matches (es @ [RecordedInvocation cid start_ns end_ns status])
       (c\<lparr>oc_invocations := counter_increment 1 (oc_invocations c), oc_processing_time := h,
          oc_errors := (if status \<noteq> StatusOk then counter_increment 1 (oc_errors c) else oc_errors c)\<rparr>)"
proof -
  let ?is = "invocations_at cid es" and ?ns = "saturating_sub_u64 end_ns start_ns"
  have holds: "histogram_holds (map (\<lambda>(_, ns, _). ns) ?is) (oc_processing_time c)"
    and bs: "hi_boundaries (oc_processing_time c) = latency_buckets_ns"
    using assms by (auto simp: component_matches_def Let_def)
  obtain h where h: "histogram_record ?ns (oc_processing_time c) = Some h"
    "histogram_holds (map (\<lambda>(_, ns, _). ns) ?is @ [?ns]) h"
    "hi_boundaries h = hi_boundaries (oc_processing_time c)"
    by (rule histogram_record_holds [OF holds]) (auto simp: bs latency_buckets_sorted)
  have "invocations_at cid (es @ [RecordedInvocation cid start_ns end_ns status]) =
      ?is @ [(cid, ?ns, status)]"
    by (simp add: log_defs)
  with h(2,3) assms bs have "component_matches (es @ [RecordedInvocation cid start_ns end_ns status])
       (c\<lparr>oc_invocations := counter_increment 1 (oc_invocations c), oc_processing_time := h,
          oc_errors := (if status \<noteq> StatusOk then counter_increment 1 (oc_errors c) else oc_errors c)\<rparr>)"
    by (simp add: component_matches_def Let_def counter_increment_def failed_def)
  with h(1) show ?thesis by (rule that)
qed

lemma count_invocation_match:
  assumes m: "metrics_match cids sids es m"
  obtains m' where "count_invocation cid start_ns end_ns status m = Some m'"
    "metrics_match cids sids (es @ [RecordedInvocation cid start_ns end_ns status]) m'"
proof (cases "flow_component m cid")
  case None
  let ?e = "RecordedInvocation cid start_ns end_ns status"
  let ?m = "m\<lparr>of_elements_total := counter_increment 1 (of_elements_total m)\<rparr>"
  have cid: "cid \<notin> set cids" using None m by (auto simp: flow_component_None metrics_match_def)
  have comps: "component_matches (es @ [?e]) c" if "flow_component m cid' = Some c" for cid' c
  proof -
    have "oc_component_id c \<noteq> cid" using that None flow_component_id [OF that] by auto
    then show ?thesis
      using that m by (simp add: component_matches_elsewhere [where cid = cid] metrics_match_def)
  qed
  have "metrics_match cids sids (es @ [?e]) ?m"
    using m cid comps
    by (simp add: metrics_match_def stream_matches_other counter_increment_def)
      (simp add: log_defs)
  with None show ?thesis by (intro that [of ?m]) (simp_all add: count_invocation_def Let_def)
next
  case (Some c)
  let ?e = "RecordedInvocation cid start_ns end_ns status"
  have id: "oc_component_id c = cid" by (rule flow_component_id [OF Some])
  have cid: "cid \<in> set cids"
    using Some m by (metis flow_component_None metrics_match_def option.distinct(1))
  have mc: "component_matches es c" using m Some by (auto simp: metrics_match_def)
  obtain h where h: "histogram_record (saturating_sub_u64 end_ns start_ns) (oc_processing_time c) = Some h"
    "component_matches (es @ [?e])
       (c\<lparr>oc_invocations := counter_increment 1 (oc_invocations c), oc_processing_time := h,
          oc_errors := (if status \<noteq> StatusOk then counter_increment 1 (oc_errors c) else oc_errors c)\<rparr>)"
    by (rule component_matches_step [OF mc id])
  define c' where "c' = c\<lparr>oc_invocations := counter_increment 1 (oc_invocations c), oc_processing_time := h,
          oc_errors := (if status \<noteq> StatusOk then counter_increment 1 (oc_errors c) else oc_errors c)\<rparr>"
  define m0 where "m0 = m\<lparr>of_elements_total := counter_increment 1 (of_elements_total m)\<rparr>"
  define m' where "m' = (if status \<noteq> StatusOk then
      (set_flow_component c' m0)\<lparr>of_errors_total := counter_increment 1 (of_errors_total m0)\<rparr>
      else set_flow_component c' m0)"
  have id': "oc_component_id c' = cid" by (simp add: c'_def id)
  have comps: "component_matches (es @ [?e]) x" if "flow_component m' cid' = Some x" for cid' x
  proof (cases "cid' = cid")
    case True
    then have "x = c'"
      using that cid m by (auto simp: m'_def m0_def flow_component_set id' metrics_match_def
          split: if_splits)
    then show ?thesis using h(2) by (simp add: c'_def)
  next
    case False
    then have x: "flow_component m cid' = Some x"
      using that by (auto simp: m'_def m0_def flow_component_set id' split: if_splits)
    with False have "oc_component_id x \<noteq> cid" using flow_component_id by blast
    then show ?thesis
      using x m by (simp add: component_matches_elsewhere [where cid = cid] metrics_match_def)
  qed
  have "metrics_match cids sids (es @ [?e]) m'"
    using m cid comps
    by (simp add: metrics_match_def stream_matches_other)
      (simp add: log_defs m'_def m0_def counter_increment_def failed_def)
  moreover have "count_invocation cid start_ns end_ns status m = Some m'"
    using Some h(1) by (simp add: count_invocation_def Let_def m'_def m0_def c'_def)
  ultimately show ?thesis by (intro that)
qed

lemma count_transfer_match:
  assumes m: "metrics_match cids sids es m"
  obtains m' where "count_transfer sid depth m = Some m'"
    "metrics_match cids sids (es @ [RecordedTransfer sid sequence depth]) m'"
proof (cases "flow_stream m sid")
  case None
  let ?e = "RecordedTransfer sid sequence depth"
  have "stream_matches (es @ [?e]) s" if "flow_stream m sid' = Some s" for sid' s
  proof -
    have "os_stream_id s \<noteq> sid" using that None flow_stream_id [OF that] by auto
    then show ?thesis
      using that m by (simp add: stream_matches_elsewhere [where sid = sid] metrics_match_def)
  qed
  then have "metrics_match cids sids (es @ [?e]) m"
    using m by (simp add: metrics_match_def component_matches_other) (simp add: log_defs)
  with None show ?thesis by (intro that [of m]) (simp_all add: count_transfer_def)
next
  case (Some s)
  let ?e = "RecordedTransfer sid sequence depth"
  define s' where "s' = s\<lparr>os_elements := counter_increment 1 (os_elements s),
               os_queue_depth := gauge_set (u32_as_u64 depth) (os_queue_depth s),
               os_queue_depth_peak :=
                 gauge_update_max (u32_as_u64 depth) (os_queue_depth_peak s)\<rparr>"
  have id: "os_stream_id s' = sid" using flow_stream_id [OF Some] by (simp add: s'_def)
  have sid: "sid \<in> set (map os_stream_id (of_streams m))"
    using Some by (metis flow_stream_None option.distinct(1))
  have "stream_matches es s" using m Some by (auto simp: metrics_match_def)
  then have s': "stream_matches (es @ [?e]) s'"
    using flow_stream_id [OF Some]
    by (simp add: stream_matches_def Let_def s'_def log_defs counter_increment_def gauge_set_def
        max.commute)
  have "stream_matches (es @ [?e]) x" if "flow_stream (set_flow_stream s' m) sid' = Some x" for sid' x
  proof (cases "sid' = sid")
    case True
    then show ?thesis using that s' sid by (auto simp: flow_stream_set id split: if_splits)
  next
    case False
    then have x: "flow_stream m sid' = Some x"
      using that by (auto simp: flow_stream_set id split: if_splits)
    with False have "os_stream_id x \<noteq> sid" using flow_stream_id by blast
    then show ?thesis
      using x m by (simp add: stream_matches_elsewhere [where sid = sid] metrics_match_def)
  qed
  then have "metrics_match cids sids (es @ [?e]) (set_flow_stream s' m)"
    using m by (simp add: metrics_match_def component_matches_other) (simp add: log_defs)
  with Some show ?thesis
    by (intro that [of "set_flow_stream s' m"]) (simp_all add: count_transfer_def s'_def)
qed

lemma count_backpressure_match:
  assumes m: "metrics_match cids sids es m"
  obtains m' where "count_backpressure sid activated m = Some m'"
    "metrics_match cids sids (es @ [RecordedBackpressure sid activated depth ns]) m'"
proof -
  let ?e = "RecordedBackpressure sid activated depth ns"
  have other: "metrics_match cids sids (es @ [?e]) m'"
    if "\<And>sid' s. flow_stream m' sid' = Some s \<Longrightarrow> stream_matches (es @ [?e]) s"
      "metrics_match cids sids es m'' " "of_elements_total m' = of_elements_total m''"
      "of_errors_total m' = of_errors_total m''" 
      "of_end_to_end_latency m' = of_end_to_end_latency m''" "of_components m' = of_components m''"
      "map os_stream_id (of_streams m') = map os_stream_id (of_streams m'')"
      "flow_component m' = flow_component m''" for m' m''
    using that by (simp add: metrics_match_def component_matches_other) (simp add: log_defs)
  consider "\<not> activated" | "activated" "flow_stream m sid = None"
    | s where "activated" "flow_stream m sid = Some s" by fastforce
  then show ?thesis
  proof cases
    case 1
    then have "metrics_match cids sids (es @ [?e]) m" by (intro metrics_match_other [OF m]) simp_all
    with 1 show ?thesis
      by (intro that [of m]) (simp_all add: count_backpressure_def split: option.split)
  next
    case 2
    have "stream_matches (es @ [?e]) s" if "flow_stream m sid' = Some s" for sid' s
    proof -
      have "os_stream_id s \<noteq> sid" using that 2 flow_stream_id [OF that] by auto
      then show ?thesis
        using 2 that m by (simp add: stream_matches_elsewhere(2) [where sid = sid] metrics_match_def)
    qed
    then have "metrics_match cids sids (es @ [?e]) m" by (rule other [OF _ m]) simp_all
    with 2 show ?thesis by (intro that [of m]) (simp_all add: count_backpressure_def)
  next
    case 3
    define s' where "s' = s\<lparr>os_backpressure_events := counter_increment 1 (os_backpressure_events s)\<rparr>"
    have id: "os_stream_id s' = sid" using flow_stream_id [OF 3(2)] by (simp add: s'_def)
    have sid: "sid \<in> set (map os_stream_id (of_streams m))"
      using 3 by (metis flow_stream_None option.distinct(1))
    have "stream_matches es s" using m 3 by (auto simp: metrics_match_def)
    then have s': "stream_matches (es @ [?e]) s'"
      using 3 flow_stream_id [OF 3(2)]
      by (simp add: stream_matches_def Let_def s'_def log_defs counter_increment_def)
    have "stream_matches (es @ [?e]) x" if "flow_stream (set_flow_stream s' m) sid' = Some x" for sid' x
    proof (cases "sid' = sid")
      case True
      then show ?thesis using that s' sid by (auto simp: flow_stream_set id split: if_splits)
    next
      case False
      then have x: "flow_stream m sid' = Some x"
        using that by (auto simp: flow_stream_set id split: if_splits)
      with False have "os_stream_id x \<noteq> sid" using flow_stream_id by blast
      then show ?thesis
        using x m 3 by (simp add: stream_matches_elsewhere(2) [where sid = sid] metrics_match_def)
    qed
    then have "metrics_match cids sids (es @ [?e]) (set_flow_stream s' m)"
      by (rule other [OF _ m]) simp_all
    with 3 show ?thesis
      by (intro that [of "set_flow_stream s' m"]) (simp_all add: count_backpressure_def s'_def)
  qed
qed

lemma record_latency_match:
  assumes m: "metrics_match cids sids es m"
  obtains h where "histogram_record ns (of_end_to_end_latency m) = Some h"
    "metrics_match cids sids (es @ [RecordedLatency ns]) (m\<lparr>of_end_to_end_latency := h\<rparr>)"
proof -
  have holds: "histogram_holds (latencies es) (of_end_to_end_latency m)"
    and bs: "hi_boundaries (of_end_to_end_latency m) = latency_buckets_ns"
    using m by (auto simp: metrics_match_def)
  obtain h where h: "histogram_record ns (of_end_to_end_latency m) = Some h"
    "histogram_holds (latencies es @ [ns]) h"
    "hi_boundaries h = hi_boundaries (of_end_to_end_latency m)"
    by (rule histogram_record_holds [OF holds]) (auto simp: bs latency_buckets_sorted)
  have "latencies (es @ [RecordedLatency ns]) = latencies es @ [ns]" by (simp add: log_defs)
  with m h bs have "metrics_match cids sids (es @ [RecordedLatency ns]) (m\<lparr>of_end_to_end_latency := h\<rparr>)"
    by (simp add: metrics_match_def component_matches_other stream_matches_other)
      (simp add: log_defs)
  with h(1) show ?thesis by (rule that)
qed

section \<open>Delivering a log\<close>

definition traced_spans ::
  "observability_level \<Rightarrow> flow_trace_context \<Rightarrow> flow_id \<Rightarrow> driver_event list \<Rightarrow> compact_span_record list"
where
  "traced_spans level ctx fid es =
     (if level = ObsDiagnostic \<and> is_sampled (ft_flags ctx)
      then spans fid (tc_span_id (ft_trace_ctx ctx)) es else [])"

definition trace_matches ::
  "observability_level \<Rightarrow> flow_trace_context \<Rightarrow> usize \<Rightarrow> flow_id \<Rightarrow> driver_event list \<Rightarrow> collector \<Rightarrow> bool"
where
  "trace_matches level ctx cap fid es co \<longleftrightarrow>
     (\<exists>st. co_traces co fid = Some st \<and> fs_context st = ctx \<and> sb_capacity (fs_spans st) = cap \<and>
           holds_history (fs_spans st) (traced_spans level ctx fid es))"

definition flow_matches ::
  "component_id list \<Rightarrow> stream_id list \<Rightarrow> flow_id \<Rightarrow> driver_event list \<Rightarrow> collector \<Rightarrow> bool" where
  "flow_matches cids sids fid es co \<longleftrightarrow>
     (\<exists>m. mr_flows (co_metrics co) fid = Some m \<and> metrics_match cids sids es m)"

lemma with_flow_metrics_match:
  assumes "flow_matches cids sids fid es co" "obs_is_enabled (current_level co)"
    and "\<And>m. metrics_match cids sids es m \<Longrightarrow>
           \<exists>m'. f m = Some m' \<and> metrics_match cids sids (es @ [e]) m'"
  shows "\<exists>co'. with_flow_metrics fid f co = Some co' \<and> flow_matches cids sids fid (es @ [e]) co' \<and>
               co_level co' = co_level co \<and> co_traces co' = co_traces co"
proof -
  obtain m where m: "mr_flows (co_metrics co) fid = Some m" "metrics_match cids sids es m"
    using assms(1) by (auto simp: flow_matches_def)
  moreover obtain m' where "f m = Some m'" "metrics_match cids sids (es @ [e]) m'"
    using assms(3) [OF m(2)] by blast
  ultimately
  show ?thesis
    using assms(2) by (simp add: with_flow_metrics_def registry_get_flow_def flow_matches_def)
qed

lemma traced_spans_other:
  "span_of fid (tc_span_id (ft_trace_ctx ctx)) e = None \<Longrightarrow>
   traced_spans level ctx fid (es @ [e]) = traced_spans level ctx fid es"
  by (simp add: traced_spans_def log_defs)

lemma flow_matches_other:
  assumes "flow_matches cids sids fid es co" "invocation_of e = None" "transfer_of e = None"
    "activation_of e = None" "latency_of e = None"
  shows "flow_matches cids sids fid (es @ [e]) co"
  using assms metrics_match_other [of cids sids es _ e] by (auto simp: flow_matches_def)

lemma length_traced_spans: "length (traced_spans level ctx fid es) \<le> length es"
  by (simp add: traced_spans_def spans_def List.map_filter_def length_filter_le)

lemma current_level_eq: "co_level co' = co_level co \<Longrightarrow> current_level co' = current_level co"
  by (simp add: current_level_def)

text \<open>A recorder of metrics, whatever its call, leaves level and traces alone.\<close>

lemma deliver_metrics:
  assumes flow: "flow_matches cids sids fid es co" and enabled: "obs_is_enabled (current_level co)"
    and "span_of fid (tc_span_id (ft_trace_ctx ctx)) e = None"
  shows "\<exists>co'. deliver fid e co = Some co' \<and> flow_matches cids sids fid (es @ [e]) co' \<and>
               co_level co' = co_level co \<and> co_traces co' = co_traces co"
proof (cases e)
  case (RecordedInvocation cid start_ns end_ns status)
  show ?thesis
    unfolding RecordedInvocation deliver.simps record_invocation_def
    by (rule with_flow_metrics_match [OF flow enabled]) (blast elim: count_invocation_match)
next
  case (RecordedTransfer sid sequence depth)
  show ?thesis
    unfolding RecordedTransfer deliver.simps record_element_transfer_def
    by (rule with_flow_metrics_match [OF flow enabled]) (blast elim: count_transfer_match)
next
  case (RecordedBackpressure sid activated depth ns)
  show ?thesis
    unfolding RecordedBackpressure deliver.simps record_backpressure_def
    by (rule with_flow_metrics_match [OF flow enabled]) (blast elim: count_backpressure_match)
next
  case (RecordedLatency ns)
  show ?thesis
    unfolding RecordedLatency deliver.simps record_flow_latency_def
  proof (rule with_flow_metrics_match [OF flow enabled])
    fix m assume "metrics_match cids sids es m"
    then obtain h where "histogram_record ns (of_end_to_end_latency m) = Some h"
      "metrics_match cids sids (es @ [RecordedLatency ns]) (m\<lparr>of_end_to_end_latency := h\<rparr>)"
      by (rule record_latency_match)
    then show "\<exists>m'. map_option (\<lambda>h. m\<lparr>of_end_to_end_latency := h\<rparr>)
          (histogram_record ns (of_end_to_end_latency m)) = Some m' \<and>
        metrics_match cids sids (es @ [RecordedLatency ns]) m'"
      by auto
  qed
qed (use assms flow_matches_other [OF flow, of e] in simp_all)

lemma deliver_span:
  assumes flow: "flow_matches cids sids fid es co" and enabled: "obs_is_enabled (current_level co)"
    and trace: "trace_matches (current_level co) ctx cap fid es co"
    and n: "length es + 1 < 2 ^ 64"
    and e: "e = RecordedSpan cid sequence start_ns end_ns status"
  shows "\<exists>co'. deliver fid e co = Some co' \<and> flow_matches cids sids fid (es @ [e]) co' \<and>
               co_level co' = co_level co \<and>
               trace_matches (current_level co) ctx cap fid (es @ [e]) co'"
proof -
  let ?traced = "traced_spans (current_level co) ctx fid"
  obtain st where st: "co_traces co fid = Some st" "fs_context st = ctx"
    "sb_capacity (fs_spans st) = cap" "holds_history (fs_spans st) (?traced es)"
    using trace by (auto simp: trace_matches_def)
  have flow': "flow_matches cids sids fid (es @ [e]) co"
    by (rule flow_matches_other [OF flow]) (simp_all add: e)
  show ?thesis
  proof (cases "current_level co = ObsDiagnostic \<and> is_sampled (ft_flags ctx)")
    case True
    define r where "r = \<lparr>sp_span_id = derive_span_id fid cid sequence,
      sp_parent_span_id = tc_span_id (ft_trace_ctx ctx), sp_component_id = cid,
      sp_start_ns = start_ns, sp_end_ns = end_ns, sp_status_code = status_code status,
      sp_element_sequence = sequence\<rparr>"
    have traced: "?traced (es @ [e]) = ?traced es @ [r]"
      using True by (simp add: traced_spans_def log_defs e r_def)
    have len: "length (?traced es) + 1 < 2 ^ 64"
      using n length_traced_spans [of "current_level co" ctx fid es] by linarith
    obtain b where b: "span_buffer_push r (fs_spans st) = Some b"
      "holds_history b (?traced es @ [r])" "sb_capacity b = sb_capacity (fs_spans st)"
      by (rule span_buffer_push_history [OF st(4) len])
    let ?co = "co\<lparr>co_traces := (co_traces co)(fid \<mapsto> st\<lparr>fs_spans := b\<rparr>)\<rparr>"
    have "deliver fid e co = Some ?co"
      unfolding e deliver.simps record_element_span_def trace_get_def trace_state_is_sampled_def
        push_span_def Let_def st(1) option.case st(2) r_def [symmetric] b(1)
      using True by simp
    moreover have "flow_matches cids sids fid (es @ [e]) ?co"
      using flow' by (simp add: flow_matches_def)
    moreover have "trace_matches (current_level co) ctx cap fid (es @ [e]) ?co"
      unfolding trace_matches_def traced using st b(2,3) by simp
    ultimately show ?thesis by simp
  next
    case False
    have traced: "?traced (es @ [e]) = ?traced es" using False by (auto simp: traced_spans_def)
    have "deliver fid e co = Some co"
      using False st(1,2)
      by (auto simp: e record_element_span_def trace_get_def trace_state_is_sampled_def)
    moreover have "trace_matches (current_level co) ctx cap fid (es @ [e]) co"
      using trace unfolding trace_matches_def traced .
    ultimately show ?thesis using flow' by simp
  qed
qed

lemma deliver_match:
  assumes flow: "flow_matches cids sids fid es co" and enabled: "obs_is_enabled (current_level co)"
    and trace: "trace_matches (current_level co) ctx cap fid es co"
    and n: "length es + 1 < 2 ^ 64"
  shows "\<exists>co'. deliver fid e co = Some co' \<and> flow_matches cids sids fid (es @ [e]) co' \<and>
               co_level co' = co_level co \<and>
               trace_matches (current_level co) ctx cap fid (es @ [e]) co'"
proof (cases "span_of fid (tc_span_id (ft_trace_ctx ctx)) e")
  case None
  obtain co' where co': "deliver fid e co = Some co'" "flow_matches cids sids fid (es @ [e]) co'"
    "co_level co' = co_level co" "co_traces co' = co_traces co"
    using deliver_metrics [OF flow enabled None] by blast
  have "trace_matches (current_level co) ctx cap fid (es @ [e]) co'"
    using trace unfolding trace_matches_def co'(4) traced_spans_other [OF None] .
  with co' show ?thesis by blast
next
  case (Some r)
  then obtain cid sequence start_ns end_ns status
    where "e = RecordedSpan cid sequence start_ns end_ns status" by (cases e) auto
  then show ?thesis by (rule deliver_span [OF flow enabled trace n])
qed

lemma deliver_all_match:
  assumes "flow_matches cids sids fid es co" "obs_is_enabled (current_level co)"
    "trace_matches (current_level co) ctx cap fid es co" "length es + length fs < 2 ^ 64"
  shows "\<exists>co'. deliver_all fid fs co = Some co' \<and> flow_matches cids sids fid (es @ fs) co' \<and>
               co_level co' = co_level co \<and>
               trace_matches (current_level co) ctx cap fid (es @ fs) co'"
  using assms
proof (induction fs arbitrary: es co)
  case (Cons f fs)
  then obtain co1 where co1: "deliver fid f co = Some co1" "flow_matches cids sids fid (es @ [f]) co1"
    "co_level co1 = co_level co" "trace_matches (current_level co) ctx cap fid (es @ [f]) co1"
    using deliver_match [OF Cons.prems(1-3), of f] Cons.prems(4) by auto
  have level: "current_level co1 = current_level co" by (rule current_level_eq [OF co1(3)])
  have "\<exists>co'. deliver_all fid fs co1 = Some co' \<and> flow_matches cids sids fid ((es @ [f]) @ fs) co' \<and>
               co_level co' = co_level co1 \<and>
               trace_matches (current_level co1) ctx cap fid ((es @ [f]) @ fs) co'"
    using Cons.prems co1 by (intro Cons.IH) (simp_all add: level)
  then show ?case using co1 by (simp add: level)
qed simp

end
