(* ===== verification/Obs_Props.thy ===== *)
theory Obs_Props
  imports Obs_Deliver
begin

text \<open>
  The properties of \<open>torvyn-observability\<close>: what percentiles say of the recorded samples, what a
  span buffer retains, how far span identifiers are unique, and what a collector reports of the
  calls a driver has made on it.
\<close>

section \<open>Percentiles\<close>

lemma fold_max_Max: "vs \<noteq> [] \<Longrightarrow> fold max vs (0 :: u64) = Max (set vs)"
proof -
  assume "vs \<noteq> []"
  moreover have "max 0 x = x" for x :: u64 by (simp add: max_def)
  ultimately show ?thesis
    by (cases vs) (simp_all add: Max.set_eq_fold [symmetric] del: fold_simps(2))
qed

lemma percentile_total:
  assumes holds: "histogram_holds vs h" and n: "length vs < 2 ^ 64"
    and bs: "sorted_wrt (<) (hi_boundaries h)"
  shows "percentile fl p (histogram_take_snapshot h) \<noteq> None"
proof (cases "vs = []")
  case True
  then show ?thesis
    using holds by (simp add: percentile_def histogram_take_snapshot_def histogram_holds_def)
next
  case False
  let ?t = "max (fl_rank fl p (of_nat (length vs))) 1" and ?s = "histogram_take_snapshot h"
  show ?thesis
  proof (cases "unat ?t \<le> length vs")
    case True
    then show ?thesis
      using percentile_of_samples [OF holds n False bs refl True refl refl] by auto
  next
    case beyond: False
    have "unat ?t > 0" by (auto simp: unat_gt_0 max_def)
    then have f0: "samples_below (hi_boundaries h) 0 vs < unat ?t" by simp
    have "percentile_from fl ?s ?t 0 (of_nat (samples_below (hi_boundaries h) 0 vs))
        (map (\<lambda>j. of_nat (length (bucket_samples (hi_boundaries h) j vs)))
          [0 ..< Suc (length (hi_boundaries h))]) = Some (hs_max ?s)"
      using percentile_from_reaches [OF n f0, of fl ?s] beyond by (simp del: upt_Suc)
    moreover have "hs_counts ?s = map (\<lambda>j. of_nat (length (bucket_samples (hi_boundaries h) j vs)))
          [0 ..< Suc (length (hi_boundaries h))]" "hs_total_count ?s = of_nat (length vs)"
      using holds by (simp_all add: histogram_take_snapshot_def histogram_holds_def del: upt_Suc)
    ultimately show ?thesis by (simp add: percentile_def del: upt_Suc)
  qed
qed

text \<open>
  C30. Recording samples in a new histogram with increasing boundaries never fails, and a percentile then
  computed, whose rank is within the samples, interpolates in
  the bucket of the sample that has the wanted rank: from the boundary below this sample (zero in the
  first bucket) to the boundary at or above it (the largest sample in the overflow bucket), by the number
  of samples of the bucket, and how many samples up to its end are left after the wanted rank. No
  arithmetic overflows on the way.
\<close>

theorem percentile_encloses_ranked_sample:
  fixes fl :: "'f float_ops"
  assumes "sorted_wrt (<) bs" "length vs < 2 ^ 64" "vs \<noteq> []"
    and "t = max (fl_rank fl p (of_nat (length vs))) 1" "unat t \<le> length vs"
  shows "let v = sort vs ! (unat t - 1);
      i = length (filter (\<lambda>b. b < v) bs);
      lower = (if i = 0 then 0 else bs ! (i - 1));
      upper = (if i < length bs then bs ! i else Max (set vs));
      upto = length (filter (\<lambda>u. u \<le> upper) vs);
      inside = length (filter (\<lambda>u. (i = 0 \<or> lower < u) \<and> u \<le> upper) vs)
    in \<exists>h. record_all vs (histogram_new bs) = Some h \<and>
      hi_count h = of_nat (length vs) \<and> hi_sum h = sum_list vs \<and>
      percentile fl p (histogram_take_snapshot h) =
        Some (fl_interpolate fl (of_nat (upto - unat t)) (of_nat inside) lower (upper - lower)) \<and>
      lower \<le> v \<and> v \<le> upper \<and> unat t \<le> upto \<and> upto - unat t < inside"
proof -
  obtain h where h: "record_all vs (histogram_new bs) = Some h" "histogram_holds vs h"
    "hi_boundaries h = bs"
    using record_all_holds [OF histogram_holds_new, of bs vs] assms(1) by auto
  define v i where "v = sort vs ! (unat t - 1)" and "i = length (filter (\<lambda>b. b < v) bs)"
  define upper where "upper = (if i < length bs then bs ! i else Max (set vs))"
  have i: "i = first_at_least bs v" "i \<le> length bs"
    using first_at_least_count [OF assms(1)] by (simp_all add: i_def)
  have max: "hs_max (histogram_take_snapshot h) = Max (set vs)"
    using h(2) assms(3) by (simp add: histogram_take_snapshot_def histogram_holds_def fold_max_Max)
  have bounds: "bucket_lower (histogram_take_snapshot h) i = (if i = 0 then 0 else bs ! (i - 1))"
    "bucket_upper (histogram_take_snapshot h) i = upper"
    using h(3) max by (simp_all add: bucket_lower_def bucket_upper_def upper_def histogram_take_snapshot_def)
  have le: "first_at_least bs u \<le> i \<longleftrightarrow> u \<le> upper" if "u \<in> set vs" for u
    using first_at_least_interval(1) [OF assms(1) i(2), of u] that by (auto simp: upper_def)
  have upto: "samples_below bs (Suc i) vs = length (filter (\<lambda>u. u \<le> upper) vs)"
    unfolding samples_below_def by (intro arg_cong [where f = length] filter_cong) (simp_all add: less_Suc_eq_le le)
  have eq: "first_at_least bs u = i \<longleftrightarrow>
      (i = 0 \<or> (if i = 0 then 0 else bs ! (i - 1)) < u) \<and> u \<le> upper" if "u \<in> set vs" for u
    unfolding order.eq_iff [of "first_at_least bs u"] le [OF that]
      first_at_least_interval(2) [OF assms(1) i(2)] by auto
  have inside: "length (bucket_samples bs i vs) =
      length (filter (\<lambda>u. (i = 0 \<or> (if i = 0 then 0 else bs ! (i - 1)) < u) \<and> u \<le> upper) vs)"
    unfolding bucket_samples_def
    by (intro arg_cong [where f = length] filter_cong refl) (rule eq)
  have sorted: "sorted_wrt (<) (hi_boundaries h)" using assms(1) h(3) by simp
  have "i = first_at_least (hi_boundaries h) v" using i(1) h(3) by simp
  from percentile_of_samples [OF h(2) assms(2,3) sorted assms(4,5) v_def this]
  have facts: "percentile fl p (histogram_take_snapshot h) =
        Some (fl_interpolate fl (of_nat (samples_below bs (Suc i) vs - unat t)) (of_nat (length (bucket_samples bs i vs)))
          (if i = 0 then 0 else bs ! (i - 1)) (upper - (if i = 0 then 0 else bs ! (i - 1))))"
      "(if i = 0 then 0 else bs ! (i - 1)) \<le> v" "v \<le> upper" "unat t \<le> samples_below bs (Suc i) vs"
      "samples_below bs (Suc i) vs - unat t < length (bucket_samples bs i vs)"
    unfolding h(3) bounds by blast+
  have "hi_count h = of_nat (length vs)" "hi_sum h = sum_list vs" using h(2) by (simp_all only: histogram_holds_def)
  with h(1) facts show ?thesis
    unfolding Let_def v_def [symmetric] i_def [symmetric] upper_def [symmetric] inside [symmetric] upto [symmetric]
    by blast
qed

definition unit_float_ops :: "unit float_ops" where
  "unit_float_ops =
     \<lparr>fl_rank = (\<lambda>p n. 2), fl_interpolate = (\<lambda>within count lower width. lower + width),
      fl_div = (\<lambda>_ _. ()), fl_zero = ()\<rparr>"

lemma percentile_encloses_ranked_sample_witness:
  "\<exists>h. record_all [30, 5, 15, 12] (histogram_new [10, 20]) = Some h \<and>
    percentile unit_float_ops 500 (histogram_take_snapshot h) =
      Some (fl_interpolate unit_float_ops 1 2 10 (20 - 10))"
proof -
  have s: "sort [30, 5, 15, 12 :: u64] = [5, 12, 15, 30]" by simp
  have "sorted_wrt (<) [10, 20 :: u64]" "length [30, 5, 15, 12 :: u64] < 2 ^ 64" "[30, 5, 15, 12 :: u64] \<noteq> []"
    "(2 :: u64) = max (fl_rank unit_float_ops 500 (of_nat (length [30, 5, 15, 12 :: u64]))) 1"
    "unat (2 :: u64) \<le> length [30, 5, 15, 12 :: u64]"
    by (simp_all add: unit_float_ops_def max_def word_le_nat_alt)
  from percentile_encloses_ranked_sample [OF this] show ?thesis by (auto simp: s Let_def)
qed

section \<open>The span buffer\<close>

datatype span_op = PushSpan compact_span_record | DrainSpans

fun run_span_ops ::
  "span_op list \<Rightarrow> span_ring_buffer \<Rightarrow> (compact_span_record list list \<times> span_ring_buffer) option" where
  "run_span_ops [] b = Some ([], b)"
| "run_span_ops (PushSpan r # ops) b = Option.bind (span_buffer_push r b) (run_span_ops ops)"
| "run_span_ops (DrainSpans # ops) b =
     Option.bind (span_buffer_drain b) (\<lambda>(rs, b).
       map_option (\<lambda>(outs, b). (rs # outs, b)) (run_span_ops ops b))"

text \<open>The specification: a list from which a drain takes the last \<open>cap\<close> entries.\<close>

fun spec_span_ops ::
  "nat \<Rightarrow> span_op list \<Rightarrow> compact_span_record list \<Rightarrow>
   compact_span_record list list \<times> compact_span_record list" where
  "spec_span_ops cap [] rs = ([], rs)"
| "spec_span_ops cap (PushSpan r # ops) rs = spec_span_ops cap ops (rs @ [r])"
| "spec_span_ops cap (DrainSpans # ops) rs =
     (let (outs, rest) = spec_span_ops cap ops [] in (last_n cap rs # outs, rest))"

lemma run_span_ops_history:
  assumes "holds_history b rs" "length rs + length ops < 2 ^ 64"
  shows "\<exists>outs b'. run_span_ops ops b = Some (outs, b') \<and>
     fst (spec_span_ops (sb_capacity b) ops rs) = outs \<and>
     holds_history b' (snd (spec_span_ops (sb_capacity b) ops rs)) \<and> sb_capacity b' = sb_capacity b"
  using assms
proof (induction ops arbitrary: rs b)
  case (Cons oper ops)
  show ?case
  proof (cases oper)
    case (PushSpan r)
    have "length rs + 1 < 2 ^ 64" using Cons.prems(2) by simp
    then obtain b1 where b1: "span_buffer_push r b = Some b1" "holds_history b1 (rs @ [r])"
      "sb_capacity b1 = sb_capacity b"
      by (rule span_buffer_push_history [OF Cons.prems(1)])
    show ?thesis using Cons.IH [OF b1(2)] Cons.prems(2) b1 by (simp add: PushSpan)
  next
    case DrainSpans
    obtain b1 where b1: "span_buffer_drain b = Some (last_n (sb_capacity b) rs, b1)"
      "holds_history b1 []" "sb_capacity b1 = sb_capacity b"
      using span_buffer_drain_history [OF Cons.prems(1)] by auto
    show ?thesis
      using Cons.IH [OF b1(2)] Cons.prems(2) b1
      by (auto simp: DrainSpans split_beta Let_def)
  qed
qed simp

text \<open>
  C31. In every sequence of pushes and drains, the span ring buffer acts as the list of the
  records pushed since the last drain, of which a drain returns the most recent \<open>capacity\<close>, oldest
  first; its length and its error test are those of the retained records.
\<close>

theorem span_buffer_refines_history:
  assumes "k < 64" "length ops < 2 ^ 64"
  shows "\<exists>b. run_span_ops ops (span_buffer_new (2 ^ k)) = Some (fst (spec_span_ops (2 ^ k) ops []), b) \<and>
    (let kept = last_n (2 ^ k) (snd (spec_span_ops (2 ^ k) ops [])) in
     span_buffer_len b = length kept \<and>
     span_buffer_contains_error b = Some (list_ex span_is_error kept))"
proof -
  have cap: "sb_capacity (span_buffer_new (2 ^ k)) = 2 ^ k" by (simp add: span_buffer_new_def)
  obtain b where b: "run_span_ops ops (span_buffer_new (2 ^ k)) = Some (fst (spec_span_ops (2 ^ k) ops []), b)"
    "holds_history b (snd (spec_span_ops (2 ^ k) ops []))" "sb_capacity b = 2 ^ k"
    using run_span_ops_history [OF holds_history_new [OF assms(1)], of ops] assms(2)
    by (auto simp: cap)
  from span_buffer_len_history [OF b(2)] span_buffer_contains_error_history [OF b(2)] b
  show ?thesis by (simp add: Let_def min.commute)
qed

lemma span_buffer_refines_history_witness:
  "\<exists>b. run_span_ops [PushSpan span_zeroed, DrainSpans, PushSpan span_zeroed] (span_buffer_new (2 ^ 3)) =
      Some (fst (spec_span_ops (2 ^ 3) [PushSpan span_zeroed, DrainSpans, PushSpan span_zeroed] []), b) \<and>
    (let kept = last_n (2 ^ 3)
       (snd (spec_span_ops (2 ^ 3) [PushSpan span_zeroed, DrainSpans, PushSpan span_zeroed] [])) in
     span_buffer_len b = length kept \<and>
     span_buffer_contains_error b = Some (list_ex span_is_error kept))"
  by (rule span_buffer_refines_history) simp_all

section \<open>Span identifiers\<close>

text \<open>
  C32. Within a flow, span identifiers are distinct for distinct invocations while sequence
  numbers stay below \<open>2 ^ 21\<close> and component identifiers below \<open>2 ^ 43\<close>; of one component they are
  distinct for all sequence numbers. The first bound is sharp: sequence number \<open>2 ^ 21\<close> of
  component \<open>0\<close> has the identifier of sequence number \<open>0\<close> of component \<open>1\<close>.
\<close>

theorem span_ids_unique:
  assumes "unat s < 2 ^ 21" "unat s' < 2 ^ 21" "unat c < 2 ^ 43" "unat c' < 2 ^ 43"
  shows "(derive_span_id f (ComponentId c) s = derive_span_id f (ComponentId c') s' \<longleftrightarrow>
          c = c' \<and> s = s') \<and>
    (derive_span_id f d q = derive_span_id f d q' \<longleftrightarrow> q = q') \<and>
    derive_span_id f (ComponentId 0) 2097152 = derive_span_id f (ComponentId 1) 0"
proof (intro conjI)
  show "derive_span_id f (ComponentId c) s = derive_span_id f (ComponentId c') s' \<longleftrightarrow> c = c' \<and> s = s'"
    using key_separates [of s c s' c'] assms
    by (auto simp: derive_span_id_eq_iff span_key_eq_iff)
  show "derive_span_id f d q = derive_span_id f d q' \<longleftrightarrow> q = q'"
    by (simp add: derive_span_id_eq_iff span_key_eq_iff xor_right_cancel)
  have "word_rotl 21 (0 :: u64) = 0" "word_rotl 21 (1 :: u64) = 2097152"
    by code_simp+
  then show "derive_span_id f (ComponentId 0) 2097152 = derive_span_id f (ComponentId 1) 0"
    by (simp add: derive_span_id_eq_iff span_key_eq_iff)
qed

lemma span_ids_unique_witness:
  "(derive_span_id (FlowId 7) (ComponentId 3) 5 = derive_span_id (FlowId 7) (ComponentId 4) 5 \<longleftrightarrow>
          (3 :: u64) = 4 \<and> (5 :: u64) = 5) \<and>
    (derive_span_id (FlowId 7) (ComponentId 9) 0 = derive_span_id (FlowId 7) (ComponentId 9) 4194304 \<longleftrightarrow>
       (0 :: u64) = 4194304) \<and>
    derive_span_id (FlowId 7) (ComponentId 0) 2097152 = derive_span_id (FlowId 7) (ComponentId 1) 0"
  by (rule span_ids_unique) simp_all

section \<open>The collector and the driver\<close>

lemma snapshot_component_matches:
  assumes "component_matches es c" "length es < 2 ^ 64"
  shows "\<exists>s. snapshot_component fl c = Some s \<and> cn_component_id s = oc_component_id c \<and>
    cn_invocations s = of_nat (length (invocations_at (oc_component_id c) es)) \<and>
    cn_errors s = of_nat (length (filter failed (invocations_at (oc_component_id c) es)))"
proof -
  have "length (invocations_at (oc_component_id c) es) \<le> length es"
    by (simp add: log_defs List.map_filter_def order_trans [OF length_filter_le])
  then have len: "length (map (\<lambda>(_, ns, _). ns) (invocations_at (oc_component_id c) es)) < 2 ^ 64"
    using assms(2) by simp
  have "percentile fl p (histogram_take_snapshot (oc_processing_time c)) \<noteq> None" for p
    using assms(1) len
    by (intro percentile_total) (auto simp: component_matches_def Let_def latency_buckets_sorted)
  then obtain p50 p95 p99 where
    "percentile fl 500 (histogram_take_snapshot (oc_processing_time c)) = Some p50"
    "percentile fl 950 (histogram_take_snapshot (oc_processing_time c)) = Some p95"
    "percentile fl 990 (histogram_take_snapshot (oc_processing_time c)) = Some p99"
    by fastforce
  then show ?thesis
    using assms(1) by (simp add: snapshot_component_def Let_def component_matches_def)
qed

lemma option_all_some:
  "(\<And>x. x \<in> set xs \<Longrightarrow> \<exists>y. f x = Some y \<and> P x y) \<Longrightarrow>
   \<exists>ys. option_all (map f xs) = Some ys \<and> list_all2 P xs ys"
proof (induction xs)
  case (Cons x xs)
  obtain y where "f x = Some y" "P x y" using Cons.prems by force
  moreover obtain ys where "option_all (map f xs) = Some ys" "list_all2 P xs ys"
    using Cons by force
  ultimately show ?case by simp
qed simp

lemma find_distinct:
  "distinct (map key xs) \<Longrightarrow> x \<in> set xs \<Longrightarrow> find (\<lambda>y. key y = key x) xs = Some x"
  by (induction xs) force+

text \<open>What a final report says of the calls.\<close>

definition reports :: "driver_event list \<Rightarrow> component_id list \<Rightarrow> stream_id list \<Rightarrow> 'f flow_snapshot \<Rightarrow> bool"
where
  "reports es cids sids snap \<longleftrightarrow>
     fn_elements_total snap = of_nat (length (invocations es)) \<and>
     fn_errors_total snap =
       of_nat (length (filter (\<lambda>i. fst i \<in> set cids \<and> failed i) (invocations es))) \<and>
     fn_latency_min_ns snap = fold min (latencies es) (- 1) \<and>
     fn_latency_max_ns snap = fold max (latencies es) 0 \<and>
     list_all2 (\<lambda>cid s. cn_component_id s = cid \<and>
         cn_invocations s = of_nat (length (invocations_at cid es)) \<and>
         cn_errors s = of_nat (length (filter failed (invocations_at cid es))))
       cids (fn_components snap) \<and>
     list_all2 (\<lambda>sid s. sn_stream_id s = sid \<and> sn_elements s = of_nat (length (depths_at sid es)) \<and>
         sn_queue_depth_peak s = fold max (depths_at sid es) 0 \<and>
         sn_backpressure_events s = of_nat (length (activations_at sid es)))
       sids (fn_streams snap)"

lemma snapshot_flow_matches:
  assumes m: "metrics_match cids sids es m" and n: "length es < 2 ^ 64"
    and d: "distinct cids" "distinct sids"
  shows "\<exists>snap. snapshot_flow fl m = Some snap \<and> reports es cids sids snap"
proof -
  have comps: "\<exists>s. snapshot_component fl c = Some s \<and> cn_component_id s = oc_component_id c \<and>
      cn_invocations s = of_nat (length (invocations_at (oc_component_id c) es)) \<and>
      cn_errors s = of_nat (length (filter failed (invocations_at (oc_component_id c) es)))"
    if "c \<in> set (of_components m)" for c
  proof (rule snapshot_component_matches [OF _ n])
    have "flow_component m (oc_component_id c) = Some c"
      using that m d(1) by (auto simp: flow_component_def metrics_match_def intro!: find_distinct)
    with m show "component_matches es c" by (auto simp: metrics_match_def)
  qed
  obtain ss where ss: "option_all (map (snapshot_component fl) (of_components m)) = Some ss"
    "list_all2 (\<lambda>c s. cn_component_id s = oc_component_id c \<and>
      cn_invocations s = of_nat (length (invocations_at (oc_component_id c) es)) \<and>
      cn_errors s = of_nat (length (filter failed (invocations_at (oc_component_id c) es))))
     (of_components m) ss"
    by (rule exE [OF option_all_some [of "of_components m" "snapshot_component fl"
          "\<lambda>c s. cn_component_id s = oc_component_id c \<and>
      cn_invocations s = of_nat (length (invocations_at (oc_component_id c) es)) \<and>
      cn_errors s = of_nat (length (filter failed (invocations_at (oc_component_id c) es)))",
          OF comps]]) auto
  have cids: "cids = map oc_component_id (of_components m)" "sids = map os_stream_id (of_streams m)"
    using m by (auto simp: metrics_match_def)
  have streams: "list_all2 (\<lambda>sid s. sn_stream_id s = sid \<and> sn_elements s = of_nat (length (depths_at sid es)) \<and>
         sn_queue_depth_peak s = fold max (depths_at sid es) 0 \<and>
         sn_backpressure_events s = of_nat (length (activations_at sid es)))
       sids (map snapshot_stream (of_streams m))"
  proof -
    have "stream_matches es s" if "s \<in> set (of_streams m)" for s
    proof -
      have "flow_stream m (os_stream_id s) = Some s"
        using that m d(2) by (auto simp: flow_stream_def metrics_match_def intro!: find_distinct)
      with m show ?thesis by (auto simp: metrics_match_def)
    qed
    then show ?thesis
      by (auto simp: cids(2) list_all2_conv_all_nth stream_matches_def Let_def snapshot_stream_def)
  qed
  have "length (latencies es) \<le> length es"
    by (simp add: log_defs List.map_filter_def)
  then have "percentile fl p (histogram_take_snapshot (of_end_to_end_latency m)) \<noteq> None" for p
    using m n by (intro percentile_total) (auto simp: metrics_match_def latency_buckets_sorted)
  then obtain p50 p90 p95 p99 p999 where p:
    "percentile fl 500 (histogram_take_snapshot (of_end_to_end_latency m)) = Some p50"
    "percentile fl 900 (histogram_take_snapshot (of_end_to_end_latency m)) = Some p90"
    "percentile fl 950 (histogram_take_snapshot (of_end_to_end_latency m)) = Some p95"
    "percentile fl 990 (histogram_take_snapshot (of_end_to_end_latency m)) = Some p99"
    "percentile fl 999 (histogram_take_snapshot (of_end_to_end_latency m)) = Some p999"
    by fastforce
  have lat: "hs_min (histogram_take_snapshot (of_end_to_end_latency m)) = fold min (latencies es) (- 1)"
    "hs_max (histogram_take_snapshot (of_end_to_end_latency m)) = fold max (latencies es) 0"
    using m by (auto simp: metrics_match_def histogram_holds_def histogram_take_snapshot_def)
  have comps': "list_all2 (\<lambda>cid s. cn_component_id s = cid \<and>
         cn_invocations s = of_nat (length (invocations_at cid es)) \<and>
         cn_errors s = of_nat (length (filter failed (invocations_at cid es))))
       cids ss"
    using ss(2) by (simp add: cids(1) list_all2_map1)
  show ?thesis
    using m comps' streams
    by (simp add: snapshot_flow_def Let_def ss(1) p reports_def metrics_match_def lat)
qed

lemma new_trace_context_cong:
  "co_level co' = co_level co \<Longrightarrow> co_sampler co' = co_sampler co \<Longrightarrow>
   new_trace_context ck fid co' = new_trace_context ck fid co"
  by (simp add: new_trace_context_def current_level_def)

lemma on_flow_start_matches:
  assumes "mr_flows (co_metrics co) fid = None"
    and "tg_ring_buffer_capacity (ob_tracing (co_config co)) = 2 ^ k" "k < 64"
  shows "flow_matches cids sids fid [] (on_flow_start ck fid cids sids co)"
    "trace_matches level (new_trace_context ck fid co) (2 ^ k) fid []
       (on_flow_start ck fid cids sids co)"
    "current_level (on_flow_start ck fid cids sids co) = current_level co"
proof -
  have ctx: "new_trace_context ck fid (co\<lparr>co_metrics := reg\<rparr>) = new_trace_context ck fid co" for reg
    by (rule new_trace_context_cong) simp_all
  have start: "on_flow_start ck fid cids sids co =
      co\<lparr>co_metrics := snd (projr (registry_register_flow fid cids sids (ck_start ck) (co_metrics co))),
         co_traces := trace_register fid
           (flow_trace_state_new (new_trace_context ck fid co) (2 ^ k)) (co_traces co)\<rparr>"
    using assms
    by (simp add: on_flow_start_def register_flow_state_def registry_register_flow_def Let_def ctx)
  show "flow_matches cids sids fid [] (on_flow_start ck fid cids sids co)"
    using assms(1) metrics_match_new
    by (simp add: start flow_matches_def registry_register_flow_def Let_def)
  show "trace_matches level (new_trace_context ck fid co) (2 ^ k) fid []
       (on_flow_start ck fid cids sids co)"
    using holds_history_new [OF assms(3)]
    by (simp add: start trace_matches_def trace_register_def flow_trace_state_new_def
        traced_spans_def spans_def List.map_filter_def span_buffer_new_def)
  show "current_level (on_flow_start ck fid cids sids co) = current_level co"
    by (simp add: start current_level_def)
qed

text \<open>
  C33. A flow that starts on an enabled collector and whose driver's calls are then all delivered
  ends with the spans of the most recent calls retained - all of them at the diagnostic level if
  the flow is sampled, none otherwise - and with a final report that counts exactly the calls:
  in total, by component and by stream, with the failures, the peak queue depths and the extreme
  latencies. Nothing panics, and deregistration forgets the flow.
\<close>

theorem collector_reports_driver_log:
  fixes fl :: "'f float_ops"
  assumes new: "mr_flows (co_metrics co) fid = None"
    and enabled: "obs_is_enabled (current_level co)"
    and cap: "tg_ring_buffer_capacity (ob_tracing (co_config co)) = 2 ^ k" "k < 64"
    and ids: "distinct cids" "distinct sids" and n: "length es < 2 ^ 64"
  shows "\<exists>co1 co2 snap co3.
    deliver_all fid es (on_flow_start ck fid cids sids co) = Some co1 \<and>
    drain_flow_spans fid co1 =
      Some (last_n (2 ^ k)
        (traced_spans (current_level co) (new_trace_context ck fid co) fid es), co2) \<and>
    deregister_flow fl fid co2 = Some (Inr (snap, co3)) \<and> reports es cids sids snap \<and>
    mr_flows (co_metrics co3) fid = None \<and> co_traces co3 fid = None"
proof -
  let ?ctx = "new_trace_context ck fid co" and ?co0 = "on_flow_start ck fid cids sids co"
  note start = on_flow_start_matches [OF new cap, where ck = ck and cids = cids and sids = sids]
  obtain co1 where co1: "deliver_all fid es ?co0 = Some co1" "flow_matches cids sids fid es co1"
    "trace_matches (current_level co) ?ctx (2 ^ k) fid es co1"
    using deliver_all_match [OF start(1) _ start(2), of es] enabled n start(3) by auto
  obtain st where st: "co_traces co1 fid = Some st" "sb_capacity (fs_spans st) = 2 ^ k"
    "holds_history (fs_spans st) (traced_spans (current_level co) ?ctx fid es)"
    using co1(3) by (auto simp: trace_matches_def)
  obtain b where b: "span_buffer_drain (fs_spans st) =
      Some (last_n (2 ^ k) (traced_spans (current_level co) ?ctx fid es), b)"
    using span_buffer_drain_history [OF st(3)] st(2) by auto
  define co2 where "co2 = co1\<lparr>co_traces := (co_traces co1)(fid \<mapsto> st\<lparr>fs_spans := b\<rparr>)\<rparr>"
  have drain: "drain_flow_spans fid co1 =
      Some (last_n (2 ^ k) (traced_spans (current_level co) ?ctx fid es), co2)"
    by (simp add: drain_flow_spans_def trace_get_def st(1) drain_spans_def b co2_def)
  obtain m where m: "mr_flows (co_metrics co2) fid = Some m" "metrics_match cids sids es m"
    using co1(2) by (auto simp: flow_matches_def co2_def)
  obtain snap where snap: "snapshot_flow fl m = Some snap" "reports es cids sids snap"
    using snapshot_flow_matches [OF m(2) n ids] by blast
  have "\<exists>co3. deregister_flow fl fid co2 = Some (Inr (snap, co3)) \<and>
      mr_flows (co_metrics co3) fid = None \<and> co_traces co3 fid = None"
    by (simp add: deregister_flow_def registry_deregister_flow_def m(1) snap(1) Let_def
        trace_deregister_def)
  then show ?thesis using co1(1) drain snap(2) by blast
qed

definition collector_example :: collector where
  "collector_example =
     \<lparr>co_level = 2, co_metrics = metrics_registry_new,
      co_event_tx = \<lparr>ch_queue = [], ch_capacity = 8, ch_open = True\<rparr>,
      co_event_buffer = event_buffer_new 8,
      co_sampler = \<lparr>sa_sample_rate = \<lparr>sr_at_least_one = True, sr_at_most_zero = False,
                     sr_threshold = - 1\<rparr>,
                    sa_error_promote = True, sa_latency_promote_threshold_ns = 10000000\<rparr>,
      co_traces = trace_registry_new,
      co_config = observability_config_default
        \<lparr>sr_at_least_one = True, sr_at_most_zero = False, sr_threshold = - 1\<rparr>\<rparr>"

definition log_example :: "driver_event list" where
  "log_example =
     [RecordedInvocation (ComponentId 1) 5 9 StatusOk, RecordedSpan (ComponentId 1) 0 5 9 StatusOk,
      RecordedTransfer (StreamId 0) 0 1, RecordedInvocation (ComponentId 2) 9 20 StatusTimeout,
      RecordedBackpressure (StreamId 0) True 1 30, RecordedLatency 40]"

lemma collector_reports_driver_log_witness:
  "\<exists>co1 co2 snap co3.
    deliver_all (FlowId 3) log_example
      (on_flow_start \<lparr>ck_start = 1, ck_trace = 2, ck_root = 3\<rparr> (FlowId 3)
         [ComponentId 1, ComponentId 2] [StreamId 0] collector_example) = Some co1 \<and>
    drain_flow_spans (FlowId 3) co1 =
      Some (last_n (2 ^ 6)
        (traced_spans (current_level collector_example)
           (new_trace_context \<lparr>ck_start = 1, ck_trace = 2, ck_root = 3\<rparr> (FlowId 3) collector_example)
           (FlowId 3) log_example), co2) \<and>
    deregister_flow unit_float_ops (FlowId 3) co2 = Some (Inr (snap, co3)) \<and>
    reports log_example [ComponentId 1, ComponentId 2] [StreamId 0] snap \<and>
    mr_flows (co_metrics co3) (FlowId 3) = None \<and> co_traces co3 (FlowId 3) = None"
  by (rule collector_reports_driver_log)
    (simp_all add: collector_example_def log_example_def metrics_registry_new_def
      current_level_def obs_from_u8_def observability_config_default_def tracing_config_default_def)

end
