(* ===== verification/Con_Error.thy ===== *)
theory Con_Error
  imports Sec_Text "HOL-Library.Multiset"
begin

text \<open>
  The diagnostics of \<open>torvyn-contracts\<close> (\<open>errors.rs\<close>): error codes, severities, diagnostics with
  their locations, the builder and the result that collects them. Paths are strings; their order,
  which the sort uses, is the argument \<open>path_less\<close>.
\<close>

section \<open>Codes and diagnostics\<close>

datatype contract_code =
    WitSyntaxError | WitUnresolvedReference | WitPackageDeclaration
  | ManifestParseError | ManifestMissingField | ManifestCapabilityError | ManifestVersionError
  | NoExportedInterface | CapabilityMismatch | UnsatisfiableVersion | IncompleteInterface
  | IncompatibleMajorVersion | MissingFunction | MissingInterface | TypeSignatureChanged
  | OwnershipSemanticChanged | FieldRemoved | VariantCaseRemoved
  | CodeInvalidTopology | SourceHasIncoming | SinkHasOutgoing | DisconnectedComponent
  | UnmetCapability | UnknownRouterPort | InterfaceTypeMismatch | VersionRangeUnsatisfiable

fun code_as_u16 :: "contract_code \<Rightarrow> nat" where
  "code_as_u16 WitSyntaxError = 100"
| "code_as_u16 WitUnresolvedReference = 101"
| "code_as_u16 WitPackageDeclaration = 102"
| "code_as_u16 ManifestParseError = 110"
| "code_as_u16 ManifestMissingField = 111"
| "code_as_u16 ManifestCapabilityError = 112"
| "code_as_u16 ManifestVersionError = 113"
| "code_as_u16 NoExportedInterface = 120"
| "code_as_u16 CapabilityMismatch = 121"
| "code_as_u16 UnsatisfiableVersion = 122"
| "code_as_u16 IncompleteInterface = 123"
| "code_as_u16 IncompatibleMajorVersion = 140"
| "code_as_u16 MissingFunction = 141"
| "code_as_u16 MissingInterface = 142"
| "code_as_u16 TypeSignatureChanged = 143"
| "code_as_u16 OwnershipSemanticChanged = 144"
| "code_as_u16 FieldRemoved = 145"
| "code_as_u16 VariantCaseRemoved = 146"
| "code_as_u16 CodeInvalidTopology = 160"
| "code_as_u16 SourceHasIncoming = 161"
| "code_as_u16 SinkHasOutgoing = 162"
| "code_as_u16 DisconnectedComponent = 163"
| "code_as_u16 UnmetCapability = 164"
| "code_as_u16 UnknownRouterPort = 165"
| "code_as_u16 InterfaceTypeMismatch = 166"
| "code_as_u16 VersionRangeUnsatisfiable = 167"

definition zero_padded :: "nat \<Rightarrow> nat \<Rightarrow> string" where
  "zero_padded w n = replicate (w - length (decimal n)) CHR ''0'' @ decimal n"

definition code_as_str :: "contract_code \<Rightarrow> string" where
  "code_as_str c = ''E'' @ zero_padded 4 (code_as_u16 c)"

datatype diag_severity = DiagHint | DiagWarning | DiagError

fun diag_severity_text :: "diag_severity \<Rightarrow> string" where
  "diag_severity_text DiagHint = ''hint''"
| "diag_severity_text DiagWarning = ''warning''"
| "diag_severity_text DiagError = ''error''"

record source_location =
  sl_file :: string
  sl_line :: nat
  sl_column :: nat

definition source_location_display :: "source_location \<Rightarrow> string" where
  "source_location_display l =
     (if sl_column l > 0
      then sl_file l @ '':'' @ decimal (sl_line l) @ '':'' @ decimal (sl_column l)
      else sl_file l @ '':'' @ decimal (sl_line l))"

record location_context =
  lc_location :: source_location
  lc_label :: string

record diagnostic =
  dg_code :: contract_code
  dg_severity :: diag_severity
  dg_message :: string
  dg_locations :: "location_context list"
  dg_notes :: "string list"
  dg_help :: "string option"

definition newline :: string where
  "newline = [char_of (10 :: nat)]"

definition diagnostic_text :: "diagnostic \<Rightarrow> string" where
  "diagnostic_text d =
     diag_severity_text (dg_severity d) @ ''['' @ code_as_str (dg_code d) @ '']: '' @
       dg_message d @ newline @
     concat (map (\<lambda>l. ''  --> '' @ source_location_display (lc_location l) @ newline @
                      ''   |'' @ newline @ ''   | '' @ lc_label l @ newline) (dg_locations d)) @
     concat (map (\<lambda>n. ''   = note: '' @ n @ newline) (dg_notes d)) @
     (case dg_help d of None \<Rightarrow> [] | Some h \<Rightarrow> ''   = help: '' @ h @ newline)"

section \<open>The builder\<close>

definition diag_error :: "contract_code \<Rightarrow> string \<Rightarrow> diagnostic" where
  "diag_error c msg =
     \<lparr>dg_code = c, dg_severity = DiagError, dg_message = msg, dg_locations = [], dg_notes = [],
      dg_help = None\<rparr>"

definition diag_warning :: "contract_code \<Rightarrow> string \<Rightarrow> diagnostic" where
  "diag_warning c msg =
     \<lparr>dg_code = c, dg_severity = DiagWarning, dg_message = msg, dg_locations = [], dg_notes = [],
      dg_help = None\<rparr>"

definition diag_location :: "string \<Rightarrow> nat \<Rightarrow> nat \<Rightarrow> string \<Rightarrow> diagnostic \<Rightarrow> diagnostic" where
  "diag_location file line column label d =
     d\<lparr>dg_locations := dg_locations d @
         [\<lparr>lc_location = \<lparr>sl_file = file, sl_line = line, sl_column = column\<rparr>,
           lc_label = label\<rparr>]\<rparr>"

definition diag_note :: "string \<Rightarrow> diagnostic \<Rightarrow> diagnostic" where
  "diag_note n d = d\<lparr>dg_notes := dg_notes d @ [n]\<rparr>"

definition diag_help :: "string \<Rightarrow> diagnostic \<Rightarrow> diagnostic" where
  "diag_help h d = d\<lparr>dg_help := Some h\<rparr>"

section \<open>The result\<close>

type_synonym validation_result = "diagnostic list"

definition result_is_ok :: "validation_result \<Rightarrow> bool" where
  "result_is_ok r \<longleftrightarrow> \<not> list_ex (\<lambda>d. dg_severity d = DiagError) r"

definition result_errors :: "validation_result \<Rightarrow> diagnostic list" where
  "result_errors r = filter (\<lambda>d. dg_severity d = DiagError) r"

definition result_warnings :: "validation_result \<Rightarrow> diagnostic list" where
  "result_warnings r = filter (\<lambda>d. dg_severity d = DiagWarning) r"

definition result_merge :: "validation_result \<Rightarrow> validation_result \<Rightarrow> validation_result" where
  "result_merge r s = r @ s"

definition result_format_all :: "validation_result \<Rightarrow> string" where
  "result_format_all r = join newline (map diagnostic_text r)"

text \<open>
  The sort of the standard library is stable, so it is the insertion sort for the order of the
  comparison: by the first location - file, line, column - with diagnostics without one last.
\<close>

definition location_less :: "(string \<Rightarrow> string \<Rightarrow> bool) \<Rightarrow> source_location \<Rightarrow> source_location \<Rightarrow> bool" where
  "location_less path_less a b \<longleftrightarrow>
     path_less (sl_file a) (sl_file b) \<or>
     \<not> path_less (sl_file b) (sl_file a) \<and>
       (sl_line a < sl_line b \<or> sl_line a = sl_line b \<and> sl_column a < sl_column b)"

definition diag_less :: "(string \<Rightarrow> string \<Rightarrow> bool) \<Rightarrow> diagnostic \<Rightarrow> diagnostic \<Rightarrow> bool" where
  "diag_less path_less a b =
     (case (dg_locations a, dg_locations b) of
        (x # _, y # _) \<Rightarrow> location_less path_less (lc_location x) (lc_location y)
      | (_ # _, []) \<Rightarrow> True
      | ([], _) \<Rightarrow> False)"

fun insert_stable :: "('a \<Rightarrow> 'a \<Rightarrow> bool) \<Rightarrow> 'a \<Rightarrow> 'a list \<Rightarrow> 'a list" where
  "insert_stable lt x [] = [x]"
| "insert_stable lt x (y # ys) = (if lt y x then y # insert_stable lt x ys else x # y # ys)"

definition result_sort :: "(string \<Rightarrow> string \<Rightarrow> bool) \<Rightarrow> validation_result \<Rightarrow> validation_result" where
  "result_sort path_less r = foldr (insert_stable (diag_less path_less)) r []"

definition escape_quotes :: "string \<Rightarrow> string" where
  "escape_quotes s =
     concat (map (\<lambda>c. if c = char_of (34 :: nat) then [char_of (92 :: nat), c] else [c]) s)"

definition quoted :: "string \<Rightarrow> string" where
  "quoted s = char_of (34 :: nat) # s @ [char_of (34 :: nat)]"

definition location_json :: "location_context \<Rightarrow> string" where
  "location_json l =
     ''{'' @ quoted ''file'' @ '':'' @ quoted (sl_file (lc_location l)) @ '','' @
     quoted ''line'' @ '':'' @ decimal (sl_line (lc_location l)) @ '','' @
     quoted ''column'' @ '':'' @ decimal (sl_column (lc_location l)) @ '','' @
     quoted ''label'' @ '':'' @ quoted (escape_quotes (lc_label l)) @ ''}''"

definition diagnostic_json :: "diagnostic \<Rightarrow> string" where
  "diagnostic_json d =
     ''{'' @ quoted ''code'' @ '':'' @ quoted (code_as_str (dg_code d)) @ '','' @
     quoted ''severity'' @ '':'' @ quoted (diag_severity_text (dg_severity d)) @ '','' @
     quoted ''message'' @ '':'' @ quoted (escape_quotes (dg_message d)) @ '','' @
     quoted ''locations'' @ '':['' @ join '','' (map location_json (dg_locations d)) @ '']'' @
     (if dg_notes d = [] then []
      else '','' @ quoted ''notes'' @ '':['' @
        join '','' (map (\<lambda>n. quoted (escape_quotes n)) (dg_notes d)) @ '']'') @
     (case dg_help d of None \<Rightarrow> []
      | Some h \<Rightarrow> '','' @ quoted ''help'' @ '':'' @ quoted (escape_quotes h)) @ ''}''"

definition result_to_json :: "validation_result \<Rightarrow> string" where
  "result_to_json r = ''['' @ join '','' (map diagnostic_json r) @ '']''"

section \<open>Lemmas\<close>

lemma mset_insert_stable [simp]: "mset (insert_stable lt x ys) = add_mset x (mset ys)"
  by (induction ys) auto

lemma mset_result_sort [simp]: "mset (result_sort pl r) = mset r"
proof -
  have "mset (foldr (insert_stable (diag_less pl)) r []) = mset r" by (induction r) auto
  then show ?thesis by (simp add: result_sort_def)
qed

lemma set_result_sort [simp]: "set (result_sort pl r) = set r"
  by (rule mset_eq_setD) simp

lemma result_is_ok_iff: "result_is_ok r \<longleftrightarrow> (\<forall>d \<in> set r. dg_severity d \<noteq> DiagError)"
  by (auto simp: result_is_ok_def list_ex_iff)

lemma result_is_ok_sort [simp]: "result_is_ok (result_sort pl r) = result_is_ok r"
  by (simp add: result_is_ok_iff)

lemma result_is_ok_append [simp]: "result_is_ok (r @ s) \<longleftrightarrow> result_is_ok r \<and> result_is_ok s"
  by (auto simp: result_is_ok_iff)

lemma result_is_ok_Nil [simp]: "result_is_ok []"
  by (simp add: result_is_ok_iff)

lemma result_is_ok_concat: "result_is_ok (concat rs) \<longleftrightarrow> (\<forall>r \<in> set rs. result_is_ok r)"
  by (auto simp: result_is_ok_iff)

lemma result_is_ok_concat_map [simp]:
  "result_is_ok (concat (map f xs)) \<longleftrightarrow> (\<forall>x \<in> set xs. result_is_ok (f x))"
  by (simp add: result_is_ok_concat)

lemma diag_severity_builder [simp]:
  "dg_severity (diag_error c msg) = DiagError"
  "dg_severity (diag_warning c msg) = DiagWarning"
  "dg_severity (diag_note n d) = dg_severity d"
  "dg_severity (diag_help h d) = dg_severity d"
  "dg_severity (diag_location f l k lab d) = dg_severity d"
  by (simp_all add: diag_error_def diag_warning_def diag_note_def diag_help_def diag_location_def)

lemma result_is_ok_single [simp]: "result_is_ok [d] \<longleftrightarrow> dg_severity d \<noteq> DiagError"
  by (simp add: result_is_ok_iff)

end
