(* ===== verification/Con_Compat.thy ===== *)
theory Con_Compat
  imports Con_Error Lnk_Linker
begin

text \<open>
  The version compatibility engine of \<open>torvyn-contracts\<close> (\<open>compatibility.rs\<close>) on the parsed form of
  a WIT package (\<open>parser.rs\<close>). A hash map is an association list, walked in the order of the list;
  its keys are distinct where a lemma needs it. Semantic versions come from a library: a type
  with the operations \<open>semver_ops\<close>.

  The lemmas: a verdict is exactly a relation between the packages, which is a preorder, and this
  relation is the contract \<open>offers_kept\<close> on what the engine looks at: all but the members of flags, the
  targets of aliases and the items of worlds.
\<close>

section \<open>Parsed packages\<close>

datatype parsed_type =
    TyPrimitive string
  | TyNamed string
  | TyList parsed_type
  | TyOption parsed_type
  | TyResult "parsed_type option" "parsed_type option"
  | TyTuple "parsed_type list"
  | TyBorrow parsed_type
  | TyOwn parsed_type

record parsed_param =
  pm_name :: string
  pm_typ :: parsed_type

record parsed_function =
  pf_name :: string
  pf_params :: "parsed_param list"
  pf_result :: "parsed_type option"

record parsed_field =
  pd_name :: string
  pd_typ :: parsed_type

record parsed_case =
  pk_name :: string
  pk_typ :: "parsed_type option"

datatype type_def_kind =
    KindRecord "parsed_field list"
  | KindVariant "parsed_case list"
  | KindEnum "string list"
  | KindFlags "string list"
  | KindResource
  | KindAlias parsed_type

record parsed_type_def =
  pt_name :: string
  pt_kind :: type_def_kind

type_synonym 'a hash_map = "(string \<times> 'a) list"

record parsed_interface =
  pi_name :: string
  pi_functions :: "parsed_function hash_map"
  pi_types :: "parsed_type_def hash_map"
  pi_resources :: "string list"

datatype world_item = WorldInterface string | WorldFunction parsed_function

record parsed_world =
  pw_name :: string
  pw_imports :: "world_item hash_map"
  pw_exports :: "world_item hash_map"

record 'v parsed_package =
  pp_name :: string
  pp_version :: "'v option"
  pp_interfaces :: "parsed_interface hash_map"
  pp_worlds :: "parsed_world hash_map"
  pp_source_files :: "string list"

record 'v semver_ops =
  sv_zero :: 'v
  sv_major :: "'v \<Rightarrow> nat"
  sv_show :: "'v \<Rightarrow> string"
  sv_parse :: "string \<Rightarrow> string + 'v"

definition contains_key :: "'a hash_map \<Rightarrow> string \<Rightarrow> bool" where
  "contains_key m k \<longleftrightarrow> map_of m k \<noteq> None"

text \<open>Collecting pairs into a hash map: a later value replaces an earlier one of the same key.\<close>

definition collect_map :: "(string \<times> 'a) list \<Rightarrow> 'a hash_map" where
  "collect_map kvs = map (\<lambda>k. (k, the (map_of (rev kvs) k))) (remdups (map fst kvs))"

section \<open>Changes\<close>

datatype change_severity = ChangePatch | ChangeMinor | ChangeBreaking

record change_entry =
  ch_description :: string
  ch_severity :: change_severity
  ch_path :: string

datatype compat_verdict = Compatible | CompatibleWithAdditions | VerdictBreaking

record 'v compat_report =
  cv_verdict :: compat_verdict
  cv_changes :: "change_entry list"
  cv_old_version :: 'v
  cv_new_version :: 'v

definition breaking :: "string \<Rightarrow> string \<Rightarrow> change_entry" where
  "breaking desc path = \<lparr>ch_description = desc, ch_severity = ChangeBreaking, ch_path = path\<rparr>"

definition minor :: "string \<Rightarrow> string \<Rightarrow> change_entry" where
  "minor desc path = \<lparr>ch_description = desc, ch_severity = ChangeMinor, ch_path = path\<rparr>"

definition dotted :: "string \<Rightarrow> string \<Rightarrow> string" where
  "dotted path name = path @ ''.'' @ name"

fun type_def_kind_name :: "type_def_kind \<Rightarrow> string" where
  "type_def_kind_name (KindRecord _) = ''record''"
| "type_def_kind_name (KindVariant _) = ''variant''"
| "type_def_kind_name (KindEnum _) = ''enum''"
| "type_def_kind_name (KindFlags _) = ''flags''"
| "type_def_kind_name KindResource = ''resource''"
| "type_def_kind_name (KindAlias _) = ''alias''"

text \<open>The three passes over two maps: keys that went, keys that came, values that differ.\<close>

definition removed_keys ::
  "(string \<Rightarrow> change_entry) \<Rightarrow> 'a hash_map \<Rightarrow> 'b hash_map \<Rightarrow> change_entry list" where
  "removed_keys entry old new =
     map (\<lambda>(k, _). entry k) (filter (\<lambda>(k, _). \<not> contains_key new k) old)"

definition shared_entries ::
  "(string \<Rightarrow> 'a \<Rightarrow> 'b \<Rightarrow> change_entry list) \<Rightarrow> 'a hash_map \<Rightarrow> 'b hash_map \<Rightarrow> change_entry list" where
  "shared_entries cmp old new =
     concat (map (\<lambda>(k, a). case map_of new k of None \<Rightarrow> [] | Some b \<Rightarrow> cmp k a b) old)"

definition compare_record_fields ::
  "parsed_field list \<Rightarrow> parsed_field list \<Rightarrow> string \<Rightarrow> change_entry list" where
  "compare_record_fields old new path =
     (let old_map = collect_map (map (\<lambda>f. (pd_name f, pd_typ f)) old);
          new_map = collect_map (map (\<lambda>f. (pd_name f, pd_typ f)) new)
      in removed_keys (\<lambda>n. breaking (''field '' @ tick_quoted n @ '' was removed from record'')
             (dotted path n)) old_map new_map @
         removed_keys (\<lambda>n. breaking (''field '' @ tick_quoted n @
             '' was added to record (breaking: WIT records are not extensible)'')
             (dotted path n)) new_map old_map @
         shared_entries (\<lambda>n a b. if a \<noteq> b
             then [breaking (''field '' @ tick_quoted n @ '' type changed in record'') (dotted path n)]
             else []) old_map new_map)"

definition compare_variant_cases ::
  "parsed_case list \<Rightarrow> parsed_case list \<Rightarrow> string \<Rightarrow> change_entry list" where
  "compare_variant_cases old new path =
     (let old_map = collect_map (map (\<lambda>c. (pk_name c, pk_typ c)) old);
          new_map = collect_map (map (\<lambda>c. (pk_name c, pk_typ c)) new)
      in removed_keys (\<lambda>n. breaking (''variant case '' @ tick_quoted n @ '' was removed'')
             (dotted path n)) old_map new_map @
         removed_keys (\<lambda>n. minor (''variant case '' @ tick_quoted n @ '' was added'')
             (dotted path n)) new_map old_map @
         shared_entries (\<lambda>n a b. if a \<noteq> b
             then [breaking (''variant case '' @ tick_quoted n @ '' payload type changed'')
                     (dotted path n)]
             else []) old_map new_map)"

definition compare_enum_cases ::
  "string list \<Rightarrow> string list \<Rightarrow> string \<Rightarrow> change_entry list" where
  "compare_enum_cases old_cases new_cases path =
     map (\<lambda>c. breaking (''enum case '' @ tick_quoted c @ '' was removed'') (dotted path c))
       (filter (\<lambda>c. c \<notin> set new_cases) old_cases) @
     map (\<lambda>c. minor (''enum case '' @ tick_quoted c @ '' was added'') (dotted path c))
       (filter (\<lambda>c. c \<notin> set old_cases) new_cases)"

fun compare_type_defs :: "type_def_kind \<Rightarrow> type_def_kind \<Rightarrow> string \<Rightarrow> change_entry list" where
  "compare_type_defs (KindRecord old) (KindRecord new) path = compare_record_fields old new path"
| "compare_type_defs (KindVariant old) (KindVariant new) path = compare_variant_cases old new path"
| "compare_type_defs (KindEnum old) (KindEnum new) path = compare_enum_cases old new path"
| "compare_type_defs old new path =
     (if type_def_kind_name old \<noteq> type_def_kind_name new
      then [breaking (''type definition kind changed from '' @ type_def_kind_name old @ '' to '' @
              type_def_kind_name new) path]
      else [])"

definition compare_function ::
  "string \<Rightarrow> string \<Rightarrow> parsed_function \<Rightarrow> parsed_function \<Rightarrow> change_entry list" where
  "compare_function prefix name old new =
     (if length (pf_params old) \<noteq> length (pf_params new)
      then [breaking (''function '' @ tick_quoted name @ '' parameter count changed from '' @
              decimal (length (pf_params old)) @ '' to '' @ decimal (length (pf_params new)))
              (dotted prefix name)]
      else concat (map (\<lambda>(p, q). if pm_typ p \<noteq> pm_typ q
             then [breaking (''function '' @ tick_quoted name @ '' parameter '' @
                     tick_quoted (pm_name p) @ '' type changed'')
                     (dotted (dotted prefix name) (pm_name p))]
             else []) (zip (pf_params old) (pf_params new)))) @
     (if pf_result old \<noteq> pf_result new
      then [breaking (''function '' @ tick_quoted name @ '' return type changed'')
              (dotted prefix name)]
      else [])"

definition compare_interface_contents ::
  "parsed_interface \<Rightarrow> parsed_interface \<Rightarrow> string \<Rightarrow> change_entry list" where
  "compare_interface_contents old new prefix =
     removed_keys (\<lambda>n. breaking (''function '' @ tick_quoted n @ '' was removed from interface'')
       (dotted prefix n)) (pi_functions old) (pi_functions new) @
     removed_keys (\<lambda>n. minor (''function '' @ tick_quoted n @ '' was added to interface'')
       (dotted prefix n)) (pi_functions new) (pi_functions old) @
     shared_entries (compare_function prefix) (pi_functions old) (pi_functions new) @
     map (\<lambda>r. breaking (''resource '' @ tick_quoted r @ '' was removed'') (dotted prefix r))
       (filter (\<lambda>r. r \<notin> set (pi_resources new)) (pi_resources old)) @
     concat (map (\<lambda>(n, td). case map_of (pi_types new) n of
           Some td' \<Rightarrow> compare_type_defs (pt_kind td) (pt_kind td') (dotted prefix n)
         | None \<Rightarrow> [breaking (''type '' @ tick_quoted n @ '' was removed'') (dotted prefix n)])
       (pi_types old)) @
     removed_keys (\<lambda>n. minor (''type '' @ tick_quoted n @ '' was added'') (dotted prefix n))
       (pi_types new) (pi_types old)"

definition compare_interfaces ::
  "parsed_interface hash_map \<Rightarrow> parsed_interface hash_map \<Rightarrow> change_entry list" where
  "compare_interfaces old new =
     removed_keys (\<lambda>n. breaking (''interface '' @ tick_quoted n @ '' was removed'') n) old new @
     removed_keys (\<lambda>n. minor (''interface '' @ tick_quoted n @ '' was added'') n) new old @
     shared_entries (\<lambda>n a b. compare_interface_contents a b n) old new"

definition compare_worlds ::
  "parsed_world hash_map \<Rightarrow> parsed_world hash_map \<Rightarrow> change_entry list" where
  "compare_worlds old new =
     removed_keys (\<lambda>n. breaking (''world '' @ tick_quoted n @ '' was removed'') (''world:'' @ n))
       old new @
     removed_keys (\<lambda>n. minor (''world '' @ tick_quoted n @ '' was added'') (''world:'' @ n)) new old"

definition check_compatibility ::
  "'v semver_ops \<Rightarrow> 'v parsed_package \<Rightarrow> 'v parsed_package \<Rightarrow> 'v compat_report" where
  "check_compatibility sv old new =
     (let changes = compare_interfaces (pp_interfaces old) (pp_interfaces new) @
                    compare_worlds (pp_worlds old) (pp_worlds new);
          verdict = (if list_ex (\<lambda>c. ch_severity c = ChangeBreaking) changes then VerdictBreaking
                     else if list_ex (\<lambda>c. ch_severity c = ChangeMinor) changes
                     then CompatibleWithAdditions else Compatible)
      in \<lparr>cv_verdict = verdict, cv_changes = changes,
          cv_old_version = opt_or (pp_version old) (sv_zero sv),
          cv_new_version = opt_or (pp_version new) (sv_zero sv)\<rparr>)"

section \<open>Diagnostics of a report\<close>

definition error_code_for_change :: "(string \<Rightarrow> string) \<Rightarrow> change_entry \<Rightarrow> contract_code" where
  "error_code_for_change lower c =
     (let desc = lower (ch_description c) in
      if str_contains desc ''removed'' \<and> str_contains desc ''function'' then MissingFunction
      else if str_contains desc ''removed'' \<and> str_contains desc ''interface'' then MissingInterface
      else if str_contains desc ''type'' \<and> str_contains desc ''changed'' then TypeSignatureChanged
      else if str_contains desc ''ownership'' then OwnershipSemanticChanged
      else if str_contains desc ''field'' \<and> str_contains desc ''removed'' then FieldRemoved
      else if str_contains desc ''case'' \<and> str_contains desc ''removed'' then VariantCaseRemoved
      else IncompatibleMajorVersion)"

definition report_to_diagnostics ::
  "(string \<Rightarrow> string) \<Rightarrow> 'v semver_ops \<Rightarrow> 'v compat_report \<Rightarrow> string \<Rightarrow> string \<Rightarrow> validation_result" where
  "report_to_diagnostics lower sv r old_source new_source =
     map (\<lambda>c. diag_help (''this is a breaking change requiring a major version bump (current: '' @
                 sv_show sv (cv_old_version r) @ '')'')
              (diag_note (''path: '' @ ch_path c)
              (diag_note (''between '' @ old_source @ '' ('' @ sv_show sv (cv_old_version r) @ '') and '' @
                 new_source @ '' ('' @ sv_show sv (cv_new_version r) @ '')'')
              (diag_error (error_code_for_change lower c) (ch_description c)))))
       (filter (\<lambda>c. ch_severity c = ChangeBreaking) (cv_changes r))"

section \<open>What a verdict says\<close>

text \<open>
  The relations that the engine decides. A record keeps its fields and their types; a variant and an
  enumeration keep their cases; of any other kind of definition only the kind counts, and of a world
  only the name. What it means to keep an offer, without these gaps, is \<open>offers_kept\<close> below.
\<close>

fun kind_compatible :: "type_def_kind \<Rightarrow> type_def_kind \<Rightarrow> bool" where
  "kind_compatible (KindRecord old) (KindRecord new) \<longleftrightarrow>
     map_of (rev (map (\<lambda>f. (pd_name f, pd_typ f)) old)) =
     map_of (rev (map (\<lambda>f. (pd_name f, pd_typ f)) new))"
| "kind_compatible (KindVariant old) (KindVariant new) \<longleftrightarrow>
     map_of (rev (map (\<lambda>c. (pk_name c, pk_typ c)) old)) \<subseteq>\<^sub>m
     map_of (rev (map (\<lambda>c. (pk_name c, pk_typ c)) new))"
| "kind_compatible (KindEnum old) (KindEnum new) \<longleftrightarrow> set old \<subseteq> set new"
| "kind_compatible old new \<longleftrightarrow> type_def_kind_name old = type_def_kind_name new"

definition function_compatible :: "parsed_function \<Rightarrow> parsed_function \<Rightarrow> bool" where
  "function_compatible old new \<longleftrightarrow>
     map pm_typ (pf_params old) = map pm_typ (pf_params new) \<and> pf_result old = pf_result new"

definition keeps :: "('a \<Rightarrow> 'b \<Rightarrow> bool) \<Rightarrow> 'a hash_map \<Rightarrow> 'b hash_map \<Rightarrow> bool" where
  "keeps R old new \<longleftrightarrow>
     (\<forall>k a. map_of old k = Some a \<longrightarrow> (\<exists>b. map_of new k = Some b \<and> R a b))"

definition interface_compatible :: "parsed_interface \<Rightarrow> parsed_interface \<Rightarrow> bool" where
  "interface_compatible old new \<longleftrightarrow>
     keeps function_compatible (pi_functions old) (pi_functions new) \<and>
     set (pi_resources old) \<subseteq> set (pi_resources new) \<and>
     keeps (\<lambda>td td'. kind_compatible (pt_kind td) (pt_kind td')) (pi_types old) (pi_types new)"

definition backward_compatible :: "'v parsed_package \<Rightarrow> 'v parsed_package \<Rightarrow> bool" where
  "backward_compatible old new \<longleftrightarrow>
     keeps interface_compatible (pp_interfaces old) (pp_interfaces new) \<and>
     keeps (\<lambda>_ _. True) (pp_worlds old) (pp_worlds new)"

definition unique_keys :: "'v parsed_package \<Rightarrow> bool" where
  "unique_keys p \<longleftrightarrow>
     distinct (map fst (pp_interfaces p)) \<and> distinct (map fst (pp_worlds p)) \<and>
     (\<forall>(_, i) \<in> set (pp_interfaces p).
        distinct (map fst (pi_functions i)) \<and> distinct (map fst (pi_types i)))"

definition all_minor :: "change_entry list \<Rightarrow> bool" where
  "all_minor cs \<longleftrightarrow> (\<forall>c \<in> set cs. ch_severity c \<noteq> ChangeBreaking)"

lemma all_minor_simps [simp]:
  "all_minor []" "all_minor (cs @ ds) \<longleftrightarrow> all_minor cs \<and> all_minor ds"
  "all_minor (c # cs) \<longleftrightarrow> ch_severity c \<noteq> ChangeBreaking \<and> all_minor cs"
  "all_minor (concat css) \<longleftrightarrow> (\<forall>cs \<in> set css. all_minor cs)"
  by (auto simp: all_minor_def)

lemma all_minor_map [simp]:
  "all_minor (map f xs) \<longleftrightarrow> (\<forall>x \<in> set xs. ch_severity (f x) \<noteq> ChangeBreaking)"
  by (auto simp: all_minor_def)

lemma severity_simps [simp]:
  "ch_severity (breaking d p) = ChangeBreaking" "ch_severity (minor d p) = ChangeMinor"
  by (simp_all add: breaking_def minor_def)

lemma contains_key_iff: "contains_key m k \<longleftrightarrow> k \<in> fst ` set m"
  by (simp add: contains_key_def map_of_eq_None_iff)

lemma all_minor_removed:
  "all_minor (removed_keys (\<lambda>n. breaking (d n) (p n)) old new) \<longleftrightarrow> fst ` set old \<subseteq> fst ` set new"
  by (auto simp: removed_keys_def all_minor_def contains_key_iff) force+

lemma all_minor_added [simp]: "all_minor (removed_keys (\<lambda>n. minor (d n) (p n)) new old)"
  by (auto simp: removed_keys_def all_minor_def)

lemma all_minor_shared:
  "all_minor (shared_entries cmp old new) \<longleftrightarrow>
   (\<forall>(k, a) \<in> set old. \<forall>b. map_of new k = Some b \<longrightarrow> all_minor (cmp k a b))"
  by (auto simp: shared_entries_def split: option.splits)

lemma keeps_split:
  assumes "distinct (map fst old)"
  shows "keeps R old new \<longleftrightarrow> fst ` set old \<subseteq> fst ` set new \<and>
     (\<forall>(k, a) \<in> set old. \<forall>b. map_of new k = Some b \<longrightarrow> R a b)"
proof -
  have "map_of old k = Some a \<longleftrightarrow> (k, a) \<in> set old" for k a
    using assms by simp
  then have "keeps R old new \<longleftrightarrow> (\<forall>(k, a) \<in> set old. \<exists>b. map_of new k = Some b \<and> R a b)"
    by (auto simp: keeps_def)
  also have "\<dots> \<longleftrightarrow> (\<forall>(k, a) \<in> set old. k \<in> fst ` set new \<and> (\<forall>b. map_of new k = Some b \<longrightarrow> R a b))"
  proof -
    have "(\<exists>b. map_of new k = Some b \<and> P b) \<longleftrightarrow>
        k \<in> fst ` set new \<and> (\<forall>b. map_of new k = Some b \<longrightarrow> P b)" for k P
      using map_of_eq_None_iff [of new k] by (cases "map_of new k") auto
    then show ?thesis by simp
  qed
  finally show ?thesis by (simp add: image_subset_iff ball_conj_distrib split_beta)
qed

lemma map_of_collect [simp]: "map_of (collect_map kvs) = map_of (rev kvs)"
proof
  fix k
  have "map_of (map (\<lambda>k. (k, f k)) ks) k = (if k \<in> set ks then Some (f k) else None)" for f :: "string \<Rightarrow> 'a" and ks
    by (induction ks) auto
  then show "map_of (collect_map kvs) k = map_of (rev kvs) k"
    by (auto simp: collect_map_def map_of_eq_None_iff)
       (metis (no_types, lifting) map_of_eq_None_iff image_set option.collapse set_rev set_map)
qed

lemma distinct_collect [simp]: "distinct (map fst (collect_map kvs))"
  by (simp add: collect_map_def comp_def)

lemma keys_map_of: "fst ` set m = dom (map_of m)"
  by (simp add: dom_map_of_conv_image_fst)

lemma shared_eq:
  assumes "distinct (map fst old)"
  shows "all_minor (shared_entries (\<lambda>n a b. if a \<noteq> b then [breaking (d n) (p n)] else []) old new) \<longleftrightarrow>
         (\<forall>k a b. map_of old k = Some a \<longrightarrow> map_of new k = Some b \<longrightarrow> a = b)"
proof -
  have "(k, a) \<in> set old \<longleftrightarrow> map_of old k = Some a" for k a using assms by simp
  then show ?thesis by (simp add: all_minor_shared Ball_def) blast
qed

lemma agree_le:
  "dom f \<subseteq> dom g \<and> (\<forall>k a b. f k = Some a \<longrightarrow> g k = Some b \<longrightarrow> a = b) \<longleftrightarrow> f \<subseteq>\<^sub>m g"
proof
  assume h: "dom f \<subseteq> dom g \<and> (\<forall>k a b. f k = Some a \<longrightarrow> g k = Some b \<longrightarrow> a = b)"
  show "f \<subseteq>\<^sub>m g"
    unfolding map_le_def
  proof
    fix k assume "k \<in> dom f"
    then obtain a b where "f k = Some a" "g k = Some b" using h by blast
    with h show "f k = g k" by auto
  qed
next
  assume "f \<subseteq>\<^sub>m g"
  then have "g k = Some a" if "f k = Some a" for k a using that by (auto simp: map_le_def dom_def)
  then show "dom f \<subseteq> dom g \<and> (\<forall>k a b. f k = Some a \<longrightarrow> g k = Some b \<longrightarrow> a = b)" by fastforce
qed

lemma agree_eq:
  "dom f \<subseteq> dom g \<and> dom g \<subseteq> dom f \<and> (\<forall>k a b. f k = Some a \<longrightarrow> g k = Some b \<longrightarrow> a = b) \<longleftrightarrow> f = g"
proof
  assume h: "dom f \<subseteq> dom g \<and> dom g \<subseteq> dom f \<and> (\<forall>k a b. f k = Some a \<longrightarrow> g k = Some b \<longrightarrow> a = b)"
  then have "f \<subseteq>\<^sub>m g" using agree_le [of f g] by blast
  moreover have "g \<subseteq>\<^sub>m f" using h agree_le [of g f] by metis
  ultimately show "f = g" by (rule map_le_antisym)
qed auto

lemma record_fields_minor:
  "all_minor (compare_record_fields old new path) \<longleftrightarrow> kind_compatible (KindRecord old) (KindRecord new)"
proof -
  define f where "f = map_of (rev (map (\<lambda>f. (pd_name f, pd_typ f)) old))"
  define g where "g = map_of (rev (map (\<lambda>f. (pd_name f, pd_typ f)) new))"
  have "all_minor (compare_record_fields old new path) \<longleftrightarrow>
      dom f \<subseteq> dom g \<and> dom g \<subseteq> dom f \<and> (\<forall>k a b. f k = Some a \<longrightarrow> g k = Some b \<longrightarrow> a = b)"
    by (simp add: compare_record_fields_def Let_def all_minor_removed keys_map_of shared_eq
        f_def g_def)
  also have "\<dots> \<longleftrightarrow> f = g" by (rule agree_eq)
  finally show ?thesis by (simp add: f_def g_def)
qed

lemma variant_cases_minor:
  "all_minor (compare_variant_cases old new path) \<longleftrightarrow> kind_compatible (KindVariant old) (KindVariant new)"
proof -
  define f where "f = map_of (rev (map (\<lambda>c. (pk_name c, pk_typ c)) old))"
  define g where "g = map_of (rev (map (\<lambda>c. (pk_name c, pk_typ c)) new))"
  have "all_minor (compare_variant_cases old new path) \<longleftrightarrow>
      dom f \<subseteq> dom g \<and> (\<forall>k a b. f k = Some a \<longrightarrow> g k = Some b \<longrightarrow> a = b)"
    by (simp add: compare_variant_cases_def Let_def all_minor_removed keys_map_of shared_eq
        f_def g_def)
  also have "\<dots> \<longleftrightarrow> f \<subseteq>\<^sub>m g" by (rule agree_le)
  finally show ?thesis by (simp add: f_def g_def)
qed

lemma type_defs_minor: "all_minor (compare_type_defs old new path) \<longleftrightarrow> kind_compatible old new"
proof (cases "(old, new, path)" rule: compare_type_defs.cases)
  case (3 old' new' path')
  then show ?thesis
    by (auto simp: compare_enum_cases_def)
qed (auto simp: record_fields_minor variant_cases_minor simp del: kind_compatible.simps(1,2))

lemma zip_types:
  "length ps = length qs \<Longrightarrow>
   (\<forall>(p, q) \<in> set (zip ps qs). pm_typ p = pm_typ q) \<longleftrightarrow> map pm_typ ps = map pm_typ qs"
  by (induction ps qs rule: list_induct2) auto

lemma function_minor: "all_minor (compare_function prefix name old new) \<longleftrightarrow> function_compatible old new"
proof (cases "length (pf_params old) = length (pf_params new)")
  case True
  with zip_types [OF True] show ?thesis
    by (auto simp: compare_function_def function_compatible_def split: if_splits)
next
  case False
  then have "map pm_typ (pf_params old) \<noteq> map pm_typ (pf_params new)"
    by (metis length_map)
  with False show ?thesis by (simp add: compare_function_def function_compatible_def)
qed

lemma interface_contents_minor:
  assumes "distinct (map fst (pi_functions old))" "distinct (map fst (pi_types old))"
  shows "all_minor (compare_interface_contents old new prefix) \<longleftrightarrow> interface_compatible old new"
proof -
  have types: "all_minor (concat (map (\<lambda>(n, td). case map_of (pi_types new) n of
           Some td' \<Rightarrow> compare_type_defs (pt_kind td) (pt_kind td') (dotted prefix n)
         | None \<Rightarrow> [breaking (''type '' @ tick_quoted n @ '' was removed'') (dotted prefix n)])
       (pi_types old))) \<longleftrightarrow>
      keeps (\<lambda>td td'. kind_compatible (pt_kind td) (pt_kind td')) (pi_types old) (pi_types new)"
    unfolding keeps_split [OF assms(2)]
    by (force simp: type_defs_minor split: option.splits dest: map_of_SomeD
        simp: map_of_eq_None_iff)
  have res: "all_minor (map (\<lambda>r. breaking (''resource '' @ tick_quoted r @ '' was removed'') (dotted prefix r))
       (filter (\<lambda>r. r \<notin> set (pi_resources new)) (pi_resources old))) \<longleftrightarrow>
      set (pi_resources old) \<subseteq> set (pi_resources new)"
    by (auto simp: all_minor_def)
  show ?thesis
    unfolding compare_interface_contents_def all_minor_simps(2) types res all_minor_removed
      all_minor_shared interface_compatible_def keeps_split [OF assms(1)] function_minor
    by auto
qed

lemma compatibility_minor:
  assumes "unique_keys old"
  shows "all_minor (cv_changes (check_compatibility sv old new)) \<longleftrightarrow> backward_compatible old new"
proof -
  have "all_minor (shared_entries (\<lambda>n a b. compare_interface_contents a b n) (pp_interfaces old)
          (pp_interfaces new)) \<longleftrightarrow>
      (\<forall>(k, a) \<in> set (pp_interfaces old). \<forall>b. map_of (pp_interfaces new) k = Some b \<longrightarrow>
          interface_compatible a b)"
    unfolding all_minor_shared
    using assms interface_contents_minor by (fastforce simp: unique_keys_def)
  then show ?thesis
    using assms
    by (simp add: check_compatibility_def Let_def compare_interfaces_def compare_worlds_def
        all_minor_removed backward_compatible_def unique_keys_def keeps_split)
qed

section \<open>The relation is a preorder\<close>

lemma keeps_refl: "(\<And>a. R a a) \<Longrightarrow> keeps R m m"
  by (auto simp: keeps_def)

lemma keeps_trans:
  "keeps R l m \<Longrightarrow> keeps R m n \<Longrightarrow> (\<And>a b c. R a b \<Longrightarrow> R b c \<Longrightarrow> R a c) \<Longrightarrow> keeps R l n"
  unfolding keeps_def by meson

lemma kind_compatible_refl: "kind_compatible k k"
  by (cases k) auto

lemma kind_compatible_name: "kind_compatible k l \<Longrightarrow> type_def_kind_name k = type_def_kind_name l"
  by (cases k; cases l) auto

lemma kind_compatible_trans:
  assumes "kind_compatible k l" "kind_compatible l m"
  shows "kind_compatible k m"
proof -
  have "type_def_kind_name k = type_def_kind_name l" "type_def_kind_name l = type_def_kind_name m"
    using assms by (auto dest: kind_compatible_name)
  with assms show ?thesis
    by (cases k; cases l; cases m) (auto intro: map_le_trans)
qed

lemma interface_compatible_refl: "interface_compatible i i"
  by (simp add: interface_compatible_def keeps_refl function_compatible_def kind_compatible_refl)

lemma interface_compatible_trans:
  assumes "interface_compatible i j" "interface_compatible j k"
  shows "interface_compatible i k"
proof -
  have "keeps function_compatible (pi_functions i) (pi_functions k)"
    using assms unfolding interface_compatible_def
    by (auto simp: function_compatible_def intro: keeps_trans [where R = function_compatible])
  moreover have "keeps (\<lambda>td td'. kind_compatible (pt_kind td) (pt_kind td')) (pi_types i) (pi_types k)"
    using assms unfolding interface_compatible_def
    by (blast intro: keeps_trans [where R = "\<lambda>td td'. kind_compatible (pt_kind td) (pt_kind td')"]
        kind_compatible_trans)
  ultimately show ?thesis using assms by (auto simp: interface_compatible_def)
qed

lemma backward_compatible_refl: "backward_compatible p p"
  by (simp add: backward_compatible_def keeps_refl interface_compatible_refl)

lemma backward_compatible_trans:
  "backward_compatible p q \<Longrightarrow> backward_compatible q r \<Longrightarrow> backward_compatible p r"
  unfolding backward_compatible_def
  by (blast intro: keeps_trans [where R = interface_compatible] interface_compatible_trans
      keeps_trans [where R = "\<lambda>_ _. True"])

lemma verdict_breaking:
  "cv_verdict (check_compatibility sv old new) = VerdictBreaking \<longleftrightarrow>
   \<not> all_minor (cv_changes (check_compatibility sv old new))"
  by (auto simp: check_compatibility_def Let_def list_ex_iff all_minor_def)

section \<open>The contract: what the old package offers is kept\<close>

text \<open>
  Independent of what the engine looks at: no member, case or field is lost or changed, an alias keeps its
  target, a world keeps its imports and exports.
\<close>

fun kind_kept :: "type_def_kind \<Rightarrow> type_def_kind \<Rightarrow> bool" where
  "kind_kept (KindRecord old) (KindRecord new) \<longleftrightarrow>
     map_of (rev (map (\<lambda>f. (pd_name f, pd_typ f)) old)) =
     map_of (rev (map (\<lambda>f. (pd_name f, pd_typ f)) new))"
| "kind_kept (KindVariant old) (KindVariant new) \<longleftrightarrow>
     map_of (rev (map (\<lambda>c. (pk_name c, pk_typ c)) old)) \<subseteq>\<^sub>m
     map_of (rev (map (\<lambda>c. (pk_name c, pk_typ c)) new))"
| "kind_kept (KindEnum old) (KindEnum new) \<longleftrightarrow> set old \<subseteq> set new"
| "kind_kept (KindFlags old) (KindFlags new) \<longleftrightarrow> set old \<subseteq> set new"
| "kind_kept KindResource KindResource \<longleftrightarrow> True"
| "kind_kept (KindAlias old) (KindAlias new) \<longleftrightarrow> old = new"
| "kind_kept _ _ \<longleftrightarrow> False"

definition interface_kept :: "parsed_interface \<Rightarrow> parsed_interface \<Rightarrow> bool" where
  "interface_kept old new \<longleftrightarrow>
     keeps function_compatible (pi_functions old) (pi_functions new) \<and>
     set (pi_resources old) \<subseteq> set (pi_resources new) \<and>
     keeps (\<lambda>td td'. kind_kept (pt_kind td) (pt_kind td')) (pi_types old) (pi_types new)"

definition world_kept :: "parsed_world \<Rightarrow> parsed_world \<Rightarrow> bool" where
  "world_kept old new \<longleftrightarrow>
     map_of (pw_imports old) = map_of (pw_imports new) \<and> map_of (pw_exports old) = map_of (pw_exports new)"

definition offers_kept :: "'v parsed_package \<Rightarrow> 'v parsed_package \<Rightarrow> bool" where
  "offers_kept old new \<longleftrightarrow>
     keeps interface_kept (pp_interfaces old) (pp_interfaces new) \<and>
     keeps world_kept (pp_worlds old) (pp_worlds new)"

text \<open>What the engine does not look at: it sees every package as if this were erased.\<close>

fun visible_kind :: "type_def_kind \<Rightarrow> type_def_kind" where
  "visible_kind (KindFlags _) = KindFlags []"
| "visible_kind (KindAlias _) = KindAlias (TyPrimitive [])"
| "visible_kind k = k"

definition visible_type :: "parsed_type_def \<Rightarrow> parsed_type_def" where
  "visible_type td = td\<lparr>pt_kind := visible_kind (pt_kind td)\<rparr>"

definition visible_interface :: "parsed_interface \<Rightarrow> parsed_interface" where
  "visible_interface i = i\<lparr>pi_types := map (map_prod id visible_type) (pi_types i)\<rparr>"

definition visible_world :: "parsed_world \<Rightarrow> parsed_world" where
  "visible_world w = w\<lparr>pw_imports := [], pw_exports := []\<rparr>"

definition visible :: "'v parsed_package \<Rightarrow> 'v parsed_package" where
  "visible p =
     p\<lparr>pp_interfaces := map (map_prod id visible_interface) (pp_interfaces p),
       pp_worlds := map (map_prod id visible_world) (pp_worlds p)\<rparr>"

text \<open>The changes that it therefore misses, in interfaces, types and worlds that both packages have.\<close>

definition both :: "('a \<Rightarrow> 'b \<Rightarrow> bool) \<Rightarrow> 'a hash_map \<Rightarrow> 'b hash_map \<Rightarrow> bool" where
  "both R old new \<longleftrightarrow> (\<forall>k a b. map_of old k = Some a \<longrightarrow> map_of new k = Some b \<longrightarrow> R a b)"

fun members_kept :: "type_def_kind \<Rightarrow> type_def_kind \<Rightarrow> bool" where
  "members_kept (KindFlags old) (KindFlags new) \<longleftrightarrow> set old \<subseteq> set new"
| "members_kept (KindAlias old) (KindAlias new) \<longleftrightarrow> old = new"
| "members_kept _ _ \<longleftrightarrow> True"

definition hidden_kept :: "'v parsed_package \<Rightarrow> 'v parsed_package \<Rightarrow> bool" where
  "hidden_kept old new \<longleftrightarrow>
     both (\<lambda>i j. both (\<lambda>td td'. members_kept (pt_kind td) (pt_kind td')) (pi_types i) (pi_types j))
       (pp_interfaces old) (pp_interfaces new) \<and>
     both world_kept (pp_worlds old) (pp_worlds new)"

lemma map_of_map_prod [simp]: "map_of (map (map_prod id f) m) k = map_option f (map_of m k)"
  by (induction m) auto

lemma keeps_case:
  "keeps R m n \<longleftrightarrow>
     (\<forall>k. case map_of m k of None \<Rightarrow> True | Some a \<Rightarrow> (case map_of n k of None \<Rightarrow> False | Some b \<Rightarrow> R a b))"
  unfolding keeps_def by (rule iff_allI) (auto split: option.splits)

lemma both_case:
  "both R m n \<longleftrightarrow>
     (\<forall>k. case map_of m k of None \<Rightarrow> True | Some a \<Rightarrow> (case map_of n k of None \<Rightarrow> True | Some b \<Rightarrow> R a b))"
  unfolding both_def by (rule iff_allI) (auto split: option.splits)

lemma keeps_conj: "keeps (\<lambda>a b. R a b \<and> S a b) m n \<longleftrightarrow> keeps R m n \<and> both S m n"
  unfolding keeps_case both_case all_conj_distrib [symmetric]
  by (rule iff_allI) (auto split: option.splits)

lemma keeps_map:
  "keeps R (map (map_prod id f) m) (map (map_prod id g) n) \<longleftrightarrow> keeps (\<lambda>a b. R (f a) (g b)) m n"
  unfolding keeps_case by (intro iff_allI) (simp split: option.split)

lemma kind_kept_split: "kind_kept k l \<longleftrightarrow> kind_compatible k l \<and> members_kept k l"
  by (cases k; cases l) simp_all

lemma kind_kept_visible: "kind_kept (visible_kind k) (visible_kind l) \<longleftrightarrow> kind_compatible k l"
  by (cases k; cases l) simp_all

lemma offers_kept_split: "offers_kept old new \<longleftrightarrow> backward_compatible old new \<and> hidden_kept old new"
proof -
  have i: "interface_kept = (\<lambda>i j. interface_compatible i j \<and>
      both (\<lambda>td td'. members_kept (pt_kind td) (pt_kind td')) (pi_types i) (pi_types j))"
    by (simp add: fun_eq_iff interface_kept_def interface_compatible_def kind_kept_split keeps_conj conj_assoc)
  have w: "world_kept = (\<lambda>v w. True \<and> world_kept v w)" by simp
  have "keeps interface_kept m n \<longleftrightarrow> keeps interface_compatible m n \<and>
      both (\<lambda>i j. both (\<lambda>td td'. members_kept (pt_kind td) (pt_kind td')) (pi_types i) (pi_types j)) m n" for m n
    unfolding i by (rule keeps_conj)
  moreover have "keeps world_kept m n \<longleftrightarrow> keeps (\<lambda>_ _. True) m n \<and> both world_kept m n" for m n
    using keeps_conj [of "\<lambda>_ _. True" world_kept m n] by simp
  ultimately show ?thesis by (auto simp: offers_kept_def backward_compatible_def hidden_kept_def)
qed

lemma offers_kept_visible: "offers_kept (visible old) (visible new) \<longleftrightarrow> backward_compatible old new"
proof -
  have "interface_kept (visible_interface i) (visible_interface j) \<longleftrightarrow> interface_compatible i j" for i j
    by (simp add: interface_kept_def interface_compatible_def visible_interface_def keeps_map visible_type_def
        kind_kept_visible)
  moreover have "world_kept (visible_world v) (visible_world w)" for v w by (simp add: world_kept_def visible_world_def)
  ultimately show ?thesis by (simp add: offers_kept_def backward_compatible_def visible_def keeps_map)
qed

section \<open>Blind spots\<close>

text \<open>
  Two definitions of the same kind other than record, variant and enumeration are never compared:
  flags can lose members and an alias can change its type without any change being reported.
\<close>

lemma flags_and_aliases_unseen:
  "compare_type_defs (KindFlags fs) (KindFlags gs) path = []"
  "compare_type_defs (KindAlias a) (KindAlias b) path = []"
  by simp_all

text \<open>The code of a change is read off its text, in which the user's names occur.\<close>

lemma change_code_follows_names:
  "error_code_for_change id (breaking (''field '' @ tick_quoted ''function'' @ '' was removed from record'') p) =
     MissingFunction"
  "error_code_for_change id (breaking (''resource '' @ tick_quoted ''r'' @ '' was removed'') p) =
     IncompatibleMajorVersion"
  by (simp_all add: error_code_for_change_def breaking_def tick_quoted_def starts_with_def Let_def)

end
