(* ===== verification/Con_Manifest.thy ===== *)
theory Con_Manifest
  imports Con_Compat
begin

text \<open>
  Reading a component manifest (\<open>parse_manifest\<close> in \<open>torvyn-contracts/src/validator.rs\<close>) from what the
  TOML library makes of the file: the table of the file, or why there is none. A table is an
  association list with distinct keys; of the values of the library the source matches strings,
  booleans, arrays and tables.

  The lemmas: the manifests that are accepted, and what an accepted one holds.
\<close>

section \<open>Byte sizes\<close>

text \<open>
  \<open>parse::<u64>\<close>: an optional sign and at least one digit, within 64 bits. \<open>trim\<close> is the argument
  \<open>trim\<close>. The plain multiplication of a byte size wraps around at 64 bits, as it does in a release build.
\<close>

definition parse_u64 :: "string \<Rightarrow> u64 option" where
  "parse_u64 s =
     (let ds = (case s of c # cs \<Rightarrow> if c = CHR ''+'' then cs else s | [] \<Rightarrow> []) in
      if ds \<noteq> [] \<and> list_all is_digit ds \<and> digits_value ds < 2 ^ 64
      then Some (of_nat (digits_value ds)) else None)"

definition strip_suffix :: "string \<Rightarrow> string \<Rightarrow> string option" where
  "strip_suffix s t = (if ends_with s t then Some (take (length s - length t) s) else None)"

definition parse_byte_size :: "(string \<Rightarrow> string) \<Rightarrow> string \<Rightarrow> u64 option" where
  "parse_byte_size trim s =
     (let s = trim s in
      case strip_suffix s ''GiB'' of
        Some num \<Rightarrow> map_option (\<lambda>n. n * 1024 * 1024 * 1024) (parse_u64 (trim num))
      | None \<Rightarrow> (case strip_suffix s ''MiB'' of Some num \<Rightarrow> map_option (\<lambda>n. n * 1024 * 1024) (parse_u64 (trim num))
      | None \<Rightarrow> (case strip_suffix s ''KiB'' of Some num \<Rightarrow> map_option (\<lambda>n. n * 1024) (parse_u64 (trim num))
      | None \<Rightarrow> (case strip_suffix s ''B'' of Some num \<Rightarrow> parse_u64 (trim num)
      | None \<Rightarrow> parse_u64 s))))"

section \<open>Manifests\<close>

record resource_limits =
  rl_max_buffer_size :: u64
  rl_max_memory :: u64
  rl_buffer_pool :: string

record 'v component_manifest =
  mf_name :: string
  mf_version :: 'v
  mf_required :: "string list"
  mf_optional :: "string list"
  mf_limits :: resource_limits

datatype toml_value =
    TomlString string
  | TomlBoolean bool
  | TomlArray "toml_value list"
  | TomlTable "(string \<times> toml_value) list"
  | TomlOther

type_synonym toml_table = "(string \<times> toml_value) list"

datatype manifest_file =
    Unreadable string
  | InvalidToml "nat option" string
  | ManifestTable toml_table

definition manifest_error :: "contract_code \<Rightarrow> string \<Rightarrow> nat \<Rightarrow> string \<Rightarrow> string \<Rightarrow> string \<Rightarrow> diagnostic" where
  "manifest_error code path line label help msg =
     diag_help help (diag_location path line 0 label (diag_error code msg))"

definition read_table :: "string \<Rightarrow> manifest_file \<Rightarrow> validation_result + toml_table" where
  "read_table path file =
     (case file of
        Unreadable e \<Rightarrow> Inl [manifest_error ManifestParseError path 1 ''file could not be read''
          ''ensure the file exists and is readable'' (''cannot read manifest: '' @ e)]
      | InvalidToml line e \<Rightarrow> Inl [manifest_error ManifestParseError path (opt_or line 1)
          ''TOML parse error here'' ''check TOML syntax at https://toml.io'' (''invalid TOML: '' @ e)]
      | ManifestTable t \<Rightarrow> Inr t)"

definition sub_table :: "toml_table \<Rightarrow> string \<Rightarrow> toml_table option" where
  "sub_table t k = (case map_of t k of Some (TomlTable u) \<Rightarrow> Some u | _ \<Rightarrow> None)"

definition missing_component_help :: string where
  "missing_component_help =
     ''add:'' @ newline @ ''[component]'' @ newline @ ''name = '' @ quoted ''my-component'' @
     newline @ ''version = '' @ quoted ''0.1.0''"

definition component_section :: "string \<Rightarrow> toml_table \<Rightarrow> validation_result + toml_table" where
  "component_section path table =
     (case map_of table ''component'' of
        Some (TomlTable t) \<Rightarrow> Inr t
      | Some (TomlArray arr) \<Rightarrow>
          (case sub_table table ''torvyn'' of
             Some torvyn \<Rightarrow> Inr torvyn
           | None \<Rightarrow>
               (case arr of
                  TomlTable first # _ \<Rightarrow> Inr first
                | _ \<Rightarrow> Inl [manifest_error ManifestMissingField path 1
                      ''expected at least one [[component]] entry''
                      ''add a [[component]] entry with name, path, and language fields''
                      ''[[component]] array is empty'']))
      | Some _ \<Rightarrow> Inl [manifest_error ManifestMissingField path 1 ''expected [component] table''
            ''add a [component] section with name and version fields''
            ''[component] must be a table'']
      | None \<Rightarrow>
          (case sub_table table ''torvyn'' of
             Some torvyn \<Rightarrow> Inr torvyn
           | None \<Rightarrow> Inl [manifest_error ManifestMissingField path 1
                 ''Torvyn.toml must have a [component] or [torvyn] section''
                 missing_component_help ''missing [component] section'']))"

definition manifest_name :: "string \<Rightarrow> toml_table \<Rightarrow> string \<times> validation_result" where
  "manifest_name path component =
     (case map_of component ''name'' of
        Some (TomlString s) \<Rightarrow>
          if s \<noteq> [] then (s, [])
          else ([], [manifest_error ManifestMissingField path 1 ''[component].name is empty''
                       ''provide a non-empty component name'' ''component name must not be empty''])
      | _ \<Rightarrow> ([], [manifest_error ManifestMissingField path 1
                      ''Torvyn.toml must specify component name''
                      (''add: name = '' @ quoted ''my-component'' @ '' under [component]'')
                      ''missing [component].name'']))"

definition manifest_version ::
  "'v semver_ops \<Rightarrow> string \<Rightarrow> toml_table \<Rightarrow> 'v \<times> validation_result" where
  "manifest_version sv path component =
     (case map_of component ''version'' of
        Some (TomlString s) \<Rightarrow>
          (case sv_parse sv s of
             Inr v \<Rightarrow> (v, [])
           | Inl e \<Rightarrow> (sv_zero sv, [manifest_error ManifestVersionError path 1
                 ''version must be valid semver''
                 (''use format like '' @ quoted ''0.1.0'' @ '' or '' @ quoted ''1.2.3'')
                 (''invalid semver version '' @ tick_quoted s @ '': '' @ e)]))
      | _ \<Rightarrow> (sv_zero sv, [manifest_error ManifestMissingField path 1
                 ''Torvyn.toml must specify component version''
                 (''add: version = '' @ quoted ''0.1.0'' @ '' under [component]'')
                 ''missing [component].version'']))"

definition true_keys :: "toml_table option \<Rightarrow> string list" where
  "true_keys t = (case t of None \<Rightarrow> [] | Some t \<Rightarrow> map fst (filter (\<lambda>(_, v). v = TomlBoolean True) t))"

definition declared_capabilities :: "toml_table \<Rightarrow> string \<Rightarrow> string list" where
  "declared_capabilities table k = true_keys (Option.bind (sub_table table ''capabilities'') (\<lambda>c. sub_table c k))"

text \<open>A limit that cannot be read is zero.\<close>

definition size_limit :: "(string \<Rightarrow> string) \<Rightarrow> toml_table \<Rightarrow> string \<Rightarrow> u64" where
  "size_limit trim t k =
     (case map_of t k of
        Some (TomlString s) \<Rightarrow> opt_or (parse_byte_size trim s) 0
      | _ \<Rightarrow> 0)"

definition manifest_limits :: "(string \<Rightarrow> string) \<Rightarrow> toml_table \<Rightarrow> resource_limits" where
  "manifest_limits trim table =
     (case Option.bind (sub_table table ''capabilities'') (\<lambda>c. sub_table c ''torvyn'') of
        None \<Rightarrow> \<lparr>rl_max_buffer_size = 0, rl_max_memory = 0, rl_buffer_pool = []\<rparr>
      | Some t \<Rightarrow>
          \<lparr>rl_max_buffer_size = size_limit trim t ''max-buffer-size'', rl_max_memory = size_limit trim t ''max-memory'',
           rl_buffer_pool = (case map_of t ''buffer-pool-access'' of Some (TomlString s) \<Rightarrow> s | _ \<Rightarrow> [])\<rparr>)"

definition parse_manifest ::
  "(string \<Rightarrow> string) \<Rightarrow> 'v semver_ops \<Rightarrow> string \<Rightarrow> manifest_file \<Rightarrow>
   validation_result + 'v component_manifest" where
  "parse_manifest trim sv path file =
     (case read_table path file of
        Inl errs \<Rightarrow> Inl errs
      | Inr table \<Rightarrow>
          (case component_section path table of
             Inl errs \<Rightarrow> Inl errs
           | Inr component \<Rightarrow>
               (let (name, name_errs) = manifest_name path component;
                    (version, version_errs) = manifest_version sv path component;
                    errors = name_errs @ version_errs
                in if \<not> result_is_ok errors then Inl errors
                   else Inr
                     \<lparr>mf_name = name, mf_version = version,
                      mf_required = declared_capabilities table ''required'',
                      mf_optional = declared_capabilities table ''optional'',
                      mf_limits = manifest_limits trim table\<rparr>)))"

section \<open>Lemmas\<close>

lemma manifest_error_severity [simp]: "dg_severity (manifest_error c path l lab h msg) = DiagError"
  by (simp add: manifest_error_def)

lemma ends_with_append [simp]: "length u = length v \<Longrightarrow> ends_with (s @ u) v \<longleftrightarrow> u = v"
  by (simp add: ends_with_def)

lemma strip_suffix_append [simp]:
  "length u = length v \<Longrightarrow> strip_suffix (s @ u) v = (if u = v then Some s else None)"
  by (simp add: strip_suffix_def)

lemma parse_u64_decimal: "n < 2 ^ 64 \<Longrightarrow> parse_u64 (decimal n) = Some (of_nat n)"
proof -
  assume fits: "n < 2 ^ 64"
  obtain c cs where dec: "decimal n = c # cs" using decimal_digits [of n] by (cases "decimal n") auto
  then have "digits_value (c # cs) = n" "list_all is_digit (c # cs)"
    using digits_value_decimal [of n] decimal_digits [of n] by simp_all
  moreover from this have "c \<noteq> CHR ''+''" by auto
  ultimately show ?thesis using fits by (simp add: parse_u64_def dec)
qed

text \<open>A whole number of units is read as that many bytes, modulo \<open>2 ^ 64\<close>.\<close>

lemma byte_size_exact:
  assumes "(u, k) \<in> {(''GiB'', 1024 * 1024 * 1024), (''MiB'', 1024 * 1024), (''KiB'', 1024)}"
    and "trim (decimal n @ u) = decimal n @ u" "trim (decimal n) = decimal n" "n < 2 ^ 64"
  shows "parse_byte_size trim (decimal n @ u) = Some (of_nat (n * k))"
  using assms by (auto simp: parse_byte_size_def Let_def parse_u64_decimal)

text \<open>So the limit of \<open>2 ^ 34\<close> GiB is none.\<close>

lemma byte_size_wraps:
  assumes "trim (decimal 17179869184 @ ''GiB'') = decimal 17179869184 @ ''GiB''"
    and "trim (decimal 17179869184) = decimal 17179869184"
  shows "parse_byte_size trim (decimal 17179869184 @ ''GiB'') = Some 0"
  using byte_size_exact [of "''GiB''" "1024 * 1024 * 1024" trim 17179869184] assms by simp

lemma manifest_name_ok:
  "result_is_ok (snd (manifest_name path t)) \<longleftrightarrow>
   map_of t ''name'' = Some (TomlString (fst (manifest_name path t))) \<and> fst (manifest_name path t) \<noteq> []"
  by (auto simp: manifest_name_def split: option.splits toml_value.splits)

lemma manifest_version_ok:
  "result_is_ok (snd (manifest_version sv path t)) \<longleftrightarrow>
   (\<exists>s. map_of t ''version'' = Some (TomlString s) \<and> sv_parse sv s = Inr (fst (manifest_version sv path t)))"
  by (auto simp: manifest_version_def split: option.splits toml_value.splits sum.splits)

lemma read_table_Inr [simp]: "read_table path file = Inr t \<longleftrightarrow> file = ManifestTable t"
  by (auto simp: read_table_def split: manifest_file.splits)

lemma read_table_fails: "read_table path file = Inl errs \<Longrightarrow> \<not> result_is_ok errs"
  by (auto simp: read_table_def split: manifest_file.splits)

lemma component_section_fails: "component_section path t = Inl errs \<Longrightarrow> \<not> result_is_ok errs"
  by (auto simp: component_section_def split: option.splits toml_value.splits list.splits)

text \<open>A manifest that is refused comes with an error.\<close>

lemma parse_manifest_fails:
  "parse_manifest trim sv path file = Inl errs \<Longrightarrow> \<not> result_is_ok errs"
  by (auto simp: parse_manifest_def Let_def split_beta dest: read_table_fails component_section_fails
      split: sum.splits if_splits)

lemma parse_manifest_ok:
  "parse_manifest trim sv path file = Inr m \<longleftrightarrow>
   (\<exists>table component s. file = ManifestTable table \<and> component_section path table = Inr component \<and>
      map_of component ''name'' = Some (TomlString (mf_name m)) \<and> mf_name m \<noteq> [] \<and>
      map_of component ''version'' = Some (TomlString s) \<and> sv_parse sv s = Inr (mf_version m) \<and>
      mf_required m = declared_capabilities table ''required'' \<and>
      mf_optional m = declared_capabilities table ''optional'' \<and>
      mf_limits m = manifest_limits trim table)" (is "_ \<longleftrightarrow> ?R")
proof
  assume "parse_manifest trim sv path file = Inr m"
  then show ?R
    by (auto simp: parse_manifest_def Let_def split_beta manifest_name_ok manifest_version_ok
        split: sum.splits if_splits)
next
  assume ?R
  then obtain table component s where h: "file = ManifestTable table"
    "component_section path table = Inr component"
    "map_of component ''name'' = Some (TomlString (mf_name m))" "mf_name m \<noteq> []"
    "map_of component ''version'' = Some (TomlString s)" "sv_parse sv s = Inr (mf_version m)"
    "mf_required m = declared_capabilities table ''required''"
    "mf_optional m = declared_capabilities table ''optional''"
    "mf_limits m = manifest_limits trim table" by blast
  have "manifest_name path component = (mf_name m, [])" using h by (simp add: manifest_name_def)
  moreover have "manifest_version sv path component = (mf_version m, [])"
    using h by (simp add: manifest_version_def)
  ultimately show "parse_manifest trim sv path file = Inr m"
    using h by (cases m) (simp add: parse_manifest_def read_table_def)
qed

lemma declared_capabilities_iff:
  "c \<in> set (declared_capabilities table k) \<longleftrightarrow>
   (\<exists>caps t. sub_table table ''capabilities'' = Some caps \<and> sub_table caps k = Some t \<and>
      (c, TomlBoolean True) \<in> set t)"
  by (force simp: declared_capabilities_def true_keys_def split: option.splits Option.bind_splits)

end
