(* ===== verification/Con_Link.thy ===== *)
theory Con_Link
  imports Con_Manifest Lnk_Graph
begin

text \<open>
  The validation of a pipeline of contract packages (\<open>torvyn-contracts/src/linker.rs\<close>): topology,
  interface compatibility of connected components, capability grants and version ranges. Every
  check adds its diagnostics to one result, which is sorted at the end.

  The lemmas say when each check adds no error; the depth-first search for a cycle is related to
  the one of the linker, whose search keeps the path as well.
\<close>

section \<open>Pipelines\<close>

record 'v pipeline_component =
  pc_name :: string
  pc_role :: component_role
  pc_packages :: "'v parsed_package list"
  pc_manifest :: "'v component_manifest"
  pc_artifact_path :: string
  pc_config :: "string option"

record pipeline_connection =
  pn_from :: string
  pn_to :: string
  pn_queue_depth :: u32
  pn_port :: "string option"

record contract_grant =
  kg_name :: string
  kg_details :: string

record 'v pipeline_definition =
  pl_name :: string
  pl_components :: "'v pipeline_component list"
  pl_connections :: "pipeline_connection list"
  pl_grants :: "contract_grant list hash_map"

definition component_map :: "'v pipeline_definition \<Rightarrow> string \<Rightarrow> 'v pipeline_component option" where
  "component_map p = map_of (rev (map (\<lambda>c. (pc_name c, c)) (pl_components p)))"

section \<open>Topology\<close>

definition unknown_endpoint :: "string \<Rightarrow> string \<Rightarrow> diagnostic" where
  "unknown_endpoint name which =
     diag_help (''check that all connection '' @ tick_quoted which @
         '' values match a defined component name'')
       (diag_error CodeInvalidTopology (''connection references unknown component '' @ tick_quoted name))"

definition link_endpoints :: "'v pipeline_definition \<Rightarrow> validation_result" where
  "link_endpoints p =
     concat (map (\<lambda>c.
       (if component_map p (pn_from c) = None then [unknown_endpoint (pn_from c) ''from''] else []) @
       (if component_map p (pn_to c) = None then [unknown_endpoint (pn_to c) ''to''] else []))
       (pl_connections p))"

definition connected_names :: "'v pipeline_definition \<Rightarrow> string set" where
  "connected_names p = set (concat (map (\<lambda>c. [pn_from c, pn_to c]) (pl_connections p)))"

definition link_disconnected :: "'v pipeline_definition \<Rightarrow> validation_result" where
  "link_disconnected p =
     concat (map (\<lambda>c. if pc_name c \<notin> connected_names p
       then [diag_help ''connect this component to the pipeline or remove it''
               (diag_error contract_code.DisconnectedComponent
                  (''component '' @ tick_quoted (pc_name c) @ '' has no connections''))]
       else []) (pl_components p))"

definition link_roles :: "'v pipeline_definition \<Rightarrow> validation_result" where
  "link_roles p =
     (let incoming = tally (map pn_to (pl_connections p));
          outgoing = tally (map pn_from (pl_connections p))
      in concat (map (\<lambda>c.
        (if pc_role c = Source \<and> opt_or (map_of incoming (pc_name c)) 0 > 0
         then [diag_help ''sources produce data and should not have incoming connections''
                 (diag_error contract_code.SourceHasIncoming
                    (''source component '' @ tick_quoted (pc_name c) @ '' has incoming connections''))]
         else []) @
        (if pc_role c = Sink \<and> opt_or (map_of outgoing (pc_name c)) 0 > 0
         then [diag_help ''sinks consume data and should not have outgoing connections''
                 (diag_error contract_code.SinkHasOutgoing
                    (''sink component '' @ tick_quoted (pc_name c) @ '' has outgoing connections''))]
         else [])) (pl_components p)))"

definition connection_adjacency :: "'v pipeline_definition \<Rightarrow> (string \<times> string list) list" where
  "connection_adjacency p =
     fold (\<lambda>(u, v). push_entry u v) (map (\<lambda>c. (pn_from c, pn_to c)) (pl_connections p)) []"

text \<open>
  \<open>has_cycle_dfs\<close> with its loop over the neighbours: the answer, the visited names and the names
  on the stack.
\<close>

function (domintros) has_cycle_neighbours ::
  "(string \<times> string list) list \<Rightarrow> string list \<Rightarrow> string set \<Rightarrow> string set \<Rightarrow>
   bool \<times> string set \<times> string set" where
  "has_cycle_neighbours adj [] visited in_stack = (False, visited, in_stack)"
| "has_cycle_neighbours adj (n # ns) visited in_stack =
     (if n \<notin> visited then
        (case has_cycle_neighbours adj (neighbours adj n) (insert n visited) (insert n in_stack) of
           (True, st) \<Rightarrow> (True, st)
         | (False, visited', in_stack') \<Rightarrow> has_cycle_neighbours adj ns visited' (in_stack' - {n}))
      else if n \<in> in_stack then (True, visited, in_stack)
      else has_cycle_neighbours adj ns visited in_stack)"
  by pat_completeness auto

lemma has_cycle_neighbours_grows:
  "has_cycle_neighbours_dom (adj, ns, vis, stk) \<Longrightarrow>
   vis \<subseteq> fst (snd (has_cycle_neighbours adj ns vis stk))"
proof (induction rule: has_cycle_neighbours.pinduct)
  case (2 adj v vs vis stk)
  show ?case
  proof (cases "v \<in> vis")
    case True
    with 2 show ?thesis by (simp add: has_cycle_neighbours.psimps)
  next
    case False
    obtain r vis' stk' where r:
      "has_cycle_neighbours adj (neighbours adj v) (insert v vis) (insert v stk) = (r, vis', stk')"
      by (metis prod.exhaust)
    with "2.IH"(1) [OF False] have grow: "vis \<subseteq> vis'" by simp
    show ?thesis
    proof (cases r)
      case False': False
      with "2.IH"(2) [OF False r [symmetric] _ refl] grow "2.hyps" False r show ?thesis
        by (simp add: has_cycle_neighbours.psimps)
    qed (use grow "2.hyps" False r in \<open>simp add: has_cycle_neighbours.psimps\<close>)
  qed
qed (simp add: has_cycle_neighbours.psimps)

termination has_cycle_neighbours
proof (relation "measures [\<lambda>(adj, ns, vis, stk). card ((all_neighbours adj \<union> set ns) - vis),
    \<lambda>(adj, ns, vis, stk). length ns]", goal_cases)
  case (2 adj v vs vis stk)
  then show ?case using neighbours_less by simp
next
  case (3 adj v vs vis stk r st vis' stk')
  then have "has_cycle_neighbours adj (neighbours adj v) (insert v vis) (insert v stk) = (r, vis', stk')"
    by simp
  with has_cycle_neighbours_grows [OF 3(5)] have "vis \<subseteq> vis'" by simp
  from neighbours_le [OF this, of adj vs v] show ?case by (auto simp: le_less)
next
  case (4 adj v vs vis stk)
  from neighbours_le [of vis vis adj vs v] show ?case by (auto simp: le_less)
qed simp

definition has_cycle_dfs ::
  "(string \<times> string list) list \<Rightarrow> string \<Rightarrow> string set \<Rightarrow> string set \<Rightarrow>
   bool \<times> string set \<times> string set" where
  "has_cycle_dfs adj node visited in_stack =
     (case has_cycle_neighbours adj (neighbours adj node) (insert node visited) (insert node in_stack) of
        (True, st) \<Rightarrow> (True, st)
      | (False, visited, in_stack) \<Rightarrow> (False, visited, in_stack - {node}))"

definition contract_cycle :: "string \<Rightarrow> diagnostic" where
  "contract_cycle name =
     diag_help ''pipeline must be a directed acyclic graph (DAG)''
       (diag_note (''cycle detected starting from component '' @ tick_quoted name)
         (diag_error CodeInvalidTopology ''pipeline topology contains a cycle''))"

fun detect_cycles_from ::
  "(string \<times> string list) list \<Rightarrow> string list \<Rightarrow> string set \<Rightarrow> string set \<Rightarrow> validation_result" where
  "detect_cycles_from adj [] visited in_stack = []"
| "detect_cycles_from adj (n # ns) visited in_stack =
     (if n \<notin> visited then
        (case has_cycle_dfs adj n visited in_stack of
           (True, _) \<Rightarrow> [contract_cycle n]
         | (False, visited, in_stack) \<Rightarrow> detect_cycles_from adj ns visited in_stack)
      else detect_cycles_from adj ns visited in_stack)"

definition contract_detect_cycles :: "'v pipeline_definition \<Rightarrow> validation_result" where
  "contract_detect_cycles p =
     detect_cycles_from (connection_adjacency p) (map pc_name (pl_components p)) {} {}"

definition contract_topology :: "'v pipeline_definition \<Rightarrow> validation_result" where
  "contract_topology p =
     link_endpoints p @ link_disconnected p @ link_roles p @ contract_detect_cycles p"

section \<open>Interfaces, capabilities, versions\<close>

definition interfaces_only :: "'v parsed_package \<Rightarrow> 'v parsed_package" where
  "interfaces_only p =
     \<lparr>pp_name = pp_name p, pp_version = pp_version p, pp_interfaces = pp_interfaces p,
      pp_worlds = [], pp_source_files = []\<rparr>"

definition version_text :: "'v semver_ops \<Rightarrow> 'v parsed_package \<Rightarrow> string" where
  "version_text sv p = (case pp_version p of None \<Rightarrow> ''?'' | Some v \<Rightarrow> sv_show sv v)"

definition incompatible_versions ::
  "'v semver_ops \<Rightarrow> pipeline_connection \<Rightarrow> 'v parsed_package \<Rightarrow> 'v parsed_package \<Rightarrow> diagnostic" where
  "incompatible_versions sv c up down =
     diag_help ''ensure both components are compiled against compatible contract versions''
       (diag_note (tick_quoted (pn_from c) @ '' uses '' @ pp_name up @ ''@'' @ version_text sv up @
           '', '' @ tick_quoted (pn_to c) @ '' uses '' @ pp_name down @ ''@'' @ version_text sv down)
         (diag_error IncompatibleMajorVersion
           (''incompatible contract versions between '' @ tick_quoted (pn_from c) @ '' and '' @
            tick_quoted (pn_to c))))"

definition contract_interfaces ::
  "'v semver_ops \<Rightarrow> 'v pipeline_definition \<Rightarrow> validation_result" where
  "contract_interfaces sv p =
     concat (map (\<lambda>c.
       case (component_map p (pn_from c), component_map p (pn_to c)) of
         (Some upstream, Some downstream) \<Rightarrow>
           concat (map (\<lambda>up. concat (map (\<lambda>down.
               if pp_name up = pp_name down \<and>
                  cv_verdict (check_compatibility sv (interfaces_only up) (interfaces_only down)) =
                    VerdictBreaking
               then [incompatible_versions sv c up down] else [])
             (pc_packages downstream))) (pc_packages upstream))
       | _ \<Rightarrow> []) (pl_connections p))"

definition contract_capabilities :: "'v pipeline_definition \<Rightarrow> validation_result" where
  "contract_capabilities p =
     concat (map (\<lambda>c.
       let grants = map kg_name (opt_or (map_of (pl_grants p) (pc_name c)) []) in
       concat (map (\<lambda>required. if required \<notin> set grants
         then [diag_help (''add a grant for '' @ tick_quoted required @
                   '' in the pipeline configuration under component '' @ tick_quoted (pc_name c))
                 (diag_error UnmetCapability
                   (''component '' @ tick_quoted (pc_name c) @ '' requires capability '' @
                    tick_quoted required @ '' which is not granted''))]
         else []) (mf_required (pc_manifest c)))) (pl_components p))"

text \<open>\<open>entry(name).or_default().push(x)\<close>\<close>

fun push_version :: "string \<Rightarrow> 'a \<Rightarrow> 'a list hash_map \<Rightarrow> 'a list hash_map" where
  "push_version k x [] = [(k, [x])]"
| "push_version k x ((j, xs) # m) = (if j = k then (j, xs @ [x]) # m else (j, xs) # push_version k x m)"

definition package_versions :: "'v pipeline_definition \<Rightarrow> (string \<times> string \<times> 'v) list" where
  "package_versions p =
     concat (map (\<lambda>c. concat (map (\<lambda>pkg. case pp_version pkg of
         None \<Rightarrow> [] | Some v \<Rightarrow> [(pp_name pkg, pc_name c, v)]) (pc_packages c))) (pl_components p))"

definition version_map :: "'v pipeline_definition \<Rightarrow> (string \<times> 'v) list hash_map" where
  "version_map p = fold (\<lambda>(k, x). push_version k x) (package_versions p) []"

definition majors_differ ::
  "'v semver_ops \<Rightarrow> string \<Rightarrow> string \<times> 'v \<Rightarrow> string \<times> 'v \<Rightarrow> diagnostic" where
  "majors_differ sv pkg a b =
     diag_help ''all components must use the same major version of each shared package''
       (diag_note (tick_quoted (fst a) @ '' uses version '' @ sv_show sv (snd a) @ '', '' @
           tick_quoted (fst b) @ '' uses version '' @ sv_show sv (snd b))
         (diag_error VersionRangeUnsatisfiable
           (''incompatible major versions for package '' @ tick_quoted pkg)))"

definition contract_versions :: "'v semver_ops \<Rightarrow> 'v pipeline_definition \<Rightarrow> validation_result" where
  "contract_versions sv p =
     concat (map (\<lambda>(pkg, versions).
       if length versions < 2 then []
       else let first_major = sv_major sv (snd (hd versions)) in
         concat (map (\<lambda>v. if sv_major sv (snd v) \<noteq> first_major
           then [majors_differ sv pkg (hd versions) v] else []) (tl versions)))
       (version_map p))"

definition contract_validate_pipeline ::
  "(string \<Rightarrow> string \<Rightarrow> bool) \<Rightarrow> 'v semver_ops \<Rightarrow> 'v pipeline_definition \<Rightarrow> validation_result" where
  "contract_validate_pipeline path_less sv p =
     result_sort path_less
       (contract_topology p @ contract_interfaces sv p @ contract_capabilities p @
        contract_versions sv p)"

section \<open>The search for a cycle\<close>

text \<open>It is the search of the linker without the path.\<close>

lemma has_cycle_neighbours_eq:
  "has_cycle_neighbours adj ns vis stk =
   (case dfs_neighbors adj ns vis stk path of (r, vis', stk', _) \<Rightarrow> (r \<noteq> None, vis', stk'))"
proof (induction adj ns vis stk path rule: dfs_neighbors.induct)
  case (1 adj vis stk path)
  show ?case by simp
next
  case (2 adj v vs vis stk path)
  show ?case
  proof (cases "v \<in> vis")
    case True
    show ?thesis
    proof (cases "v \<in> stk")
      case on_stack: True
      with True show ?thesis by simp
    next
      case off: False
      have v: "\<not> v \<notin> vis" using True by simp
      from "2.IH"(3) [OF v off] True off show ?thesis by simp
    qed
  next
    case False
    obtain r vis' stk' path' where run:
      "dfs_neighbors adj (neighbours adj v) (insert v vis) (insert v stk) (path @ [v]) = (r, vis', stk', path')"
      by (metis prod.exhaust)
    note ih = "2.IH"(1) [OF False, unfolded run prod.case]
    show ?thesis
    proof (cases r)
      case None
      from "2.IH"(2) [OF False run [symmetric] None refl refl] ih None False run show ?thesis by simp
    next
      case (Some c)
      with ih False run show ?thesis by simp
    qed
  qed
qed

lemma has_cycle_dfs_eq:
  "has_cycle_dfs adj n vis stk =
   (case dfs_cycle adj n vis stk path of (r, vis', stk', _) \<Rightarrow> (r \<noteq> None, vis', stk'))"
  unfolding has_cycle_dfs_def dfs_cycle_def
  by (subst has_cycle_neighbours_eq [where path = "path @ [n]"])
    (auto split: prod.splits option.splits bool.splits)

lemma detect_cycles_from_eq:
  "detect_cycles_from adj ns vis stk = [] \<longleftrightarrow> detect_from adj ns vis stk path = None"
proof (induction ns arbitrary: vis stk path)
  case (Cons n ns)
  show ?case
  proof (cases "n \<in> vis")
    case True
    with Cons show ?thesis by simp
  next
    case False
    obtain r vis' stk' path' where run: "dfs_cycle adj n vis stk path = (r, vis', stk', path')"
      by (metis prod.exhaust)
    have h: "has_cycle_dfs adj n vis stk = (r \<noteq> None, vis', stk')"
      unfolding has_cycle_dfs_eq [where path = path] run by simp
    show ?thesis
    proof (cases r)
      case None
      then show ?thesis using False run h Cons.IH by simp
    next
      case (Some c)
      then show ?thesis using False run h by simp
    qed
  qed
qed simp

definition connection_pairs :: "'v pipeline_definition \<Rightarrow> (string \<times> string) list" where
  "connection_pairs p = map (\<lambda>c. (pn_from c, pn_to c)) (pl_connections p)"

definition component_names :: "'v pipeline_definition \<Rightarrow> string set" where
  "component_names p = pc_name ` set (pl_components p)"

lemma connection_edges: "edge_rel (connection_adjacency p) = set (connection_pairs p)"
  by (force simp: edge_rel_def connection_adjacency_def connection_pairs_def neighbours_fold)

lemma contract_detect_cycles_iff:
  assumes "\<forall>(u, v) \<in> set (connection_pairs p). u \<in> component_names p \<and> v \<in> component_names p"
  shows "contract_detect_cycles p = [] \<longleftrightarrow> acyclic (set (connection_pairs p))"
proof -
  let ?adj = "connection_adjacency p" and ?ns = "map pc_name (pl_components p)"
  note ok = detect_from_ok [OF finished_empty, of ?ns ?adj, unfolded connection_edges]
  show ?thesis
  proof (cases "detect_from ?adj ?ns {} {} []")
    case None
    with ok obtain vis where vis: "component_names p \<subseteq> vis"
      "finished (set (connection_pairs p)) vis"
      by (auto simp: component_names_def)
    have "set (connection_pairs p) \<subseteq> vis \<times> vis" using assms vis(1) by fastforce
    with finished_all [OF vis(2)] None show ?thesis
      by (simp add: contract_detect_cycles_def detect_cycles_from_eq [where path = "[]"])
  next
    case (Some c)
    with ok have "closed_walk (set (connection_pairs p)) c" by simp
    then have "\<not> acyclic (set (connection_pairs p))" by (rule closed_walk_cyclic)
    with Some show ?thesis
      by (simp add: contract_detect_cycles_def detect_cycles_from_eq [where path = "[]"])
  qed
qed

lemma detect_cycles_ok: "result_is_ok (detect_cycles_from adj ns vis stk) \<longleftrightarrow>
    detect_cycles_from adj ns vis stk = []"
  by (induction ns arbitrary: vis stk)
    (auto simp: contract_cycle_def split: prod.splits bool.splits)

section \<open>When a check adds no error\<close>

lemma component_map_None: "component_map p n = None \<longleftrightarrow> n \<notin> component_names p"
  by (auto simp: component_map_def component_names_def map_of_eq_None_iff image_image)

lemma unknown_endpoint_error [simp]: "dg_severity (unknown_endpoint n w) = DiagError"
  by (simp add: unknown_endpoint_def)

lemma contract_diagnostics_error [simp]:
  "dg_severity (incompatible_versions sv c up down) = DiagError"
  "dg_severity (majors_differ sv pkg a b) = DiagError"
  by (simp_all add: incompatible_versions_def majors_differ_def)

lemma link_endpoints_ok:
  "result_is_ok (link_endpoints p) \<longleftrightarrow>
   (\<forall>(u, v) \<in> set (connection_pairs p). u \<in> component_names p \<and> v \<in> component_names p)"
  by (auto simp: link_endpoints_def connection_pairs_def component_map_None)

lemma link_disconnected_ok:
  "result_is_ok (link_disconnected p) \<longleftrightarrow>
   component_names p \<subseteq> fst ` set (connection_pairs p) \<union> snd ` set (connection_pairs p)"
proof -
  have "connected_names p = fst ` set (connection_pairs p) \<union> snd ` set (connection_pairs p)"
    by (force simp: connected_names_def connection_pairs_def)
  then show ?thesis by (auto simp: link_disconnected_def component_names_def split: if_splits)
qed

lemma tally_positive: "opt_or (map_of (tally ks) k) 0 > 0 \<longleftrightarrow> k \<in> set ks"
proof (cases "map_of (tally ks) k")
  case None
  then have "k \<notin> fst ` set (tally ks)" by (simp add: map_of_eq_None_iff)
  then have "k \<notin> set ks" by (force simp: set_tally)
  with None show ?thesis by (simp add: opt_or_def)
next
  case (Some n)
  from map_of_SomeD [OF this] have "k \<in> set ks" "n = count_list ks k" by (auto simp: set_tally)
  with Some show ?thesis using count_list_0_iff [of ks k] by (simp add: opt_or_def)
qed

lemma link_roles_ok:
  "result_is_ok (link_roles p) \<longleftrightarrow>
   (\<forall>c \<in> set (pl_components p).
      (pc_role c = Source \<longrightarrow> pc_name c \<notin> snd ` set (connection_pairs p)) \<and>
      (pc_role c = Sink \<longrightarrow> pc_name c \<notin> fst ` set (connection_pairs p)))"
proof -
  have "set (map pn_to (pl_connections p)) = snd ` set (connection_pairs p)"
    "set (map pn_from (pl_connections p)) = fst ` set (connection_pairs p)"
    by (auto simp: connection_pairs_def image_image)
  then show ?thesis
    by (auto simp: link_roles_def Let_def tally_positive split: if_splits)
qed

lemma interfaces_only_compatible:
  "unique_keys up \<Longrightarrow>
   cv_verdict (check_compatibility sv (interfaces_only up) (interfaces_only down)) = VerdictBreaking \<longleftrightarrow>
   \<not> keeps interface_compatible (pp_interfaces up) (pp_interfaces down)"
proof -
  assume "unique_keys up"
  then have "unique_keys (interfaces_only up)" by (simp add: unique_keys_def interfaces_only_def)
  then show ?thesis
    by (simp add: verdict_breaking compatibility_minor backward_compatible_def interfaces_only_def
        keeps_def)
qed

lemma contract_interfaces_ok:
  assumes "\<forall>c \<in> set (pl_components p). \<forall>pkg \<in> set (pc_packages c). unique_keys pkg"
  shows "result_is_ok (contract_interfaces sv p) \<longleftrightarrow>
   (\<forall>(u, v) \<in> set (connection_pairs p). \<forall>a b. component_map p u = Some a \<longrightarrow> component_map p v = Some b \<longrightarrow>
      (\<forall>up \<in> set (pc_packages a). \<forall>down \<in> set (pc_packages b). pp_name up = pp_name down \<longrightarrow>
         keeps interface_compatible (pp_interfaces up) (pp_interfaces down)))"
proof -
  have unique: "unique_keys up" if "component_map p u = Some a" "up \<in> set (pc_packages a)" for u a up
  proof -
    have "a \<in> set (pl_components p)"
      using map_of_SomeD [OF that(1) [unfolded component_map_def]] by auto
    with assms that(2) show ?thesis by blast
  qed
  have one: "result_is_ok (case (component_map p u, component_map p v) of
         (Some upstream, Some downstream) \<Rightarrow>
           concat (map (\<lambda>up. concat (map (\<lambda>down.
               if pp_name up = pp_name down \<and>
                  cv_verdict (check_compatibility sv (interfaces_only up) (interfaces_only down)) =
                    VerdictBreaking
               then [incompatible_versions sv c up down] else [])
             (pc_packages downstream))) (pc_packages upstream))
       | _ \<Rightarrow> []) \<longleftrightarrow>
      (\<forall>a b. component_map p u = Some a \<longrightarrow> component_map p v = Some b \<longrightarrow>
        (\<forall>up \<in> set (pc_packages a). \<forall>down \<in> set (pc_packages b). pp_name up = pp_name down \<longrightarrow>
         keeps interface_compatible (pp_interfaces up) (pp_interfaces down)))" for c u v
    using unique
    by (simp add: interfaces_only_compatible split: option.splits)
  show ?thesis
    unfolding contract_interfaces_def result_is_ok_concat_map one by (simp add: connection_pairs_def)
qed

lemma contract_capabilities_ok:
  "result_is_ok (contract_capabilities p) \<longleftrightarrow>
   (\<forall>c \<in> set (pl_components p).
      set (mf_required (pc_manifest c)) \<subseteq> kg_name ` set (opt_or (map_of (pl_grants p) (pc_name c)) []))"
  by (auto simp: contract_capabilities_def Let_def split: if_splits)

lemma push_version_lookup:
  "map_of (push_version k x m) j =
   (if j = k then Some (opt_or (map_of m k) [] @ [x]) else map_of m j)"
  by (induction k x m rule: push_version.induct) (auto simp: opt_or_def)

lemma push_version_keys:
  "distinct (map fst m) \<Longrightarrow>
   distinct (map fst (push_version k x m)) \<and>
   set (map fst (push_version k x m)) = insert k (set (map fst m))"
  by (induction k x m rule: push_version.induct) auto

lemma push_version_fold:
  assumes "distinct (map fst m)" "\<forall>xs \<in> snd ` set m. xs \<noteq> []"
  shows "distinct (map fst (fold (\<lambda>(k, x). push_version k x) kvs m)) \<and>
    (\<forall>j. map_of (fold (\<lambda>(k, x). push_version k x) kvs m) j =
       (let xs = opt_or (map_of m j) [] @ map snd (filter (\<lambda>kv. fst kv = j) kvs)
        in if xs = [] then None else Some xs))"
  using assms
proof (induction kvs arbitrary: m)
  case Nil
  have "opt_or (map_of m j) [] = [] \<longleftrightarrow> map_of m j = None" for j
    using Nil(2) by (cases "map_of m j") (force simp: opt_or_def dest: map_of_SomeD)+
  then show ?case using Nil(1) by (auto simp: Let_def opt_or_def split: option.splits)
next
  case (Cons kv kvs)
  obtain k x where kv: "kv = (k, x)" by (cases kv)
  have d: "distinct (map fst (push_version k x m))"
    using push_version_keys [OF Cons.prems(1)] by simp
  have ne: "\<forall>xs \<in> snd ` set (push_version k x m). xs \<noteq> []"
  proof
    fix xs assume "xs \<in> snd ` set (push_version k x m)"
    then obtain j where "map_of (push_version k x m) j = Some xs" using d by force
    then show "xs \<noteq> []"
      using Cons.prems(2) by (force simp: push_version_lookup split: if_splits dest: map_of_SomeD)
  qed
  from Cons.IH [OF d ne] show ?case
    by (auto simp: kv Let_def push_version_lookup opt_or_def)
qed

lemma version_map_lookup:
  "distinct (map fst (version_map p))"
  "map_of (version_map p) j =
     (let xs = map snd (filter (\<lambda>kv. fst kv = j) (package_versions p))
      in if xs = [] then None else Some xs)"
  using push_version_fold [of "[]" "package_versions p"]
  by (auto simp: version_map_def opt_or_def)

lemma majors_agree:
  "xs \<noteq> [] \<Longrightarrow> (\<forall>v \<in> set (tl xs). f v = f (hd xs)) \<longleftrightarrow> (\<forall>v \<in> set xs. \<forall>w \<in> set xs. f v = f w)"
  by (cases xs) auto

lemma contract_versions_ok:
  "result_is_ok (contract_versions sv p) \<longleftrightarrow>
   (\<forall>(k, v) \<in> set (package_versions p). \<forall>(j, w) \<in> set (package_versions p).
      k = j \<longrightarrow> sv_major sv (snd v) = sv_major sv (snd w))"
proof -
  have entry: "(k, xs) \<in> set (version_map p) \<longleftrightarrow>
      xs \<noteq> [] \<and> xs = map snd (filter (\<lambda>kv. fst kv = k) (package_versions p))" for k xs
  proof -
    have "(k, xs) \<in> set (version_map p) \<longleftrightarrow> map_of (version_map p) k = Some xs"
      using version_map_lookup(1) [of p] by simp
    then show ?thesis unfolding version_map_lookup(2) Let_def by (auto simp del: filter_empty_conv)
  qed
  have one: "result_is_ok (if length xs < 2 then []
       else let first_major = sv_major sv (snd (hd xs)) in
         concat (map (\<lambda>v. if sv_major sv (snd v) \<noteq> first_major
           then [majors_differ sv k (hd xs) v] else []) (tl xs))) \<longleftrightarrow>
      (\<forall>v \<in> set (tl xs). sv_major sv (snd v) = sv_major sv (snd (hd xs)))" for k xs
  proof (cases "length xs < 2")
    case True
    then have "tl xs = []" by (cases xs) auto
    with True show ?thesis by simp
  qed (auto simp: Let_def)
  have "result_is_ok (contract_versions sv p) \<longleftrightarrow>
      (\<forall>e \<in> set (version_map p).
         \<forall>v \<in> set (tl (snd e)). sv_major sv (snd v) = sv_major sv (snd (hd (snd e))))"
    unfolding contract_versions_def result_is_ok_concat_map split_beta one by simp
  also have "\<dots> \<longleftrightarrow> (\<forall>e \<in> set (version_map p). \<forall>v \<in> set (snd e). \<forall>w \<in> set (snd e).
      sv_major sv (snd v) = sv_major sv (snd w))"
  proof (rule ball_cong [OF refl])
    fix e assume "e \<in> set (version_map p)"
    then have "snd e \<noteq> []" using entry [of "fst e" "snd e"] by (metis prod.collapse)
    then show "(\<forall>v \<in> set (tl (snd e)). sv_major sv (snd v) = sv_major sv (snd (hd (snd e)))) \<longleftrightarrow>
        (\<forall>v \<in> set (snd e). \<forall>w \<in> set (snd e). sv_major sv (snd v) = sv_major sv (snd w))"
      by (rule majors_agree [where f = "\<lambda>v. sv_major sv (snd v)"])
  qed
  also have "\<dots> \<longleftrightarrow> (\<forall>x \<in> set (package_versions p). \<forall>y \<in> set (package_versions p).
      fst x = fst y \<longrightarrow> sv_major sv (snd (snd x)) = sv_major sv (snd (snd y)))"
    (is "?L \<longleftrightarrow> ?R")
  proof
    assume L: ?L
    show ?R
    proof (intro ballI impI)
      fix x y assume xy: "x \<in> set (package_versions p)" "y \<in> set (package_versions p)" "fst x = fst y"
      let ?xs = "map snd (filter (\<lambda>kv. fst kv = fst x) (package_versions p))"
      have mem: "snd x \<in> set ?xs" "snd y \<in> set ?xs" using xy by auto
      then have "?xs \<noteq> []" by (metis empty_iff list.set(1))
      then have "(fst x, ?xs) \<in> set (version_map p)" unfolding entry by (intro conjI refl)
      from L [rule_format, OF this] mem show "sv_major sv (snd (snd x)) = sv_major sv (snd (snd y))"
        by (metis snd_conv)
    qed
  next
    assume R: ?R
    show ?L
    proof (intro ballI)
      fix e v w assume e: "e \<in> set (version_map p)" "v \<in> set (snd e)" "w \<in> set (snd e)"
      then have "snd e = map snd (filter (\<lambda>kv. fst kv = fst e) (package_versions p))"
        using entry [of "fst e" "snd e"] by simp
      with e(2,3) obtain x y where "x \<in> set (package_versions p)" "y \<in> set (package_versions p)"
        "fst x = fst y" "v = snd x" "w = snd y" by auto
      with R show "sv_major sv (snd v) = sv_major sv (snd w)" by blast
    qed
  qed
  finally show ?thesis by (simp add: split_beta)
qed

end
