(* ===== verification/Con_Validate.thy ===== *)
theory Con_Validate
  imports Con_Manifest
begin

text \<open>
  The validation of a single component (\<open>torvyn-contracts/src/validator.rs\<close>): the manifest, the
  packages found under \<open>wit/\<close>, exports, capability consistency and versions. The answers of the WIT
  parser are arguments.
\<close>

definition torvyn_processing_interfaces :: "string list" where
  "torvyn_processing_interfaces =
     [''processor'', ''source'', ''sink'', ''filter'', ''router'', ''aggregator'']"

definition wasi_capability_map :: "(string \<times> string) list" where
  "wasi_capability_map =
     [(''wasi:filesystem/preopens'', ''wasi-filesystem-read''), (''wasi:filesystem/types'', ''wasi-filesystem-read''),
      (''wasi:sockets/tcp'', ''wasi-network-egress''), (''wasi:sockets/udp'', ''wasi-network-egress''),
      (''wasi:sockets/ip-name-lookup'', ''wasi-network-egress''), (''wasi:clocks/wall-clock'', ''wasi-clocks''),
      (''wasi:clocks/monotonic-clock'', ''wasi-clocks''), (''wasi:random/random'', ''wasi-random''),
      (''wasi:random/insecure'', ''wasi-random''), (''wasi:random/insecure-seed'', ''wasi-random'')]"

definition has_torvyn_export :: "'v parsed_package list \<Rightarrow> bool" where
  "has_torvyn_export pkgs \<longleftrightarrow>
     list_ex (\<lambda>pkg. list_ex (\<lambda>(_, world). list_ex (\<lambda>(key, _).
       last (split_char CHR ''/'' key) \<in> set torvyn_processing_interfaces) (pw_exports world))
       (pp_worlds pkg)) pkgs"

definition undeclared_import ::
  "string \<Rightarrow> string \<Rightarrow> string \<Rightarrow> string \<Rightarrow> string \<Rightarrow> diagnostic" where
  "undeclared_import manifest_path wit_dir world_name import_key capability =
     diag_help (''add `'' @ capability @ '' = true` to [capabilities.required] in Torvyn.toml'')
       (diag_location manifest_path 1 0
          (tick_quoted capability @ '' not declared in [capabilities.required]'')
         (diag_location wit_dir 1 0 (''import of '' @ tick_quoted import_key @ '' here'')
           (diag_error CapabilityMismatch
             (''world '' @ tick_quoted world_name @ '' imports '' @ tick_quoted import_key @
              '' but manifest does not declare '' @ tick_quoted capability))))"

definition validate_capability_consistency ::
  "string \<Rightarrow> string \<Rightarrow> 'v component_manifest \<Rightarrow> string \<Rightarrow> parsed_world \<Rightarrow> validation_result" where
  "validate_capability_consistency manifest_path wit_dir m world_name world =
     concat (map (\<lambda>(key, _). concat (map (\<lambda>(iface, capability).
       if str_contains key iface \<and> capability \<notin> set (mf_required m) \<union> set (mf_optional m)
       then [undeclared_import manifest_path wit_dir world_name key capability] else [])
       wasi_capability_map)) (pw_imports world))"

definition no_packages :: "string \<Rightarrow> diagnostic" where
  "no_packages wit_dir =
     diag_help ''ensure your wit/ directory contains .wit files with a package declaration''
       (diag_location wit_dir 1 0 ''wit/ directory contains no parseable packages''
         (diag_error WitPackageDeclaration ''no WIT packages found''))"

definition no_export :: "string \<Rightarrow> diagnostic" where
  "no_export wit_dir =
     diag_help ''add `export processor;` (or source, sink, etc.) to your world definition''
       (diag_location wit_dir 1 0
          ''no world found exporting processor, source, sink, filter, router, or aggregator''
         (diag_error NoExportedInterface ''no world exports a Torvyn processing interface''))"

definition version_differs :: "'v semver_ops \<Rightarrow> string \<Rightarrow> 'v \<Rightarrow> 'v \<Rightarrow> diagnostic" where
  "version_differs sv manifest_path pkg_ver ver =
     diag_note ''WIT package version and manifest version should typically agree''
       (diag_location manifest_path 1 0 ''manifest version here''
         (diag_warning UnsatisfiableVersion
           (''WIT package version ('' @ sv_show sv pkg_ver @ '') differs from manifest version ('' @
            sv_show sv ver @ '')'')))"

text \<open>
  \<open>wit_root\<close> is the answer of the WIT parser for the directory \<open>wit/\<close>, \<open>subs\<close> its answers for the
  directories below it, in the order they are listed.
\<close>

definition find_packages ::
  "validation_result + 'v parsed_package list \<Rightarrow> (validation_result + 'v parsed_package list) list \<Rightarrow>
   'v parsed_package list" where
  "find_packages wit_root subs =
     (let below = concat (map (case_sum (\<lambda>_. []) (\<lambda>pkgs. pkgs)) subs)
      in case wit_root of Inr pkgs \<Rightarrow> if pkgs \<noteq> [] then pkgs else below | Inl _ \<Rightarrow> below)"

definition validate_packages ::
  "(string \<Rightarrow> string \<Rightarrow> bool) \<Rightarrow> 'v semver_ops \<Rightarrow> string \<Rightarrow> string \<Rightarrow>
   validation_result + 'v component_manifest \<Rightarrow> 'v parsed_package list \<Rightarrow> validation_result" where
  "validate_packages path_less sv manifest_path wit_dir manifest packages =
     (let errs = (case manifest of Inl errs \<Rightarrow> errs | Inr _ \<Rightarrow> []) in
      if packages = [] then errs @ [no_packages wit_dir]
      else result_sort path_less
        (errs @
         (if has_torvyn_export packages then [] else [no_export wit_dir]) @
         (case manifest of Inl _ \<Rightarrow> []
          | Inr m \<Rightarrow>
              concat (map (\<lambda>pkg. concat (map (\<lambda>(name, world).
                validate_capability_consistency manifest_path wit_dir m name world)
                (pp_worlds pkg))) packages) @
              concat (map (\<lambda>pkg. case pp_version pkg of None \<Rightarrow> []
                | Some v \<Rightarrow> if v \<noteq> mf_version m
                    then [version_differs sv manifest_path v (mf_version m)] else []) packages))))"

definition validate_component ::
  "(string \<Rightarrow> string \<Rightarrow> bool) \<Rightarrow> (string \<Rightarrow> string) \<Rightarrow> 'v semver_ops \<Rightarrow> string \<Rightarrow> string \<Rightarrow> manifest_file \<Rightarrow>
   validation_result + 'v parsed_package list \<Rightarrow> (validation_result + 'v parsed_package list) list \<Rightarrow>
   validation_result" where
  "validate_component path_less trim sv manifest_path wit_dir file wit_root subs =
     validate_packages path_less sv manifest_path wit_dir (parse_manifest trim sv manifest_path file)
       (find_packages wit_root subs)"

lemma contract_validate_errors [simp]:
  "dg_severity (undeclared_import mp wd w k c) = DiagError"
  "dg_severity (no_packages wd) = DiagError" "dg_severity (no_export wd) = DiagError"
  "dg_severity (version_differs sv mp old new) = DiagWarning"
  by (simp_all add: undeclared_import_def no_packages_def no_export_def version_differs_def)

lemma capability_consistency_ok:
  "result_is_ok (validate_capability_consistency mp wd m name world) \<longleftrightarrow>
   (\<forall>(key, _) \<in> set (pw_imports world). \<forall>(iface, capability) \<in> set wasi_capability_map.
      str_contains key iface \<longrightarrow> capability \<in> set (mf_required m) \<union> set (mf_optional m))"
  unfolding validate_capability_consistency_def result_is_ok_concat_map split_beta by auto

text \<open>
  A component passes exactly when its manifest is accepted, it has a package, some world exports a
  processing interface, and every WASI interface it imports is covered by a declared capability;
  a differing version is only a warning.
\<close>

definition imports_declared :: "'v component_manifest \<Rightarrow> 'v parsed_package list \<Rightarrow> bool" where
  "imports_declared m pkgs \<longleftrightarrow>
     (\<forall>pkg \<in> set pkgs. \<forall>(name, world) \<in> set (pp_worlds pkg).
        \<forall>(key, _) \<in> set (pw_imports world). \<forall>(iface, capability) \<in> set wasi_capability_map.
          str_contains key iface \<longrightarrow> capability \<in> set (mf_required m) \<union> set (mf_optional m))"

lemma validate_packages_ok:
  "result_is_ok (validate_packages pl sv mp wd (Inr m) pkgs) \<longleftrightarrow>
   pkgs \<noteq> [] \<and> has_torvyn_export pkgs \<and> imports_declared m pkgs"
proof -
  have versions: "result_is_ok (case pp_version pkg of None \<Rightarrow> []
      | Some v \<Rightarrow> if v \<noteq> mf_version m then [version_differs sv mp v (mf_version m)] else [])" for pkg
    by (simp split: option.splits)
  show ?thesis
    unfolding imports_declared_def
    by (auto simp: validate_packages_def Let_def capability_consistency_ok versions split_beta)
qed

lemma validate_packages_refused:
  assumes "\<not> result_is_ok errs"
  shows "\<not> result_is_ok (validate_packages pl sv mp wd (Inl errs) pkgs)"
  using assms by (auto simp: validate_packages_def Let_def)

lemma validate_component_ok:
  "result_is_ok (validate_component pl trim sv mp wd file wit_root subs) \<longleftrightarrow>
   (\<exists>m. parse_manifest trim sv mp file = Inr m \<and> has_torvyn_export (find_packages wit_root subs) \<and>
      imports_declared m (find_packages wit_root subs))"
proof (cases "parse_manifest trim sv mp file")
  case (Inl errs)
  then have "\<not> result_is_ok errs" by (rule parse_manifest_fails)
  with Inl show ?thesis by (simp add: validate_component_def validate_packages_refused)
next
  case (Inr m)
  have "has_torvyn_export pkgs \<Longrightarrow> pkgs \<noteq> []" for pkgs :: "'a parsed_package list"
    by (auto simp: has_torvyn_export_def)
  with Inr show ?thesis by (auto simp: validate_component_def validate_packages_ok)
qed

text \<open>The part of an export key after its last slash names a processing interface.\<close>

lemma last_split_char:
  assumes "c \<notin> set w"
  shows "last (split_char c s) = w \<longleftrightarrow> s = w \<or> (\<exists>t. s = t @ c # w)"
proof (cases "c \<in> set s")
  case False
  then show ?thesis by (auto simp: split_char_single)
next
  case True
  then obtain t u where s: "s = t @ c # u" "c \<notin> set u" by (meson split_list_last)
  have end_part: "last (split_char c (t @ c # u)) = u" if "c \<notin> set u" for t u
  proof -
    have "split_char c (t @ c # u) = split_char c t @ split_char c u"
      by (induction t) (auto split: list.split)
    with that show ?thesis by (simp add: split_char_single)
  qed
  have "s \<noteq> w" using True assms by auto
  then show ?thesis using end_part [OF s(2), of t] end_part [OF assms] s(1) by auto
qed

lemma has_torvyn_export_iff:
  "has_torvyn_export pkgs \<longleftrightarrow>
     (\<exists>pkg \<in> set pkgs. \<exists>(_, world) \<in> set (pp_worlds pkg). \<exists>(key, _) \<in> set (pw_exports world).
        \<exists>iface \<in> {''processor'', ''source'', ''sink'', ''filter'', ''router'', ''aggregator''}.
          key = iface \<or> (\<exists>prefix. key = prefix @ CHR ''/'' # iface))"
proof -
  have "last (split_char CHR ''/'' key) \<in> set torvyn_processing_interfaces \<longleftrightarrow>
      (\<exists>iface \<in> {''processor'', ''source'', ''sink'', ''filter'', ''router'', ''aggregator''}.
          key = iface \<or> (\<exists>prefix. key = prefix @ CHR ''/'' # iface))" for key
    by (simp add: torvyn_processing_interfaces_def last_split_char)
  then show ?thesis by (simp only: has_torvyn_export_def list_ex_iff split_beta)
qed

end
