(* ===== verification/Con_Props.thy ===== *)
theory Con_Props
  imports Con_Link Con_Validate
begin

text \<open>
  The properties of \<open>torvyn-contracts\<close>: what the verdict of the compatibility check and the
  validation of a pipeline say.
\<close>

text \<open>
  C34. The verdict on two versions of a package is breaking exactly when the new one loses or changes
  something that the old one offers and the engine looks at: an interface or the name of a world, in an
  interface a function or its signature, a resource, a type definition or its kind, a field of a record, a
  case of a variant or an enumeration. What it does not look at are the members of flags, the targets of
  aliases and the items of worlds. So a package that keeps all that the old one offers never breaks, and one
  that does not break keeps all of it exactly if those are kept as well. The verdict is reflexive, and
  two non-breaking steps make a non-breaking one.
\<close>

theorem compatibility_verdict_exact:
  assumes "unique_keys old" "unique_keys mid"
  shows "(cv_verdict (check_compatibility sv old new) = VerdictBreaking \<longleftrightarrow>
      \<not> offers_kept (visible old) (visible new)) \<and>
    (offers_kept old new \<longleftrightarrow>
      cv_verdict (check_compatibility sv old new) \<noteq> VerdictBreaking \<and> hidden_kept old new) \<and>
    cv_verdict (check_compatibility sv old old) \<noteq> VerdictBreaking \<and>
    (cv_verdict (check_compatibility sv old mid) = VerdictBreaking \<or>
     cv_verdict (check_compatibility sv mid new) = VerdictBreaking \<or>
     cv_verdict (check_compatibility sv old new) \<noteq> VerdictBreaking)"
  using backward_compatible_trans [of old mid new] backward_compatible_refl [of old]
  by (simp add: verdict_breaking compatibility_minor assms offers_kept_visible offers_kept_split [of old new])

definition semver_example :: "nat semver_ops" where
  "semver_example = \<lparr>sv_zero = 0, sv_major = id, sv_show = decimal, sv_parse = (\<lambda>s. Inr (digits_value s))\<rparr>"

definition package_example :: "parsed_function hash_map \<Rightarrow> nat parsed_package" where
  "package_example fs =
     \<lparr>pp_name = ''torvyn:streaming'', pp_version = Some 1,
      pp_interfaces = [(''source'', \<lparr>pi_name = ''source'', pi_functions = fs, pi_types = [], pi_resources = []\<rparr>)],
      pp_worlds = [], pp_source_files = []\<rparr>"

definition pull_example :: "(string \<times> parsed_function) list" where
  "pull_example = [(''pull'', \<lparr>pf_name = ''pull'', pf_params = [], pf_result = None\<rparr>)]"

definition flags_example :: "string list \<Rightarrow> nat parsed_package" where
  "flags_example fs =
     \<lparr>pp_name = ''torvyn:streaming'', pp_version = Some 1,
      pp_interfaces = [(''io'', \<lparr>pi_name = ''io'', pi_functions = [],
        pi_types = [(''mode'', \<lparr>pt_name = ''mode'', pt_kind = KindFlags fs\<rparr>)], pi_resources = []\<rparr>)],
      pp_worlds = [], pp_source_files = []\<rparr>"

lemma flags_example_kept: "offers_kept (flags_example fs) (flags_example gs) \<longleftrightarrow> set fs \<subseteq> set gs"
  by (auto simp: offers_kept_def flags_example_def keeps_def interface_kept_def)

lemma compatibility_verdict_exact_witness:
  "cv_verdict (check_compatibility semver_example (package_example pull_example) (package_example [])) =
      VerdictBreaking \<and>
   cv_verdict (check_compatibility semver_example (flags_example [''read'']) (flags_example [''read'', ''write''])) \<noteq>
      VerdictBreaking \<and>
   cv_verdict (check_compatibility semver_example (flags_example [''read'', ''write'']) (flags_example [])) \<noteq>
      VerdictBreaking \<and>
   \<not> offers_kept (flags_example [''read'', ''write'']) (flags_example [])"
proof -
  have u: "unique_keys (package_example pull_example)" "unique_keys (flags_example fs)" for fs
    by (simp_all add: package_example_def pull_example_def flags_example_def unique_keys_def)
  have "\<not> offers_kept (visible (package_example pull_example)) (visible (package_example []))"
    by (simp add: offers_kept_def visible_def package_example_def pull_example_def keeps_def interface_kept_def
        visible_interface_def)
  with compatibility_verdict_exact [OF u(1) u(1), of semver_example "package_example []"]
  have a: "cv_verdict (check_compatibility semver_example (package_example pull_example) (package_example [])) =
      VerdictBreaking" by blast
  have "offers_kept (visible (flags_example fs)) (visible (flags_example gs))" for fs gs
    by (simp add: offers_kept_def visible_def flags_example_def keeps_def interface_kept_def
        visible_interface_def visible_type_def)
  with compatibility_verdict_exact [OF u(2) u(2)]
  have b: "cv_verdict (check_compatibility semver_example (flags_example fs) (flags_example gs)) \<noteq> VerdictBreaking"
    for fs gs by blast
  show ?thesis using a b flags_example_kept by simp
qed

lemma removal_is_breaking:
  "cv_verdict (check_compatibility semver_example (package_example pull_example) (package_example [])) =
     VerdictBreaking"
  by (simp add: check_compatibility_def Let_def compare_interfaces_def compare_worlds_def
      package_example_def pull_example_def removed_keys_def shared_entries_def contains_key_def
      compare_interface_contents_def)

text \<open>
  C35. A pipeline passes the validation exactly when its connections join known components, every
  component is connected, sources have no input and sinks no output, the graph is acyclic, packages
  shared along a connection keep their interfaces downstream, all required capabilities are granted
  and all components agree on the major version of every package.
\<close>

theorem contract_validation_exact:
  assumes "\<forall>c \<in> set (pl_components p). \<forall>pkg \<in> set (pc_packages c). unique_keys pkg"
  shows "result_is_ok (contract_validate_pipeline path_less sv p) \<longleftrightarrow>
    (\<forall>(u, v) \<in> set (connection_pairs p). u \<in> component_names p \<and> v \<in> component_names p) \<and>
    component_names p \<subseteq> fst ` set (connection_pairs p) \<union> snd ` set (connection_pairs p) \<and>
    (\<forall>c \<in> set (pl_components p).
       (pc_role c = Source \<longrightarrow> pc_name c \<notin> snd ` set (connection_pairs p)) \<and>
       (pc_role c = Sink \<longrightarrow> pc_name c \<notin> fst ` set (connection_pairs p))) \<and>
    acyclic (set (connection_pairs p)) \<and>
    (\<forall>(u, v) \<in> set (connection_pairs p). \<forall>a b. component_map p u = Some a \<longrightarrow> component_map p v = Some b \<longrightarrow>
       (\<forall>up \<in> set (pc_packages a). \<forall>down \<in> set (pc_packages b). pp_name up = pp_name down \<longrightarrow>
          keeps interface_compatible (pp_interfaces up) (pp_interfaces down))) \<and>
    (\<forall>c \<in> set (pl_components p).
       set (mf_required (pc_manifest c)) \<subseteq>
         kg_name ` set (opt_or (map_of (pl_grants p) (pc_name c)) [])) \<and>
    (\<forall>(k, v) \<in> set (package_versions p). \<forall>(j, w) \<in> set (package_versions p).
       k = j \<longrightarrow> sv_major sv (snd v) = sv_major sv (snd w))"
proof (cases "\<forall>(u, v) \<in> set (connection_pairs p). u \<in> component_names p \<and> v \<in> component_names p")
  case True
  have "result_is_ok (contract_detect_cycles p) \<longleftrightarrow> acyclic (set (connection_pairs p))"
    unfolding contract_detect_cycles_iff [OF True, symmetric]
    unfolding contract_detect_cycles_def by (rule detect_cycles_ok)
  then show ?thesis
    unfolding contract_validate_pipeline_def contract_topology_def result_is_ok_sort
      result_is_ok_append link_endpoints_ok link_disconnected_ok link_roles_ok
      contract_interfaces_ok [OF assms] contract_capabilities_ok contract_versions_ok
    by (simp only: conj_assoc)
next
  case False
  then have "\<not> result_is_ok (link_endpoints p)" by (simp only: link_endpoints_ok not_False_eq_True)
  with False show ?thesis
    unfolding contract_validate_pipeline_def contract_topology_def result_is_ok_sort result_is_ok_append
    by blast
qed

definition contract_component_example ::
  "string \<Rightarrow> component_role \<Rightarrow> nat pipeline_component" where
  "contract_component_example name role =
     \<lparr>pc_name = name, pc_role = role, pc_packages = [package_example pull_example],
      pc_manifest = \<lparr>mf_name = name, mf_version = 1, mf_required = [], mf_optional = [],
        mf_limits = \<lparr>rl_max_buffer_size = 0, rl_max_memory = 0, rl_buffer_pool = []\<rparr>\<rparr>,
      pc_artifact_path = name, pc_config = None\<rparr>"

definition contract_pipeline_example :: "nat pipeline_definition" where
  "contract_pipeline_example =
     \<lparr>pl_name = ''p'',
      pl_components = [contract_component_example ''a'' Source, contract_component_example ''b'' Sink],
      pl_connections = [\<lparr>pn_from = ''a'', pn_to = ''b'', pn_queue_depth = 8, pn_port = None\<rparr>],
      pl_grants = []\<rparr>"

lemma contract_validation_exact_witness:
  "result_is_ok (contract_validate_pipeline (\<lambda>_ _. False) semver_example contract_pipeline_example)"
proof -
  have pkgs: "\<forall>c \<in> set (pl_components contract_pipeline_example). \<forall>pkg \<in> set (pc_packages c). unique_keys pkg"
    by (simp add: contract_pipeline_example_def contract_component_example_def package_example_def
        pull_example_def unique_keys_def)
  have pairs: "connection_pairs contract_pipeline_example = [(''a'', ''b'')]"
    by (simp add: connection_pairs_def contract_pipeline_example_def)
  have names: "component_names contract_pipeline_example = {''a'', ''b''}"
    by (simp add: component_names_def contract_pipeline_example_def contract_component_example_def)
  have versions: "package_versions contract_pipeline_example =
      [(''torvyn:streaming'', ''a'', 1), (''torvyn:streaming'', ''b'', 1)]"
    by (simp add: package_versions_def contract_pipeline_example_def contract_component_example_def
        package_example_def)
  have "acyclic ({} :: (string \<times> string) set)" by (simp add: acyclic_def)
  then have acyc: "acyclic {(''a'', ''b'')}" by (simp add: acyclic_insert)
  have fields [simp]: "pc_name (contract_component_example n r) = n"
    "pc_role (contract_component_example n r) = r"
    "pc_packages (contract_component_example n r) = [package_example pull_example]"
    "mf_required (pc_manifest (contract_component_example n r)) = []" for n r
    by (simp_all add: contract_component_example_def)
  have list: "pl_components contract_pipeline_example =
      [contract_component_example ''a'' Source, contract_component_example ''b'' Sink]"
    by (simp add: contract_pipeline_example_def)
  have comps: "component_map contract_pipeline_example ''a'' = Some (contract_component_example ''a'' Source)"
    "component_map contract_pipeline_example ''b'' = Some (contract_component_example ''b'' Sink)"
    by (simp_all add: component_map_def list)
  show ?thesis
    unfolding contract_validation_exact [OF pkgs] pairs names versions list
    using acyc by (simp add: comps keeps_refl interface_compatible_refl)
qed







end
