(* ===== verification/Cfg_Error.thy ===== *)
theory Cfg_Error
  imports Sec_Resolver Con_Error Rea_Driver
begin

text \<open>
  The errors of \<open>torvyn-config\<close> (\<open>error.rs\<close>): the constructors with their texts, the collection, the
  reading of the message about an unknown key, and the suggestion of the nearest known key by edit
  distance. Of an error of the TOML library its text and its span are used; keys are ASCII.

  The lemmas: the two-row computation of the distance gives the least number of edits.
\<close>

section \<open>Errors\<close>

record config_parse_error =
  ce_code :: string
  ce_file :: string
  ce_key_path :: string
  ce_message :: string
  ce_expected :: string
  ce_found :: string
  ce_suggestion :: string

definition file_not_found :: "string \<Rightarrow> config_parse_error" where
  "file_not_found file =
     \<lparr>ce_code = ''E0700'', ce_file = file, ce_key_path = [],
      ce_message = ''Configuration file not found: '' @ tick_quoted file,
      ce_expected = ''a readable TOML file'',
      ce_found = ''file does not exist or is not readable'',
      ce_suggestion = ''Create a Torvyn.toml or specify a path with --manifest.''\<rparr>"

record toml_error =
  te_text :: string
  te_span :: "(nat \<times> nat) option"

definition toml_syntax :: "string \<Rightarrow> toml_error \<Rightarrow> config_parse_error" where
  "toml_syntax file e =
     (let span_info = (case te_span e of None \<Rightarrow> []
        | Some (a, b) \<Rightarrow> '' at byte offset '' @ decimal a @ ''..'' @ decimal b)
      in \<lparr>ce_code = ''E0701'', ce_file = file, ce_key_path = [],
          ce_message = ''Invalid TOML syntax'' @ span_info @ '': '' @ te_text e,
          ce_expected = ''valid TOML'',
          ce_found = ''syntax error: '' @ te_text e,
          ce_suggestion = ''Fix the TOML syntax. See https://toml.io for the specification.''\<rparr>)"

definition missing_field :: "string \<Rightarrow> string \<Rightarrow> string \<Rightarrow> config_parse_error" where
  "missing_field file key_path context_name =
     \<lparr>ce_code = ''E0702'', ce_file = file, ce_key_path = key_path,
      ce_message = ''Missing required field '' @ tick_quoted key_path,
      ce_expected = ''field '' @ tick_quoted key_path @ '' to be present in '' @ context_name,
      ce_found = ''field is absent'',
      ce_suggestion = ''Add `'' @ key_path @ '' = <value>` to the ['' @ context_name @ ''] section.''\<rparr>"

definition invalid_value :: "string \<Rightarrow> string \<Rightarrow> string \<Rightarrow> string \<Rightarrow> string \<Rightarrow> config_parse_error" where
  "invalid_value file key_path found expected suggestion =
     \<lparr>ce_code = ''E0703'', ce_file = file, ce_key_path = key_path,
      ce_message = ''Invalid value for '' @ tick_quoted key_path,
      ce_expected = expected, ce_found = found, ce_suggestion = suggestion\<rparr>"

definition semantic_error :: "string \<Rightarrow> string \<Rightarrow> string \<Rightarrow> string \<Rightarrow> config_parse_error" where
  "semantic_error file key_path message suggestion =
     \<lparr>ce_code = ''E0704'', ce_file = file, ce_key_path = key_path, ce_message = message,
      ce_expected = [], ce_found = [], ce_suggestion = suggestion\<rparr>"

definition env_var_not_found :: "string \<Rightarrow> string \<Rightarrow> string \<Rightarrow> config_parse_error" where
  "env_var_not_found file key_path var_name =
     \<lparr>ce_code = ''E0705'', ce_file = file, ce_key_path = key_path,
      ce_message = ''Environment variable '' @ tick_quoted var_name @ '' referenced but not set'',
      ce_expected = ''environment variable '' @ tick_quoted var_name @ '' to be defined'',
      ce_found = ''variable is not set'',
      ce_suggestion = ''Set the environment variable: export '' @ var_name @ ''=<value>, '' @
        ''or remove the ${{ '' @ var_name @ '' }} reference from your configuration.''\<rparr>"

definition duplicate_key :: "string \<Rightarrow> string \<Rightarrow> config_parse_error" where
  "duplicate_key file key_path =
     \<lparr>ce_code = ''E0706'', ce_file = file, ce_key_path = key_path,
      ce_message = ''Duplicate key '' @ tick_quoted key_path,
      ce_expected = ''each key to appear at most once'',
      ce_found = ''key appears more than once'',
      ce_suggestion = ''Remove the duplicate entry.''\<rparr>"

definition config_error_text :: "config_parse_error \<Rightarrow> string" where
  "config_error_text e =
     ''['' @ ce_code e @ ''] '' @ ce_message e @
     (if ce_file e = [] then [] else newline @ ''  --> '' @ ce_file e) @
     (if ce_key_path e = [] then [] else '' :: '' @ ce_key_path e) @
     (if ce_expected e = [] then [] else newline @ ''  expected: '' @ ce_expected e) @
     (if ce_found e = [] then [] else newline @ ''  found:    '' @ ce_found e) @
     (if ce_suggestion e = [] then [] else newline @ ''  help: '' @ ce_suggestion e)"

text \<open>The errors of \<open>torvyn-types\<close> they are converted to.\<close>

datatype config_error =
    FileNotFound string
  | ConfigParse string string
  | MissingField string string
  | InvalidValue string string string

fun config_error_display :: "config_error \<Rightarrow> string" where
  "config_error_display (FileNotFound path) =
     ''[E0700] Configuration file not found: '' @ tick_quoted path @
     ''. Create a Torvyn.toml file or specify a different path with --config.''"
| "config_error_display (ConfigParse path message) =
     ''[E0701] Failed to parse configuration '' @ tick_quoted path @ '': '' @ message @
     ''. Validate the TOML syntax.''"
| "config_error_display (MissingField field ctxt) =
     ''[E0702] Missing required field '' @ tick_quoted field @ '' in '' @ ctxt @
     ''. Add the field to your configuration file.''"
| "config_error_display (InvalidValue field val reason) =
     ''[E0703] Invalid value for '' @ tick_quoted field @ '': '' @ tick_quoted val @ '' '' @ em_dash @
     '' '' @ reason @ ''.''"

definition to_config_error :: "config_parse_error \<Rightarrow> config_error" where
  "to_config_error e =
     (if ce_code e = ''E0700'' then FileNotFound (ce_file e)
      else if ce_code e = ''E0701'' then ConfigParse (ce_file e) (ce_message e)
      else if ce_code e = ''E0702'' then MissingField (ce_key_path e) (ce_file e)
      else InvalidValue (ce_key_path e) (ce_found e) (ce_message e))"

type_synonym config_errors = "config_parse_error list"

definition errors_into_result :: "config_errors \<Rightarrow> config_errors + unit" where
  "errors_into_result errs = (if errs = [] then Inr () else Inl errs)"

definition config_errors_text :: "config_errors \<Rightarrow> string" where
  "config_errors_text errs = join (newline @ newline) (map config_error_text errs)"

section \<open>Edit distance\<close>

text \<open>
  A row of the table from the row above: \<open>left\<close> is the cell to the left. Cell \<open>j\<close> of row \<open>i\<close> is the
  distance between the first \<open>i\<close> characters of one text and the first \<open>j\<close> of the other.
\<close>

fun edit_cells :: "'a \<Rightarrow> 'a list \<Rightarrow> nat list \<Rightarrow> nat \<Rightarrow> nat list" where
  "edit_cells a (b # bs) (p # q # ps) left =
     (let cell = min (min (p + (if a \<noteq> b then 1 else 0)) (q + 1)) (left + 1)
      in cell # edit_cells a bs (q # ps) cell)"
| "edit_cells a bs previous left = []"

fun edit_rows :: "'a list \<Rightarrow> nat \<Rightarrow> 'a list \<Rightarrow> nat list \<Rightarrow> nat list" where
  "edit_rows bs i [] previous = previous"
| "edit_rows bs i (a # as) previous =
     edit_rows bs (Suc i) as ((i + 1) # edit_cells a bs previous (i + 1))"

definition edit_distance :: "'a list \<Rightarrow> 'a list \<Rightarrow> nat" where
  "edit_distance a b = edit_rows b 0 a [0..<length b + 1] ! length b"

text \<open>The first candidate of least distance within the budget.\<close>

fun min_first :: "(nat \<times> 'a) list \<Rightarrow> (nat \<times> 'a) option" where
  "min_first [] = None"
| "min_first (x # xs) =
     (case min_first xs of None \<Rightarrow> Some x | Some y \<Rightarrow> if fst x \<le> fst y then Some x else Some y)"

definition typo_budget :: "string \<Rightarrow> nat" where
  "typo_budget found = min 3 (max 1 (length found div 3))"

definition nearest_known_key :: "string \<Rightarrow> string list \<Rightarrow> string option" where
  "nearest_known_key found known =
     map_option snd (min_first (filter (\<lambda>(d, _). d \<le> typo_budget found)
       (map (\<lambda>c. (edit_distance found c, c)) known)))"

definition known_manifest_tables :: "string list" where
  "known_manifest_tables =
     [''torvyn'', ''component'', ''build'', ''test'', ''runtime'', ''observability'', ''security'',
      ''registry'', ''flow'']"

section \<open>Unknown keys\<close>

definition line_break :: char where
  "line_break = char_of (10 :: nat)"

definition text_lines :: "string \<Rightarrow> string list" where
  "text_lines s =
     (let ls = split_char line_break s;
          ls = (if last ls = [] then butlast ls else ls)
      in map (\<lambda>l. if l \<noteq> [] \<and> last l = char_of (13 :: nat) then butlast l else l) ls)"

fun split_once_str :: "string \<Rightarrow> string \<Rightarrow> (string \<times> string) option" where
  "split_once_str pat s =
     (if starts_with s pat then Some ([], drop (length pat) s)
      else case s of [] \<Rightarrow> None | c # cs \<Rightarrow> map_option (\<lambda>(a, b). (c # a, b)) (split_once_str pat cs))"

declare split_once_str.simps [simp del]

fun every_second :: "'a list \<Rightarrow> 'a list" where
  "every_second (x # y # xs) = x # every_second xs"
| "every_second xs = xs"

text \<open>The message names the key, and after it the known keys, between backticks.\<close>

definition parse_unknown_field ::
  "(string \<Rightarrow> string) \<Rightarrow> string \<Rightarrow> (string \<times> string list) option" where
  "parse_unknown_field trim_start rendered =
     Option.bind (find (\<lambda>l. starts_with (trim_start l) ''unknown field `'') (text_lines rendered)) (\<lambda>line.
     Option.bind (split_once_str ''unknown field `'' line) (\<lambda>(_, after_marker).
     Option.bind (split_once CHR ''`'' after_marker) (\<lambda>(found, rest).
       Some (found, every_second (drop 1 (split_char CHR ''`'' rest))))))"

definition back_quoted :: "string \<Rightarrow> string" where
  "back_quoted s = ''`'' @ s @ ''`''"

definition unknown_field :: "(string \<Rightarrow> string) \<Rightarrow> string \<Rightarrow> toml_error \<Rightarrow> config_parse_error option" where
  "unknown_field trim_start file e =
     map_option (\<lambda>(found, valid).
       \<lparr>ce_code = ''E0702'', ce_file = file, ce_key_path = found,
        ce_message = ''Unknown configuration key '' @ back_quoted found,
        ce_expected = (if valid = [] then ''a key this table defines''
          else ''one of: '' @ join '', '' valid),
        ce_found = found,
        ce_suggestion = (case nearest_known_key found valid of
            Some near \<Rightarrow> ''Did you mean '' @ back_quoted near @
              ''? A key Torvyn does not recognise is not applied, so '' @
              ''whatever it configures keeps its default.''
          | None \<Rightarrow> ''Remove it, or replace it with one of: '' @
              join '', '' (map back_quoted valid) @ ''.'')\<rparr>)
       (parse_unknown_field trim_start (te_text e))"

section \<open>The distance is the least number of edits\<close>

text \<open>\<open>edits xs ys n\<close>: \<open>n\<close> changes, deletions and insertions of a character turn \<open>xs\<close> into \<open>ys\<close>.\<close>

inductive edits :: "'a list \<Rightarrow> 'a list \<Rightarrow> nat \<Rightarrow> bool" where
  edits_Nil: "edits [] [] 0"
| edits_keep: "edits xs ys n \<Longrightarrow> edits (x # xs) (x # ys) n"
| edits_change: "edits xs ys n \<Longrightarrow> edits (x # xs) (y # ys) (Suc n)"
| edits_delete: "edits xs ys n \<Longrightarrow> edits (x # xs) ys (Suc n)"
| edits_insert: "edits xs ys n \<Longrightarrow> edits xs (y # ys) (Suc n)"

fun lev :: "'a list \<Rightarrow> 'a list \<Rightarrow> nat" where
  "lev [] ys = length ys"
| "lev (x # xs) [] = Suc (length xs)"
| "lev (x # xs) (y # ys) =
     min (min (lev xs ys + (if x \<noteq> y then 1 else 0)) (lev xs (y # ys) + 1)) (lev (x # xs) ys + 1)"

lemma lev_Nil2 [simp]: "lev xs [] = length xs"
  by (cases xs) auto

lemma edits_insert_all: "edits [] ys (length ys)"
  by (induction ys) (auto intro: edits.intros)

lemma edits_delete_all: "edits xs [] (length xs)"
  by (induction xs) (auto intro: edits.intros)

lemma edits_lev: "edits xs ys (lev xs ys)"
proof (induction xs ys rule: lev.induct)
  case (3 x xs y ys)
  have "edits (x # xs) (y # ys) (lev xs ys + (if x \<noteq> y then 1 else 0))"
    using 3(1) by (auto intro: edits_keep edits_change)
  moreover have "edits (x # xs) (y # ys) (lev xs (y # ys) + 1)" using 3(2) by (auto intro: edits_delete)
  moreover have "edits (x # xs) (y # ys) (lev (x # xs) ys + 1)" using 3(3) by (auto intro: edits_insert)
  ultimately show ?case unfolding lev.simps min_def by presburger
next
  case (2 x xs)
  show ?case using edits_delete_all [of "x # xs"] by simp
qed (simp_all add: edits_insert_all)

lemma lev_least: "edits xs ys n \<Longrightarrow> lev xs ys \<le> n"
proof (induction rule: edits.induct)
  case (edits_delete xs ys n x)
  have "lev (x # xs) ys \<le> lev xs ys + 1" by (cases ys) auto
  with edits_delete.IH show ?case by simp
next
  case (edits_insert xs ys n y)
  have "lev xs (y # ys) \<le> lev xs ys + 1" by (cases xs) auto
  with edits_insert.IH show ?case by simp
qed auto

lemma edits_append: "edits xs ys n \<Longrightarrow> edits us vs m \<Longrightarrow> edits (xs @ us) (ys @ vs) (n + m)"
  by (induction rule: edits.induct) (auto intro: edits.intros)

lemma edits_rev: "edits xs ys n \<Longrightarrow> edits (rev xs) (rev ys) n"
proof (induction rule: edits.induct)
  case (edits_keep xs ys n x)
  from edits_append [OF edits_keep.IH, of "[x]" "[x]" 0] show ?case by (auto intro: edits.intros)
next
  case (edits_change xs ys n x y)
  from edits_append [OF edits_change.IH, of "[x]" "[y]" "Suc 0"] show ?case
    by (auto intro: edits.intros)
next
  case (edits_delete xs ys n x)
  from edits_append [OF edits_delete.IH, of "[x]" "[]" "Suc 0"] show ?case by (auto intro: edits.intros)
next
  case (edits_insert xs ys n y)
  from edits_append [OF edits_insert.IH, of "[]" "[y]" "Suc 0"] show ?case by (auto intro: edits.intros)
qed (auto intro: edits.intros)

lemma lev_rev: "lev (rev xs) (rev ys) = lev xs ys"
  using lev_least [OF edits_rev [OF edits_lev [of "rev xs" "rev ys"]]]
    lev_least [OF edits_rev [OF edits_lev [of xs ys]]] by simp

text \<open>The row of the table for the characters \<open>xr\<close>, last first, over the columns \<open>bs\<close> after \<open>r\<close>.\<close>

fun lev_row :: "'a list \<Rightarrow> 'a list \<Rightarrow> 'a list \<Rightarrow> nat list" where
  "lev_row xr r [] = [lev xr r]"
| "lev_row xr r (b # bs) = lev xr r # lev_row xr (b # r) bs"

lemma lev_row_Cons: "lev_row xr r bs = lev xr r # tl (lev_row xr r bs)"
  by (cases bs) auto

lemma edit_cells_row: "edit_cells a bs (lev_row xr r bs) (lev (a # xr) r) = tl (lev_row (a # xr) r bs)"
proof (induction bs arbitrary: r)
  case (Cons b bs)
  obtain ps where row: "lev_row xr (b # r) bs = lev xr (b # r) # ps" using lev_row_Cons by blast
  have "edit_cells a (b # bs) (lev_row xr r (b # bs)) (lev (a # xr) r) =
      lev (a # xr) (b # r) # edit_cells a bs (lev_row xr (b # r) bs) (lev (a # xr) (b # r))"
    by (simp add: row Let_def)
  also have "\<dots> = tl (lev_row (a # xr) r (b # bs))"
    using Cons [of "b # r"] lev_row_Cons [of "a # xr" "b # r" bs] by (simp only: lev_row.simps list.sel)
  finally show ?case .
qed simp

lemma edit_rows_row:
  "edit_rows bs (length xr) as (lev_row xr [] bs) = lev_row (rev as @ xr) [] bs"
proof (induction as arbitrary: xr)
  case (Cons a as)
  have len: "lev (a # xr) [] = length xr + 1" by simp
  have "(length xr + 1) # edit_cells a bs (lev_row xr [] bs) (length xr + 1) = lev_row (a # xr) [] bs"
    unfolding len [symmetric] edit_cells_row by (rule lev_row_Cons [symmetric])
  with Cons [of "a # xr"] show ?case by simp
qed simp

lemma lev_row_first: "lev_row [] r bs = [length r..<length r + length bs + 1]"
proof (induction bs arbitrary: r)
  case (Cons b bs)
  have "[length r..<length r + length (b # bs) + 1] =
      length r # [Suc (length r)..<length r + length (b # bs) + 1]"
    by (rule upt_conv_Cons) simp
  with Cons [of "b # r"] show ?case by (simp del: upt_Suc)
qed simp

lemma lev_row_last: "lev_row xr r bs ! length bs = lev xr (rev bs @ r)"
  by (induction bs arbitrary: r) auto

lemma edit_distance_lev: "edit_distance a b = lev a b"
  using edit_rows_row [of b "[]" a] lev_row_first [of "[]" b] lev_row_last [of "rev a" "[]" b]
  by (simp add: edit_distance_def lev_rev)

theorem edit_distance_least:
  "edits a b (edit_distance a b) \<and> (edits a b n \<longrightarrow> edit_distance a b \<le> n)"
  by (simp add: edit_distance_lev edits_lev lev_least)

lemma min_first_None [simp]: "min_first xs = None \<longleftrightarrow> xs = []"
  by (cases xs) (auto split: option.splits)

lemma min_first_Some:
  "min_first xs = Some y \<Longrightarrow> y \<in> set xs \<and> (\<forall>x \<in> set xs. fst y \<le> fst x)"
proof (induction xs arbitrary: y)
  case (Cons x xs)
  then show ?case by (fastforce split: option.splits if_splits)
qed simp

lemma nearest_key_Some:
  "nearest_known_key found known = Some k \<Longrightarrow>
   k \<in> set known \<and> edit_distance found k \<le> typo_budget found \<and>
   (\<forall>c \<in> set known. edit_distance found k \<le> edit_distance found c)"
proof -
  assume "nearest_known_key found known = Some k"
  then obtain d where "min_first (filter (\<lambda>(d, _). d \<le> typo_budget found)
      (map (\<lambda>c. (edit_distance found c, c)) known)) = Some (d, k)"
    by (auto simp: nearest_known_key_def)
  from min_first_Some [OF this] have k: "k \<in> set known" "d = edit_distance found k" "d \<le> typo_budget found"
    and least: "c \<in> set known \<Longrightarrow> edit_distance found c \<le> typo_budget found \<Longrightarrow> d \<le> edit_distance found c" for c
    by auto
  have "d \<le> edit_distance found c" if "c \<in> set known" for c
    using least [OF that] k(3) by (cases "edit_distance found c \<le> typo_budget found") auto
  with k show ?thesis by auto
qed

lemma nearest_key_None:
  "nearest_known_key found known = None \<longleftrightarrow>
   (\<forall>c \<in> set known. typo_budget found < edit_distance found c)"
  by (auto simp: nearest_known_key_def filter_empty_conv)


end
