(* ===== verification/Cfg_Runtime.thy ===== *)
theory Cfg_Runtime
  imports Cfg_Error Con_Manifest
begin

text \<open>
  The runtime, observability and security configuration of \<open>torvyn-config\<close> (\<open>runtime.rs\<close>) with its
  defaults, the parser of memory sizes, and the merging of layers (\<open>merge.rs\<close>). Ordered maps are
  association lists sorted by key. Sample rates are of any type with the operations of \<open>rate_ops\<close>.

  The lemmas: merging is a monoid with the defaults as its unit; memory sizes read as written.
\<close>

section \<open>Configuration and defaults\<close>

record scheduling_config =
  sg_policy :: string
  sg_default_priority :: u32

definition scheduling_config_default :: scheduling_config where
  "scheduling_config_default = \<lparr>sg_policy = ''weighted-fair'', sg_default_priority = 5\<rparr>"

record backpressure_config =
  bg_default_queue_depth :: nat
  bg_policy :: string

definition backpressure_config_default :: backpressure_config where
  "backpressure_config_default = \<lparr>bg_default_queue_depth = 64, bg_policy = ''block-producer''\<rparr>"

record runtime_config =
  rg_worker_threads :: nat
  rg_max_memory_per_component :: string
  rg_default_fuel_per_invocation :: u64
  rg_compilation_cache_dir :: string
  rg_scheduling :: scheduling_config
  rg_backpressure :: backpressure_config

definition runtime_config_default :: runtime_config where
  "runtime_config_default =
     \<lparr>rg_worker_threads = 0, rg_max_memory_per_component = ''16MiB'',
      rg_default_fuel_per_invocation = 1000000, rg_compilation_cache_dir = ''.torvyn/cache'',
      rg_scheduling = scheduling_config_default, rg_backpressure = backpressure_config_default\<rparr>"

record 'f rate_ops =
  ro_one :: 'f
  ro_differs :: "'f \<Rightarrow> 'f \<Rightarrow> bool"
  ro_in_unit :: "'f \<Rightarrow> bool"
  ro_show :: "'f \<Rightarrow> string"

record 'f export_config_toml =
  xg_tracing_enabled :: bool
  xg_tracing_exporter :: string
  xg_tracing_endpoint :: string
  xg_tracing_sample_rate :: 'f
  xg_metrics_enabled :: bool
  xg_metrics_exporter :: string
  xg_metrics_endpoint :: string

definition observability_toml_default :: "'f rate_ops \<Rightarrow> 'f export_config_toml" where
  "observability_toml_default ro =
     \<lparr>xg_tracing_enabled = True, xg_tracing_exporter = ''stdout'',
      xg_tracing_endpoint = ''http://localhost:4317'', xg_tracing_sample_rate = ro_one ro,
      xg_metrics_enabled = True, xg_metrics_exporter = ''none'',
      xg_metrics_endpoint = ''0.0.0.0:9090''\<rparr>"

record security_config =
  yg_default_capability_policy :: string
  yg_grants :: "(string \<times> string list) list"

definition security_config_default :: security_config where
  "security_config_default = \<lparr>yg_default_capability_policy = ''deny-all'', yg_grants = []\<rparr>"

section \<open>Memory sizes\<close>

definition to_ascii_lowercase :: "string \<Rightarrow> string" where
  "to_ascii_lowercase s =
     map (\<lambda>c. if 65 \<le> (of_char c :: nat) \<and> (of_char c :: nat) \<le> 90
              then char_of ((of_char c :: nat) + 32) else c) s"

definition memory_multiplier :: "string \<Rightarrow> string + nat" where
  "memory_multiplier suffix =
     (if suffix \<in> {[], ''b''} then Inr 1
      else if suffix \<in> {''kib'', ''k''} then Inr 1024
      else if suffix \<in> {''mib'', ''m''} then Inr (1024 * 1024)
      else if suffix \<in> {''gib'', ''g''} then Inr (1024 * 1024 * 1024)
      else Inl (''unknown memory size suffix '' @ tick_quoted suffix @ ''. Use B, KiB, MiB, or GiB.''))"

text \<open>The digits in front are not empty, so \<open>parse::<u64>\<close> fails only when they do not fit.\<close>

definition parse_memory_size :: "(string \<Rightarrow> string) \<Rightarrow> string \<Rightarrow> string + u64" where
  "parse_memory_size trim text0 =
     (let s = trim text0; digits = takeWhile is_digit s in
      if s = [] then Inl ''empty memory size string''
      else if digits = [] then Inl (''no numeric value in '' @ tick_quoted s)
      else if 2 ^ 64 \<le> digits_value digits
      then Inl (''invalid number in '' @ tick_quoted s @ '': number too large to fit in target type'')
      else
        (case memory_multiplier (to_ascii_lowercase (trim (drop (length digits) s))) of
           Inl e \<Rightarrow> Inl e
         | Inr multiplier \<Rightarrow>
             if digits_value digits * multiplier < 2 ^ 64
             then Inr (of_nat (digits_value digits * multiplier))
             else Inl (''memory size overflow: '' @ decimal (digits_value digits) @ '' * '' @
                       decimal multiplier)))"

section \<open>Merging\<close>

text \<open>A field of the overriding layer counts unless it is at its default.\<close>

definition override :: "'a \<Rightarrow> 'a \<Rightarrow> 'a \<Rightarrow> 'a" where
  "override dflt base over = (if over \<noteq> dflt then over else base)"

definition merge_scheduling_config :: "scheduling_config \<Rightarrow> scheduling_config \<Rightarrow> scheduling_config" where
  "merge_scheduling_config base over =
     (let d = scheduling_config_default in
      \<lparr>sg_policy = override (sg_policy d) (sg_policy base) (sg_policy over),
       sg_default_priority =
         override (sg_default_priority d) (sg_default_priority base) (sg_default_priority over)\<rparr>)"

definition merge_backpressure_config ::
  "backpressure_config \<Rightarrow> backpressure_config \<Rightarrow> backpressure_config" where
  "merge_backpressure_config base over =
     (let d = backpressure_config_default in
      \<lparr>bg_default_queue_depth = override (bg_default_queue_depth d)
         (bg_default_queue_depth base) (bg_default_queue_depth over),
       bg_policy = override (bg_policy d) (bg_policy base) (bg_policy over)\<rparr>)"

definition merge_runtime_config :: "runtime_config \<Rightarrow> runtime_config \<Rightarrow> runtime_config" where
  "merge_runtime_config base over =
     (let d = runtime_config_default in
      \<lparr>rg_worker_threads =
         override (rg_worker_threads d) (rg_worker_threads base) (rg_worker_threads over),
       rg_max_memory_per_component = override (rg_max_memory_per_component d)
         (rg_max_memory_per_component base) (rg_max_memory_per_component over),
       rg_default_fuel_per_invocation = override (rg_default_fuel_per_invocation d)
         (rg_default_fuel_per_invocation base) (rg_default_fuel_per_invocation over),
       rg_compilation_cache_dir = override (rg_compilation_cache_dir d)
         (rg_compilation_cache_dir base) (rg_compilation_cache_dir over),
       rg_scheduling = merge_scheduling_config (rg_scheduling base) (rg_scheduling over),
       rg_backpressure = merge_backpressure_config (rg_backpressure base) (rg_backpressure over)\<rparr>)"

definition merge_observability_config ::
  "'f rate_ops \<Rightarrow> 'f export_config_toml \<Rightarrow> 'f export_config_toml \<Rightarrow> 'f export_config_toml" where
  "merge_observability_config ro base over =
     (let d = observability_toml_default ro in
      \<lparr>xg_tracing_enabled =
         override (xg_tracing_enabled d) (xg_tracing_enabled base) (xg_tracing_enabled over),
       xg_tracing_exporter =
         override (xg_tracing_exporter d) (xg_tracing_exporter base) (xg_tracing_exporter over),
       xg_tracing_endpoint =
         override (xg_tracing_endpoint d) (xg_tracing_endpoint base) (xg_tracing_endpoint over),
       xg_tracing_sample_rate =
         (if ro_differs ro (xg_tracing_sample_rate over) (xg_tracing_sample_rate d)
          then xg_tracing_sample_rate over else xg_tracing_sample_rate base),
       xg_metrics_enabled =
         override (xg_metrics_enabled d) (xg_metrics_enabled base) (xg_metrics_enabled over),
       xg_metrics_exporter =
         override (xg_metrics_exporter d) (xg_metrics_exporter base) (xg_metrics_exporter over),
       xg_metrics_endpoint =
         override (xg_metrics_endpoint d) (xg_metrics_endpoint base) (xg_metrics_endpoint over)\<rparr>)"

text \<open>\<open>BTreeMap::insert\<close>\<close>

fun string_less :: "string \<Rightarrow> string \<Rightarrow> bool" where
  "string_less _ [] \<longleftrightarrow> False"
| "string_less [] (_ # _) \<longleftrightarrow> True"
| "string_less (a # s) (b # t) \<longleftrightarrow>
     (of_char a :: nat) < of_char b \<or> a = b \<and> string_less s t"

fun btree_insert :: "string \<Rightarrow> 'a \<Rightarrow> (string \<times> 'a) list \<Rightarrow> (string \<times> 'a) list" where
  "btree_insert k v [] = [(k, v)]"
| "btree_insert k v ((j, w) # m) =
     (if k = j then (k, v) # m
      else if string_less k j then (k, v) # (j, w) # m
      else (j, w) # btree_insert k v m)"

definition merge_security_config :: "security_config \<Rightarrow> security_config \<Rightarrow> security_config" where
  "merge_security_config base over =
     \<lparr>yg_default_capability_policy =
        override (yg_default_capability_policy security_config_default)
          (yg_default_capability_policy base) (yg_default_capability_policy over),
      yg_grants = fold (\<lambda>(k, v). btree_insert k v) (yg_grants over) (yg_grants base)\<rparr>"

section \<open>Lemmas\<close>

lemma override_simps [simp]:
  "override d b d = b" "override d d o1 = o1"
  by (simp_all add: override_def)

lemma override_assoc: "override d a (override d b c) = override d (override d a b) c"
  by (simp add: override_def)

lemmas merge_defs = merge_scheduling_config_def merge_backpressure_config_def merge_runtime_config_def

text \<open>Merging of runtime configurations is associative, and the defaults are its unit.\<close>

lemma merge_runtime_unit:
  "merge_runtime_config runtime_config_default c = c" "merge_runtime_config c runtime_config_default = c"
  by (simp_all add: merge_defs Let_def runtime_config_default_def)

lemma merge_runtime_assoc:
  "merge_runtime_config a (merge_runtime_config b c) = merge_runtime_config (merge_runtime_config a b) c"
  by (simp add: merge_defs Let_def override_assoc)

lemma map_of_btree_insert [simp]: "map_of (btree_insert k v m) = (map_of m)(k \<mapsto> v)"
  by (induction k v m rule: btree_insert.induct) (auto simp: fun_eq_iff)

lemma map_of_btree_inserts:
  "map_of (fold (\<lambda>(k, v). btree_insert k v) kvs m) = map_of m ++ map_of (rev kvs)"
  by (induction kvs arbitrary: m) (auto simp: map_add_def fun_eq_iff split: option.splits)

lemma merge_security_grants:
  "map_of (yg_grants (merge_security_config base over)) =
   map_of (yg_grants base) ++ map_of (rev (yg_grants over))"
  by (simp add: merge_security_config_def map_of_btree_inserts)

text \<open>A size written as a number and a unit is that many bytes, or an error when it does not fit.\<close>

lemma takeWhile_number:
  "list_all is_digit ds \<Longrightarrow> s = [] \<or> \<not> is_digit (hd s) \<Longrightarrow> takeWhile is_digit (ds @ s) = ds"
  by (induction ds) (cases s; auto)+

lemma lower_units:
  "to_ascii_lowercase [] = []" "to_ascii_lowercase ''B'' = ''b''" "to_ascii_lowercase ''KiB'' = ''kib''"
  "to_ascii_lowercase ''k'' = ''k''" "to_ascii_lowercase ''MiB'' = ''mib''"
  "to_ascii_lowercase ''m'' = ''m''" "to_ascii_lowercase ''GiB'' = ''gib''"
  "to_ascii_lowercase ''g'' = ''g''"
  by code_simp+

lemma memory_size_exact:
  assumes "(u, k) \<in> {([], 1), (''B'', 1), (''KiB'', 1024), (''k'', 1024), (''MiB'', 1024 * 1024),
      (''m'', 1024 * 1024), (''GiB'', 1024 * 1024 * 1024), (''g'', 1024 * 1024 * 1024)}"
    and trim: "trim (decimal n @ u) = decimal n @ u" "trim u = u"
  shows "(n * k < 2 ^ 64 \<longrightarrow> parse_memory_size trim (decimal n @ u) = Inr (of_nat (n * k))) \<and>
    (2 ^ 64 \<le> n * k \<longrightarrow> (\<exists>e. parse_memory_size trim (decimal n @ u) = Inl e))"
proof -
  have unit: "memory_multiplier (to_ascii_lowercase u) = Inr k" "u = [] \<or> \<not> is_digit (hd u)" "1 \<le> k"
    using assms(1) by (auto simp: lower_units memory_multiplier_def is_digit_def)
  have digits: "takeWhile is_digit (decimal n @ u) = decimal n" "decimal n \<noteq> []"
    using takeWhile_number [OF _ unit(2)] decimal_digits by auto
  have "n * 1 \<le> n * k" using unit(3) by (rule mult_le_mono2)
  then have "2 ^ 64 \<le> n \<longrightarrow> \<not> n * k < 2 ^ 64" by linarith
  then show ?thesis
    using unit(1) digits trim by (simp add: parse_memory_size_def Let_def digits_value_decimal)
qed

end
