(* ===== verification/Cfg_Manifest.thy ===== *)
theory Cfg_Manifest
  imports Cfg_Runtime
begin

text \<open>
  The project manifest of \<open>torvyn-config\<close> (\<open>manifest.rs\<close>) with the check of its required fields. The
  library that reads TOML into it is an argument of the loader.

  The lemma: when the check adds no error.
\<close>

record project_metadata =
  pj_name :: string
  pj_version :: string
  pj_contract_version :: string
  pj_description :: string
  pj_authors :: "string list"
  pj_license :: string
  pj_repository :: string

definition project_metadata_default :: project_metadata where
  "project_metadata_default =
     \<lparr>pj_name = [], pj_version = ''0.1.0'', pj_contract_version = ''0.1.0'', pj_description = [],
      pj_authors = [], pj_license = [], pj_repository = []\<rparr>"

record component_decl =
  cp_name :: string
  cp_path :: string
  cp_language :: string
  cp_build_command :: "string option"
  cp_config :: "string option"

definition component_decl_default :: component_decl where
  "component_decl_default =
     \<lparr>cp_name = [], cp_path = [], cp_language = ''rust'', cp_build_command = None, cp_config = None\<rparr>"

record build_config =
  bu_release :: bool
  bu_extra_args :: "string list"
  bu_target :: string

definition build_config_default :: build_config where
  "build_config_default = \<lparr>bu_release = True, bu_extra_args = [], bu_target = ''wasm32-wasip2''\<rparr>"

record test_config =
  tc_timeout_seconds :: u64
  tc_fixtures_dir :: string

definition test_config_default :: test_config where
  "test_config_default = \<lparr>tc_timeout_seconds = 60, tc_fixtures_dir = ''tests/fixtures''\<rparr>"

record 'f config_manifest =
  cm_torvyn :: project_metadata
  cm_components :: "component_decl list"
  cm_build :: build_config
  cm_test :: test_config
  cm_runtime :: runtime_config
  cm_observability :: "'f export_config_toml"
  cm_security :: security_config
  cm_registry_default :: "string option"
  cm_flow :: "(string \<times> toml_value) list"

definition is_ascii_alphanumeric :: "char \<Rightarrow> bool" where
  "is_ascii_alphanumeric c \<longleftrightarrow>
     (let n = (of_char c :: nat) in
      48 \<le> n \<and> n \<le> 57 \<or> 65 \<le> n \<and> n \<le> 90 \<or> 97 \<le> n \<and> n \<le> 122)"

definition is_valid_name :: "string \<Rightarrow> bool" where
  "is_valid_name s \<longleftrightarrow>
     s \<noteq> [] \<and> list_all (\<lambda>c. is_ascii_alphanumeric c \<or> c = CHR ''-'' \<or> c = CHR ''_'') s"

definition is_valid_semver :: "string \<Rightarrow> bool" where
  "is_valid_semver v \<longleftrightarrow>
     (let parts = split_char CHR ''.'' v in
      length parts = 3 \<and> list_all (\<lambda>p. parse_u64 p \<noteq> None) parts)"

definition is_valid_language :: "string \<Rightarrow> bool" where
  "is_valid_language l \<longleftrightarrow> l \<in> {''rust'', ''go'', ''python'', ''zig''}"

definition check_name :: "string \<Rightarrow> string \<Rightarrow> string \<Rightarrow> string \<Rightarrow> config_errors" where
  "check_name path key_path ctxt name =
     (if name = [] then [missing_field path key_path ctxt]
      else if \<not> is_valid_name name
      then [invalid_value path key_path name ''a string matching [a-zA-Z0-9_-]+''
              ''Use only alphanumeric characters, hyphens, and underscores.'']
      else [])"

definition check_version :: "string \<Rightarrow> string \<Rightarrow> string \<Rightarrow> config_errors" where
  "check_version path key_path version =
     (if version = [] then [missing_field path key_path ''torvyn'']
      else if \<not> is_valid_semver version
      then [invalid_value path key_path version
              (''a semver string (e.g., '' @ quoted ''0.1.0'' @ '')'')
              ''Use a valid semantic version.'']
      else [])"

definition check_component_decl :: "string \<Rightarrow> nat \<times> component_decl \<Rightarrow> config_errors" where
  "check_component_decl path ic =
     (let prefix = ''component['' @ decimal (fst ic) @ '']''; c = snd ic in
      check_name path (prefix @ ''.name'') prefix (cp_name c) @
      (if cp_path c = [] then [missing_field path (prefix @ ''.path'') prefix] else []) @
      (if \<not> is_valid_language (cp_language c)
       then [invalid_value path (prefix @ ''.language'') (cp_language c)
               ''one of: rust, go, python, zig'' ''Use a supported language identifier.'']
       else []))"

fun duplicate_names :: "string \<Rightarrow> string set \<Rightarrow> component_decl list \<Rightarrow> config_errors" where
  "duplicate_names path seen [] = []"
| "duplicate_names path seen (c # cs) =
     (if cp_name c = [] then duplicate_names path seen cs
      else if cp_name c \<in> seen
      then duplicate_key path (''component.name='' @ cp_name c) # duplicate_names path seen cs
      else duplicate_names path (insert (cp_name c) seen) cs)"

definition validate_required_fields :: "string \<Rightarrow> 'f config_manifest \<Rightarrow> config_errors" where
  "validate_required_fields path m =
     check_name path ''torvyn.name'' ''torvyn'' (pj_name (cm_torvyn m)) @
     check_version path ''torvyn.version'' (pj_version (cm_torvyn m)) @
     check_version path ''torvyn.contract_version'' (pj_contract_version (cm_torvyn m)) @
     concat (map (check_component_decl path) (enumerate 0 (cm_components m))) @
     duplicate_names path {} (cm_components m)"

definition is_workspace :: "'f config_manifest \<Rightarrow> bool" where
  "is_workspace m \<longleftrightarrow> cm_components m \<noteq> []"

definition has_flows :: "'f config_manifest \<Rightarrow> bool" where
  "has_flows m \<longleftrightarrow> cm_flow m \<noteq> []"

text \<open>A failure of the library: an unknown key is reported as such.\<close>

definition toml_failure :: "(string \<Rightarrow> string) \<Rightarrow> string \<Rightarrow> toml_error \<Rightarrow> config_errors" where
  "toml_failure trim_start path e = [opt_or (unknown_field trim_start path e) (toml_syntax path e)]"

definition manifest_from_toml_str ::
  "(string \<Rightarrow> string) \<Rightarrow> (string \<Rightarrow> toml_error + 'f config_manifest) \<Rightarrow> string \<Rightarrow> string \<Rightarrow>
   config_errors + 'f config_manifest" where
  "manifest_from_toml_str trim_start from_str toml_str path =
     (case from_str toml_str of
        Inl e \<Rightarrow> Inl (toml_failure trim_start path e)
      | Inr m \<Rightarrow>
          (case errors_into_result (validate_required_fields path m) of
             Inl errs \<Rightarrow> Inl errs | Inr _ \<Rightarrow> Inr m))"

section \<open>Lemmas\<close>

lemma errors_into_result_simps [simp]:
  "errors_into_result errs = Inr u \<longleftrightarrow> errs = []"
  "errors_into_result errs = Inl e \<longleftrightarrow> errs \<noteq> [] \<and> e = errs"
  by (auto simp: errors_into_result_def)

lemma case_result_Inr [simp]:
  "(case x of Inl e \<Rightarrow> Inl e | Inr y \<Rightarrow> f y) = Inr z \<longleftrightarrow> (\<exists>y. x = Inr y \<and> f y = Inr z)"
  by (cases x) auto

lemma if_result_Inr: "(if errs \<noteq> [] then Inl errs else Inr y) = Inr z \<longleftrightarrow> errs = [] \<and> y = z"
  by auto

definition decl_ok :: "component_decl \<Rightarrow> bool" where
  "decl_ok c \<longleftrightarrow> is_valid_name (cp_name c) \<and> cp_path c \<noteq> [] \<and> is_valid_language (cp_language c)"

definition project_ok :: "'f config_manifest \<Rightarrow> bool" where
  "project_ok m \<longleftrightarrow>
     is_valid_name (pj_name (cm_torvyn m)) \<and> is_valid_semver (pj_version (cm_torvyn m)) \<and>
     is_valid_semver (pj_contract_version (cm_torvyn m)) \<and> list_all decl_ok (cm_components m) \<and>
     distinct (map cp_name (cm_components m))"

lemma check_name_ok: "check_name path k c name = [] \<longleftrightarrow> is_valid_name name"
  by (auto simp: check_name_def is_valid_name_def)

lemma check_version_ok: "check_version path k v = [] \<longleftrightarrow> is_valid_semver v"
  by (auto simp: check_version_def is_valid_semver_def Let_def)

lemma duplicate_names_ok:
  "list_all (\<lambda>c. cp_name c \<noteq> []) cs \<Longrightarrow>
   duplicate_names path seen cs = [] \<longleftrightarrow>
   distinct (map cp_name cs) \<and> cp_name ` set cs \<inter> seen = {}"
  by (induction cs arbitrary: seen) auto

lemma required_fields_ok: "validate_required_fields path m = [] \<longleftrightarrow> project_ok m"
proof -
  have decls: "concat (map (check_component_decl path) (enumerate k cs)) = [] \<longleftrightarrow> list_all decl_ok cs" for k cs
    by (induction cs arbitrary: k)
       (auto simp: check_component_decl_def Let_def check_name_ok decl_ok_def)
  have "list_all decl_ok cs \<Longrightarrow> list_all (\<lambda>c. cp_name c \<noteq> []) cs" for cs
    by (auto simp: decl_ok_def is_valid_name_def list_all_iff)
  then show ?thesis
    by (auto simp: validate_required_fields_def check_name_ok check_version_ok decls project_ok_def
        duplicate_names_ok simp del: concat_eq_Nil_conv)
qed

lemma manifest_from_toml_ok:
  "manifest_from_toml_str ts from_str s path = Inr m \<longleftrightarrow> from_str s = Inr m \<and> project_ok m"
  by (auto simp: manifest_from_toml_str_def required_fields_ok split: sum.splits)

text \<open>A sign in front of a number counts as a version number.\<close>

lemma signed_version: "is_valid_semver ''+1.0.0''" "\<not> is_valid_semver ''1.0.0-rc.1''"
  by (simp_all add: is_valid_semver_def Let_def parse_u64_def is_digit_def digits_value_def)

end
