(* ===== verification/Cfg_Pipeline.thy ===== *)
theory Cfg_Pipeline
  imports Cfg_Manifest
begin

text \<open>
  Pipeline definitions of \<open>torvyn-config\<close> (\<open>pipeline.rs\<close>), the semantic validation (\<open>validate.rs\<close>) and
  the loading of a project (\<open>loader.rs\<close>). The file system and the TOML library are arguments.

  The lemmas: when each validation adds no error, and what a loaded project holds.
\<close>

section \<open>Pipeline definitions\<close>

record edge_endpoint =
  en_node :: string
  en_port :: string

record edge_def =
  ed_from :: edge_endpoint
  ed_to :: edge_endpoint
  ed_queue_depth :: "nat option"
  ed_backpressure :: "backpressure_config option"

record node_def =
  nd_component :: string
  nd_interface :: string
  nd_config :: "string option"
  nd_fuel_budget :: "u64 option"
  nd_max_memory :: "string option"
  nd_priority :: "u32 option"

record flow_def =
  fd_description :: string
  fd_nodes :: "(string \<times> node_def) list"
  fd_edges :: "edge_def list"
  fd_scheduling_policy :: "string option"
  fd_default_queue_depth :: "nat option"
  fd_backpressure :: "backpressure_config option"

record 'f pipeline_file =
  pf_flows :: "(string \<times> flow_def) list"
  pf_components :: "component_decl list"
  pf_runtime :: "runtime_config option"
  pf_observability :: "'f export_config_toml option"
  pf_security :: "security_config option"

section \<open>Validation of a flow\<close>

definition flow_node_errors :: "string \<Rightarrow> string \<Rightarrow> string \<times> node_def \<Rightarrow> config_errors" where
  "flow_node_errors path prefix nd =
     (let node = prefix @ ''.nodes.'' @ fst nd; n = snd nd in
      (if nd_component n = [] then [missing_field path (node @ ''.component'') node] else []) @
      (if nd_interface n = [] then [missing_field path (node @ ''.interface'') node] else []) @
      (case nd_priority n of None \<Rightarrow> []
       | Some priority \<Rightarrow>
           if \<not> (1 \<le> priority \<and> priority \<le> 10)
           then [invalid_value path (node @ ''.priority'') (decimal (unat priority))
                   ''an integer between 1 and 10''
                   ''Set priority to a value from 1 (lowest) to 10 (highest).'']
           else []))"

definition missing_node :: "string \<Rightarrow> string \<Rightarrow> string \<Rightarrow> string \<Rightarrow> config_parse_error" where
  "missing_node path prefix key node =
     semantic_error path key (''Edge references non-existent node '' @ tick_quoted node)
       (''Ensure '' @ tick_quoted node @ '' is defined in ['' @ prefix @ ''.nodes].'')"

definition flow_edge_errors ::
  "string \<Rightarrow> string \<Rightarrow> (string \<times> node_def) list \<Rightarrow> nat \<times> edge_def \<Rightarrow> config_errors" where
  "flow_edge_errors path prefix nodes ie =
     (let edge = prefix @ ''.edges['' @ decimal (fst ie) @ '']''; e = snd ie;
          u = en_node (ed_from e); v = en_node (ed_to e) in
      (if map_of nodes u = None then [missing_node path prefix (edge @ ''.from.node'') u] else []) @
      (if map_of nodes v = None then [missing_node path prefix (edge @ ''.to.node'') v] else []) @
      (if u = v
       then [semantic_error path edge (''Self-loop: edge from '' @ tick_quoted u @ '' to itself'')
               ''Remove the self-loop or use different nodes.'']
       else []) @
      (if ed_queue_depth e = Some 0
       then [invalid_value path (edge @ ''.queue_depth'') ''0'' ''a positive integer''
               ''Queue depth must be at least 1.'']
       else []))"

definition validate_flow :: "string \<Rightarrow> string \<times> flow_def \<Rightarrow> config_errors" where
  "validate_flow path nf =
     (let name = fst nf; f = snd nf; prefix = ''flow.'' @ name in
      (if length (fd_nodes f) < 2
       then [semantic_error path prefix
               (''Flow '' @ tick_quoted name @ '' has '' @ decimal (length (fd_nodes f)) @
                '' node(s), but at least 2 are required (a source and a sink)'')
               ''Add at least a source and a sink node.'']
       else []) @
      (if fd_edges f = []
       then [semantic_error path (prefix @ ''.edges'') (''Flow '' @ tick_quoted name @ '' has no edges'')
               ''Add at least one edge connecting a source to a sink.'']
       else []) @
      concat (map (flow_node_errors path prefix) (fd_nodes f)) @
      concat (map (flow_edge_errors path prefix (fd_nodes f)) (enumerate 0 (fd_edges f))))"

definition pipeline_file_validate :: "string \<Rightarrow> 'f pipeline_file \<Rightarrow> config_errors" where
  "pipeline_file_validate path p =
     (if pf_flows p = [] then [missing_field path ''flow'' ''pipeline definition'']
      else concat (map (validate_flow path) (pf_flows p)))"

definition pipeline_from_toml_str ::
  "(string \<Rightarrow> string) \<Rightarrow> (string \<Rightarrow> toml_error + 'f pipeline_file) \<Rightarrow> string \<Rightarrow> string \<Rightarrow>
   config_errors + 'f pipeline_file" where
  "pipeline_from_toml_str trim_start from_str toml_str path =
     (case from_str toml_str of
        Inl e \<Rightarrow> Inl (toml_failure trim_start path e)
      | Inr p \<Rightarrow>
          (case errors_into_result (pipeline_file_validate path p) of
             Inl errs \<Rightarrow> Inl errs | Inr _ \<Rightarrow> Inr p))"

fun collect_flows ::
  "(toml_value \<Rightarrow> string + flow_def) \<Rightarrow> string \<Rightarrow> (string \<times> toml_value) list \<Rightarrow>
   (string \<times> flow_def) list \<Rightarrow> config_errors \<Rightarrow> (string \<times> flow_def) list \<times> config_errors" where
  "collect_flows try_into path [] flows errs = (flows, errs)"
| "collect_flows try_into path ((name, v) # m) flows errs =
     (case try_into v of
        Inr f \<Rightarrow> collect_flows try_into path m (btree_insert name f flows) (errs @ validate_flow path (name, f))
      | Inl e \<Rightarrow> collect_flows try_into path m flows
          (errs @ [invalid_value path (''flow.'' @ name) e ''a valid flow definition''
            ''Check the flow table structure: [flow.<name>.nodes.*] and [[flow.<name>.edges]].'']))"

definition from_manifest_flows ::
  "(toml_value \<Rightarrow> string + flow_def) \<Rightarrow> (string \<times> toml_value) list \<Rightarrow> string \<Rightarrow>
   config_errors + (string \<times> flow_def) list" where
  "from_manifest_flows try_into flow_map path =
     (let (flows, errs) = collect_flows try_into path flow_map [] [] in
      case errors_into_result errs of Inl errs \<Rightarrow> Inl errs | Inr _ \<Rightarrow> Inr flows)"

section \<open>Semantic validation\<close>

definition valid_scheduling_policies :: "string list" where
  "valid_scheduling_policies = [''round-robin'', ''weighted-fair'', ''priority'']"

definition valid_backpressure_policies :: "string list" where
  "valid_backpressure_policies = [''block-producer'', ''drop-oldest'', ''drop-newest'', ''error'']"

definition valid_tracing_exporters :: "string list" where
  "valid_tracing_exporters = [''otlp-grpc'', ''otlp-http'', ''stdout'', ''none'']"

definition valid_metrics_exporters :: "string list" where
  "valid_metrics_exporters = [''prometheus'', ''otlp'', ''none'']"

definition valid_capability_policies :: "string list" where
  "valid_capability_policies = [''deny-all'', ''allow-all'']"

definition check_choice :: "string \<Rightarrow> string \<Rightarrow> string \<Rightarrow> string list \<Rightarrow> string \<Rightarrow> config_errors" where
  "check_choice path key found valid suggestion =
     (if found \<notin> set valid
      then [invalid_value path key found (''one of: '' @ join '', '' valid) suggestion] else [])"

definition memory_example :: "string \<Rightarrow> string" where
  "memory_example other =
     ''a valid memory size (e.g., '' @ quoted ''16MiB'' @ '', '' @ quoted other @ '')''"

definition validate_runtime_config ::
  "(string \<Rightarrow> string) \<Rightarrow> runtime_config \<Rightarrow> string \<Rightarrow> config_errors" where
  "validate_runtime_config trim c path =
     check_choice path ''runtime.scheduling.policy'' (sg_policy (rg_scheduling c))
       valid_scheduling_policies ''Use a supported scheduling policy.'' @
     (if sg_default_priority (rg_scheduling c) = 0 \<or> sg_default_priority (rg_scheduling c) > 10
      then [invalid_value path ''runtime.scheduling.default_priority''
              (decimal (unat (sg_default_priority (rg_scheduling c)))) ''an integer between 1 and 10''
              ''Set priority to a value from 1 (lowest) to 10 (highest).'']
      else []) @
     check_choice path ''runtime.backpressure.backpressure_policy'' (bg_policy (rg_backpressure c))
       valid_backpressure_policies ''Use a supported backpressure policy.'' @
     (if bg_default_queue_depth (rg_backpressure c) = 0
      then [invalid_value path ''runtime.backpressure.default_queue_depth'' ''0'' ''a positive integer''
              ''Queue depth must be at least 1.'']
      else []) @
     (case parse_memory_size trim (rg_max_memory_per_component c) of
        Inr _ \<Rightarrow> []
      | Inl reason \<Rightarrow> [invalid_value path ''runtime.max_memory_per_component''
          (rg_max_memory_per_component c) (memory_example ''64MiB'')
          (reason @ ''. Use B, KiB, MiB, or GiB suffixes.'')])"

definition validate_observability_config ::
  "'f rate_ops \<Rightarrow> 'f export_config_toml \<Rightarrow> string \<Rightarrow> config_errors" where
  "validate_observability_config ro c path =
     check_choice path ''observability.tracing_exporter'' (xg_tracing_exporter c)
       valid_tracing_exporters ''Use a supported tracing exporter.'' @
     (if \<not> ro_in_unit ro (xg_tracing_sample_rate c)
      then [invalid_value path ''observability.tracing_sample_rate''
              (ro_show ro (xg_tracing_sample_rate c)) ''a float between 0.0 and 1.0''
              ''Set sample rate to a value from 0.0 (none) to 1.0 (all).'']
      else []) @
     check_choice path ''observability.metrics_exporter'' (xg_metrics_exporter c)
       valid_metrics_exporters ''Use a supported metrics exporter.''"

definition validate_security_config :: "security_config \<Rightarrow> string \<Rightarrow> config_errors" where
  "validate_security_config c path =
     check_choice path ''security.default_capability_policy'' (yg_default_capability_policy c)
       valid_capability_policies
       (''Use '' @ tick_quoted ''deny-all'' @ '' (recommended) or '' @ tick_quoted ''allow-all'' @
        '' (development only).'')"

definition validate_manifest ::
  "(string \<Rightarrow> string) \<Rightarrow> 'f rate_ops \<Rightarrow> 'f config_manifest \<Rightarrow> string \<Rightarrow> config_errors" where
  "validate_manifest trim ro m path =
     validate_runtime_config trim (cm_runtime m) path @
     validate_observability_config ro (cm_observability m) path @
     validate_security_config (cm_security m) path"

definition opt_errors :: "('a \<Rightarrow> config_errors) \<Rightarrow> 'a option \<Rightarrow> config_errors" where
  "opt_errors check x = (case x of None \<Rightarrow> [] | Some y \<Rightarrow> check y)"

definition memory_limit_errors ::
  "(string \<Rightarrow> string) \<Rightarrow> string \<Rightarrow> string \<Rightarrow> string \<times> node_def \<Rightarrow> config_errors" where
  "memory_limit_errors trim path flow_name nd =
     opt_errors (\<lambda>raw. case parse_memory_size trim raw of
         Inr _ \<Rightarrow> []
       | Inl reason \<Rightarrow>
           [invalid_value path (''flow.'' @ flow_name @ ''.nodes.'' @ fst nd @ ''.max_memory'') raw
              (memory_example ''512KiB'') (reason @ ''. Use B, KiB, MiB, or GiB suffixes.'')])
       (nd_max_memory (snd nd))"

definition validate_pipeline_file ::
  "(string \<Rightarrow> string) \<Rightarrow> 'f rate_ops \<Rightarrow> 'f pipeline_file \<Rightarrow> string \<Rightarrow> config_errors" where
  "validate_pipeline_file trim ro p path =
     opt_errors (\<lambda>c. validate_runtime_config trim c path) (pf_runtime p) @
     opt_errors (\<lambda>c. validate_observability_config ro c path) (pf_observability p) @
     opt_errors (\<lambda>c. validate_security_config c path) (pf_security p) @
     concat (map (\<lambda>(name, flow). concat (map (memory_limit_errors trim path name) (fd_nodes flow)))
       (pf_flows p)) @
     concat (map (\<lambda>(name, flow). opt_errors (\<lambda>policy.
         check_choice path (''flow.'' @ name @ ''.scheduling_policy'') policy
           valid_scheduling_policies ''Use a supported scheduling policy.'')
       (fd_scheduling_policy flow)) (pf_flows p))"

section \<open>Loading\<close>

datatype file_read = FileText string | FileMissing | FileError string

definition read_file :: "(string \<Rightarrow> file_read) \<Rightarrow> string \<Rightarrow> config_errors + string" where
  "read_file read path =
     (case read path of
        FileText s \<Rightarrow> Inr s
      | FileMissing \<Rightarrow> Inl [file_not_found path]
      | FileError e \<Rightarrow> Inl [invalid_value path [] e ''a readable file''
          (''Check file permissions and path: '' @ path)])"

record 'f config_env =
  cv_trim :: "string \<Rightarrow> string"
  cv_trim_start :: "string \<Rightarrow> string"
  cv_rate :: "'f rate_ops"
  cv_read :: "string \<Rightarrow> file_read"
  cv_exists :: "string \<Rightarrow> bool"
  cv_beside :: "string \<Rightarrow> string \<Rightarrow> string"
  cv_manifest_from_str :: "string \<Rightarrow> toml_error + 'f config_manifest"
  cv_pipeline_from_str :: "string \<Rightarrow> toml_error + 'f pipeline_file"
  cv_flow_try_into :: "toml_value \<Rightarrow> string + flow_def"

record 'f resolved_config =
  rc_manifest :: "'f config_manifest"
  rc_flows :: "(string \<times> flow_def) list"
  rc_source_file :: string

definition load_manifest :: "'f config_env \<Rightarrow> string \<Rightarrow> config_errors + 'f config_manifest" where
  "load_manifest env path =
     (case read_file (cv_read env) path of
        Inl errs \<Rightarrow> Inl errs
      | Inr s \<Rightarrow>
          (case manifest_from_toml_str (cv_trim_start env) (cv_manifest_from_str env) s path of
             Inl errs \<Rightarrow> Inl errs
           | Inr m \<Rightarrow>
               (let errs = validate_manifest (cv_trim env) (cv_rate env) m path in
                if errs \<noteq> [] then Inl errs else Inr m)))"

definition load_pipeline :: "'f config_env \<Rightarrow> string \<Rightarrow> config_errors + 'f pipeline_file" where
  "load_pipeline env path =
     (case read_file (cv_read env) path of
        Inl errs \<Rightarrow> Inl errs
      | Inr s \<Rightarrow>
          (case pipeline_from_toml_str (cv_trim_start env) (cv_pipeline_from_str env) s path of
             Inl errs \<Rightarrow> Inl errs
           | Inr p \<Rightarrow>
               (let errs = validate_pipeline_file (cv_trim env) (cv_rate env) p path in
                if errs \<noteq> [] then Inl errs else Inr p)))"

text \<open>
  \<open>load_config\<close> repeats the steps of \<open>load_manifest\<close> and, when the file exists, of \<open>load_pipeline\<close>;
  the errors of the inline flows and of the pipeline file are collected.
\<close>

definition load_config :: "'f config_env \<Rightarrow> string \<Rightarrow> config_errors + 'f resolved_config" where
  "load_config env path =
     (case load_manifest env path of
        Inl errs \<Rightarrow> Inl errs
      | Inr m \<Rightarrow>
          (let (flows, errs) =
             (if has_flows m then
                (case from_manifest_flows (cv_flow_try_into env) (cm_flow m) path of
                   Inr flows \<Rightarrow> (flows, []) | Inl errs \<Rightarrow> ([], errs))
              else ([], []));
               pipeline_path = cv_beside env path ''pipeline.toml'';
               (flows, errs) =
             (if cv_exists env pipeline_path then
                (case load_pipeline env pipeline_path of
                   Inl errs2 \<Rightarrow> (flows, errs @ errs2)
                 | Inr p \<Rightarrow> (fold (\<lambda>(name, f). btree_insert name f) (pf_flows p) flows, errs))
              else (flows, errs))
           in (case errors_into_result errs of
                 Inl errs \<Rightarrow> Inl errs
               | Inr _ \<Rightarrow> Inr \<lparr>rc_manifest = m, rc_flows = flows, rc_source_file = path\<rparr>)))"

section \<open>Lemmas\<close>

definition flow_ok :: "flow_def \<Rightarrow> bool" where
  "flow_ok f \<longleftrightarrow>
     2 \<le> length (fd_nodes f) \<and> fd_edges f \<noteq> [] \<and>
     (\<forall>(_, n) \<in> set (fd_nodes f). nd_component n \<noteq> [] \<and> nd_interface n \<noteq> [] \<and>
        (\<forall>p. nd_priority n = Some p \<longrightarrow> 1 \<le> p \<and> p \<le> 10)) \<and>
     (\<forall>e \<in> set (fd_edges f).
        en_node (ed_from e) \<in> fst ` set (fd_nodes f) \<and> en_node (ed_to e) \<in> fst ` set (fd_nodes f) \<and>
        en_node (ed_from e) \<noteq> en_node (ed_to e) \<and> ed_queue_depth e \<noteq> Some 0)"

definition runtime_ok :: "(string \<Rightarrow> string) \<Rightarrow> runtime_config \<Rightarrow> bool" where
  "runtime_ok trim c \<longleftrightarrow>
     sg_policy (rg_scheduling c) \<in> set valid_scheduling_policies \<and>
     1 \<le> sg_default_priority (rg_scheduling c) \<and> sg_default_priority (rg_scheduling c) \<le> 10 \<and>
     bg_policy (rg_backpressure c) \<in> set valid_backpressure_policies \<and>
     0 < bg_default_queue_depth (rg_backpressure c) \<and>
     (\<exists>b. parse_memory_size trim (rg_max_memory_per_component c) = Inr b)"

definition observability_ok :: "'f rate_ops \<Rightarrow> 'f export_config_toml \<Rightarrow> bool" where
  "observability_ok ro c \<longleftrightarrow>
     xg_tracing_exporter c \<in> set valid_tracing_exporters \<and> ro_in_unit ro (xg_tracing_sample_rate c) \<and>
     xg_metrics_exporter c \<in> set valid_metrics_exporters"

definition security_ok :: "security_config \<Rightarrow> bool" where
  "security_ok c \<longleftrightarrow> yg_default_capability_policy c \<in> set valid_capability_policies"

definition limits_ok :: "(string \<Rightarrow> string) \<Rightarrow> flow_def \<Rightarrow> bool" where
  "limits_ok trim f \<longleftrightarrow>
     (\<forall>(_, n) \<in> set (fd_nodes f). \<forall>raw. nd_max_memory n = Some raw \<longrightarrow>
        (\<exists>b. parse_memory_size trim raw = Inr b)) \<and>
     (\<forall>p. fd_scheduling_policy f = Some p \<longrightarrow> p \<in> set valid_scheduling_policies)"

lemma check_choice_ok [simp]: "check_choice path key x valid s = [] \<longleftrightarrow> x \<in> set valid"
  by (simp add: check_choice_def)

lemma opt_errors_ok [simp]: "opt_errors check x = [] \<longleftrightarrow> (\<forall>y. x = Some y \<longrightarrow> check y = [])"
  by (auto simp: opt_errors_def split: option.splits)

lemma flow_node_errors_ok:
  "flow_node_errors path prefix (k, n) = [] \<longleftrightarrow>
   nd_component n \<noteq> [] \<and> nd_interface n \<noteq> [] \<and> (\<forall>p. nd_priority n = Some p \<longrightarrow> 1 \<le> p \<and> p \<le> 10)"
  by (auto simp: flow_node_errors_def Let_def split: option.splits)

lemma flow_edge_errors_ok:
  "flow_edge_errors path prefix nodes (i, e) = [] \<longleftrightarrow>
   en_node (ed_from e) \<in> fst ` set nodes \<and> en_node (ed_to e) \<in> fst ` set nodes \<and>
   en_node (ed_from e) \<noteq> en_node (ed_to e) \<and> ed_queue_depth e \<noteq> Some 0"
  by (auto simp: flow_edge_errors_def Let_def map_of_eq_None_iff)

lemma enumerate_all: "(\<forall>ix \<in> set (enumerate k xs). P (snd ix)) \<longleftrightarrow> (\<forall>x \<in> set xs. P x)"
  by (induction xs arbitrary: k) auto

lemma validate_flow_ok: "validate_flow path (name, f) = [] \<longleftrightarrow> flow_ok f"
proof -
  have nodes: "concat (map (flow_node_errors path prefix) (fd_nodes f)) = [] \<longleftrightarrow>
      (\<forall>(_, n) \<in> set (fd_nodes f). nd_component n \<noteq> [] \<and> nd_interface n \<noteq> [] \<and>
         (\<forall>p. nd_priority n = Some p \<longrightarrow> 1 \<le> p \<and> p \<le> 10))" for prefix
    by (force simp: flow_node_errors_ok)
  have edge: "flow_edge_errors path prefix (fd_nodes f) ie = [] \<longleftrightarrow>
      en_node (ed_from (snd ie)) \<in> fst ` set (fd_nodes f) \<and>
      en_node (ed_to (snd ie)) \<in> fst ` set (fd_nodes f) \<and>
      en_node (ed_from (snd ie)) \<noteq> en_node (ed_to (snd ie)) \<and> ed_queue_depth (snd ie) \<noteq> Some 0"
    for prefix ie
    using flow_edge_errors_ok [of path prefix "fd_nodes f" "fst ie" "snd ie"] by simp
  have edges: "concat (map (flow_edge_errors path prefix (fd_nodes f)) (enumerate 0 (fd_edges f))) = [] \<longleftrightarrow>
      (\<forall>e \<in> set (fd_edges f).
        en_node (ed_from e) \<in> fst ` set (fd_nodes f) \<and> en_node (ed_to e) \<in> fst ` set (fd_nodes f) \<and>
        en_node (ed_from e) \<noteq> en_node (ed_to e) \<and> ed_queue_depth e \<noteq> Some 0)" for prefix
    unfolding concat_eq_Nil_conv set_map ball_simps(9) edge
    by (rule enumerate_all)
  show ?thesis
    unfolding validate_flow_def Let_def fst_conv snd_conv append_is_Nil_conv nodes edges flow_ok_def
    by (simp add: not_less)
qed

lemma priority_range: "\<not> (p = 0 \<or> 10 < p) \<longleftrightarrow> 1 \<le> p \<and> p \<le> (10 :: u32)"
  by (auto simp: not_less word_le_nat_alt Suc_le_eq unat_gt_0)

lemma runtime_config_ok: "validate_runtime_config trim c path = [] \<longleftrightarrow> runtime_ok trim c"
  unfolding validate_runtime_config_def runtime_ok_def append_is_Nil_conv check_choice_ok
  using priority_range [of "sg_default_priority (rg_scheduling c)"]
  by (auto split: sum.splits)

lemma observability_config_ok: "validate_observability_config ro c path = [] \<longleftrightarrow> observability_ok ro c"
  by (auto simp: validate_observability_config_def observability_ok_def)

lemma security_config_ok: "validate_security_config c path = [] \<longleftrightarrow> security_ok c"
  by (simp add: validate_security_config_def security_ok_def)

lemma validate_manifest_ok:
  "validate_manifest trim ro m path = [] \<longleftrightarrow>
   runtime_ok trim (cm_runtime m) \<and> observability_ok ro (cm_observability m) \<and> security_ok (cm_security m)"
  by (simp add: validate_manifest_def runtime_config_ok observability_config_ok security_config_ok)

definition overrides_ok :: "(string \<Rightarrow> string) \<Rightarrow> 'f rate_ops \<Rightarrow> 'f pipeline_file \<Rightarrow> bool" where
  "overrides_ok trim ro p \<longleftrightarrow>
     (\<forall>c. pf_runtime p = Some c \<longrightarrow> runtime_ok trim c) \<and>
     (\<forall>c. pf_observability p = Some c \<longrightarrow> observability_ok ro c) \<and>
     (\<forall>c. pf_security p = Some c \<longrightarrow> security_ok c)"

lemma memory_limit_errors_ok:
  "memory_limit_errors trim path name (k, n) = [] \<longleftrightarrow>
   (\<forall>raw. nd_max_memory n = Some raw \<longrightarrow> (\<exists>b. parse_memory_size trim raw = Inr b))"
proof -
  have "(case parse_memory_size trim raw of Inr _ \<Rightarrow> [] | Inl r \<Rightarrow> [invalid r]) = [] \<longleftrightarrow>
      (\<exists>b. parse_memory_size trim raw = Inr b)" for raw and invalid :: "string \<Rightarrow> config_parse_error"
    by (cases "parse_memory_size trim raw") auto
  then show ?thesis by (simp add: memory_limit_errors_def)
qed

lemma validate_pipeline_file_ok:
  "validate_pipeline_file trim ro p path = [] \<longleftrightarrow>
   overrides_ok trim ro p \<and> (\<forall>(_, f) \<in> set (pf_flows p). limits_ok trim f)"
proof -
  have limits: "concat (map (memory_limit_errors trim path name) (fd_nodes f)) = [] \<longleftrightarrow>
      (\<forall>(_, n) \<in> set (fd_nodes f). \<forall>raw. nd_max_memory n = Some raw \<longrightarrow>
         (\<exists>b. parse_memory_size trim raw = Inr b))" for name f
    by (force simp: memory_limit_errors_ok)
  show ?thesis
    unfolding validate_pipeline_file_def append_is_Nil_conv opt_errors_ok runtime_config_ok
      observability_config_ok security_config_ok overrides_ok_def limits_ok_def
      concat_eq_Nil_conv [of "map (\<lambda>(name, flow). _ name flow) _"] set_map ball_simps(9) split_beta limits
      check_choice_ok
    by (auto simp del: concat_eq_Nil_conv)
qed

lemma pipeline_from_toml_ok:
  "pipeline_from_toml_str ts from_str s path = Inr p \<longleftrightarrow>
   from_str s = Inr p \<and> pf_flows p \<noteq> [] \<and> (\<forall>(_, f) \<in> set (pf_flows p). flow_ok f)"
proof -
  have "pipeline_file_validate path q = [] \<longleftrightarrow> pf_flows q \<noteq> [] \<and> (\<forall>(_, f) \<in> set (pf_flows q). flow_ok f)"
    for q :: "'a pipeline_file"
    by (force simp: pipeline_file_validate_def validate_flow_ok)
  then show ?thesis by (auto simp: pipeline_from_toml_str_def split: sum.splits)
qed

lemma read_file_ok [simp]: "read_file read path = Inr s \<longleftrightarrow> read path = FileText s"
  by (auto simp: read_file_def split: file_read.splits)

lemma load_manifest_ok:
  "load_manifest env path = Inr m \<longleftrightarrow>
   (\<exists>s. cv_read env path = FileText s \<and> cv_manifest_from_str env s = Inr m) \<and> project_ok m \<and>
   runtime_ok (cv_trim env) (cm_runtime m) \<and> observability_ok (cv_rate env) (cm_observability m) \<and>
   security_ok (cm_security m)"
  unfolding load_manifest_def Let_def case_result_Inr
  by (auto simp: manifest_from_toml_ok validate_manifest_ok split: if_splits)

lemma load_pipeline_ok:
  "load_pipeline env path = Inr p \<longleftrightarrow>
   (\<exists>s. cv_read env path = FileText s \<and> cv_pipeline_from_str env s = Inr p) \<and> pf_flows p \<noteq> [] \<and>
   (\<forall>(_, f) \<in> set (pf_flows p). flow_ok f \<and> limits_ok (cv_trim env) f) \<and>
   overrides_ok (cv_trim env) (cv_rate env) p"
proof -
  have flows: "(\<forall>(_, f) \<in> set (pf_flows p). flow_ok f \<and> limits_ok (cv_trim env) f) \<longleftrightarrow>
      (\<forall>(_, f) \<in> set (pf_flows p). flow_ok f) \<and> (\<forall>(_, f) \<in> set (pf_flows p). limits_ok (cv_trim env) f)"
    by auto
  show ?thesis
    unfolding load_pipeline_def Let_def case_result_Inr if_result_Inr
    unfolding read_file_ok pipeline_from_toml_ok validate_pipeline_file_ok flows
    by blast
qed

lemma collect_flows_errors:
  "snd (collect_flows ti path m flows errs) = [] \<longleftrightarrow>
   errs = [] \<and> (\<forall>(_, v) \<in> set m. \<exists>f. ti v = Inr f \<and> flow_ok f)"
  by (induction ti path m flows errs rule: collect_flows.induct)
     (auto simp: validate_flow_ok split: sum.splits)

lemma collect_flows_flows:
  "\<forall>(_, v) \<in> set m. \<exists>f. ti v = Inr f \<Longrightarrow>
   fst (collect_flows ti path m flows errs) = fold (\<lambda>(name, v). btree_insert name (projr (ti v))) m flows"
  by (induction ti path m flows errs rule: collect_flows.induct) (auto split: sum.splits)

lemma from_manifest_flows_ok:
  "from_manifest_flows ti m path = Inr flows \<longleftrightarrow>
   (\<forall>(_, v) \<in> set m. \<exists>f. ti v = Inr f \<and> flow_ok f) \<and>
   flows = fold (\<lambda>(name, v). btree_insert name (projr (ti v))) m []"
proof -
  have "from_manifest_flows ti m path = Inr flows \<longleftrightarrow>
      snd (collect_flows ti path m [] []) = [] \<and> flows = fst (collect_flows ti path m [] [])"
    by (auto simp: from_manifest_flows_def split_beta)
  moreover have "fst (collect_flows ti path m [] []) = fold (\<lambda>(name, v). btree_insert name (projr (ti v))) m []"
    if "\<forall>(_, v) \<in> set m. \<exists>f. ti v = Inr f \<and> flow_ok f"
    by (rule collect_flows_flows) (use that in auto)
  ultimately show ?thesis by (auto simp: collect_flows_errors)
qed

text \<open>A project that loads, from the parts up.\<close>

lemma load_config_ok:
  "load_config env path = Inr c \<longleftrightarrow>
   (\<exists>s. cv_read env path = FileText s \<and> cv_manifest_from_str env s = Inr (rc_manifest c)) \<and>
   project_ok (rc_manifest c) \<and> runtime_ok (cv_trim env) (cm_runtime (rc_manifest c)) \<and>
   observability_ok (cv_rate env) (cm_observability (rc_manifest c)) \<and>
   security_ok (cm_security (rc_manifest c)) \<and>
   (\<forall>(_, v) \<in> set (cm_flow (rc_manifest c)). \<exists>f. cv_flow_try_into env v = Inr f \<and> flow_ok f) \<and>
   rc_source_file c = path \<and>
   (\<exists>inline. inline = fold (\<lambda>(name, v). btree_insert name (projr (cv_flow_try_into env v)))
        (cm_flow (rc_manifest c)) [] \<and>
      (if cv_exists env (cv_beside env path ''pipeline.toml'') then
         (\<exists>s p. cv_read env (cv_beside env path ''pipeline.toml'') = FileText s \<and>
            cv_pipeline_from_str env s = Inr p \<and> pf_flows p \<noteq> [] \<and>
            (\<forall>(_, f) \<in> set (pf_flows p). flow_ok f \<and> limits_ok (cv_trim env) f) \<and>
            overrides_ok (cv_trim env) (cv_rate env) p \<and>
            rc_flows c = fold (\<lambda>(name, f). btree_insert name f) (pf_flows p) inline)
       else rc_flows c = inline))"
proof -
  define beside where "beside = cv_beside env path ''pipeline.toml''"
  define flows_of where "flows_of m = fold (\<lambda>(name, v). btree_insert name (projr (cv_flow_try_into env v)))
      (cm_flow m) []" for m :: "'a config_manifest"
  define inline_of where "inline_of m = (if has_flows m then
      (case from_manifest_flows (cv_flow_try_into env) (cm_flow m) path of
         Inr flows \<Rightarrow> (flows, []) | Inl errs \<Rightarrow> ([], errs))
      else ([], []))" for m :: "'a config_manifest"
  have inline: "snd (inline_of m) = [] \<longleftrightarrow>
      (\<forall>(_, v) \<in> set (cm_flow m). \<exists>f. cv_flow_try_into env v = Inr f \<and> flow_ok f)" for m
  proof (cases "from_manifest_flows (cv_flow_try_into env) (cm_flow m) path")
    case (Inl errs)
    then have "errs \<noteq> []" by (auto simp: from_manifest_flows_def Let_def split_beta split: sum.splits)
    moreover have "\<not> (\<forall>(_, v) \<in> set (cm_flow m). \<exists>f. cv_flow_try_into env v = Inr f \<and> flow_ok f)"
      using Inl from_manifest_flows_ok [of "cv_flow_try_into env" "cm_flow m" path "flows_of m"]
      by (auto simp: flows_of_def)
    ultimately show ?thesis using Inl by (auto simp: inline_of_def has_flows_def)
  next
    case (Inr flows)
    then show ?thesis using from_manifest_flows_ok [of "cv_flow_try_into env" "cm_flow m" path flows]
      by (simp add: inline_of_def)
  qed
  have flows: "fst (inline_of m) = flows_of m" if "snd (inline_of m) = []" for m
    using that from_manifest_flows_ok [of "cv_flow_try_into env" "cm_flow m" path "flows_of m"] inline [of m]
    by (auto simp: inline_of_def flows_of_def has_flows_def)
  have step: "load_config env path = Inr c \<longleftrightarrow>
      load_manifest env path = Inr (rc_manifest c) \<and> rc_source_file c = path \<and>
      snd (inline_of (rc_manifest c)) = [] \<and>
      (if cv_exists env beside
       then \<exists>p. load_pipeline env beside = Inr p \<and>
         rc_flows c = fold (\<lambda>(name, f). btree_insert name f) (pf_flows p) (fst (inline_of (rc_manifest c)))
       else rc_flows c = fst (inline_of (rc_manifest c)))"
  proof (cases "load_manifest env path")
    case (Inr m)
    obtain fl errs where i: "inline_of m = (fl, errs)" by (cases "inline_of m")
    show ?thesis
    proof (cases "load_pipeline env beside")
      case (Inl more_errs)
      then have "more_errs \<noteq> []"
        by (auto simp: load_pipeline_def Let_def pipeline_from_toml_str_def read_file_def toml_failure_def
            split: sum.splits file_read.splits if_splits)
      with Inl Inr i show ?thesis
        by (cases c) (auto simp: load_config_def Let_def inline_of_def [symmetric] beside_def [symmetric])
    next
      case (Inr p)
      with \<open>load_manifest env path = Inr m\<close> i show ?thesis
        by (cases c) (auto simp: load_config_def Let_def inline_of_def [symmetric] beside_def [symmetric])
    qed
  qed (simp add: load_config_def)
  show ?thesis
    unfolding step load_manifest_ok load_pipeline_ok inline beside_def [symmetric] flows_of_def [symmetric]
    using flows [of "rc_manifest c"] inline [of "rc_manifest c"] by auto
qed

text \<open>Memory limits and the scheduling policy of a flow do not matter for its form.\<close>

definition with_limits :: "string option \<Rightarrow> string option \<Rightarrow> flow_def \<Rightarrow> flow_def" where
  "with_limits memory policy f =
     f\<lparr>fd_nodes := map (map_prod id (\<lambda>n. n\<lparr>nd_max_memory := memory\<rparr>)) (fd_nodes f), fd_scheduling_policy := policy\<rparr>"

lemma flow_ok_with_limits: "flow_ok (with_limits memory policy f) \<longleftrightarrow> flow_ok f"
  by (force simp: flow_ok_def with_limits_def image_iff)

end
