(* ===== verification/Pip_Convert.thy ===== *)
theory Pip_Convert
  imports Pip_Build Cfg_Pipeline
begin

text \<open>
  From a flow definition of the configuration to a pipeline: the resolution of component references
  (\<open>torvyn-pipeline/src/resolve.rs\<close>) and the conversion (\<open>convert.rs\<close>). Whether a file exists is the
  argument \<open>cx_is_file\<close>; paths are joined as on Unix, and addresses have 64 bits.

  The lemmas: a flow whose nodes can all be converted is given to the builder node by node and edge
  by edge.
\<close>

section \<open>Component references\<close>

definition build_dir :: string where
  "build_dir = ''.torvyn/build''"

definition artifact_file_name :: "string \<Rightarrow> string" where
  "artifact_file_name name = name @ ''.wasm''"

definition path_join :: "string \<Rightarrow> string \<Rightarrow> string" where
  "path_join a b =
     (if starts_with b ''/'' \<or> a = [] then b else if last a = CHR ''/'' then a @ b else a @ ''/'' @ b)"

definition artifact_path :: "string \<Rightarrow> string \<Rightarrow> string" where
  "artifact_path root name = path_join (path_join root build_dir) (artifact_file_name name)"

datatype resolve_error =
    UnknownComponent string "string list"
  | NotBuilt string string
  | UnsupportedScheme string

fun resolve_error_display :: "resolve_error \<Rightarrow> string" where
  "resolve_error_display (UnknownComponent requested declared) =
     ''no component named '' @ tick_quoted requested @ '' is declared in the manifest'' @
     (if declared = []
      then ''. Add a [[component]] entry with name = '' @ quoted requested @ '' and the path to '' @
        ''its source, or reference the component directly as '' @ quoted ''file://<path-to-.wasm>''
      else ''. Declared components: '' @ join '', '' declared)"
| "resolve_error_display (NotBuilt name expected) =
     ''component '' @ tick_quoted name @ '' has not been built '' @ em_dash @ '' no artifact at '' @
     expected @ ''. Run `torvyn build` first''"
| "resolve_error_display (UnsupportedScheme ref) =
     ''unsupported component reference scheme in '' @ tick_quoted ref @ ''. Supported schemes are '' @
     tick_quoted ''file://<path>'' @ '' and '' @ tick_quoted ''mock://<name>'' @
     ''; a bare name must match a [[component]] declaration''"

record component_index =
  ci_project_root :: string
  ci_declared :: "(string \<times> string) list"

definition component_index_new :: "string \<Rightarrow> component_decl list \<Rightarrow> component_index" where
  "component_index_new root decls =
     \<lparr>ci_project_root = root,
      ci_declared = fold (\<lambda>d. btree_insert (cp_name d) (cp_path d)) decls []\<rparr>"

definition component_index_empty :: component_index where
  "component_index_empty = \<lparr>ci_project_root = [], ci_declared = []\<rparr>"

definition declared_names :: "component_index \<Rightarrow> string list" where
  "declared_names idx = map fst (ci_declared idx)"

definition source_dir :: "component_index \<Rightarrow> string \<Rightarrow> string option" where
  "source_dir idx name = map_option (path_join (ci_project_root idx)) (map_of (ci_declared idx) name)"

definition index_resolve ::
  "(string \<Rightarrow> bool) \<Rightarrow> component_index \<Rightarrow> string \<Rightarrow> resolve_error + string" where
  "index_resolve is_file idx ref =
     (if starts_with ref ''file://'' \<or> starts_with ref ''mock://'' then Inr ref
      else if str_contains ref ''://'' then Inl (UnsupportedScheme ref)
      else if map_of (ci_declared idx) ref = None then Inl (UnknownComponent ref (declared_names idx))
      else
        (let artifact = artifact_path (ci_project_root idx) ref in
         if \<not> is_file artifact then Inl (NotBuilt ref artifact)
         else Inr (''file://'' @ artifact)))"

section \<open>Conversion\<close>

definition infer_role_from_interface :: "string \<Rightarrow> component_role option" where
  "infer_role_from_interface interface =
     (if str_contains interface ''/source'' then Some Source
      else if str_contains interface ''/processor'' then Some Processor
      else if str_contains interface ''/sink'' then Some Sink
      else if str_contains interface ''/filter'' then Some Filter
      else if str_contains interface ''/router'' then Some Router
      else None)"

definition node_def_to_config :: "(string \<Rightarrow> string) \<Rightarrow> node_def \<Rightarrow> string + node_config" where
  "node_def_to_config trim n =
     (case (case nd_max_memory n of
              None \<Rightarrow> Inr None
            | Some raw \<Rightarrow>
                (case parse_memory_size trim raw of
                   Inl reason \<Rightarrow> Inl (''max_memory: '' @ reason)
                 | Inr bytes \<Rightarrow> Inr (Some (unat bytes)))) of
        Inl reason \<Rightarrow> Inl reason
      | Inr memory_limit \<Rightarrow> Inr
          \<lparr>nc_fuel_budget = nd_fuel_budget n, nc_memory_limit = memory_limit, nc_timeout = None,
           nc_priority = map_option (\<lambda>p. ucast (min p 10)) (nd_priority n), nc_error_policy = None,
           nc_init_config = nd_config n, nc_wasi = wasi_deny_all\<rparr>)"

definition parse_edge_policy :: "string \<Rightarrow> backpressure_policy" where
  "parse_edge_policy s =
     (if s = ''drop-oldest'' then DropOldest else if s = ''drop-newest'' then DropNewest
      else if s = ''error'' then ErrorPolicyBp else BlockProducer)"

definition edge_def_to_config :: "edge_def \<Rightarrow> edge_config" where
  "edge_def_to_config e =
     \<lparr>ec_queue_depth = ed_queue_depth e,
      ec_backpressure_policy = map_option (\<lambda>bp. parse_edge_policy (bg_policy bp)) (ed_backpressure e)\<rparr>"

record convert_env =
  cx_trim :: "string \<Rightarrow> string"
  cx_ops :: text_ops
  cx_is_file :: "string \<Rightarrow> bool"

definition config_subsystem_error :: "string \<Rightarrow> string \<Rightarrow> string \<Rightarrow> pipeline_error list" where
  "config_subsystem_error flow node reason =
     [Subsystem ''config'' (''flow '' @ tick_quoted flow @ '', node '' @ tick_quoted node @ '': '' @ reason)]"

definition convert_node ::
  "convert_env \<Rightarrow> string \<Rightarrow> security_config \<Rightarrow> component_index \<Rightarrow> string \<times> node_def \<Rightarrow>
   pipeline_error list + node_config \<times> string" where
  "convert_node env flow sec idx kn =
     (case node_def_to_config (cx_trim env) (snd kn) of
        Inl reason \<Rightarrow> Inl (config_subsystem_error flow (fst kn) reason)
      | Inr config \<Rightarrow>
          (case (case map_of (yg_grants sec) (fst kn) of
                   None \<Rightarrow> Inr config
                 | Some capabilities \<Rightarrow>
                     (case wasi_from_grant_strings (cx_ops env) capabilities of
                        Inl e \<Rightarrow> Inl [SandboxConfigFailed flow (fst kn) (capability_parse_error_display e)]
                      | Inr wasi \<Rightarrow> Inr (config\<lparr>nc_wasi := wasi\<rparr>))) of
             Inl errs \<Rightarrow> Inl errs
           | Inr config \<Rightarrow>
               (case index_resolve (cx_is_file env) idx (nd_component (snd kn)) of
                  Inl e \<Rightarrow> Inl (config_subsystem_error flow (fst kn) (resolve_error_display e))
                | Inr ref \<Rightarrow> Inr (config, ref))))"

fun convert_nodes ::
  "convert_env \<Rightarrow> string \<Rightarrow> security_config \<Rightarrow> component_index \<Rightarrow> (string \<times> node_def) list \<Rightarrow> builder \<Rightarrow>
   pipeline_error list + builder" where
  "convert_nodes env flow sec idx [] b = Inr b"
| "convert_nodes env flow sec idx (kn # ns) b =
     (case convert_node env flow sec idx kn of
        Inl errs \<Rightarrow> Inl errs
      | Inr (config, ref) \<Rightarrow>
          convert_nodes env flow sec idx ns
            (add_node_with_interface (fst kn)
              (opt_or (infer_role_from_interface (nd_interface (snd kn))) Processor) ref
              (nd_interface (snd kn)) config b))"

definition add_edge_def :: "edge_def \<Rightarrow> builder \<Rightarrow> builder" where
  "add_edge_def e = add_edge_with_config (en_node (ed_from e)) (en_port (ed_from e)) (en_node (ed_to e))
     (en_port (ed_to e)) (edge_def_to_config e)"

definition flow_def_to_topology ::
  "convert_env \<Rightarrow> port_walk \<Rightarrow> string \<Rightarrow> flow_def \<Rightarrow> security_config \<Rightarrow> component_index \<Rightarrow>
   (pipeline_error list + pipeline) option" where
  "flow_def_to_topology env walk flow f sec idx =
     (case convert_nodes env flow sec idx (fd_nodes f)
             (builder_description (fd_description f) (builder_new flow)) of
        Inl errs \<Rightarrow> Some (Inl errs)
      | Inr b \<Rightarrow> build walk (fold add_edge_def (fd_edges f) b))"

section \<open>Lemmas\<close>

definition convertible :: "convert_env \<Rightarrow> security_config \<Rightarrow> component_index \<Rightarrow> string \<times> node_def \<Rightarrow> bool" where
  "convertible env sec idx kn \<longleftrightarrow>
     (\<forall>raw. nd_max_memory (snd kn) = Some raw \<longrightarrow> (\<exists>b. parse_memory_size (cx_trim env) raw = Inr b)) \<and>
     (\<forall>granted. map_of (yg_grants sec) (fst kn) = Some granted \<longrightarrow>
        (\<exists>w. wasi_from_grant_strings (cx_ops env) granted = Inr w)) \<and>
     (\<exists>ref. index_resolve (cx_is_file env) idx (nd_component (snd kn)) = Inr ref)"

text \<open>The node of the pipeline that a node of the configuration stands for.\<close>

definition converted_node ::
  "convert_env \<Rightarrow> security_config \<Rightarrow> component_index \<Rightarrow> string \<times> node_def \<Rightarrow> pipeline_node" where
  "converted_node env sec idx kn =
     \<lparr>pn_name = fst kn,
      pn_component_ref = projr (index_resolve (cx_is_file env) idx (nd_component (snd kn))),
      pn_interface = nd_interface (snd kn),
      pn_role = opt_or (infer_role_from_interface (nd_interface (snd kn))) Processor,
      pn_config =
        \<lparr>nc_fuel_budget = nd_fuel_budget (snd kn),
         nc_memory_limit = map_option (\<lambda>raw. unat (projr (parse_memory_size (cx_trim env) raw)))
           (nd_max_memory (snd kn)),
         nc_timeout = None, nc_priority = map_option (\<lambda>p. ucast (min p 10)) (nd_priority (snd kn)),
         nc_error_policy = None, nc_init_config = nd_config (snd kn),
         nc_wasi = (case map_of (yg_grants sec) (fst kn) of None \<Rightarrow> wasi_deny_all
            | Some granted \<Rightarrow> projr (wasi_from_grant_strings (cx_ops env) granted))\<rparr>\<rparr>"

definition pending_of :: "edge_def \<Rightarrow> pending_edge" where
  "pending_of e =
     \<lparr>pd_from_node = en_node (ed_from e), pd_from_port = en_port (ed_from e),
      pd_to_node = en_node (ed_to e), pd_to_port = en_port (ed_to e), pd_config = edge_def_to_config e\<rparr>"

lemma node_config_exact:
  "node_def_to_config trim n = Inr c \<longleftrightarrow>
   (\<forall>raw. nd_max_memory n = Some raw \<longrightarrow> (\<exists>b. parse_memory_size trim raw = Inr b)) \<and>
   c = \<lparr>nc_fuel_budget = nd_fuel_budget n,
        nc_memory_limit = map_option (\<lambda>raw. unat (projr (parse_memory_size trim raw))) (nd_max_memory n),
        nc_timeout = None, nc_priority = map_option (\<lambda>p. ucast (min p 10)) (nd_priority n),
        nc_error_policy = None, nc_init_config = nd_config n, nc_wasi = wasi_deny_all\<rparr>"
  by (cases "nd_max_memory n"; cases "parse_memory_size trim (the (nd_max_memory n))")
     (auto simp: node_def_to_config_def)

lemma convert_node_exact:
  "convert_node env flow sec idx kn = Inr (c, ref) \<longleftrightarrow>
   convertible env sec idx kn \<and> c = pn_config (converted_node env sec idx kn) \<and>
   ref = pn_component_ref (converted_node env sec idx kn)"
proof (cases "\<forall>raw. nd_max_memory (snd kn) = Some raw \<longrightarrow> (\<exists>b. parse_memory_size (cx_trim env) raw = Inr b)")
  case True
  define base where "base =
    \<lparr>nc_fuel_budget = nd_fuel_budget (snd kn),
     nc_memory_limit = map_option (\<lambda>raw. unat (projr (parse_memory_size (cx_trim env) raw)))
       (nd_max_memory (snd kn)),
     nc_timeout = None, nc_priority = map_option (\<lambda>p. ucast (min p 10)) (nd_priority (snd kn)),
     nc_error_policy = None, nc_init_config = nd_config (snd kn), nc_wasi = wasi_deny_all\<rparr>"
  have cfg: "node_def_to_config (cx_trim env) (snd kn) = Inr base"
    using True by (simp add: node_config_exact base_def)
  have conv: "convertible env sec idx kn \<longleftrightarrow>
     (\<forall>granted. map_of (yg_grants sec) (fst kn) = Some granted \<longrightarrow>
        (\<exists>w. wasi_from_grant_strings (cx_ops env) granted = Inr w)) \<and>
     (\<exists>ref. index_resolve (cx_is_file env) idx (nd_component (snd kn)) = Inr ref)"
    using True by (simp add: convertible_def)
  have node: "pn_config (converted_node env sec idx kn) =
      base\<lparr>nc_wasi := (case map_of (yg_grants sec) (fst kn) of None \<Rightarrow> wasi_deny_all
        | Some granted \<Rightarrow> projr (wasi_from_grant_strings (cx_ops env) granted))\<rparr>"
    "pn_component_ref (converted_node env sec idx kn) =
      projr (index_resolve (cx_is_file env) idx (nd_component (snd kn)))"
    by (simp_all add: converted_node_def base_def)
  have deny: "base\<lparr>nc_wasi := wasi_deny_all\<rparr> = base" by (simp add: base_def)
  show ?thesis
  proof (cases "map_of (yg_grants sec) (fst kn)")
    case None
    then show ?thesis
      by (cases "index_resolve (cx_is_file env) idx (nd_component (snd kn))")
         (auto simp: convert_node_def cfg conv node deny)
  next
    case (Some granted)
    then show ?thesis
      by (cases "wasi_from_grant_strings (cx_ops env) granted";
          cases "index_resolve (cx_is_file env) idx (nd_component (snd kn))")
         (auto simp: convert_node_def cfg conv node)
  qed
next
  case False
  then obtain reason where "node_def_to_config (cx_trim env) (snd kn) = Inl reason"
    using node_config_exact [of "cx_trim env" "snd kn"]
    by (cases "node_def_to_config (cx_trim env) (snd kn)") auto
  moreover have "\<not> convertible env sec idx kn" using False by (auto simp: convertible_def)
  ultimately show ?thesis by (simp add: convert_node_def)
qed

lemma convert_nodes_exact:
  "convert_nodes env flow sec idx ns b = Inr b' \<longleftrightarrow>
   (\<forall>kn \<in> set ns. convertible env sec idx kn) \<and>
   b' = fold (\<lambda>n. add_node_with_interface (pn_name n) (pn_role n) (pn_component_ref n) (pn_interface n)
          (pn_config n)) (map (converted_node env sec idx) ns) b"
proof (induction ns arbitrary: b)
  case (Cons kn ns)
  have named: "pn_name (converted_node env sec idx kn) = fst kn"
    "pn_interface (converted_node env sec idx kn) = nd_interface (snd kn)"
    "pn_role (converted_node env sec idx kn) =
      opt_or (infer_role_from_interface (nd_interface (snd kn))) Processor"
    by (simp_all add: converted_node_def)
  show ?case
  proof (cases "convert_node env flow sec idx kn")
    case (Inl errs)
    with convert_node_exact [of env flow sec idx kn] have "\<not> convertible env sec idx kn" by auto
    with Inl show ?thesis by simp
  next
    case (Inr cr)
    obtain c ref where cr: "cr = (c, ref)" by (cases cr)
    with Inr convert_node_exact [of env flow sec idx kn c ref]
    have "convertible env sec idx kn" "c = pn_config (converted_node env sec idx kn)"
      "ref = pn_component_ref (converted_node env sec idx kn)" by auto
    with Inr cr show ?thesis by (simp add: Cons named)
  qed
qed auto

lemma add_nodes_fields:
  "let b' = fold (\<lambda>n. add_node_with_interface (pn_name n) (pn_role n) (pn_component_ref n) (pn_interface n)
      (pn_config n)) ns b
   in bl_nodes b' = bl_nodes b @ ns \<and> bl_edges b' = bl_edges b \<and> bl_name b' = bl_name b \<and>
      (built b \<longrightarrow> built b')"
proof (induction ns arbitrary: b)
  case (Cons n ns)
  let ?b = "add_node_with_interface (pn_name n) (pn_role n) (pn_component_ref n) (pn_interface n) (pn_config n) b"
  have "built b \<Longrightarrow> built ?b" by (rule built.intros)
  moreover have "bl_nodes ?b = bl_nodes b @ [n]" "bl_edges ?b = bl_edges b" "bl_name ?b = bl_name b"
    by (simp_all add: add_node_with_interface_def Let_def)
  ultimately show ?case using Cons [of ?b] by (simp add: Let_def)
qed (simp add: Let_def)

lemma add_edges_fields:
  "let b' = fold add_edge_def es b
   in bl_nodes b' = bl_nodes b \<and> bl_edges b' = bl_edges b @ map pending_of es \<and> bl_name b' = bl_name b \<and>
      (built b \<longrightarrow> built b')"
proof (induction es arbitrary: b)
  case (Cons e es)
  have "built b \<Longrightarrow> built (add_edge_def e b)" by (simp add: add_edge_def_def built.intros)
  moreover have "bl_nodes (add_edge_def e b) = bl_nodes b"
    "bl_edges (add_edge_def e b) = bl_edges b @ [pending_of e]" "bl_name (add_edge_def e b) = bl_name b"
    by (simp_all add: add_edge_def_def add_edge_with_config_def pending_of_def)
  ultimately show ?case using Cons [of "add_edge_def e b"] by (simp add: Let_def)
qed (simp add: Let_def)

text \<open>The builder of a flow.\<close>

definition flow_builder :: "convert_env \<Rightarrow> string \<Rightarrow> flow_def \<Rightarrow> security_config \<Rightarrow> component_index \<Rightarrow> builder" where
  "flow_builder env flow f sec idx =
     fold add_edge_def (fd_edges f)
       (fold (\<lambda>n. add_node_with_interface (pn_name n) (pn_role n) (pn_component_ref n) (pn_interface n)
            (pn_config n)) (map (converted_node env sec idx) (fd_nodes f))
         (builder_description (fd_description f) (builder_new flow)))"

lemma flow_builder_fields:
  "bl_nodes (flow_builder env flow f sec idx) = map (converted_node env sec idx) (fd_nodes f)"
  "bl_edges (flow_builder env flow f sec idx) = map pending_of (fd_edges f)"
  "built (flow_builder env flow f sec idx)" "bl_name (flow_builder env flow f sec idx) = flow"
proof -
  let ?b0 = "builder_description (fd_description f) (builder_new flow)"
  let ?ns = "map (converted_node env sec idx) (fd_nodes f)"
  have "built ?b0" by (intro built.intros)
  moreover have "bl_nodes ?b0 = []" "bl_edges ?b0 = []" "bl_name ?b0 = flow"
    by (simp_all add: builder_description_def builder_new_def)
  ultimately show "bl_nodes (flow_builder env flow f sec idx) = ?ns"
    "bl_edges (flow_builder env flow f sec idx) = map pending_of (fd_edges f)"
    "built (flow_builder env flow f sec idx)" "bl_name (flow_builder env flow f sec idx) = flow"
    using add_nodes_fields [of ?ns ?b0] add_edges_fields [of "fd_edges f"]
    by (simp_all add: flow_builder_def Let_def)
qed

lemma conversion_cases:
  "flow_def_to_topology env walk flow f sec idx =
   (if \<forall>kn \<in> set (fd_nodes f). convertible env sec idx kn
    then build walk (flow_builder env flow f sec idx)
    else Some (Inl (projl (convert_nodes env flow sec idx (fd_nodes f)
      (builder_description (fd_description f) (builder_new flow))))))"
proof (cases "\<forall>kn \<in> set (fd_nodes f). convertible env sec idx kn")
  case True
  then have conv: "convert_nodes env flow sec idx (fd_nodes f)
      (builder_description (fd_description f) (builder_new flow)) =
    Inr (fold (\<lambda>n. add_node_with_interface (pn_name n) (pn_role n) (pn_component_ref n) (pn_interface n)
        (pn_config n)) (map (converted_node env sec idx) (fd_nodes f))
      (builder_description (fd_description f) (builder_new flow)))"
    unfolding convert_nodes_exact by (intro conjI refl)
  show ?thesis
    unfolding if_P [OF True] flow_def_to_topology_def conv sum.case flow_builder_def by (rule refl)
next
  case False
  then obtain errs where "convert_nodes env flow sec idx (fd_nodes f)
      (builder_description (fd_description f) (builder_new flow)) = Inl errs"
    using convert_nodes_exact [of env flow sec idx "fd_nodes f"
      "builder_description (fd_description f) (builder_new flow)"]
    by (cases "convert_nodes env flow sec idx (fd_nodes f)
      (builder_description (fd_description f) (builder_new flow))") auto
  with False show ?thesis by (auto simp: flow_def_to_topology_def)
qed

lemma flow_builder_ok:
  assumes "flow_ok f" and "distinct (map fst (fd_nodes f))"
  shows "builder_ok (flow_builder env flow f sec idx)"
proof -
  have names: "pn_name \<circ> converted_node env sec idx = fst"
    by (simp add: fun_eq_iff converted_node_def)
  have "pn_name ` set (map (converted_node env sec idx) ns) = fst ` set ns" for ns
    by (simp only: set_map image_comp names)
  then show ?thesis
    using assms by (auto simp: builder_ok_def flow_builder_fields flow_ok_def pending_of_def names)
qed

text \<open>The edges of the pipeline connect the nodes that the flow names.\<close>

definition named_edge :: "pipeline_node list \<Rightarrow> pipeline_edge \<Rightarrow> string \<times> string \<times> string \<times> string \<times> edge_config" where
  "named_edge nodes e =
     (pn_name (nodes ! pe_from_node e), pe_from_port e, pn_name (nodes ! pe_to_node e), pe_to_port e,
      pe_config e)"

lemma resolved_edges_named:
  assumes "built b" and "builder_ok b"
  shows "map (named_edge (bl_nodes b)) (resolved_edges b) =
    map (\<lambda>p. (pd_from_node p, pd_from_port p, pd_to_node p, pd_to_port p, pd_config p)) (bl_edges b)"
proof -
  have idx: "index_ok b" by (rule built_index [OF assms(1)])
  have name: "pn_name (bl_nodes b ! the (bl_node_index b k)) = k" if "k \<in> pn_name ` set (bl_nodes b)" for k
    using index_in [OF idx, of k] that idx unfolding index_ok_def by (metis option.exhaust_sel)
  show ?thesis
    using assms(2) by (auto simp: resolved_edges_def resolved_edge_def named_edge_def builder_ok_def name)
qed

end
