(* ===== verification/Cfg_Env.thy ===== *)
theory Cfg_Env
  imports Cfg_Runtime
begin

text \<open>
  Environment variables in the configuration (\<open>torvyn-config/src/env.rs\<close>): the interpolation of
  \<open>${NAME}\<close> and the overrides collected from variables of the form \<open>TORVYN_*\<close>. The environment is
  an argument.

  The lemmas: interpolating a text made of literals and references gives the values in their place.
\<close>

lemma split_once_shorter: "split_once c s = Some (a, b) \<Longrightarrow> length b < length s"
  by (induction c s arbitrary: a rule: split_once.induct) (auto split: if_splits)

function interpolate_env ::
  "(string \<Rightarrow> string option) \<Rightarrow> string \<Rightarrow> string \<Rightarrow> string \<Rightarrow> config_parse_error + string" where
  "interpolate_env env file key [] = Inr []"
| "interpolate_env env file key (c # cs) =
     (if c = CHR ''$'' \<and> cs \<noteq> [] \<and> hd cs = CHR ''{'' then
        (case split_once CHR ''}'' (tl cs) of
           None \<Rightarrow> Inr (''${'' @ tl cs)
         | Some (var_name, rest) \<Rightarrow>
             if var_name = [] then map_sum id (\<lambda>r. ''${}'' @ r) (interpolate_env env file key rest)
             else
               (case env var_name of
                  Some v \<Rightarrow> map_sum id (\<lambda>r. v @ r) (interpolate_env env file key rest)
                | None \<Rightarrow> Inl (env_var_not_found file key var_name)))
      else map_sum id (\<lambda>r. c # r) (interpolate_env env file key cs))"
  by pat_completeness auto
termination
  by (relation "measure (\<lambda>(_, _, _, s). length s)")
     (auto dest!: split_once_shorter simp: less_Suc_eq_le intro: le_trans [OF less_imp_le])

text \<open>\<open>replace("..", ".")\<close>, from left to right without overlaps.\<close>

fun collapse_dots :: "string \<Rightarrow> string" where
  "collapse_dots (c # d # cs) =
     (if c = CHR ''.'' \<and> d = CHR ''.'' then CHR ''.'' # collapse_dots cs
      else c # collapse_dots (d # cs))"
| "collapse_dots s = s"

definition env_key :: "string \<Rightarrow> string" where
  "env_key suffix =
     collapse_dots (map (\<lambda>c. if c = CHR ''_'' then CHR ''.'' else c) (to_ascii_lowercase suffix))"

definition collect_env_overrides :: "(string \<times> string) list \<Rightarrow> (string \<times> string) list" where
  "collect_env_overrides vars =
     fold (\<lambda>(key, v) m. case strip_prefix ''TORVYN_'' key of
         None \<Rightarrow> m | Some suffix \<Rightarrow> btree_insert (env_key suffix) v m) vars []"

section \<open>Lemmas\<close>

text \<open>A text as literals and references.\<close>

datatype segment = Literal string | Reference string

fun segment_text :: "segment \<Rightarrow> string" where
  "segment_text (Literal s) = s"
| "segment_text (Reference x) = ''${'' @ x @ ''}''"

fun segment_ok :: "segment \<Rightarrow> bool" where
  "segment_ok (Literal s) \<longleftrightarrow> CHR ''$'' \<notin> set s"
| "segment_ok (Reference x) \<longleftrightarrow> x \<noteq> [] \<and> CHR ''}'' \<notin> set x"

fun segment_value :: "(string \<Rightarrow> string option) \<Rightarrow> segment \<Rightarrow> string" where
  "segment_value env (Literal s) = s"
| "segment_value env (Reference x) = opt_or (env x) []"

definition unset_reference :: "(string \<Rightarrow> string option) \<Rightarrow> segment \<Rightarrow> bool" where
  "unset_reference env seg \<longleftrightarrow> (\<exists>x. seg = Reference x \<and> env x = None)"

lemma unset_reference_simps [simp]:
  "\<not> unset_reference env (Literal s)" "unset_reference env (Reference x) \<longleftrightarrow> env x = None"
  by (simp_all add: unset_reference_def)

lemma find_reference:
  "find (unset_reference env) segs = Some seg \<Longrightarrow> \<exists>x. seg = Reference x"
  by (induction segs) (auto simp: unset_reference_def split: if_splits)

lemma interpolate_literal:
  "CHR ''$'' \<notin> set s \<Longrightarrow>
   interpolate_env env src key (s @ t) = map_sum id (\<lambda>r. s @ r) (interpolate_env env src key t)"
proof (induction s)
  case Nil
  show ?case by (cases "interpolate_env env src key t") auto
next
  case (Cons c s)
  then have "c \<noteq> CHR ''$''" by auto
  with Cons show ?case by (cases "interpolate_env env src key t") auto
qed

lemma split_once_first: "c \<notin> set a \<Longrightarrow> split_once c (a @ c # b) = Some (a, b)"
  by (induction a) auto

lemma interpolate_reference:
  "x \<noteq> [] \<Longrightarrow> CHR ''}'' \<notin> set x \<Longrightarrow>
   interpolate_env env src key (''${'' @ x @ ''}'' @ t) =
     (case env x of
        Some v \<Rightarrow> map_sum id (\<lambda>r. v @ r) (interpolate_env env src key t)
      | None \<Rightarrow> Inl (env_var_not_found src key x))"
  by (simp add: split_once_first)

text \<open>
  The interpolation puts the values in the place of the references, and names the first variable
  that is not set.
\<close>

lemma interpolate_segments:
  assumes "list_all segment_ok segs"
  shows "interpolate_env env src key (concat (map segment_text segs)) =
    (case find (unset_reference env) segs of
       None \<Rightarrow> Inr (concat (map (segment_value env) segs))
     | Some (Reference x) \<Rightarrow> Inl (env_var_not_found src key x)
     | Some (Literal _) \<Rightarrow> Inr [])"
  using assms
proof (induction segs)
  case (Cons seg segs)
  show ?case
  proof (cases seg)
    case (Literal s)
    with Cons have "interpolate_env env src key (concat (map segment_text (seg # segs))) =
        map_sum id (\<lambda>r. s @ r) (interpolate_env env src key (concat (map segment_text segs)))"
      by (simp add: interpolate_literal)
    with Cons Literal show ?thesis
      by (auto split: option.splits segment.splits dest: find_reference)
  next
    case (Reference x)
    with Cons.prems have "interpolate_env env src key (concat (map segment_text (seg # segs))) =
        (case env x of
           Some v \<Rightarrow> map_sum id (\<lambda>r. v @ r)
             (interpolate_env env src key (concat (map segment_text segs)))
         | None \<Rightarrow> Inl (env_var_not_found src key x))"
      using interpolate_reference [of x env src key "concat (map segment_text segs)"] by simp
    with Cons Reference show ?thesis
      by (cases "env x") (auto simp: opt_or_def split: option.splits segment.splits dest: find_reference)
  qed
qed simp

lemma overrides_lookup:
  "map_of (collect_env_overrides vars) k =
   map_of (rev (map (\<lambda>(key, v). (env_key (drop (length ''TORVYN_'') key), v))
     (filter (\<lambda>(key, _). starts_with key ''TORVYN_'') vars))) k"
proof -
  have "map_of (fold (\<lambda>(key, v) m. case strip_prefix ''TORVYN_'' key of
         None \<Rightarrow> m | Some suffix \<Rightarrow> btree_insert (env_key suffix) v m) vars m) =
     map_of m ++ map_of (rev (map (\<lambda>(key, v). (env_key (drop (length ''TORVYN_'') key), v))
       (filter (\<lambda>(key, _). starts_with key ''TORVYN_'') vars)))" for m
    by (induction vars arbitrary: m)
       (auto simp: strip_prefix_def map_add_def fun_eq_iff split: option.splits)
  then show ?thesis by (simp add: collect_env_overrides_def)
qed

text \<open>A key with an underscore is no override's key: \<open>worker_threads\<close> becomes \<open>worker.threads\<close>.\<close>

lemma collapse_dots_set: "set (collapse_dots s) \<subseteq> set s"
  by (induction s rule: collapse_dots.induct) auto

lemma underscores_lost: "CHR ''_'' \<notin> set (env_key suffix)"
  using collapse_dots_set [of "map (\<lambda>c. if c = CHR ''_'' then CHR ''.'' else c) (to_ascii_lowercase suffix)"]
  by (auto simp: env_key_def split: if_splits)

end
