(* ===== verification/Cfg_Props.thy ===== *)
theory Cfg_Props
  imports Cfg_Env Cfg_Pipeline
begin

text \<open>
  The properties of \<open>torvyn-config\<close>: the suggestion for a mistyped key, the interpolation of
  environment variables, and what a loaded project satisfies.
\<close>

text \<open>
  C37. The key suggested for an unknown one is a known key that the fewest edits - changes, deletions
  and insertions of a character - turn it into, within the budget for a typing error; there is no
  suggestion exactly when every known key is further away than the budget.
\<close>

theorem nearest_key_exact:
  "(nearest_known_key found known = None \<longleftrightarrow>
     (\<forall>c \<in> set known. \<forall>n. edits found c n \<longrightarrow> typo_budget found < n)) \<and>
   (\<forall>k. nearest_known_key found known = Some k \<longrightarrow>
     k \<in> set known \<and> (\<exists>n \<le> typo_budget found. edits found k n \<and>
       (\<forall>c \<in> set known. \<forall>m. edits found c m \<longrightarrow> n \<le> m)))"
proof -
  have dist: "edits found c (edit_distance found c)"
    "edits found c n \<Longrightarrow> edit_distance found c \<le> n" for c n
    using edit_distance_least [of found c n] by auto
  have "nearest_known_key found known = None \<longleftrightarrow>
     (\<forall>c \<in> set known. \<forall>n. edits found c n \<longrightarrow> typo_budget found < n)"
    unfolding nearest_key_None by (meson dist less_le_trans)
  moreover have "k \<in> set known \<and> (\<exists>n \<le> typo_budget found. edits found k n \<and>
       (\<forall>c \<in> set known. \<forall>m. edits found c m \<longrightarrow> n \<le> m))"
    if "nearest_known_key found known = Some k" for k
    using nearest_key_Some [OF that] dist by (meson le_trans)
  ultimately show ?thesis by blast
qed

lemma nearest_key_exact_witness:
  "\<exists>n \<le> 2. edits ''verzion'' ''version'' n"
proof -
  have "nearest_known_key ''verzion'' [''name'', ''version''] = Some ''version''" by code_simp
  moreover have "typo_budget ''verzion'' = 2" by code_simp
  ultimately show ?thesis using nearest_key_exact [of "''verzion''" "[''name'', ''version'']"] by auto
qed

text \<open>
  C38. A text of literals and references \<open>${NAME}\<close> is interpolated to the literals with the values of
  the variables in their place when all of them are set; otherwise the error names the first one
  that is not.
\<close>

theorem env_interpolation_exact:
  assumes "list_all segment_ok segs"
  shows "((\<forall>x. Reference x \<in> set segs \<longrightarrow> env x \<noteq> None) \<longrightarrow>
      interpolate_env env src key (concat (map segment_text segs)) =
        Inr (concat (map (segment_value env) segs))) \<and>
    (\<forall>pre x post. segs = pre @ Reference x # post \<longrightarrow> (\<forall>y. Reference y \<in> set pre \<longrightarrow> env y \<noteq> None) \<longrightarrow>
      env x = None \<longrightarrow>
      interpolate_env env src key (concat (map segment_text segs)) = Inl (env_var_not_found src key x))"
proof -
  have "find (unset_reference env) segs = None" if "\<forall>x. Reference x \<in> set segs \<longrightarrow> env x \<noteq> None"
    using that by (auto simp: find_None_iff unset_reference_def)
  moreover have "find (unset_reference env) (pre @ Reference x # post) = Some (Reference x)"
    if "\<forall>y. Reference y \<in> set pre \<longrightarrow> env y \<noteq> None" "env x = None" for pre x post
    using that by (induction pre) (auto simp: unset_reference_def)
  ultimately show ?thesis unfolding interpolate_segments [OF assms] by auto
qed

lemma env_interpolation_exact_witness:
  "interpolate_env [''PORT'' \<mapsto> ''80''] ''Torvyn.toml'' ''k'' ''host:${PORT}'' = Inr ''host:80''"
  using env_interpolation_exact [of "[Literal ''host:'', Reference ''PORT'']" "[''PORT'' \<mapsto> ''80'']"
      "''Torvyn.toml''" "''k''"]
  by (simp add: opt_or_def)

text \<open>
  C39. A project loads exactly when its checks pass. Its manifest is read, as it stands: no variable is
  replaced in it and no layer merged into it. Its names and versions are valid, and so are its settings, of
  which the metrics exporter is prometheus, otlp or none, and not stdout or file. Each inline flow
  converts and has at least two nodes, with a component, an interface and a priority from 1 to 10, and at least
  one edge, all of them between two different nodes of the flow and with no queue depth of zero; its
  memory limits and scheduling policy are not checked, so any others load as well. The file
  \<open>pipeline.toml\<close> beside the manifest, if there is one, holds at least one flow, only such flows, with readable
  memory limits and known scheduling policies, and valid settings. The flows of the project are those of the
  manifest, with those of the file in their place where the names agree.
\<close>

theorem project_loading_exact:
  "(load_config env path = Inr c \<longleftrightarrow>
   (\<exists>s. cv_read env path = FileText s \<and> cv_manifest_from_str env s = Inr (rc_manifest c)) \<and>
   project_ok (rc_manifest c) \<and> runtime_ok (cv_trim env) (cm_runtime (rc_manifest c)) \<and>
   xg_tracing_exporter (cm_observability (rc_manifest c)) \<in> {''otlp-grpc'', ''otlp-http'', ''stdout'', ''none''} \<and>
   ro_in_unit (cv_rate env) (xg_tracing_sample_rate (cm_observability (rc_manifest c))) \<and>
   xg_metrics_exporter (cm_observability (rc_manifest c)) \<in> {''prometheus'', ''otlp'', ''none''} \<and>
   yg_default_capability_policy (cm_security (rc_manifest c)) \<in> {''deny-all'', ''allow-all''} \<and>
   (\<forall>(_, v) \<in> set (cm_flow (rc_manifest c)). \<exists>f. cv_flow_try_into env v = Inr f \<and> flow_ok f) \<and>
   rc_source_file c = path \<and>
   (\<exists>inline. inline = fold (\<lambda>(name, v). btree_insert name (projr (cv_flow_try_into env v)))
        (cm_flow (rc_manifest c)) [] \<and>
      (if cv_exists env (cv_beside env path ''pipeline.toml'') then
         (\<exists>s p. cv_read env (cv_beside env path ''pipeline.toml'') = FileText s \<and>
            cv_pipeline_from_str env s = Inr p \<and> pf_flows p \<noteq> [] \<and>
            (\<forall>(_, f) \<in> set (pf_flows p). flow_ok f \<and> limits_ok (cv_trim env) f) \<and>
            overrides_ok (cv_trim env) (cv_rate env) p \<and>
            rc_flows c = fold (\<lambda>(name, f). btree_insert name f) (pf_flows p) inline)
       else rc_flows c = inline))) \<and>
   (load_config env path = Inr c \<longrightarrow>
    (\<exists>c'. load_config (env\<lparr>cv_flow_try_into := map_sum id (with_limits memory policy) \<circ> cv_flow_try_into env\<rparr>) path =
       Inr c'))"
  (is "(?L \<longleftrightarrow> ?R) \<and> (?L \<longrightarrow> ?any)")
proof
  show "?L \<longleftrightarrow> ?R"
    unfolding load_config_ok observability_ok_def security_ok_def valid_tracing_exporters_def
      valid_metrics_exporters_def valid_capability_policies_def by (simp only: list.set conj_assoc)
  show "?L \<longrightarrow> ?any"
  proof
    let ?env = "env\<lparr>cv_flow_try_into := map_sum id (with_limits memory policy) \<circ> cv_flow_try_into env\<rparr>"
    let ?inline = "fold (\<lambda>(name, v). btree_insert name (projr (cv_flow_try_into ?env v))) (cm_flow (rc_manifest c)) []"
    assume l: ?L
    define result where "result flows = \<lparr>rc_manifest = rc_manifest c, rc_flows = flows, rc_source_file = path\<rparr>" for flows
    have "\<forall>(_, v) \<in> set (cm_flow (rc_manifest c)). \<exists>f. cv_flow_try_into ?env v = Inr f \<and> flow_ok f"
      using l unfolding load_config_ok by (fastforce simp: flow_ok_with_limits)
    with l have good: "load_config ?env path = Inr (result flows) \<longleftrightarrow>
        (if cv_exists env (cv_beside env path ''pipeline.toml'') then
           (\<exists>s p. cv_read env (cv_beside env path ''pipeline.toml'') = FileText s \<and>
              cv_pipeline_from_str env s = Inr p \<and> pf_flows p \<noteq> [] \<and>
              (\<forall>(_, f) \<in> set (pf_flows p). flow_ok f \<and> limits_ok (cv_trim env) f) \<and>
              overrides_ok (cv_trim env) (cv_rate env) p \<and>
              flows = fold (\<lambda>(name, f). btree_insert name f) (pf_flows p) ?inline)
         else flows = ?inline)" for flows
      unfolding load_config_ok by (simp add: result_def)
    show ?any
    proof (cases "cv_exists env (cv_beside env path ''pipeline.toml'')")
      case True
      with l obtain s p where "cv_read env (cv_beside env path ''pipeline.toml'') = FileText s"
        "cv_pipeline_from_str env s = Inr p" "pf_flows p \<noteq> []"
        "\<forall>(_, f) \<in> set (pf_flows p). flow_ok f \<and> limits_ok (cv_trim env) f"
        "overrides_ok (cv_trim env) (cv_rate env) p"
        unfolding load_config_ok by auto
      with True have "load_config ?env path =
          Inr (result (fold (\<lambda>(name, f). btree_insert name f) (pf_flows p) ?inline))"
        unfolding good by auto
      then show ?thesis ..
    next
      case False
      then have "load_config ?env path = Inr (result ?inline)" by (simp only: good if_False)
      then show ?thesis ..
    qed
  qed
qed

definition flow_def_example :: flow_def where
  "flow_def_example =
     \<lparr>fd_description = [],
      fd_nodes =
        [(''k'', \<lparr>nd_component = ''mock://k'', nd_interface = ''torvyn:streaming/sink'', nd_config = None,
           nd_fuel_budget = None, nd_max_memory = None, nd_priority = None\<rparr>),
         (''s'', \<lparr>nd_component = ''mock://s'', nd_interface = ''torvyn:streaming/source'', nd_config = None,
           nd_fuel_budget = None, nd_max_memory = None, nd_priority = Some 5\<rparr>)],
      fd_edges =
        [\<lparr>ed_from = \<lparr>en_node = ''s'', en_port = ''output''\<rparr>, ed_to = \<lparr>en_node = ''k'', en_port = ''input''\<rparr>,
          ed_queue_depth = Some 8, ed_backpressure = None\<rparr>],
      fd_scheduling_policy = None, fd_default_queue_depth = None, fd_backpressure = None\<rparr>"

definition manifest_file_example :: "nat config_manifest" where
  "manifest_file_example =
     \<lparr>cm_torvyn = project_metadata_default\<lparr>pj_name := ''demo''\<rparr>, cm_components = [],
      cm_build = build_config_default, cm_test = test_config_default,
      cm_runtime = runtime_config_default\<lparr>rg_max_memory_per_component := ''16''\<rparr>,
      cm_observability = observability_toml_default
        \<lparr>ro_one = 1, ro_differs = (\<noteq>), ro_in_unit = (\<lambda>r. r \<le> 1), ro_show = decimal\<rparr>,
      cm_security = security_config_default, cm_registry_default = None,
      cm_flow = [(''main'', TomlOther)]\<rparr>"

definition config_env_example :: "nat config_env" where
  "config_env_example =
     \<lparr>cv_trim = id, cv_trim_start = id,
      cv_rate = \<lparr>ro_one = 1, ro_differs = (\<noteq>), ro_in_unit = (\<lambda>r. r \<le> 1), ro_show = decimal\<rparr>,
      cv_read = (\<lambda>p. if p = ''Torvyn.toml'' then FileText [] else FileMissing), cv_exists = (\<lambda>_. False),
      cv_beside = (\<lambda>_ f. f), cv_manifest_from_str = (\<lambda>_. Inr manifest_file_example),
      cv_pipeline_from_str = (\<lambda>_. Inl \<lparr>te_text = [], te_span = None\<rparr>),
      cv_flow_try_into = (\<lambda>_. Inr flow_def_example)\<rparr>"

text \<open>
  The flow of the example loads whatever its limits; with the metrics exporter \<open>stdout\<close> nothing does.
\<close>

lemma project_loading_exact_witness:
  "load_config config_env_example ''Torvyn.toml'' =
     Inr \<lparr>rc_manifest = manifest_file_example, rc_flows = [(''main'', flow_def_example)],
       rc_source_file = ''Torvyn.toml''\<rparr> \<and>
   (\<exists>c. load_config (config_env_example\<lparr>cv_flow_try_into :=
       map_sum id (with_limits (Some ''plenty'') (Some ''fastest'')) \<circ> cv_flow_try_into config_env_example\<rparr>)
     ''Torvyn.toml'' = Inr c) \<and>
   (\<nexists>c. load_config (config_env_example\<lparr>cv_manifest_from_str := \<lambda>_. Inr (manifest_file_example\<lparr>cm_observability :=
       cm_observability manifest_file_example\<lparr>xg_metrics_exporter := ''stdout''\<rparr>\<rparr>)\<rparr>) ''Torvyn.toml'' = Inr c)"
proof -
  have "flow_ok flow_def_example" by (simp add: flow_ok_def flow_def_example_def word_le_nat_alt)
  moreover have "project_ok manifest_file_example"
    by (simp add: project_ok_def manifest_file_example_def project_metadata_default_def is_valid_name_def
        is_ascii_alphanumeric_def is_valid_semver_def parse_u64_def is_digit_def digits_value_def)
  moreover have "runtime_ok id (cm_runtime manifest_file_example)"
    by (simp add: runtime_ok_def manifest_file_example_def runtime_config_default_def
        scheduling_config_default_def backpressure_config_default_def valid_scheduling_policies_def
        valid_backpressure_policies_def parse_memory_size_def memory_multiplier_def lower_units
        is_digit_def digits_value_def word_le_nat_alt)
  moreover have "xg_tracing_exporter (cm_observability manifest_file_example) = ''stdout''"
    "xg_tracing_sample_rate (cm_observability manifest_file_example) = 1"
    "xg_metrics_exporter (cm_observability manifest_file_example) = ''none''"
    by (simp_all add: manifest_file_example_def observability_toml_default_def)
  moreover have "yg_default_capability_policy (cm_security manifest_file_example) = ''deny-all''"
    by (simp add: manifest_file_example_def security_config_default_def)
  moreover have "cm_flow manifest_file_example = [(''main'', TomlOther)]"
    by (simp add: manifest_file_example_def)
  ultimately have loads: "load_config config_env_example ''Torvyn.toml'' =
     Inr \<lparr>rc_manifest = manifest_file_example, rc_flows = [(''main'', flow_def_example)],
       rc_source_file = ''Torvyn.toml''\<rparr>"
    by (simp add: project_loading_exact [THEN conjunct1] config_env_example_def)
  moreover have "\<exists>c. load_config (config_env_example\<lparr>cv_flow_try_into :=
       map_sum id (with_limits (Some ''plenty'') (Some ''fastest'')) \<circ> cv_flow_try_into config_env_example\<rparr>)
     ''Torvyn.toml'' = Inr c"
    by (rule project_loading_exact [THEN conjunct2, THEN mp, OF loads])
  moreover have "\<nexists>c. load_config (config_env_example\<lparr>cv_manifest_from_str := \<lambda>_. Inr (manifest_file_example\<lparr>cm_observability :=
       cm_observability manifest_file_example\<lparr>xg_metrics_exporter := ''stdout''\<rparr>\<rparr>)\<rparr>) ''Torvyn.toml'' = Inr c"
  proof (intro notI, elim exE)
    fix c assume "load_config (config_env_example\<lparr>cv_manifest_from_str := \<lambda>_. Inr (manifest_file_example\<lparr>cm_observability :=
       cm_observability manifest_file_example\<lparr>xg_metrics_exporter := ''stdout''\<rparr>\<rparr>)\<rparr>) ''Torvyn.toml'' = Inr c"
    note c = this [unfolded project_loading_exact [THEN conjunct1]]
    from c have m: "rc_manifest c = manifest_file_example\<lparr>cm_observability :=
       cm_observability manifest_file_example\<lparr>xg_metrics_exporter := ''stdout''\<rparr>\<rparr>" by simp
    from c have "xg_metrics_exporter (cm_observability (rc_manifest c)) \<in> {''prometheus'', ''otlp'', ''none''}"
      by (elim conjE)
    then show False by (simp add: m)
  qed
  ultimately show ?thesis by blast
qed

end
