(* ===== verification/Pip_Convert_Props.thy ===== *)
theory Pip_Convert_Props
  imports Pip_Convert Cfg_Props
begin

text \<open>
  The property of the conversion of configured flows: what a flow definition that the configuration
  accepts becomes.
\<close>

text \<open>
  C40. A well-formed flow definition converts without a panic. It becomes a pipeline exactly when every
  node has a readable memory limit, capability grants that parse and a component that resolves, and
  the graph of its nodes in their inferred roles is a valid topology. The pipeline then has the nodes
  of the definition in order, each in a sandbox with exactly its grants, and its edges, with their
  settings, between the nodes named.
\<close>

theorem flow_conversion_exact:
  assumes "walk_ok walk" and "flow_ok f" and "distinct (map fst (fd_nodes f))"
  shows "\<exists>r. flow_def_to_topology env walk flow f sec idx = Some r \<and>
    ((\<exists>p. r = Inr p) \<longleftrightarrow>
       (\<forall>kn \<in> set (fd_nodes f). convertible env sec idx kn) \<and>
       pipeline_ok (map (converted_node env sec idx) (fd_nodes f))
         (resolved_edges (flow_builder env flow f sec idx))) \<and>
    (\<forall>p. r = Inr p \<longrightarrow>
       pl_name p = flow \<and> pl_nodes p = map (converted_node env sec idx) (fd_nodes f) \<and>
       map (named_edge (pl_nodes p)) (pl_edges p) =
         map (\<lambda>e. (en_node (ed_from e), en_port (ed_from e), en_node (ed_to e), en_port (ed_to e),
           edge_def_to_config e)) (fd_edges f) \<and>
       topological (length (fd_nodes f)) (pairs (pl_edges p)) (pl_execution_order p))"
proof (cases "\<forall>kn \<in> set (fd_nodes f). convertible env sec idx kn")
  case True
  let ?b = "flow_builder env flow f sec idx"
  note fields = flow_builder_fields [of env flow f sec idx]
  have ok: "builder_ok ?b" by (rule flow_builder_ok [OF assms(2,3)])
  have conv: "flow_def_to_topology env walk flow f sec idx = build walk ?b"
    by (simp only: conversion_cases if_P [OF True])
  have named: "map (named_edge (map (converted_node env sec idx) (fd_nodes f))) (resolved_edges ?b) =
      map (\<lambda>e. (en_node (ed_from e), en_port (ed_from e), en_node (ed_to e), en_port (ed_to e),
        edge_def_to_config e)) (fd_edges f)"
    using resolved_edges_named [OF fields(3) ok] by (simp add: fields pending_of_def comp_def)
  show ?thesis
  proof (cases rule: build_cases [OF assms(1) fields(3)])
    case (1 order)
    with True named show ?thesis
      unfolding conv by (simp add: pipeline_new_unchecked_def fields)
  next
    case (2 errs)
    with ok have "\<not> pipeline_ok (map (converted_node env sec idx) (fd_nodes f)) (resolved_edges ?b)"
      by (simp add: fields)
    with 2(1) show ?thesis unfolding conv by simp
  qed
next
  case False
  then show ?thesis by (simp only: conversion_cases if_False) simp
qed

definition convert_env_example :: convert_env where
  "convert_env_example = \<lparr>cx_trim = id, cx_ops = (id, id), cx_is_file = (\<lambda>_. False)\<rparr>"

lemma flow_conversion_exact_witness:
  "\<exists>p. flow_def_to_topology convert_env_example (\<lambda>xs. xs) ''main'' flow_def_example
       security_config_default component_index_empty = Some (Inr p) \<and>
     map (named_edge (pl_nodes p)) (pl_edges p) =
       [(''s'', ''output'', ''k'', ''input'', \<lparr>ec_queue_depth = Some 8, ec_backpressure_policy = None\<rparr>)]"
proof -
  have accepted: "case flow_def_to_topology convert_env_example (\<lambda>xs. xs) ''main'' flow_def_example
      security_config_default component_index_empty of Some (Inr _) \<Rightarrow> True | _ \<Rightarrow> False"
    by code_simp
  have ok: "walk_ok (\<lambda>xs. xs)" by (simp add: walk_ok_def)
  have flow: "flow_ok flow_def_example" by (simp add: flow_ok_def flow_def_example_def word_le_nat_alt)
  have nodes: "distinct (map fst (fd_nodes flow_def_example))" by (simp add: flow_def_example_def)
  obtain r where r: "flow_def_to_topology convert_env_example (\<lambda>xs. xs) ''main'' flow_def_example
      security_config_default component_index_empty = Some r"
    and edges: "\<And>p. r = Inr p \<Longrightarrow> map (named_edge (pl_nodes p)) (pl_edges p) =
      map (\<lambda>e. (en_node (ed_from e), en_port (ed_from e), en_node (ed_to e), en_port (ed_to e),
        edge_def_to_config e)) (fd_edges flow_def_example)"
    using flow_conversion_exact [OF ok flow nodes, of convert_env_example "''main''"
        security_config_default component_index_empty] by blast
  from accepted r obtain p where "r = Inr p" by (cases r) simp_all
  with r edges show ?thesis by (simp add: flow_def_example_def edge_def_to_config_def)
qed

end
