(* ===== verification/Spec2Isabelle.thy ===== *)
theory Spec2Isabelle
  imports Res_Props Rea_Run_Props Sec_Props Pip_Props Lnk_Props Obs_Props Con_Props Pip_Convert_Props
begin

text \<open>
  A verification of the runtime core of Torvyn: the resource manager (\<open>crates/torvyn-resources\<close>),
  the reactor (\<open>crates/torvyn-reactor\<close>), the capability system (\<open>crates/torvyn-security\<close>), the
  pipelines on top of them (\<open>crates/torvyn-pipeline\<close>), the linker of component graphs
  (\<open>crates/torvyn-linker\<close>), the observability of a run (\<open>crates/torvyn-observability\<close>), the
  validation of contracts before linking (\<open>crates/torvyn-contracts\<close>) and the configuration
  (\<open>crates/torvyn-config\<close>), over the shared types (\<open>crates/torvyn-types\<close>).

  \<^bold>\<open>How the parts interact.\<close> A flow is a pipeline of components. The coordinator of the reactor
  validates its topology, makes one bounded stream per connection and starts a driver. The driver
  asks the scheduler for a stage that can run, executes it (which moves references to elements
  through the streams), checks backpressure and yields; after it ends it drains the queues and
  reports a state. The elements are buffers of the resource manager: handles into a slab with
  generations, an owner and borrows per entry, memory from pools, a budget per component and an
  account of copies per flow. When a flow has finished, the coordinator reclaims its buffers.

  \<^bold>\<open>Shared types.\<close> \<open>Prelude\<close> holds generic lemmas and the saturating and decimal helpers;
  \<open>Torvyn_Types\<close> the identifiers, enumerations, errors and the two state machines of
  \<open>identity.rs\<close>, \<open>enums.rs\<close>, \<open>error.rs\<close> and \<open>state.rs\<close>.

  \<^bold>\<open>Resource manager.\<close> \<open>Res_Handle\<close> (\<open>handle.rs\<close>: entries, tiers, content types), \<open>Res_Buffer\<close>
  (\<open>buffer.rs\<close>: payload memory over an explicit heap), \<open>Res_Ownership\<close> (\<open>ownership.rs\<close>),
  \<open>Res_Table\<close> (\<open>table.rs\<close>: the slab with its free list and generations), \<open>Res_Pool\<close>
  (\<open>pool.rs\<close>), \<open>Res_Budget\<close> (\<open>budget.rs\<close>), \<open>Res_Accounting\<close> (\<open>accounting.rs\<close>) and
  \<open>Res_Manager\<close> (\<open>manager.rs\<close>). \<open>Res_Manager_Inv\<close>, \<open>_Ops\<close> and \<open>_Reclaim\<close> prove the
  invariant of every method, \<open>Res_Manager_Spec\<close> the refinement of an abstract contract, and
  \<open>Res_Manager_Props\<close> and \<open>Res_Props\<close> the properties. Each interface is a locale (the slab, the
  budget, the tiers, ownership) interpreted on the model's own definitions.

  \<^bold>\<open>Reactor.\<close> \<open>Rea_Queue\<close> (\<open>queue.rs\<close>, with the locale \<open>bounded_fifo\<close>), \<open>Rea_Control\<close>
  (\<open>error.rs\<close>, \<open>cancellation.rs\<close>, \<open>fairness.rs\<close>, \<open>config.rs\<close>), \<open>Rea_Stream\<close> (\<open>backpressure.rs\<close>,
  \<open>demand.rs\<close>, \<open>stream.rs\<close>, \<open>metrics.rs\<close>), \<open>Rea_Topology\<close> (\<open>topology.rs\<close>), \<open>Rea_Scheduling\<close>
  (\<open>scheduling.rs\<close>), \<open>Rea_Driver\<close> (\<open>flow_driver.rs\<close>) and \<open>Rea_Coordinator\<close>
  (\<open>coordinator.rs\<close>, \<open>events.rs\<close>). \<open>Rea_Driver_Inv\<close> relates the driver to an abstract network
  of channels, \<open>Rea_Driver_Turn\<close> and \<open>Rea_Driver_Loop\<close> carry the invariant through a turn,
  \<open>Rea_Driver_Live\<close> bounds the work, \<open>Rea_Driver_Run\<close> treats the end of a run, \<open>Rea_Coord_Inv\<close>
  and \<open>Rea_Coord_Run\<close> the coordinator; \<open>Rea_Props\<close> and \<open>Rea_Run_Props\<close> state the properties.

  \<^bold>\<open>Security.\<close> Before a component runs, its declared capabilities are resolved against the grants of
  the operator and turned into the configuration of its sandbox. \<open>Sec_Text\<close> holds the string operations
  of the standard library that the parsers use, \<open>Sec_Capability\<close> \<open>capability.rs\<close>, \<open>Sec_Resolver\<close>
  \<open>manifest.rs\<close>, \<open>resolver.rs\<close>, \<open>guard.rs\<close>, \<open>audit.rs\<close>, \<open>tenant.rs\<close>, \<open>error.rs\<close> and
  \<open>sandbox.rs\<close>. \<open>Sec_Scope\<close> proves when coverage of scopes is sound for single accesses and when not, and
  what the text form reads back as; \<open>Sec_Props\<close> states the properties. Lower case, trimming and the clock of the
  audit events are arguments.

  \<^bold>\<open>Pipelines.\<close> A builder collects named nodes and edges, validates the graph and orders it; an accepted
  pipeline is instantiated node by node with its sandbox and handed to the reactor as a topology.
  \<open>Graph_Search\<close> holds lemmas on counting, walks and depth-first searches; \<open>Pip_Error\<close> is \<open>error.rs\<close>,
  \<open>Pip_Topology\<close> \<open>topology.rs\<close>, \<open>validate.rs\<close> and \<open>builder.rs\<close>, \<open>Pip_Cycle\<close> the correctness of the
  search for the reported cycle, \<open>Pip_Build\<close> what the validation and the builder accept,
  \<open>Pip_Instantiate\<close> \<open>instantiate.rs\<close>, \<open>shutdown.rs\<close>, \<open>handle.rs\<close>, the reactor's handle and the mock
  engine, \<open>Pip_Run\<close> that the reactor accepts what the builder accepts and what the engine sees of an
  instantiation, and \<open>Pip_Props\<close> the properties. The walk up the parents of the depth-first search has
  fuel, the number of nodes, which is enough because a path visits a node once.

  \<^bold>\<open>Linker.\<close> Before anything is instantiated, the linker checks a graph of named components, resolves
  every import to an export of an upstream component or to the host, checks the capability grants
  and assembles the components in topological order. \<open>Lnk_Topology\<close> is \<open>error.rs\<close> and
  \<open>topology.rs\<close>, \<open>Lnk_Linker\<close> \<open>resolver.rs\<close>, \<open>linker.rs\<close> and \<open>linked_pipeline.rs\<close>,
  \<open>Lnk_Graph\<close> proves the depth-first search and the ordering over names correct, \<open>Lnk_Link\<close> says
  when each check adds no error, and \<open>Lnk_Props\<close> states the properties.

  \<^bold>\<open>Observability.\<close> The driver reports each call, transfer and latency to an event sink; the collector
  behind it counts them per flow, component and stream, keeps the latest spans and reports when the
  flow ends. \<open>Obs_Metrics\<close> holds counters, gauges and histograms (\<open>metrics/counter.rs\<close>,
  \<open>gauge.rs\<close>, \<open>histogram.rs\<close>) and relates a histogram to its samples, \<open>Obs_Flow\<close> the metrics of
  flows and pools, their snapshots and the registry, \<open>Obs_Tracer\<close> the files of \<open>tracer/\<close> and what
  the span buffer and the span identifiers keep, \<open>Obs_Events\<close> the files of \<open>events/\<close> and
  \<open>config.rs\<close>, \<open>Obs_Collector\<close> \<open>collector.rs\<close>. \<open>Obs_Deliver\<close> delivers the log of a driver to a
  collector and \<open>Obs_Props\<close> states the properties.

  \<^bold>\<open>Contracts.\<close> A component is checked alone, against its manifest and WIT packages, and a pipeline as a
  whole: its graph, the versions of the interfaces along each connection and the grants.
  \<open>Con_Error\<close> is \<open>errors.rs\<close>, \<open>Con_Compat\<close> \<open>compatibility.rs\<close> with the parsed data of \<open>parser.rs\<close>
  and what a verdict says of the contract \<open>offers_kept\<close> (members of flags, targets of aliases and items of
  worlds are not compared), \<open>Con_Manifest\<close> and \<open>Con_Validate\<close> \<open>validator.rs\<close>, \<open>Con_Link\<close>
  \<open>linker.rs\<close> with its search for a cycle, and \<open>Con_Props\<close> states the properties. Tables of a TOML
  file, packages of a WIT parser and the operations on semantic versions are arguments.

  \<^bold>\<open>Configuration.\<close> A project is a manifest with inline flows and, beside it, a file of pipelines.
  \<open>Cfg_Error\<close> is \<open>error.rs\<close> with the edit distance behind its suggestions, \<open>Cfg_Runtime\<close>
  \<open>runtime.rs\<close> and \<open>merge.rs\<close>, \<open>Cfg_Env\<close> \<open>env.rs\<close>, \<open>Cfg_Manifest\<close> \<open>manifest.rs\<close>,
  \<open>Cfg_Pipeline\<close> \<open>pipeline.rs\<close>, \<open>validate.rs\<close> and \<open>loader.rs\<close> with what each check accepts, and
  \<open>Cfg_Props\<close> states the properties. The TOML library, the file system and the environment are
  arguments. \<open>Pip_Convert\<close> (\<open>resolve.rs\<close> and \<open>convert.rs\<close> of \<open>crates/torvyn-pipeline\<close>) turns a flow
  definition into a call of the builder, and \<open>Pip_Convert_Props\<close> says what pipeline comes out.

  \<^bold>\<open>Conventions.\<close> Machine integers that may wrap are words; indices and lengths (\<open>usize\<close>) are
  natural numbers. A panic is \<open>None\<close>, an error is \<open>Inl\<close>. What lies outside is an argument: the
  system allocator, the order in which a hash set is walked, clock readings, the answers of the
  components, the texts of the standard library. Concurrency is interleaving of explicit steps:
  a method of the manager is one step, as its lock makes it, and a turn of a driver is one step of
  its task. Every other loop of the code is a recursion that terminates, or runs over the finite list
  of turns or polls that the outside gives it.

  \<^bold>\<open>Not modelled.\<close> The logging macros, \<open>Drop\<close> and \<open>Display\<close> implementations that nothing reads,
  the waking of waiting tasks, floating-point arithmetic (ratios, means and percentile
  interpolation are arguments), the readers of TOML and WIT files, the channels of \<open>handle.rs\<close>, the exporters of metrics and spans,
  and the crates around the core (engine, host, command line, packaging).
\<close>

end
